(* ===== verification/Prelude.thy ===== *)
theory Prelude
  imports Main "HOL-Library.Char_ord" "HOL-Library.List_Lexorder" "HOL-Library.Option_ord"
    "HOL-Library.Product_Lexorder" "HOL-Library.Word"
begin

text \<open>
  What the component theories share: Rust's \<open>BTreeMap\<close> and \<open>BTreeSet\<close> as key-sorted
  association lists and lists (iteration order is key order, as in the library), the interface
  \<open>keyed_map\<close> their clients use, strings as UTF-8 byte lists with the few string operations of
  the standard library the code calls, and the decimal \<open>Display\<close> of integers. The collections
  \<open>bm_simps\<close> and \<open>code_defs\<close> gather the rewrite rules of the maps and the unfolding
  equations used when a closed instance is evaluated.
\<close>

named_theorems bm_simps \<open>rewrite rules of sorted association maps\<close>
named_theorems code_defs \<open>definitions to unfold when a closed instance is evaluated\<close>

section \<open>Bytes, strings, results\<close>

type_synonym byte = "8 word"
type_synonym bytes = "8 word list"

text \<open>A Rust \<open>String\<close> is its UTF-8 byte sequence; a HOL \<open>char\<close> is one byte of it.\<close>

definition str_bytes :: "string \<Rightarrow> bytes" where
  [code_defs]: "str_bytes s = map of_char s"

lemma unat_of_char_byte: "unat (of_char c :: byte) = of_char c"
proof -
  have "(of_char c :: byte) = of_nat (of_char c)" by (simp only: of_nat_of_char)
  then have "unat (of_char c :: byte) = unat (of_nat (of_char c) :: byte)" by (rule arg_cong)
  then show ?thesis by (simp add: unat_of_nat)
qed

lemma of_char_byte_inj: "inj (of_char :: char \<Rightarrow> byte)"
  by (rule injI) (metis of_char_eqI unat_of_char_byte)

lemma str_bytes_inj [simp]: "str_bytes s = str_bytes t \<longleftrightarrow> s = t"
  unfolding str_bytes_def by (simp add: inj_map_eq_map of_char_byte_inj)

lemma str_bytes_append [simp]: "str_bytes (s @ t) = str_bytes s @ str_bytes t"
  by (simp add: str_bytes_def)

lemma length_str_bytes [simp]: "length (str_bytes s) = length s"
  by (simp add: str_bytes_def)

lemma str_bytes_Nil [simp]: "str_bytes [] = []"
  by (simp add: str_bytes_def)

text \<open>\<open>Display\<close> of an unsigned integer: its decimal digits.\<close>

fun show_nat :: "nat \<Rightarrow> string" where
  "show_nat n = (if n < 10 then [char_of (48 + n)] else show_nat (n div 10) @ [char_of (48 + n mod 10)])"

declare show_nat.simps [simp del]

text \<open>\<open>str::split_once\<close> on one byte: the first occurrence splits the string.\<close>

fun split_once :: "char \<Rightarrow> string \<Rightarrow> (string \<times> string) option" where
  "split_once c [] = None"
| "split_once c (x # xs) =
     (if x = c then Some ([], xs)
      else (case split_once c xs of None \<Rightarrow> None | Some (a, b) \<Rightarrow> Some (x # a, b)))"

lemma split_once_Some: "split_once c s = Some (a, b) \<Longrightarrow> s = a @ c # b \<and> c \<notin> set a"
  by (induction c s arbitrary: a b rule: split_once.induct) (auto split: if_splits option.splits)

lemma split_once_None: "split_once c s = None \<longleftrightarrow> c \<notin> set s"
  by (induction c s rule: split_once.induct) (auto split: if_splits option.splits)

lemma split_once_append: "c \<notin> set a \<Longrightarrow> split_once c (a @ c # b) = Some (a, b)"
  by (induction a) auto

text \<open>Two strings around the first separator determine their parts.\<close>

lemma first_sep_unique:
  "a @ c # b = a' @ c # b' \<Longrightarrow> c \<notin> set a \<Longrightarrow> c \<notin> set a' \<Longrightarrow> a = a' \<and> b = b'"
proof (induction a arbitrary: a')
  case Nil
  then show ?case by (cases a') auto
next
  case (Cons x a)
  then show ?case by (cases a') auto
qed

text \<open>Errors are \<open>Inl\<close>; \<open>collect_results\<close> is \<open>?\<close> in a loop that maps every element.\<close>

fun collect_results :: "('e + 'a) list \<Rightarrow> 'e + 'a list" where
  "collect_results [] = Inr []"
| "collect_results (r # rs) =
     (case r of Inl e \<Rightarrow> Inl e
      | Inr a \<Rightarrow> (case collect_results rs of Inl e \<Rightarrow> Inl e | Inr as \<Rightarrow> Inr (a # as)))"

lemma collect_results_map_Inr:
  "(\<And>x. x \<in> set xs \<Longrightarrow> f x = Inr (g x)) \<Longrightarrow> collect_results (map f xs) = Inr (map g xs)"
  by (induction xs) auto

lemma collect_results_map_Inr_id [simp]: "collect_results (map Inr as) = Inr as"
  by (induction as) auto

lemma collect_results_InrD: "collect_results rs = Inr as \<Longrightarrow> rs = map Inr as"
  by (induction rs arbitrary: as) (auto split: sum.splits)

text \<open>A loop whose body may leave with an error.\<close>

fun try_fold :: "('a \<Rightarrow> 's \<Rightarrow> 'e + 's) \<Rightarrow> 'a list \<Rightarrow> 's \<Rightarrow> 'e + 's" where
  "try_fold f [] s = Inr s"
| "try_fold f (x # xs) s = (case f x s of Inl e \<Rightarrow> Inl e | Inr s' \<Rightarrow> try_fold f xs s')"

lemma try_fold_Inr:
  "(\<And>x s. x \<in> set xs \<Longrightarrow> f x s = Inr (g x s)) \<Longrightarrow> try_fold f xs s = Inr (fold g xs s)"
  by (induction xs arbitrary: s) auto

lemma try_fold_invariant:
  "try_fold f xs s = Inr s' \<Longrightarrow> P s \<Longrightarrow> (\<And>x s s'. x \<in> set xs \<Longrightarrow> P s \<Longrightarrow> f x s = Inr s' \<Longrightarrow> P s') \<Longrightarrow> P s'"
proof (induction xs arbitrary: s)
  case (Cons x xs)
  from Cons.prems(1) obtain t where "f x s = Inr t" "try_fold f xs t = Inr s'" by (auto split: sum.splits)
  with Cons.IH [of t] Cons.prems(2,3) show ?case by (meson list.set_intros)
qed simp

section \<open>Ordered maps\<close>

type_synonym ('k, 'v) bmap = "('k \<times> 'v) list"

fun bm_insert :: "'k::linorder \<Rightarrow> 'v \<Rightarrow> ('k, 'v) bmap \<Rightarrow> ('k, 'v) bmap" where
  "bm_insert k v [] = [(k, v)]"
| "bm_insert k v (e # m) =
     (if fst e < k then e # bm_insert k v m
      else if fst e = k then (k, v) # m
      else (k, v) # e # m)"

definition bm_keys :: "('k, 'v) bmap \<Rightarrow> 'k list" where
  [code_defs]: "bm_keys m = map fst m"

definition bm_values :: "('k, 'v) bmap \<Rightarrow> 'v list" where
  [code_defs]: "bm_values m = map snd m"

definition bm_contains :: "('k, 'v) bmap \<Rightarrow> 'k \<Rightarrow> bool" where
  [code_defs]: "bm_contains m k = (map_of m k \<noteq> None)"

text \<open>\<open>entry(k).or_insert(v)\<close>: an occupied entry keeps its value.\<close>

definition bm_or_insert :: "'k::linorder \<Rightarrow> 'v \<Rightarrow> ('k, 'v) bmap \<Rightarrow> ('k, 'v) bmap" where
  [code_defs]: "bm_or_insert k v m = (if bm_contains m k then m else bm_insert k v m)"

definition bm_wf :: "('k::linorder, 'v) bmap \<Rightarrow> bool" where
  "bm_wf m \<longleftrightarrow> sorted_wrt (<) (map fst m)"

lemma bm_get_insert [bm_simps, simp]: "map_of (bm_insert k v m) = (map_of m)(k \<mapsto> v)"
  by (induction k v m rule: bm_insert.induct) auto

lemma bm_keys_insert [bm_simps, simp]: "fst ` set (bm_insert k v m) = insert k (fst ` set m)"
  by (induction k v m rule: bm_insert.induct) auto

lemma bm_set_insert_subset: "set (bm_insert k v m) \<subseteq> insert (k, v) (set m)"
  by (induction k v m rule: bm_insert.induct) auto

lemma bm_wf_Nil [simp]: "bm_wf []"
  by (simp add: bm_wf_def)

lemma bm_wf_Cons [simp]: "bm_wf (e # m) \<longleftrightarrow> (\<forall>k \<in> fst ` set m. fst e < k) \<and> bm_wf m"
  by (auto simp: bm_wf_def)

lemma bm_wf_insert [simp, intro]: "bm_wf m \<Longrightarrow> bm_wf (bm_insert k v m)"
  by (induction k v m rule: bm_insert.induct) (auto simp: image_iff)

lemma bm_wf_distinct: "bm_wf m \<Longrightarrow> distinct (map fst m)"
  unfolding bm_wf_def using strict_sorted_iff by blast

lemma bm_set_iff: "bm_wf m \<Longrightarrow> (k, v) \<in> set m \<longleftrightarrow> map_of m k = Some v"
  using bm_wf_distinct by fastforce

lemma bm_set_insert:
  assumes "bm_wf m"
  shows "set (bm_insert k v m) = insert (k, v) {e \<in> set m. fst e \<noteq> k}"
proof -
  have "(a, b) \<in> set (bm_insert k v m) \<longleftrightarrow> (a, b) \<in> insert (k, v) {e \<in> set m. fst e \<noteq> k}" for a b
    using bm_set_iff [OF assms, of a b] bm_set_iff [OF bm_wf_insert [OF assms, of k v], of a b]
    by auto
  then show ?thesis by auto
qed

lemma bm_contains_iff [bm_simps]: "bm_contains m k \<longleftrightarrow> k \<in> fst ` set m"
  by (simp add: bm_contains_def map_of_eq_None_iff)

lemma bm_contains_insert [bm_simps, simp]: "bm_contains (bm_insert k v m) j \<longleftrightarrow> j = k \<or> bm_contains m j"
  by (auto simp: bm_contains_iff)

lemma bm_ext:
  assumes "bm_wf m" "bm_wf m'" "map_of m = map_of m'"
  shows "m = m'"
proof -
  have "set m = set m'"
    using bm_set_iff [OF assms(1)] bm_set_iff [OF assms(2)] assms(3) by auto
  moreover have "sorted_wrt (\<lambda>a b. fst a < fst b) m" "sorted_wrt (\<lambda>a b. fst a < fst b) m'"
    using assms(1,2) by (auto simp: bm_wf_def sorted_wrt_map)
  ultimately show ?thesis
  proof (induction m arbitrary: m')
    case Nil
    then show ?case by simp
  next
    case (Cons e m)
    from Cons.prems(1) obtain e' t where m': "m' = e' # t" by (cases m') auto
    have "e = e'"
    proof (rule ccontr)
      assume "e \<noteq> e'"
      with Cons.prems(1) m' have "e \<in> set t" "e' \<in> set m" by auto
      with Cons.prems(2,3) m' have "fst e' < fst e" "fst e < fst e'" by auto
      then show False by simp
    qed
    moreover have "e \<notin> set m" "e' \<notin> set t"
      using Cons.prems(2,3) m' by auto
    with Cons.prems(1) m' \<open>e = e'\<close> have "set m = set t" by auto
    ultimately show ?case using Cons.IH [of t] Cons.prems(2,3) m' by simp
  qed
qed

lemma bm_insert_last: "(\<And>j. j \<in> fst ` set m \<Longrightarrow> j < k) \<Longrightarrow> bm_insert k v m = m @ [(k, v)]"
  by (induction m) auto

lemma bm_insert_same: "bm_wf m \<Longrightarrow> map_of m k = Some v \<Longrightarrow> bm_insert k v m = m"
  by (rule bm_ext) auto

lemma bm_insert_absorb: "bm_insert k v (bm_insert k w m) = bm_insert k v m"
  by (induction k w m rule: bm_insert.induct) auto

lemma bm_length_insert:
  "bm_wf m \<Longrightarrow> length (bm_insert k v m) = (if bm_contains m k then length m else Suc (length m))"
  by (induction k v m rule: bm_insert.induct) (auto simp: bm_contains_iff image_iff)

lemma bm_or_insert_get [bm_simps]:
  "map_of (bm_or_insert k v m) j = (if j = k \<and> map_of m k = None then Some v else map_of m j)"
  by (auto simp: bm_or_insert_def bm_contains_def)

lemma bm_wf_or_insert [simp]: "bm_wf m \<Longrightarrow> bm_wf (bm_or_insert k v m)"
  by (simp add: bm_or_insert_def)

text \<open>Values are those of the entries; under \<open>bm_wf\<close> the range of the lookup.\<close>

lemma bm_values_iff: "bm_wf m \<Longrightarrow> v \<in> set (bm_values m) \<longleftrightarrow> (\<exists>k. map_of m k = Some v)"
  using bm_set_iff by (force simp: bm_values_def)

text \<open>Folding the entries of a well-formed map back into the empty map rebuilds it.\<close>

lemma bm_rebuild_append:
  "bm_wf (a @ m) \<Longrightarrow> fold (\<lambda>e acc. bm_insert (fst e) (snd e) acc) m a = a @ m"
proof (induction m arbitrary: a)
  case (Cons e m)
  from Cons.prems have "\<And>j. j \<in> fst ` set a \<Longrightarrow> j < fst e"
    by (auto simp: bm_wf_def sorted_wrt_append)
  then have "bm_insert (fst e) (snd e) a = a @ [e]" by (simp add: bm_insert_last)
  with Cons show ?case by simp
qed simp

lemma bm_rebuild: "bm_wf m \<Longrightarrow> fold (\<lambda>e acc. bm_insert (fst e) (snd e) acc) m [] = m"
  using bm_rebuild_append [of "[]" m] by simp

section \<open>The interface of a keyed map\<close>

text \<open>
  What the clients of a map rely on: the lookup after an insertion. Folding a list of bindings
  into a map gives the last binding of each key.
\<close>

locale keyed_map =
  fixes look :: "'m \<Rightarrow> 'k \<Rightarrow> 'v option"
    and ins :: "'k \<Rightarrow> 'v \<Rightarrow> 'm \<Rightarrow> 'm"
  assumes look_ins: "look (ins k v m) j = (if j = k then Some v else look m j)"
begin

lemma look_fold:
  "look (fold (\<lambda>x acc. ins (f x) (g x) acc) xs m) j =
     (case map_of (rev (map (\<lambda>x. (f x, g x)) xs)) j of Some v \<Rightarrow> Some v | None \<Rightarrow> look m j)"
  by (induction xs arbitrary: m) (auto simp: look_ins map_add_def split: option.splits)

lemma look_fold_other:
  "j \<notin> f ` set xs \<Longrightarrow> look (fold (\<lambda>x acc. ins (f x) (g x) acc) xs m) j = look m j"
  by (induction xs arbitrary: m) (auto simp: look_ins)

lemma look_fold_distinct:
  "distinct (map f xs) \<Longrightarrow> x \<in> set xs \<Longrightarrow>
     look (fold (\<lambda>x acc. ins (f x) (g x) acc) xs m) (f x) = Some (g x)"
  by (induction xs arbitrary: m) (auto simp: look_ins look_fold_other)

lemma look_fold_ex:
  "j \<in> f ` set xs \<Longrightarrow>
     \<exists>x \<in> set xs. f x = j \<and> look (fold (\<lambda>x acc. ins (f x) (g x) acc) xs m) j = Some (g x)"
proof (induction xs arbitrary: m)
  case (Cons x xs)
  show ?case
  proof (cases "j \<in> f ` set xs")
    case True
    with Cons.IH show ?thesis by fastforce
  next
    case False
    with Cons.prems show ?thesis by (auto simp: look_fold_other look_ins)
  qed
qed simp

end

interpretation bm: keyed_map map_of bm_insert
  by unfold_locales auto

section \<open>Ordered sets\<close>

fun bs_insert :: "'a::linorder \<Rightarrow> 'a list \<Rightarrow> 'a list" where
  "bs_insert x [] = [x]"
| "bs_insert x (y # ys) =
     (if y < x then y # bs_insert x ys else if y = x then y # ys else x # y # ys)"

lemma bs_set_insert [simp]: "set (bs_insert x ys) = insert x (set ys)"
  by (induction x ys rule: bs_insert.induct) auto

lemma bs_sorted_insert: "sorted_wrt (<) ys \<Longrightarrow> sorted_wrt (<) (bs_insert x ys)"
  by (induction x ys rule: bs_insert.induct) auto

section \<open>Indices\<close>

text \<open>\<open>entry(k).or_default().insert(v)\<close> on a map to sets and \<open>\<dots>.push(v)\<close> on a map to vectors.\<close>

definition idx_insert :: "'k::linorder \<Rightarrow> 'v::linorder \<Rightarrow> ('k, 'v list) bmap \<Rightarrow> ('k, 'v list) bmap" where
  [code_defs]: "idx_insert k v m = bm_insert k (bs_insert v (case map_of m k of Some vs \<Rightarrow> vs | None \<Rightarrow> [])) m"

definition idx_push :: "'k::linorder \<Rightarrow> 'v \<Rightarrow> ('k, 'v list) bmap \<Rightarrow> ('k, 'v list) bmap" where
  [code_defs]: "idx_push k v m = bm_insert k ((case map_of m k of Some vs \<Rightarrow> vs | None \<Rightarrow> []) @ [v]) m"

definition idx_get :: "('k, 'v list) bmap \<Rightarrow> 'k \<Rightarrow> 'v list" where
  [code_defs]: "idx_get m k = (case map_of m k of Some vs \<Rightarrow> vs | None \<Rightarrow> [])"

lemma idx_get_insert [simp]:
  "set (idx_get (idx_insert k v m) j) = (if j = k then insert v (set (idx_get m k)) else set (idx_get m j))"
  by (cases "map_of m k") (auto simp: idx_get_def idx_insert_def)

lemma idx_get_push [simp]:
  "set (idx_get (idx_push k v m) j) = (if j = k then insert v (set (idx_get m k)) else set (idx_get m j))"
  by (cases "map_of m k") (auto simp: idx_get_def idx_push_def)

lemma idx_wf [simp]: "bm_wf m \<Longrightarrow> bm_wf (idx_insert k v m)" "bm_wf m \<Longrightarrow> bm_wf (idx_push k v m)"
  by (simp_all add: idx_insert_def idx_push_def)

lemma idx_get_Nil [simp]: "idx_get [] k = []"
  by (simp add: idx_get_def)

lemma idx_get_Some: "map_of m k = Some vs \<Longrightarrow> idx_get m k = vs"
  by (simp add: idx_get_def)

lemma idx_entry: "bm_wf m \<Longrightarrow> (k, vs) \<in> set m \<Longrightarrow> idx_get m k = vs"
  by (simp add: bm_set_iff idx_get_def)

lemma idx_entries: "bm_wf m \<Longrightarrow> (k, vs) \<in> set m \<longleftrightarrow> map_of m k = Some vs"
  by (rule bm_set_iff)

lemma in_case_option: "x \<in> set (case z of None \<Rightarrow> [] | Some vs \<Rightarrow> f vs) \<longleftrightarrow> (\<exists>vs. z = Some vs \<and> x \<in> set (f vs))"
  by (cases z) auto

lemma idx_get_in: "v \<in> set (idx_get m k) \<longleftrightarrow> (\<exists>vs. map_of m k = Some vs \<and> v \<in> set vs)"
  unfolding idx_get_def by (cases "map_of m k") auto

section \<open>Lists and relations\<close>

lemma fold_invariant:
  "P s \<Longrightarrow> (\<And>x s. x \<in> set xs \<Longrightarrow> P s \<Longrightarrow> P (f x s)) \<Longrightarrow> P (fold f xs s)"
  by (induction xs arbitrary: s) auto

text \<open>A set closed under a relation contains everything reachable from it.\<close>

lemma closed_rtrancl: "r `` X \<subseteq> X \<Longrightarrow> x \<in> X \<Longrightarrow> (x, y) \<in> r\<^sup>* \<Longrightarrow> y \<in> X"
  by (erule rtrancl_induct) auto

end
