(* ===== verification/Core_Ids.thy ===== *)
theory Core_Ids
  imports Prelude
begin

text \<open>
  \<open>crates/atomr-ontology-core/src/id.rs\<close>, \<open>iri.rs\<close> and \<open>namespace.rs\<close>, with the identifier of
  axioms from \<open>axiom.rs\<close> and of commits from \<open>atomr-ontology-version/src/commit.rs\<close>: the
  32-byte identifiers, their construction by a domain-separated hash, hex parsing, validated IRIs
  and the prefix map. Blake3 (\<open>H\<close>: key context and input to digest) and the \<open>hex\<close> crate
  (\<open>hexe\<close>, \<open>hexd\<close>) are not part of the repository: they are parameters.
\<close>

section \<open>Identifiers\<close>

type_synonym hasher = "string \<Rightarrow> bytes \<Rightarrow> bytes"

datatype node_id = NodeId (node_id_bytes: bytes)
datatype edge_id = EdgeId (edge_id_bytes: bytes)
datatype record_id = RecordId (record_id_bytes: bytes)
datatype prov_id = ProvenanceId (prov_id_bytes: bytes)
datatype axiom_id = AxiomId (axiom_id_bytes: bytes)
datatype commit_id = CommitId (commit_id_bytes: bytes)

text \<open>The derived \<open>Ord\<close> compares the byte arrays lexicographically.\<close>

instantiation node_id :: linorder
begin
definition less_eq_node_id where [code_defs]: "x \<le> y \<longleftrightarrow> node_id_bytes x \<le> node_id_bytes y"
definition less_node_id where [code_defs]: "x < y \<longleftrightarrow> node_id_bytes x < node_id_bytes y"
instance
  by standard (auto simp: less_eq_node_id_def less_node_id_def intro: node_id.expand)
end

instantiation edge_id :: linorder
begin
definition less_eq_edge_id where [code_defs]: "x \<le> y \<longleftrightarrow> edge_id_bytes x \<le> edge_id_bytes y"
definition less_edge_id where [code_defs]: "x < y \<longleftrightarrow> edge_id_bytes x < edge_id_bytes y"
instance
  by standard (auto simp: less_eq_edge_id_def less_edge_id_def intro: edge_id.expand)
end

instantiation prov_id :: linorder
begin
definition less_eq_prov_id where [code_defs]: "x \<le> y \<longleftrightarrow> prov_id_bytes x \<le> prov_id_bytes y"
definition less_prov_id where [code_defs]: "x < y \<longleftrightarrow> prov_id_bytes x < prov_id_bytes y"
instance
  by standard (auto simp: less_eq_prov_id_def less_prov_id_def intro: prov_id.expand)
end

instantiation axiom_id :: linorder
begin
definition less_eq_axiom_id where [code_defs]: "x \<le> y \<longleftrightarrow> axiom_id_bytes x \<le> axiom_id_bytes y"
definition less_axiom_id where [code_defs]: "x < y \<longleftrightarrow> axiom_id_bytes x < axiom_id_bytes y"
instance
  by standard (auto simp: less_eq_axiom_id_def less_axiom_id_def intro: axiom_id.expand)
end

instantiation commit_id :: linorder
begin
definition less_eq_commit_id where [code_defs]: "x \<le> y \<longleftrightarrow> commit_id_bytes x \<le> commit_id_bytes y"
definition less_commit_id where [code_defs]: "x < y \<longleftrightarrow> commit_id_bytes x < commit_id_bytes y"
instance
  by standard (auto simp: less_eq_commit_id_def less_commit_id_def intro: commit_id.expand)
end

text \<open>
  \<open>new_random\<close> hashes a fresh UUID (the argument) under the key of the id type;
  \<open>content_address\<close> hashes its input under the content key.
\<close>

definition id_key :: "string \<Rightarrow> string" where
  [code_defs]: "id_key name = ''atomr-ontology-core/id/v1/'' @ name"

definition node_id_new_random :: "hasher \<Rightarrow> bytes \<Rightarrow> node_id" where
  "node_id_new_random H uuid = NodeId (H (id_key ''NodeId'') uuid)"

definition node_id_content_address :: "hasher \<Rightarrow> bytes \<Rightarrow> node_id" where
  [code_defs]: "node_id_content_address H inp = NodeId (H (id_key ''NodeId'' @ ''/content'') inp)"

definition edge_id_content_address :: "hasher \<Rightarrow> bytes \<Rightarrow> edge_id" where
  [code_defs]: "edge_id_content_address H inp = EdgeId (H (id_key ''EdgeId'' @ ''/content'') inp)"

definition record_id_content_address :: "hasher \<Rightarrow> bytes \<Rightarrow> record_id" where
  [code_defs]: "record_id_content_address H inp = RecordId (H (id_key ''RecordId'' @ ''/content'') inp)"

datatype id_error = InvalidId string

text \<open>\<open>FromStr\<close>: hex decoding, then the length check. \<open>hexd\<close> gives the error text or the bytes.\<close>

definition id_from_str :: "(string \<Rightarrow> string + bytes) \<Rightarrow> string \<Rightarrow> id_error + bytes" where
  [code_defs]: "id_from_str hexd s =
     (case hexd s of
        Inl e \<Rightarrow> Inl (InvalidId e)
      | Inr raw \<Rightarrow>
          if length raw \<noteq> 32 then Inl (InvalidId (''expected 32 bytes, got '' @ show_nat (length raw)))
          else Inr raw)"

lemma id_from_str_length: "id_from_str hexd s = Inr b \<Longrightarrow> length b = 32"
  by (auto simp: id_from_str_def split: sum.splits if_splits)

lemma id_round_trip:
  "hexd (hexe b) = Inr b \<Longrightarrow> length b = 32 \<Longrightarrow> id_from_str hexd (hexe b) = Inr b"
  by (simp add: id_from_str_def)

section \<open>IRIs\<close>

datatype iri = Iri (as_str: string)

datatype iri_error = IriEmpty | IriWhitespace string

text \<open>
  \<open>char::is_whitespace\<close> on UTF-8 text: the length in bytes of the whitespace character a string
  starts with, if it starts with one (Unicode \<open>White_Space\<close>: U+0009-U+000D, U+0020, U+0085,
  U+00A0, U+1680, U+2000-U+200A, U+2028, U+2029, U+202F, U+205F, U+3000).
\<close>

definition ws_prefix :: "string \<Rightarrow> nat" where
  [code_defs]: "ws_prefix s =
     (case map of_char s :: nat list of
        [] \<Rightarrow> 0
      | b # bs \<Rightarrow>
          if (9 \<le> b \<and> b \<le> 13) \<or> b = 32 then 1
          else if b = 0xC2 \<and> (take 1 bs = [0x85] \<or> take 1 bs = [0xA0]) then 2
          else if b = 0xE1 \<and> take 2 bs = [0x9A, 0x80] then 3
          else if b = 0xE2 \<and>
              (case take 2 bs of
                 [c, d] \<Rightarrow> (c = 0x80 \<and> ((0x80 \<le> d \<and> d \<le> 0x8A) \<or> d = 0xA8 \<or> d = 0xA9 \<or> d = 0xAF))
                          \<or> (c = 0x81 \<and> d = 0x9F)
               | _ \<Rightarrow> False) then 3
          else if b = 0xE3 \<and> take 2 bs = [0x80, 0x80] then 3
          else 0)"

fun has_whitespace :: "string \<Rightarrow> bool" where
  "has_whitespace [] = False"
| "has_whitespace (c # cs) = (ws_prefix (c # cs) > 0 \<or> has_whitespace cs)"

definition iri_new :: "string \<Rightarrow> iri_error + iri" where
  [code_defs]: "iri_new s =
     (if s = [] then Inl IriEmpty
      else if has_whitespace s then Inl (IriWhitespace s)
      else Inr (Iri s))"

definition iri_wf :: "iri \<Rightarrow> bool" where
  "iri_wf i \<longleftrightarrow> as_str i \<noteq> [] \<and> \<not> has_whitespace (as_str i)"

lemma iri_new_Inr: "iri_new s = Inr i \<longleftrightarrow> i = Iri s \<and> iri_wf (Iri s)"
  by (auto simp: iri_new_def iri_wf_def)

lemma has_whitespace_append_space: "has_whitespace (a @ '' '' @ b)"
  by (induction a) (auto simp: ws_prefix_def)

section \<open>Namespaces and vocabularies\<close>

record namespace =
  ns_prefix :: string
  ns_base :: iri

definition ns_expand :: "namespace \<Rightarrow> string \<Rightarrow> iri" where
  "ns_expand n local_name = Iri (as_str (ns_base n) @ local_name)"

type_synonym vocabulary = "(string, iri) bmap"

definition vocab_bind :: "string \<Rightarrow> iri \<Rightarrow> vocabulary \<Rightarrow> vocabulary" where
  [code_defs]: "vocab_bind prefix base v = bm_insert prefix base v"

definition vocab_base :: "vocabulary \<Rightarrow> string \<Rightarrow> iri option" where
  "vocab_base v prefix = map_of v prefix"

definition expand_curie :: "vocabulary \<Rightarrow> string \<Rightarrow> iri option" where
  [code_defs]: "expand_curie v curie =
     (case split_once CHR '':'' curie of
        None \<Rightarrow> None
      | Some (prefix, local) \<Rightarrow>
          (case map_of v prefix of
             None \<Rightarrow> None
           | Some base \<Rightarrow> Some (Iri (as_str base @ local))))"

definition vocab_iter :: "vocabulary \<Rightarrow> namespace list" where
  "vocab_iter v = map (\<lambda>(p, b). \<lparr>ns_prefix = p, ns_base = b\<rparr>) v"

definition with_standard_bindings :: vocabulary where
  [code_defs]: "with_standard_bindings =
     fold (\<lambda>(p, b) v. vocab_bind p (Iri b) v)
       [(''rdf'', ''http://www.w3.org/1999/02/22-rdf-syntax-ns#''),
        (''rdfs'', ''http://www.w3.org/2000/01/rdf-schema#''),
        (''owl'', ''http://www.w3.org/2002/07/owl#''),
        (''xsd'', ''http://www.w3.org/2001/XMLSchema#''),
        (''prov'', ''http://www.w3.org/ns/prov#''),
        (''schema'', ''http://schema.org/''),
        (''org'', ''http://www.w3.org/ns/org#'')] []"

lemma with_standard_bindings_wf: "bm_wf with_standard_bindings"
  by (simp add: with_standard_bindings_def vocab_bind_def)

text \<open>Expanding \<open>prefix:local\<close> agrees with \<open>Namespace::expand\<close> of the binding.\<close>

lemma expand_curie_bound:
  assumes "CHR '':'' \<notin> set p" "map_of v p = Some b"
  shows "expand_curie v (p @ '':'' @ l) = Some (ns_expand \<lparr>ns_prefix = p, ns_base = b\<rparr> l)"
  using assms by (simp add: expand_curie_def split_once_append ns_expand_def)

lemma expand_curie_bind:
  assumes "CHR '':'' \<notin> set p"
  shows "expand_curie (vocab_bind p b v) (p @ '':'' @ l) = Some (Iri (as_str b @ l))"
  using assms by (simp add: expand_curie_def split_once_append vocab_bind_def)

end
