(* ===== verification/Core_Data.thy ===== *)
theory Core_Data
  imports Core_Ids
begin

unbundle bit_operations_syntax

text \<open>
  \<open>crates/atomr-ontology-core/src/node.rs\<close>, \<open>edge.rs\<close>, \<open>record.rs\<close> and \<open>axiom.rs\<close>: typed
  property values with the equality the code derives for them, nodes, edges, records and axioms,
  their constructors and builder methods, and the byte strings their content addresses hash.
  A timestamp is an \<open>int\<close>; \<open>serde_json::Value\<close> is a datatype with that enum's variants.
\<close>

section \<open>Property values\<close>

datatype json =
    JNull
  | JBool bool
  | JInt int
  | JFloat "64 word"
  | JString string
  | JArray "json list"
  | JObject "(string \<times> json) list"

datatype property_value =
    PString string
  | PInteger "64 word"
  | PFloat "64 word"
  | PBool bool
  | PDateTime int
  | PIri iri
  | PBytes bytes
  | PJson json
  | PNull

text \<open>
  An \<open>f64\<close> is its bit pattern. \<open>PartialEq\<close> on \<open>f64\<close> is IEEE equality: a NaN equals
  nothing and the two zeros are equal.
\<close>

definition f64_nan :: "64 word \<Rightarrow> bool" where
  [code_defs]: "f64_nan b \<longleftrightarrow> (b AND 0x7FF0000000000000) = 0x7FF0000000000000 \<and> (b AND 0x000FFFFFFFFFFFFF) \<noteq> 0"

definition f64_zero :: "64 word \<Rightarrow> bool" where
  [code_defs]: "f64_zero b \<longleftrightarrow> b = 0 \<or> b = 0x8000000000000000"

definition f64_eq :: "64 word \<Rightarrow> 64 word \<Rightarrow> bool" where
  [code_defs]: "f64_eq a b \<longleftrightarrow> \<not> f64_nan a \<and> \<not> f64_nan b \<and> (a = b \<or> (f64_zero a \<and> f64_zero b))"

function json_eq :: "json \<Rightarrow> json \<Rightarrow> bool" where
  "json_eq JNull b = (b = JNull)"
| "json_eq (JBool x) b = (b = JBool x)"
| "json_eq (JInt x) b = (b = JInt x)"
| "json_eq (JFloat x) b = (case b of JFloat y \<Rightarrow> f64_eq x y | _ \<Rightarrow> False)"
| "json_eq (JString x) b = (b = JString x)"
| "json_eq (JArray xs) b =
     (case b of JArray ys \<Rightarrow>
        length xs = length ys \<and> list_all (\<lambda>(x, y). json_eq x y) (zip xs ys)
      | _ \<Rightarrow> False)"
| "json_eq (JObject xs) b =
     (case b of JObject ys \<Rightarrow>
        map fst xs = map fst ys \<and>
        list_all (\<lambda>(x, y). json_eq x y) (zip (map snd xs) (map snd ys))
      | _ \<Rightarrow> False)"
  by pat_completeness auto
termination
proof (relation "measure (size \<circ> fst)")
  fix xs ys :: "json list" and z x y
  assume z: "z \<in> set (zip xs ys)" "(x, y) = z"
  then have "x \<in> set xs" by (auto dest: set_zip_leftD)
  then have "size x < Suc (size_list size xs)"
    by (simp add: less_Suc_eq_le size_list_estimation')
  then show "((x, y), JArray xs, b) \<in> measure (size \<circ> fst)" for b by simp
next
  fix xs ys :: "(string \<times> json) list" and z x y
  assume z: "z \<in> set (zip (map snd xs) (map snd ys))" "(x, y) = z"
  then have "x \<in> set (map snd xs)" by (metis set_zip_leftD)
  then obtain k where "(k, x) \<in> set xs" by auto
  then have "size x < Suc (size_list (size_prod (\<lambda>_. 0) size) xs)"
    by (auto simp: less_Suc_eq_le intro!: size_list_estimation' [of "(k, x)"])
  then show "((x, y), JObject xs, b) \<in> measure (size \<circ> fst)" for b by simp
qed simp

fun pv_eq :: "property_value \<Rightarrow> property_value \<Rightarrow> bool" where
  "pv_eq (PString a) v = (v = PString a)"
| "pv_eq (PInteger a) v = (v = PInteger a)"
| "pv_eq (PFloat a) v = (case v of PFloat b \<Rightarrow> f64_eq a b | _ \<Rightarrow> False)"
| "pv_eq (PBool a) v = (v = PBool a)"
| "pv_eq (PDateTime a) v = (v = PDateTime a)"
| "pv_eq (PIri a) v = (v = PIri a)"
| "pv_eq (PBytes a) v = (v = PBytes a)"
| "pv_eq (PJson a) v = (case v of PJson b \<Rightarrow> json_eq a b | _ \<Rightarrow> False)"
| "pv_eq PNull v = (v = PNull)"

text \<open>\<open>Option<&PropertyValue> == Some(v)\<close>, as the pattern matcher compares.\<close>

fun pv_opt_eq :: "property_value option \<Rightarrow> property_value \<Rightarrow> bool" where
  "pv_opt_eq None v = False"
| "pv_opt_eq (Some u) v = pv_eq u v"

text \<open>A value equals itself unless it holds a NaN.\<close>

fun json_no_nan :: "json \<Rightarrow> bool" where
  "json_no_nan (JFloat b) = (\<not> f64_nan b)"
| "json_no_nan (JArray as) = list_all json_no_nan as"
| "json_no_nan (JObject kvs) = list_all (\<lambda>(k, v). json_no_nan v) kvs"
| "json_no_nan _ = True"

definition pv_no_nan :: "property_value \<Rightarrow> bool" where
  [code_defs]: "pv_no_nan v = (case v of PFloat b \<Rightarrow> \<not> f64_nan b | PJson j \<Rightarrow> json_no_nan j | _ \<Rightarrow> True)"

lemma zip_same_all: "(\<And>x. x \<in> set xs \<Longrightarrow> P x x) \<Longrightarrow> list_all (\<lambda>(x, y). P x y) (zip xs xs)"
  by (induction xs) auto

lemma json_eq_refl [simp]: "json_no_nan j \<Longrightarrow> json_eq j j"
proof (induction j)
  case (JArray xs)
  then show ?case by (auto simp: list_all_iff intro!: zip_same_all [unfolded list_all_iff])
next
  case (JObject xs)
  then show ?case by (fastforce simp: list_all_iff intro!: zip_same_all [unfolded list_all_iff])
qed (auto simp: f64_eq_def)

lemma pv_eq_refl [simp]: "pv_no_nan v \<Longrightarrow> pv_eq v v"
  by (cases v) (simp_all add: pv_no_nan_def f64_eq_def)

lemma pv_eq_string [simp]: "pv_eq u (PString s) \<longleftrightarrow> u = PString s"
  by (cases u) auto

section \<open>Nodes\<close>

type_synonym props = "(string, property_value) bmap"

record node =
  n_id :: node_id
  n_iri :: "iri option"
  n_types :: "string list"
  n_props :: props

definition node_new :: "hasher \<Rightarrow> bytes \<Rightarrow> string \<Rightarrow> node" where
  "node_new H uuid ty =
     \<lparr>n_id = node_id_new_random H uuid, n_iri = None, n_types = [ty], n_props = []\<rparr>"

definition node_from_iri :: "hasher \<Rightarrow> iri \<Rightarrow> string \<Rightarrow> node" where
  [code_defs]: "node_from_iri H i ty =
     \<lparr>n_id = node_id_content_address H (str_bytes (as_str i)), n_iri = Some i, n_types = [ty], n_props = []\<rparr>"

definition node_with_label :: "string \<Rightarrow> node \<Rightarrow> node" where
  [code_defs]: "node_with_label ty n = n\<lparr>n_types := n_types n @ [ty]\<rparr>"

definition node_with_iri :: "iri \<Rightarrow> node \<Rightarrow> node" where
  "node_with_iri i n = n\<lparr>n_iri := Some i\<rparr>"

definition node_with_property :: "string \<Rightarrow> property_value \<Rightarrow> node \<Rightarrow> node" where
  [code_defs]: "node_with_property k v n = n\<lparr>n_props := bm_insert k v (n_props n)\<rparr>"

definition node_property :: "node \<Rightarrow> string \<Rightarrow> property_value option" where
  [code_defs]: "node_property n k = map_of (n_props n) k"

definition has_type :: "node \<Rightarrow> string \<Rightarrow> bool" where
  [code_defs]: "has_type n ty = list_ex (\<lambda>t. t = ty) (n_types n)"

lemma has_type_iff [simp]: "has_type n ty \<longleftrightarrow> ty \<in> set (n_types n)"
  by (auto simp: has_type_def list_ex_iff)

lemma node_property_with_property:
  "node_property (node_with_property k v n) j = (if j = k then Some v else node_property n j)"
  by (simp add: node_property_def node_with_property_def)

section \<open>Edges\<close>

record edge =
  e_id :: edge_id
  e_label :: string
  e_source :: node_id
  e_target :: node_id
  e_props :: props

definition edge_input :: "node_id \<Rightarrow> string \<Rightarrow> node_id \<Rightarrow> bytes" where
  [code_defs]: "edge_input s l t =
     node_id_bytes s @ [0] @ str_bytes l @ [0] @ node_id_bytes t"

definition edge_between :: "hasher \<Rightarrow> node_id \<Rightarrow> string \<Rightarrow> node_id \<Rightarrow> edge" where
  [code_defs]: "edge_between H s l t =
     \<lparr>e_id = edge_id_content_address H (edge_input s l t), e_label = l, e_source = s, e_target = t, e_props = []\<rparr>"

definition edge_with_property :: "string \<Rightarrow> property_value \<Rightarrow> edge \<Rightarrow> edge" where
  [code_defs]: "edge_with_property k v e = e\<lparr>e_props := bm_insert k v (e_props e)\<rparr>"

definition edge_property :: "edge \<Rightarrow> string \<Rightarrow> property_value option" where
  "edge_property e k = map_of (e_props e) k"

lemma edge_between_sel [simp]:
  "e_label (edge_between H s l t) = l" "e_source (edge_between H s l t) = s"
  "e_target (edge_between H s l t) = t" "e_props (edge_between H s l t) = []"
  "e_id (edge_between H s l t) = edge_id_content_address H (edge_input s l t)"
  by (simp_all add: edge_between_def)

text \<open>
  With 32-byte endpoints the hashed bytes determine the triple: the endpoints are cut off at
  fixed offsets, whatever bytes the label holds.
\<close>

lemma edge_input_inj:
  assumes "length (node_id_bytes s) = 32" "length (node_id_bytes s') = 32"
    "length (node_id_bytes t) = 32" "length (node_id_bytes t') = 32"
    "edge_input s l t = edge_input s' l' t'"
  shows "s = s' \<and> l = l' \<and> t = t'"
  using assms by (auto simp: edge_input_def intro: node_id.expand)

section \<open>Records\<close>

record flat_record =
  r_id :: record_id
  r_iri :: "iri option"
  r_subject :: "node_id option"
  r_type_name :: string
  r_props :: props
  r_outbound :: "(string \<times> iri) list"
  r_source :: "string option"

definition record_new :: "hasher \<Rightarrow> bytes \<Rightarrow> string \<Rightarrow> flat_record" where
  "record_new H uuid ty =
     \<lparr>r_id = RecordId (H (id_key ''RecordId'') uuid), r_iri = None, r_subject = None,
      r_type_name = ty, r_props = [], r_outbound = [], r_source = None\<rparr>"

definition record_with_iri :: "hasher \<Rightarrow> iri \<Rightarrow> flat_record \<Rightarrow> flat_record" where
  "record_with_iri H i r =
     r\<lparr>r_id := record_id_content_address H (str_bytes (as_str i)), r_iri := Some i\<rparr>"

definition record_with_property :: "string \<Rightarrow> property_value \<Rightarrow> flat_record \<Rightarrow> flat_record" where
  "record_with_property k v r = r\<lparr>r_props := bm_insert k v (r_props r)\<rparr>"

definition record_with_outbound :: "string \<Rightarrow> iri \<Rightarrow> flat_record \<Rightarrow> flat_record" where
  "record_with_outbound l i r = r\<lparr>r_outbound := r_outbound r @ [(l, i)]\<rparr>"

definition record_with_source :: "string \<Rightarrow> flat_record \<Rightarrow> flat_record" where
  "record_with_source s r = r\<lparr>r_source := Some s\<rparr>"

section \<open>Axioms\<close>

datatype axiom_kind =
    SubClassOf string string
  | EquivalentClass string string
  | DisjointWith string string
  | Domain string string
  | Range string string
  | Functional string
  | InverseFunctional string
  | InverseOf string string
  | Symmetric string
  | Transitive string

record axiom_rec =
  ax_id :: axiom_id
  ax_kind :: axiom_kind
  ax_prov :: "prov_id option"

fun canonical :: "axiom_kind \<Rightarrow> string" where
  "canonical (SubClassOf a b) = ''SubClassOf|'' @ a @ ''|'' @ b"
| "canonical (EquivalentClass a b) = ''EquivalentClass|'' @ a @ ''|'' @ b"
| "canonical (DisjointWith a b) = ''DisjointWith|'' @ a @ ''|'' @ b"
| "canonical (Domain a b) = ''Domain|'' @ a @ ''|'' @ b"
| "canonical (Range a b) = ''Range|'' @ a @ ''|'' @ b"
| "canonical (Functional a) = ''Functional|'' @ a"
| "canonical (InverseFunctional a) = ''InverseFunctional|'' @ a"
| "canonical (InverseOf a b) = ''InverseOf|'' @ a @ ''|'' @ b"
| "canonical (Symmetric a) = ''Symmetric|'' @ a"
| "canonical (Transitive a) = ''Transitive|'' @ a"

definition axiom_id_of :: "hasher \<Rightarrow> string \<Rightarrow> axiom_id" where
  [code_defs]: "axiom_id_of H c = AxiomId (H ''atomr-ontology-core/AxiomId/v1'' (str_bytes c))"

definition axiom_new :: "hasher \<Rightarrow> axiom_kind \<Rightarrow> axiom_rec" where
  [code_defs]: "axiom_new H k = \<lparr>ax_id = axiom_id_of H (canonical k), ax_kind = k, ax_prov = None\<rparr>"

definition axiom_with_provenance :: "prov_id \<Rightarrow> axiom_rec \<Rightarrow> axiom_rec" where
  [code_defs]: "axiom_with_provenance p a = a\<lparr>ax_prov := Some p\<rparr>"

lemma axiom_new_sel [simp]:
  "ax_kind (axiom_new H k) = k" "ax_id (axiom_new H k) = axiom_id_of H (canonical k)"
  "ax_prov (axiom_new H k) = None"
  by (simp_all add: axiom_new_def)

lemma axiom_with_provenance_sel [simp]:
  "ax_kind (axiom_with_provenance p a) = ax_kind a" "ax_id (axiom_with_provenance p a) = ax_id a"
  "ax_prov (axiom_with_provenance p a) = Some p"
  by (simp_all add: axiom_with_provenance_def)

text \<open>
  The encoding puts no escape around \<open>|\<close>: it determines the axiom only when the first operand
  holds none.
\<close>

fun first_operand :: "axiom_kind \<Rightarrow> string" where
  "first_operand (SubClassOf a b) = a"
| "first_operand (EquivalentClass a b) = a"
| "first_operand (DisjointWith a b) = a"
| "first_operand (Domain a b) = a"
| "first_operand (Range a b) = a"
| "first_operand (Functional a) = a"
| "first_operand (InverseFunctional a) = a"
| "first_operand (InverseOf a b) = a"
| "first_operand (Symmetric a) = a"
| "first_operand (Transitive a) = a"

definition bar_free :: "axiom_kind \<Rightarrow> bool" where
  [code_defs]: "bar_free k \<longleftrightarrow> CHR ''|'' \<notin> set (first_operand k)"

lemma canonical_inj:
  assumes "bar_free j" "bar_free k" "canonical j = canonical k"
  shows "j = k"
proof -
  have sep: "a = a' \<and> b = b'"
    if "a @ CHR ''|'' # b = a' @ CHR ''|'' # b'" "CHR ''|'' \<notin> set a" "CHR ''|'' \<notin> set a'"
    for a b a' b' :: string
    using first_sep_unique that by metis
  show ?thesis
    using assms by (cases j; cases k) (auto simp: bar_free_def dest: sep)
qed

end
