(* ===== verification/Core_Schema.thy ===== *)
theory Core_Schema
  imports Core_Data
begin

text \<open>
  \<open>crates/atomr-ontology-core/src/schema.rs\<close>: declared node, edge and property types,
  cardinalities on 32-bit counts, and the depth-first walk of the supertype relation.
\<close>

section \<open>Declarations\<close>

datatype datatype_tag =
  DString | DInteger | DFloat | DBool | DDateTime | DIri | DBytes | DJson

record cardinality =
  card_min :: "32 word"
  card_max :: "32 word option"

definition card_new :: "32 word \<Rightarrow> 32 word option \<Rightarrow> cardinality" where
  [code_defs]: "card_new lo hi = \<lparr>card_min = lo, card_max = hi\<rparr>"

definition CARD_ANY :: cardinality where [code_defs]: "CARD_ANY = \<lparr>card_min = 0, card_max = None\<rparr>"
definition CARD_ONE :: cardinality where [code_defs]: "CARD_ONE = \<lparr>card_min = 1, card_max = Some 1\<rparr>"
definition CARD_OPTIONAL :: cardinality where [code_defs]: "CARD_OPTIONAL = \<lparr>card_min = 0, card_max = Some 1\<rparr>"
definition CARD_AT_LEAST_ONE :: cardinality where [code_defs]: "CARD_AT_LEAST_ONE = \<lparr>card_min = 1, card_max = None\<rparr>"

definition card_contains :: "cardinality \<Rightarrow> 32 word \<Rightarrow> bool" where
  [code_defs]: "card_contains c count \<longleftrightarrow>
     card_min c \<le> count \<and> (case card_max c of None \<Rightarrow> True | Some m \<Rightarrow> count \<le> m)"

record property_type =
  pt_name :: string
  pt_datatype :: datatype_tag
  pt_card :: cardinality
  pt_iri :: "iri option"
  pt_desc :: "string option"

definition pt_required_string :: "string \<Rightarrow> property_type" where
  [code_defs]: "pt_required_string name =
     \<lparr>pt_name = name, pt_datatype = DString, pt_card = CARD_ONE, pt_iri = None, pt_desc = None\<rparr>"

definition pt_optional :: "string \<Rightarrow> datatype_tag \<Rightarrow> property_type" where
  [code_defs]: "pt_optional name d =
     \<lparr>pt_name = name, pt_datatype = d, pt_card = CARD_OPTIONAL, pt_iri = None, pt_desc = None\<rparr>"

definition pt_with_iri :: "iri \<Rightarrow> property_type \<Rightarrow> property_type" where
  [code_defs]: "pt_with_iri i p = p\<lparr>pt_iri := Some i\<rparr>"

definition pt_with_description :: "string \<Rightarrow> property_type \<Rightarrow> property_type" where
  [code_defs]: "pt_with_description d p = p\<lparr>pt_desc := Some d\<rparr>"

record node_type =
  nt_name :: string
  nt_iri :: "iri option"
  nt_supertypes :: "string list"
  nt_props :: "property_type list"
  nt_desc :: "string option"

definition nt_new :: "string \<Rightarrow> node_type" where
  [code_defs]: "nt_new name =
     \<lparr>nt_name = name, nt_iri = None, nt_supertypes = [], nt_props = [], nt_desc = None\<rparr>"

definition nt_with_supertype :: "string \<Rightarrow> node_type \<Rightarrow> node_type" where
  [code_defs]: "nt_with_supertype s t = t\<lparr>nt_supertypes := nt_supertypes t @ [s]\<rparr>"

definition nt_with_property :: "property_type \<Rightarrow> node_type \<Rightarrow> node_type" where
  [code_defs]: "nt_with_property p t = t\<lparr>nt_props := nt_props t @ [p]\<rparr>"

definition nt_with_iri :: "iri \<Rightarrow> node_type \<Rightarrow> node_type" where
  [code_defs]: "nt_with_iri i t = t\<lparr>nt_iri := Some i\<rparr>"

definition nt_with_description :: "string \<Rightarrow> node_type \<Rightarrow> node_type" where
  [code_defs]: "nt_with_description d t = t\<lparr>nt_desc := Some d\<rparr>"

record edge_type =
  et_name :: string
  et_iri :: "iri option"
  et_domain :: "string list"
  et_range :: "string list"
  et_props :: "property_type list"
  et_card :: cardinality
  et_functional :: bool
  et_inverse_of :: "string option"
  et_desc :: "string option"

definition et_new :: "string \<Rightarrow> edge_type" where
  [code_defs]: "et_new name =
     \<lparr>et_name = name, et_iri = None, et_domain = [], et_range = [], et_props = [],
      et_card = CARD_ANY, et_functional = False, et_inverse_of = None, et_desc = None\<rparr>"

definition et_with_domain :: "string \<Rightarrow> edge_type \<Rightarrow> edge_type" where
  [code_defs]: "et_with_domain n t = t\<lparr>et_domain := et_domain t @ [n]\<rparr>"

definition et_with_range :: "string \<Rightarrow> edge_type \<Rightarrow> edge_type" where
  [code_defs]: "et_with_range n t = t\<lparr>et_range := et_range t @ [n]\<rparr>"

definition et_set_functional :: "edge_type \<Rightarrow> edge_type" where
  "et_set_functional t = t\<lparr>et_functional := True\<rparr>"

definition et_with_iri :: "iri \<Rightarrow> edge_type \<Rightarrow> edge_type" where
  [code_defs]: "et_with_iri i t = t\<lparr>et_iri := Some i\<rparr>"

definition et_with_inverse :: "string \<Rightarrow> edge_type \<Rightarrow> edge_type" where
  [code_defs]: "et_with_inverse l t = t\<lparr>et_inverse_of := Some l\<rparr>"

definition et_with_description :: "string \<Rightarrow> edge_type \<Rightarrow> edge_type" where
  [code_defs]: "et_with_description d t = t\<lparr>et_desc := Some d\<rparr>"

section \<open>The schema\<close>

record schema =
  s_node_types :: "(string, node_type) bmap"
  s_edge_types :: "(string, edge_type) bmap"

definition schema_new :: schema where
  [code_defs]: "schema_new = \<lparr>s_node_types = [], s_edge_types = []\<rparr>"

definition declare_node_type :: "node_type \<Rightarrow> schema \<Rightarrow> schema" where
  [code_defs]: "declare_node_type ty s = s\<lparr>s_node_types := bm_insert (nt_name ty) ty (s_node_types s)\<rparr>"

definition declare_edge_type :: "edge_type \<Rightarrow> schema \<Rightarrow> schema" where
  [code_defs]: "declare_edge_type ty s = s\<lparr>s_edge_types := bm_insert (et_name ty) ty (s_edge_types s)\<rparr>"

definition node_type :: "schema \<Rightarrow> string \<Rightarrow> node_type option" where
  [code_defs]: "node_type s name = map_of (s_node_types s) name"

definition edge_type :: "schema \<Rightarrow> string \<Rightarrow> edge_type option" where
  [code_defs]: "edge_type s name = map_of (s_edge_types s) name"

definition schema_wf :: "schema \<Rightarrow> bool" where
  "schema_wf s \<longleftrightarrow> bm_wf (s_node_types s) \<and> bm_wf (s_edge_types s) \<and>
     (\<forall>(k, t) \<in> set (s_node_types s). nt_name t = k) \<and> (\<forall>(k, t) \<in> set (s_edge_types s). et_name t = k)"

lemma schema_wf_new: "schema_wf schema_new"
  by (simp add: schema_wf_def schema_new_def)

lemma schema_wf_declare_node_type: "schema_wf s \<Longrightarrow> schema_wf (declare_node_type ty s)"
  by (auto simp: schema_wf_def declare_node_type_def bm_set_insert)

lemma schema_wf_declare_edge_type: "schema_wf s \<Longrightarrow> schema_wf (declare_edge_type ty s)"
  by (auto simp: schema_wf_def declare_edge_type_def bm_set_insert)

lemma node_type_declare:
  "node_type (declare_node_type ty s) n = (if n = nt_name ty then Some ty else node_type s n)"
  by (simp add: node_type_def declare_node_type_def)

lemma edge_type_declare:
  "edge_type (declare_edge_type ty s) n = (if n = et_name ty then Some ty else edge_type s n)"
  by (simp add: edge_type_def declare_edge_type_def)

section \<open>The supertype walk\<close>

definition supertypes_direct :: "schema \<Rightarrow> string \<Rightarrow> string list" where
  [code_defs]: "supertypes_direct s n = (case node_type s n of Some ty \<Rightarrow> nt_supertypes ty | None \<Rightarrow> [])"

text \<open>
  The \<open>while let Some(n) = stack.pop()\<close> loop. The head of the list is the top of the stack: the
  supertypes are pushed in reverse, so the first declared one is popped first.
\<close>

function supertypes_loop :: "schema \<Rightarrow> string list \<Rightarrow> string list \<Rightarrow> string list" where
  "supertypes_loop s [] out = out"
| "supertypes_loop s (n # stack) out =
     (if n \<in> set out then supertypes_loop s stack out
      else supertypes_loop s (supertypes_direct s n @ stack) (out @ [n]))"
  by pat_completeness auto
termination
proof (relation "measures
    [\<lambda>(s, stack, out). card (fst ` set (s_node_types s) - set out), \<lambda>(s, stack, out). length stack]")
  fix s :: schema and n stack and out :: "string list"
  assume new: "n \<notin> set out"
  show "((s, supertypes_direct s n @ stack, out @ [n]), s, n # stack, out) \<in> measures
      [\<lambda>(s, stack, out). card (fst ` set (s_node_types s) - set out), \<lambda>(s, stack, out). length stack]"
  proof (cases "n \<in> fst ` set (s_node_types s)")
    case True
    then have "fst ` set (s_node_types s) - set (out @ [n]) \<subset> fst ` set (s_node_types s) - set out"
      using new by auto
    then show ?thesis by (simp add: psubset_card_mono)
  next
    case False
    then have "supertypes_direct s n = []"
      by (simp add: supertypes_direct_def node_type_def map_of_eq_None_iff [THEN iffD2])
    moreover from False have "fst ` set (s_node_types s) - set (out @ [n]) = fst ` set (s_node_types s) - set out"
      by auto
    ultimately show ?thesis by simp
  qed
qed auto

definition supertypes_of :: "schema \<Rightarrow> string \<Rightarrow> string list" where
  [code_defs]: "supertypes_of s name = supertypes_loop s [name] []"

definition supertype_rel :: "schema \<Rightarrow> (string \<times> string) set" where
  "supertype_rel s = {(a, b). b \<in> set (supertypes_direct s a)}"

lemma supertypes_loop_prefix: "\<exists>t. supertypes_loop s stack out = out @ t"
  by (induction s stack out rule: supertypes_loop.induct) auto

lemma supertypes_loop_distinct: "distinct out \<Longrightarrow> distinct (supertypes_loop s stack out)"
  by (induction s stack out rule: supertypes_loop.induct) auto

lemma supertype_rel_iff: "(a, b) \<in> supertype_rel s \<longleftrightarrow> b \<in> set (supertypes_direct s a)"
  by (simp add: supertype_rel_def)

lemma supertypes_loop_sound:
  "x \<in> set (supertypes_loop s stack out) \<Longrightarrow>
     x \<in> set out \<or> (\<exists>m \<in> set stack. (m, x) \<in> (supertype_rel s)\<^sup>*)"
proof (induction s stack out rule: supertypes_loop.induct)
  case (2 s n stack out)
  show ?case
  proof (cases "n \<in> set out")
    case True
    with 2 show ?thesis by simp blast
  next
    case False
    with "2.prems" have "x \<in> set (supertypes_loop s (supertypes_direct s n @ stack) (out @ [n]))" by simp
    from "2.IH"(2) [OF False this] consider "x \<in> set out" | "x = n"
      | m where "m \<in> set (supertypes_direct s n)" "(m, x) \<in> (supertype_rel s)\<^sup>*"
      | m where "m \<in> set stack" "(m, x) \<in> (supertype_rel s)\<^sup>*" by auto
    then show ?thesis
      by cases (auto simp: supertype_rel_iff [symmetric] intro: converse_rtrancl_into_rtrancl)
  qed
qed simp

definition supertypes_closed :: "schema \<Rightarrow> string list \<Rightarrow> string list \<Rightarrow> bool" where
  "supertypes_closed s stack out \<longleftrightarrow>
     (\<forall>a \<in> set out. \<forall>b \<in> set (supertypes_direct s a). b \<in> set out \<or> b \<in> set stack)"

lemma supertypes_loop_closed:
  "supertypes_closed s stack out \<Longrightarrow>
     supertypes_closed s [] (supertypes_loop s stack out) \<and>
     (\<forall>x \<in> set stack. x \<in> set (supertypes_loop s stack out))"
proof (induction s stack out rule: supertypes_loop.induct)
  case (2 s n stack out)
  show ?case
  proof (cases "n \<in> set out")
    case True
    with "2.prems" have "supertypes_closed s stack out" unfolding supertypes_closed_def by auto
    note ih = "2.IH"(1) [OF True this]
    obtain t where "supertypes_loop s stack out = out @ t" using supertypes_loop_prefix by blast
    with ih True show ?thesis by simp
  next
    case False
    from "2.prems" have "supertypes_closed s (supertypes_direct s n @ stack) (out @ [n])"
      unfolding supertypes_closed_def by auto
    note ih = "2.IH"(2) [OF False this]
    obtain t where "supertypes_loop s (supertypes_direct s n @ stack) (out @ [n]) = (out @ [n]) @ t"
      using supertypes_loop_prefix by blast
    with ih False show ?thesis by simp
  qed
qed simp

lemma supertypes_of_set: "set (supertypes_of s name) = (supertype_rel s)\<^sup>* `` {name}"
proof (rule set_eqI, rule iffI)
  fix x assume "x \<in> set (supertypes_of s name)"
  then show "x \<in> (supertype_rel s)\<^sup>* `` {name}"
    using supertypes_loop_sound [of x s "[name]" "[]"] by (simp add: supertypes_of_def)
next
  fix x assume "x \<in> (supertype_rel s)\<^sup>* `` {name}"
  then have reach: "(name, x) \<in> (supertype_rel s)\<^sup>*" by simp
  have closed: "supertypes_closed s [] (supertypes_of s name)" and name: "name \<in> set (supertypes_of s name)"
    using supertypes_loop_closed [of s "[name]" "[]"] by (simp_all add: supertypes_of_def supertypes_closed_def)
  then have "supertype_rel s `` set (supertypes_of s name) \<subseteq> set (supertypes_of s name)"
    unfolding supertypes_closed_def by (auto simp: supertype_rel_iff)
  then show "x \<in> set (supertypes_of s name)" by (rule closed_rtrancl [OF _ name reach])
qed

text \<open>
  \<open>supertypes_of\<close> returns, on every schema and whether or not the declared hierarchy is
  cyclic, the name itself first and then each of its direct and transitive supertypes exactly
  once.
\<close>

theorem supertypes_of_correct:
  "\<exists>rest. supertypes_of s name = name # rest \<and>
     distinct (name # rest) \<and> set (name # rest) = (supertype_rel s)\<^sup>* `` {name}"
proof -
  obtain t where "supertypes_of s name = [name] @ t"
    using supertypes_loop_prefix [of s "supertypes_direct s name" "[name]"]
    by (auto simp: supertypes_of_def)
  moreover have "distinct (supertypes_of s name)"
    by (simp add: supertypes_of_def supertypes_loop_distinct)
  ultimately show ?thesis using supertypes_of_set [of s name] by auto
qed

end
