(* ===== verification/Core_Ontology.thy ===== *)
theory Core_Ontology
  imports Core_Schema
begin

text \<open>
  \<open>crates/atomr-ontology-core/src/ontology.rs\<close>: the aggregate root. Its invariant \<open>ont_wf\<close> says
  what its operations keep: each map is ordered and every entry is stored under its own id.
\<close>

record ontology =
  o_iri :: "iri option"
  o_vocab :: vocabulary
  o_schema :: schema
  o_nodes :: "(node_id, node) bmap"
  o_edges :: "(edge_id, edge) bmap"
  o_axioms :: "(axiom_id, axiom_rec) bmap"

definition ontology_new :: ontology where
  [code_defs]: "ontology_new =
     \<lparr>o_iri = None, o_vocab = [], o_schema = schema_new, o_nodes = [], o_edges = [], o_axioms = []\<rparr>"

definition ontology_with_iri :: "string \<Rightarrow> iri_error + ontology" where
  "ontology_with_iri s =
     (case iri_new s of Inl e \<Rightarrow> Inl e | Inr i \<Rightarrow> Inr (ontology_new\<lparr>o_iri := Some i\<rparr>))"

definition ont_declare_node_type :: "string \<Rightarrow> ontology \<Rightarrow> ontology" where
  [code_defs]: "ont_declare_node_type name o' =
     (if bm_contains (s_node_types (o_schema o')) name then o'
      else o'\<lparr>o_schema := declare_node_type (nt_new name) (o_schema o')\<rparr>)"

definition ont_declare_edge_type :: "string \<Rightarrow> ontology \<Rightarrow> ontology" where
  [code_defs]: "ont_declare_edge_type name o' =
     (if bm_contains (s_edge_types (o_schema o')) name then o'
      else o'\<lparr>o_schema := declare_edge_type (et_new name) (o_schema o')\<rparr>)"

definition upsert_node :: "node \<Rightarrow> ontology \<Rightarrow> ontology" where
  [code_defs]: "upsert_node n o' = o'\<lparr>o_nodes := bm_insert (n_id n) n (o_nodes o')\<rparr>"

definition upsert_edge :: "edge \<Rightarrow> ontology \<Rightarrow> ontology" where
  [code_defs]: "upsert_edge e o' = o'\<lparr>o_edges := bm_insert (e_id e) e (o_edges o')\<rparr>"

definition upsert_axiom :: "axiom_rec \<Rightarrow> ontology \<Rightarrow> ontology" where
  [code_defs]: "upsert_axiom a o' = o'\<lparr>o_axioms := bm_insert (ax_id a) a (o_axioms o')\<rparr>"

definition ont_node :: "ontology \<Rightarrow> node_id \<Rightarrow> node option" where
  [code_defs]: "ont_node o' i = map_of (o_nodes o') i"

definition ont_edge :: "ontology \<Rightarrow> edge_id \<Rightarrow> edge option" where
  [code_defs]: "ont_edge o' i = map_of (o_edges o') i"

definition node_count :: "ontology \<Rightarrow> nat" where
  [code_defs]: "node_count o' = length (o_nodes o')"

definition edge_count :: "ontology \<Rightarrow> nat" where
  [code_defs]: "edge_count o' = length (o_edges o')"

definition outbound :: "ontology \<Rightarrow> node_id \<Rightarrow> edge list" where
  [code_defs]: "outbound o' n = filter (\<lambda>e. e_source e = n) (bm_values (o_edges o'))"

definition inbound :: "ontology \<Rightarrow> node_id \<Rightarrow> edge list" where
  [code_defs]: "inbound o' n = filter (\<lambda>e. e_target e = n) (bm_values (o_edges o'))"

section \<open>The invariant\<close>

definition ont_wf :: "ontology \<Rightarrow> bool" where
  "ont_wf o' \<longleftrightarrow>
     bm_wf (o_vocab o') \<and> schema_wf (o_schema o') \<and>
     bm_wf (o_nodes o') \<and> (\<forall>(k, n) \<in> set (o_nodes o'). n_id n = k) \<and>
     bm_wf (o_edges o') \<and> (\<forall>(k, e) \<in> set (o_edges o'). e_id e = k) \<and>
     bm_wf (o_axioms o') \<and> (\<forall>(k, a) \<in> set (o_axioms o'). ax_id a = k)"

lemma ont_wf_new [simp]: "ont_wf ontology_new"
  by (simp add: ont_wf_def ontology_new_def schema_wf_new)

lemma ont_wf_upsert_node [simp]: "ont_wf o' \<Longrightarrow> ont_wf (upsert_node n o')"
  by (auto simp: ont_wf_def upsert_node_def bm_set_insert)

lemma ont_wf_upsert_edge [simp]: "ont_wf o' \<Longrightarrow> ont_wf (upsert_edge e o')"
  by (auto simp: ont_wf_def upsert_edge_def bm_set_insert)

lemma ont_wf_upsert_axiom [simp]: "ont_wf o' \<Longrightarrow> ont_wf (upsert_axiom a o')"
  by (auto simp: ont_wf_def upsert_axiom_def bm_set_insert)

lemma ont_wf_declare_node_type [simp]: "ont_wf o' \<Longrightarrow> ont_wf (ont_declare_node_type n o')"
  by (auto simp: ont_wf_def ont_declare_node_type_def schema_wf_declare_node_type)

lemma ont_wf_declare_edge_type [simp]: "ont_wf o' \<Longrightarrow> ont_wf (ont_declare_edge_type n o')"
  by (auto simp: ont_wf_def ont_declare_edge_type_def schema_wf_declare_edge_type)

lemmas ont_wf_ops = ont_wf_upsert_node ont_wf_upsert_edge ont_wf_upsert_axiom
  ont_wf_declare_node_type ont_wf_declare_edge_type

section \<open>Lookups\<close>

lemma ont_node_upsert [simp]:
  "ont_node (upsert_node n o') i = (if i = n_id n then Some n else ont_node o' i)"
  by (simp add: ont_node_def upsert_node_def)

lemma ont_edge_upsert [simp]:
  "ont_edge (upsert_edge e o') i = (if i = e_id e then Some e else ont_edge o' i)"
  by (simp add: ont_edge_def upsert_edge_def)

lemma ont_upsert_frame [simp]:
  "ont_edge (upsert_node n o') = ont_edge o'" "ont_node (upsert_edge e o') = ont_node o'"
  "ont_node (upsert_axiom a o') = ont_node o'" "ont_edge (upsert_axiom a o') = ont_edge o'"
  "o_axioms (upsert_node n o') = o_axioms o'" "o_axioms (upsert_edge e o') = o_axioms o'"
  "o_nodes (upsert_edge e o') = o_nodes o'" "o_nodes (upsert_axiom a o') = o_nodes o'"
  "o_edges (upsert_node n o') = o_edges o'" "o_edges (upsert_axiom a o') = o_edges o'"
  "o_axioms (upsert_axiom a o') = bm_insert (ax_id a) a (o_axioms o')"
  "o_edges (upsert_edge e o') = bm_insert (e_id e) e (o_edges o')"
  "o_nodes (upsert_node n o') = bm_insert (n_id n) n (o_nodes o')"
  "o_schema (upsert_node n o') = o_schema o'" "o_schema (upsert_edge e o') = o_schema o'"
  "o_schema (upsert_axiom a o') = o_schema o'"
  "o_vocab (upsert_node n o') = o_vocab o'" "o_vocab (upsert_edge e o') = o_vocab o'"
  "o_vocab (upsert_axiom a o') = o_vocab o'"
  "o_iri (upsert_node n o') = o_iri o'" "o_iri (upsert_edge e o') = o_iri o'"
  "o_iri (upsert_axiom a o') = o_iri o'"
  by (simp_all add: ont_node_def ont_edge_def upsert_node_def upsert_edge_def upsert_axiom_def fun_eq_iff)

lemma ont_lookup_new [simp]: "ont_node ontology_new i = None" "ont_edge ontology_new j = None"
  by (simp_all add: ont_node_def ont_edge_def ontology_new_def)

lemma ont_node_id: "ont_wf o' \<Longrightarrow> ont_node o' i = Some n \<Longrightarrow> n_id n = i"
  by (auto simp: ont_wf_def ont_node_def dest: map_of_SomeD)

lemma ont_edge_id: "ont_wf o' \<Longrightarrow> ont_edge o' i = Some e \<Longrightarrow> e_id e = i"
  by (auto simp: ont_wf_def ont_edge_def dest: map_of_SomeD)

lemma outbound_iff:
  "ont_wf o' \<Longrightarrow> e \<in> set (outbound o' n) \<longleftrightarrow> e_source e = n \<and> ont_edge o' (e_id e) = Some e"
  by (auto simp: outbound_def bm_values_def ont_edge_def ont_wf_def bm_set_iff image_iff)
    (metis (no_types, lifting) bm_set_iff case_prodD snd_conv)+

lemma inbound_iff:
  "ont_wf o' \<Longrightarrow> e \<in> set (inbound o' n) \<longleftrightarrow> e_target e = n \<and> ont_edge o' (e_id e) = Some e"
  by (auto simp: inbound_def bm_values_def ont_edge_def ont_wf_def bm_set_iff image_iff)
    (metis (no_types, lifting) bm_set_iff case_prodD snd_conv)+

text \<open>Upserting a list of entities folds its insertions into one map.\<close>

lemma fold_upserts:
  "fold upsert_node ns o' = o'\<lparr>o_nodes := fold (\<lambda>n acc. bm_insert (n_id n) n acc) ns (o_nodes o')\<rparr>"
  "fold upsert_edge es o' = o'\<lparr>o_edges := fold (\<lambda>e acc. bm_insert (e_id e) e acc) es (o_edges o')\<rparr>"
  "fold upsert_axiom as o' = o'\<lparr>o_axioms := fold (\<lambda>a acc. bm_insert (ax_id a) a acc) as (o_axioms o')\<rparr>"
proof -
  show "fold upsert_node ns o' = o'\<lparr>o_nodes := fold (\<lambda>n acc. bm_insert (n_id n) n acc) ns (o_nodes o')\<rparr>"
    by (induction ns arbitrary: o') (simp_all add: upsert_node_def)
  show "fold upsert_edge es o' = o'\<lparr>o_edges := fold (\<lambda>e acc. bm_insert (e_id e) e acc) es (o_edges o')\<rparr>"
    by (induction es arbitrary: o') (simp_all add: upsert_edge_def)
  show "fold upsert_axiom as o' = o'\<lparr>o_axioms := fold (\<lambda>a acc. bm_insert (ax_id a) a acc) as (o_axioms o')\<rparr>"
    by (induction as arbitrary: o') (simp_all add: upsert_axiom_def)
qed

text \<open>The axioms as rules and checks read them.\<close>

definition axiom_kinds :: "ontology \<Rightarrow> axiom_kind list" where
  [code_defs]: "axiom_kinds o' = map ax_kind (bm_values (o_axioms o'))"

definition kinds :: "ontology \<Rightarrow> axiom_kind set" where
  "kinds o' = ax_kind ` set (bm_values (o_axioms o'))"

lemma set_axiom_kinds [simp]: "set (axiom_kinds o') = kinds o'"
  by (simp add: axiom_kinds_def kinds_def)

end
