(* ===== verification/Provenance.thy ===== *)
theory Provenance
  imports Core_Ontology
begin

text \<open>
  \<open>crates/atomr-ontology-provenance/src/lib.rs\<close>: PROV-O activities, agents and entities and the
  in-memory ledger. Clock readings (\<open>Utc::now()\<close>) and fresh ids are arguments.
\<close>

datatype agent_kind = AgPerson | AgSoftware | AgOrganization

record agent_ref =
  ag_id :: string
  ag_kind :: agent_kind
  ag_label :: string

definition agent_software :: "string \<Rightarrow> string \<Rightarrow> agent_ref" where
  [code_defs]: "agent_software i l = \<lparr>ag_id = i, ag_kind = AgSoftware, ag_label = l\<rparr>"

definition agent_person :: "string \<Rightarrow> string \<Rightarrow> agent_ref" where
  "agent_person i l = \<lparr>ag_id = i, ag_kind = AgPerson, ag_label = l\<rparr>"

record activity =
  act_id :: prov_id
  act_label :: string
  act_started :: int
  act_ended :: "int option"
  act_agent :: "agent_ref option"
  act_attrs :: "(string, json) bmap"

definition activity_started :: "prov_id \<Rightarrow> int \<Rightarrow> string \<Rightarrow> activity" where
  [code_defs]: "activity_started fresh now l =
     \<lparr>act_id = fresh, act_label = l, act_started = now, act_ended = None, act_agent = None, act_attrs = []\<rparr>"

definition activity_finish :: "int \<Rightarrow> activity \<Rightarrow> activity" where
  [code_defs]: "activity_finish now a = a\<lparr>act_ended := Some now\<rparr>"

definition activity_with_attribute :: "string \<Rightarrow> json \<Rightarrow> activity \<Rightarrow> activity" where
  [code_defs]: "activity_with_attribute k v a = a\<lparr>act_attrs := bm_insert k v (act_attrs a)\<rparr>"

definition activity_by :: "agent_ref \<Rightarrow> activity \<Rightarrow> activity" where
  [code_defs]: "activity_by g a = a\<lparr>act_agent := Some g\<rparr>"

lemma activity_id_builders [simp]:
  "act_id (activity_started p t l) = p" "act_id (activity_finish t a) = act_id a"
  "act_id (activity_with_attribute k v a) = act_id a" "act_id (activity_by g a) = act_id a"
  by (simp_all add: activity_started_def activity_finish_def activity_with_attribute_def activity_by_def)

record prov_entity =
  ent_id :: prov_id
  ent_label :: string
  ent_digest :: "string option"
  ent_attrs :: "(string, json) bmap"

definition prov_entity_new :: "prov_id \<Rightarrow> string \<Rightarrow> string option \<Rightarrow> prov_entity" where
  "prov_entity_new fresh l d = \<lparr>ent_id = fresh, ent_label = l, ent_digest = d, ent_attrs = []\<rparr>"

record was_generated_by =
  gen_entity :: prov_id
  gen_activity :: prov_id

record was_derived_from =
  der_derived :: prov_id
  der_source :: prov_id

record was_attributed_to =
  att_entity :: prov_id
  att_agent :: agent_ref

record used_rec =
  use_activity :: prov_id
  use_entity :: prov_id

record prov_log =
  pl_activities :: "(prov_id, activity) bmap"
  pl_entities :: "(prov_id, prov_entity) bmap"
  pl_generations :: "was_generated_by list"
  pl_derivations :: "was_derived_from list"
  pl_attributions :: "was_attributed_to list"
  pl_uses :: "used_rec list"

definition prov_log_new :: prov_log where
  [code_defs]: "prov_log_new =
     \<lparr>pl_activities = [], pl_entities = [], pl_generations = [], pl_derivations = [],
      pl_attributions = [], pl_uses = []\<rparr>"

definition record_activity :: "activity \<Rightarrow> prov_log \<Rightarrow> prov_log" where
  [code_defs]: "record_activity a l = l\<lparr>pl_activities := bm_insert (act_id a) a (pl_activities l)\<rparr>"

definition record_entity :: "prov_entity \<Rightarrow> prov_log \<Rightarrow> prov_log" where
  [code_defs]: "record_entity e l = l\<lparr>pl_entities := bm_insert (ent_id e) e (pl_entities l)\<rparr>"

definition log_generated :: "prov_id \<Rightarrow> prov_id \<Rightarrow> prov_log \<Rightarrow> prov_log" where
  [code_defs]: "log_generated e a l =
     l\<lparr>pl_generations := pl_generations l @ [\<lparr>gen_entity = e, gen_activity = a\<rparr>]\<rparr>"

definition log_derived :: "prov_id \<Rightarrow> prov_id \<Rightarrow> prov_log \<Rightarrow> prov_log" where
  [code_defs]: "log_derived d s l =
     l\<lparr>pl_derivations := pl_derivations l @ [\<lparr>der_derived = d, der_source = s\<rparr>]\<rparr>"

definition log_attributed :: "prov_id \<Rightarrow> agent_ref \<Rightarrow> prov_log \<Rightarrow> prov_log" where
  "log_attributed e g l =
     l\<lparr>pl_attributions := pl_attributions l @ [\<lparr>att_entity = e, att_agent = g\<rparr>]\<rparr>"

definition log_used :: "prov_id \<Rightarrow> prov_id \<Rightarrow> prov_log \<Rightarrow> prov_log" where
  [code_defs]: "log_used a e l =
     l\<lparr>pl_uses := pl_uses l @ [\<lparr>use_activity = a, use_entity = e\<rparr>]\<rparr>"

definition prov_log_wf :: "prov_log \<Rightarrow> bool" where
  "prov_log_wf l \<longleftrightarrow>
     bm_wf (pl_activities l) \<and> (\<forall>(k, a) \<in> set (pl_activities l). act_id a = k) \<and>
     bm_wf (pl_entities l) \<and> (\<forall>(k, e) \<in> set (pl_entities l). ent_id e = k)"

lemma prov_log_wf_ops [simp]:
  "prov_log_wf prov_log_new"
  "prov_log_wf l \<Longrightarrow> prov_log_wf (record_activity a l)"
  "prov_log_wf l \<Longrightarrow> prov_log_wf (record_entity e l)"
  "prov_log_wf l \<Longrightarrow> prov_log_wf (log_generated p q l)"
  "prov_log_wf l \<Longrightarrow> prov_log_wf (log_derived p q l)"
  "prov_log_wf l \<Longrightarrow> prov_log_wf (log_attributed p g l)"
  "prov_log_wf l \<Longrightarrow> prov_log_wf (log_used p q l)"
  by (auto simp: prov_log_wf_def prov_log_new_def record_activity_def record_entity_def
      log_generated_def log_derived_def log_attributed_def log_used_def bm_set_insert)

lemma record_activity_get:
  "map_of (pl_activities (record_activity a l)) i =
     (if i = act_id a then Some a else map_of (pl_activities l) i)"
  by (simp add: record_activity_def)

end
