(* ===== verification/Store_Api.thy ===== *)
theory Store_Api
  imports Provenance
begin

text \<open>
  \<open>crates/atomr-ontology-store/src/pattern.rs\<close> and \<open>trait.rs\<close>: query patterns and traversal
  plans with their builders, result rows, deltas and diffs, and the contract of the
  \<open>OntologyStore\<close> trait as the locale \<open>ontology_store\<close>. A \<open>usize\<close> is a \<open>nat\<close>.
\<close>

section \<open>Patterns and plans\<close>

datatype node_pattern = NodePattern
  (np_bind: "string option")
  (np_types: "string list")
  (np_props: props)
  (np_id: "node_id option")
  (np_or: "node_pattern list")
  (np_not: "node_pattern list")

definition np_any :: node_pattern where
  [code_defs]: "np_any = NodePattern None [] [] None [] []"

fun np_set_bind :: "string \<Rightarrow> node_pattern \<Rightarrow> node_pattern" where
  "np_set_bind x (NodePattern b t p i os ns) = NodePattern (Some x) t p i os ns"

fun np_typed :: "string \<Rightarrow> node_pattern \<Rightarrow> node_pattern" where
  "np_typed x (NodePattern b t p i os ns) = NodePattern b (t @ [x]) p i os ns"

fun np_with_property :: "string \<Rightarrow> property_value \<Rightarrow> node_pattern \<Rightarrow> node_pattern" where
  "np_with_property k v (NodePattern b t p i os ns) = NodePattern b t (bm_insert k v p) i os ns"

fun np_with_id :: "node_id \<Rightarrow> node_pattern \<Rightarrow> node_pattern" where
  "np_with_id j (NodePattern b t p i os ns) = NodePattern b t p (Some j) os ns"

fun np_add_or :: "node_pattern \<Rightarrow> node_pattern \<Rightarrow> node_pattern" where
  "np_add_or alt (NodePattern b t p i os ns) = NodePattern b t p i (os @ [alt]) ns"

fun np_add_not :: "node_pattern \<Rightarrow> node_pattern \<Rightarrow> node_pattern" where
  "np_add_not neg (NodePattern b t p i os ns) = NodePattern b t p i os (ns @ [neg])"

record edge_pattern =
  ep_bind :: "string option"
  ep_label :: "string option"
  ep_props :: props
  ep_repeat :: "(nat \<times> nat) option"

definition ep_any :: edge_pattern where
  [code_defs]: "ep_any = \<lparr>ep_bind = None, ep_label = None, ep_props = [], ep_repeat = None\<rparr>"

definition ep_labeled :: "string \<Rightarrow> edge_pattern \<Rightarrow> edge_pattern" where
  [code_defs]: "ep_labeled l p = p\<lparr>ep_label := Some l\<rparr>"

definition ep_set_bind :: "string \<Rightarrow> edge_pattern \<Rightarrow> edge_pattern" where
  [code_defs]: "ep_set_bind x p = p\<lparr>ep_bind := Some x\<rparr>"

definition ep_with_property :: "string \<Rightarrow> property_value \<Rightarrow> edge_pattern \<Rightarrow> edge_pattern" where
  [code_defs]: "ep_with_property k v p = p\<lparr>ep_props := bm_insert k v (ep_props p)\<rparr>"

definition ep_set_repeat :: "nat \<times> nat \<Rightarrow> edge_pattern \<Rightarrow> edge_pattern" where
  [code_defs]: "ep_set_repeat r p = p\<lparr>ep_repeat := Some r\<rparr>"

record traversal_step =
  ts_edge :: edge_pattern
  ts_target :: node_pattern
  ts_outbound :: bool

datatype sort_order = Ascending | Descending

record traversal_plan =
  tp_seed :: node_pattern
  tp_steps :: "traversal_step list"
  tp_return :: "string list"
  tp_order :: "(string \<times> sort_order) list"
  tp_skip :: nat
  tp_limit :: "nat option"

definition plan_from :: "node_pattern \<Rightarrow> traversal_plan" where
  [code_defs]: "plan_from s =
     \<lparr>tp_seed = s, tp_steps = [], tp_return = [], tp_order = [], tp_skip = 0, tp_limit = None\<rparr>"

definition plan_outbound :: "edge_pattern \<Rightarrow> node_pattern \<Rightarrow> traversal_plan \<Rightarrow> traversal_plan" where
  [code_defs]: "plan_outbound e t p =
     p\<lparr>tp_steps := tp_steps p @ [\<lparr>ts_edge = e, ts_target = t, ts_outbound = True\<rparr>]\<rparr>"

definition plan_inbound :: "edge_pattern \<Rightarrow> node_pattern \<Rightarrow> traversal_plan \<Rightarrow> traversal_plan" where
  [code_defs]: "plan_inbound e t p =
     p\<lparr>tp_steps := tp_steps p @ [\<lparr>ts_edge = e, ts_target = t, ts_outbound = False\<rparr>]\<rparr>"

definition plan_return :: "string list \<Rightarrow> traversal_plan \<Rightarrow> traversal_plan" where
  [code_defs]: "plan_return cols p = p\<lparr>tp_return := cols\<rparr>"

definition plan_order_by :: "string \<Rightarrow> traversal_plan \<Rightarrow> traversal_plan" where
  [code_defs]: "plan_order_by x p = p\<lparr>tp_order := tp_order p @ [(x, Ascending)]\<rparr>"

definition plan_order_by_desc :: "string \<Rightarrow> traversal_plan \<Rightarrow> traversal_plan" where
  [code_defs]: "plan_order_by_desc x p = p\<lparr>tp_order := tp_order p @ [(x, Descending)]\<rparr>"

definition plan_skip :: "nat \<Rightarrow> traversal_plan \<Rightarrow> traversal_plan" where
  [code_defs]: "plan_skip n p = p\<lparr>tp_skip := n\<rparr>"

definition plan_limit :: "nat \<Rightarrow> traversal_plan \<Rightarrow> traversal_plan" where
  [code_defs]: "plan_limit n p = p\<lparr>tp_limit := Some n\<rparr>"

record match_row =
  mr_nodes :: "(string, node_id) bmap"
  mr_edges :: "(string, edge_id) bmap"

definition row_new :: match_row where
  [code_defs]: "row_new = \<lparr>mr_nodes = [], mr_edges = []\<rparr>"

definition bind_node :: "string \<Rightarrow> node_id \<Rightarrow> match_row \<Rightarrow> match_row" where
  [code_defs]: "bind_node x i r = r\<lparr>mr_nodes := bm_insert x i (mr_nodes r)\<rparr>"

definition bind_edge :: "string \<Rightarrow> edge_id \<Rightarrow> match_row \<Rightarrow> match_row" where
  [code_defs]: "bind_edge x i r = r\<lparr>mr_edges := bm_insert x i (mr_edges r)\<rparr>"

text \<open>\<open>if let Some(name) = bind\<close>: bind when the pattern names a variable.\<close>

definition bind_node_opt :: "string option \<Rightarrow> node_id \<Rightarrow> match_row \<Rightarrow> match_row" where
  [code_defs]: "bind_node_opt b i r = (case b of Some x \<Rightarrow> bind_node x i r | None \<Rightarrow> r)"

section \<open>Deltas, diffs, errors\<close>

datatype store_error = StOntology string | StIo string | StNotFound string

record delta =
  d_nodes :: "node list"
  d_edges :: "edge list"
  d_axioms :: "axiom_rec list"

definition delta_new :: delta where
  [code_defs]: "delta_new = \<lparr>d_nodes = [], d_edges = [], d_axioms = []\<rparr>"

definition delta_with_node :: "node \<Rightarrow> delta \<Rightarrow> delta" where
  [code_defs]: "delta_with_node n d = d\<lparr>d_nodes := d_nodes d @ [n]\<rparr>"

definition delta_with_edge :: "edge \<Rightarrow> delta \<Rightarrow> delta" where
  [code_defs]: "delta_with_edge e d = d\<lparr>d_edges := d_edges d @ [e]\<rparr>"

definition delta_with_axiom :: "axiom_rec \<Rightarrow> delta \<Rightarrow> delta" where
  [code_defs]: "delta_with_axiom a d = d\<lparr>d_axioms := d_axioms d @ [a]\<rparr>"

definition delta_is_empty :: "delta \<Rightarrow> bool" where
  [code_defs]: "delta_is_empty d \<longleftrightarrow> d_nodes d = [] \<and> d_edges d = [] \<and> d_axioms d = []"

record store_diff =
  sd_added_nodes :: "node_id list"
  sd_removed_nodes :: "node_id list"
  sd_added_edges :: "edge_id list"
  sd_removed_edges :: "edge_id list"

section \<open>The contract of a store\<close>

text \<open>The last element of a list of entities with a given id, as repeated upserts leave it.\<close>

definition last_with :: "('a \<Rightarrow> 'k) \<Rightarrow> 'a list \<Rightarrow> 'k \<Rightarrow> 'a option" where
  "last_with key xs k = map_of (rev (map (\<lambda>x. (key x, x)) xs)) k"

lemma last_with_None: "last_with key xs k = None \<longleftrightarrow> k \<notin> key ` set xs"
  by (auto simp: last_with_def map_of_eq_None_iff image_image)

lemma last_with_Some: "last_with key xs k = Some x \<Longrightarrow> x \<in> set xs \<and> key x = k"
  by (auto simp: last_with_def dest!: map_of_SomeD)

lemma last_with_append:
  "last_with key (xs @ ys) k =
     (case last_with key ys k of Some y \<Rightarrow> Some y | None \<Rightarrow> last_with key xs k)"
  unfolding last_with_def by (simp add: map_add_def split: option.splits)

text \<open>
  The laws of \<open>OntologyStore\<close> its clients rely on: an upsert is read back and changes no other
  entity, and a commit makes every entity of its delta readable, keeps the others, and records
  its activity. The commit's result is apart from its effect: a store may report an I/O error
  for a commit it has applied in memory.
\<close>

locale ontology_store =
  fixes st_node :: "'s \<Rightarrow> node_id \<Rightarrow> node option"
    and st_edge :: "'s \<Rightarrow> edge_id \<Rightarrow> edge option"
    and st_activity :: "'s \<Rightarrow> prov_id \<Rightarrow> activity option"
    and st_upsert_node :: "node \<Rightarrow> 's \<Rightarrow> 's"
    and st_upsert_edge :: "edge \<Rightarrow> 's \<Rightarrow> 's"
    and st_commit :: "delta \<Rightarrow> activity \<Rightarrow> 's \<Rightarrow> (store_error + prov_id) \<times> 's"
  assumes node_upsert_node: "st_node (st_upsert_node n s) i = (if i = n_id n then Some n else st_node s i)"
    and edge_upsert_node: "st_edge (st_upsert_node n s) j = st_edge s j"
    and node_upsert_edge: "st_node (st_upsert_edge e s) i = st_node s i"
    and edge_upsert_edge: "st_edge (st_upsert_edge e s) j = (if j = e_id e then Some e else st_edge s j)"
    and node_commit: "st_node (snd (st_commit d a s)) i =
          (case last_with n_id (d_nodes d) i of Some n \<Rightarrow> Some n | None \<Rightarrow> st_node s i)"
    and edge_commit: "st_edge (snd (st_commit d a s)) j =
          (case last_with e_id (d_edges d) j of Some e \<Rightarrow> Some e | None \<Rightarrow> st_edge s j)"
    and activity_commit: "st_activity (snd (st_commit d a s)) p =
          (if p = act_id a then Some a else st_activity s p)"
    and commit_result: "fst (st_commit d a s) = Inr p \<Longrightarrow> p = act_id a"
begin

lemma commit_keeps_others:
  "i \<notin> n_id ` set (d_nodes d) \<Longrightarrow> st_node (snd (st_commit d a s)) i = st_node s i"
  "j \<notin> e_id ` set (d_edges d) \<Longrightarrow> st_edge (snd (st_commit d a s)) j = st_edge s j"
  by (simp_all add: node_commit edge_commit last_with_None [THEN iffD2])

lemma commit_reads_back:
  "n \<in> set (d_nodes d) \<Longrightarrow> \<exists>m \<in> set (d_nodes d). n_id m = n_id n \<and> st_node (snd (st_commit d a s)) (n_id n) = Some m"
  by (cases "last_with n_id (d_nodes d) (n_id n)") (auto simp: node_commit last_with_None dest: last_with_Some)

lemma commit_twice:
  "st_node (snd (st_commit d b (snd (st_commit d a s)))) i = st_node (snd (st_commit d a s)) i"
  "st_edge (snd (st_commit d b (snd (st_commit d a s)))) j = st_edge (snd (st_commit d a s)) j"
  by (simp_all add: node_commit edge_commit split: option.splits)

lemma commit_activities_accumulate:
  "st_activity s p = Some x \<Longrightarrow> p \<noteq> act_id a \<Longrightarrow> st_activity (snd (st_commit d a s)) p = Some x"
  by (simp add: activity_commit)

end

end
