(* ===== verification/Mem_Store.thy ===== *)
theory Mem_Store
  imports Store_Api "HOL-Library.Multiset"
begin

text \<open>
  \<open>crates/atomr-ontology-store/src/mem.rs\<close>: the reference store. The state under its lock is the
  record \<open>mem_state\<close>; each method is one step on it, since each holds the lock from its first to
  its last access. \<open>bfs\<close> is the depth loop of \<open>traverse\<close>; its correctness is stated against the
  shortest-path distance in the relation \<open>hop\<close>. \<open>Vec::sort_by\<close> is the insertion sort
  \<open>sort_cmp\<close>: for a total preorder a stable sort has one result, which the locale
  \<open>total_preorder_cmp\<close> characterises.
\<close>

section \<open>Stable sorting by a comparison\<close>

datatype cmp_result = CmpLess | CmpEqual | CmpGreater

fun cmp_reverse :: "cmp_result \<Rightarrow> cmp_result" where
  "cmp_reverse CmpLess = CmpGreater"
| "cmp_reverse CmpEqual = CmpEqual"
| "cmp_reverse CmpGreater = CmpLess"

definition cmp_of :: "'a::linorder \<Rightarrow> 'a \<Rightarrow> cmp_result" where
  [code_defs]: "cmp_of x y = (if x < y then CmpLess else if x = y then CmpEqual else CmpGreater)"

fun insort_cmp :: "('a \<Rightarrow> 'a \<Rightarrow> cmp_result) \<Rightarrow> 'a \<Rightarrow> 'a list \<Rightarrow> 'a list" where
  "insort_cmp c x [] = [x]"
| "insort_cmp c x (y # ys) = (if c x y = CmpGreater then y # insort_cmp c x ys else x # y # ys)"

definition sort_cmp :: "('a \<Rightarrow> 'a \<Rightarrow> cmp_result) \<Rightarrow> 'a list \<Rightarrow> 'a list" where
  [code_defs]: "sort_cmp c xs = foldr (insort_cmp c) xs []"

lemma mset_insort_cmp [simp]: "mset (insort_cmp c x ys) = add_mset x (mset ys)"
  by (induction ys) auto

lemma mset_sort_cmp [simp]: "mset (sort_cmp c xs) = mset xs"
  unfolding sort_cmp_def by (induction xs) auto

lemma set_sort_cmp [simp]: "set (sort_cmp c xs) = set xs"
  by (metis mset_sort_cmp set_mset_mset)

lemma length_sort_cmp [simp]: "length (sort_cmp c xs) = length xs"
  by (metis mset_sort_cmp size_mset)

lemma set_insort_cmp [simp]: "set (insort_cmp c x ys) = insert x (set ys)"
  by (induction ys) auto

locale total_preorder_cmp =
  fixes c :: "'a \<Rightarrow> 'a \<Rightarrow> cmp_result"
  assumes cmp_swap: "c y x = cmp_reverse (c x y)"
    and cmp_trans: "c x y \<noteq> CmpGreater \<Longrightarrow> c y z \<noteq> CmpGreater \<Longrightarrow> c x z \<noteq> CmpGreater"
begin

lemma insort_sorted:
  "sorted_wrt (\<lambda>x y. c x y \<noteq> CmpGreater) ys \<Longrightarrow>
     sorted_wrt (\<lambda>x y. c x y \<noteq> CmpGreater) (insort_cmp c x ys)"
proof (induction ys)
  case (Cons y ys)
  have "c x y = CmpGreater \<Longrightarrow> c y x \<noteq> CmpGreater" by (simp add: cmp_swap [of y x])
  with Cons show ?case using cmp_trans [of x y] by auto
qed simp

lemma sort_sorted: "sorted_wrt (\<lambda>x y. c x y \<noteq> CmpGreater) (sort_cmp c xs)"
  unfolding sort_cmp_def by (induction xs) (auto intro: insort_sorted)

lemma cmp_equal_iff: "c x y = CmpEqual \<longleftrightarrow> c x y \<noteq> CmpGreater \<and> c y x \<noteq> CmpGreater"
  by (cases "c x y") (simp_all add: cmp_swap [of y x])

lemma insort_stable:
  "filter (\<lambda>y. c k y = CmpEqual) (insort_cmp c x ys) =
     (if c k x = CmpEqual then x # filter (\<lambda>y. c k y = CmpEqual) ys
      else filter (\<lambda>y. c k y = CmpEqual) ys)"
proof (induction ys)
  case (Cons y ys)
  show ?case
  proof (cases "c x y = CmpGreater")
    case True
    have "\<not> (c k x = CmpEqual \<and> c k y = CmpEqual)"
      using True cmp_trans [of x k y] by (auto simp: cmp_swap [of x k])
    with True Cons show ?thesis by auto
  qed simp
qed simp

lemma sort_stable:
  "filter (\<lambda>y. c k y = CmpEqual) (sort_cmp c xs) = filter (\<lambda>y. c k y = CmpEqual) xs"
  unfolding sort_cmp_def by (induction xs) (auto simp: insort_stable)

end

section \<open>Matching\<close>

fun match_node :: "node \<Rightarrow> node_pattern \<Rightarrow> bool" where
  "match_node n (NodePattern b types ps i ors nots) \<longleftrightarrow>
     (case i of Some j \<Rightarrow> n_id n = j | None \<Rightarrow> True) \<and>
     list_all (has_type n) types \<and>
     list_all (\<lambda>(k, v). pv_opt_eq (map_of (n_props n) k) v) ps \<and>
     \<not> (ors \<noteq> [] \<and> \<not> list_ex (\<lambda>alt. match_node n alt) ors) \<and>
     \<not> list_ex (\<lambda>neg. match_node n neg) nots"

definition match_edge :: "edge \<Rightarrow> edge_pattern \<Rightarrow> bool" where
  [code_defs]: "match_edge e p \<longleftrightarrow>
     (case ep_label p of Some l \<Rightarrow> e_label e = l | None \<Rightarrow> True) \<and>
     list_all (\<lambda>(k, v). pv_opt_eq (map_of (e_props e) k) v) (ep_props p)"

lemma match_any [simp]: "match_node n np_any"
  by (simp add: np_any_def)

section \<open>Ordering, paging and projection\<close>

fun row_cmp :: "(string \<times> sort_order) list \<Rightarrow> match_row \<Rightarrow> match_row \<Rightarrow> cmp_result" where
  "row_cmp [] a b = CmpEqual"
| "row_cmp ((binding, ord) # keys) a b =
     (let cmp = cmp_of (map_of (mr_nodes a) binding) (map_of (mr_nodes b) binding)
      in if cmp \<noteq> CmpEqual
         then (case ord of Ascending \<Rightarrow> cmp | Descending \<Rightarrow> cmp_reverse cmp)
         else row_cmp keys a b)"

definition project_row :: "string list \<Rightarrow> match_row \<Rightarrow> match_row" where
  [code_defs]: "project_row cols r =
     r\<lparr>mr_nodes := filter (\<lambda>(k, _). k \<in> set cols) (mr_nodes r),
       mr_edges := filter (\<lambda>(k, _). k \<in> set cols) (mr_edges r)\<rparr>"

definition apply_ordering_and_projection :: "traversal_plan \<Rightarrow> match_row list \<Rightarrow> match_row list" where
  [code_defs]: "apply_ordering_and_projection plan rows =
     (let rows = (if tp_order plan \<noteq> [] then sort_cmp (row_cmp (tp_order plan)) rows else rows);
          rows = (if tp_skip plan > 0 then drop (min (tp_skip plan) (length rows)) rows else rows);
          rows = (case tp_limit plan of Some n \<Rightarrow> take n rows | None \<Rightarrow> rows)
      in if tp_return plan \<noteq> [] then map (project_row (tp_return plan)) rows else rows)"

lemma cmp_of_swap: "cmp_of y x = cmp_reverse (cmp_of x y)"
  by (auto simp: cmp_of_def)

lemma row_cmp_swap: "row_cmp keys b a = cmp_reverse (row_cmp keys a b)"
  by (induction keys a b rule: row_cmp.induct)
    (auto simp: Let_def cmp_of_def split: sort_order.splits)

lemma row_cmp_trans:
  "row_cmp keys a b \<noteq> CmpGreater \<Longrightarrow> row_cmp keys b c \<noteq> CmpGreater \<Longrightarrow> row_cmp keys a c \<noteq> CmpGreater"
proof (induction keys)
  case (Cons key keys)
  obtain binding ord where key: "key = (binding, ord)" by force
  let ?x = "map_of (mr_nodes a) binding" and ?y = "map_of (mr_nodes b) binding"
    and ?z = "map_of (mr_nodes c) binding"
  show ?case
    using Cons key
    by (cases ord; cases ?x ?y rule: linorder_cases; cases ?y ?z rule: linorder_cases)
      (auto simp: Let_def cmp_of_def split: if_splits dest: less_trans)
qed simp

interpretation rows: total_preorder_cmp "row_cmp keys" for keys
  by unfold_locales (rule row_cmp_swap, rule row_cmp_trans)

section \<open>State and single-entity operations\<close>

record mem_state =
  ms_ont :: ontology
  ms_prov :: prov_log

definition mem_new :: mem_state where
  [code_defs]: "mem_new = \<lparr>ms_ont = ontology_new, ms_prov = prov_log_new\<rparr>"

definition mem_from_ontology :: "ontology \<Rightarrow> mem_state" where
  [code_defs]: "mem_from_ontology o' = \<lparr>ms_ont = o', ms_prov = prov_log_new\<rparr>"

definition mem_upsert_node :: "node \<Rightarrow> mem_state \<Rightarrow> node_id \<times> mem_state" where
  [code_defs]: "mem_upsert_node n s = (n_id n, s\<lparr>ms_ont := upsert_node n (ms_ont s)\<rparr>)"

definition mem_upsert_edge :: "edge \<Rightarrow> mem_state \<Rightarrow> edge_id \<times> mem_state" where
  [code_defs]: "mem_upsert_edge e s = (e_id e, s\<lparr>ms_ont := upsert_edge e (ms_ont s)\<rparr>)"

definition mem_upsert_axiom :: "axiom_rec \<Rightarrow> mem_state \<Rightarrow> mem_state" where
  [code_defs]: "mem_upsert_axiom a s = s\<lparr>ms_ont := upsert_axiom a (ms_ont s)\<rparr>"

definition mem_node :: "mem_state \<Rightarrow> node_id \<Rightarrow> node option" where
  [code_defs]: "mem_node s i = ont_node (ms_ont s) i"

definition mem_edge :: "mem_state \<Rightarrow> edge_id \<Rightarrow> edge option" where
  [code_defs]: "mem_edge s i = ont_edge (ms_ont s) i"

section \<open>match_pattern\<close>

definition first_bound :: "match_row \<Rightarrow> node_id option" where
  [code_defs]: "first_bound r = (case bm_values (mr_nodes r) of [] \<Rightarrow> None | i # _ \<Rightarrow> Some i)"

definition seed_rows :: "ontology \<Rightarrow> node_pattern \<Rightarrow> (match_row \<times> node_id) list" where
  [code_defs]: "seed_rows o' p =
     map (\<lambda>n. (bind_node_opt (np_bind p) (n_id n) row_new, n_id n))
       (filter (\<lambda>n. match_node n p) (bm_values (o_nodes o')))"

definition match_pattern :: "mem_state \<Rightarrow> node_pattern \<Rightarrow> match_row list" where
  [code_defs]: "match_pattern s p =
     sort_cmp (\<lambda>a b. cmp_of (first_bound a) (first_bound b)) (map fst (seed_rows (ms_ont s) p))"

section \<open>traverse\<close>

type_synonym layer = "(match_row \<times> node_id \<times> edge_id option) list"

definition candidates :: "ontology \<Rightarrow> traversal_step \<Rightarrow> node_id \<Rightarrow> edge list" where
  [code_defs]: "candidates o' st cur =
     (if ts_outbound st then filter (\<lambda>e. e_source e = cur) (bm_values (o_edges o'))
      else filter (\<lambda>e. e_target e = cur) (bm_values (o_edges o')))"

definition far_end :: "traversal_step \<Rightarrow> edge \<Rightarrow> node_id" where
  [code_defs]: "far_end st e = (if ts_outbound st then e_target e else e_source e)"

text \<open>The rows a layer emits: those whose node exists and matches the step's target.\<close>

definition bind_hop :: "traversal_step \<Rightarrow> match_row \<Rightarrow> edge_id option \<Rightarrow> node_id \<Rightarrow> match_row" where
  [code_defs]: "bind_hop st r via cur =
     bind_node_opt (np_bind (ts_target st)) cur
       (case (ep_bind (ts_edge st), via) of (Some x, Some i) \<Rightarrow> bind_edge x i r | _ \<Rightarrow> r)"

definition target_ok :: "ontology \<Rightarrow> traversal_step \<Rightarrow> node_id \<Rightarrow> bool" where
  [code_defs]: "target_ok o' st cur =
     (case ont_node o' cur of None \<Rightarrow> False | Some n \<Rightarrow> match_node n (ts_target st))"

definition emit_layer :: "ontology \<Rightarrow> traversal_step \<Rightarrow> layer \<Rightarrow> (match_row \<times> node_id) list" where
  [code_defs]: "emit_layer o' st l =
     map (\<lambda>(r, cur, via). (bind_hop st r via cur, cur)) (filter (\<lambda>(r, cur, via). target_ok o' st cur) l)"

fun expand_edges :: "traversal_step \<Rightarrow> match_row \<Rightarrow> edge list \<Rightarrow> node_id set \<times> layer \<Rightarrow> node_id set \<times> layer" where
  "expand_edges st r [] acc = acc"
| "expand_edges st r (e # es) (visited, l) =
     (if \<not> match_edge e (ts_edge st) then expand_edges st r es (visited, l)
      else if far_end st e \<in> visited then expand_edges st r es (visited, l)
      else expand_edges st r es (insert (far_end st e) visited, l @ [(r, far_end st e, Some (e_id e))]))"

fun expand_layer :: "ontology \<Rightarrow> traversal_step \<Rightarrow> layer \<Rightarrow> node_id set \<times> layer \<Rightarrow> node_id set \<times> layer" where
  "expand_layer o' st [] acc = acc"
| "expand_layer o' st ((r, cur, via) # l) acc =
     expand_layer o' st l (expand_edges st r (candidates o' st cur) acc)"

text \<open>The loop \<open>for depth in 0..=max\<close> with both of its breaks.\<close>

function bfs :: "ontology \<Rightarrow> traversal_step \<Rightarrow> nat \<Rightarrow> nat \<Rightarrow> nat \<Rightarrow> layer \<Rightarrow> node_id set \<Rightarrow> (match_row \<times> node_id) list" where
  "bfs o' st lo hi depth l visited =
     (if depth > hi then []
      else let out = (if depth \<ge> lo then emit_layer o' st l else [])
           in if depth = hi then out
              else case expand_layer o' st l (visited, []) of (visited', l') \<Rightarrow>
                     if l' = [] then out else out @ bfs o' st lo hi (Suc depth) l' visited')"
  by pat_completeness auto
termination
  by (relation "measure (\<lambda>(o', st, lo, hi, depth, l, visited). Suc hi - depth)") auto

declare bfs.simps [simp del]

definition hop_range :: "edge_pattern \<Rightarrow> nat \<times> nat" where
  [code_defs]: "hop_range p = (case ep_repeat p of Some r \<Rightarrow> r | None \<Rightarrow> (1, 1))"

definition expand_from :: "ontology \<Rightarrow> traversal_step \<Rightarrow> match_row \<times> node_id \<Rightarrow> (match_row \<times> node_id) list" where
  [code_defs]: "expand_from o' st rs =
     bfs o' st (fst (hop_range (ts_edge st))) (snd (hop_range (ts_edge st))) 0
       [(fst rs, snd rs, None)] {snd rs}"

definition run_step :: "ontology \<Rightarrow> traversal_step \<Rightarrow> (match_row \<times> node_id) list \<Rightarrow> (match_row \<times> node_id) list" where
  [code_defs]: "run_step o' st frontier = concat (map (expand_from o' st) frontier)"

definition traverse :: "mem_state \<Rightarrow> traversal_plan \<Rightarrow> match_row list" where
  [code_defs]: "traverse s plan =
     apply_ordering_and_projection plan
       (map fst (fold (run_step (ms_ont s)) (tp_steps plan) (seed_rows (ms_ont s) (tp_seed plan))))"

section \<open>diff and commit\<close>

definition key_difference :: "('k, 'v) bmap \<Rightarrow> ('k, 'w) bmap \<Rightarrow> 'k list" where
  [code_defs]: "key_difference a b = filter (\<lambda>k. k \<notin> set (bm_keys b)) (bm_keys a)"

definition ont_diff :: "ontology \<Rightarrow> ontology \<Rightarrow> store_diff" where
  [code_defs]: "ont_diff self other =
     \<lparr>sd_added_nodes = key_difference (o_nodes self) (o_nodes other),
      sd_removed_nodes = key_difference (o_nodes other) (o_nodes self),
      sd_added_edges = key_difference (o_edges self) (o_edges other),
      sd_removed_edges = key_difference (o_edges other) (o_edges self)\<rparr>"

definition stamp_axiom :: "prov_id \<Rightarrow> axiom_rec \<Rightarrow> axiom_rec" where
  [code_defs]: "stamp_axiom p a = (if ax_prov a = None then a\<lparr>ax_prov := Some p\<rparr> else a)"

definition apply_delta :: "delta \<Rightarrow> prov_id \<Rightarrow> ontology \<Rightarrow> ontology" where
  [code_defs]: "apply_delta d p o' =
     fold (\<lambda>a. upsert_axiom (stamp_axiom p a)) (d_axioms d)
       (fold upsert_edge (d_edges d) (fold upsert_node (d_nodes d) o'))"

definition mem_commit :: "delta \<Rightarrow> activity \<Rightarrow> mem_state \<Rightarrow> prov_id \<times> mem_state" where
  [code_defs]: "mem_commit d a s =
     (act_id a,
      s\<lparr>ms_ont := apply_delta d (act_id a) (ms_ont s), ms_prov := record_activity a (ms_prov s)\<rparr>)"

section \<open>Distances\<close>

definition within :: "('a \<times> 'a) set \<Rightarrow> 'a \<Rightarrow> nat \<Rightarrow> 'a set" where
  "within R a d = {b. \<exists>k \<le> d. (a, b) \<in> R ^^ k}"

definition at_distance :: "('a \<times> 'a) set \<Rightarrow> 'a \<Rightarrow> nat \<Rightarrow> 'a set" where
  "at_distance R a d = {b. (a, b) \<in> R ^^ d \<and> (\<forall>k < d. (a, b) \<notin> R ^^ k)}"

lemma at_distance_0 [simp]: "at_distance R a 0 = {a}" and within_0 [simp]: "within R a 0 = {a}"
  by (auto simp: at_distance_def within_def)

lemma within_Suc: "within R a (Suc d) = within R a d \<union> at_distance R a (Suc d)"
  by (auto simp: within_def at_distance_def le_Suc_eq less_Suc_eq_le simp del: relpow.simps)

lemma at_distance_within: "b \<in> at_distance R a d \<Longrightarrow> b \<in> within R a d"
  by (auto simp: at_distance_def within_def)

lemma at_distance_Suc: "at_distance R a (Suc d) = R `` at_distance R a d - within R a d"
proof (rule set_eqI, rule iffI)
  fix b assume b: "b \<in> at_distance R a (Suc d)"
  then obtain c where c: "(a, c) \<in> R ^^ d" "(c, b) \<in> R" by (auto simp: at_distance_def)
  have "(a, c) \<notin> R ^^ k" if "k < d" for k
  proof
    assume "(a, c) \<in> R ^^ k"
    with c(2) have "(a, b) \<in> R ^^ Suc k" by auto
    moreover have "Suc k < Suc d" using that by simp
    ultimately show False using b unfolding at_distance_def by blast
  qed
  with b c show "b \<in> R `` at_distance R a d - within R a d"
    by (auto simp: at_distance_def within_def less_Suc_eq_le)
next
  fix b assume "b \<in> R `` at_distance R a d - within R a d"
  then show "b \<in> at_distance R a (Suc d)"
    by (auto simp: at_distance_def within_def less_Suc_eq_le)
qed

lemma at_distance_stop: "at_distance R a d = {} \<Longrightarrow> d \<le> k \<Longrightarrow> at_distance R a k = {}"
proof (induction k)
  case (Suc k)
  then show ?case by (cases "d = Suc k") (simp_all add: at_distance_Suc)
qed simp

lemma at_distance_unique: "b \<in> at_distance R a d \<Longrightarrow> b \<in> at_distance R a k \<Longrightarrow> d = k"
  by (auto simp: at_distance_def) (metis linorder_neqE_nat)

section \<open>The expansion of one row\<close>

definition near_end :: "traversal_step \<Rightarrow> edge \<Rightarrow> node_id" where
  "near_end st e = (if ts_outbound st then e_source e else e_target e)"

definition hop :: "ontology \<Rightarrow> traversal_step \<Rightarrow> (node_id \<times> node_id) set" where
  "hop o' st = {(near_end st e, far_end st e) | e. e \<in> set (bm_values (o_edges o')) \<and> match_edge e (ts_edge st)}"

definition layer_nodes :: "layer \<Rightarrow> node_id list" where
  "layer_nodes l = map (fst \<circ> snd) l"

lemma layer_nodes_simps [simp]:
  "layer_nodes [] = []" "layer_nodes (x # l) = fst (snd x) # layer_nodes l"
  "layer_nodes (l @ l') = layer_nodes l @ layer_nodes l'" "layer_nodes l = [] \<longleftrightarrow> l = []"
  by (simp_all add: layer_nodes_def)

lemma candidates_iff:
  "e \<in> set (candidates o' st cur) \<longleftrightarrow> e \<in> set (bm_values (o_edges o')) \<and> near_end st e = cur"
  by (auto simp: candidates_def near_end_def)

text \<open>The last component of a layer entry is the id of an edge that led to its node.\<close>

definition via_ok :: "traversal_step \<Rightarrow> match_row \<Rightarrow> edge set \<Rightarrow> match_row \<times> node_id \<times> edge_id option \<Rightarrow> bool" where
  "via_ok st r E x \<longleftrightarrow>
     fst x = r \<and> (\<exists>e \<in> E. match_edge e (ts_edge st) \<and> far_end st e = fst (snd x) \<and> snd (snd x) = Some (e_id e))"

lemma via_ok_mono: "via_ok st r E x \<Longrightarrow> E \<subseteq> E' \<Longrightarrow> via_ok st r E' x"
  unfolding via_ok_def by blast

lemma expand_edges_new:
  "\<exists>new. expand_edges st r es (visited, l) = (visited \<union> set (layer_nodes new), l @ new) \<and>
     distinct (layer_nodes new) \<and>
     set (layer_nodes new) = far_end st ` {e \<in> set es. match_edge e (ts_edge st)} - visited \<and>
     (\<forall>x \<in> set new. via_ok st r (set es) x)"
proof (induction st r es "(visited, l)" arbitrary: visited l rule: expand_edges.induct)
  case (1 st r)
  show ?case by (intro exI [of _ "[]"]) simp
next
  case (2 st r e es visited l)
  consider (no) "\<not> match_edge e (ts_edge st)" | (seen) "match_edge e (ts_edge st)" "far_end st e \<in> visited"
    | (new) "match_edge e (ts_edge st)" "far_end st e \<notin> visited" by blast
  then show ?case
  proof cases
    case no
    from "2.hyps"(1) [OF no] obtain new where
      "expand_edges st r es (visited, l) = (visited \<union> set (layer_nodes new), l @ new)"
      "distinct (layer_nodes new)" "\<forall>x \<in> set new. via_ok st r (set es) x"
      "set (layer_nodes new) = far_end st ` {e \<in> set es. match_edge e (ts_edge st)} - visited" by blast
    with no show ?thesis by (intro exI [of _ new]) (auto simp: via_ok_def)
  next
    case seen
    from "2.hyps"(2) [OF _ seen(2)] seen obtain new where
      "expand_edges st r es (visited, l) = (visited \<union> set (layer_nodes new), l @ new)"
      "distinct (layer_nodes new)" "\<forall>x \<in> set new. via_ok st r (set es) x"
      "set (layer_nodes new) = far_end st ` {e \<in> set es. match_edge e (ts_edge st)} - visited" by blast
    with seen show ?thesis by (intro exI [of _ new]) (auto simp: via_ok_def)
  next
    case new
    let ?x = "(r, far_end st e, Some (e_id e))"
    from "2.hyps"(3) [OF _ new(2)] new obtain rest where
      "expand_edges st r es (insert (far_end st e) visited, l @ [?x]) =
         (insert (far_end st e) visited \<union> set (layer_nodes rest), (l @ [?x]) @ rest)"
      "distinct (layer_nodes rest)" "\<forall>x \<in> set rest. via_ok st r (set es) x"
      "set (layer_nodes rest) =
         far_end st ` {e \<in> set es. match_edge e (ts_edge st)} - insert (far_end st e) visited" by blast
    with new show ?thesis by (intro exI [of _ "?x # rest"]) (auto simp: via_ok_def)
  qed
qed

lemma expand_layer_new:
  "(\<forall>x \<in> set l. fst x = r) \<Longrightarrow>
   \<exists>new. expand_layer o' st l (visited, acc) = (visited \<union> set (layer_nodes new), acc @ new) \<and>
     distinct (layer_nodes new) \<and>
     set (layer_nodes new) = hop o' st `` set (layer_nodes l) - visited \<and>
     (\<forall>x \<in> set new. via_ok st r {e \<in> set (bm_values (o_edges o')). near_end st e \<in> set (layer_nodes l)} x)"
proof (induction o' st l "(visited, acc)" arbitrary: visited acc rule: expand_layer.induct)
  case (1 o' st)
  show ?case by (intro exI [of _ "[]"]) simp
next
  case (2 o' st r' cur via l visited acc)
  from "2.prems" have r: "r' = r" by simp
  obtain new where new: "expand_edges st r (candidates o' st cur) (visited, acc) =
        (visited \<union> set (layer_nodes new), acc @ new)"
    "distinct (layer_nodes new)" "\<forall>x \<in> set new. via_ok st r (set (candidates o' st cur)) x"
    "set (layer_nodes new) =
       far_end st ` {e \<in> set (candidates o' st cur). match_edge e (ts_edge st)} - visited"
    using expand_edges_new [of st r "candidates o' st cur" visited acc] by blast
  obtain rest where rest: "expand_layer o' st l (visited \<union> set (layer_nodes new), acc @ new) =
        (visited \<union> set (layer_nodes new) \<union> set (layer_nodes rest), (acc @ new) @ rest)"
    "distinct (layer_nodes rest)"
    "set (layer_nodes rest) = hop o' st `` set (layer_nodes l) - (visited \<union> set (layer_nodes new))"
    "\<forall>x \<in> set rest. via_ok st r {e \<in> set (bm_values (o_edges o')). near_end st e \<in> set (layer_nodes l)} x"
    using "2.hyps" [of "visited \<union> set (layer_nodes new)" "acc @ new"] new(1) "2.prems" r by auto
  have hop1: "hop o' st `` {cur} = far_end st ` {e \<in> set (candidates o' st cur). match_edge e (ts_edge st)}"
    by (auto simp: hop_def candidates_iff image_iff)
  have hop2: "hop o' st `` set (layer_nodes ((r', cur, via) # l)) =
      hop o' st `` {cur} \<union> hop o' st `` set (layer_nodes l)" by auto
  show ?case
  proof (intro exI [of _ "new @ rest"] conjI)
    show "set (layer_nodes (new @ rest)) = hop o' st `` set (layer_nodes ((r', cur, via) # l)) - visited"
      unfolding hop2 hop1 using new(4) rest(3) by auto
    show "\<forall>x \<in> set (new @ rest). via_ok st r {e \<in> set (bm_values (o_edges o')).
        near_end st e \<in> set (layer_nodes ((r', cur, via) # l))} x"
    proof
      fix x assume "x \<in> set (new @ rest)"
      then consider "x \<in> set new" | "x \<in> set rest" by auto
      then show "via_ok st r {e \<in> set (bm_values (o_edges o')).
        near_end st e \<in> set (layer_nodes ((r', cur, via) # l))} x"
      proof cases
        case 1
        then have "via_ok st r (set (candidates o' st cur)) x" using new(3) by blast
        then show ?thesis by (rule via_ok_mono) (auto simp: candidates_iff)
      next
        case 2
        then have "via_ok st r {e \<in> set (bm_values (o_edges o')). near_end st e \<in> set (layer_nodes l)} x"
          using rest(4) by blast
        then show ?thesis by (rule via_ok_mono) auto
      qed
    qed
  qed (use new rest r in auto)
qed

text \<open>
  The loop invariant: the layer holds each node at the current distance once, \<open>visited\<close> those
  within it. Each emitted pair binds the variables of the step on the row the expansion began with.
\<close>

definition emitted_ok :: "ontology \<Rightarrow> traversal_step \<Rightarrow> match_row \<Rightarrow> match_row \<times> node_id \<Rightarrow> bool" where
  "emitted_ok o' st r x \<longleftrightarrow>
     fst x = bind_hop st r None (snd x) \<or>
     (\<exists>e \<in> set (bm_values (o_edges o')). match_edge e (ts_edge st) \<and> far_end st e = snd x \<and>
        fst x = bind_hop st r (Some (e_id e)) (snd x))"

lemma emit_layer_nodes: "map snd (emit_layer o' st l) = filter (target_ok o' st) (layer_nodes l)"
  by (induction l) (auto simp: emit_layer_def)

lemma emit_layer_ok:
  assumes "\<forall>x \<in> set l. fst x = r \<and> (snd (snd x) = None \<or> via_ok st r (set (bm_values (o_edges o'))) x)"
  shows "\<forall>x \<in> set (emit_layer o' st l). emitted_ok o' st r x"
  using assms by (fastforce simp: emit_layer_def emitted_ok_def via_ok_def)

lemma bfs_emits:
  assumes "set (layer_nodes l) = at_distance (hop o' st) a depth" "distinct (layer_nodes l)"
    "visited = within (hop o' st) a depth" "depth \<le> hi"
    "\<forall>x \<in> set l. fst x = r \<and> (snd (snd x) = None \<or> via_ok st r (set (bm_values (o_edges o'))) x)"
  shows "distinct (map snd (bfs o' st lo hi depth l visited)) \<and>
     snd ` set (bfs o' st lo hi depth l visited) =
       {n. target_ok o' st n \<and> (\<exists>k \<ge> depth. lo \<le> k \<and> k \<le> hi \<and> n \<in> at_distance (hop o' st) a k)} \<and>
     (\<forall>x \<in> set (bfs o' st lo hi depth l visited). emitted_ok o' st r x)"
  using assms
proof (induction "hi - depth" arbitrary: depth l visited)
  case 0
  define out where "out = (if depth \<ge> lo then emit_layer o' st l else [])"
  have eq: "bfs o' st lo hi depth l visited = out"
    using 0 by (subst bfs.simps) (simp add: out_def)
  have out: "map snd out = (if lo \<le> depth then filter (target_ok o' st) (layer_nodes l) else [])"
    by (simp add: out_def emit_layer_nodes)
  have "hi = depth" using "0.hyps" "0.prems"(4) by simp
  then have range: "(\<exists>k \<ge> depth. lo \<le> k \<and> k \<le> hi \<and> n \<in> at_distance (hop o' st) a k) \<longleftrightarrow>
      lo \<le> depth \<and> n \<in> at_distance (hop o' st) a depth" for n
    by (metis le_antisym order_refl)
  have nodes: "{n. target_ok o' st n \<and> (\<exists>k \<ge> depth. lo \<le> k \<and> k \<le> hi \<and> n \<in> at_distance (hop o' st) a k)} =
      snd ` set out"
    unfolding range image_set out using "0.prems"(1) by auto
  show ?case
    unfolding eq nodes using "0.prems"(2) emit_layer_ok [OF "0.prems"(5)] out by (simp add: out_def)
next
  case (Suc m)
  define out where "out = (if depth \<ge> lo then emit_layer o' st l else [])"
  have out: "map snd out = (if lo \<le> depth then filter (target_ok o' st) (layer_nodes l) else [])"
    by (simp add: out_def emit_layer_nodes)
  have out_ok: "\<forall>x \<in> set out. emitted_ok o' st r x"
    using emit_layer_ok [OF Suc.prems(5)] by (simp add: out_def)
  have rows: "\<forall>x \<in> set l. fst x = r" using Suc.prems(5) by blast
  obtain new where new: "expand_layer o' st l (visited, []) = (visited \<union> set (layer_nodes new), [] @ new)"
    "distinct (layer_nodes new)" "set (layer_nodes new) = hop o' st `` set (layer_nodes l) - visited"
    "\<forall>x \<in> set new. via_ok st r {e \<in> set (bm_values (o_edges o')). near_end st e \<in> set (layer_nodes l)} x"
    using expand_layer_new [OF rows, of o' st visited "[]"] by (elim exE conjE)
  have next_nodes: "set (layer_nodes new) = at_distance (hop o' st) a (Suc depth)"
    using new(3) Suc.prems(1,3) by (simp add: at_distance_Suc)
  have step: "bfs o' st lo hi depth l visited =
      (if new = [] then out else out @ bfs o' st lo hi (Suc depth) new (visited \<union> set (layer_nodes new)))"
  proof -
    have "\<not> depth > hi" "depth \<noteq> hi" using Suc.hyps(2) by simp_all
    then show ?thesis using new(1) by (subst bfs.simps) (simp add: out_def)
  qed
  have split: "{n. target_ok o' st n \<and> (\<exists>k \<ge> depth. lo \<le> k \<and> k \<le> hi \<and> n \<in> at_distance (hop o' st) a k)} =
      set (map snd out) \<union>
      {n. target_ok o' st n \<and> (\<exists>k \<ge> Suc depth. lo \<le> k \<and> k \<le> hi \<and> n \<in> at_distance (hop o' st) a k)}"
    using Suc.prems(1,4) by (auto simp: out le_eq_less_or_eq [of depth] Suc_le_eq)
  show ?case
  proof (cases "new = []")
    case True
    then have "\<forall>k \<ge> Suc depth. at_distance (hop o' st) a k = {}"
      using next_nodes at_distance_stop by (metis layer_nodes_simps(1) list.set(1))
    then have rest: "{n. target_ok o' st n \<and>
        (\<exists>k \<ge> Suc depth. lo \<le> k \<and> k \<le> hi \<and> n \<in> at_distance (hop o' st) a k)} = {}" by blast
    have eq: "bfs o' st lo hi depth l visited = out" using True step by simp
    have "distinct (map snd out)" using Suc.prems(2) by (simp add: out)
    then show ?thesis unfolding eq split rest using out_ok by simp
  next
    case False
    have "\<forall>x \<in> set new. fst x = r \<and> (snd (snd x) = None \<or> via_ok st r (set (bm_values (o_edges o'))) x)"
      using new(4) by (auto simp: via_ok_def)
    moreover have "m = hi - Suc depth" "Suc depth \<le> hi" using Suc.hyps(2) by simp_all
    ultimately have ih: "distinct (map snd (bfs o' st lo hi (Suc depth) new (visited \<union> set (layer_nodes new))))"
      "snd ` set (bfs o' st lo hi (Suc depth) new (visited \<union> set (layer_nodes new))) =
         {n. target_ok o' st n \<and> (\<exists>k \<ge> Suc depth. lo \<le> k \<and> k \<le> hi \<and> n \<in> at_distance (hop o' st) a k)}"
      "\<forall>x \<in> set (bfs o' st lo hi (Suc depth) new (visited \<union> set (layer_nodes new))). emitted_ok o' st r x"
      using Suc.hyps(1) [of "Suc depth" new] new(2) next_nodes Suc.prems(3) by (simp_all add: within_Suc)
    have out_nodes: "set (map snd out) \<subseteq> at_distance (hop o' st) a depth"
      using Suc.prems(1) by (auto simp: out)
    let ?rest = "bfs o' st lo hi (Suc depth) new (visited \<union> set (layer_nodes new))"
    have eq: "bfs o' st lo hi depth l visited = out @ ?rest" using False step by simp
    have "b \<notin> at_distance (hop o' st) a k" if "Suc depth \<le> k" "b \<in> at_distance (hop o' st) a depth" for b k
      using that at_distance_unique [of b "hop o' st" a depth k] by auto
    then have "set (map snd out) \<inter> snd ` set ?rest = {}"
      using out_nodes unfolding ih(2) by blast
    then have "set (map snd out) \<inter> set (map snd ?rest) = {}" by (simp only: image_set)
    moreover have "distinct (map snd out)" using Suc.prems(2) by (simp add: out)
    ultimately have "distinct (map snd (out @ ?rest))" using ih(1) by (simp only: map_append distinct_append)
    moreover have "snd ` set (out @ ?rest) = set (map snd out) \<union> snd ` set ?rest"
      by (simp only: set_append image_Un image_set)
    moreover have "\<forall>x \<in> set (out @ ?rest). emitted_ok o' st r x" using ih(3) out_ok by auto
    ultimately show ?thesis unfolding eq split ih(2) [symmetric] by blast
  qed
qed

lemma expand_from_emits:
  "distinct (map snd (expand_from o' st (r, a)))"
  "snd ` set (expand_from o' st (r, a)) =
     {n. target_ok o' st n \<and>
       (\<exists>k. fst (hop_range (ts_edge st)) \<le> k \<and> k \<le> snd (hop_range (ts_edge st)) \<and>
          n \<in> at_distance (hop o' st) a k)}"
  "\<forall>x \<in> set (expand_from o' st (r, a)). emitted_ok o' st r x"
proof -
  let ?lo = "fst (hop_range (ts_edge st))" and ?hi = "snd (hop_range (ts_edge st))"
  have base: "set (layer_nodes [(r, a, None)]) = at_distance (hop o' st) a 0"
    "distinct (layer_nodes [(r, a, None)])" "{a} = within (hop o' st) a 0" "0 \<le> ?hi"
    "\<forall>x \<in> set [(r, a, None)]. fst x = r \<and>
       (snd (snd x) = None \<or> via_ok st r (set (bm_values (o_edges o'))) x)"
    by simp_all
  have eq: "expand_from o' st (r, a) = bfs o' st ?lo ?hi 0 [(r, a, None)] {a}"
    by (simp add: expand_from_def)
  note spec = bfs_emits [OF base, of ?lo, folded eq]
  then show "distinct (map snd (expand_from o' st (r, a)))"
    "\<forall>x \<in> set (expand_from o' st (r, a)). emitted_ok o' st r x" by blast+
  from spec show "snd ` set (expand_from o' st (r, a)) =
     {n. target_ok o' st n \<and> (\<exists>k. ?lo \<le> k \<and> k \<le> ?hi \<and> n \<in> at_distance (hop o' st) a k)}"
    by simp
qed

section \<open>Whole plans\<close>

definition step_rel :: "ontology \<Rightarrow> traversal_step \<Rightarrow> (node_id \<times> node_id) set" where
  "step_rel o' st = {(a, n). target_ok o' st n \<and>
     (\<exists>k. fst (hop_range (ts_edge st)) \<le> k \<and> k \<le> snd (hop_range (ts_edge st)) \<and>
        n \<in> at_distance (hop o' st) a k)}"

definition plan_rel :: "ontology \<Rightarrow> traversal_step list \<Rightarrow> (node_id \<times> node_id) set" where
  "plan_rel o' steps = foldr (\<lambda>st R. step_rel o' st O R) steps Id"

lemma run_step_nodes: "snd ` set (run_step o' st fr) = step_rel o' st `` (snd ` set fr)"
proof -
  have "snd ` set (run_step o' st fr) = (\<Union>x \<in> set fr. snd ` set (expand_from o' st (fst x, snd x)))"
    by (auto simp: run_step_def)
  also have "\<dots> = (\<Union>x \<in> set fr. step_rel o' st `` {snd x})"
    by (simp only: expand_from_emits step_rel_def) auto
  finally show ?thesis by auto
qed

lemma run_steps_nodes:
  "snd ` set (fold (run_step o') steps fr) = plan_rel o' steps `` (snd ` set fr)"
  by (induction steps arbitrary: fr) (auto simp: plan_rel_def run_step_nodes relcomp_Image)

lemma plan_rel_snoc: "plan_rel o' (steps @ [st]) = plan_rel o' steps O step_rel o' st"
proof -
  have "foldr (\<lambda>st R. step_rel o' st O R) steps S = foldr (\<lambda>st R. step_rel o' st O R) steps Id O S" for S
    by (induction steps) (simp_all add: O_assoc)
  then show ?thesis by (simp add: plan_rel_def)
qed

lemma bind_hop_target: "np_bind (ts_target st) = Some x \<Longrightarrow> map_of (mr_nodes (bind_hop st r via n)) x = Some n"
  by (simp add: bind_hop_def bind_node_opt_def bind_node_def)

lemma run_step_bound:
  assumes "np_bind (ts_target st) = Some x" "(r, n) \<in> set (run_step o' st fr)"
  shows "map_of (mr_nodes r) x = Some n"
proof -
  from assms(2) obtain y where y: "y \<in> set fr" "(r, n) \<in> set (expand_from o' st (fst y, snd y))"
    by (auto simp: run_step_def)
  then have "emitted_ok o' st (fst y) (r, n)" using expand_from_emits(3) by blast
  then show ?thesis using assms(1) by (auto simp: emitted_ok_def bind_hop_target)
qed

lemma project_row_get: "x \<in> set cols \<Longrightarrow> map_of (mr_nodes (project_row cols r)) x = map_of (mr_nodes r) x"
proof -
  assume x: "x \<in> set cols"
  have "map_of (filter (\<lambda>(k, _). k \<in> set cols) m) x = map_of m x" for m :: "(string \<times> node_id) list"
    using x by (induction m) auto
  then show ?thesis by (simp add: project_row_def)
qed

lemma traverse_reaches:
  assumes "tp_steps plan = steps @ [st]" "np_bind (ts_target st) = Some x"
    "tp_order plan = []" "tp_skip plan = 0" "tp_limit plan = None" "tp_return plan = [] \<or> x \<in> set (tp_return plan)"
  shows "(\<lambda>r. map_of (mr_nodes r) x) ` set (traverse s plan) =
     Some ` {n. \<exists>seed \<in> set (bm_values (o_nodes (ms_ont s))). match_node seed (tp_seed plan) \<and>
       (n_id seed, n) \<in> plan_rel (ms_ont s) (tp_steps plan)}"
proof -
  define fr where "fr = fold (run_step (ms_ont s)) steps (seed_rows (ms_ont s) (tp_seed plan))"
  have rows: "traverse s plan =
      map (if tp_return plan = [] then id else project_row (tp_return plan)) (map fst (run_step (ms_ont s) st fr))"
    using assms(1,3-5) by (simp add: traverse_def apply_ordering_and_projection_def fr_def)
  have get: "map_of (mr_nodes ((if tp_return plan = [] then id else project_row (tp_return plan)) r)) x = map_of (mr_nodes r) x" for r
    using assms(6) project_row_get by auto
  have "(\<lambda>r. map_of (mr_nodes r) x) ` set (traverse s plan) =
      (\<lambda>r. map_of (mr_nodes r) x) ` fst ` set (run_step (ms_ont s) st fr)"
    unfolding rows set_map image_image get ..
  also have "\<dots> = Some ` snd ` set (run_step (ms_ont s) st fr)"
    by (force simp: image_image intro!: image_cong dest: run_step_bound [OF assms(2)])
  also have "snd ` set (run_step (ms_ont s) st fr) =
      plan_rel (ms_ont s) (tp_steps plan) `` (snd ` set (seed_rows (ms_ont s) (tp_seed plan)))"
    by (simp add: run_step_nodes fr_def run_steps_nodes assms(1) plan_rel_snoc relcomp_Image)
  also have "snd ` set (seed_rows (ms_ont s) (tp_seed plan)) =
      n_id ` {n \<in> set (bm_values (o_nodes (ms_ont s))). match_node n (tp_seed plan)}"
    by (simp add: seed_rows_def image_image)
  finally show ?thesis by auto
qed

text \<open>A step without a repetition range goes to a neighbour other than its start.\<close>

lemma step_rel_single:
  assumes "ep_repeat (ts_edge st) = None"
  shows "step_rel o' st = {(a, n). target_ok o' st n \<and> n \<noteq> a \<and> (a, n) \<in> hop o' st}"
proof -
  have "n \<in> at_distance (hop o' st) a 1 \<longleftrightarrow> n \<noteq> a \<and> (a, n) \<in> hop o' st" for a n
    by (auto simp: at_distance_def)
  moreover have "(\<exists>k. 1 \<le> k \<and> k \<le> (1::nat) \<and> P k) \<longleftrightarrow> P 1" for P by (metis le_antisym order_refl)
  ultimately show ?thesis
    using assms by (simp only: step_rel_def hop_range_def option.case fst_conv snd_conv)
qed

section \<open>Commits\<close>

lemma ont_node_fold: "ont_node (fold upsert_node ns o') i =
    (case last_with n_id ns i of Some n \<Rightarrow> Some n | None \<Rightarrow> ont_node o' i)"
  by (induction ns arbitrary: o') (auto simp: last_with_def map_add_def split: option.splits)

lemma ont_edge_fold: "ont_edge (fold upsert_edge es o') i =
    (case last_with e_id es i of Some e \<Rightarrow> Some e | None \<Rightarrow> ont_edge o' i)"
  by (induction es arbitrary: o') (auto simp: last_with_def map_add_def split: option.splits)

lemma fold_frame: "(\<And>x s. f (g x s) = f s) \<Longrightarrow> f (fold g xs s) = f s"
  by (induction xs arbitrary: s) auto

lemma apply_delta_node: "ont_node (apply_delta d p o') i =
    (case last_with n_id (d_nodes d) i of Some n \<Rightarrow> Some n | None \<Rightarrow> ont_node o' i)"
  unfolding apply_delta_def by (simp add: fold_frame [where f = ont_node] ont_node_fold split: option.splits)

lemma apply_delta_edge: "ont_edge (apply_delta d p o') i =
    (case last_with e_id (d_edges d) i of Some e \<Rightarrow> Some e | None \<Rightarrow> ont_edge o' i)"
  unfolding apply_delta_def by (simp add: fold_frame [where f = ont_edge] ont_edge_fold split: option.splits)

lemma stamp_axiom_sel [simp]:
  "ax_id (stamp_axiom p a) = ax_id a" "ax_kind (stamp_axiom p a) = ax_kind a" "ax_prov (stamp_axiom p a) \<noteq> None"
  by (simp_all add: stamp_axiom_def)

lemma apply_delta_axioms: "o_axioms (apply_delta d p o') =
    fold (\<lambda>a acc. bm_insert (ax_id a) (stamp_axiom p a) acc) (d_axioms d) (o_axioms o')"
proof -
  have "o_axioms (fold (\<lambda>a. upsert_axiom (stamp_axiom p a)) as q) =
      fold (\<lambda>a acc. bm_insert (ax_id a) (stamp_axiom p a) acc) as (o_axioms q)" for as q
    by (induction as arbitrary: q) auto
  then show ?thesis by (simp add: apply_delta_def fold_frame [where f = o_axioms])
qed

lemma apply_delta_schema [simp]: "o_schema (apply_delta d p o') = o_schema o'"
  by (simp add: apply_delta_def fold_frame [where f = o_schema])

lemma ont_wf_apply_delta [simp]: "ont_wf o' \<Longrightarrow> ont_wf (apply_delta d p o')"
  unfolding apply_delta_def by (intro fold_invariant [where P = ont_wf] ont_wf_ops) auto

definition mem_wf :: "mem_state \<Rightarrow> bool" where
  "mem_wf s \<longleftrightarrow> ont_wf (ms_ont s) \<and> prov_log_wf (ms_prov s)"

lemma mem_wf_ops [simp]:
  "mem_wf mem_new" "ont_wf o' \<Longrightarrow> mem_wf (mem_from_ontology o')"
  "mem_wf s \<Longrightarrow> mem_wf (snd (mem_upsert_node n s))" "mem_wf s \<Longrightarrow> mem_wf (snd (mem_upsert_edge e s))"
  "mem_wf s \<Longrightarrow> mem_wf (mem_upsert_axiom a s)" "mem_wf s \<Longrightarrow> mem_wf (snd (mem_commit d act s))"
  by (simp_all add: mem_wf_def mem_new_def mem_from_ontology_def mem_upsert_node_def mem_upsert_edge_def
      mem_upsert_axiom_def mem_commit_def)

text \<open>The in-memory store meets the contract; it reports no error.\<close>

interpretation mem: ontology_store mem_node mem_edge
  "\<lambda>s p. map_of (pl_activities (ms_prov s)) p"
  "\<lambda>n s. snd (mem_upsert_node n s)" "\<lambda>e s. snd (mem_upsert_edge e s)"
  "\<lambda>d a s. (Inr (fst (mem_commit d a s)), snd (mem_commit d a s))"
  by unfold_locales
    (simp_all add: mem_node_def mem_edge_def mem_upsert_node_def mem_upsert_edge_def mem_commit_def
      apply_delta_node apply_delta_edge record_activity_get split: option.splits)

section \<open>Properties\<close>

text \<open>
  C3: A variable-length step from a node emits each node at most once, and exactly the existing
  nodes that match the target pattern and whose shortest distance from the start, along edges that
  match the edge pattern, lies in the requested range.
\<close>

theorem variable_length_step:
  "distinct (map snd (expand_from o' st (r, a))) \<and>
   snd ` set (expand_from o' st (r, a)) =
     {n. target_ok o' st n \<and>
       (\<exists>k. fst (hop_range (ts_edge st)) \<le> k \<and> k \<le> snd (hop_range (ts_edge st)) \<and>
          (a, n) \<in> hop o' st ^^ k \<and> \<not> (\<exists>j < k. (a, n) \<in> hop o' st ^^ j))}"
proof -
  have "n \<in> at_distance (hop o' st) a k \<longleftrightarrow>
      (a, n) \<in> hop o' st ^^ k \<and> \<not> (\<exists>j < k. (a, n) \<in> hop o' st ^^ j)" for n k
    by (auto simp: at_distance_def)
  then show ?thesis using expand_from_emits(1,2) [where o' = o' and st = st and r = r and a = a] by presburger
qed

text \<open>
  A step without a repetition range reaches exactly the neighbours along matching edges that
  match the target, but never the start itself: a self-loop is not followed.
\<close>

theorem single_hop_step:
  assumes "ep_repeat (ts_edge st) = None"
  shows "snd ` set (expand_from o' st (r, a)) =
     {n. n \<noteq> a \<and> (\<exists>e \<in> set (candidates o' st a). match_edge e (ts_edge st) \<and> far_end st e = n) \<and>
         target_ok o' st n}"
proof -
  have "n \<in> at_distance (hop o' st) a 1 \<longleftrightarrow> n \<noteq> a \<and> (a, n) \<in> hop o' st" for n
    by (auto simp: at_distance_def)
  moreover have "(a, n) \<in> hop o' st \<longleftrightarrow> (\<exists>e \<in> set (candidates o' st a). match_edge e (ts_edge st) \<and> far_end st e = n)" for n
    by (auto simp: hop_def candidates_iff)
  moreover have "(\<exists>k. 1 \<le> k \<and> k \<le> (1::nat) \<and> P k) \<longleftrightarrow> P 1" for P by (metis le_antisym order_refl)
  ultimately show ?thesis
    using assms by (simp only: expand_from_emits hop_range_def option.case fst_conv snd_conv) blast
qed

text \<open>
  A plan without ordering and paging whose last step binds \<open>x\<close>, a returned column, returns rows that
  bind \<open>x\<close> to exactly the nodes its chain of steps leads to from the nodes matching its seed.
\<close>

theorem traverse_bindings:
  assumes "tp_steps plan = steps @ [st]" "np_bind (ts_target st) = Some x"
    "tp_order plan = []" "tp_skip plan = 0" "tp_limit plan = None" "tp_return plan = [] \<or> x \<in> set (tp_return plan)"
  shows "(\<lambda>r. map_of (mr_nodes r) x) ` set (traverse s plan) =
     Some ` {n. \<exists>seed \<in> set (bm_values (o_nodes (ms_ont s))). match_node seed (tp_seed plan) \<and>
       (n_id seed, n) \<in> plan_rel (ms_ont s) (tp_steps plan)}"
  by (rule traverse_reaches [OF assms])

text \<open>
  ORDER BY, SKIP, LIMIT and RETURN: with an ordering the rows are those of a permutation of the
  input that is sorted by the ordering keys and keeps tied rows in input order, cut to the page and
  then projected; without one, the input order is kept.
\<close>

theorem ordering_and_projection:
  "\<exists>sorted. mset sorted = mset rows \<and>
     sorted_wrt (\<lambda>a b. row_cmp (tp_order plan) a b \<noteq> CmpGreater) sorted \<and>
     (\<forall>k. filter (\<lambda>r. row_cmp (tp_order plan) k r = CmpEqual) sorted =
          filter (\<lambda>r. row_cmp (tp_order plan) k r = CmpEqual) rows) \<and>
     apply_ordering_and_projection plan rows =
       map (if tp_return plan = [] then id else project_row (tp_return plan))
         (case tp_limit plan of None \<Rightarrow> drop (tp_skip plan) sorted
          | Some n \<Rightarrow> take n (drop (tp_skip plan) sorted))"
proof (intro exI conjI allI)
  let ?sorted = "sort_cmp (row_cmp (tp_order plan)) rows"
  show "sorted_wrt (\<lambda>a b. row_cmp (tp_order plan) a b \<noteq> CmpGreater) ?sorted"
    by (rule rows.sort_sorted)
  show "filter (\<lambda>r. row_cmp (tp_order plan) k r = CmpEqual) ?sorted =
      filter (\<lambda>r. row_cmp (tp_order plan) k r = CmpEqual) rows" for k
    by (rule rows.sort_stable)
  have skip: "(if tp_skip plan > 0 then drop (min (tp_skip plan) (length xs)) xs else xs) = drop (tp_skip plan) xs"
    for xs :: "match_row list" by (simp add: min_def)
  have "tp_order plan = [] \<Longrightarrow> ?sorted = rows"
  proof -
    assume "tp_order plan = []"
    then have "filter (\<lambda>r. True) ?sorted = filter (\<lambda>r. True) rows"
      using rows.sort_stable [of "tp_order plan" undefined rows] by simp
    then show ?thesis by simp
  qed
  then show "apply_ordering_and_projection plan rows =
       map (if tp_return plan = [] then id else project_row (tp_return plan))
         (case tp_limit plan of None \<Rightarrow> drop (tp_skip plan) ?sorted
          | Some n \<Rightarrow> take n (drop (tp_skip plan) ?sorted))"
    by (simp add: apply_ordering_and_projection_def Let_def skip split: option.splits)
qed simp

lemma sort_cmp_sorted: "sorted_wrt (\<lambda>x y. c x y \<noteq> CmpGreater) xs \<Longrightarrow> sort_cmp c xs = xs"
proof (induction xs)
  case (Cons x xs)
  then have "sort_cmp c xs = xs" by simp
  with Cons.prems show ?case by (cases xs) (simp_all add: sort_cmp_def)
qed (simp add: sort_cmp_def)

lemma ont_node_ids: "ont_wf o' \<Longrightarrow> map n_id (bm_values (o_nodes o')) = bm_keys (o_nodes o')"
  unfolding ont_wf_def bm_values_def bm_keys_def by (induction "o_nodes o'") (auto simp: map_idI)

lemma bm_keys_sorted: "bm_wf m \<Longrightarrow> sorted_wrt (<) (bm_keys m)"
  by (simp add: bm_wf_def bm_keys_def)

text \<open>
  \<open>match_pattern\<close> with a bound variable returns one row per matching node, in ascending order of
  node id.
\<close>

theorem match_pattern_rows:
  assumes "ont_wf (ms_ont s)" "np_bind p = Some x"
  shows "match_pattern s p =
     map (\<lambda>n. \<lparr>mr_nodes = [(x, n_id n)], mr_edges = []\<rparr>)
       (filter (\<lambda>n. match_node n p) (bm_values (o_nodes (ms_ont s)))) \<and>
     sorted_wrt (<) (map n_id (filter (\<lambda>n. match_node n p) (bm_values (o_nodes (ms_ont s)))))"
proof -
  let ?ns = "filter (\<lambda>n. match_node n p) (bm_values (o_nodes (ms_ont s)))"
  let ?row = "\<lambda>n. \<lparr>mr_nodes = [(x, n_id n)], mr_edges = []\<rparr>"
  have "sorted_wrt (<) (map n_id (bm_values (o_nodes (ms_ont s))))"
    using assms(1) by (simp add: ont_node_ids bm_keys_sorted ont_wf_def)
  then have sorted: "sorted_wrt (<) (map n_id ?ns)"
    by (simp add: sorted_wrt_map sorted_wrt_filter)
  have rows: "map fst (seed_rows (ms_ont s) p) = map ?row ?ns"
    using assms(2) by (simp add: seed_rows_def bind_node_opt_def bind_node_def row_new_def)
  have "sorted_wrt (\<lambda>a b. cmp_of (first_bound a) (first_bound b) \<noteq> CmpGreater) (map ?row ?ns)"
    using sorted unfolding sorted_wrt_map
    by (rule sorted_wrt_mono_rel [rotated]) (simp add: first_bound_def bm_values_def cmp_of_def)
  then show ?thesis using sorted by (simp add: match_pattern_def rows sort_cmp_sorted)
qed

text \<open>
  C16: A commit stores the last version of every node, edge and axiom of its delta under its id and
  changes no other entry, keeps the maps well formed, gives every stored axiom of the delta a
  provenance (its own, or the committed activity), and files the activity whose id it returns.
\<close>

theorem commit_effect:
  assumes "mem_wf s" "mem_commit d act s = (p, s')"
  shows "mem_wf s' \<and> p = act_id act \<and> map_of (pl_activities (ms_prov s')) p = Some act \<and>
     (\<forall>i. mem_node s' i = (case last_with n_id (d_nodes d) i of Some n \<Rightarrow> Some n | None \<Rightarrow> mem_node s i)) \<and>
     (\<forall>i. mem_edge s' i = (case last_with e_id (d_edges d) i of Some e \<Rightarrow> Some e | None \<Rightarrow> mem_edge s i)) \<and>
     (\<forall>i. map_of (o_axioms (ms_ont s')) i =
        (case last_with ax_id (d_axioms d) i of
           Some a \<Rightarrow> Some (if ax_prov a = None then a\<lparr>ax_prov := Some p\<rparr> else a)
         | None \<Rightarrow> map_of (o_axioms (ms_ont s)) i))"
proof -
  have s': "s' = snd (mem_commit d act s)" and p: "p = act_id act"
    using assms(2) by (simp, simp add: mem_commit_def)
  have last: "map_of (rev (map (\<lambda>x. (ax_id x, f x)) as)) i = map_option f (last_with ax_id as i)" for f as i
    by (induction as) (auto simp: last_with_def map_add_def split: option.splits)
  have "map_of (o_axioms (ms_ont s')) i =
      (case last_with ax_id (d_axioms d) i of
         Some a \<Rightarrow> Some (stamp_axiom p a) | None \<Rightarrow> map_of (o_axioms (ms_ont s)) i)" for i
    by (simp add: s' p mem_commit_def apply_delta_axioms bm.look_fold last split: option.splits)
  then show ?thesis
    using assms(1) mem.node_commit [where d = d and a = act and s = s]
      mem.edge_commit [where d = d and a = act and s = s]
      mem.activity_commit [where d = d and a = act and s = s]
    by (simp add: s' p stamp_axiom_def split: option.splits)
qed

text \<open>
  A diff lists, in ascending order and without repetition, exactly the ids only the receiver
  has as added and exactly those only the argument has as removed, for nodes and for edges.
\<close>

theorem diff_correct:
  assumes "ont_wf a" "ont_wf b"
  shows "set (sd_added_nodes (ont_diff a b)) = dom (ont_node a) - dom (ont_node b) \<and>
     set (sd_removed_nodes (ont_diff a b)) = dom (ont_node b) - dom (ont_node a) \<and>
     set (sd_added_edges (ont_diff a b)) = dom (ont_edge a) - dom (ont_edge b) \<and>
     set (sd_removed_edges (ont_diff a b)) = dom (ont_edge b) - dom (ont_edge a) \<and>
     sorted_wrt (<) (sd_added_nodes (ont_diff a b)) \<and> sorted_wrt (<) (sd_removed_nodes (ont_diff a b)) \<and>
     sorted_wrt (<) (sd_added_edges (ont_diff a b)) \<and> sorted_wrt (<) (sd_removed_edges (ont_diff a b))"
proof -
  have set_diff: "set (key_difference m m') = dom (map_of m) - dom (map_of m')"
    for m :: "('k, 'v) bmap" and m' :: "('k, 'w) bmap"
    by (auto simp: key_difference_def bm_keys_def dom_map_of_conv_image_fst)
  have sorted: "bm_wf m \<Longrightarrow> sorted_wrt (<) (key_difference m m')"
    for m :: "('k::linorder, 'v) bmap" and m' :: "('k, 'w) bmap"
    by (simp add: key_difference_def sorted_wrt_filter bm_keys_sorted)
  have "ont_node o' = map_of (o_nodes o')" "ont_edge o' = map_of (o_edges o')" for o'
    by (simp_all add: fun_eq_iff ont_node_def ont_edge_def)
  then show ?thesis using assms by (simp add: ont_diff_def set_diff sorted ont_wf_def)
qed

section \<open>Instances\<close>

definition ex_graph :: ontology where
  [code_defs]: "ex_graph =
     upsert_edge (edge_between (\<lambda>c x. rev x) (NodeId [2]) ''knows'' (NodeId [3]))
      (upsert_edge (edge_between (\<lambda>c x. x) (NodeId [1]) ''knows'' (NodeId [2]))
       (upsert_node \<lparr>n_id = NodeId [1], n_iri = None, n_types = [''P''], n_props = []\<rparr>
        (upsert_node \<lparr>n_id = NodeId [2], n_iri = None, n_types = [''P''], n_props = []\<rparr>
         (upsert_node \<lparr>n_id = NodeId [3], n_iri = None, n_types = [''P''], n_props = []\<rparr> ontology_new))))"

definition ex_step :: traversal_step where
  [code_defs]: "ex_step = \<lparr>ts_edge = ep_labeled ''knows'' ep_any, ts_target = np_set_bind ''b'' np_any, ts_outbound = True\<rparr>"

lemma ex_graph_wf [simp]: "ont_wf ex_graph"
  by (simp add: ex_graph_def)

lemma single_hop_step_witness:
  "snd ` set (expand_from ex_graph ex_step (row_new, NodeId [1])) = {NodeId [2]}"
  by (subst single_hop_step) (auto simp: code_defs)

lemma traverse_bindings_witness:
  "(\<lambda>r. map_of (mr_nodes r) ''b'') ` set (traverse (mem_from_ontology ex_graph)
       \<lparr>tp_seed = np_any, tp_steps = [] @ [ex_step], tp_return = [], tp_order = [], tp_skip = 0, tp_limit = None\<rparr>) =
     Some ` {n. \<exists>seed \<in> set (bm_values (o_nodes ex_graph)). match_node seed np_any \<and>
       (n_id seed, n) \<in> plan_rel ex_graph ([] @ [ex_step])}"
  by (subst traverse_bindings) (auto simp: code_defs)

lemma match_pattern_rows_witness:
  "match_pattern (mem_from_ontology ex_graph) (np_set_bind ''x'' np_any) =
     [\<lparr>mr_nodes = [(''x'', NodeId [1])], mr_edges = []\<rparr>, \<lparr>mr_nodes = [(''x'', NodeId [2])], mr_edges = []\<rparr>,
      \<lparr>mr_nodes = [(''x'', NodeId [3])], mr_edges = []\<rparr>]"
  using match_pattern_rows [of "mem_from_ontology ex_graph" "np_set_bind ''x'' np_any" "''x''"]
  by (simp add: code_defs)

lemma commit_effect_witness:
  "mem_wf (snd (mem_commit (delta_with_axiom (axiom_new (\<lambda>c x. x) (Symmetric ''knows'')) delta_new)
      (activity_started (ProvenanceId [7]) 0 ''import'') (mem_from_ontology ex_graph)))"
  using commit_effect [of "mem_from_ontology ex_graph"
      "delta_with_axiom (axiom_new (\<lambda>c x. x) (Symmetric ''knows'')) delta_new"
      "activity_started (ProvenanceId [7]) 0 ''import''" _ _, OF _ surjective_pairing] by simp

lemma diff_correct_witness:
  "set (sd_added_nodes (ont_diff ex_graph ontology_new)) = {NodeId [1], NodeId [2], NodeId [3]}"
  using diff_correct [OF ex_graph_wf ont_wf_new] by (auto simp: code_defs dom_def split: if_splits)

end
