(* ===== verification/Persist_Wire.thy ===== *)
theory Persist_Wire
  imports Provenance
begin

text \<open>
  \<open>crates/atomr-ontology-persist/src/wire.rs\<close> and the \<open>Snapshot\<close> of \<open>checkpointer.rs\<close>: the wire
  form with hexadecimal ids and vectors in place of id-keyed maps, its two conversions, and
  their round trip. The \<open>hex\<close> crate is the parameter pair \<open>hexe\<close> and \<open>hexd\<close> (its error is the
  text of its \<open>Display\<close>).
\<close>

type_synonym hex_encoder = "bytes \<Rightarrow> string"
type_synonym hex_decoder = "string \<Rightarrow> string + bytes"

record snapshot =
  sn_ont :: ontology
  sn_prov :: prov_log
  sn_version :: "64 word"

definition decode_id :: "hex_decoder \<Rightarrow> string \<Rightarrow> string + bytes" where
  [code_defs]: "decode_id hexd s =
     (case hexd s of
        Inl e \<Rightarrow> Inl (''invalid hex id: '' @ e)
      | Inr raw \<Rightarrow>
          if length raw \<noteq> 32
          then Inl (''expected 32-byte id, got '' @ show_nat (length raw) @ '' bytes'')
          else Inr raw)"

section \<open>Wire types\<close>

record node_wire =
  nw_id :: string
  nw_iri :: "iri option"
  nw_types :: "string list"
  nw_props :: props

record edge_wire =
  ew_id :: string
  ew_label :: string
  ew_source :: string
  ew_target :: string
  ew_props :: props

record axiom_wire =
  aw_id :: axiom_id
  aw_kind :: axiom_kind
  aw_prov :: "string option"

record ontology_wire =
  ow_iri :: "iri option"
  ow_vocab :: vocabulary
  ow_schema :: schema
  ow_nodes :: "node_wire list"
  ow_edges :: "edge_wire list"
  ow_axioms :: "axiom_wire list"

record activity_wire =
  acw_id :: string
  acw_label :: string
  acw_started :: int
  acw_ended :: "int option"
  acw_agent :: "agent_ref option"
  acw_attrs :: "(string, json) bmap"

record prov_entity_wire =
  pew_id :: string
  pew_label :: string
  pew_digest :: "string option"
  pew_attrs :: "(string, json) bmap"

text \<open>The three link records: generation (entity, activity), derivation (derived, source), use (activity, entity).\<close>

record generated_wire =
  gw_entity :: string
  gw_activity :: string

record derived_wire =
  dw_derived :: string
  dw_source :: string

record used_wire =
  uw_activity :: string
  uw_entity :: string

record prov_log_wire =
  plw_activities :: "activity_wire list"
  plw_entities :: "prov_entity_wire list"
  plw_generations :: "generated_wire list"
  plw_derivations :: "derived_wire list"
  plw_attributions :: "was_attributed_to list"
  plw_uses :: "used_wire list"

record snapshot_wire =
  sw_ont :: ontology_wire
  sw_prov :: prov_log_wire
  sw_version :: "64 word"

section \<open>To the wire\<close>

definition node_wire_from :: "hex_encoder \<Rightarrow> node \<Rightarrow> node_wire" where
  "node_wire_from hexe n =
     \<lparr>nw_id = hexe (node_id_bytes (n_id n)), nw_iri = n_iri n, nw_types = n_types n, nw_props = n_props n\<rparr>"

definition edge_wire_from :: "hex_encoder \<Rightarrow> edge \<Rightarrow> edge_wire" where
  "edge_wire_from hexe e =
     \<lparr>ew_id = hexe (edge_id_bytes (e_id e)), ew_label = e_label e,
      ew_source = hexe (node_id_bytes (e_source e)), ew_target = hexe (node_id_bytes (e_target e)),
      ew_props = e_props e\<rparr>"

definition axiom_wire_from :: "hex_encoder \<Rightarrow> axiom_rec \<Rightarrow> axiom_wire" where
  "axiom_wire_from hexe a =
     \<lparr>aw_id = ax_id a, aw_kind = ax_kind a, aw_prov = map_option (\<lambda>p. hexe (prov_id_bytes p)) (ax_prov a)\<rparr>"

definition ontology_wire_from :: "hex_encoder \<Rightarrow> ontology \<Rightarrow> ontology_wire" where
  "ontology_wire_from hexe o' =
     \<lparr>ow_iri = o_iri o', ow_vocab = o_vocab o', ow_schema = o_schema o',
      ow_nodes = map (node_wire_from hexe) (bm_values (o_nodes o')),
      ow_edges = map (edge_wire_from hexe) (bm_values (o_edges o')),
      ow_axioms = map (axiom_wire_from hexe) (bm_values (o_axioms o'))\<rparr>"

definition activity_wire_from :: "hex_encoder \<Rightarrow> activity \<Rightarrow> activity_wire" where
  "activity_wire_from hexe a =
     \<lparr>acw_id = hexe (prov_id_bytes (act_id a)), acw_label = act_label a, acw_started = act_started a,
      acw_ended = act_ended a, acw_agent = act_agent a, acw_attrs = act_attrs a\<rparr>"

definition prov_entity_wire_from :: "hex_encoder \<Rightarrow> prov_entity \<Rightarrow> prov_entity_wire" where
  "prov_entity_wire_from hexe e =
     \<lparr>pew_id = hexe (prov_id_bytes (ent_id e)), pew_label = ent_label e, pew_digest = ent_digest e,
      pew_attrs = ent_attrs e\<rparr>"

definition generated_wire_from :: "hex_encoder \<Rightarrow> was_generated_by \<Rightarrow> generated_wire" where
  "generated_wire_from hexe g =
     \<lparr>gw_entity = hexe (prov_id_bytes (gen_entity g)), gw_activity = hexe (prov_id_bytes (gen_activity g))\<rparr>"

definition derived_wire_from :: "hex_encoder \<Rightarrow> was_derived_from \<Rightarrow> derived_wire" where
  "derived_wire_from hexe d =
     \<lparr>dw_derived = hexe (prov_id_bytes (der_derived d)), dw_source = hexe (prov_id_bytes (der_source d))\<rparr>"

definition used_wire_from :: "hex_encoder \<Rightarrow> used_rec \<Rightarrow> used_wire" where
  "used_wire_from hexe u =
     \<lparr>uw_activity = hexe (prov_id_bytes (use_activity u)), uw_entity = hexe (prov_id_bytes (use_entity u))\<rparr>"

definition prov_log_wire_from :: "hex_encoder \<Rightarrow> prov_log \<Rightarrow> prov_log_wire" where
  "prov_log_wire_from hexe p =
     \<lparr>plw_activities = map (activity_wire_from hexe) (bm_values (pl_activities p)),
      plw_entities = map (prov_entity_wire_from hexe) (bm_values (pl_entities p)),
      plw_generations = map (generated_wire_from hexe) (pl_generations p),
      plw_derivations = map (derived_wire_from hexe) (pl_derivations p),
      plw_attributions = pl_attributions p,
      plw_uses = map (used_wire_from hexe) (pl_uses p)\<rparr>"

definition snapshot_wire_from :: "hex_encoder \<Rightarrow> snapshot \<Rightarrow> snapshot_wire" where
  "snapshot_wire_from hexe s =
     \<lparr>sw_ont = ontology_wire_from hexe (sn_ont s), sw_prov = prov_log_wire_from hexe (sn_prov s),
      sw_version = sn_version s\<rparr>"

section \<open>From the wire\<close>

definition into_node :: "hex_decoder \<Rightarrow> node_wire \<Rightarrow> string + node" where
  "into_node hexd w =
     (case decode_id hexd (nw_id w) of
        Inl e \<Rightarrow> Inl e
      | Inr i \<Rightarrow> Inr \<lparr>n_id = NodeId i, n_iri = nw_iri w, n_types = nw_types w, n_props = nw_props w\<rparr>)"

definition into_edge :: "hex_decoder \<Rightarrow> edge_wire \<Rightarrow> string + edge" where
  "into_edge hexd w =
     (case decode_id hexd (ew_id w) of
        Inl e \<Rightarrow> Inl e
      | Inr i \<Rightarrow>
          (case decode_id hexd (ew_source w) of
             Inl e \<Rightarrow> Inl e
           | Inr s \<Rightarrow>
               (case decode_id hexd (ew_target w) of
                  Inl e \<Rightarrow> Inl e
                | Inr t \<Rightarrow>
                    Inr \<lparr>e_id = EdgeId i, e_label = ew_label w, e_source = NodeId s, e_target = NodeId t,
                         e_props = ew_props w\<rparr>)))"

definition into_axiom :: "hex_decoder \<Rightarrow> axiom_wire \<Rightarrow> string + axiom_rec" where
  "into_axiom hexd w =
     (case aw_prov w of
        None \<Rightarrow> Inr \<lparr>ax_id = aw_id w, ax_kind = aw_kind w, ax_prov = None\<rparr>
      | Some s \<Rightarrow>
          (case decode_id hexd s of
             Inl e \<Rightarrow> Inl e
           | Inr p \<Rightarrow> Inr \<lparr>ax_id = aw_id w, ax_kind = aw_kind w, ax_prov = Some (ProvenanceId p)\<rparr>))"

definition into_activity :: "hex_decoder \<Rightarrow> activity_wire \<Rightarrow> string + activity" where
  "into_activity hexd w =
     (case decode_id hexd (acw_id w) of
        Inl e \<Rightarrow> Inl e
      | Inr i \<Rightarrow>
          Inr \<lparr>act_id = ProvenanceId i, act_label = acw_label w, act_started = acw_started w,
               act_ended = acw_ended w, act_agent = acw_agent w, act_attrs = acw_attrs w\<rparr>)"

definition into_entity :: "hex_decoder \<Rightarrow> prov_entity_wire \<Rightarrow> string + prov_entity" where
  "into_entity hexd w =
     (case decode_id hexd (pew_id w) of
        Inl e \<Rightarrow> Inl e
      | Inr i \<Rightarrow>
          Inr \<lparr>ent_id = ProvenanceId i, ent_label = pew_label w, ent_digest = pew_digest w,
               ent_attrs = pew_attrs w\<rparr>)"

text \<open>A link step decodes its two ids in the order of the call and appends the link.\<close>

definition decode_link ::
    "hex_decoder \<Rightarrow> (prov_id \<Rightarrow> prov_id \<Rightarrow> prov_log \<Rightarrow> prov_log) \<Rightarrow> string \<Rightarrow> string \<Rightarrow> prov_log \<Rightarrow> string + prov_log" where
  "decode_link hexd link a b l =
     (case decode_id hexd a of
        Inl e \<Rightarrow> Inl e
      | Inr x \<Rightarrow>
          (case decode_id hexd b of
             Inl e \<Rightarrow> Inl e
           | Inr y \<Rightarrow> Inr (link (ProvenanceId x) (ProvenanceId y) l)))"

definition add_decoded :: "('w \<Rightarrow> string + 'a) \<Rightarrow> ('a \<Rightarrow> 's \<Rightarrow> 's) \<Rightarrow> 'w \<Rightarrow> 's \<Rightarrow> string + 's" where
  "add_decoded decode add w s = (case decode w of Inl e \<Rightarrow> Inl e | Inr x \<Rightarrow> Inr (add x s))"

definition into_ontology :: "hex_decoder \<Rightarrow> ontology_wire \<Rightarrow> string + ontology" where
  "into_ontology hexd w =
     (case try_fold (add_decoded (into_node hexd) upsert_node) (ow_nodes w)
             (ontology_new\<lparr>o_iri := ow_iri w, o_vocab := ow_vocab w, o_schema := ow_schema w\<rparr>) of
        Inl e \<Rightarrow> Inl e
      | Inr o1 \<Rightarrow>
          (case try_fold (add_decoded (into_edge hexd) upsert_edge) (ow_edges w) o1 of
             Inl e \<Rightarrow> Inl e
           | Inr o2 \<Rightarrow> try_fold (add_decoded (into_axiom hexd) upsert_axiom) (ow_axioms w) o2))"

definition into_log :: "hex_decoder \<Rightarrow> prov_log_wire \<Rightarrow> string + prov_log" where
  "into_log hexd w =
     (case try_fold (add_decoded (into_activity hexd) record_activity) (plw_activities w) prov_log_new of
        Inl e \<Rightarrow> Inl e
      | Inr l1 \<Rightarrow>
     (case try_fold (add_decoded (into_entity hexd) record_entity) (plw_entities w) l1 of
        Inl e \<Rightarrow> Inl e
      | Inr l2 \<Rightarrow>
     (case try_fold (\<lambda>g. decode_link hexd log_generated (gw_entity g) (gw_activity g)) (plw_generations w) l2 of
        Inl e \<Rightarrow> Inl e
      | Inr l3 \<Rightarrow>
     (case try_fold (\<lambda>d. decode_link hexd log_derived (dw_derived d) (dw_source d)) (plw_derivations w) l3 of
        Inl e \<Rightarrow> Inl e
      | Inr l4 \<Rightarrow>
     (case try_fold (\<lambda>u. decode_link hexd log_used (uw_activity u) (uw_entity u)) (plw_uses w) l4 of
        Inl e \<Rightarrow> Inl e
      | Inr l5 \<Rightarrow> Inr (l5\<lparr>pl_attributions := plw_attributions w\<rparr>))))))"

definition into_snapshot :: "hex_decoder \<Rightarrow> snapshot_wire \<Rightarrow> string + snapshot" where
  "into_snapshot hexd w =
     (case into_ontology hexd (sw_ont w) of
        Inl e \<Rightarrow> Inl e
      | Inr o' \<Rightarrow>
          (case into_log hexd (sw_prov w) of
             Inl e \<Rightarrow> Inl e
           | Inr l \<Rightarrow> Inr \<lparr>sn_ont = o', sn_prov = l, sn_version = sw_version w\<rparr>))"

section \<open>Ids of 32 bytes\<close>

text \<open>The code's ids are \<open>[u8; 32]\<close>; these say it of the ids the wire form encodes.\<close>

definition ont_ids_ok :: "ontology \<Rightarrow> bool" where
  "ont_ids_ok o' \<longleftrightarrow>
     (\<forall>n \<in> set (bm_values (o_nodes o')). length (node_id_bytes (n_id n)) = 32) \<and>
     (\<forall>e \<in> set (bm_values (o_edges o')). length (edge_id_bytes (e_id e)) = 32 \<and>
        length (node_id_bytes (e_source e)) = 32 \<and> length (node_id_bytes (e_target e)) = 32) \<and>
     (\<forall>a \<in> set (bm_values (o_axioms o')). \<forall>p \<in> set_option (ax_prov a). length (prov_id_bytes p) = 32)"

definition log_ids_ok :: "prov_log \<Rightarrow> bool" where
  "log_ids_ok l \<longleftrightarrow>
     (\<forall>a \<in> set (bm_values (pl_activities l)). length (prov_id_bytes (act_id a)) = 32) \<and>
     (\<forall>e \<in> set (bm_values (pl_entities l)). length (prov_id_bytes (ent_id e)) = 32) \<and>
     (\<forall>g \<in> set (pl_generations l). length (prov_id_bytes (gen_entity g)) = 32 \<and> length (prov_id_bytes (gen_activity g)) = 32) \<and>
     (\<forall>d \<in> set (pl_derivations l). length (prov_id_bytes (der_derived d)) = 32 \<and> length (prov_id_bytes (der_source d)) = 32) \<and>
     (\<forall>u \<in> set (pl_uses l). length (prov_id_bytes (use_activity u)) = 32 \<and> length (prov_id_bytes (use_entity u)) = 32)"

definition snapshot_ok :: "snapshot \<Rightarrow> bool" where
  "snapshot_ok s \<longleftrightarrow> ont_wf (sn_ont s) \<and> prov_log_wf (sn_prov s) \<and> ont_ids_ok (sn_ont s) \<and> log_ids_ok (sn_prov s)"

lemma ids_ok_new [simp]: "ont_ids_ok ontology_new" "log_ids_ok prov_log_new"
  by (simp_all add: ont_ids_ok_def log_ids_ok_def ontology_new_def prov_log_new_def bm_values_def)

section \<open>Decoding what was encoded\<close>

lemma decode_id_encode: "hexd (hexe b) = Inr b \<Longrightarrow> length b = 32 \<Longrightarrow> decode_id hexd (hexe b) = Inr b"
  by (simp add: decode_id_def)

lemma decode_id_length: "decode_id hexd s = Inr b \<Longrightarrow> length b = 32"
  by (auto simp: decode_id_def split: sum.splits if_splits)

lemma try_fold_decoded:
  "(\<And>x. x \<in> set xs \<Longrightarrow> decode (enc x) = Inr x) \<Longrightarrow>
     try_fold (add_decoded decode add) (map enc xs) s = Inr (fold add xs s)"
  by (induction xs arbitrary: s) (auto simp: add_decoded_def)

lemma try_fold_links:
  "(\<And>x. x \<in> set xs \<Longrightarrow> f (enc x) = (\<lambda>s. Inr (g x s))) \<Longrightarrow> try_fold f (map enc xs) s = Inr (fold g xs s)"
  by (induction xs arbitrary: s) auto

lemma rebuild_keyed:
  assumes "bm_wf m" "\<forall>(k, x) \<in> set m. key x = k"
  shows "fold (\<lambda>x acc. bm_insert (key x) x acc) (bm_values m) [] = m"
proof -
  have "fold (\<lambda>x acc. bm_insert (key x) x acc) (bm_values m) [] =
      fold (\<lambda>e acc. bm_insert (fst e) (snd e) acc) m []"
    unfolding bm_values_def fold_map using assms(2) by (intro fold_cong) (auto simp: fun_eq_iff)
  with bm_rebuild [OF assms(1)] show ?thesis by simp
qed

lemma fold_records:
  "fold record_activity acts l = l\<lparr>pl_activities := fold (\<lambda>a acc. bm_insert (act_id a) a acc) acts (pl_activities l)\<rparr>"
  "fold record_entity ents l = l\<lparr>pl_entities := fold (\<lambda>e acc. bm_insert (ent_id e) e acc) ents (pl_entities l)\<rparr>"
proof -
  show "fold record_activity acts l =
      l\<lparr>pl_activities := fold (\<lambda>a acc. bm_insert (act_id a) a acc) acts (pl_activities l)\<rparr>"
    by (induction acts arbitrary: l) (simp_all add: record_activity_def)
  show "fold record_entity ents l =
      l\<lparr>pl_entities := fold (\<lambda>e acc. bm_insert (ent_id e) e acc) ents (pl_entities l)\<rparr>"
    by (induction ents arbitrary: l) (simp_all add: record_entity_def)
qed

lemma fold_links:
  "fold (\<lambda>g. log_generated (gen_entity g) (gen_activity g)) gs l = l\<lparr>pl_generations := pl_generations l @ gs\<rparr>"
  "fold (\<lambda>d. log_derived (der_derived d) (der_source d)) ds l = l\<lparr>pl_derivations := pl_derivations l @ ds\<rparr>"
  "fold (\<lambda>u. log_used (use_activity u) (use_entity u)) us l = l\<lparr>pl_uses := pl_uses l @ us\<rparr>"
proof -
  show "fold (\<lambda>g. log_generated (gen_entity g) (gen_activity g)) gs l = l\<lparr>pl_generations := pl_generations l @ gs\<rparr>"
    by (induction gs arbitrary: l) (simp_all add: log_generated_def)
  show "fold (\<lambda>d. log_derived (der_derived d) (der_source d)) ds l = l\<lparr>pl_derivations := pl_derivations l @ ds\<rparr>"
    by (induction ds arbitrary: l) (simp_all add: log_derived_def)
  show "fold (\<lambda>u. log_used (use_activity u) (use_entity u)) us l = l\<lparr>pl_uses := pl_uses l @ us\<rparr>"
    by (induction us arbitrary: l) (simp_all add: log_used_def)
qed

lemma into_ontology_from:
  assumes hex: "\<And>b. hexd (hexe b) = Inr b" and ok: "ont_wf o'" "ont_ids_ok o'"
  shows "into_ontology hexd (ontology_wire_from hexe o') = Inr o'"
proof -
  note dec = decode_id_encode [of hexd hexe, OF hex]
  have nodes: "try_fold (add_decoded (into_node hexd) upsert_node)
      (map (node_wire_from hexe) (bm_values (o_nodes o'))) s = Inr (fold upsert_node (bm_values (o_nodes o')) s)" for s
    using ok(2) by (intro try_fold_decoded) (simp add: into_node_def node_wire_from_def ont_ids_ok_def dec)
  have edges: "try_fold (add_decoded (into_edge hexd) upsert_edge)
      (map (edge_wire_from hexe) (bm_values (o_edges o'))) s = Inr (fold upsert_edge (bm_values (o_edges o')) s)" for s
    using ok(2) by (intro try_fold_decoded) (simp add: into_edge_def edge_wire_from_def ont_ids_ok_def dec)
  have axioms: "try_fold (add_decoded (into_axiom hexd) upsert_axiom)
      (map (axiom_wire_from hexe) (bm_values (o_axioms o'))) s = Inr (fold upsert_axiom (bm_values (o_axioms o')) s)" for s
    using ok(2)
    by (intro try_fold_decoded) (auto simp: into_axiom_def axiom_wire_from_def ont_ids_ok_def dec split: option.splits)
  show ?thesis
    using ok(1)
    by (simp add: into_ontology_def ontology_wire_from_def nodes edges axioms fold_upserts ontology_new_def
        rebuild_keyed ont_wf_def)
qed

lemma into_log_from:
  assumes hex: "\<And>b. hexd (hexe b) = Inr b" and ok: "prov_log_wf l" "log_ids_ok l"
  shows "into_log hexd (prov_log_wire_from hexe l) = Inr l"
proof -
  note dec = decode_id_encode [of hexd hexe, OF hex]
  have acts: "try_fold (add_decoded (into_activity hexd) record_activity)
      (map (activity_wire_from hexe) (bm_values (pl_activities l))) s = Inr (fold record_activity (bm_values (pl_activities l)) s)" for s
    using ok(2) by (intro try_fold_decoded) (simp add: into_activity_def activity_wire_from_def log_ids_ok_def dec)
  have ents: "try_fold (add_decoded (into_entity hexd) record_entity)
      (map (prov_entity_wire_from hexe) (bm_values (pl_entities l))) s = Inr (fold record_entity (bm_values (pl_entities l)) s)" for s
    using ok(2) by (intro try_fold_decoded) (simp add: into_entity_def prov_entity_wire_from_def log_ids_ok_def dec)
  have gens: "try_fold (\<lambda>g. decode_link hexd log_generated (gw_entity g) (gw_activity g))
      (map (generated_wire_from hexe) (pl_generations l)) s =
      Inr (fold (\<lambda>g. log_generated (gen_entity g) (gen_activity g)) (pl_generations l) s)" for s
    using ok(2) by (intro try_fold_links) (auto simp: decode_link_def generated_wire_from_def log_ids_ok_def dec)
  have ders: "try_fold (\<lambda>d. decode_link hexd log_derived (dw_derived d) (dw_source d))
      (map (derived_wire_from hexe) (pl_derivations l)) s =
      Inr (fold (\<lambda>d. log_derived (der_derived d) (der_source d)) (pl_derivations l) s)" for s
    using ok(2) by (intro try_fold_links) (auto simp: decode_link_def derived_wire_from_def log_ids_ok_def dec)
  have uses: "try_fold (\<lambda>u. decode_link hexd log_used (uw_activity u) (uw_entity u))
      (map (used_wire_from hexe) (pl_uses l)) s =
      Inr (fold (\<lambda>u. log_used (use_activity u) (use_entity u)) (pl_uses l) s)" for s
    using ok(2) by (intro try_fold_links) (auto simp: decode_link_def used_wire_from_def log_ids_ok_def dec)
  show ?thesis
    using ok(1)
    by (simp add: into_log_def prov_log_wire_from_def acts ents gens ders uses fold_records fold_links
        prov_log_new_def rebuild_keyed prov_log_wf_def)
qed

section \<open>What a decoded value satisfies\<close>

lemma bm_values_insert: "set (bm_values (bm_insert k v m)) \<subseteq> insert v (set (bm_values m))"
  using bm_set_insert_subset [of k v m] by (auto simp: bm_values_def)

lemma ont_ids_ok_upserts:
  "ont_ids_ok o' \<Longrightarrow> length (node_id_bytes (n_id n)) = 32 \<Longrightarrow> ont_ids_ok (upsert_node n o')"
  "ont_ids_ok o' \<Longrightarrow> length (edge_id_bytes (e_id e)) = 32 \<Longrightarrow> length (node_id_bytes (e_source e)) = 32 \<Longrightarrow>
     length (node_id_bytes (e_target e)) = 32 \<Longrightarrow> ont_ids_ok (upsert_edge e o')"
  "ont_ids_ok o' \<Longrightarrow> \<forall>p \<in> set_option (ax_prov a). length (prov_id_bytes p) = 32 \<Longrightarrow> ont_ids_ok (upsert_axiom a o')"
  using bm_values_insert [of "n_id n" n "o_nodes o'"] bm_values_insert [of "e_id e" e "o_edges o'"]
    bm_values_insert [of "ax_id a" a "o_axioms o'"]
  by (auto simp: ont_ids_ok_def dest!: subsetD)

lemma log_ids_ok_records:
  "log_ids_ok l \<Longrightarrow> length (prov_id_bytes (act_id a)) = 32 \<Longrightarrow> log_ids_ok (record_activity a l)"
  "log_ids_ok l \<Longrightarrow> length (prov_id_bytes (ent_id e)) = 32 \<Longrightarrow> log_ids_ok (record_entity e l)"
  using bm_values_insert [of "act_id a" a "pl_activities l"] bm_values_insert [of "ent_id e" e "pl_entities l"]
  by (auto simp: log_ids_ok_def record_activity_def record_entity_def dest!: subsetD)

lemma log_ids_ok_links:
  assumes "log_ids_ok l" "length (prov_id_bytes p) = 32" "length (prov_id_bytes q) = 32"
  shows "log_ids_ok (log_generated p q l)" "log_ids_ok (log_derived p q l)" "log_ids_ok (log_used p q l)"
  using assms by (auto simp: log_ids_ok_def log_generated_def log_derived_def log_used_def)

lemma into_ontology_ok:
  assumes "into_ontology hexd w = Inr o'" "bm_wf (ow_vocab w)" "schema_wf (ow_schema w)"
  shows "ont_wf o' \<and> ont_ids_ok o'"
proof -
  let ?ok = "\<lambda>q. ont_wf q \<and> ont_ids_ok q"
  let ?start = "ontology_new\<lparr>o_iri := ow_iri w, o_vocab := ow_vocab w, o_schema := ow_schema w\<rparr>"
  from assms(1) obtain o1 o2 where steps:
    "try_fold (add_decoded (into_node hexd) upsert_node) (ow_nodes w) ?start = Inr o1"
    "try_fold (add_decoded (into_edge hexd) upsert_edge) (ow_edges w) o1 = Inr o2"
    "try_fold (add_decoded (into_axiom hexd) upsert_axiom) (ow_axioms w) o2 = Inr o'"
    by (auto simp: into_ontology_def split: sum.splits)
  have "?ok ?start"
    using assms(2,3) by (simp add: ont_wf_def ont_ids_ok_def ontology_new_def bm_values_def)
  with steps(1) have "?ok o1"
    by (rule try_fold_invariant [where P = ?ok])
      (auto simp: add_decoded_def into_node_def split: sum.splits intro!: ont_ids_ok_upserts dest: decode_id_length)
  with steps(2) have "?ok o2"
    by (rule try_fold_invariant [where P = ?ok])
      (auto simp: add_decoded_def into_edge_def split: sum.splits intro!: ont_ids_ok_upserts dest: decode_id_length)
  with steps(3) show ?thesis
    by (rule try_fold_invariant [where P = ?ok])
      (auto simp: add_decoded_def into_axiom_def split: sum.splits option.splits
        intro!: ont_ids_ok_upserts dest!: decode_id_length)
qed

lemma into_log_ok:
  assumes "into_log hexd w = Inr l"
  shows "prov_log_wf l \<and> log_ids_ok l"
proof -
  let ?ok = "\<lambda>q. prov_log_wf q \<and> log_ids_ok q"
  from assms obtain l1 l2 l3 l4 l5 where steps:
    "try_fold (add_decoded (into_activity hexd) record_activity) (plw_activities w) prov_log_new = Inr l1"
    "try_fold (add_decoded (into_entity hexd) record_entity) (plw_entities w) l1 = Inr l2"
    "try_fold (\<lambda>g. decode_link hexd log_generated (gw_entity g) (gw_activity g)) (plw_generations w) l2 = Inr l3"
    "try_fold (\<lambda>d. decode_link hexd log_derived (dw_derived d) (dw_source d)) (plw_derivations w) l3 = Inr l4"
    "try_fold (\<lambda>u. decode_link hexd log_used (uw_activity u) (uw_entity u)) (plw_uses w) l4 = Inr l5"
    and l: "l = l5\<lparr>pl_attributions := plw_attributions w\<rparr>"
    by (auto simp: into_log_def split: sum.splits)
  have link: "?ok s'" if "decode_link hexd lk a b s = Inr s'" "?ok s"
    "\<And>p q. length (prov_id_bytes p) = 32 \<Longrightarrow> length (prov_id_bytes q) = 32 \<Longrightarrow> ?ok (lk p q s)" for lk a b s s'
  proof -
    from that(1) obtain x y where "decode_id hexd a = Inr x" "decode_id hexd b = Inr y"
      and s': "s' = lk (ProvenanceId x) (ProvenanceId y) s"
      by (auto simp: decode_link_def split: sum.splits)
    then have "length x = 32" "length y = 32" by (auto dest: decode_id_length)
    with that(3) [of "ProvenanceId x" "ProvenanceId y"] show ?thesis by (simp add: s')
  qed
  have "?ok prov_log_new" by (simp add: log_ids_ok_def prov_log_new_def bm_values_def prov_log_wf_def)
  with steps(1) have "?ok l1"
    by (rule try_fold_invariant [where P = ?ok])
      (auto simp: add_decoded_def into_activity_def split: sum.splits intro!: log_ids_ok_records dest: decode_id_length)
  with steps(2) have "?ok l2"
    by (rule try_fold_invariant [where P = ?ok])
      (auto simp: add_decoded_def into_entity_def split: sum.splits intro!: log_ids_ok_records dest: decode_id_length)
  with steps(3) have "?ok l3"
    by (rule try_fold_invariant [where P = ?ok]) (erule link, assumption, simp add: log_ids_ok_links)
  with steps(4) have "?ok l4"
    by (rule try_fold_invariant [where P = ?ok]) (erule link, assumption, simp add: log_ids_ok_links)
  with steps(5) have "?ok l5"
    by (rule try_fold_invariant [where P = ?ok]) (erule link, assumption, simp add: log_ids_ok_links)
  then show ?thesis by (simp add: l prov_log_wf_def log_ids_ok_def)
qed

section \<open>Properties\<close>

text \<open>
  C9: The wire form loses nothing: for a well-formed snapshot with 32-byte ids, decoding what
  \<open>SnapshotWire::from\<close> encoded gives the same snapshot, ontology, ledger and version.
\<close>

theorem snapshot_round_trip:
  assumes "\<And>b. hexd (hexe b) = Inr b" "snapshot_ok s"
  shows "into_snapshot hexd (snapshot_wire_from hexe s) = Inr s"
  using assms
  by (simp add: into_snapshot_def snapshot_wire_from_def snapshot_ok_def into_ontology_from into_log_from)

text \<open>
  Whatever wire value is decoded without error, the snapshot has every entity stored under
  its own id, maps in key order and only 32-byte ids.
\<close>

theorem decoded_snapshot_ok:
  assumes "into_snapshot hexd w = Inr s" "bm_wf (ow_vocab (sw_ont w))" "schema_wf (ow_schema (sw_ont w))"
  shows "snapshot_ok s \<and> sn_version s = sw_version w"
  using assms into_ontology_ok [of hexd "sw_ont w"] into_log_ok [of hexd "sw_prov w"]
  by (auto simp: into_snapshot_def snapshot_ok_def split: sum.splits)

section \<open>Instances\<close>

text \<open>A concrete codec: one character per byte.\<close>

definition ex_hexe :: hex_encoder where [code_defs]: "ex_hexe b = map (\<lambda>x. char_of (unat x)) b"
definition ex_hexd :: hex_decoder where [code_defs]: "ex_hexd s = Inr (str_bytes s)"

lemma ex_hex_round [simp]: "ex_hexd (ex_hexe b) = Inr b"
proof -
  have "of_char (char_of (unat x)) = x" for x :: byte
    using unsigned_less [of x, where 'a = nat] by (simp add: word_unat_eq_iff unat_of_char_byte)
  then show ?thesis by (simp add: ex_hexe_def ex_hexd_def str_bytes_def comp_def)
qed

definition ex_id :: "byte \<Rightarrow> bytes" where [code_defs]: "ex_id b = replicate 32 b"

definition ex_snapshot :: snapshot where
  [code_defs]: "ex_snapshot =
     \<lparr>sn_ont = upsert_edge (edge_between (\<lambda>c x. ex_id 9) (NodeId (ex_id 1)) ''r'' (NodeId (ex_id 2)))
        (upsert_node \<lparr>n_id = NodeId (ex_id 1), n_iri = None, n_types = [''T''], n_props = []\<rparr> ontology_new),
      sn_prov = log_used (ProvenanceId (ex_id 7)) (ProvenanceId (ex_id 8))
        (record_activity (activity_started (ProvenanceId (ex_id 7)) 0 ''import'') prov_log_new),
      sn_version = 3\<rparr>"

lemma ex_snapshot_ok: "snapshot_ok ex_snapshot"
  by (simp add: snapshot_ok_def ex_snapshot_def ont_ids_ok_upserts log_ids_ok_links log_ids_ok_records
      ex_id_def edge_id_content_address_def)

lemma snapshot_round_trip_witness:
  "into_snapshot ex_hexd (snapshot_wire_from ex_hexe ex_snapshot) = Inr ex_snapshot"
  by (rule snapshot_round_trip) (simp_all add: ex_snapshot_ok)

lemma decoded_snapshot_ok_witness:
  "\<exists>s. into_snapshot ex_hexd (snapshot_wire_from ex_hexe \<lparr>sn_ont = ontology_new, sn_prov = prov_log_new, sn_version = 1\<rparr>) = Inr s
     \<and> snapshot_ok s \<and> sn_version s = 1"
proof -
  let ?s = "\<lparr>sn_ont = ontology_new, sn_prov = prov_log_new, sn_version = 1\<rparr>"
  have ok: "into_snapshot ex_hexd (snapshot_wire_from ex_hexe ?s) = Inr ?s"
    by (simp add: into_snapshot_def snapshot_wire_from_def into_ontology_def ontology_wire_from_def into_log_def
        prov_log_wire_from_def ontology_new_def prov_log_new_def bm_values_def)
  from decoded_snapshot_ok [OF ok] show ?thesis
    using ok by (simp add: snapshot_wire_from_def ontology_wire_from_def ontology_new_def schema_wf_new)
qed

end
