(* ===== verification/Persist_Checkpoint.thy ===== *)
theory Persist_Checkpoint
  imports Persist_Wire
begin

text \<open>
  \<open>crates/atomr-ontology-persist/src/checkpointer.rs\<close>, \<open>file.rs\<close> and \<open>sqlite.rs\<close>: the
  \<open>Checkpointer\<close> trait as the locale \<open>checkpointer\<close> and its three providers. The state of a
  provider is what it keeps: a slot, the content of a file, the rows of the table. JSON text
  (\<open>to_json\<close>, \<open>from_json\<close>) and the outcome of an operating-system or database call (\<open>fault\<close>) are
  parameters: a fault is the error text with the content the failed call leaves behind.
\<close>

datatype ck_error = CkIo string | CkSerialize string | CkOther string

fun ck_error_display :: "ck_error \<Rightarrow> string" where
  "ck_error_display (CkIo e) = ''io error: '' @ e"
| "ck_error_display (CkSerialize e) = ''serialize error: '' @ e"
| "ck_error_display (CkOther e) = ''checkpointer error: '' @ e"

text \<open>
  The contract: after a successful save of a snapshot within the provider's domain \<open>ck_ok\<close>, a load
  returns that snapshot.
\<close>

locale checkpointer =
  fixes ck_save :: "snapshot \<Rightarrow> 'c \<Rightarrow> (ck_error + unit) \<times> 'c"
    and ck_load :: "'c \<Rightarrow> ck_error + snapshot option"
    and ck_ok :: "'c \<Rightarrow> snapshot \<Rightarrow> bool"
  assumes load_save: "ck_ok c s \<Longrightarrow> fst (ck_save s c) = Inr () \<Longrightarrow> ck_load (snd (ck_save s c)) = Inr (Some s)"
begin

lemma load_second_save:
  "ck_ok (snd (ck_save t c)) s \<Longrightarrow> fst (ck_save s (snd (ck_save t c))) = Inr () \<Longrightarrow>
     ck_load (snd (ck_save s (snd (ck_save t c)))) = Inr (Some s)"
  by (rule load_save)

end

section \<open>MemCheckpointer\<close>

definition mem_ck_save :: "snapshot \<Rightarrow> snapshot option \<Rightarrow> (ck_error + unit) \<times> snapshot option" where
  [code_defs]: "mem_ck_save s slot = (Inr (), Some s)"

definition mem_ck_load :: "snapshot option \<Rightarrow> ck_error + snapshot option" where
  [code_defs]: "mem_ck_load slot = Inr slot"

interpretation mem_ck: checkpointer mem_ck_save mem_ck_load "\<lambda>_ _. True"
  by unfold_locales (simp add: mem_ck_save_def mem_ck_load_def)

section \<open>Snapshots as JSON\<close>

type_synonym json_writer = "snapshot_wire \<Rightarrow> string + bytes"
type_synonym json_reader = "bytes \<Rightarrow> string + snapshot_wire"

definition snapshot_to_json :: "hex_encoder \<Rightarrow> json_writer \<Rightarrow> snapshot \<Rightarrow> string + bytes" where
  "snapshot_to_json hexe to_json s = to_json (snapshot_wire_from hexe s)"

definition snapshot_from_json :: "hex_decoder \<Rightarrow> json_reader \<Rightarrow> bytes \<Rightarrow> string + snapshot" where
  "snapshot_from_json hexd from_json b =
     (case from_json b of Inl e \<Rightarrow> Inl e | Inr w \<Rightarrow> into_snapshot hexd w)"

text \<open>The snapshots JSON and hex carry through: the encoders succeed and the decoders undo them.\<close>

definition json_ok :: "hex_encoder \<Rightarrow> hex_decoder \<Rightarrow> json_writer \<Rightarrow> json_reader \<Rightarrow> snapshot \<Rightarrow> bool" where
  "json_ok hexe hexd to_json from_json s \<longleftrightarrow>
     snapshot_ok s \<and> (\<forall>b. hexd (hexe b) = Inr b) \<and>
     (\<forall>j. to_json (snapshot_wire_from hexe s) = Inr j \<longrightarrow> from_json j = Inr (snapshot_wire_from hexe s))"

lemma snapshot_json_round_trip:
  assumes "json_ok hexe hexd to_json from_json s" "snapshot_to_json hexe to_json s = Inr j"
  shows "snapshot_from_json hexd from_json j = Inr s"
proof -
  have hex: "\<And>b. hexd (hexe b) = Inr b" and ok: "ont_wf (sn_ont s)" "ont_ids_ok (sn_ont s)"
    "prov_log_wf (sn_prov s)" "log_ids_ok (sn_prov s)"
    using assms(1) by (simp_all add: json_ok_def snapshot_ok_def)
  from assms have "from_json j = Inr (snapshot_wire_from hexe s)"
    by (simp add: json_ok_def snapshot_to_json_def)
  then show ?thesis
    using into_ontology_from [of hexd hexe, OF hex ok(1,2)] into_log_from [of hexd hexe, OF hex ok(3,4)]
    by (simp add: snapshot_from_json_def into_snapshot_def snapshot_wire_from_def)
qed

section \<open>FileCheckpointer\<close>

type_synonym fault = "(string \<times> bytes option) option"

definition file_save ::
    "hex_encoder \<Rightarrow> json_writer \<Rightarrow> string option \<Rightarrow> fault \<Rightarrow> snapshot \<Rightarrow> bytes option \<Rightarrow> (ck_error + unit) \<times> bytes option" where
  "file_save hexe to_json mkdir_err fault s content =
     (case snapshot_to_json hexe to_json s of
        Inl e \<Rightarrow> (Inl (CkSerialize e), content)
      | Inr bytes \<Rightarrow>
          (case mkdir_err of
             Some e \<Rightarrow> (Inl (CkIo e), content)
           | None \<Rightarrow>
               (case fault of
                  Some (e, left) \<Rightarrow> (Inl (CkIo e), left)
                | None \<Rightarrow> (Inr (), Some bytes))))"

text \<open>\<open>content = None\<close> is the missing file, which loads as no snapshot.\<close>

definition file_load :: "hex_decoder \<Rightarrow> json_reader \<Rightarrow> string option \<Rightarrow> bytes option \<Rightarrow> ck_error + snapshot option" where
  "file_load hexd from_json read_err content =
     (case read_err of
        Some e \<Rightarrow> Inl (CkIo e)
      | None \<Rightarrow>
          (case content of
             None \<Rightarrow> Inr None
           | Some bytes \<Rightarrow>
               (case snapshot_from_json hexd from_json bytes of
                  Inl e \<Rightarrow> Inl (CkSerialize e)
                | Inr s \<Rightarrow> Inr (Some s))))"

interpretation file_ck: checkpointer "file_save hexe to_json mkdir_err fault" "file_load hexd from_json None"
  "\<lambda>_. json_ok hexe hexd to_json from_json" for hexe to_json mkdir_err fault hexd from_json
  by unfold_locales
    (auto simp: file_save_def file_load_def snapshot_json_round_trip split: sum.splits option.splits)

section \<open>SqliteCheckpointer\<close>

record sql_row =
  sq_id :: nat
  sq_json :: bytes
  sq_version :: "64 word"

text \<open>The \<open>version\<close> column is \<open>snapshot.version as i64\<close>: its bits, compared as a signed integer.\<close>

definition sq_key :: "sql_row \<Rightarrow> int \<times> nat" where
  [code_defs]: "sq_key r = (sint (sq_version r), sq_id r)"

definition sq_next_id :: "sql_row list \<Rightarrow> nat" where
  [code_defs]: "sq_next_id rows = Suc (foldr (\<lambda>r m. max (sq_id r) m) rows 0)"

definition sqlite_save ::
    "hex_encoder \<Rightarrow> json_writer \<Rightarrow> ck_error option \<Rightarrow> snapshot \<Rightarrow> sql_row list \<Rightarrow> (ck_error + unit) \<times> sql_row list" where
  "sqlite_save hexe to_json db_err s rows =
     (case snapshot_to_json hexe to_json s of
        Inl e \<Rightarrow> (Inl (CkSerialize e), rows)
      | Inr bytes \<Rightarrow>
          (case db_err of
             Some e \<Rightarrow> (Inl e, rows)
           | None \<Rightarrow> (Inr (), rows @ [\<lparr>sq_id = sq_next_id rows, sq_json = bytes, sq_version = sn_version s\<rparr>])))"

text \<open>\<open>ORDER BY version DESC, id DESC LIMIT 1\<close>.\<close>

fun sq_latest :: "sql_row list \<Rightarrow> sql_row option" where
  "sq_latest [] = None"
| "sq_latest (r # rows) =
     (case sq_latest rows of
        None \<Rightarrow> Some r
      | Some b \<Rightarrow> if sq_key b < sq_key r then Some r else Some b)"

definition sqlite_load :: "hex_decoder \<Rightarrow> json_reader \<Rightarrow> ck_error option \<Rightarrow> sql_row list \<Rightarrow> ck_error + snapshot option" where
  "sqlite_load hexd from_json db_err rows =
     (case db_err of
        Some e \<Rightarrow> Inl e
      | None \<Rightarrow>
          (case sq_latest rows of
             None \<Rightarrow> Inr None
           | Some r \<Rightarrow>
               (case snapshot_from_json hexd from_json (sq_json r) of
                  Inl e \<Rightarrow> Inl (CkSerialize e)
                | Inr s \<Rightarrow> Inr (Some s))))"

lemma sq_next_id_greater: "r \<in> set rows \<Longrightarrow> sq_id r < sq_next_id rows"
  unfolding sq_next_id_def by (induction rows) (auto simp: less_Suc_eq_le le_max_iff_disj)

lemma sq_latest_None: "sq_latest rows = None \<longleftrightarrow> rows = []"
  by (cases rows) (auto split: option.splits)

lemma sq_latest_in: "sq_latest rows = Some b \<Longrightarrow> b \<in> set rows"
  by (induction rows arbitrary: b) (auto split: option.splits if_splits)

lemma sq_latest_append:
  "sq_latest (rows @ [x]) =
     (case sq_latest rows of None \<Rightarrow> Some x | Some b \<Rightarrow> if sq_key x < sq_key b then Some b else Some x)"
proof (induction rows)
  case (Cons r rows)
  show ?case
  proof (cases "sq_latest rows")
    case None
    then show ?thesis by (simp add: sq_latest_None)
  next
    case (Some b)
    have t1: "sq_key x < sq_key b \<Longrightarrow> sq_key b < sq_key r \<Longrightarrow> sq_key x < sq_key r"
      by (rule order.strict_trans)
    have t2: "\<not> sq_key x < sq_key b \<Longrightarrow> \<not> sq_key b < sq_key r \<Longrightarrow> \<not> sq_key x < sq_key r"
      unfolding not_less by (rule order.trans)
    show ?thesis
      by (cases "sq_key x < sq_key b"; cases "sq_key b < sq_key r") (simp_all add: Cons.IH Some t1 t2)
  qed
qed simp

definition sqlite_ok :: "hex_encoder \<Rightarrow> hex_decoder \<Rightarrow> json_writer \<Rightarrow> json_reader \<Rightarrow> sql_row list \<Rightarrow> snapshot \<Rightarrow> bool" where
  "sqlite_ok hexe hexd to_json from_json rows s \<longleftrightarrow>
     json_ok hexe hexd to_json from_json s \<and> (\<forall>r \<in> set rows. sint (sq_version r) \<le> sint (sn_version s))"

lemma sqlite_load_save:
  assumes "sqlite_ok hexe hexd to_json from_json rows s" "fst (sqlite_save hexe to_json db_err s rows) = Inr ()"
  shows "sqlite_load hexd from_json None (snd (sqlite_save hexe to_json db_err s rows)) = Inr (Some s)"
proof -
  from assms(2) obtain j where j: "snapshot_to_json hexe to_json s = Inr j" and "db_err = None"
    by (auto simp: sqlite_save_def split: sum.splits option.splits)
  define x where "x = \<lparr>sq_id = sq_next_id rows, sq_json = j, sq_version = sn_version s\<rparr>"
  have "sq_key r < sq_key x" if "r \<in> set rows" for r
    using that assms(1) sq_next_id_greater [OF that] by (auto simp: sq_key_def x_def sqlite_ok_def less_le_not_le)
  then have "sq_latest (rows @ [x]) = Some x"
    by (auto simp: sq_latest_append split: option.splits dest!: sq_latest_in dest: less_asym)
  moreover have "snapshot_from_json hexd from_json j = Inr s"
    using assms(1) j by (intro snapshot_json_round_trip) (auto simp: sqlite_ok_def)
  ultimately show ?thesis
    using \<open>db_err = None\<close> j by (simp add: sqlite_save_def sqlite_load_def x_def)
qed

interpretation sqlite_ck: checkpointer "sqlite_save hexe to_json db_err" "sqlite_load hexd from_json None"
  "sqlite_ok hexe hexd to_json from_json" for hexe to_json db_err hexd from_json
  by unfold_locales (rule sqlite_load_save)

text \<open>A save below the row a load returns leaves every later load unchanged.\<close>

lemma sqlite_save_below:
  assumes "sq_latest rows = Some old" "sint (sn_version s) < sint (sq_version old)"
  shows "sqlite_load hexd from_json None (snd (sqlite_save hexe to_json db_err s rows)) =
         sqlite_load hexd from_json None rows"
proof (cases "snapshot_to_json hexe to_json s")
  case (Inr j)
  show ?thesis
  proof (cases db_err)
    case None
    define x where "x = \<lparr>sq_id = sq_next_id rows, sq_json = j, sq_version = sn_version s\<rparr>"
    have "sq_key x < sq_key old" using assms(2) by (simp add: sq_key_def x_def)
    with assms(1) have "sq_latest (rows @ [x]) = Some old" by (simp add: sq_latest_append)
    then show ?thesis using None Inr assms(1) by (simp add: sqlite_save_def sqlite_load_def x_def)
  qed (simp add: sqlite_save_def Inr)
qed (simp add: sqlite_save_def)

end
