(* ===== verification/Persist_Store.thy ===== *)
theory Persist_Store
  imports Mem_Store Persist_Checkpoint
begin

text \<open>
  \<open>crates/atomr-ontology-persist/src/store.rs\<close>: the store that flushes to a checkpointer on every
  commit. A checkpointer is the pair \<open>ck_save\<close>, \<open>ck_load\<close> with its own state and \<open>label\<close>. The file
  has its own copies of the matching and traversal code of \<open>mem.rs\<close>; they are transcribed here as
  the \<open>pers_\<close> definitions and proved equal to those of \<open>Mem_Store\<close>. A commit is two atomic steps, the
  mutation under the write lock and the save after its release; \<open>pers_step\<close> interleaves the steps of
  concurrent commits.
\<close>

section \<open>State, construction\<close>

record pers_state =
  ps_ont :: ontology
  ps_prov :: prov_log
  ps_version :: "64 word"

definition pers_default :: pers_state where
  [code_defs]: "pers_default = \<lparr>ps_ont = ontology_new, ps_prov = prov_log_new, ps_version = 0\<rparr>"

definition checkpointer_err :: "string \<Rightarrow> ck_error \<Rightarrow> store_error" where
  [code_defs]: "checkpointer_err label e = StIo (''checkpointer('' @ label @ ''): '' @ ck_error_display e)"

definition pers_new :: "string \<Rightarrow> ('c \<Rightarrow> ck_error + snapshot option) \<Rightarrow> 'c \<Rightarrow> store_error + pers_state" where
  [code_defs]: "pers_new label ck_load c =
     (case ck_load c of
        Inl e \<Rightarrow> Inl (checkpointer_err label e)
      | Inr (Some s) \<Rightarrow> Inr \<lparr>ps_ont = sn_ont s, ps_prov = sn_prov s, ps_version = sn_version s\<rparr>
      | Inr None \<Rightarrow> Inr pers_default)"

definition pers_from_memory :: pers_state where
  [code_defs]: "pers_from_memory = pers_default"

definition snapshot_now :: "pers_state \<Rightarrow> snapshot" where
  [code_defs]: "snapshot_now s = \<lparr>sn_ont = ps_ont s, sn_prov = ps_prov s, sn_version = ps_version s\<rparr>"

definition pers_upsert_node :: "node \<Rightarrow> pers_state \<Rightarrow> node_id \<times> pers_state" where
  [code_defs]: "pers_upsert_node n s = (n_id n, s\<lparr>ps_ont := upsert_node n (ps_ont s)\<rparr>)"

definition pers_upsert_edge :: "edge \<Rightarrow> pers_state \<Rightarrow> edge_id \<times> pers_state" where
  [code_defs]: "pers_upsert_edge e s = (e_id e, s\<lparr>ps_ont := upsert_edge e (ps_ont s)\<rparr>)"

definition pers_upsert_axiom :: "axiom_rec \<Rightarrow> pers_state \<Rightarrow> pers_state" where
  [code_defs]: "pers_upsert_axiom a s = s\<lparr>ps_ont := upsert_axiom a (ps_ont s)\<rparr>"

definition pers_node :: "pers_state \<Rightarrow> node_id \<Rightarrow> node option" where
  [code_defs]: "pers_node s i = ont_node (ps_ont s) i"

definition pers_edge :: "pers_state \<Rightarrow> edge_id \<Rightarrow> edge option" where
  [code_defs]: "pers_edge s i = ont_edge (ps_ont s) i"

section \<open>Commit\<close>

definition saturating_add1 :: "64 word \<Rightarrow> 64 word" where
  [code_defs]: "saturating_add1 v = (if v = - 1 then - 1 else v + 1)"

text \<open>The part under the write lock: the new state and the snapshot taken of it.\<close>

definition pers_apply :: "delta \<Rightarrow> activity \<Rightarrow> pers_state \<Rightarrow> snapshot \<times> pers_state" where
  [code_defs]: "pers_apply d a s =
     (let pid = act_id a;
          o1 = fold upsert_node (d_nodes d) (ps_ont s);
          o2 = fold upsert_edge (d_edges d) o1;
          o3 = fold (\<lambda>ax. upsert_axiom (if ax_prov ax = None then ax\<lparr>ax_prov := Some pid\<rparr> else ax)) (d_axioms d) o2;
          s' = \<lparr>ps_ont = o3, ps_prov = record_activity a (ps_prov s), ps_version = saturating_add1 (ps_version s)\<rparr>
      in (snapshot_now s', s'))"

definition pers_commit ::
    "(snapshot \<Rightarrow> 'c \<Rightarrow> (ck_error + unit) \<times> 'c) \<Rightarrow> string \<Rightarrow> delta \<Rightarrow> activity \<Rightarrow> pers_state \<times> 'c \<Rightarrow>
       (store_error + prov_id) \<times> (pers_state \<times> 'c)" where
  [code_defs]: "pers_commit ck_save label d a sc =
     (case pers_apply d a (fst sc) of (snap, s') \<Rightarrow>
        (case ck_save snap (snd sc) of
           (Inl e, c') \<Rightarrow> (Inl (checkpointer_err label e), (s', c'))
         | (Inr u, c') \<Rightarrow> (Inr (act_id a), (s', c'))))"

section \<open>Queries\<close>

fun pers_match_node :: "node \<Rightarrow> node_pattern \<Rightarrow> bool" where
  "pers_match_node n (NodePattern b types ps i ors nots) =
     (if (case i of Some j \<Rightarrow> n_id n \<noteq> j | None \<Rightarrow> False) then False
      else if list_ex (\<lambda>ty. \<not> has_type n ty) types then False
      else if list_ex (\<lambda>(k, v). \<not> pv_opt_eq (map_of (n_props n) k) v) ps then False
      else if ors \<noteq> [] \<and> \<not> list_ex (\<lambda>alt. pers_match_node n alt) ors then False
      else if list_ex (\<lambda>neg. pers_match_node n neg) nots then False
      else True)"

definition pers_match_edge :: "edge \<Rightarrow> edge_pattern \<Rightarrow> bool" where
  [code_defs]: "pers_match_edge e p =
     (if (case ep_label p of Some l \<Rightarrow> e_label e \<noteq> l | None \<Rightarrow> False) then False
      else if list_ex (\<lambda>(k, v). \<not> pv_opt_eq (map_of (e_props e) k) v) (ep_props p) then False
      else True)"

definition pers_apply_ordering :: "traversal_plan \<Rightarrow> match_row list \<Rightarrow> match_row list" where
  [code_defs]: "pers_apply_ordering plan rows =
     (let rows = (if tp_order plan \<noteq> [] then sort_cmp (row_cmp (tp_order plan)) rows else rows);
          rows = (if tp_skip plan > 0 then drop (min (tp_skip plan) (length rows)) rows else rows);
          rows = (case tp_limit plan of Some n \<Rightarrow> take n rows | None \<Rightarrow> rows)
      in if tp_return plan \<noteq> [] then map (project_row (tp_return plan)) rows else rows)"

definition pers_seed_rows :: "ontology \<Rightarrow> node_pattern \<Rightarrow> (match_row \<times> node_id) list" where
  [code_defs]: "pers_seed_rows o' p =
     map (\<lambda>n. (bind_node_opt (np_bind p) (n_id n) row_new, n_id n))
       (filter (\<lambda>n. pers_match_node n p) (bm_values (o_nodes o')))"

definition pers_match_pattern :: "pers_state \<Rightarrow> node_pattern \<Rightarrow> match_row list" where
  [code_defs]: "pers_match_pattern s p =
     sort_cmp (\<lambda>a b. cmp_of (first_bound a) (first_bound b)) (map fst (pers_seed_rows (ps_ont s) p))"

definition pers_emit_layer :: "ontology \<Rightarrow> traversal_step \<Rightarrow> layer \<Rightarrow> (match_row \<times> node_id) list" where
  [code_defs]: "pers_emit_layer o' st l =
     map (\<lambda>(r, cur, via). (bind_hop st r via cur, cur))
       (filter (\<lambda>(r, cur, via).
          case ont_node o' cur of None \<Rightarrow> False | Some n \<Rightarrow> pers_match_node n (ts_target st)) l)"

fun pers_expand_edges :: "traversal_step \<Rightarrow> match_row \<Rightarrow> edge list \<Rightarrow> node_id set \<times> layer \<Rightarrow> node_id set \<times> layer" where
  "pers_expand_edges st r [] acc = acc"
| "pers_expand_edges st r (e # es) (visited, l) =
     (if \<not> pers_match_edge e (ts_edge st) then pers_expand_edges st r es (visited, l)
      else let target = (if ts_outbound st then e_target e else e_source e)
           in if target \<in> visited then pers_expand_edges st r es (visited, l)
              else pers_expand_edges st r es (insert target visited, l @ [(r, target, Some (e_id e))]))"

fun pers_expand_layer :: "ontology \<Rightarrow> traversal_step \<Rightarrow> layer \<Rightarrow> node_id set \<times> layer \<Rightarrow> node_id set \<times> layer" where
  "pers_expand_layer o' st [] acc = acc"
| "pers_expand_layer o' st ((r, cur, via) # l) acc =
     pers_expand_layer o' st l (pers_expand_edges st r (candidates o' st cur) acc)"

function pers_bfs :: "ontology \<Rightarrow> traversal_step \<Rightarrow> nat \<Rightarrow> nat \<Rightarrow> nat \<Rightarrow> layer \<Rightarrow> node_id set \<Rightarrow> (match_row \<times> node_id) list" where
  "pers_bfs o' st lo hi depth l visited =
     (if depth > hi then []
      else let out = (if depth \<ge> lo then pers_emit_layer o' st l else [])
           in if depth = hi then out
              else case pers_expand_layer o' st l (visited, []) of (visited', l') \<Rightarrow>
                     if l' = [] then out else out @ pers_bfs o' st lo hi (Suc depth) l' visited')"
  by pat_completeness auto
termination
  by (relation "measure (\<lambda>(o', st, lo, hi, depth, l, visited). Suc hi - depth)") auto

declare pers_bfs.simps [simp del]

definition pers_run_step :: "ontology \<Rightarrow> traversal_step \<Rightarrow> (match_row \<times> node_id) list \<Rightarrow> (match_row \<times> node_id) list" where
  [code_defs]: "pers_run_step o' st frontier =
     concat (map (\<lambda>(r, start).
       pers_bfs o' st (fst (hop_range (ts_edge st))) (snd (hop_range (ts_edge st))) 0 [(r, start, None)] {start})
       frontier)"

definition pers_traverse :: "pers_state \<Rightarrow> traversal_plan \<Rightarrow> match_row list" where
  [code_defs]: "pers_traverse s plan =
     pers_apply_ordering plan
       (map fst (fold (pers_run_step (ps_ont s)) (tp_steps plan) (pers_seed_rows (ps_ont s) (tp_seed plan))))"

definition pers_diff :: "pers_state \<Rightarrow> ontology \<Rightarrow> store_diff" where
  [code_defs]: "pers_diff s other =
     \<lparr>sd_added_nodes = key_difference (o_nodes (ps_ont s)) (o_nodes other),
      sd_removed_nodes = key_difference (o_nodes other) (o_nodes (ps_ont s)),
      sd_added_edges = key_difference (o_edges (ps_ont s)) (o_edges other),
      sd_removed_edges = key_difference (o_edges other) (o_edges (ps_ont s))\<rparr>"

section \<open>The copies agree with the in-memory store\<close>

text \<open>What a persistent store's memory is as a state of the in-memory store.\<close>

definition as_mem :: "pers_state \<Rightarrow> mem_state" where
  "as_mem s = \<lparr>ms_ont = ps_ont s, ms_prov = ps_prov s\<rparr>"

lemma list_ex_cong': "(\<And>x. x \<in> set xs \<Longrightarrow> P x = Q x) \<Longrightarrow> list_ex P xs = list_ex Q xs"
  by (auto simp: list_ex_iff)

lemma pers_match_node_eq: "pers_match_node n p = match_node n p"
proof (induction p)
  case (NodePattern b types ps i ors nots)
  have "list_ex (\<lambda>alt. pers_match_node n alt) ors = list_ex (\<lambda>alt. match_node n alt) ors"
    "list_ex (\<lambda>neg. pers_match_node n neg) nots = list_ex (\<lambda>neg. match_node n neg) nots"
    by (intro list_ex_cong' NodePattern; assumption)+
  then show ?case
    by (cases i) (auto simp: list_ex_iff list_all_iff case_prod_unfold)
qed

lemma pers_match_edge_eq: "pers_match_edge e p = match_edge e p"
  by (cases "ep_label p") (auto simp: pers_match_edge_def match_edge_def list_ex_iff list_all_iff case_prod_unfold)

lemma pers_expand_edges_eq: "pers_expand_edges st r es acc = expand_edges st r es acc"
  by (induction st r es acc rule: expand_edges.induct) (simp_all add: pers_match_edge_eq far_end_def Let_def)

lemma pers_expand_layer_eq: "pers_expand_layer o' st l acc = expand_layer o' st l acc"
  by (induction o' st l acc rule: expand_layer.induct) (simp_all add: pers_expand_edges_eq)

lemma pers_emit_layer_eq: "pers_emit_layer o' st l = emit_layer o' st l"
  by (simp add: pers_emit_layer_def emit_layer_def target_ok_def pers_match_node_eq cong: option.case_cong)

lemma pers_bfs_eq: "pers_bfs o' st lo hi depth l visited = bfs o' st lo hi depth l visited"
proof (induction o' st lo hi depth l visited rule: bfs.induct)
  case (1 o' st lo hi depth l visited)
  obtain visited' l' where e: "expand_layer o' st l (visited, []) = (visited', l')" by force
  show ?case
    using 1 by (subst pers_bfs.simps, subst bfs.simps)
      (simp add: pers_emit_layer_eq pers_expand_layer_eq e Let_def)
qed

lemma pers_seed_rows_eq: "pers_seed_rows o' p = seed_rows o' p"
  by (simp add: pers_seed_rows_def seed_rows_def pers_match_node_eq)

lemma pers_run_step_eq: "pers_run_step o' = run_step o'"
proof (rule ext)
  fix st
  have eq: "expand_from o' st = (\<lambda>(r, start).
      bfs o' st (fst (hop_range (ts_edge st))) (snd (hop_range (ts_edge st))) 0 [(r, start, None)] {start})"
    by (simp add: fun_eq_iff expand_from_def)
  show "pers_run_step o' st = run_step o' st"
    by (rule ext) (simp only: pers_run_step_def run_step_def pers_bfs_eq eq)
qed

lemma pers_apply_as_mem:
  "pers_apply d a s = (snap, s') \<Longrightarrow> as_mem s' = snd (mem_commit d a (as_mem s)) \<and> snap = snapshot_now s'
     \<and> ps_version s' = saturating_add1 (ps_version s)"
  by (auto simp: pers_apply_def mem_commit_def as_mem_def apply_delta_def stamp_axiom_def Let_def)

lemma pers_commit_fst:
  "fst (snd (pers_commit ck_save label d a sc)) = snd (pers_apply d a (fst sc))"
  by (simp add: pers_commit_def case_prod_unfold split: sum.splits)

lemma pers_apply_ont:
  "ps_ont (snd (pers_apply d a s)) = apply_delta d (act_id a) (ps_ont s)"
  "ps_prov (snd (pers_apply d a s)) = record_activity a (ps_prov s)"
  by (simp_all add: pers_apply_def apply_delta_def stamp_axiom_def Let_def)

interpretation pers: ontology_store "\<lambda>sc. pers_node (fst sc)" "\<lambda>sc. pers_edge (fst sc)"
  "\<lambda>sc p. map_of (pl_activities (ps_prov (fst sc))) p"
  "\<lambda>n sc. (snd (pers_upsert_node n (fst sc)), snd sc)" "\<lambda>e sc. (snd (pers_upsert_edge e (fst sc)), snd sc)"
  "pers_commit ck_save label" for ck_save label
  by unfold_locales
    (auto simp: pers_node_def pers_edge_def pers_upsert_node_def pers_upsert_edge_def pers_commit_fst
      pers_apply_ont apply_delta_node apply_delta_edge record_activity_get pers_commit_def case_prod_unfold
      split: option.splits sum.splits)

section \<open>Durability\<close>

lemma pers_commit_simps:
  "pers_commit ck_save label d a (s, c) =
     (case ck_save (fst (pers_apply d a s)) c of
        (Inl e, c') \<Rightarrow> (Inl (checkpointer_err label e), (snd (pers_apply d a s), c'))
      | (Inr u, c') \<Rightarrow> (Inr (act_id a), (snd (pers_apply d a s), c')))"
  by (simp add: pers_commit_def case_prod_unfold)

lemma pers_apply_snapshot: "fst (pers_apply d a s) = snapshot_now (snd (pers_apply d a s))"
  by (simp add: pers_apply_def Let_def)

context checkpointer
begin

text \<open>After a successful commit a new store on the same checkpointer recovers the state.\<close>

lemma commit_durable:
  assumes "pers_commit ck_save label d a (s, c) = (Inr p, (s', c'))" "ck_ok c (fst (pers_apply d a s))"
  shows "pers_new label ck_load c' = Inr s'"
proof -
  obtain r c1 where save: "ck_save (fst (pers_apply d a s)) c = (r, c1)" by force
  with assms(1) have "r = Inr ()" "c' = c1" "s' = snd (pers_apply d a s)"
    by (auto simp: pers_commit_simps split: sum.splits)
  with load_save [OF assms(2)] save have "ck_load c' = Inr (Some (snapshot_now s'))"
    by (simp add: pers_apply_snapshot)
  then show ?thesis by (simp add: pers_new_def snapshot_now_def)
qed

end

section \<open>Concurrent commits\<close>

text \<open>
  Commits on one in-memory checkpointer: \<open>cc_pending\<close> holds the snapshots of the commits that have
  released the lock and not saved yet.
\<close>

record pers_conc =
  cc_st :: pers_state
  cc_pending :: "snapshot list"
  cc_slot :: "snapshot option"

inductive pers_step :: "pers_conc \<Rightarrow> pers_conc \<Rightarrow> bool" where
  commit_apply: "pers_apply d a (cc_st c) = (snap, s') \<Longrightarrow>
     pers_step c (c\<lparr>cc_st := s', cc_pending := cc_pending c @ [snap]\<rparr>)"
| commit_save: "i < length (cc_pending c) \<Longrightarrow>
     pers_step c (c\<lparr>cc_pending := take i (cc_pending c) @ drop (Suc i) (cc_pending c),
       cc_slot := snd (mem_ck_save (cc_pending c ! i) (cc_slot c))\<rparr>)"
| memory_upsert_node: "pers_step c (c\<lparr>cc_st := snd (pers_upsert_node n (cc_st c))\<rparr>)"
| memory_upsert_edge: "pers_step c (c\<lparr>cc_st := snd (pers_upsert_edge e (cc_st c))\<rparr>)"
| memory_upsert_axiom: "pers_step c (c\<lparr>cc_st := pers_upsert_axiom ax (cc_st c)\<rparr>)"

inductive_cases pers_stepE: "pers_step c c'"

definition conc_init :: "pers_state \<Rightarrow> pers_conc" where
  "conc_init s = \<lparr>cc_st = s, cc_pending = [], cc_slot = None\<rparr>"

text \<open>A snapshot is behind a state: not newer, and with no node, edge or activity the state lacks.\<close>

definition behind :: "snapshot \<Rightarrow> pers_state \<Rightarrow> bool" where
  "behind sn s \<longleftrightarrow>
     sn_version sn \<le> ps_version s \<and>
     dom (ont_node (sn_ont sn)) \<subseteq> dom (pers_node s) \<and> dom (ont_edge (sn_ont sn)) \<subseteq> dom (pers_edge s) \<and>
     dom (map_of (pl_activities (sn_prov sn))) \<subseteq> dom (map_of (pl_activities (ps_prov s)))"

definition conc_ok :: "pers_conc \<Rightarrow> bool" where
  "conc_ok c \<longleftrightarrow> (\<forall>sn \<in> set (cc_pending c) \<union> set_option (cc_slot c). behind sn (cc_st c))"

lemma saturating_add1_ge: "v \<le> saturating_add1 v"
proof (cases "v = - 1")
  case False
  then have "1 + v \<noteq> 0" by (simp add: add_eq_0_iff)
  then have "unat (1 + v) = Suc (unat v)" by (rule unatSuc)
  then show ?thesis using False by (simp add: saturating_add1_def word_le_nat_alt add.commute [of v])
qed (simp add: saturating_add1_def)

lemma behind_mono:
  assumes "behind sn s" "ps_version s \<le> ps_version s'" "dom (pers_node s) \<subseteq> dom (pers_node s')"
    "dom (pers_edge s) \<subseteq> dom (pers_edge s')"
    "dom (map_of (pl_activities (ps_prov s))) \<subseteq> dom (map_of (pl_activities (ps_prov s')))"
  shows "behind sn s'"
  using assms unfolding behind_def by (blast intro: order_trans)

lemma behind_self: "behind (snapshot_now s) s"
proof -
  have "pers_node s = ont_node (ps_ont s)" "pers_edge s = ont_edge (ps_ont s)"
    by (simp_all add: fun_eq_iff pers_node_def pers_edge_def)
  then show ?thesis by (simp add: behind_def snapshot_now_def)
qed

lemma behind_apply:
  assumes "behind sn s"
  shows "behind sn (snd (pers_apply d a s))"
  using assms
proof (rule behind_mono)
  show "ps_version s \<le> ps_version (snd (pers_apply d a s))"
    by (simp add: pers_apply_def Let_def saturating_add1_ge)
qed (auto simp: pers_node_def pers_edge_def pers_apply_ont apply_delta_node apply_delta_edge
      record_activity_get dom_def split: option.splits)

lemma behind_upserts:
  assumes "behind sn s"
  shows "behind sn (snd (pers_upsert_node n s))" "behind sn (snd (pers_upsert_edge e s))"
    "behind sn (pers_upsert_axiom ax s)"
  using assms
  by (rule behind_mono; auto simp: pers_node_def pers_edge_def pers_upsert_node_def pers_upsert_edge_def
      pers_upsert_axiom_def)+

lemma conc_ok_step:
  assumes "pers_step c c'" "conc_ok c"
  shows "conc_ok c'"
  using assms
proof (cases rule: pers_step.cases)
  case (commit_apply d a snap s')
  then have "snap = snapshot_now s'" "s' = snd (pers_apply d a (cc_st c))"
    using pers_apply_snapshot [of d a "cc_st c"] by simp_all
  with commit_apply(1) assms(2) show ?thesis
    by (auto simp: conc_ok_def behind_self intro: behind_apply)
next
  case (commit_save i)
  then have "cc_pending c ! i \<in> set (cc_pending c)" by simp
  with commit_save(1) assms(2) show ?thesis
    by (auto simp: conc_ok_def mem_ck_save_def dest: in_set_takeD in_set_dropD)
qed (auto simp: conc_ok_def intro: behind_upserts)

section \<open>Properties\<close>

text \<open>
  C1: A persistent store answers queries as the in-memory store would on the same memory, and its
  operations are those of the in-memory store: pattern matching, traversal, diff, upserts and the
  memory effect of a commit.
\<close>

theorem persistent_refines_memory:
  "pers_match_pattern s p = match_pattern (as_mem s) p \<and>
   pers_traverse s plan = traverse (as_mem s) plan \<and>
   pers_diff s other = ont_diff (ms_ont (as_mem s)) other \<and>
   as_mem (snd (pers_upsert_node n s)) = snd (mem_upsert_node n (as_mem s)) \<and>
   as_mem (snd (pers_upsert_edge e s)) = snd (mem_upsert_edge e (as_mem s)) \<and>
   as_mem (pers_upsert_axiom ax s) = mem_upsert_axiom ax (as_mem s) \<and>
   as_mem (fst (snd (pers_commit ck_save label d a (s, c)))) = snd (mem_commit d a (as_mem s))"
proof (intro conjI)
  show "pers_traverse s plan = traverse (as_mem s) plan"
    by (simp add: pers_traverse_def traverse_def pers_run_step_eq pers_seed_rows_eq as_mem_def
        pers_apply_ordering_def apply_ordering_and_projection_def)
  show "as_mem (fst (snd (pers_commit ck_save label d a (s, c)))) = snd (mem_commit d a (as_mem s))"
    by (simp add: pers_commit_fst pers_apply_ont as_mem_def mem_commit_def)
qed (simp_all add: pers_match_pattern_def match_pattern_def pers_seed_rows_eq as_mem_def pers_diff_def ont_diff_def
    pers_upsert_node_def mem_upsert_node_def pers_upsert_edge_def mem_upsert_edge_def
    pers_upsert_axiom_def mem_upsert_axiom_def)

text \<open>
  When a commit on a file checkpointer succeeds, a store opened on that file recovers the
  ontology, ledger and version of memory, for every snapshot that JSON and hex carry through.
\<close>

theorem file_commit_durable:
  assumes "pers_commit (file_save hexe to_json mkdir_err fault) label d a (s, content) = (Inr p, (s', content'))"
    "json_ok hexe hexd to_json from_json (fst (pers_apply d a s))"
  shows "pers_new label (file_load hexd from_json None) content' = Inr s'"
  using assms by (rule file_ck.commit_durable)

text \<open>
  C37: A commit whose save fails reports the checkpointer's error, but its delta, its activity and
  the new version stay in memory.
\<close>

theorem failed_save_keeps_memory:
  assumes "ck_save (fst (pers_apply d a s)) c = (Inl e, c')"
  shows "\<exists>s'. pers_commit ck_save label d a (s, c) =
       (Inl (StIo (''checkpointer('' @ label @ ''): '' @ ck_error_display e)), (s', c')) \<and>
     as_mem s' = snd (mem_commit d a (as_mem s)) \<and> ps_version s' = saturating_add1 (ps_version s)"
  using assms pers_apply_as_mem [of d a s "fst (pers_apply d a s)" "snd (pers_apply d a s)"]
  by (simp add: pers_commit_simps checkpointer_err_def)

text \<open>
  A store built with \<open>from_memory\<close> restarts at version 0, so its first commit to a SQLite
  checkpointer whose latest row has a version above 1 changes no later load.
\<close>

theorem from_memory_commit_hidden_by_sqlite:
  assumes "sq_latest rows = Some old" "1 < sint (sq_version old)"
  shows "sqlite_load hexd from_json None
       (snd (snd (pers_commit (sqlite_save hexe to_json db_err) label d a (pers_from_memory, rows)))) =
     sqlite_load hexd from_json None rows"
proof -
  have "sn_version (fst (pers_apply d a pers_from_memory)) = 1"
    by (simp add: pers_apply_def Let_def snapshot_now_def pers_from_memory_def pers_default_def saturating_add1_def)
  then have "sint (sn_version (fst (pers_apply d a pers_from_memory))) < sint (sq_version old)"
    using assms(2) by simp
  from sqlite_save_below [OF assms(1) this] show ?thesis
    by (simp add: pers_commit_simps case_prod_unfold split: sum.splits)
qed

text \<open>
  However commits and in-memory upserts interleave, no snapshot that is saved or waits to be
  saved is newer than memory or holds a node, an edge or an activity that memory lacks.
\<close>

theorem concurrent_commits_behind_memory:
  assumes "pers_step\<^sup>*\<^sup>* (conc_init s) c" "sn \<in> set (cc_pending c) \<or> cc_slot c = Some sn"
  shows "sn_version sn \<le> ps_version (cc_st c) \<and>
     dom (ont_node (sn_ont sn)) \<subseteq> dom (pers_node (cc_st c)) \<and>
     dom (ont_edge (sn_ont sn)) \<subseteq> dom (pers_edge (cc_st c)) \<and>
     dom (map_of (pl_activities (sn_prov sn))) \<subseteq> dom (map_of (pl_activities (ps_prov (cc_st c))))"
proof -
  have "conc_ok c"
    using assms(1)
  proof (induction rule: rtranclp_induct)
    case base
    show ?case by (simp add: conc_ok_def conc_init_def)
  next
    case (step y z)
    then show ?case by (blast intro: conc_ok_step)
  qed
  then show ?thesis using assms(2) by (auto simp: conc_ok_def behind_def)
qed

definition ex_commit_a :: delta where
  [code_defs]: "ex_commit_a = delta_with_node \<lparr>n_id = NodeId [1], n_iri = None, n_types = [], n_props = []\<rparr> delta_new"

definition ex_commit_b :: delta where
  [code_defs]: "ex_commit_b = delta_with_node \<lparr>n_id = NodeId [2], n_iri = None, n_types = [], n_props = []\<rparr> delta_new"

text \<open>
  C36: Two commits that overlap may save in the opposite order of their application: both have
  finished and nothing is waiting, yet the saved snapshot is older than memory and lacks a
  committed node.
\<close>

theorem overlapping_commits_lose_durability:
  "\<exists>c sn. pers_step\<^sup>*\<^sup>* (conc_init pers_default) c \<and> cc_pending c = [] \<and> cc_slot c = Some sn \<and>
     sn_version sn < ps_version (cc_st c) \<and>
     pers_node (cc_st c) (NodeId [2]) \<noteq> None \<and> ont_node (sn_ont sn) (NodeId [2]) = None"
proof -
  let ?act = "activity_started (ProvenanceId [9]) 0 ''c''"
  define s1 where "s1 = snd (pers_apply ex_commit_a ?act pers_default)"
  define s2 where "s2 = snd (pers_apply ex_commit_b ?act s1)"
  let ?c0 = "conc_init pers_default"
  let ?c1 = "?c0\<lparr>cc_st := s1, cc_pending := cc_pending ?c0 @ [snapshot_now s1]\<rparr>"
  let ?c2 = "?c1\<lparr>cc_st := s2, cc_pending := cc_pending ?c1 @ [snapshot_now s2]\<rparr>"
  let ?save = "\<lambda>i c. c\<lparr>cc_pending := take i (cc_pending c) @ drop (Suc i) (cc_pending c),
      cc_slot := snd (mem_ck_save (cc_pending c ! i) (cc_slot c))\<rparr>"
  have "pers_step ?c0 ?c1"
    by (rule commit_apply [of ex_commit_a ?act]) (simp add: conc_init_def s1_def prod_eq_iff pers_apply_snapshot)
  moreover have "pers_step ?c1 ?c2"
    by (rule commit_apply [of ex_commit_b ?act]) (simp add: s2_def prod_eq_iff pers_apply_snapshot)
  moreover have "pers_step ?c2 (?save 1 ?c2)" by (rule commit_save) (simp add: conc_init_def)
  moreover have "pers_step (?save 1 ?c2) (?save 0 (?save 1 ?c2))" by (rule commit_save) (simp add: conc_init_def)
  ultimately have "pers_step\<^sup>*\<^sup>* ?c0 (?save 0 (?save 1 ?c2))"
    by (meson rtranclp.rtrancl_into_rtrancl rtranclp.rtrancl_refl)
  moreover have "cc_pending (?save 0 (?save 1 ?c2)) = []" by (simp add: conc_init_def)
  moreover have "cc_slot (?save 0 (?save 1 ?c2)) = Some (snapshot_now s1)"
    by (simp add: conc_init_def mem_ck_save_def)
  moreover have "sn_version (snapshot_now s1) < ps_version (cc_st (?save 0 (?save 1 ?c2)))"
    by (simp add: s1_def s2_def snapshot_now_def pers_apply_def Let_def pers_default_def saturating_add1_def)
  moreover have "pers_node (cc_st (?save 0 (?save 1 ?c2))) (NodeId [2]) \<noteq> None"
    "ont_node (sn_ont (snapshot_now s1)) (NodeId [2]) = None"
    by (simp_all add: s1_def s2_def pers_node_def snapshot_now_def pers_apply_ont apply_delta_node ex_commit_a_def
        ex_commit_b_def delta_with_node_def delta_new_def last_with_def pers_default_def)
  ultimately show ?thesis by (intro exI conjI)
qed

section \<open>Instances\<close>

text \<open>JSON stands for one fixed text here, read back as the one snapshot it was written from.\<close>

lemma file_commit_durable_witness:
  "pers_new ''file'' (file_load ex_hexd (\<lambda>b. Inr (snapshot_wire_from ex_hexe
        (fst (pers_apply delta_new (activity_started (ProvenanceId (ex_id 7)) 0 ''c'') pers_default)))) None)
     (snd (snd (pers_commit (file_save ex_hexe (\<lambda>w. Inr [1]) None None) ''file'' delta_new
        (activity_started (ProvenanceId (ex_id 7)) 0 ''c'') (pers_default, None)))) =
   Inr (snd (pers_apply delta_new (activity_started (ProvenanceId (ex_id 7)) 0 ''c'') pers_default))"
proof (rule file_commit_durable [where hexe = ex_hexe and to_json = "\<lambda>w. Inr [1]"])
  let ?a = "activity_started (ProvenanceId (ex_id 7)) 0 ''c''"
  show "pers_commit (file_save ex_hexe (\<lambda>w. Inr [1]) None None) ''file'' delta_new ?a (pers_default, None) =
      (Inr (act_id ?a), (snd (pers_apply delta_new ?a pers_default),
        snd (snd (pers_commit (file_save ex_hexe (\<lambda>w. Inr [1]) None None) ''file'' delta_new ?a (pers_default, None)))))"
    by (simp add: pers_commit_simps file_save_def snapshot_to_json_def)
  have "snapshot_ok (fst (pers_apply delta_new ?a pers_default))"
    by (simp add: snapshot_ok_def pers_apply_snapshot snapshot_now_def pers_apply_ont apply_delta_def delta_new_def
        pers_default_def log_ids_ok_records ex_id_def)
  then show "json_ok ex_hexe ex_hexd (\<lambda>w. Inr [1]) (\<lambda>b. Inr (snapshot_wire_from ex_hexe
        (fst (pers_apply delta_new ?a pers_default)))) (fst (pers_apply delta_new ?a pers_default))"
    by (simp add: json_ok_def)
qed

lemma failed_save_keeps_memory_witness:
  "\<exists>s'. pers_commit (file_save ex_hexe (\<lambda>w. Inr [1]) (Some ''denied'') None) ''f'' ex_commit_a
        (activity_started (ProvenanceId [7]) 0 ''c'') (pers_default, None) =
      (Inl (StIo ''checkpointer(f): io error: denied''), (s', None)) \<and>
     as_mem s' = snd (mem_commit ex_commit_a (activity_started (ProvenanceId [7]) 0 ''c'') (as_mem pers_default)) \<and>
     ps_version s' = saturating_add1 (ps_version pers_default)"
  using failed_save_keeps_memory [of "file_save ex_hexe (\<lambda>w. Inr [1]) (Some ''denied'') None" ex_commit_a
      "activity_started (ProvenanceId [7]) 0 ''c''" pers_default None "CkIo ''denied''" None "''f''"]
  by (simp add: file_save_def snapshot_to_json_def)

lemma from_memory_commit_hidden_by_sqlite_witness:
  "sqlite_load ex_hexd (\<lambda>b. Inr (snapshot_wire_from ex_hexe ex_snapshot)) None
     (snd (snd (pers_commit (sqlite_save ex_hexe (\<lambda>w. Inr [1]) None) ''sqlite'' ex_commit_a
        (activity_started (ProvenanceId [7]) 0 ''c'')
        (pers_from_memory, [\<lparr>sq_id = 1, sq_json = [2], sq_version = 7\<rparr>])))) =
   sqlite_load ex_hexd (\<lambda>b. Inr (snapshot_wire_from ex_hexe ex_snapshot)) None [\<lparr>sq_id = 1, sq_json = [2], sq_version = 7\<rparr>]"
  by (rule from_memory_commit_hidden_by_sqlite [where old = "\<lparr>sq_id = 1, sq_json = [2], sq_version = 7\<rparr>"]) simp_all

lemma concurrent_commits_behind_memory_witness:
  "\<exists>c sn. pers_step\<^sup>*\<^sup>* (conc_init pers_default) c \<and> sn \<in> set (cc_pending c) \<and>
     sn_version sn \<le> ps_version (cc_st c)"
proof -
  let ?act = "activity_started (ProvenanceId [9]) 0 ''c''"
  let ?s = "snd (pers_apply ex_commit_a ?act (cc_st (conc_init pers_default)))"
  let ?c = "(conc_init pers_default)\<lparr>cc_st := ?s, cc_pending := cc_pending (conc_init pers_default) @ [snapshot_now ?s]\<rparr>"
  have "pers_step (conc_init pers_default) ?c"
    by (rule commit_apply [of ex_commit_a ?act]) (simp add: prod_eq_iff pers_apply_snapshot)
  then have reach: "pers_step\<^sup>*\<^sup>* (conc_init pers_default) ?c" by blast
  moreover have "snapshot_now ?s \<in> set (cc_pending ?c)" by simp
  ultimately show ?thesis using concurrent_commits_behind_memory [OF reach, of "snapshot_now ?s"] by blast
qed

end
