(* ===== verification/Version_Store.thy ===== *)
theory Version_Store
  imports Persist_Wire
begin

text \<open>
  \<open>crates/atomr-ontology-version/src/commit.rs\<close>, \<open>branch.rs\<close> and \<open>store.rs\<close>: commits addressed by
  their content, branches, and the store of both with commit, branch, checkout, merge, log and
  time travel. Parameters: the hash \<open>H\<close>, the hex encoder \<open>hexe\<close> and \<open>to_vec\<close>, the JSON text
  \<open>serde_json::to_vec\<close> makes of an ontology (\<open>None\<close> for its error). The clock is the argument \<open>now\<close>.
  A \<open>HashMap\<close> is a sorted map; no result below depends on its iteration order.
\<close>

type_synonym json_to_vec = "ontology \<Rightarrow> bytes option"

section \<open>Commits\<close>

record commit =
  c_id :: commit_id
  c_parent :: "commit_id option"
  c_second :: "commit_id option"
  c_message :: string
  c_author :: string
  c_time :: int
  c_snapshot :: ontology
  c_activity :: "prov_id option"

definition commit_input :: "json_to_vec \<Rightarrow> commit_id option \<Rightarrow> string \<Rightarrow> ontology \<Rightarrow> bytes" where
  [code_defs]: "commit_input to_vec parent message snap =
     (case parent of Some p \<Rightarrow> commit_id_bytes p | None \<Rightarrow> replicate 32 0)
     @ str_bytes message @ [0]
     @ (case to_vec snap of Some b \<Rightarrow> b | None \<Rightarrow> str_bytes ''<unserializable-snapshot>'')"

definition compute_id :: "hasher \<Rightarrow> json_to_vec \<Rightarrow> commit_id option \<Rightarrow> string \<Rightarrow> ontology \<Rightarrow> commit_id" where
  [code_defs]: "compute_id H to_vec parent message snap =
     CommitId (H ''atomr-ontology-version/CommitId/v1'' (commit_input to_vec parent message snap))"

definition commit_new ::
    "hasher \<Rightarrow> json_to_vec \<Rightarrow> commit_id option \<Rightarrow> commit_id option \<Rightarrow> string \<Rightarrow> string \<Rightarrow> int \<Rightarrow> ontology \<Rightarrow>
       prov_id option \<Rightarrow> commit" where
  [code_defs]: "commit_new H to_vec parent second message author now snap act =
     \<lparr>c_id = compute_id H to_vec parent message snap, c_parent = parent, c_second = second,
      c_message = message, c_author = author, c_time = now, c_snapshot = snap, c_activity = act\<rparr>"

datatype merge_strategy = Ours | Theirs | Union

section \<open>The branch registry\<close>

type_synonym branch_registry = "(string, commit_id) bmap"

record branch_rec =
  br_name :: string
  br_head :: commit_id

definition reg_create :: "string \<Rightarrow> commit_id \<Rightarrow> branch_registry \<Rightarrow> bool \<times> branch_registry" where
  [code_defs]: "reg_create name head r = (if bm_contains r name then (False, r) else (True, bm_insert name head r))"

definition reg_move_to :: "string \<Rightarrow> commit_id \<Rightarrow> branch_registry \<Rightarrow> bool \<times> branch_registry" where
  [code_defs]: "reg_move_to name head r =
     (case map_of r name of Some _ \<Rightarrow> (True, bm_insert name head r) | None \<Rightarrow> (False, r))"

definition reg_head :: "branch_registry \<Rightarrow> string \<Rightarrow> commit_id option" where
  [code_defs]: "reg_head r name = map_of r name"

definition reg_list :: "branch_registry \<Rightarrow> branch_rec list" where
  [code_defs]: "reg_list r = map (\<lambda>(n, h). \<lparr>br_name = n, br_head = h\<rparr>) r"

definition reg_contains :: "branch_registry \<Rightarrow> string \<Rightarrow> bool" where
  [code_defs]: "reg_contains r name = bm_contains r name"

section \<open>The store\<close>

record vstore =
  v_commits :: "(commit_id, commit) bmap"
  v_branches :: "(string, commit_id) bmap"
  v_current :: string

datatype version_error =
    UnknownBranch string
  | UnknownCommit commit_id
  | BranchExists string
  | NothingToMerge string
  | EmptyCurrentBranch string
  | SelfMerge string

definition v_init :: vstore where
  [code_defs]: "v_init = \<lparr>v_commits = [], v_branches = [], v_current = ''main''\<rparr>"

definition branch_names :: "vstore \<Rightarrow> string list" where
  [code_defs]: "branch_names s = bm_keys (v_branches s)"

text \<open>The two insertions that end \<open>commit\<close> and \<open>merge\<close>.\<close>

definition v_append :: "commit \<Rightarrow> vstore \<Rightarrow> vstore" where
  [code_defs]: "v_append c s =
     s\<lparr>v_commits := bm_insert (c_id c) c (v_commits s),
       v_branches := bm_insert (v_current s) (c_id c) (v_branches s)\<rparr>"

definition v_commit :: "hasher \<Rightarrow> json_to_vec \<Rightarrow> int \<Rightarrow> string \<Rightarrow> string \<Rightarrow> ontology \<Rightarrow> vstore \<Rightarrow> commit_id \<times> vstore" where
  [code_defs]: "v_commit H to_vec now message author snap s =
     (let c = commit_new H to_vec (map_of (v_branches s) (v_current s)) None message author now snap None
      in (c_id c, v_append c s))"

definition v_branch :: "string \<Rightarrow> vstore \<Rightarrow> (version_error + unit) \<times> vstore" where
  [code_defs]: "v_branch name s =
     (if bm_contains (v_branches s) name then (Inl (BranchExists name), s)
      else case map_of (v_branches s) (v_current s) of
             None \<Rightarrow> (Inl (EmptyCurrentBranch (v_current s)), s)
           | Some head \<Rightarrow> (Inr (), s\<lparr>v_branches := bm_insert name head (v_branches s)\<rparr>))"

definition v_checkout :: "string \<Rightarrow> vstore \<Rightarrow> (version_error + unit) \<times> vstore" where
  [code_defs]: "v_checkout name s =
     (if \<not> bm_contains (v_branches s) name then (Inl (UnknownBranch name), s)
      else (Inr (), s\<lparr>v_current := name\<rparr>))"

definition union_into :: "('k::linorder, 'v) bmap \<Rightarrow> ('k, 'v) bmap \<Rightarrow> ('k, 'v) bmap" where
  [code_defs]: "union_into ours theirs = fold (\<lambda>(k, v) m. bm_or_insert k v m) theirs ours"

definition merge_snapshots :: "ontology \<Rightarrow> ontology \<Rightarrow> merge_strategy \<Rightarrow> ontology" where
  "merge_snapshots ours theirs strategy =
     (case strategy of
        Ours \<Rightarrow> ours
      | Theirs \<Rightarrow> theirs
      | Union \<Rightarrow>
          ours\<lparr>o_nodes := union_into (o_nodes ours) (o_nodes theirs),
               o_edges := union_into (o_edges ours) (o_edges theirs),
               o_axioms := union_into (o_axioms ours) (o_axioms theirs),
               o_schema := \<lparr>s_node_types = union_into (s_node_types (o_schema ours)) (s_node_types (o_schema theirs)),
                            s_edge_types = union_into (s_edge_types (o_schema ours)) (s_edge_types (o_schema theirs))\<rparr>\<rparr>)"

definition compute_id_with_second_parent ::
    "hasher \<Rightarrow> json_to_vec \<Rightarrow> hex_encoder \<Rightarrow> commit_id option \<Rightarrow> commit_id option \<Rightarrow> string \<Rightarrow> ontology \<Rightarrow> commit_id" where
  [code_defs]: "compute_id_with_second_parent H to_vec hexe parent second message snap =
     compute_id H to_vec parent
       (case second of
          Some p \<Rightarrow> message @ [CHR 0x00] @ ''merge-with:'' @ hexe (commit_id_bytes p)
        | None \<Rightarrow> message)
       snap"

definition v_merge ::
    "hasher \<Rightarrow> json_to_vec \<Rightarrow> hex_encoder \<Rightarrow> int \<Rightarrow> string \<Rightarrow> merge_strategy \<Rightarrow> vstore \<Rightarrow>
       (version_error + commit_id) \<times> vstore" where
  "v_merge H to_vec hexe now other strategy s =
     (if other = v_current s then (Inl (SelfMerge other), s)
      else case map_of (v_branches s) other of
        None \<Rightarrow> (Inl (UnknownBranch other), s)
      | Some other_head \<Rightarrow>
     (case map_of (v_branches s) (v_current s) of
        None \<Rightarrow> (Inl (EmptyCurrentBranch (v_current s)), s)
      | Some current_head \<Rightarrow>
     (case map_of (v_commits s) current_head of
        None \<Rightarrow> (Inl (UnknownCommit current_head), s)
      | Some ours \<Rightarrow>
     (case map_of (v_commits s) other_head of
        None \<Rightarrow> (Inl (UnknownCommit other_head), s)
      | Some theirs \<Rightarrow>
          if current_head = other_head then (Inl (NothingToMerge other), s)
          else
            let merged = merge_snapshots (c_snapshot ours) (c_snapshot theirs) strategy;
                message = ''merge branch '' @ [CHR 0x27] @ other @ [CHR 0x27] @ '' into '' @ [CHR 0x27] @ v_current s @ [CHR 0x27];
                c = commit_new H to_vec (Some current_head) (Some other_head) message ''merge'' now merged None;
                c = c\<lparr>c_id := compute_id_with_second_parent H to_vec hexe (c_parent c) (c_second c) (c_message c) (c_snapshot c)\<rparr>
            in (Inr (c_id c), v_append c s)))))"

definition v_head_id :: "vstore \<Rightarrow> commit_id option" where
  [code_defs]: "v_head_id s = map_of (v_branches s) (v_current s)"

definition v_head :: "vstore \<Rightarrow> commit option" where
  [code_defs]: "v_head s =
     (case map_of (v_branches s) (v_current s) of None \<Rightarrow> None | Some i \<Rightarrow> map_of (v_commits s) i)"

definition as_of :: "vstore \<Rightarrow> commit_id \<Rightarrow> ontology option" where
  [code_defs]: "as_of s i = map_option c_snapshot (map_of (v_commits s) i)"

definition commit_at :: "vstore \<Rightarrow> commit_id \<Rightarrow> commit option" where
  [code_defs]: "commit_at s i = map_of (v_commits s) i"

section \<open>log\<close>

fun log_visit :: "commit_id option \<Rightarrow> commit_id set \<times> commit_id list \<Rightarrow> commit_id set \<times> commit_id list" where
  "log_visit None acc = acc"
| "log_visit (Some p) (seen, q) = (if p \<in> seen then (seen, q) else (insert p seen, q @ [p]))"

definition log_parents :: "commit \<Rightarrow> commit_id set" where
  "log_parents c = set_option (c_parent c) \<union> set_option (c_second c)"

lemma log_visit_new:
  "\<exists>new. log_visit p (seen, q) = (seen \<union> set new, q @ new) \<and> distinct new \<and> set new = set_option p - seen"
proof (cases p)
  case None
  then show ?thesis by (intro exI [of _ "[]"]) simp
next
  case (Some x)
  then show ?thesis
    by (cases "x \<in> seen") (rule exI [of _ "[]"], simp, rule exI [of _ "[x]"], auto)
qed

lemma log_visits_new:
  "\<exists>new. log_visit (c_second c) (log_visit (c_parent c) (seen, q)) = (seen \<union> set new, q @ new) \<and>
     distinct new \<and> set new = log_parents c - seen"
proof -
  obtain n1 where n1: "log_visit (c_parent c) (seen, q) = (seen \<union> set n1, q @ n1)" "distinct n1"
    "set n1 = set_option (c_parent c) - seen" using log_visit_new by blast
  obtain n2 where n2: "log_visit (c_second c) (seen \<union> set n1, q @ n1) = (seen \<union> set n1 \<union> set n2, (q @ n1) @ n2)"
    "distinct n2" "set n2 = set_option (c_second c) - (seen \<union> set n1)" using log_visit_new by blast
  show ?thesis
    by (rule exI [of _ "n1 @ n2"]) (use n1 n2 in \<open>auto simp: log_parents_def\<close>)
qed

definition log_universe :: "(commit_id, commit) bmap \<Rightarrow> commit_id set" where
  "log_universe cs = (\<Union>e \<in> set cs. log_parents (snd e))"

lemma finite_log_universe [simp]: "finite (log_universe cs)"
  by (simp add: log_universe_def log_parents_def)

function log_loop :: "(commit_id, commit) bmap \<Rightarrow> commit_id list \<Rightarrow> commit_id set \<Rightarrow> commit list" where
  "log_loop cs [] seen = []"
| "log_loop cs (i # q) seen =
     (case map_of cs i of
        None \<Rightarrow> log_loop cs q seen
      | Some c \<Rightarrow>
          (case log_visit (c_second c) (log_visit (c_parent c) (seen, q)) of
             (seen', q') \<Rightarrow> c # log_loop cs q' seen'))"
  by pat_completeness auto
termination
proof (relation "measure (\<lambda>(cs, q, seen). 2 * card (log_universe cs - seen) + length q)", goal_cases)
  case (3 cs i q seen c seen' q')
  obtain new where new: "log_visit (c_second c) (log_visit (c_parent c) (seen, q)) = (seen \<union> set new, q @ new)"
    "distinct new" "set new = log_parents c - seen" using log_visits_new by blast
  have sq: "seen' = seen \<union> set new" "q' = q @ new" using 3 new(1) by simp_all
  have "log_parents c \<subseteq> log_universe cs"
    using map_of_SomeD [OF 3(1)] by (force simp: log_universe_def)
  then have sub: "set new \<subseteq> log_universe cs - seen" using new(3) by blast
  have "log_universe cs - seen' = log_universe cs - seen - set new" using sq by blast
  then have "card (log_universe cs - seen') = card (log_universe cs - seen - set new)" by simp
  also have "\<dots> = card (log_universe cs - seen) - length new"
    using sub new(2) by (simp add: card_Diff_subset distinct_card)
  finally have "card (log_universe cs - seen') = card (log_universe cs - seen) - length new" .
  moreover have "length new \<le> card (log_universe cs - seen)"
    using card_mono [OF _ sub] new(2) by (simp add: distinct_card)
  ultimately show ?case by (simp add: sq)
qed simp_all

definition v_log :: "vstore \<Rightarrow> commit list" where
  [code_defs]: "v_log s =
     (case map_of (v_branches s) (v_current s) of
        None \<Rightarrow> []
      | Some start \<Rightarrow> log_loop (v_commits s) [start] {start})"

section \<open>The invariant and the steps of the store\<close>

text \<open>
  Every commit is stored under its id, its parents and the heads of the branches are stored
  commits, and the current branch has a head as soon as any branch has.
\<close>

definition v_wf :: "vstore \<Rightarrow> bool" where
  "v_wf s \<longleftrightarrow>
     bm_wf (v_commits s) \<and> bm_wf (v_branches s) \<and>
     (\<forall>i c. map_of (v_commits s) i = Some c \<longrightarrow> c_id c = i \<and> (\<forall>p \<in> log_parents c. map_of (v_commits s) p \<noteq> None)) \<and>
     (\<forall>b i. map_of (v_branches s) b = Some i \<longrightarrow> map_of (v_commits s) i \<noteq> None) \<and>
     (v_branches s = [] \<or> map_of (v_branches s) (v_current s) \<noteq> None)"

lemma v_wfD:
  assumes "v_wf s"
  shows "map_of (v_commits s) i = Some c \<Longrightarrow> c_id c = i"
    "map_of (v_commits s) i = Some c \<Longrightarrow> p \<in> log_parents c \<Longrightarrow> \<exists>d. map_of (v_commits s) p = Some d"
    "map_of (v_branches s) b = Some i \<Longrightarrow> \<exists>d. map_of (v_commits s) i = Some d"
    "map_of (v_branches s) b = Some i \<Longrightarrow> \<exists>j. map_of (v_branches s) (v_current s) = Some j"
  using assms by (auto simp: v_wf_def)

inductive v_step :: "hasher \<Rightarrow> json_to_vec \<Rightarrow> hex_encoder \<Rightarrow> vstore \<Rightarrow> vstore \<Rightarrow> bool" for H to_vec hexe where
  step_commit: "v_step H to_vec hexe s (snd (v_commit H to_vec now message author snap s))"
| step_branch: "v_step H to_vec hexe s (snd (v_branch name s))"
| step_checkout: "v_step H to_vec hexe s (snd (v_checkout name s))"
| step_merge: "v_step H to_vec hexe s (snd (v_merge H to_vec hexe now other strategy s))"

inductive_cases v_stepE: "v_step H to_vec hexe s s'"

lemma v_wf_init: "v_wf v_init"
  by (simp add: v_wf_def v_init_def)

lemma v_wf_append:
  assumes wf: "v_wf s" and parents: "\<And>p. p \<in> log_parents c \<Longrightarrow> map_of (v_commits s) p \<noteq> None"
  shows "v_wf (v_append c s)"
  using assms by (auto simp: v_wf_def v_append_def)

lemma v_commit_as_append:
  "v_commit H to_vec now message author snap s =
     (let c = commit_new H to_vec (v_head_id s) None message author now snap None in (c_id c, v_append c s))"
  by (simp add: v_commit_def v_head_id_def)

lemma v_wf_commit: "v_wf s \<Longrightarrow> v_wf (snd (v_commit H to_vec now message author snap s))"
  unfolding v_commit_def Let_def snd_conv
  by (rule v_wf_append) (auto simp: commit_new_def log_parents_def v_wf_def)

lemma v_wf_branch: "v_wf s \<Longrightarrow> v_wf (snd (v_branch name s))"
  by (auto simp: v_branch_def v_wf_def bm_contains_def split: option.splits)

lemma v_wf_checkout: "v_wf s \<Longrightarrow> v_wf (snd (v_checkout name s))"
  by (auto simp: v_checkout_def v_wf_def bm_contains_def)

text \<open>The commit a merge makes of two heads.\<close>

definition merge_commit :: "hasher \<Rightarrow> json_to_vec \<Rightarrow> hex_encoder \<Rightarrow> int \<Rightarrow> string \<Rightarrow> string \<Rightarrow> merge_strategy \<Rightarrow> commit \<Rightarrow> commit \<Rightarrow> commit" where
  "merge_commit H to_vec hexe now other current strategy ours theirs =
     (let message = ''merge branch '' @ [CHR 0x27] @ other @ [CHR 0x27] @ '' into '' @ [CHR 0x27] @ current @ [CHR 0x27];
          merged = merge_snapshots (c_snapshot ours) (c_snapshot theirs) strategy
      in \<lparr>c_id = compute_id_with_second_parent H to_vec hexe (Some (c_id ours)) (Some (c_id theirs)) message merged,
          c_parent = Some (c_id ours), c_second = Some (c_id theirs), c_message = message, c_author = ''merge'',
          c_time = now, c_snapshot = merged, c_activity = None\<rparr>)"

lemma v_merge_outcome:
  assumes "v_wf s"
  shows "v_merge H to_vec hexe now other strategy s =
     (if other = v_current s then (Inl (SelfMerge other), s)
      else case map_of (v_branches s) other of
        None \<Rightarrow> (Inl (UnknownBranch other), s)
      | Some oh \<Rightarrow>
          if map_of (v_branches s) (v_current s) = Some oh then (Inl (NothingToMerge other), s)
          else let c = merge_commit H to_vec hexe now other (v_current s) strategy
                 (the (v_head s)) (the (map_of (v_commits s) oh))
               in (Inr (c_id c), v_append c s))"
proof (cases "other = v_current s \<or> map_of (v_branches s) other = None")
  case True
  then show ?thesis by (auto simp: v_merge_def split: option.splits)
next
  case False
  then obtain oh where oh: "map_of (v_branches s) other = Some oh" by auto
  obtain theirs where theirs: "map_of (v_commits s) oh = Some theirs" using v_wfD(3) [OF assms oh] by blast
  obtain ch where ch: "map_of (v_branches s) (v_current s) = Some ch" using v_wfD(4) [OF assms oh] by blast
  obtain ours where ours: "map_of (v_commits s) ch = Some ours" using v_wfD(3) [OF assms ch] by blast
  have ids: "c_id ours = ch" "c_id theirs = oh" using v_wfD(1) [OF assms] ours theirs by blast+
  show ?thesis
    using False
    by (simp add: v_merge_def oh ch ours theirs v_head_def merge_commit_def commit_new_def ids Let_def)
qed

lemma merge_commit_parents: "log_parents (merge_commit H to_vec hexe now other cur strategy ours theirs) = {c_id ours, c_id theirs}"
  by (auto simp: log_parents_def merge_commit_def Let_def)

lemma v_wf_merge:
  assumes wf: "v_wf s"
  shows "v_wf (snd (v_merge H to_vec hexe now other strategy s))"
proof -
  have "v_wf (v_append (merge_commit H to_vec hexe now other (v_current s) strategy (the (v_head s))
      (the (map_of (v_commits s) oh))) s)" if oh: "map_of (v_branches s) other = Some oh" for oh
  proof -
    obtain theirs where theirs: "map_of (v_commits s) oh = Some theirs" using v_wfD(3) [OF wf oh] by blast
    obtain ch where ch: "map_of (v_branches s) (v_current s) = Some ch" using v_wfD(4) [OF wf oh] by blast
    obtain ours where ours: "map_of (v_commits s) ch = Some ours" using v_wfD(3) [OF wf ch] by blast
    have ids: "c_id ours = ch" "c_id theirs = oh" using v_wfD(1) [OF wf] ours theirs by blast+
    show ?thesis
      by (rule v_wf_append [OF wf]) (auto simp: merge_commit_parents v_head_def ch ours theirs ids)
  qed
  then show ?thesis using wf by (simp add: v_merge_outcome Let_def split: option.splits)
qed

lemma v_wf_step: "v_step H to_vec hexe s s' \<Longrightarrow> v_wf s \<Longrightarrow> v_wf s'"
  by (erule v_stepE) (simp_all add: v_wf_commit v_wf_branch v_wf_checkout v_wf_merge)

section \<open>The ancestors of a commit\<close>

definition parent_rel :: "(commit_id, commit) bmap \<Rightarrow> (commit_id \<times> commit_id) set" where
  "parent_rel cs = {(a, b). \<exists>c. map_of cs a = Some c \<and> b \<in> log_parents c}"

definition ids_ok :: "(commit_id, commit) bmap \<Rightarrow> bool" where
  "ids_ok cs \<longleftrightarrow> (\<forall>i c. map_of cs i = Some c \<longrightarrow> c_id c = i)"

lemma log_loop_Some:
  assumes "map_of cs i = Some c"
  shows "\<exists>new. log_visit (c_second c) (log_visit (c_parent c) (seen, q)) = (seen \<union> set new, q @ new) \<and>
     log_loop cs (i # q) seen = c # log_loop cs (q @ new) (seen \<union> set new) \<and>
     distinct new \<and> set new = log_parents c - seen"
proof -
  obtain new where "log_visit (c_second c) (log_visit (c_parent c) (seen, q)) = (seen \<union> set new, q @ new)"
    "distinct new" "set new = log_parents c - seen" using log_visits_new by blast
  with assms show ?thesis by (intro exI [of _ new]) simp
qed

text \<open>What the ids popped from the queue \<open>q\<close> with \<open>seen\<close> marked satisfy.\<close>

definition log_ok :: "(commit_id, commit) bmap \<Rightarrow> commit_id list \<Rightarrow> commit_id set \<Rightarrow> commit list \<Rightarrow> bool" where
  "log_ok cs q seen out \<longleftrightarrow>
     (\<forall>c \<in> set out. map_of cs (c_id c) = Some c) \<and>
     (\<forall>x \<in> c_id ` set out. \<exists>a \<in> set q. (a, x) \<in> (parent_rel cs)\<^sup>*) \<and>
     distinct (map c_id out) \<and>
     c_id ` set out \<inter> (seen - set q) = {} \<and>
     (\<forall>x \<in> set q. map_of cs x \<noteq> None \<longrightarrow> x \<in> c_id ` set out) \<and>
     (\<forall>a \<in> c_id ` set out. \<forall>b. (a, b) \<in> parent_rel cs \<longrightarrow> b \<in> seen \<or> b \<in> c_id ` set out \<or> map_of cs b = None)"

lemma log_okD:
  assumes "log_ok cs q seen out"
  shows "c \<in> set out \<Longrightarrow> map_of cs (c_id c) = Some c"
    and "x \<in> c_id ` set out \<Longrightarrow> \<exists>a \<in> set q. (a, x) \<in> (parent_rel cs)\<^sup>*"
    and "distinct (map c_id out)" and "c_id ` set out \<inter> (seen - set q) = {}"
    and "x \<in> set q \<Longrightarrow> map_of cs x = Some d \<Longrightarrow> x \<in> c_id ` set out"
    and "a \<in> c_id ` set out \<Longrightarrow> (a, b) \<in> parent_rel cs \<Longrightarrow> b \<in> seen \<or> b \<in> c_id ` set out \<or> map_of cs b = None"
proof -
  have p:
    "\<forall>c \<in> set out. map_of cs (c_id c) = Some c"
    "\<forall>x \<in> c_id ` set out. \<exists>a \<in> set q. (a, x) \<in> (parent_rel cs)\<^sup>*"
    "distinct (map c_id out)" "c_id ` set out \<inter> (seen - set q) = {}"
    "\<forall>x \<in> set q. map_of cs x \<noteq> None \<longrightarrow> x \<in> c_id ` set out"
    "\<forall>a \<in> c_id ` set out. \<forall>b. (a, b) \<in> parent_rel cs \<longrightarrow> b \<in> seen \<or> b \<in> c_id ` set out \<or> map_of cs b = None"
    by (insert assms, unfold log_ok_def, (elim conjE, assumption)+)
  show "c \<in> set out \<Longrightarrow> map_of cs (c_id c) = Some c" by (rule bspec [OF p(1)])
  show "x \<in> c_id ` set out \<Longrightarrow> \<exists>a \<in> set q. (a, x) \<in> (parent_rel cs)\<^sup>*" by (rule bspec [OF p(2)])
  show "distinct (map c_id out)" by (rule p(3))
  show "c_id ` set out \<inter> (seen - set q) = {}" by (rule p(4))
  show "x \<in> set q \<Longrightarrow> map_of cs x = Some d \<Longrightarrow> x \<in> c_id ` set out"
    by (rule bspec [OF p(5), THEN mp]) simp_all
  show "a \<in> c_id ` set out \<Longrightarrow> (a, b) \<in> parent_rel cs \<Longrightarrow> b \<in> seen \<or> b \<in> c_id ` set out \<or> map_of cs b = None"
    by (rule bspec [OF p(6), THEN spec, THEN mp])
qed

lemma log_ok_missing:
  assumes "log_ok cs q seen out" "map_of cs i = None" "i \<notin> set q"
  shows "log_ok cs (i # q) seen out"
proof -
  have "i \<notin> c_id ` set out" using log_okD(1) [OF assms(1)] assms(2) by force
  then show ?thesis using assms unfolding log_ok_def by auto
qed

lemma log_ok_Cons:
  assumes ok: "log_ok cs (q @ new) (seen \<union> set new) out" and c: "map_of cs i = Some c" "c_id c = i"
    and new: "set new = log_parents c - seen" and i: "i \<in> seen" "i \<notin> set q" and q: "set q \<subseteq> seen"
  shows "log_ok cs (i # q) seen (c # out)"
proof -
  have edge: "(i, p) \<in> parent_rel cs \<longleftrightarrow> p \<in> log_parents c" for p using c(1) by (simp add: parent_rel_def)
  have "seen \<union> set new - set (q @ new) = seen - set q" using new by auto
  then have excl: "c_id ` set out \<inter> (seen - set q) = {}" using log_okD(4) [OF ok] by simp
  then have "i \<notin> c_id ` set out" using i by blast
  have sound: "\<exists>a \<in> set (i # q). (a, x) \<in> (parent_rel cs)\<^sup>*" if x: "x \<in> c_id ` set out" for x
  proof -
    obtain a where a: "a \<in> set (q @ new)" "(a, x) \<in> (parent_rel cs)\<^sup>*" using log_okD(2) [OF ok x] by blast
    show ?thesis
    proof (cases "a \<in> set q")
      case False
      then have "(i, a) \<in> parent_rel cs" using a(1) new edge by auto
      then show ?thesis using a(2) by (auto intro: converse_rtrancl_into_rtrancl)
    qed (use a(2) in auto)
  qed
  have closed: "b \<in> seen \<or> b \<in> c_id ` set (c # out) \<or> map_of cs b = None"
    if a: "a \<in> c_id ` set (c # out)" and ab: "(a, b) \<in> parent_rel cs" for a b
  proof -
    have "b \<in> seen \<union> set new \<or> b \<in> c_id ` set out \<or> map_of cs b = None"
    proof (cases "a \<in> c_id ` set out")
      case True
      from log_okD(6) [OF ok this ab] show ?thesis by simp
    next
      case False
      then have "a = i" using a c(2) by simp
      then show ?thesis using ab edge new by blast
    qed
    moreover have "b \<in> c_id ` set out \<or> map_of cs b = None" if "b \<in> set new"
      using log_okD(5) [OF ok, of b] that by (cases "map_of cs b") auto
    ultimately show ?thesis by auto
  qed
  have popped: "x \<in> c_id ` set (c # out)" if "x \<in> set (i # q)" "map_of cs x \<noteq> None" for x
    using log_okD(5) [OF ok, of x] that c(2) by auto
  show ?thesis
    unfolding log_ok_def
  proof (intro conjI)
    show "\<forall>d \<in> set (c # out). map_of cs (c_id d) = Some d" using log_okD(1) [OF ok] c by auto
    show "\<forall>x \<in> c_id ` set (c # out). \<exists>a \<in> set (i # q). (a, x) \<in> (parent_rel cs)\<^sup>*" using sound c(2) by auto
    show "distinct (map c_id (c # out))" using log_okD(3) [OF ok] \<open>i \<notin> c_id ` set out\<close> c(2) by simp
    show "c_id ` set (c # out) \<inter> (seen - set (i # q)) = {}" using excl c(2) by auto
    show "\<forall>x \<in> set (i # q). map_of cs x \<noteq> None \<longrightarrow> x \<in> c_id ` set (c # out)"
      by (intro ballI impI) (rule popped)
    show "\<forall>a \<in> c_id ` set (c # out). \<forall>b. (a, b) \<in> parent_rel cs \<longrightarrow>
        b \<in> seen \<or> b \<in> c_id ` set (c # out) \<or> map_of cs b = None"
      by (intro ballI allI impI) (rule closed)
  qed
qed

lemma log_loop_spec:
  "ids_ok cs \<Longrightarrow> distinct q \<Longrightarrow> set q \<subseteq> seen \<Longrightarrow> log_ok cs q seen (log_loop cs q seen)"
proof (induction cs q seen rule: log_loop.induct)
  case (1 cs seen)
  show ?case by (simp add: log_ok_def)
next
  case (2 cs i q seen)
  show ?case
  proof (cases "map_of cs i")
    case None
    have "log_ok cs q seen (log_loop cs q seen)"
      by (rule "2.IH"(1) [OF None "2.prems"(1)]) (use "2.prems"(2,3) in simp_all)
    then show ?thesis using log_ok_missing [OF _ None] None "2.prems"(2) by simp
  next
    case (Some c)
    obtain new where visit: "log_visit (c_second c) (log_visit (c_parent c) (seen, q)) = (seen \<union> set new, q @ new)"
      and loop: "log_loop cs (i # q) seen = c # log_loop cs (q @ new) (seen \<union> set new)"
      and new: "distinct new" "set new = log_parents c - seen"
      using log_loop_Some [OF Some] by blast
    have id: "c_id c = i" using "2.prems"(1) Some by (simp add: ids_ok_def)
    have "distinct (q @ new)" "set (q @ new) \<subseteq> seen \<union> set new" using new "2.prems"(2,3) by auto
    note ok = "2.IH"(2) [OF Some visit [symmetric] "2.prems"(1) this]
    show ?thesis
      unfolding loop by (rule log_ok_Cons [OF ok Some id new(2)]) (use "2.prems"(2,3) in auto)
  qed
qed

lemma log_from_head:
  assumes wf: "v_wf s" and h: "map_of (v_branches s) (v_current s) = Some h"
  shows "c \<in> set (v_log s) \<Longrightarrow> map_of (v_commits s) (c_id c) = Some c" "distinct (map c_id (v_log s))"
     "c_id ` set (v_log s) = (parent_rel (v_commits s))\<^sup>* `` {h}" "\<exists>c cs. v_log s = c # cs \<and> c_id c = h"
proof -
  let ?cs = "v_commits s" and ?R = "parent_rel (v_commits s)"
  have ids: "ids_ok ?cs" using v_wfD(1) [OF wf] by (simp add: ids_ok_def)
  have log: "v_log s = log_loop ?cs [h] {h}" by (simp add: v_log_def h)
  have ok: "log_ok ?cs [h] {h} (v_log s)" unfolding log by (rule log_loop_spec [OF ids]) simp_all
  obtain d where d: "map_of ?cs h = Some d" using v_wfD(3) [OF wf h] by blast
  have head: "\<exists>cs. v_log s = d # cs" using d by (auto simp: log split: prod.splits)
  have id: "c_id d = h" by (rule v_wfD(1) [OF wf d])
  show "\<exists>c cs. v_log s = c # cs \<and> c_id c = h" using head id by blast
  show "c \<in> set (v_log s) \<Longrightarrow> map_of (v_commits s) (c_id c) = Some c" by (rule log_okD(1) [OF ok])
  show "distinct (map c_id (v_log s))" by (rule log_okD(3) [OF ok])
  have stored: "\<exists>e. map_of ?cs b = Some e" if "(a, b) \<in> ?R" for a b
    using that v_wfD(2) [OF wf] by (auto simp: parent_rel_def)
  have h_in: "h \<in> c_id ` set (v_log s)" using log_okD(5) [OF ok _ d] by simp
  have closed: "?R `` (c_id ` set (v_log s)) \<subseteq> c_id ` set (v_log s)"
  proof
    fix b assume "b \<in> ?R `` (c_id ` set (v_log s))"
    then obtain a where a: "a \<in> c_id ` set (v_log s)" "(a, b) \<in> ?R" by blast
    show "b \<in> c_id ` set (v_log s)" using log_okD(6) [OF ok a] h_in stored [OF a(2)] by auto
  qed
  show "c_id ` set (v_log s) = ?R\<^sup>* `` {h}"
  proof (rule subset_antisym)
    show "c_id ` set (v_log s) \<subseteq> ?R\<^sup>* `` {h}" using log_okD(2) [OF ok] by auto
    show "?R\<^sup>* `` {h} \<subseteq> c_id ` set (v_log s)"
    proof
      fix x assume "x \<in> ?R\<^sup>* `` {h}"
      then have "(h, x) \<in> ?R\<^sup>*" by simp
      then show "x \<in> c_id ` set (v_log s)" by (rule closed_rtrancl [OF closed h_in])
    qed
  qed
qed

section \<open>The union of snapshots\<close>

lemma union_into_get:
  "map_of (union_into a b) k = (case map_of a k of Some v \<Rightarrow> Some v | None \<Rightarrow> map_of b k)"
  unfolding union_into_def
  by (induction b arbitrary: a) (auto simp: bm_or_insert_get split: option.splits)

lemma union_into_wf: "bm_wf a \<Longrightarrow> bm_wf (union_into a b)"
  unfolding union_into_def by (rule fold_invariant) auto

lemma union_into_entries:
  assumes "bm_wf a" "bm_wf b" "\<forall>(k, v) \<in> set a. P k v" "\<forall>(k, v) \<in> set b. P k v"
  shows "\<forall>(k, v) \<in> set (union_into a b). P k v"
proof (intro ballI, clarify)
  fix k v assume "(k, v) \<in> set (union_into a b)"
  then have "map_of (union_into a b) k = Some v"
    using bm_set_iff [OF union_into_wf [OF assms(1)]] by blast
  then have "(k, v) \<in> set a \<or> (k, v) \<in> set b"
    by (auto simp: union_into_get split: option.splits dest: map_of_SomeD)
  then show "P k v" using assms(3,4) by auto
qed

lemma ont_wf_merge:
  assumes "ont_wf a" "ont_wf b"
  shows "ont_wf (merge_snapshots a b strategy)"
proof (cases strategy)
  case Union
  have a: "bm_wf (o_nodes a)" "\<forall>(k, n) \<in> set (o_nodes a). n_id n = k"
      "bm_wf (o_edges a)" "\<forall>(k, e) \<in> set (o_edges a). e_id e = k"
      "bm_wf (o_axioms a)" "\<forall>(k, x) \<in> set (o_axioms a). ax_id x = k" "bm_wf (o_vocab a)" "schema_wf (o_schema a)"
    and b: "bm_wf (o_nodes b)" "\<forall>(k, n) \<in> set (o_nodes b). n_id n = k"
      "bm_wf (o_edges b)" "\<forall>(k, e) \<in> set (o_edges b). e_id e = k"
      "bm_wf (o_axioms b)" "\<forall>(k, x) \<in> set (o_axioms b). ax_id x = k" "schema_wf (o_schema b)"
    using assms by (simp_all add: ont_wf_def)
  have sa: "bm_wf (s_node_types (o_schema a))" "\<forall>(k, t) \<in> set (s_node_types (o_schema a)). nt_name t = k"
      "bm_wf (s_edge_types (o_schema a))" "\<forall>(k, t) \<in> set (s_edge_types (o_schema a)). et_name t = k"
    and sb: "bm_wf (s_node_types (o_schema b))" "\<forall>(k, t) \<in> set (s_node_types (o_schema b)). nt_name t = k"
      "bm_wf (s_edge_types (o_schema b))" "\<forall>(k, t) \<in> set (s_edge_types (o_schema b)). et_name t = k"
    using a(8) b(7) by (simp_all add: schema_wf_def)
  have "schema_wf \<lparr>s_node_types = union_into (s_node_types (o_schema a)) (s_node_types (o_schema b)),
      s_edge_types = union_into (s_edge_types (o_schema a)) (s_edge_types (o_schema b))\<rparr>"
    using union_into_wf [OF sa(1)] union_into_wf [OF sa(3)]
      union_into_entries [OF sa(1) sb(1) sa(2) sb(2)] union_into_entries [OF sa(3) sb(3) sa(4) sb(4)]
    by (simp add: schema_wf_def)
  then show ?thesis
    using union_into_wf [OF a(1)] union_into_wf [OF a(3)] union_into_wf [OF a(5)] a(7)
      union_into_entries [OF a(1) b(1) a(2) b(2)] union_into_entries [OF a(3) b(3) a(4) b(4)]
      union_into_entries [OF a(5) b(5) a(6) b(6)]
    by (simp add: Union merge_snapshots_def ont_wf_def)
qed (use assms in \<open>simp_all add: merge_snapshots_def\<close>)

lemma reg_head_ops:
  "reg_head (snd (reg_create n h r)) m = (if m = n \<and> reg_head r n = None then Some h else reg_head r m)"
  "reg_head (snd (reg_move_to n h r)) m = (if m = n \<and> reg_head r n \<noteq> None then Some h else reg_head r m)"
  "fst (reg_create n h r) \<longleftrightarrow> reg_head r n = None" "fst (reg_move_to n h r) \<longleftrightarrow> reg_head r n \<noteq> None"
  by (auto simp: reg_create_def reg_move_to_def reg_head_def bm_contains_def split: option.splits)

lemma commit_new_sel [simp]:
  "c_id (commit_new H to_vec p q m a t s act) = compute_id H to_vec p m s"
  "c_parent (commit_new H to_vec p q m a t s act) = p" "c_second (commit_new H to_vec p q m a t s act) = q"
  "c_snapshot (commit_new H to_vec p q m a t s act) = s" "c_message (commit_new H to_vec p q m a t s act) = m"
  by (simp_all add: commit_new_def)

lemma v_append_sel [simp]:
  "map_of (v_commits (v_append c s)) i = (if i = c_id c then Some c else map_of (v_commits s) i)"
  "map_of (v_branches (v_append c s)) b = (if b = v_current s then Some (c_id c) else map_of (v_branches s) b)"
  "v_current (v_append c s) = v_current s"
  by (simp_all add: v_append_def)

section \<open>Properties\<close>

text \<open>
  C19: In every store reached from \<open>init\<close> by commits, branches, checkouts and merges, failed ones
  included, each commit is stored under its own id, all parents and all heads are stored commits,
  and the current branch has a head unless no commit was ever made.
\<close>

theorem reachable_history_wf:
  assumes "(v_step H to_vec hexe)\<^sup>*\<^sup>* v_init s"
  shows "v_wf s"
  using assms
proof (induction rule: rtranclp_induct)
  case base
  show ?case by (rule v_wf_init)
next
  case (step s t)
  then show ?case by (blast intro: v_wf_step)
qed

text \<open>
  \<open>log\<close> lists, starting with the head of the current branch, exactly the ancestors of the head
  through both parent links, each once and as the store holds it.
\<close>

theorem log_lists_ancestors:
  assumes "v_wf s" "v_head_id s = Some h"
  shows "\<exists>rest. map c_id (v_log s) = h # rest \<and> distinct (h # rest) \<and>
     set (h # rest) = {i. (h, i) \<in> (parent_rel (v_commits s))\<^sup>*} \<and>
     (\<forall>c \<in> set (v_log s). commit_at s (c_id c) = Some c)"
proof -
  have h: "map_of (v_branches s) (v_current s) = Some h" using assms(2) by (simp add: v_head_id_def)
  note log = log_from_head [OF assms(1) h]
  obtain c cs where cs: "v_log s = c # cs" "c_id c = h" using log(4) by blast
  have "set (map c_id (v_log s)) = {i. (h, i) \<in> (parent_rel (v_commits s))\<^sup>*}"
    unfolding set_map log(3) by auto
  moreover have "\<forall>c \<in> set (v_log s). commit_at s (c_id c) = Some c" using log(1) by (simp add: commit_at_def)
  ultimately show ?thesis using log(2) cs by (intro exI [of _ "map c_id cs"]) simp
qed

text \<open>
  C4: In a well-formed store a merge fails exactly for a branch merged into itself, an unknown
  branch, or a branch with the same head, and then changes nothing. Otherwise the heads differ and the current branch,
  and no other, moves to a commit whose parents are the two heads in this order and whose snapshot merges theirs; the
  current branch stays checked out, and every other commit is as it was.
\<close>

theorem merge_outcomes:
  assumes "v_wf s" "v_merge H to_vec hexe now other strategy s = (r, s')"
  shows "case r of
       Inl e \<Rightarrow> s' = s \<and>
         (e = SelfMerge other \<and> other = v_current s \<or>
          e = UnknownBranch other \<and> other \<noteq> v_current s \<and> map_of (v_branches s) other = None \<or>
          e = NothingToMerge other \<and> other \<noteq> v_current s \<and> map_of (v_branches s) other = v_head_id s)
     | Inr i \<Rightarrow> \<exists>ch oh a b c. other \<noteq> v_current s \<and> v_head_id s = Some ch \<and> map_of (v_branches s) other = Some oh \<and> ch \<noteq> oh \<and>
         as_of s ch = Some a \<and> as_of s oh = Some b \<and> commit_at s' i = Some c \<and>
         c_parent c = Some ch \<and> c_second c = Some oh \<and> c_snapshot c = merge_snapshots a b strategy \<and>
         v_current s' = v_current s \<and> v_head_id s' = Some i \<and>
         (\<forall>n. n \<noteq> v_current s \<longrightarrow> map_of (v_branches s') n = map_of (v_branches s) n) \<and>
         (\<forall>j. j \<noteq> i \<longrightarrow> commit_at s' j = commit_at s j)"
proof (cases "other = v_current s \<or> map_of (v_branches s) other = None \<or> map_of (v_branches s) other = v_head_id s")
  case True
  then show ?thesis
    using assms(2) unfolding v_merge_outcome [OF assms(1)]
    by (auto simp: v_head_id_def split: option.splits if_splits)
next
  case False
  then obtain oh where oh: "map_of (v_branches s) other = Some oh" by auto
  obtain theirs where theirs: "map_of (v_commits s) oh = Some theirs" using v_wfD(3) [OF assms(1) oh] by blast
  obtain ch where ch: "map_of (v_branches s) (v_current s) = Some ch" using v_wfD(4) [OF assms(1) oh] by blast
  obtain ours where ours: "map_of (v_commits s) ch = Some ours" using v_wfD(3) [OF assms(1) ch] by blast
  have ids: "c_id ours = ch" "c_id theirs = oh" using v_wfD(1) [OF assms(1)] ours theirs by blast+
  let ?c = "merge_commit H to_vec hexe now other (v_current s) strategy ours theirs"
  have r: "r = Inr (c_id ?c)" "s' = v_append ?c s"
    using assms(2) False unfolding v_merge_outcome [OF assms(1)]
    by (auto simp: oh theirs v_head_def ch ours v_head_id_def Let_def)
  have ne: "other \<noteq> v_current s" "ch \<noteq> oh" using False oh ch by (auto simp: v_head_id_def)
  show ?thesis
    unfolding r sum.case
    by (intro exI [of _ ch] exI [of _ oh] exI [of _ "c_snapshot ours"] exI [of _ "c_snapshot theirs"] exI [of _ ?c])
      (simp add: v_head_id_def ch oh as_of_def ours theirs commit_at_def ne, simp add: merge_commit_def ids Let_def)
qed

text \<open>
  A union merge keeps every node, edge, axiom and declared type of either side, ours winning on
  equal keys, keeps our IRI and vocabulary, and stays well formed.
\<close>

theorem union_merge:
  assumes "ont_wf a" "ont_wf b"
  shows "ont_wf (merge_snapshots a b Union) \<and>
     (\<forall>i. ont_node (merge_snapshots a b Union) i = (case ont_node a i of Some n \<Rightarrow> Some n | None \<Rightarrow> ont_node b i)) \<and>
     (\<forall>i. ont_edge (merge_snapshots a b Union) i = (case ont_edge a i of Some e \<Rightarrow> Some e | None \<Rightarrow> ont_edge b i)) \<and>
     (\<forall>i. map_of (o_axioms (merge_snapshots a b Union)) i =
        (case map_of (o_axioms a) i of Some x \<Rightarrow> Some x | None \<Rightarrow> map_of (o_axioms b) i)) \<and>
     (\<forall>t. node_type (o_schema (merge_snapshots a b Union)) t =
        (case node_type (o_schema a) t of Some x \<Rightarrow> Some x | None \<Rightarrow> node_type (o_schema b) t)) \<and>
     (\<forall>t. edge_type (o_schema (merge_snapshots a b Union)) t =
        (case edge_type (o_schema a) t of Some x \<Rightarrow> Some x | None \<Rightarrow> edge_type (o_schema b) t)) \<and>
     o_iri (merge_snapshots a b Union) = o_iri a \<and> o_vocab (merge_snapshots a b Union) = o_vocab a"
  by (rule conjI, rule ont_wf_merge [OF assms])
    (simp add: merge_snapshots_def ont_node_def ont_edge_def node_type_def edge_type_def union_into_get cong: option.case_cong)

text \<open>
  A commit whose id is new records the snapshot under it, links it to the previous head, moves
  only the current branch, and leaves what \<open>as_of\<close> returns for every earlier commit as it was.
\<close>

theorem fresh_commit_keeps_history:
  assumes "v_commit H to_vec now message author snap s = (i, s')" "commit_at s i = None"
  shows "as_of s' i = Some snap \<and> v_head_id s' = Some i \<and>
     map_option c_parent (commit_at s' i) = Some (v_head_id s) \<and>
     (\<forall>j x. as_of s j = Some x \<longrightarrow> as_of s' j = Some x) \<and>
     (\<forall>n. n \<noteq> v_current s \<longrightarrow> map_of (v_branches s') n = map_of (v_branches s) n)"
proof -
  let ?c = "commit_new H to_vec (v_head_id s) None message author now snap None"
  from assms(1) have "i = c_id ?c" "s' = v_append ?c s" by (auto simp: v_commit_as_append Let_def)
  with assms(2) show ?thesis by (auto simp: as_of_def v_head_id_def commit_at_def)
qed

text \<open>
  Commit ids address content where the snapshot serialises: when two snapshots have NUL-free
  JSON texts and the hash does not collide on the two inputs, equal commit ids mean equal parents,
  messages and JSON texts.
\<close>

theorem commit_id_determines_content:
  assumes "to_vec s = Some b" "to_vec s' = Some b'" "0 \<notin> set b" "0 \<notin> set b'"
    "\<And>q. q \<in> set_option p \<union> set_option p' \<Longrightarrow> length (commit_id_bytes q) = 32 \<and> commit_id_bytes q \<noteq> replicate 32 0"
    "H ''atomr-ontology-version/CommitId/v1'' (commit_input to_vec p m s) =
       H ''atomr-ontology-version/CommitId/v1'' (commit_input to_vec p' m' s') \<Longrightarrow>
     commit_input to_vec p m s = commit_input to_vec p' m' s'"
    "compute_id H to_vec p m s = compute_id H to_vec p' m' s'"
  shows "p = p' \<and> m = m' \<and> b = b'"
proof -
  let ?pb = "\<lambda>p. case p of Some q \<Rightarrow> commit_id_bytes q | None \<Rightarrow> replicate 32 0"
  have len: "length (?pb p) = 32" "length (?pb p') = 32" using assms(5) by (auto split: option.splits)
  have "commit_input to_vec p m s = commit_input to_vec p' m' s'"
    using assms(6,7) by (simp add: compute_id_def)
  then have "?pb p @ (str_bytes m @ [0] @ b) = ?pb p' @ (str_bytes m' @ [0] @ b')"
    using assms(1,2) by (simp add: commit_input_def)
  then have eqs: "?pb p = ?pb p'" "str_bytes m @ [0] @ b = str_bytes m' @ [0] @ b'"
    using len by (metis append_eq_append_conv)+
  from eqs(2) have "rev b @ 0 # rev (str_bytes m) = rev b' @ 0 # rev (str_bytes m')"
    by (metis append.assoc rev_append append_Cons append_Nil rev_singleton_conv)
  then have "rev b = rev b' \<and> rev (str_bytes m) = rev (str_bytes m')"
    using assms(3,4) by (intro first_sep_unique) simp_all
  moreover have "p = p'" using eqs(1) assms(5) by (auto split: option.splits intro: commit_id.expand)
  ultimately show ?thesis by simp
qed

text \<open>
  \<open>serde_json\<close> refuses a map whose keys are not strings, and the maps of nodes, edges and axioms
  are keyed by 32-byte ids.
\<close>

definition rejects_id_keys :: "json_to_vec \<Rightarrow> bool" where
  "rejects_id_keys to_vec \<longleftrightarrow>
     (\<forall>o'. o_nodes o' \<noteq> [] \<or> o_edges o' \<noteq> [] \<or> o_axioms o' \<noteq> [] \<longrightarrow> to_vec o' = None)"

text \<open>
  \<open>serde_json\<close> refuses id-keyed maps, so the snapshot does not enter the id of a commit that
  holds any node: two branches with the same head that commit different snapshots under the same
  message get the same commit id, and the second commit replaces the first, so the first branch now
  holds the second's snapshot.
\<close>

theorem same_message_commit_overwrites:
  assumes "rejects_id_keys to_vec" "o_nodes A \<noteq> []" "o_nodes B \<noteq> []"
    "other \<noteq> v_current s" "map_of (v_branches s) other = v_head_id s" "v_head_id s = Some h"
    "v_commit H to_vec t1 message author1 A s = (i, s1)" "v_checkout other s1 = (r, s2)"
    "v_commit H to_vec t2 message author2 B s2 = (j, s3)"
  shows "j = i \<and> as_of s1 i = Some A \<and> as_of s3 i = Some B \<and>
     map_of (v_branches s3) (v_current s) = Some i \<and> map_of (v_branches s3) other = Some i"
proof -
  have "to_vec A = None" "to_vec B = None" using assms(1-3) by (simp_all add: rejects_id_keys_def)
  then have same: "compute_id H to_vec p message A = compute_id H to_vec p message B" for p
    by (simp add: compute_id_def commit_input_def)
  have s1: "s1 = v_append (commit_new H to_vec (v_head_id s) None message author1 t1 A None) s"
    and i: "i = compute_id H to_vec (v_head_id s) message A"
    using assms(7) by (auto simp: v_commit_as_append Let_def)
  have "map_of (v_branches s1) other = v_head_id s" using assms(4,5) by (simp add: s1)
  then have s2: "s2 = s1\<lparr>v_current := other\<rparr>" "v_head_id s2 = v_head_id s"
    using assms(6,8) by (auto simp: v_checkout_def bm_contains_def v_head_id_def split: if_splits)
  have s3: "s3 = v_append (commit_new H to_vec (v_head_id s) None message author2 t2 B None) s2"
    and j: "j = compute_id H to_vec (v_head_id s) message B"
    using assms(9) s2(2) by (auto simp: v_commit_as_append Let_def)
  show ?thesis using assms(4) by (simp add: s3 s2(1) s1 i j same as_of_def)
qed

section \<open>Instances\<close>

definition ex_H :: hasher where [code_defs]: "ex_H c x = x"

definition ex_node_ont :: "byte \<Rightarrow> ontology" where
  [code_defs]: "ex_node_ont b = upsert_node \<lparr>n_id = NodeId [b], n_iri = None, n_types = [], n_props = []\<rparr> ontology_new"

definition ex_root :: vstore where
  [code_defs]: "ex_root = snd (v_branch ''f'' (snd (v_commit ex_H (\<lambda>_. None) 0 ''r'' ''a'' ontology_new v_init)))"

lemma ex_root_reachable: "(v_step ex_H (\<lambda>_. None) ex_hexe)\<^sup>*\<^sup>* v_init ex_root"
  unfolding ex_root_def
  by (rule rtranclp.rtrancl_into_rtrancl [OF rtranclp.rtrancl_into_rtrancl [OF rtranclp.rtrancl_refl]])
    (rule step_commit, rule step_branch)

lemma ex_root_wf: "v_wf ex_root"
  unfolding ex_root_def by (intro v_wf_branch v_wf_commit v_wf_init)

lemma ex_root_heads: "map_of (v_branches ex_root) ''f'' = v_head_id ex_root" "v_current ex_root = ''main''"
  "\<exists>h. v_head_id ex_root = Some h"
  by (simp_all add: ex_root_def v_branch_def v_commit_def v_init_def v_append_def v_head_id_def bm_contains_def Let_def)

lemma reachable_history_wf_witness: "v_wf ex_root"
  by (rule reachable_history_wf [OF ex_root_reachable])

lemma log_lists_ancestors_witness:
  "\<exists>h rest. map c_id (v_log ex_root) = h # rest \<and> distinct (h # rest)"
proof -
  obtain h where "v_head_id ex_root = Some h" using ex_root_heads(3) by blast
  from log_lists_ancestors [OF ex_root_wf this] obtain rest
    where "map c_id (v_log ex_root) = h # rest" "distinct (h # rest)" by (elim exE conjE)
  then show ?thesis by (intro exI conjI)
qed

lemma merge_outcomes_witness:
  "v_merge ex_H (\<lambda>_. None) ex_hexe 0 ''f'' Union ex_root = (Inl (NothingToMerge ''f''), ex_root)"
proof -
  obtain r s' where m: "v_merge ex_H (\<lambda>_. None) ex_hexe 0 ''f'' Union ex_root = (r, s')" by force
  from merge_outcomes [OF ex_root_wf m] show ?thesis
  proof (cases r)
    case (Inl e)
    then show ?thesis using merge_outcomes [OF ex_root_wf m] m ex_root_heads by auto
  next
    case (Inr i)
    then show ?thesis using merge_outcomes [OF ex_root_wf m] ex_root_heads by (auto simp: v_head_id_def)
  qed
qed

lemma union_merge_witness:
  "ont_node (merge_snapshots (ex_node_ont 1) (ex_node_ont 2) Union) (NodeId [2]) \<noteq> None"
proof -
  have "ont_wf (ex_node_ont 1)" "ont_wf (ex_node_ont 2)" by (simp_all add: ex_node_ont_def)
  from union_merge [OF this] show ?thesis by (simp add: ex_node_ont_def)
qed

lemma fresh_commit_keeps_history_witness:
  "as_of (snd (v_commit ex_H (\<lambda>_. None) 0 ''m'' ''a'' (ex_node_ont 1) v_init))
     (fst (v_commit ex_H (\<lambda>_. None) 0 ''m'' ''a'' (ex_node_ont 1) v_init)) = Some (ex_node_ont 1)"
  using fresh_commit_keeps_history [OF surjective_pairing,
      where H = ex_H and to_vec = "\<lambda>_. None" and now = 0 and message = "''m''" and author = "''a''"
        and snap = "ex_node_ont 1" and s = v_init]
  by (simp add: commit_at_def v_init_def)

lemma commit_id_determines_content_witness:
  "(None :: commit_id option) = None \<and> ''m'' = ''m'' \<and> [1 :: byte] = [1]"
  by (rule commit_id_determines_content [where H = ex_H and to_vec = "\<lambda>_. Some [1]"
        and s = ontology_new and s' = ontology_new]) (simp_all add: ex_H_def)

lemma same_message_commit_overwrites_witness:
  "\<exists>i s3. as_of s3 i = Some (ex_node_ont 2) \<and> map_of (v_branches s3) ''main'' = Some i"
proof -
  obtain h where h: "v_head_id ex_root = Some h" using ex_root_heads(3) by blast
  obtain i s1 where 1: "v_commit ex_H (\<lambda>_. None) 1 ''wip'' ''a'' (ex_node_ont 1) ex_root = (i, s1)" by force
  obtain r s2 where 2: "v_checkout ''f'' s1 = (r, s2)" by force
  obtain j s3 where 3: "v_commit ex_H (\<lambda>_. None) 2 ''wip'' ''b'' (ex_node_ont 2) s2 = (j, s3)" by force
  have ne: "o_nodes (ex_node_ont b) \<noteq> []" for b by (simp add: ex_node_ont_def ontology_new_def)
  have rej: "rejects_id_keys (\<lambda>_. None)" by (simp add: rejects_id_keys_def)
  have "''f'' \<noteq> v_current ex_root" by (simp add: ex_root_heads)
  from same_message_commit_overwrites [OF rej ne ne this ex_root_heads(1) h 1 2 3]
  show ?thesis by (auto simp: ex_root_heads)
qed

end
