(* ===== verification/Reason_Rules.thy ===== *)
theory Reason_Rules
  imports Provenance
begin

text \<open>
  \<open>crates/atomr-ontology-reason/src/rules.rs\<close>: the seven forward-chaining rules over the sorted
  indices the code builds, and rule sets. Each rule is characterised by the axiom kinds
  (\<open>new_kinds\<close>) or edge triples (\<open>new_triples\<close>) it emits.
\<close>

record rule_output =
  ro_axioms :: "axiom_rec list"
  ro_edges :: "edge list"

definition ro_empty :: rule_output where
  [code_defs]: "ro_empty = \<lparr>ro_axioms = [], ro_edges = []\<rparr>"

definition ro_is_empty :: "rule_output \<Rightarrow> bool" where
  [code_defs]: "ro_is_empty out \<longleftrightarrow> ro_axioms out = [] \<and> ro_edges out = []"

datatype rule =
    SubClassTransitivity
  | EquivalentSymmetry
  | EquivalentToSubClass
  | InverseOfSymmetry
  | PropertySymmetry
  | PropertyTransitivity
  | InverseOfMaterializes

definition rules_standard :: "rule list" where
  [code_defs]: "rules_standard =
     [SubClassTransitivity, EquivalentSymmetry, EquivalentToSubClass, InverseOfSymmetry,
      PropertySymmetry, PropertyTransitivity, InverseOfMaterializes]"

definition rules_with :: "rule \<Rightarrow> rule list \<Rightarrow> rule list" where
  [code_defs]: "rules_with r rs = rs @ [r]"

section \<open>Rule bodies\<close>

definition subclass_index :: "ontology \<Rightarrow> (string, string list) bmap" where
  [code_defs]: "subclass_index o' =
     fold (\<lambda>k m. case k of SubClassOf sub super \<Rightarrow> idx_insert sub super m | _ \<Rightarrow> m) (axiom_kinds o') []"

definition subclass_transitivity :: "hasher \<Rightarrow> ontology \<Rightarrow> rule_output" where
  [code_defs]: "subclass_transitivity H o' =
     (let by_sub = subclass_index o'
      in \<lparr>ro_axioms =
            concat (map (\<lambda>(sub, sups).
              concat (map (\<lambda>super.
                (case map_of by_sub super of
                   None \<Rightarrow> []
                 | Some grandsups \<Rightarrow>
                     map (\<lambda>grand. axiom_new H (SubClassOf sub grand))
                       (filter (\<lambda>grand. grand \<noteq> sub \<and> grand \<notin> set sups) grandsups))) sups)) by_sub),
          ro_edges = []\<rparr>)"

definition equivalent_pairs :: "ontology \<Rightarrow> (string \<times> string) list" where
  [code_defs]: "equivalent_pairs o' =
     fold (\<lambda>k s. case k of EquivalentClass l r \<Rightarrow> bs_insert (l, r) s | _ \<Rightarrow> s) (axiom_kinds o') []"

definition equivalent_symmetry :: "hasher \<Rightarrow> ontology \<Rightarrow> rule_output" where
  [code_defs]: "equivalent_symmetry H o' =
     (let existing = equivalent_pairs o'
      in \<lparr>ro_axioms = map (\<lambda>(l, r). axiom_new H (EquivalentClass r l))
             (filter (\<lambda>(l, r). (r, l) \<notin> set existing) existing),
          ro_edges = []\<rparr>)"

definition subclass_pairs :: "ontology \<Rightarrow> (string \<times> string) list" where
  [code_defs]: "subclass_pairs o' =
     fold (\<lambda>k s. case k of SubClassOf a b \<Rightarrow> bs_insert (a, b) s | _ \<Rightarrow> s) (axiom_kinds o') []"

definition equivalent_vec :: "ontology \<Rightarrow> (string \<times> string) list" where
  [code_defs]: "equivalent_vec o' =
     concat (map (\<lambda>k. case k of EquivalentClass l r \<Rightarrow> [(l, r)] | _ \<Rightarrow> []) (axiom_kinds o'))"

definition equivalent_to_subclass :: "hasher \<Rightarrow> ontology \<Rightarrow> rule_output" where
  [code_defs]: "equivalent_to_subclass H o' =
     (let subclasses = subclass_pairs o'
      in \<lparr>ro_axioms = concat (map (\<lambda>(l, r).
             (if (l, r) \<notin> set subclasses then [axiom_new H (SubClassOf l r)] else []) @
             (if (r, l) \<notin> set subclasses then [axiom_new H (SubClassOf r l)] else []))
             (equivalent_vec o')),
          ro_edges = []\<rparr>)"

definition inverse_pairs :: "ontology \<Rightarrow> (string \<times> string) list" where
  [code_defs]: "inverse_pairs o' =
     fold (\<lambda>k s. case k of InverseOf l r \<Rightarrow> bs_insert (l, r) s | _ \<Rightarrow> s) (axiom_kinds o') []"

definition inverse_of_symmetry :: "hasher \<Rightarrow> ontology \<Rightarrow> rule_output" where
  [code_defs]: "inverse_of_symmetry H o' =
     (let existing = inverse_pairs o'
      in \<lparr>ro_axioms = map (\<lambda>(l, r). axiom_new H (InverseOf r l))
             (filter (\<lambda>(l, r). (r, l) \<notin> set existing) existing),
          ro_edges = []\<rparr>)"

definition edge_triple :: "edge \<Rightarrow> string \<times> node_id \<times> node_id" where
  [code_defs]: "edge_triple e = (e_label e, e_source e, e_target e)"

definition existing_triples :: "ontology \<Rightarrow> (string \<times> node_id \<times> node_id) list" where
  [code_defs]: "existing_triples o' = fold (\<lambda>e s. bs_insert (edge_triple e) s) (bm_values (o_edges o')) []"

definition symmetric_props :: "ontology \<Rightarrow> string list" where
  [code_defs]: "symmetric_props o' =
     fold (\<lambda>k s. case k of Symmetric p \<Rightarrow> bs_insert p s | _ \<Rightarrow> s) (axiom_kinds o') []"

definition property_symmetry :: "hasher \<Rightarrow> ontology \<Rightarrow> rule_output" where
  [code_defs]: "property_symmetry H o' =
     (let symmetric = symmetric_props o'
      in if symmetric = [] then ro_empty
         else let existing = existing_triples o'
              in \<lparr>ro_axioms = [],
                  ro_edges = map (\<lambda>e. edge_between H (e_target e) (e_label e) (e_source e))
                    (filter (\<lambda>e. e_label e \<in> set symmetric \<and> (e_label e, e_target e, e_source e) \<notin> set existing)
                      (bm_values (o_edges o')))\<rparr>)"

definition transitive_props :: "ontology \<Rightarrow> string list" where
  [code_defs]: "transitive_props o' =
     fold (\<lambda>k s. case k of Transitive p \<Rightarrow> bs_insert p s | _ \<Rightarrow> s) (axiom_kinds o') []"

definition idx2_get :: "(string, (node_id, node_id list) bmap) bmap \<Rightarrow> string \<Rightarrow> (node_id, node_id list) bmap" where
  [code_defs]: "idx2_get m l = (case map_of m l of Some i \<Rightarrow> i | None \<Rightarrow> [])"

definition label_source_index :: "ontology \<Rightarrow> string list \<Rightarrow> (string, (node_id, node_id list) bmap) bmap" where
  [code_defs]: "label_source_index o' transitive =
     fold (\<lambda>e m. if e_label e \<in> set transitive
                 then bm_insert (e_label e)
                   (idx_push (e_source e) (e_target e) (idx2_get m (e_label e))) m
                 else m) (bm_values (o_edges o')) []"

definition property_transitivity :: "hasher \<Rightarrow> ontology \<Rightarrow> rule_output" where
  [code_defs]: "property_transitivity H o' =
     (let transitive = transitive_props o'
      in if transitive = [] then ro_empty
         else let by_label = label_source_index o' transitive; existing = existing_triples o'
              in \<lparr>ro_axioms = [],
                  ro_edges =
                    concat (map (\<lambda>(label, by_source).
                      concat (map (\<lambda>(a, bs).
                        concat (map (\<lambda>b.
                          (case map_of by_source b of
                             None \<Rightarrow> []
                           | Some cs \<Rightarrow>
                               map (\<lambda>c. edge_between H a label c)
                                 (filter (\<lambda>c. a \<noteq> c \<and> (label, a, c) \<notin> set existing) cs))) bs)) by_source)) by_label)\<rparr>)"

definition inverse_index :: "ontology \<Rightarrow> (string, string list) bmap" where
  [code_defs]: "inverse_index o' =
     fold (\<lambda>k m. case k of InverseOf l r \<Rightarrow> idx_insert r l (idx_insert l r m) | _ \<Rightarrow> m) (axiom_kinds o') []"

definition inverse_of_materializes :: "hasher \<Rightarrow> ontology \<Rightarrow> rule_output" where
  [code_defs]: "inverse_of_materializes H o' =
     (let inverse_of = inverse_index o'
      in if inverse_of = [] then ro_empty
         else let existing = existing_triples o'
              in \<lparr>ro_axioms = [],
                  ro_edges = concat (map (\<lambda>e.
                    (case map_of inverse_of (e_label e) of
                       None \<Rightarrow> []
                     | Some inverses \<Rightarrow>
                         map (\<lambda>i. edge_between H (e_target e) i (e_source e))
                           (filter (\<lambda>i. (i, e_target e, e_source e) \<notin> set existing) inverses)))
                    (bm_values (o_edges o')))\<rparr>)"

definition rule_apply :: "hasher \<Rightarrow> rule \<Rightarrow> ontology \<Rightarrow> rule_output" where
  [code_defs]: "rule_apply H r o' =
     (case r of
        SubClassTransitivity \<Rightarrow> subclass_transitivity H o'
      | EquivalentSymmetry \<Rightarrow> equivalent_symmetry H o'
      | EquivalentToSubClass \<Rightarrow> equivalent_to_subclass H o'
      | InverseOfSymmetry \<Rightarrow> inverse_of_symmetry H o'
      | PropertySymmetry \<Rightarrow> property_symmetry H o'
      | PropertyTransitivity \<Rightarrow> property_transitivity H o'
      | InverseOfMaterializes \<Rightarrow> inverse_of_materializes H o')"

section \<open>What the indices hold\<close>

definition triples :: "ontology \<Rightarrow> (string \<times> node_id \<times> node_id) set" where
  "triples o' = edge_triple ` set (bm_values (o_edges o'))"

lemma idx_case: "(case map_of m k of None \<Rightarrow> [] | Some vs \<Rightarrow> f vs) = (if map_of m k = None then [] else f (idx_get m k))"
  by (simp add: idx_get_def split: option.splits)

lemma subclass_index_get: "set (idx_get (subclass_index o') a) = {b. SubClassOf a b \<in> kinds o'}"
  and subclass_index_wf: "bm_wf (subclass_index o')"
proof -
  have "set (idx_get (fold (\<lambda>k m. case k of SubClassOf sub super \<Rightarrow> idx_insert sub super m | _ \<Rightarrow> m) ks m) a) =
      set (idx_get m a) \<union> {b. SubClassOf a b \<in> set ks}" for ks m
    by (induction ks arbitrary: m) (auto split: axiom_kind.splits)
  then show "set (idx_get (subclass_index o') a) = {b. SubClassOf a b \<in> kinds o'}"
    by (simp add: subclass_index_def)
  show "bm_wf (subclass_index o')"
    unfolding subclass_index_def by (rule fold_invariant) (auto split: axiom_kind.splits)
qed

lemma set_pairs:
  "set (equivalent_pairs o') = {(l, r). EquivalentClass l r \<in> kinds o'}"
  "set (subclass_pairs o') = {(l, r). SubClassOf l r \<in> kinds o'}"
  "set (inverse_pairs o') = {(l, r). InverseOf l r \<in> kinds o'}"
  "set (symmetric_props o') = {p. Symmetric p \<in> kinds o'}"
  "set (transitive_props o') = {p. Transitive p \<in> kinds o'}"
  "set (equivalent_vec o') = {(l, r). EquivalentClass l r \<in> kinds o'}"
proof -
  have "set (fold (\<lambda>k s. case k of EquivalentClass l r \<Rightarrow> bs_insert (l, r) s | _ \<Rightarrow> s) ks s) =
      set s \<union> {(l, r). EquivalentClass l r \<in> set ks}" for ks s
    by (induction ks arbitrary: s) (auto split: axiom_kind.splits)
  then show "set (equivalent_pairs o') = {(l, r). EquivalentClass l r \<in> kinds o'}" by (simp add: equivalent_pairs_def)
  have "set (fold (\<lambda>k s. case k of SubClassOf l r \<Rightarrow> bs_insert (l, r) s | _ \<Rightarrow> s) ks s) =
      set s \<union> {(l, r). SubClassOf l r \<in> set ks}" for ks s
    by (induction ks arbitrary: s) (auto split: axiom_kind.splits)
  then show "set (subclass_pairs o') = {(l, r). SubClassOf l r \<in> kinds o'}" by (simp add: subclass_pairs_def)
  have "set (fold (\<lambda>k s. case k of InverseOf l r \<Rightarrow> bs_insert (l, r) s | _ \<Rightarrow> s) ks s) =
      set s \<union> {(l, r). InverseOf l r \<in> set ks}" for ks s
    by (induction ks arbitrary: s) (auto split: axiom_kind.splits)
  then show "set (inverse_pairs o') = {(l, r). InverseOf l r \<in> kinds o'}" by (simp add: inverse_pairs_def)
  have "set (fold (\<lambda>k s. case k of Symmetric p \<Rightarrow> bs_insert p s | _ \<Rightarrow> s) ks s) =
      set s \<union> {p. Symmetric p \<in> set ks}" for ks s
    by (induction ks arbitrary: s) (auto split: axiom_kind.splits)
  then show "set (symmetric_props o') = {p. Symmetric p \<in> kinds o'}" by (simp add: symmetric_props_def)
  have "set (fold (\<lambda>k s. case k of Transitive p \<Rightarrow> bs_insert p s | _ \<Rightarrow> s) ks s) =
      set s \<union> {p. Transitive p \<in> set ks}" for ks s
    by (induction ks arbitrary: s) (auto split: axiom_kind.splits)
  then show "set (transitive_props o') = {p. Transitive p \<in> kinds o'}" by (simp add: transitive_props_def)
  show "set (equivalent_vec o') = {(l, r). EquivalentClass l r \<in> kinds o'}"
    by (force simp: equivalent_vec_def split: axiom_kind.splits)
qed

lemma set_existing_triples: "set (existing_triples o') = triples o'"
proof -
  have "set (fold (\<lambda>e s. bs_insert (edge_triple e) s) es s) = set s \<union> edge_triple ` set es" for es s
    by (induction es arbitrary: s) auto
  then show ?thesis by (simp add: existing_triples_def triples_def)
qed

lemma inverse_index_get:
  "set (idx_get (inverse_index o') a) = {b. InverseOf a b \<in> kinds o' \<or> InverseOf b a \<in> kinds o'}"
proof -
  have "set (idx_get (fold (\<lambda>k m. case k of InverseOf l r \<Rightarrow> idx_insert r l (idx_insert l r m) | _ \<Rightarrow> m) ks m) a) =
      set (idx_get m a) \<union> {b. InverseOf a b \<in> set ks \<or> InverseOf b a \<in> set ks}" for ks m
    by (induction ks arbitrary: m) (auto split: axiom_kind.splits)
  then show ?thesis by (simp add: inverse_index_def)
qed

lemma split_paired_Bex_set: "(\<exists>e \<in> set m. P e) \<longleftrightarrow> (\<exists>k v. (k, v) \<in> set m \<and> P (k, v))"
  by auto

lemma in_concat_map: "x \<in> set (concat (map f xs)) \<longleftrightarrow> (\<exists>y \<in> set xs. x \<in> set (f y))"
  by simp

section \<open>What the rules emit\<close>

fun new_kinds :: "rule \<Rightarrow> axiom_kind set \<Rightarrow> axiom_kind set" where
  "new_kinds SubClassTransitivity K =
     {SubClassOf a c | a b c. SubClassOf a b \<in> K \<and> SubClassOf b c \<in> K \<and> c \<noteq> a \<and> SubClassOf a c \<notin> K}"
| "new_kinds EquivalentSymmetry K = {EquivalentClass b a | a b. EquivalentClass a b \<in> K \<and> EquivalentClass b a \<notin> K}"
| "new_kinds EquivalentToSubClass K =
     {SubClassOf a b | a b. (EquivalentClass a b \<in> K \<or> EquivalentClass b a \<in> K) \<and> SubClassOf a b \<notin> K}"
| "new_kinds InverseOfSymmetry K = {InverseOf b a | a b. InverseOf a b \<in> K \<and> InverseOf b a \<notin> K}"
| "new_kinds PropertySymmetry K = {}"
| "new_kinds PropertyTransitivity K = {}"
| "new_kinds InverseOfMaterializes K = {}"

fun new_triples :: "rule \<Rightarrow> axiom_kind set \<Rightarrow> (string \<times> node_id \<times> node_id) set \<Rightarrow> (string \<times> node_id \<times> node_id) set" where
  "new_triples SubClassTransitivity K T = {}"
| "new_triples EquivalentSymmetry K T = {}"
| "new_triples EquivalentToSubClass K T = {}"
| "new_triples InverseOfSymmetry K T = {}"
| "new_triples PropertySymmetry K T = {(p, b, a) | p a b. Symmetric p \<in> K \<and> (p, a, b) \<in> T \<and> (p, b, a) \<notin> T}"
| "new_triples PropertyTransitivity K T =
     {(p, a, c) | p a b c. Transitive p \<in> K \<and> (p, a, b) \<in> T \<and> (p, b, c) \<in> T \<and> a \<noteq> c \<and> (p, a, c) \<notin> T}"
| "new_triples InverseOfMaterializes K T =
     {(q, b, a) | p q a b. (InverseOf p q \<in> K \<or> InverseOf q p \<in> K) \<and> (p, a, b) \<in> T \<and> (q, b, a) \<notin> T}"

definition triple_edge :: "hasher \<Rightarrow> string \<times> node_id \<times> node_id \<Rightarrow> edge" where
  "triple_edge H t = (case t of (l, a, b) \<Rightarrow> edge_between H a l b)"

lemma triple_edge_eq [simp]: "triple_edge H (l, a, b) = edge_between H a l b"
  by (simp add: triple_edge_def)

lemma triplesI: "e \<in> set (bm_values (o_edges o')) \<Longrightarrow> (e_label e, e_source e, e_target e) \<in> triples o'"
  by (force simp: triples_def edge_triple_def)

lemma triplesE:
  assumes "(l, a, b) \<in> triples o'"
  obtains e where "e \<in> set (bm_values (o_edges o'))" "e_label e = l" "e_source e = a" "e_target e = b"
  using assms by (auto simp: triples_def edge_triple_def)

lemma subclass_transitivity_axioms:
  "set (ro_axioms (subclass_transitivity H o')) = axiom_new H ` new_kinds SubClassTransitivity (kinds o')"
proof (rule set_eqI)
  fix x
  let ?m = "subclass_index o'"
  have get: "map_of ?m a = Some vs \<Longrightarrow> set vs = {b. SubClassOf a b \<in> kinds o'}" for a vs
    using subclass_index_get [of o' a] by (simp add: idx_get_Some)
  have "x \<in> set (ro_axioms (subclass_transitivity H o')) \<longleftrightarrow>
      (\<exists>a vs b ws c. map_of ?m a = Some vs \<and> b \<in> set vs \<and> map_of ?m b = Some ws \<and> c \<in> set ws \<and> c \<noteq> a \<and>
         c \<notin> set vs \<and> x = axiom_new H (SubClassOf a c))"
    unfolding subclass_transitivity_def Let_def rule_output.simps in_concat_map
    by (simp only: split_paired_Bex_set case_prod_conv idx_entries [OF subclass_index_wf] in_concat_map in_case_option
        set_map set_filter image_iff mem_Collect_eq) blast
  also have "\<dots> \<longleftrightarrow> (\<exists>a b c. b \<in> set (idx_get ?m a) \<and> c \<in> set (idx_get ?m b) \<and> c \<noteq> a \<and>
      SubClassOf a c \<notin> kinds o' \<and> x = axiom_new H (SubClassOf a c))"
    unfolding idx_get_in using get by blast
  also have "\<dots> \<longleftrightarrow> x \<in> axiom_new H ` new_kinds SubClassTransitivity (kinds o')"
    unfolding subclass_index_get by auto
  finally show "x \<in> set (ro_axioms (subclass_transitivity H o')) \<longleftrightarrow>
      x \<in> axiom_new H ` new_kinds SubClassTransitivity (kinds o')" .
qed

lemma rule_axioms:
  "set (ro_axioms (rule_apply H r o')) = axiom_new H ` new_kinds r (kinds o')"
proof (cases r)
  case SubClassTransitivity
  then show ?thesis by (simp only: rule_apply_def rule.case subclass_transitivity_axioms)
next
  case EquivalentSymmetry
  show ?thesis
    unfolding EquivalentSymmetry by (auto simp: rule_apply_def equivalent_symmetry_def Let_def set_pairs image_iff) 
next
  case EquivalentToSubClass
  show ?thesis
    unfolding EquivalentToSubClass
    by (auto simp: rule_apply_def equivalent_to_subclass_def Let_def set_pairs image_iff split: if_splits)
next
  case InverseOfSymmetry
  show ?thesis
    unfolding InverseOfSymmetry by (auto simp: rule_apply_def inverse_of_symmetry_def Let_def set_pairs image_iff)
qed (simp_all add: rule_apply_def property_symmetry_def property_transitivity_def inverse_of_materializes_def
    ro_empty_def Let_def)

text \<open>The nested index of the transitivity rule.\<close>

definition idx2_wf :: "(string, (node_id, node_id list) bmap) bmap \<Rightarrow> bool" where
  "idx2_wf m \<longleftrightarrow> bm_wf m \<and> (\<forall>l. bm_wf (idx2_get m l))"

lemma label_source_index_wf: "idx2_wf (label_source_index o' ts)"
  unfolding label_source_index_def
proof (rule fold_invariant)
  show "idx2_wf []" by (simp add: idx2_wf_def idx2_get_def)
  fix e m assume wf: "idx2_wf m"
  let ?m = "bm_insert (e_label e) (idx_push (e_source e) (e_target e) (idx2_get m (e_label e))) m"
  have "idx2_get ?m l = (if l = e_label e then idx_push (e_source e) (e_target e) (idx2_get m l) else idx2_get m l)" for l
    by (simp add: idx2_get_def)
  then show "idx2_wf (if e_label e \<in> set ts then ?m else m)"
    using wf by (simp add: idx2_wf_def)
qed

lemma label_source_index_get:
  "set (idx_get (idx2_get (label_source_index o' ts) l) a) = {b. l \<in> set ts \<and> (l, a, b) \<in> triples o'}"
proof -
  let ?step = "\<lambda>e m. if e_label e \<in> set ts
      then bm_insert (e_label e) (idx_push (e_source e) (e_target e) (idx2_get m (e_label e))) m else m"
  have step: "set (idx_get (idx2_get (?step e m) l) a) =
      set (idx_get (idx2_get m l) a) \<union> {b. l \<in> set ts \<and> edge_triple e = (l, a, b)}" for e m
    by (auto simp: idx2_get_def edge_triple_def)
  have "set (idx_get (idx2_get (fold ?step es m) l) a) =
      set (idx_get (idx2_get m l) a) \<union> {b. l \<in> set ts \<and> (l, a, b) \<in> edge_triple ` set es}" for es m
    by (induction es arbitrary: m) (auto simp: step image_iff)
  moreover have "idx2_get [] l = []" by (simp add: idx2_get_def)
  ultimately show ?thesis by (simp add: label_source_index_def triples_def)
qed

lemma idx_bex_entries:
  "bm_wf i \<Longrightarrow> (\<exists>a bs. (a, bs) \<in> set i \<and> (\<exists>b \<in> set bs. P a b)) \<longleftrightarrow> (\<exists>a. \<exists>b \<in> set (idx_get i a). P a b)"
  by (simp only: idx_entries Bex_def idx_get_in) blast

lemma idx_bex_get: "(\<exists>cs. map_of i b = Some cs \<and> (\<exists>c \<in> {c \<in> set cs. Q c}. R c)) \<longleftrightarrow> (\<exists>c \<in> set (idx_get i b). Q c \<and> R c)"
  by (simp only: Bex_def idx_get_in mem_Collect_eq) blast

lemma idx2_bex: "(\<exists>i. map_of m l = Some i \<and> F i) \<longleftrightarrow> F (idx2_get m l)" if "\<not> F []"
  using that unfolding idx2_get_def by (cases "map_of m l") auto

lemma property_transitivity_edges:
  "set (ro_edges (property_transitivity H o')) = triple_edge H ` new_triples PropertyTransitivity (kinds o') (triples o')"
proof (cases "transitive_props o' = []")
  case True
  then have "Transitive p \<notin> kinds o'" for p using set_pairs(5) [of o'] by auto
  with True show ?thesis by (auto simp: property_transitivity_def ro_empty_def)
next
  case False
  let ?m = "label_source_index o' (transitive_props o')"
  have wf: "bm_wf ?m" "bm_wf i" if "map_of ?m l = Some i" for l i
    using label_source_index_wf [of o' "transitive_props o'"] that
    by (simp_all add: idx2_wf_def idx2_get_def) (metis option.simps(5))
  have wf': "bm_wf ?m" using label_source_index_wf [of o' "transitive_props o'"] by (simp add: idx2_wf_def)
  have get: "b \<in> set (idx_get (idx2_get ?m l) a) \<longleftrightarrow> Transitive l \<in> kinds o' \<and> (l, a, b) \<in> triples o'" for l a b
    by (simp add: label_source_index_get set_pairs)
  show ?thesis
  proof (rule set_eqI)
    fix x
    have "x \<in> set (ro_edges (property_transitivity H o')) \<longleftrightarrow>
        (\<exists>l i. map_of ?m l = Some i \<and> (\<exists>a bs. (a, bs) \<in> set i \<and> (\<exists>b \<in> set bs. \<exists>cs. map_of i b = Some cs \<and>
           (\<exists>c \<in> {c \<in> set cs. a \<noteq> c \<and> (l, a, c) \<notin> triples o'}. x = edge_between H a l c))))"
      using False unfolding property_transitivity_def Let_def
      by (simp only: if_False rule_output.simps in_concat_map split_paired_Bex_set case_prod_conv
          idx_entries [OF wf'] in_case_option set_map set_filter image_iff set_existing_triples)
    also have "\<dots> \<longleftrightarrow> (\<exists>l i. map_of ?m l = Some i \<and> (\<exists>a. \<exists>b \<in> set (idx_get i a). \<exists>c \<in> set (idx_get i b).
        (a \<noteq> c \<and> (l, a, c) \<notin> triples o') \<and> x = edge_between H a l c))"
      by (rule ex_cong1, rule ex_cong1, rule conj_cong, rule refl) (simp only: idx_bex_entries [OF wf(2)] idx_bex_get)
    also have "\<dots> \<longleftrightarrow> (\<exists>l a. \<exists>b \<in> set (idx_get (idx2_get ?m l) a). \<exists>c \<in> set (idx_get (idx2_get ?m l) b).
        (a \<noteq> c \<and> (l, a, c) \<notin> triples o') \<and> x = edge_between H a l c)"
      by (intro ex_cong1) (subst idx2_bex, simp_all)
    also have "\<dots> \<longleftrightarrow> (\<exists>t. t \<in> new_triples PropertyTransitivity (kinds o') (triples o') \<and> x = triple_edge H t)"
      unfolding Bex_def get new_triples.simps mem_Collect_eq
      by (rule iffI; elim exE conjE; hypsubst?; intro exI conjI; (assumption | rule refl | rule triple_edge_eq [symmetric] | simp))
    also have "\<dots> \<longleftrightarrow> x \<in> triple_edge H ` new_triples PropertyTransitivity (kinds o') (triples o')" by blast
    finally show "x \<in> set (ro_edges (property_transitivity H o')) \<longleftrightarrow>
        x \<in> triple_edge H ` new_triples PropertyTransitivity (kinds o') (triples o')" .
  qed
qed

lemma property_symmetry_edges:
  "set (ro_edges (property_symmetry H o')) = triple_edge H ` new_triples PropertySymmetry (kinds o') (triples o')"
proof (cases "symmetric_props o' = []")
  case True
  then have "Symmetric p \<notin> kinds o'" for p using set_pairs(4) [of o'] by auto
  with True show ?thesis by (auto simp: property_symmetry_def ro_empty_def)
next
  case False
  show ?thesis
  proof (rule set_eqI)
    fix x
    have "x \<in> set (ro_edges (property_symmetry H o')) \<longleftrightarrow>
        (\<exists>e \<in> set (bm_values (o_edges o')). Symmetric (e_label e) \<in> kinds o' \<and>
           (e_label e, e_target e, e_source e) \<notin> triples o' \<and> x = edge_between H (e_target e) (e_label e) (e_source e))"
      using False by (auto simp: property_symmetry_def Let_def set_pairs set_existing_triples)
    also have "\<dots> \<longleftrightarrow> x \<in> triple_edge H ` new_triples PropertySymmetry (kinds o') (triples o')"
      by (auto simp: image_iff intro: triplesI elim!: triplesE)
    finally show "x \<in> set (ro_edges (property_symmetry H o')) \<longleftrightarrow>
        x \<in> triple_edge H ` new_triples PropertySymmetry (kinds o') (triples o')" .
  qed
qed

lemma inverse_of_materializes_edges:
  "set (ro_edges (inverse_of_materializes H o')) = triple_edge H ` new_triples InverseOfMaterializes (kinds o') (triples o')"
proof (cases "inverse_index o' = []")
  case True
  then have "{b. InverseOf a b \<in> kinds o' \<or> InverseOf b a \<in> kinds o'} = {}" for a
    using inverse_index_get [of o' a] by simp
  then have "InverseOf a b \<notin> kinds o'" for a b by blast
  with True show ?thesis by (auto simp: inverse_of_materializes_def ro_empty_def)
next
  case False
  show ?thesis
  proof (rule set_eqI)
    fix x
    have "x \<in> set (ro_edges (inverse_of_materializes H o')) \<longleftrightarrow>
        (\<exists>e \<in> set (bm_values (o_edges o')). \<exists>q \<in> set (idx_get (inverse_index o') (e_label e)).
           (q, e_target e, e_source e) \<notin> triples o' \<and> x = edge_between H (e_target e) q (e_source e))"
      using False unfolding inverse_of_materializes_def Let_def idx_get_in Bex_def
      by (simp only: if_False rule_output.simps in_concat_map in_case_option set_map set_filter image_iff
          mem_Collect_eq Bex_def set_existing_triples) blast
    also have "\<dots> \<longleftrightarrow> x \<in> triple_edge H ` new_triples InverseOfMaterializes (kinds o') (triples o')"
      unfolding inverse_index_get
      by (auto simp: image_iff elim!: triplesE) (blast intro: triplesI)+
    finally show "x \<in> set (ro_edges (inverse_of_materializes H o')) \<longleftrightarrow>
        x \<in> triple_edge H ` new_triples InverseOfMaterializes (kinds o') (triples o')" .
  qed
qed

lemma rule_edges:
  "set (ro_edges (rule_apply H r o')) = triple_edge H ` new_triples r (kinds o') (triples o')"
proof (cases r)
  case PropertySymmetry
  then show ?thesis by (simp only: rule_apply_def rule.case property_symmetry_edges)
next
  case PropertyTransitivity
  then show ?thesis by (simp only: rule_apply_def rule.case property_transitivity_edges)
next
  case InverseOfMaterializes
  then show ?thesis by (simp only: rule_apply_def rule.case inverse_of_materializes_edges)
qed (simp_all add: rule_apply_def subclass_transitivity_def equivalent_symmetry_def equivalent_to_subclass_def
    inverse_of_symmetry_def Let_def)

end
