(* ===== verification/Reason_Engine.thy ===== *)
theory Reason_Engine
  imports Reason_Rules
begin

text \<open>
  \<open>crates/atomr-ontology-reason/src/engine.rs\<close>: the fixed-point loop with its iteration cap, the
  report of what it derived, and in-place materialisation. Fresh ids and clock readings are
  arguments. Soundness is stated against models of the ontology language (\<open>owl_model\<close>), closure
  against the rules, and termination by a bound on the facts the rules can name.
\<close>

record reasoner =
  re_rules :: "rule list"
  re_agent :: agent_ref
  re_max :: nat

definition reasoner_with_rules :: "rule list \<Rightarrow> reasoner" where
  [code_defs]: "reasoner_with_rules rs =
     \<lparr>re_rules = rs,
      re_agent = agent_software ''agent://atomr-ontology-reason/Reasoner'' ''atomr-ontology-reason'',
      re_max = 100\<rparr>"

definition reasoner_new :: reasoner where
  [code_defs]: "reasoner_new = reasoner_with_rules rules_standard"

definition reasoner_with_agent :: "agent_ref \<Rightarrow> reasoner \<Rightarrow> reasoner" where
  [code_defs]: "reasoner_with_agent a r = r\<lparr>re_agent := a\<rparr>"

definition reasoner_with_max_iterations :: "nat \<Rightarrow> reasoner \<Rightarrow> reasoner" where
  [code_defs]: "reasoner_with_max_iterations limit r = r\<lparr>re_max := max limit 1\<rparr>"

datatype reasoner_error = Cycle nat

record reasoning_report =
  rr_axioms :: "axiom_rec list"
  rr_edges :: "edge list"
  rr_iterations :: nat
  rr_activity :: activity

definition rr_is_clean :: "reasoning_report \<Rightarrow> bool" where
  [code_defs]: "rr_is_clean r \<longleftrightarrow> rr_axioms r = [] \<and> rr_edges r = []"

section \<open>The loop\<close>

definition reason_stamp :: "axiom_rec \<Rightarrow> prov_id \<Rightarrow> axiom_rec" where
  [code_defs]: "reason_stamp ax p = axiom_with_provenance p ax"

text \<open>The state of a pass is the working ontology and the flag \<open>produced_new\<close>.\<close>

definition add_derived_axiom :: "prov_id \<Rightarrow> axiom_rec \<Rightarrow> ontology \<times> bool \<Rightarrow> ontology \<times> bool" where
  [code_defs]: "add_derived_axiom p ax s =
     (let ax = reason_stamp ax p
      in if bm_contains (o_axioms (fst s)) (ax_id ax) then s else (upsert_axiom ax (fst s), True))"

definition add_derived_edge :: "edge \<Rightarrow> ontology \<times> bool \<Rightarrow> ontology \<times> bool" where
  [code_defs]: "add_derived_edge e s =
     (if bm_contains (o_edges (fst s)) (e_id e) then s else (upsert_edge e (fst s), True))"

definition rule_pass :: "hasher \<Rightarrow> prov_id \<Rightarrow> rule \<Rightarrow> ontology \<times> bool \<Rightarrow> ontology \<times> bool" where
  [code_defs]: "rule_pass H p r s =
     (let out = rule_apply H r (fst s)
      in fold add_derived_edge (ro_edges out) (fold (add_derived_axiom p) (ro_axioms out) s))"

definition engine_pass :: "hasher \<Rightarrow> prov_id \<Rightarrow> rule list \<Rightarrow> ontology \<Rightarrow> ontology \<times> bool" where
  [code_defs]: "engine_pass H p rules w = fold (rule_pass H p) rules (w, False)"

function reason_loop :: "hasher \<Rightarrow> prov_id \<Rightarrow> rule list \<Rightarrow> nat \<Rightarrow> nat \<Rightarrow> ontology \<Rightarrow> reasoner_error + nat \<times> ontology" where
  "reason_loop H p rules cap iterations w =
     (let iterations = Suc iterations
      in if iterations > cap then Inl (Cycle cap)
         else case engine_pass H p rules w of (w', produced_new) \<Rightarrow>
                if \<not> produced_new then Inr (iterations, w')
                else reason_loop H p rules cap iterations w')"
  by pat_completeness auto
termination
  by (relation "measure (\<lambda>(H, p, rules, cap, iterations, w). cap - iterations)") auto

declare reason_loop.simps [simp del]

definition reason_run :: "hasher \<Rightarrow> prov_id \<Rightarrow> int \<Rightarrow> int \<Rightarrow> reasoner \<Rightarrow> ontology \<Rightarrow> reasoner_error + reasoning_report" where
  "reason_run H fresh t0 t1 r o' =
     (let act = activity_with_attribute ''rules'' (JInt (int (length (re_rules r))))
            (activity_by (re_agent r) (activity_started fresh t0 ''reasoning''))
      in case reason_loop H (act_id act) (re_rules r) (re_max r) 0 o' of
           Inl e \<Rightarrow> Inl e
         | Inr (n, w) \<Rightarrow>
             Inr \<lparr>rr_axioms = sort_key ax_id
                    (map snd (filter (\<lambda>(i, _). i \<notin> set (bm_keys (o_axioms o'))) (o_axioms w))),
                  rr_edges = sort_key e_id
                    (map snd (filter (\<lambda>(i, _). i \<notin> set (bm_keys (o_edges o'))) (o_edges w))),
                  rr_iterations = n,
                  rr_activity = activity_finish t1 act\<rparr>)"

definition reason_materialize ::
    "hasher \<Rightarrow> prov_id \<Rightarrow> int \<Rightarrow> int \<Rightarrow> reasoner \<Rightarrow> ontology \<Rightarrow> (reasoner_error + reasoning_report) \<times> ontology" where
  "reason_materialize H fresh t0 t1 r o' =
     (case reason_run H fresh t0 t1 r o' of
        Inl e \<Rightarrow> (Inl e, o')
      | Inr rep \<Rightarrow> (Inr rep, fold upsert_edge (rr_edges rep) (fold upsert_axiom (rr_axioms rep) o')))"

section \<open>Invariants of a pass\<close>

lemma add_derived_axiom_cases:
  obtains (present) "bm_contains (o_axioms (fst s)) (ax_id ax)" "add_derived_axiom p ax s = s"
  | (added) "\<not> bm_contains (o_axioms (fst s)) (ax_id ax)"
      "add_derived_axiom p ax s = (upsert_axiom (axiom_with_provenance p ax) (fst s), True)"
  by (cases "bm_contains (o_axioms (fst s)) (ax_id ax)") (simp_all add: add_derived_axiom_def reason_stamp_def Let_def)

lemma add_derived_edge_cases:
  obtains (present) "bm_contains (o_edges (fst s)) (e_id e)" "add_derived_edge e s = s"
  | (added) "\<not> bm_contains (o_edges (fst s)) (e_id e)" "add_derived_edge e s = (upsert_edge e (fst s), True)"
  by (cases "bm_contains (o_edges (fst s)) (e_id e)") (simp_all add: add_derived_edge_def)

text \<open>What holds of every derived fact and is kept by adding one holds after the run.\<close>

lemma engine_pass_invariant:
  assumes start: "P w"
    and axiom: "\<And>w r k. P w \<Longrightarrow> k \<in> new_kinds r (kinds w) \<Longrightarrow> Q k"
    and edge: "\<And>w r t. P w \<Longrightarrow> t \<in> new_triples r (kinds w) (triples w) \<Longrightarrow> R t"
    and add_axiom: "\<And>w k. P w \<Longrightarrow> Q k \<Longrightarrow> \<not> bm_contains (o_axioms w) (axiom_id_of H (canonical k)) \<Longrightarrow>
        P (upsert_axiom (axiom_with_provenance p (axiom_new H k)) w)"
    and add_edge: "\<And>w t. P w \<Longrightarrow> R t \<Longrightarrow> \<not> bm_contains (o_edges w) (e_id (triple_edge H t)) \<Longrightarrow>
        P (upsert_edge (triple_edge H t) w)"
  shows "P (fst (engine_pass H p rules w))"
  unfolding engine_pass_def
proof (rule fold_invariant [where P = "\<lambda>s. P (fst s)"])
  show "P (fst (w, False))" using start by simp
  fix r and s :: "ontology \<times> bool" assume P: "P (fst s)"
  have "P (fst (fold (add_derived_axiom p) (ro_axioms (rule_apply H r (fst s))) s))"
  proof (rule fold_invariant [where P = "\<lambda>s. P (fst s)"])
    fix ax and s' :: "ontology \<times> bool"
    assume "ax \<in> set (ro_axioms (rule_apply H r (fst s)))" and P': "P (fst s')"
    then obtain k where k: "ax = axiom_new H k" "k \<in> new_kinds r (kinds (fst s))"
      by (auto simp: rule_axioms)
    show "P (fst (add_derived_axiom p ax s'))"
      using add_axiom [OF P' axiom [OF P k(2)]] P' k(1)
      by (cases rule: add_derived_axiom_cases [where s = s' and ax = ax and p = p]) simp_all
  qed (rule P)
  then show "P (fst (rule_pass H p r s))"
    unfolding rule_pass_def Let_def
  proof (rule fold_invariant [where P = "\<lambda>s. P (fst s)"])
    fix e and s' :: "ontology \<times> bool"
    assume "e \<in> set (ro_edges (rule_apply H r (fst s)))" and P': "P (fst s')"
    then obtain t where t: "e = triple_edge H t" "t \<in> new_triples r (kinds (fst s)) (triples (fst s))"
      by (auto simp: rule_edges)
    show "P (fst (add_derived_edge e s'))"
      using add_edge [OF P' edge [OF P t(2)]] P' t(1)
      by (cases rule: add_derived_edge_cases [where s = s' and e = e]) simp_all
  qed
qed

lemma reason_loop_eq:
  "reason_loop H p rules cap i w =
     (if cap \<le> i then Inl (Cycle cap)
      else if \<not> snd (engine_pass H p rules w) then Inr (Suc i, fst (engine_pass H p rules w))
      else reason_loop H p rules cap (Suc i) (fst (engine_pass H p rules w)))"
  by (subst reason_loop.simps) (auto simp: Let_def case_prod_unfold)

lemma reason_loop_invariant:
  assumes "P w" "reason_loop H p rules cap i w = Inr (n, w')"
    and pass: "\<And>w. P w \<Longrightarrow> P (fst (engine_pass H p rules w))"
  shows "P w'"
  using assms(1,2)
proof (induction "cap - i" arbitrary: i w)
  case 0
  then show ?case by (simp add: reason_loop_eq)
next
  case (Suc m)
  then have "i < cap" by simp
  then have eq: "reason_loop H p rules cap i w =
     (if \<not> snd (engine_pass H p rules w) then Inr (Suc i, fst (engine_pass H p rules w))
      else reason_loop H p rules cap (Suc i) (fst (engine_pass H p rules w)))"
    by (subst reason_loop_eq) simp
  show ?case
  proof (cases "snd (engine_pass H p rules w)")
    case True
    with Suc.prems(2) Suc.hyps(2) have "reason_loop H p rules cap (Suc i) (fst (engine_pass H p rules w)) = Inr (n, w')"
      by (simp add: eq)
    with Suc.hyps(1) [of "Suc i"] Suc.hyps(2) pass [OF Suc.prems(1)] show ?thesis by simp
  next
    case False
    with Suc.prems(2) have "w' = fst (engine_pass H p rules w)" by (simp add: eq)
    with pass [OF Suc.prems(1)] show ?thesis by simp
  qed
qed

section \<open>The flag\<close>

lemma add_axioms_flag:
  "snd (fold (add_derived_axiom p) as s) = False \<Longrightarrow>
     fold (add_derived_axiom p) as s = s \<and> \<not> snd s \<and> (\<forall>a \<in> set as. bm_contains (o_axioms (fst s)) (ax_id a))"
proof (induction as arbitrary: s)
  case (Cons a as)
  note IH = Cons.IH [of "add_derived_axiom p a s"]
  have flag: "snd (fold (add_derived_axiom p) as (add_derived_axiom p a s)) = False" using Cons.prems by simp
  show ?case
  proof (cases rule: add_derived_axiom_cases [where s = s and ax = a and p = p])
    case present
    from IH [OF flag] show ?thesis unfolding fold_simps present(2) using present(1) by simp
  next
    case added
    from IH [OF flag] show ?thesis unfolding added(2) by simp
  qed
qed simp

lemma add_edges_flag:
  "snd (fold add_derived_edge es s) = False \<Longrightarrow>
     fold add_derived_edge es s = s \<and> \<not> snd s \<and> (\<forall>e \<in> set es. bm_contains (o_edges (fst s)) (e_id e))"
proof (induction es arbitrary: s)
  case (Cons e es)
  note IH = Cons.IH [of "add_derived_edge e s"]
  have flag: "snd (fold add_derived_edge es (add_derived_edge e s)) = False" using Cons.prems by simp
  show ?case
  proof (cases rule: add_derived_edge_cases [where s = s and e = e])
    case present
    from IH [OF flag] show ?thesis unfolding fold_simps present(2) using present(1) by simp
  next
    case added
    from IH [OF flag] show ?thesis unfolding added(2) by simp
  qed
qed simp

text \<open>An ontology in which every rule's conclusions are present by id.\<close>

definition rules_closed :: "hasher \<Rightarrow> rule list \<Rightarrow> ontology \<Rightarrow> bool" where
  "rules_closed H rules w \<longleftrightarrow>
     (\<forall>r \<in> set rules. (\<forall>k \<in> new_kinds r (kinds w). bm_contains (o_axioms w) (axiom_id_of H (canonical k))) \<and>
        (\<forall>t \<in> new_triples r (kinds w) (triples w). bm_contains (o_edges w) (e_id (triple_edge H t))))"

lemma rule_pass_flag:
  assumes "\<not> snd (rule_pass H p r s)"
  shows "rule_pass H p r s = s \<and> \<not> snd s \<and> rules_closed H [r] (fst s)"
proof -
  let ?out = "rule_apply H r (fst s)"
  let ?s = "fold (add_derived_axiom p) (ro_axioms ?out) s"
  have "snd (fold add_derived_edge (ro_edges ?out) ?s) = False"
    using assms by (simp add: rule_pass_def Let_def)
  note e = add_edges_flag [OF this]
  from e have "snd ?s = False" by simp
  note a = add_axioms_flag [OF this]
  have "rule_pass H p r s = s" using e a by (simp add: rule_pass_def Let_def)
  moreover have "\<forall>k \<in> new_kinds r (kinds (fst s)). bm_contains (o_axioms (fst s)) (axiom_id_of H (canonical k))"
    using a by (simp add: rule_axioms)
  moreover have "\<forall>t \<in> new_triples r (kinds (fst s)) (triples (fst s)). bm_contains (o_edges (fst s)) (e_id (triple_edge H t))"
    using a e by (simp add: rule_edges)
  ultimately show ?thesis using a by (simp add: rules_closed_def)
qed

lemma rules_pass_flag:
  "\<not> snd (fold (rule_pass H p) rules s) \<Longrightarrow> fold (rule_pass H p) rules s = s \<and> \<not> snd s \<and> rules_closed H rules (fst s)"
proof (induction rules arbitrary: s)
  case Nil
  then show ?case by (simp add: rules_closed_def)
next
  case (Cons r rules)
  then have IH: "fold (rule_pass H p) rules (rule_pass H p r s) = rule_pass H p r s"
    "\<not> snd (rule_pass H p r s)" "rules_closed H rules (fst (rule_pass H p r s))"
    using Cons.IH [of "rule_pass H p r s"] by simp_all
  from rule_pass_flag [OF IH(2)] IH show ?case by (simp add: rules_closed_def)
qed

lemma engine_pass_unchanged:
  "\<not> snd (engine_pass H p rules w) \<Longrightarrow> fst (engine_pass H p rules w) = w \<and> rules_closed H rules w"
  using rules_pass_flag [of H p rules "(w, False)"] by (simp add: engine_pass_def)

lemma rule_pass_closed:
  assumes "rules_closed H [r] (fst s)"
  shows "rule_pass H p r s = s"
proof -
  have a: "bm_contains (o_axioms (fst s)) (ax_id a)" if "a \<in> set (ro_axioms (rule_apply H r (fst s)))" for a
    using that assms by (auto simp: rule_axioms rules_closed_def)
  have e: "bm_contains (o_edges (fst s)) (e_id e)" if "e \<in> set (ro_edges (rule_apply H r (fst s)))" for e
    using that assms by (auto simp: rule_edges rules_closed_def)
  have "fold (add_derived_axiom p) as s = s" if "\<forall>a \<in> set as. bm_contains (o_axioms (fst s)) (ax_id a)" for as
    using that by (induction as) (simp_all add: add_derived_axiom_def reason_stamp_def Let_def)
  moreover have "fold add_derived_edge es s = s" if "\<forall>e \<in> set es. bm_contains (o_edges (fst s)) (e_id e)" for es
    using that by (induction es) (simp_all add: add_derived_edge_def)
  ultimately show ?thesis using a e by (simp add: rule_pass_def Let_def)
qed

lemma engine_pass_closed: "rules_closed H rules w \<Longrightarrow> engine_pass H p rules w = (w, False)"
  unfolding engine_pass_def
proof (induction rules)
  case (Cons r rules)
  then have "rules_closed H [r] (fst (w, False))" "rules_closed H rules w" by (simp_all add: rules_closed_def)
  with Cons.IH rule_pass_closed [of H r "(w, False)" p] show ?case by simp
qed simp

lemma reason_loop_closed:
  "reason_loop H p rules cap i w = Inr (n, w') \<Longrightarrow> rules_closed H rules w'"
proof (induction "cap - i" arbitrary: i w)
  case 0
  then show ?case by (simp add: reason_loop_eq)
next
  case (Suc m)
  then have "i < cap" by simp
  then have eq: "reason_loop H p rules cap i w =
     (if \<not> snd (engine_pass H p rules w) then Inr (Suc i, fst (engine_pass H p rules w))
      else reason_loop H p rules cap (Suc i) (fst (engine_pass H p rules w)))"
    by (subst reason_loop_eq) simp
  show ?case
  proof (cases "snd (engine_pass H p rules w)")
    case True
    with Suc.prems Suc.hyps(2) have "reason_loop H p rules cap (Suc i) (fst (engine_pass H p rules w)) = Inr (n, w')"
      by (simp add: eq)
    with Suc.hyps(1) [of "Suc i"] Suc.hyps(2) show ?thesis by simp
  next
    case False
    with Suc.prems Suc.hyps(2) engine_pass_unchanged [OF False] show ?thesis
      by (simp add: eq)
  qed
qed

section \<open>The working ontology extends the input\<close>

definition extends :: "ontology \<Rightarrow> ontology \<Rightarrow> bool" where
  "extends o' w \<longleftrightarrow>
     (\<forall>i a. map_of (o_axioms o') i = Some a \<longrightarrow> map_of (o_axioms w) i = Some a) \<and>
     (\<forall>i e. map_of (o_edges o') i = Some e \<longrightarrow> map_of (o_edges w) i = Some e) \<and>
     o_nodes w = o_nodes o' \<and> o_schema w = o_schema o' \<and> o_vocab w = o_vocab o' \<and> o_iri w = o_iri o'"

text \<open>What the loop added is stamped and content-addressed.\<close>

definition derived_ok :: "hasher \<Rightarrow> prov_id \<Rightarrow> ontology \<Rightarrow> ontology \<Rightarrow> bool" where
  "derived_ok H p o' w \<longleftrightarrow>
     (\<forall>i a. map_of (o_axioms w) i = Some a \<longrightarrow> map_of (o_axioms o') i = None \<longrightarrow>
        ax_prov a = Some p \<and> ax_id a = axiom_id_of H (canonical (ax_kind a))) \<and>
     (\<forall>i e. map_of (o_edges w) i = Some e \<longrightarrow> map_of (o_edges o') i = None \<longrightarrow>
        e = edge_between H (e_source e) (e_label e) (e_target e))"

definition loop_inv :: "hasher \<Rightarrow> prov_id \<Rightarrow> ontology \<Rightarrow> ontology \<Rightarrow> bool" where
  "loop_inv H p o' w \<longleftrightarrow> ont_wf w \<and> extends o' w \<and> derived_ok H p o' w"

lemma not_contains: "\<not> bm_contains m k \<longleftrightarrow> map_of m k = None"
  by (simp add: bm_contains_def)

lemma loop_inv_pass:
  assumes "loop_inv H p o' w"
  shows "loop_inv H p o' (fst (engine_pass H p rules w))"
proof (rule engine_pass_invariant [where P = "loop_inv H p o'" and Q = "\<lambda>_. True" and R = "\<lambda>_. True"])
  fix v k
  assume inv: "loop_inv H p o' v" and new: "\<not> bm_contains (o_axioms v) (axiom_id_of H (canonical k))"
  from new have "map_of (o_axioms v) (axiom_id_of H (canonical k)) = None" by (simp add: not_contains)
  with inv show "loop_inv H p o' (upsert_axiom (axiom_with_provenance p (axiom_new H k)) v)"
    by (auto simp: loop_inv_def extends_def derived_ok_def)
next
  fix v and t :: "string \<times> node_id \<times> node_id"
  assume inv: "loop_inv H p o' v" and new: "\<not> bm_contains (o_edges v) (e_id (triple_edge H t))"
  obtain l a b where t: "t = (l, a, b)" by (cases t)
  from new have "map_of (o_edges v) (e_id (triple_edge H t)) = None" by (simp add: not_contains)
  with inv show "loop_inv H p o' (upsert_edge (triple_edge H t) v)"
    by (auto simp: loop_inv_def extends_def derived_ok_def t)
qed (use assms in auto)

lemma loop_inv_start: "ont_wf o' \<Longrightarrow> loop_inv H p o' o'"
  by (simp add: loop_inv_def extends_def derived_ok_def)

lemma loop_inv_result:
  "ont_wf o' \<Longrightarrow> reason_loop H p rules cap i o' = Inr (n, w) \<Longrightarrow> loop_inv H p o' w"
  by (rule reason_loop_invariant [where P = "loop_inv H p o'", OF loop_inv_start]) (auto intro: loop_inv_pass)


section \<open>Models of an ontology\<close>

text \<open>
  An interpretation of class names as sets, property names as relations and node ids as
  individuals; each axiom kind has its OWL reading.
\<close>

record 'a owl_model =
  m_class :: "string \<Rightarrow> 'a set"
  m_prop :: "string \<Rightarrow> ('a \<times> 'a) set"
  m_node :: "node_id \<Rightarrow> 'a"

fun sat_kind :: "'a owl_model \<Rightarrow> axiom_kind \<Rightarrow> bool" where
  "sat_kind M (SubClassOf a b) \<longleftrightarrow> m_class M a \<subseteq> m_class M b"
| "sat_kind M (EquivalentClass a b) \<longleftrightarrow> m_class M a = m_class M b"
| "sat_kind M (DisjointWith a b) \<longleftrightarrow> m_class M a \<inter> m_class M b = {}"
| "sat_kind M (Domain p c) \<longleftrightarrow> fst ` m_prop M p \<subseteq> m_class M c"
| "sat_kind M (Range p c) \<longleftrightarrow> snd ` m_prop M p \<subseteq> m_class M c"
| "sat_kind M (Functional p) \<longleftrightarrow> single_valued (m_prop M p)"
| "sat_kind M (InverseFunctional p) \<longleftrightarrow> single_valued ((m_prop M p)\<inverse>)"
| "sat_kind M (InverseOf p q) \<longleftrightarrow> m_prop M q = (m_prop M p)\<inverse>"
| "sat_kind M (Symmetric p) \<longleftrightarrow> sym (m_prop M p)"
| "sat_kind M (Transitive p) \<longleftrightarrow> trans (m_prop M p)"

definition sat_triple :: "'a owl_model \<Rightarrow> string \<times> node_id \<times> node_id \<Rightarrow> bool" where
  "sat_triple M t = (case t of (l, a, b) \<Rightarrow> (m_node M a, m_node M b) \<in> m_prop M l)"

definition owl_models :: "'a owl_model \<Rightarrow> ontology \<Rightarrow> bool" where
  "owl_models M o' \<longleftrightarrow> (\<forall>k \<in> kinds o'. sat_kind M k) \<and> (\<forall>t \<in> triples o'. sat_triple M t)"

lemma new_kinds_sound:
  assumes "\<forall>k \<in> K. sat_kind M k" "k \<in> new_kinds r K"
  shows "sat_kind M k"
proof (cases r)
  case SubClassTransitivity
  with assms(2) obtain a b c where k: "k = SubClassOf a c" and "SubClassOf a b \<in> K" "SubClassOf b c \<in> K" by auto
  with assms(1) have "sat_kind M (SubClassOf a b)" "sat_kind M (SubClassOf b c)" by blast+
  then show ?thesis by (auto simp: k)
next
  case EquivalentToSubClass
  with assms(2) obtain a b where k: "k = SubClassOf a b" and "EquivalentClass a b \<in> K \<or> EquivalentClass b a \<in> K" by auto
  with assms(1) have "sat_kind M (EquivalentClass a b) \<or> sat_kind M (EquivalentClass b a)" by blast
  then show ?thesis by (auto simp: k)
qed (use assms in \<open>auto dest!: bspec\<close>)

lemma new_triples_sound:
  assumes "\<forall>k \<in> K. sat_kind M k" "\<forall>t \<in> T. sat_triple M t" "t \<in> new_triples r K T"
  shows "sat_triple M t"
proof (cases r)
  case PropertySymmetry
  with assms show ?thesis by (auto simp: sat_triple_def dest!: bspec dest: symD)
next
  case PropertyTransitivity
  with assms(3) obtain p a b c where t: "t = (p, a, c)" and "Transitive p \<in> K" "(p, a, b) \<in> T" "(p, b, c) \<in> T"
    by auto
  with assms(1,2) have "trans (m_prop M p)" "sat_triple M (p, a, b)" "sat_triple M (p, b, c)" by force+
  then show ?thesis by (auto simp: t sat_triple_def dest: transD)
next
  case InverseOfMaterializes
  with assms(3) obtain p q a b where t: "t = (q, b, a)" and "InverseOf p q \<in> K \<or> InverseOf q p \<in> K" "(p, a, b) \<in> T"
    by auto
  with assms(1,2) have "m_prop M q = (m_prop M p)\<inverse> \<or> m_prop M p = (m_prop M q)\<inverse>" "sat_triple M (p, a, b)" by force+
  then show ?thesis by (auto simp: t sat_triple_def)
qed (use assms in simp_all)

lemma kinds_upsert:
  "kinds (upsert_axiom a o') \<subseteq> insert (ax_kind a) (kinds o')" "kinds (upsert_edge e o') = kinds o'"
  using image_mono [OF bm_set_insert_subset [of "ax_id a" a "o_axioms o'"], of "ax_kind \<circ> snd"]
  by (simp_all add: kinds_def bm_values_def image_image comp_def)

lemma triples_upsert:
  "triples (upsert_edge e o') \<subseteq> insert (edge_triple e) (triples o')" "triples (upsert_axiom a o') = triples o'"
  using image_mono [OF bm_set_insert_subset [of "e_id e" e "o_edges o'"], of "edge_triple \<circ> snd"]
  by (simp_all add: triples_def bm_values_def image_image comp_def)

lemma edge_triple_triple_edge [simp]: "edge_triple (triple_edge H t) = t"
  by (cases t) (simp add: edge_triple_def)

lemma edge_triple_between [simp]: "edge_triple (edge_between H a l b) = (l, a, b)"
  by (simp add: edge_triple_def)

text \<open>A property of kinds and one of triples that the rules preserve holds of the whole result.\<close>

definition all_facts :: "(axiom_kind \<Rightarrow> bool) \<Rightarrow> (string \<times> node_id \<times> node_id \<Rightarrow> bool) \<Rightarrow> ontology \<Rightarrow> bool" where
  "all_facts Q R o' \<longleftrightarrow> (\<forall>k \<in> kinds o'. Q k) \<and> (\<forall>t \<in> triples o'. R t)"

lemma all_facts_pass:
  assumes "all_facts Q R w"
    and "\<And>K r k. \<forall>k \<in> K. Q k \<Longrightarrow> k \<in> new_kinds r K \<Longrightarrow> Q k"
    and "\<And>K T r t. \<forall>k \<in> K. Q k \<Longrightarrow> \<forall>t \<in> T. R t \<Longrightarrow> t \<in> new_triples r K T \<Longrightarrow> R t"
  shows "all_facts Q R (fst (engine_pass H p rules w))"
proof (rule engine_pass_invariant [where P = "all_facts Q R" and Q = Q and R = R])
  fix v k assume "all_facts Q R v" "Q k"
  then show "all_facts Q R (upsert_axiom (axiom_with_provenance p (axiom_new H k)) v)"
    using kinds_upsert(1) [of "axiom_with_provenance p (axiom_new H k)" v]
    by (auto simp: all_facts_def triples_upsert)
next
  fix v t assume "all_facts Q R v" "R t"
  then show "all_facts Q R (upsert_edge (triple_edge H t) v)"
    using triples_upsert(1) [of "triple_edge H t" v] by (auto simp: all_facts_def kinds_upsert)
qed (use assms in \<open>unfold all_facts_def, blast+\<close>)

lemma all_facts_loop:
  assumes "all_facts Q R w" "reason_loop H p rules cap i w = Inr (n, w')"
    and "\<And>K r k. \<forall>k \<in> K. Q k \<Longrightarrow> k \<in> new_kinds r K \<Longrightarrow> Q k"
    and "\<And>K T r t. \<forall>k \<in> K. Q k \<Longrightarrow> \<forall>t \<in> T. R t \<Longrightarrow> t \<in> new_triples r K T \<Longrightarrow> R t"
  shows "all_facts Q R w'"
proof (rule reason_loop_invariant [where P = "all_facts Q R", OF assms(1,2)])
  fix v assume "all_facts Q R v"
  then show "all_facts Q R (fst (engine_pass H p rules v))"
    by (rule all_facts_pass) (fact assms(3,4))+
qed

lemma reason_loop_sound:
  "owl_models M w \<Longrightarrow> reason_loop H p rules cap i w = Inr (n, w') \<Longrightarrow> owl_models M w'"
  unfolding owl_models_def all_facts_def [symmetric]
  by (erule (1) all_facts_loop) (erule (1) new_kinds_sound | erule (2) new_triples_sound)+

section \<open>The report\<close>

lemma reason_run_Inr:
  assumes "reason_run H fresh t0 t1 r o' = Inr rep"
  obtains w where "reason_loop H fresh (re_rules r) (re_max r) 0 o' = Inr (rr_iterations rep, w)"
    "rr_axioms rep = sort_key ax_id (map snd (filter (\<lambda>(i, _). i \<notin> set (bm_keys (o_axioms o'))) (o_axioms w)))"
    "rr_edges rep = sort_key e_id (map snd (filter (\<lambda>(i, _). i \<notin> set (bm_keys (o_edges o'))) (o_edges w)))"
    "rr_activity rep = activity_finish t1 (activity_with_attribute ''rules'' (JInt (int (length (re_rules r))))
       (activity_by (re_agent r) (activity_started fresh t0 ''reasoning'')))"
  using assms that by (auto simp: reason_run_def Let_def split: sum.splits)


lemma filtered_entries:
  assumes wf: "bm_wf m" and key: "\<forall>(k, v) \<in> set m. f v = k"
  shows "sort_key f (map snd (filter (\<lambda>(i, _). i \<notin> set (bm_keys m0)) m)) =
           map snd (filter (\<lambda>(i, _). i \<notin> set (bm_keys m0)) m)"
    and "sorted_wrt (<) (map f (map snd (filter (\<lambda>(i, _). i \<notin> set (bm_keys m0)) m)))"
    and "set (map snd (filter (\<lambda>(i, _). i \<notin> set (bm_keys m0)) m)) =
           {v. map_of m (f v) = Some v \<and> map_of m0 (f v) = None}"
proof -
  let ?es = "filter (\<lambda>(i, _). i \<notin> set (bm_keys m0)) m"
  have eq: "map f (map snd ?es) = map fst ?es" using key by (auto simp: case_prod_unfold)
  have "sorted_wrt (\<lambda>a b. fst a < fst b) ?es" using wf by (auto simp: bm_wf_def sorted_wrt_map intro: sorted_wrt_filter)
  then show srt: "sorted_wrt (<) (map f (map snd ?es))" unfolding eq by (simp add: sorted_wrt_map)
  then show "sort_key f (map snd ?es) = map snd ?es"
    using strict_sorted_imp_sorted by (blast intro: sort_key_id_if_sorted)
  have "v \<in> set (map snd ?es) \<longleftrightarrow> (\<exists>i. map_of m i = Some v \<and> map_of m0 i = None)" for v
    by (auto simp: bm_set_iff [OF wf] bm_keys_def map_of_eq_None_iff image_iff Bex_def)
  moreover have "map_of m i = Some v \<Longrightarrow> f v = i" for i v using key map_of_SomeD [of m i v] by auto
  ultimately show "set (map snd ?es) = {v. map_of m (f v) = Some v \<and> map_of m0 (f v) = None}" by blast
qed

lemma ont_wf_maps:
  assumes "ont_wf w"
  shows "bm_wf (o_axioms w)" "\<forall>(k, a) \<in> set (o_axioms w). ax_id a = k"
    "bm_wf (o_edges w)" "\<forall>(k, e) \<in> set (o_edges w). e_id e = k"
  using assms by (simp_all add: ont_wf_def)

lemma report_sets:
  assumes "ont_wf o'" "reason_run H fresh t0 t1 r o' = Inr rep"
  obtains w where "reason_loop H fresh (re_rules r) (re_max r) 0 o' = Inr (rr_iterations rep, w)"
    "loop_inv H fresh o' w"
    "set (rr_axioms rep) = {a. map_of (o_axioms w) (ax_id a) = Some a \<and> map_of (o_axioms o') (ax_id a) = None}"
    "set (rr_edges rep) = {e. map_of (o_edges w) (e_id e) = Some e \<and> map_of (o_edges o') (e_id e) = None}"
    "sorted_wrt (<) (map ax_id (rr_axioms rep))" "sorted_wrt (<) (map e_id (rr_edges rep))"
proof -
  from reason_run_Inr [OF assms(2)] obtain w where w:
    "reason_loop H fresh (re_rules r) (re_max r) 0 o' = Inr (rr_iterations rep, w)"
    and a: "rr_axioms rep = sort_key ax_id (map snd (filter (\<lambda>(i, _). i \<notin> set (bm_keys (o_axioms o'))) (o_axioms w)))"
    and e: "rr_edges rep = sort_key e_id (map snd (filter (\<lambda>(i, _). i \<notin> set (bm_keys (o_edges o'))) (o_edges w)))"
    by metis
  from loop_inv_result [OF assms(1) w] have inv: "loop_inv H fresh o' w" .
  then have "ont_wf w" by (simp add: loop_inv_def)
  note m = ont_wf_maps [OF this]
  note fa = filtered_entries [OF m(1,2), of "o_axioms o'"] and fe = filtered_entries [OF m(3,4), of "o_edges o'"]
  show thesis
    by (rule that [OF w inv]) (simp_all only: a e fa fe)
qed

lemma reason_loop_iterations:
  "reason_loop H p rules cap i w = Inr (n, w') \<Longrightarrow> i < n \<and> n \<le> cap"
proof (induction "cap - i" arbitrary: i w)
  case 0
  then show ?case by (simp add: reason_loop_eq)
next
  case (Suc m)
  then have "i < cap" by simp
  with Suc.prems have "Suc i = n \<or> reason_loop H p rules cap (Suc i) (fst (engine_pass H p rules w)) = Inr (n, w')"
    by (subst (asm) reason_loop_eq) (simp split: if_splits)
  moreover have "m = cap - Suc i" using Suc.hyps(2) by simp
  note Suc.hyps(1) [OF this, of "fst (engine_pass H p rules w)"]
  ultimately show ?case using \<open>i < cap\<close> by auto
qed

lemma reason_loop_error: "reason_loop H p rules cap i w = Inl e \<Longrightarrow> e = Cycle cap"
proof (induction "cap - i" arbitrary: i w)
  case 0
  then show ?case by (simp add: reason_loop_eq)
next
  case (Suc m)
  then have "\<not> cap \<le> i" "m = cap - Suc i" by simp_all
  with Suc.prems Suc.hyps(1) [OF this(2)] show ?case
    by (subst (asm) reason_loop_eq) (auto split: if_splits)
qed

text \<open>Merging the report into the input rebuilds the working ontology of the run.\<close>

lemma merge_report_axioms:
  assumes "bm_wf m" "bm_wf m0" "\<And>i v. map_of m0 i = Some v \<Longrightarrow> map_of m i = Some v"
    "set xs = {v. map_of m (f v) = Some v \<and> map_of m0 (f v) = None}" "sorted_wrt (<) (map f xs)"
    "\<And>i v. map_of m i = Some v \<Longrightarrow> f v = i"
  shows "fold (\<lambda>v acc. bm_insert (f v) v acc) xs m0 = m"
proof (rule bm_ext)
  show "bm_wf (fold (\<lambda>v acc. bm_insert (f v) v acc) xs m0)"
    by (rule fold_invariant) (use assms(2) in auto)
  have dist: "distinct (map f xs)" using assms(5) strict_sorted_iff by blast
  show "map_of (fold (\<lambda>v acc. bm_insert (f v) v acc) xs m0) = map_of m"
  proof
    fix i
    show "map_of (fold (\<lambda>v acc. bm_insert (f v) v acc) xs m0) i = map_of m i"
    proof (cases "i \<in> f ` set xs")
      case True
      then obtain v where "v \<in> set xs" "f v = i" by blast
      with bm.look_fold_distinct [OF dist, of v "\<lambda>v. v" m0] assms(4) show ?thesis by auto
    next
      case False
      have "map_of m0 i = map_of m i"
      proof (cases "map_of m i")
        case None
        with assms(3) show ?thesis by (cases "map_of m0 i") auto
      next
        case (Some v)
        with assms(6) have "f v = i" by blast
        with False Some assms(4) have "map_of m0 i \<noteq> None" by auto
        with assms(3) show ?thesis by auto
      qed
      with bm.look_fold_other [OF False, of "\<lambda>v. v" m0] show ?thesis by simp
    qed
  qed
qed (fact assms(1))

lemma materialize_working:
  assumes wf: "ont_wf o'" and mat: "reason_materialize H fresh t0 t1 r o' = (Inr rep, o2)"
  shows "reason_run H fresh t0 t1 r o' = Inr rep"
    "reason_loop H fresh (re_rules r) (re_max r) 0 o' = Inr (rr_iterations rep, o2)" "loop_inv H fresh o' o2"
proof -
  from mat show run: "reason_run H fresh t0 t1 r o' = Inr rep"
    by (auto simp: reason_materialize_def split: sum.splits)
  from report_sets [OF wf this] obtain w where w:
    "reason_loop H fresh (re_rules r) (re_max r) 0 o' = Inr (rr_iterations rep, w)"
    and inv: "loop_inv H fresh o' w"
    and sets: "set (rr_axioms rep) = {a. map_of (o_axioms w) (ax_id a) = Some a \<and> map_of (o_axioms o') (ax_id a) = None}"
      "set (rr_edges rep) = {e. map_of (o_edges w) (e_id e) = Some e \<and> map_of (o_edges o') (e_id e) = None}"
      "sorted_wrt (<) (map ax_id (rr_axioms rep))" "sorted_wrt (<) (map e_id (rr_edges rep))"
    by blast
  from inv have wfw: "ont_wf w" and ext: "extends o' w" by (simp_all add: loop_inv_def)
  note m = ont_wf_maps [OF wfw] and m0 = ont_wf_maps [OF wf]
  have "fold (\<lambda>a acc. bm_insert (ax_id a) a acc) (rr_axioms rep) (o_axioms o') = o_axioms w"
    by (rule merge_report_axioms [OF m(1) m0(1) _ sets(1,3)]) (use ext m(2) in \<open>auto simp: extends_def dest: map_of_SomeD\<close>)
  moreover have "fold (\<lambda>e acc. bm_insert (e_id e) e acc) (rr_edges rep) (o_edges o') = o_edges w"
    by (rule merge_report_axioms [OF m(3) m0(3) _ sets(2,4)]) (use ext m(4) in \<open>auto simp: extends_def dest: map_of_SomeD\<close>)
  ultimately have "o2 = o'\<lparr>o_axioms := o_axioms w, o_edges := o_edges w\<rparr>"
    using mat by (simp add: reason_materialize_def run fold_upserts)
  also have "\<dots> = w" by (rule ontology.equality) (use ext in \<open>simp_all add: extends_def\<close>)
  finally have "o2 = w" .
  with w inv show "reason_loop H fresh (re_rules r) (re_max r) 0 o' = Inr (rr_iterations rep, o2)"
    "loop_inv H fresh o' o2" by simp_all
qed


section \<open>The facts the rules can name\<close>

fun operands :: "axiom_kind \<Rightarrow> string set" where
  "operands (SubClassOf a b) = {a, b}"
| "operands (EquivalentClass a b) = {a, b}"
| "operands (DisjointWith a b) = {a, b}"
| "operands (Domain a b) = {a, b}"
| "operands (Range a b) = {a, b}"
| "operands (Functional a) = {a}"
| "operands (InverseFunctional a) = {a}"
| "operands (InverseOf a b) = {a, b}"
| "operands (Symmetric a) = {a}"
| "operands (Transitive a) = {a}"

definition ont_names :: "ontology \<Rightarrow> string set" where
  [code_defs]: "ont_names o' = (\<Union>k \<in> kinds o'. operands k) \<union> fst ` triples o'"

definition ont_ends :: "ontology \<Rightarrow> node_id set" where
  [code_defs]: "ont_ends o' = (\<Union>(l, a, b) \<in> triples o'. {a, b})"

lemma finite_names [simp]: "finite (ont_names o')" "finite (ont_ends o')"
proof -
  have "finite (operands k)" for k by (cases k) auto
  then show "finite (ont_names o')" by (simp add: ont_names_def kinds_def triples_def)
  show "finite (ont_ends o')" by (auto simp: ont_ends_def triples_def split: prod.split)
qed

text \<open>The kinds a rule can emit over a set of names.\<close>

definition derivable_kinds :: "string set \<Rightarrow> axiom_kind set" where
  "derivable_kinds N = (\<lambda>(f, a, b). f a b) ` ({SubClassOf, EquivalentClass, InverseOf} \<times> N \<times> N)"

lemma derivable_kinds_mem [simp]:
  "SubClassOf a b \<in> derivable_kinds N \<longleftrightarrow> a \<in> N \<and> b \<in> N"
  "EquivalentClass a b \<in> derivable_kinds N \<longleftrightarrow> a \<in> N \<and> b \<in> N"
  "InverseOf a b \<in> derivable_kinds N \<longleftrightarrow> a \<in> N \<and> b \<in> N"
  by (force simp: derivable_kinds_def)+

lemma derivable_kinds_card:
  assumes "finite N"
  shows "finite (derivable_kinds N)" "card (derivable_kinds N) \<le> 3 * (card N)\<^sup>2"
proof -
  let ?F = "{SubClassOf, EquivalentClass, InverseOf}"
  have fin: "finite (?F \<times> N \<times> N)" using assms by simp
  then show "finite (derivable_kinds N)" by (simp add: derivable_kinds_def)
  have "card ?F \<le> 3" by (simp add: card_insert_if)
  then have "card (?F \<times> N \<times> N) \<le> 3 * (card N)\<^sup>2" by (simp add: card_cartesian_product power2_eq_square)
  then show "card (derivable_kinds N) \<le> 3 * (card N)\<^sup>2"
    using card_image_le [OF fin] unfolding derivable_kinds_def by (rule le_trans [rotated])
qed

definition kind_over :: "string set \<Rightarrow> axiom_kind \<Rightarrow> bool" where
  "kind_over N k \<longleftrightarrow> operands k \<subseteq> N"

definition triple_over :: "string set \<Rightarrow> node_id set \<Rightarrow> string \<times> node_id \<times> node_id \<Rightarrow> bool" where
  "triple_over N V t \<longleftrightarrow> t \<in> N \<times> V \<times> V"

lemma over_start: "all_facts (kind_over (ont_names o')) (triple_over (ont_names o') (ont_ends o')) o'"
  by (auto simp: all_facts_def kind_over_def triple_over_def ont_names_def ont_ends_def image_iff) force+

lemma new_kinds_over:
  assumes "\<forall>k \<in> K. kind_over N k" "k \<in> new_kinds r K"
  shows "kind_over N k \<and> k \<in> derivable_kinds N"
proof (cases r)
  case SubClassTransitivity
  with assms(2) obtain a b c where k: "k = SubClassOf a c" and "SubClassOf a b \<in> K" "SubClassOf b c \<in> K" by auto
  with assms(1) have "kind_over N (SubClassOf a b)" "kind_over N (SubClassOf b c)" by blast+
  then show ?thesis by (simp add: k kind_over_def)
next
  case EquivalentSymmetry
  with assms(2) obtain a b where k: "k = EquivalentClass b a" and "EquivalentClass a b \<in> K" by auto
  with assms(1) have "kind_over N (EquivalentClass a b)" by blast
  then show ?thesis by (simp add: k kind_over_def)
next
  case EquivalentToSubClass
  with assms(2) obtain a b where k: "k = SubClassOf a b" and "EquivalentClass a b \<in> K \<or> EquivalentClass b a \<in> K" by auto
  with assms(1) have "kind_over N (EquivalentClass a b) \<or> kind_over N (EquivalentClass b a)" by blast
  then show ?thesis by (auto simp: k kind_over_def)
next
  case InverseOfSymmetry
  with assms(2) obtain a b where k: "k = InverseOf b a" and "InverseOf a b \<in> K" by auto
  with assms(1) have "kind_over N (InverseOf a b)" by blast
  then show ?thesis by (simp add: k kind_over_def)
qed (use assms(2) in simp_all)

lemma new_triples_over:
  assumes "\<forall>k \<in> K. kind_over N k" "\<forall>t \<in> T. triple_over N V t" "t \<in> new_triples r K T"
  shows "triple_over N V t"
proof (cases r)
  case InverseOfMaterializes
  with assms(3) obtain p q a b where t: "t = (q, b, a)" "InverseOf p q \<in> K \<or> InverseOf q p \<in> K" "(p, a, b) \<in> T"
    by auto
  with assms(1,2) have "kind_over N (InverseOf p q) \<or> kind_over N (InverseOf q p)" "triple_over N V (p, a, b)" by blast+
  then show ?thesis by (auto simp: t kind_over_def triple_over_def)
next
  case PropertyTransitivity
  with assms(3) obtain p a b c where t: "t = (p, a, c)" "(p, a, b) \<in> T" "(p, b, c) \<in> T" by auto
  with assms(2) have "triple_over N V (p, a, b)" "triple_over N V (p, b, c)" by blast+
  then show ?thesis by (auto simp: t triple_over_def)
next
  case PropertySymmetry
  with assms(3) obtain p a b where t: "t = (p, b, a)" "(p, a, b) \<in> T" by auto
  with assms(2) have "triple_over N V (p, a, b)" by blast
  then show ?thesis by (auto simp: t triple_over_def)
qed (use assms(3) in simp_all)

lemma new_kinds_over1: "\<forall>k \<in> K. kind_over N k \<Longrightarrow> k \<in> new_kinds r K \<Longrightarrow> kind_over N k"
  using new_kinds_over by blast

section \<open>Every pass that is not the last adds a fact\<close>

definition fact_count :: "ontology \<Rightarrow> nat" where
  "fact_count w = card (fst ` set (o_axioms w)) + card (fst ` set (o_edges w))"

definition grows :: "nat \<Rightarrow> ontology \<times> bool \<Rightarrow> bool" where
  "grows n s \<longleftrightarrow> n \<le> fact_count (fst s) \<and> (snd s \<longrightarrow> n < fact_count (fst s))"

lemma grows_derived:
  "grows n s \<Longrightarrow> grows n (add_derived_axiom p ax s)" "grows n s \<Longrightarrow> grows n (add_derived_edge e s)"
proof -
  show "grows n s \<Longrightarrow> grows n (add_derived_axiom p ax s)"
    by (cases rule: add_derived_axiom_cases [where s = s and ax = ax and p = p])
      (auto simp: grows_def fact_count_def bm_contains_iff)
  show "grows n s \<Longrightarrow> grows n (add_derived_edge e s)"
    by (cases rule: add_derived_edge_cases [where s = s and e = e])
      (auto simp: grows_def fact_count_def bm_contains_iff)
qed

lemma engine_pass_grows: "grows (fact_count w) (engine_pass H p rules w)"
  unfolding engine_pass_def
proof (rule fold_invariant)
  show "grows (fact_count w) (w, False)" by (simp add: grows_def)
  fix r and s :: "ontology \<times> bool" assume g: "grows (fact_count w) s"
  show "grows (fact_count w) (rule_pass H p r s)"
    unfolding rule_pass_def Let_def
    by (rule fold_invariant, rule fold_invariant, rule g) (erule grows_derived)+
qed

text \<open>What the loop can hold: the input's ids and the ids of the facts over the input's names.\<close>

definition fact_bound :: "ontology \<Rightarrow> nat" where
  [code_defs]: "fact_bound o' = 3 * (card (ont_names o'))\<^sup>2 + card (ont_names o') * (card (ont_ends o'))\<^sup>2"

definition bounded_by :: "hasher \<Rightarrow> ontology \<Rightarrow> ontology \<Rightarrow> bool" where
  "bounded_by H o' w \<longleftrightarrow>
     all_facts (kind_over (ont_names o')) (triple_over (ont_names o') (ont_ends o')) w \<and>
     fst ` set (o_axioms w) \<subseteq>
       fst ` set (o_axioms o') \<union> (\<lambda>k. axiom_id_of H (canonical k)) ` derivable_kinds (ont_names o') \<and>
     fst ` set (o_edges w) \<subseteq>
       fst ` set (o_edges o') \<union> (\<lambda>t. e_id (triple_edge H t)) ` (ont_names o' \<times> ont_ends o' \<times> ont_ends o')"

lemma bounded_by_pass:
  assumes "bounded_by H o' w"
  shows "bounded_by H o' (fst (engine_pass H p rules w))"
proof (rule engine_pass_invariant [where P = "bounded_by H o'"
      and Q = "\<lambda>k. kind_over (ont_names o') k \<and> k \<in> derivable_kinds (ont_names o')"
      and R = "triple_over (ont_names o') (ont_ends o')"])
  fix v r k assume "bounded_by H o' v" "k \<in> new_kinds r (kinds v)"
  then show "kind_over (ont_names o') k \<and> k \<in> derivable_kinds (ont_names o')"
    by (auto simp: bounded_by_def all_facts_def dest: new_kinds_over)
next
  fix v r t assume "bounded_by H o' v" "t \<in> new_triples r (kinds v) (triples v)"
  then show "triple_over (ont_names o') (ont_ends o') t"
    by (auto simp: bounded_by_def all_facts_def dest: new_triples_over)
next
  fix v k assume "bounded_by H o' v" "kind_over (ont_names o') k \<and> k \<in> derivable_kinds (ont_names o')"
  then show "bounded_by H o' (upsert_axiom (axiom_with_provenance p (axiom_new H k)) v)"
    using kinds_upsert(1) [of "axiom_with_provenance p (axiom_new H k)" v]
    by (auto simp: bounded_by_def all_facts_def triples_upsert)
next
  fix v t assume "bounded_by H o' v" "triple_over (ont_names o') (ont_ends o') t"
  then show "bounded_by H o' (upsert_edge (triple_edge H t) v)"
    using triples_upsert(1) [of "triple_edge H t" v]
    by (auto simp: bounded_by_def all_facts_def kinds_upsert triple_over_def simp del: triple_edge_eq)
qed (use assms in auto)

lemma bounded_by_count:
  assumes "bounded_by H o' w"
  shows "fact_count w \<le> fact_count o' + fact_bound o'"
proof -
  let ?N = "ont_names o'" and ?V = "ont_ends o'"
  let ?A = "(\<lambda>k. axiom_id_of H (canonical k)) ` derivable_kinds ?N"
  let ?E = "(\<lambda>t. e_id (triple_edge H t)) ` (?N \<times> ?V \<times> ?V)"
  have a: "card (fst ` set (o_axioms w)) \<le> card (fst ` set (o_axioms o')) + card ?A"
    using assms derivable_kinds_card(1) [of ?N]
    by (intro le_trans [OF card_mono card_Un_le]) (auto simp: bounded_by_def)
  have e: "card (fst ` set (o_edges w)) \<le> card (fst ` set (o_edges o')) + card ?E"
    using assms by (intro le_trans [OF card_mono card_Un_le]) (auto simp: bounded_by_def)
  have "card ?A \<le> 3 * (card ?N)\<^sup>2"
    using card_image_le [OF derivable_kinds_card(1)] derivable_kinds_card(2) [of ?N] le_trans finite_names by blast
  moreover have "card ?E \<le> card (?N \<times> ?V \<times> ?V)" by (rule card_image_le) simp
  then have "card ?E \<le> card ?N * (card ?V)\<^sup>2" by (simp add: card_cartesian_product power2_eq_square)
  ultimately show ?thesis using a e by (simp add: fact_count_def fact_bound_def)
qed

lemma reason_loop_terminates:
  assumes "bounded_by H o' w" "fact_count o' + fact_bound o' < cap - i + fact_count w"
  shows "\<exists>n w'. reason_loop H p rules cap i w = Inr (n, w')"
  using assms
proof (induction "cap - i" arbitrary: i w)
  case 0
  with bounded_by_count [OF 0(2)] show ?case by simp
next
  case (Suc m)
  let ?w = "fst (engine_pass H p rules w)"
  have m: "m = cap - Suc i" "\<not> cap \<le> i" using Suc.hyps(2) by simp_all
  show ?case
  proof (cases "snd (engine_pass H p rules w)")
    case True
    with engine_pass_grows [of w H p rules] have "fact_count w < fact_count ?w" by (simp add: grows_def)
    with Suc.prems(2) m Suc.hyps(2) have "fact_count o' + fact_bound o' < cap - Suc i + fact_count ?w" by linarith
    from Suc.hyps(1) [OF m(1) bounded_by_pass [OF Suc.prems(1)] this] True m(2) show ?thesis
      by (subst reason_loop_eq) simp
  next
    case False
    with m(2) show ?thesis by (subst reason_loop_eq) simp
  qed
qed


section \<open>Closure by content\<close>

text \<open>
  The loop tests presence by id. Presence by content follows when the ids of the facts over the
  ontology's names are distinct and the stored facts carry the id of their content.
\<close>

definition ids_faithful :: "hasher \<Rightarrow> ontology \<Rightarrow> bool" where
  "ids_faithful H o' \<longleftrightarrow>
     inj_on (\<lambda>k. axiom_id_of H (canonical k)) {k. kind_over (ont_names o') k} \<and>
     inj_on (\<lambda>t. e_id (triple_edge H t)) (ont_names o' \<times> ont_ends o' \<times> ont_ends o') \<and>
     (\<forall>(i, a) \<in> set (o_axioms o'). i = axiom_id_of H (canonical (ax_kind a))) \<and>
     (\<forall>(i, e) \<in> set (o_edges o'). i = e_id (triple_edge H (edge_triple e)))"

lemma bounded_by_start: "bounded_by H o' o'"
  by (simp add: bounded_by_def over_start)

lemma bounded_by_loop: "reason_loop H p rules cap i o' = Inr (n, w) \<Longrightarrow> bounded_by H o' w"
  by (rule reason_loop_invariant [where P = "bounded_by H o'", OF bounded_by_start]) (auto intro: bounded_by_pass)

lemma stored_facts:
  "map_of (o_axioms w) i = Some a \<Longrightarrow> ax_kind a \<in> kinds w"
  "map_of (o_edges w) j = Some e \<Longrightarrow> edge_triple e \<in> triples w"
  by (auto simp: kinds_def triples_def bm_values_def dest!: map_of_SomeD intro!: image_eqI)

lemma content_addressed_result:
  assumes wf: "ont_wf o'" and inv: "loop_inv H p o' w" and faithful: "ids_faithful H o'"
  shows "map_of (o_axioms w) i = Some a \<Longrightarrow> i = axiom_id_of H (canonical (ax_kind a))"
    and "map_of (o_edges w) j = Some e \<Longrightarrow> j = e_id (triple_edge H (edge_triple e))"
proof -
  from inv have wfw: "ont_wf w" and ext: "extends o' w" and der: "derived_ok H p o' w" by (simp_all add: loop_inv_def)
  show "i = axiom_id_of H (canonical (ax_kind a))" if a: "map_of (o_axioms w) i = Some a"
  proof (cases "map_of (o_axioms o') i")
    case None
    with der a have "ax_id a = axiom_id_of H (canonical (ax_kind a))" by (auto simp: derived_ok_def)
    with ont_wf_maps(2) [OF wfw] map_of_SomeD [OF a] show ?thesis by auto
  next
    case (Some a')
    with ext a have "a' = a" by (auto simp: extends_def)
    with map_of_SomeD [OF Some] faithful show ?thesis by (auto simp: ids_faithful_def)
  qed
  show "j = e_id (triple_edge H (edge_triple e))" if e: "map_of (o_edges w) j = Some e"
  proof (cases "map_of (o_edges o') j")
    case None
    with der e have "e = triple_edge H (edge_triple e)" by (auto simp: derived_ok_def edge_triple_def)
    moreover have "e_id e = j" using ont_wf_maps(4) [OF wfw] map_of_SomeD [OF e] by auto
    ultimately show ?thesis by metis
  next
    case (Some e')
    with ext e have "e' = e" by (auto simp: extends_def)
    with map_of_SomeD [OF Some] faithful show ?thesis by (auto simp: ids_faithful_def)
  qed
qed

lemma closed_by_content:
  assumes wf: "ont_wf o'" and loop: "reason_loop H p rules cap i o' = Inr (n, w)"
    and faithful: "ids_faithful H o'" and r: "r \<in> set rules"
  shows "new_kinds r (kinds w) = {}" "new_triples r (kinds w) (triples w) = {}"
proof -
  note inv = loop_inv_result [OF wf loop]
  note addr = content_addressed_result [OF wf inv faithful]
  from inv have wfw: "ont_wf w" by (simp add: loop_inv_def)
  from bounded_by_loop [OF loop] have over: "\<forall>k \<in> kinds w. kind_over (ont_names o') k"
    "\<forall>t \<in> triples w. triple_over (ont_names o') (ont_ends o') t" by (simp_all add: bounded_by_def all_facts_def)
  from reason_loop_closed [OF loop] r have closed:
    "\<And>k. k \<in> new_kinds r (kinds w) \<Longrightarrow> bm_contains (o_axioms w) (axiom_id_of H (canonical k))"
    "\<And>t. t \<in> new_triples r (kinds w) (triples w) \<Longrightarrow> bm_contains (o_edges w) (e_id (triple_edge H t))"
    by (auto simp: rules_closed_def)
  have fresh: "k \<in> new_kinds r K \<Longrightarrow> k \<notin> K" for k K by (cases r) auto
  have fresh': "t \<in> new_triples r K T \<Longrightarrow> t \<notin> T" for t K T by (cases r) auto
  show "new_kinds r (kinds w) = {}"
  proof (rule equals0I)
    fix k assume k: "k \<in> new_kinds r (kinds w)"
    from closed(1) [OF this] obtain a where a: "map_of (o_axioms w) (axiom_id_of H (canonical k)) = Some a"
      by (auto simp: bm_contains_def)
    then have "ax_kind a \<in> kinds w" by (rule stored_facts)
    moreover have "k = ax_kind a"
      using faithful addr(1) [OF a] new_kinds_over [OF over(1) k] over(1) calculation
      unfolding ids_faithful_def inj_on_def by blast
    ultimately show False using fresh [OF k] by simp
  qed
  show "new_triples r (kinds w) (triples w) = {}"
  proof (rule equals0I)
    fix t assume t: "t \<in> new_triples r (kinds w) (triples w)"
    from closed(2) [OF this] obtain e where e: "map_of (o_edges w) (e_id (triple_edge H t)) = Some e"
      by (auto simp: bm_contains_def)
    then have "edge_triple e \<in> triples w" by (rule stored_facts)
    moreover have "t = edge_triple e"
      using faithful addr(2) [OF e] new_triples_over [OF over t] over(2) calculation
      unfolding ids_faithful_def inj_on_def triple_over_def by blast
    ultimately show False using fresh' [OF t] by simp
  qed
qed

lemma extends_kinds: "ont_wf o' \<Longrightarrow> loop_inv H p o' w \<Longrightarrow> kinds o' \<subseteq> kinds w"
  unfolding kinds_def loop_inv_def extends_def
  by (intro image_mono subsetI) (simp add: bm_values_iff ont_wf_maps, blast)

section \<open>Properties\<close>

text \<open>C8: soundness of reasoning. Every model of the input ontology (axioms read as in OWL, edges
  as pairs of the property they name) satisfies every axiom and every edge \<open>Reasoner::run\<close>
  reports, whatever rule set and cap the reasoner has.\<close>

theorem reasoning_sound:
  assumes "reason_run H fresh t0 t1 r o' = Inr rep" "owl_models M o'" "ont_wf o'"
  shows "(\<forall>a \<in> set (rr_axioms rep). sat_kind M (ax_kind a)) \<and> (\<forall>e \<in> set (rr_edges rep). sat_triple M (edge_triple e))"
proof -
  obtain w where w:
    "reason_loop H fresh (re_rules r) (re_max r) 0 o' = Inr (rr_iterations rep, w)" and inv: "loop_inv H fresh o' w"
    and sets: "set (rr_axioms rep) = {a. map_of (o_axioms w) (ax_id a) = Some a \<and> map_of (o_axioms o') (ax_id a) = None}"
      "set (rr_edges rep) = {e. map_of (o_edges w) (e_id e) = Some e \<and> map_of (o_edges o') (e_id e) = None}"
    by (rule report_sets [OF assms(3,1)]) (rule that; assumption)
  have "ax_kind ` set (rr_axioms rep) \<subseteq> kinds w" "edge_triple ` set (rr_edges rep) \<subseteq> triples w"
    by (auto simp: sets intro: stored_facts)
  with reason_loop_sound [OF assms(2) w] show ?thesis by (auto simp: owl_models_def)
qed

text \<open>What a report holds. Derived axioms and edges come in strictly increasing id order, none
  of their ids is in the input, every derived axiom is stamped with the id of the run's activity and
  carries the content address of its kind, every derived edge is \<open>Edge::between\<close> of its triple,
  the activity is finished and credited to the reasoner's agent, and the number of passes is
  between 1 and the cap.\<close>

theorem report_contents:
  assumes "ont_wf o'" "reason_run H fresh t0 t1 r o' = Inr rep"
  shows "sorted_wrt (<) (map ax_id (rr_axioms rep)) \<and> sorted_wrt (<) (map e_id (rr_edges rep)) \<and>
    (\<forall>a \<in> set (rr_axioms rep). map_of (o_axioms o') (ax_id a) = None \<and>
       ax_prov a = Some (act_id (rr_activity rep)) \<and> ax_id a = axiom_id_of H (canonical (ax_kind a))) \<and>
    (\<forall>e \<in> set (rr_edges rep). map_of (o_edges o') (e_id e) = None \<and>
       e = edge_between H (e_source e) (e_label e) (e_target e)) \<and>
    act_ended (rr_activity rep) = Some t1 \<and> act_agent (rr_activity rep) = Some (re_agent r) \<and>
    1 \<le> rr_iterations rep \<and> rr_iterations rep \<le> re_max r"
proof -
  obtain w where w:
    "reason_loop H fresh (re_rules r) (re_max r) 0 o' = Inr (rr_iterations rep, w)"
    and inv: "loop_inv H fresh o' w"
    and a: "set (rr_axioms rep) = {a. map_of (o_axioms w) (ax_id a) = Some a \<and> map_of (o_axioms o') (ax_id a) = None}"
    and e: "set (rr_edges rep) = {e. map_of (o_edges w) (e_id e) = Some e \<and> map_of (o_edges o') (e_id e) = None}"
    and srt: "sorted_wrt (<) (map ax_id (rr_axioms rep))" "sorted_wrt (<) (map e_id (rr_edges rep))"
    by (rule report_sets [OF assms]) (rule that; assumption)
  have "rr_activity rep = activity_finish t1 (activity_with_attribute ''rules'' (JInt (int (length (re_rules r))))
       (activity_by (re_agent r) (activity_started fresh t0 ''reasoning'')))"
    by (rule reason_run_Inr [OF assms(2)])
  then have act: "act_id (rr_activity rep) = fresh"
    "act_ended (rr_activity rep) = Some t1" "act_agent (rr_activity rep) = Some (re_agent r)"
    by (auto simp: activity_finish_def activity_with_attribute_def activity_by_def activity_started_def)
  from inv have der: "derived_ok H fresh o' w" by (simp add: loop_inv_def)
  then have "\<forall>a \<in> set (rr_axioms rep). map_of (o_axioms o') (ax_id a) = None \<and>
       ax_prov a = Some (act_id (rr_activity rep)) \<and> ax_id a = axiom_id_of H (canonical (ax_kind a))"
    unfolding derived_ok_def a act by blast
  moreover from der have "\<forall>e \<in> set (rr_edges rep). map_of (o_edges o') (e_id e) = None \<and>
       e = edge_between H (e_source e) (e_label e) (e_target e)"
    unfolding derived_ok_def e by blast
  moreover have "1 \<le> rr_iterations rep" "rr_iterations rep \<le> re_max r"
    using reason_loop_iterations [OF w] by simp_all
  ultimately show ?thesis using srt act(2,3) by (intro conjI) (fact | assumption)+
qed

text \<open>\<open>Reasoner::materialize\<close> reaches a fixed point. It keeps every axiom and edge of the
  input under its id, leaves nodes, schema and vocabulary alone, keeps the ontology well-formed,
  and is idempotent: a second call on its result reports no new fact after one pass and returns the
  same ontology. On error the ontology is unchanged.\<close>

theorem materialize_fixpoint:
  assumes wf: "ont_wf o'" and mat: "reason_materialize H fresh t0 t1 r o' = (res, o2)"
  shows "case res of Inl e \<Rightarrow> o2 = o' \<and> e = Cycle (re_max r)
    | Inr rep \<Rightarrow> ont_wf o2 \<and> extends o' o2 \<and>
        (\<exists>again. reason_materialize H fresh' t2 t3 r o2 = (Inr again, o2) \<and> rr_is_clean again \<and> rr_iterations again = 1)"
proof (cases res)
  case (Inl e)
  with mat show ?thesis
    by (auto simp: reason_materialize_def reason_run_def Let_def dest: reason_loop_error split: sum.splits)
next
  case (Inr rep)
  note m = materialize_working [OF wf mat [unfolded Inr]]
  have wf2: "ont_wf o2" and ext: "extends o' o2" using m(3) by (simp_all add: loop_inv_def)
  have cap: "0 < re_max r" using reason_loop_iterations [OF m(2)] by simp
  have pass: "engine_pass H p (re_rules r) o2 = (o2, False)" for p
    by (rule engine_pass_closed [OF reason_loop_closed [OF m(2)]])
  then have loop: "reason_loop H fresh' (re_rules r) (re_max r) 0 o2 = Inr (1, o2)"
    using cap by (subst reason_loop_eq) simp
  have empty: "filter (\<lambda>(i, _). i \<notin> set (bm_keys m)) m = []" for m :: "('k, 'v) bmap"
    by (auto simp: bm_keys_def filter_empty_conv image_iff)
  from loop obtain again where "reason_run H fresh' t2 t3 r o2 = Inr again"
    "rr_axioms again = []" "rr_edges again = []" "rr_iterations again = 1"
    by (auto simp: reason_run_def Let_def empty)
  then have "reason_materialize H fresh' t2 t3 r o2 = (Inr again, o2)" "rr_is_clean again" "rr_iterations again = 1"
    by (simp_all add: reason_materialize_def rr_is_clean_def)
  with Inr wf2 ext show ?thesis by auto
qed


text \<open>C7: completeness of \<open>materialize\<close> for the standard rules. When the ids of the facts over the
  ontology's names are distinct and stored facts carry the id of their content, the materialised
  ontology is closed: subclass chains, equivalences, inverses, and symmetric, transitive and inverse
  properties have all their consequences, with the exception the code makes for a chain that returns
  to where it started (no \<open>A \<sqsubseteq> A\<close>, no transitive self-loop).\<close>

theorem materialize_closed:
  assumes wf: "ont_wf o'" and std: "set rules_standard \<subseteq> set (re_rules r)" and faithful: "ids_faithful H o'"
    and mat: "reason_materialize H fresh t0 t1 r o' = (Inr rep, o2)"
  shows "(\<forall>a b c. SubClassOf a b \<in> kinds o2 \<and> SubClassOf b c \<in> kinds o2 \<and> a \<noteq> c \<longrightarrow> SubClassOf a c \<in> kinds o2) \<and>
    (\<forall>a b. EquivalentClass a b \<in> kinds o2 \<longrightarrow>
       EquivalentClass b a \<in> kinds o2 \<and> SubClassOf a b \<in> kinds o2 \<and> SubClassOf b a \<in> kinds o2) \<and>
    (\<forall>p q. InverseOf p q \<in> kinds o2 \<longrightarrow> InverseOf q p \<in> kinds o2 \<and>
       (\<forall>a b. (p, a, b) \<in> triples o2 \<longleftrightarrow> (q, b, a) \<in> triples o2)) \<and>
    (\<forall>p a b. Symmetric p \<in> kinds o2 \<and> (p, a, b) \<in> triples o2 \<longrightarrow> (p, b, a) \<in> triples o2) \<and>
    (\<forall>p a b c. Transitive p \<in> kinds o2 \<and> (p, a, b) \<in> triples o2 \<and> (p, b, c) \<in> triples o2 \<and> a \<noteq> c \<longrightarrow>
       (p, a, c) \<in> triples o2)"
proof -
  note m = materialize_working [OF wf mat]
  have std_rule: "new_kinds rl (kinds o2) = {} \<and> new_triples rl (kinds o2) (triples o2) = {}" for rl
    using closed_by_content [OF wf m(2) faithful, of rl] std by (cases rl) (auto simp: rules_standard_def)
  note k = conjunct1 [OF std_rule] and t = conjunct2 [OF std_rule]
  have "SubClassOf a c \<in> kinds o2" if "SubClassOf a b \<in> kinds o2" "SubClassOf b c \<in> kinds o2" "a \<noteq> c" for a b c
    using k [of SubClassTransitivity] that by auto
  moreover have "EquivalentClass b a \<in> kinds o2 \<and> SubClassOf a b \<in> kinds o2 \<and> SubClassOf b a \<in> kinds o2"
    if "EquivalentClass a b \<in> kinds o2" for a b
    using k [of EquivalentSymmetry] k [of EquivalentToSubClass] that by auto
  moreover have inv: "InverseOf q p \<in> kinds o2" if "InverseOf p q \<in> kinds o2" for p q
    using k [of InverseOfSymmetry] that by auto
  moreover have inv': "(q, b, a) \<in> triples o2" if "InverseOf p q \<in> kinds o2" "(p, a, b) \<in> triples o2" for p q a b
    using t [of InverseOfMaterializes] that by auto
  moreover have "(p, b, a) \<in> triples o2" if "Symmetric p \<in> kinds o2" "(p, a, b) \<in> triples o2" for p a b
    using t [of PropertySymmetry] that by auto
  moreover have "(p, a, c) \<in> triples o2"
    if "Transitive p \<in> kinds o2" "(p, a, b) \<in> triples o2" "(p, b, c) \<in> triples o2" "a \<noteq> c" for p a b c
    using t [of PropertyTransitivity] that by auto
  ultimately show ?thesis by (intro conjI allI impI iffI; (elim conjE)?; blast)
qed

text \<open>C35: the reasoner converges. A cap above the number of facts the rules can name over the
  ontology (three axiom kinds over pairs of names, one edge per name and pair of endpoints) is
  never reached, and the run then returns a report within the cap. Whatever the cap, reaching it is the
  only error a run can return, and a run that reaches it had a cap of at most that number.\<close>

theorem reasoning_terminates:
  "(fact_bound o' < re_max r \<longrightarrow> (\<exists>rep. reason_run H fresh t0 t1 r o' = Inr rep \<and> rr_iterations rep \<le> re_max r)) \<and>
   (\<forall>e. reason_run H fresh t0 t1 r o' = Inl e \<longrightarrow> e = Cycle (re_max r) \<and> re_max r \<le> fact_bound o')"
proof -
  have runs: "\<exists>rep. reason_run H fresh t0 t1 r o' = Inr rep \<and> rr_iterations rep \<le> re_max r" if "fact_bound o' < re_max r"
  proof -
    from that have "fact_count o' + fact_bound o' < re_max r - 0 + fact_count o'" by simp
    from reason_loop_terminates [OF bounded_by_start this, where p = fresh and rules = "re_rules r"] obtain n w where
      "reason_loop H fresh (re_rules r) (re_max r) 0 o' = Inr (n, w)" by blast
    with reason_loop_iterations [OF this] show ?thesis by (simp add: reason_run_def Let_def)
  qed
  have "e = Cycle (re_max r)" if "reason_run H fresh t0 t1 r o' = Inl e" for e
    using that reason_loop_error [of H fresh "re_rules r" "re_max r" 0 o'] by (auto simp: reason_run_def Let_def split: sum.splits)
  with runs show ?thesis by (metis linorder_not_less sum.distinct(1))
qed

section \<open>A concrete run\<close>

definition reason_ex_H :: hasher where
  "reason_ex_H c x = x"

definition reason_ex :: ontology where
  "reason_ex = upsert_axiom (axiom_new reason_ex_H (SubClassOf ''A'' ''B''))
     (upsert_axiom (axiom_new reason_ex_H (SubClassOf ''B'' ''C'')) ontology_new)"

lemma reason_ex_facts:
  "ont_wf reason_ex" "kinds reason_ex = {SubClassOf ''A'' ''B'', SubClassOf ''B'' ''C''}" "triples reason_ex = {}"
proof -
  show "ont_wf reason_ex" by (simp add: reason_ex_def)
  show "kinds reason_ex = {SubClassOf ''A'' ''B'', SubClassOf ''B'' ''C''}" "triples reason_ex = {}"
    by (auto simp: reason_ex_def kinds_def triples_def bm_values_def ontology_new_def upsert_axiom_def
        axiom_id_of_def reason_ex_H_def bm_set_insert)
qed

lemma reason_ex_bound: "fact_bound reason_ex < re_max reasoner_new"
proof -
  have "ont_names reason_ex = {''A'', ''B'', ''C''}" "ont_ends reason_ex = {}"
    by (auto simp: ont_names_def ont_ends_def reason_ex_facts)
  then show ?thesis by (simp add: fact_bound_def reasoner_new_def reasoner_with_rules_def power2_eq_square)
qed

lemma reason_ex_faithful: "ids_faithful reason_ex_H reason_ex"
proof -
  have names: "ont_names reason_ex = {''A'', ''B'', ''C''}" and ends: "ont_ends reason_ex = {}"
    by (auto simp: ont_names_def ont_ends_def reason_ex_facts)
  have bar: "bar_free k" if "kind_over (ont_names reason_ex) k" for k
    using that by (cases k) (auto simp: kind_over_def names bar_free_def)
  have "inj_on (\<lambda>k. axiom_id_of reason_ex_H (canonical k)) {k. kind_over (ont_names reason_ex) k}"
    by (rule inj_onI) (auto simp: axiom_id_of_def reason_ex_H_def intro: canonical_inj bar)
  moreover have "\<forall>(i, a) \<in> set (o_axioms reason_ex). i = axiom_id_of reason_ex_H (canonical (ax_kind a))"
    "\<forall>(i, e) \<in> set (o_edges reason_ex). i = e_id (triple_edge reason_ex_H (edge_triple e))"
    by (auto simp: reason_ex_def ontology_new_def upsert_axiom_def bm_set_insert)
  ultimately show ?thesis unfolding ids_faithful_def by (simp add: ends)
qed

lemma reason_ex_runs:
  obtains rep o2 where "reason_run reason_ex_H p t0 t1 reasoner_new reason_ex = Inr rep"
    "reason_materialize reason_ex_H p t0 t1 reasoner_new reason_ex = (Inr rep, o2)"
proof -
  from reason_ex_bound have "fact_count reason_ex + fact_bound reason_ex < re_max reasoner_new - 0 + fact_count reason_ex"
    by simp
  from reason_loop_terminates [OF bounded_by_start this, where p = p and rules = "re_rules reasoner_new"] obtain n w where
    "reason_loop reason_ex_H p (re_rules reasoner_new) (re_max reasoner_new) 0 reason_ex = Inr (n, w)" by blast
  then obtain rep where "reason_run reason_ex_H p t0 t1 reasoner_new reason_ex = Inr rep"
    by (simp add: reason_run_def Let_def)
  then show thesis by (intro that) (simp_all add: reason_materialize_def)
qed

lemma reasoning_terminates_witness:
  "\<exists>rep. reason_run reason_ex_H (ProvenanceId [1]) 0 1 reasoner_new reason_ex = Inr rep \<and>
     rr_iterations rep \<le> re_max reasoner_new"
  using reasoning_terminates [of reason_ex reasoner_new] reason_ex_bound by blast

lemma materialize_closed_witness:
  "SubClassOf ''A'' ''C'' \<in> kinds (snd (reason_materialize reason_ex_H (ProvenanceId [1]) 0 1 reasoner_new reason_ex))"
proof (rule reason_ex_runs)
  fix rep o2
  assume mat: "reason_materialize reason_ex_H (ProvenanceId [1]) 0 1 reasoner_new reason_ex = (Inr rep, o2)"
  have "set rules_standard \<subseteq> set (re_rules reasoner_new)" by (simp add: reasoner_new_def reasoner_with_rules_def)
  note closed = materialize_closed [OF reason_ex_facts(1) this reason_ex_faithful mat]
  have "kinds reason_ex \<subseteq> kinds o2"
    by (rule extends_kinds [OF reason_ex_facts(1) materialize_working(3) [OF reason_ex_facts(1) mat]])
  then have "SubClassOf ''A'' ''B'' \<in> kinds o2" "SubClassOf ''B'' ''C'' \<in> kinds o2" by (simp_all add: reason_ex_facts)
  then have "SubClassOf ''A'' ''C'' \<in> kinds o2"
    by (intro conjunct1 [OF closed, rule_format, of "''A''" "''B''" "''C''"]) simp_all
  with mat show ?thesis by simp
qed

lemma materialize_fixpoint_witness:
  "\<exists>rep o2 again. reason_materialize reason_ex_H (ProvenanceId [1]) 0 1 reasoner_new reason_ex = (Inr rep, o2) \<and>
     reason_materialize reason_ex_H (ProvenanceId [2]) 2 3 reasoner_new o2 = (Inr again, o2) \<and> rr_is_clean again"
proof (rule reason_ex_runs)
  fix rep o2
  assume mat: "reason_materialize reason_ex_H (ProvenanceId [1]) 0 1 reasoner_new reason_ex = (Inr rep, o2)"
  from materialize_fixpoint [OF reason_ex_facts(1) this, of "ProvenanceId [2]" 2 3] mat show ?thesis by auto
qed

lemma report_contents_witness:
  "\<exists>rep. reason_run reason_ex_H (ProvenanceId [1]) 0 1 reasoner_new reason_ex = Inr rep \<and>
     (\<forall>a \<in> set (rr_axioms rep). ax_prov a = Some (act_id (rr_activity rep)))"
proof (rule reason_ex_runs)
  fix rep o2
  assume run: "reason_run reason_ex_H (ProvenanceId [1]) 0 1 reasoner_new reason_ex = Inr rep"
  from report_contents [OF reason_ex_facts(1) this] run show ?thesis by auto
qed

lemma reasoning_sound_witness:
  "\<exists>rep. reason_run reason_ex_H (ProvenanceId [1]) 0 1 reasoner_new reason_ex = Inr rep \<and>
     (\<forall>a \<in> set (rr_axioms rep). sat_kind \<lparr>m_class = (\<lambda>c. if c = ''A'' then {1} else {1, 2 :: nat}), m_prop = \<lambda>_. {},
        m_node = \<lambda>_. 0\<rparr> (ax_kind a))"
proof (rule reason_ex_runs)
  fix rep o2
  let ?M = "\<lparr>m_class = (\<lambda>c. if c = ''A'' then {1} else {1, 2 :: nat}), m_prop = \<lambda>_. {}, m_node = \<lambda>_. 0\<rparr>"
  assume run: "reason_run reason_ex_H (ProvenanceId [1]) 0 1 reasoner_new reason_ex = Inr rep"
  have "owl_models ?M reason_ex" by (simp add: owl_models_def reason_ex_facts)
  from reasoning_sound [OF run this reason_ex_facts(1)] run show ?thesis by auto
qed

end
