(* ===== verification/Validate.thy ===== *)
theory Validate
  imports Core_Ontology
begin

text \<open>
  \<open>crates/atomr-ontology-validate/src/report.rs\<close>, \<open>shapes.rs\<close>, \<open>consistency.rs\<close> and
  \<open>lib.rs\<close>: findings and reports, the shape checks against the schema and the consistency checks
  against the axioms. A \<open>format!\<close> message is kept as its arguments. The iteration order of the
  \<open>HashMap\<close> of subclass edges is an argument, \<open>order\<close>.
\<close>

section \<open>Reports\<close>

datatype severity = SevInfo | SevWarning | SevError

datatype finding_text =
    CardinalityText node_id "32 word" string cardinality
  | DatatypeText node_id string datatype_tag
  | DomainText edge_id node_id "string list"
  | RangeText edge_id node_id "string list"
  | DisjointText node_id string string
  | FunctionalText string node_id
  | SubclassCycleText string
  | GivenText string

record finding =
  vf_severity :: severity
  vf_code :: string
  vf_message :: finding_text
  vf_focus :: "string option"

definition vf_error :: "string \<Rightarrow> finding_text \<Rightarrow> finding" where
  [code_defs]: "vf_error code msg = \<lparr>vf_severity = SevError, vf_code = code, vf_message = msg, vf_focus = None\<rparr>"

definition vf_warning :: "string \<Rightarrow> finding_text \<Rightarrow> finding" where
  [code_defs]: "vf_warning code msg = \<lparr>vf_severity = SevWarning, vf_code = code, vf_message = msg, vf_focus = None\<rparr>"

definition vf_at :: "string \<Rightarrow> finding \<Rightarrow> finding" where
  [code_defs]: "vf_at focus f = f\<lparr>vf_focus := Some focus\<rparr>"

type_synonym report = "finding list"

definition vr_push :: "finding \<Rightarrow> report \<Rightarrow> report" where
  [code_defs]: "vr_push f r = r @ [f]"

definition vr_extend :: "report \<Rightarrow> report \<Rightarrow> report" where
  [code_defs]: "vr_extend other r = r @ other"

definition vr_is_clean :: "report \<Rightarrow> bool" where
  [code_defs]: "vr_is_clean r \<longleftrightarrow> \<not> list_ex (\<lambda>f. vf_severity f = SevError) r"

definition vr_errors :: "report \<Rightarrow> finding list" where
  [code_defs]: "vr_errors r = filter (\<lambda>f. vf_severity f = SevError) r"

section \<open>Shapes\<close>

text \<open>The \<open>Display\<close> of an id is the hex form of its bytes.\<close>

type_synonym id_display = "bytes \<Rightarrow> string"

fun value_matches_datatype :: "property_value \<Rightarrow> datatype_tag \<Rightarrow> bool" where
  "value_matches_datatype (PString _) d \<longleftrightarrow> d = DString"
| "value_matches_datatype (PInteger _) d \<longleftrightarrow> d = DInteger"
| "value_matches_datatype (PFloat _) d \<longleftrightarrow> d = DFloat"
| "value_matches_datatype (PBool _) d \<longleftrightarrow> d = DBool"
| "value_matches_datatype (PDateTime _) d \<longleftrightarrow> d = DDateTime"
| "value_matches_datatype (PIri _) d \<longleftrightarrow> d = DIri"
| "value_matches_datatype (PBytes _) d \<longleftrightarrow> d = DBytes"
| "value_matches_datatype (PJson _) d \<longleftrightarrow> d = DJson"
| "value_matches_datatype PNull d \<longleftrightarrow> True"

definition type_in_chain :: "ontology \<Rightarrow> node \<Rightarrow> string list \<Rightarrow> bool" where
  [code_defs]: "type_in_chain o' n allowed =
     list_ex (\<lambda>ty. list_ex (\<lambda>s. list_ex (\<lambda>a. a = s) allowed) (supertypes_of (o_schema o') ty)) (n_types n)"

definition check_property :: "id_display \<Rightarrow> node \<Rightarrow> property_type \<Rightarrow> report \<Rightarrow> report" where
  [code_defs]: "check_property hexe n p r =
     (let value = map_of (n_props n) (pt_name p);
          count = (if value = None then 0 else 1 :: 32 word);
          focus = hexe (node_id_bytes (n_id n));
          r = (if \<not> card_contains (pt_card p) count
               then vr_push (vf_at focus (vf_error ''cardinality.violation''
                      (CardinalityText (n_id n) count (pt_name p) (pt_card p)))) r
               else r)
      in case value of
           None \<Rightarrow> r
         | Some v \<Rightarrow>
             if \<not> value_matches_datatype v (pt_datatype p)
             then vr_push (vf_at focus (vf_warning ''datatype.mismatch''
                    (DatatypeText (n_id n) (pt_name p) (pt_datatype p)))) r
             else r)"

definition check_node_type :: "id_display \<Rightarrow> ontology \<Rightarrow> node \<Rightarrow> string \<Rightarrow> report \<Rightarrow> report" where
  [code_defs]: "check_node_type hexe o' n ty r =
     (case node_type (o_schema o') ty of
        None \<Rightarrow> r
      | Some nt \<Rightarrow> fold (check_property hexe n) (nt_props nt) r)"

definition check_node :: "id_display \<Rightarrow> ontology \<Rightarrow> node \<Rightarrow> report \<Rightarrow> report" where
  [code_defs]: "check_node hexe o' n r = fold (check_node_type hexe o' n) (n_types n) r"

definition check_end ::
    "id_display \<Rightarrow> ontology \<Rightarrow> edge \<Rightarrow> node_id \<Rightarrow> string list \<Rightarrow> string \<Rightarrow> (edge_id \<Rightarrow> node_id \<Rightarrow> string list \<Rightarrow> finding_text) \<Rightarrow>
       report \<Rightarrow> report" where
  [code_defs]: "check_end hexe o' e i allowed code text r =
     (if allowed \<noteq> [] then
        (case ont_node o' i of
           None \<Rightarrow> r
         | Some n \<Rightarrow>
             if \<not> type_in_chain o' n allowed
             then vr_push (vf_at (hexe (edge_id_bytes (e_id e))) (vf_error code (text (e_id e) i allowed))) r
             else r)
      else r)"

definition check_edge :: "id_display \<Rightarrow> ontology \<Rightarrow> edge \<Rightarrow> report \<Rightarrow> report" where
  [code_defs]: "check_edge hexe o' e r =
     (case edge_type (o_schema o') (e_label e) of
        None \<Rightarrow> r
      | Some et \<Rightarrow>
          check_end hexe o' e (e_target e) (et_range et) ''edge.range'' RangeText
            (check_end hexe o' e (e_source e) (et_domain et) ''edge.domain'' DomainText r))"

definition check_shapes :: "id_display \<Rightarrow> ontology \<Rightarrow> report" where
  [code_defs]: "check_shapes hexe o' =
     fold (check_edge hexe o') (bm_values (o_edges o'))
       (fold (check_node hexe o') (bm_values (o_nodes o')) [])"

section \<open>Consistency\<close>

definition disjoint_pairs :: "ontology \<Rightarrow> (string \<times> string) list" where
  [code_defs]: "disjoint_pairs o' =
     fold (\<lambda>k ps. case k of DisjointWith l r \<Rightarrow> ps @ [(l, r)] | _ \<Rightarrow> ps) (axiom_kinds o') []"

definition functional_props :: "ontology \<Rightarrow> string list" where
  [code_defs]: "functional_props o' =
     fold (\<lambda>k s. case k of Functional p \<Rightarrow> bs_insert p s | _ \<Rightarrow> s) (axiom_kinds o') []"

definition subclass_edges :: "ontology \<Rightarrow> (string, string list) bmap" where
  [code_defs]: "subclass_edges o' =
     fold (\<lambda>k m. case k of SubClassOf sub super \<Rightarrow> idx_push sub super m | _ \<Rightarrow> m) (axiom_kinds o') []"

definition check_disjoint :: "id_display \<Rightarrow> (string \<times> string) list \<Rightarrow> node \<Rightarrow> report \<Rightarrow> report" where
  [code_defs]: "check_disjoint hexe pairs n r =
     fold (\<lambda>(a, b) r.
        if a \<in> set (n_types n) \<and> b \<in> set (n_types n)
        then vr_push (vf_at (hexe (node_id_bytes (n_id n))) (vf_error ''axiom.disjoint'' (DisjointText (n_id n) a b))) r
        else r) pairs r"

text \<open>The counter per label and source, and the report.\<close>

definition check_functional ::
    "id_display \<Rightarrow> string list \<Rightarrow> edge \<Rightarrow> (string \<times> node_id, nat) bmap \<times> report \<Rightarrow> (string \<times> node_id, nat) bmap \<times> report" where
  [code_defs]: "check_functional hexe functional e s =
     (if e_label e \<in> set functional then
        let key = (e_label e, e_source e);
            counter = Suc (case map_of (fst s) key of Some c \<Rightarrow> c | None \<Rightarrow> 0)
        in (bm_insert key counter (fst s),
            if counter > 1
            then vr_push (vf_at (hexe (edge_id_bytes (e_id e))) (vf_error ''axiom.functional''
                   (FunctionalText (e_label e) (e_source e)))) (snd s)
            else snd s)
      else s)"

text \<open>
  \<open>has_cycle\<close>: the head of the list is the top of the stack; \<open>up == start\<close> returns from inside the
  loop over the successors, before any further step.
\<close>

function cycle_loop :: "string \<Rightarrow> (string, string list) bmap \<Rightarrow> string list \<Rightarrow> string set \<Rightarrow> bool" where
  "cycle_loop start edges [] seen = False"
| "cycle_loop start edges (n # stack) seen =
     (if n \<in> seen then cycle_loop start edges stack seen
      else case map_of edges n of
             None \<Rightarrow> cycle_loop start edges stack (insert n seen)
           | Some ups \<Rightarrow>
               if list_ex (\<lambda>up. up = start) ups then True
               else cycle_loop start edges (rev ups @ stack) (insert n seen))"
  by pat_completeness auto
termination
proof (relation "measures
    [\<lambda>(start, edges, stack, seen). card (fst ` set edges - seen), \<lambda>(start, edges, stack, seen). length stack]")
  fix start :: string and edges :: "(string, string list) bmap" and n stack seen ups
  assume "n \<notin> seen" "map_of edges n = Some ups"
  then have "n \<in> fst ` set edges - seen" by (metis DiffI domI dom_map_of_conv_image_fst)
  then have "card (fst ` set edges - insert n seen) < card (fst ` set edges - seen)"
    by (intro psubset_card_mono) auto
  then show "((start, edges, rev ups @ stack, insert n seen), start, edges, n # stack, seen) \<in> measures
    [\<lambda>(start, edges, stack, seen). card (fst ` set edges - seen), \<lambda>(start, edges, stack, seen). length stack]" by simp
next
  fix start :: string and edges :: "(string, string list) bmap" and n stack and seen :: "string set"
  have "card (fst ` set edges - insert n seen) \<le> card (fst ` set edges - seen)" by (intro card_mono) auto
  then show "((start, edges, stack, insert n seen), start, edges, n # stack, seen) \<in> measures
    [\<lambda>(start, edges, stack, seen). card (fst ` set edges - seen), \<lambda>(start, edges, stack, seen). length stack]" by auto
qed auto

definition has_cycle :: "string \<Rightarrow> (string, string list) bmap \<Rightarrow> bool" where
  [code_defs]: "has_cycle start edges = cycle_loop start edges [start] {}"

definition check_consistency :: "id_display \<Rightarrow> (string list \<Rightarrow> string list) \<Rightarrow> ontology \<Rightarrow> report" where
  [code_defs]: "check_consistency hexe order o' =
     (let pairs = disjoint_pairs o'; functional = functional_props o'; edges = subclass_edges o';
          r1 = fold (check_disjoint hexe pairs) (bm_values (o_nodes o')) [];
          r2 = snd (fold (check_functional hexe functional) (bm_values (o_edges o')) ([], r1))
      in fold (\<lambda>start r. if has_cycle start edges
                 then vr_push (vf_error ''axiom.subclass.cycle'' (SubclassCycleText start)) r else r)
           (order (bm_keys edges)) r2)"

definition validate :: "id_display \<Rightarrow> (string list \<Rightarrow> string list) \<Rightarrow> ontology \<Rightarrow> report" where
  [code_defs]: "validate hexe order o' =
     vr_extend (check_consistency hexe order o') (vr_extend (check_shapes hexe o') [])"

section \<open>Reports without errors\<close>

lemma clean_simps [simp]:
  "vr_is_clean []" "vr_is_clean (vr_push f r) \<longleftrightarrow> vr_is_clean r \<and> vf_severity f \<noteq> SevError"
  "vr_is_clean (vr_extend r' r) \<longleftrightarrow> vr_is_clean r \<and> vr_is_clean r'"
  "vf_severity (vf_error c m) = SevError" "vf_severity (vf_warning c m) = SevWarning"
  "vf_severity (vf_at x f) = vf_severity f"
  by (auto simp: vr_is_clean_def vr_push_def vr_extend_def vf_error_def vf_warning_def vf_at_def)

lemma clean_fold:
  "(\<And>x r. x \<in> set xs \<Longrightarrow> vr_is_clean (f x r) \<longleftrightarrow> vr_is_clean r \<and> P x) \<Longrightarrow>
     vr_is_clean (fold f xs r) \<longleftrightarrow> vr_is_clean r \<and> (\<forall>x \<in> set xs. P x)"
  by (induction xs arbitrary: r) auto

text \<open>What a node owes a declared property and an edge end owes its declared types.\<close>

definition property_ok :: "node \<Rightarrow> property_type \<Rightarrow> bool" where
  "property_ok n p \<longleftrightarrow> card_contains (pt_card p) (if map_of (n_props n) (pt_name p) = None then 0 else 1)"

definition end_ok :: "ontology \<Rightarrow> node_id \<Rightarrow> string list \<Rightarrow> bool" where
  "end_ok o' i allowed \<longleftrightarrow> (allowed = [] \<or>
     (\<forall>n. ont_node o' i = Some n \<longrightarrow>
        (\<exists>ty \<in> set (n_types n). \<exists>s. (ty, s) \<in> (supertype_rel (o_schema o'))\<^sup>* \<and> s \<in> set allowed)))"

lemma type_in_chain_iff:
  "type_in_chain o' n allowed \<longleftrightarrow>
     (\<exists>ty \<in> set (n_types n). \<exists>s. (ty, s) \<in> (supertype_rel (o_schema o'))\<^sup>* \<and> s \<in> set allowed)"
  by (auto simp: type_in_chain_def list_ex_iff supertypes_of_set)

lemma check_property_clean: "vr_is_clean (check_property hexe n p r) \<longleftrightarrow> vr_is_clean r \<and> property_ok n p"
  by (auto simp: check_property_def Let_def property_ok_def split: option.split)

lemma check_node_type_clean:
  "vr_is_clean (check_node_type hexe o' n ty r) \<longleftrightarrow>
     vr_is_clean r \<and> (\<forall>nt. node_type (o_schema o') ty = Some nt \<longrightarrow> (\<forall>p \<in> set (nt_props nt). property_ok n p))"
  by (cases "node_type (o_schema o') ty") (auto simp: check_node_type_def clean_fold [OF check_property_clean])

lemma check_node_clean:
  "vr_is_clean (check_node hexe o' n r) \<longleftrightarrow> vr_is_clean r \<and>
     (\<forall>ty \<in> set (n_types n). \<forall>nt. node_type (o_schema o') ty = Some nt \<longrightarrow> (\<forall>p \<in> set (nt_props nt). property_ok n p))"
  unfolding check_node_def by (rule clean_fold [OF check_node_type_clean])

lemma check_end_clean:
  "vr_is_clean (check_end hexe o' e i allowed code text r) \<longleftrightarrow> vr_is_clean r \<and> end_ok o' i allowed"
  by (auto simp: check_end_def end_ok_def type_in_chain_iff split: option.split)

lemma check_edge_clean:
  "vr_is_clean (check_edge hexe o' e r) \<longleftrightarrow> vr_is_clean r \<and>
     (\<forall>et. edge_type (o_schema o') (e_label e) = Some et \<longrightarrow>
        end_ok o' (e_source e) (et_domain et) \<and> end_ok o' (e_target e) (et_range et))"
  by (auto simp: check_edge_def check_end_clean split: option.split)

lemma check_disjoint_clean:
  "vr_is_clean (check_disjoint hexe pairs n r) \<longleftrightarrow> vr_is_clean r \<and>
     (\<forall>(a, b) \<in> set pairs. \<not> (a \<in> set (n_types n) \<and> b \<in> set (n_types n)))"
  unfolding check_disjoint_def by (rule clean_fold) (auto split: prod.split)

section \<open>What the axioms collect\<close>

lemma set_collected:
  "set (disjoint_pairs o') = {(a, b). DisjointWith a b \<in> kinds o'}"
  "set (functional_props o') = {p. Functional p \<in> kinds o'}"
proof -
  have "set (fold (\<lambda>k ps. case k of DisjointWith l r \<Rightarrow> ps @ [(l, r)] | _ \<Rightarrow> ps) ks ps) =
      set ps \<union> {(a, b). DisjointWith a b \<in> set ks}" for ks ps
    by (induction ks arbitrary: ps) (auto split: axiom_kind.splits)
  then show "set (disjoint_pairs o') = {(a, b). DisjointWith a b \<in> kinds o'}" by (simp add: disjoint_pairs_def)
  have "set (fold (\<lambda>k s. case k of Functional p \<Rightarrow> bs_insert p s | _ \<Rightarrow> s) ks s) =
      set s \<union> {p. Functional p \<in> set ks}" for ks s
    by (induction ks arbitrary: s) (auto split: axiom_kind.splits)
  then show "set (functional_props o') = {p. Functional p \<in> kinds o'}" by (simp add: functional_props_def)
qed

lemma subclass_edges_get: "set (idx_get (subclass_edges o') a) = {b. SubClassOf a b \<in> kinds o'}"
proof -
  have "set (idx_get (fold (\<lambda>k m. case k of SubClassOf sub super \<Rightarrow> idx_push sub super m | _ \<Rightarrow> m) ks m) a) =
      set (idx_get m a) \<union> {b. SubClassOf a b \<in> set ks}" for ks m
    by (induction ks arbitrary: m) (auto split: axiom_kind.splits)
  then show ?thesis by (simp add: subclass_edges_def)
qed

section \<open>The functional check\<close>

definition edge_key :: "edge \<Rightarrow> string \<times> node_id" where
  "edge_key e = (e_label e, e_source e)"

definition counted :: "string list \<Rightarrow> edge list \<Rightarrow> string \<times> node_id \<Rightarrow> nat" where
  "counted functional es k = length (filter (\<lambda>e. e_label e \<in> set functional \<and> edge_key e = k) es)"

lemma counted_snoc:
  "counted functional (es @ [e]) k =
     (if e_label e \<in> set functional \<and> edge_key e = k then Suc (counted functional es k) else counted functional es k)"
  by (simp add: counted_def)

lemma functional_fold:
  "(\<forall>k. (case map_of (fst (fold (check_functional hexe functional) es ([], r))) k of Some c \<Rightarrow> c | None \<Rightarrow> 0) =
      counted functional es k) \<and>
   (vr_is_clean (snd (fold (check_functional hexe functional) es ([], r))) \<longleftrightarrow>
      vr_is_clean r \<and> distinct (map edge_key (filter (\<lambda>e. e_label e \<in> set functional) es)))"
proof (induction es rule: rev_induct)
  case Nil
  then show ?case by (simp add: counted_def)
next
  case (snoc e es)
  let ?s = "fold (check_functional hexe functional) es ([], r)"
  from snoc have cnt: "(case map_of (fst ?s) k of Some c \<Rightarrow> c | None \<Rightarrow> 0) = counted functional es k" for k by blast
  show ?case
  proof (cases "e_label e \<in> set functional")
    case True
    let ?c = "Suc (counted functional es (edge_key e))"
    have step: "check_functional hexe functional e ?s =
        (bm_insert (edge_key e) ?c (fst ?s),
         if ?c > 1 then vr_push (vf_at (hexe (edge_id_bytes (e_id e))) (vf_error ''axiom.functional''
              (FunctionalText (e_label e) (e_source e)))) (snd ?s) else snd ?s)"
      using True cnt [of "edge_key e"] by (simp add: check_functional_def edge_key_def Let_def)
    have new: "?c > 1 \<longleftrightarrow> edge_key e \<in> set (map edge_key (filter (\<lambda>e. e_label e \<in> set functional) es))"
      by (auto simp: counted_def filter_empty_conv image_iff)
    have "(case map_of (bm_insert (edge_key e) ?c (fst ?s)) k of Some c \<Rightarrow> c | None \<Rightarrow> 0) =
        counted functional (es @ [e]) k" for k
      using cnt [of k] True by (simp add: counted_snoc)
    then show ?thesis using snoc True new by (simp add: step)
  next
    case False
    then have "check_functional hexe functional e ?s = ?s" by (simp add: check_functional_def)
    with snoc False show ?thesis by (simp add: counted_snoc)
  qed
qed

lemma edge_values_distinct:
  assumes "ont_wf o'"
  shows "distinct (bm_values (o_edges o'))" "e \<in> set (bm_values (o_edges o')) \<longleftrightarrow> ont_edge o' (e_id e) = Some e"
proof -
  have wf: "bm_wf (o_edges o')" and key: "\<forall>(k, e) \<in> set (o_edges o'). e_id e = k" using assms by (simp_all add: ont_wf_def)
  have "map e_id (bm_values (o_edges o')) = map fst (o_edges o')" using key by (auto simp: bm_values_def)
  with bm_wf_distinct [OF wf] have "distinct (map e_id (bm_values (o_edges o')))" by simp
  then show "distinct (bm_values (o_edges o'))" by (simp add: distinct_map)
  show "e \<in> set (bm_values (o_edges o')) \<longleftrightarrow> ont_edge o' (e_id e) = Some e"
    unfolding bm_values_iff [OF wf] ont_edge_def using key map_of_SomeD by fastforce
qed

section \<open>Cycle detection\<close>

definition succ_rel :: "(string, string list) bmap \<Rightarrow> (string \<times> string) set" where
  "succ_rel edges = {(a, b). b \<in> set (idx_get edges a)}"

lemma cycle_loop_sound:
  "cycle_loop start edges stack seen \<Longrightarrow> \<forall>n \<in> set stack. (start, n) \<in> (succ_rel edges)\<^sup>* \<Longrightarrow>
     (start, start) \<in> (succ_rel edges)\<^sup>+"
proof (induction start edges stack seen rule: cycle_loop.induct)
  case (2 start edges n stack seen)
  show ?case
  proof (cases "n \<in> seen")
    case True
    with 2 show ?thesis by simp
  next
    case False
    show ?thesis
    proof (cases "map_of edges n")
      case None
      with 2 False show ?thesis by simp
    next
      case (Some ups)
      then have ups: "(n, u) \<in> succ_rel edges \<longleftrightarrow> u \<in> set ups" for u by (simp add: succ_rel_def idx_get_def)
      have n: "(start, n) \<in> (succ_rel edges)\<^sup>*" using 2(5) by simp
      show ?thesis
      proof (cases "start \<in> set ups")
        case True
        with ups n show ?thesis by (meson rtrancl_into_trancl1)
      next
        case False': False
        then have "\<not> list_ex (\<lambda>up. up = start) ups" by (auto simp: list_ex_iff)
        moreover have "\<forall>m \<in> set (rev ups @ stack). (start, m) \<in> (succ_rel edges)\<^sup>*"
          using ups n 2(5) by (auto intro: rtrancl_into_rtrancl)
        ultimately show ?thesis using 2(3) [OF False Some] 2(4) False Some by simp
      qed
    qed
  qed
qed simp

lemma cycle_loop_complete:
  "\<not> cycle_loop start edges stack seen \<Longrightarrow>
     \<forall>n \<in> seen. \<forall>u. (n, u) \<in> succ_rel edges \<longrightarrow> u \<noteq> start \<and> u \<in> seen \<union> set stack \<Longrightarrow>
     \<exists>S. seen \<union> set stack \<subseteq> S \<and> (\<forall>n \<in> S. \<forall>u. (n, u) \<in> succ_rel edges \<longrightarrow> u \<noteq> start \<and> u \<in> S)"
proof (induction start edges stack seen rule: cycle_loop.induct)
  case (1 start edges seen)
  then show ?case by (intro exI [of _ seen]) simp
next
  case (2 start edges n stack seen)
  show ?case
  proof (cases "n \<in> seen")
    case True
    then have same: "seen \<union> set (n # stack) = seen \<union> set stack" by auto
    have "\<not> cycle_loop start edges stack seen" using 2(4) True by simp
    from 2(1) [OF True this] 2(5) show ?thesis unfolding same by blast
  next
    case False
    show ?thesis
    proof (cases "map_of edges n")
      case None
      then have "(n, u) \<notin> succ_rel edges" for u by (simp add: succ_rel_def idx_get_def)
      with 2(2) [OF False None] 2(4,5) False None show ?thesis by simp
    next
      case (Some ups)
      then have ups: "(n, u) \<in> succ_rel edges \<longleftrightarrow> u \<in> set ups" for u by (simp add: succ_rel_def idx_get_def)
      from 2(4) False Some have no: "\<not> list_ex (\<lambda>up. up = start) ups" by auto
      then have "start \<notin> set ups" by (auto simp: list_ex_iff)
      have closed: "\<forall>m \<in> insert n seen. \<forall>u. (m, u) \<in> succ_rel edges \<longrightarrow>
          u \<noteq> start \<and> u \<in> insert n seen \<union> set (rev ups @ stack)"
      proof (intro ballI allI impI)
        fix m u assume m: "m \<in> insert n seen" and u: "(m, u) \<in> succ_rel edges"
        show "u \<noteq> start \<and> u \<in> insert n seen \<union> set (rev ups @ stack)"
        proof (cases "m = n")
          case True
          with u ups \<open>start \<notin> set ups\<close> show ?thesis by auto
        next
          case False
          with m have "m \<in> seen" by simp
          with 2(5) u have "u \<noteq> start" "u \<in> seen \<union> set (n # stack)" by blast+
          then show ?thesis by auto
        qed
      qed
      have "\<not> cycle_loop start edges (rev ups @ stack) (insert n seen)"
        using 2(4) False Some no by simp
      from 2(3) [OF False Some no this closed] obtain S where
        "insert n seen \<union> set (rev ups @ stack) \<subseteq> S"
        "\<forall>n \<in> S. \<forall>u. (n, u) \<in> succ_rel edges \<longrightarrow> u \<noteq> start \<and> u \<in> S" by blast
      then show ?thesis by (intro exI [of _ S]) simp
    qed
  qed
qed

lemma has_cycle_iff: "has_cycle start edges \<longleftrightarrow> (start, start) \<in> (succ_rel edges)\<^sup>+"
proof
  show "has_cycle start edges \<Longrightarrow> (start, start) \<in> (succ_rel edges)\<^sup>+"
    unfolding has_cycle_def by (erule cycle_loop_sound) simp
next
  assume cyc: "(start, start) \<in> (succ_rel edges)\<^sup>+"
  show "has_cycle start edges"
  proof (rule ccontr)
    assume "\<not> has_cycle start edges"
    from cycle_loop_complete [OF this [unfolded has_cycle_def]] obtain S where
      S: "start \<in> S" "\<And>n u. n \<in> S \<Longrightarrow> (n, u) \<in> succ_rel edges \<Longrightarrow> u \<noteq> start \<and> u \<in> S" by auto
    from cyc have "start \<noteq> start \<and> start \<in> S"
      by (rule trancl_induct [where P = "\<lambda>u. u \<noteq> start \<and> u \<in> S"]) (use S in blast)+
    then show False by simp
  qed
qed

definition subclass_rel :: "ontology \<Rightarrow> (string \<times> string) set" where
  "subclass_rel o' = {(a, b). SubClassOf a b \<in> kinds o'}"

lemma succ_rel_subclass [simp]: "succ_rel (subclass_edges o') = subclass_rel o'"
  by (simp add: succ_rel_def subclass_edges_get subclass_rel_def)

lemma subclass_edges_keys: "(a, b) \<in> subclass_rel o' \<Longrightarrow> a \<in> set (bm_keys (subclass_edges o'))"
  using idx_get_in [of b "subclass_edges o'" a]
  by (auto simp: subclass_edges_get subclass_rel_def bm_keys_def dest!: map_of_SomeD intro: rev_image_eqI)

section \<open>Properties\<close>

text \<open>C40: a shape report has no error exactly when every node gives every property of every
  declared type it has a number of values (0 or 1) within the cardinality, and both existing ends of
  every edge of a declared type reach one of its domain and range types by the supertype relation.
  Datatype mismatches, undeclared types and dangling ends never make it fail.\<close>

theorem shapes_clean_iff:
  "vr_is_clean (check_shapes hexe o') \<longleftrightarrow>
     (\<forall>n \<in> set (bm_values (o_nodes o')). \<forall>ty \<in> set (n_types n). \<forall>nt. node_type (o_schema o') ty = Some nt \<longrightarrow>
        (\<forall>p \<in> set (nt_props nt).
           card_contains (pt_card p) (if map_of (n_props n) (pt_name p) = None then 0 else 1))) \<and>
     (\<forall>e \<in> set (bm_values (o_edges o')). \<forall>et. edge_type (o_schema o') (e_label e) = Some et \<longrightarrow>
        end_ok o' (e_source e) (et_domain et) \<and> end_ok o' (e_target e) (et_range et))"
  unfolding check_shapes_def clean_fold [OF check_edge_clean] clean_fold [OF check_node_clean] property_ok_def
  by simp

text \<open>C39: a consistency report has no error exactly when no node has both types of a disjointness
  axiom, no two edges of a functional property share their source, and the declared subclass relation
  has no cycle, in whatever order the hash map of subclass axioms is visited.\<close>

theorem consistency_clean_iff:
  assumes "ont_wf o'" "\<And>ks. set (order ks) = set ks"
  shows "vr_is_clean (check_consistency hexe order o') \<longleftrightarrow>
     (\<forall>a b. DisjointWith a b \<in> kinds o' \<longrightarrow>
        (\<forall>n \<in> set (bm_values (o_nodes o')). \<not> (a \<in> set (n_types n) \<and> b \<in> set (n_types n)))) \<and>
     (\<forall>p e e'. Functional p \<in> kinds o' \<and> ont_edge o' (e_id e) = Some e \<and> ont_edge o' (e_id e') = Some e' \<and>
        e_label e = p \<and> e_label e' = p \<and> e_source e = e_source e' \<longrightarrow> e = e') \<and>
     acyclic (subclass_rel o')"
proof -
  let ?es = "bm_values (o_edges o')" and ?edges = "subclass_edges o'"
  have cyc: "vr_is_clean (if has_cycle start ?edges
        then vr_push (vf_error ''axiom.subclass.cycle'' (SubclassCycleText start)) r else r) \<longleftrightarrow>
      vr_is_clean r \<and> (start, start) \<notin> (subclass_rel o')\<^sup>+" for start r
    by (simp add: has_cycle_iff)
  have acyc: "(\<forall>start \<in> set (order (bm_keys ?edges)). (start, start) \<notin> (subclass_rel o')\<^sup>+) \<longleftrightarrow> acyclic (subclass_rel o')"
    unfolding assms(2) acyclic_def using subclass_edges_keys by (metis tranclD)
  have "distinct (map edge_key (filter (\<lambda>e. e_label e \<in> set (functional_props o')) ?es)) \<longleftrightarrow>
      inj_on edge_key {e \<in> set ?es. Functional (e_label e) \<in> kinds o'}"
    using edge_values_distinct(1) [OF assms(1)] by (simp add: distinct_map set_collected)
  also have "\<dots> \<longleftrightarrow> (\<forall>p e e'. Functional p \<in> kinds o' \<and> ont_edge o' (e_id e) = Some e \<and> ont_edge o' (e_id e') = Some e' \<and>
        e_label e = p \<and> e_label e' = p \<and> e_source e = e_source e' \<longrightarrow> e = e')"
    by (auto simp: inj_on_def edge_values_distinct(2) [OF assms(1)] edge_key_def)
  finally have fun_iff: "distinct (map edge_key (filter (\<lambda>e. e_label e \<in> set (functional_props o')) ?es)) \<longleftrightarrow> \<dots>" .
  have disj: "(\<forall>n \<in> set (bm_values (o_nodes o')). \<forall>(a, b) \<in> set (disjoint_pairs o'). \<not> (a \<in> set (n_types n) \<and> b \<in> set (n_types n))) \<longleftrightarrow>
     (\<forall>a b. DisjointWith a b \<in> kinds o' \<longrightarrow>
        (\<forall>n \<in> set (bm_values (o_nodes o')). \<not> (a \<in> set (n_types n) \<and> b \<in> set (n_types n))))"
    by (auto simp: set_collected)
  show ?thesis
    unfolding check_consistency_def Let_def clean_fold [OF cyc] acyc conjunct2 [OF functional_fold] fun_iff
      clean_fold [OF check_disjoint_clean] disj
    by (simp only: clean_simps simp_thms conj_assoc)
qed

text \<open>The subclass check reports exactly the classes that lie on a cycle of declared subclass
  axioms: a class is named in a cycle finding if and only if it is its own proper ancestor.\<close>

theorem cycle_findings_exact:
  assumes "\<And>ks. set (order ks) = set ks"
  shows "{c. \<exists>f \<in> set (check_consistency hexe order o'). vf_message f = SubclassCycleText c} =
     {c. (c, c) \<in> (subclass_rel o')\<^sup>+}"
proof -
  let ?edges = "subclass_edges o'"
  define names :: "report \<Rightarrow> string set" where "names r = {c. \<exists>f \<in> set r. vf_message f = SubclassCycleText c}" for r
  have msg: "vf_message (vf_at x (vf_error c t)) = t" "vf_message (vf_error c t) = t" for x c t
    by (simp_all add: vf_at_def vf_error_def)
  have push: "names (vr_push f r) = names r \<union> {c. vf_message f = SubclassCycleText c}" for f r
    by (auto simp: names_def vr_push_def)
  have d: "names (fold (check_disjoint hexe (disjoint_pairs o')) ns []) = {}" for ns
  proof (rule fold_invariant [where P = "\<lambda>r. names r = {}"])
    show "names (check_disjoint hexe (disjoint_pairs o') n r) = {}" if "names r = {}" for n r
      unfolding check_disjoint_def
      by (rule fold_invariant [where P = "\<lambda>r. names r = {}", OF that]) (auto simp: push msg split: prod.split)
  qed (simp add: names_def)
  have fu: "names (snd (fold (check_functional hexe fs) es s)) = {}" if "names (snd s) = {}" for fs es s
    by (rule fold_invariant [where P = "\<lambda>s. names (snd s) = {}", OF that]) (simp add: check_functional_def Let_def push msg)
  have cy: "names (fold (\<lambda>start r. if has_cycle start ?edges
        then vr_push (vf_error ''axiom.subclass.cycle'' (SubclassCycleText start)) r else r) ks r) =
      names r \<union> {c \<in> set ks. has_cycle c ?edges}" for ks r
    by (induction ks arbitrary: r) (auto simp: push msg)
  have "names (check_consistency hexe order o') = {c \<in> set (bm_keys ?edges). has_cycle c ?edges}"
    unfolding check_consistency_def Let_def cy assms by (simp add: fu d)
  also have "\<dots> = {c. (c, c) \<in> (subclass_rel o')\<^sup>+}"
    unfolding has_cycle_iff succ_rel_subclass using subclass_edges_keys by (auto dest: tranclD)
  finally show ?thesis by (simp only: names_def)
qed

definition validate_ex :: ontology where
  "validate_ex = upsert_axiom (axiom_new (\<lambda>c x. x) (SubClassOf ''A'' ''B''))
     (upsert_axiom (axiom_new (\<lambda>c x. x) (SubClassOf ''B'' ''A'')) ontology_new)"

lemma validate_ex_facts: "ont_wf validate_ex" "subclass_rel validate_ex = {(''A'', ''B''), (''B'', ''A'')}"
proof -
  show "ont_wf validate_ex" by (simp add: validate_ex_def)
  show "subclass_rel validate_ex = {(''A'', ''B''), (''B'', ''A'')}"
    by (auto simp: subclass_rel_def validate_ex_def kinds_def bm_values_def ontology_new_def upsert_axiom_def
        axiom_id_of_def bm_set_insert)
qed

lemma consistency_clean_iff_witness: "\<not> vr_is_clean (check_consistency (\<lambda>b. ''id'') id validate_ex)"
proof -
  have "(''A'', ''A'') \<in> (subclass_rel validate_ex)\<^sup>+"
    by (rule trancl_trans [of _ "''B''"]) (simp_all add: validate_ex_facts r_into_trancl)
  then have "\<not> acyclic (subclass_rel validate_ex)" by (auto simp: acyclic_def)
  with consistency_clean_iff [OF validate_ex_facts(1), of id "\<lambda>b. ''id''"] show ?thesis by simp
qed

lemma shapes_clean_iff_witness:
  "\<not> vr_is_clean (check_shapes (\<lambda>b. ''id'')
     (upsert_node (node_from_iri (\<lambda>c x. x) (Iri ''i'') ''Person'')
       (ontology_new\<lparr>o_schema :=
          declare_node_type (nt_with_property (pt_required_string ''name'') (nt_new ''Person'')) schema_new\<rparr>)))"
  unfolding shapes_clean_iff
  by (simp add: code_defs bm_values_def)

lemma cycle_findings_exact_witness:
  "\<exists>f \<in> set (check_consistency (\<lambda>b. ''id'') rev validate_ex). vf_message f = SubclassCycleText ''B''"
proof -
  have "(''B'', ''B'') \<in> (subclass_rel validate_ex)\<^sup>+"
    by (rule trancl_trans [of _ "''A''"]) (simp_all add: validate_ex_facts r_into_trancl)
  with cycle_findings_exact [of rev "\<lambda>b. ''id''" validate_ex] show ?thesis by auto
qed

end
