(* ===== verification/Std_Text.thy ===== *)
theory Std_Text
  imports Core_Ids
begin

text \<open>
  Operations of Rust's standard library on UTF-8 byte strings that several parsers of the repository
  use: trimming, lines, character boundaries, encoding of a scalar value, numbers in digits.
\<close>

section \<open>Trimming, lines, characters\<close>

text \<open>\<open>trim_start\<close>, \<open>trim_end\<close>: a whitespace character is up to three bytes of UTF-8.\<close>

lemma string_cases3:
  obtains "s = []" | a where "s = [a]" | a b where "s = [a, b]" | a b c r where "s = a # b # c # r"
  by (metis list.exhaust)

lemma ws_prefix_le: "ws_prefix s \<le> length s"
  by (cases s rule: string_cases3) (simp_all add: ws_prefix_def)

function trim_start :: "string \<Rightarrow> string" where
  "trim_start s = (if ws_prefix s > 0 then trim_start (drop (ws_prefix s) s) else s)"
  by pat_completeness auto
termination
proof (relation "measure length")
  fix s assume "0 < ws_prefix s"
  then show "(drop (ws_prefix s) s, s) \<in> measure length" using ws_prefix_le [of s] by simp
qed simp

declare trim_start.simps [simp del]

definition ws_suffix :: "string \<Rightarrow> nat" where
  [code_defs]: "ws_suffix s =
     (if s = [] then 0
      else if ws_prefix (drop (length s - 1) s) = 1 then 1
      else if ws_prefix (drop (length s - 2) s) = 2 then 2
      else if ws_prefix (drop (length s - 3) s) = 3 then 3
      else 0)"

function trim_end :: "string \<Rightarrow> string" where
  "trim_end s = (if ws_suffix s > 0 then trim_end (take (length s - ws_suffix s) s) else s)"
  by pat_completeness auto
termination
proof (relation "measure length")
  fix s assume "0 < ws_suffix s"
  moreover from this have "s \<noteq> []" by (auto simp: ws_suffix_def)
  ultimately show "(take (length s - ws_suffix s) s, s) \<in> measure length" by simp
qed simp

declare trim_end.simps [simp del]

definition trim :: "string \<Rightarrow> string" where
  [code_defs]: "trim s = trim_end (trim_start s)"

text \<open>\<open>str::lines\<close>.\<close>

definition strip_cr :: "string \<Rightarrow> string" where
  [code_defs]: "strip_cr s = (if s \<noteq> [] \<and> last s = CHR 0x0D then butlast s else s)"

function str_lines :: "string \<Rightarrow> string list" where
  "str_lines s =
     (if s = [] then []
      else case split_once (CHR 0x0A) s of
             None \<Rightarrow> [s]
           | Some (a, b) \<Rightarrow> strip_cr a # str_lines b)"
  by pat_completeness auto
termination
proof (relation "measure length")
  fix s x a b assume "split_once (CHR 0x0A) s = Some x" "(a, b) = x"
  then have "s = a @ CHR 0x0A # b" using split_once_Some [of "CHR 0x0A" s a b] by auto
  then show "(b, s) \<in> measure length" by simp
qed simp

declare str_lines.simps [simp del]

text \<open>UTF-8 encoding of a scalar value, \<open>char::from_u32\<close> and \<open>u32::from_str_radix(_, 16)\<close>.\<close>

definition utf8_encode :: "nat \<Rightarrow> string" where
  [code_defs]: "utf8_encode n =
     (if n < 0x80 then [char_of n]
      else if n < 0x800 then [char_of (0xC0 + n div 64), char_of (0x80 + n mod 64)]
      else if n < 0x10000 then
        [char_of (0xE0 + n div 4096), char_of (0x80 + n div 64 mod 64), char_of (0x80 + n mod 64)]
      else [char_of (0xF0 + n div 262144), char_of (0x80 + n div 4096 mod 64), char_of (0x80 + n div 64 mod 64),
            char_of (0x80 + n mod 64)])"

definition char_from_u32 :: "nat \<Rightarrow> nat option" where
  [code_defs]: "char_from_u32 n = (if (0xD800 \<le> n \<and> n \<le> 0xDFFF) \<or> 0x10FFFF < n then None else Some n)"

definition hex_digit :: "char \<Rightarrow> nat option" where
  [code_defs]: "hex_digit c =
     (let n = of_char c :: nat
      in if 48 \<le> n \<and> n \<le> 57 then Some (n - 48)
         else if 97 \<le> n \<and> n \<le> 102 then Some (n - 87)
         else if 65 \<le> n \<and> n \<le> 70 then Some (n - 55)
         else None)"

definition from_str_radix16 :: "string \<Rightarrow> nat option" where
  [code_defs]: "from_str_radix16 s =
     (let ds = (if length s > 1 \<and> hd s = CHR ''+'' then tl s else s)
      in if ds = [] then None
         else fold (\<lambda>c acc. case (acc, hex_digit c) of (Some n, Some d) \<Rightarrow> Some (16 * n + d) | _ \<Rightarrow> None) ds (Some 0))"

text \<open>\<open>is_char_boundary\<close> at the start of a suffix of a UTF-8 string.\<close>

definition at_boundary :: "string \<Rightarrow> bool" where
  [code_defs]: "at_boundary s \<longleftrightarrow> (case s of [] \<Rightarrow> True | c # _ \<Rightarrow> (let n = of_char c :: nat in n < 0x80 \<or> 0xC0 \<le> n))"

section \<open>Trimming plain text\<close>

definition plain_char :: "char \<Rightarrow> bool" where
  [code_defs]: "plain_char c \<longleftrightarrow> (of_char c :: nat) < 0x80 \<and> ws_prefix [c] = 0"

lemma ws_prefix_ascii: "(of_char c :: nat) < 0x80 \<Longrightarrow> ws_prefix (c # cs) = ws_prefix [c]"
  by (simp add: ws_prefix_def)

lemma plain_ws: "plain_char c \<Longrightarrow> ws_prefix (c # cs) = 0"
  by (simp add: plain_char_def ws_prefix_ascii)

lemma plain_chars [simp]: "plain_char (CHR ''<'')" "plain_char (CHR ''>'')" "plain_char (CHR ''_'')" "plain_char (CHR '':'')"
  "plain_char (CHR ''.'')" "plain_char (CHR ''@'')" "plain_char (CHR 0x22)"
  by (simp_all add: plain_char_def ws_prefix_def)

lemma not_plain [simp]: "\<not> plain_char (CHR '' '')" "\<not> plain_char (CHR 0x0A)"
  by (simp_all add: plain_char_def ws_prefix_def)

lemma trim_start_plain [simp]: "plain_char c \<Longrightarrow> trim_start (c # cs) = c # cs"
  by (subst trim_start.simps) (simp add: plain_ws)

lemma trim_start_Nil [simp]: "trim_start [] = []"
  by (subst trim_start.simps) (simp add: ws_prefix_def)

lemma trim_start_space [simp]: "trim_start (CHR '' '' # s) = trim_start s"
  by (subst trim_start.simps) (simp add: ws_prefix_def)

lemma ws_whole: "1 < ws_prefix s \<Longrightarrow> ws_prefix s = length s \<Longrightarrow> 0x80 \<le> (of_char (last s) :: nat)"
  by (cases s rule: string_cases3) (auto simp: ws_prefix_def split: if_splits list.splits)

lemma ws_suffix_plain: "plain_char c \<Longrightarrow> ws_suffix (s @ [c]) = 0"
proof -
  assume c: "plain_char c"
  have no: "ws_prefix (drop (length (s @ [c]) - k) (s @ [c])) \<noteq> k" if "1 < k" for k
  proof
    let ?d = "drop (length (s @ [c]) - k) (s @ [c])"
    assume k: "ws_prefix ?d = k"
    have "length ?d \<le> k" by (simp only: length_drop)
    with k ws_prefix_le [of ?d] have "ws_prefix ?d = length ?d" by linarith
    with k that ws_whole [of ?d] have "0x80 \<le> (of_char (last ?d) :: nat)" by simp
    moreover have "length (s @ [c]) - k < length (s @ [c])" using that by simp
    then have "last ?d = last (s @ [c])" by (rule last_drop)
    ultimately show False using c by (simp only: last_snoc) (simp add: plain_char_def)
  qed
  have "ws_prefix [c] \<noteq> 1" using c by (simp add: plain_char_def)
  then show ?thesis using no [of 2] no [of 3] by (simp add: ws_suffix_def)
qed

lemma trim_end_plain [simp]: "plain_char c \<Longrightarrow> trim_end (s @ [c]) = s @ [c]"
  by (subst trim_end.simps) (simp add: ws_suffix_plain)

lemma trim_end_Nil [simp]: "trim_end [] = []"
  by (subst trim_end.simps) (simp add: ws_suffix_def)

lemma trim_end_space [simp]: "trim_end (s @ '' '') = trim_end s"
  by (subst trim_end.simps) (simp add: ws_suffix_def ws_prefix_def)

section \<open>Splitting\<close>

text \<open>\<open>str::split\<close> on one byte: the pieces between its occurrences, at least one.\<close>

fun str_split :: "char \<Rightarrow> string \<Rightarrow> string list" where
  "str_split c [] = [[]]"
| "str_split c (x # xs) =
     (if x = c then [] # str_split c xs
      else (case str_split c xs of [] \<Rightarrow> [[x]] | p # ps \<Rightarrow> (x # p) # ps))"

lemma str_split_ne [simp]: "str_split c s \<noteq> []"
  by (induction s) (auto split: list.split)

lemma str_split_join: "concat (map ((#) c) (str_split c s)) = c # s"
  by (induction s) (auto split: list.split)

lemma str_split_piece: "c \<notin> set a \<Longrightarrow> str_split c a = [a]"
  by (induction a) auto

lemma str_split_cons: "c \<notin> set a \<Longrightarrow> str_split c (a @ c # b) = a # str_split c b"
  by (induction a) auto

lemma str_split_concat:
  "(\<And>a. a \<in> set as \<Longrightarrow> c \<notin> set a) \<Longrightarrow> as \<noteq> [] \<Longrightarrow> str_split c (tl (concat (map ((#) c) as))) = as"
proof (induction as)
  case (Cons a as)
  then show ?case by (cases as) (simp_all add: str_split_piece str_split_cons)
qed simp

section \<open>Bytes pushed as characters\<close>

text \<open>Each byte pushed as a \<open>char\<close> of its own (\<open>b as char\<close>): the byte becomes the character with that code.\<close>

definition latin1_string :: "string \<Rightarrow> string" where
  [code_defs]: "latin1_string s = concat (map (\<lambda>c. utf8_encode (of_char c)) s)"

lemma utf8_encode_ascii: "(of_char c :: nat) < 0x80 \<Longrightarrow> utf8_encode (of_char c) = [c]"
  by (simp add: utf8_encode_def)

lemma utf8_encode_high: "\<not> (of_char c :: nat) < 0x80 \<Longrightarrow> length (utf8_encode (of_char c)) = 2"
proof -
  have "(of_char c :: nat) < 256" by simp
  then have "(of_char c :: nat) < 2048" by linarith
  then show "\<not> (of_char c :: nat) < 0x80 \<Longrightarrow> length (utf8_encode (of_char c)) = 2" by (simp add: utf8_encode_def)
qed

definition ascii :: "string \<Rightarrow> bool" where
  [code_defs]: "ascii s \<longleftrightarrow> list_all (\<lambda>c. (of_char c :: nat) < 0x80) s"

lemma latin1_length: "length s \<le> length (latin1_string s)" "\<not> ascii s \<Longrightarrow> length s < length (latin1_string s)"
proof -
  have one: "Suc 0 \<le> length (utf8_encode (of_char c))" for c
    using utf8_encode_ascii [of c] utf8_encode_high [of c] by (cases "(of_char c :: nat) < 0x80") auto
  show le: "length s \<le> length (latin1_string s)" for s
  proof (induction s)
    case (Cons c s)
    then show ?case using one [of c] by (simp add: latin1_string_def)
  qed (simp add: latin1_string_def)
  show "\<not> ascii s \<Longrightarrow> length s < length (latin1_string s)"
  proof (induction s)
    case (Cons c s)
    show ?case
    proof (cases "(of_char c :: nat) < 0x80")
      case True
      with Cons show ?thesis by (simp add: ascii_def latin1_string_def utf8_encode_ascii)
    next
      case False
      with le [of s] show ?thesis by (simp add: latin1_string_def utf8_encode_high)
    qed
  qed (simp add: ascii_def)
qed

lemma latin1_ascii: "latin1_string s = s \<longleftrightarrow> ascii s"
proof
  show "latin1_string s = s \<Longrightarrow> ascii s" using latin1_length(2) [of s] by force
  show "ascii s \<Longrightarrow> latin1_string s = s"
    by (induction s) (simp_all add: ascii_def latin1_string_def utf8_encode_ascii)
qed

section \<open>Numbers in digits\<close>

text \<open>\<open>Display\<close> of a signed integer; \<open>from_str_radix(_, 10)\<close> on a string of ASCII digits.\<close>

definition show_int :: "int \<Rightarrow> string" where
  [code_defs]: "show_int i = (if i < 0 then CHR ''-'' # show_nat (nat (- i)) else show_nat (nat i))"

definition is_ascii_digit :: "char \<Rightarrow> bool" where
  [code_defs]: "is_ascii_digit c \<longleftrightarrow> (let n = of_char c :: nat in 48 \<le> n \<and> n \<le> 57)"

definition digits_value :: "string \<Rightarrow> nat" where
  [code_defs]: "digits_value ds = foldl (\<lambda>n c. 10 * n + (of_char c - 48)) 0 ds"

lemma digit_char [simp]: "(k :: nat) < 10 \<Longrightarrow> is_ascii_digit (char_of (48 + k))"
  by (simp add: is_ascii_digit_def)

lemma digit_chars:
  "char_of (48 :: nat) = CHR ''0''" "char_of (49 :: nat) = CHR ''1''" "char_of (50 :: nat) = CHR ''2''"
  "char_of (51 :: nat) = CHR ''3''" "char_of (52 :: nat) = CHR ''4''" "char_of (53 :: nat) = CHR ''5''"
  "char_of (54 :: nat) = CHR ''6''" "char_of (55 :: nat) = CHR ''7''" "char_of (56 :: nat) = CHR ''8''"
  "char_of (57 :: nat) = CHR ''9''"
  by code_simp+

lemma show_nat_digits: "list_all is_ascii_digit (show_nat n)" "show_nat n \<noteq> []"
proof -
  have "list_all is_ascii_digit (show_nat n) \<and> show_nat n \<noteq> []"
  proof (induction n rule: show_nat.induct)
    case (1 n)
    then show ?case
      by (subst (1 2) show_nat.simps) auto
  qed
  then show "list_all is_ascii_digit (show_nat n)" "show_nat n \<noteq> []" by simp_all
qed

lemma digits_value_show_nat [simp]: "digits_value (show_nat n) = n"
proof (induction n rule: show_nat.induct)
  case (1 n)
  show ?case
  proof (cases "n < 10")
    case True
    then show ?thesis by (subst show_nat.simps) (simp add: digits_value_def)
  next
    case False
    with 1 have "digits_value (show_nat (n div 10)) = n div 10" by simp
    with False show ?thesis by (subst show_nat.simps) (simp add: digits_value_def)
  qed
qed

section \<open>Failing computations\<close>

text \<open>Rust's \<open>?\<close>: stop at the first error.\<close>

definition try_then :: "'e + 'a \<Rightarrow> ('a \<Rightarrow> 'e + 'b) \<Rightarrow> 'e + 'b" where
  [code_defs]: "try_then m f = (case m of Inl e \<Rightarrow> Inl e | Inr x \<Rightarrow> f x)"

lemma try_then_simps [simp]: "try_then (Inl e) f = Inl e" "try_then (Inr x) f = f x"
  by (simp_all add: try_then_def)

lemma try_then_cong [fundef_cong]:
  "m = m' \<Longrightarrow> (\<And>x. m' = Inr x \<Longrightarrow> f x = f' x) \<Longrightarrow> try_then m f = try_then m' f'"
  by (cases m') (simp_all add: try_then_def)

lemma try_then_Inr [simp]: "try_then m f = Inr y \<longleftrightarrow> (\<exists>x. m = Inr x \<and> f x = Inr y)"
  by (cases m) simp_all

end
