(* ===== verification/Rdf_Adapter.thy ===== *)
theory Rdf_Adapter
  imports Core_Ontology Std_Text
begin

text \<open>
  \<open>crates/atomr-ontology-rdf/src/triple.rs\<close> and \<open>adapter.rs\<close>: RDF terms, the projection of an
  ontology to triples and the partial import of its class hierarchy. \<open>Display\<close> of ids and of
  \<open>f64\<close>, chrono's and \<open>serde_json\<close>'s text forms are the fields of \<open>rdf_text\<close>.
\<close>

section \<open>Terms\<close>

datatype subject = SIri iri | SBlank string

datatype object = OIri iri | OBlank string | OLiteral string iri "string option"

record rdf_triple =
  t_subject :: subject
  t_predicate :: iri
  t_object :: object

definition triple_new :: "subject \<Rightarrow> iri \<Rightarrow> object \<Rightarrow> rdf_triple" where
  [code_defs]: "triple_new s p ob = \<lparr>t_subject = s, t_predicate = p, t_object = ob\<rparr>"

definition blank_n :: "64 word \<Rightarrow> subject" where
  [code_defs]: "blank_n n = SBlank (''n'' @ show_nat (unat n))"

text \<open>Text forms of the values this crate prints through the standard library and dependencies.\<close>

record rdf_text =
  rt_id :: "bytes \<Rightarrow> string"
  rt_f64 :: "64 word \<Rightarrow> string"
  rt_rfc3339 :: "int \<Rightarrow> string"
  rt_rfc3339_secs :: "int \<Rightarrow> string"
  rt_json :: "json \<Rightarrow> string"

definition xsd :: "string \<Rightarrow> iri" where
  [code_defs]: "xsd local_name = Iri (''http://www.w3.org/2001/XMLSchema#'' @ local_name)"

definition xsd_string :: "string \<Rightarrow> object" where
  [code_defs]: "xsd_string v = OLiteral v (xsd ''string'') None"

definition xsd_integer :: "64 word \<Rightarrow> object" where
  [code_defs]: "xsd_integer v = OLiteral (show_int (sint v)) (xsd ''integer'') None"

definition xsd_double :: "rdf_text \<Rightarrow> 64 word \<Rightarrow> object" where
  [code_defs]: "xsd_double rt v = OLiteral (rt_f64 rt v) (xsd ''double'') None"

definition xsd_boolean :: "bool \<Rightarrow> object" where
  [code_defs]: "xsd_boolean v = OLiteral (if v then ''true'' else ''false'') (xsd ''boolean'') None"

definition xsd_date_time :: "rdf_text \<Rightarrow> int \<Rightarrow> object" where
  [code_defs]: "xsd_date_time rt v = OLiteral (rt_rfc3339 rt v) (xsd ''dateTime'') None"

section \<open>Vocabulary\<close>

definition rdf_type :: iri where [code_defs]: "rdf_type = Iri ''http://www.w3.org/1999/02/22-rdf-syntax-ns#type''"
definition rdfs_subclass :: iri where [code_defs]: "rdfs_subclass = Iri ''http://www.w3.org/2000/01/rdf-schema#subClassOf''"
definition rdfs_domain :: iri where [code_defs]: "rdfs_domain = Iri ''http://www.w3.org/2000/01/rdf-schema#domain''"
definition rdfs_range :: iri where [code_defs]: "rdfs_range = Iri ''http://www.w3.org/2000/01/rdf-schema#range''"

definition owl :: "string \<Rightarrow> iri" where
  [code_defs]: "owl local_name = Iri (''http://www.w3.org/2002/07/owl#'' @ local_name)"

definition ensure_iri :: "string \<Rightarrow> string \<Rightarrow> vocabulary \<Rightarrow> iri" where
  [code_defs]: "ensure_iri name fallback vocab =
     (case expand_curie vocab name of
        Some i \<Rightarrow> i
      | None \<Rightarrow> if CHR '':'' \<in> set name then Iri name else Iri (fallback @ name))"

definition local_prefix :: string where
  [code_defs]: "local_prefix = ''https://atomr.dev/ontology/local#''"

fun datatype_iri :: "datatype_tag \<Rightarrow> iri" where
  "datatype_iri DString = xsd ''string''"
| "datatype_iri DInteger = xsd ''integer''"
| "datatype_iri DFloat = xsd ''double''"
| "datatype_iri DBool = xsd ''boolean''"
| "datatype_iri DDateTime = xsd ''dateTime''"
| "datatype_iri DIri = xsd ''anyURI''"
| "datatype_iri DBytes = xsd ''base64Binary''"
| "datatype_iri DJson = Iri ''http://www.w3.org/1999/02/22-rdf-syntax-ns#JSON''"

section \<open>Schema triples\<close>

text \<open>The code pushes onto one vector; each emitter returns what it pushes.\<close>

definition emit_property :: "vocabulary \<Rightarrow> iri \<Rightarrow> property_type \<Rightarrow> rdf_triple list" where
  [code_defs]: "emit_property vocab class_iri p =
     (let prop_iri = (case pt_iri p of Some i \<Rightarrow> i | None \<Rightarrow> ensure_iri (pt_name p) local_prefix vocab)
      in [triple_new (SIri prop_iri) rdf_type (OIri (owl ''DatatypeProperty'')),
          triple_new (SIri prop_iri) rdfs_domain (OIri class_iri),
          triple_new (SIri prop_iri) rdfs_range (OIri (datatype_iri (pt_datatype p)))])"

definition class_iri :: "vocabulary \<Rightarrow> string \<Rightarrow> node_type \<Rightarrow> iri" where
  [code_defs]: "class_iri vocab name ty =
     (case nt_iri ty of Some i \<Rightarrow> i | None \<Rightarrow> ensure_iri name local_prefix vocab)"

definition emit_node_type :: "vocabulary \<Rightarrow> string \<times> node_type \<Rightarrow> rdf_triple list" where
  [code_defs]: "emit_node_type vocab entry =
     (let ty = snd entry; c = class_iri vocab (fst entry) ty
      in triple_new (SIri c) rdf_type (OIri (owl ''Class'')) #
         map (\<lambda>s. triple_new (SIri c) rdfs_subclass (OIri (ensure_iri s local_prefix vocab))) (nt_supertypes ty) @
         concat (map (emit_property vocab c) (nt_props ty)))"

definition emit_edge_type :: "vocabulary \<Rightarrow> string \<times> edge_type \<Rightarrow> rdf_triple list" where
  [code_defs]: "emit_edge_type vocab entry =
     (let ty = snd entry;
          p = (case et_iri ty of Some i \<Rightarrow> i | None \<Rightarrow> ensure_iri (fst entry) local_prefix vocab)
      in triple_new (SIri p) rdf_type (OIri (owl ''ObjectProperty'')) #
         (if et_functional ty then [triple_new (SIri p) rdf_type (OIri (owl ''FunctionalProperty''))] else []) @
         (case et_inverse_of ty of
            None \<Rightarrow> []
          | Some other \<Rightarrow> [triple_new (SIri p) (owl ''inverseOf'') (OIri (ensure_iri other local_prefix vocab))]) @
         map (\<lambda>d. triple_new (SIri p) rdfs_domain (OIri (ensure_iri d local_prefix vocab))) (et_domain ty) @
         map (\<lambda>r. triple_new (SIri p) rdfs_range (OIri (ensure_iri r local_prefix vocab))) (et_range ty))"

definition emit_schema :: "schema \<Rightarrow> vocabulary \<Rightarrow> rdf_triple list" where
  [code_defs]: "emit_schema s vocab =
     concat (map (emit_node_type vocab) (s_node_types s)) @ concat (map (emit_edge_type vocab) (s_edge_types s))"

section \<open>Values\<close>

definition b64_table :: string where
  [code_defs]: "b64_table = ''ABCDEFGHIJKLMNOPQRSTUVWXYZabcdefghijklmnopqrstuvwxyz0123456789+/''"

definition b64_digit :: "32 word \<Rightarrow> nat \<Rightarrow> char" where
  [code_defs]: "b64_digit chunk k = b64_table ! unat (drop_bit k chunk AND 0x3F)"

fun base64_encode :: "bytes \<Rightarrow> string" where
  "base64_encode (a # b # c # rest) =
     (let chunk = push_bit 16 (ucast a) OR push_bit 8 (ucast b) OR ucast c
      in b64_digit chunk 18 # b64_digit chunk 12 # b64_digit chunk 6 # b64_digit chunk 0 # base64_encode rest)"
| "base64_encode [a, b] =
     (let chunk = push_bit 16 (ucast a) OR push_bit 8 (ucast b)
      in [b64_digit chunk 18, b64_digit chunk 12, b64_digit chunk 6, CHR ''=''])"
| "base64_encode [a] =
     (let chunk = push_bit 16 (ucast a) in [b64_digit chunk 18, b64_digit chunk 12, CHR ''='', CHR ''=''])"
| "base64_encode [] = []"

fun value_to_object :: "rdf_text \<Rightarrow> property_value \<Rightarrow> object option" where
  "value_to_object rt (PString s) = Some (xsd_string s)"
| "value_to_object rt (PInteger i) = Some (xsd_integer i)"
| "value_to_object rt (PFloat f) = Some (xsd_double rt f)"
| "value_to_object rt (PBool b) = Some (xsd_boolean b)"
| "value_to_object rt (PDateTime d) = Some (OLiteral (rt_rfc3339_secs rt d) (xsd ''dateTime'') None)"
| "value_to_object rt (PIri i) = Some (OIri i)"
| "value_to_object rt (PBytes b) = Some (OLiteral (base64_encode b) (xsd ''base64Binary'') None)"
| "value_to_object rt (PJson v) =
     Some (OLiteral (rt_json rt v) (Iri ''http://www.w3.org/1999/02/22-rdf-syntax-ns#JSON'') None)"
| "value_to_object rt PNull = None"

section \<open>Instance and axiom triples\<close>

definition node_subject :: "rdf_text \<Rightarrow> node \<Rightarrow> subject" where
  [code_defs]: "node_subject rt n =
     (case n_iri n of Some i \<Rightarrow> SIri i | None \<Rightarrow> SBlank (rt_id rt (node_id_bytes (n_id n))))"

definition node_object :: "rdf_text \<Rightarrow> node_id \<Rightarrow> ontology \<Rightarrow> object" where
  [code_defs]: "node_object rt i o' =
     (case Option.bind (ont_node o' i) n_iri of
        Some r \<Rightarrow> OIri r
      | None \<Rightarrow> OIri (Iri (''_:n'' @ rt_id rt (node_id_bytes i))))"

fun find_map :: "('a \<Rightarrow> 'b option) \<Rightarrow> 'a list \<Rightarrow> 'b option" where
  "find_map f [] = None"
| "find_map f (x # xs) = (case f x of Some y \<Rightarrow> Some y | None \<Rightarrow> find_map f xs)"

definition type_triple_iri :: "ontology \<Rightarrow> vocabulary \<Rightarrow> string \<Rightarrow> iri" where
  [code_defs]: "type_triple_iri o' vocab ty =
     (case Option.bind (node_type (o_schema o') ty) nt_iri of
        Some i \<Rightarrow> i | None \<Rightarrow> ensure_iri ty local_prefix vocab)"

definition property_iri :: "ontology \<Rightarrow> vocabulary \<Rightarrow> node \<Rightarrow> string \<Rightarrow> iri" where
  [code_defs]: "property_iri o' vocab n name =
     (case Option.bind (Option.bind (find_map (node_type (o_schema o')) (n_types n))
              (\<lambda>nt. List.find (\<lambda>p. pt_name p = name) (nt_props nt))) pt_iri of
        Some i \<Rightarrow> i | None \<Rightarrow> ensure_iri name local_prefix vocab)"

definition emit_node :: "rdf_text \<Rightarrow> ontology \<Rightarrow> vocabulary \<Rightarrow> node \<Rightarrow> rdf_triple list" where
  [code_defs]: "emit_node rt o' vocab n =
     map (\<lambda>ty. triple_new (node_subject rt n) rdf_type (OIri (type_triple_iri o' vocab ty))) (n_types n) @
     concat (map (\<lambda>(name, v).
       (case value_to_object rt v of
          None \<Rightarrow> []
        | Some ob \<Rightarrow> [triple_new (node_subject rt n) (property_iri o' vocab n name) ob])) (n_props n))"

definition emit_nodes :: "rdf_text \<Rightarrow> ontology \<Rightarrow> vocabulary \<Rightarrow> rdf_triple list" where
  [code_defs]: "emit_nodes rt o' vocab = concat (map (emit_node rt o' vocab) (bm_values (o_nodes o')))"

definition emit_edges :: "rdf_text \<Rightarrow> ontology \<Rightarrow> vocabulary \<Rightarrow> rdf_triple list" where
  [code_defs]: "emit_edges rt o' vocab =
     concat (map (\<lambda>e.
       (case ont_node o' (e_source e) of
          None \<Rightarrow> []
        | Some s \<Rightarrow>
            [triple_new (node_subject rt s)
              (case Option.bind (edge_type (o_schema o') (e_label e)) et_iri of
                 Some i \<Rightarrow> i | None \<Rightarrow> ensure_iri (e_label e) local_prefix vocab)
              (node_object rt (e_target e) o')])) (bm_values (o_edges o')))"

fun axiom_triple :: "vocabulary \<Rightarrow> axiom_kind \<Rightarrow> rdf_triple" where
  "axiom_triple v (SubClassOf a b) = triple_new (SIri (ensure_iri a local_prefix v)) rdfs_subclass (OIri (ensure_iri b local_prefix v))"
| "axiom_triple v (EquivalentClass a b) =
     triple_new (SIri (ensure_iri a local_prefix v)) (owl ''equivalentClass'') (OIri (ensure_iri b local_prefix v))"
| "axiom_triple v (DisjointWith a b) =
     triple_new (SIri (ensure_iri a local_prefix v)) (owl ''disjointWith'') (OIri (ensure_iri b local_prefix v))"
| "axiom_triple v (Domain p c) = triple_new (SIri (ensure_iri p local_prefix v)) rdfs_domain (OIri (ensure_iri c local_prefix v))"
| "axiom_triple v (Range p c) = triple_new (SIri (ensure_iri p local_prefix v)) rdfs_range (OIri (ensure_iri c local_prefix v))"
| "axiom_triple v (Functional p) = triple_new (SIri (ensure_iri p local_prefix v)) rdf_type (OIri (owl ''FunctionalProperty''))"
| "axiom_triple v (InverseFunctional p) =
     triple_new (SIri (ensure_iri p local_prefix v)) rdf_type (OIri (owl ''InverseFunctionalProperty''))"
| "axiom_triple v (InverseOf a b) =
     triple_new (SIri (ensure_iri a local_prefix v)) (owl ''inverseOf'') (OIri (ensure_iri b local_prefix v))"
| "axiom_triple v (Symmetric p) = triple_new (SIri (ensure_iri p local_prefix v)) rdf_type (OIri (owl ''SymmetricProperty''))"
| "axiom_triple v (Transitive p) = triple_new (SIri (ensure_iri p local_prefix v)) rdf_type (OIri (owl ''TransitiveProperty''))"

definition emit_axioms :: "ontology \<Rightarrow> vocabulary \<Rightarrow> rdf_triple list" where
  [code_defs]: "emit_axioms o' vocab = map (axiom_triple vocab) (axiom_kinds o')"

definition rdf_vocab :: "ontology \<Rightarrow> vocabulary" where
  [code_defs]: "rdf_vocab o' = (if o_vocab o' \<noteq> [] then o_vocab o' else with_standard_bindings)"

definition to_rdf :: "rdf_text \<Rightarrow> ontology \<Rightarrow> rdf_triple list" where
  [code_defs]: "to_rdf rt o' =
     (let vocab = rdf_vocab o'
      in emit_schema (o_schema o') vocab @ emit_nodes rt o' vocab @ emit_edges rt o' vocab @ emit_axioms o' vocab)"

section \<open>Import\<close>

definition is_sep :: "char \<Rightarrow> bool" where
  [code_defs]: "is_sep c \<longleftrightarrow> c = CHR ''#'' \<or> c = CHR ''/'' \<or> c = CHR '':''"

text \<open>What follows the last separator, or the whole string.\<close>

definition local_name :: "iri \<Rightarrow> string" where
  [code_defs]: "local_name i = rev (takeWhile (\<lambda>c. \<not> is_sep c) (rev (as_str i)))"

definition from_rdf_step :: "rdf_triple \<Rightarrow> ontology \<Rightarrow> ontology" where
  [code_defs]: "from_rdf_step t o' =
     (case t_subject t of
        SBlank _ \<Rightarrow> o'
      | SIri subj \<Rightarrow>
          if t_predicate t = rdf_type then
            (case t_object t of
               OIri ob \<Rightarrow>
                 if ob = owl ''Class''
                 then o'\<lparr>o_schema := declare_node_type (nt_with_iri subj (nt_new (local_name subj))) (o_schema o')\<rparr>
                 else if ob = owl ''ObjectProperty''
                 then o'\<lparr>o_schema := declare_edge_type (et_with_iri subj (et_new (local_name subj))) (o_schema o')\<rparr>
                 else o'
             | _ \<Rightarrow> o')
          else if t_predicate t = rdfs_subclass then
            (case t_object t of
               OIri super_iri \<Rightarrow>
                 let sub_name = local_name subj; sup_name = local_name super_iri;
                     existing = (case node_type (o_schema o') sub_name of
                                   Some ty \<Rightarrow> ty | None \<Rightarrow> nt_with_iri subj (nt_new sub_name));
                     existing = (if \<not> list_ex (\<lambda>s. s = sup_name) (nt_supertypes existing)
                                 then nt_with_supertype sup_name existing else existing)
                 in o'\<lparr>o_schema := declare_node_type existing (o_schema o')\<rparr>
             | _ \<Rightarrow> o')
          else o')"

definition from_rdf :: "rdf_triple list \<Rightarrow> ontology" where
  [code_defs]: "from_rdf ts = fold from_rdf_step ts ontology_new"

section \<open>Base64\<close>

text \<open>The decoder of RFC 4648, as the specification of the encoder.\<close>

definition b64_value :: "char \<Rightarrow> nat option" where
  [code_defs]: "b64_value c =
     (let k = length (takeWhile (\<lambda>x. x \<noteq> c) b64_table) in if k < 64 then Some k else None)"

fun base64_decode :: "string \<Rightarrow> bytes option" where
  "base64_decode [] = Some []"
| "base64_decode (p # q # r # s # rest) =
     (case (b64_value p, b64_value q) of
        (Some x, Some y) \<Rightarrow>
          if r = CHR ''='' \<and> s = CHR ''='' \<and> rest = [] then Some [of_nat (x * 4 + y div 16)]
          else (case b64_value r of
            None \<Rightarrow> None
          | Some z \<Rightarrow>
              if s = CHR ''='' \<and> rest = []
              then Some [of_nat (x * 4 + y div 16), of_nat (y mod 16 * 16 + z div 4)]
              else (case b64_value s of
                None \<Rightarrow> None
              | Some w \<Rightarrow>
                  map_option (\<lambda>bs. of_nat (x * 4 + y div 16) # of_nat (y mod 16 * 16 + z div 4) #
                    of_nat (z mod 4 * 64 + w) # bs) (base64_decode rest)))
      | _ \<Rightarrow> None)"
| "base64_decode _ = None"

lemma b64_table_props: "length b64_table = 64" "distinct b64_table" "CHR ''='' \<notin> set b64_table"
  by (simp_all add: b64_table_def)

lemma takeWhile_nth: "distinct xs \<Longrightarrow> k < length xs \<Longrightarrow> length (takeWhile (\<lambda>x. x \<noteq> xs ! k) xs) = k"
proof (induction xs arbitrary: k)
  case (Cons x xs)
  then show ?case by (cases k) auto
qed simp

lemma b64_value_nth: "k < 64 \<Longrightarrow> b64_value (b64_table ! k) = Some k"
  by (simp add: b64_value_def takeWhile_nth b64_table_props)

lemma b64_nth_neq: "k < 64 \<Longrightarrow> b64_table ! k \<noteq> CHR ''=''"
  using b64_table_props nth_mem [of k b64_table] by metis

lemma unat_chunk:
  "unat (push_bit 16 (ucast (a :: byte)) OR push_bit 8 (ucast (b :: byte)) OR ucast (c :: byte) :: 32 word) =
     unat a * 65536 + unat b * 256 + unat c"
proof -
  have lt: "unat a < 256" "unat b < 256" "unat c < 256"
    using unsigned_less [of a] unsigned_less [of b] unsigned_less [of c] by simp_all
  have u: "unat (ucast x :: 32 word) = unat x" for x :: byte     using unsigned_less [of x, where 'a = nat] by (simp add: unsigned_ucast_eq take_bit_eq_mod)
  have "push_bit 8 (ucast b) + ucast c = (push_bit 8 (ucast b) OR ucast c :: 32 word)"
    by (rule disjunctive_add) (auto simp: bit_simps dest: bit_imp_le_length)
  moreover have "push_bit 16 (ucast a) + (push_bit 8 (ucast b) OR ucast c) =
      (push_bit 16 (ucast a) OR (push_bit 8 (ucast b) OR ucast c) :: 32 word)"
    by (rule disjunctive_add) (auto simp: bit_simps dest: bit_imp_le_length)
  ultimately have "push_bit 16 (ucast a) OR push_bit 8 (ucast b) OR ucast c =
      push_bit 16 (ucast a) + (push_bit 8 (ucast b) + (ucast c :: 32 word))"
    by (simp add: or.assoc)
  also have "\<dots> = word_of_nat (unat a * 65536 + unat b * 256 + unat c)"
    by (simp add: push_bit_eq_mult)
  finally have eq: "push_bit 16 (ucast a) OR push_bit 8 (ucast b) OR ucast c =
      (word_of_nat (unat a * 65536 + unat b * 256 + unat c) :: 32 word)" .
  show ?thesis unfolding eq unat_of_nat using lt by simp
qed

lemma b64_digit_nat: "b64_digit chunk k = b64_table ! (unat chunk div 2 ^ k mod 64)"
proof -
  have "drop_bit k chunk AND 0x3F = take_bit 6 (drop_bit k chunk)"
    by (simp add: take_bit_eq_mask mask_eq_exp_minus_1)
  then have "unat (drop_bit k chunk AND 0x3F) = unat (take_bit 6 (drop_bit k chunk))" by (rule arg_cong)
  also have "\<dots> = unat chunk div 2 ^ k mod 64"
    unfolding unsigned_take_bit_eq unat_drop_bit_eq by (simp add: take_bit_eq_mod drop_bit_eq_div)
  finally show ?thesis by (simp only: b64_digit_def)
qed

lemma b64_digits:
  fixes a b c :: nat
  assumes "a < 256" "b < 256" "c < 256"
  defines "n \<equiv> a * 65536 + b * 256 + c"
  shows "n div 2 ^ 18 mod 64 = a div 4" "n div 2 ^ 12 mod 64 = a mod 4 * 16 + b div 16"
    "n div 2 ^ 6 mod 64 = b mod 16 * 4 + c div 64" "n div 2 ^ 0 mod 64 = c mod 64"
proof -
  define a1 a0 b1 b0 c1 c0 where d: "a1 = a div 4" "a0 = a mod 4" "b1 = b div 16" "b0 = b mod 16" "c1 = c div 64" "c0 = c mod 64"
  have lt: "a1 < 64" "a0 < 4" "b1 < 16" "b0 < 16" "c1 < 4" "c0 < 64" using assms by (simp_all add: d)
  have eqs: "a = a1 * 4 + a0" "b = b1 * 16 + b0" "c = c1 * 64 + c0" by (simp_all add: d)
  have n: "n = ((a1 * 64 + (a0 * 16 + b1)) * 64 + (b0 * 4 + c1)) * 64 + c0" by (simp add: n_def eqs)
  have sm: "a0 * 16 + b1 < 64" "b0 * 4 + c1 < 64" using lt by linarith+
  have n6: "n div 64 = (a1 * 64 + (a0 * 16 + b1)) * 64 + (b0 * 4 + c1)" using lt(6) by (simp add: n)
  have n12: "n div 4096 = a1 * 64 + (a0 * 16 + b1)"
  proof -
    have "n div 4096 = n div 64 div 64" by (simp add: div_mult2_eq [symmetric])
    then show ?thesis using sm(2) by (simp add: n6)
  qed
  have n18: "n div 262144 = a1"
  proof -
    have "n div 262144 = n div 4096 div 64" by (simp add: div_mult2_eq [symmetric])
    then show ?thesis using sm(1) by (simp add: n12)
  qed
  have low: "(x * 64 + y) mod 64 = y" if "y < 64" for x y :: nat using that by simp
  show "n div 2 ^ 18 mod 64 = a div 4" using lt by (simp add: n18 d(1) [symmetric])
  have "n div 4096 mod 64 = a0 * 16 + b1" unfolding n12 by (rule low [OF sm(1)])
  then show "n div 2 ^ 12 mod 64 = a mod 4 * 16 + b div 16" by (simp add: d)
  have "n div 64 mod 64 = b0 * 4 + c1" unfolding n6 by (rule low [OF sm(2)])
  then show "n div 2 ^ 6 mod 64 = b mod 16 * 4 + c div 64" by (simp add: d)
  have "n mod 64 = c0" unfolding n by (rule low [OF lt(6)])
  then show "n div 2 ^ 0 mod 64 = c mod 64" by (simp add: d)
qed

lemma byte_lt [simp]: "unat (x :: byte) < 256"
  using unsigned_less [of x] by simp

lemma byte_parts:
  fixes a b c :: byte
  shows "word_of_nat (unat a div 4 * 4 + (unat a mod 4 * 16 + unat b div 16) div 16) = a"
    "word_of_nat ((unat a mod 4 * 16 + unat b div 16) mod 16 * 16 + (unat b mod 16 * 4 + unat c div 64) div 4) = b"
    "word_of_nat ((unat b mod 16 * 4 + unat c div 64) mod 4 * 64 + unat c mod 64) = c"
proof -
  have lt: "unat b div 16 < 16" "unat c div 64 < 4" using byte_lt [of b] byte_lt [of c] by linarith+
  have "(unat a mod 4 * 16 + unat b div 16) div 16 = unat a mod 4" "(unat a mod 4 * 16 + unat b div 16) mod 16 = unat b div 16"
    "(unat b mod 16 * 4 + unat c div 64) div 4 = unat b mod 16" "(unat b mod 16 * 4 + unat c div 64) mod 4 = unat c div 64"
    using lt by simp_all
  then show "word_of_nat (unat a div 4 * 4 + (unat a mod 4 * 16 + unat b div 16) div 16) = a"
    "word_of_nat ((unat a mod 4 * 16 + unat b div 16) mod 16 * 16 + (unat b mod 16 * 4 + unat c div 64) div 4) = b"
    "word_of_nat ((unat b mod 16 * 4 + unat c div 64) mod 4 * 64 + unat c mod 64) = c"
    by simp_all
qed

lemma unat_chunk2: "unat (push_bit 16 (ucast (a :: byte)) OR push_bit 8 (ucast (b :: byte)) :: 32 word) =
     unat a * 65536 + unat b * 256 + 0"
  using unat_chunk [of a b 0] by simp

lemma unat_chunk1: "unat (push_bit 16 (ucast (a :: byte)) :: 32 word) = unat a * 65536 + 0 * 256 + 0"
  using unat_chunk [of a 0 0] by simp

lemma digit_bounds:
  fixes a b c :: byte
  shows "unat a div 4 < 64" "unat a mod 4 * 16 + unat b div 16 < 64" "unat b mod 16 * 4 + unat c div 64 < 64" "unat c mod 64 < 64"
proof -
  show "unat a div 4 < 64" using byte_lt [of a] by linarith
  have "unat b div 16 < 16" "unat a mod 4 < 4" using byte_lt [of b] by (linarith, simp)
  then show "unat a mod 4 * 16 + unat b div 16 < 64" by linarith
  have "unat c div 64 < 4" "unat b mod 16 < 16" using byte_lt [of c] by (linarith, simp)
  then show "unat b mod 16 * 4 + unat c div 64 < 64" by linarith
qed simp

lemmas b64_eval = base64_encode.simps Let_def b64_digit_nat base64_decode.simps b64_value_nth b64_nth_neq
  option.case prod.case option.map simp_thms if_False if_True

lemma b64_round_trip: "base64_decode (base64_encode bs) = Some bs"
proof (induction bs rule: base64_encode.induct)
  case (1 a b c rest)
  note d = b64_digits [OF byte_lt [of a] byte_lt [of b] byte_lt [of c]]
  show ?case by (simp only: b64_eval unat_chunk d digit_bounds byte_parts 1)
next
  case (2 a b)
  note d = b64_digits [OF byte_lt [of a] byte_lt [of b] byte_lt [of 0], unfolded unsigned_0]
  note lt = digit_bounds digit_bounds(3) [where c = 0, unfolded unsigned_0]
  have "word_of_nat (unat a div 4 * 4 + (unat a mod 4 * 16 + unat b div 16) div 16) = a"
    "word_of_nat ((unat a mod 4 * 16 + unat b div 16) mod 16 * 16 + (unat b mod 16 * 4 + 0 div 64) div 4) = b"
    using byte_parts(1) [where a = a and b = b] byte_parts(2) [where a = a and b = b and c = 0] by simp_all
  then show ?case by (simp only: b64_eval unat_chunk2 d lt)
next
  case (3 a)
  note d = b64_digits [OF byte_lt [of a] byte_lt [of 0] byte_lt [of 0], unfolded unsigned_0]
  note lt = digit_bounds digit_bounds(2) [where b = 0, unfolded unsigned_0]
  have "word_of_nat (unat a div 4 * 4 + (unat a mod 4 * 16 + 0 div 16) div 16) = a"
    using byte_parts(1) [where a = a and b = 0] by simp
  then show ?case by (simp only: b64_eval unat_chunk1 d lt)
qed simp

lemma b64_length: "length (base64_encode bs) = 4 * ((length bs + 2) div 3)"
proof (induction bs rule: base64_encode.induct)
  case (1 a b c rest)
  have "(5 + n) div 3 = Suc (Suc (Suc n) div 3)" for n :: nat by presburger
  with 1 show ?case by (simp add: Let_def)
qed (simp_all add: Let_def)

section \<open>What an import reads\<close>

definition class_decl :: "iri \<Rightarrow> rdf_triple" where
  "class_decl a = triple_new (SIri a) rdf_type (OIri (owl ''Class''))"

definition sub_decl :: "iri \<Rightarrow> iri \<Rightarrow> rdf_triple" where
  "sub_decl a b = triple_new (SIri a) rdfs_subclass (OIri b)"

lemma type_not_sub: "rdf_type \<noteq> rdfs_subclass"
  by (simp add: rdf_type_def rdfs_subclass_def)

lemma decl_distinct [simp]: "class_decl a \<noteq> sub_decl b c" "sub_decl b c \<noteq> class_decl a"
  "class_decl a = class_decl b \<longleftrightarrow> a = b" "sub_decl a b = sub_decl c d \<longleftrightarrow> a = c \<and> b = d"
  using type_not_sub by (auto simp: class_decl_def sub_decl_def triple_new_def)

definition add_super :: "string \<Rightarrow> node_type \<Rightarrow> node_type" where
  "add_super b ty = (if b \<in> set (nt_supertypes ty) then ty else nt_with_supertype b ty)"

definition named_class :: "iri \<Rightarrow> node_type" where
  "named_class a = nt_with_iri a (nt_new (local_name a))"

lemma nt_sel [simp]:
  "nt_name (nt_new n) = n" "nt_name (nt_with_iri i ty) = nt_name ty" "nt_name (nt_with_supertype s ty) = nt_name ty"
  "nt_iri (nt_with_iri i ty) = Some i" "nt_iri (nt_with_supertype s ty) = nt_iri ty"
  "nt_supertypes (nt_new n) = []" "nt_supertypes (nt_with_iri i ty) = nt_supertypes ty"
  "nt_supertypes (nt_with_supertype s ty) = nt_supertypes ty @ [s]"
  by (simp_all add: nt_new_def nt_with_iri_def nt_with_supertype_def)

lemma add_super_sel [simp]: "nt_name (add_super b ty) = nt_name ty" "nt_iri (add_super b ty) = nt_iri ty"
  "set (nt_supertypes (add_super b ty)) = insert b (set (nt_supertypes ty))"
  "distinct (nt_supertypes ty) \<Longrightarrow> distinct (nt_supertypes (add_super b ty))"
  by (auto simp: add_super_def)

text \<open>The node type table after one triple.\<close>

lemma from_rdf_step_class:
  "node_type (o_schema (from_rdf_step (class_decl a) o')) n =
     (if n = local_name a then Some (named_class a) else node_type (o_schema o') n)"
  by (simp add: from_rdf_step_def class_decl_def triple_new_def node_type_declare named_class_def)

lemma from_rdf_step_sub:
  assumes "schema_wf (o_schema o')"
  shows "node_type (o_schema (from_rdf_step (sub_decl a b) o')) n =
     (if n = local_name a
      then Some (add_super (local_name b)
        (case node_type (o_schema o') n of Some ty \<Rightarrow> ty | None \<Rightarrow> named_class a))
      else node_type (o_schema o') n)"
proof -
  have name: "nt_name ty = m" if "node_type (o_schema o') m = Some ty" for m ty
    using assms that by (auto simp: schema_wf_def node_type_def dest: map_of_SomeD)
  show ?thesis
    using type_not_sub
    by (auto simp: from_rdf_step_def sub_decl_def triple_new_def node_type_declare named_class_def add_super_def
        Let_def list_ex_iff name split: option.splits)
qed

lemma from_rdf_step_other:
  assumes "\<forall>a. t \<noteq> class_decl a" "\<forall>a b. t \<noteq> sub_decl a b"
  shows "node_type (o_schema (from_rdf_step t o')) n = node_type (o_schema o') n"
proof (cases "t_subject t")
  case (SIri i)
  have eq: "t = triple_new (SIri i) (t_predicate t) (t_object t)" by (simp add: triple_new_def SIri [symmetric])
  have "\<not> (t_predicate t = rdf_type \<and> t_object t = OIri (owl ''Class''))"
    using assms(1) eq unfolding class_decl_def by metis
  moreover have "\<not> (t_predicate t = rdfs_subclass \<and> (\<exists>b. t_object t = OIri b))"
    using assms(2) eq unfolding sub_decl_def by metis
  ultimately show ?thesis
    using SIri by (auto simp: from_rdf_step_def node_type_def declare_edge_type_def split: object.split)
qed (simp add: from_rdf_step_def)

lemma from_rdf_step_wf: "schema_wf (o_schema o') \<Longrightarrow> schema_wf (o_schema (from_rdf_step t o'))"
  by (auto simp: from_rdf_step_def Let_def schema_wf_declare_node_type schema_wf_declare_edge_type
      split: subject.split object.split)

lemma from_rdf_wf: "schema_wf (o_schema (from_rdf ts))"
  unfolding from_rdf_def
  by (rule fold_invariant [where P = "\<lambda>o'. schema_wf (o_schema o')"])
    (simp_all add: ontology_new_def schema_wf_new from_rdf_step_wf)

lemma from_rdf_snoc: "from_rdf (ts @ [t]) = from_rdf_step t (from_rdf ts)"
  by (simp add: from_rdf_def)

text \<open>After the last declaration of a class the subclass triples accumulate.\<close>

definition stated_supers :: "string \<Rightarrow> rdf_triple list \<Rightarrow> string set" where
  "stated_supers n ts = {local_name b | a b. sub_decl a b \<in> set ts \<and> local_name a = n}"

lemma stated_supers_snoc:
  "stated_supers n [] = {}" "stated_supers n (ts @ [class_decl a]) = stated_supers n ts"
  "stated_supers n (ts @ [sub_decl a b]) =
     (if local_name a = n then insert (local_name b) (stated_supers n ts) else stated_supers n ts)"
  "\<forall>a b. t \<noteq> sub_decl a b \<Longrightarrow> stated_supers n (ts @ [t]) = stated_supers n ts"
  by (auto simp: stated_supers_def)

lemma from_rdf_after_class:
  assumes "\<forall>a'. class_decl a' \<in> set ys \<longrightarrow> local_name a' \<noteq> local_name a"
  shows "\<exists>ty. node_type (o_schema (from_rdf (xs @ class_decl a # ys))) (local_name a) = Some ty \<and>
     nt_name ty = local_name a \<and> nt_iri ty = Some a \<and> distinct (nt_supertypes ty) \<and>
     set (nt_supertypes ty) = stated_supers (local_name a) ys"
  using assms
proof (induction ys rule: rev_induct)
  case Nil
  show ?case using from_rdf_snoc [of xs "class_decl a"] by (simp add: from_rdf_step_class named_class_def stated_supers_snoc)
next
  case (snoc t ys)
  let ?o = "from_rdf (xs @ class_decl a # ys)"
  from snoc obtain ty where ty: "node_type (o_schema ?o) (local_name a) = Some ty" "nt_name ty = local_name a"
    "nt_iri ty = Some a" "distinct (nt_supertypes ty)" "set (nt_supertypes ty) = stated_supers (local_name a) ys" by auto
  have step: "from_rdf (xs @ class_decl a # ys @ [t]) = from_rdf_step t ?o"
    using from_rdf_snoc [of "xs @ class_decl a # ys" t] by simp
  consider (cls) a' where "t = class_decl a'" | (sub) a' b where "t = sub_decl a' b"
    | (other) "\<forall>a. t \<noteq> class_decl a" "\<forall>a b. t \<noteq> sub_decl a b" by blast
  then show ?case
  proof cases
    case cls
    with snoc.prems have "local_name a \<noteq> local_name a'" by auto
    with ty show ?thesis unfolding cls by (simp add: step [unfolded cls] from_rdf_step_class stated_supers_snoc)
  next
    case sub
    show ?thesis
    proof (cases "local_name a = local_name a'")
      case True
      with ty show ?thesis
        unfolding sub by (intro exI [of _ "add_super (local_name b) ty"])
          (simp add: step [unfolded sub] from_rdf_step_sub [OF from_rdf_wf] stated_supers_snoc)
    next
      case False
      with ty show ?thesis unfolding sub by (simp add: step [unfolded sub] from_rdf_step_sub [OF from_rdf_wf] stated_supers_snoc)
    qed
  next
    case other
    with ty show ?thesis by (simp add: step from_rdf_step_other [OF other] stated_supers_snoc)
  qed
qed

section \<open>The class hierarchy there and back\<close>

lemma decl_in_emit_property [simp]: "class_decl a \<notin> set (emit_property v c p)" "sub_decl a b \<notin> set (emit_property v c p)"
  by (auto simp: emit_property_def Let_def class_decl_def sub_decl_def triple_new_def code_defs)

lemma decl_in_emit_node_type:
  "class_decl a \<in> set (emit_node_type v e) \<longleftrightarrow> a = class_iri v (fst e) (snd e)"
  "sub_decl a b \<in> set (emit_node_type v e) \<longleftrightarrow>
     a = class_iri v (fst e) (snd e) \<and> (\<exists>s \<in> set (nt_supertypes (snd e)). b = ensure_iri s local_prefix v)"
  unfolding emit_node_type_def Let_def class_decl_def [symmetric] sub_decl_def [symmetric]
  by (auto simp: image_iff)

lemma decl_in_emit_edge_type [simp]: "class_decl a \<notin> set (emit_edge_type v e)" "sub_decl a b \<notin> set (emit_edge_type v e)"
  by (auto simp: emit_edge_type_def Let_def class_decl_def sub_decl_def triple_new_def code_defs split: option.splits)

lemma decl_axiom_triple [simp]: "axiom_triple v k \<noteq> class_decl a"
  "axiom_triple v k = sub_decl a b \<longleftrightarrow>
     (\<exists>x y. k = SubClassOf x y \<and> a = ensure_iri x local_prefix v \<and> b = ensure_iri y local_prefix v)"
proof -
  show "axiom_triple v k \<noteq> class_decl a"
    by (cases k) (simp_all add: class_decl_def triple_new_def rdf_type_def rdfs_subclass_def rdfs_domain_def rdfs_range_def owl_def)
  show "axiom_triple v k = sub_decl a b \<longleftrightarrow>
     (\<exists>x y. k = SubClassOf x y \<and> a = ensure_iri x local_prefix v \<and> b = ensure_iri y local_prefix v)"
    by (cases k) (auto simp: sub_decl_def triple_new_def rdf_type_def rdfs_subclass_def rdfs_domain_def rdfs_range_def owl_def)
qed

lemma decl_in_emit_axioms:
  "class_decl a \<notin> set (emit_axioms o' v)"
  "sub_decl a b \<in> set (emit_axioms o' v) \<longleftrightarrow>
     (\<exists>x y. SubClassOf x y \<in> kinds o' \<and> a = ensure_iri x local_prefix v \<and> b = ensure_iri y local_prefix v)"
proof -
  have mem: "x \<in> axiom_triple v ` kinds o' \<longleftrightarrow> (\<exists>k \<in> kinds o'. axiom_triple v k = x)" for x by auto
  show "class_decl a \<notin> set (emit_axioms o' v)" by (auto simp: emit_axioms_def mem)
  show "sub_decl a b \<in> set (emit_axioms o' v) \<longleftrightarrow>
     (\<exists>x y. SubClassOf x y \<in> kinds o' \<and> a = ensure_iri x local_prefix v \<and> b = ensure_iri y local_prefix v)"
    by (auto simp: emit_axioms_def mem)
qed

text \<open>
  Names survive when they are the local names of their IRIs, and instance triples use neither
  \<open>owl:Class\<close> as a type nor \<open>rdfs:subClassOf\<close> as a property.
\<close>

definition tbox_plain :: "rdf_text \<Rightarrow> ontology \<Rightarrow> bool" where
  "tbox_plain rt o' \<longleftrightarrow>
     (\<forall>(name, ty) \<in> set (s_node_types (o_schema o')). local_name (class_iri (rdf_vocab o') name ty) = name \<and>
        (\<forall>s \<in> set (nt_supertypes ty). local_name (ensure_iri s local_prefix (rdf_vocab o')) = s)) \<and>
     (\<forall>a b. SubClassOf a b \<in> kinds o' \<longrightarrow> local_name (ensure_iri a local_prefix (rdf_vocab o')) = a \<and>
        local_name (ensure_iri b local_prefix (rdf_vocab o')) = b) \<and>
     (\<forall>t \<in> set (emit_nodes rt o' (rdf_vocab o')) \<union> set (emit_edges rt o' (rdf_vocab o')).
        (\<forall>a. t \<noteq> class_decl a) \<and> (\<forall>a b. t \<noteq> sub_decl a b))"

lemma tbox_back:
  assumes wf: "bm_wf (s_node_types (o_schema o'))" and plain: "tbox_plain rt o'"
    and ty: "node_type (o_schema o') name = Some ty"
  shows "\<exists>ty'. node_type (o_schema (from_rdf (to_rdf rt o'))) name = Some ty' \<and> nt_name ty' = name \<and>
     nt_iri ty' = Some (class_iri (rdf_vocab o') name ty) \<and> distinct (nt_supertypes ty') \<and>
     set (nt_supertypes ty') = set (nt_supertypes ty) \<union> {b. SubClassOf name b \<in> kinds o'}"
proof -
  let ?v = "rdf_vocab o'" and ?m = "s_node_types (o_schema o')"
  let ?c = "class_iri ?v name ty" and ?e = "\<lambda>s. ensure_iri s local_prefix ?v"
  from ty have "(name, ty) \<in> set ?m" by (simp add: node_type_def map_of_SomeD)
  then obtain es1 es2 where m: "?m = es1 @ (name, ty) # es2" by (meson split_list)
  from bm_wf_distinct [OF wf] m have new: "name \<notin> fst ` set es2" by auto
  let ?rest = "map (\<lambda>s. sub_decl ?c (?e s)) (nt_supertypes ty) @ concat (map (emit_property ?v ?c) (nt_props ty)) @
     concat (map (emit_node_type ?v) es2) @ concat (map (emit_edge_type ?v) (s_edge_types (o_schema o'))) @
     emit_nodes rt o' ?v @ emit_edges rt o' ?v @ emit_axioms o' ?v"
  have ts: "to_rdf rt o' = concat (map (emit_node_type ?v) es1) @ class_decl ?c # ?rest"
    by (simp add: to_rdf_def Let_def emit_schema_def m emit_node_type_def class_decl_def sub_decl_def)
  have local: "local_name (class_iri ?v n t) = n" "\<And>s. s \<in> set (nt_supertypes t) \<Longrightarrow> local_name (?e s) = s"
    if "(n, t) \<in> set ?m" for n t using plain that by (auto simp: tbox_plain_def)
  have sub: "local_name (?e a) = a" "local_name (?e b) = b" if "SubClassOf a b \<in> kinds o'" for a b
    using plain that by (auto simp: tbox_plain_def)
  have inst: "class_decl a \<notin> set (emit_nodes rt o' ?v) \<union> set (emit_edges rt o' ?v)"
    "sub_decl a b \<notin> set (emit_nodes rt o' ?v) \<union> set (emit_edges rt o' ?v)" for a b
    using plain unfolding tbox_plain_def by blast+
  have c: "local_name ?c = name" using local(1) [of name ty] m by simp
  have "local_name a \<noteq> local_name ?c" if "class_decl a \<in> set ?rest" for a
  proof -
    from that inst(1) [of a] have "\<exists>e \<in> set es2. class_decl a \<in> set (emit_node_type ?v e)"
      by (auto simp: decl_in_emit_axioms)
    then obtain e where e: "e \<in> set es2" "a = class_iri ?v (fst e) (snd e)" by (auto simp: decl_in_emit_node_type)
    with local(1) [of "fst e" "snd e"] m have "local_name a = fst e" by simp
    with e(1) new show ?thesis unfolding c by force
  qed
  then have "\<forall>a. class_decl a \<in> set ?rest \<longrightarrow> local_name a \<noteq> local_name ?c" by blast
  from from_rdf_after_class [OF this, of "concat (map (emit_node_type ?v) es1)"] obtain ty' where ty':
    "node_type (o_schema (from_rdf (to_rdf rt o'))) name = Some ty'" "nt_name ty' = name" "nt_iri ty' = Some ?c"
    "distinct (nt_supertypes ty')"
    "set (nt_supertypes ty') = stated_supers name ?rest"
    unfolding ts c by blast
  have mem: "sub_decl a b \<in> set ?rest \<longleftrightarrow>
      (a = ?c \<and> (\<exists>s \<in> set (nt_supertypes ty). b = ?e s)) \<or>
      (\<exists>(n, t) \<in> set es2. a = class_iri ?v n t \<and> (\<exists>s \<in> set (nt_supertypes t). b = ?e s)) \<or>
      (\<exists>x y. SubClassOf x y \<in> kinds o' \<and> a = ?e x \<and> b = ?e y)" for a b
    using inst(2) [of a b] by (auto simp: decl_in_emit_node_type decl_in_emit_axioms image_iff split_beta)
  have "stated_supers name ?rest = set (nt_supertypes ty) \<union> {b. SubClassOf name b \<in> kinds o'}"
  proof (intro set_eqI iffI)
    fix x assume "x \<in> stated_supers name ?rest"
    then obtain a b where x: "x = local_name b" "local_name a = name" and "sub_decl a b \<in> set ?rest"
      unfolding stated_supers_def by blast
    from this(3) consider s where "s \<in> set (nt_supertypes ty)" "b = ?e s"
      | n t where "(n, t) \<in> set es2" "a = class_iri ?v n t"
      | p q where "SubClassOf p q \<in> kinds o'" "a = ?e p" "b = ?e q" unfolding mem by blast
    then show "x \<in> set (nt_supertypes ty) \<union> {b. SubClassOf name b \<in> kinds o'}"
    proof cases
      case (1 s)
      with x local(2) [of name ty s] m show ?thesis by simp
    next
      case (2 n t)
      with x local(1) [of n t] m have "n = name" by simp
      with 2 new show ?thesis by force
    next
      case (3 p q)
      with x sub [OF 3(1)] show ?thesis by simp
    qed
  next
    fix x assume "x \<in> set (nt_supertypes ty) \<union> {b. SubClassOf name b \<in> kinds o'}"
    then show "x \<in> stated_supers name ?rest"
    proof
      assume s: "x \<in> set (nt_supertypes ty)"
      with local(2) [of name ty x] m have "x = local_name (?e x)" by simp
      moreover from s have "sub_decl ?c (?e x) \<in> set ?rest" unfolding mem by blast
      ultimately show ?thesis using c unfolding stated_supers_def by blast
    next
      assume "x \<in> {b. SubClassOf name b \<in> kinds o'}"
      then have k: "SubClassOf name x \<in> kinds o'" by simp
      then have "sub_decl (?e name) (?e x) \<in> set ?rest" unfolding mem by blast
      with sub [OF k] show ?thesis unfolding stated_supers_def by force
    qed
  qed
  with ty' show ?thesis by auto
qed

section \<open>Properties\<close>

text \<open>The hand-written Base64 encoder is RFC 4648 with padding: decoding its output gives the
  bytes back, and its output has four characters for every three bytes begun.\<close>

theorem base64_round_trip:
  "base64_decode (base64_encode bs) = Some bs \<and> length (base64_encode bs) = 4 * ((length bs + 2) div 3)"
  by (simp add: b64_round_trip b64_length)

text \<open>What an import records of a class. If the last declaration of the local name of \<open>a\<close> as an
  \<open>owl:Class\<close> is for \<open>a\<close>, the imported node type has that name and IRI, and its supertypes are the
  local names stated by the subclass triples after that declaration, each once: a declaration resets
  what earlier triples said about its class.\<close>

theorem class_import:
  assumes "\<forall>a'. class_decl a' \<in> set ys \<longrightarrow> local_name a' \<noteq> local_name a"
  shows "\<exists>ty. node_type (o_schema (from_rdf (xs @ class_decl a # ys))) (local_name a) = Some ty \<and>
     nt_name ty = local_name a \<and> nt_iri ty = Some a \<and> distinct (nt_supertypes ty) \<and>
     set (nt_supertypes ty) = {local_name b | a' b. sub_decl a' b \<in> set ys \<and> local_name a' = local_name a}"
  using from_rdf_after_class [OF assms, of xs] by (simp add: stated_supers_def)

text \<open>The class hierarchy survives the projection. When names are the local names of their IRIs
  and instance data does not use the OWL class vocabulary, importing the projection gives every node
  type its name and IRI back, with the union of its declared supertypes and those its subclass
  axioms state.\<close>

theorem class_hierarchy_round_trip:
  assumes "schema_wf (o_schema o')" "tbox_plain rt o'" "node_type (o_schema o') name = Some ty"
  shows "\<exists>ty'. node_type (o_schema (from_rdf (to_rdf rt o'))) name = Some ty' \<and> nt_name ty' = name \<and>
     nt_iri ty' = Some (class_iri (rdf_vocab o') name ty) \<and> distinct (nt_supertypes ty') \<and>
     set (nt_supertypes ty') = set (nt_supertypes ty) \<union> {b. SubClassOf name b \<in> kinds o'}"
  by (rule tbox_back [OF _ assms(2,3)]) (use assms(1) in \<open>simp add: schema_wf_def\<close>)

text \<open>A node without IRI has two names in the projection. As the subject of its own triples it is
  the blank node of its id; as the target of an edge it is a resource whose IRI text is \<open>_:n\<close>
  followed by the id, so the edge does not lead to the node that carries its types and properties.\<close>

theorem unnamed_target_mismatch:
  assumes "e \<in> set (bm_values (o_edges o'))" "ont_node o' (e_source e) = Some s" "ont_node o' (e_target e) = Some n"
    "n_iri n = None" "ont_wf o'"
  shows "(\<exists>t \<in> set (to_rdf rt o'). t_subject t = node_subject rt s \<and>
       t_object t = OIri (Iri (''_:n'' @ rt_id rt (node_id_bytes (n_id n))))) \<and>
     (\<forall>t \<in> set (emit_node rt o' (rdf_vocab o') n). t_subject t = SBlank (rt_id rt (node_id_bytes (n_id n))))"
proof -
  have "n_id n = e_target e" using ont_node_id [OF assms(5,3)] .
  moreover have "node_object rt (e_target e) o' = OIri (Iri (''_:n'' @ rt_id rt (node_id_bytes (e_target e))))"
    using assms(3,4) by (simp add: node_object_def)
  then have "\<exists>t \<in> set (emit_edges rt o' (rdf_vocab o')). t_subject t = node_subject rt s \<and>
       t_object t = OIri (Iri (''_:n'' @ rt_id rt (node_id_bytes (e_target e))))"
    using assms(1,2) by (auto simp: emit_edges_def triple_new_def intro!: bexI [of _ e])
  moreover have "t_subject t = node_subject rt n" if "t \<in> set (emit_node rt o' (rdf_vocab o') n)" for t
    using that by (auto simp: emit_node_def triple_new_def split: option.splits)
  ultimately show ?thesis
    using assms(4) by (auto simp: to_rdf_def Let_def node_subject_def)
qed

definition rdf_ex_text :: rdf_text where
  [code_defs]: "rdf_ex_text = \<lparr>rt_id = (\<lambda>b. map (\<lambda>x. char_of (unat x)) b), rt_f64 = (\<lambda>_. ''0''), rt_rfc3339 = (\<lambda>_. ''t''),
     rt_rfc3339_secs = (\<lambda>_. ''t''), rt_json = (\<lambda>_. ''{}'')\<rparr>"

definition rdf_ex :: ontology where
  [code_defs]: "rdf_ex = ontology_new\<lparr>o_schema :=
     declare_node_type (nt_with_supertype ''Agent'' (nt_new ''Person'')) (declare_node_type (nt_new ''Agent'') schema_new)\<rparr>"

lemma rdf_ex_plain: "tbox_plain rdf_ex_text rdf_ex"
  by (simp add: tbox_plain_def kinds_def bm_values_def emit_nodes_def emit_edges_def code_defs split_once.simps)

lemma class_hierarchy_round_trip_witness:
  "\<exists>ty'. node_type (o_schema (from_rdf (to_rdf rdf_ex_text rdf_ex))) ''Person'' = Some ty' \<and>
     set (nt_supertypes ty') = {''Agent''}"
proof -
  have "schema_wf (o_schema rdf_ex)"
    by (simp add: rdf_ex_def schema_wf_declare_node_type schema_wf_new)
  moreover have "node_type (o_schema rdf_ex) ''Person'' = Some (nt_with_supertype ''Agent'' (nt_new ''Person''))"
    by (simp add: rdf_ex_def node_type_declare)
  moreover have "kinds rdf_ex = {}" by (simp add: rdf_ex_def kinds_def bm_values_def ontology_new_def)
  ultimately show ?thesis using class_hierarchy_round_trip [OF _ rdf_ex_plain, of "''Person''"] by force
qed

lemma class_import_witness:
  "\<exists>ty. node_type (o_schema (from_rdf [sub_decl (Iri ''x#A'') (Iri ''x#B''), class_decl (Iri ''x#A''),
       sub_decl (Iri ''x#A'') (Iri ''x#C'')])) (local_name (Iri ''x#A'')) = Some ty \<and>
     set (nt_supertypes ty) = {local_name (Iri ''x#C'')}"
  using class_import [of "[sub_decl (Iri ''x#A'') (Iri ''x#C'')]" "Iri ''x#A''" "[sub_decl (Iri ''x#A'') (Iri ''x#B'')]"]
  by (auto simp: insert_commute)

definition rdf_ex_edge :: ontology where
  "rdf_ex_edge = upsert_edge (edge_between (\<lambda>c x. x) (NodeId [1]) ''knows'' (NodeId [2]))
     (upsert_node \<lparr>n_id = NodeId [1], n_iri = None, n_types = [], n_props = []\<rparr>
     (upsert_node \<lparr>n_id = NodeId [2], n_iri = None, n_types = [], n_props = []\<rparr> ontology_new))"

lemma unnamed_target_mismatch_witness:
  "\<exists>t \<in> set (to_rdf rdf_ex_text rdf_ex_edge). t_object t = OIri (Iri (''_:n'' @ rt_id rdf_ex_text [2]))"
proof -
  let ?e = "edge_between (\<lambda>c x. x) (NodeId [1]) ''knows'' (NodeId [2])"
  have "?e \<in> set (bm_values (o_edges rdf_ex_edge))"
    by (simp add: rdf_ex_edge_def bm_values_def ontology_new_def)
  from unnamed_target_mismatch [OF this, of _ "\<lparr>n_id = NodeId [2], n_iri = None, n_types = [], n_props = []\<rparr>" rdf_ex_text]
  show ?thesis by (auto simp: rdf_ex_edge_def)
qed

end
