(* ===== verification/Rdf_NTriples.thy ===== *)
theory Rdf_NTriples
  imports Rdf_Adapter Std_Text
begin

text \<open>
  \<open>crates/atomr-ontology-rdf/src/ntriples.rs\<close>: the N-Triples writer and parser. Strings are UTF-8
  bytes; the parser's index arithmetic on \<open>input\<close> is a recursion on what is left of it. Its error
  texts are constructors with their arguments; slicing a string inside a character panics, which
  is the value \<open>NtPanic\<close>.
\<close>

section \<open>Writing\<close>

definition escape_char :: "char \<Rightarrow> string" where
  [code_defs]: "escape_char c =
     (if c = CHR 0x5C then [CHR 0x5C, CHR 0x5C]
      else if c = CHR 0x22 then [CHR 0x5C, CHR 0x22]
      else if c = CHR 0x0A then [CHR 0x5C, CHR ''n'']
      else if c = CHR 0x0D then [CHR 0x5C, CHR ''r'']
      else if c = CHR 0x09 then [CHR 0x5C, CHR ''t'']
      else [c])"

definition angle :: "iri \<Rightarrow> string" where
  [code_defs]: "angle i = ''<'' @ as_str i @ ''>''"

definition push_subject :: "subject \<Rightarrow> string" where
  [code_defs]: "push_subject s = (case s of SIri i \<Rightarrow> angle i | SBlank l \<Rightarrow> ''_:'' @ l)"

definition push_object :: "object \<Rightarrow> string" where
  [code_defs]: "push_object ob =
     (case ob of
        OIri i \<Rightarrow> angle i
      | OBlank l \<Rightarrow> ''_:'' @ l
      | OLiteral lexical dt language \<Rightarrow>
          [CHR 0x22] @ concat (map escape_char lexical) @ [CHR 0x22] @
          (case language of Some l \<Rightarrow> ''@'' @ l | None \<Rightarrow> ''^^'' @ angle dt))"

definition push_triple :: "rdf_triple \<Rightarrow> string" where
  [code_defs]: "push_triple t =
     push_subject (t_subject t) @ '' '' @ angle (t_predicate t) @ '' '' @ push_object (t_object t) @ '' .''"

definition nt_write_triples :: "rdf_triple list \<Rightarrow> string" where
  [code_defs]: "nt_write_triples ts = concat (map (\<lambda>t. push_triple t @ [CHR 0x0A]) ts)"

definition nt_write :: "rdf_text \<Rightarrow> ontology \<Rightarrow> string" where
  [code_defs]: "nt_write rt o' = nt_write_triples (to_rdf rt o')"

section \<open>Parsing\<close>

datatype nt_error =
    NtMissingDot
  | NtPredicateNotIri
  | NtTrailing string
  | NtLiteralSubject
  | NtEndOfInput
  | NtUnterminatedIri
  | NtTermStart string
  | NtDanglingEscape
  | NtShortEscape
  | NtBadHex string
  | NtUnknownEscape char
  | NtExpectedDatatype
  | NtUnterminatedDatatype
  | NtUnterminatedLiteral

datatype nt_failure = NtMalformed nt_error | NtPanic

datatype nt_term = TIri iri | TBlank string | TLiteral string iri "string option"

text \<open>The escapes \<open>u\<close> and \<open>U\<close>: \<open>k\<close> hexadecimal digits at the front of \<open>r\<close>.\<close>

definition hex_escape :: "nat \<Rightarrow> string \<Rightarrow> nt_failure + string" where
  [code_defs]: "hex_escape k r =
     (if length r < k then Inl (NtMalformed NtShortEscape)
      else if \<not> at_boundary r \<or> \<not> at_boundary (drop k r) then Inl NtPanic
      else case from_str_radix16 (take k r) of
             None \<Rightarrow> Inl (NtMalformed (NtBadHex (take k r)))
           | Some cp \<Rightarrow> Inr (case char_from_u32 cp of Some c \<Rightarrow> utf8_encode c | None \<Rightarrow> []))"

text \<open>
  The loop of \<open>parse_literal\<close> up to and over the closing quote: the lexical form and the rest. A byte
  outside an escape is pushed as the character with that code.
\<close>

function lit_loop :: "string \<Rightarrow> string \<Rightarrow> nt_failure + string \<times> string" where
  "lit_loop lexical [] = Inl (NtMalformed NtUnterminatedLiteral)"
| "lit_loop lexical (c # cs) =
     (if c = CHR 0x5C then
        (case cs of
           [] \<Rightarrow> Inl (NtMalformed NtDanglingEscape)
         | e # r \<Rightarrow>
             if e = CHR ''n'' then lit_loop (lexical @ [CHR 0x0A]) r
             else if e = CHR ''r'' then lit_loop (lexical @ [CHR 0x0D]) r
             else if e = CHR ''t'' then lit_loop (lexical @ [CHR 0x09]) r
             else if e = CHR 0x22 then lit_loop (lexical @ [CHR 0x22]) r
             else if e = CHR 0x5C then lit_loop (lexical @ [CHR 0x5C]) r
             else if e = CHR ''u'' then
               (case hex_escape 4 r of Inl f \<Rightarrow> Inl f | Inr s \<Rightarrow> lit_loop (lexical @ s) (drop 4 r))
             else if e = CHR ''U'' then
               (case hex_escape 8 r of Inl f \<Rightarrow> Inl f | Inr s \<Rightarrow> lit_loop (lexical @ s) (drop 8 r))
             else Inl (NtMalformed (NtUnknownEscape e)))
      else if c = CHR 0x22 then Inr (lexical, cs)
      else lit_loop (lexical @ utf8_encode (of_char c)) cs)"
  by pat_completeness auto
termination
  by (relation "measure (length \<circ> snd)") auto

text \<open>\<open>find(|c| c.is_whitespace() || c == '.')\<close> and the split there.\<close>

fun span_word :: "string \<Rightarrow> string \<times> string" where
  "span_word [] = ([], [])"
| "span_word (c # cs) =
     (if ws_prefix (c # cs) > 0 \<or> c = CHR ''.'' then ([], c # cs)
      else (case span_word cs of (a, b) \<Rightarrow> (c # a, b)))"

definition lang_string :: iri where
  [code_defs]: "lang_string = Iri ''http://www.w3.org/1999/02/22-rdf-syntax-ns#langString''"

definition literal_tail :: "string \<Rightarrow> string \<Rightarrow> nt_failure + nt_term \<times> string" where
  [code_defs]: "literal_tail lexical rest =
     (if take 1 rest = ''@'' then
        (case span_word (drop 1 rest) of (l, r) \<Rightarrow> Inr (TLiteral lexical lang_string (Some l), r))
      else if take 2 rest = ''^^'' then
        (case trim_start (drop 2 rest) of
           [] \<Rightarrow> Inl (NtMalformed NtExpectedDatatype)
         | c # r \<Rightarrow>
             if c \<noteq> CHR ''<'' then Inl (NtMalformed NtExpectedDatatype)
             else (case split_once (CHR ''>'') r of
                     None \<Rightarrow> Inl (NtMalformed NtUnterminatedDatatype)
                   | Some (i, r') \<Rightarrow> Inr (TLiteral lexical (Iri i) None, r')))
      else Inr (TLiteral lexical (xsd ''string'') None, rest))"

definition parse_literal :: "string \<Rightarrow> nt_failure + nt_term \<times> string" where
  [code_defs]: "parse_literal input =
     (case lit_loop [] (drop 1 input) of
        Inl f \<Rightarrow> Inl f
      | Inr (lexical, rest) \<Rightarrow> literal_tail lexical rest)"

definition parse_term :: "string \<Rightarrow> nt_failure + nt_term \<times> string" where
  [code_defs]: "parse_term input =
     (case input of
        [] \<Rightarrow> Inl (NtMalformed NtEndOfInput)
      | c # cs \<Rightarrow>
          if c = CHR ''<'' then
            (case split_once (CHR ''>'') cs of
               None \<Rightarrow> Inl (NtMalformed NtUnterminatedIri)
             | Some (i, r) \<Rightarrow> Inr (TIri (Iri i), r))
          else if c = CHR ''_'' \<and> take 1 cs = '':'' then
            (case span_word (drop 1 cs) of (l, r) \<Rightarrow> Inr (TBlank l, r))
          else if c = CHR 0x22 then parse_literal input
          else Inl (NtMalformed (NtTermStart input)))"

definition strip_dot :: "string \<Rightarrow> string option" where
  [code_defs]: "strip_dot s = (if s \<noteq> [] \<and> last s = CHR ''.'' then Some (butlast s) else None)"

definition term_subject :: "nt_term \<Rightarrow> nt_failure + subject" where
  [code_defs]: "term_subject t =
     (case t of TIri i \<Rightarrow> Inr (SIri i) | TBlank l \<Rightarrow> Inr (SBlank l)
      | TLiteral _ _ _ \<Rightarrow> Inl (NtMalformed NtLiteralSubject))"

definition term_object :: "nt_term \<Rightarrow> object" where
  [code_defs]: "term_object t =
     (case t of TIri i \<Rightarrow> OIri i | TBlank l \<Rightarrow> OBlank l | TLiteral x d l \<Rightarrow> OLiteral x d l)"

definition parse_triple :: "string \<Rightarrow> nt_failure + rdf_triple" where
  [code_defs]: "parse_triple line =
     (case strip_dot (trim_end line) of
        None \<Rightarrow> Inl (NtMalformed NtMissingDot)
      | Some line \<Rightarrow>
     (case parse_term (trim line) of
        Inl f \<Rightarrow> Inl f
      | Inr (subj, rest) \<Rightarrow>
     (case parse_term (trim_start rest) of
        Inl f \<Rightarrow> Inl f
      | Inr (pred, rest) \<Rightarrow>
     (case pred of
        TIri p \<Rightarrow>
          (case parse_term (trim_start rest) of
             Inl f \<Rightarrow> Inl f
           | Inr (ob, rest) \<Rightarrow>
               if trim rest \<noteq> [] then Inl (NtMalformed (NtTrailing rest))
               else (case term_subject subj of
                       Inl f \<Rightarrow> Inl f
                     | Inr s \<Rightarrow> Inr \<lparr>t_subject = s, t_predicate = p, t_object = term_object ob\<rparr>))
      | _ \<Rightarrow> Inl (NtMalformed NtPredicateNotIri)))))"

text \<open>An error carries the 1-based line number.\<close>

fun parse_lines :: "nat \<Rightarrow> string list \<Rightarrow> (nat \<times> nt_failure) + rdf_triple list" where
  "parse_lines n [] = Inr []"
| "parse_lines n (raw # raws) =
     (let line = trim raw
      in if line = [] \<or> take 1 line = ''#'' then parse_lines (Suc n) raws
         else case parse_triple line of
                Inl f \<Rightarrow> Inl (n, f)
              | Inr t \<Rightarrow> (case parse_lines (Suc n) raws of Inl e \<Rightarrow> Inl e | Inr ts \<Rightarrow> Inr (t # ts)))"

definition nt_parse :: "string \<Rightarrow> (nat \<times> nt_failure) + rdf_triple list" where
  [code_defs]: "nt_parse input = parse_lines 1 (str_lines input)"

definition nt_read :: "string \<Rightarrow> (nat \<times> nt_failure) + ontology" where
  [code_defs]: "nt_read input = (case nt_parse input of Inl e \<Rightarrow> Inl e | Inr ts \<Rightarrow> Inr (from_rdf ts))"

section \<open>Labels\<close>

definition plain_label :: "string \<Rightarrow> bool" where
  [code_defs]: "plain_label l \<longleftrightarrow> list_all (\<lambda>c. plain_char c \<and> c \<noteq> CHR ''.'') l"

lemma span_word_plain:
  "plain_label l \<Longrightarrow> span_word (l @ CHR '' '' # r) = (l, CHR '' '' # r)" "plain_label l \<Longrightarrow> span_word l = (l, [])"
proof -
  show "plain_label l \<Longrightarrow> span_word (l @ CHR '' '' # r) = (l, CHR '' '' # r)"
    by (induction l) (auto simp: plain_label_def plain_ws ws_prefix_def [of "CHR '' '' # r"])
  show "plain_label l \<Longrightarrow> span_word l = (l, [])"
    by (induction l) (auto simp: plain_label_def plain_ws)
qed

section \<open>What comes back\<close>

definition latin1_object :: "object \<Rightarrow> object" where
  [code_defs]: "latin1_object ob =
     (case ob of OLiteral x d l \<Rightarrow> OLiteral (latin1_string x) d l | _ \<Rightarrow> ob)"

definition latin1_triple :: "rdf_triple \<Rightarrow> rdf_triple" where
  [code_defs]: "latin1_triple t = t\<lparr>t_object := latin1_object (t_object t)\<rparr>"

lemma lit_loop_escaped:
  "lit_loop acc (concat (map escape_char x) @ CHR 0x22 # rest) = Inr (acc @ latin1_string x, rest)"
proof (induction x arbitrary: acc)
  case Nil
  then show ?case by (simp add: latin1_string_def)
next
  case (Cons c x)
  show ?case
  proof (cases "c \<in> {CHR 0x5C, CHR 0x22, CHR 0x0A, CHR 0x0D, CHR 0x09}")
    case True
    then have "utf8_encode (of_char c) = [c]" by (intro utf8_encode_ascii) auto
    with True Cons [of "acc @ [c]"] show ?thesis by (auto simp: escape_char_def latin1_string_def)
  next
    case False
    with Cons [of "acc @ utf8_encode (of_char c)"] show ?thesis by (simp add: escape_char_def latin1_string_def)
  qed
qed

section \<open>There and back\<close>

text \<open>
  What the syntax can carry: IRIs without their closing bracket or a line break, labels and language
  tags of plain characters, and a language tag only on \<open>rdf:langString\<close>.
\<close>

definition nt_iri_ok :: "iri \<Rightarrow> bool" where
  [code_defs]: "nt_iri_ok i \<longleftrightarrow> CHR ''>'' \<notin> set (as_str i) \<and> CHR 0x0A \<notin> set (as_str i)"

definition nt_subject_ok :: "subject \<Rightarrow> bool" where
  [code_defs]: "nt_subject_ok s = (case s of SIri i \<Rightarrow> nt_iri_ok i | SBlank l \<Rightarrow> plain_label l)"

definition nt_object_ok :: "object \<Rightarrow> bool" where
  [code_defs]: "nt_object_ok ob =
     (case ob of OIri i \<Rightarrow> nt_iri_ok i | OBlank l \<Rightarrow> plain_label l
      | OLiteral x d lang \<Rightarrow> (case lang of None \<Rightarrow> nt_iri_ok d | Some l \<Rightarrow> plain_label l \<and> d = lang_string))"

definition nt_ok :: "rdf_triple \<Rightarrow> bool" where
  [code_defs]: "nt_ok t \<longleftrightarrow> nt_subject_ok (t_subject t) \<and> nt_iri_ok (t_predicate t) \<and> nt_object_ok (t_object t)"

lemma parse_term_iri: "nt_iri_ok i \<Longrightarrow> parse_term (angle i @ rest) = Inr (TIri i, rest)"
  by (cases i) (simp add: parse_term_def angle_def nt_iri_ok_def split_once_append)

lemma parse_term_blank:
  assumes "plain_label l"
  shows "parse_term (''_:'' @ l @ CHR '' '' # r) = Inr (TBlank l, CHR '' '' # r)" "parse_term (''_:'' @ l) = Inr (TBlank l, [])"
  using span_word_plain [OF assms] by (simp_all add: parse_term_def)

lemma parse_subject:
  assumes "nt_subject_ok s"
  obtains u where "parse_term (push_subject s @ CHR '' '' # r) = Inr (u, CHR '' '' # r)" "term_subject u = Inr s"
  using assms parse_term_iri [of _ "CHR '' '' # r"] parse_term_blank(1) [of _ r]
  by (cases s) (auto simp: nt_subject_ok_def push_subject_def term_subject_def)

lemma parse_object:
  assumes "nt_object_ok ob"
  obtains u where "parse_term (push_object ob) = Inr (u, [])" "term_object u = latin1_object ob"
proof (cases ob)
  case (OIri i)
  with assms that [of "TIri i"] parse_term_iri [of i "[]"] show ?thesis
    by (simp add: nt_object_ok_def push_object_def term_object_def latin1_object_def)
next
  case (OBlank l)
  with assms that [of "TBlank l"] parse_term_blank(2) [of l] show ?thesis
    by (simp add: nt_object_ok_def push_object_def term_object_def latin1_object_def)
next
  case (OLiteral x d lang)
  let ?tail = "case lang of Some l \<Rightarrow> ''@'' @ l | None \<Rightarrow> ''^^'' @ angle d"
  have start: "parse_term (push_object ob) = literal_tail (latin1_string x) ?tail"
    using lit_loop_escaped [of "[]" x ?tail]
    by (simp add: OLiteral push_object_def parse_term_def parse_literal_def)
  have "literal_tail (latin1_string x) ?tail = Inr (TLiteral (latin1_string x) d lang, [])"
  proof (cases lang)
    case None
    with assms OLiteral have "nt_iri_ok d" by (simp add: nt_object_ok_def)
    then show ?thesis
      by (cases d) (simp add: None literal_tail_def angle_def nt_iri_ok_def split_once_append)
  next
    case (Some l)
    with assms OLiteral have "plain_label l" "d = lang_string" by (simp_all add: nt_object_ok_def)
    then show ?thesis by (simp add: Some literal_tail_def span_word_plain)
  qed
  with start show ?thesis
    by (intro that [of "TLiteral (latin1_string x) d lang"]) (simp_all add: OLiteral term_object_def latin1_object_def)
qed

lemma pushed_ends:
  "\<exists>c cs. push_subject s = c # cs \<and> plain_char c \<and> c \<noteq> CHR ''#''"
  "nt_object_ok ob \<Longrightarrow> \<exists>c cs. push_object ob = c # cs \<and> plain_char c"
  "nt_object_ok ob \<Longrightarrow> \<exists>c cs. push_object ob = cs @ [c] \<and> plain_char c"
proof -
  have label: "\<exists>c cs. x # l = cs @ [c] \<and> plain_char c" if "plain_label l" "plain_char x" for x l
    using that by (cases l rule: rev_cases) (auto simp: plain_label_def)
  show "\<exists>c cs. push_subject s = c # cs \<and> plain_char c \<and> c \<noteq> CHR ''#''"
    by (cases s) (simp_all add: push_subject_def angle_def)
  show "nt_object_ok ob \<Longrightarrow> \<exists>c cs. push_object ob = c # cs \<and> plain_char c"
    by (cases ob) (simp_all add: push_object_def angle_def)
  show "nt_object_ok ob \<Longrightarrow> \<exists>c cs. push_object ob = cs @ [c] \<and> plain_char c"
  proof (cases ob)
    case (OIri i)
    then show ?thesis by (intro exI [of _ "CHR ''>''"] exI [of _ "''<'' @ as_str i"]) (simp add: push_object_def angle_def)
  next
    case (OBlank l)
    assume "nt_object_ok ob"
    with OBlank label [of l "CHR '':''"] obtain c cs where "CHR '':'' # l = cs @ [c]" "plain_char c"
      by (auto simp: nt_object_ok_def)
    with OBlank show ?thesis by (intro exI [of _ c] exI [of _ "CHR ''_'' # cs"]) (simp add: push_object_def)
  next
    case (OLiteral x d lang)
    let ?q = "[CHR 0x22] @ concat (map escape_char x) @ [CHR 0x22]"
    assume ok: "nt_object_ok ob"
    show ?thesis
    proof (cases lang)
      case None
      then show ?thesis
        by (intro exI [of _ "CHR ''>''"] exI [of _ "?q @ ''^^<'' @ as_str d"]) (simp add: OLiteral push_object_def angle_def)
    next
      case (Some l)
      with ok OLiteral label [of l "CHR ''@''"] obtain c cs where "CHR ''@'' # l = cs @ [c]" "plain_char c"
        by (auto simp: nt_object_ok_def)
      with OLiteral Some show ?thesis by (intro exI [of _ c] exI [of _ "?q @ cs"]) (simp add: push_object_def)
    qed
  qed
qed

lemma trim_pushed: "trim (push_triple t) = push_triple t"
proof -
  from pushed_ends(1) [of "t_subject t"] obtain c cs where c: "push_subject (t_subject t) = c # cs" "plain_char c" by blast
  let ?mid = "'' '' @ angle (t_predicate t) @ '' '' @ push_object (t_object t) @ '' ''"
  have eq: "push_triple t = (c # cs @ ?mid) @ [CHR ''.'']" by (simp add: push_triple_def c)
  have "trim_start (push_triple t) = push_triple t" unfolding eq using c(2) by simp
  then show ?thesis unfolding trim_def by (simp only: eq) (rule trim_end_plain, simp)
qed

lemma strip_dot_snoc: "strip_dot (s @ ''.'') = Some s"
  by (simp add: strip_dot_def)

lemma parse_pushed:
  assumes "nt_ok t"
  shows "parse_triple (push_triple t) = Inr (latin1_triple t)"
proof -
  let ?s = "push_subject (t_subject t)" and ?p = "angle (t_predicate t)" and ?o = "push_object (t_object t)"
  from assms have ok: "nt_subject_ok (t_subject t)" "nt_iri_ok (t_predicate t)" "nt_object_ok (t_object t)"
    by (simp_all add: nt_ok_def)
  obtain c cs where c: "?s = c # cs" "plain_char c" using pushed_ends(1) [of "t_subject t"] by blast
  obtain d ds where d: "?o = d # ds" "plain_char d" using pushed_ends(2) [OF ok(3)] by blast
  obtain e es where e: "?o = es @ [e]" "plain_char e" using pushed_ends(3) [OF ok(3)] by blast
  let ?line = "?s @ CHR '' '' # ?p @ CHR '' '' # ?o"
  have push: "push_triple t = (?line @ '' '') @ [CHR ''.'']" by (simp add: push_triple_def)
  have dot: "strip_dot (trim_end (push_triple t)) = Some (?line @ '' '')"
    unfolding push trim_end_plain [OF plain_chars(5)] by (simp only: strip_dot_snoc)
  have "trim_start (?line @ '' '') = ?line @ '' ''" by (simp add: c)
  moreover have "trim_end (?line @ '' '') = trim_end ?line" by (rule trim_end_space)
  moreover have "?line = (?s @ CHR '' '' # ?p @ CHR '' '' # es) @ [e]" by (simp add: e(1))
  then have "trim_end ?line = ?line" using trim_end_plain [OF e(2)] by metis
  ultimately have tr: "trim (?line @ '' '') = ?line" by (simp add: trim_def)
  obtain u where u: "parse_term ?line = Inr (u, CHR '' '' # ?p @ CHR '' '' # ?o)" "term_subject u = Inr (t_subject t)"
    by (rule parse_subject [OF ok(1)])
  obtain v where v: "parse_term ?o = Inr (v, [])" "term_object v = latin1_object (t_object t)"
    by (rule parse_object [OF ok(3)])
  have p: "trim_start (CHR '' '' # ?p @ CHR '' '' # ?o) = ?p @ CHR '' '' # ?o" by (simp add: angle_def)
  have o: "trim_start (CHR '' '' # ?o) = ?o" using d by simp
  show ?thesis
    unfolding parse_triple_def dot option.case tr u(1) sum.case prod.case p parse_term_iri [OF ok(2)] nt_term.case o v(1)
    by (simp add: trim_def u(2) v(2) latin1_triple_def)
qed

lemma escape_no_newline: "CHR 0x0A \<notin> set (concat (map escape_char x))"
proof -
  have "CHR 0x0A \<notin> set (escape_char c)" for c by (simp add: escape_char_def)
  then show ?thesis by (induction x) simp_all
qed

lemma label_no_newline: "plain_label l \<Longrightarrow> CHR 0x0A \<notin> set l"
  unfolding plain_label_def list_all_iff using not_plain(2) by blast

lemma pushed_no_newline: "nt_ok t \<Longrightarrow> CHR 0x0A \<notin> set (push_triple t)"
proof -
  assume "nt_ok t"
  then have ok: "nt_subject_ok (t_subject t)" "nt_iri_ok (t_predicate t)" "nt_object_ok (t_object t)"
    by (simp_all add: nt_ok_def)
  have a: "nt_iri_ok i \<Longrightarrow> CHR 0x0A \<notin> set (angle i)" for i by (simp add: angle_def nt_iri_ok_def)
  have "CHR 0x0A \<notin> set (push_subject (t_subject t))"
    using ok(1) a label_no_newline by (cases "t_subject t") (auto simp: push_subject_def nt_subject_ok_def)
  moreover have "CHR 0x0A \<notin> set (push_object (t_object t))"
  proof (cases "t_object t")
    case (OLiteral x d lang)
    then show ?thesis
      using ok(3) a [of d] label_no_newline escape_no_newline [of x]
      by (cases lang) (auto simp: push_object_def nt_object_ok_def)
  qed (use ok(3) a label_no_newline in \<open>auto simp: push_object_def nt_object_ok_def\<close>)
  ultimately show ?thesis using a [OF ok(2)] by (simp add: push_triple_def)
qed

lemma str_lines_pushed:
  "\<forall>t \<in> set ts. nt_ok t \<Longrightarrow> str_lines (nt_write_triples ts) = map push_triple ts"
proof (induction ts)
  case Nil
  then show ?case by (subst str_lines.simps) (simp add: nt_write_triples_def)
next
  case (Cons t ts)
  have "split_once (CHR 0x0A) (push_triple t @ CHR 0x0A # nt_write_triples ts) = Some (push_triple t, nt_write_triples ts)"
    by (rule split_once_append [OF pushed_no_newline]) (use Cons.prems in simp)
  moreover have "strip_cr (push_triple t) = push_triple t" by (simp add: strip_cr_def push_triple_def)
  moreover have "nt_write_triples (t # ts) = push_triple t @ CHR 0x0A # nt_write_triples ts"
    by (simp add: nt_write_triples_def)
  ultimately show ?case using Cons by (subst str_lines.simps) simp
qed

lemma parse_written:
  "\<forall>t \<in> set ts. nt_ok t \<Longrightarrow> parse_lines n (map push_triple ts) = Inr (map latin1_triple ts)"
proof (induction ts arbitrary: n)
  case (Cons t ts)
  from pushed_ends(1) [of "t_subject t"] obtain c cs where "push_subject (t_subject t) = c # cs" "c \<noteq> CHR ''#''" by blast
  then have "push_triple t \<noteq> []" "take 1 (push_triple t) \<noteq> ''#''" by (simp_all add: push_triple_def)
  with Cons parse_pushed [of t] show ?case by (simp add: Let_def trim_pushed)
qed simp

section \<open>Properties\<close>

text \<open>C38: what N-Triples text carries. Parsing the written form of triples the syntax can express
  gives the same triples in the same order, except that every literal's lexical form is read as
  Latin-1: the parser pushes each byte as a character. The triples come back unchanged exactly when
  every literal is ASCII.\<close>

theorem ntriples_round_trip:
  assumes "\<forall>t \<in> set ts. nt_ok t"
  shows "nt_parse (nt_write_triples ts) = Inr (map latin1_triple ts) \<and>
     (nt_parse (nt_write_triples ts) = Inr ts \<longleftrightarrow>
        (\<forall>t \<in> set ts. case t_object t of OLiteral x d l \<Rightarrow> ascii x | _ \<Rightarrow> True))"
proof -
  have eq: "nt_parse (nt_write_triples ts) = Inr (map latin1_triple ts)"
    by (simp add: nt_parse_def str_lines_pushed [OF assms] parse_written [OF assms])
  have "latin1_triple t = t \<longleftrightarrow> (case t_object t of OLiteral x d l \<Rightarrow> ascii x | _ \<Rightarrow> True)" for t
  proof -
    have "latin1_triple t = t \<longleftrightarrow> latin1_object (t_object t) = t_object t"
      by (cases t) (simp add: latin1_triple_def)
    also have "\<dots> \<longleftrightarrow> (case t_object t of OLiteral x d l \<Rightarrow> ascii x | _ \<Rightarrow> True)"
      by (cases "t_object t") (simp_all add: latin1_object_def latin1_ascii)
    finally show ?thesis .
  qed
  moreover have "map latin1_triple ts = ts \<longleftrightarrow> (\<forall>t \<in> set ts. latin1_triple t = t)"
    by (induction ts) auto
  ultimately show ?thesis by (simp add: eq)
qed

text \<open>A document can crash the parser. A \<open>u\<close> escape whose four bytes end inside a multi-byte
  character, as in a literal of the text backslash, \<open>u000\<close> and a two-byte letter, slices the input off
  a character boundary and panics.\<close>

theorem split_escape_panics:
  "nt_parse (''<a> <b> '' @ [CHR 0x22, CHR 0x5C] @ ''u000'' @ [CHR 0xC3, CHR 0xA9, CHR 0x22] @ '' .'') = Inl (1, NtPanic)"
  by code_simp

lemma ntriples_round_trip_witness:
  "nt_parse (nt_write_triples [triple_new (SIri (Iri ''a'')) (Iri ''b'') (xsd_string ''x'')]) =
     Inr [triple_new (SIri (Iri ''a'')) (Iri ''b'') (xsd_string ''x'')]"
proof -
  let ?t = "triple_new (SIri (Iri ''a'')) (Iri ''b'') (xsd_string ''x'')"
  have "\<forall>t \<in> set [?t]. nt_ok t" by (simp add: code_defs)
  note ntriples_round_trip [OF this]
  moreover have "\<forall>t \<in> set [?t]. case t_object t of OLiteral x d l \<Rightarrow> ascii x | _ \<Rightarrow> True" by (simp add: code_defs)
  ultimately show ?thesis by blast
qed

end
