(* ===== verification/Query_Lex.thy ===== *)
theory Query_Lex
  imports Store_Api Std_Text
begin

text \<open>
  The byte-level utilities that \<open>cypher.rs\<close> and \<open>sparql.rs\<close> of \<open>crates/atomr-ontology-query/src\<close>
  both start from: identifier bytes, keywords, the excerpt of the input in error messages. A
  parser's state \<open>(src, pos)\<close> is what is left of the input, \<open>src[pos..]\<close>; \<open>pos\<close> itself appears in
  error messages only, and is the length of the query less the length of what an error carries.
\<close>

section \<open>Bytes\<close>

definition is_ascii_alphabetic :: "char \<Rightarrow> bool" where
  [code_defs]: "is_ascii_alphabetic c \<longleftrightarrow>
     (let n = of_char c :: nat in (65 \<le> n \<and> n \<le> 90) \<or> (97 \<le> n \<and> n \<le> 122))"

definition is_ident_start :: "char \<Rightarrow> bool" where
  [code_defs]: "is_ident_start c \<longleftrightarrow> c = CHR ''_'' \<or> is_ascii_alphabetic c"

definition is_ident_continue :: "char \<Rightarrow> bool" where
  [code_defs]: "is_ident_continue c \<longleftrightarrow> c = CHR ''_'' \<or> is_ascii_alphabetic c \<or> is_ascii_digit c"

definition is_ascii_whitespace :: "char \<Rightarrow> bool" where
  [code_defs]: "is_ascii_whitespace c \<longleftrightarrow> c \<in> {CHR '' '', CHR 0x09, CHR 0x0A, CHR 0x0C, CHR 0x0D}"

definition to_ascii_lowercase :: "char \<Rightarrow> char" where
  [code_defs]: "to_ascii_lowercase c =
     (let n = of_char c :: nat in if 65 \<le> n \<and> n \<le> 90 then char_of (n + 32) else c)"

definition eq_ignore_ascii_case :: "string \<Rightarrow> string \<Rightarrow> bool" where
  [code_defs]: "eq_ignore_ascii_case s t \<longleftrightarrow> map to_ascii_lowercase s = map to_ascii_lowercase t"

text \<open>A keyword matches in either case when no identifier byte follows; the result is what it leaves.\<close>

definition try_keyword :: "string \<Rightarrow> string \<Rightarrow> string option" where
  [code_defs]: "try_keyword kw s =
     (if length s < length kw then None
      else if \<not> eq_ignore_ascii_case (take (length kw) s) kw then None
      else case drop (length kw) s of
             [] \<Rightarrow> Some []
           | c # r \<Rightarrow> if is_ident_continue c then None else Some (c # r))"

text \<open>
  \<open>peek_rest_trim\<close> cuts the trimmed rest at byte 40 for the message of an error. The cut panics when
  it falls inside a character. A rest that is not UTF-8 is not cut; \<open>utf8_valid\<close> is \<open>from_utf8\<close>.
\<close>

definition cont_byte :: "nat \<Rightarrow> bool" where
  [code_defs]: "cont_byte n \<longleftrightarrow> 0x80 \<le> n \<and> n \<le> 0xBF"

fun utf8_valid :: "nat list \<Rightarrow> bool" where
  "utf8_valid [] = True"
| "utf8_valid (a # r) =
     (if a < 0x80 then utf8_valid r
      else if 0xC2 \<le> a \<and> a \<le> 0xDF then
        (case r of b # r' \<Rightarrow> cont_byte b \<and> utf8_valid r' | _ \<Rightarrow> False)
      else if 0xE0 \<le> a \<and> a \<le> 0xEF then
        (case r of
           b # c # r' \<Rightarrow> cont_byte b \<and> (a = 0xE0 \<longrightarrow> 0xA0 \<le> b) \<and> (a = 0xED \<longrightarrow> b \<le> 0x9F) \<and> cont_byte c \<and> utf8_valid r'
         | _ \<Rightarrow> False)
      else if 0xF0 \<le> a \<and> a \<le> 0xF4 then
        (case r of
           b # c # d # r' \<Rightarrow>
             cont_byte b \<and> (a = 0xF0 \<longrightarrow> 0x90 \<le> b) \<and> (a = 0xF4 \<longrightarrow> b \<le> 0x8F) \<and> cont_byte c \<and> cont_byte d \<and> utf8_valid r'
         | _ \<Rightarrow> False)
      else False)"

definition excerpt_panics :: "string \<Rightarrow> bool" where
  [code_defs]: "excerpt_panics s \<longleftrightarrow>
     utf8_valid (map of_char s) \<and> length (trim s) > 40 \<and> \<not> at_boundary (drop 40 (trim s))"

section \<open>Reading identifiers, keywords and numbers\<close>

definition ident_ok :: "string \<Rightarrow> bool" where
  [code_defs]: "ident_ok x \<longleftrightarrow> x \<noteq> [] \<and> is_ident_start (hd x) \<and> list_all is_ident_continue (tl x)"

text \<open>What may follow an identifier or a number: its first byte is no identifier byte.\<close>

definition stops :: "string \<Rightarrow> bool" where
  [code_defs]: "stops r \<longleftrightarrow> (case r of [] \<Rightarrow> True | c # _ \<Rightarrow> \<not> is_ident_continue c)"

lemma stops_simps [simp]: "stops []" "stops (c # r) \<longleftrightarrow> \<not> is_ident_continue c"
  by (simp_all add: stops_def)

lemma digit_continue: "is_ascii_digit c \<Longrightarrow> is_ident_continue c"
  by (simp add: is_ident_continue_def)

lemma start_continue: "is_ident_start c \<Longrightarrow> is_ident_continue c"
  by (auto simp: is_ident_start_def is_ident_continue_def)

lemma take_while_stop:
  assumes "list_all P x" "r = [] \<or> \<not> P (hd r)"
  shows "takeWhile P (x @ r) = x" "dropWhile P (x @ r) = r"
  using assms by (induction x; cases r; simp)+

lemma ident_continue_not:
  "is_ident_continue c \<Longrightarrow> \<not> is_ascii_whitespace c"
  "is_ident_continue c \<Longrightarrow> c \<notin> {CHR '':'', CHR ''('', CHR '')'', CHR ''{'', CHR ''}'', CHR ''['', CHR '']'', CHR '','', CHR ''-'',
     CHR ''<'', CHR ''>'', CHR ''*'', CHR ''.'', CHR 0x22, CHR ''?'', CHR ''#'', CHR ''/''}"
  by (auto simp: code_defs)

lemma ident_start_not: "is_ident_start c \<Longrightarrow> \<not> is_ascii_digit c"
  by (auto simp: code_defs Let_def)

lemma digit_not_ws: "is_ascii_digit c \<Longrightarrow> \<not> is_ascii_whitespace c"
  by (rule ident_continue_not(1) [OF digit_continue])

lemma ident_read:
  assumes "ident_ok x" "stops r"
  shows "hd x # takeWhile is_ident_continue (tl x @ r) = x" "dropWhile is_ident_continue (tl x @ r) = r"
proof -
  have r: "r = [] \<or> \<not> is_ident_continue (hd r)" using assms(2) by (cases r) simp_all
  from assms(1) have "list_all is_ident_continue (tl x)" "x \<noteq> []" by (simp_all add: ident_ok_def)
  with take_while_stop [OF this(1) r] show "hd x # takeWhile is_ident_continue (tl x @ r) = x"
    "dropWhile is_ident_continue (tl x @ r) = r" by simp_all
qed

lemma try_keyword_self: "stops r \<Longrightarrow> try_keyword kw (kw @ r) = Some r"
  by (cases r) (simp_all add: try_keyword_def eq_ignore_ascii_case_def)

lemma try_keyword_other:
  "s = [] \<or> to_ascii_lowercase (hd s) \<noteq> to_ascii_lowercase k \<Longrightarrow> try_keyword (k # kw) s = None"
  by (cases s) (auto simp: try_keyword_def eq_ignore_ascii_case_def)

lemma try_keyword_less:
  assumes "try_keyword kw s = Some r" "kw \<noteq> []"
  shows "length r < length s"
proof -
  from assms(1) have "r = drop (length kw) s" "length kw \<le> length s"
    by (auto simp: try_keyword_def split: if_splits list.splits)
  with assms(2) show ?thesis by (cases kw) simp_all
qed

lemma digits_read:
  assumes "stops r"
  shows "takeWhile is_ascii_digit (show_nat n @ r) = show_nat n" "dropWhile is_ascii_digit (show_nat n @ r) = r"
proof -
  have "r = [] \<or> \<not> is_ascii_digit (hd r)" using assms by (cases r) (auto dest: digit_continue)
  with take_while_stop [OF show_nat_digits(1) [of n], of r]
  show "takeWhile is_ascii_digit (show_nat n @ r) = show_nat n" "dropWhile is_ascii_digit (show_nat n @ r) = r"
    by simp_all
qed

lemma show_nat_hd: "is_ascii_digit (hd (show_nat n))"
  using show_nat_digits [of n] by (cases "show_nat n") simp_all

lemma drop_while_length: "length (dropWhile P s) \<le> length s"
  by (rule length_dropWhile_le)

end
