(* ===== verification/Query_Cypher.thy ===== *)
theory Query_Cypher
  imports Query_Lex
begin

text \<open>
  \<open>crates/atomr-ontology-query/src/cypher.rs\<close>: the parser of the openCypher subset to traversal
  plans. Each method of \<open>Parser\<close> is a function from what is left of the input to a failure or a
  value with what it leaves. A failure is a constructor per message, with what was left of the input
  where the message excerpts it, or the panic of that excerpt. A \<open>usize\<close> has 64 bits.
\<close>

section \<open>Failures\<close>

datatype cy_error =
    CyTrailing
  | CyKeyword string
  | CyChar char
  | CyIdent
  | CyInteger
  | CyBadInteger string
  | CyString
  | CyUnterminatedEscape
  | CyUnterminatedString
  | CyValue
  | CyCommaOrBrace
  | CyRange nat nat

datatype cy_unsupported = CyWhere | CyBidirectional

datatype cy_failure =
    CyParse cy_error string
  | CyUnsupported cy_unsupported
  | CyPanic

text \<open>An error whose message contains \<open>peek_rest_trim()\<close>.\<close>

definition cy_err :: "cy_error \<Rightarrow> string \<Rightarrow> cy_failure" where
  [code_defs]: "cy_err e s = (if excerpt_panics s then CyPanic else CyParse e s)"

section \<open>Tokens\<close>

definition cy_skip_ws :: "string \<Rightarrow> string" where
  [code_defs]: "cy_skip_ws s = dropWhile is_ascii_whitespace s"

definition cy_expect_keyword :: "string \<Rightarrow> string \<Rightarrow> cy_failure + string" where
  [code_defs]: "cy_expect_keyword kw s =
     (let s = cy_skip_ws s
      in case try_keyword kw s of Some r \<Rightarrow> Inr r | None \<Rightarrow> Inl (cy_err (CyKeyword kw) s))"

definition cy_expect_char :: "char \<Rightarrow> string \<Rightarrow> cy_failure + string" where
  [code_defs]: "cy_expect_char c s =
     (let s = cy_skip_ws s
      in case s of
           [] \<Rightarrow> Inl (cy_err (CyChar c) s)
         | d # r \<Rightarrow> if d = c then Inr r else Inl (cy_err (CyChar c) s))"

text \<open>The bytes of an identifier are ASCII, so its \<open>from_utf8\<close> succeeds.\<close>

definition cy_ident :: "string \<Rightarrow> cy_failure + string \<times> string" where
  [code_defs]: "cy_ident s =
     (let s = cy_skip_ws s
      in case s of
           [] \<Rightarrow> Inl (cy_err CyIdent s)
         | c # r \<Rightarrow>
             if is_ident_start c then Inr (c # takeWhile is_ident_continue r, dropWhile is_ident_continue r)
             else Inl (cy_err CyIdent s))"

definition usize_max :: nat where
  [code_defs]: "usize_max = 2 ^ 64 - 1"

definition cy_uint :: "string \<Rightarrow> cy_failure + nat \<times> string" where
  [code_defs]: "cy_uint s =
     (let s = cy_skip_ws s; raw = takeWhile is_ascii_digit s; r = dropWhile is_ascii_digit s
      in if raw = [] then Inl (cy_err CyInteger s)
         else if usize_max < digits_value raw then Inl (CyParse (CyBadInteger raw) r)
         else Inr (digits_value raw, r))"

definition cy_int :: "string \<Rightarrow> cy_failure + 64 word \<times> string" where
  [code_defs]: "cy_int s =
     (let s = cy_skip_ws s;
          neg = (take 1 s = ''-'');
          s' = (if neg then drop 1 s else s);
          raw = takeWhile is_ascii_digit s';
          r = dropWhile is_ascii_digit s';
          v = (if neg then - int (digits_value raw) else int (digits_value raw))
      in if raw = [] then Inl (CyParse CyInteger s)
         else if v < - (2 ^ 63) \<or> 2 ^ 63 \<le> v
              then Inl (CyParse (CyBadInteger (if neg then CHR ''-'' # raw else raw)) r)
         else Inr (word_of_int v, r))"

definition cy_escape :: "char \<Rightarrow> string" where
  [code_defs]: "cy_escape c =
     (if c = CHR ''n'' then [CHR 0x0A] else if c = CHR ''t'' then [CHR 0x09]
      else if c = CHR ''r'' then [CHR 0x0D] else utf8_encode (of_char c))"

fun cy_string_loop :: "string \<Rightarrow> string \<Rightarrow> cy_failure + string \<times> string" where
  "cy_string_loop out [] = Inl (CyParse CyUnterminatedString [])"
| "cy_string_loop out (c # cs) =
     (if c = CHR 0x22 then Inr (out, cs)
      else if c = CHR 0x5C then
        (case cs of
           [] \<Rightarrow> Inl (CyParse CyUnterminatedEscape [])
         | e # r \<Rightarrow> cy_string_loop (out @ cy_escape e) r)
      else cy_string_loop (out @ utf8_encode (of_char c)) cs)"

definition cy_string :: "string \<Rightarrow> cy_failure + string \<times> string" where
  [code_defs]: "cy_string s =
     (let s = cy_skip_ws s
      in case s of
           [] \<Rightarrow> Inl (cy_err CyString s)
         | c # r \<Rightarrow> if c = CHR 0x22 then cy_string_loop [] r else Inl (cy_err CyString s))"

definition cy_value :: "string \<Rightarrow> cy_failure + property_value \<times> string" where
  [code_defs]: "cy_value s =
     (let s = cy_skip_ws s
      in case s of
           [] \<Rightarrow> Inl (cy_err CyValue s)
         | c # _ \<Rightarrow>
             if c = CHR 0x22 then try_then (cy_string s) (\<lambda>(x, r). Inr (PString x, r))
             else if is_ascii_digit c \<or> c = CHR ''-'' then try_then (cy_int s) (\<lambda>(i, r). Inr (PInteger i, r))
             else if is_ascii_alphabetic c then
               (case try_keyword ''true'' s of
                  Some r \<Rightarrow> Inr (PBool True, r)
                | None \<Rightarrow>
                    (case try_keyword ''false'' s of
                       Some r \<Rightarrow> Inr (PBool False, r)
                     | None \<Rightarrow> Inl (cy_err CyValue s)))
             else Inl (cy_err CyValue s))"

text \<open>Each token is at least one byte of the input, so the loops end.\<close>

lemma cy_skip_ws_le: "length (cy_skip_ws s) \<le> length s"
  by (simp add: cy_skip_ws_def drop_while_length)

lemma cy_expect_char_less: "cy_expect_char c s = Inr r \<Longrightarrow> length r < length s"
  using cy_skip_ws_le [of s] by (auto simp: cy_expect_char_def Let_def split: list.splits if_splits)

lemma cy_ident_less: "cy_ident s = Inr (x, r) \<Longrightarrow> length r < length s"
proof -
  assume i: "cy_ident s = Inr (x, r)"
  then obtain c cs where s: "cy_skip_ws s = c # cs" and r: "r = dropWhile is_ident_continue cs"
    by (auto simp: cy_ident_def Let_def split: list.splits if_splits)
  have "length r \<le> length cs" unfolding r by (rule drop_while_length)
  with cy_skip_ws_le [of s] s show ?thesis by simp
qed

lemma cy_uint_less: "cy_uint s = Inr (n, r) \<Longrightarrow> length r \<le> length s"
  using cy_skip_ws_le [of s] drop_while_length [of is_ascii_digit "cy_skip_ws s"]
  by (auto simp: cy_uint_def Let_def split: if_splits)

lemma cy_int_less: "cy_int s = Inr (i, r) \<Longrightarrow> length r \<le> length s"
  using cy_skip_ws_le [of s] drop_while_length [of is_ascii_digit "cy_skip_ws s"]
    drop_while_length [of is_ascii_digit "drop 1 (cy_skip_ws s)"]
  by (auto simp: cy_int_def Let_def split: if_splits)

lemma cy_string_loop_less: "cy_string_loop out s = Inr (x, r) \<Longrightarrow> length r \<le> length s"
  by (induction out s rule: cy_string_loop.induct) (auto split: if_splits list.splits)

lemma cy_skip_ws_skip [simp]: "cy_skip_ws (cy_skip_ws s) = cy_skip_ws s"
  by (simp add: cy_skip_ws_def)

lemma cy_value_less: "cy_value s = Inr (v, r) \<Longrightarrow> length r \<le> length s"
proof -
  assume v: "cy_value s = Inr (v, r)"
  then obtain c cs where s: "cy_skip_ws s = c # cs"
    by (auto simp: cy_value_def Let_def split: list.splits)
  have "length r \<le> length (c # cs)"
  proof (cases "c = CHR 0x22")
    case True
    with v s have "cy_string_loop [] cs = Inr (case v of PString x \<Rightarrow> x | _ \<Rightarrow> [], r)"
      using cy_skip_ws_skip [of s] by (auto simp: cy_value_def cy_string_def)
    from cy_string_loop_less [OF this] show ?thesis by simp
  next
    case False
    with v s show ?thesis
      by (auto simp: cy_value_def Let_def split: if_splits option.splits dest!: cy_int_less try_keyword_less)
  qed
  with cy_skip_ws_le [of s] s show ?thesis by simp
qed

section \<open>Patterns\<close>

function cy_props_loop :: "props \<Rightarrow> string \<Rightarrow> cy_failure + props \<times> string" where
  "cy_props_loop m s =
     try_then (cy_ident s) (\<lambda>(key, s).
     try_then (cy_expect_char (CHR '':'') s) (\<lambda>s.
     try_then (cy_value s) (\<lambda>(v, s).
       case cy_skip_ws s of
         [] \<Rightarrow> Inl (cy_err CyCommaOrBrace [])
       | c # r \<Rightarrow>
           if c = CHR '','' then cy_props_loop (bm_insert key v m) r
           else if c = CHR ''}'' then Inr (bm_insert key v m, r)
           else Inl (cy_err CyCommaOrBrace (c # r)))))"
  by pat_completeness auto
termination
proof (relation "measure (length \<circ> snd)")
  fix m s x xa y xb xc xd ya x21 x22
  assume "cy_ident s = Inr x" "(xa, y) = x" "cy_expect_char (CHR '':'') y = Inr xb" "cy_value xb = Inr xc"
    "(xd, ya) = xc" "cy_skip_ws ya = x21 # x22"
  then have "length y < length s" "length xb < length y" "length ya \<le> length xb" "length (x21 # x22) \<le> length ya"
    using cy_ident_less cy_expect_char_less cy_value_less cy_skip_ws_le [of ya] by auto
  then show "((bm_insert xa xd m, x22), m, s) \<in> measure (length \<circ> snd)" by simp
qed simp

declare cy_props_loop.simps [simp del]

definition cy_prop_map :: "props \<Rightarrow> string \<Rightarrow> cy_failure + props \<times> string" where
  [code_defs]: "cy_prop_map m s =
     try_then (cy_expect_char (CHR ''{'') s) (\<lambda>s.
       let s = cy_skip_ws s
       in if take 1 s = ''}'' then Inr (m, drop 1 s) else cy_props_loop m s)"

function cy_labels :: "string \<Rightarrow> cy_failure + string list \<times> string" where
  "cy_labels s =
     (case cy_skip_ws s of
        [] \<Rightarrow> Inr ([], [])
      | c # r \<Rightarrow>
          if c = CHR '':'' then
            try_then (cy_ident r) (\<lambda>(l, r).
            try_then (cy_labels r) (\<lambda>(ls, r). Inr (l # ls, r)))
          else Inr ([], c # r))"
  by pat_completeness auto
termination
proof (relation "measure length")
  fix s x21 x22 x xa y
  assume "cy_skip_ws s = x21 # x22" "cy_ident x22 = Inr x" "(xa, y) = x"
  then have "length y < length x22" "length (x21 # x22) \<le> length s"
    using cy_ident_less cy_skip_ws_le [of s] by auto
  then show "(y, s) \<in> measure length" by simp
qed simp

declare cy_labels.simps [simp del]

text \<open>An optional identifier.\<close>

definition cy_opt_ident :: "string \<Rightarrow> cy_failure + string option \<times> string" where
  [code_defs]: "cy_opt_ident s =
     (let s = cy_skip_ws s
      in case s of
           [] \<Rightarrow> Inr (None, s)
         | c # _ \<Rightarrow> if is_ident_start c then try_then (cy_ident s) (\<lambda>(x, r). Inr (Some x, r)) else Inr (None, s))"

text \<open>An optional property map.\<close>

definition cy_opt_props :: "string \<Rightarrow> cy_failure + props \<times> string" where
  [code_defs]: "cy_opt_props s =
     (let s = cy_skip_ws s in if take 1 s = ''{'' then cy_prop_map [] s else Inr ([], s))"

definition cy_node :: "string \<Rightarrow> cy_failure + node_pattern \<times> string" where
  [code_defs]: "cy_node s =
     try_then (cy_expect_char (CHR ''('') s) (\<lambda>s.
     try_then (cy_opt_ident s) (\<lambda>(b, s).
     try_then (cy_labels s) (\<lambda>(ls, s).
     try_then (cy_opt_props s) (\<lambda>(m, s).
     try_then (cy_expect_char (CHR '')'') s) (\<lambda>s.
       Inr (NodePattern b ls m None [] [], s))))))"

text \<open>The range after \<open>*\<close>.\<close>

definition cy_min :: "string \<Rightarrow> cy_failure + (nat \<times> nat) \<times> string" where
  [code_defs]: "cy_min s =
     (let s = cy_skip_ws s
      in if s \<noteq> [] \<and> is_ascii_digit (hd s) then try_then (cy_uint s) (\<lambda>(n, r). Inr ((n, n), r))
         else Inr ((1, usize_max), s))"

definition cy_max :: "nat \<Rightarrow> string \<Rightarrow> cy_failure + nat \<times> string" where
  [code_defs]: "cy_max hi s =
     (let s = cy_skip_ws s
      in if take 2 s = ''..'' then
           (let s = cy_skip_ws (drop 2 s)
            in if s \<noteq> [] \<and> is_ascii_digit (hd s) then cy_uint s else Inr (usize_max, s))
         else Inr (hi, s))"

definition cy_range :: "string \<Rightarrow> cy_failure + (nat \<times> nat) option \<times> string" where
  [code_defs]: "cy_range s =
     (let s = cy_skip_ws s
      in if take 1 s = ''*'' then
           try_then (cy_min (drop 1 s)) (\<lambda>((lo, hi), s).
           try_then (cy_max hi s) (\<lambda>(hi, s).
             if hi < lo then Inl (CyParse (CyRange hi lo) s) else Inr (Some (lo, hi), s)))
         else Inr (None, s))"

definition cy_opt_label :: "string \<Rightarrow> cy_failure + string option \<times> string" where
  [code_defs]: "cy_opt_label s =
     (let s = cy_skip_ws s
      in if take 1 s = '':'' then try_then (cy_ident (drop 1 s)) (\<lambda>(l, r). Inr (Some l, r)) else Inr (None, s))"

text \<open>The body of an edge after its opening bracket.\<close>

definition cy_edge_body :: "string \<Rightarrow> cy_failure + edge_pattern \<times> string" where
  [code_defs]: "cy_edge_body s =
     try_then (cy_opt_ident s) (\<lambda>(b, s).
     try_then (cy_opt_label s) (\<lambda>(l, s).
     try_then (cy_range s) (\<lambda>(rp, s).
     try_then (cy_opt_props s) (\<lambda>(m, s).
     try_then (cy_expect_char (CHR '']'') s) (\<lambda>s.
       Inr (\<lparr>ep_bind = b, ep_label = l, ep_props = m, ep_repeat = rp\<rparr>, s))))))"

text \<open>The optional bracket; the optional \<open>c\<close> at the front, as a flag.\<close>

definition cy_opt_body :: "string \<Rightarrow> cy_failure + edge_pattern \<times> string" where
  [code_defs]: "cy_opt_body s =
     (let s = cy_skip_ws s in if take 1 s = ''['' then cy_edge_body (drop 1 s) else Inr (ep_any, s))"

definition cy_flag :: "char \<Rightarrow> string \<Rightarrow> bool \<times> string" where
  [code_defs]: "cy_flag c s = (if take 1 s = [c] then (True, drop 1 s) else (False, s))"

definition cy_edge_and_node :: "string \<Rightarrow> cy_failure + traversal_step \<times> string" where
  [code_defs]: "cy_edge_and_node s =
     (case cy_flag (CHR ''<'') (cy_skip_ws s) of (incoming, s) \<Rightarrow>
      try_then (cy_expect_char (CHR ''-'') s) (\<lambda>s.
      try_then (cy_opt_body s) (\<lambda>(edge, s).
      try_then (cy_expect_char (CHR ''-'') (cy_skip_ws s)) (\<lambda>s.
      case cy_flag (CHR ''>'') s of (arrow, s) \<Rightarrow>
        if incoming \<and> arrow then Inl (CyUnsupported CyBidirectional)
        else try_then (cy_node s) (\<lambda>(target, s).
          Inr (\<lparr>ts_edge = edge, ts_target = target, ts_outbound = \<not> incoming\<rparr>, s))))))"

lemma cy_labels_less: "cy_labels s = Inr (ls, r) \<Longrightarrow> length r \<le> length s"
proof (induction s arbitrary: ls r rule: cy_labels.induct)
  case (1 s)
  note eq = "1.prems" [unfolded cy_labels.simps [of s]]
  show ?case
  proof (cases "cy_skip_ws s")
    case Nil
    with eq show ?thesis by simp
  next
    case (Cons c cs)
    show ?thesis
    proof (cases "c = CHR '':''")
      case True
      with eq Cons obtain l s1 ls' where l: "cy_ident cs = Inr (l, s1)" and "cy_labels s1 = Inr (ls', r)" by auto
      with "1.IH" [OF Cons True l refl] have "length r \<le> length s1" by blast
      with cy_ident_less [OF l] cy_skip_ws_le [of s] Cons show ?thesis by simp
    next
      case False
      with eq Cons have "r = cy_skip_ws s" by simp
      then show ?thesis by (simp add: cy_skip_ws_le)
    qed
  qed
qed

lemma cy_props_loop_step:
  assumes "cy_props_loop m s = Inr (m', r)"
  obtains k s1 s2 v s3 c r' where "cy_ident s = Inr (k, s1)" "cy_expect_char (CHR '':'') s1 = Inr s2"
    "cy_value s2 = Inr (v, s3)" "cy_skip_ws s3 = c # r'"
    "c = CHR '','' \<and> cy_props_loop (bm_insert k v m) r' = Inr (m', r) \<or>
     c \<noteq> CHR '','' \<and> r = r' \<and> m' = bm_insert k v m"
proof -
  from assms [unfolded cy_props_loop.simps [of m s]] obtain k s1 s2 v s3 where *: "cy_ident s = Inr (k, s1)"
    "cy_expect_char (CHR '':'') s1 = Inr s2" "cy_value s2 = Inr (v, s3)"
    and fin: "(case cy_skip_ws s3 of [] \<Rightarrow> Inl (cy_err CyCommaOrBrace [])
       | c # r \<Rightarrow> if c = CHR '','' then cy_props_loop (bm_insert k v m) r
                 else if c = CHR ''}'' then Inr (bm_insert k v m, r) else Inl (cy_err CyCommaOrBrace (c # r))) = Inr (m', r)"
    by (simp only: try_then_Inr split_paired_Ex prod.case) blast
  from fin obtain c r' where "cy_skip_ws s3 = c # r'" by (cases "cy_skip_ws s3") simp_all
  moreover from this fin have "c = CHR '','' \<and> cy_props_loop (bm_insert k v m) r' = Inr (m', r) \<or>
     c \<noteq> CHR '','' \<and> r = r' \<and> m' = bm_insert k v m" by (simp split: if_splits)
  ultimately show ?thesis using * by (rule that [rotated 3])
qed

lemma cy_props_loop_less: "cy_props_loop m s = Inr (m', r) \<Longrightarrow> length r < length s"
proof (induction m s arbitrary: m' r rule: cy_props_loop.induct)
  case (1 m s)
  from cy_props_loop_step [OF "1.prems"] obtain k s1 s2 v s3 c r' where *: "cy_ident s = Inr (k, s1)"
    "cy_expect_char (CHR '':'') s1 = Inr s2" "cy_value s2 = Inr (v, s3)" "cy_skip_ws s3 = c # r'"
    and rest: "c = CHR '','' \<and> cy_props_loop (bm_insert k v m) r' = Inr (m', r) \<or>
     c \<noteq> CHR '','' \<and> r = r' \<and> m' = bm_insert k v m" by blast
  have "length r \<le> length r'" using rest "1.IH" [OF *(1) refl *(2,3) refl *(4)] by (auto intro: less_imp_le)
  with cy_ident_less [OF *(1)] cy_expect_char_less [OF *(2)] cy_value_less [OF *(3)] cy_skip_ws_le [of s3] *(4)
  show ?case by simp
qed

lemma cy_opt_ident_less: "cy_opt_ident s = Inr (b, r) \<Longrightarrow> length r \<le> length s"
proof -
  assume "cy_opt_ident s = Inr (b, r)"
  then have "r = cy_skip_ws s \<or> (\<exists>x. cy_ident (cy_skip_ws s) = Inr (x, r))"
    by (cases "cy_skip_ws s") (auto simp: cy_opt_ident_def Let_def split: if_splits)
  with cy_skip_ws_le [of s] show ?thesis by (auto dest!: cy_ident_less)
qed

lemma cy_prop_map_less: "cy_prop_map m s = Inr (m', r) \<Longrightarrow> length r \<le> length s"
proof -
  assume "cy_prop_map m s = Inr (m', r)"
  then obtain s1 where s1: "cy_expect_char (CHR ''{'') s = Inr s1"
    and "r = drop 1 (cy_skip_ws s1) \<or> cy_props_loop m (cy_skip_ws s1) = Inr (m', r)"
    by (auto simp: cy_prop_map_def Let_def split: if_splits)
  then have "length r \<le> length (cy_skip_ws s1)" by (auto dest: cy_props_loop_less)
  with cy_skip_ws_le [of s1] cy_expect_char_less [OF s1] show ?thesis by simp
qed

lemma cy_opt_props_less: "cy_opt_props s = Inr (m, r) \<Longrightarrow> length r \<le> length s"
  using cy_skip_ws_le [of s] cy_prop_map_less [of "[]" "cy_skip_ws s" m r]
  by (auto simp: cy_opt_props_def Let_def split: if_splits)

lemma cy_node_less: "cy_node s = Inr (n, r) \<Longrightarrow> length r < length s"
  by (auto simp: cy_node_def dest!: cy_expect_char_less cy_opt_ident_less cy_labels_less cy_opt_props_less)

lemma cy_opt_label_less: "cy_opt_label s = Inr (l, r) \<Longrightarrow> length r \<le> length s"
  using cy_skip_ws_le [of s] by (auto simp: cy_opt_label_def Let_def split: if_splits dest!: cy_ident_less)

lemma cy_min_less: "cy_min s = Inr (p, r) \<Longrightarrow> length r \<le> length s"
  using cy_skip_ws_le [of s] by (auto simp: cy_min_def Let_def split: if_splits dest!: cy_uint_less)

lemma cy_max_less: "cy_max hi s = Inr (n, r) \<Longrightarrow> length r \<le> length s"
  using cy_skip_ws_le [of s] cy_skip_ws_le [of "drop 2 (cy_skip_ws s)"]
  by (auto simp: cy_max_def Let_def split: if_splits dest!: cy_uint_less)

lemma cy_range_less: "cy_range s = Inr (p, r) \<Longrightarrow> length r \<le> length s"
  using cy_skip_ws_le [of s] by (auto simp: cy_range_def Let_def split: if_splits dest!: cy_min_less cy_max_less)

lemma cy_edge_body_less: "cy_edge_body s = Inr (e, r) \<Longrightarrow> length r < length s"
  by (auto simp: cy_edge_body_def
      dest!: cy_expect_char_less cy_opt_ident_less cy_opt_label_less cy_range_less cy_opt_props_less)

lemma cy_opt_body_less: "cy_opt_body s = Inr (e, r) \<Longrightarrow> length r \<le> length s"
  using cy_skip_ws_le [of s] by (auto simp: cy_opt_body_def Let_def split: if_splits dest!: cy_edge_body_less)

lemma cy_flag_less: "cy_flag c s = (b, r) \<Longrightarrow> length r \<le> length s"
  by (auto simp: cy_flag_def split: if_splits)

lemma cy_edge_and_node_step:
  assumes "cy_edge_and_node s = Inr (st, r)"
  obtains i s0 s1 e s2 s3 g s4 n where "cy_flag (CHR ''<'') (cy_skip_ws s) = (i, s0)"
    "cy_expect_char (CHR ''-'') s0 = Inr s1" "cy_opt_body s1 = Inr (e, s2)"
    "cy_expect_char (CHR ''-'') (cy_skip_ws s2) = Inr s3" "cy_flag (CHR ''>'') s3 = (g, s4)" "\<not> (i \<and> g)"
    "cy_node s4 = Inr (n, r)" "st = \<lparr>ts_edge = e, ts_target = n, ts_outbound = \<not> i\<rparr>"
proof -
  obtain i s0 where 0: "cy_flag (CHR ''<'') (cy_skip_ws s) = (i, s0)" by force
  with assms obtain s1 e s2 s3 where 1: "cy_expect_char (CHR ''-'') s0 = Inr s1" "cy_opt_body s1 = Inr (e, s2)"
    "cy_expect_char (CHR ''-'') (cy_skip_ws s2) = Inr s3"
    and fin: "(case cy_flag (CHR ''>'') s3 of (arrow, s) \<Rightarrow> if i \<and> arrow then Inl (CyUnsupported CyBidirectional)
        else try_then (cy_node s) (\<lambda>(target, s). Inr (\<lparr>ts_edge = e, ts_target = target, ts_outbound = \<not> i\<rparr>, s)))
      = Inr (st, r)"
    unfolding cy_edge_and_node_def by (simp only: prod.case try_then_Inr split_paired_Ex) blast
  obtain g s4 where 2: "cy_flag (CHR ''>'') s3 = (g, s4)" by force
  with fin obtain n where "\<not> (i \<and> g)" "cy_node s4 = Inr (n, r)" "st = \<lparr>ts_edge = e, ts_target = n, ts_outbound = \<not> i\<rparr>"
    by (auto split: if_splits)
  with 0 1 2 show ?thesis by (rule that)
qed

lemma cy_edge_and_node_less: "cy_edge_and_node s = Inr (st, r) \<Longrightarrow> length r < length s"
proof (elim cy_edge_and_node_step)
  fix i s0 s1 e s2 s3 g s4 n
  assume "cy_flag (CHR ''<'') (cy_skip_ws s) = (i, s0)" "cy_expect_char (CHR ''-'') s0 = Inr s1" "cy_opt_body s1 = Inr (e, s2)"
    "cy_expect_char (CHR ''-'') (cy_skip_ws s2) = Inr s3" "cy_flag (CHR ''>'') s3 = (g, s4)" "cy_node s4 = Inr (n, r)"
  then show "length r < length s"
    using cy_skip_ws_le [of s] cy_skip_ws_le [of s2]
    by (auto dest!: cy_flag_less cy_expect_char_less cy_opt_body_less cy_node_less)
qed

section \<open>Queries\<close>

text \<open>The segments after the first node.\<close>

function cy_steps :: "string \<Rightarrow> cy_failure + traversal_step list \<times> string" where
  "cy_steps s =
     (let s = cy_skip_ws s
      in if take 1 s = ''-'' \<or> take 1 s = ''<'' then
           try_then (cy_edge_and_node s) (\<lambda>(st, s).
           try_then (cy_steps s) (\<lambda>(sts, s). Inr (st # sts, s)))
         else Inr ([], s))"
  by pat_completeness auto
termination
proof (relation "measure length")
  fix s x xa xb y
  assume "x = cy_skip_ws s" "cy_edge_and_node x = Inr xa" "(xb, y) = xa"
  then show "(y, s) \<in> measure length" using cy_edge_and_node_less cy_skip_ws_le [of s] by fastforce
qed simp

declare cy_steps.simps [simp del]

definition cy_inline_constraint :: "string \<Rightarrow> cy_failure + node_pattern \<times> string" where
  [code_defs]: "cy_inline_constraint s =
     try_then (cy_ident s) (\<lambda>(b, s).
     try_then (cy_labels s) (\<lambda>(ls, s). Inr (NodePattern (Some b) ls [] None [] [], s)))"

text \<open>\<open>attach_not_to\<close>: the negative pattern loses its own binding.\<close>

fun np_unbind :: "node_pattern \<Rightarrow> node_pattern" where
  "np_unbind (NodePattern b t p i os ns) = NodePattern None t p i os ns"

definition attach_not_to :: "node_pattern \<Rightarrow> node_pattern \<Rightarrow> node_pattern" where
  [code_defs]: "attach_not_to neg n = np_add_not (np_unbind neg) n"

text \<open>The first step whose target has the name.\<close>

fun attach_to_step :: "string \<Rightarrow> node_pattern \<Rightarrow> traversal_step list \<Rightarrow> traversal_step list option" where
  "attach_to_step x neg [] = None"
| "attach_to_step x neg (st # sts) =
     (if np_bind (ts_target st) = Some x then Some (st\<lparr>ts_target := attach_not_to neg (ts_target st)\<rparr> # sts)
      else map_option ((#) st) (attach_to_step x neg sts))"

definition apply_negation :: "node_pattern \<Rightarrow> traversal_plan \<Rightarrow> traversal_plan" where
  [code_defs]: "apply_negation neg p =
     (let on_seed = p\<lparr>tp_seed := attach_not_to neg (tp_seed p)\<rparr>
      in case np_bind neg of
           None \<Rightarrow> on_seed
         | Some x \<Rightarrow>
             if np_bind (tp_seed p) = Some x then on_seed
             else (case attach_to_step x neg (tp_steps p) of
                     Some sts \<Rightarrow> p\<lparr>tp_steps := sts\<rparr>
                   | None \<Rightarrow> on_seed))"

text \<open>An optional \<open>WHERE NOT\<close>.\<close>

definition cy_where :: "traversal_plan \<Rightarrow> string \<Rightarrow> cy_failure + traversal_plan \<times> string" where
  [code_defs]: "cy_where p s =
     (let s = cy_skip_ws s
      in case try_keyword ''WHERE'' s of
           None \<Rightarrow> Inr (p, s)
         | Some s \<Rightarrow>
             (case try_keyword ''NOT'' (cy_skip_ws s) of
                None \<Rightarrow> Inl (CyUnsupported CyWhere)
              | Some s \<Rightarrow>
                  let s = cy_skip_ws s
                  in try_then (if take 1 s = ''('' then cy_node s else cy_inline_constraint s) (\<lambda>(neg, s).
                       Inr (apply_negation neg p, s))))"

function cy_columns :: "string \<Rightarrow> cy_failure + string list \<times> string" where
  "cy_columns s =
     try_then (cy_ident s) (\<lambda>(x, s).
       let s = cy_skip_ws s
       in if take 1 s = '','' then try_then (cy_columns (drop 1 s)) (\<lambda>(xs, s). Inr (x # xs, s))
          else Inr ([x], s))"
  by pat_completeness auto
termination
proof (relation "measure length")
  fix s x xa y xb
  assume "cy_ident s = Inr x" "(xa, y) = x" "xb = cy_skip_ws y"
  then show "(drop 1 xb, s) \<in> measure length" using cy_ident_less cy_skip_ws_le [of y] by fastforce
qed simp

declare cy_columns.simps [simp del]

definition cy_limit :: "string \<Rightarrow> cy_failure + nat option \<times> string" where
  [code_defs]: "cy_limit s =
     (let s = cy_skip_ws s
      in case try_keyword ''LIMIT'' s of
           None \<Rightarrow> Inr (None, s)
         | Some s \<Rightarrow> try_then (cy_uint s) (\<lambda>(n, s). Inr (Some n, s)))"

definition cy_query :: "string \<Rightarrow> cy_failure + traversal_plan \<times> string" where
  [code_defs]: "cy_query s =
     try_then (cy_expect_keyword ''MATCH'' s) (\<lambda>s.
     try_then (cy_node s) (\<lambda>(seed, s).
     try_then (cy_steps s) (\<lambda>(sts, s).
     try_then (cy_where ((plan_from seed)\<lparr>tp_steps := sts\<rparr>) s) (\<lambda>(p, s).
     try_then (cy_expect_keyword ''RETURN'' s) (\<lambda>s.
     try_then (cy_columns s) (\<lambda>(cols, s).
     try_then (cy_limit s) (\<lambda>(lim, s).
       Inr (p\<lparr>tp_return := cols, tp_limit := lim\<rparr>, s))))))))"

definition cy_parse :: "string \<Rightarrow> cy_failure + traversal_plan" where
  [code_defs]: "cy_parse q =
     try_then (cy_query q) (\<lambda>(p, s).
       let s = cy_skip_ws s in if s \<noteq> [] then Inl (cy_err CyTrailing s) else Inr p)"

section \<open>The text of a query\<close>

text \<open>
  A writer for the patterns the grammar covers, to state what the parser accepts: identifiers as in
  \<open>ident_ok\<close>, property values that are strings with a property \<open>A\<close>, integers or booleans.
\<close>

definition cy_show_string :: "string \<Rightarrow> string" where
  [code_defs]: "cy_show_string x =
     [CHR 0x22] @ concat (map (\<lambda>c. if c \<in> {CHR 0x22, CHR 0x5C} then [CHR 0x5C, c] else [c]) x) @ [CHR 0x22]"

fun cy_show_value :: "property_value \<Rightarrow> string" where
  "cy_show_value (PString x) = cy_show_string x"
| "cy_show_value (PInteger i) = show_int (sint i)"
| "cy_show_value (PBool b) = (if b then ''true'' else ''false'')"
| "cy_show_value _ = []"

fun cy_show_entries :: "props \<Rightarrow> string" where
  "cy_show_entries [] = []"
| "cy_show_entries [(k, v)] = k @ '':'' @ cy_show_value v"
| "cy_show_entries ((k, v) # m) = k @ '':'' @ cy_show_value v @ '','' @ cy_show_entries m"

definition cy_show_props :: "props \<Rightarrow> string" where
  [code_defs]: "cy_show_props m = (if m = [] then [] else ''{'' @ cy_show_entries m @ ''}'')"

definition cy_show_opt :: "string option \<Rightarrow> string" where
  [code_defs]: "cy_show_opt b = (case b of None \<Rightarrow> [] | Some x \<Rightarrow> x)"

definition cy_show_labels :: "string list \<Rightarrow> string" where
  [code_defs]: "cy_show_labels ls = concat (map (\<lambda>l. '':'' @ l) ls)"

definition cy_show_node :: "node_pattern \<Rightarrow> string" where
  [code_defs]: "cy_show_node n =
     ''('' @ cy_show_opt (np_bind n) @ cy_show_labels (np_types n) @ cy_show_props (np_props n) @ '')''"

definition cy_show_range :: "(nat \<times> nat) option \<Rightarrow> string" where
  [code_defs]: "cy_show_range rp = (case rp of None \<Rightarrow> [] | Some (lo, hi) \<Rightarrow> ''*'' @ show_nat lo @ ''..'' @ show_nat hi)"

definition cy_show_edge :: "edge_pattern \<Rightarrow> string" where
  [code_defs]: "cy_show_edge e =
     ''['' @ cy_show_opt (ep_bind e) @ cy_show_labels (case ep_label e of None \<Rightarrow> [] | Some l \<Rightarrow> [l]) @
     cy_show_range (ep_repeat e) @ cy_show_props (ep_props e) @ '']''"

definition cy_show_step :: "traversal_step \<Rightarrow> string" where
  [code_defs]: "cy_show_step st =
     (if ts_outbound st then ''-'' else ''<-'') @ cy_show_edge (ts_edge st) @
     (if ts_outbound st then ''->'' else ''-'') @ cy_show_node (ts_target st)"

fun cy_show_columns :: "string list \<Rightarrow> string" where
  "cy_show_columns [] = []"
| "cy_show_columns [x] = x"
| "cy_show_columns (x # xs) = x @ '','' @ cy_show_columns xs"

definition cy_show :: "traversal_plan \<Rightarrow> node_pattern option \<Rightarrow> string" where
  [code_defs]: "cy_show p neg =
     ''MATCH '' @ cy_show_node (tp_seed p) @ concat (map cy_show_step (tp_steps p)) @
     (case neg of None \<Rightarrow> [] | Some n \<Rightarrow> '' WHERE NOT '' @ cy_show_node n) @
     '' RETURN '' @ cy_show_columns (tp_return p) @
     (case tp_limit p of None \<Rightarrow> [] | Some n \<Rightarrow> '' LIMIT '' @ show_nat n)"

definition cy_value_ok :: "(string \<Rightarrow> bool) \<Rightarrow> property_value \<Rightarrow> bool" where
  [code_defs]: "cy_value_ok A v = (case v of PString x \<Rightarrow> A x | PInteger _ \<Rightarrow> True | PBool _ \<Rightarrow> True | _ \<Rightarrow> False)"

definition cy_props_ok :: "(string \<Rightarrow> bool) \<Rightarrow> props \<Rightarrow> bool" where
  [code_defs]: "cy_props_ok A m \<longleftrightarrow> bm_wf m \<and> list_all (\<lambda>(k, v). ident_ok k \<and> cy_value_ok A v) m"

definition cy_node_ok :: "(string \<Rightarrow> bool) \<Rightarrow> node_pattern \<Rightarrow> bool" where
  [code_defs]: "cy_node_ok A n \<longleftrightarrow> pred_option ident_ok (np_bind n) \<and> list_all ident_ok (np_types n) \<and>
     cy_props_ok A (np_props n) \<and> np_id n = None \<and> np_or n = [] \<and> np_not n = []"

definition cy_step_ok :: "(string \<Rightarrow> bool) \<Rightarrow> traversal_step \<Rightarrow> bool" where
  [code_defs]: "cy_step_ok A st \<longleftrightarrow> cy_node_ok A (ts_target st) \<and> pred_option ident_ok (ep_bind (ts_edge st)) \<and>
     pred_option ident_ok (ep_label (ts_edge st)) \<and> cy_props_ok A (ep_props (ts_edge st)) \<and>
     pred_option (\<lambda>(lo, hi). lo \<le> hi \<and> hi \<le> usize_max) (ep_repeat (ts_edge st))"

text \<open>The part of a plan before a negative pattern is attached to it.\<close>

definition cy_plan_ok :: "(string \<Rightarrow> bool) \<Rightarrow> traversal_plan \<Rightarrow> bool" where
  [code_defs]: "cy_plan_ok A p \<longleftrightarrow> cy_node_ok A (tp_seed p) \<and> list_all (cy_step_ok A) (tp_steps p) \<and>
     tp_return p \<noteq> [] \<and> list_all ident_ok (tp_return p) \<and> tp_order p = [] \<and> tp_skip p = 0 \<and>
     pred_option (\<lambda>n. n \<le> usize_max) (tp_limit p)"

definition with_negation :: "node_pattern option \<Rightarrow> traversal_plan \<Rightarrow> traversal_plan" where
  [code_defs]: "with_negation neg p = (case neg of None \<Rightarrow> p | Some n \<Rightarrow> apply_negation n p)"

section \<open>Reading back\<close>

text \<open>Punctuation: a byte that ends an identifier and is not white space.\<close>

definition punct :: "string \<Rightarrow> bool" where
  [code_defs]: "punct r \<longleftrightarrow> (case r of [] \<Rightarrow> False | c # _ \<Rightarrow> \<not> is_ident_continue c \<and> \<not> is_ascii_whitespace c)"

lemma punct_simps [simp]: "\<not> punct []" "punct (c # r) \<longleftrightarrow> \<not> is_ident_continue c \<and> \<not> is_ascii_whitespace c"
  by (simp_all add: punct_def)

lemma punct_stops: "punct r \<Longrightarrow> stops r"
  by (cases r) simp_all

lemma skip_punct [simp]: "punct r \<Longrightarrow> cy_skip_ws r = r"
  by (cases r) (simp_all add: cy_skip_ws_def)

lemma skip_simps [simp]:
  "cy_skip_ws [] = []" "\<not> is_ascii_whitespace c \<Longrightarrow> cy_skip_ws (c # r) = c # r" "cy_skip_ws (CHR '' '' # r) = cy_skip_ws r"
  by (simp_all add: cy_skip_ws_def is_ascii_whitespace_def)

lemma marks [simp]:
  "\<not> is_ident_continue (CHR ''('')" "\<not> is_ident_continue (CHR '')'')" "\<not> is_ident_continue (CHR ''{'')"
  "\<not> is_ident_continue (CHR ''}'')" "\<not> is_ident_continue (CHR ''['')" "\<not> is_ident_continue (CHR '']'')"
  "\<not> is_ident_continue (CHR '':'')" "\<not> is_ident_continue (CHR '','')" "\<not> is_ident_continue (CHR ''-'')"
  "\<not> is_ident_continue (CHR ''<'')" "\<not> is_ident_continue (CHR ''>'')" "\<not> is_ident_continue (CHR ''*'')"
  "\<not> is_ident_continue (CHR ''.'')" "\<not> is_ident_continue (CHR 0x22)" "\<not> is_ident_continue (CHR '' '')"
  by (simp_all add: code_defs)

lemma mark_ws [simp]:
  "\<not> is_ascii_whitespace (CHR ''('')" "\<not> is_ascii_whitespace (CHR '')'')" "\<not> is_ascii_whitespace (CHR ''{'')"
  "\<not> is_ascii_whitespace (CHR ''}'')" "\<not> is_ascii_whitespace (CHR ''['')" "\<not> is_ascii_whitespace (CHR '']'')"
  "\<not> is_ascii_whitespace (CHR '':'')" "\<not> is_ascii_whitespace (CHR '','')" "\<not> is_ascii_whitespace (CHR ''-'')"
  "\<not> is_ascii_whitespace (CHR ''<'')" "\<not> is_ascii_whitespace (CHR ''>'')" "\<not> is_ascii_whitespace (CHR ''*'')"
  "\<not> is_ascii_whitespace (CHR ''.'')" "\<not> is_ascii_whitespace (CHR 0x22)"
  by (simp_all add: is_ascii_whitespace_def)

lemma ident_cons:
  assumes "ident_ok x"
  obtains c cs where "x = c # cs" "is_ident_start c" "\<not> is_ascii_whitespace c"
  using assms ident_continue_not(1) [OF start_continue] by (cases x) (auto simp: ident_ok_def)

lemma expect_char_here [simp]: "\<not> is_ascii_whitespace c \<Longrightarrow> cy_expect_char c (c # r) = Inr r"
  by (simp add: cy_expect_char_def)

lemma ident_here: "ident_ok x \<Longrightarrow> stops r \<Longrightarrow> cy_ident (x @ r) = Inr (x, r)"
proof -
  assume "ident_ok x" "stops r"
  from ident_cons [OF this(1)] obtain c cs where "x = c # cs" "is_ident_start c" "\<not> is_ascii_whitespace c" .
  with ident_read [OF \<open>ident_ok x\<close> \<open>stops r\<close>] show ?thesis by (simp add: cy_ident_def)
qed

lemma opt_ident_here: "pred_option ident_ok b \<Longrightarrow> punct r \<Longrightarrow> cy_opt_ident (cy_show_opt b @ r) = Inr (b, r)"
proof (cases b)
  case None
  assume "punct r"
  with None show ?thesis
    by (cases r) (auto simp: cy_opt_ident_def cy_show_opt_def Let_def dest: start_continue)
next
  case (Some x)
  assume "pred_option ident_ok b" "punct r"
  with Some have x: "ident_ok x" "stops r" by (simp_all add: punct_stops)
  from ident_cons [OF x(1)] obtain c cs where "x = c # cs" "is_ident_start c" "\<not> is_ascii_whitespace c" .
  with ident_here [OF x] Some show ?thesis by (simp add: cy_opt_ident_def cy_show_opt_def)
qed

lemma labels_here:
  "list_all ident_ok ls \<Longrightarrow> punct r \<Longrightarrow> hd r \<noteq> CHR '':'' \<Longrightarrow> cy_labels (cy_show_labels ls @ r) = Inr (ls, r)"
proof (induction ls)
  case Nil
  then show ?case by (subst cy_labels.simps) (cases r; simp add: cy_show_labels_def)
next
  case (Cons l ls)
  have "stops (cy_show_labels ls @ r)" using Cons.prems by (cases ls) (auto simp: cy_show_labels_def punct_stops)
  with Cons show ?case
    by (subst cy_labels.simps) (simp add: cy_show_labels_def ident_here)
qed

lemma escape_mark: "cy_escape (CHR 0x22) = [CHR 0x22]" "cy_escape (CHR 0x5C) = [CHR 0x5C]"
  using utf8_encode_ascii [of "CHR 0x22"] utf8_encode_ascii [of "CHR 0x5C"] by (simp_all add: cy_escape_def)

lemma string_here: "ascii x \<Longrightarrow> cy_string_loop out (tl (cy_show_string x) @ r) = Inr (out @ x, r)"
proof (induction x arbitrary: out)
  case Nil
  then show ?case by (simp add: cy_show_string_def)
next
  case (Cons c x)
  then have c: "(of_char c :: nat) < 0x80" by (simp add: ascii_def)
  with Cons show ?case
    by (auto simp: cy_show_string_def ascii_def escape_mark utf8_encode_ascii)
qed

lemma digit_ne: "is_ascii_digit c \<Longrightarrow> c \<noteq> CHR 0x22" "is_ascii_digit c \<Longrightarrow> c \<noteq> CHR ''-''"
  by (auto simp: is_ascii_digit_def)

lemma int_here: "stops r \<Longrightarrow> cy_int (show_int (sint i) @ r) = Inr (i, r)"
proof -
  assume r: "stops r"
  have bounds: "- (2 ^ 63) \<le> sint i" "sint i < 2 ^ 63" for i :: "64 word"
    using sint_greater_eq [of i] sint_less [of i] by simp_all
  show ?thesis
  proof (cases "sint i < 0")
    case True
    then have show_i: "show_int (sint i) = CHR ''-'' # show_nat (nat (- sint i))" by (simp add: show_int_def)
    from True have "word_of_int (- int (nat (- sint i))) = i" by simp
    then show ?thesis
      using bounds(1) [of i] True digits_read [OF r] show_nat_digits(2)
      by (simp add: show_i cy_int_def Let_def)
  next
    case False
    then have show_i: "show_int (sint i) = show_nat (nat (sint i))" by (simp add: show_int_def)
    obtain c cs where c: "show_nat (nat (sint i)) = c # cs" "is_ascii_digit c"
      using show_nat_digits [of "nat (sint i)"] by (cases "show_nat (nat (sint i))") simp_all
    then have "c \<noteq> CHR ''-''" "\<not> is_ascii_whitespace c" by (simp_all add: digit_not_ws digit_ne)
    moreover from False have "word_of_int (int (nat (sint i))) = i" by simp
    ultimately show ?thesis
      using bounds(2) [of i] False c digits_read [OF r, of "nat (sint i)"] digits_value_show_nat [of "nat (sint i)"]
      by (simp add: show_i cy_int_def Let_def)
  qed
qed

lemma value_here: "cy_value_ok ascii v \<Longrightarrow> stops r \<Longrightarrow> cy_value (cy_show_value v @ r) = Inr (v, r)"
proof -
  assume ok: "cy_value_ok ascii v" and r: "stops r"
  consider x where "v = PString x" "ascii x" | i where "v = PInteger i" | b where "v = PBool b"
    using ok by (cases v) (simp_all add: cy_value_ok_def)
  then show ?thesis
  proof cases
    case 1
    then show ?thesis
      using string_here [of x "[]" r] by (simp add: cy_value_def cy_string_def cy_show_string_def)
  next
    case 2
    obtain c cs where c: "show_int (sint i) = c # cs" "is_ascii_digit c \<or> c = CHR ''-''" "\<not> is_ascii_whitespace c" "c \<noteq> CHR 0x22"
    proof (cases "sint i < 0")
      case False
      then show ?thesis
        using that show_nat_digits [of "nat (sint i)"]
        by (cases "show_nat (nat (sint i))") (auto simp: show_int_def digit_not_ws digit_ne)
    qed (simp add: show_int_def that)
    with 2 int_here [OF r, of i] show ?thesis by (simp add: cy_value_def)
  next
    case 3
    have "try_keyword ''true'' (''true'' @ r) = Some r" "try_keyword ''false'' (''false'' @ r) = Some r"
      by (rule try_keyword_self [OF r])+
    moreover have "try_keyword ''true'' (''false'' @ r) = None"
      by (rule try_keyword_other) (simp add: to_ascii_lowercase_def)
    ultimately show ?thesis using 3 by (simp add: cy_value_def is_ascii_whitespace_def is_ascii_digit_def is_ascii_alphabetic_def)
  qed
qed

lemma show_value_stops: "cy_value_ok ascii v \<Longrightarrow> cy_show_value v \<noteq> []"
  using show_nat_digits(2) by (cases v) (simp_all add: cy_value_ok_def cy_show_string_def show_int_def)

lemma entries_here:
  "list_all (\<lambda>(k, v). ident_ok k \<and> cy_value_ok ascii v) m \<Longrightarrow> m \<noteq> [] \<Longrightarrow>
     cy_props_loop m0 (cy_show_entries m @ CHR ''}'' # r) = Inr (fold (\<lambda>e m. bm_insert (fst e) (snd e) m) m m0, r)"
proof (induction m arbitrary: m0 rule: cy_show_entries.induct)
  case (2 k v)
  then show ?case
    by (subst cy_props_loop.simps) (simp add: ident_here value_here)
next
  case (3 k v e m)
  then show ?case
    by (subst cy_props_loop.simps) (simp add: ident_here value_here)
qed simp

lemma props_here:
  assumes "cy_props_ok ascii m" "punct r" "hd r \<noteq> CHR ''{''"
  shows "cy_opt_props (cy_show_props m @ r) = Inr (m, r)"
proof (cases "m = []")
  case True
  with assms show ?thesis by (cases r) (simp_all add: cy_opt_props_def cy_show_props_def)
next
  case False
  have ok: "list_all (\<lambda>(k, v). ident_ok k \<and> cy_value_ok ascii v) m" "bm_wf m" using assms by (simp_all add: cy_props_ok_def)
  from ok(1) False obtain c cs where c: "cy_show_entries m @ CHR ''}'' # r = c # cs" "is_ident_start c" "\<not> is_ascii_whitespace c"
    by (cases m rule: cy_show_entries.cases) (auto elim!: ident_cons)
  then have "c \<noteq> CHR ''}''" by (auto dest: start_continue)
  with c entries_here [OF ok(1) False, of "[]" r] bm_rebuild [OF ok(2)] show ?thesis
    by (simp add: cy_opt_props_def cy_prop_map_def cy_show_props_def False)
qed

lemma punct_props: "punct r \<Longrightarrow> hd r \<noteq> CHR '':'' \<Longrightarrow> punct (cy_show_props m @ r) \<and> hd (cy_show_props m @ r) \<noteq> CHR '':''"
  by (simp add: cy_show_props_def)

lemma punct_labels: "punct r \<Longrightarrow> punct (cy_show_labels ls @ r)"
  by (cases ls) (simp_all add: cy_show_labels_def)

lemma node_here: "cy_node_ok ascii n \<Longrightarrow> cy_node (cy_show_node n @ r) = Inr (n, r)"
proof -
  assume ok: "cy_node_ok ascii n"
  then have n: "NodePattern (np_bind n) (np_types n) (np_props n) None [] [] = n"
    by (cases n) (simp add: cy_node_ok_def)
  let ?r = "CHR '')'' # r" and ?p = "cy_show_props (np_props n) @ CHR '')'' # r"
  have "punct ?p \<and> hd ?p \<noteq> CHR '':''" by (rule punct_props) simp_all
  with ok show ?thesis
    by (simp add: cy_node_def cy_show_node_def cy_node_ok_def opt_ident_here labels_here props_here punct_labels n)
qed

lemma uint_here: "stops r \<Longrightarrow> n \<le> usize_max \<Longrightarrow> cy_uint (show_nat n @ r) = Inr (n, r)"
proof -
  assume r: "stops r" and n: "n \<le> usize_max"
  obtain c cs where c: "show_nat n = c # cs" "\<not> is_ascii_whitespace c"
    using show_nat_digits [of n] digit_not_ws by (cases "show_nat n") auto
  with digits_read [OF r, of n] digits_value_show_nat [of n] n show ?thesis by (simp add: cy_uint_def)
qed

lemma show_nat_front: obtains c cs where "show_nat n = c # cs" "is_ascii_digit c" "\<not> is_ascii_whitespace c"
  using show_nat_digits [of n] digit_not_ws by (cases "show_nat n") auto

lemma range_here:
  assumes "pred_option (\<lambda>(lo, hi). lo \<le> hi \<and> hi \<le> usize_max) rp" "punct r" "hd r \<noteq> CHR ''*''"
  shows "cy_range (cy_show_range rp @ r) = Inr (rp, r)"
proof (cases rp)
  case None
  with assms show ?thesis by (cases r) (simp_all add: cy_range_def cy_show_range_def)
next
  case (Some p)
  obtain lo hi where p: "p = (lo, hi)" by force
  with assms Some have le: "lo \<le> hi" "hi \<le> usize_max" "stops r" by (simp_all add: punct_stops)
  obtain c cs where lo: "show_nat lo = c # cs" "is_ascii_digit c" "\<not> is_ascii_whitespace c" by (rule show_nat_front)
  obtain d ds where hi: "show_nat hi = d # ds" "is_ascii_digit d" "\<not> is_ascii_whitespace d" by (rule show_nat_front)
  have 1: "cy_min (show_nat lo @ ''..'' @ show_nat hi @ r) = Inr ((lo, lo), ''..'' @ show_nat hi @ r)"
    using uint_here [of "''..'' @ show_nat hi @ r" lo] le lo by (simp add: cy_min_def)
  have 2: "cy_max lo (''..'' @ show_nat hi @ r) = Inr (hi, r)"
    using uint_here [OF le(3,2)] hi by (simp add: cy_max_def)
  show ?thesis
    using 1 2 le by (simp add: cy_range_def cy_show_range_def Some p)
qed

lemma opt_label_here:
  assumes "pred_option ident_ok l" "punct r" "hd r \<noteq> CHR '':''"
  shows "cy_opt_label (cy_show_labels (case l of None \<Rightarrow> [] | Some x \<Rightarrow> [x]) @ r) = Inr (l, r)"
  using assms by (cases l; cases r) (simp_all add: cy_opt_label_def cy_show_labels_def ident_here)

lemma edge_here:
  assumes "pred_option ident_ok (ep_bind e)" "pred_option ident_ok (ep_label e)" "cy_props_ok ascii (ep_props e)"
    "pred_option (\<lambda>(lo, hi). lo \<le> hi \<and> hi \<le> usize_max) (ep_repeat e)"
  shows "cy_opt_body (cy_show_edge e @ r) = Inr (e, r)"
proof -
  let ?p = "cy_show_props (ep_props e) @ CHR '']'' # r"
  let ?q = "cy_show_range (ep_repeat e) @ ?p"
  have p: "punct ?p" "hd ?p \<noteq> CHR ''*''" "hd ?p \<noteq> CHR '':''" by (simp_all add: cy_show_props_def)
  then have q: "punct ?q" "hd ?q \<noteq> CHR '':''"
    by (simp_all add: cy_show_range_def split: option.splits)
  have "cy_range ?q = Inr (ep_repeat e, ?p)" by (rule range_here [OF assms(4) p(1,2)])
  with assms q show ?thesis
    by (simp add: cy_opt_body_def cy_edge_body_def cy_show_edge_def opt_ident_here opt_label_here props_here punct_labels)
qed

lemma step_here: "cy_step_ok ascii st \<Longrightarrow> cy_edge_and_node (cy_show_step st @ r) = Inr (st, r)"
proof -
  assume ok: "cy_step_ok ascii st"
  have *: "\<lparr>ts_edge = ts_edge st, ts_target = ts_target st, ts_outbound = ts_outbound st\<rparr> = st" by simp
  show ?thesis
  proof (cases "ts_outbound st")
    case True
    with ok * show ?thesis
      by (simp add: cy_edge_and_node_def cy_show_step_def cy_step_ok_def edge_here node_here cy_flag_def)
  next
    case False
    with ok * show ?thesis
      by (simp add: cy_edge_and_node_def cy_show_step_def cy_step_ok_def edge_here node_here cy_flag_def)
        (simp add: cy_show_node_def)
  qed
qed

lemma steps_here:
  "list_all (cy_step_ok ascii) sts \<Longrightarrow> cy_skip_ws r \<noteq> [] \<Longrightarrow> hd (cy_skip_ws r) \<notin> {CHR ''-'', CHR ''<''} \<Longrightarrow>
     cy_steps (concat (map cy_show_step sts) @ r) = Inr (sts, cy_skip_ws r)"
proof (induction sts)
  case Nil
  then show ?case by (subst cy_steps.simps) (cases "cy_skip_ws r"; simp)
next
  case (Cons st sts)
  let ?s = "concat (map cy_show_step (st # sts)) @ r"
  have s: "cy_skip_ws ?s = ?s" "take 1 ?s = ''-'' \<or> take 1 ?s = ''<''" by (simp_all add: cy_show_step_def)
  have "cy_edge_and_node ?s = Inr (st, concat (map cy_show_step sts) @ r)"
    using Cons.prems step_here [of st] by simp
  with Cons s show ?case by (subst cy_steps.simps) (simp add: Let_def del: concat.simps list.map)
qed

lemma columns_here:
  "xs \<noteq> [] \<Longrightarrow> list_all ident_ok xs \<Longrightarrow> stops r \<Longrightarrow> take 1 (cy_skip_ws r) \<noteq> '','' \<Longrightarrow>
     cy_columns (cy_show_columns xs @ r) = Inr (xs, cy_skip_ws r)"
proof (induction xs rule: cy_show_columns.induct)
  case (2 x)
  then show ?case by (subst cy_columns.simps) (simp add: ident_here)
next
  case (3 x y xs)
  then show ?case by (subst cy_columns.simps) (simp add: ident_here)
qed simp

lemma kw_here:
  "try_keyword ''MATCH'' (''MATCH '' @ r) = Some ('' '' @ r)" "try_keyword ''WHERE'' (''WHERE '' @ r) = Some ('' '' @ r)"
  "try_keyword ''NOT'' (''NOT '' @ r) = Some ('' '' @ r)" "try_keyword ''RETURN'' (''RETURN '' @ r) = Some ('' '' @ r)"
  "try_keyword ''LIMIT'' (''LIMIT '' @ r) = Some ('' '' @ r)" "try_keyword ''WHERE'' (CHR ''R'' # r) = None"
  "try_keyword ''LIMIT'' [] = None"
  using try_keyword_self [of "'' '' @ r" "''MATCH''"] try_keyword_self [of "'' '' @ r" "''WHERE''"]
    try_keyword_self [of "'' '' @ r" "''NOT''"] try_keyword_self [of "'' '' @ r" "''RETURN''"]
    try_keyword_self [of "'' '' @ r" "''LIMIT''"]
    try_keyword_other [of "CHR ''R'' # r" "CHR ''W''" "''HERE''"] try_keyword_other [of "[]" "CHR ''L''" "''IMIT''"]
  by (simp_all add: to_ascii_lowercase_def)

lemma letters [simp]: "\<not> is_ascii_whitespace (CHR ''M'')" "\<not> is_ascii_whitespace (CHR ''W'')" "\<not> is_ascii_whitespace (CHR ''N'')"
  "\<not> is_ascii_whitespace (CHR ''R'')" "\<not> is_ascii_whitespace (CHR ''L'')"
  by (simp_all add: is_ascii_whitespace_def)

lemma ident_skip: "ident_ok x \<Longrightarrow> cy_ident (CHR '' '' # x @ r) = cy_ident (x @ r)"
  by (simp add: cy_ident_def)

lemma limit_here:
  assumes "pred_option (\<lambda>n. n \<le> usize_max) lim"
  shows "cy_limit (cy_skip_ws (case lim of None \<Rightarrow> [] | Some n \<Rightarrow> '' LIMIT '' @ show_nat n)) = Inr (lim, [])"
proof (cases lim)
  case None
  then show ?thesis by (simp add: cy_limit_def kw_here)
next
  case (Some n)
  have "cy_uint (CHR '' '' # show_nat n) = cy_uint (show_nat n @ [])" by (simp add: cy_uint_def)
  with Some assms uint_here [of "[]" n] show ?thesis by (simp add: cy_limit_def kw_here [simplified])
qed

section \<open>What a parsed plan is like\<close>

text \<open>A string value is the input read byte by byte.\<close>

definition bytewise :: "string \<Rightarrow> bool" where
  "bytewise x \<longleftrightarrow> x \<in> range latin1_string"

lemma bytewise_push: "bytewise x \<Longrightarrow> bytewise (x @ utf8_encode (of_char c))"
proof -
  assume "bytewise x"
  then obtain y where "x = latin1_string y" by (auto simp: bytewise_def)
  then have "x @ utf8_encode (of_char c) = latin1_string (y @ [c])" by (simp add: latin1_string_def)
  then show ?thesis by (simp add: bytewise_def)
qed

lemma bytewise_escape: "bytewise x \<Longrightarrow> bytewise (x @ cy_escape c)"
proof -
  assume x: "bytewise x"
  have "utf8_encode (of_char (CHR 0x0A)) = [CHR 0x0A]" "utf8_encode (of_char (CHR 0x09)) = [CHR 0x09]"
    "utf8_encode (of_char (CHR 0x0D)) = [CHR 0x0D]" by (rule utf8_encode_ascii, simp)+
  then show ?thesis
    using bytewise_push [OF x, of "CHR 0x0A"] bytewise_push [OF x, of "CHR 0x09"] bytewise_push [OF x, of "CHR 0x0D"]
      bytewise_push [OF x, of c] unfolding cy_escape_def by (auto simp only: split: if_split)
qed

lemma string_loop_bytewise: "cy_string_loop out s = Inr (x, r) \<Longrightarrow> bytewise out \<Longrightarrow> bytewise x"
proof (induction out s rule: cy_string_loop.induct)
  case (2 out c cs)
  note eq = "2.prems"(1) [unfolded cy_string_loop.simps]
  consider "c = CHR 0x22" | "c \<noteq> CHR 0x22" "c = CHR 0x5C" | "c \<noteq> CHR 0x22" "c \<noteq> CHR 0x5C" by blast
  then show ?case
  proof cases
    case 1
    with eq "2.prems"(2) show ?thesis by simp
  next
    case 2
    with eq obtain e cs' where "cs = e # cs'" "cy_string_loop (out @ cy_escape e) cs' = Inr (x, r)"
      by (cases cs) simp_all
    with "2.IH"(1) [OF 2] bytewise_escape [OF "2.prems"(2)] show ?thesis by blast
  next
    case 3
    with eq have "cy_string_loop (out @ utf8_encode (of_char c)) cs = Inr (x, r)" by simp
    with "2.IH"(2) [OF 3] bytewise_push [OF "2.prems"(2)] show ?thesis by blast
  qed
qed simp

lemma ident_shape: "cy_ident s = Inr (x, r) \<Longrightarrow> ident_ok x"
proof -
  assume "cy_ident s = Inr (x, r)"
  then obtain c cs where "x = c # takeWhile is_ident_continue cs" "is_ident_start c"
    by (auto simp: cy_ident_def Let_def split: list.splits if_splits)
  then show ?thesis by (auto simp: ident_ok_def list_all_iff dest: set_takeWhileD)
qed

lemma value_shape: "cy_value s = Inr (v, r) \<Longrightarrow> cy_value_ok bytewise v"
proof -
  assume v: "cy_value s = Inr (v, r)"
  then obtain c cs where s: "cy_skip_ws s = c # cs" by (auto simp: cy_value_def Let_def split: list.splits)
  have Nil: "bytewise []" by (auto simp: bytewise_def latin1_string_def intro: range_eqI [of _ _ "[]"])
  show ?thesis
  proof (cases "c = CHR 0x22")
    case True
    with v s cy_skip_ws_skip [of s] obtain x where "cy_string_loop [] cs = Inr (x, r)" "v = PString x"
      by (auto simp: cy_value_def cy_string_def)
    with string_loop_bytewise [OF _ Nil] show ?thesis by (simp add: cy_value_ok_def)
  next
    case False
    with v s have "(\<exists>i. v = PInteger i) \<or> (\<exists>b. v = PBool b)"
      by (auto simp: cy_value_def Let_def split: if_splits option.splits)
    then show ?thesis by (auto simp: cy_value_ok_def)
  qed
qed

lemma props_loop_shape:
  "cy_props_loop m s = Inr (m', r) \<Longrightarrow> cy_props_ok bytewise m \<Longrightarrow> cy_props_ok bytewise m'"
proof (induction m s arbitrary: m' r rule: cy_props_loop.induct)
  case (1 m s)
  from cy_props_loop_step [OF "1.prems"(1)] obtain k s1 s2 v s3 c r' where *: "cy_ident s = Inr (k, s1)"
    "cy_expect_char (CHR '':'') s1 = Inr s2" "cy_value s2 = Inr (v, s3)" "cy_skip_ws s3 = c # r'"
    and rest: "c = CHR '','' \<and> cy_props_loop (bm_insert k v m) r' = Inr (m', r) \<or>
     c \<noteq> CHR '','' \<and> r = r' \<and> m' = bm_insert k v m" by blast
  have "cy_props_ok bytewise (bm_insert k v m)"
    using "1.prems"(2) ident_shape [OF *(1)] value_shape [OF *(3)] bm_set_insert_subset [of k v m]
    by (auto simp: cy_props_ok_def list_all_iff)
  with rest "1.IH" [OF *(1) refl *(2,3) refl *(4)] show ?case by auto
qed

lemma props_shape: "cy_opt_props s = Inr (m, r) \<Longrightarrow> cy_props_ok bytewise m"
  by (auto simp: cy_opt_props_def cy_prop_map_def Let_def cy_props_ok_def [of _ "[]"] split: if_splits
      dest!: props_loop_shape)

lemma labels_shape: "cy_labels s = Inr (ls, r) \<Longrightarrow> list_all ident_ok ls"
proof (induction s arbitrary: ls r rule: cy_labels.induct)
  case (1 s)
  note eq = "1.prems" [unfolded cy_labels.simps [of s]]
  show ?case
  proof (cases "cy_skip_ws s")
    case (Cons c cs)
    show ?thesis
    proof (cases "c = CHR '':''")
      case True
      with eq Cons obtain l s1 ls' where l: "cy_ident cs = Inr (l, s1)" "cy_labels s1 = Inr (ls', r)" "ls = l # ls'" by auto
      with "1.IH" [OF Cons True l(1) refl] ident_shape [OF l(1)] show ?thesis by simp
    qed (use eq Cons in simp)
  qed (use eq in simp)
qed

lemma opt_ident_shape: "cy_opt_ident s = Inr (b, r) \<Longrightarrow> pred_option ident_ok b"
  by (auto simp: cy_opt_ident_def Let_def split: list.splits if_splits dest: ident_shape)

lemma node_shape: "cy_node s = Inr (n, r) \<Longrightarrow> cy_node_ok bytewise n"
  by (auto simp: cy_node_def cy_node_ok_def dest: opt_ident_shape labels_shape props_shape)

lemma uint_shape: "cy_uint s = Inr (n, r) \<Longrightarrow> n \<le> usize_max"
  by (auto simp: cy_uint_def Let_def split: if_splits)

lemma range_shape: "cy_range s = Inr (rp, r) \<Longrightarrow> pred_option (\<lambda>(lo, hi). lo \<le> hi \<and> hi \<le> usize_max) rp"
proof -
  have lo: "cy_min s = Inr ((lo, hi), r) \<Longrightarrow> hi \<le> usize_max" for s lo hi r
    by (auto simp: cy_min_def Let_def split: if_splits dest: uint_shape)
  have hi: "cy_max hi s = Inr (n, r) \<Longrightarrow> hi \<le> usize_max \<Longrightarrow> n \<le> usize_max" for hi s n r
    by (auto simp: cy_max_def Let_def split: if_splits dest: uint_shape)
  show "cy_range s = Inr (rp, r) \<Longrightarrow> pred_option (\<lambda>(lo, hi). lo \<le> hi \<and> hi \<le> usize_max) rp"
    by (auto simp: cy_range_def Let_def split: if_splits dest: lo hi)
qed

lemma edge_and_node_shape: "cy_edge_and_node s = Inr (st, r) \<Longrightarrow> cy_step_ok bytewise st"
proof (elim cy_edge_and_node_step)
  fix s1 e s2 s4 n and i :: bool
  assume e: "cy_opt_body s1 = Inr (e, s2)" and n: "cy_node s4 = Inr (n, r)"
    and st: "st = \<lparr>ts_edge = e, ts_target = n, ts_outbound = \<not> i\<rparr>"
  have "pred_option ident_ok (ep_bind e) \<and> pred_option ident_ok (ep_label e) \<and> cy_props_ok bytewise (ep_props e) \<and>
      pred_option (\<lambda>(lo, hi). lo \<le> hi \<and> hi \<le> usize_max) (ep_repeat e)"
  proof (cases "take 1 (cy_skip_ws s1) = ''[''")
    case True
    with e have "cy_edge_body (drop 1 (cy_skip_ws s1)) = Inr (e, s2)" by (simp add: cy_opt_body_def Let_def)
    then show ?thesis
      by (auto simp: cy_edge_body_def cy_opt_label_def Let_def split: if_splits
          dest: opt_ident_shape ident_shape range_shape props_shape)
  next
    case False
    with e have "e = ep_any" by (simp add: cy_opt_body_def Let_def)
    then show ?thesis by (simp add: ep_any_def cy_props_ok_def)
  qed
  with node_shape [OF n] show "cy_step_ok bytewise st" by (simp add: cy_step_ok_def st)
qed

lemma steps_shape: "cy_steps s = Inr (sts, r) \<Longrightarrow> list_all (cy_step_ok bytewise) sts"
proof (induction s arbitrary: sts r rule: cy_steps.induct)
  case (1 s)
  note eq = "1.prems" [unfolded cy_steps.simps [of s] Let_def]
  show ?case
  proof (cases "take 1 (cy_skip_ws s) = ''-'' \<or> take 1 (cy_skip_ws s) = ''<''")
    case True
    with eq obtain st s1 sts' where st: "cy_edge_and_node (cy_skip_ws s) = Inr (st, s1)" "cy_steps s1 = Inr (sts', r)"
      "sts = st # sts'" by auto
    with "1.IH" [OF refl True st(1) refl] edge_and_node_shape [OF st(1)] show ?thesis by simp
  qed (use eq in simp)
qed

lemma columns_shape: "cy_columns s = Inr (xs, r) \<Longrightarrow> xs \<noteq> [] \<and> list_all ident_ok xs"
proof (induction s arbitrary: xs r rule: cy_columns.induct)
  case (1 s)
  note eq = "1.prems" [unfolded cy_columns.simps [of s] Let_def]
  from eq obtain x s1 where x: "cy_ident s = Inr (x, s1)"
    and fin: "(if take 1 (cy_skip_ws s1) = '','' then try_then (cy_columns (drop 1 (cy_skip_ws s1))) (\<lambda>(xs, s). Inr (x # xs, s))
          else Inr ([x], cy_skip_ws s1)) = Inr (xs, r)" by auto
  show ?case
  proof (cases "take 1 (cy_skip_ws s1) = '',''")
    case True
    with fin obtain ys where "cy_columns (drop 1 (cy_skip_ws s1)) = Inr (ys, r)" "xs = x # ys" by auto
    with "1.IH" [OF x refl refl True] ident_shape [OF x] show ?thesis by simp
  next
    case False
    with fin have "xs = [x]" by simp
    with ident_shape [OF x] show ?thesis by simp
  qed
qed

lemma inline_shape: "cy_inline_constraint s = Inr (n, r) \<Longrightarrow> cy_node_ok bytewise n"
  by (auto simp: cy_inline_constraint_def cy_node_ok_def cy_props_ok_def dest: ident_shape labels_shape)

lemma where_shape:
  "cy_where p s = Inr (p', r) \<Longrightarrow> \<exists>neg. pred_option (cy_node_ok bytewise) neg \<and> p' = with_negation neg p"
proof -
  assume *: "cy_where p s = Inr (p', r)"
  show ?thesis
  proof (cases "try_keyword ''WHERE'' (cy_skip_ws s)")
    case None
    with * show ?thesis by (intro exI [of _ None]) (simp add: cy_where_def with_negation_def)
  next
    case (Some s1)
    with * obtain n where "cy_node_ok bytewise n" "p' = apply_negation n p"
      by (auto simp: cy_where_def Let_def split: option.splits if_splits dest: node_shape inline_shape)
    then show ?thesis by (intro exI [of _ "Some n"]) (simp add: with_negation_def)
  qed
qed

lemma limit_shape: "cy_limit s = Inr (lim, r) \<Longrightarrow> pred_option (\<lambda>n. n \<le> usize_max) lim"
  by (auto simp: cy_limit_def Let_def split: option.splits dest: uint_shape)

section \<open>Parsing a written query\<close>

lemma cy_parse_show:
  assumes "cy_plan_ok ascii p" "pred_option (cy_node_ok ascii) neg"
  shows "cy_parse (cy_show p neg) = Inr (with_negation neg p)"
proof -
  let ?lim = "case tp_limit p of None \<Rightarrow> [] | Some n \<Rightarrow> '' LIMIT '' @ show_nat n"
  let ?cols = "cy_show_columns (tp_return p) @ ?lim"
  let ?neg = "case neg of None \<Rightarrow> [] | Some n \<Rightarrow> '' WHERE NOT '' @ cy_show_node n"
  let ?q = "(plan_from (tp_seed p))\<lparr>tp_steps := tp_steps p\<rparr>"
  have ok: "cy_node_ok ascii (tp_seed p)" "list_all (cy_step_ok ascii) (tp_steps p)" "tp_return p \<noteq> []" "list_all ident_ok (tp_return p)"
    "tp_order p = []" "tp_skip p = 0" "pred_option (\<lambda>n. n \<le> usize_max) (tp_limit p)"
    using assms(1) by (simp_all add: cy_plan_ok_def)
  have seed: "cy_node (CHR '' '' # cy_show_node (tp_seed p) @ r) = Inr (tp_seed p, r)" for r
    using node_here [OF ok(1), of r] by (simp add: cy_node_def cy_expect_char_def)
  have skip: "cy_skip_ws (?neg @ '' RETURN '' @ ?cols) =
      (case neg of None \<Rightarrow> [] | Some n \<Rightarrow> ''WHERE NOT '' @ cy_show_node n @ '' '') @ ''RETURN '' @ ?cols"
    by (cases neg) simp_all
  have steps: "cy_steps (concat (map cy_show_step (tp_steps p)) @ ?neg @ '' RETURN '' @ ?cols) =
      Inr (tp_steps p, cy_skip_ws (?neg @ '' RETURN '' @ ?cols))"
    by (rule steps_here [OF ok(2)]) (simp_all add: skip split: option.splits)
  have whr: "cy_where ?q (cy_skip_ws (?neg @ '' RETURN '' @ ?cols)) =
      Inr (with_negation neg ?q, (case neg of None \<Rightarrow> [] | Some _ \<Rightarrow> '' '') @ ''RETURN '' @ ?cols)"
  proof (cases neg)
    case None
    then show ?thesis by (simp add: cy_where_def with_negation_def kw_here)
  next
    case (Some n)
    have "take 1 (cy_show_node n @ r) = ''(''" "cy_skip_ws (cy_show_node n @ r) = cy_show_node n @ r" for r
      by (simp_all add: cy_show_node_def)
    with Some assms(2) node_here [of n] show ?thesis
      by (simp add: cy_where_def with_negation_def kw_here [simplified])
  qed
  have cols: "cy_columns (CHR '' '' # ?cols) = Inr (tp_return p, cy_skip_ws ?lim)"
  proof -
    have "cy_columns (CHR '' '' # ?cols) = cy_columns ?cols"
      by (subst (1 2) cy_columns.simps) (simp add: cy_ident_def)
    also have "\<dots> = Inr (tp_return p, cy_skip_ws ?lim)"
      by (rule columns_here [OF ok(3,4)]) (simp_all split: option.splits)
    finally show ?thesis .
  qed
  have p: "(with_negation neg ?q)\<lparr>tp_return := tp_return p, tp_limit := tp_limit p\<rparr> = with_negation neg p"
    using ok(5,6) by (cases neg) (simp_all add: with_negation_def apply_negation_def plan_from_def Let_def split: option.splits)
  have ret: "cy_expect_keyword ''RETURN'' ((case neg of None \<Rightarrow> [] | Some _ \<Rightarrow> '' '') @ ''RETURN '' @ ?cols) =
      Inr (CHR '' '' # ?cols)"
    by (cases neg) (simp_all add: cy_expect_keyword_def kw_here [simplified])
  have "cy_expect_keyword ''MATCH'' (''MATCH '' @ r) = Inr (CHR '' '' # r)" for r
    by (simp add: cy_expect_keyword_def kw_here [simplified])
  then have "cy_query (cy_show p neg) = Inr (with_negation neg p, [])"
    unfolding cy_query_def cy_show_def
    by (simp only: try_then_simps prod.case append_Cons append_Nil
        seed steps [unfolded append_Cons append_Nil] whr [unfolded append_Cons append_Nil]
        ret [unfolded append_Cons append_Nil] cols [unfolded append_Cons append_Nil]
        limit_here [OF ok(7), unfolded append_Cons append_Nil] p)
  then show ?thesis by (simp add: cy_parse_def)
qed

text \<open>
  The excerpt in an error message is cut at its byte 40. When that is inside a character the parser
  panics: here on trailing input of 39 letters and one character of two bytes.
\<close>

lemma cypher_excerpt_panics:
  "cy_parse (''MATCH (a) RETURN a '' @ replicate 39 (CHR ''x'') @ [CHR 0xC3, CHR 0xA9]) = Inl CyPanic"
  by code_simp

section \<open>Properties\<close>

text \<open>
  What a negative pattern \<open>n\<close> makes of a plan, said of the sequence of its node patterns (the seed, then the targets of
  the steps): one of them, the first that has the name of \<open>n\<close> or else the seed, has \<open>n\<close> without its name as its last
  negative pattern, and nothing else changes.
\<close>

definition plan_patterns :: "traversal_plan \<Rightarrow> node_pattern list" where
  "plan_patterns p = tp_seed p # map ts_target (tp_steps p)"

definition named_by :: "node_pattern \<Rightarrow> node_pattern \<Rightarrow> bool" where
  "named_by n m \<longleftrightarrow> np_bind n \<noteq> None \<and> np_bind m = np_bind n"

definition negates :: "node_pattern \<Rightarrow> traversal_plan \<Rightarrow> traversal_plan \<Rightarrow> bool" where
  "negates n p q \<longleftrightarrow>
     (\<exists>pre m post. plan_patterns p = pre @ m # post \<and>
        plan_patterns q = pre @ NodePattern (np_bind m) (np_types m) (np_props m) (np_id m) (np_or m)
          (np_not m @ [NodePattern None (np_types n) (np_props n) (np_id n) (np_or n) (np_not n)]) # post \<and>
        (named_by n m \<and> list_all (Not \<circ> named_by n) pre \<or> pre = [] \<and> list_all (Not \<circ> named_by n) (m # post))) \<and>
     map ts_edge (tp_steps q) = map ts_edge (tp_steps p) \<and> map ts_outbound (tp_steps q) = map ts_outbound (tp_steps p) \<and>
     tp_return q = tp_return p \<and> tp_order q = tp_order p \<and> tp_skip q = tp_skip p \<and> tp_limit q = tp_limit p"

lemma attach_not_to_fields:
  "attach_not_to n m = NodePattern (np_bind m) (np_types m) (np_props m) (np_id m) (np_or m)
     (np_not m @ [NodePattern None (np_types n) (np_props n) (np_id n) (np_or n) (np_not n)])"
  by (cases n; cases m) (simp add: attach_not_to_def)

lemma attach_to_step_Some:
  "attach_to_step x n sts = Some sts' \<Longrightarrow> \<exists>pre st post. sts = pre @ st # post \<and>
     sts' = pre @ st\<lparr>ts_target := attach_not_to n (ts_target st)\<rparr> # post \<and> np_bind (ts_target st) = Some x \<and>
     (\<forall>t \<in> set pre. np_bind (ts_target t) \<noteq> Some x)"
proof (induction sts arbitrary: sts')
  case (Cons st sts)
  show ?case
  proof (cases "np_bind (ts_target st) = Some x")
    case True
    with Cons.prems show ?thesis by (intro exI [of _ "[]"]) auto
  next
    case False
    with Cons.prems obtain ys where "attach_to_step x n sts = Some ys" "sts' = st # ys" by auto
    with Cons.IH [of ys] False show ?thesis by (metis append_Cons set_ConsD)
  qed
qed simp

lemma attach_to_step_None:
  "attach_to_step x n sts = None \<longleftrightarrow> (\<forall>st \<in> set sts. np_bind (ts_target st) \<noteq> Some x)"
  by (induction sts) auto

lemma apply_negation_negates: "negates n p (apply_negation n p)"
proof (cases "\<exists>x. np_bind n = Some x \<and> np_bind (tp_seed p) \<noteq> Some x \<and> attach_to_step x n (tp_steps p) \<noteq> None")
  case True
  then obtain x sts where x: "np_bind n = Some x" "np_bind (tp_seed p) \<noteq> Some x" "attach_to_step x n (tp_steps p) = Some sts" by auto
  then have p': "apply_negation n p = p\<lparr>tp_steps := sts\<rparr>" by (simp add: apply_negation_def)
  obtain pre st post where *: "tp_steps p = pre @ st # post" "sts = pre @ st\<lparr>ts_target := attach_not_to n (ts_target st)\<rparr> # post"
    "np_bind (ts_target st) = Some x" "\<forall>t \<in> set pre. np_bind (ts_target t) \<noteq> Some x"
    using attach_to_step_Some [OF x(3)] by blast
  have "list_all (Not \<circ> named_by n) (tp_seed p # map ts_target pre)" using x *(4) by (simp add: list_all_iff named_by_def)
  then show ?thesis
    unfolding negates_def p'
    by (intro conjI exI [of _ "tp_seed p # map ts_target pre"] exI [of _ "ts_target st"] exI [of _ "map ts_target post"])
      (simp_all add: plan_patterns_def * named_by_def x attach_not_to_fields)
next
  case False
  then have p': "apply_negation n p = p\<lparr>tp_seed := attach_not_to n (tp_seed p)\<rparr>"
    by (cases "np_bind n") (auto simp: apply_negation_def Let_def)
  have "named_by n (tp_seed p) \<or> list_all (Not \<circ> named_by n) (tp_seed p # map ts_target (tp_steps p))"
    using False by (cases "np_bind n") (auto simp: list_all_iff named_by_def attach_to_step_None)
  then show ?thesis
    unfolding negates_def p'
    by (intro conjI exI [of _ "[]"] exI [of _ "tp_seed p"] exI [of _ "map ts_target (tp_steps p)"])
      (auto simp: plan_patterns_def attach_not_to_fields)
qed

text \<open>
  C10: the parser reads every plan of its subset back from its text, with the bounds of its repeated edges, its columns
  and its limit: names, labels, keys and columns are identifiers, property values are integers, booleans and strings of
  ASCII characters, ranges are not empty, ranges and limit fit a \<open>usize\<close>, and there is a column. With a negative pattern
  after \<open>WHERE NOT\<close>, the text reads as the plan in which the first node pattern with its name, or else the seed, has it,
  without its name, as its last negative pattern.
\<close>

theorem cypher_round_trip:
  assumes "cy_plan_ok ascii p"
  shows "cy_parse (cy_show p None) = Inr p \<and>
    (\<forall>n. cy_node_ok ascii n \<longrightarrow> (\<exists>q. cy_parse (cy_show p (Some n)) = Inr q \<and> negates n p q))"
  using cy_parse_show [OF assms, of None] cy_parse_show [OF assms, of "Some n" for n] apply_negation_negates [of _ p]
  by (auto simp: with_negation_def)

lemma cypher_round_trip_witness:
  "\<exists>q. cy_parse ''MATCH (a:Org)-[:memberOf*1..3]->(b) WHERE NOT (b:Closed) RETURN a,b LIMIT 10'' = Inr q \<and>
     plan_patterns q = [NodePattern (Some ''a'') [''Org''] [] None [] [],
       NodePattern (Some ''b'') [] [] None [] [NodePattern None [''Closed''] [] None [] []]]"
proof -
  let ?p = "\<lparr>tp_seed = NodePattern (Some ''a'') [''Org''] [] None [] [],
      tp_steps = [\<lparr>ts_edge = \<lparr>ep_bind = None, ep_label = Some ''memberOf'', ep_props = [], ep_repeat = Some (1, 3)\<rparr>,
         ts_target = NodePattern (Some ''b'') [] [] None [] [], ts_outbound = True\<rparr>],
      tp_return = [''a'', ''b''], tp_order = [], tp_skip = 0, tp_limit = Some 10\<rparr>"
  let ?n = "NodePattern (Some ''b'') [''Closed''] [] None [] []"
  have ok: "cy_plan_ok ascii ?p" "cy_node_ok ascii ?n" by (simp_all add: code_defs Let_def)
  from cypher_round_trip [OF ok(1)] ok(2) obtain q where q: "cy_parse (cy_show ?p (Some ?n)) = Inr q" "negates ?n ?p q" by blast
  have "cy_show ?p (Some ?n) = ''MATCH (a:Org)-[:memberOf*1..3]->(b) WHERE NOT (b:Closed) RETURN a,b LIMIT 10''"
    by (simp add: cy_show_def cy_show_node_def cy_show_opt_def cy_show_labels_def cy_show_props_def cy_show_step_def
        cy_show_edge_def cy_show_range_def show_nat.simps digit_chars)
  with q show ?thesis
    by (auto simp: negates_def plan_patterns_def named_by_def Cons_eq_append_conv)
qed

text \<open>Whatever text the parser accepts, the plan is one of the subset: identifiers as names, labels, keys and columns,
  at least one column, property maps ordered by key with string, integer and boolean values, repetition ranges that are
  not empty and bounds and limit that fit a \<open>usize\<close>, no ordering, no offset, and at most one negative pattern, attached
  where its name says.\<close>

theorem cypher_plan_shape:
  assumes "cy_parse q = Inr p"
  shows "\<exists>p0 neg. cy_plan_ok bytewise p0 \<and> pred_option (cy_node_ok bytewise) neg \<and> p = with_negation neg p0"
proof -
  from assms obtain s1 seed s2 sts s3 p1 s4 s5 cols s6 lim s7 where *: "cy_node s1 = Inr (seed, s2)"
    "cy_steps s2 = Inr (sts, s3)" "cy_where ((plan_from seed)\<lparr>tp_steps := sts\<rparr>) s3 = Inr (p1, s4)"
    "cy_columns s5 = Inr (cols, s6)" "cy_limit s6 = Inr (lim, s7)" "p = p1\<lparr>tp_return := cols, tp_limit := lim\<rparr>"
    unfolding cy_parse_def cy_query_def by (auto simp: Let_def split: if_splits)
  from where_shape [OF *(3)] obtain neg where neg: "pred_option (cy_node_ok bytewise) neg"
    "p1 = with_negation neg ((plan_from seed)\<lparr>tp_steps := sts\<rparr>)" by blast
  let ?p = "(plan_from seed)\<lparr>tp_steps := sts, tp_return := cols, tp_limit := lim\<rparr>"
  have "p = with_negation neg ?p"
    unfolding *(6) neg(2)
    by (cases neg) (simp_all add: with_negation_def apply_negation_def plan_from_def Let_def split: option.splits)
  moreover have "cy_plan_ok bytewise ?p"
    using node_shape [OF *(1)] steps_shape [OF *(2)] columns_shape [OF *(4)] limit_shape [OF *(5)]
    by (simp add: cy_plan_ok_def plan_from_def)
  ultimately show ?thesis using neg(1) by (intro exI [of _ ?p] exI [of _ neg]) simp
qed

lemma cypher_plan_shape_witness:
  "\<exists>p0 neg. cy_plan_ok bytewise p0 \<and> pred_option (cy_node_ok bytewise) neg \<and>
     (plan_from (NodePattern (Some ''a'') [''Org''] [] None [] []))\<lparr>tp_return := [''a'']\<rparr> = with_negation neg p0"
proof -
  let ?p = "(plan_from (NodePattern (Some ''a'') [''Org''] [] None [] []))\<lparr>tp_return := [''a'']\<rparr>"
  have "cy_plan_ok ascii ?p" by (simp add: code_defs Let_def)
  from cy_parse_show [OF this, of None] have "cy_parse (cy_show ?p None) = Inr ?p" by (simp add: with_negation_def)
  then show ?thesis by (rule cypher_plan_shape)
qed

end
