(* ===== verification/Query_Sparql.thy ===== *)
theory Query_Sparql
  imports Query_Cypher
begin

text \<open>
  \<open>crates/atomr-ontology-query/src/sparql.rs\<close>: the parser of the SPARQL subset and the lowering of
  its triple patterns to a traversal plan. The conventions are those of \<open>Query_Cypher\<close>; the prefixes
  are an argument of the methods that read them.
\<close>

section \<open>Failures, terms\<close>

datatype sq_error =
    SqTrailing
  | SqKeyword string
  | SqChar char
  | SqIdent
  | SqInteger
  | SqBadInteger string
  | SqVar
  | SqIri
  | SqUnterminatedIri
  | SqTerm
  | SqNoColumns
  | SqAfterTriple
  | SqNoTriples

datatype sq_unsupported =
    SqFirstSubject
  | SqSubject
  | SqUnbound string
  | SqPredicateVar
  | SqTypeVar

datatype sq_failure =
    SqParse sq_error string
  | SqUnsupported sq_unsupported
  | SqPanic

definition sq_err :: "sq_error \<Rightarrow> string \<Rightarrow> sq_failure" where
  [code_defs]: "sq_err e s = (if excerpt_panics s then SqPanic else SqParse e s)"

datatype sparql_term = TmVar string | TmIri string | TmLocal string

definition sq_label :: "sparql_term \<Rightarrow> string option" where
  [code_defs]: "sq_label t = (case t of TmIri s \<Rightarrow> Some s | TmLocal s \<Rightarrow> Some s | TmVar _ \<Rightarrow> None)"

definition sq_as_var :: "sparql_term \<Rightarrow> string option" where
  [code_defs]: "sq_as_var t = (case t of TmVar v \<Rightarrow> Some v | _ \<Rightarrow> None)"

type_synonym sq_triple = "sparql_term \<times> sparql_term \<times> sparql_term"

section \<open>Tokens\<close>

text \<open>White space and comments to the end of a line.\<close>

function sq_skip_ws :: "string \<Rightarrow> string" where
  "sq_skip_ws s =
     (let r = dropWhile is_ascii_whitespace s
      in if take 1 r = ''#'' then sq_skip_ws (drop 1 (dropWhile (\<lambda>b. b \<noteq> CHR 0x0A) r)) else r)"
  by pat_completeness auto
termination
proof (relation "measure length")
  fix s r
  assume r: "r = dropWhile is_ascii_whitespace s" and hash: "take 1 r = ''#''"
  have "length r \<le> length s" unfolding r by (rule drop_while_length)
  moreover have "0 < length r" using hash by (cases r) simp_all
  moreover have "length (dropWhile (\<lambda>b. b \<noteq> CHR 0x0A) r) \<le> length r" by (rule drop_while_length)
  ultimately show "(drop 1 (dropWhile (\<lambda>b. b \<noteq> CHR 0x0A) r), s) \<in> measure length"
    unfolding in_measure length_drop by linarith
qed simp

declare sq_skip_ws.simps [simp del]

definition sq_expect_keyword :: "string \<Rightarrow> string \<Rightarrow> sq_failure + string" where
  [code_defs]: "sq_expect_keyword kw s =
     (let s = sq_skip_ws s
      in case try_keyword kw s of Some r \<Rightarrow> Inr r | None \<Rightarrow> Inl (sq_err (SqKeyword kw) s))"

definition sq_expect_char :: "char \<Rightarrow> string \<Rightarrow> sq_failure + string" where
  [code_defs]: "sq_expect_char c s =
     (let s = sq_skip_ws s
      in case s of
           [] \<Rightarrow> Inl (sq_err (SqChar c) s)
         | d # r \<Rightarrow> if d = c then Inr r else Inl (sq_err (SqChar c) s))"

definition sq_ident :: "string \<Rightarrow> sq_failure + string \<times> string" where
  [code_defs]: "sq_ident s =
     (let s = sq_skip_ws s
      in case s of
           [] \<Rightarrow> Inl (sq_err SqIdent s)
         | c # r \<Rightarrow>
             if is_ident_start c then Inr (c # takeWhile is_ident_continue r, dropWhile is_ident_continue r)
             else Inl (sq_err SqIdent s))"

definition sq_uint :: "string \<Rightarrow> sq_failure + nat \<times> string" where
  [code_defs]: "sq_uint s =
     (let s = sq_skip_ws s; raw = takeWhile is_ascii_digit s; r = dropWhile is_ascii_digit s
      in if raw = [] then Inl (sq_err SqInteger s)
         else if usize_max < digits_value raw then Inl (SqParse (SqBadInteger raw) r)
         else Inr (digits_value raw, r))"

definition sq_var :: "string \<Rightarrow> sq_failure + string \<times> string" where
  [code_defs]: "sq_var s =
     (let s = sq_skip_ws s
      in if take 1 s = ''?'' then sq_ident (drop 1 s) else Inl (sq_err SqVar s))"

text \<open>The bytes between the brackets are whole characters of the input.\<close>

definition sq_iri :: "string \<Rightarrow> sq_failure + string \<times> string" where
  [code_defs]: "sq_iri s =
     (let s = sq_skip_ws s
      in if take 1 s = ''<'' then
           (case split_once (CHR ''>'') (drop 1 s) of
              None \<Rightarrow> Inl (SqParse SqUnterminatedIri [])
            | Some (i, r) \<Rightarrow> Inr (i, r))
         else Inl (sq_err SqIri s))"

definition is_local_byte :: "char \<Rightarrow> bool" where
  [code_defs]: "is_local_byte c \<longleftrightarrow> is_ident_continue c \<or> c = CHR ''.'' \<or> c = CHR ''-''"

text \<open>\<open>try_parse_curie\<close>: the term and what it leaves, when there is a colon with a local name.\<close>

definition sq_curie :: "(string, string) bmap \<Rightarrow> string \<Rightarrow> (sparql_term \<times> string) option" where
  [code_defs]: "sq_curie prefixes s =
     (let s = sq_skip_ws s;
          named = (s \<noteq> [] \<and> is_ident_start (hd s));
          pfx = (if named then takeWhile is_ident_continue s else []);
          s = (if named then dropWhile is_ident_continue s else s)
      in if take 1 s \<noteq> '':'' then None
         else case drop 1 s of
                [] \<Rightarrow> None
              | c # r \<Rightarrow>
                  if is_ident_start c \<or> is_ascii_digit c then
                    let l = c # takeWhile is_local_byte r
                    in Some (case map_of prefixes pfx of Some base \<Rightarrow> TmIri (base @ l) | None \<Rightarrow> TmLocal l,
                             dropWhile is_local_byte r)
                  else None)"

definition sq_term :: "(string, string) bmap \<Rightarrow> string \<Rightarrow> sq_failure + sparql_term \<times> string" where
  [code_defs]: "sq_term prefixes s =
     (let s = sq_skip_ws s
      in if take 1 s = ''?'' then try_then (sq_var s) (\<lambda>(v, r). Inr (TmVar v, r))
         else if take 1 s = ''<'' then try_then (sq_iri s) (\<lambda>(i, r). Inr (TmIri i, r))
         else case sq_curie prefixes s of
                Some (t, r) \<Rightarrow> Inr (t, r)
              | None \<Rightarrow> Inl (sq_err SqTerm s))"

definition sq_verb :: "(string, string) bmap \<Rightarrow> string \<Rightarrow> sq_failure + sparql_term \<times> string" where
  [code_defs]: "sq_verb prefixes s =
     (let s = sq_skip_ws s
      in case try_keyword ''a'' s of Some r \<Rightarrow> Inr (TmLocal ''a'', r) | None \<Rightarrow> sq_term prefixes s)"

lemma sq_skip_ws_le: "length (sq_skip_ws s) \<le> length s"
proof (induction s rule: sq_skip_ws.induct)
  case (1 s)
  let ?r = "dropWhile is_ascii_whitespace s" and ?d = "dropWhile (\<lambda>b. b \<noteq> CHR 0x0A)"
  have "length ?r \<le> length s" "length (?d ?r) \<le> length ?r" by (simp_all only: drop_while_length)
  with 1 [OF refl] show ?case by (subst sq_skip_ws.simps) (auto simp: Let_def)
qed

lemma sq_ident_less: "sq_ident s = Inr (x, r) \<Longrightarrow> length r < length s"
proof -
  assume "sq_ident s = Inr (x, r)"
  then obtain c cs where s: "sq_skip_ws s = c # cs" and r: "r = dropWhile is_ident_continue cs"
    by (auto simp: sq_ident_def Let_def split: list.splits if_splits)
  have "length r \<le> length cs" unfolding r by (rule drop_while_length)
  with sq_skip_ws_le [of s] s show ?thesis by simp
qed

lemma sq_expect_char_less: "sq_expect_char c s = Inr r \<Longrightarrow> length r < length s"
  using sq_skip_ws_le [of s] by (auto simp: sq_expect_char_def Let_def split: list.splits if_splits)

lemma sq_var_less: "sq_var s = Inr (x, r) \<Longrightarrow> length r < length s"
  using sq_skip_ws_le [of s] by (auto simp: sq_var_def Let_def split: if_splits dest!: sq_ident_less)

lemma sq_iri_less: "sq_iri s = Inr (x, r) \<Longrightarrow> length r < length s"
proof -
  assume "sq_iri s = Inr (x, r)"
  then have "split_once (CHR ''>'') (drop 1 (sq_skip_ws s)) = Some (x, r)"
    by (auto simp: sq_iri_def Let_def split: if_splits option.splits)
  then have "length (drop 1 (sq_skip_ws s)) = length (x @ CHR ''>'' # r)" using split_once_Some by metis
  with sq_skip_ws_le [of s] show ?thesis by simp
qed

lemma sq_curie_less: "sq_curie prefixes s = Some (t, r) \<Longrightarrow> length r < length s"
proof -
  assume *: "sq_curie prefixes s = Some (t, r)"
  let ?s = "sq_skip_ws s"
  let ?r = "if ?s \<noteq> [] \<and> is_ident_start (hd ?s) then dropWhile is_ident_continue ?s else ?s"
  from * obtain c cs where c: "drop 1 ?r = c # cs" and r: "r = dropWhile is_local_byte cs"
    unfolding sq_curie_def Let_def by (auto split: if_splits list.splits)
  have "length r \<le> length cs" unfolding r by (rule drop_while_length)
  moreover have "length ?r \<le> length ?s" using drop_while_length [of is_ident_continue ?s] by simp
  moreover have "length (drop 1 ?r) = Suc (length cs)" using c by simp
  ultimately show ?thesis using sq_skip_ws_le [of s] by simp
qed

lemma sq_term_less: "sq_term prefixes s = Inr (t, r) \<Longrightarrow> length r < length s"
  using sq_skip_ws_le [of s]
  by (auto simp: sq_term_def Let_def split: if_splits option.splits dest!: sq_var_less sq_iri_less sq_curie_less)

lemma sq_verb_less: "sq_verb prefixes s = Inr (t, r) \<Longrightarrow> length r < length s"
  using sq_skip_ws_le [of s]
  by (auto simp: sq_verb_def Let_def split: option.splits dest!: try_keyword_less sq_term_less)

section \<open>Queries\<close>

function sq_prefixes :: "(string, string) bmap \<Rightarrow> string \<Rightarrow> sq_failure + (string, string) bmap \<times> string" where
  "sq_prefixes prefixes s =
     (let s = sq_skip_ws s
      in case try_keyword ''PREFIX'' s of
           None \<Rightarrow> Inr (prefixes, s)
         | Some s1 \<Rightarrow>
             let s2 = sq_skip_ws s1;
                 pfx = takeWhile is_ident_continue s2;
                 r = dropWhile is_ident_continue s2
             in if take 1 r \<noteq> '':'' then Inr (prefixes, s)
                else try_then (sq_iri (drop 1 r)) (\<lambda>(i, r). sq_prefixes (bm_insert pfx i prefixes) r))"
  by pat_completeness auto
termination
proof (relation "measure (length \<circ> snd)")
  fix prefixes s x x2 xa xb xc xd xe y
  assume "x = sq_skip_ws s" "try_keyword ''PREFIX'' x = Some x2" "xa = sq_skip_ws x2"
    "xc = dropWhile is_ident_continue xa" "sq_iri (drop 1 xc) = Inr xd" "(xe, y) = xd"
  moreover from this have "length xc \<le> length xa" by (simp only: drop_while_length)
  ultimately show "((bm_insert xb xe prefixes, y), prefixes, s) \<in> measure (length \<circ> snd)"
    using sq_iri_less [of "drop 1 xc" xe y] try_keyword_less [of "''PREFIX''" x x2] sq_skip_ws_le [of s] sq_skip_ws_le [of x2]
    by simp
qed simp

declare sq_prefixes.simps [simp del]

function sq_columns :: "string \<Rightarrow> sq_failure + string list \<times> string" where
  "sq_columns s =
     (let s = sq_skip_ws s
      in if take 1 s = ''?'' then
           try_then (sq_var s) (\<lambda>(v, s). try_then (sq_columns s) (\<lambda>(vs, s). Inr (v # vs, s)))
         else Inr ([], s))"
  by pat_completeness auto
termination
proof (relation "measure length")
  fix s x xa xb y
  assume "x = sq_skip_ws s" "sq_var x = Inr xa" "(xb, y) = xa"
  then show "(y, s) \<in> measure length" using sq_var_less [of x xb y] sq_skip_ws_le [of s] by simp
qed simp

declare sq_columns.simps [simp del]

text \<open>The columns of \<open>SELECT\<close>; none for a star.\<close>

definition sq_select :: "string \<Rightarrow> sq_failure + string list \<times> string" where
  [code_defs]: "sq_select s =
     (let s = sq_skip_ws s
      in if take 1 s = ''*'' then Inr ([], drop 1 s)
         else try_then (sq_columns s) (\<lambda>(vs, s).
                if vs = [] then Inl (SqParse SqNoColumns []) else Inr (vs, s)))"

function sq_triples :: "(string, string) bmap \<Rightarrow> string \<Rightarrow> sq_failure + sq_triple list \<times> string" where
  "sq_triples prefixes s =
     (let s = sq_skip_ws s
      in if take 1 s = ''}'' then Inr ([], s)
         else
           try_then (sq_term prefixes s) (\<lambda>(a, s).
           try_then (sq_verb prefixes s) (\<lambda>(v, s).
           try_then (sq_term prefixes s) (\<lambda>(b, s).
             let s = sq_skip_ws s
             in if take 1 s = ''.'' then
                  try_then (sq_triples prefixes (drop 1 s)) (\<lambda>(ts, s). Inr ((a, v, b) # ts, s))
                else if take 1 s = ''}'' then Inr ([(a, v, b)], s)
                else Inl (sq_err SqAfterTriple s)))))"
  by pat_completeness auto
termination
proof (relation "measure (length \<circ> snd)")
  fix prefixes s x xa a y xb v ya xc b yb xd
  assume "x = sq_skip_ws s" "sq_term prefixes x = Inr xa" "(a, y) = xa" "sq_verb prefixes y = Inr xb" "(v, ya) = xb"
    "sq_term prefixes ya = Inr xc" "(b, yb) = xc" "xd = sq_skip_ws yb"
  then show "((prefixes, drop 1 xd), prefixes, s) \<in> measure (length \<circ> snd)"
    using sq_term_less [of prefixes x a y] sq_verb_less [of prefixes y v ya] sq_term_less [of prefixes ya b yb]
      sq_skip_ws_le [of s] sq_skip_ws_le [of yb] by simp
qed simp

declare sq_triples.simps [simp del]

text \<open>Up to two modifiers, in either order; a later one replaces an earlier one of its kind.\<close>

fun sq_modifiers :: "nat \<Rightarrow> nat option \<times> nat \<Rightarrow> string \<Rightarrow> sq_failure + (nat option \<times> nat) \<times> string" where
  "sq_modifiers 0 m s = Inr (m, s)"
| "sq_modifiers (Suc k) m s =
     (let s = sq_skip_ws s
      in case try_keyword ''LIMIT'' s of
           Some s \<Rightarrow> try_then (sq_uint s) (\<lambda>(n, s). sq_modifiers k (Some n, snd m) s)
         | None \<Rightarrow>
             (case try_keyword ''OFFSET'' s of
                Some s \<Rightarrow> try_then (sq_uint s) (\<lambda>(n, s). sq_modifiers k (fst m, n) s)
              | None \<Rightarrow> Inr (m, s)))"

section \<open>Lowering\<close>

text \<open>The suffix after the last separator.\<close>

definition label_localname :: "string \<Rightarrow> string" where
  [code_defs]: "label_localname s = rev (takeWhile (\<lambda>c. c \<notin> {CHR ''#'', CHR ''/'', CHR '':''}) (rev s))"

datatype binding_site = SiteSeed | SiteStep nat

definition attach_type :: "(string, binding_site) bmap \<Rightarrow> string \<Rightarrow> string \<Rightarrow> traversal_plan \<Rightarrow> traversal_plan" where
  [code_defs]: "attach_type bindings v ty p =
     (let on_seed = p\<lparr>tp_seed := np_typed ty (tp_seed p)\<rparr>
      in case map_of bindings v of
           Some SiteSeed \<Rightarrow> on_seed
         | Some (SiteStep i) \<Rightarrow>
             if i < length (tp_steps p)
             then (let st = tp_steps p ! i in p\<lparr>tp_steps := (tp_steps p)[i := st\<lparr>ts_target := np_typed ty (ts_target st)\<rparr>]\<rparr>)
             else p
         | None \<Rightarrow> on_seed)"

type_synonym sq_state = "traversal_plan \<times> (string, binding_site) bmap"

definition compile_triple :: "sq_triple \<Rightarrow> sq_state \<Rightarrow> sq_failure + sq_state" where
  [code_defs]: "compile_triple t st =
     (case (t, st) of ((s, v, ob), (p, bindings)) \<Rightarrow>
      (case sq_as_var s of
         None \<Rightarrow> Inl (SqUnsupported SqSubject)
       | Some x \<Rightarrow>
           if \<not> bm_contains bindings x then Inl (SqUnsupported (SqUnbound x))
           else case sq_label v of
                  None \<Rightarrow> Inl (SqUnsupported SqPredicateVar)
                | Some l \<Rightarrow>
                    if l = ''a'' then
                      (case sq_label ob of
                         None \<Rightarrow> Inl (SqUnsupported SqTypeVar)
                       | Some ty \<Rightarrow> Inr (attach_type bindings x (label_localname ty) p, bindings))
                    else
                      let edge = ep_labeled (label_localname l) ep_any;
                          target = (case ob of
                              TmVar y \<Rightarrow> np_set_bind y np_any
                            | TmIri ty \<Rightarrow> np_typed (label_localname ty) np_any
                            | TmLocal ty \<Rightarrow> np_typed (label_localname ty) np_any);
                          bindings' = (case ob of
                              TmVar y \<Rightarrow> if bm_contains bindings y then bindings
                                else bm_insert y (SiteStep (length (tp_steps p))) bindings
                            | _ \<Rightarrow> bindings)
                      in Inr (plan_outbound edge target p, bindings')))"

fun compile_triples :: "sq_triple list \<Rightarrow> sq_state \<Rightarrow> sq_failure + sq_state" where
  "compile_triples [] st = Inr st"
| "compile_triples (t # ts) st = try_then (compile_triple t st) (compile_triples ts)"

definition lower_triples :: "sq_triple list \<Rightarrow> sq_failure + traversal_plan" where
  [code_defs]: "lower_triples ts =
     (case ts of
        [] \<Rightarrow> Inl (SqParse SqNoTriples [])
      | (s, _, _) # _ \<Rightarrow>
          (case s of
             TmVar v \<Rightarrow>
               try_then (compile_triples ts (plan_from (np_set_bind v np_any), bm_insert v SiteSeed [])) (\<lambda>(p, _). Inr p)
           | _ \<Rightarrow> Inl (SqUnsupported SqFirstSubject)))"

definition sq_query :: "string \<Rightarrow> sq_failure + traversal_plan \<times> string" where
  [code_defs]: "sq_query s =
     try_then (sq_prefixes [] s) (\<lambda>(prefixes, s).
     try_then (sq_expect_keyword ''SELECT'' s) (\<lambda>s.
     try_then (sq_select s) (\<lambda>(cols, s).
     try_then (sq_expect_keyword ''WHERE'' s) (\<lambda>s.
     try_then (sq_expect_char (CHR ''{'') s) (\<lambda>s.
     try_then (sq_triples prefixes s) (\<lambda>(ts, s).
     try_then (sq_expect_char (CHR ''}'') s) (\<lambda>s.
     try_then (sq_modifiers 2 (None, 0) s) (\<lambda>((lim, off), s).
     try_then (lower_triples ts) (\<lambda>p.
       Inr (p\<lparr>tp_return := cols, tp_skip := off, tp_limit := lim\<rparr>, s))))))))))"

definition sq_parse :: "string \<Rightarrow> sq_failure + traversal_plan" where
  [code_defs]: "sq_parse q =
     try_then (sq_query q) (\<lambda>(p, s).
       let s = sq_skip_ws s in if s \<noteq> [] then Inl (sq_err SqTrailing s) else Inr p)"

section \<open>The plan of a list of triples\<close>

text \<open>
  The lowering in one step: hops in the order of the triples, the types of a variable where it is first
  bound. \<open>hops\<close> are the triples whose predicate is not \<open>a\<close>.
\<close>

fun first_index :: "'a \<Rightarrow> 'a list \<Rightarrow> nat option" where
  "first_index a [] = None"
| "first_index a (x # xs) = (if x = a then Some 0 else map_option Suc (first_index a xs))"

lemma first_index_append:
  "first_index a (xs @ ys) =
     (case first_index a xs of Some i \<Rightarrow> Some i | None \<Rightarrow> map_option (\<lambda>i. length xs + i) (first_index a ys))"
  by (cases "first_index a ys"; induction xs; simp split: option.splits)

lemma first_index_None: "first_index a xs = None \<longleftrightarrow> a \<notin> set xs"
  by (induction xs) auto

lemma first_index_less: "first_index a xs = Some i \<Longrightarrow> i < length xs"
  by (induction xs arbitrary: i) (auto split: if_splits)

definition is_hop :: "sq_triple \<Rightarrow> bool" where
  [code_defs]: "is_hop t \<longleftrightarrow> sq_label (fst (snd t)) \<noteq> Some ''a''"

definition hops :: "sq_triple list \<Rightarrow> sq_triple list" where
  [code_defs]: "hops ts = filter is_hop ts"

definition hop_ends :: "sq_triple list \<Rightarrow> sparql_term list" where
  [code_defs]: "hop_ends ts = map (snd \<circ> snd) (hops ts)"

definition types_of :: "string \<Rightarrow> sq_triple list \<Rightarrow> string list" where
  [code_defs]: "types_of x ts =
     List.map_filter (\<lambda>(s, v, ob). if s = TmVar x \<and> sq_label v = Some ''a'' then map_option label_localname (sq_label ob) else None) ts"

definition hop_step :: "string \<Rightarrow> sq_triple list \<Rightarrow> nat \<Rightarrow> traversal_step" where
  [code_defs]: "hop_step x0 ts i =
     (case hops ts ! i of (s, v, ob) \<Rightarrow>
        \<lparr>ts_edge = ep_labeled (label_localname (the (sq_label v))) ep_any,
         ts_target = (case ob of
             TmVar y \<Rightarrow> NodePattern (Some y)
               (if y \<noteq> x0 \<and> first_index ob (hop_ends ts) = Some i then types_of y ts else []) [] None [] []
           | TmIri ty \<Rightarrow> NodePattern None [label_localname ty] [] None [] []
           | TmLocal ty \<Rightarrow> NodePattern None [label_localname ty] [] None [] []),
         ts_outbound = True\<rparr>)"

definition lowered :: "string \<Rightarrow> sq_triple list \<Rightarrow> traversal_plan" where
  [code_defs]: "lowered x0 ts =
     (plan_from (NodePattern (Some x0) (types_of x0 ts) [] None [] []))
       \<lparr>tp_steps := map (hop_step x0 ts) [0..<length (hops ts)]\<rparr>"

text \<open>The site where a variable is bound after some triples.\<close>

definition site :: "string \<Rightarrow> sq_triple list \<Rightarrow> string \<Rightarrow> binding_site option" where
  [code_defs]: "site x0 ts x = (if x = x0 then Some SiteSeed else map_option SiteStep (first_index (TmVar x) (hop_ends ts)))"

definition triple_ok :: "string \<Rightarrow> sq_triple list \<Rightarrow> sq_triple \<Rightarrow> bool" where
  [code_defs]: "triple_ok x0 before t \<longleftrightarrow>
     (case t of (s, v, ob) \<Rightarrow>
        (case s of TmVar x \<Rightarrow> site x0 before x \<noteq> None | _ \<Rightarrow> False) \<and>
        sq_label v \<noteq> None \<and> (sq_label v = Some ''a'' \<longrightarrow> sq_label ob \<noteq> None))"

fun triples_ok :: "string \<Rightarrow> sq_triple list \<Rightarrow> sq_triple list \<Rightarrow> bool" where
  "triples_ok x0 before [] \<longleftrightarrow> True"
| "triples_ok x0 before (t # ts) \<longleftrightarrow> triple_ok x0 before t \<and> triples_ok x0 (before @ [t]) ts"

definition sq_state_of :: "string \<Rightarrow> sq_triple list \<Rightarrow> sq_state \<Rightarrow> bool" where
  "sq_state_of x0 ts st \<longleftrightarrow> fst st = lowered x0 ts \<and> map_of (snd st) = site x0 ts \<and>
     (\<forall>y. types_of y ts \<noteq> [] \<longrightarrow> site x0 ts y \<noteq> None)"

lemma types_of_simps [simp]:
  "types_of x [] = []" "types_of x (ts @ us) = types_of x ts @ types_of x us"
  "types_of x [(s, v, ob)] =
     (if s = TmVar x \<and> sq_label v = Some ''a'' then case sq_label ob of None \<Rightarrow> [] | Some ty \<Rightarrow> [label_localname ty] else [])"
  by (simp_all add: types_of_def List.map_filter_def split: option.splits)

lemma hops_simps [simp]: "hops [] = []" "hops (ts @ us) = hops ts @ hops us" "hops [t] = (if is_hop t then [t] else [])"
  by (simp_all add: hops_def)

lemma hop_ends_simps [simp]: "hop_ends [] = []" "hop_ends (ts @ us) = hop_ends ts @ hop_ends us"
  "hop_ends [t] = (if is_hop t then [snd (snd t)] else [])" "length (hop_ends ts) = length (hops ts)"
  by (simp_all add: hop_ends_def)

lemma hop_end_nth: "i < length (hops ts) \<Longrightarrow> snd (snd (hops ts ! i)) = hop_ends ts ! i"
  by (simp add: hop_ends_def)

lemma first_index_nth: "first_index a xs = Some i \<Longrightarrow> xs ! i = a"
  by (induction xs arbitrary: i) (auto split: if_splits)

lemma contains_site: "sq_state_of x0 ts st \<Longrightarrow> bm_contains (snd st) x \<longleftrightarrow> site x0 ts x \<noteq> None"
  by (metis bm_contains_iff map_of_eq_None_iff sq_state_of_def)

text \<open>A type triple extends the pattern at the site of its variable.\<close>

lemma types_of_snoc: "types_of y (ts @ [(TmVar x, v, ob)]) =
    types_of y ts @ (if y = x \<and> sq_label v = Some ''a'' then case sq_label ob of None \<Rightarrow> [] | Some ty \<Rightarrow> [label_localname ty] else [])"
  by (cases "y = x") simp_all

lemma hop_step_type:
  assumes "sq_label v = Some ''a''" "sq_label ob = Some ty" "i < length (hops ts)"
  shows "hop_step x0 (ts @ [(TmVar x, v, ob)]) i =
     (if x \<noteq> x0 \<and> first_index (TmVar x) (hop_ends ts) = Some i
      then (hop_step x0 ts i)\<lparr>ts_target := np_typed (label_localname ty) (ts_target (hop_step x0 ts i))\<rparr>
      else hop_step x0 ts i)"
proof -
  have hop: "\<not> is_hop (TmVar x, v, ob)" using assms(1) by (simp add: is_hop_def)
  obtain s p ob' where h: "hops ts ! i = (s, p, ob')" by (cases "hops ts ! i") auto
  have ends: "hop_ends ts ! i = ob'" using hop_end_nth [OF assms(3)] h by simp
  show ?thesis
  proof (cases "x \<noteq> x0 \<and> first_index (TmVar x) (hop_ends ts) = Some i")
    case True
    with first_index_nth [of "TmVar x" "hop_ends ts" i] ends have "ob' = TmVar x" by simp
    with True h hop assms show ?thesis by (simp add: hop_step_def)
  next
    case False
    then show ?thesis using h hop assms by (auto simp: hop_step_def split: sparql_term.split)
  qed
qed

lemma attach_type_lowered:
  assumes "sq_state_of x0 ts (p, b)" "site x0 ts x \<noteq> None" "sq_label v = Some ''a''" "sq_label ob = Some ty"
  shows "sq_state_of x0 (ts @ [(TmVar x, v, ob)]) (attach_type b x (label_localname ty) p, b)"
proof -
  let ?t = "(TmVar x, v, ob)" and ?n = "length (hops ts)"
  have p: "p = lowered x0 ts" and b: "map_of b = site x0 ts" and ty: "types_of y ts \<noteq> [] \<Longrightarrow> site x0 ts y \<noteq> None" for y
    using assms(1) by (simp_all add: sq_state_of_def)
  have hop: "\<not> is_hop ?t" using assms(3) by (simp add: is_hop_def)
  have site: "site x0 (ts @ [?t]) = site x0 ts" using hop by (simp add: site_def fun_eq_iff)
  have steps: "map (hop_step x0 (ts @ [?t])) [0..<?n] =
      map (\<lambda>i. if x \<noteq> x0 \<and> first_index (TmVar x) (hop_ends ts) = Some i
        then (hop_step x0 ts i)\<lparr>ts_target := np_typed (label_localname ty) (ts_target (hop_step x0 ts i))\<rparr>
        else hop_step x0 ts i) [0..<?n]"
    by (rule map_cong [OF refl], rule hop_step_type [OF assms(3,4)]) simp
  have "attach_type b x (label_localname ty) p = lowered x0 (ts @ [?t])"
  proof (cases "x = x0")
    case True
    then have "map_of b x = Some SiteSeed" by (simp add: b site_def)
    with True show ?thesis
      using hop steps assms by (simp add: attach_type_def p lowered_def plan_from_def)
  next
    case False
    with assms(2) obtain i where i: "first_index (TmVar x) (hop_ends ts) = Some i" by (auto simp: site_def)
    with False have "map_of b x = Some (SiteStep i)" by (simp add: b site_def)
    moreover have lt: "i < ?n" using first_index_less [OF i] by simp
    ultimately have "attach_type b x (label_localname ty) p = p\<lparr>tp_steps := (map (hop_step x0 ts) [0..<?n])
        [i := (hop_step x0 ts i)\<lparr>ts_target := np_typed (label_localname ty) (ts_target (hop_step x0 ts i))\<rparr>]\<rparr>"
      by (simp add: attach_type_def p lowered_def plan_from_def Let_def)
    also have "(map (hop_step x0 ts) [0..<?n])
        [i := (hop_step x0 ts i)\<lparr>ts_target := np_typed (label_localname ty) (ts_target (hop_step x0 ts i))\<rparr>] =
        map (hop_step x0 (ts @ [?t])) [0..<?n]"
      unfolding steps using lt False i by (intro nth_equalityI) (auto simp: nth_list_update)
    finally show ?thesis using False hop by (simp add: p lowered_def plan_from_def)
  qed
  moreover have "site x0 ts y \<noteq> None" if "types_of y (ts @ [?t]) \<noteq> []" for y
    using that ty [of y] assms(2) by (cases "y = x") (auto simp: types_of_snoc)
  ultimately show ?thesis by (simp add: sq_state_of_def site b del: types_of_simps)
qed

text \<open>A hop is appended; its variable is bound there when it is new.\<close>

lemma hop_step_append:
  assumes "is_hop (s, v, ob)" "i < length (hops ts)"
  shows "hop_step x0 (ts @ [(s, v, ob)]) i = hop_step x0 ts i"
proof -
  have v: "sq_label v \<noteq> Some ''a''" using assms(1) by (simp add: is_hop_def)
  obtain s' p ob' where h: "hops ts ! i = (s', p, ob')" by (cases "hops ts ! i") auto
  have "hop_ends ts ! i = ob'" using hop_end_nth [OF assms(2)] h by simp
  then have "first_index ob' (hop_ends ts) \<noteq> None"
    using assms(2) hop_ends_simps(4) [of ts] by (metis first_index_None nth_mem)
  then obtain k where k: "first_index ob' (hop_ends ts) = Some k" by blast
  show ?thesis
    using v assms h k by (cases ob') (simp_all add: hop_step_def nth_append first_index_append)
qed

definition hop_target :: "sparql_term \<Rightarrow> node_pattern" where
  "hop_target ob = (case ob of
      TmVar y \<Rightarrow> np_set_bind y np_any
    | TmIri ty \<Rightarrow> np_typed (label_localname ty) np_any
    | TmLocal ty \<Rightarrow> np_typed (label_localname ty) np_any)"

lemma hop_lowered:
  assumes "sq_state_of x0 ts (p, b)" "sq_label v = Some l" "l \<noteq> ''a''"
  shows "sq_state_of x0 (ts @ [(s, v, ob)])
    (plan_outbound (ep_labeled (label_localname l) ep_any) (hop_target ob) p,
     case ob of TmVar y \<Rightarrow> if bm_contains b y then b else bm_insert y (SiteStep (length (tp_steps p))) b | _ \<Rightarrow> b)"
proof -
  let ?t = "(s, v, ob)" and ?n = "length (hops ts)"
  have p: "p = lowered x0 ts" and b: "map_of b = site x0 ts" and ty: "\<And>y. types_of y ts \<noteq> [] \<Longrightarrow> site x0 ts y \<noteq> None"
    using assms(1) by (simp_all add: sq_state_of_def)
  have has: "bm_contains b y \<longleftrightarrow> site x0 ts y \<noteq> None" for y using contains_site [OF assms(1)] by simp
  have hop: "is_hop ?t" and v: "sq_label v \<noteq> Some ''a''" using assms(2,3) by (simp_all add: is_hop_def)
  have n: "length (tp_steps p) = ?n" by (simp add: p lowered_def)
  have types: "types_of y (ts @ [?t]) = types_of y ts" for y using v by simp
  have new: "hop_step x0 (ts @ [?t]) ?n =
      \<lparr>ts_edge = ep_labeled (label_localname l) ep_any, ts_target = hop_target ob, ts_outbound = True\<rparr>"
  proof (cases ob)
    case (TmVar y)
    have "types_of y ts = []" if "y \<noteq> x0" "first_index (TmVar y) (hop_ends ts @ [TmVar y]) = Some ?n"
    proof (rule ccontr)
      assume "types_of y ts \<noteq> []"
      from ty [OF this] that(1) obtain k where k: "first_index (TmVar y) (hop_ends ts) = Some k" by (auto simp: site_def)
      with first_index_less [OF k] that(2) show False by (simp add: first_index_append)
    qed
    with TmVar hop v assms(2) show ?thesis
      by (auto simp: hop_step_def hop_target_def np_any_def)
  qed (use hop v assms(2) in \<open>simp_all add: hop_step_def hop_target_def np_any_def\<close>)
  have "map (hop_step x0 (ts @ [?t])) [0..<?n] = map (hop_step x0 ts) [0..<?n]"
    by (rule map_cong [OF refl], rule hop_step_append [OF hop]) simp
  with new hop have plan: "plan_outbound (ep_labeled (label_localname l) ep_any) (hop_target ob) p = lowered x0 (ts @ [?t])"
    by (simp add: plan_outbound_def p lowered_def plan_from_def types del: types_of_simps)
  have fresh: "first_index (TmVar y) (hop_ends ts) = None" if "site x0 ts y = None" for y
    using that by (simp add: site_def split: if_splits)
  have sites: "site x0 (ts @ [?t]) y = (if ob = TmVar y \<and> site x0 ts y = None then Some (SiteStep ?n) else site x0 ts y)" for y
    using hop by (auto simp: site_def first_index_append split: option.splits)
  have "map_of (case ob of TmVar y \<Rightarrow> if bm_contains b y then b else bm_insert y (SiteStep (length (tp_steps p))) b | _ \<Rightarrow> b) =
      site x0 (ts @ [?t])"
    by (rule ext) (auto simp: sites b has n split: sparql_term.splits)
  moreover have "site x0 (ts @ [?t]) y \<noteq> None" if "types_of y (ts @ [?t]) \<noteq> []" for y
    using ty [of y] that sites [of y] by (simp add: types del: types_of_simps)
  ultimately show ?thesis by (simp add: sq_state_of_def plan del: types_of_simps)
qed

lemma compile_triple_iff:
  assumes "sq_state_of x0 ts st"
  shows "triple_ok x0 ts t \<Longrightarrow> \<exists>st'. compile_triple t st = Inr st' \<and> sq_state_of x0 (ts @ [t]) st'"
    "\<not> triple_ok x0 ts t \<Longrightarrow> \<exists>e. compile_triple t st = Inl e"
proof -
  obtain p b where st: "st = (p, b)" by force
  obtain s v ob where t: "t = (s, v, ob)" by (cases t)
  have has: "bm_contains b y \<longleftrightarrow> site x0 ts y \<noteq> None" for y using contains_site [OF assms] st by simp
  show "\<exists>e. compile_triple t st = Inl e" if "\<not> triple_ok x0 ts t"
    using that by (cases s; cases "sq_label v"; cases "sq_label ob")
      (auto simp: st t triple_ok_def compile_triple_def sq_as_var_def has)
  assume ok: "triple_ok x0 ts t"
  then obtain x l where x: "s = TmVar x" "site x0 ts x \<noteq> None" and l: "sq_label v = Some l" and a: "l = ''a'' \<longrightarrow> sq_label ob \<noteq> None"
    by (cases s) (auto simp: t triple_ok_def)
  show "\<exists>st'. compile_triple t st = Inr st' \<and> sq_state_of x0 (ts @ [t]) st'"
  proof (cases "l = ''a''")
    case True
    with a obtain ty where "sq_label ob = Some ty" by blast
    with attach_type_lowered [of x0 ts p b x v ob ty] assms x l True show ?thesis
      by (simp add: st t compile_triple_def sq_as_var_def has del: types_of_simps)
  next
    case False
    with hop_lowered [of x0 ts p b v l s ob] assms x l show ?thesis
      by (simp add: st t compile_triple_def sq_as_var_def has hop_target_def Let_def del: types_of_simps)
  qed
qed

lemma compile_triples_iff:
  assumes "sq_state_of x0 before st"
  shows "triples_ok x0 before ts \<Longrightarrow> \<exists>b. compile_triples ts st = Inr (lowered x0 (before @ ts), b)"
    "\<not> triples_ok x0 before ts \<Longrightarrow> \<exists>e. compile_triples ts st = Inl e"
proof -
  have "(triples_ok x0 before ts \<longrightarrow> (\<exists>b. compile_triples ts st = Inr (lowered x0 (before @ ts), b))) \<and>
      (\<not> triples_ok x0 before ts \<longrightarrow> (\<exists>e. compile_triples ts st = Inl e))"
    using assms
  proof (induction ts arbitrary: before st)
    case Nil
    then show ?case by (cases st) (simp add: sq_state_of_def)
  next
    case (Cons t ts)
    show ?case
    proof (cases "triple_ok x0 before t")
      case True
      from compile_triple_iff(1) [OF Cons.prems True] obtain st' where
        "compile_triple t st = Inr st'" "sq_state_of x0 (before @ [t]) st'" by blast
      with Cons.IH [OF this(2)] True show ?thesis by simp
    next
      case False
      with compile_triple_iff(2) [OF Cons.prems False] show ?thesis by auto
    qed
  qed
  then show "triples_ok x0 before ts \<Longrightarrow> \<exists>b. compile_triples ts st = Inr (lowered x0 (before @ ts), b)"
    "\<not> triples_ok x0 before ts \<Longrightarrow> \<exists>e. compile_triples ts st = Inl e" by blast+
qed

definition block_ok :: "sq_triple list \<Rightarrow> bool" where
  [code_defs]: "block_ok ts \<longleftrightarrow>
     (case ts of [] \<Rightarrow> False | (s, _, _) # _ \<Rightarrow> (case s of TmVar x0 \<Rightarrow> triples_ok x0 [] ts | _ \<Rightarrow> False))"

definition first_var :: "sq_triple list \<Rightarrow> string" where
  [code_defs]: "first_var ts = (case ts of (TmVar x, _, _) # _ \<Rightarrow> x | _ \<Rightarrow> [])"

lemma lower_triples_iff: "lower_triples ts = Inr p \<longleftrightarrow> block_ok ts \<and> p = lowered (first_var ts) ts"
proof -
  have start: "sq_state_of x [] (plan_from (np_set_bind x np_any), bm_insert x SiteSeed [])" for x
    by (simp add: sq_state_of_def lowered_def site_def hop_ends_def np_any_def fun_eq_iff plan_from_def)
  show ?thesis
  proof (cases ts)
    case (Cons t ts')
    obtain s v ob where t: "t = (s, v, ob)" by (cases t)
    show ?thesis
    proof (cases s)
      case (TmVar x)
      with Cons t show ?thesis
        using compile_triples_iff [OF start [of x], of ts]
        by (cases "triples_ok x [] ts") (auto simp: lower_triples_def block_ok_def first_var_def)
    qed (simp_all add: Cons t lower_triples_def block_ok_def)
  qed (simp add: lower_triples_def block_ok_def)
qed

section \<open>The text of a query\<close>

definition sq_show_term :: "sparql_term \<Rightarrow> string" where
  [code_defs]: "sq_show_term t =
     (case t of TmVar x \<Rightarrow> CHR ''?'' # x | TmIri i \<Rightarrow> ''<'' @ i @ ''>'' | TmLocal l \<Rightarrow> CHR '':'' # l)"

definition sq_show_verb :: "sparql_term \<Rightarrow> string" where
  [code_defs]: "sq_show_verb t = (if t = TmLocal ''a'' then ''a'' else sq_show_term t)"

definition sq_show_triple :: "sq_triple \<Rightarrow> string" where
  [code_defs]: "sq_show_triple t =
     (case t of (s, v, ob) \<Rightarrow> sq_show_term s @ '' '' @ sq_show_verb v @ '' '' @ sq_show_term ob @ '' . '')"

definition sq_show :: "string list \<Rightarrow> sq_triple list \<Rightarrow> nat option \<Rightarrow> nat \<Rightarrow> string" where
  [code_defs]: "sq_show cols ts lim off =
     ''SELECT '' @ (if cols = [] then ''* '' else concat (map (\<lambda>x. CHR ''?'' # x @ '' '') cols)) @ ''WHERE { '' @
     concat (map sq_show_triple ts) @ ''}'' @
     (case lim of None \<Rightarrow> [] | Some n \<Rightarrow> '' LIMIT '' @ show_nat n) @ '' OFFSET '' @ show_nat off"

definition sq_term_ok :: "sparql_term \<Rightarrow> bool" where
  [code_defs]: "sq_term_ok t = (case t of TmVar x \<Rightarrow> ident_ok x | TmIri i \<Rightarrow> CHR ''>'' \<notin> set i | TmLocal l \<Rightarrow> ident_ok l)"

definition sq_triple_ok :: "sq_triple \<Rightarrow> bool" where
  [code_defs]: "sq_triple_ok t \<longleftrightarrow> (case t of (s, v, ob) \<Rightarrow> sq_term_ok s \<and> sq_term_ok v \<and> sq_term_ok ob)"

lemma sq_skip_simps [simp]:
  "sq_skip_ws [] = []" "\<not> is_ascii_whitespace c \<Longrightarrow> c \<noteq> CHR ''#'' \<Longrightarrow> sq_skip_ws (c # r) = c # r"
  "sq_skip_ws (CHR '' '' # r) = sq_skip_ws r"
proof -
  show "sq_skip_ws (CHR '' '' # r) = sq_skip_ws r"
    by (subst (1 2) sq_skip_ws.simps) (simp add: is_ascii_whitespace_def)
qed (simp_all add: sq_skip_ws.simps)

lemma sq_marks [simp]: "\<not> is_ascii_whitespace (CHR ''?'')" "\<not> is_ident_continue (CHR ''?'')" "\<not> is_ident_start (CHR ''?'')"
  "\<not> is_ident_start (CHR '':'')" "\<not> is_local_byte (CHR '' '')" "\<not> is_ascii_whitespace (CHR ''a'')" "\<not> is_ascii_whitespace (CHR ''S'')"
  "\<not> is_ascii_whitespace (CHR ''O'')"
  by (simp_all add: code_defs)

lemma ident_hash: "is_ident_start c \<Longrightarrow> c \<noteq> CHR ''#''"
  by (auto simp: code_defs)

lemma sq_ident_here: "ident_ok x \<Longrightarrow> stops r \<Longrightarrow> sq_ident (x @ r) = Inr (x, r)"
proof -
  assume ok: "ident_ok x" "stops r"
  from ident_cons [OF ok(1)] obtain c cs where "x = c # cs" "is_ident_start c" "\<not> is_ascii_whitespace c" .
  with ident_read [OF ok] ident_hash [of c] show ?thesis by (simp add: sq_ident_def)
qed

lemma sq_curie_here: "ident_ok l \<Longrightarrow> sq_curie [] (CHR '':'' # l @ CHR '' '' # r) = Some (TmLocal l, CHR '' '' # r)"
proof -
  assume ok: "ident_ok l"
  from ident_cons [OF ok] obtain c cs where c: "l = c # cs" "is_ident_start c" "\<not> is_ascii_whitespace c" .
  with ok have "list_all is_local_byte cs" by (auto simp: ident_ok_def is_local_byte_def list_all_iff)
  from take_while_stop [OF this, of "CHR '' '' # r"] c show ?thesis by (simp add: sq_curie_def)
qed

lemma sq_term_here: "sq_term_ok t \<Longrightarrow> sq_term [] (sq_show_term t @ CHR '' '' # r) = Inr (t, CHR '' '' # r)"
  by (cases t) (simp_all add: sq_term_ok_def sq_term_def sq_show_term_def sq_var_def sq_ident_here sq_iri_def
      split_once_append sq_curie_here)

lemma sq_term_skip: "sq_term prefixes (CHR '' '' # s) = sq_term prefixes s"
  by (simp add: sq_term_def)

lemma sq_verb_here: "sq_term_ok t \<Longrightarrow> sq_verb [] (CHR '' '' # sq_show_verb t @ CHR '' '' # r) = Inr (t, CHR '' '' # r)"
proof -
  assume ok: "sq_term_ok t"
  show ?thesis
  proof (cases "t = TmLocal ''a''")
    case True
    then show ?thesis using try_keyword_self [of "CHR '' '' # r" "''a''"] by (simp add: sq_verb_def sq_show_verb_def)
  next
    case False
    have k: "try_keyword ''a'' (sq_show_term t @ CHR '' '' # r) = None"
      by (rule try_keyword_other) (cases t; simp add: sq_show_term_def to_ascii_lowercase_def)
    have s: "sq_skip_ws (sq_show_term t @ CHR '' '' # r) = sq_show_term t @ CHR '' '' # r"
      by (cases t) (simp_all add: sq_show_term_def)
    show ?thesis using sq_term_here [OF ok, of r] False k s by (simp add: sq_verb_def sq_show_verb_def)
  qed
qed

lemma sq_triples_here:
  "list_all sq_triple_ok ts \<Longrightarrow> sq_triples [] (CHR '' '' # concat (map sq_show_triple ts) @ CHR ''}'' # r) = Inr (ts, CHR ''}'' # r)"
proof (induction ts)
  case Nil
  then show ?case by (subst sq_triples.simps) simp
next
  case (Cons t ts)
  obtain s v ob where t: "t = (s, v, ob)" by (cases t)
  from Cons.prems have "sq_triple_ok t" and rest: "list_all sq_triple_ok ts" by simp_all
  then have ok: "sq_term_ok s" "sq_term_ok v" "sq_term_ok ob" by (simp_all add: sq_triple_ok_def t)
  have show_t: "sq_show_triple (s, v, ob) = sq_show_term s @ '' '' @ sq_show_verb v @ '' '' @ sq_show_term ob @ '' . ''"
    by (simp add: sq_show_triple_def)
  have front: "sq_skip_ws (sq_show_term s @ q) = sq_show_term s @ q" "take 1 (sq_show_term s @ q) \<noteq> ''}''" for q
    by (cases s; simp add: sq_show_term_def)+
  show ?case
    using Cons.IH [OF rest] ok front
    by (subst sq_triples.simps) (simp add: t show_t sq_term_here sq_verb_here sq_term_skip)
qed

lemma sq_columns_here:
  "list_all ident_ok cols \<Longrightarrow>
     sq_columns (concat (map (\<lambda>x. CHR ''?'' # x @ '' '') cols) @ CHR ''W'' # r) = Inr (cols, CHR ''W'' # r)"
proof (induction cols)
  case Nil
  then show ?case by (subst sq_columns.simps) simp
next
  case (Cons x cols)
  let ?rest = "concat (map (\<lambda>x. CHR ''?'' # x @ '' '') cols) @ CHR ''W'' # r"
  have "sq_columns (CHR '' '' # ?rest) = sq_columns ?rest"
    by (subst (1 2) sq_columns.simps) simp
  with Cons show ?case by (subst sq_columns.simps) (simp add: sq_var_def sq_ident_here)
qed

lemma sq_uint_here: "stops r \<Longrightarrow> n \<le> usize_max \<Longrightarrow> sq_uint (CHR '' '' # show_nat n @ r) = Inr (n, r)"
proof -
  assume r: "stops r" and n: "n \<le> usize_max"
  obtain c cs where c: "show_nat n = c # cs" "is_ascii_digit c" "\<not> is_ascii_whitespace c" by (rule show_nat_front)
  then have "c \<noteq> CHR ''#''" by (auto simp: is_ascii_digit_def)
  with c digits_read [OF r, of n] digits_value_show_nat [of n] n show ?thesis by (simp add: sq_uint_def)
qed

lemma sq_kw_here:
  "try_keyword ''SELECT'' (''SELECT '' @ r) = Some ('' '' @ r)" "try_keyword ''WHERE'' (''WHERE '' @ r) = Some ('' '' @ r)"
  "try_keyword ''OFFSET'' (''OFFSET '' @ r) = Some ('' '' @ r)" "try_keyword ''LIMIT'' (CHR ''O'' # r) = None"
  "try_keyword ''PREFIX'' (CHR ''S'' # r) = None"
  using try_keyword_self [of "'' '' @ r" "''SELECT''"] try_keyword_self [of "'' '' @ r" "''WHERE''"]
    try_keyword_self [of "'' '' @ r" "''OFFSET''"] try_keyword_other [of "CHR ''O'' # r" "CHR ''L''" "''IMIT''"]
    try_keyword_other [of "CHR ''S'' # r" "CHR ''P''" "''REFIX''"]
  by (simp_all add: to_ascii_lowercase_def)

lemma sq_parse_show:
  assumes "list_all ident_ok cols" "list_all sq_triple_ok ts" "pred_option (\<lambda>n. n \<le> usize_max) lim" "off \<le> usize_max"
    "lower_triples ts = Inr p"
  shows "sq_parse (sq_show cols ts lim off) = Inr (p\<lparr>tp_return := cols, tp_skip := off, tp_limit := lim\<rparr>)"
proof -
  let ?mods = "(case lim of None \<Rightarrow> [] | Some n \<Rightarrow> '' LIMIT '' @ show_nat n) @ '' OFFSET '' @ show_nat off"
  let ?body = "CHR '' '' # concat (map sq_show_triple ts) @ CHR ''}'' # ?mods"
  let ?cols = "if cols = [] then ''* '' else concat (map (\<lambda>x. CHR ''?'' # x @ '' '') cols)"
  have pre: "sq_prefixes [] (''SELECT '' @ r) = Inr ([], ''SELECT '' @ r)" for r
    by (subst sq_prefixes.simps) (simp add: sq_kw_here [simplified])
  have sel: "sq_expect_keyword ''SELECT'' (''SELECT '' @ r) = Inr (CHR '' '' # r)" for r
    by (simp add: sq_expect_keyword_def sq_kw_here [simplified])
  have cols: "sq_select (CHR '' '' # ?cols @ ''WHERE {'' @ ?body) =
      Inr (cols, (if cols = [] then '' '' else []) @ ''WHERE {'' @ ?body)"
  proof (cases cols)
    case (Cons x xs)
    have "sq_skip_ws (?cols @ ''WHERE {'' @ ?body) = ?cols @ ''WHERE {'' @ ?body" "take 1 (?cols @ ''WHERE {'' @ ?body) \<noteq> ''*''"
      by (simp_all add: Cons)
    then show ?thesis using sq_columns_here [OF assms(1), of "''HERE {'' @ ?body"] Cons
      by (simp add: sq_select_def)
  qed (simp add: sq_select_def)
  have whr: "sq_expect_keyword ''WHERE'' ((if cols = [] then '' '' else []) @ ''WHERE {'' @ ?body) = Inr ('' {'' @ ?body)"
    by (simp add: sq_expect_keyword_def sq_kw_here [simplified])
  have brace: "sq_expect_char (CHR ''{'') ('' {'' @ ?body) = Inr ?body"
    "sq_expect_char (CHR ''}'') (CHR ''}'' # ?mods) = Inr ?mods"
    by (simp_all add: sq_expect_char_def)
  have trip: "sq_triples [] ?body = Inr (ts, CHR ''}'' # ?mods)" by (rule sq_triples_here [OF assms(2)])
  have off: "sq_uint (CHR '' '' # show_nat off) = Inr (off, [])" using sq_uint_here [of "[]" off] assms(4) by simp
  have mods: "sq_modifiers 2 (None, 0) ?mods = Inr ((lim, off), [])"
  proof (cases lim)
    case None
    have "try_keyword ''LIMIT'' [] = None" "try_keyword ''OFFSET'' [] = None" by (simp_all add: try_keyword_def)
    with None off show ?thesis by (simp add: numeral_2_eq_2 sq_kw_here [simplified])
  next
    case (Some n)
    then have "sq_uint (CHR '' '' # show_nat n @ '' OFFSET '' @ show_nat off) = Inr (n, '' OFFSET '' @ show_nat off)"
      using assms(3) by (intro sq_uint_here) simp_all
    with Some off show ?thesis by (simp add: numeral_2_eq_2 sq_kw_here [simplified] kw_here [simplified])
  qed
  have "sq_query (sq_show cols ts lim off) = Inr (p\<lparr>tp_return := cols, tp_skip := off, tp_limit := lim\<rparr>, [])"
    unfolding sq_query_def sq_show_def
    by (simp only: try_then_simps prod.case append_assoc append_Cons append_Nil
        pre [unfolded append_Cons append_Nil] sel [unfolded append_Cons append_Nil] cols [unfolded append_Cons append_Nil]
        whr [unfolded append_Cons append_Nil] brace [unfolded append_Cons append_Nil] trip [unfolded append_Cons append_Nil]
        mods [unfolded append_Cons append_Nil] assms(5))
  then show ?thesis by (simp add: sq_parse_def)
qed

section \<open>Paths in both languages\<close>

text \<open>A path: the first variable with its types, then edge labels with the next variable and its types.\<close>

type_synonym path_hop = "string \<times> string \<times> string list"

definition typed_var :: "string \<Rightarrow> string list \<Rightarrow> node_pattern" where
  [code_defs]: "typed_var x Ts = NodePattern (Some x) Ts [] None [] []"

definition path_step :: "path_hop \<Rightarrow> traversal_step" where
  [code_defs]: "path_step h =
     (case h of (l, x, Ts) \<Rightarrow> \<lparr>ts_edge = ep_labeled l ep_any, ts_target = typed_var x Ts, ts_outbound = True\<rparr>)"

definition path_plan :: "string \<Rightarrow> string list \<Rightarrow> path_hop list \<Rightarrow> string list \<Rightarrow> nat option \<Rightarrow> traversal_plan" where
  [code_defs]: "path_plan x0 Ts hs cols lim =
     (plan_from (typed_var x0 Ts))\<lparr>tp_steps := map path_step hs, tp_return := cols, tp_limit := lim\<rparr>"

definition type_triples :: "string \<Rightarrow> string list \<Rightarrow> sq_triple list" where
  [code_defs]: "type_triples x Ts = map (\<lambda>ty. (TmVar x, TmLocal ''a'', TmLocal ty)) Ts"

fun hop_triples :: "string \<Rightarrow> path_hop list \<Rightarrow> sq_triple list" where
  "hop_triples prev [] = []"
| "hop_triples prev ((l, x, Ts) # hs) = (TmVar prev, TmLocal l, TmVar x) # type_triples x Ts @ hop_triples x hs"

definition hop_ok :: "path_hop \<Rightarrow> bool" where
  [code_defs]: "hop_ok h \<longleftrightarrow> (case h of (l, x, Ts) \<Rightarrow> ident_ok l \<and> l \<noteq> ''a'' \<and> ident_ok x \<and> list_all ident_ok Ts)"

definition path_ok :: "string \<Rightarrow> string list \<Rightarrow> path_hop list \<Rightarrow> bool" where
  [code_defs]: "path_ok x0 Ts hs \<longleftrightarrow> ident_ok x0 \<and> list_all ident_ok Ts \<and> list_all hop_ok hs \<and>
     distinct (x0 # map (fst \<circ> snd) hs) \<and> (Ts \<noteq> [] \<or> hs \<noteq> [])"

lemma localname_ident [simp]: "ident_ok l \<Longrightarrow> label_localname l = l"
proof -
  assume "ident_ok l"
  then have "\<forall>c \<in> set l. is_ident_continue c"
    by (cases l) (auto simp: ident_ok_def list_all_iff dest: start_continue)
  then have "\<forall>c \<in> set (rev l). c \<notin> {CHR ''#'', CHR ''/'', CHR '':''}"
    using ident_continue_not(2) by (simp only: set_rev) blast
  then have "takeWhile (\<lambda>c. c \<notin> {CHR ''#'', CHR ''/'', CHR '':''}) (rev l) = rev l" by (simp only: takeWhile_eq_all_conv)
  then show ?thesis by (simp only: label_localname_def rev_rev_ident)
qed

lemma compile_triples_append:
  "compile_triples (ts @ us) st = try_then (compile_triples ts st) (compile_triples us)"
proof (induction ts arbitrary: st)
  case (Cons t ts)
  then show ?case by (cases "compile_triple t st") simp_all
qed simp

lemma seed_types:
  assumes "map_of b x = Some SiteSeed" "list_all ident_ok Ts"
  shows "tp_seed p = typed_var x Us \<Longrightarrow>
     compile_triples (type_triples x Ts) (p, b) = Inr (p\<lparr>tp_seed := typed_var x (Us @ Ts)\<rparr>, b)"
  using assms(2)
proof (induction Ts arbitrary: p Us)
  case (Cons T Ts)
  have "bm_contains b x" using assms(1) by (auto simp: bm_contains_iff dest: map_of_SomeD intro: rev_image_eqI)
  with Cons.prems Cons.IH [of "p\<lparr>tp_seed := typed_var x (Us @ [T])\<rparr>" "Us @ [T]"] assms(1) show ?case
    by (simp add: type_triples_def compile_triple_def sq_as_var_def sq_label_def attach_type_def Let_def typed_var_def)
qed (simp add: type_triples_def)

lemma step_types:
  assumes "map_of b x = Some (SiteStep (length sts))" "list_all ident_ok Ts"
  shows "tp_steps p = sts @ [st\<lparr>ts_target := typed_var x Us\<rparr>] \<Longrightarrow>
     compile_triples (type_triples x Ts) (p, b) = Inr (p\<lparr>tp_steps := sts @ [st\<lparr>ts_target := typed_var x (Us @ Ts)\<rparr>]\<rparr>, b)"
  using assms(2)
proof (induction Ts arbitrary: p Us)
  case (Cons T Ts)
  have "bm_contains b x" using assms(1) by (auto simp: bm_contains_iff dest: map_of_SomeD intro: rev_image_eqI)
  with Cons.prems Cons.IH [of "p\<lparr>tp_steps := sts @ [st\<lparr>ts_target := typed_var x (Us @ [T])\<rparr>]\<rparr>" "Us @ [T]"] assms(1) show ?case
    by (simp add: type_triples_def compile_triple_def sq_as_var_def sq_label_def attach_type_def Let_def typed_var_def)
qed (simp add: type_triples_def)

lemma path_hops:
  assumes "list_all hop_ok hs" "distinct (map (fst \<circ> snd) hs)" "bm_contains b prev" "\<forall>x \<in> (fst \<circ> snd) ` set hs. \<not> bm_contains b x"
  shows "\<exists>b'. compile_triples (hop_triples prev hs) (p, b) = Inr (p\<lparr>tp_steps := tp_steps p @ map path_step hs\<rparr>, b')"
  using assms
proof (induction prev hs arbitrary: p b rule: hop_triples.induct)
  case (2 prev l x Ts hs)
  let ?b = "bm_insert x (SiteStep (length (tp_steps p))) b"
  let ?st = "path_step (l, x, [])"
  let ?p = "plan_outbound (ep_labeled l ep_any) (np_set_bind x np_any) p"
  from "2.prems" have l: "ident_ok l" "l \<noteq> ''a''" and Ts: "list_all ident_ok Ts" and x: "\<not> bm_contains b x"
    by (simp_all add: hop_ok_def)
  have hop: "compile_triple (TmVar prev, TmLocal l, TmVar x) (p, b) = Inr (?p, ?b)"
    using l x "2.prems"(3) by (simp add: compile_triple_def sq_as_var_def sq_label_def Let_def)
  have p: "tp_steps ?p = tp_steps p @ [?st\<lparr>ts_target := typed_var x []\<rparr>]"
    by (simp add: plan_outbound_def path_step_def np_any_def typed_var_def)
  have types: "compile_triples (type_triples x Ts) (?p, ?b) = Inr (?p\<lparr>tp_steps := tp_steps p @ [path_step (l, x, Ts)]\<rparr>, ?b)"
    using step_types [where b = ?b and x = x and sts = "tp_steps p" and Ts = Ts and p = ?p and st = ?st and Us = "[]", OF _ Ts p] by (simp add: path_step_def)
  obtain b' where "compile_triples (hop_triples x hs) (?p\<lparr>tp_steps := tp_steps p @ [path_step (l, x, Ts)]\<rparr>, ?b) =
      Inr (?p\<lparr>tp_steps := (tp_steps p @ [path_step (l, x, Ts)]) @ map path_step hs\<rparr>, b')"
    using "2.IH" [of ?b "?p\<lparr>tp_steps := tp_steps p @ [path_step (l, x, Ts)]\<rparr>"] "2.prems" by auto
  with hop types show ?case by (simp add: compile_triples_append) (simp add: plan_outbound_def)
qed simp

lemma lower_path:
  assumes "path_ok x0 Ts hs"
  shows "lower_triples (type_triples x0 Ts @ hop_triples x0 hs) = Inr ((plan_from (typed_var x0 Ts))\<lparr>tp_steps := map path_step hs\<rparr>)"
proof -
  let ?ts = "type_triples x0 Ts @ hop_triples x0 hs" and ?b = "bm_insert x0 SiteSeed []" and ?p = "plan_from (typed_var x0 [])"
  have ok: "list_all ident_ok Ts" "list_all hop_ok hs" "distinct (map (fst \<circ> snd) hs)" "x0 \<notin> (fst \<circ> snd) ` set hs"
    using assms by (simp_all add: path_ok_def)
  have start: "lower_triples ?ts = try_then (compile_triples ?ts (?p, ?b)) (\<lambda>(p, _). Inr p)"
  proof (cases ?ts)
    case Nil
    with assms show ?thesis by (cases hs) (auto simp: path_ok_def type_triples_def)
  next
    case (Cons t ts)
    then have "fst t = TmVar x0" by (cases Ts; cases hs) (auto simp: type_triples_def)
    with Cons show ?thesis by (cases t) (simp add: lower_triples_def np_any_def typed_var_def)
  qed
  have "compile_triples (type_triples x0 Ts) (?p, ?b) = Inr (?p\<lparr>tp_seed := typed_var x0 Ts\<rparr>, ?b)"
    using seed_types [where b = ?b and x = x0 and p = ?p and Us = "[]", OF _ ok(1)] by (simp add: plan_from_def)
  moreover obtain b' where "compile_triples (hop_triples x0 hs) (?p\<lparr>tp_seed := typed_var x0 Ts\<rparr>, ?b) =
      Inr (?p\<lparr>tp_seed := typed_var x0 Ts, tp_steps := map path_step hs\<rparr>, b')"
    using path_hops [OF ok(2,3), of ?b x0 "?p\<lparr>tp_seed := typed_var x0 Ts\<rparr>"] ok(4) by (auto simp: plan_from_def bm_contains_iff)
  ultimately show ?thesis unfolding start by (simp add: compile_triples_append plan_from_def)
qed

text \<open>A dot that ends a triple directly after a local name is read as part of the name.\<close>

lemma dot_swallowed:
  "sq_parse ''SELECT ?a WHERE { ?a a :Org. }'' =
     Inr ((plan_from (NodePattern (Some ''a'') [''Org.''] [] None [] []))\<lparr>tp_return := [''a'']\<rparr>)"
  by code_simp

lemma path_texts:
  assumes "path_ok x0 Ts hs" "cols \<noteq> []" "list_all ident_ok cols" "pred_option (\<lambda>n. n \<le> usize_max) lim"
  shows "sq_parse (sq_show cols (type_triples x0 Ts @ hop_triples x0 hs) lim 0) = Inr (path_plan x0 Ts hs cols lim) \<and>
     cy_parse (cy_show (path_plan x0 Ts hs cols lim) None) = Inr (path_plan x0 Ts hs cols lim)"
proof -
  have typed: "list_all sq_triple_ok (type_triples x Ts)" if "ident_ok x" "list_all ident_ok Ts" for x Ts
    using that by (auto simp: type_triples_def sq_triple_ok_def sq_term_ok_def list_all_iff ident_ok_def is_ident_start_def
        is_ascii_alphabetic_def)
  have "list_all hop_ok hs \<Longrightarrow> ident_ok x \<Longrightarrow> list_all sq_triple_ok (hop_triples x hs)" for x
    by (induction x hs rule: hop_triples.induct) (simp_all add: hop_ok_def typed sq_triple_ok_def sq_term_ok_def)
  with typed assms(1) have "list_all sq_triple_ok (type_triples x0 Ts @ hop_triples x0 hs)" by (simp add: path_ok_def)
  from sq_parse_show [OF assms(3) this assms(4) _ lower_path [OF assms(1)], of 0]
  have "sq_parse (sq_show cols (type_triples x0 Ts @ hop_triples x0 hs) lim 0) = Inr (path_plan x0 Ts hs cols lim)"
    by (simp add: path_plan_def plan_from_def)
  moreover have "cy_plan_ok ascii (path_plan x0 Ts hs cols lim)"
    using assms by (auto simp: cy_plan_ok_def path_plan_def plan_from_def path_ok_def cy_node_ok_def typed_var_def
        cy_props_ok_def list_all_iff path_step_def cy_step_ok_def hop_ok_def ep_labeled_def ep_any_def)
  then have "cy_parse (cy_show (path_plan x0 Ts hs cols lim) None) = Inr (path_plan x0 Ts hs cols lim)"
    using cy_parse_show [of _ None] by (simp add: with_negation_def)
  ultimately show ?thesis by blast
qed

section \<open>Properties\<close>

text \<open>C20: the plan of a block of triples. The lowering succeeds exactly when the block starts at a variable, every subject is
  a variable bound before, no predicate is a variable and no object of \<open>a\<close> is one; then the seed is the first
  variable with all the types stated of it, and the steps are the hops in the order of the triples, each to its
  object, with the types of a variable where it is first bound.\<close>

theorem sparql_lowering:
  "lower_triples ts = Inr p \<longleftrightarrow> block_ok ts \<and> p = lowered (first_var ts) ts"
  by (rule lower_triples_iff)

text \<open>The subject of a hop does not reach the plan: with another bound variable in its place the plan is the same. So a
  star of two edges from one variable is lowered to a path of two edges.\<close>

theorem hop_subject_ignored:
  assumes "block_ok (before @ (TmVar x, v, ob) # after)" "block_ok (before @ (TmVar y, v, ob) # after)"
    "before \<noteq> []" "sq_label v \<noteq> Some ''a''"
  shows "lower_triples (before @ (TmVar x, v, ob) # after) = lower_triples (before @ (TmVar y, v, ob) # after)"
proof -
  let ?x = "before @ (TmVar x, v, ob) # after" and ?y = "before @ (TmVar y, v, ob) # after"
  have split: "ts @ t # us = ts @ [t] @ us" for ts us and t :: sq_triple by simp
  have var: "first_var ?x = first_var ?y"
  proof (cases before)
    case (Cons t ts)
    then show ?thesis by (cases t) (simp add: first_var_def)
  qed (use assms(3) in simp)
  have types: "types_of z ?x = types_of z ?y" for z
    unfolding split types_of_simps using assms(4) by simp
  have ends: "hop_ends ?x = hop_ends ?y" "length (hops ?x) = length (hops ?y)"
    unfolding split hop_ends_simps hops_simps using assms(4) by (simp_all add: is_hop_def)
  have rel: "snd (hops ?x ! i) = snd (hops ?y ! i)" if "i < length (hops ?y)" for i
  proof -
    have "map snd (hops ?x) = map snd (hops ?y)"
      unfolding split hops_simps using assms(4) by (simp add: is_hop_def)
    then show ?thesis using that ends(2) by (metis nth_map)
  qed
  have "hop_step z ?x i = hop_step z ?y i" if "i < length (hops ?y)" for z i
    using rel [OF that] unfolding hop_step_def types ends by (simp add: prod.case_eq_if split: sparql_term.split)
  then have "lowered z ?x = lowered z ?y" for z
    unfolding lowered_def types ends by (simp cong: map_cong)
  with assms(1,2) var lower_triples_iff [of ?x] lower_triples_iff [of ?y] show ?thesis
    by (metis (no_types))
qed

lemma hop_subject_ignored_witness:
  "lower_triples [(TmVar ''a'', TmLocal ''knows'', TmVar ''b''), (TmVar ''a'', TmLocal ''likes'', TmVar ''c'')] =
   lower_triples [(TmVar ''a'', TmLocal ''knows'', TmVar ''b''), (TmVar ''b'', TmLocal ''likes'', TmVar ''c'')]"
proof -
  let ?k = "[(TmVar ''a'', TmLocal ''knows'', TmVar ''b'')]"
  have "block_ok (?k @ (TmVar z, TmLocal ''likes'', TmVar ''c'') # [])" if "z \<in> {''a'', ''b''}" for z
    using that by (auto simp: block_ok_def triple_ok_def site_def hop_ends_def hops_def is_hop_def sq_label_def)
  then show ?thesis
    using hop_subject_ignored [of ?k "''a''" "TmLocal ''likes''" "TmVar ''c''" "[]" "''b''"] by (simp add: sq_label_def)
qed

text \<open>C25: the two query languages agree on paths: the SPARQL text of a path, with distinct variables and labels other than
  \<open>a\<close>, and its Cypher text parse to the same plan.\<close>

theorem query_languages_agree:
  assumes "path_ok x0 Ts hs" "cols \<noteq> []" "list_all ident_ok cols" "pred_option (\<lambda>n. n \<le> usize_max) lim"
  shows "sq_parse (sq_show cols (type_triples x0 Ts @ hop_triples x0 hs) lim 0) = Inr (path_plan x0 Ts hs cols lim) \<and>
     cy_parse (cy_show (path_plan x0 Ts hs cols lim) None) = Inr (path_plan x0 Ts hs cols lim)"
  by (rule path_texts [OF assms])

lemma query_languages_agree_witness:
  "sq_parse ''SELECT ?a ?b WHERE { ?a a :Org . ?a :memberOf ?b . } LIMIT 10 OFFSET 0'' =
     Inr (path_plan ''a'' [''Org''] [(''memberOf'', ''b'', [])] [''a'', ''b''] (Some 10)) \<and>
   cy_parse ''MATCH (a:Org)-[:memberOf]->(b) RETURN a,b LIMIT 10'' =
     Inr (path_plan ''a'' [''Org''] [(''memberOf'', ''b'', [])] [''a'', ''b''] (Some 10))"
proof -
  have "path_ok ''a'' [''Org''] [(''memberOf'', ''b'', [])]" by (simp add: code_defs Let_def)
  moreover have "list_all ident_ok [''a'', ''b'']" "pred_option (\<lambda>n. n \<le> usize_max) (Some 10)" by (simp_all add: code_defs Let_def)
  ultimately show ?thesis
    using query_languages_agree [of "''a''" "[''Org'']" "[(''memberOf'', ''b'', [])]" "[''a'', ''b'']" "Some 10"]
    by (simp add: sq_show_def sq_show_triple_def sq_show_verb_def sq_show_term_def type_triples_def
        cy_show_def cy_show_node_def cy_show_opt_def cy_show_labels_def cy_show_props_def cy_show_step_def
        cy_show_edge_def cy_show_range_def path_plan_def [of "''a''" _ _ _ "Some 10"] plan_from_def typed_var_def path_step_def
        ep_labeled_def ep_any_def show_nat.simps digit_chars)
qed

end
