(* ===== verification/Query_Answers.thy ===== *)
theory Query_Answers
  imports Query_Sparql Mem_Store
begin

text \<open>
  From query text to answers: the parsers of \<open>atomr-ontology-query\<close> composed with \<open>traverse\<close> of the
  store in memory.
\<close>

text \<open>
  The nodes at the end of a path of labelled edges with typed nodes. \<open>path_end True\<close> takes the paths whose hops all
  change node: a step of the store starts with its node marked as visited, so it follows no self-loop.
\<close>

fun path_end :: "bool \<Rightarrow> ontology \<Rightarrow> node_id \<Rightarrow> path_hop list \<Rightarrow> node_id \<Rightarrow> bool" where
  "path_end moving o' a [] n \<longleftrightarrow> n = a"
| "path_end moving o' a ((l, x, Ts) # hs) n \<longleftrightarrow>
     (\<exists>e \<in> set (bm_values (o_edges o')). e_label e = l \<and> e_source e = a \<and> (moving \<longrightarrow> e_target e \<noteq> a) \<and>
        (\<exists>m. ont_node o' (e_target e) = Some m \<and> list_all (has_type m) Ts) \<and> path_end moving o' (e_target e) hs n)"

definition path_ends :: "bool \<Rightarrow> ontology \<Rightarrow> string list \<Rightarrow> path_hop list \<Rightarrow> node_id set" where
  "path_ends moving o' Ts hs =
     {n. \<exists>seed \<in> set (bm_values (o_nodes o')). list_all (has_type seed) Ts \<and> path_end moving o' (n_id seed) hs n}"

lemma path_end_moving: "path_end True o' a hs n \<Longrightarrow> path_end False o' a hs n"
proof (induction hs arbitrary: a)
  case (Cons h hs)
  obtain l x Ts where h: "h = (l, x, Ts)" by (rule prod_cases3)
  then show ?case using Cons by (simp add: h) blast
qed simp

lemma path_end_no_loops:
  assumes "\<forall>e \<in> set (bm_values (o_edges o')). e_label e \<in> fst ` set hs \<longrightarrow> e_source e \<noteq> e_target e"
  shows "path_end True o' a hs n \<longleftrightarrow> path_end False o' a hs n"
  using assms
proof (induction hs arbitrary: a)
  case (Cons h hs)
  obtain l x Ts where h: "h = (l, x, Ts)" by (rule prod_cases3)
  have "path_end True o' b hs n \<longleftrightarrow> path_end False o' b hs n" for b using Cons by auto
  then show ?case using Cons.prems by (auto simp: h; metis)
qed simp

lemma match_typed [simp]: "match_node n (typed_var x Ts) \<longleftrightarrow> list_all (has_type n) Ts"
  by (simp add: typed_var_def)

lemma step_rel_path: "step_rel o' (path_step (l, x, Ts)) =
    {(a, n). \<exists>e \<in> set (bm_values (o_edges o')). e_label e = l \<and> e_source e = a \<and> e_target e = n \<and> n \<noteq> a \<and>
       (\<exists>m. ont_node o' n = Some m \<and> list_all (has_type m) Ts)}"
proof -
  let ?st = "path_step (l, x, Ts)"
  have "target_ok o' ?st n \<longleftrightarrow> (\<exists>m. ont_node o' n = Some m \<and> list_all (has_type m) Ts)" for n
    by (simp add: target_ok_def path_step_def split: option.split)
  moreover have "hop o' ?st = {(e_source e, e_target e) | e. e \<in> set (bm_values (o_edges o')) \<and> e_label e = l}"
    by (simp add: hop_def path_step_def near_end_def far_end_def match_edge_def ep_labeled_def ep_any_def)
  moreover have "ep_repeat (ts_edge ?st) = None" by (simp add: path_step_def ep_labeled_def ep_any_def)
  ultimately show ?thesis using step_rel_single [of ?st o'] by auto
qed

lemma plan_rel_path: "(a, n) \<in> plan_rel o' (map path_step hs) \<longleftrightarrow> path_end True o' a hs n"
proof (induction hs arbitrary: a)
  case (Cons h hs)
  obtain l x Ts where h: "h = (l, x, Ts)" by (rule prod_cases3)
  have "plan_rel o' (map path_step ((l, x, Ts) # hs)) = step_rel o' (path_step (l, x, Ts)) O plan_rel o' (map path_step hs)"
    by (simp add: plan_rel_def)
  with Cons show ?case by (auto simp: h step_rel_path)
qed (auto simp: plan_rel_def)

text \<open>
  C2: a path query, written in either language with identifiers as names, over distinct variables, with labels other than
  the keyword \<open>a\<close> of SPARQL and with the last variable among its columns, binds that variable, run on the store in memory, to
  exactly the nodes at the end of the paths that start at a node with the types of the first variable and whose hops
  all change node. These are ends of paths, and all of them if no edge with a label of the query is a self-loop;
  a hop along a self-loop is never followed.
\<close>

theorem path_query_answers:
  assumes "path_ok x0 Ts hs" "hs = front @ [(l, x, Us)]" "x \<in> set cols" "list_all ident_ok cols"
  shows "(\<exists>plan. sq_parse (sq_show cols (type_triples x0 Ts @ hop_triples x0 hs) None 0) = Inr plan \<and>
       cy_parse (cy_show plan None) = Inr plan \<and>
       (\<lambda>r. map_of (mr_nodes r) x) ` set (traverse s plan) = Some ` path_ends True (ms_ont s) Ts hs) \<and>
     path_ends True (ms_ont s) Ts hs \<subseteq> path_ends False (ms_ont s) Ts hs \<and>
     ((\<forall>e \<in> set (bm_values (o_edges (ms_ont s))). e_label e \<in> fst ` set hs \<longrightarrow> e_source e \<noteq> e_target e) \<longrightarrow>
        path_ends True (ms_ont s) Ts hs = path_ends False (ms_ont s) Ts hs)"
proof (intro conjI impI)
  let ?plan = "path_plan x0 Ts hs cols None"
  have cols: "cols \<noteq> []" using assms(3) by auto
  have texts: "sq_parse (sq_show cols (type_triples x0 Ts @ hop_triples x0 hs) None 0) = Inr ?plan"
    "cy_parse (cy_show ?plan None) = Inr ?plan"
    using path_texts [OF assms(1) cols assms(4), of None] by simp_all
  have "(\<lambda>r. map_of (mr_nodes r) x) ` set (traverse s ?plan) =
      Some ` {n. \<exists>seed \<in> set (bm_values (o_nodes (ms_ont s))). match_node seed (tp_seed ?plan) \<and>
        (n_id seed, n) \<in> plan_rel (ms_ont s) (tp_steps ?plan)}"
    by (rule traverse_reaches [where steps = "map path_step front" and st = "path_step (l, x, Us)"])
      (simp_all add: path_plan_def plan_from_def assms(2,3) path_step_def typed_var_def)
  then have "(\<lambda>r. map_of (mr_nodes r) x) ` set (traverse s ?plan) = Some ` path_ends True (ms_ont s) Ts hs"
    by (simp add: path_plan_def plan_from_def plan_rel_path path_ends_def)
  with texts show "\<exists>plan. sq_parse (sq_show cols (type_triples x0 Ts @ hop_triples x0 hs) None 0) = Inr plan \<and>
      cy_parse (cy_show plan None) = Inr plan \<and> (\<lambda>r. map_of (mr_nodes r) x) ` set (traverse s plan) = Some ` path_ends True (ms_ont s) Ts hs"
    by blast
  show "path_ends True (ms_ont s) Ts hs \<subseteq> path_ends False (ms_ont s) Ts hs" by (auto simp: path_ends_def dest: path_end_moving)
  show "path_ends True (ms_ont s) Ts hs = path_ends False (ms_ont s) Ts hs"
    if "\<forall>e \<in> set (bm_values (o_edges (ms_ont s))). e_label e \<in> fst ` set hs \<longrightarrow> e_source e \<noteq> e_target e"
    by (simp add: path_ends_def path_end_no_loops [OF that])
qed

lemma path_query_answers_witness:
  "\<exists>plan. sq_parse (sq_show [''b''] (type_triples ''a'' [''P''] @ hop_triples ''a'' [(''knows'', ''b'', [])]) None 0) = Inr plan \<and>
     cy_parse (cy_show plan None) = Inr plan \<and>
     (\<lambda>r. map_of (mr_nodes r) ''b'') ` set (traverse (mem_from_ontology ex_graph) plan) = {Some (NodeId [2]), Some (NodeId [3])}"
proof -
  have "path_ok ''a'' [''P''] [(''knows'', ''b'', [])]" "list_all ident_ok [''b'']" by (simp_all add: code_defs Let_def)
  moreover have "path_ends True (ms_ont (mem_from_ontology ex_graph)) [''P''] [(''knows'', ''b'', [])] = {NodeId [2], NodeId [3]}"
    by (auto simp: path_ends_def code_defs)
  ultimately show ?thesis
    using path_query_answers [of "''a''" "[''P'']" "[(''knows'', ''b'', [])]" "[]" "''knows''" "''b''" "[]" "[''b'']"
        "mem_from_ontology ex_graph", THEN conjunct1] by simp
qed

end
