(* ===== verification/Proj_Data.thy ===== *)
theory Proj_Data
  imports Persist_Store Std_Text
begin

text \<open>
  The data of \<open>crates/atomr-ontology-actor-projection/src\<close>: \<open>source.rs\<close> (supervision paths, journal
  events, cursors and the source in memory), \<open>batch.rs\<close>, \<open>error.rs\<close>, \<open>strategy.rs\<close> (minting,
  conflict and schema policies) and \<open>vocab.rs\<close>. \<open>ActorId\<close> is its string. A clock reading is an
  argument; fresh UUIDs are the function \<open>fresh\<close> of the number of ids minted before.
\<close>

section \<open>Supervision paths\<close>

record supervision_path =
  sp_segments :: "string list"
  sp_actor :: string
  sp_attrs :: "(string, json) bmap"

definition sp_new :: "string list \<Rightarrow> string \<Rightarrow> supervision_path" where
  [code_defs]: "sp_new segs actor = \<lparr>sp_segments = segs, sp_actor = actor, sp_attrs = []\<rparr>"

definition last_or_default :: "string list \<Rightarrow> string" where
  [code_defs]: "last_or_default segs = (if segs = [] then [] else last segs)"

definition sp_parse :: "string \<Rightarrow> supervision_path" where
  [code_defs]: "sp_parse path =
     (let segs = str_split (CHR ''/'') path;
          segs = (case segs of s # r \<Rightarrow> if s = [] then r else segs | [] \<Rightarrow> segs)
      in sp_new segs (last_or_default segs))"

definition sp_with_attribute :: "string \<Rightarrow> json \<Rightarrow> supervision_path \<Rightarrow> supervision_path" where
  [code_defs]: "sp_with_attribute k v p = p\<lparr>sp_attrs := bm_insert k v (sp_attrs p)\<rparr>"

definition sp_render :: "supervision_path \<Rightarrow> string" where
  [code_defs]: "sp_render p =
     (let out = concat (map (\<lambda>seg. CHR ''/'' # seg) (sp_segments p)) in if out = [] then ''/'' else out)"

definition iter_segments :: "supervision_path \<Rightarrow> (nat \<times> string) list" where
  [code_defs]: "iter_segments p = enumerate 0 (sp_segments p)"

definition sp_parent :: "supervision_path \<Rightarrow> supervision_path option" where
  [code_defs]: "sp_parent p =
     (if length (sp_segments p) < 2 then None
      else (let segs = butlast (sp_segments p) in Some (sp_new segs (last_or_default segs))))"

text \<open>Rendering after parsing gives a path with its leading slash back.\<close>

lemma render_parse: "sp_render (sp_parse (CHR ''/'' # s)) = CHR ''/'' # s"
  using str_split_join [of "CHR ''/''" s] by (simp add: sp_render_def sp_parse_def sp_new_def Let_def)

lemma parse_render:
  assumes "sp_segments p \<noteq> []" "\<And>a. a \<in> set (sp_segments p) \<Longrightarrow> CHR ''/'' \<notin> set a"
  shows "sp_segments (sp_parse (sp_render p)) = sp_segments p"
proof -
  let ?out = "concat (map (\<lambda>seg. CHR ''/'' # seg) (sp_segments p))"
  obtain r where out: "?out = CHR ''/'' # r" using assms(1) by (cases "sp_segments p") simp_all
  with str_split_concat [OF assms(2,1)] have "str_split (CHR ''/'') r = sp_segments p" by simp
  with out show ?thesis by (simp add: sp_render_def sp_parse_def sp_new_def Let_def)
qed

lemma parent_render: "sp_parent p = Some q \<Longrightarrow> sp_render p = sp_render q @ CHR ''/'' # last (sp_segments p)"
proof -
  assume q: "sp_parent p = Some q"
  then have two: "\<not> length (sp_segments p) < 2" and segs: "sp_segments q = butlast (sp_segments p)"
    by (auto simp: sp_parent_def sp_new_def Let_def split: if_splits)
  from two have p: "sp_segments p = butlast (sp_segments p) @ [last (sp_segments p)]"
    by (cases "sp_segments p") simp_all
  have "butlast (sp_segments p) \<noteq> []" using two by (cases "sp_segments p") auto
  then show ?thesis
    unfolding sp_render_def segs by (subst p) (cases "butlast (sp_segments p)"; simp)
qed

section \<open>Journal, state, batch\<close>

datatype journal_event_kind = KCreated | KStateChanged | KCompleted | KTerminated | KCustom string

record cursor =
  cu_version :: "64 word"
  cu_token :: "string option"

definition cursor_beginning :: cursor where [code_defs]: "cursor_beginning = \<lparr>cu_version = 0, cu_token = None\<rparr>"
definition cursor_at :: "64 word \<Rightarrow> cursor" where [code_defs]: "cursor_at v = \<lparr>cu_version = v, cu_token = None\<rparr>"

record journal_event =
  je_cursor :: cursor
  je_actor :: string
  je_path :: "supervision_path option"
  je_kind :: journal_event_kind
  je_at :: int
  je_payload :: json

definition je_new :: "int \<Rightarrow> cursor \<Rightarrow> string \<Rightarrow> journal_event_kind \<Rightarrow> journal_event" where
  [code_defs]: "je_new now c actor kind =
     \<lparr>je_cursor = c, je_actor = actor, je_path = None, je_kind = kind, je_at = now, je_payload = JNull\<rparr>"

definition je_with_path :: "supervision_path \<Rightarrow> journal_event \<Rightarrow> journal_event" where
  [code_defs]: "je_with_path p e = e\<lparr>je_path := Some p\<rparr>"

definition je_with_payload :: "json \<Rightarrow> journal_event \<Rightarrow> journal_event" where
  [code_defs]: "je_with_payload j e = e\<lparr>je_payload := j\<rparr>"

definition je_set_at :: "int \<Rightarrow> journal_event \<Rightarrow> journal_event" where
  [code_defs]: "je_set_at t e = e\<lparr>je_at := t\<rparr>"

record serialized_state =
  ss_actor :: string
  ss_payload :: json
  ss_digest :: "string option"

definition ss_new :: "string \<Rightarrow> json \<Rightarrow> serialized_state" where
  [code_defs]: "ss_new actor j = \<lparr>ss_actor = actor, ss_payload = j, ss_digest = None\<rparr>"

definition ss_with_digest :: "string \<Rightarrow> serialized_state \<Rightarrow> serialized_state" where
  [code_defs]: "ss_with_digest d s = s\<lparr>ss_digest := Some d\<rparr>"

record actor_batch =
  ab_paths :: "supervision_path list"
  ab_events :: "journal_event list"
  ab_states :: "serialized_state list"
  ab_cursor :: cursor
  ab_origin :: "string option"

definition batch_empty :: actor_batch where
  [code_defs]: "batch_empty =
     \<lparr>ab_paths = [], ab_events = [], ab_states = [], ab_cursor = cursor_beginning, ab_origin = None\<rparr>"

definition batch_is_empty :: "actor_batch \<Rightarrow> bool" where
  [code_defs]: "batch_is_empty b \<longleftrightarrow> ab_paths b = [] \<and> ab_events b = [] \<and> ab_states b = []"

definition batch_with_origin :: "string \<Rightarrow> actor_batch \<Rightarrow> actor_batch" where
  [code_defs]: "batch_with_origin x b = b\<lparr>ab_origin := Some x\<rparr>"

definition batch_with_cursor :: "cursor \<Rightarrow> actor_batch \<Rightarrow> actor_batch" where
  [code_defs]: "batch_with_cursor c b = b\<lparr>ab_cursor := c\<rparr>"

section \<open>Errors\<close>

datatype source_error = SrcIo string | SrcMalformed string | SrcIri iri_error | SrcOther string

datatype ingest_error = InSource source_error | InChannelClosed | InConfiguration string | InOther string

datatype schema_violation = UndeclaredNodeType string | UndeclaredEdgeLabel string

datatype projection_error = PjIri iri_error | PjSchemaViolation schema_violation | PjOther string

datatype projector_error =
    PrSource source_error
  | PrIngest ingest_error
  | PrProjection projection_error
  | PrStore store_error
  | PrConfiguration string

section \<open>The source in memory\<close>

record mem_source =
  so_paths :: "supervision_path list"
  so_journal :: "journal_event list"
  so_states :: "(string, serialized_state) bmap"
  so_cursor :: cursor

definition source_new :: mem_source where
  [code_defs]: "source_new = \<lparr>so_paths = [], so_journal = [], so_states = [], so_cursor = cursor_beginning\<rparr>"

definition push_path :: "supervision_path \<Rightarrow> mem_source \<Rightarrow> mem_source" where
  [code_defs]: "push_path p s = s\<lparr>so_paths := so_paths s @ [p]\<rparr>"

definition push_event :: "journal_event \<Rightarrow> mem_source \<Rightarrow> mem_source" where
  [code_defs]: "push_event e s =
     (let c = (so_cursor s)\<lparr>cu_version := saturating_add1 (cu_version (so_cursor s))\<rparr>
      in s\<lparr>so_cursor := c, so_journal := so_journal s @ [e\<lparr>je_cursor := c\<rparr>]\<rparr>)"

definition put_state :: "serialized_state \<Rightarrow> mem_source \<Rightarrow> mem_source" where
  [code_defs]: "put_state x s = s\<lparr>so_states := bm_insert (ss_actor x) x (so_states s)\<rparr>"

definition event_count :: "mem_source \<Rightarrow> nat" where
  [code_defs]: "event_count s = length (so_journal s)"

definition source_journal :: "cursor \<Rightarrow> mem_source \<Rightarrow> journal_event list" where
  [code_defs]: "source_journal since s = filter (\<lambda>e. cu_version (je_cursor e) > cu_version since) (so_journal s)"

definition source_state :: "string \<Rightarrow> mem_source \<Rightarrow> serialized_state option" where
  [code_defs]: "source_state actor s = map_of (so_states s) actor"

text \<open>
  The versions of a journal that has not reached the last one count its events: event \<open>i\<close> has version
  \<open>i + 1\<close>, and the cursor is the number of events.
\<close>

definition source_wf :: "mem_source \<Rightarrow> bool" where
  "source_wf s \<longleftrightarrow> length (so_journal s) < 2 ^ 64 \<and> unat (cu_version (so_cursor s)) = length (so_journal s) \<and>
     map (\<lambda>e. unat (cu_version (je_cursor e))) (so_journal s) = [1..<Suc (length (so_journal s))]"

lemma source_wf_new [simp]: "source_wf source_new"
  by (simp add: source_wf_def source_new_def cursor_beginning_def)

lemma source_wf_path [simp]: "source_wf (push_path p s) \<longleftrightarrow> source_wf s"
  by (simp add: source_wf_def push_path_def)

lemma source_wf_state [simp]: "source_wf (put_state x s) \<longleftrightarrow> source_wf s"
  by (simp add: source_wf_def put_state_def)

lemma saturating_add1_unat: "Suc (unat v) < 2 ^ 64 \<Longrightarrow> unat (saturating_add1 v) = Suc (unat v)"
proof -
  assume v: "Suc (unat v) < 2 ^ 64"
  then have "v \<noteq> - 1" by (auto simp: unsigned_minus_1_eq_mask mask_eq_exp_minus_1)
  moreover have "unat (v + 1) = Suc (unat v)" using v by (simp add: unat_word_ariths)
  ultimately show ?thesis by (simp add: saturating_add1_def)
qed

lemma source_wf_push: "source_wf s \<Longrightarrow> Suc (length (so_journal s)) < 2 ^ 64 \<Longrightarrow> source_wf (push_event e s)"
  by (simp add: source_wf_def push_event_def Let_def saturating_add1_unat)

end
