(* ===== verification/Proj_Strategy.thy ===== *)
theory Proj_Strategy
  imports Proj_Data
begin

text \<open>
  \<open>strategy.rs\<close> and \<open>vocab.rs\<close> of \<open>crates/atomr-ontology-actor-projection/src\<close>: minting of ids and
  IRIs, conflict resolution, schema policies, and the vocabulary of projected graphs. What comes from
  outside the repository is the record \<open>proj_env\<close>: the hash, fresh UUIDs by the number of ids minted
  before, chrono's RFC 3339 text and the \<open>Debug\<close> text of an optional string.
\<close>

record proj_env =
  env_hash :: hasher
  env_fresh :: "nat \<Rightarrow> bytes"
  env_rfc3339 :: "int \<Rightarrow> string"
  env_debug :: "string option \<Rightarrow> string"

section \<open>Minting\<close>

datatype iri_minting = PathBased iri | ContentAddressed | UuidMinting

definition trim_trailing_slash :: "string \<Rightarrow> string" where
  [code_defs]: "trim_trailing_slash s = (if s \<noteq> [] \<and> last s = CHR ''/'' then butlast s else s)"

fun journal_event_kind_str :: "journal_event_kind \<Rightarrow> string" where
  "journal_event_kind_str KCreated = ''created''"
| "journal_event_kind_str KStateChanged = ''state_changed''"
| "journal_event_kind_str KCompleted = ''completed''"
| "journal_event_kind_str KTerminated = ''terminated''"
| "journal_event_kind_str (KCustom name) = name"

definition address_iri :: "hasher \<Rightarrow> string \<Rightarrow> iri_error + node_id \<times> iri option" where
  [code_defs]: "address_iri H rendered =
     try_then (iri_new rendered) (\<lambda>i. Inr (node_id_content_address H (str_bytes (as_str i)), Some i))"

text \<open>\<open>k\<close> is the number of ids minted before this one.\<close>

definition mint_actor :: "proj_env \<Rightarrow> iri_minting \<Rightarrow> nat \<Rightarrow> supervision_path \<Rightarrow> iri_error + node_id \<times> iri option" where
  [code_defs]: "mint_actor E m k path =
     (case m of
        PathBased base \<Rightarrow> address_iri (env_hash E) (trim_trailing_slash (as_str base) @ sp_render path)
      | ContentAddressed \<Rightarrow> Inr (node_id_content_address (env_hash E) (str_bytes (sp_render path)), None)
      | UuidMinting \<Rightarrow> Inr (node_id_new_random (env_hash E) (env_fresh E k), None))"

definition show_word :: "64 word \<Rightarrow> string" where
  [code_defs]: "show_word v = show_nat (unat v)"

definition mint_event :: "proj_env \<Rightarrow> iri_minting \<Rightarrow> nat \<Rightarrow> journal_event \<Rightarrow> iri_error + node_id \<times> iri option" where
  [code_defs]: "mint_event E m k e =
     (case m of
        PathBased base \<Rightarrow>
          address_iri (env_hash E) (trim_trailing_slash (as_str base) @
            ''/event/'' @ show_word (cu_version (je_cursor e)) @ ''/'' @ je_actor e)
      | ContentAddressed \<Rightarrow>
          Inr (node_id_content_address (env_hash E) (str_bytes (''event:'' @ show_word (cu_version (je_cursor e)) @ '':'' @
            je_actor e @ '':'' @ journal_event_kind_str (je_kind e))), None)
      | UuidMinting \<Rightarrow> Inr (node_id_new_random (env_hash E) (env_fresh E k), None))"

text \<open>Outside \<open>Uuid\<close> the result does not depend on when the id is minted.\<close>

lemma mint_stable: "m \<noteq> UuidMinting \<Longrightarrow> mint_actor E m k p = mint_actor E m 0 p" "m \<noteq> UuidMinting \<Longrightarrow> mint_event E m k e = mint_event E m 0 e"
  by (cases m; simp add: mint_actor_def mint_event_def)+

lemma mint_actor_render: "sp_render p = sp_render q \<Longrightarrow> mint_actor E m k p = mint_actor E m k q"
  by (simp add: mint_actor_def split: iri_minting.split)

section \<open>Conflict resolution\<close>

datatype conflict_resolution = LastWriteWins | MergeNodes | SkipExisting

definition merge_node :: "node \<Rightarrow> node \<Rightarrow> node" where
  [code_defs]: "merge_node prev new =
     prev\<lparr>n_types := n_types prev @ filter (\<lambda>ty. ty \<notin> set (n_types prev)) (n_types new),
          n_props := fold (\<lambda>(k, v). bm_insert k v) (n_props new) (n_props prev),
          n_iri := (if n_iri new \<noteq> None then n_iri new else n_iri prev)\<rparr>"

definition reconcile :: "conflict_resolution \<Rightarrow> node option \<Rightarrow> node \<Rightarrow> node option" where
  [code_defs]: "reconcile c existing new =
     (case c of
        LastWriteWins \<Rightarrow> Some new
      | SkipExisting \<Rightarrow> if existing \<noteq> None then None else Some new
      | MergeNodes \<Rightarrow> (case existing of None \<Rightarrow> Some new | Some prev \<Rightarrow> Some (merge_node prev new)))"

lemma fold_props_get:
  "map_of (fold (\<lambda>(k, v). bm_insert k v) xs m) j =
     (case map_of (rev xs) j of Some v \<Rightarrow> Some v | None \<Rightarrow> map_of m j)"
  by (induction xs arbitrary: m) (auto simp: map_add_def split: option.splits)

lemma bm_wf_rev_get: "bm_wf m \<Longrightarrow> map_of (rev m) j = map_of m j"
  by (metis bm_wf_distinct distinct_rev map_of_inject_set rev_map set_rev)

lemma merge_node_sel:
  "n_id (merge_node prev new) = n_id prev"
  "set (n_types (merge_node prev new)) = set (n_types prev) \<union> set (n_types new)"
  "n_iri (merge_node prev new) = (case n_iri new of None \<Rightarrow> n_iri prev | Some i \<Rightarrow> Some i)"
  by (auto simp: merge_node_def split: option.splits)

lemma merge_node_property:
  "bm_wf (n_props new) \<Longrightarrow> node_property (merge_node prev new) k =
     (case node_property new k of Some v \<Rightarrow> Some v | None \<Rightarrow> node_property prev k)"
  by (simp add: merge_node_def node_property_def fold_props_get bm_wf_rev_get split: option.split)

section \<open>Schema policies\<close>

datatype schema_strategy = FixedSchema schema | InducedSchema | HybridSchema schema

definition baseline :: "schema_strategy \<Rightarrow> schema option" where
  [code_defs]: "baseline st = (case st of FixedSchema s \<Rightarrow> Some s | HybridSchema s \<Rightarrow> Some s | InducedSchema \<Rightarrow> None)"

definition is_strict :: "schema_strategy \<Rightarrow> bool" where
  [code_defs]: "is_strict st \<longleftrightarrow> (case st of FixedSchema _ \<Rightarrow> True | _ \<Rightarrow> False)"

section \<open>Vocabulary\<close>

abbreviation "NODE_ACTOR \<equiv> ''Actor''"
abbreviation "NODE_WORKFLOW \<equiv> ''Workflow''"
abbreviation "NODE_RUN \<equiv> ''Run''"
abbreviation "NODE_STEP \<equiv> ''Step''"
abbreviation "NODE_EVENT \<equiv> ''ActorEvent''"
abbreviation "NODE_STATE \<equiv> ''ActorState''"
abbreviation "NODE_PATH_SEGMENT \<equiv> ''ActorPathSegment''"
abbreviation "NODE_CURSOR \<equiv> ''ActorProjectionCursor''"
abbreviation "EDGE_SUPERVISES \<equiv> ''supervises''"
abbreviation "EDGE_EMITTED \<equiv> ''emitted''"
abbreviation "EDGE_HOLDS_STATE \<equiv> ''holdsState''"
abbreviation "EDGE_SUCCESSOR \<equiv> ''successor''"
abbreviation "PROP_PATH \<equiv> ''path''"
abbreviation "PROP_ACTOR_ID \<equiv> ''actor_id''"
abbreviation "PROP_CURSOR_VERSION \<equiv> ''cursor_version''"
abbreviation "PROP_EVENT_KIND \<equiv> ''event_kind''"
abbreviation "PROP_EVENT_PAYLOAD \<equiv> ''event_payload''"
abbreviation "PROP_EVENT_AT \<equiv> ''event_at''"
abbreviation "PROP_STATE \<equiv> ''state''"
abbreviation "PROP_SOURCE \<equiv> ''source_label''"
abbreviation "PROP_DEPTH \<equiv> ''depth''"
abbreviation "PROP_SEGMENT \<equiv> ''segment''"

definition actor_schema :: schema where
  [code_defs]: "actor_schema =
     (let one = (\<lambda>name desc. \<lparr>pt_name = name, pt_datatype = DString, pt_card = CARD_ONE, pt_iri = None, pt_desc = Some desc\<rparr>);
          s = schema_new;
          s = declare_node_type (nt_new NODE_ACTOR) s;
          s = declare_node_type (nt_with_property (one PROP_PATH ''Supervision path'')
                (nt_with_supertype NODE_ACTOR (nt_new NODE_WORKFLOW))) s;
          s = declare_node_type (nt_with_supertype NODE_ACTOR (nt_new NODE_RUN)) s;
          s = declare_node_type (nt_with_supertype NODE_ACTOR (nt_new NODE_STEP)) s;
          s = declare_node_type (nt_with_supertype NODE_ACTOR (nt_new NODE_PATH_SEGMENT)) s;
          s = declare_node_type (nt_with_property (one PROP_EVENT_KIND ''Journal event classification'') (nt_new NODE_EVENT)) s;
          s = declare_node_type (nt_new NODE_STATE) s;
          s = declare_node_type (nt_new NODE_CURSOR) s;
          s = declare_edge_type (et_with_range NODE_ACTOR (et_with_domain NODE_ACTOR (et_new EDGE_SUPERVISES))) s;
          s = declare_edge_type (et_with_range NODE_EVENT (et_with_domain NODE_ACTOR (et_new EDGE_EMITTED))) s;
          s = declare_edge_type (et_set_functional (et_with_range NODE_STATE (et_with_domain NODE_ACTOR (et_new EDGE_HOLDS_STATE)))) s
      in declare_edge_type (et_with_range NODE_EVENT (et_with_domain NODE_EVENT (et_new EDGE_SUCCESSOR))) s)"

definition type_for_segment :: "nat \<Rightarrow> string \<Rightarrow> string" where
  [code_defs]: "type_for_segment depth segment =
     (if segment = ''workflow'' then NODE_WORKFLOW
      else if segment = ''run'' then NODE_RUN
      else if segment = ''step'' then NODE_STEP
      else NODE_PATH_SEGMENT)"

end
