(* ===== verification/Proj_Project.thy ===== *)
theory Proj_Project
  imports Proj_Strategy "HOL-Library.Product_Lexorder"
begin

text \<open>
  \<open>projection/hierarchical.rs\<close>, \<open>event_stream.rs\<close>, \<open>flat.rs\<close> and \<open>snapshot_diff.rs\<close> of
  \<open>crates/atomr-ontology-actor-projection/src\<close>: the four ways to turn a batch into a delta. A
  projection returns the delta with the number of ids minted so far. \<open>serde_json\<close>'s objects are
  sorted by key.
\<close>

record projection_ctx =
  cx_iri :: iri_minting
  cx_conflict :: conflict_resolution
  cx_schema :: schema_strategy
  cx_label :: string

section \<open>Hierarchical\<close>

definition event_node :: "proj_env \<Rightarrow> projection_ctx \<Rightarrow> journal_event \<Rightarrow> node_id \<Rightarrow> iri option \<Rightarrow> node" where
  [code_defs]: "event_node E cx e i iri =
     (let n = \<lparr>n_id = i, n_iri = iri, n_types = [NODE_EVENT], n_props = []\<rparr>;
          n = node_with_property PROP_EVENT_KIND (PString (journal_event_kind_str (je_kind e))) n;
          n = node_with_property PROP_ACTOR_ID (PString (je_actor e)) n;
          n = node_with_property PROP_CURSOR_VERSION (PInteger (cu_version (je_cursor e))) n;
          n = node_with_property PROP_EVENT_AT (PString (env_rfc3339 E (je_at e))) n;
          n = node_with_property PROP_SOURCE (PString (cx_label cx)) n
      in if je_payload e \<noteq> JNull then node_with_property PROP_EVENT_PAYLOAD (PJson (je_payload e)) n else n)"

definition segment_node ::
    "projection_ctx \<Rightarrow> string \<Rightarrow> nat \<Rightarrow> string \<Rightarrow> (string, json) bmap \<Rightarrow> bool \<Rightarrow> node_id \<Rightarrow> iri option \<Rightarrow> node" where
  [code_defs]: "segment_node cx prefix depth segment attrs is_leaf i iri =
     (let n = \<lparr>n_id = i, n_iri = iri, n_types = [NODE_ACTOR, type_for_segment depth segment], n_props = []\<rparr>;
          n = node_with_property PROP_PATH (PString prefix) n;
          n = node_with_property PROP_SEGMENT (PString segment) n;
          n = node_with_property PROP_DEPTH (PInteger (of_nat depth)) n;
          n = node_with_property PROP_SOURCE (PString (cx_label cx)) n
      in if is_leaf then fold (\<lambda>(k, v). node_with_property k (PJson v)) attrs n else n)"

text \<open>The delta, the ids of path prefixes, the number of ids minted.\<close>

type_synonym hier_state = "delta \<times> (string, node_id) bmap \<times> nat"

text \<open>The loop of \<open>insert_path\<close>: \<open>prefix\<close> and \<open>prev\<close> are its variables.\<close>

fun insert_segments :: "proj_env \<Rightarrow> projection_ctx \<Rightarrow> supervision_path \<Rightarrow> (nat \<times> string) list \<Rightarrow> string \<Rightarrow> node_id option \<Rightarrow>
    hier_state \<Rightarrow> projection_error + hier_state" where
  "insert_segments E cx path [] prefix prev st = Inr st"
| "insert_segments E cx path ((depth, segment) # segs) prefix prev (d, ids, k) =
     (let prefix = prefix @ CHR ''/'' # segment
      in case mint_actor E (cx_iri cx) k (sp_parse prefix) of
           Inl e \<Rightarrow> Inl (PjIri e)
         | Inr (i, iri) \<Rightarrow>
             let is_leaf = (depth + 1 = length (sp_segments path));
                 (d, ids) = (if bm_contains ids prefix then (d, ids)
                   else (delta_with_node (segment_node cx prefix depth segment (sp_attrs path) is_leaf i iri) d,
                         bm_insert prefix i ids));
                 d = (case prev of
                        Some parent \<Rightarrow> delta_with_edge (edge_between (env_hash E) parent EDGE_SUPERVISES i) d
                      | None \<Rightarrow> d)
             in insert_segments E cx path segs prefix (Some i) (d, ids, Suc k))"

definition insert_path :: "proj_env \<Rightarrow> projection_ctx \<Rightarrow> supervision_path \<Rightarrow> hier_state \<Rightarrow> projection_error + hier_state" where
  [code_defs]: "insert_path E cx path st = insert_segments E cx path (iter_segments path) [] None st"

definition hier_event :: "proj_env \<Rightarrow> projection_ctx \<Rightarrow> journal_event \<Rightarrow> hier_state \<Rightarrow> projection_error + hier_state" where
  [code_defs]: "hier_event E cx e st =
     try_then (case je_path e of Some path \<Rightarrow> insert_path E cx path st | None \<Rightarrow> Inr st) (\<lambda>(d, ids, k).
       case mint_event E (cx_iri cx) k e of
         Inl err \<Rightarrow> Inl (PjIri err)
       | Inr (i, iri) \<Rightarrow>
           let d = delta_with_node (event_node E cx e i iri) d;
               d = (case je_path e of
                      None \<Rightarrow> d
                    | Some path \<Rightarrow>
                        (case map_of ids (sp_render path) of
                           Some actor \<Rightarrow> delta_with_edge (edge_between (env_hash E) actor EDGE_EMITTED i) d
                         | None \<Rightarrow> d))
           in Inr (d, ids, Suc k))"

definition ends_with :: "string \<Rightarrow> string \<Rightarrow> bool" where
  [code_defs]: "ends_with s suf \<longleftrightarrow> length suf \<le> length s \<and> drop (length s - length suf) s = suf"

definition state_node :: "projection_ctx \<Rightarrow> serialized_state \<Rightarrow> node_id \<Rightarrow> node" where
  [code_defs]: "state_node cx s i =
     \<lparr>n_id = i, n_iri = None, n_types = [NODE_STATE],
      n_props = bm_insert PROP_SOURCE (PString (cx_label cx))
        (bm_insert PROP_STATE (PJson (ss_payload s)) (bm_insert PROP_ACTOR_ID (PString (ss_actor s)) []))\<rparr>"

definition hier_state_step :: "proj_env \<Rightarrow> projection_ctx \<Rightarrow> serialized_state \<Rightarrow> hier_state \<Rightarrow> hier_state" where
  [code_defs]: "hier_state_step E cx s st =
     (case st of (d, ids, k) \<Rightarrow>
        let i = node_id_content_address (env_hash E) (str_bytes (''state:'' @ ss_actor s));
            d = delta_with_node (state_node cx s i) d;
            d = (case find (\<lambda>(rendered, _). ends_with rendered (CHR ''/'' # ss_actor s)) ids of
                   Some (_, actor) \<Rightarrow> delta_with_edge (edge_between (env_hash E) actor EDGE_HOLDS_STATE i) d
                 | None \<Rightarrow> d)
        in (d, ids, k))"

definition hier_project :: "proj_env \<Rightarrow> projection_ctx \<Rightarrow> actor_batch \<Rightarrow> nat \<Rightarrow> projection_error + delta \<times> nat" where
  [code_defs]: "hier_project E cx b k =
     try_then (try_fold (insert_path E cx) (ab_paths b) (delta_new, [], k)) (\<lambda>st.
     try_then (try_fold (hier_event E cx) (ab_events b) st) (\<lambda>st.
     (case fold (hier_state_step E cx) (ab_states b) st of (d, _, k) \<Rightarrow> Inr (d, k))))"

section \<open>Event stream\<close>

definition stream_event_node :: "proj_env \<Rightarrow> projection_ctx \<Rightarrow> journal_event \<Rightarrow> node_id \<Rightarrow> iri option \<Rightarrow> node" where
  [code_defs]: "stream_event_node E cx e i iri =
     (let n = event_node E cx e i iri
      in case je_path e of Some path \<Rightarrow> node_with_property PROP_PATH (PString (sp_render path)) n | None \<Rightarrow> n)"

fun stream_events :: "proj_env \<Rightarrow> projection_ctx \<Rightarrow> journal_event list \<Rightarrow> node_id option \<Rightarrow> delta \<times> nat \<Rightarrow>
    projection_error + delta \<times> nat" where
  "stream_events E cx [] prev st = Inr st"
| "stream_events E cx (e # es) prev (d, k) =
     (case mint_event E (cx_iri cx) k e of
        Inl err \<Rightarrow> Inl (PjIri err)
      | Inr (i, iri) \<Rightarrow>
          let d = delta_with_node (stream_event_node E cx e i iri) d;
              d = (case prev of
                     Some p \<Rightarrow> delta_with_edge (edge_between (env_hash E) p EDGE_SUCCESSOR i) d
                   | None \<Rightarrow> d)
          in stream_events E cx es (Some i) (d, Suc k))"

definition stream_project :: "proj_env \<Rightarrow> projection_ctx \<Rightarrow> actor_batch \<Rightarrow> nat \<Rightarrow> projection_error + delta \<times> nat" where
  [code_defs]: "stream_project E cx b k = stream_events E cx (ab_events b) None (delta_new, k)"

section \<open>Flat\<close>

record flat_bucket =
  fb_path_count :: "64 word"
  fb_events :: "json list"
  fb_states :: "json list"

definition flat_bucket_default :: flat_bucket where
  [code_defs]: "flat_bucket_default = \<lparr>fb_path_count = 0, fb_events = [], fb_states = []\<rparr>"

fun workflow_run_loop :: "string list \<Rightarrow> string option \<times> string option \<Rightarrow> string option \<times> string option" where
  "workflow_run_loop [] acc = acc"
| "workflow_run_loop [seg] (wfl, run) =
     (if seg = ''workflow'' then (None, run) else if seg = ''run'' then (wfl, None) else (wfl, run))"
| "workflow_run_loop (seg # s # segs) (wfl, run) =
     (if seg = ''workflow'' then workflow_run_loop segs (Some s, run)
      else if seg = ''run'' then workflow_run_loop segs (wfl, Some s)
      else workflow_run_loop (s # segs) (wfl, run))"

definition workflow_run_key :: "supervision_path \<Rightarrow> (string \<times> string) option" where
  [code_defs]: "workflow_run_key path =
     (case workflow_run_loop (sp_segments path) (None, None) of
        (Some w, Some r) \<Rightarrow> Some (w, r)
      | (Some w, None) \<Rightarrow> Some (w, ''<no-run>'')
      | _ \<Rightarrow> None)"

type_synonym buckets = "(string \<times> string, flat_bucket) bmap"

text \<open>\<open>entry(key).or_default()\<close> with an update of the bucket.\<close>

definition bucket_update :: "string \<times> string \<Rightarrow> (flat_bucket \<Rightarrow> flat_bucket) \<Rightarrow> buckets \<Rightarrow> buckets" where
  [code_defs]: "bucket_update key f bs =
     bm_insert key (f (case map_of bs key of Some b \<Rightarrow> b | None \<Rightarrow> flat_bucket_default)) bs"

definition flat_path :: "supervision_path \<Rightarrow> buckets \<Rightarrow> buckets" where
  [code_defs]: "flat_path path bs =
     (case workflow_run_key path of
        Some key \<Rightarrow> bucket_update key (\<lambda>b. b\<lparr>fb_path_count := fb_path_count b + 1\<rparr>) bs
      | None \<Rightarrow> bs)"

definition flat_event_json :: "proj_env \<Rightarrow> journal_event \<Rightarrow> json" where
  [code_defs]: "flat_event_json E e =
     JObject [(''actor'', JString (je_actor e)), (''at'', JString (env_rfc3339 E (je_at e))),
       (''cursor'', JInt (int (unat (cu_version (je_cursor e))))), (''kind'', JString (journal_event_kind_str (je_kind e))),
       (''payload'', je_payload e)]"

definition flat_event :: "proj_env \<Rightarrow> journal_event \<Rightarrow> buckets \<Rightarrow> buckets" where
  [code_defs]: "flat_event E e bs =
     (case Option.bind (je_path e) workflow_run_key of
        Some key \<Rightarrow> bucket_update key (\<lambda>b. b\<lparr>fb_events := fb_events b @ [flat_event_json E e]\<rparr>) bs
      | None \<Rightarrow> bs)"

definition flat_state_json :: "serialized_state \<Rightarrow> json" where
  [code_defs]: "flat_state_json s =
     JObject [(''actor'', JString (ss_actor s)),
       (''digest'', case ss_digest s of None \<Rightarrow> JNull | Some d \<Rightarrow> JString d), (''payload'', ss_payload s)]"

definition flat_state :: "serialized_state \<Rightarrow> buckets \<Rightarrow> buckets" where
  [code_defs]: "flat_state s bs =
     bucket_update (''<unrouted>'', ss_actor s) (\<lambda>b. b\<lparr>fb_states := fb_states b @ [flat_state_json s]\<rparr>) bs"

definition flat_mint :: "proj_env \<Rightarrow> iri_minting \<Rightarrow> string \<Rightarrow> string \<Rightarrow> iri_error + node_id \<times> iri option" where
  [code_defs]: "flat_mint E m wfl run =
     (let by_content = Inr (node_id_content_address (env_hash E) (str_bytes (''flat:'' @ wfl @ '':'' @ run)), None)
      in case m of
           UuidMinting \<Rightarrow> by_content
         | ContentAddressed \<Rightarrow> by_content
         | PathBased base \<Rightarrow>
             address_iri (env_hash E) (trim_trailing_slash (as_str base) @ sp_render (sp_parse (''/'' @ wfl @ ''/'' @ run))))"

definition flat_node :: "projection_ctx \<Rightarrow> string \<Rightarrow> string \<Rightarrow> flat_bucket \<Rightarrow> node_id \<Rightarrow> iri option \<Rightarrow> node" where
  [code_defs]: "flat_node cx wfl run b i iri =
     (let n = \<lparr>n_id = i, n_iri = iri, n_types = [NODE_ACTOR, NODE_RUN], n_props = []\<rparr>;
          n = node_with_property PROP_PATH (PString (sp_render (sp_parse (''/'' @ wfl @ ''/'' @ run)))) n;
          n = node_with_property ''workflow'' (PString wfl) n;
          n = node_with_property ''run'' (PString run) n;
          n = node_with_property PROP_SOURCE (PString (cx_label cx)) n;
          n = node_with_property ''steps'' (PJson (JArray (fb_events b))) n;
          n = node_with_property ''states'' (PJson (JArray (fb_states b))) n
      in node_with_property ''path_count'' (PInteger (fb_path_count b)) n)"

definition flat_bucket_node :: "proj_env \<Rightarrow> projection_ctx \<Rightarrow> (string \<times> string) \<times> flat_bucket \<Rightarrow> delta \<Rightarrow> projection_error + delta" where
  [code_defs]: "flat_bucket_node E cx entry d =
     (case entry of ((wfl, run), b) \<Rightarrow>
        (case flat_mint E (cx_iri cx) wfl run of
           Inl e \<Rightarrow> Inl (PjIri e)
         | Inr (i, iri) \<Rightarrow> Inr (delta_with_node (flat_node cx wfl run b i iri) d)))"

definition flat_buckets :: "proj_env \<Rightarrow> actor_batch \<Rightarrow> buckets" where
  [code_defs]: "flat_buckets E b =
     fold flat_state (ab_states b) (fold (flat_event E) (ab_events b) (fold flat_path (ab_paths b) []))"

definition flat_project :: "proj_env \<Rightarrow> projection_ctx \<Rightarrow> actor_batch \<Rightarrow> nat \<Rightarrow> projection_error + delta \<times> nat" where
  [code_defs]: "flat_project E cx b k =
     try_then (try_fold (flat_bucket_node E cx) (flat_buckets E b) delta_new) (\<lambda>d. Inr (d, k))"

section \<open>Snapshot diff\<close>

text \<open>The sets of what has been projected; they survive a failed call.\<close>

record diff_state =
  df_paths :: "string set"
  df_events :: "(string \<times> 64 word) set"
  df_states :: "(string \<times> string option) set"

definition diff_new :: diff_state where
  [code_defs]: "diff_new = \<lparr>df_paths = {}, df_events = {}, df_states = {}\<rparr>"

definition diff_path_node :: "projection_ctx \<Rightarrow> string \<Rightarrow> node_id \<Rightarrow> iri option \<Rightarrow> node" where
  [code_defs]: "diff_path_node cx key i iri =
     node_with_property PROP_SOURCE (PString (cx_label cx))
       (node_with_property PROP_PATH (PString key) \<lparr>n_id = i, n_iri = iri, n_types = [NODE_ACTOR], n_props = []\<rparr>)"

fun diff_paths :: "proj_env \<Rightarrow> projection_ctx \<Rightarrow> supervision_path list \<Rightarrow> delta \<times> nat \<Rightarrow> diff_state \<Rightarrow>
    (projection_error + delta \<times> nat) \<times> diff_state" where
  "diff_paths E cx [] st seen = (Inr st, seen)"
| "diff_paths E cx (path # paths) (d, k) seen =
     (let key = sp_render path
      in if key \<in> df_paths seen then diff_paths E cx paths (d, k) seen
         else let seen = seen\<lparr>df_paths := insert key (df_paths seen)\<rparr>
              in case mint_actor E (cx_iri cx) k path of
                   Inl e \<Rightarrow> (Inl (PjIri e), seen)
                 | Inr (i, iri) \<Rightarrow> diff_paths E cx paths (delta_with_node (diff_path_node cx key i iri) d, Suc k) seen)"

fun diff_events :: "proj_env \<Rightarrow> projection_ctx \<Rightarrow> journal_event list \<Rightarrow> node_id option \<Rightarrow> delta \<times> nat \<Rightarrow> diff_state \<Rightarrow>
    (projection_error + delta \<times> nat) \<times> diff_state" where
  "diff_events E cx [] prev st seen = (Inr st, seen)"
| "diff_events E cx (e # es) prev (d, k) seen =
     (let key = (je_actor e, cu_version (je_cursor e))
      in if key \<in> df_events seen then diff_events E cx es prev (d, k) seen
         else let seen = seen\<lparr>df_events := insert key (df_events seen)\<rparr>
              in case mint_event E (cx_iri cx) k e of
                   Inl err \<Rightarrow> (Inl (PjIri err), seen)
                 | Inr (i, iri) \<Rightarrow>
                     let d = delta_with_node (event_node E cx e i iri) d;
                         d = (case prev of
                                Some p \<Rightarrow> delta_with_edge (edge_between (env_hash E) p EDGE_SUCCESSOR i) d
                              | None \<Rightarrow> d)
                     in diff_events E cx es (Some i) (d, Suc k) seen)"

definition diff_state_id :: "proj_env \<Rightarrow> serialized_state \<Rightarrow> node_id" where
  [code_defs]: "diff_state_id E s =
     node_id_content_address (env_hash E) (str_bytes (''state:'' @ ss_actor s @ '':'' @ env_debug E (ss_digest s)))"

definition diff_one_state :: "proj_env \<Rightarrow> projection_ctx \<Rightarrow> serialized_state \<Rightarrow> delta \<times> diff_state \<Rightarrow> delta \<times> diff_state" where
  [code_defs]: "diff_one_state E cx s st =
     (case st of (d, seen) \<Rightarrow>
        let key = (ss_actor s, ss_digest s)
        in if key \<in> df_states seen then (d, seen)
           else (delta_with_node (state_node cx s (diff_state_id E s)) d, seen\<lparr>df_states := insert key (df_states seen)\<rparr>))"

definition diff_project :: "proj_env \<Rightarrow> projection_ctx \<Rightarrow> actor_batch \<Rightarrow> nat \<Rightarrow> diff_state \<Rightarrow>
    (projection_error + delta \<times> nat) \<times> diff_state" where
  [code_defs]: "diff_project E cx b k seen =
     (case diff_paths E cx (ab_paths b) (delta_new, k) seen of
        (Inl e, seen) \<Rightarrow> (Inl e, seen)
      | (Inr st, seen) \<Rightarrow>
          (case diff_events E cx (ab_events b) None st seen of
             (Inl e, seen) \<Rightarrow> (Inl e, seen)
           | (Inr (d, k), seen) \<Rightarrow>
               (case fold (diff_one_state E cx) (ab_states b) (d, seen) of (d, seen) \<Rightarrow> (Inr (d, k), seen))))"

section \<open>The tree of a hierarchical projection\<close>

text \<open>The rendered prefixes of a path, longer from one to the next.\<close>

fun prefixes_from :: "string \<Rightarrow> string list \<Rightarrow> string list" where
  "prefixes_from pre [] = []"
| "prefixes_from pre (s # ss) = (pre @ CHR ''/'' # s) # prefixes_from (pre @ CHR ''/'' # s) ss"

definition path_prefixes :: "supervision_path \<Rightarrow> string list" where
  "path_prefixes p = prefixes_from [] (sp_segments p)"

definition consecutive :: "'a list \<Rightarrow> ('a \<times> 'a) set" where
  "consecutive xs = set (zip xs (tl xs))"

definition actor_id :: "proj_env \<Rightarrow> projection_ctx \<Rightarrow> string \<Rightarrow> node_id" where
  "actor_id E cx p = fst (projr (mint_actor E (cx_iri cx) 0 (sp_parse p)))"

definition event_id :: "proj_env \<Rightarrow> projection_ctx \<Rightarrow> journal_event \<Rightarrow> node_id" where
  "event_id E cx e = fst (projr (mint_event E (cx_iri cx) 0 e))"

definition is_actor :: "node \<Rightarrow> bool" where
  "is_actor n \<longleftrightarrow> NODE_ACTOR \<in> set (n_types n)"

definition labelled :: "string \<Rightarrow> delta \<Rightarrow> (node_id \<times> node_id) set" where
  "labelled l d = (\<lambda>e. (e_source e, e_target e)) ` {e \<in> set (d_edges d). e_label e = l}"

definition no_dangling :: "delta \<Rightarrow> bool" where
  "no_dangling d \<longleftrightarrow> (\<forall>e \<in> set (d_edges d). e_source e \<in> n_id ` set (d_nodes d) \<and> e_target e \<in> n_id ` set (d_nodes d))"

text \<open>
  After inserting paths with prefixes \<open>P\<close> and consecutive pairs \<open>S\<close>, and events with emissions \<open>M\<close>.
\<close>

definition actors_are :: "(string \<Rightarrow> node_id) \<Rightarrow> string set \<Rightarrow> delta \<Rightarrow> bool" where
  "actors_are aid P d \<longleftrightarrow>
     (\<exists>ps. distinct ps \<and> set ps = P \<and> map n_id (filter is_actor (d_nodes d)) = map aid ps)"

definition tree_ok :: "(string \<Rightarrow> node_id) \<Rightarrow> string set \<Rightarrow> (string \<times> string) set \<Rightarrow> (node_id \<times> node_id) set \<Rightarrow>
    delta \<Rightarrow> (string, node_id) bmap \<Rightarrow> bool" where
  "tree_ok aid P S M d ids \<longleftrightarrow>
     actors_are aid P d \<and> bm_wf ids \<and> (\<forall>p. map_of ids p = (if p \<in> P then Some (aid p) else None)) \<and>
     labelled EDGE_SUPERVISES d = map_prod aid aid ` S \<and> labelled EDGE_EMITTED d = M \<and> no_dangling d"

lemma tree_ok_new: "tree_ok aid {} {} {} delta_new []"
  by (simp add: tree_ok_def delta_new_def labelled_def no_dangling_def actors_are_def)

lemma actors_are_with [simp]:
  "actors_are aid P (delta_with_edge e d) \<longleftrightarrow> actors_are aid P d"
  "\<not> is_actor n \<Longrightarrow> actors_are aid P (delta_with_node n d) \<longleftrightarrow> actors_are aid P d"
  by (simp_all add: actors_are_def delta_with_edge_def delta_with_node_def)

lemma actors_are_insert:
  "actors_are aid P d \<Longrightarrow> p \<notin> P \<Longrightarrow> is_actor n \<Longrightarrow> n_id n = aid p \<Longrightarrow> actors_are aid (insert p P) (delta_with_node n d)"
proof -
  assume "actors_are aid P d" and new: "p \<notin> P" "is_actor n" "n_id n = aid p"
  then obtain ps where "distinct ps" "set ps = P" "map n_id (filter is_actor (d_nodes d)) = map aid ps"
    by (auto simp: actors_are_def)
  with new show ?thesis
    unfolding actors_are_def by (intro exI [of _ "ps @ [p]"]) (simp add: delta_with_node_def)
qed

lemma actors_are_id: "actors_are aid P d \<Longrightarrow> p \<in> P \<Longrightarrow> aid p \<in> n_id ` set (d_nodes d)"
proof -
  assume "actors_are aid P d" "p \<in> P"
  then obtain ps where "p \<in> set ps" and ps: "map n_id (filter is_actor (d_nodes d)) = map aid ps"
    by (auto simp: actors_are_def)
  then have "aid p \<in> set (map aid ps)" by simp
  then show ?thesis unfolding ps [symmetric] by auto
qed

lemma tree_ok_keys: "tree_ok aid P S M d ids \<Longrightarrow> bm_contains ids p \<longleftrightarrow> p \<in> P"
  using map_of_eq_None_iff [of ids p] by (simp add: tree_ok_def bm_contains_iff split: if_splits)

lemma labelled_with [simp]:
  "labelled l (delta_with_node n d) = labelled l d"
  "labelled l (delta_with_edge e d) = (if e_label e = l then insert (e_source e, e_target e) (labelled l d) else labelled l d)"
  by (auto simp: labelled_def delta_with_node_def delta_with_edge_def)

lemma no_dangling_with:
  "no_dangling d \<Longrightarrow> no_dangling (delta_with_node n d)"
  "no_dangling d \<Longrightarrow> e_source e \<in> n_id ` set (d_nodes d) \<Longrightarrow> e_target e \<in> n_id ` set (d_nodes d) \<Longrightarrow>
     no_dangling (delta_with_edge e d)"
  by (auto simp: no_dangling_def delta_with_node_def delta_with_edge_def)

lemma delta_with_node_nodes [simp]: "set (d_nodes (delta_with_node n d)) = insert n (set (d_nodes d))"
  and delta_with_edge_nodes [simp]: "d_nodes (delta_with_edge e d) = d_nodes d"
  by (simp_all add: delta_with_node_def delta_with_edge_def)

lemma tree_ok_actor:
  "tree_ok aid P S M d ids \<Longrightarrow> p \<notin> P \<Longrightarrow> is_actor n \<Longrightarrow> n_id n = aid p \<Longrightarrow>
     tree_ok aid (insert p P) S M (delta_with_node n d) (bm_insert p (aid p) ids)"
  by (simp add: tree_ok_def actors_are_insert no_dangling_with)

lemma tree_ok_other_node:
  "tree_ok aid P S M d ids \<Longrightarrow> \<not> is_actor n \<Longrightarrow> tree_ok aid P S M (delta_with_node n d) ids"
  by (simp add: tree_ok_def no_dangling_with)

lemma tree_ok_supervises:
  "tree_ok aid P S M d ids \<Longrightarrow> p \<in> P \<Longrightarrow> q \<in> P \<Longrightarrow>
     tree_ok aid P (insert (p, q) S) M (delta_with_edge (edge_between H (aid p) EDGE_SUPERVISES (aid q)) d) ids"
  by (auto simp: tree_ok_def intro!: no_dangling_with(2) intro: actors_are_id)

lemma tree_ok_emitted:
  "tree_ok aid P S M d ids \<Longrightarrow> p \<in> P \<Longrightarrow> i \<in> n_id ` set (d_nodes d) \<Longrightarrow>
     tree_ok aid P S (insert (aid p, i) M) (delta_with_edge (edge_between H (aid p) EDGE_EMITTED i) d) ids"
  by (auto simp: tree_ok_def intro!: no_dangling_with(2) intro: actors_are_id)

lemma tree_ok_holds:
  "tree_ok aid P S M d ids \<Longrightarrow> p \<in> P \<Longrightarrow> i \<in> n_id ` set (d_nodes d) \<Longrightarrow>
     tree_ok aid P S M (delta_with_edge (edge_between H (aid p) EDGE_HOLDS_STATE i) d) ids"
  by (auto simp: tree_ok_def intro!: no_dangling_with(2) intro: actors_are_id)

text \<open>The node constructors: whose types they have, and that properties do not change ids.\<close>

lemma fold_with_property:
  "n_id (fold (\<lambda>(k, v). node_with_property k (g v)) ps n) = n_id n \<and>
   n_types (fold (\<lambda>(k, v). node_with_property k (g v)) ps n) = n_types n"
  by (induction ps arbitrary: n) (auto simp: node_with_property_def)

lemma segment_node_sel [simp]:
  "n_id (segment_node cx prefix depth seg attrs leaf i iri) = i" "is_actor (segment_node cx prefix depth seg attrs leaf i iri)"
  by (simp_all add: segment_node_def is_actor_def Let_def fold_with_property) (simp_all add: node_with_property_def)

lemma event_node_sel [simp]: "n_id (event_node E cx e i iri) = i" "\<not> is_actor (event_node E cx e i iri)"
  by (simp_all add: event_node_def is_actor_def Let_def node_with_property_def)

lemma state_node_sel [simp]: "n_id (state_node cx s i) = i" "\<not> is_actor (state_node cx s i)"
  by (simp_all add: state_node_def is_actor_def)

lemma insert_segments_tree:
  assumes "cx_iri cx \<noteq> UuidMinting"
  shows "insert_segments E cx path segs prefix prev (d, ids, k) = Inr (d', ids', k') \<Longrightarrow>
    tree_ok (actor_id E cx) P S M d ids \<Longrightarrow>
    (prev = None \<and> anc = [] \<or> prev = Some (actor_id E cx prefix) \<and> anc = [prefix] \<and> prefix \<in> P) \<Longrightarrow>
    tree_ok (actor_id E cx) (P \<union> set (prefixes_from prefix (map snd segs)))
      (S \<union> consecutive (anc @ prefixes_from prefix (map snd segs))) M d' ids'"
proof (induction segs arbitrary: prefix prev d ids k P S anc)
  case Nil
  then show ?case by (auto simp: consecutive_def)
next
  case (Cons ds segs)
  obtain depth seg where ds: "ds = (depth, seg)" by force
  let ?p = "prefix @ CHR ''/'' # seg"
  from Cons.prems(1) obtain i iri where mint: "mint_actor E (cx_iri cx) k (sp_parse ?p) = Inr (i, iri)"
    by (cases "mint_actor E (cx_iri cx) k (sp_parse ?p)") (auto simp: ds Let_def)
  then have i: "i = actor_id E cx ?p" using assms mint_stable(1) [of "cx_iri cx" E k] by (simp add: actor_id_def)
  let ?n = "segment_node cx ?p depth seg (sp_attrs path) (depth + 1 = length (sp_segments path)) i iri"
  define d1 where "d1 = (if bm_contains ids ?p then d else delta_with_node ?n d)"
  define ids1 where "ids1 = (if bm_contains ids ?p then ids else bm_insert ?p i ids)"
  define d2 where "d2 = (case prev of Some parent \<Rightarrow> delta_with_edge (edge_between (env_hash E) parent EDGE_SUPERVISES i) d1
     | None \<Rightarrow> d1)"
  have 1: "tree_ok (actor_id E cx) (insert ?p P) S M d1 ids1"
    using Cons.prems(2) i by (auto simp: d1_def ids1_def tree_ok_keys insert_absorb intro!: tree_ok_actor)
  have 2: "tree_ok (actor_id E cx) (insert ?p P) (S \<union> consecutive (anc @ [?p])) M d2 ids1"
    using Cons.prems(3) 1 i tree_ok_supervises [OF 1, of prefix ?p "env_hash E"] by (auto simp: d2_def consecutive_def)
  have "insert_segments E cx path segs ?p (Some i) (d2, ids1, Suc k) = Inr (d', ids', k')"
    using Cons.prems(1) mint by (cases prev) (auto simp: ds Let_def d2_def d1_def ids1_def split: if_splits)
  from Cons.IH [OF this 2, of "[?p]"] i
  have "tree_ok (actor_id E cx) (insert ?p P \<union> set (prefixes_from ?p (map snd segs)))
      (S \<union> consecutive (anc @ [?p]) \<union> consecutive ([?p] @ prefixes_from ?p (map snd segs))) M d' ids'"
    by simp
  moreover have "consecutive (anc @ [?p]) \<union> consecutive ([?p] @ prefixes_from ?p (map snd segs)) =
      consecutive (anc @ ?p # prefixes_from ?p (map snd segs))"
    using Cons.prems(3) by (auto simp: consecutive_def)
  ultimately show ?case by (simp add: ds Un_assoc)
qed

definition batch_paths :: "actor_batch \<Rightarrow> supervision_path list" where
  "batch_paths b = ab_paths b @ List.map_filter je_path (ab_events b)"

definition prefixes_of :: "supervision_path list \<Rightarrow> string set" where
  "prefixes_of ps = (\<Union>p \<in> set ps. set (path_prefixes p))"

definition steps_of :: "supervision_path list \<Rightarrow> (string \<times> string) set" where
  "steps_of ps = (\<Union>p \<in> set ps. consecutive (path_prefixes p))"

definition emissions :: "proj_env \<Rightarrow> projection_ctx \<Rightarrow> journal_event list \<Rightarrow> (node_id \<times> node_id) set" where
  "emissions E cx es = {(actor_id E cx (sp_render p), event_id E cx e) | e p. e \<in> set es \<and> je_path e = Some p}"

lemma prefixes_steps_simps [simp]:
  "prefixes_of [] = {}" "prefixes_of (ps @ qs) = prefixes_of ps \<union> prefixes_of qs"
  "prefixes_of (p # ps) = set (path_prefixes p) \<union> prefixes_of ps"
  "steps_of [] = {}" "steps_of (ps @ qs) = steps_of ps \<union> steps_of qs"
  "steps_of (p # ps) = consecutive (path_prefixes p) \<union> steps_of ps"
  by (auto simp: prefixes_of_def steps_of_def)

lemma emissions_simps [simp]:
  "emissions E cx [] = {}"
  "emissions E cx (e # es) = (case je_path e of
      Some p \<Rightarrow> {(actor_id E cx (sp_render p), event_id E cx e)} | None \<Rightarrow> {}) \<union> emissions E cx es"
  by (auto simp: emissions_def split: option.splits)

lemma insert_path_tree:
  "cx_iri cx \<noteq> UuidMinting \<Longrightarrow> insert_path E cx path (d, ids, k) = Inr (d', ids', k') \<Longrightarrow>
   tree_ok (actor_id E cx) P S M d ids \<Longrightarrow>
   tree_ok (actor_id E cx) (P \<union> set (path_prefixes path)) (S \<union> consecutive (path_prefixes path)) M d' ids'"
  using insert_segments_tree [of cx E path "iter_segments path" "[]" None d ids k d' ids' k' P S M "[]"]
  by (simp add: insert_path_def path_prefixes_def iter_segments_def)

text \<open>The whole path is its last prefix.\<close>

lemma prefixes_from_last:
  "ss \<noteq> [] \<Longrightarrow> pre @ concat (map (\<lambda>s. CHR ''/'' # s) ss) \<in> set (prefixes_from pre ss)"
proof (induction pre ss rule: prefixes_from.induct)
  case (2 pre s ss)
  then show ?case by (cases "ss = []") (auto simp: append_assoc)
qed simp

lemma render_prefix: "sp_segments p \<noteq> [] \<Longrightarrow> sp_render p \<in> set (path_prefixes p)"
  using prefixes_from_last [of "sp_segments p" "[]"] by (auto simp: sp_render_def path_prefixes_def Let_def neq_Nil_conv)

lemma hier_event_tree:
  assumes "cx_iri cx \<noteq> UuidMinting" "hier_event E cx e (d, ids, k) = Inr (d', ids', k')"
    and ok: "tree_ok (actor_id E cx) P S M d ids" and ne: "\<And>p. je_path e = Some p \<Longrightarrow> sp_segments p \<noteq> []"
  defines "ps \<equiv> List.map_filter je_path [e]"
  shows "tree_ok (actor_id E cx) (P \<union> prefixes_of ps) (S \<union> steps_of ps) (M \<union> emissions E cx [e]) d' ids'"
proof (cases "je_path e")
  case None
  with assms(2) obtain i iri where "d' = delta_with_node (event_node E cx e i iri) d" "ids' = ids"
    by (auto simp: hier_event_def Let_def split: sum.splits)
  with ok None show ?thesis by (simp add: tree_ok_other_node ps_def List.map_filter_def)
next
  case (Some p)
  with assms(2) obtain d1 ids1 k1 where ins: "insert_path E cx p (d, ids, k) = Inr (d1, ids1, k1)"
    by (cases "insert_path E cx p (d, ids, k)") (auto simp: hier_event_def)
  with Some assms(2) obtain i iri where mint: "mint_event E (cx_iri cx) k1 e = Inr (i, iri)"
    by (cases "mint_event E (cx_iri cx) k1 e") (auto simp: hier_event_def)
  then have i: "i = event_id E cx e" using assms(1) mint_stable(2) [of "cx_iri cx" E k1] by (simp add: event_id_def)
  let ?P = "P \<union> set (path_prefixes p)"
  have "tree_ok (actor_id E cx) ?P (S \<union> consecutive (path_prefixes p)) M d1 ids1"
    by (rule insert_path_tree [OF assms(1) ins ok])
  then have 1: "tree_ok (actor_id E cx) ?P (S \<union> consecutive (path_prefixes p)) M (delta_with_node (event_node E cx e i iri) d1) ids1"
    by (simp add: tree_ok_other_node)
  have r: "sp_render p \<in> ?P" using render_prefix ne [OF Some] by blast
  with 1 have "map_of ids1 (sp_render p) = Some (actor_id E cx (sp_render p))" by (simp add: tree_ok_def)
  with Some assms(2) ins mint have "d' = delta_with_edge (edge_between (env_hash E) (actor_id E cx (sp_render p)) EDGE_EMITTED i)
      (delta_with_node (event_node E cx e i iri) d1)" "ids' = ids1"
    by (auto simp: hier_event_def Let_def)
  with tree_ok_emitted [OF 1 r, of i] i Some show ?thesis by (simp add: ps_def List.map_filter_def)
qed

lemma hier_paths_tree:
  "cx_iri cx \<noteq> UuidMinting \<Longrightarrow> try_fold (insert_path E cx) ps (d, ids, k) = Inr (d', ids', k') \<Longrightarrow>
   tree_ok (actor_id E cx) P S M d ids \<Longrightarrow>
   tree_ok (actor_id E cx) (P \<union> prefixes_of ps) (S \<union> steps_of ps) M d' ids'"
proof (induction ps arbitrary: d ids k P S)
  case (Cons p ps)
  then obtain d1 ids1 k1 where "insert_path E cx p (d, ids, k) = Inr (d1, ids1, k1)"
      "try_fold (insert_path E cx) ps (d1, ids1, k1) = Inr (d', ids', k')"
    by (auto split: sum.splits)
  with Cons.IH [OF Cons.prems(1) _ insert_path_tree] Cons.prems show ?case by (simp add: Un_assoc)
qed simp

lemma hier_events_tree:
  "cx_iri cx \<noteq> UuidMinting \<Longrightarrow> try_fold (hier_event E cx) es (d, ids, k) = Inr (d', ids', k') \<Longrightarrow>
   (\<And>e p. e \<in> set es \<Longrightarrow> je_path e = Some p \<Longrightarrow> sp_segments p \<noteq> []) \<Longrightarrow>
   tree_ok (actor_id E cx) P S M d ids \<Longrightarrow>
   tree_ok (actor_id E cx) (P \<union> prefixes_of (List.map_filter je_path es)) (S \<union> steps_of (List.map_filter je_path es))
     (M \<union> emissions E cx es) d' ids'"
proof (induction es arbitrary: d ids k P S M)
  case (Cons e es)
  from Cons.prems(2) obtain d1 ids1 k1 where 1: "hier_event E cx e (d, ids, k) = Inr (d1, ids1, k1)"
      "try_fold (hier_event E cx) es (d1, ids1, k1) = Inr (d', ids', k')"
    by (auto split: sum.splits)
  have split: "List.map_filter je_path (e # es) = List.map_filter je_path [e] @ List.map_filter je_path es"
    by (simp add: List.map_filter_def)
  have emit: "emissions E cx (e # es) = emissions E cx [e] \<union> emissions E cx es" by simp
  have ne: "\<And>x p. x \<in> set es \<Longrightarrow> je_path x = Some p \<Longrightarrow> sp_segments p \<noteq> []"
    "\<And>p. je_path e = Some p \<Longrightarrow> sp_segments p \<noteq> []" using Cons.prems(3) by auto
  from Cons.IH [OF Cons.prems(1) 1(2) ne(1) hier_event_tree [OF Cons.prems(1) 1(1) Cons.prems(4) ne(2)]]
  show ?case unfolding split emit prefixes_steps_simps by (simp only: Un_assoc)
qed (simp add: List.map_filter_def)

lemma hier_state_tree:
  "tree_ok aid P S M d ids \<Longrightarrow> hier_state_step E cx s (d, ids, k) = (d', ids', k') \<Longrightarrow> tree_ok aid P S M d' ids' \<and> ids' = ids"
proof -
  assume ok: "tree_ok aid P S M d ids" and step: "hier_state_step E cx s (d, ids, k) = (d', ids', k')"
  let ?i = "node_id_content_address (env_hash E) (str_bytes (''state:'' @ ss_actor s))"
  let ?d = "delta_with_node (state_node cx s ?i) d"
  have 1: "tree_ok aid P S M ?d ids" using ok by (simp add: tree_ok_other_node)
  show ?thesis
  proof (cases "find (\<lambda>(rendered, _). ends_with rendered (CHR ''/'' # ss_actor s)) ids")
    case None
    with 1 step show ?thesis by (auto simp: hier_state_step_def Let_def)
  next
    case (Some pa)
    obtain p a where pa: "pa = (p, a)" by force
    with Some have "(p, a) \<in> set ids" using find_Some_iff [of _ ids pa] by (metis nth_mem)
    with ok have p: "p \<in> P" "a = aid p" by (auto simp: tree_ok_def bm_set_iff split: if_splits)
    from tree_ok_holds [OF 1 p(1), of ?i] have
      "tree_ok aid P S M (delta_with_edge (edge_between (env_hash E) (aid p) EDGE_HOLDS_STATE ?i) ?d) ids" by simp
    with step Some p show ?thesis by (auto simp: hier_state_step_def Let_def pa)
  qed
qed

lemma hier_states_tree:
  "tree_ok aid P S M d ids \<Longrightarrow> fold (hier_state_step E cx) ss (d, ids, k) = (d', ids', k') \<Longrightarrow> tree_ok aid P S M d' ids'"
proof (induction ss arbitrary: d ids k)
  case (Cons s ss)
  obtain d1 ids1 k1 where 1: "hier_state_step E cx s (d, ids, k) = (d1, ids1, k1)" by (metis prod_cases3)
  with hier_state_tree [OF Cons.prems(1) 1] Cons.IH [of d1 ids1 k1] Cons.prems(2) show ?case by auto
qed simp

lemma hier_project_tree:
  assumes "hier_project E cx b k = Inr (d, k')" "cx_iri cx \<noteq> UuidMinting"
    and "\<And>e p. e \<in> set (ab_events b) \<Longrightarrow> je_path e = Some p \<Longrightarrow> sp_segments p \<noteq> []"
  obtains ids where
    "tree_ok (actor_id E cx) (prefixes_of (batch_paths b)) (steps_of (batch_paths b)) (emissions E cx (ab_events b)) d ids"
proof -
  from assms(1) obtain d1 ids1 k1 where 1: "try_fold (insert_path E cx) (ab_paths b) (delta_new, [], k) = Inr (d1, ids1, k1)"
    by (cases "try_fold (insert_path E cx) (ab_paths b) (delta_new, [], k)") (auto simp: hier_project_def)
  with assms(1) obtain d2 ids2 k2 where 2: "try_fold (hier_event E cx) (ab_events b) (d1, ids1, k1) = Inr (d2, ids2, k2)"
    by (cases "try_fold (hier_event E cx) (ab_events b) (d1, ids1, k1)") (auto simp: hier_project_def)
  from 1 2 assms(1) obtain ids' where 3: "fold (hier_state_step E cx) (ab_states b) (d2, ids2, k2) = (d, ids', k')"
    by (auto simp: hier_project_def split: prod.splits)
  from hier_states_tree [OF hier_events_tree [OF assms(2) 2 assms(3) hier_paths_tree [OF assms(2) 1 tree_ok_new]] 3]
  have "tree_ok (actor_id E cx) (prefixes_of (batch_paths b)) (steps_of (batch_paths b)) (emissions E cx (ab_events b)) d ids'"
    by (simp add: batch_paths_def)
  with that show ?thesis by blast
qed

section \<open>What a snapshot diff projects\<close>

text \<open>The elements whose key is neither in \<open>S\<close> nor the key of an earlier element.\<close>

fun fresh_by :: "('a \<Rightarrow> 'k) \<Rightarrow> 'k set \<Rightarrow> 'a list \<Rightarrow> 'a list" where
  "fresh_by key S [] = []"
| "fresh_by key S (x # xs) = (if key x \<in> S then fresh_by key S xs else x # fresh_by key (insert (key x) S) xs)"

lemma fresh_by_append: "fresh_by key S (xs @ ys) = fresh_by key S xs @ fresh_by key (S \<union> key ` set xs) ys"
  by (induction xs arbitrary: S) (simp_all add: insert_absorb)

lemma fresh_by_keys: "key ` set (fresh_by key S xs) = key ` set xs - S \<and> distinct (map key (fresh_by key S xs))"
proof (induction xs arbitrary: S)
  case (Cons x xs)
  show ?case using Cons [of S] Cons [of "insert (key x) S"] by auto
qed simp

definition of_type :: "string \<Rightarrow> delta \<Rightarrow> node list" where
  "of_type ty d = filter (\<lambda>n. ty \<in> set (n_types n)) (d_nodes d)"

lemma of_type_with [simp]:
  "of_type ty (delta_with_node n d) = of_type ty d @ (if ty \<in> set (n_types n) then [n] else [])"
  "of_type ty (delta_with_edge e d) = of_type ty d" "of_type ty delta_new = []"
  by (simp_all add: of_type_def delta_with_node_def delta_with_edge_def delta_new_def)

definition event_key :: "journal_event \<Rightarrow> string \<times> 64 word" where "event_key e = (je_actor e, cu_version (je_cursor e))"
definition state_key :: "serialized_state \<Rightarrow> string \<times> string option" where "state_key s = (ss_actor s, ss_digest s)"

definition path_node_of :: "proj_env \<Rightarrow> projection_ctx \<Rightarrow> supervision_path \<Rightarrow> node" where
  "path_node_of E cx p = (case projr (mint_actor E (cx_iri cx) 0 p) of (i, iri) \<Rightarrow> diff_path_node cx (sp_render p) i iri)"

definition event_node_of :: "proj_env \<Rightarrow> projection_ctx \<Rightarrow> journal_event \<Rightarrow> node" where
  "event_node_of E cx e = (case projr (mint_event E (cx_iri cx) 0 e) of (i, iri) \<Rightarrow> event_node E cx e i iri)"

definition state_node_of :: "proj_env \<Rightarrow> projection_ctx \<Rightarrow> serialized_state \<Rightarrow> node" where
  "state_node_of E cx s = state_node cx s (diff_state_id E s)"

lemma node_types [simp]:
  "n_types (diff_path_node cx key i iri) = [NODE_ACTOR]" "n_types (event_node E cx e i iri) = [NODE_EVENT]"
  "n_types (state_node cx s i) = [NODE_STATE]"
  by (simp_all add: diff_path_node_def event_node_def state_node_def node_with_property_def Let_def)

lemma diff_paths_Inr:
  "diff_paths E cx ps (d, k) seen = (Inr (d', k'), seen') \<Longrightarrow> cx_iri cx \<noteq> UuidMinting \<Longrightarrow>
     d' = d\<lparr>d_nodes := d_nodes d @ map (path_node_of E cx) (fresh_by sp_render (df_paths seen) ps)\<rparr> \<and>
     seen' = seen\<lparr>df_paths := df_paths seen \<union> sp_render ` set ps\<rparr>"
proof (induction E cx ps "(d, k)" seen arbitrary: d k rule: diff_paths.induct)
  case (2 E cx p ps d k seen)
  show ?case
  proof (cases "sp_render p \<in> df_paths seen")
    case True
    with 2 show ?thesis by (simp add: Let_def insert_absorb)
  next
    case False
    let ?seen = "seen\<lparr>df_paths := insert (sp_render p) (df_paths seen)\<rparr>"
    from False "2.prems" obtain i iri where mint: "mint_actor E (cx_iri cx) k p = Inr (i, iri)"
      by (cases "mint_actor E (cx_iri cx) k p") (auto simp: Let_def)
    then have n: "diff_path_node cx (sp_render p) i iri = path_node_of E cx p"
      using mint_stable(1) [OF "2.prems"(2), of E k p] by (simp add: path_node_of_def)
    have "diff_paths E cx ps (delta_with_node (path_node_of E cx p) d, Suc k) ?seen = (Inr (d', k'), seen')"
      using "2.prems" False mint n by (simp add: Let_def)
    from "2.hyps"(2) [OF refl False refl mint refl, unfolded n, OF this "2.prems"(2)] False show ?thesis
      by (simp add: delta_with_node_def)
  qed
qed (simp_all add: delta_with_node_def)

lemma diff_events_Inr:
  "diff_events E cx es prev (d, k) seen = (Inr (d', k'), seen') \<Longrightarrow> cx_iri cx \<noteq> UuidMinting \<Longrightarrow>
     d_nodes d' = d_nodes d @ map (event_node_of E cx) (fresh_by event_key (df_events seen) es) \<and>
     seen' = seen\<lparr>df_events := df_events seen \<union> event_key ` set es\<rparr>"
proof (induction es arbitrary: prev d k seen)
  case (Cons e es)
  show ?case
  proof (cases "event_key e \<in> df_events seen")
    case True
    with Cons show ?thesis by (auto simp: Let_def insert_absorb event_key_def)
  next
    case False
    let ?seen = "seen\<lparr>df_events := insert (event_key e) (df_events seen)\<rparr>"
    from False Cons.prems obtain i iri where mint: "mint_event E (cx_iri cx) k e = Inr (i, iri)"
      by (cases "mint_event E (cx_iri cx) k e") (auto simp: Let_def event_key_def)
    then have n: "event_node E cx e i iri = event_node_of E cx e"
      using mint_stable(2) [OF Cons.prems(2), of E k e] by (simp add: event_node_of_def)
    define d1 where "d1 = (let d = delta_with_node (event_node_of E cx e) d in
        case prev of Some p \<Rightarrow> delta_with_edge (edge_between (env_hash E) p EDGE_SUCCESSOR i) d | None \<Rightarrow> d)"
    have "diff_events E cx es (Some i) (d1, Suc k) ?seen = (Inr (d', k'), seen')"
      using Cons.prems False mint n by (cases prev) (simp_all add: Let_def event_key_def d1_def)
    from Cons.IH [OF this Cons.prems(2)] False show ?thesis
      by (simp add: d1_def delta_with_node_def delta_with_edge_def Let_def split: option.split)
  qed
qed simp

lemma diff_states_fold:
  "fold (diff_one_state E cx) ss (d, seen) =
     (d\<lparr>d_nodes := d_nodes d @ map (state_node_of E cx) (fresh_by state_key (df_states seen) ss)\<rparr>,
      seen\<lparr>df_states := df_states seen \<union> state_key ` set ss\<rparr>)"
proof (induction ss arbitrary: d seen)
  case (Cons s ss)
  then show ?case
    by (cases "state_key s \<in> df_states seen")
      (simp_all add: diff_one_state_def Let_def state_key_def insert_absorb state_node_of_def delta_with_node_def)
qed simp

lemma diff_project_Inr:
  assumes "diff_project E cx b k seen = (Inr (d, k'), seen')" "cx_iri cx \<noteq> UuidMinting"
  shows "d_nodes d = map (path_node_of E cx) (fresh_by sp_render (df_paths seen) (ab_paths b)) @
           map (event_node_of E cx) (fresh_by event_key (df_events seen) (ab_events b)) @
           map (state_node_of E cx) (fresh_by state_key (df_states seen) (ab_states b))"
    "seen' = \<lparr>df_paths = df_paths seen \<union> sp_render ` set (ab_paths b),
       df_events = df_events seen \<union> event_key ` set (ab_events b), df_states = df_states seen \<union> state_key ` set (ab_states b)\<rparr>"
proof -
  from assms(1) obtain d1 k1 seen1 where 1: "diff_paths E cx (ab_paths b) (delta_new, k) seen = (Inr (d1, k1), seen1)"
    by (auto simp: diff_project_def split: prod.splits sum.splits)
  with assms(1) obtain d2 k2 seen2 where 2: "diff_events E cx (ab_events b) None (d1, k1) seen1 = (Inr (d2, k2), seen2)"
    by (auto simp: diff_project_def split: prod.splits sum.splits)
  from 1 2 assms(1) have "fold (diff_one_state E cx) (ab_states b) (d2, seen2) = (d, seen')"
    by (auto simp: diff_project_def split: prod.splits)
  with diff_paths_Inr [OF 1 assms(2)] diff_events_Inr [OF 2 assms(2)]
  show "d_nodes d = map (path_node_of E cx) (fresh_by sp_render (df_paths seen) (ab_paths b)) @
      map (event_node_of E cx) (fresh_by event_key (df_events seen) (ab_events b)) @
      map (state_node_of E cx) (fresh_by state_key (df_states seen) (ab_states b))"
    "seen' = \<lparr>df_paths = df_paths seen \<union> sp_render ` set (ab_paths b),
       df_events = df_events seen \<union> event_key ` set (ab_events b), df_states = df_states seen \<union> state_key ` set (ab_states b)\<rparr>"
    by (auto simp: diff_states_fold delta_new_def)
qed

text \<open>The same projection called on one batch after another.\<close>

fun diff_calls :: "proj_env \<Rightarrow> projection_ctx \<Rightarrow> actor_batch list \<Rightarrow> nat \<Rightarrow> diff_state \<Rightarrow>
    (projection_error + delta list \<times> nat) \<times> diff_state" where
  "diff_calls E cx [] k seen = (Inr ([], k), seen)"
| "diff_calls E cx (b # bs) k seen =
     (case diff_project E cx b k seen of
        (Inl e, seen) \<Rightarrow> (Inl e, seen)
      | (Inr (d, k), seen) \<Rightarrow>
          (case diff_calls E cx bs k seen of
             (Inl e, seen) \<Rightarrow> (Inl e, seen)
           | (Inr (ds, k), seen) \<Rightarrow> (Inr (d # ds, k), seen)))"

lemma diff_project_types:
  assumes "diff_project E cx b k seen = (Inr (d, k'), seen')" "cx_iri cx \<noteq> UuidMinting"
  shows "of_type NODE_ACTOR d = map (path_node_of E cx) (fresh_by sp_render (df_paths seen) (ab_paths b))"
    "of_type NODE_EVENT d = map (event_node_of E cx) (fresh_by event_key (df_events seen) (ab_events b))"
    "of_type NODE_STATE d = map (state_node_of E cx) (fresh_by state_key (df_states seen) (ab_states b))"
proof -
  have types: "n_types (path_node_of E cx p) = [NODE_ACTOR]" "n_types (event_node_of E cx e) = [NODE_EVENT]"
    "n_types (state_node_of E cx s) = [NODE_STATE]" for p e s
    by (simp_all add: path_node_of_def event_node_of_def state_node_of_def split: prod.split)
  show "of_type NODE_ACTOR d = map (path_node_of E cx) (fresh_by sp_render (df_paths seen) (ab_paths b))"
    "of_type NODE_EVENT d = map (event_node_of E cx) (fresh_by event_key (df_events seen) (ab_events b))"
    "of_type NODE_STATE d = map (state_node_of E cx) (fresh_by state_key (df_states seen) (ab_states b))"
    by (simp_all add: of_type_def diff_project_Inr(1) [OF assms] filter_map o_def types)
qed

lemma diff_calls_types:
  "diff_calls E cx bs k seen = (Inr (ds, k'), seen') \<Longrightarrow> cx_iri cx \<noteq> UuidMinting \<Longrightarrow>
     concat (map (of_type NODE_ACTOR) ds) =
       map (path_node_of E cx) (fresh_by sp_render (df_paths seen) (concat (map ab_paths bs))) \<and>
     concat (map (of_type NODE_EVENT) ds) =
       map (event_node_of E cx) (fresh_by event_key (df_events seen) (concat (map ab_events bs))) \<and>
     concat (map (of_type NODE_STATE) ds) =
       map (state_node_of E cx) (fresh_by state_key (df_states seen) (concat (map ab_states bs)))"
proof (induction bs arbitrary: k seen ds)
  case (Cons b bs)
  from Cons.prems(1) obtain d k1 seen1 ds1 where
    1: "diff_project E cx b k seen = (Inr (d, k1), seen1)" and
    2: "diff_calls E cx bs k1 seen1 = (Inr (ds1, k'), seen')" and ds: "ds = d # ds1"
    by (auto split: prod.splits sum.splits)
  show ?case
    using Cons.IH [OF 2 Cons.prems(2)] by (simp add: ds diff_project_types [OF 1 Cons.prems(2)] fresh_by_append diff_project_Inr(2) [OF 1 Cons.prems(2)])
qed simp

section \<open>Event streams and buckets\<close>

lemma stream_events_Inr:
  "stream_events E cx es prev (d, k) = Inr (d', k') \<Longrightarrow> cx_iri cx \<noteq> UuidMinting \<Longrightarrow>
     map n_id (d_nodes d') = map n_id (d_nodes d) @ map (event_id E cx) es \<and>
     d_edges d' = d_edges d @ map (\<lambda>(i, j). edge_between (env_hash E) i EDGE_SUCCESSOR j)
       (case prev of None \<Rightarrow> zip (map (event_id E cx) es) (tl (map (event_id E cx) es))
        | Some p \<Rightarrow> zip (p # map (event_id E cx) es) (map (event_id E cx) es))"
proof (induction es arbitrary: prev d k)
  case Nil
  then show ?case by (cases prev) simp_all
next
  case (Cons e es)
  from Cons.prems obtain i iri where mint: "mint_event E (cx_iri cx) k e = Inr (i, iri)"
    by (cases "mint_event E (cx_iri cx) k e") auto
  then have i: "i = event_id E cx e" using mint_stable(2) [OF Cons.prems(2), of E k e] by (simp add: event_id_def)
  let ?d = "delta_with_node (stream_event_node E cx e i iri) d"
  define d1 where "d1 = (case prev of Some p \<Rightarrow> delta_with_edge (edge_between (env_hash E) p EDGE_SUCCESSOR i) ?d | None \<Rightarrow> ?d)"
  have "stream_events E cx es (Some i) (d1, Suc k) = Inr (d', k')"
    using Cons.prems mint by (cases prev) (simp_all add: Let_def d1_def)
  moreover have "n_id (stream_event_node E cx e i iri) = i"
    by (simp add: stream_event_node_def Let_def node_with_property_def [of PROP_PATH] split: option.split)
  ultimately show ?case
    using Cons.IH [of "Some i" d1 "Suc k"] Cons.prems(2)
    by (cases prev) (simp_all add: d1_def i delta_with_node_def delta_with_edge_def)
qed

text \<open>What of a batch goes to a bucket.\<close>

lemma bucket_update_get:
  "map_of (bucket_update key f bs) key' =
     (if key' = key then Some (f (case map_of bs key of Some b \<Rightarrow> b | None \<Rightarrow> flat_bucket_default)) else map_of bs key')"
  by (simp add: bucket_update_def)

definition bucket_of :: "buckets \<Rightarrow> string \<times> string \<Rightarrow> flat_bucket" where
  "bucket_of bs key = (case map_of bs key of Some b \<Rightarrow> b | None \<Rightarrow> flat_bucket_default)"

lemma bucket_of_update:
  "bucket_of (bucket_update key f bs) key' = (if key' = key then f (bucket_of bs key) else bucket_of bs key')"
  by (simp add: bucket_of_def bucket_update_get)

lemma flat_path_fold:
  "bucket_of (fold flat_path ps bs) key =
     (let b = bucket_of bs key in b\<lparr>fb_path_count := fb_path_count b + of_nat (length (filter (\<lambda>p. workflow_run_key p = Some key) ps))\<rparr>)"
  by (induction ps arbitrary: bs) (simp_all add: flat_path_def bucket_of_update Let_def split: option.split)

lemma flat_event_fold:
  "bucket_of (fold (flat_event E) es bs) key =
     (let b = bucket_of bs key in b\<lparr>fb_events := fb_events b @
        map (flat_event_json E) (filter (\<lambda>e. Option.bind (je_path e) workflow_run_key = Some key) es)\<rparr>)"
  by (induction es arbitrary: bs) (simp_all add: flat_event_def bucket_of_update Let_def split: option.split)

lemma flat_state_fold:
  "bucket_of (fold flat_state ss bs) key =
     (let b = bucket_of bs key in b\<lparr>fb_states := fb_states b @
        map flat_state_json (filter (\<lambda>s. (''<unrouted>'', ss_actor s) = key) ss)\<rparr>)"
  by (induction ss arbitrary: bs) (simp_all add: flat_state_def bucket_of_update Let_def)

section \<open>Properties\<close>

text \<open>
  C17: When ids do not come from fresh UUIDs, a hierarchical projection builds the supervision tree
  of its batch: one actor node for each distinct prefix of a path of the batch or of an event, a
  supervises edge exactly between each prefix and the one it extends by a segment, and an emitted
  edge exactly from the actor of each event's path to the event. No edge dangles.
\<close>

theorem hierarchical_tree:
  assumes "hier_project E cx b k = Inr (d, k')" "cx_iri cx \<noteq> UuidMinting"
    and "\<And>e p. e \<in> set (ab_events b) \<Longrightarrow> je_path e = Some p \<Longrightarrow> sp_segments p \<noteq> []"
  shows "(\<exists>ps. distinct ps \<and> set ps = prefixes_of (batch_paths b) \<and>
           map n_id (filter is_actor (d_nodes d)) = map (actor_id E cx) ps) \<and>
         labelled EDGE_SUPERVISES d = map_prod (actor_id E cx) (actor_id E cx) ` steps_of (batch_paths b) \<and>
         labelled EDGE_EMITTED d = emissions E cx (ab_events b) \<and> no_dangling d"
proof -
  obtain ids where
    "tree_ok (actor_id E cx) (prefixes_of (batch_paths b)) (steps_of (batch_paths b)) (emissions E cx (ab_events b)) d ids"
    by (rule hier_project_tree [OF assms(1,2)]) (use assms(3) in auto)
  then show ?thesis by (simp add: tree_ok_def actors_are_def)
qed

text \<open>
  Called on one batch after another, a snapshot diff projects each path, each event version of an
  actor and each state digest of an actor exactly once: the first time any batch holds it. The batch
  boundaries do not matter to the nodes.
\<close>

theorem snapshot_diff_exactly_once:
  assumes "diff_calls E cx bs k diff_new = (Inr (ds, k'), seen)" "cx_iri cx \<noteq> UuidMinting"
  shows "concat (map (of_type NODE_ACTOR) ds) =
           map (path_node_of E cx) (fresh_by sp_render {} (concat (map ab_paths bs))) \<and>
         concat (map (of_type NODE_EVENT) ds) =
           map (event_node_of E cx) (fresh_by event_key {} (concat (map ab_events bs))) \<and>
         concat (map (of_type NODE_STATE) ds) =
           map (state_node_of E cx) (fresh_by state_key {} (concat (map ab_states bs)))"
  using diff_calls_types [OF assms] by (simp add: diff_new_def)

text \<open>
  When a snapshot diff fails to mint the id of a path, the path is remembered as seen all the same:
  the same call tried again succeeds and projects nothing of it.
\<close>

theorem snapshot_diff_forgets_failed:
  assumes "ab_paths b = [p]" "ab_events b = []" "ab_states b = []" "sp_render p \<notin> df_paths seen"
    and "mint_actor E (cx_iri cx) k p = Inl e"
  shows "\<exists>seen'. diff_project E cx b k seen = (Inl (PjIri e), seen') \<and>
           diff_project E cx b k seen' = (Inr (delta_new, k), seen')"
  using assms by (simp add: diff_project_def Let_def)

text \<open>
  A flat projection gathers a batch by workflow and run: a bucket holds the number of paths, the
  events with a path and the states that route to it, each in the order of the batch.
\<close>

theorem flat_bucket_contents:
  "bucket_of (flat_buckets E b) key =
     \<lparr>fb_path_count = of_nat (length (filter (\<lambda>p. workflow_run_key p = Some key) (ab_paths b))),
      fb_events = map (flat_event_json E) (filter (\<lambda>e. Option.bind (je_path e) workflow_run_key = Some key) (ab_events b)),
      fb_states = map flat_state_json (filter (\<lambda>s. (''<unrouted>'', ss_actor s) = key) (ab_states b))\<rparr>"
proof -
  have "bucket_of [] key = flat_bucket_default" by (simp add: bucket_of_def)
  then show ?thesis
    by (simp add: flat_buckets_def flat_state_fold flat_event_fold flat_path_fold Let_def flat_bucket_default_def)
qed

text \<open>
  An event stream projects every event of the batch in order, and its edges are exactly the chain
  from each event to the next.
\<close>

theorem event_stream_chain:
  assumes "stream_project E cx b k = Inr (d, k')" "cx_iri cx \<noteq> UuidMinting"
  shows "map n_id (d_nodes d) = map (event_id E cx) (ab_events b)"
    and "d_edges d = map (\<lambda>(i, j). edge_between (env_hash E) i EDGE_SUCCESSOR j)
           (zip (map (event_id E cx) (ab_events b)) (tl (map (event_id E cx) (ab_events b))))"
  using stream_events_Inr [of E cx "ab_events b" None delta_new k d k'] assms
  by (simp_all add: stream_project_def delta_new_def)

text \<open>
  With fresh UUIDs the tree falls apart: a segment two paths share gets a new id for the second,
  which no node has, and the edge below it dangles.
\<close>

theorem uuid_tree_dangles:
  assumes "cx_iri cx = UuidMinting" "inj (\<lambda>k. node_id_new_random (env_hash E) (env_fresh E k))" "x \<noteq> y"
    and "ab_paths b = [sp_new [w, x] x, sp_new [w, y] y]" "ab_events b = []" "ab_states b = []"
  shows "\<exists>d k'. hier_project E cx b k = Inr (d, k') \<and> \<not> no_dangling d"
proof -
  have new: "node_id_new_random (env_hash E) (env_fresh E i) = node_id_new_random (env_hash E) (env_fresh E j) \<longleftrightarrow> i = j" for i j
    using assms(2) by (auto simp: inj_def)
  show ?thesis
    using assms(1,3-) by (simp add: hier_project_def insert_path_def iter_segments_def sp_new_def mint_actor_def Let_def
      no_dangling_def delta_with_edge_def delta_with_node_def new bm_contains_iff delta_new_def)
qed

section \<open>Witnesses\<close>

definition proj_ex_env :: proj_env where
  "proj_ex_env = \<lparr>env_hash = (\<lambda>c x. x), env_fresh = (\<lambda>k. replicate k 0), env_rfc3339 = (\<lambda>t. []), env_debug = (\<lambda>x. [])\<rparr>"

definition proj_ex_cx :: "iri_minting \<Rightarrow> projection_ctx" where
  "proj_ex_cx m = \<lparr>cx_iri = m, cx_conflict = LastWriteWins, cx_schema = InducedSchema, cx_label = ''demo''\<rparr>"

definition proj_ex_event :: journal_event where
  "proj_ex_event = je_with_path (sp_parse ''/w/b'') (je_new 0 (cursor_at 1) ''b'' KCreated)"

definition proj_ex_batch :: actor_batch where
  "proj_ex_batch = \<lparr>ab_paths = [sp_parse ''/w/a''], ab_events = [proj_ex_event], ab_states = [ss_new ''a'' JNull],
     ab_cursor = cursor_at 1, ab_origin = None\<rparr>"

lemmas proj_ex_simps = proj_ex_env_def proj_ex_cx_def proj_ex_event_def proj_ex_batch_def

lemma proj_ex_project:
  "\<not> isl (hier_project proj_ex_env (proj_ex_cx ContentAddressed) proj_ex_batch 0)"
  "\<not> isl (stream_project proj_ex_env (proj_ex_cx ContentAddressed) proj_ex_batch 0)"
  "\<not> isl (fst (diff_calls proj_ex_env (proj_ex_cx ContentAddressed) [proj_ex_batch, proj_ex_batch] 0 diff_new))"
  by code_simp+

lemma hierarchical_tree_witness:
  "\<exists>d k'. hier_project proj_ex_env (proj_ex_cx ContentAddressed) proj_ex_batch 0 = Inr (d, k') \<and> no_dangling d"
proof -
  let ?r = "hier_project proj_ex_env (proj_ex_cx ContentAddressed) proj_ex_batch 0"
  obtain d k' where r: "?r = Inr (d, k')" using proj_ex_project(1) by (cases ?r) auto
  have ne: "sp_segments q \<noteq> []" if "e \<in> set (ab_events proj_ex_batch)" "je_path e = Some q" for e q
    using that by (auto simp: proj_ex_simps sp_parse_def sp_new_def je_with_path_def str_split.simps Let_def)
  have "cx_iri (proj_ex_cx ContentAddressed) \<noteq> UuidMinting" by (simp add: proj_ex_cx_def)
  from hierarchical_tree [OF r this] ne have "no_dangling d" by blast
  with r show ?thesis by blast
qed

lemma snapshot_diff_exactly_once_witness:
  "\<exists>ds k' seen. diff_calls proj_ex_env (proj_ex_cx ContentAddressed) [proj_ex_batch, proj_ex_batch] 0 diff_new =
     (Inr (ds, k'), seen) \<and> length (concat (map (of_type NODE_STATE) ds)) = 1"
proof -
  let ?r = "diff_calls proj_ex_env (proj_ex_cx ContentAddressed) [proj_ex_batch, proj_ex_batch] 0 diff_new"
  obtain ds k' seen where r: "?r = (Inr (ds, k'), seen)"
    using proj_ex_project(3) by (cases ?r; cases "fst ?r") auto
  have "cx_iri (proj_ex_cx ContentAddressed) \<noteq> UuidMinting" by (simp add: proj_ex_cx_def)
  from snapshot_diff_exactly_once [OF r this] have "length (concat (map (of_type NODE_STATE) ds)) = 1"
    by (simp add: proj_ex_batch_def)
  with r show ?thesis by blast
qed

definition proj_ex_bad :: supervision_path where "proj_ex_bad = sp_parse ''/a b''"

lemma snapshot_diff_forgets_failed_witness:
  "\<exists>e. let b = batch_empty\<lparr>ab_paths := [proj_ex_bad]\<rparr>; cx = proj_ex_cx (PathBased (Iri ''http://x/'')) in
     \<exists>seen'. diff_project proj_ex_env cx b 0 diff_new = (Inl (PjIri e), seen') \<and>
       diff_project proj_ex_env cx b 0 seen' = (Inr (delta_new, 0), seen')"
proof -
  let ?cx = "proj_ex_cx (PathBased (Iri ''http://x/''))"
  let ?b = "batch_empty\<lparr>ab_paths := [proj_ex_bad]\<rparr>"
  have "isl (mint_actor proj_ex_env (cx_iri ?cx) 0 proj_ex_bad)" by code_simp
  then obtain e where "mint_actor proj_ex_env (cx_iri ?cx) 0 proj_ex_bad = Inl e" by (auto simp: isl_def)
  with snapshot_diff_forgets_failed [of ?b proj_ex_bad diff_new proj_ex_env ?cx 0 e]
  show ?thesis unfolding Let_def by (intro exI [of _ e]) (simp add: batch_empty_def diff_new_def)
qed

lemma event_stream_chain_witness:
  "\<exists>d k'. stream_project proj_ex_env (proj_ex_cx ContentAddressed) proj_ex_batch 0 = Inr (d, k') \<and> d_edges d = []"
proof -
  let ?r = "stream_project proj_ex_env (proj_ex_cx ContentAddressed) proj_ex_batch 0"
  obtain d k' where r: "?r = Inr (d, k')" using proj_ex_project(2) by (cases ?r) auto
  have "cx_iri (proj_ex_cx ContentAddressed) \<noteq> UuidMinting" by (simp add: proj_ex_cx_def)
  from event_stream_chain(2) [OF r this] have "d_edges d = []" by (simp add: proj_ex_batch_def)
  with r show ?thesis by blast
qed

lemma uuid_tree_dangles_witness:
  "\<exists>d k'. hier_project proj_ex_env (proj_ex_cx UuidMinting)
     (batch_empty\<lparr>ab_paths := [sp_new [''w'', ''a''] ''a'', sp_new [''w'', ''b''] ''b'']\<rparr>) 0 = Inr (d, k') \<and> \<not> no_dangling d"
  by (rule uuid_tree_dangles [where x = "''a''" and y = "''b''" and w = "''w''"])
    (auto simp: proj_ex_simps batch_empty_def inj_def node_id_new_random_def replicate_eq_replicate)

end
