(* ===== verification/Proj_Run.thy ===== *)
theory Proj_Run
  imports Proj_Project Mem_Store
begin

text \<open>
  \<open>ingest/\<close>, \<open>projector.rs\<close> and \<open>builder.rs\<close> of \<open>crates/atomr-ontology-actor-projection/src\<close>. The
  source is a record of its calls on a state; every call of a run is an \<open>await\<close> that may find
  another state, so a run reads \<open>x i\<close> at its call number \<open>i\<close>. The projector takes the batches in the
  order the channel delivers them, and the operations of its store as arguments.
\<close>

section \<open>Ingest\<close>

record 'x source_calls =
  call_paths :: "'x \<Rightarrow> source_error + supervision_path list"
  call_journal :: "cursor \<Rightarrow> 'x \<Rightarrow> source_error + journal_event list"
  call_state :: "string \<Rightarrow> 'x \<Rightarrow> source_error + serialized_state option"
  call_cursor :: "'x \<Rightarrow> source_error + cursor"

definition mem_source_calls :: "mem_source source_calls" where
  [code_defs]: "mem_source_calls =
     \<lparr>call_paths = (\<lambda>s. Inr (so_paths s)), call_journal = (\<lambda>c s. Inr (source_journal c s)),
      call_state = (\<lambda>a s. Inr (source_state a s)), call_cursor = (\<lambda>s. Inr (so_cursor s))\<rparr>"

text \<open>\<open>?\<close> on a call of the source in an ingest mode.\<close>

definition src_try :: "source_error + 'a \<Rightarrow> ('a \<Rightarrow> ingest_error + 'b) \<Rightarrow> ingest_error + 'b" where
  [code_defs]: "src_try r f = (case r of Inl e \<Rightarrow> Inl (InSource e) | Inr v \<Rightarrow> f v)"

lemma src_try_simps [simp]: "src_try (Inl e) f = Inl (InSource e)" "src_try (Inr v) f = f v"
  by (simp_all add: src_try_def)

text \<open>The states of the actors, read by the calls from number \<open>i\<close> on.\<close>

fun read_states :: "'x source_calls \<Rightarrow> (nat \<Rightarrow> 'x) \<Rightarrow> nat \<Rightarrow> string list \<Rightarrow> ingest_error + serialized_state list" where
  "read_states C x i [] = Inr []"
| "read_states C x i (a # as) =
     src_try (call_state C a (x i)) (\<lambda>r.
     try_then (read_states C x (Suc i) as) (\<lambda>ss. Inr (case r of Some s \<Rightarrow> s # ss | None \<Rightarrow> ss)))"

definition actor_set :: "string list \<Rightarrow> string list" where
  [code_defs]: "actor_set as = fold bs_insert as []"

definition replay_run :: "'x source_calls \<Rightarrow> cursor \<Rightarrow> (nat \<Rightarrow> 'x) \<Rightarrow> bool \<Rightarrow> ingest_error + actor_batch list" where
  [code_defs]: "replay_run C since x ch_open =
     src_try (call_paths C (x 0)) (\<lambda>paths.
     src_try (call_journal C since (x 1)) (\<lambda>events.
       let ids = actor_set (map sp_actor paths @ map je_actor events)
       in try_then (read_states C x 2 ids) (\<lambda>states.
          src_try (call_cursor C (x (2 + length ids))) (\<lambda>cursor.
            let b = \<lparr>ab_paths = paths, ab_events = events, ab_states = states, ab_cursor = cursor, ab_origin = Some ''replay''\<rparr>
            in if batch_is_empty b then Inr [] else if ch_open then Inr [b] else Inl InChannelClosed))))"

text \<open>A tick of \<open>PollingIngest\<close>: the batch to send, if any, and the new cursor.\<close>

definition poll_tick :: "'x source_calls \<Rightarrow> bool \<Rightarrow> cursor \<Rightarrow> (nat \<Rightarrow> 'x) \<Rightarrow> ingest_error + actor_batch option \<times> cursor" where
  [code_defs]: "poll_tick C include_paths since x =
     src_try (call_journal C since (x 0)) (\<lambda>events.
     src_try (if include_paths then call_paths C (x 1) else Inr []) (\<lambda>paths.
       if events = [] \<and> paths = [] then Inr (None, since)
       else let ids = actor_set (map je_actor events)
            in try_then (read_states C x 2 ids) (\<lambda>states.
               src_try (call_cursor C (x (2 + length ids))) (\<lambda>cursor.
                 Inr (Some \<lparr>ab_paths = paths, ab_events = events, ab_states = states, ab_cursor = cursor,
                        ab_origin = Some ''polling''\<rparr>, cursor)))))"

text \<open>
  What wakes the loop: a change of the shutdown flag, or the ticker, with the states its calls read and
  whether the channel still takes the batch. A run that has used up its list is still waiting (\<open>None\<close>).
\<close>

datatype 'x poll_wake = ShutdownChanged bool | Tick "nat \<Rightarrow> 'x" bool

fun poll_run :: "'x source_calls \<Rightarrow> bool \<Rightarrow> cursor \<Rightarrow> 'x poll_wake list \<Rightarrow>
    (ingest_error + unit) option \<times> actor_batch list \<times> cursor" where
  "poll_run C paths since [] = (None, [], since)"
| "poll_run C paths since (ShutdownChanged b # ws) =
     (if b then (Some (Inr ()), [], since) else poll_run C paths since ws)"
| "poll_run C paths since (Tick x ch_open # ws) =
     (case poll_tick C paths since x of
        Inl e \<Rightarrow> (Some (Inl e), [], since)
      | Inr (None, cursor) \<Rightarrow> poll_run C paths since ws
      | Inr (Some b, cursor) \<Rightarrow>
          if \<not> ch_open then (Some (Inl InChannelClosed), [], cursor)
          else (case poll_run C paths cursor ws of (r, bs, c) \<Rightarrow> (r, b # bs, c)))"

text \<open>A signal of the push hook.\<close>

definition push_tick :: "'x source_calls \<Rightarrow> cursor \<Rightarrow> (nat \<Rightarrow> 'x) \<Rightarrow> ingest_error + actor_batch \<times> cursor" where
  [code_defs]: "push_tick C since x =
     src_try (call_journal C since (x 0)) (\<lambda>events.
     src_try (call_paths C (x 1)) (\<lambda>paths.
       let ids = actor_set (map je_actor events)
       in try_then (read_states C x 2 ids) (\<lambda>states.
          src_try (call_cursor C (x (2 + length ids))) (\<lambda>cursor.
            Inr (\<lparr>ab_paths = paths, ab_events = events, ab_states = states, ab_cursor = cursor,
                   ab_origin = Some ''push-hook''\<rparr>, cursor)))))"

datatype 'x push_wake = PushShutdown bool | PushSaved "nat \<Rightarrow> 'x" bool | PushLagged | PushClosed

fun push_loop :: "'x source_calls \<Rightarrow> cursor \<Rightarrow> 'x push_wake list \<Rightarrow>
    (ingest_error + unit) option \<times> actor_batch list \<times> cursor" where
  "push_loop C since [] = (None, [], since)"
| "push_loop C since (PushShutdown b # ws) = (if b then (Some (Inr ()), [], since) else push_loop C since ws)"
| "push_loop C since (PushLagged # ws) = push_loop C since ws"
| "push_loop C since (PushClosed # ws) = (Some (Inr ()), [], since)"
| "push_loop C since (PushSaved x ch_open # ws) =
     (case push_tick C since x of
        Inl e \<Rightarrow> (Some (Inl e), [], since)
      | Inr (b, cursor) \<Rightarrow>
          if batch_is_empty b then push_loop C cursor ws
          else if \<not> ch_open then (Some (Inl InChannelClosed), [], cursor)
          else (case push_loop C cursor ws of (r, bs, c) \<Rightarrow> (r, b # bs, c)))"

definition push_run :: "'x source_calls \<Rightarrow> bool \<Rightarrow> 'x push_wake list \<Rightarrow>
    (ingest_error + unit) option \<times> actor_batch list \<times> cursor" where
  [code_defs]: "push_run C has_signal ws =
     (if \<not> has_signal then (Some (Inl (InConfiguration ''push-hook signal unavailable'')), [], cursor_beginning)
      else push_loop C cursor_beginning ws)"

text \<open>\<open>PushHookCheckpointer\<close>: a save that succeeds signals; \<open>signals\<close> counts.\<close>

definition push_save :: "(snapshot \<Rightarrow> 'c \<Rightarrow> (ck_error + unit) \<times> 'c) \<Rightarrow> snapshot \<Rightarrow> 'c \<times> nat \<Rightarrow>
    (ck_error + unit) \<times> 'c \<times> nat" where
  [code_defs]: "push_save ck_save s st =
     (case st of (c, signals) \<Rightarrow>
        (case ck_save s c of
           (Inl e, c) \<Rightarrow> (Inl e, c, signals)
         | (Inr u, c) \<Rightarrow> (Inr u, c, Suc signals)))"

datatype 'x stream_wake = StreamShutdown bool | StreamEvent journal_event 'x bool | StreamLagged | StreamClosed

fun stream_loop :: "'x source_calls \<Rightarrow> 'x stream_wake list \<Rightarrow> (ingest_error + unit) option \<times> actor_batch list" where
  "stream_loop C [] = (None, [])"
| "stream_loop C (StreamShutdown b # ws) = (if b then (Some (Inr ()), []) else stream_loop C ws)"
| "stream_loop C (StreamLagged # ws) = stream_loop C ws"
| "stream_loop C (StreamClosed # ws) = (Some (Inr ()), [])"
| "stream_loop C (StreamEvent e x ch_open # ws) =
     (case call_state C (je_actor e) x of
        Inl err \<Rightarrow> (Some (Inl (InSource err)), [])
      | Inr st \<Rightarrow>
          if \<not> ch_open then (Some (Inl InChannelClosed), [])
          else (case stream_loop C ws of (r, bs) \<Rightarrow>
            (r, \<lparr>ab_paths = (case je_path e of Some p \<Rightarrow> [p] | None \<Rightarrow> []), ab_events = [e],
                 ab_states = (case st of Some s \<Rightarrow> [s] | None \<Rightarrow> []), ab_cursor = je_cursor e,
                 ab_origin = Some ''event-stream''\<rparr> # bs)))"

definition stream_run :: "'x source_calls \<Rightarrow> bool \<Rightarrow> 'x stream_wake list \<Rightarrow> (ingest_error + unit) option \<times> actor_batch list" where
  [code_defs]: "stream_run C has_receiver ws =
     (if \<not> has_receiver then (Some (Inl (InConfiguration ''event-stream receiver already taken'')), []) else stream_loop C ws)"

section \<open>Projector\<close>

definition enforce_strict_schema :: "delta \<Rightarrow> schema option \<Rightarrow> projector_error + unit" where
  [code_defs]: "enforce_strict_schema d sch =
     (case sch of
        None \<Rightarrow> Inr ()
      | Some s \<Rightarrow>
          (case find (\<lambda>ty. node_type s ty = None) (concat (map n_types (d_nodes d))) of
             Some ty \<Rightarrow> Inl (PrProjection (PjSchemaViolation (UndeclaredNodeType ty)))
           | None \<Rightarrow>
               (case find (\<lambda>l. edge_type s l = None) (map e_label (d_edges d)) of
                  Some l \<Rightarrow> Inl (PrProjection (PjSchemaViolation (UndeclaredEdgeLabel l)))
                | None \<Rightarrow> Inr ())))"

definition reconcile_delta :: "('s \<Rightarrow> node_id \<Rightarrow> node option) \<Rightarrow> conflict_resolution \<Rightarrow> delta \<Rightarrow> 's \<Rightarrow> delta" where
  [code_defs]: "reconcile_delta st_node c raw s =
     (if c = LastWriteWins then raw
      else raw\<lparr>d_nodes := List.map_filter (\<lambda>n. reconcile c (st_node s (n_id n)) n) (d_nodes raw)\<rparr>)"

record projector_report =
  rp_batches :: "64 word"
  rp_nodes :: "64 word"
  rp_edges :: "64 word"
  rp_activities :: "64 word"

definition projector_report_new :: projector_report where
  [code_defs]: "projector_report_new = \<lparr>rp_batches = 0, rp_nodes = 0, rp_edges = 0, rp_activities = 0\<rparr>"

text \<open>
  A projection with its own state; ids and clock readings of the activities by the number of
  activities before.
\<close>

type_synonym 'p projection = "projection_ctx \<Rightarrow> actor_batch \<Rightarrow> 'p \<Rightarrow> (projection_error + delta) \<times> 'p"

record run_env =
  re_activity :: "nat \<Rightarrow> prov_id"
  re_started :: "nat \<Rightarrow> int"
  re_ended :: "nat \<Rightarrow> int"

record 'p projector =
  pr_projection :: "'p projection"
  pr_label :: string
  pr_iri :: iri_minting
  pr_conflict :: conflict_resolution
  pr_schema :: schema_strategy
  pr_source_label :: string
  pr_agent :: agent_ref

definition projector_ctx :: "'p projector \<Rightarrow> projection_ctx" where
  [code_defs]: "projector_ctx P =
     \<lparr>cx_iri = pr_iri P, cx_conflict = pr_conflict P, cx_schema = pr_schema P, cx_label = pr_source_label P\<rparr>"

definition batch_activity :: "run_env \<Rightarrow> 'p projector \<Rightarrow> nat \<Rightarrow> actor_batch \<Rightarrow> activity" where
  [code_defs]: "batch_activity R P k b =
     activity_finish (re_ended R k)
       (activity_with_attribute ''cursor_version'' (JInt (int (unat (cu_version (ab_cursor b)))))
       (activity_with_attribute ''source'' (JString (pr_source_label P))
       (activity_with_attribute ''projection'' (JString (pr_label P))
       (activity_by (pr_agent P)
       (activity_started (re_activity R k) (re_started R k)
         (''actor-projection:'' @ pr_label P @ '':'' @ (case ab_origin b of Some x \<Rightarrow> x | None \<Rightarrow> ''anon'')))))))"

type_synonym ('p, 's) run_state = "projector_report \<times> nat \<times> 'p \<times> 's"

text \<open>One turn of the loop in \<open>run_inner\<close>.\<close>

definition drain_step :: "('s \<Rightarrow> node_id \<Rightarrow> node option) \<Rightarrow> (delta \<Rightarrow> activity \<Rightarrow> 's \<Rightarrow> (store_error + prov_id) \<times> 's) \<Rightarrow>
    run_env \<Rightarrow> 'p projector \<Rightarrow> actor_batch \<Rightarrow> ('p, 's) run_state \<Rightarrow> (projector_error + unit) \<times> ('p, 's) run_state" where
  [code_defs]: "drain_step st_node st_commit R P b st =
     (case st of (rep, k, p, s) \<Rightarrow>
        if batch_is_empty b then (Inr (), st)
        else (case pr_projection P (projector_ctx P) b p of
            (Inl e, p) \<Rightarrow> (Inl (PrProjection e), (rep, k, p, s))
          | (Inr raw, p) \<Rightarrow>
              (case (if is_strict (pr_schema P) then enforce_strict_schema raw (baseline (pr_schema P)) else Inr ()) of
                 Inl e \<Rightarrow> (Inl e, (rep, k, p, s))
               | Inr _ \<Rightarrow>
                   let d = reconcile_delta st_node (pr_conflict P) raw s
                   in if delta_is_empty d then (Inr (), (rep, k, p, s))
                      else (case st_commit d (batch_activity R P k b) s of
                          (Inl e, s) \<Rightarrow> (Inl (PrStore e), (rep, Suc k, p, s))
                        | (Inr _, s) \<Rightarrow>
                            (Inr (), (\<lparr>rp_batches = rp_batches rep + 1, rp_nodes = rp_nodes rep + of_nat (length (d_nodes d)),
                               rp_edges = rp_edges rep + of_nat (length (d_edges d)),
                               rp_activities = rp_activities rep + 1\<rparr>, Suc k, p, s))))))"

fun drain :: "('s \<Rightarrow> node_id \<Rightarrow> node option) \<Rightarrow> (delta \<Rightarrow> activity \<Rightarrow> 's \<Rightarrow> (store_error + prov_id) \<times> 's) \<Rightarrow>
    run_env \<Rightarrow> 'p projector \<Rightarrow> actor_batch list \<Rightarrow> ('p, 's) run_state \<Rightarrow> (projector_error + unit) \<times> ('p, 's) run_state" where
  "drain st_node st_commit R P [] st = (Inr (), st)"
| "drain st_node st_commit R P (b # bs) st =
     (case drain_step st_node st_commit R P b st of
        (Inl e, st) \<Rightarrow> (Inl e, st)
      | (Inr _, st) \<Rightarrow> drain st_node st_commit R P bs st)"

text \<open>How an ingest task ended, in the order the tasks are joined.\<close>

datatype task_end = TaskDone | TaskFailed ingest_error | TaskPanicked string

fun join_tasks :: "task_end list \<Rightarrow> projector_error + unit" where
  "join_tasks [] = Inr ()"
| "join_tasks (TaskDone # ts) = join_tasks ts"
| "join_tasks (TaskFailed e # ts) = Inl (PrIngest e)"
| "join_tasks (TaskPanicked e # ts) = Inl (PrConfiguration (''ingest task panicked: '' @ e))"

definition run_inner :: "('s \<Rightarrow> node_id \<Rightarrow> node option) \<Rightarrow> (delta \<Rightarrow> activity \<Rightarrow> 's \<Rightarrow> (store_error + prov_id) \<times> 's) \<Rightarrow>
    run_env \<Rightarrow> 'p projector \<Rightarrow> actor_batch list \<Rightarrow> task_end list \<Rightarrow> 'p \<times> 's \<Rightarrow> (projector_error + projector_report) \<times> 'p \<times> 's" where
  [code_defs]: "run_inner st_node st_commit R P bs ends ps =
     (case drain st_node st_commit R P bs (projector_report_new, 0, ps) of
        (Inl e, _, _, ps) \<Rightarrow> (Inl e, ps)
      | (Inr _, rep, _, ps) \<Rightarrow> (case join_tasks ends of Inl e \<Rightarrow> (Inl e, ps) | Inr _ \<Rightarrow> (Inr rep, ps)))"

section \<open>Builder\<close>

record ('x, 'm, 'p, 's) projector_builder =
  pb_source :: "'x option"
  pb_ingest :: "'m list"
  pb_projection :: "'p option"
  pb_iri :: "iri_minting option"
  pb_conflict :: "conflict_resolution option"
  pb_schema :: "schema_strategy option"
  pb_store :: "'s option"
  pb_capacity :: "nat option"
  pb_agent :: "agent_ref option"

record ('x, 'm, 'p, 's) built_projector =
  bp_source :: 'x
  bp_ingest :: "'m list"
  bp_projection :: 'p
  bp_iri :: iri_minting
  bp_conflict :: conflict_resolution
  bp_schema :: schema_strategy
  bp_store :: 's
  bp_capacity :: nat
  bp_agent :: agent_ref

definition builder_new :: "('x, 'm, 'p, 's) projector_builder" where
  [code_defs]: "builder_new =
     \<lparr>pb_source = None, pb_ingest = [], pb_projection = None, pb_iri = None, pb_conflict = None, pb_schema = None,
      pb_store = None, pb_capacity = None, pb_agent = None\<rparr>"

definition with_ingest :: "'m \<Rightarrow> ('x, 'm, 'p, 's) projector_builder \<Rightarrow> ('x, 'm, 'p, 's) projector_builder" where
  [code_defs]: "with_ingest m B = B\<lparr>pb_ingest := pb_ingest B @ [m]\<rparr>"

definition default_projector_agent :: agent_ref where
  [code_defs]: "default_projector_agent = agent_software ''agent://atomr-ontology-actor-projection'' ''ActorProjector''"

abbreviation "DEFAULT_BATCH_CHANNEL_CAPACITY \<equiv> 64 :: nat"

definition or_default :: "'a \<Rightarrow> 'a option \<Rightarrow> 'a" where
  [code_defs]: "or_default d x = (case x of None \<Rightarrow> d | Some v \<Rightarrow> v)"

definition required :: "string \<Rightarrow> 'a option \<Rightarrow> projector_error + 'a" where
  [code_defs]: "required msg x = (case x of None \<Rightarrow> Inl (PrConfiguration msg) | Some v \<Rightarrow> Inr v)"

definition builder_build :: "('x, 'm, 'p, 's) projector_builder \<Rightarrow> projector_error + ('x, 'm, 'p, 's) built_projector" where
  [code_defs]: "builder_build B =
     try_then (required ''source required'' (pb_source B)) (\<lambda>source.
     if pb_ingest B = [] then Inl (PrConfiguration ''at least one ingest mode required'')
     else try_then (required ''projection required'' (pb_projection B)) (\<lambda>projection.
     try_then (required ''store required'' (pb_store B)) (\<lambda>store.
       Inr \<lparr>bp_source = source, bp_ingest = pb_ingest B, bp_projection = projection,
            bp_iri = or_default ContentAddressed (pb_iri B), bp_conflict = or_default LastWriteWins (pb_conflict B),
            bp_schema = or_default InducedSchema (pb_schema B), bp_store = store,
            bp_capacity = or_default DEFAULT_BATCH_CHANNEL_CAPACITY (pb_capacity B),
            bp_agent = or_default default_projector_agent (pb_agent B)\<rparr>)))"

lemma builder_build_Inr:
  "(\<exists>P. builder_build B = Inr P) \<longleftrightarrow>
     pb_source B \<noteq> None \<and> pb_ingest B \<noteq> [] \<and> pb_projection B \<noteq> None \<and> pb_store B \<noteq> None"
  by (auto simp: builder_build_def required_def split: option.splits)

section \<open>The strategies as projections\<close>

text \<open>The state of a projection is the number of ids it has minted, and for the diff what it has seen.\<close>

definition lift_projection :: "(projection_ctx \<Rightarrow> actor_batch \<Rightarrow> nat \<Rightarrow> projection_error + delta \<times> nat) \<Rightarrow> nat projection" where
  "lift_projection f cx b k = (case f cx b k of Inl e \<Rightarrow> (Inl e, k) | Inr (d, k) \<Rightarrow> (Inr d, k))"

definition diff_projection :: "proj_env \<Rightarrow> (nat \<times> diff_state) projection" where
  "diff_projection E cx b p =
     (case diff_project E cx b (fst p) (snd p) of
        (Inl e, seen) \<Rightarrow> (Inl e, fst p, seen) | (Inr (d, k), seen) \<Rightarrow> (Inr d, k, seen))"

section \<open>A checkpointer as a source\<close>

definition extract_path :: "node \<Rightarrow> supervision_path option" where
  [code_defs]: "extract_path n = (case node_property n PROP_PATH of Some (PString s) \<Rightarrow> Some (sp_parse s) | _ \<Rightarrow> None)"

definition extract_actor :: "hex_encoder \<Rightarrow> node \<Rightarrow> string" where
  [code_defs]: "extract_actor hexe n =
     (case node_property n PROP_ACTOR_ID of Some (PString s) \<Rightarrow> s | _ \<Rightarrow> hexe (node_id_bytes (n_id n)))"

definition extract_event_kind :: "node \<Rightarrow> journal_event_kind option" where
  [code_defs]: "extract_event_kind n =
     (case node_property n PROP_EVENT_KIND of
        Some (PString s) \<Rightarrow>
          Some (if s = ''created'' then KCreated
            else if s = ''state_changed'' then KStateChanged
            else if s = ''completed'' then KCompleted
            else if s = ''terminated'' then KTerminated
            else KCustom s)
      | _ \<Rightarrow> None)"

definition extract_payload :: "node \<Rightarrow> json" where
  [code_defs]: "extract_payload n =
     (case node_property n PROP_EVENT_PAYLOAD of Some (PJson j) \<Rightarrow> j | Some (PString s) \<Rightarrow> JString s | _ \<Rightarrow> JNull)"

definition snap_load :: "('c \<Rightarrow> ck_error + snapshot option) \<Rightarrow> 'c \<Rightarrow> source_error + snapshot option" where
  [code_defs]: "snap_load ck_load c = (case ck_load c of Inl e \<Rightarrow> Inl (SrcIo (ck_error_display e)) | Inr s \<Rightarrow> Inr s)"

definition snap_nodes :: "snapshot \<Rightarrow> node list" where
  [code_defs]: "snap_nodes s = bm_values (o_nodes (sn_ont s))"

definition snap_paths :: "('c \<Rightarrow> ck_error + snapshot option) \<Rightarrow> 'c \<Rightarrow> source_error + supervision_path list" where
  [code_defs]: "snap_paths ck_load c =
     try_then (snap_load ck_load c) (\<lambda>r. Inr (case r of None \<Rightarrow> [] | Some s \<Rightarrow> List.map_filter extract_path (snap_nodes s)))"

text \<open>\<open>clock\<close> gives the time stamp of a version.\<close>

fun snap_events :: "hex_encoder \<Rightarrow> (64 word \<Rightarrow> int) \<Rightarrow> node list \<Rightarrow> 64 word \<Rightarrow> journal_event list" where
  "snap_events hexe clock [] sq = []"
| "snap_events hexe clock (n # ns) sq =
     (case extract_event_kind n of
        None \<Rightarrow> snap_events hexe clock ns sq
      | Some kind \<Rightarrow>
          let sq = saturating_add1 sq;
              e = je_with_payload (extract_payload n) (je_new (clock sq) (cursor_at sq) (extract_actor hexe n) kind);
              e = (case extract_path n of Some p \<Rightarrow> je_with_path p e | None \<Rightarrow> e)
          in e # snap_events hexe clock ns sq)"

definition snap_journal :: "hex_encoder \<Rightarrow> (64 word \<Rightarrow> int) \<Rightarrow> ('c \<Rightarrow> ck_error + snapshot option) \<Rightarrow> cursor \<Rightarrow> 'c \<Rightarrow>
    source_error + journal_event list" where
  [code_defs]: "snap_journal hexe clock ck_load since c =
     try_then (snap_load ck_load c) (\<lambda>r. Inr (case r of
        None \<Rightarrow> []
      | Some s \<Rightarrow> if sn_version s \<le> cu_version since then [] else snap_events hexe clock (snap_nodes s) (cu_version since)))"

fun snap_find_state :: "hex_encoder \<Rightarrow> string \<Rightarrow> node list \<Rightarrow> serialized_state option" where
  "snap_find_state hexe actor [] = None"
| "snap_find_state hexe actor (n # ns) =
     (if extract_actor hexe n \<noteq> actor then snap_find_state hexe actor ns
      else (case node_property n PROP_STATE of
              Some (PJson j) \<Rightarrow> Some (ss_new actor j)
            | _ \<Rightarrow> snap_find_state hexe actor ns))"

definition snap_state :: "hex_encoder \<Rightarrow> ('c \<Rightarrow> ck_error + snapshot option) \<Rightarrow> string \<Rightarrow> 'c \<Rightarrow>
    source_error + serialized_state option" where
  [code_defs]: "snap_state hexe ck_load actor c =
     try_then (snap_load ck_load c) (\<lambda>r. Inr (case r of None \<Rightarrow> None | Some s \<Rightarrow> snap_find_state hexe actor (snap_nodes s)))"

definition snap_cursor :: "('c \<Rightarrow> ck_error + snapshot option) \<Rightarrow> 'c \<Rightarrow> source_error + cursor" where
  [code_defs]: "snap_cursor ck_load c =
     try_then (snap_load ck_load c) (\<lambda>r. Inr (cursor_at (case r of None \<Rightarrow> 0 | Some s \<Rightarrow> sn_version s)))"

definition snapshot_source_calls :: "hex_encoder \<Rightarrow> (64 word \<Rightarrow> int) \<Rightarrow> ('c \<Rightarrow> ck_error + snapshot option) \<Rightarrow> 'c source_calls" where
  [code_defs]: "snapshot_source_calls hexe clock ck_load =
     \<lparr>call_paths = snap_paths ck_load, call_journal = snap_journal hexe clock ck_load,
      call_state = snap_state hexe ck_load, call_cursor = snap_cursor ck_load\<rparr>"

end
