(* ===== verification/Proj_Ingest.thy ===== *)
theory Proj_Ingest
  imports Proj_Run "HOL-Library.Sublist"
begin

text \<open>
  What the ingest modes of \<open>crates/atomr-ontology-actor-projection\<close> deliver: the contract of a source as
  the locale \<open>actor_source\<close>, polling proved against it, and the source in memory as a provider.
\<close>

definition version_of :: "journal_event \<Rightarrow> 64 word" where
  [simp]: "version_of e = cu_version (je_cursor e)"

definition last_version :: "journal_event list \<Rightarrow> 64 word" where
  "last_version l = (if l = [] then 0 else version_of (last l))"

definition ascending :: "journal_event list \<Rightarrow> bool" where
  "ascending l \<longleftrightarrow> sorted_wrt (\<lambda>e f. version_of e < version_of f) l"

lemma ascending_append:
  "ascending (l @ m) \<longleftrightarrow> ascending l \<and> ascending m \<and> (\<forall>e \<in> set l. \<forall>f \<in> set m. version_of e < version_of f)"
  by (simp add: ascending_def sorted_wrt_append)

lemma ascending_filter: "ascending l \<Longrightarrow> ascending (filter P l)"
  unfolding ascending_def by (rule sorted_wrt_filter)

lemma ascending_last: "ascending l \<Longrightarrow> e \<in> set l \<Longrightarrow> version_of e \<le> last_version l"
proof (induction l rule: rev_induct)
  case (snoc f l)
  then show ?case by (auto simp: ascending_append last_version_def intro: order_less_imp_le)
qed simp

lemma last_version_mono: "prefix l m \<Longrightarrow> ascending m \<Longrightarrow> last_version l \<le> last_version m"
proof (cases "l = []")
  case False
  assume "prefix l m" "ascending m"
  with False have "last l \<in> set m" using set_mono_prefix last_in_set by blast
  with \<open>ascending m\<close> have "version_of (last l) \<le> last_version m" by (rule ascending_last)
  with False show ?thesis by (simp add: last_version_def [of l])
qed (simp add: last_version_def)

lemma filter_above_none: "(\<And>e. e \<in> set l \<Longrightarrow> version_of e \<le> v) \<Longrightarrow> filter (\<lambda>e. v < version_of e) l = []"
  by (auto simp: filter_empty_conv not_less)

text \<open>Reading what is above \<open>v\<close>, and later what is above the last version read, is reading once.\<close>

lemma read_twice:
  assumes "prefix l m" "ascending m" "v \<le> last_version l" "0 \<notin> version_of ` set m"
  shows "filter (\<lambda>e. v < version_of e) l @ filter (\<lambda>e. last_version l < version_of e) m = filter (\<lambda>e. v < version_of e) m"
proof -
  obtain r where m: "m = l @ r" using assms(1) by (auto simp: prefix_def)
  have r: "last_version l < version_of e" if "e \<in> set r" for e
  proof (cases "l = []")
    case True
    have "version_of e \<noteq> 0" using assms(4) that m by (auto simp: image_iff)
    then show ?thesis using True by (simp add: last_version_def word_gt_0)
  next
    case False
    then show ?thesis using assms(2) that by (simp add: m ascending_append last_version_def)
  qed
  have "filter (\<lambda>e. last_version l < version_of e) l = []"
    using assms(2) by (intro filter_above_none ascending_last) (auto simp: m ascending_append)
  moreover have "filter (\<lambda>e. last_version l < version_of e) r = r" using r by (simp add: filter_id_conv)
  moreover have "filter (\<lambda>e. v < version_of e) r = r"
    using r assms(3) by (fastforce simp: filter_id_conv)
  ultimately show ?thesis by (simp add: m)
qed

section \<open>The contract of a source\<close>

text \<open>The states a list of ticks reads, in order: the journal only grows, from \<open>l\<close> on.\<close>

fun journal_grows :: "('x \<Rightarrow> bool) \<Rightarrow> ('x \<Rightarrow> journal_event list) \<Rightarrow> journal_event list \<Rightarrow> 'x poll_wake list \<Rightarrow> bool" where
  "journal_grows ok log l [] \<longleftrightarrow> True"
| "journal_grows ok log l (ShutdownChanged b # ws) \<longleftrightarrow> journal_grows ok log l ws"
| "journal_grows ok log l (Tick x ch_open # ws) \<longleftrightarrow>
     (\<forall>i. ok (x i)) \<and> prefix l (log (x 0)) \<and> (\<forall>i j. i \<le> j \<longrightarrow> prefix (log (x i)) (log (x j))) \<and>
     (\<exists>l'. (\<forall>i. prefix (log (x i)) l') \<and> journal_grows ok log l' ws)"

lemma journal_grows_mono: "journal_grows ok log l ws \<Longrightarrow> prefix k l \<Longrightarrow> journal_grows ok log k ws"
  by (induction ok log l ws rule: journal_grows.induct) (auto intro: prefix_order.trans)

lemma journal_grows_last: "journal_grows ok log l (ws @ [Tick x ch_open]) \<Longrightarrow> ok (x i)"
  by (induction ok log l ws rule: journal_grows.induct) auto

text \<open>No event arrives while a tick reads.\<close>

fun quiet :: "('x \<Rightarrow> journal_event list) \<Rightarrow> 'x poll_wake list \<Rightarrow> bool" where
  "quiet log [] \<longleftrightarrow> True"
| "quiet log (ShutdownChanged b # ws) \<longleftrightarrow> quiet log ws"
| "quiet log (Tick x ch_open # ws) \<longleftrightarrow> (\<forall>i. log (x i) = log (x 0)) \<and> quiet log ws"

definition delivered :: "actor_batch list \<Rightarrow> journal_event list" where
  "delivered bs = concat (map ab_events bs)"

lemma delivered_simps [simp]: "delivered [] = []" "delivered (b # bs) = ab_events b @ delivered bs"
  by (simp_all add: delivered_def)

text \<open>
  A source with a journal of ascending, positive versions, which answers a read with the events above
  the cursor and whose own cursor is the last version.
\<close>

locale actor_source =
  fixes C :: "'x source_calls" and log :: "'x \<Rightarrow> journal_event list" and ok :: "'x \<Rightarrow> bool"
  assumes journal_call: "ok x \<Longrightarrow> call_journal C c x = Inr (filter (\<lambda>e. cu_version c < version_of e) (log x))"
    and cursor_call: "ok x \<Longrightarrow> \<exists>c. call_cursor C x = Inr c \<and> cu_version c = last_version (log x)"
    and log_ascending: "ok x \<Longrightarrow> ascending (log x)"
    and log_positive: "ok x \<Longrightarrow> 0 \<notin> version_of ` set (log x)"
begin

lemma tick_result:
  assumes "poll_tick C paths since x = Inr (r, c)" "\<And>i. ok (x i)"
  shows "case r of
      None \<Rightarrow> c = since \<and> filter (\<lambda>e. cu_version since < version_of e) (log (x 0)) = []
    | Some b \<Rightarrow> ab_events b = filter (\<lambda>e. cu_version since < version_of e) (log (x 0)) \<and>
        cu_version c = last_version (log (x (2 + length (actor_set (map je_actor (ab_events b))))))"
proof -
  let ?ev = "filter (\<lambda>e. cu_version since < version_of e) (log (x 0))"
  let ?ids = "actor_set (map je_actor ?ev)"
  have j: "call_journal C since (x 0) = Inr ?ev" by (rule journal_call [OF assms(2)])
  obtain c' where c': "call_cursor C (x (2 + length ?ids)) = Inr c'"
    "cu_version c' = last_version (log (x (2 + length ?ids)))"
    using cursor_call [OF assms(2)] by blast
  show ?thesis
    using assms(1) c'
    by (cases "if paths then call_paths C (x 1) else Inr []"; cases "read_states C x 2 ?ids")
      (auto simp: poll_tick_def j Let_def split: if_splits)
qed

lemma tick_step:
  assumes "journal_grows ok log l (Tick x ch_open # ws)" "cu_version since \<le> last_version l"
  shows "journal_grows ok log (log (x i)) ws" "last_version (log (x 0)) \<le> last_version (log (x i))"
    "cu_version since \<le> last_version (log (x 0))" "prefix (log (x 0)) (log (x i))" "ok (x i)"
proof -
  have l': "\<And>i. ok (x i)" "prefix l (log (x 0))" "prefix (log (x 0)) (log (x i))"
    "\<exists>l'. prefix (log (x i)) l' \<and> journal_grows ok log l' ws" using assms(1) by auto
  then show "journal_grows ok log (log (x i)) ws" by (blast intro: journal_grows_mono)
  show "last_version (log (x 0)) \<le> last_version (log (x i))"
    using l' last_version_mono log_ascending by blast
  show "cu_version since \<le> last_version (log (x 0))"
    using assms(2) last_version_mono [OF l'(2) log_ascending [OF l'(1)]] by (rule order_trans)
  show "prefix (log (x 0)) (log (x i))" "ok (x i)" by (rule l')+
qed

lemma poll_run_tick:
  assumes "poll_run C paths since (Tick x ch_open # ws) = (r, bs, c)" "\<And>i. ok (x i)"
  obtains (failed) "bs = []" "r \<noteq> None"
  | (idle) "poll_run C paths since ws = (r, bs, c)" "filter (\<lambda>e. cu_version since < version_of e) (log (x 0)) = []"
  | (sent) b c' i bs' where "ch_open" "poll_tick C paths since x = Inr (Some b, c')" "bs = b # bs'"
      "ab_events b = filter (\<lambda>e. cu_version since < version_of e) (log (x 0))"
      "cu_version c' = last_version (log (x i))" "poll_run C paths c' ws = (r, bs', c)"
proof (cases "poll_tick C paths since x")
  case (Inl e)
  with assms(1) show ?thesis by (intro failed) auto
next
  case (Inr rc)
  obtain rb c' where rc: "rc = (rb, c')" by force
  note tick = tick_result [OF Inr [unfolded rc] assms(2)]
  show ?thesis
  proof (cases rb)
    case None
    with assms(1) Inr rc tick idle show ?thesis by simp
  next
    case (Some b)
    with assms(1) Inr rc tick failed sent show ?thesis by (auto split: prod.splits if_splits)
  qed
qed

text \<open>What is delivered from a cursor on is above the cursor, in ascending order.\<close>

lemma poll_ascending:
  "journal_grows ok log l ws \<Longrightarrow> poll_run C paths since ws = (r, bs, c) \<Longrightarrow> cu_version since \<le> last_version l \<Longrightarrow>
     ascending (delivered bs) \<and> (\<forall>e \<in> set (delivered bs). cu_version since < version_of e)"
proof (induction ws arbitrary: l since r bs c)
  case (Cons w ws)
  show ?case
  proof (cases w)
    case (ShutdownChanged b)
    with Cons.IH [of l since r bs c] Cons.prems show ?thesis by (auto simp: ascending_def split: if_splits)
  next
    case (Tick x ch_open)
    note step = tick_step [OF Cons.prems(1) [unfolded Tick] Cons.prems(3)]
    from Cons.prems(2) [unfolded Tick] step(5) show ?thesis
    proof (cases rule: poll_run_tick)
      case failed
      then show ?thesis by (simp add: ascending_def)
    next
      case idle
      from Cons.IH [OF step(1) [of 0] idle(1) step(3)] show ?thesis .
    next
      case (sent b c' i bs')
      have "cu_version c' \<le> last_version (log (x i))" using sent(5) by simp
      from Cons.IH [OF step(1) [of i] sent(6) this]
      have rest: "ascending (delivered bs')" "\<And>e. e \<in> set (delivered bs') \<Longrightarrow> cu_version c' < version_of e" by blast+
      have b: "version_of e \<le> cu_version c'" if "e \<in> set (ab_events b)" for e
        using that ascending_last [OF log_ascending [OF step(5)], of e 0] step(2) [of i] sent(4,5) by auto
      have since: "cu_version since \<le> cu_version c'" using step(2) [of i] step(3) sent(5) by auto
      have ev: "ascending (ab_events b)" "\<And>e. e \<in> set (ab_events b) \<Longrightarrow> cu_version since < version_of e"
        unfolding sent(4) using ascending_filter [OF log_ascending [OF step(5)]] by auto
      have "version_of e < version_of f" if "e \<in> set (ab_events b)" "f \<in> set (delivered bs')" for e f
        using b [OF that(1)] rest(2) [OF that(2)] by (rule order_le_less_trans)
      moreover have "cu_version since < version_of f" if "f \<in> set (delivered bs')" for f
        using since rest(2) [OF that] by (rule order_le_less_trans)
      ultimately show ?thesis
        using rest(1) ev by (auto simp: sent(3) ascending_append)
    qed
  qed
qed (simp add: ascending_def)

text \<open>When nothing arrives while a tick reads, all that the last tick could read has been delivered.\<close>

lemma poll_complete:
  "journal_grows ok log l (ws @ [Tick x True]) \<Longrightarrow> quiet log (ws @ [Tick x True]) \<Longrightarrow>
   poll_run C paths since (ws @ [Tick x True]) = (None, bs, c) \<Longrightarrow> cu_version since \<le> last_version l \<Longrightarrow>
     delivered bs = filter (\<lambda>e. cu_version since < version_of e) (log (x 0)) \<and> prefix l (log (x 0))"
proof (induction ws arbitrary: l since bs c)
  case Nil
  note step = tick_step [OF Nil.prems(1) [simplified append_Nil] Nil.prems(4)]
  from Nil.prems(3) [simplified append_Nil] step(5) show ?case
    by (cases rule: poll_run_tick) (use Nil.prems(1) in auto)
next
  case (Cons w ws)
  show ?case
  proof (cases w)
    case (ShutdownChanged b)
    with Cons.IH [of l since bs c] Cons.prems show ?thesis by (auto split: if_splits)
  next
    case (Tick y ch_open)
    note step = tick_step [OF Cons.prems(1) [unfolded Tick append_Cons] Cons.prems(4)]
    have quiet: "quiet log (ws @ [Tick x True])" "log (y i) = log (y 0)" for i using Cons.prems(2) Tick by auto
    have l: "prefix l (log (y 0))" using Cons.prems(1) Tick by simp
    from Cons.prems(3) [unfolded Tick append_Cons] step(5) show ?thesis
    proof (cases rule: poll_run_tick)
      case idle
      from Cons.IH [OF step(1) [of 0] quiet(1) idle(1) step(3)] l show ?thesis by (auto intro: prefix_order.trans)
    next
      case (sent b c' i bs')
      have c': "cu_version c' = last_version (log (y 0))" using sent(5) quiet(2) [of i] by simp
      from Cons.IH [OF step(1) [of 0] quiet(1) sent(6)] c'
      have rest: "delivered bs' = filter (\<lambda>e. last_version (log (y 0)) < version_of e) (log (x 0))"
        "prefix (log (y 0)) (log (x 0))" by auto
      have "ok (x 0)" using Cons.prems(1) by (rule journal_grows_last)
      with read_twice [OF rest(2) log_ascending step(3) log_positive] rest l show ?thesis
        by (auto simp: sent(3,4) intro: prefix_order.trans)
    qed simp_all
  qed
qed

end

section \<open>The source in memory as a provider\<close>

lemma source_wf_version:
  "source_wf s \<Longrightarrow> i < length (so_journal s) \<Longrightarrow> unat (version_of (so_journal s ! i)) = Suc i"
proof -
  assume s: "source_wf s" and i: "i < length (so_journal s)"
  let ?vs = "map (\<lambda>e. unat (version_of e)) (so_journal s)"
  have "?vs = [1..<Suc (length (so_journal s))]" using s by (simp add: source_wf_def)
  then have "?vs ! i = [1..<Suc (length (so_journal s))] ! i" by (rule arg_cong)
  with i show ?thesis by (simp del: upt_Suc)
qed

interpretation mem_src: actor_source mem_source_calls so_journal source_wf
proof
  fix x :: mem_source and c :: cursor
  assume ok: "source_wf x"
  show "call_journal mem_source_calls c x = Inr (filter (\<lambda>e. cu_version c < version_of e) (so_journal x))"
    by (simp add: mem_source_calls_def source_journal_def)
  have asc: "version_of (so_journal x ! i) < version_of (so_journal x ! j)" if "i < j" "j < length (so_journal x)" for i j
    using source_wf_version [OF ok, of i] source_wf_version [OF ok, of j] that by (simp add: word_less_nat_alt)
  then show "ascending (so_journal x)" by (simp add: ascending_def sorted_wrt_iff_nth_less)
  show "0 \<notin> version_of ` set (so_journal x)"
  proof
    assume "0 \<in> version_of ` set (so_journal x)"
    then obtain i where "i < length (so_journal x)" "version_of (so_journal x ! i) = 0" by (auto simp: in_set_conv_nth)
    with source_wf_version [OF ok, of i] show False by simp
  qed
  have "cu_version (so_cursor x) = last_version (so_journal x)"
  proof (cases "so_journal x = []")
    case True
    with ok show ?thesis by (simp add: source_wf_def last_version_def unsigned_eq_0_iff)
  next
    case False
    then have "unat (version_of (last (so_journal x))) = length (so_journal x)"
      using source_wf_version [OF ok, of "length (so_journal x) - 1"] by (simp add: last_conv_nth)
    also have "\<dots> = unat (cu_version (so_cursor x))" using ok by (simp add: source_wf_def)
    finally have "version_of (last (so_journal x)) = cu_version (so_cursor x)" by (rule unsigned_word_eqI)
    with False show ?thesis by (simp add: last_version_def)
  qed
  then show "\<exists>c. call_cursor mem_source_calls x = Inr c \<and> cu_version c = last_version (so_journal x)"
    by (simp add: mem_source_calls_def)
qed

section \<open>The source on a checkpointer\<close>

definition event_facts :: "journal_event \<Rightarrow> string \<times> supervision_path option \<times> journal_event_kind \<times> json" where
  "event_facts e = (je_actor e, je_path e, je_kind e, je_payload e)"

lemma snap_events_facts:
  "map event_facts (snap_events hexe clock ns sq) =
     List.map_filter (\<lambda>n. map_option (\<lambda>k. (extract_actor hexe n, extract_path n, k, extract_payload n)) (extract_event_kind n)) ns"
  by (induction ns arbitrary: sq)
    (auto simp: List.map_filter_def Let_def event_facts_def je_new_def je_with_payload_def je_with_path_def split: option.split)

section \<open>Properties\<close>

text \<open>
  Polling the source in memory delivers every event at most once and in journal order, whatever
  is pushed while it reads: the delivered versions ascend, above the cursor it resumed from.
\<close>

theorem polling_at_most_once:
  assumes "journal_grows source_wf so_journal l ws" "poll_run mem_source_calls paths since ws = (r, bs, c)"
    and "cu_version since \<le> last_version l"
  shows "ascending (delivered bs) \<and> (\<forall>e \<in> set (delivered bs). cu_version since < version_of e)"
  by (rule mem_src.poll_ascending [OF assms])

text \<open>
  C24: Polling a source in memory, with a cursor that is not ahead of the journal, delivers exactly once every event
  after the cursor that the journal holds at the last tick, provided that no event arrives while a tick reads and that
  the channel stays open. A source on a checkpointer keeps no such promise: \<open>snapshot_source_redelivers\<close> below.
\<close>

theorem polling_exactly_once:
  assumes "journal_grows source_wf so_journal l (ws @ [Tick x True])" "quiet so_journal (ws @ [Tick x True])"
    and "poll_run mem_source_calls paths since (ws @ [Tick x True]) = (None, bs, c)" "cu_version since \<le> last_version l"
  shows "delivered bs = source_journal since (x 0)"
  using mem_src.poll_complete [OF assms] by (simp add: source_journal_def)

text \<open>
  Polling loses the event that arrives while a tick that sends a batch reads: the tick reads the
  journal first and the cursor last, so an event pushed between is in no batch of the whole run.
\<close>

theorem polling_loses_event:
  assumes "journal_grows source_wf so_journal l (Tick x True # ws)" "cu_version since \<le> last_version l"
    and "poll_tick mem_source_calls paths since x = Inr (Some b, c')"
    and "e \<notin> set (so_journal (x 0))" "e \<in> set (so_journal (x (2 + length (actor_set (map je_actor (ab_events b))))))"
    and "poll_run mem_source_calls paths since (Tick x True # ws) = (r, bs, c)"
  shows "e \<notin> set (delivered bs)"
proof -
  let ?j = "2 + length (actor_set (map je_actor (ab_events b)))"
  note step = mem_src.tick_step [OF assms(1,2)]
  have tick: "ab_events b = filter (\<lambda>e. cu_version since < version_of e) (so_journal (x 0))"
    "cu_version c' = last_version (so_journal (x ?j))"
    using mem_src.tick_result [OF assms(3) step(5)] by auto
  obtain bs' where run: "poll_run mem_source_calls paths c' ws = (r, bs', c)" "bs = b # bs'"
    using assms(3,6) by (auto split: prod.splits)
  have "cu_version c' \<le> last_version (so_journal (x ?j))" using tick(2) by simp
  from mem_src.poll_ascending [OF step(1) run(1) this]
  have "\<forall>f \<in> set (delivered bs'). cu_version c' < version_of f" by blast
  moreover have "version_of e \<le> cu_version c'"
    unfolding tick(2) using ascending_last [OF mem_src.log_ascending [OF step(5)] assms(5)] .
  ultimately show ?thesis using assms(4) by (auto simp: run(2) tick(1))
qed

text \<open>
  A source on a checkpointer does not answer with what is new since the cursor: whenever the
  snapshot is newer it answers with every event of the snapshot, under versions of its own. Two reads
  of snapshots with the same ontology return the same events, whatever the cursors.
\<close>

theorem snapshot_source_redelivers:
  assumes "ck_load c = Inr (Some s)" "ck_load c2 = Inr (Some s2)" "sn_ont s2 = sn_ont s"
    and "cu_version since < sn_version s" "cu_version since2 < sn_version s2"
  shows "\<exists>es es2. snap_journal hexe clock ck_load since c = Inr es \<and> snap_journal hexe clock ck_load since2 c2 = Inr es2 \<and>
           map event_facts es2 = map event_facts es"
  using assms by (simp add: snap_journal_def snap_load_def snap_events_facts snap_nodes_def not_le [symmetric])

section \<open>Witnesses\<close>

definition src_one :: mem_source where
  "src_one = push_event (je_new 0 cursor_beginning ''a'' KCreated) source_new"

definition src_two :: mem_source where
  "src_two = push_event (je_new 0 cursor_beginning ''a'' KCompleted) src_one"

lemma src_ex_wf: "source_wf src_one" "source_wf src_two"
proof -
  show one: "source_wf src_one"
    unfolding src_one_def by (rule source_wf_push [OF source_wf_new]) (simp add: source_new_def)
  show "source_wf src_two"
    unfolding src_two_def by (rule source_wf_push [OF one]) (simp add: src_one_def source_new_def push_event_def Let_def)
qed

lemma src_ex_prefix: "prefix (so_journal src_one) (so_journal src_two)"
  by (simp add: src_two_def push_event_def Let_def)

lemma src_ex_grows: "journal_grows source_wf so_journal [] [Tick (\<lambda>i. src_one) True, Tick (\<lambda>i. src_two) True]"
  using src_ex_wf src_ex_prefix by auto

lemma src_ex_race: "journal_grows source_wf so_journal [] [Tick (\<lambda>i. if i = 0 then src_one else src_two) True]"
  using src_ex_wf src_ex_prefix by auto

lemma src_ex_runs:
  "length (delivered (fst (snd (poll_run mem_source_calls False cursor_beginning [Tick (\<lambda>i. src_one) True, Tick (\<lambda>i. src_two) True])))) = 2"
  "fst (poll_run mem_source_calls False cursor_beginning [Tick (\<lambda>i. src_one) True, Tick (\<lambda>i. src_two) True]) = None"
  by code_simp+

lemma polling_at_most_once_witness:
  "\<exists>r bs c. poll_run mem_source_calls False cursor_beginning [Tick (\<lambda>i. src_one) True, Tick (\<lambda>i. src_two) True] = (r, bs, c) \<and>
     length (delivered bs) = 2 \<and> ascending (delivered bs)"
proof -
  obtain r bs c where run:
    "poll_run mem_source_calls False cursor_beginning [Tick (\<lambda>i. src_one) True, Tick (\<lambda>i. src_two) True] = (r, bs, c)"
    by (metis prod_cases3)
  from polling_at_most_once [OF src_ex_grows run] src_ex_runs(1) [unfolded run] run show ?thesis
    by (simp add: cursor_beginning_def)
qed

lemma polling_exactly_once_witness:
  "\<exists>bs c. poll_run mem_source_calls False cursor_beginning [Tick (\<lambda>i. src_one) True, Tick (\<lambda>i. src_two) True] = (None, bs, c) \<and>
     delivered bs = source_journal cursor_beginning src_two"
proof -
  obtain bs c where run:
    "poll_run mem_source_calls False cursor_beginning [Tick (\<lambda>i. src_one) True, Tick (\<lambda>i. src_two) True] = (None, bs, c)"
    using src_ex_runs(2) by (metis fst_conv prod_cases3)
  have "delivered bs = source_journal cursor_beginning src_two"
    by (rule polling_exactly_once [where ws = "[Tick (\<lambda>i. src_one) True]", unfolded append_Cons append_Nil, OF src_ex_grows _ run])
      (simp_all add: cursor_beginning_def last_version_def)
  with run show ?thesis by blast
qed

lemma polling_loses_event_witness:
  "\<exists>r bs c. poll_run mem_source_calls False cursor_beginning [Tick (\<lambda>i. if i = 0 then src_one else src_two) True] = (r, bs, c) \<and>
     last (so_journal src_two) \<notin> set (delivered bs)"
proof -
  let ?x = "\<lambda>i::nat. if i = 0 then src_one else src_two"
  obtain r bs c where run: "poll_run mem_source_calls False cursor_beginning [Tick ?x True] = (r, bs, c)" by (metis prod_cases3)
  have "case poll_tick mem_source_calls False cursor_beginning ?x of Inr (Some b, c) \<Rightarrow> True | _ \<Rightarrow> False" by code_simp
  then obtain b c' where tick: "poll_tick mem_source_calls False cursor_beginning ?x = Inr (Some b, c')"
    by (auto split: sum.splits option.splits)
  have "je_kind (last (so_journal src_two)) = KCompleted" "\<forall>e \<in> set (so_journal src_one). je_kind e = KCreated" by code_simp+
  then have "last (so_journal src_two) \<notin> set (so_journal (?x 0))" by auto
  moreover have "so_journal src_two \<noteq> []" by (simp add: src_two_def push_event_def Let_def)
  ultimately have "last (so_journal src_two) \<notin> set (delivered bs)"
    by (intro polling_loses_event [OF src_ex_race _ tick _ _ run]) (simp_all add: cursor_beginning_def)
  with run show ?thesis by blast
qed

definition snap_ex :: "64 word \<Rightarrow> snapshot" where
  "snap_ex v = \<lparr>sn_ont = upsert_node (node_with_property PROP_EVENT_KIND (PString ''created'')
      \<lparr>n_id = NodeId [], n_iri = None, n_types = [], n_props = []\<rparr>) ontology_new, sn_prov = prov_log_new, sn_version = v\<rparr>"

lemma snapshot_source_redelivers_witness:
  "\<exists>es es2. snap_journal (\<lambda>b. []) (\<lambda>v. 0) mem_ck_load cursor_beginning (Some (snap_ex 1)) = Inr es \<and>
     snap_journal (\<lambda>b. []) (\<lambda>v. 0) mem_ck_load (cursor_at 1) (Some (snap_ex 2)) = Inr es2 \<and> map event_facts es2 = map event_facts es"
  by (rule snapshot_source_redelivers [where s = "snap_ex 1" and ?s2.0 = "snap_ex 2"])
    (simp_all add: mem_ck_load_def snap_ex_def cursor_beginning_def cursor_at_def)

end
