(* ===== verification/Proj_Effect.thy ===== *)
theory Proj_Effect
  imports Proj_Run
begin

text \<open>
  What the projector of \<open>crates/atomr-ontology-actor-projection\<close> does to its store: proved for every
  store that meets \<open>ontology_store\<close>, and stated for the store in memory.
\<close>

section \<open>One batch\<close>

lemma last_with_snoc: "last_with key (xs @ [x]) k = (if key x = k then Some x else last_with key xs k)"
  by (simp add: last_with_append last_with_def [of _ "[x]"])

lemma reconcile_None: "reconcile c old n = None \<longleftrightarrow> c = SkipExisting \<and> old \<noteq> None"
  by (auto simp: reconcile_def split: conflict_resolution.splits option.splits)

text \<open>Nodes are stored under their ids, and their properties are an ordered map.\<close>

definition nodes_ok :: "('s \<Rightarrow> node_id \<Rightarrow> node option) \<Rightarrow> 's \<Rightarrow> bool" where
  "nodes_ok look s \<longleftrightarrow> (\<forall>i n. look s i = Some n \<longrightarrow> n_id n = i \<and> bm_wf (n_props n))"

definition delta_ok :: "delta \<Rightarrow> bool" where
  "delta_ok d \<longleftrightarrow> (\<forall>n \<in> set (d_nodes d). bm_wf (n_props n))"

text \<open>Every type and label in the store is one the schema declares.\<close>

definition declared :: "schema \<Rightarrow> ('s \<Rightarrow> node_id \<Rightarrow> node option) \<Rightarrow> ('s \<Rightarrow> edge_id \<Rightarrow> edge option) \<Rightarrow> 's \<Rightarrow> bool" where
  "declared sch look lookE s \<longleftrightarrow>
     (\<forall>i n. look s i = Some n \<longrightarrow> (\<forall>ty \<in> set (n_types n). node_type sch ty \<noteq> None)) \<and>
     (\<forall>j e. lookE s j = Some e \<longrightarrow> edge_type sch (e_label e) \<noteq> None)"

lemma enforce_Inr:
  "enforce_strict_schema d (Some sch) = Inr () \<longleftrightarrow>
     (\<forall>n \<in> set (d_nodes d). \<forall>ty \<in> set (n_types n). node_type sch ty \<noteq> None) \<and>
     (\<forall>e \<in> set (d_edges d). edge_type sch (e_label e) \<noteq> None)"
proof -
  let ?T = "find (\<lambda>ty. node_type sch ty = None) (concat (map n_types (d_nodes d)))"
  let ?L = "find (\<lambda>l. edge_type sch l = None) (map e_label (d_edges d))"
  have T: "?T = None \<longleftrightarrow> (\<forall>n \<in> set (d_nodes d). \<forall>ty \<in> set (n_types n). node_type sch ty \<noteq> None)"
    and L: "?L = None \<longleftrightarrow> (\<forall>e \<in> set (d_edges d). edge_type sch (e_label e) \<noteq> None)"
    by (auto simp: find_None_iff)
  have "enforce_strict_schema d (Some sch) = Inr () \<longleftrightarrow> ?T = None \<and> ?L = None"
    by (simp add: enforce_strict_schema_def split: option.split)
  then show ?thesis unfolding T L .
qed

lemma fold_insert_absorb:
  "bm_wf m \<Longrightarrow> (\<And>k v. (k, v) \<in> set xs \<Longrightarrow> map_of m k = Some v) \<Longrightarrow> fold (\<lambda>(k, v). bm_insert k v) xs m = m"
  by (induction xs) (auto simp: bm_insert_same)

lemma bm_wf_fold: "bm_wf m \<Longrightarrow> bm_wf (fold (\<lambda>(k, v). bm_insert k v) xs m)"
  by (induction xs arbitrary: m) auto

lemma merge_node_wf: "bm_wf (n_props old) \<Longrightarrow> bm_wf (n_props (merge_node old n))"
  by (simp add: merge_node_def bm_wf_fold)

text \<open>Merging a node again changes nothing, also into itself.\<close>

lemma merge_node_again:
  "bm_wf (n_props old) \<Longrightarrow> bm_wf (n_props n) \<Longrightarrow> merge_node (merge_node old n) n = merge_node old n"
proof -
  assume old: "bm_wf (n_props old)" and n: "bm_wf (n_props n)"
  let ?m = "fold (\<lambda>(k, v). bm_insert k v) (n_props n) (n_props old)"
  have "fold (\<lambda>(k, v). bm_insert k v) (n_props n) ?m = ?m"
    using n bm_wf_fold [OF old] by (intro fold_insert_absorb) (auto simp: fold_props_get bm_wf_rev_get bm_set_iff)
  moreover have "filter (\<lambda>ty. ty \<notin> set (n_types old @ filter (\<lambda>ty. ty \<notin> set (n_types old)) (n_types n))) (n_types n) = []"
    by (auto simp: filter_empty_conv)
  ultimately show ?thesis by (simp add: merge_node_def)
qed

lemma merge_node_self: "bm_wf (n_props n) \<Longrightarrow> merge_node n n = n"
proof -
  assume n: "bm_wf (n_props n)"
  then have "fold (\<lambda>(k, v). bm_insert k v) (n_props n) (n_props n) = n_props n"
    by (rule fold_insert_absorb) (use n in \<open>simp add: bm_set_iff\<close>)
  then show ?thesis by (simp add: merge_node_def)
qed

lemma reconcile_again:
  fixes c :: conflict_resolution
  assumes "bm_wf (n_props n)" "\<And>m. old = Some m \<Longrightarrow> bm_wf (n_props m)"
  defines "new \<equiv> case reconcile c old n of None \<Rightarrow> old | Some m \<Rightarrow> Some m"
  shows "(case reconcile c new n of None \<Rightarrow> new | Some m \<Rightarrow> Some m) = new"
  using assms(1) merge_node_again [OF assms(2,1)] merge_node_self [OF assms(1)]
  by (cases c; cases old) (simp_all add: new_def reconcile_def)

context ontology_store
begin

lemma reconcile_id: "nodes_ok st_node s \<Longrightarrow> reconcile c (st_node s (n_id n)) n = Some m \<Longrightarrow> n_id m = n_id n"
  by (auto simp: reconcile_def nodes_ok_def merge_node_sel(1) split: conflict_resolution.splits option.splits if_splits)

lemma reconcile_last:
  "nodes_ok st_node s \<Longrightarrow> last_with n_id (List.map_filter (\<lambda>n. reconcile c (st_node s (n_id n)) n) ns) i =
     Option.bind (last_with n_id ns i) (reconcile c (st_node s i))"
proof (induction ns rule: rev_induct)
  case (snoc n ns)
  let ?f = "\<lambda>n. reconcile c (st_node s (n_id n)) n"
  have split: "List.map_filter ?f (ns @ [n]) = List.map_filter ?f ns @ (case ?f n of Some m \<Rightarrow> [m] | None \<Rightarrow> [])"
    by (simp add: List.map_filter_def split: option.split)
  show ?case
  proof (cases "?f n")
    case None
    then have skip: "reconcile c (st_node s (n_id n)) m = None" for m by (simp add: reconcile_None)
    have "List.map_filter ?f (ns @ [n]) = List.map_filter ?f ns" using None by (simp add: split)
    with snoc skip show ?thesis
      by (cases "n_id n = i"; cases "last_with n_id ns i") (simp_all add: last_with_snoc)
  next
    case (Some m)
    with reconcile_id [OF snoc.prems Some] snoc show ?thesis
      by (auto simp: split last_with_snoc)
  qed
qed (simp add: last_with_def List.map_filter_def)

text \<open>The effect of a batch that is committed, node by node.\<close>

lemma commit_reconciled:
  assumes "nodes_ok st_node s"
  shows "st_node (snd (st_commit (reconcile_delta st_node c raw s) a s)) i =
     (case last_with n_id (d_nodes raw) i of
        None \<Rightarrow> st_node s i
      | Some n \<Rightarrow> (case reconcile c (st_node s i) n of None \<Rightarrow> st_node s i | Some m \<Rightarrow> Some m))"
proof (cases "c = LastWriteWins")
  case True
  then show ?thesis by (simp add: reconcile_delta_def node_commit reconcile_def split: option.split)
next
  case False
  then show ?thesis
    by (simp add: reconcile_delta_def node_commit reconcile_last [OF assms] split: option.split)
qed

lemma commit_reconciled_edge:
  "st_edge (snd (st_commit (reconcile_delta st_node c raw s) a s)) j =
     (case last_with e_id (d_edges raw) j of None \<Rightarrow> st_edge s j | Some e \<Rightarrow> Some e)"
  by (simp add: reconcile_delta_def edge_commit)

text \<open>A turn of the loop either leaves the store alone or commits the reconciled delta.\<close>

lemma drain_step_cases:
  assumes "drain_step st_node st_commit R P b (rep, k, p, s) = (r, (rep', k', p', s'))"
  obtains (none) "s' = s" "k' = k"
  | (committed) raw where "fst (pr_projection P (projector_ctx P) b p) = Inr raw" "p' = snd (pr_projection P (projector_ctx P) b p)"
      "\<not> batch_is_empty b" "is_strict (pr_schema P) \<longrightarrow> enforce_strict_schema raw (baseline (pr_schema P)) = Inr ()"
      "s' = snd (st_commit (reconcile_delta st_node (pr_conflict P) raw s) (batch_activity R P k b) s)" "k' = Suc k"
proof (cases "batch_is_empty b")
  case True
  with assms none show ?thesis by (simp add: drain_step_def)
next
  case False
  obtain q p1 where q: "pr_projection P (projector_ctx P) b p = (q, p1)" by force
  show ?thesis
  proof (cases q)
    case (Inl e)
    with assms none False q show ?thesis by (simp add: drain_step_def)
  next
    case (Inr raw)
    let ?chk = "if is_strict (pr_schema P) then enforce_strict_schema raw (baseline (pr_schema P)) else Inr ()"
    show ?thesis
    proof (cases ?chk)
      case (Inl e)
      with assms none False q Inr show ?thesis by (simp add: drain_step_def del: split_paired_Ex)
    next
      case chk: (Inr u)
      let ?d = "reconcile_delta st_node (pr_conflict P) raw s"
      show ?thesis
      proof (cases "delta_is_empty ?d")
        case True
        with assms none False q Inr chk show ?thesis by (simp add: drain_step_def Let_def)
      next
        case nonempty: False
        obtain res s1 where com: "st_commit ?d (batch_activity R P k b) s = (res, s1)" by force
        with assms False q Inr chk nonempty have "s' = s1" "k' = Suc k" "p' = p1"
          by (simp_all add: drain_step_def Let_def split: sum.splits)
        with committed [of raw] com q Inr chk False show ?thesis by (simp split: if_splits)
      qed
    qed
  qed
qed

text \<open>What a turn that reports success has done.\<close>

lemma drain_step_success:
  assumes "drain_step st_node st_commit R P b (rep, k, p, s) = (Inr (), (rep', k', p', s'))" "\<not> batch_is_empty b"
    and "pr_conflict P = LastWriteWins"
  obtains raw where "fst (pr_projection P (projector_ctx P) b p) = Inr raw"
    "\<And>i. st_node s' i = (case last_with n_id (d_nodes raw) i of None \<Rightarrow> st_node s i | Some n \<Rightarrow> Some n)"
    "\<And>j. st_edge s' j = (case last_with e_id (d_edges raw) j of None \<Rightarrow> st_edge s j | Some e \<Rightarrow> Some e)"
proof -
  obtain q p1 where q: "pr_projection P (projector_ctx P) b p = (q, p1)" by force
  with assms obtain raw where raw: "q = Inr raw" by (cases q) (simp_all add: drain_step_def)
  let ?a = "batch_activity R P k b"
  have "s' = (if delta_is_empty raw then s else snd (st_commit raw ?a s))"
    using assms q raw by (auto simp: drain_step_def Let_def reconcile_delta_def split: sum.splits prod.splits if_splits)
  then have "st_node s' i = (case last_with n_id (d_nodes raw) i of None \<Rightarrow> st_node s i | Some n \<Rightarrow> Some n)"
    "st_edge s' j = (case last_with e_id (d_edges raw) j of None \<Rightarrow> st_edge s j | Some e \<Rightarrow> Some e)" for i j
    by (simp_all add: node_commit edge_commit delta_is_empty_def last_with_def)
  with that q raw show ?thesis by simp
qed

lemma reconciled_ok:
  "nodes_ok st_node s \<Longrightarrow> delta_ok raw \<Longrightarrow> nodes_ok st_node (snd (st_commit (reconcile_delta st_node c raw s) a s))"
  unfolding nodes_ok_def [of _ "snd _"]
  by (auto simp: commit_reconciled nodes_ok_def delta_ok_def reconcile_def merge_node_sel(1) merge_node_wf
      dest!: last_with_Some split: option.splits conflict_resolution.splits if_splits)

lemma reconciled_declared:
  "nodes_ok st_node s \<Longrightarrow> declared sch st_node st_edge s \<Longrightarrow> enforce_strict_schema raw (Some sch) = Inr () \<Longrightarrow>
     declared sch st_node st_edge (snd (st_commit (reconcile_delta st_node c raw s) a s))"
  unfolding declared_def [of _ _ _ "snd _"] enforce_Inr
  by (auto simp: commit_reconciled commit_reconciled_edge declared_def reconcile_def merge_node_sel(2)
      dest!: last_with_Some split: option.splits conflict_resolution.splits if_splits)

lemma drain_declared:
  assumes "pr_schema P = FixedSchema sch"
    and wf: "\<And>b p raw. fst (pr_projection P (projector_ctx P) b p) = Inr raw \<Longrightarrow> delta_ok raw"
  shows "drain st_node st_commit R P bs (rep, k, p, s) = (r, (rep', k', p', s')) \<Longrightarrow>
    nodes_ok st_node s \<Longrightarrow> declared sch st_node st_edge s \<Longrightarrow> nodes_ok st_node s' \<and> declared sch st_node st_edge s'"
proof (induction bs arbitrary: rep k p s)
  case (Cons b bs)
  obtain r1 rep1 k1 p1 s1 where step: "drain_step st_node st_commit R P b (rep, k, p, s) = (r1, (rep1, k1, p1, s1))"
    by (metis prod_cases4)
  from step have "nodes_ok st_node s1 \<and> declared sch st_node st_edge s1"
  proof (cases rule: drain_step_cases)
    case (committed raw)
    then show ?thesis
      using assms(1) reconciled_ok [OF Cons.prems(2) wf] reconciled_declared [OF Cons.prems(2,3)]
      by (simp add: is_strict_def baseline_def)
  qed (use Cons.prems in simp)
  with Cons.IH [of rep1 k1 p1 s1] Cons.prems(1) step show ?case by (cases r1) auto
qed auto

text \<open>Committing what was committed before changes nothing.\<close>

lemma reconciled_again:
  fixes c :: conflict_resolution and a a' :: activity
  assumes "nodes_ok st_node s" "delta_ok raw"
  defines "s1 \<equiv> snd (st_commit (reconcile_delta st_node c raw s) a s)"
  defines "s2 \<equiv> snd (st_commit (reconcile_delta st_node c raw s1) a' s1)"
  shows "st_node s2 i = st_node s1 i" "st_edge s2 j = st_edge s1 j"
proof -
  have s1: "nodes_ok st_node s1" unfolding s1_def by (rule reconciled_ok [OF assms(1,2)])
  show "st_node s2 i = st_node s1 i"
  proof (cases "last_with n_id (d_nodes raw) i")
    case None
    then show ?thesis unfolding s2_def by (simp add: commit_reconciled [OF s1])
  next
    case (Some n)
    then have "bm_wf (n_props n)" using assms(2) by (auto simp: delta_ok_def dest: last_with_Some)
    with reconcile_again [of n "st_node s i" c] assms(1)
    have again: "(case reconcile c (case reconcile c (st_node s i) n of None \<Rightarrow> st_node s i | Some m \<Rightarrow> Some m) n of
        None \<Rightarrow> (case reconcile c (st_node s i) n of None \<Rightarrow> st_node s i | Some m \<Rightarrow> Some m) | Some m \<Rightarrow> Some m) =
      (case reconcile c (st_node s i) n of None \<Rightarrow> st_node s i | Some m \<Rightarrow> Some m)"
      by (simp add: nodes_ok_def)
    have at: "st_node s1 i = (case reconcile c (st_node s i) n of None \<Rightarrow> st_node s i | Some m \<Rightarrow> Some m)"
      unfolding s1_def by (simp add: commit_reconciled [OF assms(1)] Some)
    show ?thesis unfolding s2_def commit_reconciled [OF s1] Some option.case at again ..
  qed
  show "st_edge s2 j = st_edge s1 j"
    unfolding s2_def commit_reconciled_edge by (simp add: s1_def commit_reconciled_edge split: option.split)
qed

end

section \<open>The strategies conform to the actor schema\<close>

definition conforms :: "delta \<Rightarrow> bool" where
  "conforms d \<longleftrightarrow> delta_ok d \<and> enforce_strict_schema d (Some actor_schema) = Inr ()"

definition actor_type :: "string \<Rightarrow> bool" where "actor_type ty \<longleftrightarrow> node_type actor_schema ty \<noteq> None"
definition actor_label :: "string \<Rightarrow> bool" where "actor_label l \<longleftrightarrow> edge_type actor_schema l \<noteq> None"

definition node_conforms :: "node \<Rightarrow> bool" where
  "node_conforms n \<longleftrightarrow> bm_wf (n_props n) \<and> (\<forall>ty \<in> set (n_types n). actor_type ty)"

lemma conforms_with [simp]:
  "conforms delta_new" "conforms (delta_with_node n d) \<longleftrightarrow> conforms d \<and> node_conforms n"
  "conforms (delta_with_edge e d) \<longleftrightarrow> conforms d \<and> actor_label (e_label e)"
  by (auto simp: conforms_def node_conforms_def actor_type_def actor_label_def enforce_Inr delta_ok_def delta_new_def delta_with_node_def delta_with_edge_def)

lemma actor_schema_types [simp]:
  "actor_type NODE_ACTOR" "actor_type NODE_RUN"
  "actor_type NODE_EVENT" "actor_type NODE_STATE"
  "actor_type (type_for_segment depth seg)"
proof -
  have 1: "list_all (\<lambda>ty. actor_type ty)
      [NODE_ACTOR, NODE_RUN, NODE_EVENT, NODE_STATE, NODE_WORKFLOW, NODE_STEP, NODE_PATH_SEGMENT]"
    by code_simp
  then show "actor_type NODE_ACTOR" "actor_type NODE_RUN"
    "actor_type NODE_EVENT" "actor_type NODE_STATE"
    "actor_type (type_for_segment depth seg)"
    by (simp_all add: type_for_segment_def)
qed

lemma actor_schema_labels [simp]:
  "actor_label EDGE_SUPERVISES" "actor_label EDGE_EMITTED"
  "actor_label EDGE_HOLDS_STATE" "actor_label EDGE_SUCCESSOR"
  by code_simp+

lemma node_conforms_property [simp]: "node_conforms n \<Longrightarrow> node_conforms (node_with_property k v n)"
  by (simp add: node_conforms_def node_with_property_def)

lemma node_conforms_fold: "node_conforms n \<Longrightarrow> node_conforms (fold (\<lambda>(k, v). node_with_property k (g v)) ps n)"
  by (induction ps arbitrary: n) auto

lemma node_conforms_base [simp]:
  "node_conforms \<lparr>n_id = i, n_iri = iri, n_types = tys, n_props = []\<rparr> \<longleftrightarrow> (\<forall>ty \<in> set tys. actor_type ty)"
  by (simp add: node_conforms_def)

lemma nodes_conform [simp]:
  "node_conforms (segment_node cx prefix depth seg attrs leaf i iri)" "node_conforms (event_node E cx e i iri)"
  "node_conforms (stream_event_node E cx e i iri)" "node_conforms (flat_node cx wfl run b i iri)"
  "node_conforms (diff_path_node cx key i iri)"
  by (simp_all add: segment_node_def event_node_def stream_event_node_def flat_node_def diff_path_node_def Let_def
      node_conforms_fold split: option.split)

lemma state_node_conforms [simp]: "node_conforms (state_node cx st i)"
  by (simp add: node_conforms_def state_node_def)

lemma insert_segments_conforms:
  "insert_segments E cx path segs prefix prev (d, ids, k) = Inr (d', ids', k') \<Longrightarrow> conforms d \<Longrightarrow> conforms d'"
proof (induction segs arbitrary: prefix prev d ids k)
  case (Cons ds segs)
  obtain depth seg where ds: "ds = (depth, seg)" by force
  let ?p = "prefix @ CHR ''/'' # seg"
  from Cons.prems(1) obtain i iri where mint: "mint_actor E (cx_iri cx) k (sp_parse ?p) = Inr (i, iri)"
    by (cases "mint_actor E (cx_iri cx) k (sp_parse ?p)") (auto simp: ds Let_def)
  let ?n = "segment_node cx ?p depth seg (sp_attrs path) (depth + 1 = length (sp_segments path)) i iri"
  define d1 where "d1 = (if bm_contains ids ?p then d else delta_with_node ?n d)"
  define d2 where "d2 = (case prev of Some parent \<Rightarrow> delta_with_edge (edge_between (env_hash E) parent EDGE_SUPERVISES i) d1
     | None \<Rightarrow> d1)"
  have "insert_segments E cx path segs ?p (Some i) (d2, if bm_contains ids ?p then ids else bm_insert ?p i ids, Suc k) =
      Inr (d', ids', k')"
    using Cons.prems(1) mint by (cases prev) (auto simp: ds Let_def d2_def d1_def split: if_splits)
  moreover have "conforms d2" using Cons.prems(2) by (simp add: d2_def d1_def split: option.split)
  ultimately show ?case by (rule Cons.IH)
qed simp

lemma hier_conforms: "hier_project E cx b k = Inr (d, k') \<Longrightarrow> conforms d"
proof -
  assume h: "hier_project E cx b k = Inr (d, k')"
  then obtain st1 where 1: "try_fold (insert_path E cx) (ab_paths b) (delta_new, [], k) = Inr st1"
    by (cases "try_fold (insert_path E cx) (ab_paths b) (delta_new, [], k)") (auto simp: hier_project_def)
  with h obtain st2 where 2: "try_fold (hier_event E cx) (ab_events b) st1 = Inr st2"
    by (cases "try_fold (hier_event E cx) (ab_events b) st1") (auto simp: hier_project_def)
  from 1 2 h have 3: "fst (fold (hier_state_step E cx) (ab_states b) st2) = d"
    by (auto simp: hier_project_def split: prod.splits)
  have path: "conforms (fst t)" if "conforms (fst s)" "insert_path E cx p s = Inr t" for p s t
    using that insert_segments_conforms [of E cx p "iter_segments p" "[]" None "fst s" "fst (snd s)" "snd (snd s)"]
    by (cases s; cases t) (simp add: insert_path_def)
  have "conforms (fst st1)" by (rule try_fold_invariant [OF 1, of "conforms \<circ> fst", unfolded o_def]) (use path in simp_all)
  then have "conforms (fst st2)"
  proof (rule try_fold_invariant [OF 2, of "conforms \<circ> fst", unfolded o_def])
    fix e s t
    assume s: "conforms (fst s)" and step: "hier_event E cx e s = Inr t"
    show "conforms (fst t)"
    proof (cases "je_path e")
      case None
      with s step show ?thesis by (cases s) (auto simp: hier_event_def Let_def split: sum.splits)
    next
      case (Some p)
      with step obtain u where u: "insert_path E cx p s = Inr u"
        by (cases "insert_path E cx p s") (auto simp: hier_event_def)
      from path [OF s u] step Some u show ?thesis
        by (cases u) (auto simp: hier_event_def Let_def split: sum.splits option.splits)
    qed
  qed
  then have "conforms (fst (fold (hier_state_step E cx) (ab_states b) st2))"
    by (rule fold_invariant [of "conforms \<circ> fst", unfolded o_def])
      (auto simp: hier_state_step_def Let_def split: prod.splits option.splits)
  with 3 show ?thesis by simp
qed

lemma stream_conforms: "stream_events E cx es prev (d, k) = Inr (d', k') \<Longrightarrow> conforms d \<Longrightarrow> conforms d'"
proof (induction es arbitrary: prev d k)
  case (Cons e es)
  from Cons.prems obtain i iri where mint: "mint_event E (cx_iri cx) k e = Inr (i, iri)"
    by (cases "mint_event E (cx_iri cx) k e") auto
  with Cons show ?case by (cases prev) (auto simp: Let_def)
qed simp

lemma flat_conforms: "flat_project E cx b k = Inr (d, k') \<Longrightarrow> conforms d"
proof -
  assume h: "flat_project E cx b k = Inr (d, k')"
  then have "try_fold (flat_bucket_node E cx) (flat_buckets E b) delta_new = Inr d"
    by (cases "try_fold (flat_bucket_node E cx) (flat_buckets E b) delta_new") (auto simp: flat_project_def)
  then show ?thesis
    by (rule try_fold_invariant) (auto simp: flat_bucket_node_def split: sum.splits prod.splits)
qed

lemma diff_conforms: "diff_project E cx b k seen = (Inr (d, k'), seen') \<Longrightarrow> conforms d"
proof -
  have paths: "conforms d'" if "diff_paths E cx ps (d, k) seen = (Inr (d', k'), seen')" "conforms d" for ps d k seen d' k' seen'
    using that
  proof (induction ps arbitrary: d k seen)
    case (Cons p ps)
    then show ?case by (auto simp: Let_def split: if_splits sum.splits)
  qed simp
  have events: "conforms d'" if "diff_events E cx es prev (d, k) seen = (Inr (d', k'), seen')" "conforms d"
    for es prev d k seen d' k' seen'
    using that
  proof (induction es arbitrary: prev d k seen)
    case (Cons e es)
    then show ?case by (auto simp: Let_def split: if_splits sum.splits option.splits)
  qed simp
  have states: "conforms (fst (fold (diff_one_state E cx) ss st))" if "conforms (fst st)" for ss st
    using that by (rule fold_invariant [of "conforms \<circ> fst", unfolded o_def])
      (auto simp: diff_one_state_def Let_def split: prod.splits)
  assume h: "diff_project E cx b k seen = (Inr (d, k'), seen')"
  then obtain d1 k1 seen1 where 1: "diff_paths E cx (ab_paths b) (delta_new, k) seen = (Inr (d1, k1), seen1)"
    by (auto simp: diff_project_def split: prod.splits sum.splits)
  with h obtain d2 k2 seen2 where 2: "diff_events E cx (ab_events b) None (d1, k1) seen1 = (Inr (d2, k2), seen2)"
    by (auto simp: diff_project_def split: prod.splits sum.splits)
  from 1 2 h have "fst (fold (diff_one_state E cx) (ab_states b) (d2, seen2)) = d"
    by (auto simp: diff_project_def split: prod.splits)
  with states [of "(d2, seen2)" "ab_states b"] events [OF 2 paths [OF 1]] show ?thesis by simp
qed

section \<open>A projection does not depend on the ids minted before\<close>

lemma try_fold_rel:
  "(\<And>x s t. x \<in> set xs \<Longrightarrow> Q s t \<Longrightarrow> rel_sum (=) Q (f x s) (f x t)) \<Longrightarrow> Q s t \<Longrightarrow>
     rel_sum (=) Q (try_fold f xs s) (try_fold f xs t)"
proof (induction xs arbitrary: s t)
  case (Cons x xs)
  have "rel_sum (=) Q (f x s) (f x t)" using Cons.prems by simp
  then show ?case using Cons.IH Cons.prems(1) by (cases "f x s"; cases "f x t") auto
qed simp

text \<open>States equal up to the number of minted ids.\<close>

definition same_tree :: "hier_state \<Rightarrow> hier_state \<Rightarrow> bool" where
  "same_tree s t \<longleftrightarrow> fst s = fst t \<and> fst (snd s) = fst (snd t)"

lemma insert_segments_same:
  "cx_iri cx \<noteq> UuidMinting \<Longrightarrow>
   rel_sum (=) same_tree (insert_segments E cx path segs prefix prev (d, ids, j)) (insert_segments E cx path segs prefix prev (d, ids, k))"
proof (induction segs arbitrary: prefix prev d ids j k)
  case Nil
  then show ?case by (simp add: same_tree_def)
next
  case (Cons ds segs)
  obtain depth seg where ds: "ds = (depth, seg)" by force
  have "mint_actor E (cx_iri cx) j p = mint_actor E (cx_iri cx) k p" for p
    using mint_stable(1) [OF Cons.prems, of E j p] mint_stable(1) [OF Cons.prems, of E k p] by simp
  then show ?case
    using Cons.IH [OF Cons.prems] by (cases "mint_actor E (cx_iri cx) k (sp_parse (prefix @ CHR ''/'' # seg))") (auto simp: ds Let_def)
qed

lemma insert_path_same:
  "cx_iri cx \<noteq> UuidMinting \<Longrightarrow> same_tree s t \<Longrightarrow> rel_sum (=) same_tree (insert_path E cx p s) (insert_path E cx p t)"
  using insert_segments_same [of cx E p "iter_segments p" "[]" None "fst s" "fst (snd s)" "snd (snd s)" "snd (snd t)"]
    same_tree_def [of s t] by (cases s; cases t) (simp add: insert_path_def)

lemma hier_event_same:
  assumes "cx_iri cx \<noteq> UuidMinting" "same_tree s t"
  shows "rel_sum (=) same_tree (hier_event E cx e s) (hier_event E cx e t)"
proof -
  let ?ins = "\<lambda>s. case je_path e of Some path \<Rightarrow> insert_path E cx path s | None \<Rightarrow> Inr s"
  have "rel_sum (=) same_tree (?ins s) (?ins t)"
    using assms(2) insert_path_same [OF assms] by (cases "je_path e") simp_all
  moreover obtain r where "\<And>k. mint_event E (cx_iri cx) k e = r" using mint_stable(2) [OF assms(1)] by blast
  ultimately show ?thesis
    by (cases "?ins s"; cases "?ins t"; cases r)
      (auto simp: hier_event_def same_tree_def Let_def split: sum.splits)
qed

lemma hier_states_same:
  "same_tree s t \<Longrightarrow> same_tree (fold (hier_state_step E cx) ss s) (fold (hier_state_step E cx) ss t)"
proof (induction ss arbitrary: s t)
  case (Cons x ss)
  have "same_tree (hier_state_step E cx x s) (hier_state_step E cx x t)"
    using Cons.prems by (cases s; cases t) (auto simp: hier_state_step_def same_tree_def Let_def)
  with Cons.IH show ?case by simp
qed simp

lemma hier_project_same:
  assumes "cx_iri cx \<noteq> UuidMinting"
  shows "map_sum id fst (hier_project E cx b j) = map_sum id fst (hier_project E cx b k)"
proof -
  let ?start = "\<lambda>k. (delta_new, [] :: (string, node_id) bmap, k :: nat)"
  have 1: "rel_sum (=) same_tree (try_fold (insert_path E cx) (ab_paths b) (?start j))
      (try_fold (insert_path E cx) (ab_paths b) (?start k))"
    by (rule try_fold_rel) (use insert_path_same [OF assms] in \<open>auto simp: same_tree_def\<close>)
  have 2: "rel_sum (=) same_tree (try_fold (hier_event E cx) (ab_events b) s) (try_fold (hier_event E cx) (ab_events b) t)"
    if "same_tree s t" for s t
    by (rule try_fold_rel) (use hier_event_same [OF assms] that in auto)
  have 3: "fst (fold (hier_state_step E cx) (ab_states b) s) = fst (fold (hier_state_step E cx) (ab_states b) t)"
    if "same_tree s t" for s t using hier_states_same [OF that] by (simp add: same_tree_def)
  have fin: "map_sum id fst (case x of (d, _, k) \<Rightarrow> Inr (d, k)) = Inr (fst x)" for x :: hier_state by (cases x) simp
  have rest: "map_sum id fst (try_then (try_fold (hier_event E cx) (ab_events b) s)
        (\<lambda>st. case fold (hier_state_step E cx) (ab_states b) st of (d, _, k) \<Rightarrow> Inr (d, k))) =
      (map_sum id fst (try_then (try_fold (hier_event E cx) (ab_events b) t)
        (\<lambda>st. case fold (hier_state_step E cx) (ab_states b) st of (d, _, k) \<Rightarrow> Inr (d, k))) :: projection_error + delta)"
    if "same_tree s t" for s t
    using 2 [OF that] 3
    by (cases "try_fold (hier_event E cx) (ab_events b) s"; cases "try_fold (hier_event E cx) (ab_events b) t")
      (simp_all add: fin)
  show ?thesis
    using 1 rest
    by (cases "try_fold (insert_path E cx) (ab_paths b) (?start j)"; cases "try_fold (insert_path E cx) (ab_paths b) (?start k)")
      (auto simp: hier_project_def)
qed

section \<open>Properties\<close>

lemma look_fst:
  "nodes_ok (\<lambda>sc. look (fst sc)) sc \<longleftrightarrow> nodes_ok look (fst sc)"
  "declared sch (\<lambda>sc. look (fst sc)) (\<lambda>sc. lookE (fst sc)) sc \<longleftrightarrow> declared sch look lookE (fst sc)"
  by (simp_all add: nodes_ok_def declared_def)

text \<open>The context a projector passes on is that of its policies.\<close>

lemma projector_ctx_iri [simp]: "cx_iri (projector_ctx P) = pr_iri P"
  by (simp add: projector_ctx_def)

lemma lift_projection_Inr: "fst (lift_projection f cx b p) = Inr raw \<longleftrightarrow> map_sum id fst (f cx b p) = Inr raw"
  by (auto simp: lift_projection_def split: sum.splits)

text \<open>
  Every strategy stays inside the actor schema: whatever the batch, the node types and edge labels
  of its delta are declared there, so a projector with that fixed schema rejects none of its deltas.
\<close>

theorem strategies_conform:
  "(hier_project E cx b k = Inr (d, k') \<longrightarrow> enforce_strict_schema d (Some actor_schema) = Inr ()) \<and>
   (stream_project E cx b k = Inr (d, k') \<longrightarrow> enforce_strict_schema d (Some actor_schema) = Inr ()) \<and>
   (flat_project E cx b k = Inr (d, k') \<longrightarrow> enforce_strict_schema d (Some actor_schema) = Inr ()) \<and>
   (diff_project E cx b k seen = (Inr (d, k'), seen') \<longrightarrow> enforce_strict_schema d (Some actor_schema) = Inr ())"
proof -
  have ok: "conforms d \<Longrightarrow> enforce_strict_schema d (Some actor_schema) = Inr ()" by (simp add: conforms_def)
  have 1: "hier_project E cx b k = Inr (d, k') \<Longrightarrow> enforce_strict_schema d (Some actor_schema) = Inr ()"
    "flat_project E cx b k = Inr (d, k') \<Longrightarrow> enforce_strict_schema d (Some actor_schema) = Inr ()"
    "diff_project E cx b k seen = (Inr (d, k'), seen') \<Longrightarrow> enforce_strict_schema d (Some actor_schema) = Inr ()"
    by (erule ok [OF hier_conforms] ok [OF flat_conforms] ok [OF diff_conforms])+
  have 2: "stream_project E cx b k = Inr (d, k') \<Longrightarrow> enforce_strict_schema d (Some actor_schema) = Inr ()"
    unfolding stream_project_def by (erule ok [OF stream_conforms]) simp
  from 1 2 show ?thesis by blast
qed

text \<open>The properties of the nodes that the four strategies make are ordered maps.\<close>

lemma strategies_delta_ok:
  "fst (lift_projection (hier_project E) cx b k) = Inr raw \<Longrightarrow> delta_ok raw"
  "fst (lift_projection (stream_project E) cx b k) = Inr raw \<Longrightarrow> delta_ok raw"
  "fst (lift_projection (flat_project E) cx b k) = Inr raw \<Longrightarrow> delta_ok raw"
  "fst (diff_projection E cx b p) = Inr raw \<Longrightarrow> delta_ok raw"
proof -
  have ok: "conforms raw \<Longrightarrow> delta_ok raw" by (simp add: conforms_def)
  have stream: "stream_project E cx b k = Inr (raw, k') \<Longrightarrow> conforms raw" for k'
    unfolding stream_project_def by (erule stream_conforms) simp
  show "fst (lift_projection (hier_project E) cx b k) = Inr raw \<Longrightarrow> delta_ok raw"
    "fst (lift_projection (stream_project E) cx b k) = Inr raw \<Longrightarrow> delta_ok raw"
    "fst (lift_projection (flat_project E) cx b k) = Inr raw \<Longrightarrow> delta_ok raw"
    using hier_conforms stream flat_conforms by (auto simp: lift_projection_def intro!: ok split: sum.splits)
  show "fst (diff_projection E cx b p) = Inr raw \<Longrightarrow> delta_ok raw"
    using diff_conforms by (auto simp: diff_projection_def intro!: ok split: sum.splits prod.splits)
qed

text \<open>
  C13: With a fixed schema a run of the projector keeps the persistent store inside it, whatever the projection, built
  in or not, whatever the conflict policy and however the run ends, failed checkpoints and rejected batches included.
  (The properties of the nodes in a delta are ordered maps, as \<open>strategies_delta_ok\<close> shows of the four built-in projections.)
\<close>

theorem strict_schema_kept:
  assumes "run_inner (\<lambda>sc. pers_node (fst sc)) (pers_commit ck_save label) R P bs ends (p, sc) = (r, (p', sc'))"
    and "pr_schema P = FixedSchema sch" "\<And>b q raw. fst (pr_projection P (projector_ctx P) b q) = Inr raw \<Longrightarrow> delta_ok raw"
    and "nodes_ok pers_node (fst sc)" "declared sch pers_node pers_edge (fst sc)"
  shows "nodes_ok pers_node (fst sc') \<and> declared sch pers_node pers_edge (fst sc')"
proof -
  obtain r1 rep k where
    "drain (\<lambda>sc. pers_node (fst sc)) (pers_commit ck_save label) R P bs (projector_report_new, 0, p, sc) = (r1, (rep, k, p', sc'))"
    using assms(1) by (auto simp: run_inner_def split: prod.splits sum.splits)
  from pers.drain_declared [OF assms(2) _ this, unfolded look_fst] assms(3-5) show ?thesis by blast
qed

text \<open>
  C18: What a batch does to the store, whether or not its checkpoint is written: node by node the last
  node the projection made for an id replaces the stored one, is dropped for it, or is merged into it,
  as the policy says; ids the projection does not mention keep their node. Edges are replaced.
\<close>

theorem projector_batch_effect:
  assumes "drain_step (\<lambda>sc. pers_node (fst sc)) (pers_commit ck_save label) R P b (rep, k, p, sc) = (r, (rep', k', p', sc'))"
    and "k' = Suc k" "fst (pr_projection P (projector_ctx P) b p) = Inr raw" "nodes_ok pers_node (fst sc)"
  shows "pers_node (fst sc') i =
       (case last_with n_id (d_nodes raw) i of
          None \<Rightarrow> pers_node (fst sc) i
        | Some n \<Rightarrow>
            (case pr_conflict P of
               LastWriteWins \<Rightarrow> Some n
             | SkipExisting \<Rightarrow> Some (case pers_node (fst sc) i of None \<Rightarrow> n | Some old \<Rightarrow> old)
             | MergeNodes \<Rightarrow> Some (case pers_node (fst sc) i of None \<Rightarrow> n | Some old \<Rightarrow> merge_node old n))) \<and>
       pers_edge (fst sc') j = (case last_with e_id (d_edges raw) j of None \<Rightarrow> pers_edge (fst sc) j | Some e \<Rightarrow> Some e)"
proof -
  from pers.drain_step_cases [OF assms(1)] assms(2,3) obtain a where
    sc': "sc' = snd (pers_commit ck_save label (reconcile_delta (\<lambda>sc. pers_node (fst sc)) (pr_conflict P) raw sc) a sc)"
    by (cases rule: pers.drain_step_cases [OF assms(1)]) auto
  have ok: "nodes_ok (\<lambda>sc. pers_node (fst sc)) sc" using assms(4) by (simp add: look_fst)
  show ?thesis
    unfolding sc' pers.commit_reconciled [OF ok] pers.commit_reconciled_edge
    by (auto simp: reconcile_def split: option.split conflict_resolution.split)
qed

text \<open>
  Projecting a batch again changes nothing: under every conflict policy a second hierarchical
  projection of the same batch leaves each node and edge as the first left it, if ids are not fresh UUIDs.
\<close>

theorem projecting_again_idempotent:
  assumes "drain_step (\<lambda>sc. pers_node (fst sc)) (pers_commit ck_save label) R P b (rep, k, p, sc) = (r, (rep1, Suc k, p1, sc1))"
    and "drain_step (\<lambda>sc. pers_node (fst sc)) (pers_commit ck_save label) R P b (rep1, Suc k, p1, sc1) = (r2, (rep2, k2, p2, sc2))"
    and "pr_projection P = lift_projection (hier_project E)" "pr_iri P \<noteq> UuidMinting" "nodes_ok pers_node (fst sc)"
  shows "pers_node (fst sc2) i = pers_node (fst sc1) i \<and> pers_edge (fst sc2) j = pers_edge (fst sc1) j"
proof -
  have ok: "nodes_ok (\<lambda>sc. pers_node (fst sc)) sc" using assms(5) by (simp add: look_fst)
  obtain raw a where raw: "fst (pr_projection P (projector_ctx P) b p) = Inr raw" and
    sc1: "sc1 = snd (pers_commit ck_save label (reconcile_delta (\<lambda>sc. pers_node (fst sc)) (pr_conflict P) raw sc) a sc)"
    by (cases rule: pers.drain_step_cases [OF assms(1)]) auto
  have "delta_ok raw"
    using raw hier_conforms by (auto simp: assms(3) lift_projection_def conforms_def split: sum.splits)
  note again = pers.reconciled_again [OF ok this, where ck_save = ck_save and label = label and c = "pr_conflict P" and a = a, folded sc1]
  have same: "fst (pr_projection P (projector_ctx P) b p1) = Inr raw"
    using raw hier_project_same [of "projector_ctx P" E b p p1] assms(4) by (simp add: assms(3) lift_projection_Inr)
  show ?thesis by (cases rule: pers.drain_step_cases [OF assms(2)]) (use same again in simp_all)
qed





section \<open>Witnesses\<close>

definition run_ex_env :: run_env where
  "run_ex_env = \<lparr>re_activity = (\<lambda>k. ProvenanceId (replicate k 0)), re_started = (\<lambda>k. 0), re_ended = (\<lambda>k. 0)\<rparr>"

definition run_ex_projector :: "conflict_resolution \<Rightarrow> schema_strategy \<Rightarrow> nat projector" where
  "run_ex_projector c sch = \<lparr>pr_projection = lift_projection (hier_project proj_ex_env), pr_label = ''hierarchical'',
     pr_iri = ContentAddressed, pr_conflict = c, pr_schema = sch, pr_source_label = ''demo'', pr_agent = default_projector_agent\<rparr>"

definition run_ex_step :: "conflict_resolution \<Rightarrow> (nat, pers_state \<times> snapshot option) run_state \<Rightarrow>
    (projector_error + unit) \<times> (nat, pers_state \<times> snapshot option) run_state" where
  "run_ex_step c = drain_step (\<lambda>sc. pers_node (fst sc)) (pers_commit mem_ck_save ''m'') run_ex_env
     (run_ex_projector c InducedSchema) proj_ex_batch"

definition run_ex_start :: "(nat, pers_state \<times> snapshot option) run_state" where
  "run_ex_start = (projector_report_new, 0, 0, pers_default, None)"

lemma nodes_ok_default: "nodes_ok pers_node pers_default" "declared sch pers_node pers_edge pers_default"
  by (simp_all add: nodes_ok_def declared_def pers_node_def pers_edge_def pers_default_def)

lemma run_ex_counts:
  "fst (snd (snd (run_ex_step MergeNodes run_ex_start))) = 1"
  "fst (snd (snd (run_ex_step MergeNodes (snd (run_ex_step MergeNodes run_ex_start))))) = 2"
  by code_simp+

lemma strategies_conform_witness:
  "\<exists>d k'. hier_project proj_ex_env (proj_ex_cx ContentAddressed) proj_ex_batch 0 = Inr (d, k') \<and>
     enforce_strict_schema d (Some actor_schema) = Inr ()"
proof -
  let ?r = "hier_project proj_ex_env (proj_ex_cx ContentAddressed) proj_ex_batch 0"
  obtain d k' where r: "?r = Inr (d, k')" using proj_ex_project(1) by (cases ?r) auto
  with strategies_conform [of proj_ex_env "proj_ex_cx ContentAddressed" proj_ex_batch 0 d k'] r show ?thesis by blast
qed

lemma strict_schema_kept_witness:
  "\<exists>r p' sc'. run_inner (\<lambda>sc. pers_node (fst sc)) (pers_commit mem_ck_save ''m'') run_ex_env
       (run_ex_projector MergeNodes (FixedSchema actor_schema)) [proj_ex_batch] [TaskDone] (0, (pers_default, None)) = (r, (p', sc')) \<and>
     declared actor_schema pers_node pers_edge (fst sc')"
proof -
  let ?P = "run_ex_projector MergeNodes (FixedSchema actor_schema)"
  obtain r p' sc' where run: "run_inner (\<lambda>sc. pers_node (fst sc)) (pers_commit mem_ck_save ''m'') run_ex_env
      ?P [proj_ex_batch] [TaskDone] (0, (pers_default, None)) = (r, (p', sc'))" by (metis prod_cases3)
  have "declared actor_schema pers_node pers_edge (fst sc')"
    using strict_schema_kept [OF run, of actor_schema] strategies_delta_ok(1) [of proj_ex_env]
    by (auto simp: run_ex_projector_def nodes_ok_default)
  with run show ?thesis by blast
qed

lemma run_ex_unfold: "run_ex_step c (rep, k, p, sc) = (r, st) \<longleftrightarrow>
    drain_step (\<lambda>sc. pers_node (fst sc)) (pers_commit mem_ck_save ''m'') run_ex_env
      (run_ex_projector c InducedSchema) proj_ex_batch (rep, k, p, sc) = (r, st)"
  by (simp add: run_ex_step_def)

lemma projector_batch_effect_witness:
  "\<exists>r rep p' sc'. \<exists>raw :: delta. run_ex_step MergeNodes run_ex_start = (r, (rep, 1, p', sc')) \<and>
     pers_node (fst sc') (NodeId []) = (case last_with n_id (d_nodes raw) (NodeId []) of None \<Rightarrow> None | Some n \<Rightarrow> Some n)"
proof -
  obtain r rep k' p' sc' where step: "run_ex_step MergeNodes run_ex_start = (r, (rep, k', p', sc'))" by (metis prod_cases5)
  with run_ex_counts(1) have k': "k' = 1" by simp
  let ?P = "run_ex_projector MergeNodes InducedSchema"
  have cx: "projector_ctx ?P = (proj_ex_cx ContentAddressed)\<lparr>cx_conflict := MergeNodes\<rparr>"
    by (simp add: projector_ctx_def run_ex_projector_def proj_ex_cx_def)
  have "\<not> isl (hier_project proj_ex_env ((proj_ex_cx ContentAddressed)\<lparr>cx_conflict := MergeNodes\<rparr>) proj_ex_batch 0)"
    by code_simp
  then obtain raw k2 where "hier_project proj_ex_env (projector_ctx ?P) proj_ex_batch 0 = Inr (raw, k2)"
    by (metis cx isl_def old.prod.exhaust sum.exhaust)
  then have raw: "fst (pr_projection ?P (projector_ctx ?P) proj_ex_batch 0) = Inr raw"
    by (simp add: run_ex_projector_def lift_projection_def)
  have "pers_node pers_default (NodeId []) = None" by (simp add: pers_node_def pers_default_def)
  with projector_batch_effect [OF step [unfolded run_ex_start_def run_ex_unfold] _ raw, of "NodeId []"] k'
  have "pers_node (fst sc') (NodeId []) = (case last_with n_id (d_nodes raw) (NodeId []) of None \<Rightarrow> None | Some n \<Rightarrow> Some n)"
    by (auto simp: nodes_ok_default run_ex_projector_def cong: option.case_cong)
  with step [unfolded k'] show ?thesis by blast
qed

lemma projecting_again_idempotent_witness:
  "\<exists>r1 st1 r2 st2. run_ex_step MergeNodes run_ex_start = (r1, st1) \<and> run_ex_step MergeNodes st1 = (r2, st2) \<and>
     pers_node (fst (snd (snd (snd st2)))) (NodeId []) = pers_node (fst (snd (snd (snd st1)))) (NodeId [])"
proof -
  obtain r rep1 k1 p1 sc1 where step: "run_ex_step MergeNodes run_ex_start = (r, (rep1, k1, p1, sc1))" by (metis prod_cases5)
  with run_ex_counts(1) have k1: "k1 = Suc 0" by simp
  obtain r2 rep2 k2 p2 sc2 where step2: "run_ex_step MergeNodes (rep1, k1, p1, sc1) = (r2, (rep2, k2, p2, sc2))"
    by (metis prod_cases5)
  have "pers_node (fst sc2) (NodeId []) = pers_node (fst sc1) (NodeId [])"
    by (rule projecting_again_idempotent [where E = proj_ex_env, THEN conjunct1,
          OF step [unfolded k1 run_ex_start_def run_ex_unfold] step2 [unfolded k1 run_ex_unfold]])
      (simp_all add: run_ex_projector_def nodes_ok_default)
  with step step2 show ?thesis by (intro exI conjI) (assumption | simp)+
qed





end
