(* ===== verification/Remote_Wire.thy ===== *)
theory Remote_Wire
  imports Persist_Store Std_Text
begin

text \<open>
  \<open>crates/atomr-ontology-remote/src/protocol.rs\<close>: the messages of the store's RPC protocol and the
  mirrors of the store types that they carry, with the conversions in both directions. A map keyed by
  an id travels as the list of its values.
\<close>

section \<open>Patterns and plans\<close>

datatype wire_node_pattern = WireNodePattern
  (wn_bind: "string option")
  (wn_types: "string list")
  (wn_props: props)
  (wn_id: "node_id option")
  (wn_or: "wire_node_pattern list")
  (wn_not: "wire_node_pattern list")

fun to_wire_node_pattern :: "node_pattern \<Rightarrow> wire_node_pattern" where
  "to_wire_node_pattern (NodePattern b ty p i alts negs) =
     WireNodePattern b ty p i (map to_wire_node_pattern alts) (map to_wire_node_pattern negs)"

fun from_wire_node_pattern :: "wire_node_pattern \<Rightarrow> node_pattern" where
  "from_wire_node_pattern (WireNodePattern b ty p i alts negs) =
     NodePattern b ty p i (map from_wire_node_pattern alts) (map from_wire_node_pattern negs)"

lemma node_pattern_round_trip [simp]: "from_wire_node_pattern (to_wire_node_pattern p) = p"
  by (induction p) (auto intro: map_idI)

record wire_edge_pattern =
  we_bind :: "string option"
  we_label :: "string option"
  we_props :: props
  we_repeat :: "(nat \<times> nat) option"

definition to_wire_edge_pattern :: "edge_pattern \<Rightarrow> wire_edge_pattern" where
  [code_defs]: "to_wire_edge_pattern p =
     \<lparr>we_bind = ep_bind p, we_label = ep_label p, we_props = ep_props p, we_repeat = ep_repeat p\<rparr>"

definition from_wire_edge_pattern :: "wire_edge_pattern \<Rightarrow> edge_pattern" where
  [code_defs]: "from_wire_edge_pattern w =
     \<lparr>ep_bind = we_bind w, ep_label = we_label w, ep_props = we_props w, ep_repeat = we_repeat w\<rparr>"

lemma edge_pattern_round_trip [simp]: "from_wire_edge_pattern (to_wire_edge_pattern p) = p"
  by (simp add: to_wire_edge_pattern_def from_wire_edge_pattern_def)

datatype wire_sort_order = WireAscending | WireDescending

fun to_wire_order :: "sort_order \<Rightarrow> wire_sort_order" where
  "to_wire_order Ascending = WireAscending"
| "to_wire_order Descending = WireDescending"

fun from_wire_order :: "wire_sort_order \<Rightarrow> sort_order" where
  "from_wire_order WireAscending = Ascending"
| "from_wire_order WireDescending = Descending"

lemma order_round_trip [simp]: "from_wire_order (to_wire_order x) = x"
  by (cases x) simp_all

record wire_traversal_step =
  wt_edge :: wire_edge_pattern
  wt_target :: wire_node_pattern
  wt_outbound :: bool

definition to_wire_step :: "traversal_step \<Rightarrow> wire_traversal_step" where
  [code_defs]: "to_wire_step st =
     \<lparr>wt_edge = to_wire_edge_pattern (ts_edge st), wt_target = to_wire_node_pattern (ts_target st),
      wt_outbound = ts_outbound st\<rparr>"

definition from_wire_step :: "wire_traversal_step \<Rightarrow> traversal_step" where
  [code_defs]: "from_wire_step w =
     \<lparr>ts_edge = from_wire_edge_pattern (wt_edge w), ts_target = from_wire_node_pattern (wt_target w),
      ts_outbound = wt_outbound w\<rparr>"

lemma step_round_trip [simp]: "from_wire_step (to_wire_step st) = st"
  by (simp add: to_wire_step_def from_wire_step_def)

record wire_traversal_plan =
  wp_seed :: wire_node_pattern
  wp_steps :: "wire_traversal_step list"
  wp_return :: "string list"
  wp_order :: "(string \<times> wire_sort_order) list"
  wp_skip :: nat
  wp_limit :: "nat option"

definition to_wire_plan :: "traversal_plan \<Rightarrow> wire_traversal_plan" where
  [code_defs]: "to_wire_plan p =
     \<lparr>wp_seed = to_wire_node_pattern (tp_seed p), wp_steps = map to_wire_step (tp_steps p), wp_return = tp_return p,
      wp_order = map (\<lambda>(k, x). (k, to_wire_order x)) (tp_order p), wp_skip = tp_skip p, wp_limit = tp_limit p\<rparr>"

definition from_wire_plan :: "wire_traversal_plan \<Rightarrow> traversal_plan" where
  [code_defs]: "from_wire_plan w =
     \<lparr>tp_seed = from_wire_node_pattern (wp_seed w), tp_steps = map from_wire_step (wp_steps w), tp_return = wp_return w,
      tp_order = map (\<lambda>(k, x). (k, from_wire_order x)) (wp_order w), tp_skip = wp_skip w, tp_limit = wp_limit w\<rparr>"

lemma plan_round_trip [simp]: "from_wire_plan (to_wire_plan p) = p"
  by (simp add: to_wire_plan_def from_wire_plan_def o_def case_prod_unfold)

section \<open>Rows, diffs, deltas\<close>

record wire_match_row =
  wr_nodes :: "(string, node_id) bmap"
  wr_edges :: "(string, edge_id) bmap"

definition to_wire_row :: "match_row \<Rightarrow> wire_match_row" where
  [code_defs]: "to_wire_row r = \<lparr>wr_nodes = mr_nodes r, wr_edges = mr_edges r\<rparr>"

definition from_wire_row :: "wire_match_row \<Rightarrow> match_row" where
  [code_defs]: "from_wire_row w = row_new\<lparr>mr_nodes := wr_nodes w, mr_edges := wr_edges w\<rparr>"

lemma row_round_trip [simp]: "from_wire_row (to_wire_row r) = r"
  by (simp add: to_wire_row_def from_wire_row_def row_new_def)

record wire_store_diff =
  wd_added_nodes :: "node_id list"
  wd_removed_nodes :: "node_id list"
  wd_added_edges :: "edge_id list"
  wd_removed_edges :: "edge_id list"

definition to_wire_diff :: "store_diff \<Rightarrow> wire_store_diff" where
  [code_defs]: "to_wire_diff d =
     \<lparr>wd_added_nodes = sd_added_nodes d, wd_removed_nodes = sd_removed_nodes d,
      wd_added_edges = sd_added_edges d, wd_removed_edges = sd_removed_edges d\<rparr>"

definition from_wire_diff :: "wire_store_diff \<Rightarrow> store_diff" where
  [code_defs]: "from_wire_diff w =
     \<lparr>sd_added_nodes = wd_added_nodes w, sd_removed_nodes = wd_removed_nodes w,
      sd_added_edges = wd_added_edges w, sd_removed_edges = wd_removed_edges w\<rparr>"

lemma diff_round_trip [simp]: "from_wire_diff (to_wire_diff d) = d"
  by (simp add: to_wire_diff_def from_wire_diff_def)

record wire_delta =
  wl_nodes :: "node list"
  wl_edges :: "edge list"
  wl_axioms :: "axiom_rec list"

definition to_wire_delta :: "delta \<Rightarrow> wire_delta" where
  [code_defs]: "to_wire_delta d = \<lparr>wl_nodes = d_nodes d, wl_edges = d_edges d, wl_axioms = d_axioms d\<rparr>"

definition from_wire_delta :: "wire_delta \<Rightarrow> delta" where
  [code_defs]: "from_wire_delta w = \<lparr>d_nodes = wl_nodes w, d_edges = wl_edges w, d_axioms = wl_axioms w\<rparr>"

lemma delta_round_trip [simp]: "from_wire_delta (to_wire_delta d) = d"
  by (simp add: to_wire_delta_def from_wire_delta_def)

section \<open>Ontologies and ledgers\<close>

record wire_ontology =
  wo_iri :: "iri option"
  wo_vocab :: vocabulary
  wo_schema :: schema
  wo_nodes :: "node list"
  wo_edges :: "edge list"
  wo_axioms :: "axiom_rec list"

definition to_wire_ontology :: "ontology \<Rightarrow> wire_ontology" where
  [code_defs]: "to_wire_ontology o' =
     \<lparr>wo_iri = o_iri o', wo_vocab = o_vocab o', wo_schema = o_schema o', wo_nodes = bm_values (o_nodes o'),
      wo_edges = bm_values (o_edges o'), wo_axioms = bm_values (o_axioms o')\<rparr>"

definition from_wire_ontology :: "wire_ontology \<Rightarrow> ontology" where
  [code_defs]: "from_wire_ontology w =
     (let out = ontology_new\<lparr>o_iri := wo_iri w, o_vocab := wo_vocab w, o_schema := wo_schema w\<rparr>;
          out = fold upsert_node (wo_nodes w) out;
          out = fold upsert_edge (wo_edges w) out
      in fold upsert_axiom (wo_axioms w) out)"

text \<open>Inserting the values of a map under their keys rebuilds it.\<close>

lemma fold_upsert_node: "fold upsert_node ns o' = o'\<lparr>o_nodes := fold (\<lambda>n. bm_insert (n_id n) n) ns (o_nodes o')\<rparr>"
  by (induction ns arbitrary: o') (simp_all add: upsert_node_def)

lemma fold_upsert_edge: "fold upsert_edge es o' = o'\<lparr>o_edges := fold (\<lambda>e. bm_insert (e_id e) e) es (o_edges o')\<rparr>"
  by (induction es arbitrary: o') (simp_all add: upsert_edge_def)

lemma fold_upsert_axiom:
  "fold upsert_axiom axs o' = o'\<lparr>o_axioms := fold (\<lambda>a. bm_insert (ax_id a) a) axs (o_axioms o')\<rparr>"
  by (induction axs arbitrary: o') (simp_all add: upsert_axiom_def)

lemmas fold_upsert = fold_upsert_node fold_upsert_edge fold_upsert_axiom

lemma rebuild_values:
  assumes "bm_wf m" "\<And>k v. (k, v) \<in> set m \<Longrightarrow> key v = k"
  shows "fold (\<lambda>v. bm_insert (key v) v) (bm_values m) [] = m"
proof -
  have "fold (\<lambda>v. bm_insert (key v) v) (map snd xs) acc = fold (\<lambda>e. bm_insert (fst e) (snd e)) xs acc"
    if "set xs \<subseteq> set m" for xs acc
    using that by (induction xs arbitrary: acc) (auto simp: assms(2))
  from this [of m "[]"] show ?thesis using bm_rebuild [OF assms(1)] by (simp add: bm_values_def)
qed

lemma wire_ontology_id: "ont_wf o' \<Longrightarrow> from_wire_ontology (to_wire_ontology o') = o'"
  unfolding ont_wf_def
  by (auto simp: from_wire_ontology_def to_wire_ontology_def fold_upsert ontology_new_def Let_def
      intro!: ontology.equality rebuild_values)

record wire_activity =
  wa_id :: prov_id
  wa_label :: string
  wa_started :: int
  wa_ended :: "int option"
  wa_agent :: "agent_ref option"
  wa_attrs :: "(string, json) bmap"

definition to_wire_activity :: "activity \<Rightarrow> wire_activity" where
  [code_defs]: "to_wire_activity a =
     \<lparr>wa_id = act_id a, wa_label = act_label a, wa_started = act_started a, wa_ended = act_ended a,
      wa_agent = act_agent a, wa_attrs = act_attrs a\<rparr>"

definition from_wire_activity :: "wire_activity \<Rightarrow> activity" where
  [code_defs]: "from_wire_activity w =
     \<lparr>act_id = wa_id w, act_label = wa_label w, act_started = wa_started w, act_ended = wa_ended w,
      act_agent = wa_agent w, act_attrs = wa_attrs w\<rparr>"

lemma activity_round_trip [simp]: "from_wire_activity (to_wire_activity a) = a"
  by (simp add: to_wire_activity_def from_wire_activity_def)

record wire_prov_entity =
  wv_id :: prov_id
  wv_label :: string
  wv_digest :: "string option"
  wv_attrs :: "(string, json) bmap"

definition to_wire_prov_entity :: "prov_entity \<Rightarrow> wire_prov_entity" where
  [code_defs]: "to_wire_prov_entity e =
     \<lparr>wv_id = ent_id e, wv_label = ent_label e, wv_digest = ent_digest e, wv_attrs = ent_attrs e\<rparr>"

definition from_wire_prov_entity :: "wire_prov_entity \<Rightarrow> prov_entity" where
  [code_defs]: "from_wire_prov_entity w =
     \<lparr>ent_id = wv_id w, ent_label = wv_label w, ent_digest = wv_digest w, ent_attrs = wv_attrs w\<rparr>"

lemma prov_entity_round_trip [simp]: "from_wire_prov_entity (to_wire_prov_entity e) = e"
  by (simp add: to_wire_prov_entity_def from_wire_prov_entity_def)

record wire_prov_log =
  wg_activities :: "wire_activity list"
  wg_entities :: "wire_prov_entity list"
  wg_generations :: "was_generated_by list"
  wg_derivations :: "was_derived_from list"
  wg_attributions :: "was_attributed_to list"
  wg_uses :: "used_rec list"

definition to_wire_prov_log :: "prov_log \<Rightarrow> wire_prov_log" where
  [code_defs]: "to_wire_prov_log l =
     \<lparr>wg_activities = map to_wire_activity (bm_values (pl_activities l)),
      wg_entities = map to_wire_prov_entity (bm_values (pl_entities l)),
      wg_generations = pl_generations l, wg_derivations = pl_derivations l,
      wg_attributions = pl_attributions l, wg_uses = pl_uses l\<rparr>"

definition from_wire_prov_log :: "wire_prov_log \<Rightarrow> prov_log" where
  [code_defs]: "from_wire_prov_log w =
     (let l = fold (\<lambda>a. record_activity (from_wire_activity a)) (wg_activities w) prov_log_new;
          l = fold (\<lambda>e. record_entity (from_wire_prov_entity e)) (wg_entities w) l
      in l\<lparr>pl_generations := wg_generations w, pl_derivations := wg_derivations w,
           pl_attributions := wg_attributions w, pl_uses := wg_uses w\<rparr>)"

lemma fold_record_activity:
  "fold record_activity as l = l\<lparr>pl_activities := fold (\<lambda>a. bm_insert (act_id a) a) as (pl_activities l)\<rparr>"
  by (induction as arbitrary: l) (simp_all add: record_activity_def)

lemma fold_record_entity:
  "fold record_entity es l = l\<lparr>pl_entities := fold (\<lambda>e. bm_insert (ent_id e) e) es (pl_entities l)\<rparr>"
  by (induction es arbitrary: l) (simp_all add: record_entity_def)

lemma wire_prov_log_id:
  assumes "prov_log_wf l"
  shows "from_wire_prov_log (to_wire_prov_log l) = l"
proof -
  have "fold (\<lambda>a. bm_insert (act_id a) a) (bm_values (pl_activities l)) [] = pl_activities l"
    "fold (\<lambda>e. bm_insert (ent_id e) e) (bm_values (pl_entities l)) [] = pl_entities l"
    using assms unfolding prov_log_wf_def by (auto intro!: rebuild_values)
  moreover have "fold (\<lambda>a. record_activity (from_wire_activity a)) (map to_wire_activity as) = fold record_activity as"
    "fold (\<lambda>e. record_entity (from_wire_prov_entity e)) (map to_wire_prov_entity es) = fold record_entity es" for as es
    by (simp_all add: fold_map comp_def)
  ultimately show ?thesis
    by (simp only: from_wire_prov_log_def to_wire_prov_log_def wire_prov_log.simps fold_record_activity
        fold_record_entity Let_def) (simp add: prov_log_new_def)
qed

text \<open>Whatever a peer sends, the rebuilt ontology and ledger are keyed by the ids of their values.\<close>

lemma from_wire_wf:
  "bm_wf (wo_vocab w) \<Longrightarrow> schema_wf (wo_schema w) \<Longrightarrow> ont_wf (from_wire_ontology w)"
  "prov_log_wf (from_wire_prov_log v)"
proof -
  show "ont_wf (from_wire_ontology w)" if "bm_wf (wo_vocab w)" "schema_wf (wo_schema w)"
  proof -
    have "ont_wf (ontology_new\<lparr>o_iri := wo_iri w, o_vocab := wo_vocab w, o_schema := wo_schema w\<rparr>)"
      using that by (simp add: ont_wf_def ontology_new_def)
    then have 1: "ont_wf (fold upsert_node (wo_nodes w)
        (ontology_new\<lparr>o_iri := wo_iri w, o_vocab := wo_vocab w, o_schema := wo_schema w\<rparr>))"
      by (rule fold_invariant [where P = ont_wf]) simp
    have 2: "ont_wf (fold upsert_edge (wo_edges w) o')" if "ont_wf o'" for o'
      by (rule fold_invariant [where P = ont_wf, OF that]) simp
    show ?thesis unfolding from_wire_ontology_def Let_def
      by (rule fold_invariant [where P = ont_wf, OF 2 [OF 1]]) simp
  qed
  have "prov_log_wf (fold (\<lambda>a. record_activity (from_wire_activity a)) (wg_activities v) prov_log_new)"
    by (rule fold_invariant [where P = prov_log_wf]) simp_all
  then have "prov_log_wf (fold (\<lambda>e. record_entity (from_wire_prov_entity e)) (wg_entities v)
      (fold (\<lambda>a. record_activity (from_wire_activity a)) (wg_activities v) prov_log_new))"
    by (rule fold_invariant [where P = prov_log_wf]) simp
  then show "prov_log_wf (from_wire_prov_log v)" by (simp add: from_wire_prov_log_def Let_def prov_log_wf_def)
qed

section \<open>Methods, envelopes, errors\<close>

definition M_upsert_node :: string where [code_defs]: "M_upsert_node = ''upsert_node''"
definition M_upsert_edge :: string where [code_defs]: "M_upsert_edge = ''upsert_edge''"
definition M_upsert_axiom :: string where [code_defs]: "M_upsert_axiom = ''upsert_axiom''"
definition M_get_node :: string where [code_defs]: "M_get_node = ''get_node''"
definition M_get_edge :: string where [code_defs]: "M_get_edge = ''get_edge''"
definition M_match_pattern :: string where [code_defs]: "M_match_pattern = ''match_pattern''"
definition M_traverse :: string where [code_defs]: "M_traverse = ''traverse''"
definition M_snapshot :: string where [code_defs]: "M_snapshot = ''snapshot''"
definition M_diff :: string where [code_defs]: "M_diff = ''diff''"
definition M_commit :: string where [code_defs]: "M_commit = ''commit''"
definition M_provenance :: string where [code_defs]: "M_provenance = ''provenance''"

record 'p rpc_envelope =
  rq_method :: string
  rq_params :: 'p

definition envelope_new :: "string \<Rightarrow> 'p \<Rightarrow> 'p rpc_envelope" where
  [code_defs]: "envelope_new m p = \<lparr>rq_method = m, rq_params = p\<rparr>"

record 'r rpc_response =
  rs_result :: "'r option"
  rs_error :: "string option"

definition response_ok :: "'r \<Rightarrow> 'r rpc_response" where
  [code_defs]: "response_ok v = \<lparr>rs_result = Some v, rs_error = None\<rparr>"

definition response_err :: "string \<Rightarrow> 'r rpc_response" where
  [code_defs]: "response_err m = \<lparr>rs_result = None, rs_error = Some m\<rparr>"

datatype remote_error = ReTransport string | ReServer string | ReEncoding string

fun remote_error_display :: "remote_error \<Rightarrow> string" where
  "remote_error_display (ReTransport m) = ''transport error: '' @ m"
| "remote_error_display (ReServer m) = ''server error: '' @ m"
| "remote_error_display (ReEncoding m) = ''encoding error: '' @ m"

section \<open>Payloads\<close>

datatype upsert_node_request = UpsertNodeRequest (unq_node: node)
datatype upsert_node_response = UpsertNodeResponse (unr_id: node_id)
datatype upsert_edge_request = UpsertEdgeRequest (ueq_edge: edge)
datatype upsert_edge_response = UpsertEdgeResponse (uer_id: edge_id)
datatype upsert_axiom_request = UpsertAxiomRequest (uaq_axiom: axiom_rec)
datatype upsert_axiom_response = UpsertAxiomResponse
datatype get_node_request = GetNodeRequest (gnq_id: node_id)
datatype get_node_response = GetNodeResponse (gnr_node: "node option")
datatype get_edge_request = GetEdgeRequest (geq_id: edge_id)
datatype get_edge_response = GetEdgeResponse (ger_edge: "edge option")
datatype match_pattern_request = MatchPatternRequest (mpq_pattern: wire_node_pattern)
datatype match_pattern_response = MatchPatternResponse (mpr_rows: "wire_match_row list")
datatype traverse_request = TraverseRequest (trq_plan: wire_traversal_plan)
datatype traverse_response = TraverseResponse (trr_rows: "wire_match_row list")
datatype snapshot_request = SnapshotRequest
datatype snapshot_response = SnapshotResponse (snr_ontology: wire_ontology)
datatype diff_request = DiffRequest (dfq_other: wire_ontology)
datatype diff_response = DiffResponse (dfr_diff: wire_store_diff)
datatype commit_request = CommitRequest (cmq_delta: wire_delta) (cmq_activity: wire_activity)
datatype commit_response = CommitResponse (cmr_provenance_id: prov_id)
datatype provenance_request = ProvenanceRequest
datatype provenance_response = ProvenanceResponse (pvr_log: wire_prov_log)

text \<open>
  The round trips of the payloads: what a peer rebuilds is what was sent.
\<close>

lemma wire_rows_id: "map from_wire_row (map to_wire_row rs) = rs"
  by (simp add: o_def)

lemmas wire_round_trips = node_pattern_round_trip plan_round_trip diff_round_trip delta_round_trip activity_round_trip
  wire_ontology_id wire_prov_log_id wire_rows_id

end
