(* ===== verification/Remote_Http.thy ===== *)
theory Remote_Http
  imports Query_Lex Remote_Wire
begin

text \<open>
  The HTTP/1.1 framing of \<open>crates/atomr-ontology-remote/src/server.rs\<close>: \<open>read_request\<close> over the reads a
  socket delivers, and the response text of \<open>write_response\<close>. A read is a chunk (empty at the end of
  the stream) or an I/O error. A function on reads returns \<open>None\<close> when they run out: the peer has
  neither sent more nor closed, and the task waits.
\<close>

section \<open>UTF-8\<close>

text \<open>
  \<open>str::from_utf8\<close>: the width of the first character, or the length of the invalid sequence
  (\<open>None\<close> where the input ends inside a character).
\<close>

definition second_ok :: "nat \<Rightarrow> nat \<Rightarrow> bool" where
  [code_defs]: "second_ok a b \<longleftrightarrow>
     (if a = 0xE0 then 0xA0 \<le> b \<and> b \<le> 0xBF
      else if a = 0xED then 0x80 \<le> b \<and> b \<le> 0x9F
      else if a = 0xF0 then 0x90 \<le> b \<and> b \<le> 0xBF
      else if a = 0xF4 then 0x80 \<le> b \<and> b \<le> 0x8F
      else cont_byte b)"

definition utf8_step :: "string \<Rightarrow> nat option + nat" where
  [code_defs]: "utf8_step s =
     (case map of_char s :: nat list of
        [] \<Rightarrow> Inl None
      | a # r \<Rightarrow>
          let w = (if a < 0x80 then 1 else if 0xC2 \<le> a \<and> a \<le> 0xDF then 2 else if 0xE0 \<le> a \<and> a \<le> 0xEF then 3
                   else if 0xF0 \<le> a \<and> a \<le> 0xF4 then 4 else 0 :: nat)
          in if w = 0 then Inl (Some 1)
             else if w = 1 then Inr 1
             else if r = [] then Inl None
             else if \<not> second_ok a (r ! 0) then Inl (Some 1)
             else if w = 2 then Inr 2
             else if length r < 2 then Inl None
             else if \<not> cont_byte (r ! 1) then Inl (Some 2)
             else if w = 3 then Inr 3
             else if length r < 3 then Inl None
             else if \<not> cont_byte (r ! 2) then Inl (Some 3)
             else Inr 4)"

lemma utf8_step_width: "utf8_step s = Inr w \<Longrightarrow> 0 < w \<and> w \<le> length s"
  by (cases s) (auto simp: utf8_step_def Let_def Suc_le_eq split: if_splits)

lemma utf8_step_bad: "utf8_step s = Inl (Some k) \<Longrightarrow> 0 < k \<and> k \<le> length s"
  by (cases s) (auto simp: utf8_step_def Let_def Suc_le_eq split: if_splits)

function utf8_check :: "nat \<Rightarrow> string \<Rightarrow> (nat \<times> nat option) option" where
  "utf8_check i s =
     (if s = [] then None
      else case utf8_step s of Inr w \<Rightarrow> utf8_check (i + w) (drop w s) | Inl k \<Rightarrow> Some (i, k))"
  by pat_completeness auto
termination
  by (relation "measure (length \<circ> snd)") (auto dest: utf8_step_width)

declare utf8_check.simps [simp del]

definition utf8_error_display :: "nat \<times> nat option \<Rightarrow> string" where
  [code_defs]: "utf8_error_display e =
     (case snd e of
        Some k \<Rightarrow> ''invalid utf-8 sequence of '' @ show_nat k @ '' bytes from index '' @ show_nat (fst e)
      | None \<Rightarrow> ''incomplete utf-8 byte sequence from index '' @ show_nat (fst e))"

text \<open>\<open>String::from_utf8_lossy\<close>: an invalid sequence becomes U+FFFD.\<close>

function utf8_lossy :: "string \<Rightarrow> string" where
  "utf8_lossy s =
     (if s = [] then []
      else case utf8_step s of
             Inr w \<Rightarrow> take w s @ utf8_lossy (drop w s)
           | Inl (Some k) \<Rightarrow> utf8_encode 0xFFFD @ utf8_lossy (drop k s)
           | Inl None \<Rightarrow> utf8_encode 0xFFFD)"
  by pat_completeness auto
termination
  by (relation "measure length") (auto dest: utf8_step_width utf8_step_bad)

declare utf8_lossy.simps [simp del]

lemma utf8_check_ascii: "ascii s \<Longrightarrow> utf8_check i s = None"
proof (induction s arbitrary: i)
  case (Cons c s)
  then have "utf8_step (c # s) = Inr 1" by (simp add: ascii_def utf8_step_def)
  with Cons show ?case by (subst utf8_check.simps) (simp add: ascii_def)
qed (simp add: utf8_check.simps)

section \<open>The request head\<close>

definition crlf :: string where
  [code_defs]: "crlf = [CHR 0x0D, CHR 0x0A]"

fun find_header_terminator :: "string \<Rightarrow> nat option" where
  "find_header_terminator s =
     (if take 4 s = crlf @ crlf then Some 0
      else case s of [] \<Rightarrow> None | _ # r \<Rightarrow> map_option Suc (find_header_terminator r))"

declare find_header_terminator.simps [simp del]

fun split_crlf :: "string \<Rightarrow> string list" where
  "split_crlf [] = [[]]"
| "split_crlf [x] = [[x]]"
| "split_crlf (x # y # r) =
     (if x = CHR 0x0D \<and> y = CHR 0x0A then [] # split_crlf r
      else case split_crlf (y # r) of [] \<Rightarrow> [[x]] | p # ps \<Rightarrow> (x # p) # ps)"

text \<open>One \<open>next\<close> of \<open>split_ascii_whitespace\<close>: the token and what follows it.\<close>

definition next_token :: "string \<Rightarrow> (string \<times> string) option" where
  [code_defs]: "next_token s =
     (let r = dropWhile is_ascii_whitespace s
      in if r = [] then None
         else Some (takeWhile (\<lambda>c. \<not> is_ascii_whitespace c) r, dropWhile (\<lambda>c. \<not> is_ascii_whitespace c) r))"

text \<open>\<open>usize::from_str\<close>: the digits from the left, the first error wins.\<close>

fun parse_digits :: "nat \<Rightarrow> string \<Rightarrow> string + nat" where
  "parse_digits n [] = Inr n"
| "parse_digits n (c # cs) =
     (if \<not> is_ascii_digit c then Inl ''invalid digit found in string''
      else let k = 10 * n + (of_char c - 48)
           in if k < 2 ^ 64 then parse_digits k cs else Inl ''number too large to fit in target type'')"

definition parse_usize :: "string \<Rightarrow> string + nat" where
  [code_defs]: "parse_usize s =
     (if s = [] then Inl ''cannot parse integer from empty string''
      else parse_digits 0 (if length s > 1 \<and> hd s = CHR ''+'' then tl s else s))"

fun scan_headers :: "string list \<Rightarrow> nat \<Rightarrow> remote_error + nat" where
  "scan_headers [] n = Inr n"
| "scan_headers (l # ls) n =
     (if l = [] then scan_headers ls n
      else case split_once (CHR '':'') l of
             None \<Rightarrow> scan_headers ls n
           | Some (name, v) \<Rightarrow>
               if eq_ignore_ascii_case (trim name) ''content-length'' then
                 case parse_usize (trim v) of
                   Inl e \<Rightarrow> Inl (ReTransport (''bad content-length: '' @ e))
                 | Inr k \<Rightarrow> scan_headers ls k
               else scan_headers ls n)"

definition parse_head :: "string \<Rightarrow> remote_error + string \<times> string \<times> nat" where
  [code_defs]: "parse_head h =
     (case utf8_check 0 h of
        Some e \<Rightarrow> Inl (ReTransport (''non-utf8 headers: '' @ utf8_error_display e))
      | None \<Rightarrow>
          (case split_crlf h of
             [] \<Rightarrow> Inl (ReTransport ''missing request line'')
           | line # ls \<Rightarrow>
               (case next_token line of
                  None \<Rightarrow> Inl (ReTransport ''missing method'')
                | Some (m, r) \<Rightarrow>
                    (case next_token r of
                       None \<Rightarrow> Inl (ReTransport ''missing path'')
                     | Some (p, _) \<Rightarrow> try_then (scan_headers ls 0) (\<lambda>n. Inr (m, p, n))))))"

section \<open>Reading\<close>

type_synonym reads = "(string + string) list"

fun read_headers :: "reads \<Rightarrow> string \<Rightarrow> (remote_error + nat \<times> string \<times> reads) option" where
  "read_headers [] buf = None"
| "read_headers (Inl e # rs) buf = Some (Inl (ReTransport (''read: '' @ e)))"
| "read_headers (Inr c # rs) buf =
     (if c = [] then Some (Inl (ReTransport ''connection closed before headers''))
      else let buf = buf @ c
           in case find_header_terminator buf of
                Some i \<Rightarrow> Some (Inr (i, buf, rs))
              | None \<Rightarrow>
                  if length buf > 64 * 1024 then Some (Inl (ReTransport ''headers exceeded 64 KiB''))
                  else read_headers rs buf)"

fun read_body :: "reads \<Rightarrow> nat \<Rightarrow> string \<Rightarrow> (remote_error + string) option" where
  "read_body rs n body =
     (if length body < n then
        case rs of
          [] \<Rightarrow> None
        | Inl e # _ \<Rightarrow> Some (Inl (ReTransport (''read body: '' @ e)))
        | Inr c # rs \<Rightarrow>
            if c = [] then Some (Inl (ReTransport ''body truncated'')) else read_body rs n (body @ c)
      else Some (Inr (take n body)))"

declare read_body.simps [simp del]

record parsed_request =
  pr_method :: string
  pr_path :: string
  pr_body :: string

definition read_request :: "reads \<Rightarrow> (remote_error + parsed_request) option" where
  [code_defs]: "read_request rs =
     (case read_headers rs [] of
        None \<Rightarrow> None
      | Some (Inl e) \<Rightarrow> Some (Inl e)
      | Some (Inr (i, buf, rs)) \<Rightarrow>
          (case parse_head (take i buf) of
             Inl e \<Rightarrow> Some (Inl e)
           | Inr (m, p, n) \<Rightarrow>
               (case read_body rs n (if length buf > i + 4 then drop (i + 4) buf else []) of
                  None \<Rightarrow> None
                | Some (Inl e) \<Rightarrow> Some (Inl e)
                | Some (Inr b) \<Rightarrow> Some (Inr \<lparr>pr_method = m, pr_path = p, pr_body = b\<rparr>))))"

section \<open>Writing\<close>

definition write_response :: "nat \<Rightarrow> string \<Rightarrow> string \<Rightarrow> string" where
  [code_defs]: "write_response status reason body =
     ''HTTP/1.1 '' @ show_nat status @ '' '' @ reason @ crlf @ ''Content-Type: application/json'' @ crlf @
     ''Content-Length: '' @ show_nat (length body) @ crlf @ ''Connection: close'' @ crlf @ crlf @ body"

definition status_reason :: "nat \<Rightarrow> string" where
  [code_defs]: "status_reason status =
     (if status = 400 then ''Bad Request'' else if status = 404 then ''Not Found''
      else if status = 405 then ''Method Not Allowed'' else if status = 500 then ''Internal Server Error''
      else ''Error'')"

section \<open>The terminator\<close>

lemma find_other: "c \<noteq> CHR 0x0D \<Longrightarrow> find_header_terminator (c # s) = map_option Suc (find_header_terminator s)"
  by (subst find_header_terminator.simps) (simp add: crlf_def)

lemma find_Nil [simp]: "find_header_terminator [] = None"
  by (simp add: find_header_terminator.simps crlf_def)

lemma find_iff:
  "find_header_terminator s = Some i \<longleftrightarrow>
     take 4 (drop i s) = crlf @ crlf \<and> (\<forall>j < i. take 4 (drop j s) \<noteq> crlf @ crlf)"
proof (induction s arbitrary: i)
  case (Cons c s)
  show ?case
  proof (cases i)
    case 0
    then show ?thesis by (subst find_header_terminator.simps) auto
  next
    case (Suc k)
    have "(\<forall>j < Suc k. P j) \<longleftrightarrow> P 0 \<and> (\<forall>j < k. P (Suc j))" for P :: "nat \<Rightarrow> bool"
      using less_Suc_eq_0_disj by auto
    with Suc show ?thesis by (subst find_header_terminator.simps) (auto simp: Cons.IH)
  qed
qed (simp add: crlf_def)

lemma find_le: "find_header_terminator s = Some i \<Longrightarrow> i + 4 \<le> length s"
proof -
  assume "find_header_terminator s = Some i"
  then have "length (take 4 (drop i s)) = 4" by (simp add: find_iff crlf_def)
  then show ?thesis by simp
qed

lemma find_append: "find_header_terminator p = Some i \<Longrightarrow> find_header_terminator (p @ q) = Some i"
proof -
  assume p: "find_header_terminator p = Some i"
  have "take 4 (drop j (p @ q)) = take 4 (drop j p)" if "j \<le> i" for j using find_le [OF p] that by simp
  then show ?thesis using p unfolding find_iff by (metis less_imp_le order_refl)
qed

lemma find_prefix:
  "find_header_terminator (p @ q) = Some i \<Longrightarrow> i + 4 \<le> length p \<Longrightarrow> find_header_terminator p = Some i"
proof -
  assume pq: "find_header_terminator (p @ q) = Some i" and i: "i + 4 \<le> length p"
  have "take 4 (drop j (p @ q)) = take 4 (drop j p)" if "j \<le> i" for j using i that by simp
  then show ?thesis using pq unfolding find_iff by (metis less_imp_le order_refl)
qed

section \<open>Reads of any size\<close>

lemma read_headers_chunks:
  assumes "\<forall>c \<in> set cs. c \<noteq> []" "find_header_terminator (buf @ concat cs) = Some i"
    "find_header_terminator buf = None" "i \<le> 65533"
  shows "\<exists>cs1 cs2. cs = cs1 @ cs2 \<and> read_headers (map Inr cs) buf = Some (Inr (i, buf @ concat cs1, map Inr cs2)) \<and>
    i + 4 \<le> length (buf @ concat cs1)"
  using assms
proof (induction cs arbitrary: buf)
  case (Cons c cs)
  show ?case
  proof (cases "find_header_terminator (buf @ c)")
    case None
    then have "\<not> i + 4 \<le> length (buf @ c)" using find_prefix [of "buf @ c" "concat cs" i] Cons.prems(2) by auto
    then have le: "length (buf @ c) \<le> 64 * 1024" using Cons.prems(4) by simp
    from Cons.IH [of "buf @ c"] Cons.prems None obtain cs1 cs2 where
      "cs = cs1 @ cs2" "read_headers (map Inr cs) (buf @ c) = Some (Inr (i, (buf @ c) @ concat cs1, map Inr cs2))"
      "i + 4 \<le> length ((buf @ c) @ concat cs1)" by auto
    then show ?thesis using Cons.prems(1) None le by (intro exI [of _ "c # cs1"] exI [of _ cs2]) (simp add: Let_def)
  next
    case (Some j)
    then have "j = i" using find_append [OF Some, of "concat cs"] Cons.prems(2) by simp
    then show ?thesis using Some Cons.prems(1) find_le [OF Some]
      by (intro exI [of _ "[c]"] exI [of _ cs]) (simp add: Let_def)
  qed
qed simp

lemma read_body_chunks:
  "\<forall>c \<in> set cs. c \<noteq> [] \<Longrightarrow> read_body (map Inr cs) n body =
     (if n \<le> length (body @ concat cs) then Some (Inr (take n (body @ concat cs))) else None)"
proof (induction cs arbitrary: body)
  case (Cons c cs)
  then show ?case by (subst read_body.simps) auto
qed (subst read_body.simps; simp)

text \<open>The request a stream of bytes carries, whatever reads deliver it.\<close>

definition request_of_stream :: "string \<Rightarrow> (remote_error + parsed_request) option" where
  "request_of_stream s =
     (case find_header_terminator s of
        None \<Rightarrow> None
      | Some i \<Rightarrow>
          (case parse_head (take i s) of
             Inl e \<Rightarrow> Some (Inl e)
           | Inr (m, p, n) \<Rightarrow>
               if n \<le> length s - (i + 4)
               then Some (Inr \<lparr>pr_method = m, pr_path = p, pr_body = take n (drop (i + 4) s)\<rparr>)
               else None))"

lemma read_request_stream:
  assumes ne: "\<forall>c \<in> set cs. c \<noteq> []" and i: "find_header_terminator (concat cs) = Some i" "i \<le> 65533"
  shows "read_request (map Inr cs) = request_of_stream (concat cs)"
proof -
  obtain cs1 cs2 where cs: "cs = cs1 @ cs2" "read_headers (map Inr cs) [] = Some (Inr (i, concat cs1, map Inr cs2))"
    "i + 4 \<le> length (concat cs1)"
    using read_headers_chunks [of cs "[]" i] ne i by auto
  have rest: "(if length (concat cs1) > i + 4 then drop (i + 4) (concat cs1) else []) = drop (i + 4) (concat cs1)" by simp
  have ne2: "\<forall>c \<in> set cs2. c \<noteq> []" using ne cs(1) by simp
  have head: "take i (concat cs) = take i (concat cs1)" and tl: "drop (i + 4) (concat cs) = drop (i + 4) (concat cs1) @ concat cs2"
    using cs(1,3) by simp_all
  have len: "length (concat cs) - (i + 4) = length (drop (i + 4) (concat cs1) @ concat cs2)"
    by (metis length_drop tl)
  show ?thesis
    unfolding read_request_def request_of_stream_def cs(2) i(1) option.case sum.case prod.case rest head len tl
      read_body_chunks [OF ne2]
    by (simp split: sum.split)
qed

section \<open>The bound on the head\<close>

lemma read_headers_waits: "read_headers rs buf = None \<Longrightarrow> length buf \<le> 65536 \<Longrightarrow> length rs + length buf \<le> 65536"
proof (induction rs buf rule: read_headers.induct)
  case (3 c rs buf)
  then show ?case by (cases c) (auto simp: Let_def split: option.splits if_splits)
qed simp_all

lemma read_headers_buffer:
  "read_headers rs buf = Some (Inr (i, buf', rs')) \<Longrightarrow> \<forall>c. Inr c \<in> set rs \<longrightarrow> length c \<le> 4096 \<Longrightarrow>
     length buf \<le> 65536 \<Longrightarrow> i + 4 \<le> length buf' \<and> length buf' \<le> 65536 + 4096"
proof (induction rs buf rule: read_headers.induct)
  case (3 c rs buf)
  show ?case
  proof (cases "find_header_terminator (buf @ c)")
    case None
    with "3.prems"(1) have "\<not> 65536 < length (buf @ c)" "read_headers rs (buf @ c) = Some (Inr (i, buf', rs'))" "c \<noteq> []"
      by (auto simp: Let_def split: if_splits)
    with "3.IH" [of "buf @ c"] None "3.prems"(2) show ?thesis by auto
  next
    case (Some j)
    with "3.prems" find_le [OF Some] show ?thesis by (auto simp: Let_def split: if_splits)
  qed
qed simp_all

section \<open>A well-formed POST\<close>

definition post_text :: "string \<Rightarrow> string list \<Rightarrow> string \<Rightarrow> string" where
  "post_text path hdrs body =
     ''POST '' @ path @ '' HTTP/1.1'' @ concat (map ((@) crlf) (hdrs @ [''content-length: '' @ show_nat (length body)])) @
     crlf @ crlf @ body"

definition header_ok :: "string \<Rightarrow> bool" where
  "header_ok l \<longleftrightarrow> l \<noteq> [] \<and> ascii l \<and> CHR 0x0D \<notin> set l \<and>
     (case split_once (CHR '':'') l of
        None \<Rightarrow> True | Some (name, _) \<Rightarrow> \<not> eq_ignore_ascii_case (trim name) ''content-length'')"

definition path_ok :: "string \<Rightarrow> bool" where
  "path_ok p \<longleftrightarrow> p \<noteq> [] \<and> ascii p \<and> list_all (\<lambda>c. \<not> is_ascii_whitespace c) p"

lemma find_word:
  "CHR 0x0D \<notin> set a \<Longrightarrow> find_header_terminator (a @ s) = map_option ((+) (length a)) (find_header_terminator s)"
proof (induction a)
  case (Cons c a)
  then have "c \<noteq> CHR 0x0D" by auto
  with Cons show ?case by (simp add: find_other option.map_comp comp_def)
qed (cases "find_header_terminator s"; simp)

lemma find_line:
  assumes "l \<noteq> []" "CHR 0x0D \<notin> set l"
  shows "find_header_terminator (crlf @ l @ s) = map_option ((+) (length (crlf @ l))) (find_header_terminator s)"
proof -
  obtain c cs where l: "l = c # cs" "c \<noteq> CHR 0x0D" using assms by (cases l) auto
  have "find_header_terminator (crlf @ l @ s) = map_option Suc (find_header_terminator (CHR 0x0A # l @ s))"
    using l by (subst find_header_terminator.simps) (simp add: crlf_def)
  also have "\<dots> = map_option (\<lambda>x. Suc (Suc x)) (find_header_terminator (l @ s))"
    by (subst find_other) (simp_all add: option.map_comp comp_def)
  also have "\<dots> = map_option ((+) (length (crlf @ l))) (find_header_terminator s)"
    by (cases "find_header_terminator s") (simp_all add: find_word [OF assms(2)] crlf_def)
  finally show ?thesis .
qed

lemma find_lines:
  "\<forall>l \<in> set ls. l \<noteq> [] \<and> CHR 0x0D \<notin> set l \<Longrightarrow>
     find_header_terminator (concat (map ((@) crlf) ls) @ crlf @ crlf @ b) = Some (length (concat (map ((@) crlf) ls)))"
proof (induction ls)
  case Nil
  show ?case by (subst find_header_terminator.simps) (simp add: crlf_def)
next
  case (Cons l ls)
  then have "find_header_terminator (concat (map ((@) crlf) (l # ls)) @ crlf @ crlf @ b) =
      map_option ((+) (length (crlf @ l))) (find_header_terminator (concat (map ((@) crlf) ls) @ crlf @ crlf @ b))"
    using find_line [of l "concat (map ((@) crlf) ls) @ crlf @ crlf @ b"] by simp
  with Cons show ?case by simp
qed

lemma split_crlf_word: "CHR 0x0D \<notin> set a \<Longrightarrow> split_crlf a = [a]"
  by (induction a rule: split_crlf.induct) auto

lemma split_crlf_line: "CHR 0x0D \<notin> set a \<Longrightarrow> split_crlf (a @ crlf @ s) = a # split_crlf s"
proof (induction a)
  case Nil
  show ?case by (simp add: crlf_def)
next
  case (Cons c a)
  then show ?case by (cases "a @ crlf @ s") (auto simp: crlf_def)
qed

lemma split_crlf_lines:
  "CHR 0x0D \<notin> set a \<Longrightarrow> \<forall>l \<in> set ls. CHR 0x0D \<notin> set l \<Longrightarrow> split_crlf (a @ concat (map ((@) crlf) ls)) = a # ls"
proof (induction ls arbitrary: a)
  case (Cons l ls)
  have "split_crlf (a @ concat (map ((@) crlf) (l # ls))) = split_crlf (a @ crlf @ l @ concat (map ((@) crlf) ls))"
    by simp
  also have "\<dots> = a # split_crlf (l @ concat (map ((@) crlf) ls))" by (rule split_crlf_line [OF Cons.prems(1)])
  also have "\<dots> = a # l # ls" using Cons by simp
  finally show ?case .
qed (simp add: split_crlf_word)

lemma next_token_word:
  "w \<noteq> [] \<Longrightarrow> list_all (\<lambda>c. \<not> is_ascii_whitespace c) w \<Longrightarrow> is_ascii_whitespace c \<Longrightarrow> next_token (w @ c # s) = Some (w, c # s)"
proof -
  assume w: "w \<noteq> []" "list_all (\<lambda>c. \<not> is_ascii_whitespace c) w" "is_ascii_whitespace c"
  then have "dropWhile is_ascii_whitespace (w @ c # s) = w @ c # s" by (cases w) auto
  with w show ?thesis by (auto simp: next_token_def list_all_iff takeWhile_append dropWhile_append)
qed

lemma next_token_space [simp]: "next_token (CHR '' '' # s) = next_token s"
  by (simp add: next_token_def is_ascii_whitespace_def)

lemma parse_digits_value:
  "list_all is_ascii_digit ds \<Longrightarrow> foldl (\<lambda>n c. 10 * n + (of_char c - 48)) n ds < 2 ^ 64 \<Longrightarrow>
     parse_digits n ds = Inr (foldl (\<lambda>n c. 10 * n + (of_char c - 48)) n ds)"
proof (induction ds arbitrary: n)
  case (Cons c ds)
  have le: "k \<le> foldl (\<lambda>n c. 10 * n + (of_char c - 48)) k ds" for k :: nat
  proof (induction ds arbitrary: k)
    case (Cons d ds)
    show ?case using Cons [of "10 * k + (of_char d - 48)"] by simp
  qed simp
  have "10 * n + (of_char c - 48) < 2 ^ 64"
    using Cons.prems(2) le [of "10 * n + (of_char c - 48)"] by simp
  with Cons show ?case by (simp add: Let_def)
qed simp

lemma parse_usize_show [simp]: "n < 2 ^ 64 \<Longrightarrow> parse_usize (show_nat n) = Inr n"
proof -
  assume n: "n < 2 ^ 64"
  have "hd (show_nat n) \<noteq> CHR ''+''"
    using show_nat_digits [of n] by (cases "show_nat n") (auto simp: is_ascii_digit_def)
  moreover have "parse_digits 0 (show_nat n) = Inr (digits_value (show_nat n))"
    using parse_digits_value [of "show_nat n" 0] show_nat_digits(1) n
    by (metis digits_value_def digits_value_show_nat)
  ultimately show ?thesis using show_nat_digits(2) [of n] by (simp add: parse_usize_def)
qed

lemma digit_plain: "is_ascii_digit c \<Longrightarrow> plain_char c"
proof -
  assume "is_ascii_digit c"
  then have "48 \<le> (of_char c :: nat)" "(of_char c :: nat) \<le> 57" by (simp_all add: is_ascii_digit_def Let_def)
  then show ?thesis by (simp add: plain_char_def ws_prefix_def)
qed

lemma trim_show_nat: "trim (CHR '' '' # show_nat n) = show_nat n"
proof -
  obtain c cs where c: "show_nat n = c # cs" using show_nat_digits(2) [of n] by (cases "show_nat n") auto
  obtain ds d where d: "show_nat n = ds @ [d]" using show_nat_digits(2) [of n] by (metis append_butlast_last_id)
  have "trim_start (show_nat n) = show_nat n" using show_nat_digits(1) [of n] c by (simp add: digit_plain)
  moreover have "trim_end (show_nat n) = show_nat n" using show_nat_digits(1) [of n] d by (simp add: digit_plain)
  ultimately show ?thesis by (simp add: trim_def)
qed

lemma content_length_name: "eq_ignore_ascii_case (trim ''content-length'') ''content-length''"
  by code_simp

lemma scan_headers_skip: "\<forall>l \<in> set ls. header_ok l \<Longrightarrow> scan_headers (ls @ ms) n = scan_headers ms n"
  by (induction ls) (auto simp: header_ok_def split: option.splits)

lemma scan_content_length: "k < 2 ^ 64 \<Longrightarrow> scan_headers [''content-length: '' @ show_nat k] n = Inr k"
proof -
  assume k: "k < 2 ^ 64"
  have "split_once (CHR '':'') (''content-length: '' @ show_nat k) = Some (''content-length'', CHR '' '' # show_nat k)"
    by simp
  then show ?thesis using k content_length_name by (simp only: scan_headers.simps) (simp add: trim_show_nat)
qed

lemma show_nat_ascii: "ascii (show_nat n)" "CHR 0x0D \<notin> set (show_nat n)"
  using show_nat_digits(1) [of n] by (auto simp: ascii_def list_all_iff is_ascii_digit_def Let_def)

lemma ascii_simps [simp]:
  "ascii []" "ascii (c # s) \<longleftrightarrow> (of_char c :: nat) < 0x80 \<and> ascii s" "ascii (s @ t) \<longleftrightarrow> ascii s \<and> ascii t"
  by (simp_all add: ascii_def)

lemma ascii_concat: "\<forall>l \<in> set ls. ascii l \<Longrightarrow> ascii (concat (map ((@) crlf) ls))"
  by (induction ls) (auto simp: crlf_def)

text \<open>The head of a well-formed POST is read back.\<close>

lemma parse_post_head:
  assumes "path_ok path" "\<forall>l \<in> set hdrs. header_ok l" "n < 2 ^ 64"
  shows "parse_head (''POST '' @ path @ '' HTTP/1.1'' @ concat (map ((@) crlf) (hdrs @ [''content-length: '' @ show_nat n]))) =
    Inr (''POST'', path, n)"
proof -
  let ?line = "''POST '' @ path @ '' HTTP/1.1''" and ?ls = "hdrs @ [''content-length: '' @ show_nat n]"
  have h: "l \<noteq> []" "ascii l" "CHR 0x0D \<notin> set l" if "l \<in> set ?ls" for l
    using that assms(2) show_nat_ascii [of n] by (auto simp: header_ok_def)
  have line: "ascii ?line" "CHR 0x0D \<notin> set ?line"
    using assms(1) by (auto simp: path_ok_def list_all_iff is_ascii_whitespace_def)
  have "ascii (concat (map ((@) crlf) ?ls))" by (rule ascii_concat) (use h in blast)
  then have utf8: "utf8_check 0 (?line @ concat (map ((@) crlf) ?ls)) = None" using line(1) by (intro utf8_check_ascii) simp
  have lines: "split_crlf (?line @ concat (map ((@) crlf) ?ls)) = ?line # ?ls"
    by (rule split_crlf_lines) (use line h in blast)+
  have t1: "next_token ?line = Some (''POST'', '' '' @ path @ '' HTTP/1.1'')"
    using next_token_word [of "''POST''" "CHR '' ''" "path @ '' HTTP/1.1''"] by (simp add: is_ascii_whitespace_def)
  have t2: "next_token ('' '' @ path @ '' HTTP/1.1'') = Some (path, '' HTTP/1.1'')"
    using assms(1) next_token_word [of path "CHR '' ''" "''HTTP/1.1''"] by (simp add: path_ok_def is_ascii_whitespace_def)
  have sc: "scan_headers ?ls 0 = Inr n" using scan_headers_skip [OF assms(2)] scan_content_length [OF assms(3)] by simp
  have "parse_head (?line @ concat (map ((@) crlf) ?ls)) = Inr (''POST'', path, n)"
    unfolding parse_head_def utf8 lines by (simp only: option.case list.case t1 t2 sc prod.case try_then_simps)
  then show ?thesis by simp
qed

lemma read_post:
  assumes "path_ok path" "\<forall>l \<in> set hdrs. header_ok l" "length body < 2 ^ 64"
  shows "request_of_stream (post_text path hdrs body) = Some (Inr \<lparr>pr_method = ''POST'', pr_path = path, pr_body = body\<rparr>)"
    and "find_header_terminator (post_text path hdrs body) = Some (length (post_text path hdrs body) - length body - 4)"
proof -
  let ?line = "''POST '' @ path @ '' HTTP/1.1''" and ?ls = "hdrs @ [''content-length: '' @ show_nat (length body)]"
  let ?head = "?line @ concat (map ((@) crlf) ?ls)"
  have whole: "post_text path hdrs body = ?head @ crlf @ crlf @ body" by (simp add: post_text_def)
  have h: "\<forall>l \<in> set ?ls. l \<noteq> [] \<and> CHR 0x0D \<notin> set l"
    using assms(2) show_nat_ascii [of "length body"] by (auto simp: header_ok_def)
  have line: "CHR 0x0D \<notin> set ?line"
    using assms(1) by (auto simp: path_ok_def list_all_iff is_ascii_whitespace_def)
  have "find_header_terminator (?line @ concat (map ((@) crlf) ?ls) @ crlf @ crlf @ body) = Some (length ?head)"
    using find_word [OF line] find_lines [OF h] by simp
  then have f: "find_header_terminator (post_text path hdrs body) = Some (length ?head)" unfolding whole by simp
  have tk: "take (length h) (h @ b) = h" "drop (length h + 4) (h @ crlf @ crlf @ b) = b"
    "length (h @ crlf @ crlf @ b) - (length h + 4) = length b" "length (h @ crlf @ crlf @ b) - length b - 4 = length h"
    for h b :: string by (simp_all add: crlf_def)
  have "length (post_text path hdrs body) - length body - 4 = length ?head" unfolding whole by (rule tk(4))
  with f show "find_header_terminator (post_text path hdrs body) = Some (length (post_text path hdrs body) - length body - 4)"
    by (simp only:)
  have "parse_head (take (length ?head) (post_text path hdrs body)) = Inr (''POST'', path, length body)"
  proof -
    have "take (length ?head) (post_text path hdrs body) = ?head" unfolding whole by (rule tk(1))
    then show ?thesis using parse_post_head [OF assms] by (simp only: append_assoc)
  qed
  moreover have "drop (length ?head + 4) (post_text path hdrs body) = body"
    "length (post_text path hdrs body) - (length ?head + 4) = length body"
    unfolding whole by (rule tk)+
  ultimately show "request_of_stream (post_text path hdrs body) =
      Some (Inr \<lparr>pr_method = ''POST'', pr_path = path, pr_body = body\<rparr>)"
    unfolding request_of_stream_def f by simp
qed

lemma read_post_chunks:
  assumes "\<forall>c \<in> set cs. c \<noteq> []" "concat cs = post_text path hdrs body" "path_ok path" "\<forall>l \<in> set hdrs. header_ok l"
    "length body < 2 ^ 64" "length (post_text path hdrs body) - length body \<le> 65537"
  shows "read_request (map Inr cs) = Some (Inr \<lparr>pr_method = ''POST'', pr_path = path, pr_body = body\<rparr>)"
proof -
  have "find_header_terminator (concat cs) = Some (length (post_text path hdrs body) - length body - 4)"
    using read_post(2) [OF assms(3-5)] assms(2) by simp
  moreover have "length (post_text path hdrs body) - length body - 4 \<le> 65533" using assms(6) by linarith
  ultimately show ?thesis using read_request_stream [OF assms(1)] read_post(1) [OF assms(3-5)] assms(2) by simp
qed

section \<open>Properties\<close>

text \<open>C21: A POST with a well-formed head is read as its method, path and body, whatever sizes the socket
  delivers the bytes in: a terminator cut by a chunk boundary is found, and body bytes that arrive with
  the head are kept. The head may have up to 64 KiB.\<close>

theorem post_request_read:
  assumes "\<forall>c \<in> set cs. c \<noteq> []" "concat cs = post_text path hdrs body" "path_ok path" "\<forall>l \<in> set hdrs. header_ok l"
    "length body < 2 ^ 64" "length (post_text path hdrs body) - length body \<le> 65537"
  shows "read_request (map Inr cs) = Some (Inr \<lparr>pr_method = ''POST'', pr_path = path, pr_body = body\<rparr>)"
  by (rule read_post_chunks [OF assms])

definition ex_chunks :: "string list" where
  "ex_chunks = (let s = post_text ''/rpc/diff'' [''Host: h''] ''{}'' in [take 45 s, take 2 (drop 45 s), drop 47 s])"

lemma post_request_read_witness:
  "read_request (map Inr ex_chunks) = Some (Inr \<lparr>pr_method = ''POST'', pr_path = ''/rpc/diff'', pr_body = ''{}''\<rparr>)"
proof (rule post_request_read)
  show "\<forall>c \<in> set ex_chunks. c \<noteq> []" "path_ok ''/rpc/diff''" "\<forall>l \<in> set [''Host: h'']. header_ok l" by code_simp+
  show "concat ex_chunks = post_text ''/rpc/diff'' [''Host: h''] ''{}''" by code_simp
qed (simp_all add: post_text_def crlf_def show_nat.simps)

text \<open>The bytes of the chunks read: what the reader of the head has buffered after them.\<close>

definition bytes_read :: "reads \<Rightarrow> string" where
  "bytes_read rs = concat (map (\<lambda>r. case r of Inl e \<Rightarrow> [] | Inr c \<Rightarrow> c) rs)"

lemma read_headers_resumes:
  "read_headers pre buf = None \<Longrightarrow> read_headers (pre @ post) buf = read_headers post (buf @ bytes_read pre)"
  by (induction pre buf rule: read_headers.induct) (auto simp: bytes_read_def Let_def split: if_splits option.splits)

lemma read_headers_waiting_bound:
  "read_headers pre buf = None \<Longrightarrow> length buf \<le> 65536 \<Longrightarrow> length (buf @ bytes_read pre) \<le> 65536"
  by (induction pre buf rule: read_headers.induct) (auto simp: bytes_read_def Let_def split: if_splits option.splits)

text \<open>
  C34: While the head of a request is read, in chunks of at most 4096 bytes, the buffer never holds more than 64 KiB and
  one chunk, whatever the peer sends: when the reader asks for another chunk it has buffered at most 64 KiB, with the
  chunk at most 4096 bytes more, and so when it has found the end of the head. A peer that never ends its head
  is answered after at most 65537 reads.
\<close>

theorem header_buffer_bounded:
  assumes "\<forall>c. Inr c \<in> set rs \<longrightarrow> length c \<le> 4096"
  shows "(\<forall>pre r post. rs = pre @ r # post \<longrightarrow> read_headers pre [] = None \<longrightarrow>
      read_headers rs [] = read_headers (r # post) (bytes_read pre) \<and>
      length (bytes_read pre) \<le> 65536 \<and> length (bytes_read (pre @ [r])) \<le> 65536 + 4096) \<and>
    (\<forall>i buf rs'. read_headers rs [] = Some (Inr (i, buf, rs')) \<longrightarrow> i + 4 \<le> length buf \<and> length buf \<le> 65536 + 4096) \<and>
    (65537 \<le> length rs \<longrightarrow> read_headers rs [] \<noteq> None)"
proof (intro conjI allI impI)
  fix pre r post
  assume rs: "rs = pre @ r # post" and none: "read_headers pre [] = None"
  show "read_headers rs [] = read_headers (r # post) (bytes_read pre)"
    using read_headers_resumes [OF none, of "r # post"] by (simp add: rs)
  show b: "length (bytes_read pre) \<le> 65536" using read_headers_waiting_bound [OF none] by simp
  have "length (case r of Inl e \<Rightarrow> [] | Inr c \<Rightarrow> c) \<le> 4096" using assms by (auto simp: rs split: sum.splits)
  with b show "length (bytes_read (pre @ [r])) \<le> 65536 + 4096" by (simp add: bytes_read_def)
next
  fix i buf rs'
  assume "read_headers rs [] = Some (Inr (i, buf, rs'))"
  from read_headers_buffer [OF this assms] show "i + 4 \<le> length buf" "length buf \<le> 65536 + 4096" by simp_all
next
  show "read_headers rs [] \<noteq> None" if "65537 \<le> length rs" using read_headers_waits [of rs "[]"] that by fastforce
qed

lemma header_buffer_bounded_witness:
  "read_headers [Inr ''G'', Inr (crlf @ crlf)] [] = Some (Inr (1, ''G'' @ crlf @ crlf, [])) \<and>
   length (bytes_read [Inr ''G'', Inr (crlf @ crlf)]) \<le> 65536 + 4096"
proof -
  have e: "read_headers [Inr ''G'', Inr (crlf @ crlf)] [] = Some (Inr (1, ''G'' @ crlf @ crlf, []))"
    "read_headers [Inr ''G''] [] = None"
    by (simp_all add: crlf_def find_header_terminator.simps)
  have "\<forall>c. Inr c \<in> set ([Inr ''G'', Inr (crlf @ crlf)] :: reads) \<longrightarrow> length c \<le> 4096" by (auto simp: crlf_def)
  from header_buffer_bounded [OF this] have "length (bytes_read ([Inr ''G''] @ [Inr (crlf @ crlf)])) \<le> 65536 + 4096"
    using e(2) by (metis append_Cons append_Nil)
  with e(1) show ?thesis by simp
qed

end
