(* ===== verification/Store_Ops.thy ===== *)
theory Store_Ops
  imports Persist_Store
begin

text \<open>
  A store as its clients hold it (\<open>Arc<dyn OntologyStore>\<close>): the record \<open>store_ops\<close> of the trait's methods
  over a state, and the two stores of the repository, \<open>mem_ops\<close> and \<open>pers_ops\<close>.
\<close>

section \<open>Stores\<close>

type_synonym ('s, 'a) st_op = "'s \<Rightarrow> (store_error + 'a) \<times> 's"

record 's store_ops =
  op_upsert_node :: "node \<Rightarrow> ('s, node_id) st_op"
  op_upsert_edge :: "edge \<Rightarrow> ('s, edge_id) st_op"
  op_upsert_axiom :: "axiom_rec \<Rightarrow> ('s, unit) st_op"
  op_node :: "node_id \<Rightarrow> ('s, node option) st_op"
  op_edge :: "edge_id \<Rightarrow> ('s, edge option) st_op"
  op_match_pattern :: "node_pattern \<Rightarrow> ('s, match_row list) st_op"
  op_traverse :: "traversal_plan \<Rightarrow> ('s, match_row list) st_op"
  op_snapshot :: "('s, ontology) st_op"
  op_diff :: "ontology \<Rightarrow> ('s, store_diff) st_op"
  op_commit :: "delta \<Rightarrow> activity \<Rightarrow> ('s, prov_id) st_op"
  op_provenance :: "('s, prov_log) st_op"

definition mem_snapshot :: "mem_state \<Rightarrow> ontology" where
  [code_defs]: "mem_snapshot s = ms_ont s"

definition mem_provenance :: "mem_state \<Rightarrow> prov_log" where
  [code_defs]: "mem_provenance s = ms_prov s"

definition pers_snapshot :: "pers_state \<Rightarrow> ontology" where
  [code_defs]: "pers_snapshot s = ps_ont s"

definition pers_provenance :: "pers_state \<Rightarrow> prov_log" where
  [code_defs]: "pers_provenance s = ps_prov s"

text \<open>An operation that cannot fail, one that only reads.\<close>

definition op_ok :: "'a \<times> 's \<Rightarrow> (store_error + 'a) \<times> 's" where
  "op_ok r = (Inr (fst r), snd r)"

definition op_read :: "('s \<Rightarrow> 'a) \<Rightarrow> ('s, 'a) st_op" where
  "op_read f s = (Inr (f s), s)"

definition mem_ops :: "mem_state store_ops" where
  [code_defs]: "mem_ops =
     \<lparr>op_upsert_node = (\<lambda>n s. op_ok (mem_upsert_node n s)), op_upsert_edge = (\<lambda>e s. op_ok (mem_upsert_edge e s)),
      op_upsert_axiom = (\<lambda>a s. (Inr (), mem_upsert_axiom a s)),
      op_node = (\<lambda>i. op_read (\<lambda>s. mem_node s i)), op_edge = (\<lambda>i. op_read (\<lambda>s. mem_edge s i)),
      op_match_pattern = (\<lambda>p. op_read (\<lambda>s. match_pattern s p)), op_traverse = (\<lambda>p. op_read (\<lambda>s. traverse s p)),
      op_snapshot = op_read mem_snapshot, op_diff = (\<lambda>o'. op_read (\<lambda>s. ont_diff (ms_ont s) o')),
      op_commit = (\<lambda>d a s. op_ok (mem_commit d a s)), op_provenance = op_read mem_provenance\<rparr>"

definition pers_ops ::
    "(snapshot \<Rightarrow> 'c \<Rightarrow> (ck_error + unit) \<times> 'c) \<Rightarrow> string \<Rightarrow> (pers_state \<times> 'c) store_ops" where
  [code_defs]: "pers_ops ck_save label =
     \<lparr>op_upsert_node = (\<lambda>n (s, c). (Inr (n_id n), (snd (pers_upsert_node n s), c))),
      op_upsert_edge = (\<lambda>e (s, c). (Inr (e_id e), (snd (pers_upsert_edge e s), c))),
      op_upsert_axiom = (\<lambda>a (s, c). (Inr (), (pers_upsert_axiom a s, c))),
      op_node = (\<lambda>i. op_read (\<lambda>(s, c). pers_node s i)), op_edge = (\<lambda>i. op_read (\<lambda>(s, c). pers_edge s i)),
      op_match_pattern = (\<lambda>p. op_read (\<lambda>(s, c). pers_match_pattern s p)),
      op_traverse = (\<lambda>p. op_read (\<lambda>(s, c). pers_traverse s p)),
      op_snapshot = op_read (\<lambda>(s, c). pers_snapshot s), op_diff = (\<lambda>o'. op_read (\<lambda>(s, c). pers_diff s o')),
      op_commit = pers_commit ck_save label, op_provenance = op_read (\<lambda>(s, c). pers_provenance s)\<rparr>"

fun store_error_display :: "store_error \<Rightarrow> string" where
  "store_error_display (StOntology m) = m"
| "store_error_display (StIo m) = ''io error: '' @ m"
| "store_error_display (StNotFound m) = ''not found: '' @ m"

end
