(* ===== verification/Remote_Server.thy ===== *)
theory Remote_Server
  imports Remote_Http Store_Ops
begin

text \<open>
  \<open>crates/atomr-ontology-remote/src/server.rs\<close>: the dispatch of a request to the methods of a store
  and the answer to a connection. The store is any implementation of the trait (\<open>store_ops\<close>). \<open>serde_json\<close> is the codec
  \<open>rpc_json\<close>: for each method the encoder and decoder of its request envelope and of its response,
  with the text of an error. The answer is assumed to be written in full. Bind, accept loop and
  shutdown are not modelled.
\<close>

section \<open>Messages as bytes\<close>

record ('p, 'r) method_codec =
  enc_request :: "'p rpc_envelope \<Rightarrow> string + string"
  dec_request :: "string \<Rightarrow> string + 'p rpc_envelope"
  enc_response :: "'r rpc_response \<Rightarrow> string + string"
  dec_response :: "string \<Rightarrow> string + 'r rpc_response"

record rpc_json =
  js_upsert_node :: "(upsert_node_request, upsert_node_response) method_codec"
  js_upsert_edge :: "(upsert_edge_request, upsert_edge_response) method_codec"
  js_upsert_axiom :: "(upsert_axiom_request, upsert_axiom_response) method_codec"
  js_get_node :: "(get_node_request, get_node_response) method_codec"
  js_get_edge :: "(get_edge_request, get_edge_response) method_codec"
  js_match_pattern :: "(match_pattern_request, match_pattern_response) method_codec"
  js_traverse :: "(traverse_request, traverse_response) method_codec"
  js_snapshot :: "(snapshot_request, snapshot_response) method_codec"
  js_diff :: "(diff_request, diff_response) method_codec"
  js_commit :: "(commit_request, commit_response) method_codec"
  js_provenance :: "(provenance_request, provenance_response) method_codec"
  enc_failure :: "unit rpc_response \<Rightarrow> string + string"
  dec_failure :: "string \<Rightarrow> string + unit rpc_response"

section \<open>Dispatch\<close>

definition encode_response :: "('r rpc_response \<Rightarrow> string + string) \<Rightarrow> 'r rpc_response \<Rightarrow> string" where
  [code_defs]: "encode_response enc resp =
     (case enc resp of Inr b \<Rightarrow> b | Inl e \<Rightarrow> ''{'' @ [CHR 0x22] @ ''error'' @ [CHR 0x22] @ '':'' @ [CHR 0x22] @
        ''encode response: '' @ e @ [CHR 0x22] @ ''}'')"

definition run ::
    "('p, 'r) method_codec \<Rightarrow> (unit rpc_response \<Rightarrow> string + string) \<Rightarrow> string \<Rightarrow> ('p \<Rightarrow> 's \<Rightarrow> (string + 'r) \<times> 's) \<Rightarrow> 's \<Rightarrow>
       string \<times> 's" where
  [code_defs]: "run mc fail body f s =
     (case dec_request mc body of
        Inl e \<Rightarrow> (encode_response fail (response_err (''decode: '' @ e)), s)
      | Inr env \<Rightarrow>
          (case f (rq_params env) s of
             (Inr v, s') \<Rightarrow> (encode_response (enc_response mc) (response_ok v), s')
           | (Inl m, s') \<Rightarrow> (encode_response fail (response_err m), s')))"

text \<open>\<open>map_err(|e| e.to_string())\<close>, and the response built from the value.\<close>

definition reply :: "('a \<Rightarrow> 'r) \<Rightarrow> (store_error + 'a) \<times> 's \<Rightarrow> (string + 'r) \<times> 's" where
  [code_defs]: "reply g r = (map_sum store_error_display g (fst r), snd r)"

definition dispatch :: "rpc_json \<Rightarrow> 's store_ops \<Rightarrow> string \<Rightarrow> string \<Rightarrow> 's \<Rightarrow> string \<times> 's" where
  [code_defs]: "dispatch J ops m body =
     (if m = M_upsert_node then
        run (js_upsert_node J) (enc_failure J) body (\<lambda>q s. reply UpsertNodeResponse (op_upsert_node ops (unq_node q) s))
      else if m = M_upsert_edge then
        run (js_upsert_edge J) (enc_failure J) body (\<lambda>q s. reply UpsertEdgeResponse (op_upsert_edge ops (ueq_edge q) s))
      else if m = M_upsert_axiom then
        run (js_upsert_axiom J) (enc_failure J) body
          (\<lambda>q s. reply (\<lambda>_. UpsertAxiomResponse) (op_upsert_axiom ops (uaq_axiom q) s))
      else if m = M_get_node then
        run (js_get_node J) (enc_failure J) body (\<lambda>q s. reply GetNodeResponse (op_node ops (gnq_id q) s))
      else if m = M_get_edge then
        run (js_get_edge J) (enc_failure J) body (\<lambda>q s. reply GetEdgeResponse (op_edge ops (geq_id q) s))
      else if m = M_match_pattern then
        run (js_match_pattern J) (enc_failure J) body
          (\<lambda>q s. reply (\<lambda>rs. MatchPatternResponse (map to_wire_row rs))
             (op_match_pattern ops (from_wire_node_pattern (mpq_pattern q)) s))
      else if m = M_traverse then
        run (js_traverse J) (enc_failure J) body
          (\<lambda>q s. reply (\<lambda>rs. TraverseResponse (map to_wire_row rs)) (op_traverse ops (from_wire_plan (trq_plan q)) s))
      else if m = M_snapshot then
        run (js_snapshot J) (enc_failure J) body
          (\<lambda>_ s. reply (\<lambda>o'. SnapshotResponse (to_wire_ontology o')) (op_snapshot ops s))
      else if m = M_diff then
        run (js_diff J) (enc_failure J) body
          (\<lambda>q s. reply (\<lambda>d. DiffResponse (to_wire_diff d)) (op_diff ops (from_wire_ontology (dfq_other q)) s))
      else if m = M_commit then
        run (js_commit J) (enc_failure J) body
          (\<lambda>q s. reply CommitResponse
             (op_commit ops (from_wire_delta (cmq_delta q)) (from_wire_activity (cmq_activity q)) s))
      else if m = M_provenance then
        run (js_provenance J) (enc_failure J) body
          (\<lambda>_ s. reply (\<lambda>l. ProvenanceResponse (to_wire_prov_log l)) (op_provenance ops s))
      else (\<lambda>s. (encode_response (enc_failure J) (response_err (''unknown method: '' @ m)), s)))"

section \<open>A connection\<close>

text \<open>The status and body written back; the state changes only in \<open>dispatch\<close>.\<close>

definition error_response :: "rpc_json \<Rightarrow> nat \<Rightarrow> string \<Rightarrow> nat \<times> string" where
  [code_defs]: "error_response J status m = (status, encode_response (enc_failure J) (response_err m))"

definition handle_request :: "rpc_json \<Rightarrow> 's store_ops \<Rightarrow> parsed_request \<Rightarrow> 's \<Rightarrow> (nat \<times> string) \<times> 's" where
  [code_defs]: "handle_request J ops req s =
     (if pr_method req \<noteq> ''POST'' then (error_response J 405 ''method not allowed'', s)
      else if take 5 (pr_path req) = ''/rpc/'' \<and> drop 5 (pr_path req) \<noteq> [] then
        (case dispatch J ops (drop 5 (pr_path req)) (pr_body req) s of (b, s') \<Rightarrow> ((200, b), s'))
      else (error_response J 404 ''unknown route'', s))"

definition handle_connection :: "rpc_json \<Rightarrow> 's store_ops \<Rightarrow> reads \<Rightarrow> 's \<Rightarrow> ((nat \<times> string) \<times> 's) option" where
  [code_defs]: "handle_connection J ops rs s =
     (case read_request rs of
        None \<Rightarrow> None
      | Some (Inl e) \<Rightarrow> Some (error_response J 400 (remote_error_display e), s)
      | Some (Inr req) \<Rightarrow> Some (handle_request J ops req s))"

definition written :: "nat \<times> string \<Rightarrow> string" where
  [code_defs]: "written r = write_response (fst r) (if fst r = 200 then ''OK'' else status_reason (fst r)) (snd r)"

section \<open>Answers that change nothing\<close>

definition rpc_methods :: "string list" where
  "rpc_methods = [M_upsert_node, M_upsert_edge, M_upsert_axiom, M_get_node, M_get_edge, M_match_pattern, M_traverse,
     M_snapshot, M_diff, M_commit, M_provenance]"

lemmas method_names = M_upsert_node_def M_upsert_edge_def M_upsert_axiom_def M_get_node_def M_get_edge_def
  M_match_pattern_def M_traverse_def M_snapshot_def M_diff_def M_commit_def M_provenance_def

text \<open>A request that names a route but no method, or whose body does not decode, is answered with status 200.\<close>

lemma dispatch_unknown:
  "m \<notin> set rpc_methods \<Longrightarrow>
     dispatch J ops m b s = (encode_response (enc_failure J) (response_err (''unknown method: '' @ m)), s)"
  by (simp add: dispatch_def rpc_methods_def)

text \<open>What the server answers to a request it does not serve, and that its store is then as before: an
  unreadable request is answered 400, another verb than POST 405, another path 404; an unknown
  method is answered 200 with the error in the body.\<close>

theorem unserved_requests:
  "(\<forall>e. read_request rs = Some (Inl e) \<longrightarrow>
      handle_connection J ops rs s = Some ((400, encode_response (enc_failure J) (response_err (remote_error_display e))), s)) \<and>
   (\<forall>req. read_request rs = Some (Inr req) \<and> pr_method req \<noteq> ''POST'' \<longrightarrow>
      handle_connection J ops rs s = Some ((405, encode_response (enc_failure J) (response_err ''method not allowed'')), s)) \<and>
   (\<forall>req. read_request rs = Some (Inr req) \<and> pr_method req = ''POST'' \<and>
        (\<nexists>m. m \<noteq> [] \<and> pr_path req = ''/rpc/'' @ m) \<longrightarrow>
      handle_connection J ops rs s = Some ((404, encode_response (enc_failure J) (response_err ''unknown route'')), s)) \<and>
   (\<forall>b m. read_request rs = Some (Inr \<lparr>pr_method = ''POST'', pr_path = ''/rpc/'' @ m, pr_body = b\<rparr>) \<and> m \<noteq> [] \<and>
        m \<notin> set rpc_methods \<longrightarrow>
      handle_connection J ops rs s =
        Some ((200, encode_response (enc_failure J) (response_err (''unknown method: '' @ m))), s))"
proof (intro conjI allI impI; (elim conjE)?)
  fix req assume req: "read_request rs = Some (Inr req)" "pr_method req = ''POST''"
    and no: "\<nexists>m. m \<noteq> [] \<and> pr_path req = ''/rpc/'' @ m"
  have "\<not> (take 5 (pr_path req) = ''/rpc/'' \<and> drop 5 (pr_path req) \<noteq> [])"
    using no append_take_drop_id [of 5 "pr_path req"] by metis
  with req show "handle_connection J ops rs s =
      Some ((404, encode_response (enc_failure J) (response_err ''unknown route'')), s)"
    by (auto simp: handle_connection_def handle_request_def error_response_def)
qed (simp_all add: handle_connection_def handle_request_def error_response_def dispatch_unknown)

lemma unserved_requests_witness:
  "\<forall>J. handle_connection J mem_ops [Inr (post_text ''/rpc/drop'' [] '''')] mem_new =
     Some ((200, encode_response (enc_failure J) (response_err ''unknown method: drop'')), mem_new)"
proof -
  have "read_request (map Inr [post_text ''/rpc/drop'' [] '''']) =
      Some (Inr \<lparr>pr_method = ''POST'', pr_path = ''/rpc/'' @ ''drop'', pr_body = ''''\<rparr>)"
    by (subst read_post_chunks [of _ "''/rpc/drop''" "[]" "''''"])
      (simp_all add: post_text_def crlf_def show_nat.simps path_ok_def is_ascii_whitespace_def)
  moreover have "''drop'' \<notin> set rpc_methods" by code_simp
  ultimately show ?thesis
    using unserved_requests [of "[Inr (post_text ''/rpc/drop'' [] '''')]" _ mem_ops mem_new] by force
qed

end
