(* ===== verification/Remote_Client.thy ===== *)
theory Remote_Client
  imports Remote_Server
begin

text \<open>
  \<open>crates/atomr-ontology-remote/src/client.rs\<close>: the store that forwards every method over HTTP, and
  that with the server at the other end it behaves as the served store. \<open>reqwest\<close> is the parameter
  \<open>send\<close>: url and body to the status and the body of the response (or the text of an error), on a
  state that stands for everything behind the socket; \<open>status_text\<close> is the \<open>Display\<close> of a status.
\<close>

type_synonym 'w sender = "string \<Rightarrow> string \<Rightarrow> 'w \<Rightarrow> (string + nat \<times> (string + string)) \<times> 'w"

record remote_client =
  rc_base_url :: string

definition client_new :: "string \<Rightarrow> remote_client" where
  [code_defs]: "client_new url = \<lparr>rc_base_url = rev (dropWhile (\<lambda>c. c = CHR ''/'') (rev url))\<rparr>"

definition client_call ::
    "'w sender \<Rightarrow> (nat \<Rightarrow> string) \<Rightarrow> (string \<Rightarrow> string + unit rpc_response) \<Rightarrow> ('p, 'r) method_codec \<Rightarrow> remote_client \<Rightarrow> string \<Rightarrow>
       'p \<Rightarrow> 'w \<Rightarrow> (remote_error + 'r) \<times> 'w" where
  [code_defs]: "client_call send status_text dec_fail mc cl m p w =
     (case enc_request mc (envelope_new m p) of
        Inl e \<Rightarrow> (Inl (ReEncoding (''serialize '' @ m @ '': '' @ e)), w)
      | Inr body \<Rightarrow>
          (case send (rc_base_url cl @ ''/rpc/'' @ m) body w of
             (Inl e, w') \<Rightarrow> (Inl (ReTransport (''send '' @ m @ '': '' @ e)), w')
           | (Inr (status, Inl e), w') \<Rightarrow> (Inl (ReTransport (''read body '' @ m @ '': '' @ e)), w')
           | (Inr (status, Inr bytes), w') \<Rightarrow>
               (if \<not> (200 \<le> status \<and> status < 300) then
                  (Inl (ReServer (case dec_fail bytes of
                     Inr r \<Rightarrow> (case rs_error r of Some e \<Rightarrow> e | None \<Rightarrow> ''HTTP '' @ status_text status)
                   | Inl e \<Rightarrow> ''HTTP '' @ status_text status @ '': '' @ utf8_lossy bytes)), w')
                else
                  case dec_response mc bytes of
                    Inl e \<Rightarrow> (Inl (ReEncoding (''deserialize '' @ m @ '': '' @ e)), w')
                  | Inr r \<Rightarrow>
                      (case rs_error r of
                         Some e \<Rightarrow> (Inl (ReServer e), w')
                       | None \<Rightarrow>
                           (case rs_result r of
                              Some v \<Rightarrow> (Inr v, w')
                            | None \<Rightarrow>
                                (Inl (ReEncoding (''response for '' @ m @ '' missing both result and error'')), w'))))))"

definition into_store_err :: "remote_error \<Rightarrow> store_error" where
  [code_defs]: "into_store_err e = StIo (remote_error_display e)"

definition take_result :: "('r \<Rightarrow> 'a) \<Rightarrow> (remote_error + 'r) \<times> 'w \<Rightarrow> (store_error + 'a) \<times> 'w" where
  [code_defs]: "take_result g r = (map_sum into_store_err g (fst r), snd r)"

section \<open>The methods of the trait\<close>

definition remote_upsert_node :: "'w sender \<Rightarrow> (nat \<Rightarrow> string) \<Rightarrow> rpc_json \<Rightarrow> remote_client \<Rightarrow> node \<Rightarrow> ('w, node_id) st_op" where
  [code_defs]: "remote_upsert_node send st J cl n w =
     take_result unr_id (client_call send st (dec_failure J) (js_upsert_node J) cl M_upsert_node (UpsertNodeRequest n) w)"

definition remote_upsert_edge :: "'w sender \<Rightarrow> (nat \<Rightarrow> string) \<Rightarrow> rpc_json \<Rightarrow> remote_client \<Rightarrow> edge \<Rightarrow> ('w, edge_id) st_op" where
  [code_defs]: "remote_upsert_edge send st J cl e w =
     take_result uer_id (client_call send st (dec_failure J) (js_upsert_edge J) cl M_upsert_edge (UpsertEdgeRequest e) w)"

definition remote_upsert_axiom :: "'w sender \<Rightarrow> (nat \<Rightarrow> string) \<Rightarrow> rpc_json \<Rightarrow> remote_client \<Rightarrow> axiom_rec \<Rightarrow> ('w, unit) st_op" where
  [code_defs]: "remote_upsert_axiom send st J cl a w =
     take_result (\<lambda>_. ()) (client_call send st (dec_failure J) (js_upsert_axiom J) cl M_upsert_axiom (UpsertAxiomRequest a) w)"

definition remote_node :: "'w sender \<Rightarrow> (nat \<Rightarrow> string) \<Rightarrow> rpc_json \<Rightarrow> remote_client \<Rightarrow> node_id \<Rightarrow> ('w, node option) st_op" where
  [code_defs]: "remote_node send st J cl i w =
     take_result gnr_node (client_call send st (dec_failure J) (js_get_node J) cl M_get_node (GetNodeRequest i) w)"

definition remote_edge :: "'w sender \<Rightarrow> (nat \<Rightarrow> string) \<Rightarrow> rpc_json \<Rightarrow> remote_client \<Rightarrow> edge_id \<Rightarrow> ('w, edge option) st_op" where
  [code_defs]: "remote_edge send st J cl i w =
     take_result ger_edge (client_call send st (dec_failure J) (js_get_edge J) cl M_get_edge (GetEdgeRequest i) w)"

definition remote_match_pattern ::
    "'w sender \<Rightarrow> (nat \<Rightarrow> string) \<Rightarrow> rpc_json \<Rightarrow> remote_client \<Rightarrow> node_pattern \<Rightarrow> ('w, match_row list) st_op" where
  [code_defs]: "remote_match_pattern send st J cl p w =
     take_result (\<lambda>r. map from_wire_row (mpr_rows r))
       (client_call send st (dec_failure J) (js_match_pattern J) cl M_match_pattern
          (MatchPatternRequest (to_wire_node_pattern p)) w)"

definition remote_traverse ::
    "'w sender \<Rightarrow> (nat \<Rightarrow> string) \<Rightarrow> rpc_json \<Rightarrow> remote_client \<Rightarrow> traversal_plan \<Rightarrow> ('w, match_row list) st_op" where
  [code_defs]: "remote_traverse send st J cl p w =
     take_result (\<lambda>r. map from_wire_row (trr_rows r))
       (client_call send st (dec_failure J) (js_traverse J) cl M_traverse (TraverseRequest (to_wire_plan p)) w)"

definition remote_snapshot :: "'w sender \<Rightarrow> (nat \<Rightarrow> string) \<Rightarrow> rpc_json \<Rightarrow> remote_client \<Rightarrow> ('w, ontology) st_op" where
  [code_defs]: "remote_snapshot send st J cl w =
     take_result (\<lambda>r. from_wire_ontology (snr_ontology r))
       (client_call send st (dec_failure J) (js_snapshot J) cl M_snapshot SnapshotRequest w)"

definition remote_diff :: "'w sender \<Rightarrow> (nat \<Rightarrow> string) \<Rightarrow> rpc_json \<Rightarrow> remote_client \<Rightarrow> ontology \<Rightarrow> ('w, store_diff) st_op" where
  [code_defs]: "remote_diff send st J cl other w =
     take_result (\<lambda>r. from_wire_diff (dfr_diff r))
       (client_call send st (dec_failure J) (js_diff J) cl M_diff (DiffRequest (to_wire_ontology other)) w)"

definition remote_commit ::
    "'w sender \<Rightarrow> (nat \<Rightarrow> string) \<Rightarrow> rpc_json \<Rightarrow> remote_client \<Rightarrow> delta \<Rightarrow> activity \<Rightarrow> ('w, prov_id) st_op" where
  [code_defs]: "remote_commit send st J cl d a w =
     take_result cmr_provenance_id
       (client_call send st (dec_failure J) (js_commit J) cl M_commit (CommitRequest (to_wire_delta d) (to_wire_activity a)) w)"

definition remote_provenance :: "'w sender \<Rightarrow> (nat \<Rightarrow> string) \<Rightarrow> rpc_json \<Rightarrow> remote_client \<Rightarrow> ('w, prov_log) st_op" where
  [code_defs]: "remote_provenance send st J cl w =
     take_result (\<lambda>r. from_wire_prov_log (pvr_log r))
       (client_call send st (dec_failure J) (js_provenance J) cl M_provenance ProvenanceRequest w)"

definition remote_ops :: "'w sender \<Rightarrow> (nat \<Rightarrow> string) \<Rightarrow> rpc_json \<Rightarrow> remote_client \<Rightarrow> 'w store_ops" where
  [code_defs]: "remote_ops send st J cl =
     \<lparr>op_upsert_node = remote_upsert_node send st J cl, op_upsert_edge = remote_upsert_edge send st J cl,
      op_upsert_axiom = remote_upsert_axiom send st J cl, op_node = remote_node send st J cl,
      op_edge = remote_edge send st J cl, op_match_pattern = remote_match_pattern send st J cl,
      op_traverse = remote_traverse send st J cl, op_snapshot = remote_snapshot send st J cl,
      op_diff = remote_diff send st J cl, op_commit = remote_commit send st J cl,
      op_provenance = remote_provenance send st J cl\<rparr>"

section \<open>A call that is served\<close>

text \<open>
  What the transport does: the bytes of a well-formed POST to the path of the url reach the server in
  some chunks, and the client gets the status and body that the server answers.
\<close>

definition delivers :: "'s sender \<Rightarrow> remote_client \<Rightarrow> rpc_json \<Rightarrow> 's store_ops \<Rightarrow> bool" where
  "delivers send cl J ops \<longleftrightarrow> (\<forall>m \<in> set rpc_methods. \<forall>body s. length body < 2 ^ 64 \<longrightarrow>
     (\<exists>cs hdrs. (\<forall>c \<in> set cs. c \<noteq> []) \<and> concat cs = post_text (''/rpc/'' @ m) hdrs body \<and> (\<forall>l \<in> set hdrs. header_ok l) \<and>
       length (post_text (''/rpc/'' @ m) hdrs body) - length body \<le> 65537 \<and>
       (\<forall>resp s'. handle_connection J ops (map Inr cs) s = Some (resp, s') \<longrightarrow>
          send (rc_base_url cl @ ''/rpc/'' @ m) body s = (Inr (fst resp, Inr (snd resp)), s'))))"

text \<open>What \<open>serde_json\<close> does on the messages of one call: request and response are decoded as encoded.\<close>

definition carries ::
    "('p, 'r) method_codec \<Rightarrow> (unit rpc_response \<Rightarrow> string + string) \<Rightarrow> string \<Rightarrow> 'p \<Rightarrow> string + 'r \<Rightarrow> bool" where
  "carries mc fail m p r \<longleftrightarrow>
     (\<exists>b. enc_request mc (envelope_new m p) = Inr b \<and> length b < 2 ^ 64 \<and> dec_request mc b = Inr (envelope_new m p)) \<and>
     (case r of
        Inr v \<Rightarrow> \<exists>b. enc_response mc (response_ok v) = Inr b \<and> dec_response mc b = Inr (response_ok v)
      | Inl e \<Rightarrow> \<exists>b. fail (response_err e) = Inr b \<and> dec_response mc b = Inr (response_err e))"

lemma method_path:
  assumes "m \<in> set rpc_methods"
  shows "path_ok (''/rpc/'' @ m)" "m \<noteq> []"
proof -
  have "list_all (\<lambda>m. path_ok (''/rpc/'' @ m) \<and> m \<noteq> []) rpc_methods" by code_simp
  with assms show "path_ok (''/rpc/'' @ m)" "m \<noteq> []" by (auto simp: list_all_iff)
qed

lemma run_carries:
  assumes "carries mc fail m p (fst (f p s))" "enc_request mc (envelope_new m p) = Inr b"
  shows "\<exists>b'. run mc fail b f s = (b', snd (f p s)) \<and>
    dec_response mc b' = Inr (case fst (f p s) of Inr v \<Rightarrow> response_ok v | Inl e \<Rightarrow> response_err e)"
proof -
  have "dec_request mc b = Inr (envelope_new m p)" using assms by (auto simp: carries_def)
  then show ?thesis using assms(1)
    by (cases "f p s"; cases "fst (f p s)") (auto simp: run_def carries_def encode_response_def envelope_new_def)
qed

lemma call_served:
  assumes del: "delivers send cl J ops" and m: "m \<in> set rpc_methods"
    and disp: "\<And>b. dispatch J ops m b s = run mc (enc_failure J) b f s"
    and car: "carries mc (enc_failure J) m p (fst (f p s))"
  shows "client_call send st df mc cl m p s = (map_sum ReServer id (fst (f p s)), snd (f p s))"
proof -
  obtain b where b: "enc_request mc (envelope_new m p) = Inr b" "length b < 2 ^ 64" using car by (auto simp: carries_def)
  from del m obtain cs hdrs where cs: "\<forall>c \<in> set cs. c \<noteq> []" "concat cs = post_text (''/rpc/'' @ m) hdrs b"
    "\<forall>l \<in> set hdrs. header_ok l" "length (post_text (''/rpc/'' @ m) hdrs b) - length b \<le> 65537"
    "\<And>resp s'. handle_connection J ops (map Inr cs) s = Some (resp, s') \<Longrightarrow>
       send (rc_base_url cl @ ''/rpc/'' @ m) b s = (Inr (fst resp, Inr (snd resp)), s')"
    using b(2) unfolding delivers_def by blast
  obtain b' where b': "run mc (enc_failure J) b f s = (b', snd (f p s))"
    "dec_response mc b' = Inr (case fst (f p s) of Inr v \<Rightarrow> response_ok v | Inl e \<Rightarrow> response_err e)"
    using run_carries [where f = f, OF car b(1)] by blast
  have "handle_connection J ops (map Inr cs) s = Some ((200, b'), snd (f p s))"
    using read_post_chunks [OF cs(1,2) method_path(1) [OF m] cs(3) b(2) cs(4)] method_path(2) [OF m] b'(1)
    by (simp add: handle_connection_def handle_request_def disp)
  from cs(5) [OF this] show ?thesis
    using b(1) b'(2) by (cases "fst (f p s)") (simp_all add: client_call_def response_ok_def response_err_def)
qed

text \<open>An error of the served store reaches the client as an I/O error with its text.\<close>

definition surfaced :: "(store_error + 'a) \<times> 's \<Rightarrow> (store_error + 'a) \<times> 's" where
  "surfaced r = (map_sum (\<lambda>e. StIo (''server error: '' @ store_error_display e)) id (fst r), snd r)"

lemma take_served:
  "(\<And>x. fst r = Inr x \<Longrightarrow> g (h x) = x) \<Longrightarrow>
     take_result g (map_sum ReServer id (fst (reply h r)), snd (reply h r)) = surfaced r"
  by (cases "fst r") (simp_all add: take_result_def reply_def surfaced_def into_store_err_def)

lemmas served_simps = dispatch_def method_names rpc_methods_def take_served wire_round_trips comp_def

lemma served_upsert_node:
  "delivers send cl J ops \<Longrightarrow> carries (js_upsert_node J) (enc_failure J) M_upsert_node (UpsertNodeRequest n)
     (fst (reply UpsertNodeResponse (op_upsert_node ops n s))) \<Longrightarrow>
     remote_upsert_node send st J cl n s = surfaced (op_upsert_node ops n s)"
  unfolding remote_upsert_node_def
  by (subst call_served [where f = "(\<lambda>q s. reply UpsertNodeResponse (op_upsert_node ops (unq_node q) s))"])
    (simp_all add: served_simps)

lemma served_upsert_edge:
  "delivers send cl J ops \<Longrightarrow> carries (js_upsert_edge J) (enc_failure J) M_upsert_edge (UpsertEdgeRequest e)
     (fst (reply UpsertEdgeResponse (op_upsert_edge ops e s))) \<Longrightarrow>
     remote_upsert_edge send st J cl e s = surfaced (op_upsert_edge ops e s)"
  unfolding remote_upsert_edge_def
  by (subst call_served [where f = "(\<lambda>q s. reply UpsertEdgeResponse (op_upsert_edge ops (ueq_edge q) s))"])
    (simp_all add: served_simps)

lemma served_upsert_axiom:
  "delivers send cl J ops \<Longrightarrow> carries (js_upsert_axiom J) (enc_failure J) M_upsert_axiom (UpsertAxiomRequest a)
     (fst (reply (\<lambda>_. UpsertAxiomResponse) (op_upsert_axiom ops a s))) \<Longrightarrow>
     remote_upsert_axiom send st J cl a s = surfaced (op_upsert_axiom ops a s)"
  unfolding remote_upsert_axiom_def
  by (subst call_served [where f = "(\<lambda>q s. reply (\<lambda>_. UpsertAxiomResponse) (op_upsert_axiom ops (uaq_axiom q) s))"])
    (simp_all add: served_simps)

lemma served_get_node:
  "delivers send cl J ops \<Longrightarrow> carries (js_get_node J) (enc_failure J) M_get_node (GetNodeRequest i)
     (fst (reply GetNodeResponse (op_node ops i s))) \<Longrightarrow>
     remote_node send st J cl i s = surfaced (op_node ops i s)"
  unfolding remote_node_def
  by (subst call_served [where f = "(\<lambda>q s. reply GetNodeResponse (op_node ops (gnq_id q) s))"])
    (simp_all add: served_simps)

lemma served_get_edge:
  "delivers send cl J ops \<Longrightarrow> carries (js_get_edge J) (enc_failure J) M_get_edge (GetEdgeRequest j)
     (fst (reply GetEdgeResponse (op_edge ops j s))) \<Longrightarrow>
     remote_edge send st J cl j s = surfaced (op_edge ops j s)"
  unfolding remote_edge_def
  by (subst call_served [where f = "(\<lambda>q s. reply GetEdgeResponse (op_edge ops (geq_id q) s))"])
    (simp_all add: served_simps)

lemma served_match_pattern:
  "delivers send cl J ops \<Longrightarrow> carries (js_match_pattern J) (enc_failure J) M_match_pattern (MatchPatternRequest (to_wire_node_pattern p))
     (fst (reply (\<lambda>rs. MatchPatternResponse (map to_wire_row rs)) (op_match_pattern ops p s))) \<Longrightarrow>
     remote_match_pattern send st J cl p s = surfaced (op_match_pattern ops p s)"
  unfolding remote_match_pattern_def
  by (subst call_served [where f = "(\<lambda>q s. reply (\<lambda>rs. MatchPatternResponse (map to_wire_row rs)) (op_match_pattern ops (from_wire_node_pattern (mpq_pattern q)) s))"])
    (simp_all add: served_simps)

lemma served_traverse:
  "delivers send cl J ops \<Longrightarrow> carries (js_traverse J) (enc_failure J) M_traverse (TraverseRequest (to_wire_plan q))
     (fst (reply (\<lambda>rs. TraverseResponse (map to_wire_row rs)) (op_traverse ops q s))) \<Longrightarrow>
     remote_traverse send st J cl q s = surfaced (op_traverse ops q s)"
  unfolding remote_traverse_def
  by (subst call_served [where f = "(\<lambda>q s. reply (\<lambda>rs. TraverseResponse (map to_wire_row rs)) (op_traverse ops (from_wire_plan (trq_plan q)) s))"])
    (simp_all add: served_simps)

lemma served_snapshot:
  "delivers send cl J ops \<Longrightarrow> carries (js_snapshot J) (enc_failure J) M_snapshot SnapshotRequest
     (fst (reply (\<lambda>o'. SnapshotResponse (to_wire_ontology o')) (op_snapshot ops s))) \<Longrightarrow> \<forall>o'. fst (op_snapshot ops s) = Inr o' \<longrightarrow> ont_wf o' \<Longrightarrow>
     remote_snapshot send st J cl  s = surfaced (op_snapshot ops s)"
  unfolding remote_snapshot_def
  by (subst call_served [where f = "(\<lambda>q s. reply (\<lambda>o'. SnapshotResponse (to_wire_ontology o')) (op_snapshot ops s))"])
    (simp_all add: served_simps)

lemma served_diff:
  "delivers send cl J ops \<Longrightarrow> carries (js_diff J) (enc_failure J) M_diff (DiffRequest (to_wire_ontology x))
     (fst (reply (\<lambda>d. DiffResponse (to_wire_diff d)) (op_diff ops x s))) \<Longrightarrow> ont_wf x \<Longrightarrow>
     remote_diff send st J cl x s = surfaced (op_diff ops x s)"
  unfolding remote_diff_def
  by (subst call_served [where f = "(\<lambda>q s. reply (\<lambda>d. DiffResponse (to_wire_diff d)) (op_diff ops (from_wire_ontology (dfq_other q)) s))"])
    (simp_all add: served_simps)

lemma served_commit:
  "delivers send cl J ops \<Longrightarrow> carries (js_commit J) (enc_failure J) M_commit (CommitRequest (to_wire_delta d) (to_wire_activity c))
     (fst (reply CommitResponse (op_commit ops d c s))) \<Longrightarrow>
     remote_commit send st J cl d c s = surfaced (op_commit ops d c s)"
  unfolding remote_commit_def
  by (subst call_served [where f = "(\<lambda>q s. reply CommitResponse (op_commit ops (from_wire_delta (cmq_delta q)) (from_wire_activity (cmq_activity q)) s))"])
    (simp_all add: served_simps)

lemma served_provenance:
  "delivers send cl J ops \<Longrightarrow> carries (js_provenance J) (enc_failure J) M_provenance ProvenanceRequest
     (fst (reply (\<lambda>l. ProvenanceResponse (to_wire_prov_log l)) (op_provenance ops s))) \<Longrightarrow> \<forall>l. fst (op_provenance ops s) = Inr l \<longrightarrow> prov_log_wf l \<Longrightarrow>
     remote_provenance send st J cl  s = surfaced (op_provenance ops s)"
  unfolding remote_provenance_def
  by (subst call_served [where f = "(\<lambda>q s. reply (\<lambda>l. ProvenanceResponse (to_wire_prov_log l)) (op_provenance ops s))"])
    (simp_all add: served_simps)

section \<open>Properties\<close>

text \<open>C6: Serving a store and calling it through the client is calling the store: each method of the trait
  gives the result of the served method and leaves its state, with an error turned into an I/O error
  that carries its text. The hypotheses are that the transport delivers, that the messages of the call
  survive the codec, and for ontologies and ledgers that they are keyed by the ids of their values.\<close>

theorem remote_store_transparent:
  assumes "delivers send cl J ops"
  shows "(carries (js_upsert_node J) (enc_failure J) M_upsert_node (UpsertNodeRequest n)
       (fst (reply UpsertNodeResponse (op_upsert_node ops n s))) \<longrightarrow>
       op_upsert_node (remote_ops send st J cl) n s = surfaced (op_upsert_node ops n s)) \<and>
    (carries (js_upsert_edge J) (enc_failure J) M_upsert_edge (UpsertEdgeRequest e)
       (fst (reply UpsertEdgeResponse (op_upsert_edge ops e s))) \<longrightarrow>
       op_upsert_edge (remote_ops send st J cl) e s = surfaced (op_upsert_edge ops e s)) \<and>
    (carries (js_upsert_axiom J) (enc_failure J) M_upsert_axiom (UpsertAxiomRequest a)
       (fst (reply (\<lambda>_. UpsertAxiomResponse) (op_upsert_axiom ops a s))) \<longrightarrow>
       op_upsert_axiom (remote_ops send st J cl) a s = surfaced (op_upsert_axiom ops a s)) \<and>
    (carries (js_get_node J) (enc_failure J) M_get_node (GetNodeRequest i)
       (fst (reply GetNodeResponse (op_node ops i s))) \<longrightarrow>
       op_node (remote_ops send st J cl) i s = surfaced (op_node ops i s)) \<and>
    (carries (js_get_edge J) (enc_failure J) M_get_edge (GetEdgeRequest j)
       (fst (reply GetEdgeResponse (op_edge ops j s))) \<longrightarrow>
       op_edge (remote_ops send st J cl) j s = surfaced (op_edge ops j s)) \<and>
    (carries (js_match_pattern J) (enc_failure J) M_match_pattern (MatchPatternRequest (to_wire_node_pattern p))
       (fst (reply (\<lambda>rs. MatchPatternResponse (map to_wire_row rs)) (op_match_pattern ops p s))) \<longrightarrow>
       op_match_pattern (remote_ops send st J cl) p s = surfaced (op_match_pattern ops p s)) \<and>
    (carries (js_traverse J) (enc_failure J) M_traverse (TraverseRequest (to_wire_plan q))
       (fst (reply (\<lambda>rs. TraverseResponse (map to_wire_row rs)) (op_traverse ops q s))) \<longrightarrow>
       op_traverse (remote_ops send st J cl) q s = surfaced (op_traverse ops q s)) \<and>
    ((\<forall>o'. fst (op_snapshot ops s) = Inr o' \<longrightarrow> ont_wf o') \<and>
     carries (js_snapshot J) (enc_failure J) M_snapshot SnapshotRequest
       (fst (reply (\<lambda>o'. SnapshotResponse (to_wire_ontology o')) (op_snapshot ops s))) \<longrightarrow>
       op_snapshot (remote_ops send st J cl)  s = surfaced (op_snapshot ops s)) \<and>
    ((ont_wf x) \<and>
     carries (js_diff J) (enc_failure J) M_diff (DiffRequest (to_wire_ontology x))
       (fst (reply (\<lambda>d. DiffResponse (to_wire_diff d)) (op_diff ops x s))) \<longrightarrow>
       op_diff (remote_ops send st J cl) x s = surfaced (op_diff ops x s)) \<and>
    (carries (js_commit J) (enc_failure J) M_commit (CommitRequest (to_wire_delta d) (to_wire_activity c))
       (fst (reply CommitResponse (op_commit ops d c s))) \<longrightarrow>
       op_commit (remote_ops send st J cl) d c s = surfaced (op_commit ops d c s)) \<and>
    ((\<forall>l. fst (op_provenance ops s) = Inr l \<longrightarrow> prov_log_wf l) \<and>
     carries (js_provenance J) (enc_failure J) M_provenance ProvenanceRequest
       (fst (reply (\<lambda>l. ProvenanceResponse (to_wire_prov_log l)) (op_provenance ops s))) \<longrightarrow>
       op_provenance (remote_ops send st J cl)  s = surfaced (op_provenance ops s))"
  unfolding remote_ops_def store_ops.simps
  by (intro conjI impI; (elim conjE)?)
    (simp_all only: assms served_upsert_node served_upsert_edge served_upsert_axiom served_get_node served_get_edge served_match_pattern served_traverse served_snapshot served_diff served_commit served_provenance)

definition dead_codec :: "('p, 'r) method_codec" where
  "dead_codec = \<lparr>enc_request = \<lambda>_. Inl ''unsupported'', dec_request = \<lambda>_. Inl ''unsupported'',
     enc_response = \<lambda>_. Inl ''unsupported'', dec_response = \<lambda>_. Inl ''unsupported''\<rparr>"

definition one_message_codec :: "'p rpc_envelope \<Rightarrow> 'r rpc_response \<Rightarrow> ('p, 'r) method_codec" where
  "one_message_codec q r = \<lparr>enc_request = \<lambda>_. Inr ''q'', dec_request = \<lambda>_. Inr q, enc_response = \<lambda>_. Inr ''r'',
     dec_response = \<lambda>_. Inr r\<rparr>"

definition ex_activity :: activity where
  "ex_activity = activity_started (ProvenanceId (str_bytes ''a1'')) 7 ''import''"

definition ex_json :: rpc_json where
  "ex_json = \<lparr>js_upsert_node = dead_codec, js_upsert_edge = dead_codec, js_upsert_axiom = dead_codec,
     js_get_node = dead_codec, js_get_edge = dead_codec, js_match_pattern = dead_codec, js_traverse = dead_codec,
     js_snapshot = one_message_codec (envelope_new M_snapshot SnapshotRequest)
       (response_ok (SnapshotResponse (to_wire_ontology ontology_new))),
     js_diff = dead_codec,
     js_commit = one_message_codec
       (envelope_new M_commit (CommitRequest (to_wire_delta delta_new) (to_wire_activity ex_activity)))
       (response_ok (CommitResponse (act_id ex_activity))),
     js_provenance = dead_codec, enc_failure = \<lambda>_. Inl ''unsupported'', dec_failure = \<lambda>_. Inl ''unsupported''\<rparr>"

definition ex_client :: remote_client where
  "ex_client = client_new ''http://h:80/''"

definition ex_send :: "mem_state sender" where
  "ex_send url body s =
     (case handle_connection ex_json mem_ops [Inr (post_text (drop 11 url) [] body)] s of
        Some (r, s') \<Rightarrow> (Inr (fst r, Inr (snd r)), s') | None \<Rightarrow> (Inl ''no answer'', s))"

lemma show_nat_length: "n < 10 ^ Suc k \<Longrightarrow> length (show_nat n) \<le> Suc k"
proof (induction k arbitrary: n)
  case (Suc k)
  then have "n div 10 < 10 ^ Suc k" by simp
  with Suc.IH [of "n div 10"] show ?case by (subst show_nat.simps) simp
qed (simp add: show_nat.simps)

lemma ex_delivers: "delivers ex_send ex_client ex_json mem_ops"
  unfolding delivers_def
proof (intro ballI allI impI)
  fix m body and s :: mem_state
  assume m: "m \<in> set rpc_methods" and b: "length (body :: string) < 2 ^ 64"
  have "list_all (\<lambda>m. length m \<le> 13) rpc_methods" by code_simp
  with m have "length m \<le> 13" by (auto simp: list_all_iff)
  moreover have "length (show_nat (length body)) \<le> 20" by (rule show_nat_length [of _ 19, simplified]) (use b in simp)
  ultimately have len: "length (post_text (''/rpc/'' @ m) [] body) - length body \<le> 65537"
    by (simp add: post_text_def crlf_def)
  have "rc_base_url ex_client = ''http://h:80''" by code_simp
  then have "ex_send (rc_base_url ex_client @ ''/rpc/'' @ m) body s =
      (case handle_connection ex_json mem_ops [Inr (post_text (''/rpc/'' @ m) [] body)] s of
        Some (r, s') \<Rightarrow> (Inr (fst r, Inr (snd r)), s') | None \<Rightarrow> (Inl ''no answer'', s))"
    by (simp add: ex_send_def)
  with len show "\<exists>cs hdrs. (\<forall>c \<in> set cs. c \<noteq> []) \<and> concat cs = post_text (''/rpc/'' @ m) hdrs body \<and>
      (\<forall>l \<in> set hdrs. header_ok l) \<and> length (post_text (''/rpc/'' @ m) hdrs body) - length body \<le> 65537 \<and>
      (\<forall>resp s'. handle_connection ex_json mem_ops (map Inr cs) s = Some (resp, s') \<longrightarrow>
         ex_send (rc_base_url ex_client @ ''/rpc/'' @ m) body s = (Inr (fst resp, Inr (snd resp)), s'))"
    by (intro exI [of _ "[post_text (''/rpc/'' @ m) [] body]"] exI [of _ "[]"]) (simp add: post_text_def)
qed

lemma ex_carries:
  "carries (js_commit ex_json) (enc_failure ex_json) M_commit
     (CommitRequest (to_wire_delta delta_new) (to_wire_activity ex_activity))
     (fst (reply CommitResponse (op_commit mem_ops delta_new ex_activity mem_new)))"
  "carries (js_snapshot ex_json) (enc_failure ex_json) M_snapshot SnapshotRequest
     (fst (reply (\<lambda>o'. SnapshotResponse (to_wire_ontology o')) (op_snapshot mem_ops mem_new)))"
  by (simp_all add: carries_def ex_json_def one_message_codec_def reply_def mem_ops_def op_ok_def op_read_def mem_commit_def
      mem_snapshot_def mem_new_def)

lemma remote_store_transparent_witness:
  "op_commit (remote_ops ex_send (\<lambda>_. ''?'') ex_json ex_client) delta_new ex_activity mem_new =
     surfaced (op_commit mem_ops delta_new ex_activity mem_new) \<and>
   op_snapshot (remote_ops ex_send (\<lambda>_. ''?'') ex_json ex_client) mem_new = surfaced (op_snapshot mem_ops mem_new)"
proof -
  have "\<forall>o'. fst (op_snapshot mem_ops mem_new) = Inr o' \<longrightarrow> ont_wf o'"
    by (simp add: mem_ops_def op_read_def mem_snapshot_def mem_new_def)
  then show ?thesis using remote_store_transparent [OF ex_delivers] ex_carries by blast
qed

end
