(* ===== verification/Rdf_Turtle.thy ===== *)
theory Rdf_Turtle
  imports Rdf_NTriples
begin

text \<open>
  \<open>crates/atomr-ontology-rdf/src/turtle.rs\<close>: the Turtle writer and parser. The parser's state is what is
  left of the input and the prefixes bound so far. Its error texts are constructors with their
  arguments (for an excerpt, the input it is cut from). The escapes and the term type are those of \<open>ntriples.rs\<close>, which has its own copies.
\<close>

section \<open>Writing\<close>

definition ttl_abbreviates :: "string \<Rightarrow> iri \<Rightarrow> string option" where
  [code_defs]: "ttl_abbreviates i base =
     (if take (length (as_str base)) i = as_str base \<and>
         CHR '' '' \<notin> set (drop (length (as_str base)) i) \<and> CHR ''/'' \<notin> set (drop (length (as_str base)) i)
      then Some (drop (length (as_str base)) i) else None)"

fun ttl_push_iri :: "vocabulary \<Rightarrow> iri \<Rightarrow> string" where
  "ttl_push_iri [] i = ''<'' @ as_str i @ ''>''"
| "ttl_push_iri ((p, base) # v) i =
     (case ttl_abbreviates (as_str i) base of
        Some l \<Rightarrow> p @ '':'' @ l
      | None \<Rightarrow> ttl_push_iri v i)"

definition ttl_push_subject :: "vocabulary \<Rightarrow> subject \<Rightarrow> string" where
  [code_defs]: "ttl_push_subject v s = (case s of SIri i \<Rightarrow> ttl_push_iri v i | SBlank l \<Rightarrow> ''_:'' @ l)"

definition ttl_push_object :: "vocabulary \<Rightarrow> object \<Rightarrow> string" where
  [code_defs]: "ttl_push_object v ob =
     (case ob of
        OIri i \<Rightarrow> ttl_push_iri v i
      | OBlank l \<Rightarrow> ''_:'' @ l
      | OLiteral lexical dt language \<Rightarrow>
          [CHR 0x22] @ concat (map escape_char lexical) @ [CHR 0x22] @
          (case language of
             Some l \<Rightarrow> ''@'' @ l
           | None \<Rightarrow> if as_str dt \<noteq> ''http://www.w3.org/2001/XMLSchema#string'' then ''^^'' @ ttl_push_iri v dt else []))"

definition ttl_push_triple :: "vocabulary \<Rightarrow> rdf_triple \<Rightarrow> string" where
  [code_defs]: "ttl_push_triple v t =
     ttl_push_subject v (t_subject t) @ '' '' @ ttl_push_iri v (t_predicate t) @ '' '' @ ttl_push_object v (t_object t)"

definition ttl_header :: "vocabulary \<Rightarrow> string" where
  [code_defs]: "ttl_header v =
     (let out = concat (map (\<lambda>(p, base). ''@prefix '' @ p @ '': <'' @ as_str base @ ''> .'' @ [CHR 0x0A]) v)
      in if out \<noteq> [] then out @ [CHR 0x0A] else out)"

definition ttl_document :: "vocabulary \<Rightarrow> rdf_triple list \<Rightarrow> string" where
  [code_defs]: "ttl_document v ts = ttl_header v @ concat (map (\<lambda>t. ttl_push_triple v t @ '' .'' @ [CHR 0x0A]) ts)"

definition ttl_write :: "rdf_text \<Rightarrow> ontology \<Rightarrow> string" where
  [code_defs]: "ttl_write rt o' = ttl_document (rdf_vocab o') (to_rdf rt o')"

section \<open>White space and comments\<close>

text \<open>
  The inner loop of \<open>skip_ws\<close>: \<open>consumed\<close> after the character at \<open>i\<close> and those that follow. The \<open>for\<close> goes
  on to the next character of the comment it has just accounted for.
\<close>

definition line_end :: "string \<Rightarrow> nat \<Rightarrow> nat" where
  [code_defs]: "line_end s i =
     (let a = takeWhile (\<lambda>c. c \<noteq> CHR 0x0A) (drop i s)
      in if i + length a < length s then i + length a + 1 else length s)"

function ttl_ws_scan :: "string \<Rightarrow> nat \<Rightarrow> nat \<Rightarrow> nat" where
  "ttl_ws_scan s i consumed =
     (if length s \<le> i then consumed
      else if ws_prefix (drop i s) > 0 then ttl_ws_scan s (i + ws_prefix (drop i s)) (i + ws_prefix (drop i s))
      else if s ! i = CHR ''#'' then ttl_ws_scan s (i + 1) (line_end s i)
      else i)"
  by pat_completeness auto
termination
  by (relation "measure (\<lambda>(s, i, _). length s - i)") auto

declare ttl_ws_scan.simps [simp del]

lemma ttl_ws_scan_ge: "0 < consumed \<Longrightarrow> 0 < ttl_ws_scan s i consumed \<or> i = 0 \<and> s \<noteq> [] \<and> ws_prefix s = 0 \<and> hd s \<noteq> CHR ''#''"
proof (induction s i consumed rule: ttl_ws_scan.induct)
  case (1 s i consumed)
  have "0 < line_end s i" if "i < length s" using that by (auto simp: line_end_def Let_def)
  with 1 show ?case by (subst ttl_ws_scan.simps) (auto simp: hd_conv_nth)
qed

lemma ttl_ws_scan_progress: "s \<noteq> [] \<Longrightarrow> ws_prefix s > 0 \<or> hd s = CHR ''#'' \<Longrightarrow> 0 < ttl_ws_scan s 0 0"
proof -
  assume s: "s \<noteq> []" "ws_prefix s > 0 \<or> hd s = CHR ''#''"
  have "0 < line_end s 0" using s(1) by (auto simp: line_end_def Let_def)
  with s ttl_ws_scan_ge [of "ws_prefix s" s "ws_prefix s"] ttl_ws_scan_ge [of "line_end s 0" s 1] show ?thesis
    by (subst ttl_ws_scan.simps) (auto simp: hd_conv_nth)
qed

function ttl_skip_ws :: "string \<Rightarrow> string" where
  "ttl_skip_ws s =
     (let r = drop (ttl_ws_scan s 0 0) s
      in if r = [] then []
         else if ws_prefix r = 0 \<and> hd r \<noteq> CHR ''#'' then r
         else ttl_skip_ws r)"
  by pat_completeness auto
termination
proof (relation "measure length")
  fix s r assume r: "r = drop (ttl_ws_scan s 0 0) s" "r \<noteq> []" "\<not> (ws_prefix r = 0 \<and> hd r \<noteq> CHR ''#'')"
  have "0 < ttl_ws_scan s 0 0"
  proof (rule ccontr)
    assume "\<not> 0 < ttl_ws_scan s 0 0"
    then have "r = s" using r(1) by simp
    with r(2,3) ttl_ws_scan_progress [of s] \<open>\<not> 0 < ttl_ws_scan s 0 0\<close> show False by auto
  qed
  moreover have "s \<noteq> []" using r(1,2) by auto
  ultimately show "(r, s) \<in> measure length" using r(1) by simp
qed simp

declare ttl_skip_ws.simps [simp del]

lemma ttl_skip_ws_le: "length (ttl_skip_ws s) \<le> length s"
proof (induction s rule: ttl_skip_ws.induct)
  case (1 s)
  show ?case using 1 by (subst ttl_skip_ws.simps) (auto simp: Let_def intro: le_trans)
qed

section \<open>Terms\<close>

datatype ttl_error =
    TtlMissingColon
  | TtlExpectedPrefixIri
  | TtlUnterminatedPrefixIri
  | TtlExpectedPrefixDot
  | TtlExpectedPunctuation string
  | TtlLiteralSubject
  | TtlPredicateNotIri
  | TtlUnterminatedIri
  | TtlUnrecognizedToken string
  | TtlUnknownPrefix string
  | TtlDanglingEscape
  | TtlUnterminatedLiteral

text \<open>\<open>find(|c| c.is_whitespace() || matches!(c, '.' | ';' | ','))\<close> and the split there.\<close>

definition ttl_stop :: "char \<Rightarrow> bool" where
  [code_defs]: "ttl_stop c \<longleftrightarrow> c = CHR ''.'' \<or> c = CHR '';'' \<or> c = CHR '',''"

fun ttl_span :: "string \<Rightarrow> string \<times> string" where
  "ttl_span [] = ([], [])"
| "ttl_span (c # cs) =
     (if ws_prefix (c # cs) > 0 \<or> ttl_stop c then ([], c # cs) else (case ttl_span cs of (a, b) \<Rightarrow> (c # a, b)))"

lemma ttl_span_append: "ttl_span s = (a, b) \<Longrightarrow> s = a @ b"
  by (induction s arbitrary: a) (auto split: if_splits prod.splits)

definition ttl_term :: "vocabulary \<Rightarrow> string \<Rightarrow> ttl_error + nt_term \<times> string" where
  [code_defs]: "ttl_term v rest =
     (if take 1 rest = ''<'' then
        (case split_once (CHR ''>'') (drop 1 rest) of
           None \<Rightarrow> Inl TtlUnterminatedIri
         | Some (i, r) \<Rightarrow> Inr (TIri (Iri i), r))
      else if take 2 rest = ''_:'' then
        (case ttl_span (drop 2 rest) of (l, r) \<Rightarrow> Inr (TBlank l, r))
      else
        (case ttl_span rest of
           (token, r) \<Rightarrow>
             (case split_once (CHR '':'') token of
                None \<Rightarrow> Inl (TtlUnrecognizedToken token)
              | Some (prefix, local) \<Rightarrow>
                  (case map_of v prefix of
                     Some base \<Rightarrow> Inr (TIri (Iri (as_str base @ local)), r)
                   | None \<Rightarrow> Inl (TtlUnknownPrefix prefix)))))"

lemma ttl_term_shorter: "ttl_term v s = Inr (t, r) \<Longrightarrow> length r < length s"
  by (cases s) (auto simp: ttl_term_def split: if_splits option.splits prod.splits
      dest!: split_once_Some ttl_span_append arg_cong [where f = length])

text \<open>The loop of \<open>parse_literal\<close> to the closing quote. A byte is pushed as the character with that code.\<close>

definition ttl_unescape :: "char \<Rightarrow> string" where
  [code_defs]: "ttl_unescape e =
     (if e = CHR ''n'' then [CHR 0x0A] else if e = CHR ''r'' then [CHR 0x0D] else if e = CHR ''t'' then [CHR 0x09]
      else utf8_encode (of_char e))"

fun ttl_lit_loop :: "string \<Rightarrow> string \<Rightarrow> ttl_error + string \<times> string" where
  "ttl_lit_loop lexical [] = Inl TtlUnterminatedLiteral"
| "ttl_lit_loop lexical (c # cs) =
     (if c = CHR 0x5C then
        (case cs of
           [] \<Rightarrow> Inl TtlDanglingEscape
         | e # r \<Rightarrow> ttl_lit_loop (lexical @ ttl_unescape e) r)
      else if c = CHR 0x22 then Inr (lexical, cs)
      else ttl_lit_loop (lexical @ utf8_encode (of_char c)) cs)"

lemma ttl_lit_loop_shorter: "ttl_lit_loop x s = Inr (y, r) \<Longrightarrow> length r < length s"
proof (induction x s arbitrary: y r rule: ttl_lit_loop.induct)
  case (2 x c cs)
  then show ?case by (cases cs) (fastforce split: if_splits intro: less_SucI)+
qed simp

definition ttl_literal :: "vocabulary \<Rightarrow> string \<Rightarrow> ttl_error + object \<times> string" where
  [code_defs]: "ttl_literal v rest =
     try_then (ttl_lit_loop [] (drop 1 rest)) (\<lambda>(lexical, r).
       if take 1 r = ''@'' then
         (case ttl_span (drop 1 r) of (lang, r) \<Rightarrow> Inr (OLiteral lexical lang_string (Some lang), r))
       else if take 2 r = ''^^'' then
         try_then (ttl_term v (drop 2 r)) (\<lambda>(dt, r).
           Inr (OLiteral lexical (case dt of TIri i \<Rightarrow> i | _ \<Rightarrow> Iri ''http://www.w3.org/2001/XMLSchema#string'') None, r))
       else Inr (OLiteral lexical (Iri ''http://www.w3.org/2001/XMLSchema#string'') None, r))"

definition ttl_subject :: "vocabulary \<Rightarrow> string \<Rightarrow> ttl_error + subject \<times> string" where
  [code_defs]: "ttl_subject v rest =
     try_then (ttl_term v rest) (\<lambda>(t, r).
       case t of TIri i \<Rightarrow> Inr (SIri i, r) | TBlank l \<Rightarrow> Inr (SBlank l, r) | TLiteral _ _ _ \<Rightarrow> Inl TtlLiteralSubject)"

definition ttl_predicate :: "vocabulary \<Rightarrow> string \<Rightarrow> ttl_error + iri \<times> string" where
  [code_defs]: "ttl_predicate v rest =
     (if take 1 rest = ''a'' \<and> ws_prefix (drop 1 rest) > 0 then Inr (rdf_type, drop 1 rest)
      else try_then (ttl_term v rest) (\<lambda>(t, r). case t of TIri i \<Rightarrow> Inr (i, r) | _ \<Rightarrow> Inl TtlPredicateNotIri))"

definition ttl_object :: "vocabulary \<Rightarrow> string \<Rightarrow> ttl_error + object \<times> string" where
  [code_defs]: "ttl_object v rest =
     (if take 1 rest = [CHR 0x22] then ttl_literal v rest
      else try_then (ttl_term v rest) (\<lambda>(t, r). Inr (term_object t, r)))"

lemma ttl_shorter:
  "ttl_subject v s = Inr (x, r) \<Longrightarrow> length r < length s"
  "ttl_predicate v s = Inr (y, r) \<Longrightarrow> length r < length s"
  "ttl_object v s = Inr (z, r) \<Longrightarrow> length r < length s"
proof -
  show "length r < length s" if h: "ttl_subject v s = Inr (x, r)"
  proof -
    obtain t r' where t: "ttl_term v s = Inr (t, r')" using h by (cases "ttl_term v s") (auto simp: ttl_subject_def)
    with h ttl_term_shorter [OF t] show ?thesis by (cases t) (auto simp: ttl_subject_def)
  qed
  show "length r < length s" if h: "ttl_predicate v s = Inr (y, r)"
  proof (cases "take 1 s = ''a'' \<and> ws_prefix (drop 1 s) > 0")
    case True
    with h show ?thesis by (cases s) (auto simp: ttl_predicate_def)
  next
    case False
    with h obtain t r' where t: "ttl_term v s = Inr (t, r')" by (cases "ttl_term v s") (auto simp: ttl_predicate_def)
    with h False ttl_term_shorter [OF t] show ?thesis by (cases t) (auto simp: ttl_predicate_def)
  qed
  show "length r < length s" if h: "ttl_object v s = Inr (z, r)"
  proof (cases "take 1 s = [CHR 0x22]")
    case True
    with h obtain x1 r1 where l: "ttl_lit_loop [] (drop 1 s) = Inr (x1, r1)"
      by (cases "ttl_lit_loop [] (drop 1 s)") (auto simp: ttl_object_def ttl_literal_def)
    have r1: "length r1 < length s" using ttl_lit_loop_shorter [OF l] by simp
    obtain a b where span: "ttl_span (drop 1 r1) = (a, b)" by fastforce
    consider "take 1 r1 = ''@''" | "take 1 r1 \<noteq> ''@''" "take 2 r1 = ''^^''" | "take 1 r1 \<noteq> ''@''" "take 2 r1 \<noteq> ''^^''" by blast
    then show ?thesis
    proof cases
      case 1
      have "length b \<le> length (drop 1 r1)" using ttl_span_append [OF span] by simp
      with 1 h True l span r1 show ?thesis by (simp add: ttl_object_def ttl_literal_def)
    next
      case 2
      with h True l obtain t r2 where t: "ttl_term v (drop 2 r1) = Inr (t, r2)"
        by (cases "ttl_term v (drop 2 r1)") (auto simp: ttl_object_def ttl_literal_def)
      with 2 h True l r1 ttl_term_shorter [OF t] show ?thesis by (auto simp: ttl_object_def ttl_literal_def)
    next
      case 3
      with h True l r1 show ?thesis by (auto simp: ttl_object_def ttl_literal_def)
    qed
  next
    case False
    with h obtain t r' where t: "ttl_term v s = Inr (t, r')" by (cases "ttl_term v s") (auto simp: ttl_object_def)
    with h False ttl_term_shorter [OF t] show ?thesis by (auto simp: ttl_object_def)
  qed
qed

section \<open>Statements\<close>

text \<open>The objects of one predicate, separated by commas.\<close>

function ttl_objects :: "vocabulary \<Rightarrow> subject \<Rightarrow> iri \<Rightarrow> string \<Rightarrow> rdf_triple list \<Rightarrow> ttl_error + rdf_triple list \<times> string" where
  "ttl_objects v s p rest out =
     (case ttl_object v (ttl_skip_ws rest) of
        Inl e \<Rightarrow> Inl e
      | Inr (ob, r) \<Rightarrow>
          let out = out @ [\<lparr>t_subject = s, t_predicate = p, t_object = ob\<rparr>]; r = ttl_skip_ws r
          in if take 1 r = '','' then ttl_objects v s p (drop 1 r) out else Inr (out, r))"
  by pat_completeness auto
termination
proof (relation "measure (\<lambda>(v, s, p, rest, out). length rest)")
  fix v :: vocabulary and rest b x xa and s :: subject and p :: iri and out :: "rdf_triple list" and y xb
  assume "ttl_object v (ttl_skip_ws rest) = Inr b" "(x, y) = b" "xb = ttl_skip_ws y" "take 1 xb = '',''"
  with ttl_shorter(3) [of v "ttl_skip_ws rest" x y] ttl_skip_ws_le [of rest] ttl_skip_ws_le [of y]
  show "((v, s, p, drop 1 xb, xa), v, s, p, rest, out) \<in> measure (\<lambda>(v, s, p, rest, out). length rest)" by auto
qed simp

declare ttl_objects.simps [simp del]

lemma ttl_objects_shorter: "ttl_objects v s p rest out = Inr (out', r) \<Longrightarrow> length r < length rest"
proof (induction v s p rest out rule: ttl_objects.induct)
  case (1 v s p rest out)
  from "1.prems" obtain ob r1 where ob: "ttl_object v (ttl_skip_ws rest) = Inr (ob, r1)"
    by (subst (asm) ttl_objects.simps) (auto split: sum.splits)
  have le: "length (ttl_skip_ws r1) < length rest"
    using ttl_shorter(3) [OF ob] ttl_skip_ws_le [of rest] ttl_skip_ws_le [of r1] by linarith
  show ?case
  proof (cases "take 1 (ttl_skip_ws r1) = '',''")
    case True
    with "1.prems" ob have "ttl_objects v s p (drop 1 (ttl_skip_ws r1)) (out @ [\<lparr>t_subject = s, t_predicate = p, t_object = ob\<rparr>]) =
        Inr (out', r)" by (subst (asm) ttl_objects.simps) (simp add: Let_def)
    from "1.IH" [OF ob _ refl refl True this] le show ?thesis by simp
  next
    case False
    with "1.prems" ob le show ?thesis by (subst (asm) ttl_objects.simps) (auto simp: Let_def)
  qed
qed

text \<open>The predicates of one subject, separated by semicolons and ended by a dot.\<close>

function ttl_predicates :: "vocabulary \<Rightarrow> subject \<Rightarrow> string \<Rightarrow> rdf_triple list \<Rightarrow> ttl_error + rdf_triple list \<times> string" where
  "ttl_predicates v s rest out =
     (case ttl_predicate v (ttl_skip_ws rest) of
        Inl e \<Rightarrow> Inl e
      | Inr (p, r) \<Rightarrow>
          (case ttl_objects v s p r out of
             Inl e \<Rightarrow> Inl e
           | Inr (out, r) \<Rightarrow>
               let r = ttl_skip_ws r
               in if take 1 r = '';'' then ttl_predicates v s (drop 1 r) out
                  else if take 1 r = ''.'' then Inr (out, drop 1 r)
                  else Inl (TtlExpectedPunctuation r)))"
  by pat_completeness auto
termination
proof (relation "measure (\<lambda>(v, s, rest, out). length rest)")
  fix v :: vocabulary and s :: subject and rest b x y and out :: "rdf_triple list" and b' xa ya xb
  assume "ttl_predicate v (ttl_skip_ws rest) = Inr b" "(x, y) = b" "ttl_objects v s x y out = Inr b'" "(xa, ya) = b'"
    "xb = ttl_skip_ws ya" "take 1 xb = '';''"
  with ttl_shorter(2) [of v "ttl_skip_ws rest" x y] ttl_objects_shorter [of v s x y out xa ya]
    ttl_skip_ws_le [of rest] ttl_skip_ws_le [of ya]
  show "((v, s, drop 1 xb, xa), v, s, rest, out) \<in> measure (\<lambda>(v, s, rest, out). length rest)" by auto
qed simp

declare ttl_predicates.simps [simp del]

lemma ttl_predicates_shorter: "ttl_predicates v s rest out = Inr (out', r) \<Longrightarrow> length r < length rest"
proof (induction v s rest out rule: ttl_predicates.induct)
  case (1 v s rest out)
  from "1.prems" obtain p r1 where p: "ttl_predicate v (ttl_skip_ws rest) = Inr (p, r1)"
    by (subst (asm) ttl_predicates.simps) (auto split: sum.splits)
  from "1.prems" p obtain out2 r2 where os: "ttl_objects v s p r1 out = Inr (out2, r2)"
    by (subst (asm) ttl_predicates.simps) (auto split: sum.splits)
  have le: "length (ttl_skip_ws r2) < length rest"
    using ttl_shorter(2) [OF p] ttl_objects_shorter [OF os] ttl_skip_ws_le [of rest] ttl_skip_ws_le [of r2] by linarith
  show ?case
  proof (cases "take 1 (ttl_skip_ws r2) = '';''")
    case True
    with "1.prems" p os have "ttl_predicates v s (drop 1 (ttl_skip_ws r2)) out2 = Inr (out', r)"
      by (subst (asm) ttl_predicates.simps) (simp add: Let_def)
    from "1.IH" [OF p refl os refl refl True this] le show ?thesis by simp
  next
    case False
    with "1.prems" p os le show ?thesis by (subst (asm) ttl_predicates.simps) (auto simp: Let_def split: if_splits)
  qed
qed

definition ttl_statement :: "vocabulary \<Rightarrow> string \<Rightarrow> rdf_triple list \<Rightarrow> ttl_error + rdf_triple list \<times> string" where
  [code_defs]: "ttl_statement v rest out =
     (case ttl_subject v rest of Inl e \<Rightarrow> Inl e | Inr (s, r) \<Rightarrow> ttl_predicates v s r out)"

lemma ttl_statement_shorter: "ttl_statement v rest out = Inr (out', r) \<Longrightarrow> length r < length rest"
  by (auto simp: ttl_statement_def split: sum.splits dest!: ttl_predicates_shorter ttl_shorter(1))

section \<open>Documents\<close>

definition ttl_directive :: "vocabulary \<Rightarrow> string \<Rightarrow> ttl_error + vocabulary \<times> string" where
  [code_defs]: "ttl_directive v rest =
     (case split_once (CHR '':'') (ttl_skip_ws rest) of
        None \<Rightarrow> Inl TtlMissingColon
      | Some (prefix, r) \<Rightarrow>
          (let r = ttl_skip_ws r
           in if take 1 r \<noteq> ''<'' then Inl TtlExpectedPrefixIri
              else case split_once (CHR ''>'') (drop 1 r) of
                     None \<Rightarrow> Inl TtlUnterminatedPrefixIri
                   | Some (base, r) \<Rightarrow>
                       (let r = ttl_skip_ws r
                        in if take 1 r \<noteq> ''.'' then Inl TtlExpectedPrefixDot
                           else Inr (vocab_bind (trim prefix) (Iri base) v, drop 1 r))))"

lemma ttl_directive_shorter: "ttl_directive v rest = Inr (v', r) \<Longrightarrow> length r \<le> length rest"
proof -
  assume h: "ttl_directive v rest = Inr (v', r)"
  from h obtain p r1 where p: "split_once (CHR '':'') (ttl_skip_ws rest) = Some (p, r1)"
    by (auto simp: ttl_directive_def split: option.splits)
  from h p obtain b r2 where b: "split_once (CHR ''>'') (drop 1 (ttl_skip_ws r1)) = Some (b, r2)" "r = drop 1 (ttl_skip_ws r2)"
    by (auto simp: ttl_directive_def Let_def split: option.splits if_splits)
  show ?thesis
    using split_once_Some [OF p] split_once_Some [OF b(1)] b(2) ttl_skip_ws_le [of rest] ttl_skip_ws_le [of r1]
      ttl_skip_ws_le [of r2] arg_cong [where f = length and x = "drop 1 (ttl_skip_ws r1)"]
    by (auto dest!: arg_cong [where f = length])
qed

function ttl_directives :: "vocabulary \<Rightarrow> string \<Rightarrow> ttl_error + vocabulary \<times> string" where
  "ttl_directives v rest =
     (let r = ttl_skip_ws rest
      in if take 7 r \<noteq> ''@prefix'' then Inr (v, r)
         else case ttl_directive v (drop 7 r) of
                Inl e \<Rightarrow> Inl e
              | Inr (v, r) \<Rightarrow> ttl_directives v r)"
  by pat_completeness auto
termination
proof (relation "measure (length \<circ> snd)")
  fix v :: vocabulary and rest r b x y
  assume r: "r = ttl_skip_ws rest" "\<not> take 7 r \<noteq> ''@prefix''" and d: "ttl_directive v (drop 7 r) = Inr b" "(x, y) = b"
  from r(2) have "length (take 7 r) = 7" by simp
  then have "length r \<ge> 7" by simp
  with r d ttl_directive_shorter [of v "drop 7 r" x y] ttl_skip_ws_le [of rest]
  show "((x, y), v, rest) \<in> measure (length \<circ> snd)" by auto
qed simp

declare ttl_directives.simps [simp del]

function ttl_statements :: "vocabulary \<Rightarrow> string \<Rightarrow> rdf_triple list \<Rightarrow> ttl_error + rdf_triple list" where
  "ttl_statements v rest out =
     (let r = ttl_skip_ws rest
      in if r = [] then Inr out
         else case ttl_statement v r out of
                Inl e \<Rightarrow> Inl e
              | Inr (out, r) \<Rightarrow> ttl_statements v r out)"
  by pat_completeness auto
termination
proof (relation "measure (\<lambda>(v, rest, out). length rest)")
  fix v :: vocabulary and rest r b x y and out :: "rdf_triple list"
  assume "r = ttl_skip_ws rest" "ttl_statement v r out = Inr b" "(x, y) = b"
  with ttl_statement_shorter [of v r out x y] ttl_skip_ws_le [of rest]
  show "((v, y, x), v, rest, out) \<in> measure (\<lambda>(v, rest, out). length rest)" by simp
qed simp

declare ttl_statements.simps [simp del]

definition ttl_parse :: "string \<Rightarrow> ttl_error + rdf_triple list" where
  [code_defs]: "ttl_parse input =
     (case ttl_directives [] input of Inl e \<Rightarrow> Inl e | Inr (v, r) \<Rightarrow> ttl_statements v r [])"

definition ttl_read :: "string \<Rightarrow> ttl_error + ontology" where
  [code_defs]: "ttl_read input = (case ttl_parse input of Inl e \<Rightarrow> Inl e | Inr ts \<Rightarrow> Inr (from_rdf ts))"

section \<open>What the syntax can carry\<close>

definition ttl_plain :: "char \<Rightarrow> bool" where
  "ttl_plain c \<longleftrightarrow> plain_char c \<and> \<not> ttl_stop c"

definition ttl_label :: "string \<Rightarrow> bool" where
  "ttl_label l \<longleftrightarrow> list_all ttl_plain l"

definition ttl_prefix_ok :: "string \<Rightarrow> bool" where
  "ttl_prefix_ok p \<longleftrightarrow> ttl_label p \<and> p \<noteq> ''_'' \<and>
     list_all (\<lambda>c. c \<notin> {CHR '':'', CHR ''<'', CHR ''#'', CHR 0x22, CHR ''@''}) p"

definition ttl_vocab_ok :: "vocabulary \<Rightarrow> bool" where
  "ttl_vocab_ok v \<longleftrightarrow> bm_wf v \<and> list_all (\<lambda>(p, b). ttl_prefix_ok p \<and> CHR ''>'' \<notin> set (as_str b)) v"

fun ttl_iri_ok :: "vocabulary \<Rightarrow> iri \<Rightarrow> bool" where
  "ttl_iri_ok [] i \<longleftrightarrow> CHR ''>'' \<notin> set (as_str i)"
| "ttl_iri_ok ((p, b) # v) i \<longleftrightarrow>
     (case ttl_abbreviates (as_str i) b of Some l \<Rightarrow> ttl_label l | None \<Rightarrow> ttl_iri_ok v i)"

definition ttl_subject_ok :: "vocabulary \<Rightarrow> subject \<Rightarrow> bool" where
  "ttl_subject_ok v s \<longleftrightarrow> (case s of SIri i \<Rightarrow> ttl_iri_ok v i | SBlank l \<Rightarrow> ttl_label l)"

definition ttl_object_ok :: "vocabulary \<Rightarrow> object \<Rightarrow> bool" where
  "ttl_object_ok v ob \<longleftrightarrow>
     (case ob of OIri i \<Rightarrow> ttl_iri_ok v i | OBlank l \<Rightarrow> ttl_label l
      | OLiteral x d lang \<Rightarrow>
          (case lang of None \<Rightarrow> d = xsd ''string'' \<or> ttl_iri_ok v d | Some l \<Rightarrow> ttl_label l \<and> d = lang_string))"

definition ttl_ok :: "vocabulary \<Rightarrow> rdf_triple \<Rightarrow> bool" where
  "ttl_ok v t \<longleftrightarrow> ttl_subject_ok v (t_subject t) \<and> ttl_iri_ok v (t_predicate t) \<and> ttl_object_ok v (t_object t)"

section \<open>White space between terms\<close>

definition ttl_solid :: "string \<Rightarrow> bool" where
  "ttl_solid s \<longleftrightarrow> s = [] \<or> (ws_prefix s = 0 \<and> hd s \<noteq> CHR ''#'')"

lemma ttl_solid_plain: "plain_char c \<Longrightarrow> c \<noteq> CHR ''#'' \<Longrightarrow> ttl_solid (c # s)"
  by (simp add: ttl_solid_def plain_ws)

lemma ttl_ws_scan_blank:
  "\<forall>c \<in> set ws. c = CHR '' '' \<or> c = CHR 0x0A \<Longrightarrow> ttl_solid s \<Longrightarrow> i \<le> length ws \<Longrightarrow> ttl_ws_scan (ws @ s) i i = length ws"
proof (induction "length ws - i" arbitrary: i)
  case 0
  then have "i = length ws" by simp
  with "0.prems"(2) show ?case by (cases s; subst ttl_ws_scan.simps) (simp_all add: ttl_solid_def)
next
  case (Suc n)
  then have i: "i < length ws" by simp
  then have "drop i (ws @ s) = ws ! i # drop (Suc i) ws @ s" by (simp only: drop_append Cons_nth_drop_Suc [symmetric]) simp
  moreover have "ws ! i = CHR '' '' \<or> ws ! i = CHR 0x0A" using Suc.prems(1) i nth_mem by blast
  ultimately have "ws_prefix (drop i (ws @ s)) = 1" by (auto simp: ws_prefix_def)
  with i Suc.hyps(1) [of "Suc i"] Suc.hyps(2) Suc.prems show ?case by (subst ttl_ws_scan.simps) simp
qed

lemma ttl_skip_blank:
  assumes "\<forall>c \<in> set ws. c = CHR '' '' \<or> c = CHR 0x0A" "ttl_solid s"
  shows "ttl_skip_ws (ws @ s) = s"
proof -
  have scan: "ttl_ws_scan (ws @ s) 0 0 = length ws" by (rule ttl_ws_scan_blank [OF assms]) simp
  show ?thesis
  proof (cases "s = []")
    case True
    with scan show ?thesis by (subst ttl_skip_ws.simps) simp
  next
    case False
    with scan assms(2) show ?thesis by (subst ttl_skip_ws.simps) (simp add: ttl_solid_def)
  qed
qed

lemma ttl_skip_solid: "ttl_solid s \<Longrightarrow> ttl_skip_ws s = s"
  using ttl_skip_blank [of "[]"] by simp

lemma ttl_skip_space: "ttl_solid s \<Longrightarrow> ttl_skip_ws (CHR '' '' # s) = s" "ttl_solid s \<Longrightarrow> ttl_skip_ws (CHR 0x0A # s) = s"
  "ttl_solid s \<Longrightarrow> ttl_skip_ws (CHR 0x0A # CHR 0x0A # s) = s"
  using ttl_skip_blank [of "'' ''"] ttl_skip_blank [of "[CHR 0x0A]"] ttl_skip_blank [of "[CHR 0x0A, CHR 0x0A]"] by simp_all

section \<open>Terms read back\<close>

lemma ttl_span_stop:
  assumes "ttl_label l" "ws_prefix (d # r) > 0 \<or> ttl_stop d"
  shows "ttl_span (l @ d # r) = (l, d # r)"
  using assms(1)
proof (induction l)
  case (Cons c l)
  then have "ws_prefix (c # l @ d # r) = 0" "\<not> ttl_stop c"
    by (simp_all add: ttl_label_def ttl_plain_def plain_ws)
  with Cons show ?case by (simp add: ttl_label_def)
qed (use assms(2) in auto)

lemma ttl_span_label: "ttl_label l \<Longrightarrow> ttl_span (l @ CHR '' '' # r) = (l, CHR '' '' # r)"
  by (rule ttl_span_stop) (simp_all add: ws_prefix_def)

lemma ttl_abbreviates_Some: "ttl_abbreviates i b = Some l \<Longrightarrow> i = as_str b @ l"
  by (auto simp: ttl_abbreviates_def split: if_splits) (metis append_take_drop_id)

lemma ttl_term_curie_stop:
  assumes "ttl_prefix_ok p" "ttl_label l" "map_of v p = Some b" "ws_prefix (d # r) > 0 \<or> ttl_stop d"
  shows "ttl_term v (p @ CHR '':'' # l @ d # r) = Inr (TIri (Iri (as_str b @ l)), d # r)"
proof -
  let ?s = "p @ CHR '':'' # l @ d # r"
  have p: "CHR '':'' \<notin> set p" "CHR ''<'' \<notin> set p" "p \<noteq> ''_''" "ttl_label p"
    using assms(1) by (auto simp: ttl_prefix_ok_def list_all_iff)
  have "take 1 ?s \<noteq> ''<''" using p(2) by (cases p) auto
  moreover have "take 2 ?s \<noteq> ''_:''"
  proof (cases p)
    case (Cons c cs)
    with p(1,3) show ?thesis by (cases cs) auto
  qed simp
  moreover have "ttl_label (p @ CHR '':'' # l)" using p(4) assms(2) by (simp add: ttl_label_def ttl_plain_def ttl_stop_def)
  from ttl_span_stop [OF this assms(4)] have "ttl_span ?s = (p @ CHR '':'' # l, d # r)" by simp
  ultimately show ?thesis using assms(3) split_once_append [OF p(1)] by (simp add: ttl_term_def)
qed

lemma ttl_term_curie:
  assumes "ttl_prefix_ok p" "ttl_label l" "map_of v p = Some b"
  shows "ttl_term v (p @ CHR '':'' # l @ CHR '' '' # r) = Inr (TIri (Iri (as_str b @ l)), CHR '' '' # r)"
  by (rule ttl_term_curie_stop [OF assms]) (simp add: ws_prefix_def)

lemma ttl_term_iri:
  assumes "ttl_vocab_ok v" "ttl_iri_ok v i"
  shows "ttl_term v (ttl_push_iri v i @ CHR '' '' # r) = Inr (TIri i, CHR '' '' # r)"
proof -
  have "ttl_term v (ttl_push_iri u i @ CHR '' '' # r) = Inr (TIri i, CHR '' '' # r)"
    if "set u \<subseteq> set v" "ttl_iri_ok u i" for u
    using that
  proof (induction u i rule: ttl_iri_ok.induct)
    case (1 i)
    then show ?case by (cases i) (simp add: ttl_term_def split_once_append)
  next
    case (2 p b u i)
    show ?case
    proof (cases "ttl_abbreviates (as_str i) b")
      case None
      with 2 show ?thesis by simp
    next
      case (Some l)
      have "(p, b) \<in> set v" using 2 by simp
      then have "ttl_prefix_ok p" "map_of v p = Some b"
        using assms(1) by (auto simp: ttl_vocab_ok_def list_all_iff bm_set_iff)
      with Some 2 ttl_term_curie [of p l v b r] ttl_abbreviates_Some [OF Some] show ?thesis by (cases i) simp
    qed
  qed
  with assms(2) show ?thesis by blast
qed

text \<open>How the text of an IRI begins.\<close>

lemma ttl_push_iri_start:
  assumes "ttl_vocab_ok v" "ttl_iri_ok v i"
  obtains c s where "ttl_push_iri v i = c # s" "plain_char c" "c \<notin> {CHR ''#'', CHR 0x22, CHR ''@''}"
    "c = CHR ''a'' \<longrightarrow> (\<exists>d s'. s = d # s' \<and> plain_char d)"
proof -
  have "\<exists>c s. ttl_push_iri u i = c # s \<and> plain_char c \<and> c \<notin> {CHR ''#'', CHR 0x22, CHR ''@''} \<and>
      (c = CHR ''a'' \<longrightarrow> (\<exists>d s'. s = d # s' \<and> plain_char d))" if "set u \<subseteq> set v" "ttl_iri_ok u i" for u
    using that
  proof (induction u i rule: ttl_iri_ok.induct)
    case (2 p b u i)
    show ?case
    proof (cases "ttl_abbreviates (as_str i) b")
      case None
      with 2 show ?thesis by simp
    next
      case (Some l)
      have "(p, b) \<in> set v" using 2 by simp
      then have "ttl_prefix_ok p" using assms(1) by (auto simp: ttl_vocab_ok_def list_all_iff)
      then have p: "ttl_label p" "list_all (\<lambda>c. c \<notin> {CHR ''#'', CHR 0x22, CHR ''@''}) p"
        by (auto simp: ttl_prefix_ok_def list_all_iff)
      show ?thesis
      proof (cases p)
        case (Cons c cs)
        with p Some show ?thesis by (cases cs) (auto simp: ttl_label_def ttl_plain_def)
      qed (simp add: Some)
    qed
  qed simp
  from this [OF order_refl assms(2)] that show ?thesis by blast
qed

lemma ttl_subject_pushed:
  assumes "ttl_vocab_ok v" "ttl_subject_ok v s"
  shows "ttl_subject v (ttl_push_subject v s @ CHR '' '' # r) = Inr (s, CHR '' '' # r)"
    and "ttl_solid (ttl_push_subject v s @ u)" and "take 7 (ttl_push_subject v s @ u) \<noteq> ''@prefix''"
    and "ttl_push_subject v s \<noteq> []"
proof -
  have b: "ttl_term v (''_:'' @ l @ CHR '' '' # r) = Inr (TBlank l, CHR '' '' # r)" if "ttl_label l" for l
    using ttl_span_label [OF that] by (simp add: ttl_term_def)
  have all: "ttl_subject v (ttl_push_subject v s @ CHR '' '' # r) = Inr (s, CHR '' '' # r) \<and>
    ttl_solid (ttl_push_subject v s @ u) \<and> take 7 (ttl_push_subject v s @ u) \<noteq> ''@prefix'' \<and> ttl_push_subject v s \<noteq> []"
  proof (cases s)
    case (SIri i)
    with assms(2) have i: "ttl_iri_ok v i" by (simp add: ttl_subject_ok_def)
    obtain c cs where c: "ttl_push_iri v i = c # cs" "plain_char c" "c \<notin> {CHR ''#'', CHR 0x22, CHR ''@''}"
      by (rule ttl_push_iri_start [OF assms(1) i])
    show ?thesis using SIri ttl_term_iri [OF assms(1) i] c
      by (auto simp: ttl_push_subject_def ttl_subject_def intro!: ttl_solid_plain)
  next
    case (SBlank l)
    with assms(2) b [of l] show ?thesis
      by (auto simp: ttl_push_subject_def ttl_subject_def ttl_subject_ok_def intro!: ttl_solid_plain)
  qed
  then show "ttl_subject v (ttl_push_subject v s @ CHR '' '' # r) = Inr (s, CHR '' '' # r)"
    "ttl_solid (ttl_push_subject v s @ u)" "take 7 (ttl_push_subject v s @ u) \<noteq> ''@prefix''" "ttl_push_subject v s \<noteq> []"
    by simp_all
qed

lemma ttl_lit_loop_escaped:
  "ttl_lit_loop acc (concat (map escape_char x) @ CHR 0x22 # rest) = Inr (acc @ latin1_string x, rest)"
proof (induction x arbitrary: acc)
  case Nil
  then show ?case by (simp add: latin1_string_def)
next
  case (Cons c x)
  show ?case
  proof (cases "c \<in> {CHR 0x5C, CHR 0x22, CHR 0x0A, CHR 0x0D, CHR 0x09}")
    case True
    then have "utf8_encode (of_char c) = [c]" by (intro utf8_encode_ascii) auto
    with True Cons [of "acc @ [c]"] show ?thesis by (auto simp: escape_char_def latin1_string_def ttl_unescape_def)
  next
    case False
    with Cons [of "acc @ utf8_encode (of_char c)"] show ?thesis by (simp add: escape_char_def latin1_string_def)
  qed
qed

lemma ttl_literal_pushed:
  assumes "ttl_vocab_ok v" "ttl_object_ok v (OLiteral x d lang)"
  shows "ttl_literal v (ttl_push_object v (OLiteral x d lang) @ CHR '' '' # r) =
    Inr (OLiteral (latin1_string x) d lang, CHR '' '' # r)"
proof -
  let ?tail = "case lang of Some l \<Rightarrow> ''@'' @ l
     | None \<Rightarrow> if as_str d \<noteq> ''http://www.w3.org/2001/XMLSchema#string'' then ''^^'' @ ttl_push_iri v d else []"
  have lit: "ttl_lit_loop [] (drop 1 (ttl_push_object v (OLiteral x d lang) @ CHR '' '' # r)) =
      Inr (latin1_string x, ?tail @ CHR '' '' # r)"
    using ttl_lit_loop_escaped [of "[]" x "?tail @ CHR '' '' # r"] by (simp add: ttl_push_object_def)
  show ?thesis
  proof (cases lang)
    case (Some l)
    with assms(2) have "ttl_label l" "d = lang_string" by (simp_all add: ttl_object_ok_def)
    with lit Some ttl_span_label [of l r] show ?thesis by (simp add: ttl_literal_def)
  next
    case None
    show ?thesis
    proof (cases "d = xsd ''string''")
      case True
      then have "as_str d = ''http://www.w3.org/2001/XMLSchema#string''" "d = Iri ''http://www.w3.org/2001/XMLSchema#string''"
        by (simp_all add: xsd_def)
      with lit None show ?thesis by (simp add: ttl_literal_def)
    next
      case False
      then have "as_str d \<noteq> ''http://www.w3.org/2001/XMLSchema#string''" by (cases d) (simp add: xsd_def)
      moreover from False None assms(2) have "ttl_iri_ok v d" by (simp add: ttl_object_ok_def)
      ultimately show ?thesis using lit None ttl_term_iri [OF assms(1), of d r] by (simp add: ttl_literal_def)
    qed
  qed
qed

lemma ttl_object_pushed:
  assumes "ttl_vocab_ok v" "ttl_object_ok v ob"
  shows "ttl_object v (ttl_push_object v ob @ CHR '' '' # r) = Inr (latin1_object ob, CHR '' '' # r)"
    and "ttl_solid (ttl_push_object v ob @ u)"
proof -
  have "ttl_object v (ttl_push_object v ob @ CHR '' '' # r) = Inr (latin1_object ob, CHR '' '' # r) \<and>
    ttl_solid (ttl_push_object v ob @ u)"
  proof (cases ob)
    case (OIri i)
    with assms(2) have i: "ttl_iri_ok v i" by (simp add: ttl_object_ok_def)
    obtain c cs where c: "ttl_push_iri v i = c # cs" "plain_char c" "c \<notin> {CHR ''#'', CHR 0x22, CHR ''@''}"
      by (rule ttl_push_iri_start [OF assms(1) i])
    show ?thesis using OIri ttl_term_iri [OF assms(1) i, of r] c
      by (auto simp: ttl_push_object_def ttl_object_def term_object_def latin1_object_def intro!: ttl_solid_plain)
  next
    case (OBlank l)
    with assms(2) have "ttl_label l" by (simp add: ttl_object_ok_def)
    then have "ttl_term v (''_:'' @ l @ CHR '' '' # r) = Inr (TBlank l, CHR '' '' # r)"
      using ttl_span_label by (simp add: ttl_term_def)
    with OBlank show ?thesis
      by (auto simp: ttl_push_object_def ttl_object_def term_object_def latin1_object_def intro!: ttl_solid_plain)
  next
    case (OLiteral x d lang)
    have "take 1 (ttl_push_object v ob @ CHR '' '' # r) = [CHR 0x22]" by (simp add: OLiteral ttl_push_object_def)
    then show ?thesis using ttl_literal_pushed [OF assms(1), of x d lang r] assms(2) OLiteral
      by (auto simp: ttl_object_def latin1_object_def) (auto simp: ttl_push_object_def intro!: ttl_solid_plain)
  qed
  then show "ttl_object v (ttl_push_object v ob @ CHR '' '' # r) = Inr (latin1_object ob, CHR '' '' # r)"
    "ttl_solid (ttl_push_object v ob @ u)" by simp_all
qed

lemma ttl_predicate_pushed:
  assumes "ttl_vocab_ok v" "ttl_iri_ok v i"
  shows "ttl_predicate v (ttl_push_iri v i @ CHR '' '' # r) = Inr (i, CHR '' '' # r)" and "ttl_solid (ttl_push_iri v i @ u)"
proof -
  obtain c s where c: "ttl_push_iri v i = c # s" "plain_char c" "c \<notin> {CHR ''#'', CHR 0x22, CHR ''@''}"
    "c = CHR ''a'' \<longrightarrow> (\<exists>d s'. s = d # s' \<and> plain_char d)"
    by (rule ttl_push_iri_start [OF assms])
  have "\<not> (take 1 (ttl_push_iri v i @ CHR '' '' # r) = ''a'' \<and> ws_prefix (drop 1 (ttl_push_iri v i @ CHR '' '' # r)) > 0)"
    using c by (auto simp: plain_ws)
  then show "ttl_predicate v (ttl_push_iri v i @ CHR '' '' # r) = Inr (i, CHR '' '' # r)"
    unfolding ttl_predicate_def using ttl_term_iri [OF assms, of r] by auto
  show "ttl_solid (ttl_push_iri v i @ u)" using c(1-3) by (simp add: ttl_solid_plain)
qed

lemma ttl_statement_pushed:
  assumes "ttl_vocab_ok v" "ttl_ok v t"
  shows "ttl_statement v (ttl_push_triple v t @ '' .'' @ r) out = Inr (out @ [latin1_triple t], r)"
proof -
  let ?p = "ttl_push_iri v (t_predicate t)" and ?o = "ttl_push_object v (t_object t)"
  from assms(2) have ok: "ttl_subject_ok v (t_subject t)" "ttl_iri_ok v (t_predicate t)" "ttl_object_ok v (t_object t)"
    by (simp_all add: ttl_ok_def)
  have dot: "ttl_skip_ws ('' .'' @ r) = ''.'' @ r" "ttl_skip_ws (''.'' @ r) = ''.'' @ r"
    using ttl_skip_space(1) [of "''.'' @ r"] ttl_skip_solid [of "''.'' @ r"] by (simp_all add: ttl_solid_plain)
  have os: "ttl_objects v (t_subject t) (t_predicate t) (CHR '' '' # ?o @ '' .'' @ r) out =
      Inr (out @ [latin1_triple t], ''.'' @ r)"
    using ttl_object_pushed [OF assms(1) ok(3), of "''.'' @ r"] dot
      ttl_skip_space(1) [OF ttl_object_pushed(2) [OF assms(1) ok(3), of "'' .'' @ r"]]
    by (subst ttl_objects.simps) (simp add: Let_def latin1_triple_def)
  have "ttl_predicates v (t_subject t) (CHR '' '' # ?p @ CHR '' '' # ?o @ '' .'' @ r) out = Inr (out @ [latin1_triple t], r)"
    using ttl_predicate_pushed(1) [OF assms(1) ok(2), of "?o @ '' .'' @ r"] os dot
      ttl_skip_space(1) [OF ttl_predicate_pushed(2) [OF assms(1) ok(2), of "CHR '' '' # ?o @ '' .'' @ r"]]
    by (subst ttl_predicates.simps) (simp add: Let_def)
  then show ?thesis
    using ttl_subject_pushed(1) [OF assms(1) ok(1), of "?p @ CHR '' '' # ?o @ '' .'' @ r"]
    by (simp add: ttl_statement_def ttl_push_triple_def)
qed

definition ttl_body :: "vocabulary \<Rightarrow> rdf_triple list \<Rightarrow> string" where
  "ttl_body v ts = concat (map (\<lambda>t. ttl_push_triple v t @ '' .'' @ [CHR 0x0A]) ts)"

lemma ttl_body_start:
  assumes "ttl_vocab_ok v" "list_all (ttl_ok v) ts"
  shows "ttl_solid (ttl_body v ts)" "take 7 (ttl_body v ts) \<noteq> ''@prefix''" "ttl_body v ts = [] \<longleftrightarrow> ts = []"
proof -
  have "ttl_solid (ttl_body v ts) \<and> take 7 (ttl_body v ts) \<noteq> ''@prefix'' \<and> (ttl_body v ts = [] \<longleftrightarrow> ts = [])"
  proof (cases ts)
    case (Cons t ts')
    with assms(2) have "ttl_subject_ok v (t_subject t)" by (simp add: ttl_ok_def)
    from ttl_subject_pushed(2-4) [OF assms(1) this] Cons show ?thesis by (simp add: ttl_body_def ttl_push_triple_def)
  qed (simp add: ttl_body_def ttl_solid_def)
  then show "ttl_solid (ttl_body v ts)" "take 7 (ttl_body v ts) \<noteq> ''@prefix''" "ttl_body v ts = [] \<longleftrightarrow> ts = []"
    by simp_all
qed

lemma ttl_statements_pushed:
  assumes "ttl_vocab_ok v" "list_all (ttl_ok v) ts" "pre = [] \<or> pre = [CHR 0x0A]"
  shows "ttl_statements v (pre @ ttl_body v ts) out = Inr (out @ map latin1_triple ts)"
  using assms(2,3)
proof (induction ts arbitrary: pre out)
  case Nil
  have "ttl_skip_ws (pre @ ttl_body v []) = []" using ttl_skip_blank [of pre "[]"] Nil(2) by (auto simp: ttl_body_def ttl_solid_def)
  then show ?case by (subst ttl_statements.simps) simp
next
  case (Cons t ts)
  have body: "ttl_body v (t # ts) = ttl_push_triple v t @ '' .'' @ CHR 0x0A # ttl_body v ts" by (simp add: ttl_body_def)
  have "ttl_skip_ws (pre @ ttl_body v (t # ts)) = ttl_body v (t # ts)"
    by (rule ttl_skip_blank) (use Cons.prems(2) ttl_body_start(1) [OF assms(1) Cons.prems(1)] in auto)
  moreover have "ttl_body v (t # ts) \<noteq> []" using ttl_body_start(3) [OF assms(1) Cons.prems(1)] by simp
  moreover have "ttl_statement v (ttl_body v (t # ts)) out = Inr (out @ [latin1_triple t], CHR 0x0A # ttl_body v ts)"
    unfolding body using Cons.prems(1) by (intro ttl_statement_pushed [OF assms(1)]) simp
  ultimately show ?case using Cons.IH [of "[CHR 0x0A]" "out @ [latin1_triple t]"] Cons.prems(1)
    by (subst ttl_statements.simps) simp
qed

definition ttl_line :: "string \<times> iri \<Rightarrow> string" where
  "ttl_line pb = ''@prefix '' @ fst pb @ '': <'' @ as_str (snd pb) @ ''> .'' @ [CHR 0x0A]"

lemma trim_label: "ttl_label p \<Longrightarrow> trim p = p"
proof -
  assume p: "ttl_label p"
  have "trim_start p = p" using p by (cases p) (auto simp: ttl_label_def ttl_plain_def)
  moreover have "trim_end p = p" using p by (cases p rule: rev_cases) (auto simp: ttl_label_def ttl_plain_def)
  ultimately show ?thesis by (simp add: trim_def)
qed

lemma ttl_directive_line:
  assumes "ttl_prefix_ok p" "CHR ''>'' \<notin> set b"
  shows "ttl_directive w ('' '' @ p @ '': <'' @ b @ ''> .'' @ r) = Inr (vocab_bind p (Iri b) w, r)"
proof -
  have p: "ttl_label p" "CHR '':'' \<notin> set p" "list_all (\<lambda>c. c \<noteq> CHR ''#'') p"
    using assms(1) by (auto simp: ttl_prefix_ok_def list_all_iff)
  have "ttl_solid (p @ CHR '':'' # u)" for u
    using p(1,3) by (cases p) (auto simp: ttl_label_def ttl_plain_def intro!: ttl_solid_plain)
  then have "ttl_skip_ws (CHR '' '' # p @ '': <'' @ b @ ''> .'' @ r) = p @ CHR '':'' # CHR '' '' # CHR ''<'' # b @ ''> .'' @ r"
    by (simp add: ttl_skip_space)
  moreover have "split_once (CHR '':'') (p @ CHR '':'' # CHR '' '' # CHR ''<'' # b @ ''> .'' @ r) =
      Some (p, CHR '' '' # CHR ''<'' # b @ ''> .'' @ r)" by (rule split_once_append [OF p(2)])
  moreover have "ttl_skip_ws (CHR '' '' # CHR ''<'' # b @ ''> .'' @ r) = CHR ''<'' # b @ ''> .'' @ r"
    by (simp add: ttl_skip_space ttl_solid_plain)
  moreover have "split_once (CHR ''>'') (b @ CHR ''>'' # CHR '' '' # CHR ''.'' # r) = Some (b, CHR '' '' # CHR ''.'' # r)"
    by (rule split_once_append [OF assms(2)])
  moreover have "ttl_skip_ws (CHR '' '' # CHR ''.'' # r) = CHR ''.'' # r" by (simp add: ttl_skip_space ttl_solid_plain)
  ultimately show ?thesis using trim_label [OF p(1)] by (simp add: ttl_directive_def Let_def)
qed

lemma ttl_directives_lines:
  assumes "list_all (\<lambda>(p, b). ttl_prefix_ok p \<and> CHR ''>'' \<notin> set (as_str b)) v" "ttl_solid body" "take 7 body \<noteq> ''@prefix''"
    "set pre \<subseteq> {CHR 0x0A}" "set nl \<subseteq> {CHR 0x0A}"
  shows "ttl_directives w (pre @ concat (map ttl_line v) @ nl @ body) = Inr (fold (\<lambda>(p, b). vocab_bind p b) v w, body)"
  using assms(1,4)
proof (induction v arbitrary: pre w)
  case Nil
  have "ttl_skip_ws ((pre @ nl) @ body) = body" by (rule ttl_skip_blank) (use Nil assms(2,5) in auto)
  then show ?case using assms(3) by (subst ttl_directives.simps) simp
next
  case (Cons pb v)
  obtain p b where pb: "pb = (p, b)" by (cases pb)
  let ?rest = "concat (map ttl_line v) @ nl @ body"
  have "ttl_skip_ws (pre @ ttl_line pb @ ?rest) = ttl_line pb @ ?rest"
    by (rule ttl_skip_blank) (use Cons.prems(2) in \<open>auto simp: ttl_line_def intro!: ttl_solid_plain\<close>)
  moreover have "take 7 (ttl_line pb @ ?rest) = ''@prefix''" by (simp add: ttl_line_def)
  moreover have "drop 7 (ttl_line pb @ ?rest) = '' '' @ p @ '': <'' @ as_str b @ ''> .'' @ CHR 0x0A # ?rest"
    by (simp add: ttl_line_def pb)
  moreover have "ttl_directive w ('' '' @ p @ '': <'' @ as_str b @ ''> .'' @ CHR 0x0A # ?rest) =
      Inr (vocab_bind p b w, CHR 0x0A # ?rest)"
    using ttl_directive_line [of p "as_str b" w "CHR 0x0A # ?rest"] Cons.prems(1) by (simp add: pb)
  ultimately have "ttl_directives w (pre @ concat (map ttl_line (pb # v)) @ nl @ body) =
      ttl_directives (vocab_bind p b w) ([CHR 0x0A] @ ?rest)"
    by (subst ttl_directives.simps) (simp add: Let_def)
  with Cons.IH [of "[CHR 0x0A]" "vocab_bind p b w"] Cons.prems(1) show ?case by (simp add: pb)
qed

lemma ttl_header_lines: "ttl_header v = concat (map ttl_line v) @ (if v = [] then [] else [CHR 0x0A])"
proof -
  have "concat (map (\<lambda>(p, base). ''@prefix '' @ p @ '': <'' @ as_str base @ ''> .'' @ [CHR 0x0A]) v) = concat (map ttl_line v)"
    by (simp add: ttl_line_def [abs_def] case_prod_unfold)
  then show ?thesis by (cases v) (simp_all add: ttl_header_def ttl_line_def)
qed

section \<open>Properties\<close>

text \<open>C12: A Turtle document is read back as the triples it was written from, in their order, up to the
  characters that the parser makes of the bytes of a non-ASCII literal. The prefixes and IRIs must be
  ones the syntax carries: an abbreviated IRI has plain characters and no \<open>.\<close>, \<open>;\<close> or \<open>,\<close> after its
  base.\<close>

theorem turtle_round_trip:
  assumes "ttl_vocab_ok v" "list_all (ttl_ok v) ts"
  shows "ttl_parse (ttl_document v ts) = Inr (map latin1_triple ts)"
proof -
  have wf: "bm_wf v" and lines: "list_all (\<lambda>(p, b). ttl_prefix_ok p \<and> CHR ''>'' \<notin> set (as_str b)) v"
    using assms(1) by (simp_all add: ttl_vocab_ok_def)
  have doc: "ttl_document v ts = [] @ concat (map ttl_line v) @ (if v = [] then [] else [CHR 0x0A]) @ ttl_body v ts"
    by (simp add: ttl_document_def ttl_header_lines ttl_body_def)
  have "fold (\<lambda>(p, b). vocab_bind p b) v [] = v"
    using bm_rebuild [OF wf] by (simp add: vocab_bind_def [abs_def] case_prod_unfold)
  then have "ttl_directives [] (ttl_document v ts) = Inr (v, ttl_body v ts)"
    unfolding doc using ttl_body_start [OF assms] by (subst ttl_directives_lines [OF lines]) auto
  then show ?thesis using ttl_statements_pushed [OF assms, of "[]" "[]"] by (simp add: ttl_parse_def)
qed

definition ttl_ex_vocab :: vocabulary where
  "ttl_ex_vocab = [(''ex'', Iri ''http://e/'')]"

definition ttl_ex_triples :: "rdf_triple list" where
  "ttl_ex_triples =
     [triple_new (SIri (Iri ''http://e/A'')) rdf_type (OIri (Iri ''http://e/Org'')),
      triple_new (SBlank ''b1'') (Iri ''http://e/name'') (OLiteral ''x'' lang_string (Some ''en'')),
      triple_new (SIri (Iri ''http://e/A'')) (Iri ''http://e/size'') (OLiteral ''7'' (xsd ''integer'') None)]"

lemma turtle_round_trip_witness:
  "ttl_parse (ttl_document ttl_ex_vocab ttl_ex_triples) = Inr (map latin1_triple ttl_ex_triples) \<and>
   map latin1_triple ttl_ex_triples = ttl_ex_triples"
proof -
  have "ttl_vocab_ok ttl_ex_vocab" "list_all (ttl_ok ttl_ex_vocab) ttl_ex_triples"
    "map latin1_triple ttl_ex_triples = ttl_ex_triples" by code_simp+
  then show ?thesis using turtle_round_trip by metis
qed

text \<open>A comment is not skipped: of \<open>#\<close> followed by text, with or without a space, the parser drops the
  \<open>#\<close> (and the space) and goes on with the text as Turtle.\<close>

theorem turtle_comment_kept:
  assumes "plain_char c" "c \<noteq> CHR ''#''"
  shows "ttl_skip_ws (CHR ''#'' # c # r) = c # r \<and> ttl_skip_ws (CHR ''#'' # CHR '' '' # c # r) = c # r"
proof -
  have ws: "ws_prefix (CHR ''#'' # u) = 0" "ws_prefix (CHR '' '' # u) = 1" "ws_prefix (c # u) = 0" for u
    using plain_ws [OF assms(1)] by (simp_all add: ws_prefix_def)
  have "ttl_ws_scan (CHR ''#'' # c # r) 1 k = 1" for k
    using assms(2) ws(3) [of r] by (subst ttl_ws_scan.simps) simp
  then have one: "ttl_ws_scan (CHR ''#'' # c # r) 0 0 = 1"
    using ws(1) by (subst ttl_ws_scan.simps) simp
  have "ttl_ws_scan (CHR ''#'' # CHR '' '' # c # r) 2 k = 2" for k
    using assms(2) ws(3) [of r] by (subst ttl_ws_scan.simps) simp
  then have "ttl_ws_scan (CHR ''#'' # CHR '' '' # c # r) 1 k = 2" for k
    using ws(2) [of "c # r"] by (subst ttl_ws_scan.simps) (simp add: numeral_2_eq_2)
  then have two: "ttl_ws_scan (CHR ''#'' # CHR '' '' # c # r) 0 0 = 2"
    using ws(1) by (subst ttl_ws_scan.simps) simp
  from one two ws(3) [of r] assms(2) show ?thesis
    by (subst ttl_skip_ws.simps, simp) (subst ttl_skip_ws.simps, simp)
qed

lemma turtle_comment_kept_witness: "ttl_skip_ws ''# note'' = ''note''"
  using turtle_comment_kept [of "CHR ''n''" "''ote''"] by (simp add: plain_char_def ws_prefix_def)

text \<open>An IRI whose local part has a dot, semicolon or comma is still written as a CURIE, and the parser
  ends the term there: what it reads is another IRI.\<close>

theorem turtle_local_cut:
  assumes "ttl_prefix_ok p" "ttl_label l" "map_of v p = Some b" "ttl_stop d"
    and "CHR '' '' \<notin> set m" "CHR ''/'' \<notin> set m" "CHR ''/'' \<notin> set l"
  shows "ttl_push_iri [(p, b)] (Iri (as_str b @ l @ d # m)) = p @ '':'' @ l @ d # m \<and>
    ttl_term v (p @ '':'' @ l @ d # m) = Inr (TIri (Iri (as_str b @ l)), d # m)"
proof
  have "CHR '' '' \<notin> set l" using assms(2) by (auto simp: ttl_label_def ttl_plain_def list_all_iff)
  moreover have "d \<noteq> CHR '' ''" "d \<noteq> CHR ''/''" using assms(4) by (auto simp: ttl_stop_def)
  ultimately have "ttl_abbreviates (as_str b @ l @ d # m) b = Some (l @ d # m)"
    using assms(5-7) by (auto simp: ttl_abbreviates_def)
  then show "ttl_push_iri [(p, b)] (Iri (as_str b @ l @ d # m)) = p @ '':'' @ l @ d # m" by simp
  show "ttl_term v (p @ '':'' @ l @ d # m) = Inr (TIri (Iri (as_str b @ l)), d # m)"
    using ttl_term_curie_stop [OF assms(1-3), of d m] assms(4) by simp
qed

lemma turtle_local_cut_witness:
  "ttl_term ttl_ex_vocab ''ex:v1.0'' = Inr (TIri (Iri ''http://e/v1''), ''.0'')"
proof -
  have "ttl_prefix_ok ''ex''" "ttl_label ''v1''" "map_of ttl_ex_vocab ''ex'' = Some (Iri ''http://e/'')" "ttl_stop (CHR ''.'')"
    by code_simp+
  from turtle_local_cut [OF this, of "''0''"] show ?thesis by simp
qed

end
