(* ===== verification/Rdf_JsonLd.thy ===== *)
theory Rdf_JsonLd
  imports Rdf_Adapter "HOL-Library.Multiset"
begin

text \<open>
  \<open>crates/atomr-ontology-rdf/src/jsonld.rs\<close>: the JSON-LD writer and parser on \<open>serde_json\<close> values. The
  text form of a value is a parameter: \<open>pretty\<close> writes a document (or fails), \<open>compact\<close> is \<open>Display\<close>,
  \<open>read_json\<close> parses. A JSON object is a sorted association list. \<open>None\<close> of the writer is a panic.
\<close>

section \<open>Writing\<close>

definition jl_object :: "object \<Rightarrow> json" where
  [code_defs]: "jl_object ob =
     (case ob of
        OIri i \<Rightarrow> JObject [(''@id'', JString (as_str i))]
      | OBlank l \<Rightarrow> JObject [(''@id'', JString (''_:'' @ l))]
      | OLiteral lexical dt language \<Rightarrow>
          JObject (case language of
             Some lang \<Rightarrow> bm_insert ''@language'' (JString lang) (bm_insert ''@value'' (JString lexical) [])
           | None \<Rightarrow> bm_insert ''@type'' (JString (as_str dt)) (bm_insert ''@value'' (JString lexical) [])))"

definition jl_subject_key :: "subject \<Rightarrow> string" where
  [code_defs]: "jl_subject_key s = (case s of SIri i \<Rightarrow> as_str i | SBlank b \<Rightarrow> ''_:'' @ b)"

text \<open>\<open>obj.entry(k).or_insert_with(|| json!([])).as_array_mut().unwrap().push(value)\<close>\<close>

definition jl_add :: "string \<Rightarrow> json \<Rightarrow> (string, json) bmap \<Rightarrow> (string, json) bmap option" where
  [code_defs]: "jl_add k x obj =
     (case map_of obj k of
        None \<Rightarrow> Some (bm_insert k (JArray [x]) obj)
      | Some v \<Rightarrow> (case v of JArray xs \<Rightarrow> Some (bm_insert k (JArray (xs @ [x])) obj) | _ \<Rightarrow> None))"

fun jl_fill :: "rdf_triple list \<Rightarrow> (string, json) bmap \<Rightarrow> (string, json) bmap option" where
  "jl_fill [] obj = Some obj"
| "jl_fill (t # ts) obj =
     (case jl_add (as_str (t_predicate t)) (jl_object (t_object t)) obj of None \<Rightarrow> None | Some obj \<Rightarrow> jl_fill ts obj)"

definition jl_by_subject :: "rdf_triple list \<Rightarrow> (string, rdf_triple list) bmap" where
  [code_defs]: "jl_by_subject ts = fold (\<lambda>t. idx_push (jl_subject_key (t_subject t)) t) ts []"

fun jl_graph :: "(string, rdf_triple list) bmap \<Rightarrow> json list option" where
  "jl_graph [] = Some []"
| "jl_graph ((k, ts) # m) =
     (case jl_fill ts (bm_insert ''@id'' (JString k) []) of
        None \<Rightarrow> None
      | Some obj \<Rightarrow> (case jl_graph m of None \<Rightarrow> None | Some g \<Rightarrow> Some (JObject obj # g)))"

definition jl_document :: "vocabulary \<Rightarrow> rdf_triple list \<Rightarrow> json option" where
  [code_defs]: "jl_document v ts =
     (case jl_graph (jl_by_subject ts) of
        None \<Rightarrow> None
      | Some g \<Rightarrow>
          Some (JObject (bm_insert ''@graph'' (JArray g)
            (bm_insert ''@context'' (JObject (fold (\<lambda>(p, b). bm_insert p (JString (as_str b))) v [])) []))))"

definition jl_write :: "(json \<Rightarrow> string option) \<Rightarrow> rdf_text \<Rightarrow> ontology \<Rightarrow> string option" where
  [code_defs]: "jl_write pretty rt o' =
     (case jl_document (rdf_vocab o') (to_rdf rt o') of
        None \<Rightarrow> None
      | Some d \<Rightarrow> Some (case pretty d of Some s \<Rightarrow> s | None \<Rightarrow> ''{}''))"

section \<open>Reading\<close>

text \<open>\<open>Value::get\<close>, \<open>as_str\<close>, \<open>as_object\<close>.\<close>

fun json_get :: "string \<Rightarrow> json \<Rightarrow> json option" where
  "json_get k (JObject m) = map_of m k"
| "json_get k _ = None"

fun json_str :: "json \<Rightarrow> string option" where
  "json_str (JString s) = Some s"
| "json_str _ = None"

definition get_str :: "string \<Rightarrow> (string, json) bmap \<Rightarrow> string option" where
  [code_defs]: "get_str k m = (case map_of m k of Some v \<Rightarrow> json_str v | None \<Rightarrow> None)"

definition jl_expand :: "vocabulary \<Rightarrow> string \<Rightarrow> iri" where
  [code_defs]: "jl_expand v s =
     (if take 7 s = ''http://'' \<or> take 8 s = ''https://'' \<or> take 4 s = ''urn:'' then Iri s
      else case expand_curie v s of Some i \<Rightarrow> i | None \<Rightarrow> Iri s)"

definition jl_subject :: "string \<Rightarrow> subject" where
  [code_defs]: "jl_subject i = (if take 2 i = ''_:'' then SBlank (drop 2 i) else SIri (Iri i))"

fun jl_flatten :: "json \<Rightarrow> json list" where
  "jl_flatten (JArray xs) = xs"
| "jl_flatten x = [x]"

definition jl_value :: "(json \<Rightarrow> string) \<Rightarrow> vocabulary \<Rightarrow> json \<Rightarrow> object option" where
  [code_defs]: "jl_value compact v x =
     (case x of
        JObject m \<Rightarrow>
          (case get_str ''@id'' m of
             Some i \<Rightarrow> Some (if take 2 i = ''_:'' then OBlank (drop 2 i) else OIri (jl_expand v i))
           | None \<Rightarrow>
               (case map_of m ''@value'' of
                  None \<Rightarrow> None
                | Some val \<Rightarrow>
                    (let lexical = (case val of JString s \<Rightarrow> s | other \<Rightarrow> compact other);
                         language = get_str ''@language'' m;
                         dt = (if language \<noteq> None then Iri ''http://www.w3.org/1999/02/22-rdf-syntax-ns#langString''
                               else case get_str ''@type'' m of
                                      Some d \<Rightarrow> jl_expand v d
                                    | None \<Rightarrow> Iri ''http://www.w3.org/2001/XMLSchema#string'')
                     in Some (OLiteral lexical dt language))))
      | _ \<Rightarrow> None)"

fun jl_entry :: "(json \<Rightarrow> string) \<Rightarrow> vocabulary \<Rightarrow> subject \<Rightarrow> string \<times> json \<Rightarrow> rdf_triple list" where
  "jl_entry compact v s (key, values) =
     (if key = ''@id'' then []
      else if key = ''@type'' then
        concat (map (\<lambda>x. case json_str x of
            Some c \<Rightarrow> [\<lparr>t_subject = s, t_predicate = jl_expand v c, t_object = OIri (jl_expand v c)\<rparr>]
          | None \<Rightarrow> []) (jl_flatten values))
      else
        concat (map (\<lambda>x. case jl_value compact v x of
            Some ob \<Rightarrow> [\<lparr>t_subject = s, t_predicate = jl_expand v key, t_object = ob\<rparr>]
          | None \<Rightarrow> []) (jl_flatten values)))"

definition jl_node :: "(json \<Rightarrow> string) \<Rightarrow> vocabulary \<Rightarrow> json \<Rightarrow> rdf_triple list" where
  [code_defs]: "jl_node compact v x =
     (case x of
        JObject m \<Rightarrow>
          (case get_str ''@id'' m of
             Some i \<Rightarrow> concat (map (jl_entry compact v (jl_subject i)) m)
           | None \<Rightarrow> [])
      | _ \<Rightarrow> [])"

definition jl_vocab :: "json \<Rightarrow> vocabulary" where
  [code_defs]: "jl_vocab doc =
     (case json_get ''@context'' doc of
        Some (JObject ctx) \<Rightarrow>
          fold (\<lambda>(p, base) v. case json_str base of Some b \<Rightarrow> vocab_bind p (Iri b) v | None \<Rightarrow> v) ctx []
      | _ \<Rightarrow> [])"

definition jl_triples :: "(json \<Rightarrow> string) \<Rightarrow> json \<Rightarrow> rdf_triple list" where
  [code_defs]: "jl_triples compact doc =
     (case json_get ''@graph'' doc of
        Some (JArray nodes) \<Rightarrow> concat (map (jl_node compact (jl_vocab doc)) nodes)
      | _ \<Rightarrow> [])"

definition jl_parse :: "(json \<Rightarrow> string) \<Rightarrow> (string \<Rightarrow> string + json) \<Rightarrow> string \<Rightarrow> string + rdf_triple list" where
  [code_defs]: "jl_parse compact read_json input =
     (case read_json input of Inl e \<Rightarrow> Inl e | Inr doc \<Rightarrow> Inr (jl_triples compact doc))"

definition jl_read :: "(json \<Rightarrow> string) \<Rightarrow> (string \<Rightarrow> string + json) \<Rightarrow> string \<Rightarrow> string + ontology" where
  [code_defs]: "jl_read compact read_json input =
     (case jl_parse compact read_json input of Inl e \<Rightarrow> Inl e | Inr ts \<Rightarrow> Inr (from_rdf ts))"

section \<open>Collecting the entries of a map\<close>

lemma mset_bm_insert:
  "bm_wf m \<Longrightarrow> mset (concat (map f (bm_insert k w m))) + (case map_of m k of Some v \<Rightarrow> mset (f (k, v)) | None \<Rightarrow> {#}) =
     mset (concat (map f m)) + mset (f (k, w))"
proof (induction m)
  case (Cons e m)
  obtain j v where e: "e = (j, v)" by (cases e)
  consider "j < k" | "j = k" | "k < j" by (rule linorder_cases)
  then show ?case
  proof cases
    case 3
    then have "map_of m k = None" using Cons.prems by (force simp: e map_of_eq_None_iff)
    moreover have "\<not> j < k" "j \<noteq> k" using 3 by auto
    ultimately show ?thesis by (simp add: e)
  qed (use Cons in \<open>auto simp: e ac_simps\<close>)
qed simp

definition jl_subject_ok :: "subject \<Rightarrow> bool" where
  "jl_subject_ok s \<longleftrightarrow> (case s of SIri i \<Rightarrow> take 2 (as_str i) \<noteq> ''_:'' | SBlank l \<Rightarrow> True)"

definition jl_iri_ok :: "vocabulary \<Rightarrow> iri \<Rightarrow> bool" where
  "jl_iri_ok v i \<longleftrightarrow> jl_expand v (as_str i) = i"

definition jl_object_ok :: "vocabulary \<Rightarrow> object \<Rightarrow> bool" where
  "jl_object_ok v ob \<longleftrightarrow>
     (case ob of OIri i \<Rightarrow> take 2 (as_str i) \<noteq> ''_:'' \<and> jl_iri_ok v i | OBlank l \<Rightarrow> True
      | OLiteral x d lang \<Rightarrow>
          (case lang of None \<Rightarrow> jl_iri_ok v d | Some l \<Rightarrow> d = Iri ''http://www.w3.org/1999/02/22-rdf-syntax-ns#langString''))"

definition jl_ok :: "vocabulary \<Rightarrow> rdf_triple \<Rightarrow> bool" where
  "jl_ok v t \<longleftrightarrow> jl_subject_ok (t_subject t) \<and> jl_iri_ok v (t_predicate t) \<and>
     as_str (t_predicate t) \<notin> {''@id'', ''@type''} \<and> jl_object_ok v (t_object t)"

lemma jl_value_back: "jl_object_ok v ob \<Longrightarrow> jl_value compact v (jl_object ob) = Some ob"
proof (cases ob)
  case (OIri i)
  assume "jl_object_ok v ob"
  with OIri show ?thesis by (simp add: jl_object_ok_def jl_iri_ok_def jl_value_def jl_object_def get_str_def)
next
  case (OBlank l)
  then show ?thesis by (simp add: jl_value_def jl_object_def get_str_def)
next
  case (OLiteral x d lang)
  assume "jl_object_ok v ob"
  with OLiteral show ?thesis
    by (cases lang) (simp_all add: jl_object_ok_def jl_iri_ok_def jl_value_def jl_object_def get_str_def)
qed

lemma jl_subject_back: "jl_subject_ok s \<Longrightarrow> jl_subject (jl_subject_key s) = s"
  by (cases s) (auto simp: jl_subject_ok_def jl_subject_def jl_subject_key_def)

text \<open>Filling one node object: the triples of its entries grow by those filled in.\<close>

definition jl_filled :: "(string, json) bmap \<Rightarrow> bool" where
  "jl_filled obj \<longleftrightarrow> bm_wf obj \<and> (\<forall>p x. map_of obj p = Some x \<longrightarrow> p \<noteq> ''@id'' \<longrightarrow> (\<exists>xs. x = JArray xs))"

lemma jl_add_triples:
  assumes "jl_filled obj" "jl_ok v t"
  shows "\<exists>obj'. jl_add (as_str (t_predicate t)) (jl_object (t_object t)) obj = Some obj' \<and> jl_filled obj' \<and>
    map_of obj' ''@id'' = map_of obj ''@id'' \<and>
    mset (concat (map (jl_entry compact v (t_subject t)) obj')) = mset (concat (map (jl_entry compact v (t_subject t)) obj)) + {#t#}"
proof -
  let ?p = "as_str (t_predicate t)" and ?x = "jl_object (t_object t)" and ?f = "jl_entry compact v (t_subject t)"
  from assms(2) have p: "?p \<noteq> ''@id''" "?p \<noteq> ''@type''" "jl_expand v ?p = t_predicate t"
    and x: "jl_value compact v ?x = Some (t_object t)"
    by (simp_all add: jl_ok_def jl_iri_ok_def jl_value_back)
  have snoc: "?f (?p, JArray (xs @ [?x])) = ?f (?p, JArray xs) @ [t]" for xs
    using p x by simp
  have nil: "?f (?p, JArray []) = []" using p by simp
  have wf: "bm_wf obj" using assms(1) by (simp add: jl_filled_def)
  define xs where "xs = (case map_of obj ?p of Some (JArray xs) \<Rightarrow> xs | _ \<Rightarrow> [])"
  have add: "jl_add ?p ?x obj = Some (bm_insert ?p (JArray (xs @ [?x])) obj)"
    using assms(1) p(1) by (cases "map_of obj ?p") (fastforce simp: jl_add_def xs_def jl_filled_def)+
  have old: "(case map_of obj ?p of Some y \<Rightarrow> mset (?f (?p, y)) | None \<Rightarrow> {#}) = mset (?f (?p, JArray xs))"
    using assms(1) p(1) nil by (cases "map_of obj ?p") (fastforce simp: xs_def jl_filled_def)+
  have "mset (concat (map ?f (bm_insert ?p (JArray (xs @ [?x])) obj))) + mset (?f (?p, JArray xs)) =
      mset (concat (map ?f obj)) + mset (?f (?p, JArray xs)) + {#t#}"
    using mset_bm_insert [OF wf, of ?f ?p "JArray (xs @ [?x])"] unfolding old snoc by simp
  then have "mset (concat (map ?f (bm_insert ?p (JArray (xs @ [?x])) obj))) = mset (concat (map ?f obj)) + {#t#}" by simp
  moreover have "jl_filled (bm_insert ?p (JArray (xs @ [?x])) obj)" using assms(1) by (auto simp: jl_filled_def)
  ultimately show ?thesis using add p(1) by simp
qed

lemma jl_fill_triples:
  assumes "jl_filled obj" "\<forall>t \<in> set ts. jl_ok v t \<and> t_subject t = s"
  shows "\<exists>obj'. jl_fill ts obj = Some obj' \<and> map_of obj' ''@id'' = map_of obj ''@id'' \<and>
    mset (concat (map (jl_entry compact v s) obj')) = mset (concat (map (jl_entry compact v s) obj)) + mset ts"
  using assms
proof (induction ts arbitrary: obj)
  case (Cons t ts)
  then obtain obj1 where 1: "jl_add (as_str (t_predicate t)) (jl_object (t_object t)) obj = Some obj1" "jl_filled obj1"
    "map_of obj1 ''@id'' = map_of obj ''@id''"
    "mset (concat (map (jl_entry compact v s) obj1)) = mset (concat (map (jl_entry compact v s) obj)) + {#t#}"
    using jl_add_triples [of obj v t compact] by auto
  from Cons.IH [OF 1(2)] Cons.prems(2) obtain obj2 where "jl_fill ts obj1 = Some obj2"
    "map_of obj2 ''@id'' = map_of obj1 ''@id''"
    "mset (concat (map (jl_entry compact v s) obj2)) = mset (concat (map (jl_entry compact v s) obj1)) + mset ts" by auto
  with 1 show ?case by simp
qed simp

lemma jl_graph_triples:
  assumes "\<forall>(k, ts) \<in> set m. \<forall>t \<in> set ts. jl_ok v t \<and> jl_subject_key (t_subject t) = k"
  shows "\<exists>g. jl_graph m = Some g \<and> mset (concat (map (jl_node compact v) g)) = mset (concat (map snd m))"
  using assms
proof (induction m)
  case (Cons e m)
  obtain k ts where e: "e = (k, ts)" by (cases e)
  have ts: "\<forall>t \<in> set ts. jl_ok v t \<and> t_subject t = jl_subject k"
    using Cons.prems jl_subject_back by (fastforce simp: e jl_ok_def)
  have "jl_filled (bm_insert ''@id'' (JString k) [])" by (simp add: jl_filled_def)
  from jl_fill_triples [OF this ts, of compact] obtain obj where obj:
    "jl_fill ts (bm_insert ''@id'' (JString k) []) = Some obj" "map_of obj ''@id'' = Some (JString k)"
    "mset (concat (map (jl_entry compact v (jl_subject k)) obj)) = mset ts"
    by auto
  from Cons obtain g where "jl_graph m = Some g" "mset (concat (map (jl_node compact v) g)) = mset (concat (map snd m))"
    by auto
  moreover have "jl_node compact v (JObject obj) = concat (map (jl_entry compact v (jl_subject k)) obj)"
    using obj(2) by (simp add: jl_node_def get_str_def)
  ultimately show ?case using obj by (intro exI [of _ "JObject obj # g"]) (simp add: e)
qed simp

lemma jl_by_subject_groups:
  "bm_wf (jl_by_subject ts) \<and> mset (concat (map snd (jl_by_subject ts))) = mset ts \<and>
   (\<forall>(k, us) \<in> set (jl_by_subject ts). \<forall>t \<in> set us. jl_subject_key (t_subject t) = k)"
proof -
  let ?key = "\<lambda>t. jl_subject_key (t_subject t)"
  have "bm_wf m \<Longrightarrow> \<forall>(k, us) \<in> set m. \<forall>t \<in> set us. ?key t = k \<Longrightarrow>
      bm_wf (fold (\<lambda>t. idx_push (?key t) t) ts m) \<and>
      mset (concat (map snd (fold (\<lambda>t. idx_push (?key t) t) ts m))) = mset (concat (map snd m)) + mset ts \<and>
      (\<forall>(k, us) \<in> set (fold (\<lambda>t. idx_push (?key t) t) ts m). \<forall>t \<in> set us. ?key t = k)" for m
  proof (induction ts arbitrary: m)
    case (Cons t ts)
    let ?m = "idx_push (?key t) t m"
    have eq: "mset (concat (map snd ?m)) = add_mset t (mset (concat (map snd m)))"
      using mset_bm_insert [OF Cons.prems(1), of snd "?key t" "(case map_of m (?key t) of Some us \<Rightarrow> us | None \<Rightarrow> []) @ [t]"]
      by (cases "map_of m (?key t)") (simp_all add: idx_push_def)
    have keys: "\<forall>(k, us) \<in> set ?m. \<forall>u \<in> set us. ?key u = k"
    proof (clarify)
      fix k us u assume "(k, us) \<in> set ?m" and u: "u \<in> set us"
      then consider "(k, us) \<in> set m" | "k = ?key t" "us = (case map_of m (?key t) of Some us \<Rightarrow> us | None \<Rightarrow> []) @ [t]"
        unfolding idx_push_def by (fastforce dest!: subsetD [OF bm_set_insert_subset])
      then show "?key u = k"
      proof cases
        case 1
        with u Cons.prems(2) show ?thesis by fastforce
      next
        case 2
        from 2(2) u consider "u = t" | ws where "map_of m (?key t) = Some ws" "u \<in> set ws"
          by (cases "map_of m (?key t)") auto
        then show ?thesis
        proof cases
          case 1
          with 2(1) show ?thesis by simp
        next
          fix ws assume "map_of m (?key t) = Some ws" "u \<in> set ws"
          with 2(1) Cons.prems(2) map_of_SomeD [of m "?key t" ws] show ?thesis by blast
        qed
      qed
    qed
    have "bm_wf ?m" using Cons.prems(1) by (simp add: idx_push_def)
    from Cons.IH [OF this keys] eq show ?case by simp
  qed simp
  from this [of "[]"] show ?thesis by (simp add: jl_by_subject_def)
qed

lemma jl_vocab_back:
  assumes "bm_wf v" "jl_document v ts = Some doc"
  shows "jl_vocab doc = v"
proof -
  let ?ctx = "map (\<lambda>(p, b). (p, JString (as_str b))) v"
  have "bm_wf ?ctx" using assms(1) by (auto simp: bm_wf_def sorted_wrt_map comp_def case_prod_unfold)
  from bm_rebuild [OF this] have ctx: "fold (\<lambda>(p, b). bm_insert p (JString (as_str b))) v [] = ?ctx"
    by (simp add: fold_map comp_def case_prod_unfold)
  have "fold (\<lambda>(p, base) w. case json_str base of Some b \<Rightarrow> vocab_bind p (Iri b) w | None \<Rightarrow> w) ?ctx [] =
      fold (\<lambda>e. bm_insert (fst e) (snd e)) v []"
    by (simp add: fold_map comp_def case_prod_unfold vocab_bind_def)
  with assms ctx bm_rebuild [OF assms(1)] show ?thesis
    by (auto simp: jl_document_def jl_vocab_def split: option.splits)
qed

section \<open>Properties\<close>

text \<open>C26: Writing triples as a JSON-LD document never panics and reading the document gives the same triples,
  each as often: for predicates that are no keywords, IRIs that are not taken for CURIEs or blank nodes, and
  language-tagged literals whose datatype is \<open>rdf:langString\<close>. The order of the triples may change.\<close>

theorem jsonld_round_trip:
  assumes "bm_wf v" "list_all (jl_ok v) ts"
  shows "\<exists>doc. jl_document v ts = Some doc \<and> mset (jl_triples compact doc) = mset ts"
proof -
  let ?m = "jl_by_subject ts"
  have groups: "mset (concat (map snd ?m)) = mset ts" "\<forall>(k, us) \<in> set ?m. \<forall>t \<in> set us. jl_subject_key (t_subject t) = k"
    using jl_by_subject_groups [of ts] by simp_all
  have "set (concat (map snd ?m)) = set ts" using groups(1) by (metis set_mset_mset)
  then have "\<forall>(k, us) \<in> set ?m. \<forall>t \<in> set us. jl_ok v t"
    using assms(2) by (fastforce simp: list_all_iff)
  with groups(2) obtain g where g: "jl_graph ?m = Some g" "mset (concat (map (jl_node compact v) g)) = mset ts"
    using jl_graph_triples [of ?m v compact] groups(1) by fastforce
  then obtain doc where doc: "jl_document v ts = Some doc" "json_get ''@graph'' doc = Some (JArray g)"
    by (simp add: jl_document_def)
  then show ?thesis using jl_vocab_back [OF assms(1) doc(1)] g(2) by (simp add: jl_triples_def)
qed

definition jl_ex_triples :: "rdf_triple list" where
  "jl_ex_triples =
     [triple_new (SIri (Iri ''http://e/A'')) rdf_type (OIri (Iri ''http://e/Org'')),
      triple_new (SBlank ''b1'') rdf_type (OBlank ''b2''),
      triple_new (SIri (Iri ''http://e/A'')) (Iri ''http://e/size'') (OLiteral ''7'' (xsd ''integer'') None)]"

lemma jsonld_round_trip_witness:
  "\<exists>doc. jl_document with_standard_bindings jl_ex_triples = Some doc \<and>
     mset (jl_triples (\<lambda>_. []) doc) = mset jl_ex_triples"
proof -
  have "list_all (jl_ok with_standard_bindings) jl_ex_triples" by code_simp
  from jsonld_round_trip [OF with_standard_bindings_wf this] show ?thesis .
qed

text \<open>How the parser reads the types and the ids of a node object: an \<open>@type\<close> becomes a triple whose
  predicate is the class itself, and an id that is a CURIE is expanded where a triple points to it
  but not where it is the subject.\<close>

theorem jsonld_type_and_id:
  assumes "CHR '':'' \<notin> set p" "map_of v p = Some b" "take 2 (p @ '':'' @ l) \<noteq> ''_:''"
    "take 7 (p @ '':'' @ l) \<noteq> ''http://''" "take 8 (p @ '':'' @ l) \<noteq> ''https://''" "take 4 (p @ '':'' @ l) \<noteq> ''urn:''"
  shows "jl_subject (p @ '':'' @ l) = SIri (Iri (p @ '':'' @ l)) \<and>
    jl_value compact v (JObject [(''@id'', JString (p @ '':'' @ l))]) = Some (OIri (Iri (as_str b @ l))) \<and>
    jl_entry compact v s (''@type'', JString (p @ '':'' @ l)) =
      [\<lparr>t_subject = s, t_predicate = Iri (as_str b @ l), t_object = OIri (Iri (as_str b @ l))\<rparr>]"
proof -
  have "jl_expand v (p @ '':'' @ l) = Iri (as_str b @ l)"
    using assms by (simp add: jl_expand_def expand_curie_def split_once_append)
  with assms(3) show ?thesis by (simp add: jl_subject_def jl_value_def get_str_def)
qed

lemma jsonld_type_and_id_witness:
  "jl_entry (\<lambda>_. []) [(''ex'', Iri ''http://e/'')] (SIri (Iri ''ex:a'')) (''@type'', JString ''ex:Org'') =
     [\<lparr>t_subject = SIri (Iri ''ex:a''), t_predicate = Iri ''http://e/Org'', t_object = OIri (Iri ''http://e/Org'')\<rparr>]"
  using jsonld_type_and_id [of "''ex''" "[(''ex'', Iri ''http://e/'')]" "Iri ''http://e/''" "''Org''"] by simp

end
