(* ===== verification/Import_Mapping.thy ===== *)
theory Import_Mapping
  imports Rdf_Turtle Rdf_JsonLd Provenance
begin

text \<open>
  \<open>crates/atomr-ontology-import/src\<close>: the projection of a triple stream into an ontology along a mapping
  of classes, datatype properties and object properties (\<open>mapping.rs\<close>), and the three importers that
  use it (\<open>foaf.rs\<close>, \<open>skos.rs\<close>, \<open>schema_org.rs\<close>). Parsing a float is the parameter \<open>parse_f64\<close>.
\<close>

section \<open>Mappings\<close>

record data_property_spec =
  dp_iri :: string
  dp_local :: string
  dp_datatype :: datatype_tag

record object_property_spec =
  op_iri :: string
  op_local :: string

record class_spec =
  cs_iri :: string
  cs_local :: string

record vocab_mapping =
  vm_classes :: "class_spec list"
  vm_data :: "(data_property_spec \<times> string list) list"
  vm_objects :: "(object_property_spec \<times> string list \<times> string list) list"
  vm_default :: "string option"

section \<open>The declared types\<close>

definition mapped_property :: "data_property_spec \<Rightarrow> property_type" where
  [code_defs]: "mapped_property spec =
     \<lparr>pt_name = dp_local spec, pt_datatype = dp_datatype spec, pt_card = CARD_ANY, pt_iri = Some (Iri (dp_iri spec)),
      pt_desc = None\<rparr>"

definition props_by_class :: "vocab_mapping \<Rightarrow> (string, property_type list) bmap" where
  [code_defs]: "props_by_class m =
     fold (\<lambda>(spec, applies_to). fold (\<lambda>c. idx_push c (mapped_property spec)) applies_to) (vm_data m) []"

definition declare_class :: "class_spec \<Rightarrow> (string, property_type list) bmap \<times> schema \<Rightarrow> (string, property_type list) bmap \<times> schema" where
  [code_defs]: "declare_class c x =
     (case x of (props, s) \<Rightarrow>
        (let nt = nt_with_iri (Iri (cs_iri c)) (nt_new (cs_local c));
             nt = fold nt_with_property (idx_get props (cs_local c)) nt
         in (filter (\<lambda>e. fst e \<noteq> cs_local c) props, declare_node_type nt s)))"

definition mapped_edge_type :: "object_property_spec \<times> string list \<times> string list \<Rightarrow> edge_type" where
  [code_defs]: "mapped_edge_type x =
     (case x of (spec, ds, rs) \<Rightarrow>
        fold et_with_range rs (fold et_with_domain ds (et_with_iri (Iri (op_iri spec)) (et_new (op_local spec)))))"

definition declare_mapping :: "vocab_mapping \<Rightarrow> ontology" where
  [code_defs]: "declare_mapping m =
     (case fold declare_class (vm_classes m) (props_by_class m, schema_new) of (rest, s) \<Rightarrow>
        (let s = fold (\<lambda>(c, props). declare_node_type (fold nt_with_property props (nt_new c))) rest s;
             s = fold (\<lambda>x. declare_edge_type (mapped_edge_type x)) (vm_objects m) s
         in ontology_new\<lparr>o_schema := s\<rparr>))"

section \<open>Literals\<close>

text \<open>\<open>i64::from_str\<close>\<close>

definition parse_i64 :: "string \<Rightarrow> 64 word option" where
  [code_defs]: "parse_i64 s =
     (let neg = (length s > 1 \<and> hd s = CHR ''-'');
          ds = (if length s > 1 \<and> (hd s = CHR ''-'' \<or> hd s = CHR ''+'') then tl s else s)
      in if ds = [] \<or> \<not> list_all is_ascii_digit ds then None
         else let v = (if neg then - int (digits_value ds) else int (digits_value ds))
              in if - (2 ^ 63) \<le> v \<and> v < 2 ^ 63 then Some (word_of_int v) else None)"

definition literal_value :: "(string \<Rightarrow> 64 word option) \<Rightarrow> datatype_tag \<Rightarrow> string \<Rightarrow> property_value" where
  [code_defs]: "literal_value parse_f64 d lexical =
     (case d of
        DInteger \<Rightarrow> (case parse_i64 lexical of Some i \<Rightarrow> PInteger i | None \<Rightarrow> PString lexical)
      | DFloat \<Rightarrow> (case parse_f64 lexical of Some f \<Rightarrow> PFloat f | None \<Rightarrow> PString lexical)
      | DBool \<Rightarrow>
          (if lexical = ''true'' \<or> lexical = ''1'' then PBool True
           else if lexical = ''false'' \<or> lexical = ''0'' then PBool False
           else PString lexical)
      | DIri \<Rightarrow> (case iri_new lexical of Inr i \<Rightarrow> PIri i | Inl _ \<Rightarrow> PString lexical)
      | _ \<Rightarrow> PString lexical)"

section \<open>Projection\<close>

definition find_class :: "vocab_mapping \<Rightarrow> string \<Rightarrow> class_spec option" where
  [code_defs]: "find_class m i = List.find (\<lambda>c. cs_iri c = i) (vm_classes m)"

definition find_data :: "vocab_mapping \<Rightarrow> string \<Rightarrow> data_property_spec option" where
  [code_defs]: "find_data m p = map_option fst (List.find (\<lambda>x. dp_iri (fst x) = p) (vm_data m))"

definition find_object :: "vocab_mapping \<Rightarrow> string \<Rightarrow> object_property_spec option" where
  [code_defs]: "find_object m p = map_option fst (List.find (\<lambda>x. op_iri (fst x) = p) (vm_objects m))"

definition note_type :: "vocab_mapping \<Rightarrow> rdf_triple \<Rightarrow> (string, string list) bmap \<Rightarrow> (string, string list) bmap" where
  [code_defs]: "note_type m t types =
     (case (t_subject t, t_object t) of
        (SIri subj, OIri class) \<Rightarrow>
          if \<not> (t_predicate t = rdf_type \<or> list_ex (\<lambda>c. cs_iri c = as_str class) (vm_classes m)) then types
          else (case find_class m (as_str class) of
                  Some c \<Rightarrow>
                    (let entry = idx_get types (as_str subj)
                     in bm_insert (as_str subj) (if list_ex (\<lambda>l. l = cs_local c) entry then entry else entry @ [cs_local c]) types)
                | None \<Rightarrow> types)
      | _ \<Rightarrow> types)"

definition subject_types :: "vocab_mapping \<Rightarrow> rdf_triple list \<Rightarrow> (string, string list) bmap" where
  [code_defs]: "subject_types m ts = fold (note_type m) ts []"

definition merge_types :: "node \<Rightarrow> node \<Rightarrow> node" where
  [code_defs]: "merge_types existing n =
     existing\<lparr>n_types := fold (\<lambda>l ls. if list_ex (\<lambda>x. x = l) ls then ls else ls @ [l]) (n_types n) (n_types existing)\<rparr>"

definition ensure_node ::
    "hasher \<Rightarrow> (string, string list) bmap \<Rightarrow> string \<Rightarrow> string option \<Rightarrow> ontology \<Rightarrow> node_id option \<times> ontology" where
  [code_defs]: "ensure_node H types i fallback o' =
     (let labels = map_of types i;
          label = (case labels of Some (l # ls) \<Rightarrow> Some l | _ \<Rightarrow> fallback)
      in case label of
           None \<Rightarrow> (None, o')
         | Some l \<Rightarrow>
             (let n = node_from_iri H (Iri i) l;
                  n = (case labels of Some all_labels \<Rightarrow> fold node_with_label (drop 1 all_labels) n | None \<Rightarrow> n)
              in case map_of (o_nodes o') (n_id n) of
                   Some existing \<Rightarrow> (let merged = merge_types existing n in (Some (n_id merged), upsert_node merged o'))
                 | None \<Rightarrow> (Some (n_id n), upsert_node n o')))"

definition data_value :: "(string \<Rightarrow> 64 word option) \<Rightarrow> data_property_spec \<Rightarrow> object \<Rightarrow> property_value option" where
  [code_defs]: "data_value parse_f64 spec ob =
     (case ob of
        OLiteral lexical _ _ \<Rightarrow> Some (literal_value parse_f64 (dp_datatype spec) lexical)
      | OIri i \<Rightarrow> if dp_datatype spec = DIri then Some (PIri i) else None
      | OBlank _ \<Rightarrow> None)"

definition project_data ::
    "hasher \<Rightarrow> (string \<Rightarrow> 64 word option) \<Rightarrow> (string, string list) bmap \<Rightarrow> string \<Rightarrow> data_property_spec \<Rightarrow> object \<Rightarrow> ontology \<Rightarrow> ontology" where
  [code_defs]: "project_data H parse_f64 types subj spec ob o' =
     (case data_value parse_f64 spec ob of
        None \<Rightarrow> o'
      | Some v \<Rightarrow>
          (case ensure_node H types subj None o' of
             (None, o') \<Rightarrow> o'
           | (Some i, o') \<Rightarrow>
               (case map_of (o_nodes o') i of
                  Some n \<Rightarrow> upsert_node (node_with_property (dp_local spec) v n) o'
                | None \<Rightarrow> o')))"

definition project_object ::
    "hasher \<Rightarrow> (string, string list) bmap \<Rightarrow> string option \<Rightarrow> string \<Rightarrow> object_property_spec \<Rightarrow> object \<Rightarrow> ontology \<Rightarrow> ontology" where
  [code_defs]: "project_object H types fallback subj spec ob o' =
     (case ob of
        OIri target \<Rightarrow>
          (case ensure_node H types subj None o' of
             (None, o') \<Rightarrow> o'
           | (Some src, o') \<Rightarrow>
               (case ensure_node H types (as_str target) fallback o' of
                  (None, o') \<Rightarrow> o'
                | (Some tgt, o') \<Rightarrow> upsert_edge (edge_between H src (op_local spec) tgt) o'))
      | _ \<Rightarrow> o')"

definition project_triple ::
    "hasher \<Rightarrow> (string \<Rightarrow> 64 word option) \<Rightarrow> vocab_mapping \<Rightarrow> (string, string list) bmap \<Rightarrow> rdf_triple \<Rightarrow> ontology \<Rightarrow> ontology" where
  [code_defs]: "project_triple H parse_f64 m types t o' =
     (if t_predicate t = rdf_type then o'
      else case t_subject t of
             SBlank _ \<Rightarrow> o'
           | SIri subj \<Rightarrow>
               (case find_data m (as_str (t_predicate t)) of
                  Some spec \<Rightarrow> project_data H parse_f64 types (as_str subj) spec (t_object t) o'
                | None \<Rightarrow>
                    (case find_object m (as_str (t_predicate t)) of
                       Some spec \<Rightarrow> project_object H types (vm_default m) (as_str subj) spec (t_object t) o'
                     | None \<Rightarrow> o')))"

definition project_mapping ::
    "hasher \<Rightarrow> (string \<Rightarrow> 64 word option) \<Rightarrow> vocab_mapping \<Rightarrow> rdf_triple list \<Rightarrow> ontology \<Rightarrow> ontology" where
  [code_defs]: "project_mapping H parse_f64 m ts o' =
     (let types = subject_types m ts;
          o' = fold (\<lambda>i o'. snd (ensure_node H types i None o')) (bm_keys types) o'
      in fold (project_triple H parse_f64 m types) ts o')"

section \<open>The importers\<close>

definition FOAF_NS :: string where [code_defs]: "FOAF_NS = ''http://xmlns.com/foaf/0.1/''"
definition SKOS_NS :: string where [code_defs]: "SKOS_NS = ''http://www.w3.org/2004/02/skos/core#''"
definition SCHEMA_NS :: string where [code_defs]: "SCHEMA_NS = ''https://schema.org/''"

definition foaf_mapping :: vocab_mapping where
  [code_defs]: "foaf_mapping =
     \<lparr>vm_classes =
        [\<lparr>cs_iri = ''http://xmlns.com/foaf/0.1/Person'', cs_local = ''Person''\<rparr>,
         \<lparr>cs_iri = ''http://xmlns.com/foaf/0.1/Organization'', cs_local = ''Organization''\<rparr>],
      vm_data =
        [(\<lparr>dp_iri = ''http://xmlns.com/foaf/0.1/name'', dp_local = ''name'', dp_datatype = DString\<rparr>, [''Person'', ''Organization'']),
         (\<lparr>dp_iri = ''http://xmlns.com/foaf/0.1/mbox'', dp_local = ''mbox'', dp_datatype = DIri\<rparr>, [''Person'', ''Organization'']),
         (\<lparr>dp_iri = ''http://xmlns.com/foaf/0.1/homepage'', dp_local = ''homepage'', dp_datatype = DIri\<rparr>,
          [''Person'', ''Organization''])],
      vm_objects =
        [(\<lparr>op_iri = ''http://xmlns.com/foaf/0.1/knows'', op_local = ''knows''\<rparr>, [''Person''], [''Person'']),
         (\<lparr>op_iri = ''http://xmlns.com/foaf/0.1/member'', op_local = ''member''\<rparr>, [''Organization''], [''Person''])],
      vm_default = Some ''Person''\<rparr>"

definition skos_mapping :: vocab_mapping where
  [code_defs]: "skos_mapping =
     \<lparr>vm_classes = [\<lparr>cs_iri = ''http://www.w3.org/2004/02/skos/core#Concept'', cs_local = ''Concept''\<rparr>],
      vm_data =
        [(\<lparr>dp_iri = ''http://www.w3.org/2004/02/skos/core#prefLabel'', dp_local = ''prefLabel'', dp_datatype = DString\<rparr>, [''Concept'']),
         (\<lparr>dp_iri = ''http://www.w3.org/2004/02/skos/core#altLabel'', dp_local = ''altLabel'', dp_datatype = DString\<rparr>, [''Concept'']),
         (\<lparr>dp_iri = ''http://www.w3.org/2004/02/skos/core#definition'', dp_local = ''definition'', dp_datatype = DString\<rparr>,
          [''Concept''])],
      vm_objects =
        [(\<lparr>op_iri = ''http://www.w3.org/2004/02/skos/core#broader'', op_local = ''broader''\<rparr>, [''Concept''], [''Concept'']),
         (\<lparr>op_iri = ''http://www.w3.org/2004/02/skos/core#narrower'', op_local = ''narrower''\<rparr>, [''Concept''], [''Concept'']),
         (\<lparr>op_iri = ''http://www.w3.org/2004/02/skos/core#related'', op_local = ''related''\<rparr>, [''Concept''], [''Concept''])],
      vm_default = Some ''Concept''\<rparr>"

definition schema_org_mapping :: vocab_mapping where
  [code_defs]: "schema_org_mapping =
     \<lparr>vm_classes =
        [\<lparr>cs_iri = ''https://schema.org/Organization'', cs_local = ''Organization''\<rparr>,
         \<lparr>cs_iri = ''https://schema.org/Person'', cs_local = ''Person''\<rparr>,
         \<lparr>cs_iri = ''https://schema.org/WebSite'', cs_local = ''WebSite''\<rparr>,
         \<lparr>cs_iri = ''https://schema.org/Place'', cs_local = ''Place''\<rparr>],
      vm_data =
        [(\<lparr>dp_iri = ''https://schema.org/name'', dp_local = ''name'', dp_datatype = DString\<rparr>,
          [''Organization'', ''Person'', ''WebSite'', ''Place'']),
         (\<lparr>dp_iri = ''https://schema.org/url'', dp_local = ''url'', dp_datatype = DIri\<rparr>,
          [''Organization'', ''Person'', ''WebSite'', ''Place'']),
         (\<lparr>dp_iri = ''https://schema.org/address'', dp_local = ''address'', dp_datatype = DString\<rparr>,
          [''Organization'', ''Person'', ''Place''])],
      vm_objects =
        [(\<lparr>op_iri = ''https://schema.org/memberOf'', op_local = ''memberOf''\<rparr>, [''Person'', ''Organization''], [''Organization'']),
         (\<lparr>op_iri = ''https://schema.org/worksFor'', op_local = ''worksFor''\<rparr>, [''Person''], [''Organization''])],
      vm_default = Some ''Organization''\<rparr>"

definition import_activity :: "prov_id \<Rightarrow> int \<Rightarrow> string \<Rightarrow> string \<Rightarrow> string \<Rightarrow> activity" where
  [code_defs]: "import_activity fresh now label ns format =
     activity_with_attribute ''format'' (JString format)
       (activity_with_attribute ''vocabulary'' (JString ns) (activity_started fresh now label))"

text \<open>\<open>fresh\<close>, \<open>now\<close> and \<open>later\<close>: the activity's new id and the two clock readings.\<close>

definition import_foaf ::
    "hasher \<Rightarrow> (string \<Rightarrow> 64 word option) \<Rightarrow> prov_id \<Rightarrow> int \<Rightarrow> int \<Rightarrow> string \<Rightarrow> ttl_error + ontology \<times> activity" where
  [code_defs]: "import_foaf H parse_f64 fresh now later input =
     (let a = import_activity fresh now ''foaf-import'' FOAF_NS ''turtle''
      in case ttl_parse input of
           Inl e \<Rightarrow> Inl e
         | Inr ts \<Rightarrow> Inr (project_mapping H parse_f64 foaf_mapping ts (declare_mapping foaf_mapping), activity_finish later a))"

definition mirror_node :: "node_id \<Rightarrow> ontology \<Rightarrow> ontology" where
  [code_defs]: "mirror_node i o' =
     (case map_of (o_nodes o') i of
        None \<Rightarrow> o'
      | Some n \<Rightarrow>
          if \<not> has_type n ''Concept'' then o'
          else if node_property n ''name'' \<noteq> None then o'
          else (case node_property n ''prefLabel'' of
                  Some (PString l) \<Rightarrow> upsert_node (node_with_property ''name'' (PString l) n) o'
                | _ \<Rightarrow> o'))"

definition mirror_pref_label_as_name :: "ontology \<Rightarrow> ontology" where
  [code_defs]: "mirror_pref_label_as_name o' = fold mirror_node (bm_keys (o_nodes o')) o'"

definition import_skos ::
    "hasher \<Rightarrow> (string \<Rightarrow> 64 word option) \<Rightarrow> prov_id \<Rightarrow> int \<Rightarrow> int \<Rightarrow> string \<Rightarrow> ttl_error + ontology \<times> activity" where
  [code_defs]: "import_skos H parse_f64 fresh now later input =
     (let a = import_activity fresh now ''skos-import'' SKOS_NS ''turtle''
      in case ttl_parse input of
           Inl e \<Rightarrow> Inl e
         | Inr ts \<Rightarrow>
             Inr (mirror_pref_label_as_name (project_mapping H parse_f64 skos_mapping ts (declare_mapping skos_mapping)),
                  activity_finish later a))"

definition import_schema_org ::
    "hasher \<Rightarrow> (string \<Rightarrow> 64 word option) \<Rightarrow> (json \<Rightarrow> string) \<Rightarrow> (string \<Rightarrow> string + json) \<Rightarrow> prov_id \<Rightarrow> int \<Rightarrow> int \<Rightarrow> string \<Rightarrow>
       string + ontology \<times> activity" where
  [code_defs]: "import_schema_org H parse_f64 compact read_json fresh now later input =
     (let a = import_activity fresh now ''schema-org-import'' SCHEMA_NS ''json-ld''
      in case jl_parse compact read_json input of
           Inl e \<Rightarrow> Inl e
         | Inr ts \<Rightarrow>
             Inr (project_mapping H parse_f64 schema_org_mapping ts (declare_mapping schema_org_mapping), activity_finish later a))"

section \<open>Which subjects have a type\<close>

definition typed_as :: "vocab_mapping \<Rightarrow> rdf_triple list \<Rightarrow> string \<Rightarrow> bool" where
  "typed_as m ts i \<longleftrightarrow> (\<exists>t \<in> set ts. \<exists>c. t_subject t = SIri (Iri i) \<and> t_object t = OIri c \<and> as_str c \<in> cs_iri ` set (vm_classes m))"

lemma find_class_None: "find_class m i = None \<longleftrightarrow> i \<notin> cs_iri ` set (vm_classes m)"
  by (auto simp: find_class_def find_None_iff)

lemma note_type_typed:
  assumes "t_subject t = SIri (Iri s)" "t_object t = OIri c" "find_class m (as_str c) = Some cl"
  shows "\<exists>e. e \<noteq> [] \<and> note_type m t types = bm_insert s e types"
proof -
  have "as_str c \<in> cs_iri ` set (vm_classes m)" using assms(3) find_class_None [of m "as_str c"] by auto
  then have "list_ex (\<lambda>c'. cs_iri c' = as_str c) (vm_classes m)" by (auto simp: list_ex_iff)
  moreover have "(if list_ex (\<lambda>l. l = cs_local cl) e then e else e @ [cs_local cl]) \<noteq> []" for e
    by (cases e) auto
  moreover have "list_ex (\<lambda>l. l = cs_local cl) e \<Longrightarrow> e \<noteq> []" for e by auto
  ultimately show ?thesis using assms by (auto simp: note_type_def Let_def)
qed

definition type_triple :: "vocab_mapping \<Rightarrow> rdf_triple \<Rightarrow> string \<Rightarrow> bool" where
  "type_triple m t i \<longleftrightarrow> t_subject t = SIri (Iri i) \<and> (\<exists>c. t_object t = OIri c \<and> as_str c \<in> cs_iri ` set (vm_classes m))"

lemma note_type_other: "(\<And>i. \<not> type_triple m t i) \<Longrightarrow> note_type m t types = types"
proof -
  assume no: "\<And>i. \<not> type_triple m t i"
  show ?thesis
  proof (cases "t_subject t")
    case (SIri subj)
    obtain s where s: "subj = Iri s" by (cases subj)
    show ?thesis
    proof (cases "t_object t")
      case (OIri c)
      with no [of s] SIri s have "as_str c \<notin> cs_iri ` set (vm_classes m)" by (auto simp: type_triple_def)
      with SIri OIri find_class_None [of m "as_str c"] show ?thesis by (simp add: note_type_def)
    qed (simp_all add: SIri note_type_def)
  qed (simp add: note_type_def)
qed

lemma subject_types_fold:
  "bm_wf types \<Longrightarrow> \<forall>i. map_of types i \<noteq> Some [] \<Longrightarrow>
     bm_wf (fold (note_type m) ts types) \<and> (\<forall>i. map_of (fold (note_type m) ts types) i \<noteq> Some []) \<and>
     fst ` set (fold (note_type m) ts types) = fst ` set types \<union> {i. \<exists>t \<in> set ts. type_triple m t i}"
proof (induction ts arbitrary: types)
  case (Cons t ts)
  show ?case
  proof (cases "\<exists>i. type_triple m t i")
    case True
    then obtain i c where i: "t_subject t = SIri (Iri i)" "t_object t = OIri c" "as_str c \<in> cs_iri ` set (vm_classes m)"
      by (auto simp: type_triple_def)
    then obtain cl where "find_class m (as_str c) = Some cl" using find_class_None [of m "as_str c"] by fastforce
    from note_type_typed [OF i(1,2) this] obtain e where e: "e \<noteq> []" "note_type m t types = bm_insert i e types" by blast
    have "{j. type_triple m t j} = {i}" using i by (auto simp: type_triple_def)
    with Cons.IH [of "bm_insert i e types"] Cons.prems e show ?thesis by auto
  next
    case False
    with Cons.IH [of types] Cons.prems note_type_other [of m t types] show ?thesis by simp
  qed
qed simp

lemma subject_types_typed:
  "map_of (subject_types m ts) i \<noteq> Some []" "map_of (subject_types m ts) i = None \<longleftrightarrow> \<not> typed_as m ts i"
  "set (bm_keys (subject_types m ts)) = {i. typed_as m ts i}"
proof -
  have "typed_as m ts i \<longleftrightarrow> (\<exists>t \<in> set ts. type_triple m t i)" for i by (auto simp: typed_as_def type_triple_def)
  with subject_types_fold [of "[]" m ts] show "map_of (subject_types m ts) i \<noteq> Some []"
    "map_of (subject_types m ts) i = None \<longleftrightarrow> \<not> typed_as m ts i" "set (bm_keys (subject_types m ts)) = {i. typed_as m ts i}"
    by (simp_all add: subject_types_def map_of_eq_None_iff bm_keys_def)
qed

section \<open>What one triple does\<close>

definition node_addr :: "hasher \<Rightarrow> string \<Rightarrow> node_id" where
  "node_addr H i = node_id_content_address H (str_bytes i)"

definition link_edge :: "hasher \<Rightarrow> string \<times> string \<times> string \<Rightarrow> edge" where
  "link_edge H x = (case x of (s, l, d) \<Rightarrow> edge_between H (node_addr H s) l (node_addr H d))"

text \<open>The state of the import: well-formed, with these node ids, and one of these links for every edge.\<close>

definition import_state :: "hasher \<Rightarrow> ontology \<Rightarrow> node_id set \<Rightarrow> (string \<times> string \<times> string) set \<Rightarrow> bool" where
  "import_state H o' N L \<longleftrightarrow> ont_wf o' \<and> fst ` set (o_nodes o') = N \<and> fst ` set (o_edges o') = (\<lambda>x. e_id (link_edge H x)) ` L \<and>
     set (bm_values (o_edges o')) \<subseteq> link_edge H ` L"

lemma upsert_maps:
  "o_nodes (upsert_node n o') = bm_insert (n_id n) n (o_nodes o')" "o_edges (upsert_node n o') = o_edges o'"
  "o_nodes (upsert_edge e o') = o_nodes o'" "o_edges (upsert_edge e o') = bm_insert (e_id e) e (o_edges o')"
  by (simp_all add: upsert_node_def upsert_edge_def)

lemma import_state_node: "import_state H o' N L \<Longrightarrow> import_state H (upsert_node n o') (insert (n_id n) N) L"
  unfolding import_state_def by (simp add: upsert_maps)

lemma import_state_edge:
  assumes "import_state H o' N L"
  shows "import_state H (upsert_edge (link_edge H x) o') N (insert x L)"
proof -
  have "set (bm_values (o_edges (upsert_edge (link_edge H x) o'))) \<subseteq> insert (link_edge H x) (set (bm_values (o_edges o')))"
    using bm_set_insert_subset [of "e_id (link_edge H x)" "link_edge H x" "o_edges o'"] by (fastforce simp: upsert_maps bm_values_def)
  with assms show ?thesis unfolding import_state_def by (auto simp: upsert_maps)
qed

lemma merge_types_id [simp]: "n_id (merge_types a b) = n_id a"
  by (simp add: merge_types_def)

lemma fold_label_id [simp]: "n_id (fold node_with_label ls n) = n_id n"
  by (induction ls arbitrary: n) (simp_all add: node_with_label_def)

lemma ensure_node_state:
  assumes "import_state H o' N L" "map_of types i \<noteq> Some []"
  shows "if map_of types i = None \<and> fallback = None then ensure_node H types i fallback o' = (None, o')
    else \<exists>o''. ensure_node H types i fallback o' = (Some (node_addr H i), o'') \<and> import_state H o'' (insert (node_addr H i) N) L"
proof (cases "map_of types i = None \<and> fallback = None")
  case True
  then show ?thesis by (simp add: ensure_node_def)
next
  case False
  then obtain l where l: "(case map_of types i of Some (l # ls) \<Rightarrow> Some l | _ \<Rightarrow> fallback) = Some l"
    using assms(2) by (cases "map_of types i") (auto simp: neq_Nil_conv)
  define n where "n = (case map_of types i of
      Some all_labels \<Rightarrow> fold node_with_label (drop 1 all_labels) (node_from_iri H (Iri i) l) | None \<Rightarrow> node_from_iri H (Iri i) l)"
  have id: "n_id n = node_addr H i"
    by (cases "map_of types i") (simp_all add: n_def node_from_iri_def node_addr_def)
  have eq: "ensure_node H types i fallback o' =
      (case map_of (o_nodes o') (n_id n) of
         Some existing \<Rightarrow> (let merged = merge_types existing n in (Some (n_id merged), upsert_node merged o'))
       | None \<Rightarrow> (Some (n_id n), upsert_node n o'))"
    by (simp only: ensure_node_def Let_def l option.case n_def)
  show ?thesis
  proof (cases "map_of (o_nodes o') (n_id n)")
    case None
    with False eq id import_state_node [OF assms(1), of n] show ?thesis by auto
  next
    case (Some ex)
    have "n_id ex = n_id n" using assms(1) map_of_SomeD [OF Some] by (auto simp: import_state_def ont_wf_def)
    with Some False eq id import_state_node [OF assms(1), of "merge_types ex n"] show ?thesis by auto
  qed
qed


lemma ensure_node_typed:
  assumes "import_state H o' N L" "map_of types i \<noteq> Some []" "map_of types i \<noteq> None \<or> fallback \<noteq> None"
  obtains o'' where "ensure_node H types i fallback o' = (Some (node_addr H i), o'')" "import_state H o'' (insert (node_addr H i) N) L"
  using ensure_node_state [OF assms(1,2), of fallback] assms(3) by auto

lemma ensure_node_untyped: "map_of types i = None \<Longrightarrow> ensure_node H types i None o' = (None, o')"
  by (simp add: ensure_node_def)

lemma project_data_state:
  assumes st: "import_state H o' N L" and ne: "map_of types s \<noteq> Some []" and sub: "map_of types s \<noteq> None \<Longrightarrow> node_addr H s \<in> N"
  shows "import_state H (project_data H parse_f64 types s spec ob o') N L"
proof (cases "data_value parse_f64 spec ob")
  case (Some v)
  note v = this
  show ?thesis
  proof (cases "map_of types s")
    case None
    then show ?thesis using v st by (simp add: project_data_def ensure_node_untyped)
  next
    case (Some ls)
    then obtain o'' where o'': "ensure_node H types s None o' = (Some (node_addr H s), o'')"
        "import_state H o'' (insert (node_addr H s) N) L"
      using ensure_node_typed [OF st ne] by blast
    have N: "insert (node_addr H s) N = N" using sub Some by auto
    show ?thesis
    proof (cases "map_of (o_nodes o'') (node_addr H s)")
      case None
      then show ?thesis using o'' N v by (simp add: project_data_def)
    next
      case (Some n)
      have "n_id n = node_addr H s" using o''(2) map_of_SomeD [OF Some] by (auto simp: import_state_def ont_wf_def)
      then have "n_id (node_with_property (dp_local spec) v n) = node_addr H s" by (simp add: node_with_property_def)
      with import_state_node [OF o''(2), of "node_with_property (dp_local spec) v n"] o'' N v Some
      show ?thesis by (simp add: project_data_def)
    qed
  qed
qed (simp add: project_data_def st)

text \<open>The edge a triple asks for: its predicate is an object property, its subject has a type, and its
  object has one or takes the mapping's default.\<close>

definition link_of :: "vocab_mapping \<Rightarrow> rdf_triple list \<Rightarrow> rdf_triple \<Rightarrow> (string \<times> string \<times> string) option" where
  "link_of m ts t =
     (case (t_subject t, t_object t, find_object m (as_str (t_predicate t))) of
        (SIri s, OIri d, Some spec) \<Rightarrow>
          if t_predicate t \<noteq> rdf_type \<and> find_data m (as_str (t_predicate t)) = None \<and> typed_as m ts (as_str s) \<and>
             (typed_as m ts (as_str d) \<or> vm_default m \<noteq> None)
          then Some (as_str s, op_local spec, as_str d) else None
      | _ \<Rightarrow> None)"

definition links :: "vocab_mapping \<Rightarrow> rdf_triple list \<Rightarrow> (string \<times> string \<times> string) set" where
  "links m ts = {x. \<exists>t \<in> set ts. link_of m ts t = Some x}"

lemma project_triple_state:
  assumes st: "import_state H o' N L" and typed: "\<And>i. typed_as m ts i \<Longrightarrow> node_addr H i \<in> N"
  shows "import_state H (project_triple H parse_f64 m (subject_types m ts) t o')
           (N \<union> (\<lambda>x. node_addr H (snd (snd x))) ` set_option (link_of m ts t)) (L \<union> set_option (link_of m ts t))"
proof (cases "t_predicate t = rdf_type")
  case True
  then have "link_of m ts t = None" by (auto simp: link_of_def split: subject.split object.split option.split)
  then show ?thesis using True st by (simp add: project_triple_def)
next
  case np: False
  let ?T = "subject_types m ts"
  note ty = subject_types_typed [of m ts]
  have sub: "map_of ?T i \<noteq> None \<Longrightarrow> node_addr H i \<in> N" for i using ty(2) typed by auto
  show ?thesis
  proof (cases "t_subject t")
    case (SBlank b)
    then show ?thesis using st np by (simp add: project_triple_def link_of_def)
  next
    case (SIri subj)
    show ?thesis
    proof (cases "find_data m (as_str (t_predicate t))")
      case (Some spec)
      then have "link_of m ts t = None" by (auto simp: link_of_def split: subject.split object.split option.split)
      then show ?thesis using Some SIri np project_data_state [OF st ty(1) sub] by (simp add: project_triple_def)
    next
      case nd: None
      show ?thesis
      proof (cases "find_object m (as_str (t_predicate t))")
        case None
        then show ?thesis using nd SIri np st by (auto simp: project_triple_def link_of_def split: object.split)
      next
        case (Some spec)
        note run = np SIri nd Some
        show ?thesis
        proof (cases "t_object t")
          case (OIri d)
          note run = run OIri
          show ?thesis
          proof (cases "typed_as m ts (as_str subj)")
            case False
            then show ?thesis using run st ty(2) by (simp add: project_triple_def project_object_def link_of_def ensure_node_untyped)
          next
            case True
            then have "map_of ?T (as_str subj) \<noteq> None" using ty(2) by auto
            with ensure_node_typed [OF st ty(1)] obtain o1 where
              o1: "ensure_node H ?T (as_str subj) None o' = (Some (node_addr H (as_str subj)), o1)"
                  "import_state H o1 (insert (node_addr H (as_str subj)) N) L" by blast
            have s: "insert (node_addr H (as_str subj)) N = N" using typed [OF True] by auto
            show ?thesis
            proof (cases "typed_as m ts (as_str d) \<or> vm_default m \<noteq> None")
              case False
              then have "map_of ?T (as_str d) = None" "vm_default m = None" using ty(2) by auto
              then show ?thesis using run o1 s True False
                by (simp add: project_triple_def project_object_def link_of_def ensure_node_untyped)
            next
              case l: True
              then have "map_of ?T (as_str d) \<noteq> None \<or> vm_default m \<noteq> None" using ty(2) by auto
              with ensure_node_typed [OF o1(2) ty(1), of "as_str d" "vm_default m"] obtain o2 where
                o2: "ensure_node H ?T (as_str d) (vm_default m) o1 = (Some (node_addr H (as_str d)), o2)"
                    "import_state H o2 (insert (node_addr H (as_str d)) N) L" unfolding s by blast
              have "project_triple H parse_f64 m ?T t o' = upsert_edge (link_edge H (as_str subj, op_local spec, as_str d)) o2"
                using run o1(1) o2(1) by (simp add: project_triple_def project_object_def link_edge_def)
              moreover have "link_of m ts t = Some (as_str subj, op_local spec, as_str d)"
                using run True l by (simp add: link_of_def)
              ultimately show ?thesis using import_state_edge [OF o2(2)] by simp
            qed
          qed
        qed (use run st in \<open>simp_all add: project_triple_def project_object_def link_of_def\<close>)
      qed
    qed
  qed
qed


lemma project_triples_state:
  assumes "import_state H o' N L" "\<And>i. typed_as m ts i \<Longrightarrow> node_addr H i \<in> N"
  shows "import_state H (fold (project_triple H parse_f64 m (subject_types m ts)) us o')
           (N \<union> (\<lambda>x. node_addr H (snd (snd x))) ` {x. \<exists>t \<in> set us. link_of m ts t = Some x})
           (L \<union> {x. \<exists>t \<in> set us. link_of m ts t = Some x})"
  using assms
proof (induction us arbitrary: o' N L)
  case (Cons t us)
  have eqs: "{x. \<exists>t' \<in> set (t # us). link_of m ts t' = Some x} = set_option (link_of m ts t) \<union> {x. \<exists>t' \<in> set us. link_of m ts t' = Some x}"
    by auto
  note st = project_triple_state [OF Cons.prems(1) Cons.prems(2), where t = t]
  show ?case unfolding eqs image_Un using Cons.IH [OF st] Cons.prems(2) by (simp add: Un_assoc)
qed simp

lemma ensure_nodes_state:
  assumes "import_state H o' N L" "\<And>i. i \<in> set is \<Longrightarrow> typed_as m ts i"
  shows "import_state H (fold (\<lambda>i o'. snd (ensure_node H (subject_types m ts) i None o')) is o') (N \<union> node_addr H ` set is) L"
  using assms
proof (induction "is" arbitrary: o' N)
  case (Cons i "is")
  then have "map_of (subject_types m ts) i \<noteq> None" using subject_types_typed(2) [of m ts i] by auto
  with ensure_node_typed [OF Cons.prems(1) subject_types_typed(1) [of m ts i]] obtain o'' where
    "ensure_node H (subject_types m ts) i None o' = (Some (node_addr H i), o'')" "import_state H o'' (insert (node_addr H i) N) L"
    by blast
  with Cons.IH [of o'' "insert (node_addr H i) N"] Cons.prems(2) show ?case by simp
qed simp

lemma fold_declare_node_type_wf: "schema_wf s \<Longrightarrow> schema_wf (fold (\<lambda>x. declare_node_type (f x)) xs s)"
  by (induction xs arbitrary: s) (simp_all add: schema_wf_declare_node_type)

lemma fold_declare_edge_type_wf: "schema_wf s \<Longrightarrow> schema_wf (fold (\<lambda>x. declare_edge_type (f x)) xs s)"
  by (induction xs arbitrary: s) (simp_all add: schema_wf_declare_edge_type)

lemma fold_declare_class_wf: "schema_wf (snd x) \<Longrightarrow> schema_wf (snd (fold declare_class cs x))"
proof (induction cs arbitrary: x)
  case (Cons c cs)
  then have "schema_wf (snd (declare_class c x))" by (auto simp: declare_class_def Let_def schema_wf_declare_node_type split: prod.split)
  then show ?case by (simp add: Cons.IH)
qed simp

lemma declare_mapping_state: "import_state H (declare_mapping m) {} {}"
proof (cases "fold declare_class (vm_classes m) (props_by_class m, schema_new)")
  case (Pair r s)
  then have "schema_wf s" using fold_declare_class_wf [of "(props_by_class m, schema_new)" "vm_classes m"]
    by (simp add: schema_new_def schema_wf_def)
  then show ?thesis
    by (simp add: import_state_def declare_mapping_def Pair Let_def ontology_new_def ont_wf_def bm_wf_def bm_keys_def
        bm_values_def case_prod_unfold fold_declare_node_type_wf fold_declare_edge_type_wf)
qed

lemma project_mapping_state:
  "import_state H (project_mapping H parse_f64 m ts (declare_mapping m))
     (node_addr H ` ({i. typed_as m ts i} \<union> (\<lambda>x. snd (snd x)) ` links m ts)) (links m ts)"
proof -
  let ?T = "subject_types m ts"
  let ?o = "fold (\<lambda>i o'. snd (ensure_node H ?T i None o')) (bm_keys ?T) (declare_mapping m)"
  have "import_state H ?o ({} \<union> node_addr H ` set (bm_keys ?T)) {}"
    by (rule ensure_nodes_state [OF declare_mapping_state]) (simp add: subject_types_typed(3))
  then have "import_state H ?o (node_addr H ` {i. typed_as m ts i}) {}" by (simp add: subject_types_typed(3))
  from project_triples_state [OF this, of m ts parse_f64 ts] show ?thesis
    by (simp add: project_mapping_def Let_def links_def image_Un image_image)
qed

section \<open>Properties\<close>

lemma link_of_typed: "link_of m ts t = Some x \<Longrightarrow> typed_as m ts (fst x)"
proof (cases "t_subject t"; cases "t_object t"; cases "find_object m (as_str (t_predicate t))")
qed (auto simp: link_of_def split: if_splits)

text \<open>C11: An import builds exactly the described graph. Its nodes are the subjects typed with a class of
  the mapping and the targets of their links; its edges are those links, labelled with the property's local
  name; every edge runs between nodes of the ontology, and the ontology is well-formed.\<close>

theorem import_graph:
  "ont_wf (project_mapping H parse_f64 m ts (declare_mapping m)) \<and>
   fst ` set (o_nodes (project_mapping H parse_f64 m ts (declare_mapping m))) =
     node_addr H ` ({i. typed_as m ts i} \<union> {d. \<exists>s l. (s, l, d) \<in> links m ts}) \<and>
   fst ` set (o_edges (project_mapping H parse_f64 m ts (declare_mapping m))) = (\<lambda>x. e_id (link_edge H x)) ` links m ts \<and>
   set (bm_values (o_edges (project_mapping H parse_f64 m ts (declare_mapping m)))) \<subseteq> link_edge H ` links m ts \<and>
   e_source ` link_edge H ` links m ts \<union> e_target ` link_edge H ` links m ts \<subseteq>
     fst ` set (o_nodes (project_mapping H parse_f64 m ts (declare_mapping m)))"
proof -
  have d: "(\<lambda>x. snd (snd x)) ` links m ts = {d. \<exists>s l. (s, l, d) \<in> links m ts}" by force
  have "typed_as m ts s" if "(s, l, d) \<in> links m ts" for s l d
    using that link_of_typed by (fastforce simp: links_def)
  then have "e_source ` link_edge H ` links m ts \<union> e_target ` link_edge H ` links m ts \<subseteq>
      node_addr H ` ({i. typed_as m ts i} \<union> {d. \<exists>s l. (s, l, d) \<in> links m ts})"
    by (fastforce simp: link_edge_def edge_between_def)
  then show ?thesis using project_mapping_state [of H parse_f64 m ts] unfolding d import_state_def by simp
qed

lemma mirror_node_wf: "ont_wf o' \<Longrightarrow> ont_wf (mirror_node i o')"
  by (simp add: mirror_node_def split: option.split property_value.split)

text \<open>The node a concept becomes: its preferred label is also its name, unless it has one.\<close>

definition named_by_label :: "node \<Rightarrow> node" where
  "named_by_label n =
     (case node_property n ''prefLabel'' of
        Some (PString l) \<Rightarrow>
          if has_type n ''Concept'' \<and> node_property n ''name'' = None then node_with_property ''name'' (PString l) n else n
      | _ \<Rightarrow> n)"

lemma named_by_label_id [simp]: "n_id (named_by_label n) = n_id n"
  by (simp add: named_by_label_def node_with_property_def split: option.split property_value.split)

lemma named_by_label_idem [simp]: "named_by_label (named_by_label n) = named_by_label n"
  by (auto simp: named_by_label_def node_with_property_def node_property_def bm_get_insert split: option.splits property_value.splits)

lemma mirror_node_nodes:
  assumes "ont_wf o'"
  shows "map_of (o_nodes (mirror_node i o')) j =
     (if j = i then map_option named_by_label (map_of (o_nodes o') j) else map_of (o_nodes o') j)"
proof (cases "map_of (o_nodes o') i")
  case (Some n)
  then have "n_id n = i" using assms map_of_SomeD [OF Some] by (auto simp: ont_wf_def)
  then show ?thesis using Some
    by (auto simp: mirror_node_def named_by_label_def upsert_maps bm_get_insert node_with_property_def
        split: option.split property_value.split)
qed (simp add: mirror_node_def)

lemma mirror_fold_nodes:
  "ont_wf o' \<Longrightarrow> map_of (o_nodes (fold mirror_node is o')) j =
     (if j \<in> set is then map_option named_by_label (map_of (o_nodes o') j) else map_of (o_nodes o') j)"
  by (induction "is" arbitrary: o') (auto simp: mirror_node_wf mirror_node_nodes option.map_comp o_def)

text \<open>After a SKOS import every concept that has a preferred label and no name of its own carries the
  label as its name; no other node changes, and none is added or lost.\<close>

theorem skos_names:
  assumes "ont_wf o'"
  shows "map_of (o_nodes (mirror_pref_label_as_name o')) i = map_option named_by_label (map_of (o_nodes o') i)"
  using mirror_fold_nodes [OF assms, of "bm_keys (o_nodes o')" i]
  by (auto simp: mirror_pref_label_as_name_def bm_keys_def map_of_eq_None_iff split: if_splits)
    (metis map_of_eq_None_iff option.map(1) list.set_map)

definition skos_sample :: "ontology" where
  "skos_sample = upsert_node (node_with_property ''prefLabel'' (PString ''cat'') (node_from_iri (\<lambda>_ b. b) (Iri ''urn:c'') ''Concept''))
     ontology_new"

lemma skos_names_witness:
  "map_option (\<lambda>n. node_property n ''name'')
      (map_of (o_nodes (mirror_pref_label_as_name skos_sample)) (node_id_content_address (\<lambda>_ b. b) (str_bytes ''urn:c''))) =
     Some (Some (PString ''cat''))"
proof -
  have "ont_wf skos_sample" by (simp add: skos_sample_def ont_wf_new)
  note nm = skos_names [OF this]
  show ?thesis unfolding nm by code_simp
qed

end
