(* ===== verification/Shacl_Compile.thy ===== *)
theory Shacl_Compile
  imports Rdf_Turtle
begin

text \<open>
  \<open>crates/atomr-ontology-shacl/src/ns.rs\<close> and \<open>compile.rs\<close>: SHACL shapes in Turtle for the node types of a
  schema. Pushing onto the output string is appending; the counter of blank labels is a 64-bit word.
\<close>

section \<open>Namespaces\<close>

definition SH_URI :: string where [code_defs]: "SH_URI = ''http://www.w3.org/ns/shacl#''"
definition SH_PREFIX :: string where [code_defs]: "SH_PREFIX = ''sh''"
definition XSD_URI :: string where [code_defs]: "XSD_URI = ''http://www.w3.org/2001/XMLSchema#''"
definition XSD_PREFIX :: string where [code_defs]: "XSD_PREFIX = ''xsd''"

definition shacl_iri :: "string \<Rightarrow> iri" where
  [code_defs]: "shacl_iri l = Iri (SH_URI @ l)"

definition xsd_iri :: "string \<Rightarrow> iri" where
  [code_defs]: "xsd_iri l = Iri (XSD_URI @ l)"

section \<open>Terms\<close>

definition push_prefix :: "string \<Rightarrow> string \<Rightarrow> string" where
  [code_defs]: "push_prefix prefix base = ''@prefix '' @ prefix @ '': <'' @ base @ ''> .'' @ [CHR 0x0A]"

definition is_simple_local :: "string \<Rightarrow> bool" where
  [code_defs]: "is_simple_local s \<longleftrightarrow>
     s \<noteq> [] \<and> CHR '' '' \<notin> set s \<and> CHR ''/'' \<notin> set s \<and> CHR ''#'' \<notin> set s \<and> CHR ''<'' \<notin> set s \<and> CHR ''>'' \<notin> set s"

definition strip_prefix :: "string \<Rightarrow> string \<Rightarrow> string option" where
  [code_defs]: "strip_prefix p s = (if take (length p) s = p then Some (drop (length p) s) else None)"

definition simple_local :: "string \<Rightarrow> string \<Rightarrow> string option" where
  [code_defs]: "simple_local base s =
     (case strip_prefix base s of Some l \<Rightarrow> if is_simple_local l then Some l else None | None \<Rightarrow> None)"

definition push_iri_term :: "iri \<Rightarrow> string" where
  [code_defs]: "push_iri_term i =
     (case simple_local SH_URI (as_str i) of
        Some l \<Rightarrow> SH_PREFIX @ '':'' @ l
      | None \<Rightarrow>
          (case simple_local XSD_URI (as_str i) of
             Some l \<Rightarrow> XSD_PREFIX @ '':'' @ l
           | None \<Rightarrow> ''<'' @ as_str i @ ''>''))"

definition push_xsd_integer :: "32 word \<Rightarrow> string" where
  [code_defs]: "push_xsd_integer x = [CHR 0x22] @ show_nat (unat x) @ [CHR 0x22] @ ''^^'' @ push_iri_term (xsd_iri ''integer'')"

definition fallback_iri :: "string \<Rightarrow> iri" where
  [code_defs]: "fallback_iri name = Iri (''urn:atomr:shacl:'' @ name)"

definition or_fallback :: "iri option \<Rightarrow> string \<Rightarrow> iri" where
  [code_defs]: "or_fallback i name = (case i of Some i \<Rightarrow> i | None \<Rightarrow> fallback_iri name)"

definition type_iri :: "node_type \<Rightarrow> iri" where
  [code_defs]: "type_iri ty = or_fallback (nt_iri ty) (nt_name ty)"

definition shape_iri_for :: "node_type \<Rightarrow> iri" where
  [code_defs]: "shape_iri_for ty = Iri (as_str (or_fallback (nt_iri ty) (nt_name ty)) @ ''Shape'')"

definition property_path_iri :: "property_type \<Rightarrow> iri" where
  [code_defs]: "property_path_iri p = or_fallback (pt_iri p) (pt_name p)"

definition edge_path_iri :: "edge_type \<Rightarrow> iri" where
  [code_defs]: "edge_path_iri e = or_fallback (et_iri e) (et_name e)"

definition xsd_for_datatype :: "datatype_tag \<Rightarrow> iri" where
  [code_defs]: "xsd_for_datatype d = xsd_iri (case d of
       DString \<Rightarrow> ''string'' | DInteger \<Rightarrow> ''integer'' | DFloat \<Rightarrow> ''double'' | DBool \<Rightarrow> ''boolean''
     | DDateTime \<Rightarrow> ''dateTime'' | DIri \<Rightarrow> ''anyURI'' | DBytes \<Rightarrow> ''base64Binary'' | DJson \<Rightarrow> ''string'')"

definition next_blank :: "64 word \<Rightarrow> string \<times> 64 word" where
  [code_defs]: "next_blank n = (''b'' @ show_nat (unat n), n + 1)"

section \<open>Blocks and shapes\<close>

definition next_line :: string where [code_defs]: "next_line = '' ;'' @ [CHR 0x0A] @ ''  ''"

definition push_counts :: "cardinality \<Rightarrow> string" where
  [code_defs]: "push_counts c =
     (if card_min c > 0 then next_line @ push_iri_term (shacl_iri ''minCount'') @ '' '' @ push_xsd_integer (card_min c) else []) @
     (case card_max c of
        Some m \<Rightarrow> next_line @ push_iri_term (shacl_iri ''maxCount'') @ '' '' @ push_xsd_integer m
      | None \<Rightarrow> [])"

definition render_property_block :: "string \<Rightarrow> property_type \<Rightarrow> string" where
  [code_defs]: "render_property_block l p =
     ''_:'' @ l @ '' '' @ push_iri_term (shacl_iri ''path'') @ '' '' @ push_iri_term (property_path_iri p) @
     push_counts (pt_card p) @
     next_line @ push_iri_term (shacl_iri ''datatype'') @ '' '' @ push_iri_term (xsd_for_datatype (pt_datatype p)) @
     '' .'' @ [CHR 0x0A]"

definition target_iri :: "schema \<Rightarrow> string \<Rightarrow> iri" where
  [code_defs]: "target_iri s name =
     (case (case node_type s name of Some nt \<Rightarrow> nt_iri nt | None \<Rightarrow> None) of Some i \<Rightarrow> i | None \<Rightarrow> fallback_iri name)"

definition render_edge_block :: "string \<Rightarrow> schema \<Rightarrow> edge_type \<Rightarrow> string" where
  [code_defs]: "render_edge_block l s e =
     ''_:'' @ l @ '' '' @ push_iri_term (shacl_iri ''path'') @ '' '' @ push_iri_term (edge_path_iri e) @
     push_counts (et_card e) @
     next_line @ push_iri_term (shacl_iri ''nodeKind'') @ '' '' @ push_iri_term (shacl_iri ''IRI'') @
     concat (map (\<lambda>t. next_line @ push_iri_term (shacl_iri ''class'') @ '' '' @ push_iri_term (target_iri s t)) (et_range e)) @
     '' .'' @ [CHR 0x0A]"

definition emit_node_shape :: "node_type \<Rightarrow> string list \<Rightarrow> string" where
  [code_defs]: "emit_node_shape ty refs =
     push_iri_term (shape_iri_for ty) @ '' a '' @ push_iri_term (shacl_iri ''NodeShape'') @
     next_line @ push_iri_term (shacl_iri ''targetClass'') @ '' '' @ push_iri_term (type_iri ty) @
     concat (map (\<lambda>l. next_line @ push_iri_term (shacl_iri ''property'') @ '' _:'' @ l) refs) @
     '' .'' @ [CHR 0x0A]"

text \<open>The references, the bodies and the counter while the blocks of a type are collected.\<close>

definition add_block :: "(string \<Rightarrow> string) \<Rightarrow> string list \<times> string list \<times> 64 word \<Rightarrow> string list \<times> string list \<times> 64 word" where
  [code_defs]: "add_block render x =
     (case x of (refs, bodies, n) \<Rightarrow>
        (case next_blank n of (l, n) \<Rightarrow> (refs @ [l], bodies @ [render l], n)))"

definition collect_property_refs :: "schema \<Rightarrow> node_type \<Rightarrow> 64 word \<Rightarrow> string list \<times> string list \<times> 64 word" where
  [code_defs]: "collect_property_refs s ty n =
     fold (\<lambda>e x. if list_ex (\<lambda>d. d = nt_name ty) (et_domain e) then add_block (\<lambda>l. render_edge_block l s e) x else x)
       (bm_values (s_edge_types s))
       (fold (\<lambda>p. add_block (\<lambda>l. render_property_block l p)) (nt_props ty) ([], [], n))"

definition emit_type :: "schema \<Rightarrow> node_type \<Rightarrow> string \<times> 64 word \<Rightarrow> string \<times> 64 word" where
  [code_defs]: "emit_type s ty x =
     (case x of (out, n) \<Rightarrow>
        (case collect_property_refs s ty n of (refs, bodies, n) \<Rightarrow>
           (out @ emit_node_shape ty refs @ concat bodies @ [CHR 0x0A], n)))"

datatype shacl_compile_error = ShaclMissingIri string | ShaclCompileOther string

definition to_shacl_turtle :: "schema \<Rightarrow> shacl_compile_error + string" where
  [code_defs]: "to_shacl_turtle s =
     Inr (fst (fold (emit_type s) (bm_values (s_node_types s))
       (push_prefix SH_PREFIX SH_URI @ push_prefix XSD_PREFIX XSD_URI @ [CHR 0x0A], 0)))"

end
