(* ===== verification/Shacl_Read.thy ===== *)
theory Shacl_Read
  imports Shacl_Compile
begin

text \<open>
  What the Turtle parser makes of the text of \<open>compile.rs\<close>: the triples of \<open>shacl_triples\<close>. A text
  \<open>reads\<close> as triples when the statement loop passes over it and pushes them.
\<close>

section \<open>Terms\<close>

definition shacl_vocab :: vocabulary where
  [code_defs]: "shacl_vocab = [(''sh'', Iri ''http://www.w3.org/ns/shacl#''), (''xsd'', Iri ''http://www.w3.org/2001/XMLSchema#'')]"

definition iri_term_ok :: "iri \<Rightarrow> bool" where
  [code_defs]: "iri_term_ok i \<longleftrightarrow>
     (case simple_local SH_URI (as_str i) of
        Some l \<Rightarrow> ttl_label l
      | None \<Rightarrow> (case simple_local XSD_URI (as_str i) of Some l \<Rightarrow> ttl_label l | None \<Rightarrow> CHR ''>'' \<notin> set (as_str i)))"

lemma simple_local_Some: "simple_local b s = Some l \<Longrightarrow> s = b @ l"
  by (auto simp: simple_local_def strip_prefix_def split: if_splits option.splits) (metis append_take_drop_id)

lemma shacl_prefixes:
  "ttl_prefix_ok ''sh''" "map_of shacl_vocab ''sh'' = Some (Iri ''http://www.w3.org/ns/shacl#'')"
  "ttl_prefix_ok ''xsd''" "map_of shacl_vocab ''xsd'' = Some (Iri ''http://www.w3.org/2001/XMLSchema#'')"
  "plain_char (CHR ''s'')" "plain_char (CHR ''x'')"
  by code_simp+

lemma iri_term_read:
  assumes "iri_term_ok i"
  shows "ttl_term shacl_vocab (push_iri_term i @ CHR '' '' # r) = Inr (TIri i, CHR '' '' # r)"
proof (cases "simple_local SH_URI (as_str i)")
  case (Some l)
  then have "ttl_label l" "as_str i = ''http://www.w3.org/ns/shacl#'' @ l"
    using assms simple_local_Some [OF Some] by (simp_all add: iri_term_ok_def SH_URI_def)
  with Some ttl_term_curie [OF shacl_prefixes(1) _ shacl_prefixes(2), of l r] show ?thesis
    by (cases i) (simp add: push_iri_term_def SH_PREFIX_def)
next
  case sh: None
  show ?thesis
  proof (cases "simple_local XSD_URI (as_str i)")
    case (Some l)
    then have "ttl_label l" "as_str i = ''http://www.w3.org/2001/XMLSchema#'' @ l"
      using assms sh simple_local_Some [OF Some] by (simp_all add: iri_term_ok_def XSD_URI_def)
    with sh Some ttl_term_curie [OF shacl_prefixes(3) _ shacl_prefixes(4), of l r] show ?thesis
      by (cases i) (simp add: push_iri_term_def XSD_PREFIX_def)
  next
    case None
    with sh assms have "CHR ''>'' \<notin> set (as_str i)" by (simp add: iri_term_ok_def)
    with sh None show ?thesis by (cases i) (simp add: push_iri_term_def ttl_term_def split_once_append)
  qed
qed

lemma iri_term_start:
  obtains c s where "push_iri_term i = c # s" "plain_char c" "c \<noteq> CHR ''#''" "c \<noteq> CHR 0x22" "c \<noteq> CHR ''@''" "c \<noteq> CHR ''a''"
proof -
  have "\<exists>c s. push_iri_term i = c # s \<and> c \<in> {CHR ''<'', CHR ''s'', CHR ''x''}"
    by (simp add: push_iri_term_def SH_PREFIX_def XSD_PREFIX_def split: option.split)
  then show ?thesis using that shacl_prefixes(5,6) by auto
qed

section \<open>Predicates and objects\<close>

text \<open>A piece of text that is followed by a space, and what the parser reads there.\<close>

definition reads_predicate :: "string \<Rightarrow> iri \<Rightarrow> bool" where
  "reads_predicate x i \<longleftrightarrow> (\<forall>u. ttl_solid (x @ u)) \<and> (\<forall>r. ttl_predicate shacl_vocab (x @ CHR '' '' # r) = Inr (i, CHR '' '' # r))"

definition reads_object :: "string \<Rightarrow> object \<Rightarrow> bool" where
  "reads_object x ob \<longleftrightarrow> (\<forall>u. ttl_solid (x @ u)) \<and> (\<forall>r. ttl_object shacl_vocab (x @ CHR '' '' # r) = Inr (ob, CHR '' '' # r))"

definition reads_subject :: "string \<Rightarrow> subject \<Rightarrow> bool" where
  "reads_subject x s \<longleftrightarrow> x \<noteq> [] \<and> hd x \<noteq> CHR ''@'' \<and> (\<forall>u. ttl_solid (x @ u)) \<and>
     (\<forall>r. ttl_subject shacl_vocab (x @ CHR '' '' # r) = Inr (s, CHR '' '' # r))"

lemma reads_predicate_iri: "iri_term_ok i \<Longrightarrow> reads_predicate (push_iri_term i) i"
proof (rule iri_term_start [of i])
  fix c s assume "iri_term_ok i" and c: "push_iri_term i = c # s" "plain_char c" "c \<noteq> CHR ''#''" "c \<noteq> CHR 0x22"
    "c \<noteq> CHR ''@''" "c \<noteq> CHR ''a''"
  note rd = iri_term_read [OF this(1), unfolded c(1)]
  show ?thesis unfolding reads_predicate_def c(1) using c(2-) rd
    by (auto simp: ttl_predicate_def intro!: ttl_solid_plain)
qed

lemma reads_predicate_a: "reads_predicate ''a'' rdf_type"
proof -
  have "plain_char (CHR ''a'')" by code_simp
  then show ?thesis by (simp add: reads_predicate_def ttl_predicate_def ttl_solid_plain ws_prefix_def)
qed

lemma reads_object_iri: "iri_term_ok i \<Longrightarrow> reads_object (push_iri_term i) (OIri i)"
proof (rule iri_term_start [of i])
  fix c s assume "iri_term_ok i" and c: "push_iri_term i = c # s" "plain_char c" "c \<noteq> CHR ''#''" "c \<noteq> CHR 0x22"
    "c \<noteq> CHR ''@''" "c \<noteq> CHR ''a''"
  note rd = iri_term_read [OF this(1), unfolded c(1)]
  show ?thesis unfolding reads_object_def c(1) using c(2-) rd
    by (auto simp: ttl_object_def term_object_def intro!: ttl_solid_plain)
qed

lemma reads_subject_iri: "iri_term_ok i \<Longrightarrow> reads_subject (push_iri_term i) (SIri i)"
proof (rule iri_term_start [of i])
  fix c s assume "iri_term_ok i" and c: "push_iri_term i = c # s" "plain_char c" "c \<noteq> CHR ''#''" "c \<noteq> CHR 0x22"
    "c \<noteq> CHR ''@''" "c \<noteq> CHR ''a''"
  note rd = iri_term_read [OF this(1), unfolded c(1)]
  show ?thesis unfolding reads_subject_def c(1) using c(2-) rd
    by (auto simp: ttl_subject_def intro!: ttl_solid_plain)
qed

lemma reads_blank:
  assumes "ttl_label l"
  shows "reads_subject (''_:'' @ l) (SBlank l)" "reads_object (''_:'' @ l) (OBlank l)"
  using ttl_span_label [OF assms]
  by (simp_all add: reads_subject_def reads_object_def ttl_subject_def ttl_object_def term_object_def ttl_term_def ttl_solid_plain)

lemma digits_plain: "list_all is_ascii_digit ds \<Longrightarrow> concat (map escape_char ds) = ds \<and> latin1_string ds = ds"
proof -
  assume d: "list_all is_ascii_digit ds"
  then have "concat (map escape_char ds) = ds" by (induction ds) (auto simp: is_ascii_digit_def escape_char_def)
  moreover have "ascii ds" using d by (force simp: ascii_def list_all_iff is_ascii_digit_def Let_def)
  ultimately show ?thesis using latin1_ascii [of ds] by simp
qed

lemma xsd_iri_ok: "iri_term_ok (xsd_iri ''integer'')" "iri_term_ok (xsd_for_datatype d)"
proof -
  show "iri_term_ok (xsd_iri ''integer'')" by code_simp
  show "iri_term_ok (xsd_for_datatype d)" by (induction d; code_simp)
qed

lemma reads_integer: "reads_object (push_xsd_integer x) (OLiteral (show_nat (unat x)) (xsd ''integer'') None)"
proof -
  let ?n = "show_nat (unat x)"
  have "ttl_lit_loop [] (?n @ CHR 0x22 # r) = Inr (?n, r)" for r
    using ttl_lit_loop_escaped [of "[]" ?n r] digits_plain [OF show_nat_digits(1)] by simp
  moreover have "xsd_iri ''integer'' = xsd ''integer''" by (simp add: xsd_iri_def XSD_URI_def xsd_def)
  ultimately show ?thesis using iri_term_read [OF xsd_iri_ok(1)]
    by (simp add: reads_object_def push_xsd_integer_def ttl_object_def ttl_literal_def ttl_solid_plain)
qed

section \<open>Statements\<close>

text \<open>The rest of a statement after its subject: the pairs of texts, and the pairs they read as.\<close>

definition items_text :: "(string \<times> string) list \<Rightarrow> string" where
  "items_text its = concat (map (\<lambda>(p, x). next_line @ p @ '' '' @ x) its)"

definition reads_items :: "(string \<times> string) list \<Rightarrow> (iri \<times> object) list \<Rightarrow> bool" where
  "reads_items its ios = list_all2 (\<lambda>(p, x) (i, ob). reads_predicate p i \<and> reads_object x ob) its ios"

definition with_subject :: "subject \<Rightarrow> (iri \<times> object) list \<Rightarrow> rdf_triple list" where
  "with_subject s ios = map (\<lambda>(i, ob). \<lparr>t_subject = s, t_predicate = i, t_object = ob\<rparr>) ios"

lemma objects_read:
  assumes "reads_object x ob" "take 1 r = '';'' \<or> take 1 r = ''.''"
  shows "ttl_objects shacl_vocab s p (CHR '' '' # x @ CHR '' '' # r) out =
    Inr (out @ [\<lparr>t_subject = s, t_predicate = p, t_object = ob\<rparr>], r)"
proof -
  have "plain_char (CHR '';'')" by code_simp
  then have "ttl_solid r" using assms(2) by (cases r) (auto intro!: ttl_solid_plain)
  moreover have "ttl_solid (x @ CHR '' '' # r)" using assms(1) by (simp add: reads_object_def)
  ultimately show ?thesis using assms
    by (subst ttl_objects.simps) (auto simp: ttl_skip_space reads_object_def Let_def)
qed

lemma predicates_read:
  assumes "reads_predicate p i" "reads_object x ob" "reads_items its ios" "\<forall>c \<in> set ws. c = CHR '' '' \<or> c = CHR 0x0A"
  shows "ttl_predicates shacl_vocab s (ws @ p @ '' '' @ x @ items_text its @ '' .'' @ r) out =
    Inr (out @ with_subject s ((i, ob) # ios), r)"
  using assms
proof (induction its arbitrary: p i x ob ios ws out)
  case Nil
  have sk: "ttl_skip_ws (ws @ p @ u) = p @ u" for u using Nil(1,4) ttl_skip_blank by (simp add: reads_predicate_def)
  have "ttl_skip_ws (''.'' @ r) = ''.'' @ r" by (simp add: ttl_skip_solid ttl_solid_plain)
  with Nil sk objects_read [OF Nil(2), of "''.'' @ r" s i out] show ?case
    by (subst ttl_predicates.simps) (simp add: items_text_def reads_items_def reads_predicate_def with_subject_def Let_def)
next
  case (Cons it its)
  obtain q y where it: "it = (q, y)" by (cases it)
  from Cons.prems(3) obtain j ob' ios' where ios: "ios = (j, ob') # ios'" "reads_predicate q j" "reads_object y ob'" "reads_items its ios'"
    by (auto simp: reads_items_def it list_all2_Cons1)
  let ?r = "CHR '';'' # ([CHR 0x0A] @ ''  '') @ q @ '' '' @ y @ items_text its @ '' .'' @ r"
  have sk: "ttl_skip_ws (ws @ p @ u) = p @ u" for u using Cons.prems(1,4) ttl_skip_blank by (simp add: reads_predicate_def)
  have semi: "plain_char (CHR '';'')" by code_simp
  have "ttl_predicates shacl_vocab s (([CHR 0x0A] @ ''  '') @ q @ '' '' @ y @ items_text its @ '' .'' @ r)
      (out @ with_subject s [(i, ob)]) = Inr (out @ with_subject s ((i, ob) # ios), r)"
    using Cons.IH [OF ios(2,3,4), of "[CHR 0x0A] @ ''  ''" "out @ with_subject s [(i, ob)]"] by (simp add: ios(1) with_subject_def)
  moreover have "ttl_skip_ws ?r = ?r" using semi by (simp add: ttl_skip_solid ttl_solid_plain)
  ultimately show ?case using sk objects_read [OF Cons.prems(2), of ?r s i out] Cons.prems(1)
    by (subst ttl_predicates.simps) (simp add: items_text_def it next_line_def reads_predicate_def with_subject_def Let_def)
qed

lemma statement_read:
  assumes "reads_subject x s" "reads_predicate p i" "reads_object y ob" "reads_items its ios"
  shows "ttl_statement shacl_vocab (x @ '' '' @ p @ '' '' @ y @ items_text its @ '' .'' @ r) out =
    Inr (out @ with_subject s ((i, ob) # ios), r)"
  using predicates_read [OF assms(2-4), of "'' ''" s r out] assms(1) by (simp add: ttl_statement_def reads_subject_def)

section \<open>Documents\<close>

definition reads :: "string \<Rightarrow> rdf_triple list \<Rightarrow> bool" where
  "reads x ts \<longleftrightarrow> (\<forall>pre out r. set pre \<subseteq> {CHR 0x0A} \<longrightarrow>
     (\<exists>pre'. set pre' \<subseteq> {CHR 0x0A} \<and> ttl_statements shacl_vocab (pre @ x @ r) out = ttl_statements shacl_vocab (pre' @ r) (out @ ts)))"

lemma reads_append: "reads x ts \<Longrightarrow> reads y us \<Longrightarrow> reads (x @ y) (ts @ us)"
  unfolding reads_def by (metis append.assoc)

lemma reads_Nil: "reads [] []"
  unfolding reads_def by auto

lemma reads_newline: "reads [CHR 0x0A] []"
  unfolding reads_def
proof (intro allI impI)
  fix pre :: string and out r assume "set pre \<subseteq> {CHR 0x0A}"
  then show "\<exists>pre'. set pre' \<subseteq> {CHR 0x0A} \<and>
      ttl_statements shacl_vocab (pre @ [CHR 0x0A] @ r) out = ttl_statements shacl_vocab (pre' @ r) (out @ [])"
    by (intro exI [of _ "pre @ [CHR 0x0A]"]) auto
qed

lemma reads_concat: "list_all2 reads xs tss \<Longrightarrow> reads (concat xs) (concat tss)"
  by (induction xs tss rule: list_all2_induct) (simp_all add: reads_Nil reads_append)

lemma reads_statement:
  assumes "reads_subject x s" "reads_predicate p i" "reads_object y ob" "reads_items its ios"
  shows "reads (x @ '' '' @ p @ '' '' @ y @ items_text its @ '' .'' @ [CHR 0x0A]) (with_subject s ((i, ob) # ios))"
  unfolding reads_def
proof (intro allI impI)
  fix pre :: string and out r assume pre: "set pre \<subseteq> {CHR 0x0A}"
  let ?x = "x @ '' '' @ p @ '' '' @ y @ items_text its @ '' .'' @ [CHR 0x0A]"
  have "ttl_skip_ws (pre @ ?x @ r) = ?x @ r"
    by (rule ttl_skip_blank) (use pre assms(1) in \<open>auto simp: reads_subject_def\<close>)
  moreover have "ttl_statement shacl_vocab (?x @ r) out = Inr (out @ with_subject s ((i, ob) # ios), [CHR 0x0A] @ r)"
    using statement_read [OF assms, of "CHR 0x0A # r" out] by simp
  ultimately have "ttl_statements shacl_vocab (pre @ ?x @ r) out =
      ttl_statements shacl_vocab ([CHR 0x0A] @ r) (out @ with_subject s ((i, ob) # ios))"
    by (subst ttl_statements.simps) (simp add: Let_def)
  then show "\<exists>pre'. set pre' \<subseteq> {CHR 0x0A} \<and>
      ttl_statements shacl_vocab (pre @ ?x @ r) out = ttl_statements shacl_vocab (pre' @ r) (out @ with_subject s ((i, ob) # ios))"
    by (intro exI [of _ "[CHR 0x0A]"]) simp
qed

lemma reads_all: "reads x ts \<Longrightarrow> ttl_statements shacl_vocab x out = Inr (out @ ts)"
proof -
  assume "reads x ts"
  then have "\<exists>pre'. set pre' \<subseteq> {CHR 0x0A} \<and> ttl_statements shacl_vocab ([] @ x @ []) out = ttl_statements shacl_vocab (pre' @ []) (out @ ts)"
    unfolding reads_def by (metis bot.extremum empty_set)
  then obtain pre' where p: "set pre' \<subseteq> {CHR 0x0A}" "ttl_statements shacl_vocab x out = ttl_statements shacl_vocab pre' (out @ ts)"
    by auto
  have "ttl_skip_ws pre' = []" using ttl_skip_blank [of pre' "[]"] p(1) by (auto simp: ttl_solid_def)
  then have "ttl_statements shacl_vocab pre' (out @ ts) = Inr (out @ ts)" by (subst ttl_statements.simps) simp
  with p(2) show ?thesis by simp
qed

section \<open>Blocks and shapes\<close>

definition item_seq :: "string \<Rightarrow> (iri \<times> object) list \<Rightarrow> bool" where
  "item_seq t ios \<longleftrightarrow> (\<exists>its. t = items_text its \<and> reads_items its ios)"

lemma item_seq_Nil: "item_seq [] []"
  by (auto simp: item_seq_def items_text_def reads_items_def intro!: exI [of _ "[]"])

lemma item_seq_append: "item_seq a ios \<Longrightarrow> item_seq b jos \<Longrightarrow> item_seq (a @ b) (ios @ jos)"
  unfolding item_seq_def
proof (elim exE conjE)
  fix its jts assume "a = items_text its" "reads_items its ios" "b = items_text jts" "reads_items jts jos"
  then show "\<exists>ks. a @ b = items_text ks \<and> reads_items ks (ios @ jos)"
    by (intro exI [of _ "its @ jts"]) (auto simp: items_text_def reads_items_def intro: list_all2_appendI)
qed

lemma item_seq_one: "reads_predicate p i \<Longrightarrow> reads_object x ob \<Longrightarrow> item_seq (next_line @ p @ '' '' @ x) [(i, ob)]"
  unfolding item_seq_def by (intro exI [of _ "[(p, x)]"]) (simp add: items_text_def reads_items_def)

lemma item_seq_map: "(\<And>x. x \<in> set xs \<Longrightarrow> item_seq (f x) [g x]) \<Longrightarrow> item_seq (concat (map f xs)) (map g xs)"
proof (induction xs)
  case (Cons x xs)
  then have "item_seq (f x @ concat (map f xs)) ([g x] @ map g xs)" by (intro item_seq_append) auto
  then show ?case by simp
qed (simp add: item_seq_Nil)

lemma reads_item_seq:
  assumes "reads_subject x s" "reads_predicate p i" "reads_object y ob" "item_seq t ios"
  shows "reads (x @ '' '' @ p @ '' '' @ y @ t @ '' .'' @ [CHR 0x0A]) (with_subject s ((i, ob) # ios))"
proof -
  from assms(4) obtain its where "t = items_text its" "reads_items its ios" by (auto simp: item_seq_def)
  with reads_statement [OF assms(1-3)] show ?thesis by blast
qed

lemma shacl_terms:
  "iri_term_ok (shacl_iri ''NodeShape'')" "iri_term_ok (shacl_iri ''targetClass'')" "iri_term_ok (shacl_iri ''property'')"
  "iri_term_ok (shacl_iri ''path'')" "iri_term_ok (shacl_iri ''minCount'')" "iri_term_ok (shacl_iri ''maxCount'')"
  "iri_term_ok (shacl_iri ''datatype'')" "iri_term_ok (shacl_iri ''nodeKind'')" "iri_term_ok (shacl_iri ''class'')"
  "iri_term_ok (shacl_iri ''IRI'')"
  by code_simp+

lemmas shacl_reads = shacl_terms [THEN reads_predicate_iri] shacl_terms [THEN reads_object_iri]

definition count_items :: "cardinality \<Rightarrow> (iri \<times> object) list" where
  [code_defs]: "count_items c =
     (if card_min c > 0 then [(shacl_iri ''minCount'', OLiteral (show_nat (unat (card_min c))) (xsd ''integer'') None)] else []) @
     (case card_max c of
        Some m \<Rightarrow> [(shacl_iri ''maxCount'', OLiteral (show_nat (unat m)) (xsd ''integer'') None)]
      | None \<Rightarrow> [])"

definition property_items :: "property_type \<Rightarrow> (iri \<times> object) list" where
  [code_defs]: "property_items p =
     (shacl_iri ''path'', OIri (property_path_iri p)) # count_items (pt_card p) @
     [(shacl_iri ''datatype'', OIri (xsd_for_datatype (pt_datatype p)))]"

definition edge_items :: "schema \<Rightarrow> edge_type \<Rightarrow> (iri \<times> object) list" where
  [code_defs]: "edge_items s e =
     (shacl_iri ''path'', OIri (edge_path_iri e)) # count_items (et_card e) @
     [(shacl_iri ''nodeKind'', OIri (shacl_iri ''IRI''))] @ map (\<lambda>t. (shacl_iri ''class'', OIri (target_iri s t))) (et_range e)"

definition shape_items :: "node_type \<Rightarrow> string list \<Rightarrow> (iri \<times> object) list" where
  [code_defs]: "shape_items ty refs =
     (rdf_type, OIri (shacl_iri ''NodeShape'')) # (shacl_iri ''targetClass'', OIri (type_iri ty)) #
     map (\<lambda>l. (shacl_iri ''property'', OBlank l)) refs"

lemma counts_read: "item_seq (push_counts c) (count_items c)"
proof -
  have one: "item_seq (next_line @ push_iri_term (shacl_iri k) @ '' '' @ push_xsd_integer n)
      [(shacl_iri k, OLiteral (show_nat (unat n)) (xsd ''integer'') None)]" if "k = ''minCount'' \<or> k = ''maxCount''" for k n
    by (rule item_seq_one) (use that shacl_reads reads_integer in auto)
  show ?thesis unfolding push_counts_def count_items_def
    by (intro item_seq_append) (auto simp: item_seq_Nil one [simplified] split: option.split)
qed

lemma property_block_read:
  assumes "ttl_label l" "iri_term_ok (property_path_iri p)"
  shows "reads (render_property_block l p) (with_subject (SBlank l) (property_items p))"
proof -
  have "item_seq (push_counts (pt_card p) @ next_line @ push_iri_term (shacl_iri ''datatype'') @ '' '' @
      push_iri_term (xsd_for_datatype (pt_datatype p)))
    (count_items (pt_card p) @ [(shacl_iri ''datatype'', OIri (xsd_for_datatype (pt_datatype p)))])"
    by (intro item_seq_append counts_read item_seq_one shacl_reads reads_object_iri xsd_iri_ok)
  from reads_item_seq [OF reads_blank(1) [OF assms(1)] shacl_reads(4) reads_object_iri [OF assms(2)] this]
  show ?thesis by (simp add: render_property_block_def property_items_def)
qed

lemma edge_block_read:
  assumes "ttl_label l" "iri_term_ok (edge_path_iri e)" "\<And>t. t \<in> set (et_range e) \<Longrightarrow> iri_term_ok (target_iri s t)"
  shows "reads (render_edge_block l s e) (with_subject (SBlank l) (edge_items s e))"
proof -
  have "item_seq (push_counts (et_card e) @ (next_line @ push_iri_term (shacl_iri ''nodeKind'') @ '' '' @
      push_iri_term (shacl_iri ''IRI'')) @
      concat (map (\<lambda>t. next_line @ push_iri_term (shacl_iri ''class'') @ '' '' @ push_iri_term (target_iri s t)) (et_range e)))
    (count_items (et_card e) @ [(shacl_iri ''nodeKind'', OIri (shacl_iri ''IRI''))] @
      map (\<lambda>t. (shacl_iri ''class'', OIri (target_iri s t))) (et_range e))"
    by (intro item_seq_append counts_read item_seq_one shacl_reads item_seq_map reads_object_iri assms(3))
  from reads_item_seq [OF reads_blank(1) [OF assms(1)] shacl_reads(4) reads_object_iri [OF assms(2)] this]
  show ?thesis by (simp add: render_edge_block_def edge_items_def)
qed

lemma node_shape_read:
  assumes "iri_term_ok (shape_iri_for ty)" "iri_term_ok (type_iri ty)" "\<And>l. l \<in> set refs \<Longrightarrow> ttl_label l"
  shows "reads (emit_node_shape ty refs) (with_subject (SIri (shape_iri_for ty)) (shape_items ty refs))"
proof -
  have "item_seq ((next_line @ push_iri_term (shacl_iri ''targetClass'') @ '' '' @ push_iri_term (type_iri ty)) @
      concat (map (\<lambda>l. next_line @ push_iri_term (shacl_iri ''property'') @ '' '' @ ''_:'' @ l) refs))
    ([(shacl_iri ''targetClass'', OIri (type_iri ty))] @ map (\<lambda>l. (shacl_iri ''property'', OBlank l)) refs)"
    by (intro item_seq_append item_seq_one shacl_reads item_seq_map reads_object_iri reads_blank(2) assms)
  from reads_item_seq [OF reads_subject_iri [OF assms(1)] reads_predicate_a shacl_reads(11) this]
  show ?thesis by (simp add: emit_node_shape_def shape_items_def)
qed

section \<open>The collected blocks\<close>

fun block_labels :: "64 word \<Rightarrow> nat \<Rightarrow> string list" where
  "block_labels n 0 = []"
| "block_labels n (Suc k) = fst (next_blank n) # block_labels (n + 1) k"

lemma length_block_labels [simp]: "length (block_labels n k) = k"
  by (induction k arbitrary: n) auto

lemma block_label_plain: "l \<in> set (block_labels n k) \<Longrightarrow> ttl_label l"
proof (induction k arbitrary: n)
  case (Suc k)
  have "plain_char c \<and> \<not> ttl_stop c" if "is_ascii_digit c" for c
    using that by (auto simp: is_ascii_digit_def plain_char_def ws_prefix_def ttl_stop_def Let_def)
  then have "ttl_label (show_nat (unat n))"
    using show_nat_digits(1) [of "unat n"] by (auto simp: ttl_label_def ttl_plain_def list_all_iff)
  moreover have "plain_char (CHR ''b'')" by code_simp
  ultimately have "ttl_label (fst (next_blank n))" by (simp add: next_blank_def ttl_label_def ttl_plain_def ttl_stop_def)
  with Suc show ?case by auto
qed simp

lemma fold_add_block:
  "fold add_block fs (refs, bodies, n) =
     (refs @ block_labels n (length fs), bodies @ map2 (\<lambda>f l. f l) fs (block_labels n (length fs)), n + of_nat (length fs))"
  by (induction fs arbitrary: refs bodies n) (simp_all add: add_block_def next_blank_def algebra_simps)

definition edges_from :: "schema \<Rightarrow> node_type \<Rightarrow> edge_type list" where
  "edges_from s ty = filter (\<lambda>e. list_ex (\<lambda>d. d = nt_name ty) (et_domain e)) (bm_values (s_edge_types s))"

definition block_renders :: "schema \<Rightarrow> node_type \<Rightarrow> (string \<Rightarrow> string) list" where
  "block_renders s ty = map (\<lambda>p l. render_property_block l p) (nt_props ty) @ map (\<lambda>e l. render_edge_block l s e) (edges_from s ty)"

definition block_items :: "schema \<Rightarrow> node_type \<Rightarrow> (iri \<times> object) list list" where
  [code_defs]: "block_items s ty = map property_items (nt_props ty) @ map (edge_items s) (edges_from s ty)"

lemma length_block_renders: "length (block_renders s ty) = length (block_items s ty)"
  by (simp add: block_renders_def block_items_def)

lemma collect_blocks:
  "collect_property_refs s ty n =
     (block_labels n (length (block_items s ty)),
      map2 (\<lambda>f l. f l) (block_renders s ty) (block_labels n (length (block_items s ty))),
      n + of_nat (length (block_items s ty)))"
proof -
  have if_fold: "(\<lambda>e x. if P e then f e x else x) = (\<lambda>e. if P e then f e else id)"
    for P :: "edge_type \<Rightarrow> bool" and f :: "edge_type \<Rightarrow> string list \<times> string list \<times> 64 word \<Rightarrow> string list \<times> string list \<times> 64 word"
    by (auto simp: fun_eq_iff)
  have "collect_property_refs s ty n = fold add_block (block_renders s ty) ([], [], n)"
    by (simp add: collect_property_refs_def block_renders_def edges_from_def fold_map fold_filter comp_def if_fold)
  then show ?thesis by (simp add: fold_add_block length_block_renders)
qed

text \<open>The IRIs a schema puts into its shapes, in a form Turtle carries.\<close>

definition schema_iris_ok :: "schema \<Rightarrow> bool" where
  [code_defs]: "schema_iris_ok s \<longleftrightarrow>
     list_all (\<lambda>ty. iri_term_ok (type_iri ty) \<and> iri_term_ok (shape_iri_for ty) \<and>
       list_all (\<lambda>p. iri_term_ok (property_path_iri p)) (nt_props ty)) (bm_values (s_node_types s)) \<and>
     list_all (\<lambda>e. iri_term_ok (edge_path_iri e) \<and> list_all (\<lambda>t. iri_term_ok (target_iri s t)) (et_range e)) (bm_values (s_edge_types s))"

definition type_groups :: "schema \<Rightarrow> node_type \<Rightarrow> 64 word \<Rightarrow> (subject \<times> (iri \<times> object) list) list" where
  "type_groups s ty n =
     (let ls = block_labels n (length (block_items s ty))
      in (SIri (shape_iri_for ty), shape_items ty ls) # zip (map SBlank ls) (block_items s ty))"

fun doc_groups :: "schema \<Rightarrow> node_type list \<Rightarrow> 64 word \<Rightarrow> (subject \<times> (iri \<times> object) list) list" where
  "doc_groups s [] n = []"
| "doc_groups s (ty # tys) n = type_groups s ty n @ doc_groups s tys (n + of_nat (length (block_items s ty)))"

definition group_triples :: "(subject \<times> (iri \<times> object) list) list \<Rightarrow> rdf_triple list" where
  "group_triples gs = concat (map (\<lambda>(s, ios). with_subject s ios) gs)"

lemma blocks_read:
  assumes "schema_iris_ok s" "ty \<in> set (bm_values (s_node_types s))" "\<And>l. l \<in> set ls \<Longrightarrow> ttl_label l"
    "length ls = length (block_items s ty)"
  shows "reads (concat (map2 (\<lambda>f l. f l) (block_renders s ty) ls)) (group_triples (zip (map SBlank ls) (block_items s ty)))"
  unfolding group_triples_def
proof (rule reads_concat, rule list_all2_all_nthI)
  show "length (map2 (\<lambda>f l. f l) (block_renders s ty) ls) =
      length (map (\<lambda>(s, ios). with_subject s ios) (zip (map SBlank ls) (block_items s ty)))"
    by (simp add: length_block_renders)
next
  fix i assume "i < length (map2 (\<lambda>f l. f l) (block_renders s ty) ls)"
  then have i: "i < length (block_items s ty)" "i < length ls" "i < length (block_renders s ty)" by (auto simp: length_block_renders)
  note ok = assms(1,2) [unfolded schema_iris_ok_def list_all_iff]
  have "reads ((block_renders s ty ! i) (ls ! i)) (with_subject (SBlank (ls ! i)) (block_items s ty ! i))"
  proof (cases "i < length (nt_props ty)")
    case True
    then have "iri_term_ok (property_path_iri (nt_props ty ! i))" using ok by simp
    from property_block_read [OF assms(3) [OF nth_mem [OF i(2)]] this] True show ?thesis
      by (simp add: block_renders_def block_items_def nth_append)
  next
    case False
    let ?e = "edges_from s ty ! (i - length (nt_props ty))"
    have j: "i - length (nt_props ty) < length (edges_from s ty)" using i(1) False by (simp add: block_items_def)
    then have "?e \<in> set (bm_values (s_edge_types s))" using nth_mem by (fastforce simp: edges_from_def)
    then have "iri_term_ok (edge_path_iri ?e)" "\<And>t. t \<in> set (et_range ?e) \<Longrightarrow> iri_term_ok (target_iri s t)" using ok by auto
    from edge_block_read [OF assms(3) [OF nth_mem [OF i(2)]] this] False j show ?thesis
      by (simp add: block_renders_def block_items_def nth_append)
  qed
  then show "reads (map2 (\<lambda>f l. f l) (block_renders s ty) ls ! i)
      (map (\<lambda>(s, ios). with_subject s ios) (zip (map SBlank ls) (block_items s ty)) ! i)" using i by simp
qed

lemma type_read:
  assumes "schema_iris_ok s" "ty \<in> set (bm_values (s_node_types s))"
  obtains x where "emit_type s ty (out, n) = (out @ x, n + of_nat (length (block_items s ty)))"
    "reads x (group_triples (type_groups s ty n))" "\<And>u. ttl_solid (x @ u)" "\<And>u. take 7 (x @ u) \<noteq> ''@prefix''"
proof
  let ?ls = "block_labels n (length (block_items s ty))"
  let ?x = "emit_node_shape ty ?ls @ concat (map2 (\<lambda>f l. f l) (block_renders s ty) ?ls) @ [CHR 0x0A]"
  show "emit_type s ty (out, n) = (out @ ?x, n + of_nat (length (block_items s ty)))" by (simp add: emit_type_def collect_blocks)
  have "reads (emit_node_shape ty ?ls) (with_subject (SIri (shape_iri_for ty)) (shape_items ty ?ls))"
    by (rule node_shape_read) (use assms block_label_plain in \<open>auto simp: schema_iris_ok_def list_all_iff\<close>)
  moreover have "reads (concat (map2 (\<lambda>f l. f l) (block_renders s ty) ?ls) @ [CHR 0x0A])
      (group_triples (zip (map SBlank ?ls) (block_items s ty)) @ [])"
    by (intro reads_append reads_newline blocks_read [OF assms]) (simp_all add: block_label_plain)
  ultimately show "reads ?x (group_triples (type_groups s ty n))"
    using reads_append by (fastforce simp: type_groups_def group_triples_def Let_def)
  obtain c y where c: "push_iri_term (shape_iri_for ty) = c # y" "plain_char c" "c \<noteq> CHR ''#''" "c \<noteq> CHR ''@''"
    by (rule iri_term_start)
  show "ttl_solid (?x @ u)" "take 7 (?x @ u) \<noteq> ''@prefix''" for u
    using c by (simp_all add: emit_node_shape_def ttl_solid_plain)
qed

lemma types_read:
  assumes "schema_iris_ok s" "set tys \<subseteq> set (bm_values (s_node_types s))"
  shows "\<exists>x. fst (fold (emit_type s) tys (out, n)) = out @ x \<and> reads x (group_triples (doc_groups s tys n)) \<and>
    ttl_solid x \<and> take 7 x \<noteq> ''@prefix''"
  using assms(2)
proof (induction tys arbitrary: out n)
  case (Cons ty tys)
  then have "ty \<in> set (bm_values (s_node_types s))" by simp
  from type_read [OF assms(1) this, of out n] obtain x where
    x: "emit_type s ty (out, n) = (out @ x, n + of_nat (length (block_items s ty)))" "reads x (group_triples (type_groups s ty n))"
    "\<And>u. ttl_solid (x @ u)" "\<And>u. take 7 (x @ u) \<noteq> ''@prefix''" by metis
  from Cons.IH [of "out @ x" "n + of_nat (length (block_items s ty))"] Cons.prems obtain y where
    "fst (fold (emit_type s) tys (out @ x, n + of_nat (length (block_items s ty)))) = (out @ x) @ y"
    "reads y (group_triples (doc_groups s tys (n + of_nat (length (block_items s ty)))))" by auto
  with x reads_append [OF x(2)] show ?case by (intro exI [of _ "x @ y"]) (simp add: group_triples_def)
qed (simp add: group_triples_def reads_Nil ttl_solid_def)

end
