(* ===== verification/Shacl_Parse.thy ===== *)
theory Shacl_Parse
  imports Shacl_Read
begin

text \<open>
  \<open>crates/atomr-ontology-shacl/src/parse.rs\<close>: a schema from SHACL shapes in Turtle, and the round trip of a
  schema through \<open>compile.rs\<close>. \<open>local_name\<close> is that of \<open>adapter.rs\<close>, of which the file has a copy.
\<close>

section \<open>Parsing shapes\<close>

datatype shacl_parse_error = ShaclAdapter ttl_error | ShaclMissing string | ShaclParseOther string

datatype shape_key = KIri string | KBlank string

instantiation shape_key :: linorder
begin
fun less_eq_shape_key where
  "KIri a \<le> KIri b \<longleftrightarrow> a \<le> b"
| "KIri a \<le> KBlank b \<longleftrightarrow> True"
| "KBlank a \<le> KIri b \<longleftrightarrow> False"
| "KBlank a \<le> KBlank b \<longleftrightarrow> a \<le> b"
definition less_shape_key :: "shape_key \<Rightarrow> shape_key \<Rightarrow> bool" where
  [code_defs]: "x < y \<longleftrightarrow> x \<le> y \<and> \<not> y \<le> (x :: shape_key)"
instance
proof
  fix x y z :: shape_key
  show "x < y \<longleftrightarrow> x \<le> y \<and> \<not> y \<le> x" by (rule less_shape_key_def)
  show "x \<le> x" by (cases x) auto
  show "x \<le> y \<Longrightarrow> y \<le> z \<Longrightarrow> x \<le> z" by (cases x; cases y; cases z) auto
  show "x \<le> y \<Longrightarrow> y \<le> x \<Longrightarrow> x = y" by (cases x; cases y) auto
  show "x \<le> y \<or> y \<le> x" by (cases x; cases y) auto
qed
end

definition subject_key :: "subject \<Rightarrow> shape_key" where
  [code_defs]: "subject_key s = (case s of SIri i \<Rightarrow> KIri (as_str i) | SBlank l \<Rightarrow> KBlank l)"

text \<open>\<open>str::parse::<u32>\<close>\<close>

definition parse_u32 :: "string \<Rightarrow> 32 word option" where
  [code_defs]: "parse_u32 s =
     (let ds = (if length s > 1 \<and> hd s = CHR ''+'' then tl s else s)
      in if ds = [] \<or> \<not> list_all is_ascii_digit ds \<or> 2 ^ 32 \<le> digits_value ds then None else Some (of_nat (digits_value ds)))"

definition literal_as_u32 :: "object \<Rightarrow> 32 word option" where
  [code_defs]: "literal_as_u32 ob = (case ob of OLiteral lexical _ _ \<Rightarrow> parse_u32 lexical | _ \<Rightarrow> None)"

definition datatype_from_xsd :: "iri \<Rightarrow> datatype_tag" where
  [code_defs]: "datatype_from_xsd i =
     (let l = (case strip_prefix XSD_URI (as_str i) of Some l \<Rightarrow> l | None \<Rightarrow> as_str i)
      in if l = ''string'' then DString
         else if list_ex (\<lambda>x. x = l) [''integer'', ''int'', ''long'', ''short'', ''byte'', ''nonNegativeInteger'', ''positiveInteger'',
                ''negativeInteger'', ''nonPositiveInteger''] then DInteger
         else if l = ''double'' \<or> l = ''float'' \<or> l = ''decimal'' then DFloat
         else if l = ''boolean'' then DBool
         else if l = ''dateTime'' \<or> l = ''date'' then DDateTime
         else if l = ''anyURI'' then DIri
         else if l = ''base64Binary'' \<or> l = ''hexBinary'' then DBytes
         else DString)"

record block_state =
  bs_path :: "iri option"
  bs_min :: "32 word"
  bs_max :: "32 word option"
  bs_datatype :: "datatype_tag option"

definition block_step :: "rdf_triple \<Rightarrow> block_state \<Rightarrow> block_state" where
  [code_defs]: "block_step t b =
     (if t_predicate t = shacl_iri ''path'' then
        (case t_object t of OIri i \<Rightarrow> b\<lparr>bs_path := Some i\<rparr> | _ \<Rightarrow> b)
      else if t_predicate t = shacl_iri ''minCount'' then
        (case literal_as_u32 (t_object t) of Some n \<Rightarrow> b\<lparr>bs_min := n\<rparr> | None \<Rightarrow> b)
      else if t_predicate t = shacl_iri ''maxCount'' then
        (case literal_as_u32 (t_object t) of Some n \<Rightarrow> b\<lparr>bs_max := Some n\<rparr> | None \<Rightarrow> b)
      else if t_predicate t = shacl_iri ''datatype'' then
        (case t_object t of OIri i \<Rightarrow> b\<lparr>bs_datatype := Some (datatype_from_xsd i)\<rparr> | _ \<Rightarrow> b)
      else b)"

text \<open>The \<open>Result\<close> of this function is always \<open>Ok\<close>; this is its content.\<close>

definition parse_property_block :: "rdf_triple list \<Rightarrow> property_type option" where
  [code_defs]: "parse_property_block ts =
     (let b = fold block_step ts \<lparr>bs_path = None, bs_min = 0, bs_max = None, bs_datatype = None\<rparr>
      in case (bs_path b, bs_datatype b) of
           (Some path, Some d) \<Rightarrow>
             Some \<lparr>pt_name = local_name path, pt_datatype = d, pt_card = \<lparr>card_min = bs_min b, card_max = bs_max b\<rparr>,
                   pt_iri = Some path, pt_desc = None\<rparr>
         | _ \<Rightarrow> None)"

fun find_target :: "rdf_triple list \<Rightarrow> iri option" where
  "find_target [] = None"
| "find_target (t # ts) =
     (if t_predicate t = shacl_iri ''targetClass'' then (case t_object t of OIri i \<Rightarrow> Some i | _ \<Rightarrow> find_target ts)
      else find_target ts)"

definition add_property :: "(shape_key, rdf_triple list) bmap \<Rightarrow> rdf_triple \<Rightarrow> node_type \<Rightarrow> node_type" where
  [code_defs]: "add_property by_subject t ty =
     (if t_predicate t \<noteq> shacl_iri ''property'' then ty
      else case (case t_object t of OIri i \<Rightarrow> Some (KIri (as_str i)) | OBlank l \<Rightarrow> Some (KBlank l) | OLiteral _ _ _ \<Rightarrow> None) of
             None \<Rightarrow> ty
           | Some k \<Rightarrow>
               (case map_of by_subject k of
                  None \<Rightarrow> ty
                | Some ts \<Rightarrow> (case parse_property_block ts of Some p \<Rightarrow> nt_with_property p ty | None \<Rightarrow> ty)))"

definition shape_step :: "(shape_key, rdf_triple list) bmap \<Rightarrow> shape_key \<Rightarrow> schema \<Rightarrow> shacl_parse_error + schema" where
  [code_defs]: "shape_step by_subject k s =
     (case map_of by_subject k of
        None \<Rightarrow> Inr s
      | Some ts \<Rightarrow>
          (case find_target ts of
             None \<Rightarrow> Inl (ShaclMissing ''sh:targetClass'')
           | Some target \<Rightarrow>
               Inr (declare_node_type (fold (add_property by_subject) ts (nt_with_iri target (nt_new (local_name target)))) s)))"

definition shape_subjects :: "rdf_triple list \<Rightarrow> shape_key list" where
  [code_defs]: "shape_subjects ts =
     fold (\<lambda>t s. if t_predicate t = rdf_type \<and> t_object t = OIri (shacl_iri ''NodeShape'')
                  then bs_insert (subject_key (t_subject t)) s else s) ts []"

definition triples_by_subject :: "rdf_triple list \<Rightarrow> (shape_key, rdf_triple list) bmap" where
  [code_defs]: "triples_by_subject ts = fold (\<lambda>t. idx_push (subject_key (t_subject t)) t) ts []"

definition build_schema :: "rdf_triple list \<Rightarrow> shacl_parse_error + schema" where
  [code_defs]: "build_schema ts = try_fold (shape_step (triples_by_subject ts)) (shape_subjects ts) schema_new"

definition from_shacl_turtle :: "string \<Rightarrow> shacl_parse_error + schema" where
  [code_defs]: "from_shacl_turtle input = (case ttl_parse input of Inl e \<Rightarrow> Inl (ShaclAdapter e) | Inr ts \<Rightarrow> build_schema ts)"

section \<open>Grouping by subject\<close>

lemma subject_key_inj [simp]: "subject_key s = subject_key s' \<longleftrightarrow> s = s'"
  by (cases s; cases s') (auto simp: subject_key_def intro: iri.expand)

lemma map_of_idx_push: "map_of (idx_push k v m) j = (if j = k then Some (idx_get m k @ [v]) else map_of m j)"
  by (auto simp: idx_push_def idx_get_def)

lemma triples_by_subject_get:
  "map_of (triples_by_subject ts) (subject_key s) =
     (case filter (\<lambda>t. t_subject t = s) ts of [] \<Rightarrow> None | us \<Rightarrow> Some us)"
proof (induction ts rule: rev_induct)
  case (snoc t ts)
  have step: "triples_by_subject (ts @ [t]) = idx_push (subject_key (t_subject t)) t (triples_by_subject ts)"
    by (simp add: triples_by_subject_def)
  have "idx_get (triples_by_subject ts) (subject_key s) = filter (\<lambda>t. t_subject t = s) ts"
    using snoc by (cases "filter (\<lambda>t. t_subject t = s) ts") (simp_all add: idx_get_def)
  with snoc show ?case unfolding step by (auto simp: map_of_idx_push split: list.split)
qed (simp add: triples_by_subject_def)

lemma group_filter:
  assumes "distinct (map fst gs)" "(s, ios) \<in> set gs"
  shows "filter (\<lambda>t. t_subject t = s) (group_triples gs) = with_subject s ios"
  using assms
proof (induction gs)
  case (Cons g gs)
  obtain s' ios' where g: "g = (s', ios')" by (cases g)
  have same: "filter (\<lambda>t. t_subject t = s') (with_subject s' jos) = with_subject s' jos" for s' jos
    by (auto simp: with_subject_def filter_id_conv)
  have other: "filter (\<lambda>t. t_subject t = s) (with_subject s' jos) = []" if "s' \<noteq> s" for s s' jos
    using that by (auto simp: with_subject_def filter_empty_conv)
  have rest: "filter (\<lambda>t. t_subject t = s) (group_triples hs) = []" if "s \<notin> fst ` set hs" for hs
    using that by (force simp: group_triples_def filter_concat filter_empty_conv with_subject_def)
  show ?case
  proof (cases "s = s'")
    case True
    with Cons.prems g have "s \<notin> fst ` set gs" "ios = ios'" by (auto simp: rev_image_eqI)
    with True same rest [of gs] show ?thesis by (simp add: group_triples_def g)
  next
    case False
    with Cons g other [of s' s] show ?thesis by (auto simp: group_triples_def)
  qed
qed simp

section \<open>The blocks read back\<close>

definition read_property :: "property_type \<Rightarrow> property_type" where
  [code_defs]: "read_property p =
     \<lparr>pt_name = pt_name p, pt_datatype = (if pt_datatype p = DJson then DString else pt_datatype p), pt_card = pt_card p,
      pt_iri = Some (property_path_iri p), pt_desc = None\<rparr>"

definition read_type :: "node_type \<Rightarrow> node_type" where
  [code_defs]: "read_type ty =
     \<lparr>nt_name = nt_name ty, nt_iri = Some (type_iri ty), nt_supertypes = [], nt_props = map read_property (nt_props ty),
      nt_desc = None\<rparr>"

lemma parse_u32_show [simp]: "parse_u32 (show_nat (unat (x :: 32 word))) = Some x"
proof -
  have d: "list_all is_ascii_digit (show_nat (unat x))" "show_nat (unat x) \<noteq> []" by (rule show_nat_digits)+
  then have "hd (show_nat (unat x)) \<noteq> CHR ''+''" by (cases "show_nat (unat x)") (auto simp: is_ascii_digit_def)
  moreover have "unat x < 2 ^ 32" using unsigned_less [of x, where ?'a = nat] by simp
  ultimately show ?thesis using d by (simp add: parse_u32_def Let_def)
qed

lemma datatype_back: "datatype_from_xsd (xsd_for_datatype d) = (if d = DJson then DString else d)"
  by (induction d; code_simp)

lemma shacl_iri_inj [simp]: "shacl_iri a = shacl_iri b \<longleftrightarrow> a = b"
  by (simp add: shacl_iri_def)

lemma fold_counts:
  "fold block_step (with_subject s (count_items c)) b =
     b\<lparr>bs_min := (if card_min c > 0 then card_min c else bs_min b), bs_max := (case card_max c of Some m \<Rightarrow> Some m | None \<Rightarrow> bs_max b)\<rparr>"
  by (auto simp: count_items_def with_subject_def block_step_def literal_as_u32_def split: option.split)

lemma with_subject_simps [simp]:
  "with_subject s [] = []" "with_subject s ((i, ob) # ios) = \<lparr>t_subject = s, t_predicate = i, t_object = ob\<rparr> # with_subject s ios"
  "with_subject s (ios @ jos) = with_subject s ios @ with_subject s jos"
  by (simp_all add: with_subject_def)

lemma property_block_back:
  assumes "local_name (property_path_iri p) = pt_name p"
  shows "parse_property_block (with_subject s (property_items p)) = Some (read_property p)"
proof -
  obtain lo hi where c: "pt_card p = \<lparr>card_min = lo, card_max = hi\<rparr>" by (cases "pt_card p")
  have lo: "\<not> 0 < lo \<longleftrightarrow> lo = 0" by (simp add: word_gt_0)
  show ?thesis unfolding parse_property_block_def property_items_def
    by (simp add: fold_counts block_step_def [of "\<lparr>t_subject = _, t_predicate = _, t_object = _\<rparr>"] datatype_back
        read_property_def assms c lo Let_def split: option.split)
qed

lemma edge_block_back: "parse_property_block (with_subject s (edge_items sch e)) = None"
proof -
  have skip: "fold block_step (with_subject s (map (\<lambda>t. (shacl_iri ''class'', OIri (f t))) ts)) b = b" for f and ts :: "string list" and b
    by (induction ts) (simp_all add: block_step_def)
  show ?thesis unfolding parse_property_block_def edge_items_def
    by (simp add: fold_counts skip block_step_def [of "\<lparr>t_subject = _, t_predicate = _, t_object = _\<rparr>"] Let_def split: option.split)
qed

section \<open>The groups of a document\<close>

text \<open>What the round trip asks of a schema: the types and properties are named after their IRIs, the IRIs
  can be written, and the blank labels do not run out.\<close>

definition named_after_iris :: "schema \<Rightarrow> bool" where
  [code_defs]: "named_after_iris s \<longleftrightarrow>
     list_all (\<lambda>ty. local_name (type_iri ty) = nt_name ty \<and>
       list_all (\<lambda>p. local_name (property_path_iri p) = pt_name p) (nt_props ty)) (bm_values (s_node_types s))"

definition block_count :: "schema \<Rightarrow> node_type list \<Rightarrow> nat" where
  [code_defs]: "block_count s tys = sum_list (map (\<lambda>ty. length (block_items s ty)) tys)"

lemma block_labels_append: "block_labels n (j + k) = block_labels n j @ block_labels (n + of_nat j) k"
  by (induction j arbitrary: n) (simp_all add: algebra_simps)

lemma block_labels_nth: "i < k \<Longrightarrow> block_labels n k ! i = ''b'' @ show_nat (unat (n + of_nat i))"
proof (induction k arbitrary: n i)
  case (Suc k)
  then show ?case by (cases i) (simp_all add: next_blank_def algebra_simps)
qed simp

lemma block_labels_distinct: "k \<le> 2 ^ 64 \<Longrightarrow> distinct (block_labels 0 k)"
proof -
  assume k: "k \<le> 2 ^ 64"
  have "i = j" if "i < k" "j < k" "block_labels 0 k ! i = block_labels 0 k ! j" for i j
  proof -
    have "show_nat (unat (of_nat i :: 64 word)) = show_nat (unat (of_nat j :: 64 word))"
      using that block_labels_nth [of _ k 0] by simp
    then have "unat (of_nat i :: 64 word) = unat (of_nat j :: 64 word)" by (metis digits_value_show_nat)
    then show ?thesis using that k by (simp add: unat_of_nat)
  qed
  then show ?thesis by (auto simp: distinct_conv_nth)
qed

lemma doc_group_keys:
  "set (map fst (doc_groups s tys n)) = (\<lambda>ty. SIri (shape_iri_for ty)) ` set tys \<union> SBlank ` set (block_labels n (block_count s tys))"
proof (induction tys arbitrary: n)
  case (Cons ty tys)
  have "map fst (zip (map SBlank (block_labels n (length (block_items s ty)))) (block_items s ty)) =
      map SBlank (block_labels n (length (block_items s ty)))" by simp
  then have "fst ` set (zip (map SBlank (block_labels n (length (block_items s ty)))) (block_items s ty)) =
      SBlank ` set (block_labels n (length (block_items s ty)))" by (metis list.set_map)
  with Cons show ?case by (auto simp: type_groups_def block_count_def block_labels_append Let_def)
qed (simp add: block_count_def)

lemma doc_groups_distinct:
  assumes "distinct (block_labels n (block_count s tys))" "distinct (map shape_iri_for tys)"
  shows "distinct (map fst (doc_groups s tys n))"
  using assms
proof (induction tys arbitrary: n)
  case (Cons ty tys)
  let ?k = "length (block_items s ty)"
  have ls: "block_labels n (block_count s (ty # tys)) = block_labels n ?k @ block_labels (n + of_nat ?k) (block_count s tys)"
    by (simp add: block_count_def block_labels_append)
  have d: "distinct (block_labels n ?k)" "distinct (block_labels (n + of_nat ?k) (block_count s tys))"
    "set (block_labels n ?k) \<inter> set (block_labels (n + of_nat ?k) (block_count s tys)) = {}"
    using Cons.prems(1) unfolding ls by simp_all
  have "shape_iri_for ty \<notin> shape_iri_for ` set tys" using Cons.prems(2) by simp
  with d Cons.IH [OF d(2)] Cons.prems(2) doc_group_keys [of s tys "n + of_nat ?k"] show ?case
    by (auto simp: type_groups_def Let_def distinct_map inj_on_def)
qed simp

lemma doc_groups_type:
  "ty \<in> set tys \<Longrightarrow> \<exists>n'. set (type_groups s ty n') \<subseteq> set (doc_groups s tys n)"
proof (induction tys arbitrary: n)
  case (Cons ty' tys)
  show ?case
  proof (cases "ty = ty'")
    case False
    with Cons.prems Cons.IH [of "n + of_nat (length (block_items s ty'))"] obtain n' where
      "set (type_groups s ty n') \<subseteq> set (doc_groups s tys (n + of_nat (length (block_items s ty'))))" by auto
    then show ?thesis by (intro exI [of _ n']) auto
  qed (intro exI [of _ n], simp)
qed simp

lemma shacl_not_type [simp]: "shacl_iri k \<noteq> rdf_type" "rdf_type \<noteq> shacl_iri k"
  by (simp_all add: shacl_iri_def SH_URI_def rdf_type_def)

lemma block_predicates: "ios \<in> set (block_items s ty) \<Longrightarrow> (i, ob) \<in> set ios \<Longrightarrow> i \<noteq> rdf_type"
  by (auto simp: block_items_def property_items_def edge_items_def count_items_def split: option.splits if_splits)

lemma shape_subjects_set:
  "set (shape_subjects ts) =
     {subject_key (t_subject t) | t. t \<in> set ts \<and> t_predicate t = rdf_type \<and> t_object t = OIri (shacl_iri ''NodeShape'')}"
  by (induction ts rule: rev_induct) (auto simp: shape_subjects_def)

lemma shape_subjects_sorted: "sorted_wrt (<) (shape_subjects ts)"
proof (induction ts rule: rev_induct)
  case (snoc t ts)
  then show ?case using bs_sorted_insert [of "shape_subjects ts"] by (simp add: shape_subjects_def)
qed (simp add: shape_subjects_def)

lemma type_shape:
  assumes "t \<in> set (with_subject x ios)" "(x, ios) \<in> set (type_groups s ty n)" "t_predicate t = rdf_type"
  shows "t_subject t = SIri (shape_iri_for ty)"
proof -
  obtain ob where ob: "(rdf_type, ob) \<in> set ios" "t_subject t = x" using assms(1,3) by (auto simp: with_subject_def)
  then have "ios \<notin> set (block_items s ty)" using block_predicates by blast
  with assms(2) ob(2) show ?thesis by (auto simp: type_groups_def Let_def dest: set_zip_rightD)
qed

lemma doc_groups_from: "g \<in> set (doc_groups s tys n) \<Longrightarrow> \<exists>ty \<in> set tys. \<exists>n'. g \<in> set (type_groups s ty n')"
  by (induction tys arbitrary: n) auto

lemma doc_shapes: "set (shape_subjects (group_triples (doc_groups s tys n))) = (\<lambda>ty. subject_key (SIri (shape_iri_for ty))) ` set tys"
proof (rule set_eqI, rule iffI)
  fix k assume "k \<in> set (shape_subjects (group_triples (doc_groups s tys n)))"
  then obtain t x ios where t: "k = subject_key (t_subject t)" "t_predicate t = rdf_type" "(x, ios) \<in> set (doc_groups s tys n)"
    "t \<in> set (with_subject x ios)" by (auto simp: shape_subjects_set group_triples_def)
  from doc_groups_from [OF t(3)] obtain ty n' where ty: "ty \<in> set tys" "(x, ios) \<in> set (type_groups s ty n')" by blast
  from type_shape [OF t(4) ty(2) t(2)] t(1) ty(1) show "k \<in> (\<lambda>ty. subject_key (SIri (shape_iri_for ty))) ` set tys" by simp
next
  fix k assume "k \<in> (\<lambda>ty. subject_key (SIri (shape_iri_for ty))) ` set tys"
  then obtain ty n' where ty: "k = subject_key (SIri (shape_iri_for ty))" "set (type_groups s ty n') \<subseteq> set (doc_groups s tys n)"
    using doc_groups_type by blast
  let ?t = "\<lparr>t_subject = SIri (shape_iri_for ty), t_predicate = rdf_type, t_object = OIri (shacl_iri ''NodeShape'')\<rparr>"
  have "(SIri (shape_iri_for ty), shape_items ty (block_labels n' (length (block_items s ty)))) \<in> set (doc_groups s tys n)"
    using ty(2) by (auto simp: type_groups_def Let_def)
  moreover have "?t \<in> set (with_subject (SIri (shape_iri_for ty)) (shape_items ty ls))" for ls
    by (simp add: with_subject_def shape_items_def)
  ultimately have "?t \<in> set (group_triples (doc_groups s tys n))" by (fastforce simp: group_triples_def)
  then show "k \<in> set (shape_subjects (group_triples (doc_groups s tys n)))"
    unfolding shape_subjects_set ty(1) by (intro CollectI exI [of _ ?t]) simp
qed

section \<open>The round trip\<close>

lemma property_refs_back:
  assumes "list_all2 (\<lambda>l b. map_of by_subject (KBlank l) = Some (with_subject (SBlank l) b)) ls (map property_items ps)"
    "list_all (\<lambda>p. local_name (property_path_iri p) = pt_name p) ps"
  shows "fold (add_property by_subject) (with_subject x (map (\<lambda>l. (shacl_iri ''property'', OBlank l)) ls)) ty =
    ty\<lparr>nt_props := nt_props ty @ map read_property ps\<rparr>"
  using assms
proof (induction ls arbitrary: ps ty)
  case (Cons l ls)
  then obtain p ps' where p: "ps = p # ps'" "map_of by_subject (KBlank l) = Some (with_subject (SBlank l) (property_items p))"
    "list_all2 (\<lambda>l b. map_of by_subject (KBlank l) = Some (with_subject (SBlank l) b)) ls (map property_items ps')"
    by (auto simp: list_all2_Cons1 map_eq_Cons_conv)
  have "add_property by_subject \<lparr>t_subject = x, t_predicate = shacl_iri ''property'', t_object = OBlank l\<rparr> ty =
      ty\<lparr>nt_props := nt_props ty @ [read_property p]\<rparr>"
    using p property_block_back [of p "SBlank l"] Cons.prems(2) by (simp add: add_property_def nt_with_property_def)
  with Cons.IH [OF p(3)] Cons.prems(2) p(1) show ?case by simp
qed simp

lemma edge_refs_back:
  "list_all2 (\<lambda>l b. map_of by_subject (KBlank l) = Some (with_subject (SBlank l) b)) ls (map (edge_items s) es) \<Longrightarrow>
     fold (add_property by_subject) (with_subject x (map (\<lambda>l. (shacl_iri ''property'', OBlank l)) ls)) ty = ty"
proof (induction ls arbitrary: es)
  case (Cons l ls)
  then obtain e es' where e: "es = e # es'" "map_of by_subject (KBlank l) = Some (with_subject (SBlank l) (edge_items s e))"
    "list_all2 (\<lambda>l b. map_of by_subject (KBlank l) = Some (with_subject (SBlank l) b)) ls (map (edge_items s) es')"
    by (auto simp: list_all2_Cons1 map_eq_Cons_conv)
  have "add_property by_subject \<lparr>t_subject = x, t_predicate = shacl_iri ''property'', t_object = OBlank l\<rparr> ty = ty"
    using e edge_block_back by (simp add: add_property_def)
  with Cons.IH [OF e(3)] show ?case by simp
qed simp

lemma group_lookup:
  assumes "distinct (map fst gs)" "(x, ios) \<in> set gs" "ios \<noteq> []"
  shows "map_of (triples_by_subject (group_triples gs)) (subject_key x) = Some (with_subject x ios)"
  using group_filter [OF assms(1,2)] assms(3) by (cases ios) (auto simp: triples_by_subject_get)

lemma shape_step_back:
  assumes "distinct (map fst gs)" "set (type_groups s ty n) \<subseteq> set gs" "local_name (type_iri ty) = nt_name ty"
    "list_all (\<lambda>p. local_name (property_path_iri p) = pt_name p) (nt_props ty)"
  shows "shape_step (triples_by_subject (group_triples gs)) (subject_key (SIri (shape_iri_for ty))) sch =
    Inr (declare_node_type (read_type ty) sch)"
proof -
  let ?by = "triples_by_subject (group_triples gs)" and ?ls = "block_labels n (length (block_items s ty))"
  have shape: "map_of ?by (subject_key (SIri (shape_iri_for ty))) = Some (with_subject (SIri (shape_iri_for ty)) (shape_items ty ?ls))"
    by (rule group_lookup [OF assms(1)]) (use assms(2) in \<open>auto simp: type_groups_def Let_def shape_items_def\<close>)
  have "map_of ?by (KBlank l) = Some (with_subject (SBlank l) b)" if "(l, b) \<in> set (zip ?ls (block_items s ty))" for l b
  proof -
    have "b \<in> set (block_items s ty)" using that by (rule set_zip_rightD)
    then have "b \<noteq> []" by (auto simp: block_items_def property_items_def edge_items_def)
    moreover have "(SBlank l, b) \<in> set (zip (map SBlank ?ls) (block_items s ty))"
      using that by (auto simp: zip_map1 intro!: rev_image_eqI)
    then have "(SBlank l, b) \<in> set gs" using assms(2) by (auto simp: type_groups_def Let_def)
    ultimately show ?thesis using group_lookup [OF assms(1), of "SBlank l" b] by (simp add: subject_key_def)
  qed
  then have "list_all2 (\<lambda>l b. map_of ?by (KBlank l) = Some (with_subject (SBlank l) b)) ?ls (block_items s ty)"
    by (auto simp: list_all2_iff)
  then obtain ls1 ls2 where ls: "?ls = ls1 @ ls2"
    "list_all2 (\<lambda>l b. map_of ?by (KBlank l) = Some (with_subject (SBlank l) b)) ls1 (map property_items (nt_props ty))"
    "list_all2 (\<lambda>l b. map_of ?by (KBlank l) = Some (with_subject (SBlank l) b)) ls2 (map (edge_items s) (edges_from s ty))"
    by (auto simp: block_items_def list_all2_append2)
  let ?ty = "nt_with_iri (type_iri ty) (nt_new (local_name (type_iri ty)))"
  have "fold (add_property ?by) (with_subject (SIri (shape_iri_for ty)) (shape_items ty ?ls)) ?ty =
      ?ty\<lparr>nt_props := nt_props ?ty @ map read_property (nt_props ty)\<rparr>"
    using property_refs_back [OF ls(2) assms(4)] edge_refs_back [OF ls(3)]
    by (simp add: shape_items_def ls(1) add_property_def)
  also have "\<dots> = read_type ty" by (simp add: read_type_def nt_with_iri_def nt_new_def assms(3))
  finally have "fold (add_property ?by) (with_subject (SIri (shape_iri_for ty)) (shape_items ty ?ls)) ?ty = read_type ty" .
  moreover have "find_target (with_subject (SIri (shape_iri_for ty)) (shape_items ty ?ls)) = Some (type_iri ty)"
    by (simp add: shape_items_def)
  ultimately show ?thesis using shape by (simp add: shape_step_def)
qed

lemma declare_fold:
  "fold (\<lambda>k. declare_node_type (f k)) ks s = s\<lparr>s_node_types := fold (\<lambda>k. bm_insert (nt_name (f k)) (f k)) ks (s_node_types s)\<rparr>"
  by (induction ks arbitrary: s) (simp_all add: declare_node_type_def)

lemma declared_types:
  assumes "bm_wf m" "\<And>n ty. (n, ty) \<in> set m \<Longrightarrow> nt_name ty = n" "distinct ks" "f ` set ks = set (bm_values m)" "inj_on f (set ks)"
    "\<And>ty. nt_name (g ty) = nt_name ty"
  shows "fold (\<lambda>k. bm_insert (nt_name (g (f k))) (g (f k))) ks [] = map (\<lambda>(n, ty). (n, g ty)) m"
proof (rule bm_ext)
  show "bm_wf (fold (\<lambda>k. bm_insert (nt_name (g (f k))) (g (f k))) ks [])"
    by (rule fold_invariant [where P = bm_wf]) auto
  show "bm_wf (map (\<lambda>(n, ty). (n, g ty)) m)" using assms(1) by (simp add: bm_wf_def comp_def case_prod_unfold)
  have entry: "map_of m n = Some ty \<longleftrightarrow> ty \<in> f ` set ks \<and> nt_name ty = n" for n ty
  proof -
    have "map_of m n = Some ty \<longleftrightarrow> (n, ty) \<in> set m" using bm_set_iff [OF assms(1)] by simp
    also have "\<dots> \<longleftrightarrow> ty \<in> set (bm_values m) \<and> nt_name ty = n" using assms(2) by (force simp: bm_values_def)
    finally show ?thesis using assms(4) by simp
  qed
  have d: "distinct (map (\<lambda>k. nt_name (g (f k))) ks)"
  proof -
    have "j = k" if "j \<in> set ks" "k \<in> set ks" "nt_name (f j) = nt_name (f k)" for j k
      using that entry [of "nt_name (f j)" "f j"] entry [of "nt_name (f j)" "f k"] assms(5) by (auto dest: inj_onD)
    then show ?thesis using assms(3,6) by (auto simp: distinct_map inj_on_def)
  qed
  show "map_of (fold (\<lambda>k. bm_insert (nt_name (g (f k))) (g (f k))) ks []) = map_of (map (\<lambda>(n, ty). (n, g ty)) m)"
  proof
    fix n
    have m: "map_of (map (\<lambda>(n, ty). (n, g ty)) m) n = map_option g (map_of m n)" by (simp add: map_of_map)
    show "map_of (fold (\<lambda>k. bm_insert (nt_name (g (f k))) (g (f k))) ks []) n = map_of (map (\<lambda>(n, ty). (n, g ty)) m) n"
    proof (cases "map_of m n")
      case None
      then have "n \<notin> (\<lambda>k. nt_name (g (f k))) ` set ks" using entry [of n] assms(6) by fastforce
      then show ?thesis unfolding m None by (simp add: bm.look_fold_other)
    next
      case (Some ty)
      then obtain k where k: "k \<in> set ks" "f k = ty" "nt_name ty = n" using entry [of n ty] by auto
      from bm.look_fold_distinct [OF d k(1), of "\<lambda>k. g (f k)" "[]"] k assms(6) show ?thesis unfolding m Some by simp
    qed
  qed
qed

lemma shapes_read_back:
  assumes "schema_wf s" "named_after_iris s" "block_count s (bm_values (s_node_types s)) < 2 ^ 64"
  shows "build_schema (group_triples (doc_groups s (bm_values (s_node_types s)) 0)) =
    Inr \<lparr>s_node_types = map (\<lambda>(n, ty). (n, read_type ty)) (s_node_types s), s_edge_types = []\<rparr>"
proof -
  let ?tys = "bm_values (s_node_types s)" and ?key = "\<lambda>ty. subject_key (SIri (shape_iri_for ty))"
  let ?gs = "doc_groups s ?tys 0"
  let ?ks = "shape_subjects (group_triples ?gs)" and ?of = "inv_into (set ?tys) ?key"
  have wf: "bm_wf (s_node_types s)" "\<And>n ty. (n, ty) \<in> set (s_node_types s) \<Longrightarrow> nt_name ty = n"
    using assms(1) by (auto simp: schema_wf_def)
  have named: "local_name (type_iri ty) = nt_name ty" "list_all (\<lambda>p. local_name (property_path_iri p) = pt_name p) (nt_props ty)"
    if "ty \<in> set ?tys" for ty using that assms(2) by (auto simp: named_after_iris_def list_all_iff)
  have names: "ty = ty'" if "ty \<in> set ?tys" "ty' \<in> set ?tys" "nt_name ty = nt_name ty'" for ty ty'
    using that wf bm_set_iff [OF wf(1)] by (fastforce simp: bm_values_def)
  have base: "type_iri ty = type_iri ty'" if "shape_iri_for ty = shape_iri_for ty'" for ty ty'
    using that by (simp add: shape_iri_for_def type_iri_def iri.expand)
  have inj: "inj_on shape_iri_for (set ?tys)"
  proof (rule inj_onI)
    fix ty ty' assume ty: "ty \<in> set ?tys" "ty' \<in> set ?tys" "shape_iri_for ty = shape_iri_for ty'"
    then have "nt_name ty = nt_name ty'" using named(1) [OF ty(1)] named(1) [OF ty(2)] base [OF ty(3)] by simp
    with ty(1,2) show "ty = ty'" by (rule names)
  qed
  have keys: "inj_on ?key (set ?tys)" using inj by (auto simp: inj_on_def)
  have "distinct (map fst (s_node_types s))" using wf(1) by (rule bm_wf_distinct)
  moreover have "map nt_name ?tys = map fst (s_node_types s)" using wf(2) by (auto simp: bm_values_def)
  ultimately have "distinct ?tys" by (metis distinct_map)
  then have dist: "distinct (map fst ?gs)"
    by (intro doc_groups_distinct) (use assms(3) inj in \<open>auto simp: block_labels_distinct distinct_map\<close>)
  have ks: "set ?ks = ?key ` set ?tys" by (rule doc_shapes)
  have of: "?of k \<in> set ?tys" "?key (?of k) = k" if "k \<in> set ?ks" for k
    using inv_into_into [of k ?key "set ?tys"] f_inv_into_f [of k ?key "set ?tys"] that [unfolded ks] by blast+
  have "shape_step (triples_by_subject (group_triples ?gs)) k sch = Inr (declare_node_type (read_type (?of k)) sch)"
    if k: "k \<in> set ?ks" for k sch
  proof -
    obtain n' where "set (type_groups s (?of k) n') \<subseteq> set ?gs" using doc_groups_type [OF of(1) [OF k]] by blast
    from shape_step_back [OF dist this named [OF of(1) [OF k]], of sch] show ?thesis using of(2) [OF k] by simp
  qed
  then have "build_schema (group_triples ?gs) = Inr (fold (\<lambda>k. declare_node_type (read_type (?of k))) ?ks schema_new)"
    unfolding build_schema_def by (rule try_fold_Inr)
  also have "fold (\<lambda>k. declare_node_type (read_type (?of k))) ?ks schema_new =
      schema_new\<lparr>s_node_types := fold (\<lambda>k. bm_insert (nt_name (read_type (?of k))) (read_type (?of k))) ?ks []\<rparr>"
    by (simp add: declare_fold schema_new_def)
  also have "fold (\<lambda>k. bm_insert (nt_name (read_type (?of k))) (read_type (?of k))) ?ks [] =
      map (\<lambda>(n, ty). (n, read_type ty)) (s_node_types s)"
  proof (rule declared_types [OF wf])
    show "distinct ?ks" using shape_subjects_sorted strict_sorted_iff by blast
    show "?of ` set ?ks = set ?tys" unfolding ks using keys by (simp add: inv_into_image_cancel image_comp [symmetric])
    show "inj_on ?of (set ?ks)" unfolding ks by (rule inj_on_inv_into) simp
  qed (simp_all add: read_type_def)
  finally show ?thesis by (simp add: schema_new_def)
qed

section \<open>Properties\<close>

text \<open>C27: The shapes of a schema are read back as its node types with their properties, datatypes and
  cardinalities. What SHACL does not carry is lost: supertypes, descriptions, edge types and the JSON
  datatype, which becomes a string; every type and property gets the IRI it was written under. The
  types and properties must be named after their IRIs, in IRIs that Turtle carries.\<close>

theorem shacl_round_trip:
  assumes "schema_wf s" "schema_iris_ok s" "named_after_iris s" "block_count s (bm_values (s_node_types s)) < 2 ^ 64"
  shows "\<exists>text. to_shacl_turtle s = Inr text \<and>
    from_shacl_turtle text = Inr \<lparr>s_node_types = map (\<lambda>(n, ty). (n, read_type ty)) (s_node_types s), s_edge_types = []\<rparr>"
proof -
  let ?head = "push_prefix SH_PREFIX SH_URI @ push_prefix XSD_PREFIX XSD_URI @ [CHR 0x0A]"
  obtain x where x: "to_shacl_turtle s = Inr (?head @ x)" "reads x (group_triples (doc_groups s (bm_values (s_node_types s)) 0))"
    "ttl_solid x" "take 7 x \<noteq> ''@prefix''"
    using types_read [OF assms(2) order_refl, of ?head 0] by (auto simp: to_shacl_turtle_def)
  have head: "?head @ x = [] @ concat (map ttl_line shacl_vocab) @ [CHR 0x0A] @ x"
    by (simp add: push_prefix_def shacl_vocab_def ttl_line_def SH_PREFIX_def SH_URI_def XSD_PREFIX_def XSD_URI_def)
  have ok: "list_all (\<lambda>(p, b). ttl_prefix_ok p \<and> CHR ''>'' \<notin> set (as_str b)) shacl_vocab" by code_simp
  have v: "fold (\<lambda>(p, b). vocab_bind p b) shacl_vocab [] = shacl_vocab" by code_simp
  have "ttl_directives [] (?head @ x) = Inr (shacl_vocab, x)"
    unfolding head using ttl_directives_lines [OF ok x(3,4), of "[]" "[CHR 0x0A]" "[]"] v by simp
  then have "ttl_parse (?head @ x) = Inr (group_triples (doc_groups s (bm_values (s_node_types s)) 0))"
    using reads_all [OF x(2), of "[]"] by (simp add: ttl_parse_def)
  with shapes_read_back [OF assms(1,3,4)] x(1) show ?thesis by (simp add: from_shacl_turtle_def)
qed

definition shacl_ex :: schema where
  [code_defs]: "shacl_ex =
     declare_edge_type (et_with_range ''Org'' (et_with_domain ''Org'' (et_new ''partOf'')))
       (declare_node_type (nt_with_property (pt_required_string ''name'')
         (nt_with_property (pt_optional ''size'' DInteger) (nt_with_iri (Iri ''http://e/Org'') (nt_new ''Org'')))) schema_new)"

lemma shacl_round_trip_witness:
  "\<exists>text. to_shacl_turtle shacl_ex = Inr text \<and>
    from_shacl_turtle text = Inr \<lparr>s_node_types = map (\<lambda>(n, ty). (n, read_type ty)) (s_node_types shacl_ex), s_edge_types = []\<rparr>"
proof (rule shacl_round_trip)
  show "schema_wf shacl_ex" by (simp add: shacl_ex_def schema_wf_new schema_wf_declare_node_type schema_wf_declare_edge_type)
  show "schema_iris_ok shacl_ex" by code_simp
  show "named_after_iris shacl_ex" by code_simp
  have "block_count shacl_ex (bm_values (s_node_types shacl_ex)) = 3" by code_simp
  then show "block_count shacl_ex (bm_values (s_node_types shacl_ex)) < 2 ^ 64" by simp
qed

end
