(* ===== verification/Extract_Backend.thy ===== *)
theory Extract_Backend
  imports Core_Data
begin

text \<open>
  \<open>crates/atomr-ontology-extract/src/backend.rs\<close>: the \<open>Backend\<close> trait and the backend that caches the
  answers of another. A backend answers in a world \<open>'w\<close>, the language model behind it. The cache takes its
  locks twice per call, before and after the inner call: \<open>cache_lookup\<close> and \<open>cache_store\<close>. The 64-bit
  key of a prompt (\<open>DefaultHasher\<close>) is the parameter \<open>key\<close>. \<open>batch_complete\<close>, which interleaves its calls, is
  not modelled.
\<close>

section \<open>Backends\<close>

datatype backend_error = BeTransport string | BeFiltered string | BeParse string | BeOther string

record prompt =
  pr_system :: "string option"
  pr_user :: string
  pr_max_tokens :: "32 word option"

definition prompt_user :: "string \<Rightarrow> prompt" where
  [code_defs]: "prompt_user body = \<lparr>pr_system = None, pr_user = body, pr_max_tokens = None\<rparr>"

definition prompt_with_system :: "string \<Rightarrow> prompt \<Rightarrow> prompt" where
  [code_defs]: "prompt_with_system body p = p\<lparr>pr_system := Some body\<rparr>"

definition prompt_with_max_tokens :: "32 word \<Rightarrow> prompt \<Rightarrow> prompt" where
  [code_defs]: "prompt_with_max_tokens n p = p\<lparr>pr_max_tokens := Some n\<rparr>"

record 'w backend =
  be_complete :: "prompt \<Rightarrow> 'w \<Rightarrow> (backend_error + string) \<times> 'w"
  be_label :: string

record stream_chunk =
  ch_text :: string
  ch_done :: bool

definition stream_complete ::
    "'w backend \<Rightarrow> prompt \<Rightarrow> 'w \<Rightarrow> (backend_error + (backend_error + stream_chunk) list) \<times> 'w" where
  [code_defs]: "stream_complete be p w =
     (case be_complete be p w of
        (Inl e, w) \<Rightarrow> (Inl e, w)
      | (Inr text, w) \<Rightarrow> (Inr [Inr \<lparr>ch_text = text, ch_done = True\<rparr>], w))"

section \<open>The cache\<close>

datatype cache_policy = NoCache | ContentAddressed | Lru nat

record cache_state =
  bc_cache :: "(64 word, string) bmap"
  bc_order :: "64 word list"

definition cache_new :: cache_state where
  [code_defs]: "cache_new = \<lparr>bc_cache = [], bc_order = []\<rparr>"

definition cache_size :: "cache_state \<Rightarrow> nat" where
  [code_defs]: "cache_size s = length (bc_cache s)"

definition cache_lookup :: "(prompt \<Rightarrow> 64 word) \<Rightarrow> prompt \<Rightarrow> cache_state \<Rightarrow> string option" where
  [code_defs]: "cache_lookup key p s = map_of (bc_cache s) (key p)"

definition cache_evict :: "nat \<Rightarrow> cache_state \<Rightarrow> cache_state" where
  [code_defs]: "cache_evict cap s =
     (if length (bc_cache s) \<ge> cap then
        (case bc_order s of
           [] \<Rightarrow> s
         | evict # rest \<Rightarrow> s\<lparr>bc_cache := filter (\<lambda>e. fst e \<noteq> evict) (bc_cache s), bc_order := rest\<rparr>)
      else s)"

definition cache_store :: "cache_policy \<Rightarrow> 64 word \<Rightarrow> string \<Rightarrow> cache_state \<Rightarrow> cache_state" where
  [code_defs]: "cache_store policy k response s =
     (let s = (case policy of
                 Lru cap \<Rightarrow> (let s = cache_evict cap s in s\<lparr>bc_order := bc_order s @ [k]\<rparr>)
               | _ \<Rightarrow> s)
      in s\<lparr>bc_cache := bm_insert k response (bc_cache s)\<rparr>)"

text \<open>One call that no other call overlaps.\<close>

definition cached_complete ::
    "cache_policy \<Rightarrow> (prompt \<Rightarrow> 64 word) \<Rightarrow> 'w backend \<Rightarrow> prompt \<Rightarrow> cache_state \<times> 'w \<Rightarrow>
       (backend_error + string) \<times> cache_state \<times> 'w" where
  [code_defs]: "cached_complete policy key be p x =
     (case x of (s, w) \<Rightarrow>
        if policy = NoCache then (case be_complete be p w of (r, w) \<Rightarrow> (r, s, w))
        else case cache_lookup key p s of
               Some hit \<Rightarrow> (Inr hit, s, w)
             | None \<Rightarrow>
                 (case be_complete be p w of
                    (Inl e, w) \<Rightarrow> (Inl e, s, w)
                  | (Inr response, w) \<Rightarrow> (Inr response, cache_store policy (key p) response s, w)))"

definition lru_cached :: "nat \<Rightarrow> (prompt \<Rightarrow> 64 word) \<Rightarrow> 'w backend \<Rightarrow> (cache_state \<times> 'w) backend" where
  [code_defs]: "lru_cached capacity key be = \<lparr>be_complete = cached_complete (Lru capacity) key be, be_label = be_label be\<rparr>"

definition content_cached :: "(prompt \<Rightarrow> 64 word) \<Rightarrow> 'w backend \<Rightarrow> (cache_state \<times> 'w) backend" where
  [code_defs]: "content_cached key be = \<lparr>be_complete = cached_complete ContentAddressed key be, be_label = be_label be\<rparr>"

text \<open>
  Calls that overlap: the prompts that missed and whose inner call is running, and the answers the inner
  backend has given so far. A hit and a lookup change nothing else.
\<close>

type_synonym cache_world = "cache_state \<times> prompt list \<times> (prompt \<times> string) list"

inductive cache_run :: "cache_policy \<Rightarrow> (prompt \<Rightarrow> 64 word) \<Rightarrow> cache_world \<Rightarrow> bool" for policy key where
  cr_start: "cache_run policy key (cache_new, [], [])"
| cr_miss: "cache_run policy key (s, ps, h) \<Longrightarrow> policy \<noteq> NoCache \<Longrightarrow> cache_lookup key p s = None \<Longrightarrow>
    cache_run policy key (s, p # ps, h)"
| cr_fail: "cache_run policy key (s, ps, h) \<Longrightarrow> p \<in> set ps \<Longrightarrow> cache_run policy key (s, remove1 p ps, h)"
| cr_store: "cache_run policy key (s, ps, h) \<Longrightarrow> p \<in> set ps \<Longrightarrow>
    cache_run policy key (cache_store policy (key p) response s, remove1 p ps, (p, response) # h)"

section \<open>What the cache holds\<close>

lemma bm_wf_filter: "bm_wf m \<Longrightarrow> bm_wf (filter P m)"
  by (induction m) auto

lemma cache_store_fields:
  "bc_cache (cache_store policy k r s) = bm_insert k r (case policy of Lru cap \<Rightarrow> bc_cache (cache_evict cap s) | _ \<Rightarrow> bc_cache s)"
  "bc_order (cache_store policy k r s) = (case policy of Lru cap \<Rightarrow> bc_order (cache_evict cap s) @ [k] | _ \<Rightarrow> bc_order s)"
  by (simp_all add: cache_store_def Let_def split: cache_policy.split)

lemma cache_evict_subset: "set (bc_cache (cache_evict cap s)) \<subseteq> set (bc_cache s)"
  by (auto simp: cache_evict_def split: list.split)

lemma cache_evict_wf: "bm_wf (bc_cache s) \<Longrightarrow> bm_wf (bc_cache (cache_evict cap s))"
  by (auto simp: cache_evict_def bm_wf_filter split: list.split)

lemma cache_run_answers:
  "cache_run policy key x \<Longrightarrow> bm_wf (bc_cache (fst x)) \<and>
     (\<forall>(k, r) \<in> set (bc_cache (fst x)). \<exists>p. (p, r) \<in> set (snd (snd x)) \<and> key p = k)"
proof (induction rule: cache_run.induct)
  case (cr_store s ps h p response)
  let ?old = "case policy of Lru cap \<Rightarrow> bc_cache (cache_evict cap s) | _ \<Rightarrow> bc_cache s"
  have old: "bm_wf ?old" "set ?old \<subseteq> set (bc_cache s)"
    using cr_store.IH cache_evict_wf cache_evict_subset by (auto split: cache_policy.split)
  have "set (bc_cache (cache_store policy (key p) response s)) \<subseteq> insert (key p, response) (set (bc_cache s))"
    using old(2) bm_set_insert_subset [of "key p" response ?old] by (auto simp: cache_store_fields)
  moreover have "bm_wf (bc_cache (cache_store policy (key p) response s))" using old(1) by (simp add: cache_store_fields)
  ultimately show ?case using cr_store.IH by fastforce
qed (auto simp: cache_new_def)

section \<open>Calls in sequence\<close>

definition cached_calls ::
    "cache_policy \<Rightarrow> (prompt \<Rightarrow> 64 word) \<Rightarrow> 'w backend \<Rightarrow> prompt list \<Rightarrow> cache_state \<times> 'w \<Rightarrow> cache_state \<times> 'w" where
  [code_defs]: "cached_calls policy key be ps x = fold (\<lambda>p x. snd (cached_complete policy key be p x)) ps x"

definition cache_ordered :: "nat \<Rightarrow> cache_state \<Rightarrow> bool" where
  "cache_ordered cap s \<longleftrightarrow> bm_wf (bc_cache s) \<and> distinct (bc_order s) \<and> set (bc_order s) = fst ` set (bc_cache s) \<and>
     length (bc_cache s) \<le> max 1 cap"

lemma length_filter_key: "bm_wf m \<Longrightarrow> k \<in> fst ` set m \<Longrightarrow> length (filter (\<lambda>e. fst e \<noteq> k) m) = length m - 1"
proof (induction m)
  case (Cons e m)
  show ?case
  proof (cases "fst e = k")
    case True
    with Cons.prems have "filter (\<lambda>e. fst e \<noteq> k) m = m" by (force simp: filter_id_conv)
    with True show ?thesis by simp
  next
    case False
    with Cons have "length (filter (\<lambda>e. fst e \<noteq> k) m) = length m - 1" "m \<noteq> []" by auto
    with False show ?thesis by (cases m) auto
  qed
qed simp

lemma cache_evict_ordered:
  assumes "cache_ordered cap s"
  shows "bm_wf (bc_cache (cache_evict cap s))" "distinct (bc_order (cache_evict cap s))"
    "set (bc_order (cache_evict cap s)) = fst ` set (bc_cache (cache_evict cap s))"
    "length (bc_cache (cache_evict cap s)) < max 1 cap"
    "k \<notin> fst ` set (bc_cache s) \<Longrightarrow> k \<notin> fst ` set (bc_cache (cache_evict cap s))"
proof -
  note o = assms [unfolded cache_ordered_def]
  have "bm_wf (bc_cache (cache_evict cap s)) \<and> distinct (bc_order (cache_evict cap s)) \<and>
    set (bc_order (cache_evict cap s)) = fst ` set (bc_cache (cache_evict cap s)) \<and>
    length (bc_cache (cache_evict cap s)) < max 1 cap"
  proof (cases "length (bc_cache s) \<ge> cap")
    case True
    show ?thesis
    proof (cases "bc_order s")
      case Nil
      with o True show ?thesis by (simp add: cache_evict_def)
    next
      case (Cons e rest)
      then have e: "e \<in> fst ` set (bc_cache s)" "e \<notin> set rest" "distinct rest" "set rest = fst ` set (bc_cache s) - {e}" using o by auto
      have "fst ` set (filter (\<lambda>x. fst x \<noteq> e) (bc_cache s)) = fst ` set (bc_cache s) - {e}" by auto
      moreover have "length (filter (\<lambda>x. fst x \<noteq> e) (bc_cache s)) < max 1 cap"
        using length_filter_key [of "bc_cache s" e] o e(1) by (cases "bc_cache s") auto
      ultimately show ?thesis using True Cons o e by (simp add: cache_evict_def bm_wf_filter)
    qed
  qed (use o in \<open>auto simp: cache_evict_def\<close>)
  then show "bm_wf (bc_cache (cache_evict cap s))" "distinct (bc_order (cache_evict cap s))"
    "set (bc_order (cache_evict cap s)) = fst ` set (bc_cache (cache_evict cap s))"
    "length (bc_cache (cache_evict cap s)) < max 1 cap" by auto
  show "k \<notin> fst ` set (bc_cache s) \<Longrightarrow> k \<notin> fst ` set (bc_cache (cache_evict cap s))"
    using cache_evict_subset by blast
qed

lemma cache_store_ordered:
  assumes "cache_ordered cap s" "k \<notin> fst ` set (bc_cache s)"
  shows "cache_ordered cap (cache_store (Lru cap) k r s)"
proof -
  note e = cache_evict_ordered [OF assms(1)]
  have new: "k \<notin> fst ` set (bc_cache (cache_evict cap s))" using e(5) assms(2) .
  have "length (bm_insert k r (bc_cache (cache_evict cap s))) = Suc (length (bc_cache (cache_evict cap s)))"
    using new e(1) by (simp add: bm_length_insert bm_contains_iff)
  with e new show ?thesis by (simp add: cache_ordered_def cache_store_fields)
qed

lemma cached_calls_ordered: "cache_ordered cap s \<Longrightarrow> cache_ordered cap (fst (cached_calls (Lru cap) key be ps (s, w)))"
proof (induction ps arbitrary: s w)
  case (Cons p ps)
  have "cache_ordered cap (fst (snd (cached_complete (Lru cap) key be p (s, w))))"
  proof (cases "cache_lookup key p s")
    case None
    then have "key p \<notin> fst ` set (bc_cache s)" by (simp add: cache_lookup_def map_of_eq_None_iff)
    with None Cons.prems cache_store_ordered show ?thesis by (auto simp: cached_complete_def split: prod.split sum.split)
  qed (use Cons.prems in \<open>simp add: cached_complete_def\<close>)
  then show ?case using Cons.IH by (cases "snd (cached_complete (Lru cap) key be p (s, w))") (simp add: cached_calls_def)
qed (simp add: cached_calls_def)

section \<open>Properties\<close>

text \<open>However calls overlap, a cached answer is one the inner backend gave to that very prompt, as
  long as no two prompts in play share their 64-bit key.\<close>

theorem cache_answers_prompt:
  assumes "cache_run policy key (s, ps, h)" "inj_on key (insert p (fst ` set h))" "cache_lookup key p s = Some r"
  shows "(p, r) \<in> set h"
proof -
  have "(key p, r) \<in> set (bc_cache s)" using assms(3) by (simp add: cache_lookup_def map_of_SomeD)
  with cache_run_answers [OF assms(1)] obtain q where q: "(q, r) \<in> set h" "key q = key p" by fastforce
  then have "q = p" by (intro inj_onD [OF assms(2)]) (auto intro: rev_image_eqI)
  with q(1) show ?thesis by simp
qed

definition sample_key :: "prompt \<Rightarrow> 64 word" where
  [code_defs]: "sample_key p = (if pr_user p = ''a'' then 1 else if pr_user p = ''b'' then 2 else if pr_user p = ''c'' then 3 else 4)"

lemma cache_answers_prompt_witness: "\<exists>s. cache_lookup sample_key (prompt_user ''a'') s = Some ''yes'' \<and>
    (prompt_user ''a'', ''yes'') \<in> set [(prompt_user ''a'', ''yes'')]"
proof -
  let ?p = "prompt_user ''a''" and ?s = "cache_store ContentAddressed 1 ''yes'' cache_new"
  have miss: "cache_run ContentAddressed sample_key (cache_new, [?p], [])"
    by (rule cr_miss [OF cr_start]) (simp_all add: cache_lookup_def cache_new_def)
  have k: "sample_key ?p = 1" by code_simp
  have "cache_run ContentAddressed sample_key (?s, [], [(?p, ''yes'')])"
    using cr_store [OF miss, of ?p "''yes''"] k by simp
  moreover have "cache_lookup sample_key ?p ?s = Some ''yes''" by code_simp
  ultimately show ?thesis using cache_answers_prompt [of ContentAddressed sample_key ?s "[]" "[(?p, ''yes'')]" ?p "''yes''"] by auto
qed

text \<open>C28: Calls made one after another keep the bounded cache within its capacity (a capacity of zero
  holds one answer), with the eviction queue listing exactly the cached keys.\<close>

theorem sequential_cache_bounded:
  "cache_size (fst (cached_calls (Lru cap) key be ps (cache_new, w))) \<le> max 1 cap \<and>
   distinct (bc_order (fst (cached_calls (Lru cap) key be ps (cache_new, w)))) \<and>
   set (bc_order (fst (cached_calls (Lru cap) key be ps (cache_new, w)))) =
     fst ` set (bc_cache (fst (cached_calls (Lru cap) key be ps (cache_new, w))))"
proof -
  have "cache_ordered cap cache_new" by (simp add: cache_ordered_def cache_new_def)
  from cached_calls_ordered [OF this, of key be ps w] show ?thesis by (simp add: cache_ordered_def cache_size_def)
qed

text \<open>Overlapping calls break the bound: when two calls with the same prompt miss together, its key is
  queued twice, a later eviction removes nothing, and a cache of capacity two ends with three answers and
  no call in flight.\<close>

theorem overlapping_calls_exceed_capacity:
  assumes "distinct [key a, key b, key c, key d]"
  shows "\<exists>s h. cache_run (Lru 2) key (s, [], h) \<and> cache_size s = 3"
proof -
  let ?put = "\<lambda>p s. cache_store (Lru 2) (key p) ''r'' s"
  have miss: "cache_run (Lru 2) key (s, [p], h)" if "cache_run (Lru 2) key (s, [], h)" "key p \<notin> fst ` set (bc_cache s)" for s h p
    using cr_miss [OF that(1)] that(2) by (simp add: cache_lookup_def map_of_eq_None_iff)
  have put: "cache_run (Lru 2) key (?put p s, ps, (p, ''r'') # h)" if "cache_run (Lru 2) key (s, p # ps, h)" for s p ps h
    using cr_store [OF that, of p "''r''"] by simp
  have two: "cache_run (Lru 2) key (cache_new, [a, a], [])"
    using cr_miss [OF miss [OF cr_start], of a a] by (simp add: cache_new_def cache_lookup_def)
  have filt: "fst ` set (filter (\<lambda>e. fst e \<noteq> x) m) = fst ` set m - {x}" for x and m :: "(64 word, string) bmap" by auto
  define s2 where "s2 = ?put a (?put a cache_new)"
  have s2: "cache_run (Lru 2) key (s2, [], [(a, ''r''), (a, ''r'')])" unfolding s2_def by (intro put two)
  have f2: "bc_cache s2 = [(key a, ''r'')]" "bc_order s2 = [key a, key a]"
    by (simp_all add: s2_def cache_store_fields cache_evict_def cache_new_def)
  define s3 where "s3 = ?put b s2"
  have f3: "fst ` set (bc_cache s3) = {key a, key b}" "length (bc_cache s3) = 2" "bc_order s3 = [key a, key a, key b]" "bm_wf (bc_cache s3)"
    using assms f2 by (auto simp: s3_def cache_store_fields cache_evict_def)
  have s3: "cache_run (Lru 2) key (s3, [], [(b, ''r''), (a, ''r''), (a, ''r'')])"
    unfolding s3_def by (intro put miss s2) (use assms f2 in auto)
  define s4 where "s4 = ?put c s3"
  define m3 where "m3 = filter (\<lambda>e. fst e \<noteq> key a) (bc_cache s3)"
  have m3: "fst ` set m3 = {key b}" "length m3 = 1" "bm_wf m3"
    unfolding m3_def filt using f3 length_filter_key [of "bc_cache s3" "key a"] assms by (auto simp: bm_wf_filter)
  have "bc_cache s4 = bm_insert (key c) ''r'' m3" "bc_order s4 = [key a, key b, key c]"
    using f3 by (simp_all add: s4_def m3_def cache_store_fields cache_evict_def)
  then have f4: "fst ` set (bc_cache s4) = {key b, key c}" "length (bc_cache s4) = 2" "bc_order s4 = [key a, key b, key c]" "bm_wf (bc_cache s4)"
    using m3 assms by (auto simp: bm_length_insert bm_contains_iff)
  have s4: "cache_run (Lru 2) key (s4, [], [(c, ''r''), (b, ''r''), (a, ''r''), (a, ''r'')])"
    unfolding s4_def by (intro put miss s3) (use assms f3 in auto)
  define s5 where "s5 = ?put d s4"
  have "filter (\<lambda>e. fst e \<noteq> key a) (bc_cache s4) = bc_cache s4"
    unfolding filter_id_conv using f4(1) assms by (metis distinct_length_2_or_more empty_iff image_eqI insert_iff)
  then have "bc_cache s5 = bm_insert (key d) ''r'' (bc_cache s4)"
    using f4 by (simp add: s5_def cache_store_fields cache_evict_def)
  then have "length (bc_cache s5) = 3" using f4 assms by (auto simp: bm_length_insert bm_contains_iff)
  moreover have "cache_run (Lru 2) key (s5, [], [(d, ''r''), (c, ''r''), (b, ''r''), (a, ''r''), (a, ''r'')])"
    unfolding s5_def by (intro put miss s4) (use assms f4 in auto)
  ultimately show ?thesis by (auto simp: cache_size_def)
qed

lemma overlapping_calls_exceed_capacity_witness: "\<exists>s h. cache_run (Lru 2) sample_key (s, [], h) \<and> cache_size s = 3"
proof -
  have "distinct [sample_key (prompt_user ''a''), sample_key (prompt_user ''b''), sample_key (prompt_user ''c''), sample_key (prompt_user ''d'')]"
    by code_simp
  then show ?thesis by (rule overlapping_calls_exceed_capacity)
qed

text \<open>A hit does not move its key in the queue: the answer evicted is the oldest, not the least recently used.\<close>

definition echo_backend :: "unit backend" where
  [code_defs]: "echo_backend = \<lparr>be_complete = (\<lambda>p w. (Inr (pr_user p), w)), be_label = ''echo''\<rparr>"

theorem evicts_recently_used:
  "cache_lookup sample_key (prompt_user ''a'')
     (fst (cached_calls (Lru 2) sample_key echo_backend (map prompt_user [''a'', ''b'', ''a'', ''c'']) (cache_new, ()))) = None"
  by code_simp

text \<open>
  The wrapper inherits the default \<open>stream_complete\<close>, which completes through the cache: a cached answer is
  streamed without asking the inner backend, in one chunk.
\<close>

theorem streaming_uses_cache:
  assumes "cache_lookup key p s = Some r"
  shows "stream_complete (lru_cached cap key be) p (s, w) = (Inr [Inr \<lparr>ch_text = r, ch_done = True\<rparr>], s, w)"
  using assms by (simp add: stream_complete_def lru_cached_def cached_complete_def)

end
