(* ===== verification/Extract_Stages.thy ===== *)
theory Extract_Stages
  imports Extract_Backend Store_Ops Std_Text
begin

text \<open>
  \<open>crates/atomr-ontology-extract/src\<close>: the extractors (\<open>terms.rs\<close>, \<open>entities.rs\<close>, \<open>relations.rs\<close>,
  \<open>records.rs\<close>) and the pipeline (\<open>pipeline.rs\<close>).
  \<open>serde_json\<close> is a parameter: the reader and writer of each type. \<open>fresh\<close>, \<open>now\<close> and
  \<open>later\<close> are an activity's new id and clock readings; \<open>wide_alnum\<close> is the length of the alphanumeric
  non-ASCII character a text begins with, 0 for none. Scores are the 32 bits of an \<open>f32\<close>.
\<close>

section \<open>Code fences\<close>

definition alnum_prefix :: "(string \<Rightarrow> nat) \<Rightarrow> string \<Rightarrow> nat" where
  [code_defs]: "alnum_prefix wide_alnum s =
     (case s of
        [] \<Rightarrow> 0
      | c # cs \<Rightarrow>
          (let n = of_char c :: nat
           in if n < 0x80 then (if is_ascii_digit c \<or> (65 \<le> n \<and> n \<le> 90) \<or> (97 \<le> n \<and> n \<le> 122) then 1 else 0)
              else wide_alnum s))"

function skip_tag :: "(string \<Rightarrow> nat) \<Rightarrow> string \<Rightarrow> string" where
  "skip_tag wide_alnum s =
     (if s = [] then []
      else if alnum_prefix wide_alnum s > 0 then skip_tag wide_alnum (drop (alnum_prefix wide_alnum s) s)
      else if hd s = CHR ''_'' then skip_tag wide_alnum (tl s)
      else s)"
  by pat_completeness auto
termination
  by (relation "measure (length \<circ> snd)") auto

declare skip_tag.simps [simp del]

text \<open>\<open>str::rfind\<close> of a non-empty text.\<close>

fun str_rfind :: "string \<Rightarrow> string \<Rightarrow> nat option" where
  "str_rfind sub [] = None"
| "str_rfind sub (c # cs) =
     (case str_rfind sub cs of
        Some i \<Rightarrow> Some (Suc i)
      | None \<Rightarrow> if take (length sub) (c # cs) = sub then Some 0 else None)"

definition strip_code_fence :: "(string \<Rightarrow> nat) \<Rightarrow> string \<Rightarrow> string" where
  [code_defs]: "strip_code_fence wide_alnum s =
     (let s = trim s
      in if take 3 s = ''```'' then
           (let rest = dropWhile (\<lambda>c. c = CHR 0x0A) (skip_tag wide_alnum (drop 3 s))
            in case str_rfind ''```'' rest of Some e \<Rightarrow> take e rest | None \<Rightarrow> rest)
         else s)"

definition parse_response :: "(string \<Rightarrow> nat) \<Rightarrow> (string \<Rightarrow> string + 'a) \<Rightarrow> string \<Rightarrow> string + 'a" where
  [code_defs]: "parse_response wide_alnum from_str response = from_str (strip_code_fence wide_alnum (trim response))"

section \<open>Extractors\<close>

text \<open>What an extractor holds, and what every extraction does with its prompt.\<close>

record 'w extractor =
  ex_backend :: "'w backend"
  ex_system_prompt :: string
  ex_agent :: agent_ref

definition ex_with_system_prompt :: "string \<Rightarrow> 'w extractor \<Rightarrow> 'w extractor" where
  [code_defs]: "ex_with_system_prompt p x = x\<lparr>ex_system_prompt := p\<rparr>"

definition stage_activity :: "prov_id \<Rightarrow> int \<Rightarrow> string \<Rightarrow> 'w extractor \<Rightarrow> activity" where
  [code_defs]: "stage_activity fresh now label x =
     activity_with_attribute ''backend'' (JString (be_label (ex_backend x))) (activity_by (ex_agent x) (activity_started fresh now label))"

definition run_stage ::
    "'w extractor \<Rightarrow> activity \<Rightarrow> int \<Rightarrow> string \<Rightarrow> (string \<Rightarrow> backend_error + 'a) \<Rightarrow> 'w \<Rightarrow> (backend_error + 'a \<times> activity) \<times> 'w" where
  [code_defs]: "run_stage x a later body parse w =
     (case be_complete (ex_backend x) (prompt_with_system (ex_system_prompt x) (prompt_user body)) w of
        (Inl e, w) \<Rightarrow> (Inl e, w)
      | (Inr response, w) \<Rightarrow>
          (case parse response of Inl e \<Rightarrow> (Inl e, w) | Inr r \<Rightarrow> (Inr (r, activity_finish later a), w)))"

definition parse_err :: "string + 'a \<Rightarrow> backend_error + 'a" where
  [code_defs]: "parse_err r = (case r of Inl m \<Rightarrow> Inl (BeParse m) | Inr x \<Rightarrow> Inr x)"

record term_candidate =
  tc_surface :: string
  tc_score :: "32 word"
  tc_category :: "string option"
  tc_context :: "string option"

definition term_candidate_new :: "string \<Rightarrow> 32 word \<Rightarrow> term_candidate" where
  [code_defs]: "term_candidate_new s score = \<lparr>tc_surface = s, tc_score = score, tc_category = None, tc_context = None\<rparr>"

definition tc_with_category :: "string \<Rightarrow> term_candidate \<Rightarrow> term_candidate" where
  [code_defs]: "tc_with_category c t = t\<lparr>tc_category := Some c\<rparr>"

definition tc_with_context :: "string \<Rightarrow> term_candidate \<Rightarrow> term_candidate" where
  [code_defs]: "tc_with_context c t = t\<lparr>tc_context := Some c\<rparr>"

definition document_body :: "string \<Rightarrow> string" where
  [code_defs]: "document_body t = ''Document:'' @ [CHR 0x0A] @ ''---'' @ [CHR 0x0A] @ t @ [CHR 0x0A] @ ''---''"

definition extract_terms ::
    "(string \<Rightarrow> nat) \<Rightarrow> (string \<Rightarrow> string + term_candidate list) \<Rightarrow> prov_id \<Rightarrow> int \<Rightarrow> int \<Rightarrow> 'w extractor \<Rightarrow> string \<Rightarrow> 'w \<Rightarrow>
       (backend_error + term_candidate list \<times> activity) \<times> 'w" where
  [code_defs]: "extract_terms wide_alnum from_str fresh now later x t w =
     run_stage x (stage_activity fresh now ''term-extraction'' x) later (document_body t)
       (\<lambda>r. parse_err (parse_response wide_alnum from_str r)) w"

record entity_candidate =
  ec_surface :: string
  ec_iri :: "iri option"
  ec_type_name :: string
  ec_score :: "32 word"
  ec_is_new :: bool

definition serialize_err :: "string + string \<Rightarrow> backend_error + string" where
  [code_defs]: "serialize_err r = (case r of Inl m \<Rightarrow> Inl (BeOther (''serialize: '' @ m)) | Inr s \<Rightarrow> Inr s)"

definition resolve_entities ::
    "(string \<Rightarrow> nat) \<Rightarrow> (term_candidate list \<Rightarrow> string + string) \<Rightarrow> (string \<Rightarrow> string + entity_candidate list) \<Rightarrow> prov_id \<Rightarrow> int \<Rightarrow> int \<Rightarrow>
       'w extractor \<Rightarrow> term_candidate list \<Rightarrow> 'w \<Rightarrow> (backend_error + entity_candidate list \<times> activity) \<times> 'w" where
  [code_defs]: "resolve_entities wide_alnum to_str from_str fresh now later x ts w =
     (case serialize_err (to_str ts) of
        Inl e \<Rightarrow> (Inl e, w)
      | Inr body \<Rightarrow>
          run_stage x
            (activity_with_attribute ''term_count'' (JInt (int (length ts))) (stage_activity fresh now ''entity-resolution'' x))
            later (''Terms:'' @ [CHR 0x0A] @ body) (\<lambda>r. parse_err (parse_response wide_alnum from_str r)) w)"

text \<open>\<open>uuid\<close>: the random UUID drawn for the candidate at an index.\<close>

definition candidate_node :: "hasher \<Rightarrow> bytes \<Rightarrow> bool \<Rightarrow> entity_candidate \<Rightarrow> node option" where
  [code_defs]: "candidate_node H uuid iri_required c =
     (case ec_iri c of
        Some i \<Rightarrow> Some (node_with_property ''surface'' (PString (ec_surface c)) (node_from_iri H i (ec_type_name c)))
      | None \<Rightarrow>
          if iri_required then None
          else Some (node_with_property ''surface'' (PString (ec_surface c)) (node_new H uuid (ec_type_name c))))"

definition into_nodes :: "hasher \<Rightarrow> (nat \<Rightarrow> bytes) \<Rightarrow> entity_candidate list \<Rightarrow> bool \<Rightarrow> node list" where
  [code_defs]: "into_nodes H uuid cs iri_required =
     List.map_filter (\<lambda>(i, c). candidate_node H (uuid i) iri_required c) (List.enumerate 0 cs)"

record relation_candidate =
  rc_source :: string
  rc_label :: string
  rc_target :: string
  rc_score :: "32 word"

definition extract_relations ::
    "(string \<Rightarrow> nat) \<Rightarrow> (entity_candidate list \<Rightarrow> string + string) \<Rightarrow> (string \<Rightarrow> string + relation_candidate list) \<Rightarrow> prov_id \<Rightarrow> int \<Rightarrow>
       int \<Rightarrow> 'w extractor \<Rightarrow> string \<Rightarrow> entity_candidate list \<Rightarrow> 'w \<Rightarrow> (backend_error + relation_candidate list \<times> activity) \<times> 'w" where
  [code_defs]: "extract_relations wide_alnum to_str from_str fresh now later x t es w =
     (case serialize_err (to_str es) of
        Inl e \<Rightarrow> (Inl e, w)
      | Inr body \<Rightarrow>
          run_stage x
            (activity_with_attribute ''entity_count'' (JInt (int (length es))) (stage_activity fresh now ''relation-extraction'' x))
            later (document_body t @ [CHR 0x0A] @ ''Entities: '' @ body) (\<lambda>r. parse_err (parse_response wide_alnum from_str r)) w)"

definition into_edges :: "hasher \<Rightarrow> relation_candidate list \<Rightarrow> (string \<Rightarrow> node_id option) \<Rightarrow> edge list" where
  [code_defs]: "into_edges H cs surface_to_id =
     List.map_filter (\<lambda>c.
       case surface_to_id (rc_source c) of
         None \<Rightarrow> None
       | Some s \<Rightarrow> (case surface_to_id (rc_target c) of None \<Rightarrow> None | Some t \<Rightarrow> Some (edge_between H s (rc_label c) t))) cs"

section \<open>Records\<close>

record raw_record =
  rr_iri :: "string option"
  rr_type_name :: string
  rr_properties :: "(string, json) bmap"
  rr_outbound :: "(string \<times> string) list"
  rr_source :: "string option"

text \<open>\<open>int_f64\<close>: the \<open>f64\<close> of an integer beyond the signed 64-bit range.\<close>

definition raw_value :: "(int \<Rightarrow> 64 word) \<Rightarrow> json \<Rightarrow> property_value" where
  [code_defs]: "raw_value int_f64 v =
     (case v of
        JString s \<Rightarrow> PString s
      | JInt n \<Rightarrow> if - (2 ^ 63) \<le> n \<and> n < 2 ^ 63 then PInteger (word_of_int n) else PFloat (int_f64 n)
      | JFloat f \<Rightarrow> PFloat f
      | JBool b \<Rightarrow> PBool b
      | JNull \<Rightarrow> PNull
      | other \<Rightarrow> PJson other)"

fun raw_outbound :: "(string \<times> string) list \<Rightarrow> flat_record \<Rightarrow> iri_error + flat_record" where
  "raw_outbound [] r = Inr r"
| "raw_outbound ((l, i) # xs) r =
     (case iri_new i of Inl e \<Rightarrow> Inl e | Inr i \<Rightarrow> raw_outbound xs (record_with_outbound l i r))"

definition into_record :: "hasher \<Rightarrow> bytes \<Rightarrow> (int \<Rightarrow> 64 word) \<Rightarrow> raw_record \<Rightarrow> iri_error + flat_record" where
  [code_defs]: "into_record H uuid int_f64 raw =
     try_then
       (case rr_iri raw of
          None \<Rightarrow> Inr (record_new H uuid (rr_type_name raw))
        | Some i \<Rightarrow> (case iri_new i of Inl e \<Rightarrow> Inl e | Inr i \<Rightarrow> Inr (record_with_iri H i (record_new H uuid (rr_type_name raw)))))
       (\<lambda>r. try_then
          (raw_outbound (rr_outbound raw) (fold (\<lambda>(k, v). record_with_property k (raw_value int_f64 v)) (rr_properties raw) r))
          (\<lambda>r. Inr (case rr_source raw of Some s \<Rightarrow> record_with_source s r | None \<Rightarrow> r)))"

text \<open>\<open>debug\<close>: the \<open>Debug\<close> form of a string.\<close>

definition iri_error_display :: "(string \<Rightarrow> string) \<Rightarrow> iri_error \<Rightarrow> string" where
  [code_defs]: "iri_error_display debug e =
     (case e of IriEmpty \<Rightarrow> ''iri must be non-empty'' | IriWhitespace s \<Rightarrow> ''iri must not contain whitespace: '' @ debug s)"

definition extract_record ::
    "hasher \<Rightarrow> bytes \<Rightarrow> (int \<Rightarrow> 64 word) \<Rightarrow> (string \<Rightarrow> string) \<Rightarrow> (string \<Rightarrow> nat) \<Rightarrow> (string \<Rightarrow> string + raw_record) \<Rightarrow> prov_id \<Rightarrow> int \<Rightarrow> int \<Rightarrow>
       'w extractor \<Rightarrow> string \<Rightarrow> 'w \<Rightarrow> (backend_error + flat_record \<times> activity) \<times> 'w" where
  [code_defs]: "extract_record H uuid int_f64 debug wide_alnum from_str fresh now later x row w =
     run_stage x (stage_activity fresh now ''record-extraction'' x) later (''Row:'' @ [CHR 0x0A] @ row)
       (\<lambda>r. try_then (parse_err (parse_response wide_alnum from_str r)) (\<lambda>raw.
          case into_record H uuid int_f64 raw of Inl e \<Rightarrow> Inl (BeParse (iri_error_display debug e)) | Inr rec \<Rightarrow> Inr rec)) w"

section \<open>The extractors as built\<close>

definition TERMS_PROMPT :: string where
  [code_defs]: "TERMS_PROMPT =
       ''You are an ontology engineer extracting candidate terms from a corpus. Output a JSON array of objects '' @
       ''with fields {\"surface\": string, \"score\": number in [0,1], \"category\": optional string}. Return '' @
       ''JSON only, no prose.''"

definition term_extractor_new :: "'w backend \<Rightarrow> 'w extractor" where
  [code_defs]: "term_extractor_new be =
     \<lparr>ex_backend = be, ex_system_prompt = TERMS_PROMPT, ex_agent = agent_software ''agent://atomr-ontology-extract/TermExtractor'' ''TermExtractor''\<rparr>"

definition ENTITIES_PROMPT :: string where
  [code_defs]: "ENTITIES_PROMPT =
       ''You are an ontology engineer linking surface mentions to canonical entities. For each input term, return '' @
       ''a JSON object {\"surface\": string, \"iri\": optional string, \"type_name\": string, \"score\": number '' @
       ''in [0,1], \"is_new\": bool}. Return a JSON array, no prose.''"

definition entity_resolver_new :: "'w backend \<Rightarrow> 'w extractor" where
  [code_defs]: "entity_resolver_new be =
     \<lparr>ex_backend = be, ex_system_prompt = ENTITIES_PROMPT, ex_agent = agent_software ''agent://atomr-ontology-extract/EntityResolver'' ''EntityResolver''\<rparr>"

definition RELATIONS_PROMPT :: string where
  [code_defs]: "RELATIONS_PROMPT =
       ''You are an ontology engineer proposing typed relations between entities. For the document and entity '' @
       ''list provided, return a JSON array of {\"source\": string, \"label\": string, \"target\": string, '' @
       ''\"score\": number in [0,1]} objects. Use only entity surfaces from the supplied list. Return JSON only, '' @
       ''no prose.''"

definition relation_extractor_new :: "'w backend \<Rightarrow> 'w extractor" where
  [code_defs]: "relation_extractor_new be =
     \<lparr>ex_backend = be, ex_system_prompt = RELATIONS_PROMPT, ex_agent = agent_software ''agent://atomr-ontology-extract/RelationExtractor'' ''RelationExtractor''\<rparr>"

definition RECORDS_PROMPT :: string where
  [code_defs]: "RECORDS_PROMPT =
       ''You are an ontology engineer turning a structured row into an LPG record. Return a JSON object with '' @
       ''fields {\"iri\": optional string, \"type_name\": string, \"properties\": object, \"outbound\": array of '' @
       ''[label, target_iri] pairs, \"source\": optional string}. JSON only, no prose.''"

definition record_extractor_new :: "'w backend \<Rightarrow> 'w extractor" where
  [code_defs]: "record_extractor_new be =
     \<lparr>ex_backend = be, ex_system_prompt = RECORDS_PROMPT, ex_agent = agent_software ''agent://atomr-ontology-extract/RecordExtractor'' ''RecordExtractor''\<rparr>"

section \<open>Pipelines\<close>

type_synonym ('w, 'a, 'b) stage_call = "'a \<Rightarrow> 'w \<Rightarrow> (backend_error + 'b) \<times> 'w"

definition pipeline_call :: "('w, 'a, 'b) stage_call \<Rightarrow> ('w, 'b, 'c) stage_call \<Rightarrow> ('w, 'a, 'c) stage_call" where
  [code_defs]: "pipeline_call first second input w =
     (case first input w of (Inl e, w) \<Rightarrow> (Inl e, w) | (Inr mid, w) \<Rightarrow> second mid w)"

record ('w, 'a, 'b, 'c) pipeline =
  pipe_first :: "('w, 'a, 'b) stage_call"
  pipe_second :: "('w, 'b, 'c) stage_call"

definition pipe_run :: "('w, 'a, 'b, 'c) pipeline \<Rightarrow> ('w, 'a, 'c) stage_call" where
  [code_defs]: "pipe_run p = pipeline_call (pipe_first p) (pipe_second p)"

definition pipe_then :: "('w, 'c, 'd) stage_call \<Rightarrow> ('w, 'a, 'b, 'c) pipeline \<Rightarrow> ('w, 'a, 'c, 'd) pipeline" where
  [code_defs]: "pipe_then next_stage p = \<lparr>pipe_first = pipeline_call (pipe_first p) (pipe_second p), pipe_second = next_stage\<rparr>"

datatype extract_stage = StIngest | StTerms | StEntities | StConcepts | StTaxonomy | StRelations | StCommit

definition stage_label :: "extract_stage \<Rightarrow> string" where
  [code_defs]: "stage_label s =
     (case s of StIngest \<Rightarrow> ''ingest'' | StTerms \<Rightarrow> ''terms'' | StEntities \<Rightarrow> ''entities'' | StConcepts \<Rightarrow> ''concepts''
      | StTaxonomy \<Rightarrow> ''taxonomy'' | StRelations \<Rightarrow> ''relations'' | StCommit \<Rightarrow> ''commit'')"

section \<open>Properties\<close>

lemma skip_tag_ascii:
  assumes "list_all (\<lambda>c. (of_char c :: nat) < 0x80 \<and> (c = CHR ''_'' \<or> alnum_prefix wide_alnum [c] > 0)) tag"
  shows "skip_tag wide_alnum (tag @ CHR 0x0A # s) = CHR 0x0A # s"
  using assms
proof (induction tag)
  case Nil
  have "alnum_prefix wide_alnum (CHR 0x0A # s) = 0" by (simp add: alnum_prefix_def is_ascii_digit_def)
  then show ?case by (subst skip_tag.simps) simp
next
  case (Cons c tag)
  show ?case
  proof (cases "alnum_prefix wide_alnum (c # tag @ CHR 0x0A # s) > 0")
    case True
    then have "alnum_prefix wide_alnum (c # tag @ CHR 0x0A # s) = 1"
      using Cons.prems by (auto simp: alnum_prefix_def Let_def split: if_splits)
    with Cons show ?thesis by (subst skip_tag.simps) simp
  next
    case False
    then have "c = CHR ''_''" using Cons.prems by (auto simp: alnum_prefix_def Let_def split: if_splits)
    with False Cons show ?thesis by (subst skip_tag.simps) simp
  qed
qed

lemma str_rfind_last: "sub \<noteq> [] \<Longrightarrow> str_rfind sub (a @ sub) = Some (length a)"
proof (induction a)
  case Nil
  have none: "length s < length sub \<Longrightarrow> str_rfind sub s = None" for s
    by (induction s) (auto dest: arg_cong [where f = length])
  from Nil none [of "tl sub"] show ?case by (cases sub) auto
qed auto

lemma fence_plain: "plain_char (CHR 0x60)"
  by code_simp

text \<open>An answer that the model wrapped in a code fence, with or without a language tag, is parsed as
  the body between the fences; the body may hold fences of its own.\<close>

theorem fenced_response:
  assumes "list_all (\<lambda>c. (of_char c :: nat) < 0x80 \<and> (c = CHR ''_'' \<or> alnum_prefix wide_alnum [c] > 0)) tag"
    and "body \<noteq> []" "hd body \<noteq> CHR 0x0A"
  shows "parse_response wide_alnum from_str (''```'' @ tag @ [CHR 0x0A] @ body @ ''```'') = from_str body"
proof -
  let ?s = "''```'' @ tag @ [CHR 0x0A] @ body @ ''```''"
  have "trim_start ?s = ?s" using fence_plain by simp
  moreover have "trim_end ?s = ?s"
    using trim_end_plain [OF fence_plain, of "''```'' @ tag @ [CHR 0x0A] @ body @ ''``''"] by simp
  ultimately have trimmed: "trim ?s = ?s" by (simp add: trim_def)
  have "skip_tag wide_alnum (drop 3 ?s) = CHR 0x0A # body @ ''```''" using skip_tag_ascii [OF assms(1)] by simp
  moreover have "dropWhile (\<lambda>c. c = CHR 0x0A) (CHR 0x0A # body @ ''```'') = body @ ''```''" using assms(2,3) by (cases body) auto
  moreover have "str_rfind ''```'' (body @ ''```'') = Some (length body)" by (rule str_rfind_last) simp
  ultimately show ?thesis by (simp only: parse_response_def strip_code_fence_def trimmed Let_def) simp
qed

lemma fenced_response_witness:
  "parse_response (\<lambda>_. 0) (\<lambda>s. Inr s) (''```json'' @ [CHR 0x0A] @ ''[1]'' @ ''```'') = Inr ''[1]''"
proof -
  have "list_all (\<lambda>c. (of_char c :: nat) < 0x80 \<and> (c = CHR ''_'' \<or> alnum_prefix (\<lambda>_. 0) [c] > 0)) ''json''" by code_simp
  from fenced_response [OF this, of "''[1]''" "\<lambda>s. Inr s"] show ?thesis by simp
qed

text \<open>Appending a stage to a pipeline runs the stages in order, stopping at the first error, however
  the pipeline was put together.\<close>

theorem pipeline_in_order:
  "pipe_run (pipe_then g (pipe_then f p)) x w =
     pipeline_call (pipe_first p) (pipeline_call (pipe_second p) (pipeline_call f g)) x w"
proof (cases "pipe_first p x w")
  case (Pair r w1)
  then show ?thesis
  proof (cases r)
    case (Inr y)
    with Pair show ?thesis
      by (cases "pipe_second p y w1") (auto simp: pipe_run_def pipe_then_def pipeline_call_def split: sum.splits prod.splits)
  qed (simp add: pipe_run_def pipe_then_def pipeline_call_def)
qed

end
