(* ===== verification/Extract_Agent.thy ===== *)
theory Extract_Agent
  imports Extract_Stages
begin

text \<open>
  \<open>crates/atomr-ontology-extract/src/agentic.rs\<close> and \<open>store_tools.rs\<close>: sessions of a tool-using agent, and the
  tools over a store. The driver of a session is outside the repository: a function over a world \<open>'w\<close>,
  which for the tools is the state of the store.
\<close>

section \<open>Sessions\<close>

record 'w tool_spec =
  tool_name :: string
  tool_description :: string
  tool_schema :: json
  tool_handler :: "json \<Rightarrow> 'w \<Rightarrow> (backend_error + json) \<times> 'w"

datatype stop_condition = NoMoreToolCalls | FirstJsonMatching string | FixedTurns "32 word"

record turn_record =
  turn_role :: string
  turn_text :: string

record tool_call_record =
  call_tool :: string
  call_arguments :: json
  call_result :: json

record 'w agentic_session =
  as_system :: "string option"
  as_seed_user :: string
  as_tools :: "'w tool_spec list"
  as_max_turns :: "32 word"
  as_stop_on :: stop_condition

definition session_new :: "string \<Rightarrow> 'w agentic_session" where
  [code_defs]: "session_new seed =
     \<lparr>as_system = None, as_seed_user = seed, as_tools = [], as_max_turns = 8, as_stop_on = NoMoreToolCalls\<rparr>"

definition session_with_system :: "string \<Rightarrow> 'w agentic_session \<Rightarrow> 'w agentic_session" where
  [code_defs]: "session_with_system body s = s\<lparr>as_system := Some body\<rparr>"

definition session_with_tool :: "'w tool_spec \<Rightarrow> 'w agentic_session \<Rightarrow> 'w agentic_session" where
  [code_defs]: "session_with_tool t s = s\<lparr>as_tools := as_tools s @ [t]\<rparr>"

definition session_with_tools :: "'w tool_spec list \<Rightarrow> 'w agentic_session \<Rightarrow> 'w agentic_session" where
  [code_defs]: "session_with_tools ts s = s\<lparr>as_tools := ts\<rparr>"

definition session_with_max_turns :: "32 word \<Rightarrow> 'w agentic_session \<Rightarrow> 'w agentic_session" where
  [code_defs]: "session_with_max_turns n s = s\<lparr>as_max_turns := n\<rparr>"

definition session_with_stop_on :: "stop_condition \<Rightarrow> 'w agentic_session \<Rightarrow> 'w agentic_session" where
  [code_defs]: "session_with_stop_on c s = s\<lparr>as_stop_on := c\<rparr>"

record agentic_outcome =
  ao_final_text :: string
  ao_turns :: "turn_record list"
  ao_tool_invocations :: "tool_call_record list"

definition outcome_from_text :: "string \<Rightarrow> agentic_outcome" where
  [code_defs]: "outcome_from_text t = \<lparr>ao_final_text = t, ao_turns = [], ao_tool_invocations = []\<rparr>"

record 'w agentic_driver =
  dr_run_session :: "'w agentic_session \<Rightarrow> 'w \<Rightarrow> (backend_error + agentic_outcome) \<times> 'w"
  dr_complete_one :: "prompt \<Rightarrow> 'w \<Rightarrow> (backend_error + string) \<times> 'w"

record 'w agentic_agent =
  aa_label :: string
  aa_inner :: "'w agentic_driver"

definition agent_run :: "'w agentic_agent \<Rightarrow> 'w agentic_session \<Rightarrow> 'w \<Rightarrow> (backend_error + agentic_outcome) \<times> 'w" where
  [code_defs]: "agent_run a s w = dr_run_session (aa_inner a) s w"

definition agent_backend :: "'w agentic_agent \<Rightarrow> 'w backend" where
  [code_defs]: "agent_backend a = \<lparr>be_complete = dr_complete_one (aa_inner a), be_label = aa_label a\<rparr>"

section \<open>Tools over a store\<close>

definition string_arg :: "json \<Rightarrow> string \<Rightarrow> backend_error + string" where
  [code_defs]: "string_arg args key =
     (case (case args of JObject m \<Rightarrow> map_of m key | _ \<Rightarrow> None) of
        Some (JString s) \<Rightarrow> Inr s
      | _ \<Rightarrow> Inl (BeParse (''missing string arg `'' @ key @ ''`'')))"

definition tool_snapshot :: "'s store_ops \<Rightarrow> 's \<Rightarrow> (backend_error + ontology) \<times> 's" where
  [code_defs]: "tool_snapshot ops s =
     (case op_snapshot ops s of
        (Inl e, s) \<Rightarrow> (Inl (BeOther (''store snapshot: '' @ store_error_display e)), s)
      | (Inr o', s) \<Rightarrow> (Inr o', s))"

text \<open>The body of a handler: the argument first, when it has one, then the snapshot.\<close>

definition with_snapshot :: "'s store_ops \<Rightarrow> (ontology \<Rightarrow> json) \<Rightarrow> 's \<Rightarrow> (backend_error + json) \<times> 's" where
  [code_defs]: "with_snapshot ops f s =
     (case tool_snapshot ops s of (Inl e, s) \<Rightarrow> (Inl e, s) | (Inr snap, s) \<Rightarrow> (Inr (f snap), s))"

definition with_arg :: "'s store_ops \<Rightarrow> string \<Rightarrow> (string \<Rightarrow> ontology \<Rightarrow> json) \<Rightarrow> json \<Rightarrow> 's \<Rightarrow> (backend_error + json) \<times> 's" where
  [code_defs]: "with_arg ops key f args s =
     (case string_arg args key of Inl e \<Rightarrow> (Inl e, s) | Inr x \<Rightarrow> with_snapshot ops (f x) s)"

definition no_arg_schema :: json where
  [code_defs]: "no_arg_schema = JObject [(''properties'', JObject []), (''type'', JString ''object'')]"

definition one_arg_schema :: "string \<Rightarrow> json" where
  [code_defs]: "one_arg_schema k =
     JObject [(''properties'', JObject [(k, JObject [(''type'', JString ''string'')])]), (''required'', JArray [JString k]),
              (''type'', JString ''object'')]"

definition class_exists_tool :: "'s store_ops \<Rightarrow> 's tool_spec" where
  [code_defs]: "class_exists_tool ops =
     \<lparr>tool_name = ''class_exists'',
      tool_description = ''Check whether a class (node type) with the given name is already declared in the ontology.'',
      tool_schema = one_arg_schema ''name'',
      tool_handler = with_arg ops ''name'' (\<lambda>name snap.
        JObject [(''exists'', JBool (bm_contains (s_node_types (o_schema snap)) name))])\<rparr>"

definition list_classes_tool :: "'s store_ops \<Rightarrow> 's tool_spec" where
  [code_defs]: "list_classes_tool ops =
     \<lparr>tool_name = ''list_classes'', tool_description = ''List every class (node type) currently declared in the ontology.'',
      tool_schema = no_arg_schema,
      tool_handler = (\<lambda>_. with_snapshot ops (\<lambda>snap.
        JObject [(''classes'', JArray (map JString (bm_keys (s_node_types (o_schema snap)))))]))\<rparr>"

definition list_edge_types_tool :: "'s store_ops \<Rightarrow> 's tool_spec" where
  [code_defs]: "list_edge_types_tool ops =
     \<lparr>tool_name = ''list_edge_types'',
      tool_description = ''List every edge type (property / relation label) currently declared in the ontology.'',
      tool_schema = no_arg_schema,
      tool_handler = (\<lambda>_. with_snapshot ops (\<lambda>snap.
        JObject [(''edge_types'', JArray (map JString (bm_keys (s_edge_types (o_schema snap)))))]))\<rparr>"

definition count_instances_tool :: "'s store_ops \<Rightarrow> 's tool_spec" where
  [code_defs]: "count_instances_tool ops =
     \<lparr>tool_name = ''count_instances'', tool_description = ''Count nodes whose declared type matches the given name.'',
      tool_schema = one_arg_schema ''type'',
      tool_handler = with_arg ops ''type'' (\<lambda>ty snap.
        JObject [(''count'', JInt (int (length (filter (\<lambda>n. has_type n ty) (bm_values (o_nodes snap))))))])\<rparr>"

definition subclasses_of_tool :: "'s store_ops \<Rightarrow> 's tool_spec" where
  [code_defs]: "subclasses_of_tool ops =
     \<lparr>tool_name = ''subclasses_of'',
      tool_description = ''List declared classes whose direct supertype list contains the given class.'',
      tool_schema = one_arg_schema ''class'',
      tool_handler = with_arg ops ''class'' (\<lambda>class_name snap.
        JObject [(''subclasses'', JArray (map (\<lambda>(name, ty). JString name)
          (filter (\<lambda>(name, ty). list_ex (\<lambda>s. s = class_name) (nt_supertypes ty)) (s_node_types (o_schema snap)))))])\<rparr>"

definition supertypes_of_tool :: "'s store_ops \<Rightarrow> 's tool_spec" where
  [code_defs]: "supertypes_of_tool ops =
     \<lparr>tool_name = ''supertypes_of'',
      tool_description = ''Return the transitive supertype chain for the given class (depth-first).'',
      tool_schema = one_arg_schema ''class'',
      tool_handler = with_arg ops ''class'' (\<lambda>class_name snap.
        JObject [(''supertypes'', JArray (map JString (supertypes_of (o_schema snap) class_name)))])\<rparr>"

text \<open>\<open>format!("{:?}", p.datatype).to_lowercase()\<close>\<close>

definition datatype_word :: "datatype_tag \<Rightarrow> string" where
  [code_defs]: "datatype_word d =
     (case d of DString \<Rightarrow> ''string'' | DInteger \<Rightarrow> ''integer'' | DFloat \<Rightarrow> ''float'' | DBool \<Rightarrow> ''bool''
      | DDateTime \<Rightarrow> ''datetime'' | DIri \<Rightarrow> ''iri'' | DBytes \<Rightarrow> ''bytes'' | DJson \<Rightarrow> ''json'')"

definition properties_of_tool :: "'s store_ops \<Rightarrow> 's tool_spec" where
  [code_defs]: "properties_of_tool ops =
     \<lparr>tool_name = ''properties_of'', tool_description = ''List declared properties (name + datatype) for the given class.'',
      tool_schema = one_arg_schema ''class'',
      tool_handler = with_arg ops ''class'' (\<lambda>class_name snap.
        JObject [(''properties'', JArray
          (case node_type (o_schema snap) class_name of
             Some ty \<Rightarrow> map (\<lambda>p. JObject [(''datatype'', JString (datatype_word (pt_datatype p))), (''name'', JString (pt_name p))]) (nt_props ty)
           | None \<Rightarrow> []))])\<rparr>"

definition default_store_tools :: "'s store_ops \<Rightarrow> 's tool_spec list" where
  [code_defs]: "default_store_tools ops =
     [class_exists_tool ops, list_classes_tool ops, list_edge_types_tool ops, count_instances_tool ops, subclasses_of_tool ops,
      supertypes_of_tool ops, properties_of_tool ops]"

section \<open>What the tools do\<close>

lemmas tool_defs = class_exists_tool_def list_classes_tool_def list_edge_types_tool_def count_instances_tool_def
  subclasses_of_tool_def supertypes_of_tool_def properties_of_tool_def

lemma mem_with_snapshot [simp]: "with_snapshot mem_ops f s = (Inr (f (ms_ont s)), s)"
  by (simp add: with_snapshot_def tool_snapshot_def mem_ops_def op_read_def mem_snapshot_def)

lemma mem_with_arg: "with_arg mem_ops key f (JObject [(key, JString x)]) s = (Inr (f x (ms_ont s)), s)"
  by (simp add: with_arg_def string_arg_def)

lemma with_arg_reads: "snd (with_arg mem_ops key f args s) = s"
  by (simp add: with_arg_def split: sum.split)

text \<open>The tools an agent gets over the memory store only read it: whatever arguments the model sends,
  the store is as before.\<close>

theorem store_tools_read_only:
  assumes "t \<in> set (default_store_tools mem_ops)"
  shows "snd (tool_handler t args s) = s"
  using assms by (auto simp: default_store_tools_def tool_defs with_arg_reads)

lemma store_tools_read_only_witness: "\<forall>s. snd (tool_handler (list_classes_tool mem_ops) JNull s) = s"
  using store_tools_read_only [of "list_classes_tool mem_ops" JNull] by (simp add: default_store_tools_def)

text \<open>The supertypes tool reports the class itself and exactly the classes above it in the declared
  hierarchy, and the subclasses tool exactly the declared classes one step below.\<close>

theorem hierarchy_tools_exact:
  "\<exists>ups downs.
     tool_handler (supertypes_of_tool mem_ops) (JObject [(''class'', JString c)]) s =
       (Inr (JObject [(''supertypes'', JArray (map JString ups))]), s) \<and>
     set ups = {d. (c, d) \<in> (supertype_rel (o_schema (ms_ont s)))\<^sup>*} \<and>
     tool_handler (subclasses_of_tool mem_ops) (JObject [(''class'', JString c)]) s =
       (Inr (JObject [(''subclasses'', JArray (map JString downs))]), s) \<and>
     set downs = {b. \<exists>ty. (b, ty) \<in> set (s_node_types (o_schema (ms_ont s))) \<and> c \<in> set (nt_supertypes ty)}"
proof (intro exI conjI)
  let ?downs = "map fst (filter (\<lambda>(name, ty). list_ex (\<lambda>s. s = c) (nt_supertypes ty)) (s_node_types (o_schema (ms_ont s))))"
  show "tool_handler (supertypes_of_tool mem_ops) (JObject [(''class'', JString c)]) s =
      (Inr (JObject [(''supertypes'', JArray (map JString (supertypes_of (o_schema (ms_ont s)) c)))]), s)"
    by (simp add: supertypes_of_tool_def mem_with_arg)
  show "set (supertypes_of (o_schema (ms_ont s)) c) = {d. (c, d) \<in> (supertype_rel (o_schema (ms_ont s)))\<^sup>*}"
    by (auto simp: supertypes_of_set)
  show "tool_handler (subclasses_of_tool mem_ops) (JObject [(''class'', JString c)]) s =
      (Inr (JObject [(''subclasses'', JArray (map JString ?downs))]), s)"
    by (simp add: subclasses_of_tool_def mem_with_arg comp_def case_prod_unfold)
  show "set ?downs = {b. \<exists>ty. (b, ty) \<in> set (s_node_types (o_schema (ms_ont s))) \<and> c \<in> set (nt_supertypes ty)}"
    by (force simp: list_ex_iff)
qed

end
