(* ===== verification/Induce.thy ===== *)
theory Induce
  imports Extract_Agent
begin

text \<open>
  \<open>crates/atomr-ontology-induce/src\<close>: concept formation (\<open>concepts.rs\<close>), taxonomy induction
  (\<open>taxonomy.rs\<close>), axiom mining (\<open>axioms.rs\<close>) and their agent-driven variants (\<open>taxonomy_agentic.rs\<close>,
  \<open>axioms_agentic.rs\<close>), on the stages and sessions of the extract crate.
\<close>

section \<open>Concepts\<close>

record concept_cluster =
  cc_name :: string
  cc_members :: "string list"
  cc_description :: "string option"
  cc_score :: "32 word"

definition into_node_type :: "concept_cluster \<Rightarrow> node_type" where
  [code_defs]: "into_node_type c =
     (case cc_description c of Some d \<Rightarrow> nt_with_description d (nt_new (cc_name c)) | None \<Rightarrow> nt_new (cc_name c))"

definition cluster_concepts ::
    "(string \<Rightarrow> nat) \<Rightarrow> (term_candidate list \<Rightarrow> string + string) \<Rightarrow> (string \<Rightarrow> string + concept_cluster list) \<Rightarrow> prov_id \<Rightarrow> int \<Rightarrow> int \<Rightarrow>
       'w extractor \<Rightarrow> term_candidate list \<Rightarrow> 'w \<Rightarrow> (backend_error + concept_cluster list \<times> activity) \<times> 'w" where
  [code_defs]: "cluster_concepts wide_alnum to_str from_str fresh now later x ts w =
     (case serialize_err (to_str ts) of
        Inl e \<Rightarrow> (Inl e, w)
      | Inr body \<Rightarrow>
          run_stage x
            (activity_with_attribute ''term_count'' (JInt (int (length ts))) (stage_activity fresh now ''concept-formation'' x))
            later (''Terms: '' @ body) (\<lambda>r. parse_err (parse_response wide_alnum from_str r)) w)"

section \<open>Taxonomies\<close>

record subclass_proposal =
  sp_sub :: string
  sp_sup :: string
  sp_score :: "32 word"

definition induce_taxonomy ::
    "(string \<Rightarrow> nat) \<Rightarrow> (string list \<Rightarrow> string + string) \<Rightarrow> (string \<Rightarrow> string + subclass_proposal list) \<Rightarrow> prov_id \<Rightarrow> int \<Rightarrow> int \<Rightarrow>
       'w extractor \<Rightarrow> string list \<Rightarrow> 'w \<Rightarrow> (backend_error + subclass_proposal list \<times> activity) \<times> 'w" where
  [code_defs]: "induce_taxonomy wide_alnum to_str from_str fresh now later x classes w =
     (case serialize_err (to_str classes) of
        Inl e \<Rightarrow> (Inl e, w)
      | Inr body \<Rightarrow>
          run_stage x
            (activity_with_attribute ''candidate_count'' (JInt (int (length classes))) (stage_activity fresh now ''taxonomy-induction'' x))
            later (''Classes: '' @ body) (\<lambda>r. parse_err (parse_response wide_alnum from_str r)) w)"

definition into_axioms :: "hasher \<Rightarrow> subclass_proposal list \<Rightarrow> prov_id option \<Rightarrow> axiom_rec list" where
  [code_defs]: "into_axioms H proposals provenance =
     map (\<lambda>p.
       let a = axiom_new H (SubClassOf (sp_sub p) (sp_sup p))
       in case provenance of Some pid \<Rightarrow> axiom_with_provenance pid a | None \<Rightarrow> a) proposals"

section \<open>Axioms\<close>

datatype axiom_proposal =
    ApSubClassOf string string "32 word"
  | ApEquivalentClass string string "32 word"
  | ApDisjointWith string string "32 word"
  | ApDomain string string "32 word"
  | ApRange string string "32 word"
  | ApFunctional string "32 word"
  | ApInverseFunctional string "32 word"
  | ApInverseOf string string "32 word"
  | ApSymmetric string "32 word"
  | ApTransitive string "32 word"

fun proposed_kind :: "axiom_proposal \<Rightarrow> axiom_kind" where
  "proposed_kind (ApSubClassOf a b _) = SubClassOf a b"
| "proposed_kind (ApEquivalentClass a b _) = EquivalentClass a b"
| "proposed_kind (ApDisjointWith a b _) = DisjointWith a b"
| "proposed_kind (ApDomain p c _) = Domain p c"
| "proposed_kind (ApRange p c _) = Range p c"
| "proposed_kind (ApFunctional p _) = Functional p"
| "proposed_kind (ApInverseFunctional p _) = InverseFunctional p"
| "proposed_kind (ApInverseOf a b _) = InverseOf a b"
| "proposed_kind (ApSymmetric p _) = Symmetric p"
| "proposed_kind (ApTransitive p _) = Transitive p"

definition proposal_axiom :: "hasher \<Rightarrow> axiom_proposal \<Rightarrow> axiom_rec" where
  [code_defs]: "proposal_axiom H p = axiom_new H (proposed_kind p)"

definition context_body :: "string \<Rightarrow> string" where
  [code_defs]: "context_body c = ''Context:'' @ [CHR 0x0A] @ c"

definition mine_axioms ::
    "(string \<Rightarrow> nat) \<Rightarrow> (string \<Rightarrow> string + axiom_proposal list) \<Rightarrow> prov_id \<Rightarrow> int \<Rightarrow> int \<Rightarrow> 'w extractor \<Rightarrow> string \<Rightarrow> 'w \<Rightarrow>
       (backend_error + axiom_proposal list \<times> activity) \<times> 'w" where
  [code_defs]: "mine_axioms wide_alnum from_str fresh now later x c w =
     run_stage x (stage_activity fresh now ''axiom-mining'' x) later (context_body c)
       (\<lambda>r. parse_err (parse_response wide_alnum from_str r)) w"

section \<open>Agent-driven variants\<close>

record 'w agentic_inducer =
  ai_agent :: "'w agentic_agent"
  ai_system_prompt :: string
  ai_tools :: "'w tool_spec list"
  ai_max_turns :: "32 word"
  ai_agent_ref :: agent_ref

definition ai_with_system_prompt :: "string \<Rightarrow> 'w agentic_inducer \<Rightarrow> 'w agentic_inducer" where
  [code_defs]: "ai_with_system_prompt p x = x\<lparr>ai_system_prompt := p\<rparr>"

definition ai_with_max_turns :: "32 word \<Rightarrow> 'w agentic_inducer \<Rightarrow> 'w agentic_inducer" where
  [code_defs]: "ai_with_max_turns n x = x\<lparr>ai_max_turns := n\<rparr>"

definition inducer_activity :: "prov_id \<Rightarrow> int \<Rightarrow> string \<Rightarrow> 'w agentic_inducer \<Rightarrow> activity" where
  [code_defs]: "inducer_activity fresh now label x =
     activity_with_attribute ''backend'' (JString (aa_label (ai_agent x))) (activity_by (ai_agent_ref x) (activity_started fresh now label))"

definition run_agentic ::
    "'w agentic_inducer \<Rightarrow> activity \<Rightarrow> int \<Rightarrow> string \<Rightarrow> (string \<Rightarrow> backend_error + 'a) \<Rightarrow> 'w \<Rightarrow> (backend_error + 'a \<times> activity) \<times> 'w" where
  [code_defs]: "run_agentic x a later seed parse w =
     (case agent_run (ai_agent x)
             (session_with_max_turns (ai_max_turns x) (session_with_tools (ai_tools x)
                (session_with_system (ai_system_prompt x) (session_new seed)))) w of
        (Inl e, w) \<Rightarrow> (Inl e, w)
      | (Inr outcome, w) \<Rightarrow>
          (case parse (ao_final_text outcome) of
             Inl e \<Rightarrow> (Inl e, w)
           | Inr r \<Rightarrow>
               (Inr (r, activity_finish later
                  (activity_with_attribute ''turns'' (JInt (int (length (ao_turns outcome))))
                    (activity_with_attribute ''tool_calls'' (JInt (int (length (ao_tool_invocations outcome)))) a))), w)))"

definition agentic_induce ::
    "(string \<Rightarrow> nat) \<Rightarrow> (string list \<Rightarrow> string + string) \<Rightarrow> (string \<Rightarrow> string + subclass_proposal list) \<Rightarrow> prov_id \<Rightarrow> int \<Rightarrow> int \<Rightarrow>
       'w agentic_inducer \<Rightarrow> string list \<Rightarrow> 'w \<Rightarrow> (backend_error + subclass_proposal list \<times> activity) \<times> 'w" where
  [code_defs]: "agentic_induce wide_alnum to_str from_str fresh now later x classes w =
     (case serialize_err (to_str classes) of
        Inl e \<Rightarrow> (Inl e, w)
      | Inr body \<Rightarrow>
          run_agentic x
            (activity_with_attribute ''candidate_count'' (JInt (int (length classes)))
              (inducer_activity fresh now ''taxonomy-induction-agentic'' x))
            later (''Classes: '' @ body) (\<lambda>r. parse_err (parse_response wide_alnum from_str r)) w)"

definition agentic_mine ::
    "(string \<Rightarrow> nat) \<Rightarrow> (string \<Rightarrow> string + axiom_proposal list) \<Rightarrow> prov_id \<Rightarrow> int \<Rightarrow> int \<Rightarrow> 'w agentic_inducer \<Rightarrow> string \<Rightarrow> 'w \<Rightarrow>
       (backend_error + axiom_proposal list \<times> activity) \<times> 'w" where
  [code_defs]: "agentic_mine wide_alnum from_str fresh now later x c w =
     run_agentic x (inducer_activity fresh now ''axiom-mining-agentic'' x) later (context_body c)
       (\<lambda>r. parse_err (parse_response wide_alnum from_str r)) w"

section \<open>The inducers as built\<close>

definition CONCEPTS_PROMPT :: string where
  [code_defs]: "CONCEPTS_PROMPT =
       ''You are an ontology engineer clustering surface terms into concepts (candidate classes). For each '' @
       ''cluster, pick a canonical name. Return a JSON array of {\"name\": string, \"members\": [string], '' @
       ''\"description\": optional string, \"score\": optional number}. JSON only.''"

definition concept_former_new :: "'w backend \<Rightarrow> 'w extractor" where
  [code_defs]: "concept_former_new be =
     \<lparr>ex_backend = be, ex_system_prompt = CONCEPTS_PROMPT, ex_agent = agent_software ''agent://atomr-ontology-induce/ConceptFormer'' ''ConceptFormer''\<rparr>"

definition TAXONOMY_PROMPT :: string where
  [code_defs]: "TAXONOMY_PROMPT =
       ''You are an ontology engineer proposing subclass-of relations. For each candidate class, decide which of '' @
       ''the other candidates is a more general supertype. Return a JSON array of {\"sub\": string, \"sup\": '' @
       ''string, \"score\": number in [0,1]}. Return JSON only, no prose.''"

definition taxonomy_inducer_new :: "'w backend \<Rightarrow> 'w extractor" where
  [code_defs]: "taxonomy_inducer_new be =
     \<lparr>ex_backend = be, ex_system_prompt = TAXONOMY_PROMPT, ex_agent = agent_software ''agent://atomr-ontology-induce/TaxonomyInducer'' ''TaxonomyInducer''\<rparr>"

definition AXIOMS_PROMPT :: string where
  [code_defs]: "AXIOMS_PROMPT =
       ''You are an ontology engineer proposing OWL axioms. Given a schema sketch and example assertions, return '' @
       ''a JSON array of axiom proposals shaped as {\"kind\": one of [sub_class_of, equivalent_class, '' @
       ''disjoint_with, domain, range, functional, inverse_functional, inverse_of, symmetric, transitive], plus '' @
       ''the appropriate operand fields, plus a \"score\" in [0,1]}. JSON only, no prose.''"

definition axiom_miner_new :: "'w backend \<Rightarrow> 'w extractor" where
  [code_defs]: "axiom_miner_new be =
     \<lparr>ex_backend = be, ex_system_prompt = AXIOMS_PROMPT, ex_agent = agent_software ''agent://atomr-ontology-induce/AxiomMiner'' ''AxiomMiner''\<rparr>"

definition AGENTIC_TAXONOMY_PROMPT :: string where
  [code_defs]: "AGENTIC_TAXONOMY_PROMPT =
       ''You are an ontology engineer proposing subclass-of relations. For each candidate class, decide which of '' @
       ''the other candidates is a more general supertype. You have tools to inspect the live ontology '' @
       [CHR 0xE2, CHR 0x80, CHR 0x94] @
       '' use `class_exists`, `supertypes_of`, and `subclasses_of` to avoid proposing cycles or duplicating '' @
       ''existing relations. When you are finished, return a JSON array of {\"sub\": string, \"sup\": string, '' @
       ''\"score\": number in [0,1]} as your final message. JSON only, no prose.''"

definition agentic_taxonomy_new :: "'w agentic_agent \<Rightarrow> 'w tool_spec list \<Rightarrow> 'w agentic_inducer" where
  [code_defs]: "agentic_taxonomy_new agent tools =
     \<lparr>ai_agent = agent, ai_system_prompt = AGENTIC_TAXONOMY_PROMPT, ai_tools = tools, ai_max_turns = 8,
      ai_agent_ref = agent_software ''agent://atomr-ontology-induce/AgenticTaxonomyInducer'' ''AgenticTaxonomyInducer''\<rparr>"

definition AGENTIC_AXIOMS_PROMPT :: string where
  [code_defs]: "AGENTIC_AXIOMS_PROMPT =
       ''You are an ontology engineer proposing OWL axioms. Given a schema sketch and example assertions, you '' @
       ''have tools to inspect the live ontology '' @
       [CHR 0xE2, CHR 0x80, CHR 0x94] @
       '' use `class_exists`, `list_classes`, `list_edge_types`, `supertypes_of`, and `properties_of` to verify '' @
       ''each axiom against the schema before proposing it. When you are finished, return a JSON array of axiom '' @
       ''proposals shaped as {\"kind\": one of [sub_class_of, equivalent_class, disjoint_with, domain, range, '' @
       ''functional, inverse_functional, inverse_of, symmetric, transitive], plus the appropriate operand fields, '' @
       ''plus a \"score\" in [0,1]} as your final message. JSON only, no prose.''"

definition agentic_miner_new :: "'w agentic_agent \<Rightarrow> 'w tool_spec list \<Rightarrow> 'w agentic_inducer" where
  [code_defs]: "agentic_miner_new agent tools =
     \<lparr>ai_agent = agent, ai_system_prompt = AGENTIC_AXIOMS_PROMPT, ai_tools = tools, ai_max_turns = 12,
      ai_agent_ref = agent_software ''agent://atomr-ontology-induce/AgenticAxiomMiner'' ''AgenticAxiomMiner''\<rparr>"

section \<open>Properties\<close>

text \<open>The agent-driven inducer proposes what the plain one proposes when the agent ends on the text
  the model would have answered, and fails with the same error when that text does not parse.\<close>

theorem agentic_agrees:
  assumes "fst (dr_run_session (aa_inner (ai_agent y))
      (session_with_max_turns (ai_max_turns y) (session_with_tools (ai_tools y)
        (session_with_system (ai_system_prompt y) (session_new (context_body c))))) w) = Inr outcome"
    and "fst (be_complete (ex_backend x) (prompt_with_system (ex_system_prompt x) (prompt_user (context_body c))) w) = Inr (ao_final_text outcome)"
  shows "map_sum id fst (fst (agentic_mine wide_alnum from_str fresh now later y c w)) =
    map_sum id fst (fst (mine_axioms wide_alnum from_str fresh' now' later' x c w))"
  using assms
  by (auto simp: agentic_mine_def mine_axioms_def run_agentic_def run_stage_def agent_run_def split: prod.splits sum.splits)

definition sample_driver :: "unit agentic_driver" where
  [code_defs]: "sample_driver = \<lparr>dr_run_session = (\<lambda>_ w. (Inr (outcome_from_text ''x''), w)), dr_complete_one = (\<lambda>_ w. (Inr ''x'', w))\<rparr>"

definition sample_agent :: "unit agentic_agent" where
  [code_defs]: "sample_agent = \<lparr>aa_label = ''a'', aa_inner = sample_driver\<rparr>"

definition sample_inducer :: "unit agentic_inducer" where
  [code_defs]: "sample_inducer =
     \<lparr>ai_agent = sample_agent, ai_system_prompt = '''', ai_tools = [], ai_max_turns = 12, ai_agent_ref = agent_software '''' ''''\<rparr>"

definition sample_miner :: "unit extractor" where
  [code_defs]: "sample_miner = \<lparr>ex_backend = agent_backend sample_agent, ex_system_prompt = '''', ex_agent = agent_software '''' ''''\<rparr>"

lemma agentic_agrees_witness:
  "\<forall>c. map_sum id fst (fst (agentic_mine (\<lambda>_. 0) (\<lambda>_. Inr [ApTransitive ''p'' 0]) (ProvId []) 0 1 sample_inducer c ())) =
    map_sum id fst (fst (mine_axioms (\<lambda>_. 0) (\<lambda>_. Inr [ApTransitive ''p'' 0]) (ProvId []) 2 3 sample_miner c ()))"
  by (intro allI agentic_agrees [of _ _ _ "outcome_from_text ''x''"])
    (simp_all add: sample_inducer_def sample_agent_def sample_driver_def sample_miner_def agent_backend_def outcome_from_text_def)

end
