(* ===== verification/Std_Float.thy ===== *)
theory Std_Float
  imports Mem_Store "HOL-Library.Log_Nat" "HOL-Library.Word"
begin

text \<open>
  The standard library's \<open>f32\<close> and \<open>f64\<close> as far as the sources compute with them: IEEE 754 arithmetic,
  rounding to nearest with ties to even. A finite value is a sign and a natural number of the format's
  smallest steps (\<open>2^-1074\<close> for \<open>f64\<close>, \<open>2^-149\<close> for \<open>f32\<close>), so exact results are fractions of naturals and
  one function, \<open>round_to\<close>, rounds them. The payload of a NaN is not kept. Stored \<open>f32\<close> values are their
  32 bits.
\<close>

section \<open>Rounding\<close>

text \<open>\<open>num / den\<close> to the nearest natural of at most \<open>p\<close> significant bits.\<close>

definition round_to :: "nat \<Rightarrow> nat \<Rightarrow> nat \<Rightarrow> nat" where
  [code_defs]: "round_to p num den =
     (let k = floorlog 2 (num div den) - p;
          g = den * 2 ^ k;
          q = num div g;
          r = num mod g
      in (if 2 * r > g \<or> (2 * r = g \<and> odd q) then q + 1 else q) * 2 ^ k)"

definition fits :: "nat \<Rightarrow> nat \<Rightarrow> bool" where
  "fits p y \<longleftrightarrow> (\<exists>c j. y = c * 2 ^ j \<and> c \<le> 2 ^ p)"

lemma fits_small: "y \<le> 2 ^ p \<Longrightarrow> fits p y"
  unfolding fits_def by (intro exI [of _ y] exI [of _ 0]) simp

lemma fits_mult: "c \<le> 2 ^ p \<Longrightarrow> fits p (c * 2 ^ j)"
  unfolding fits_def by blast

lemma fits_power [simp]: "fits p (2 ^ j)"
  using fits_mult [of 1 p j] by simp

text \<open>A number of few bits that is not below the value of the fraction lies on the fraction's grid.\<close>

lemma below_grid:
  assumes "p > 0" "n < 2 ^ (p + k)" "k = 0 \<or> 2 ^ (p + k - 1) \<le> n" "fits p y" "n \<le> y"
  shows "2 ^ k dvd y"
proof (cases "k = 0")
  case False
  with assms(3,5) have y: "2 ^ (p + k - 1) \<le> y" by simp
  obtain c j where cj: "y = c * 2 ^ j" "c \<le> 2 ^ p" using assms(4) by (auto simp: fits_def)
  have "(2::nat) ^ (p + k - 1) \<le> 2 ^ (p + j)"
    using y cj by (metis le_trans mult_le_mono1 power_add)
  then have j: "k - 1 \<le> j" by simp
  show ?thesis
  proof (cases "k \<le> j")
    case True
    then show ?thesis using cj(1) by (simp add: le_imp_power_dvd)
  next
    case False
    then have jk: "j = k - 1" using j by simp
    have "p + k - 1 = p + (k - 1)" using \<open>k \<noteq> 0\<close> by simp
    then have "2 ^ p * (2::nat) ^ (k - 1) \<le> c * 2 ^ (k - 1)" using y cj(1) jk by (simp add: power_add)
    then have "c = 2 ^ p" using cj(2) by simp
    then have "y = 2 ^ (p + (k - 1))" using cj(1) jk by (simp add: power_add)
    then show ?thesis using \<open>p > 0\<close> \<open>k \<noteq> 0\<close> by (simp add: le_imp_power_dvd)
  qed
qed simp

lemma grid_bits:
  assumes "k = floorlog 2 n - p"
  shows "n < 2 ^ (p + k)" "k = 0 \<or> 2 ^ (p + k - 1) \<le> n"
proof -
  have pk: "k \<noteq> 0 \<Longrightarrow> p + k = floorlog 2 n" using assms by simp
  show "n < 2 ^ (p + k)"
  proof (cases "n = 0")
    case False
    then have "n < 2 ^ floorlog 2 n" using floorlog_bounds [of n 2] by simp
    also have "\<dots> \<le> 2 ^ (p + k)" using assms by (intro power_increasing) auto
    finally show ?thesis .
  qed simp
  show "k = 0 \<or> 2 ^ (p + k - 1) \<le> n"
  proof (cases "k = 0")
    case False
    then have "n > 0" using assms by (cases n) (auto simp: floorlog_def)
    then show ?thesis using floorlog_bounds [of n 2] pk False by simp
  qed simp
qed

lemma round_to_le:
  assumes "p > 0" "den > 0" "fits p y" "num \<le> y * den"
  shows "round_to p num den \<le> y"
proof -
  define k where "k = floorlog 2 (num div den) - p"
  define g where "g = den * 2 ^ k"
  have "num div den \<le> y" using assms(2,4) by (metis div_le_mono nonzero_mult_div_cancel_right not_gr0)
  then have "2 ^ k dvd y" using below_grid [OF assms(1) grid_bits [OF k_def] assms(3)] by blast
  then obtain z where z: "y = z * 2 ^ k" by (auto simp: dvd_def mult.commute)
  have g: "g > 0" "num \<le> z * g" using assms z by (auto simp: g_def mult.commute mult.left_commute)
  have "num div g \<le> z" using g by (metis div_le_mono nonzero_mult_div_cancel_right not_gr0)
  moreover have "num mod g \<noteq> 0 \<Longrightarrow> num div g < z"
    using g by (metis div_mult_mod_eq add_cancel_right_right dual_order.antisym calculation mult.commute nat_less_le le_add1 mult_le_mono1)
  ultimately have "(if 2 * (num mod g) > g \<or> (2 * (num mod g) = g \<and> odd (num div g)) then num div g + 1 else num div g) \<le> z"
    using g(1) by auto
  then show ?thesis unfolding z round_to_def Let_def k_def [symmetric] g_def [symmetric] by (rule mult_le_mono1)
qed

lemma round_to_ge:
  assumes "p > 0" "den > 0" "fits p y" "y * den \<le> num"
  shows "y \<le> round_to p num den"
proof -
  define k where "k = floorlog 2 (num div den) - p"
  define g where "g = den * 2 ^ k"
  have g: "g > 0" using assms by (simp add: g_def)
  note bits = grid_bits [OF k_def]
  have "y \<le> num div g * 2 ^ k"
  proof (cases "2 ^ k dvd y")
    case True
    then obtain z where z: "y = z * 2 ^ k" by (auto simp: dvd_def mult.commute)
    then have "z * g \<le> num" using assms(4) by (simp add: g_def mult.commute mult.left_commute)
    then have "z \<le> num div g" using g by (simp add: less_eq_div_iff_mult_less_eq)
    then show ?thesis using z by simp
  next
    case False
    obtain c j where cj: "y = c * 2 ^ j" "c \<le> 2 ^ p" using assms(3) by (auto simp: fits_def)
    have jk: "j < k" using False cj(1) by (meson dvd_mult le_imp_power_dvd not_le)
    have "y \<le> 2 ^ p * 2 ^ (k - 1)" using cj jk by (simp add: mult_le_mono)
    also have "\<dots> = 2 ^ (p - 1) * 2 ^ k" using \<open>p > 0\<close> jk by (simp flip: power_add)
    also have "\<dots> \<le> num div g * 2 ^ k"
    proof -
      have "2 ^ (p + k - 1) \<le> num div den" using bits(2) jk by simp
      then have "2 ^ (p + k - 1) * den \<le> num" using assms(2) by (simp add: less_eq_div_iff_mult_less_eq)
      moreover have "2 ^ (p + k - 1) * den = 2 ^ (p - 1) * g" using \<open>p > 0\<close> by (simp add: g_def flip: power_add)
      ultimately show ?thesis using g by (simp add: less_eq_div_iff_mult_less_eq)
    qed
    finally show ?thesis .
  qed
  also have "\<dots> \<le> round_to p num den"
    unfolding round_to_def Let_def k_def [symmetric] g_def [symmetric] by (rule mult_le_mono1) simp
  finally show ?thesis .
qed

lemma round_to_fits:
  assumes "den > 0"
  shows "fits p (round_to p num den)"
proof -
  define k where "k = floorlog 2 (num div den) - p"
  have "num div (den * 2 ^ k) = num div den div 2 ^ k" by (simp add: div_mult2_eq)
  moreover have "num div den div 2 ^ k < 2 ^ p"
    using grid_bits(1) [OF k_def] by (simp add: less_mult_imp_div_less power_add)
  ultimately have "num div (den * 2 ^ k) < 2 ^ p" by simp
  then show ?thesis unfolding round_to_def Let_def k_def [symmetric] by (intro fits_mult) auto
qed

lemma round_to_exact: "p > 0 \<Longrightarrow> den > 0 \<Longrightarrow> fits p y \<Longrightarrow> round_to p (y * den) den = y"
  by (intro antisym round_to_le round_to_ge) auto

section \<open>Values\<close>

datatype fp = FpNan | FpInf bool | FpFin bool nat

definition fp_finite :: "fp \<Rightarrow> bool" where
  [code_defs]: "fp_finite x \<longleftrightarrow> (case x of FpFin _ _ \<Rightarrow> True | _ \<Rightarrow> False)"

text \<open>The fraction \<open>num / den\<close> of steps, rounded; \<open>top_exp\<close> is the exponent at which the format overflows.\<close>

definition fin_round :: "nat \<Rightarrow> nat \<Rightarrow> bool \<Rightarrow> nat \<Rightarrow> nat \<Rightarrow> fp" where
  [code_defs]: "fin_round p top_exp s num den =
     (let n = round_to p num den in if n \<ge> 2 ^ top_exp then FpInf s else FpFin s n)"

definition round64 :: "bool \<Rightarrow> nat \<Rightarrow> nat \<Rightarrow> fp" where
  [code_defs]: "round64 = fin_round 53 2098"

definition f32_decode :: "32 word \<Rightarrow> fp" where
  [code_defs]: "f32_decode b =
     (let n = unat b; s = (n div 2 ^ 31 = 1); e = n div 2 ^ 23 mod 2 ^ 8; f = n mod 2 ^ 23
      in if e = 255 then (if f = 0 then FpInf s else FpNan)
         else if e = 0 then FpFin s f
         else FpFin s ((2 ^ 23 + f) * 2 ^ (e - 1)))"

definition f32_encode :: "fp \<Rightarrow> 32 word" where
  [code_defs]: "f32_encode x =
     (case x of
        FpNan \<Rightarrow> 0x7FC00000
      | FpInf s \<Rightarrow> word_of_nat (of_bool s * 2 ^ 31 + 255 * 2 ^ 23)
      | FpFin s n \<Rightarrow>
          if n < 2 ^ 23 then word_of_nat (of_bool s * 2 ^ 31 + n)
          else (let k = floorlog 2 n - 24
                in word_of_nat (of_bool s * 2 ^ 31 + (k + 1) * 2 ^ 23 + (n div 2 ^ k - 2 ^ 23))))"

definition f32_zero :: "32 word" where
  [code_defs]: "f32_zero = 0"

text \<open>\<open>as f64\<close>, \<open>as f32\<close>, and \<open>as f64\<close> of a 32-bit integer.\<close>

definition widen :: "fp \<Rightarrow> fp" where
  [code_defs]: "widen x = (case x of FpFin s n \<Rightarrow> FpFin s (n * 2 ^ 925) | _ \<Rightarrow> x)"

definition narrow :: "fp \<Rightarrow> fp" where
  [code_defs]: "narrow x = (case x of FpFin s n \<Rightarrow> fin_round 24 277 s n (2 ^ 925) | _ \<Rightarrow> x)"

definition f64_of_nat :: "nat \<Rightarrow> fp" where
  [code_defs]: "f64_of_nat n = FpFin False (n * 2 ^ 1074)"

section \<open>Arithmetic of f64\<close>

definition fp_int :: "bool \<Rightarrow> nat \<Rightarrow> int" where
  [code_defs]: "fp_int s n = (if s then - int n else int n)"

definition f64_add :: "fp \<Rightarrow> fp \<Rightarrow> fp" where
  [code_defs]: "f64_add x y =
     (case (x, y) of
        (FpNan, _) \<Rightarrow> FpNan
      | (_, FpNan) \<Rightarrow> FpNan
      | (FpInf s, FpInf t) \<Rightarrow> if s = t then FpInf s else FpNan
      | (FpInf s, _) \<Rightarrow> FpInf s
      | (_, FpInf t) \<Rightarrow> FpInf t
      | (FpFin s m, FpFin t n) \<Rightarrow>
          (let i = fp_int s m + fp_int t n
           in if i = 0 then FpFin (s \<and> t) 0 else round64 (i < 0) (nat \<bar>i\<bar>) 1))"

definition f64_neg :: "fp \<Rightarrow> fp" where
  [code_defs]: "f64_neg x = (case x of FpNan \<Rightarrow> FpNan | FpInf s \<Rightarrow> FpInf (\<not> s) | FpFin s n \<Rightarrow> FpFin (\<not> s) n)"

definition f64_sub :: "fp \<Rightarrow> fp \<Rightarrow> fp" where
  [code_defs]: "f64_sub x y = f64_add x (f64_neg y)"

definition f64_mul :: "fp \<Rightarrow> fp \<Rightarrow> fp" where
  [code_defs]: "f64_mul x y =
     (case (x, y) of
        (FpNan, _) \<Rightarrow> FpNan
      | (_, FpNan) \<Rightarrow> FpNan
      | (FpInf s, FpInf t) \<Rightarrow> FpInf (s \<noteq> t)
      | (FpInf s, FpFin t n) \<Rightarrow> if n = 0 then FpNan else FpInf (s \<noteq> t)
      | (FpFin s m, FpInf t) \<Rightarrow> if m = 0 then FpNan else FpInf (s \<noteq> t)
      | (FpFin s m, FpFin t n) \<Rightarrow> round64 (s \<noteq> t) (m * n) (2 ^ 1074))"

definition f64_div :: "fp \<Rightarrow> fp \<Rightarrow> fp" where
  [code_defs]: "f64_div x y =
     (case (x, y) of
        (FpNan, _) \<Rightarrow> FpNan
      | (_, FpNan) \<Rightarrow> FpNan
      | (FpInf s, FpInf t) \<Rightarrow> FpNan
      | (FpInf s, FpFin t n) \<Rightarrow> FpInf (s \<noteq> t)
      | (FpFin s m, FpInf t) \<Rightarrow> FpFin (s \<noteq> t) 0
      | (FpFin s m, FpFin t n) \<Rightarrow>
          if n = 0 then (if m = 0 then FpNan else FpInf (s \<noteq> t)) else round64 (s \<noteq> t) (m * 2 ^ 1074) n)"

fun isqrt :: "nat \<Rightarrow> nat" where
  "isqrt n =
     (if n = 0 then 0
      else let r = 2 * isqrt (n div 4) in if (r + 1) * (r + 1) \<le> n then r + 1 else r)"

declare isqrt.simps [simp del]

text \<open>
  The root of a positive value has more than 500 bits before the point, so that one bit after the point,
  set when the root is not exact, decides the rounding.
\<close>

definition f64_sqrt :: "fp \<Rightarrow> fp" where
  [code_defs]: "f64_sqrt x =
     (case x of
        FpNan \<Rightarrow> FpNan
      | FpInf s \<Rightarrow> if s then FpNan else FpInf False
      | FpFin s n \<Rightarrow>
          if n = 0 then FpFin s 0
          else if s then FpNan
          else (let r = isqrt (n * 2 ^ 1074)
                in round64 False (2 * r + of_bool (r * r \<noteq> n * 2 ^ 1074)) 2))"

text \<open>\<open>==\<close> against zero, and \<open>partial_cmp\<close>.\<close>

definition fp_is_zero :: "fp \<Rightarrow> bool" where
  [code_defs]: "fp_is_zero x \<longleftrightarrow> (case x of FpFin _ n \<Rightarrow> n = 0 | _ \<Rightarrow> False)"

definition fp_key :: "fp \<Rightarrow> int" where
  [code_defs]: "fp_key x = (case x of FpNan \<Rightarrow> 0 | FpInf s \<Rightarrow> fp_int s (2 ^ 2098) | FpFin s n \<Rightarrow> fp_int s n)"

definition fp_partial_cmp :: "fp \<Rightarrow> fp \<Rightarrow> cmp_result option" where
  [code_defs]: "fp_partial_cmp x y =
     (if x = FpNan \<or> y = FpNan then None else Some (cmp_of (fp_key x) (fp_key y)))"

section \<open>Bounds\<close>

lemma fin_round_le:
  assumes "p > 0" "den > 0" "fits p y" "num \<le> y * den" "y < 2 ^ top_exp"
  shows "\<exists>n. fin_round p top_exp s num den = FpFin s n \<and> n \<le> y \<and> fits p n"
  using round_to_le [OF assms(1-4)] round_to_fits [OF assms(2), of p num] assms(5)
  by (auto simp: fin_round_def Let_def)

lemma round64_value: "round64 s num den = FpFin s' v \<Longrightarrow> s' = s \<and> v = round_to 53 num den"
  by (auto simp: round64_def fin_round_def Let_def split: if_splits)

lemma fin_round_not_nan [simp]: "fin_round p top_exp s num den \<noteq> FpNan"
  by (simp add: fin_round_def Let_def)

lemma round64_not_nan [simp]: "round64 s num den \<noteq> FpNan"
  by (simp add: round64_def)

lemma isqrt_square: "isqrt n * isqrt n \<le> n"
proof (induction n rule: isqrt.induct)
  case (1 n)
  show ?case
  proof (cases "n = 0")
    case False
    then have "isqrt (n div 4) * isqrt (n div 4) \<le> n div 4" using 1 by blast
    then have "4 * (isqrt (n div 4) * isqrt (n div 4)) \<le> n" by linarith
    then show ?thesis by (subst (1 2) isqrt.simps) (simp add: Let_def)
  qed (simp add: isqrt.simps)
qed

lemma isqrt_next: "n < (isqrt n + 1) * (isqrt n + 1)"
proof (induction n rule: isqrt.induct)
  case (1 n)
  show ?case
  proof (cases "n = 0")
    case False
    define r where "r = isqrt (n div 4)"
    have "n div 4 < (r + 1) * (r + 1)" using 1 [OF False] by (simp add: r_def)
    then have "n < 4 * ((r + 1) * (r + 1))" by linarith
    then have "n < (2 * r + 1 + 1) * (2 * r + 1 + 1)" by (simp add: algebra_simps)
    moreover have "isqrt n = (if (2 * r + 1) * (2 * r + 1) \<le> n then 2 * r + 1 else 2 * r)"
      using False by (subst isqrt.simps) (simp add: Let_def r_def)
    ultimately show ?thesis by (simp split: if_splits)
  qed (simp add: isqrt.simps)
qed

section \<open>Bits\<close>

lemma word32_unat: "n < 2 ^ 32 \<Longrightarrow> unat (word_of_nat n :: 32 word) = n"
  by (simp add: unat_of_nat)

lemma f32_decode_fields:
  assumes "e < 2 ^ 8" "f < 2 ^ 23"
  shows "f32_decode (word_of_nat (of_bool s * 2 ^ 31 + e * 2 ^ 23 + f)) =
    (if e = 255 then (if f = 0 then FpInf s else FpNan) else if e = 0 then FpFin s f else FpFin s ((2 ^ 23 + f) * 2 ^ (e - 1)))"
proof -
  define n :: nat where "n = of_bool s * 2 ^ 31 + e * 2 ^ 23 + f"
  have "n < 2 ^ 32" using assms by (cases s) (simp_all add: n_def)
  then have u: "unat (word_of_nat n :: 32 word) = n" by (rule word32_unat)
  have "n = f + (of_bool s * 2 ^ 8 + e) * 2 ^ 23" by (simp add: n_def algebra_simps)
  then have d: "n div 2 ^ 23 = of_bool s * 2 ^ 8 + e" and m: "n mod 2 ^ 23 = f"
    using assms(2) by (metis add.commute add_0 div_less div_mult_self1 power_not_zero zero_neq_numeral, metis mod_less mod_mult_self1)
  have e: "n div 2 ^ 23 mod 2 ^ 8 = e" using assms(1) unfolding d by (cases s) simp_all
  have s: "(n div 2 ^ 31 = 1) = s" using assms by (cases s) (simp_all add: n_def)
  show ?thesis unfolding n_def [symmetric] f32_decode_def Let_def u m e s ..
qed

lemma f32_round_trip:
  assumes "fits 24 n" "n < 2 ^ 277"
  shows "f32_decode (f32_encode (FpFin s n)) = FpFin s n"
proof (cases "n < 2 ^ 23")
  case True
  then show ?thesis using f32_decode_fields [of 0 n s] by (simp add: f32_encode_def)
next
  case False
  define k where "k = floorlog 2 n - 24"
  have n0: "n > 0" using False by (cases n) auto
  have "24 \<le> floorlog 2 n"
  proof -
    have "(2::nat) ^ 23 < 2 ^ floorlog 2 n" using False floorlog_bounds [OF n0, of 2] by linarith
    then show ?thesis by (simp add: power_strict_increasing_iff del: power_numeral)
  qed
  then have fl: "floorlog 2 n = 24 + k" by (simp add: k_def)
  have up: "n < 2 ^ 24 * 2 ^ k" and low: "2 ^ 23 * 2 ^ k \<le> n"
    using floorlog_bounds [OF n0, of 2] fl by (simp_all add: power_add)
  have "(2::nat) ^ (23 + k) < 2 ^ 277" using low assms(2) by (simp add: power_add)
  then have k: "k < 254" using power_less_imp_less_exp [of 2 "23 + k" 277] by simp
  have d: "n div 2 ^ k < 2 ^ 24" "2 ^ 23 \<le> n div 2 ^ k"
    using up low by (simp_all add: less_mult_imp_div_less less_eq_div_iff_mult_less_eq)
  have "2 ^ k dvd n" using below_grid [OF _ grid_bits [OF k_def] assms(1)] by simp
  then have "(2 ^ 23 + (n div 2 ^ k - 2 ^ 23)) * 2 ^ k = n" using d(2) by simp
  then show ?thesis
    using False f32_decode_fields [of "k + 1" "n div 2 ^ k - 2 ^ 23" s] k d by (simp add: f32_encode_def Let_def k_def)
qed

lemma f32_decode_bound:
  assumes "f32_decode b = FpFin s n"
  shows "n < 2 ^ 277"
proof -
  let ?e = "unat b div 2 ^ 23 mod 2 ^ 8" and ?f = "unat b mod 2 ^ 23"
  have f: "?f < 2 ^ 23" by simp
  have e: "?e < 2 ^ 8" by simp
  show ?thesis
  proof (cases "?e = 0")
    case True
    then have "n = ?f" using assms by (auto simp: f32_decode_def Let_def split: if_splits)
    moreover have "(2::nat) ^ 23 \<le> 2 ^ 277" by (intro power_increasing) auto
    ultimately show ?thesis using f by linarith
  next
    case False
    then have n: "n = (2 ^ 23 + ?f) * 2 ^ (?e - 1)" "?e \<noteq> 255" using assms by (auto simp: f32_decode_def Let_def split: if_splits)
    have "?e - 1 \<le> 253" using e n(2) False by simp
    then have "n \<le> (2 ^ 23 + ?f) * 2 ^ 253" unfolding n(1) by (intro mult_le_mono2 power_increasing) auto
    also have "\<dots> < 2 ^ 24 * 2 ^ 253" using f by (intro mult_strict_right_mono) auto
    finally show ?thesis by (simp flip: power_add)
  qed
qed

lemma f32_encode_not_nan:
  assumes "x \<noteq> FpNan" "\<And>s n. x = FpFin s n \<Longrightarrow> fits 24 n \<and> n < 2 ^ 277"
  shows "f32_decode (f32_encode x) = x"
proof (cases x)
  case (FpInf s)
  then show ?thesis using f32_decode_fields [of 255 0 s] by (simp add: f32_encode_def)
qed (use assms f32_round_trip in auto)

end
