(* ===== verification/Embed_Index.thy ===== *)
theory Embed_Index
  imports Std_Float Core_Ontology
begin

text \<open>
  \<open>crates/atomr-ontology-embed/src/index.rs\<close>: the vector index. Vectors are the 32-bit patterns of
  \<open>Vec<f32>\<close>. \<open>slice::sort_by\<close> is \<open>sort_cmp\<close>; it is specified for total orders only, which the scores form
  when none is a NaN.
\<close>

section \<open>The index\<close>

record vector_record =
  vr_iri :: string
  vr_vector :: "32 word list"
  vr_meta :: json

datatype vector_index_error = DimensionMismatch nat nat

record vector_index =
  vi_records :: "vector_record list"
  vi_dim :: "nat option"

definition vector_record_new :: "string \<Rightarrow> 32 word list \<Rightarrow> vector_record" where
  [code_defs]: "vector_record_new i v = \<lparr>vr_iri = i, vr_vector = v, vr_meta = JNull\<rparr>"

definition vr_with_meta :: "json \<Rightarrow> vector_record \<Rightarrow> vector_record" where
  [code_defs]: "vr_with_meta m r = r\<lparr>vr_meta := m\<rparr>"

definition vi_new :: vector_index where
  [code_defs]: "vi_new = \<lparr>vi_records = [], vi_dim = None\<rparr>"

definition vi_with_dimensions :: "nat \<Rightarrow> vector_index" where
  [code_defs]: "vi_with_dimensions d = \<lparr>vi_records = [], vi_dim = Some d\<rparr>"

definition vi_insert :: "vector_record \<Rightarrow> vector_index \<Rightarrow> vector_index_error + vector_index" where
  [code_defs]: "vi_insert r ix =
     (let actual = length (vr_vector r)
      in case vi_dim ix of
           Some expected \<Rightarrow>
             if expected \<noteq> actual then Inl (DimensionMismatch expected actual)
             else Inr (ix\<lparr>vi_records := vi_records ix @ [r]\<rparr>)
         | None \<Rightarrow> Inr (ix\<lparr>vi_dim := Some actual, vi_records := vi_records ix @ [r]\<rparr>))"

definition cosine_step :: "32 word \<times> 32 word \<Rightarrow> fp \<times> fp \<times> fp \<Rightarrow> fp \<times> fp \<times> fp" where
  [code_defs]: "cosine_step xy acc =
     (case (xy, acc) of
        ((x, y), dot, na, nb) \<Rightarrow>
          (let xf = widen (f32_decode x); yf = widen (f32_decode y)
           in (f64_add dot (f64_mul xf yf), f64_add na (f64_mul xf xf), f64_add nb (f64_mul yf yf))))"

definition cosine_similarity :: "32 word list \<Rightarrow> 32 word list \<Rightarrow> 32 word" where
  [code_defs]: "cosine_similarity a b =
     (if length a \<noteq> length b then f32_zero
      else case fold cosine_step (zip a b) (FpFin False 0, FpFin False 0, FpFin False 0) of
             (dot, na, nb) \<Rightarrow>
               if fp_is_zero na \<or> fp_is_zero nb then f32_zero
               else f32_encode (narrow (f64_div dot (f64_mul (f64_sqrt na) (f64_sqrt nb)))))"

definition score_cmp :: "nat \<times> 32 word \<Rightarrow> nat \<times> 32 word \<Rightarrow> cmp_result" where
  [code_defs]: "score_cmp a b =
     (case fp_partial_cmp (f32_decode (snd b)) (f32_decode (snd a)) of Some c \<Rightarrow> c | None \<Rightarrow> CmpEqual)"

definition vi_search :: "32 word list \<Rightarrow> nat \<Rightarrow> vector_index \<Rightarrow> (vector_record \<times> 32 word) list" where
  [code_defs]: "vi_search query top_k ix =
     (if top_k = 0 \<or> vi_records ix = [] then []
      else if (case vi_dim ix of Some d \<Rightarrow> length query \<noteq> d | None \<Rightarrow> False) then []
      else map (\<lambda>(i, s). (vi_records ix ! i, s))
             (take top_k
               (sort_cmp score_cmp
                 (map (\<lambda>(i, r). (i, cosine_similarity query (vr_vector r))) (List.enumerate 0 (vi_records ix))))))"

definition vi_len :: "vector_index \<Rightarrow> nat" where
  [code_defs]: "vi_len ix = length (vi_records ix)"

definition vi_is_empty :: "vector_index \<Rightarrow> bool" where
  [code_defs]: "vi_is_empty ix \<longleftrightarrow> vi_records ix = []"

definition vi_clear :: "vector_index \<Rightarrow> vector_index" where
  [code_defs]: "vi_clear ix = ix\<lparr>vi_records := []\<rparr>"

section \<open>Scores are numbers\<close>

definition finite_vec :: "32 word list \<Rightarrow> bool" where
  [code_defs]: "finite_vec v \<longleftrightarrow> list_all (\<lambda>b. fp_finite (f32_decode b)) v"

lemma finite_decode: "fp_finite (f32_decode b) \<Longrightarrow> \<exists>s n. f32_decode b = FpFin s n \<and> n < 2 ^ 277"
  using f32_decode_bound [of b] by (auto simp: fp_finite_def split: fp.splits)

lemma product_bound:
  assumes "m < 2 ^ 277" "n < 2 ^ 277"
  shows "\<exists>r. f64_mul (widen (FpFin s m)) (widen (FpFin t n)) = FpFin (s \<noteq> t) r \<and> r \<le> 2 ^ 1330 \<and>
    (m \<noteq> 0 \<and> n \<noteq> 0 \<longrightarrow> r \<noteq> 0)"
proof -
  have low: "2 ^ 0 * 2 ^ 1074 \<le> m * 2 ^ 925 * (n * 2 ^ 925)" if "m \<noteq> 0 \<and> n \<noteq> 0"
  proof -
    have "1 \<le> m * n" using that by simp
    then have "2 ^ 925 * 2 ^ 925 * 1 \<le> 2 ^ 925 * 2 ^ 925 * (m * n)" by (rule mult_le_mono2)
    moreover have "2 ^ 0 * 2 ^ 1074 \<le> (2::nat) ^ 925 * 2 ^ 925 * 1" unfolding power_add [symmetric] mult_1_right by (rule power_increasing) simp_all
    moreover have "2 ^ 925 * 2 ^ 925 * (m * n) = m * 2 ^ 925 * (n * 2 ^ 925)" by (simp only: ac_simps)
    ultimately show ?thesis by linarith
  qed
  have "m * 2 ^ 925 * (n * 2 ^ 925) \<le> (2 ^ 277 * 2 ^ 925) * (2 ^ 277 * 2 ^ 925)"
    using assms by (intro mult_le_mono) auto
  also have "\<dots> = 2 ^ 1330 * 2 ^ 1074" by (simp flip: power_add)
  finally have "m * 2 ^ 925 * (n * 2 ^ 925) \<le> 2 ^ 1330 * 2 ^ 1074" .
  from fin_round_le [OF _ _ fits_power this, of 53 2098 "s \<noteq> t"]
  obtain r where r: "round64 (s \<noteq> t) (m * 2 ^ 925 * (n * 2 ^ 925)) (2 ^ 1074) = FpFin (s \<noteq> t) r" "r \<le> 2 ^ 1330"
    by (auto simp: round64_def)
  have "r \<noteq> 0" if "m \<noteq> 0 \<and> n \<noteq> 0"
    using round_to_ge [OF _ _ fits_power low [OF that], of 53] round64_value [OF r(1)] by simp
  moreover have "f64_mul (widen (FpFin s m)) (widen (FpFin t n)) = round64 (s \<noteq> t) (m * 2 ^ 925 * (n * 2 ^ 925)) (2 ^ 1074)"
    by (simp only: f64_mul_def widen_def fp.case prod.case)
  ultimately show ?thesis using r by metis
qed

lemma sum_bound:
  assumes "m \<le> i * 2 ^ 1330" "n \<le> 2 ^ 1330" "i < 2 ^ 53"
  shows "\<exists>s' r. f64_add (FpFin s m) (FpFin t n) = FpFin s' r \<and> r \<le> (i + 1) * 2 ^ 1330 \<and>
    (\<not> s \<and> \<not> t \<longrightarrow> \<not> s' \<and> (m \<noteq> 0 \<or> n \<noteq> 0 \<longrightarrow> r \<noteq> 0))"
proof -
  define j where "j = fp_int s m + fp_int t n"
  have "nat \<bar>j\<bar> \<le> m + n" unfolding nat_le_iff j_def fp_int_def by auto
  also have "\<dots> \<le> (i + 1) * 2 ^ 1330" using assms by simp
  finally have le: "nat \<bar>j\<bar> \<le> (i + 1) * 2 ^ 1330 * 1" by simp
  have "(i + 1) * 2 ^ 1330 \<le> 2 ^ 53 * 2 ^ 1330" using assms(3) by (intro mult_le_mono1) simp
  also have "\<dots> < (2::nat) ^ 2098" unfolding power_add [symmetric] by (rule power_strict_increasing) simp_all
  finally have top: "(i + 1) * 2 ^ 1330 < (2::nat) ^ 2098" .
  have "fits 53 ((i + 1) * 2 ^ 1330)" using assms(3) by (intro fits_mult) simp
  from fin_round_le [OF _ _ this le top, of "j < 0"]
  obtain r where r: "round64 (j < 0) (nat \<bar>j\<bar>) 1 = FpFin (j < 0) r" "r \<le> (i + 1) * 2 ^ 1330"
    by (auto simp: round64_def)
  have "r \<noteq> 0" if "j > 0"
  proof -
    have "2 ^ 0 * 1 \<le> nat \<bar>j\<bar>" using that by simp
    from round_to_ge [OF _ _ fits_power this, of 53] show ?thesis using round64_value [OF r(1)] by simp
  qed
  moreover have "\<not> s \<and> \<not> t \<Longrightarrow> j = int m + int n" by (simp add: j_def fp_int_def)
  moreover have "f64_add (FpFin s m) (FpFin t n) = (if j = 0 then FpFin (s \<and> t) 0 else FpFin (j < 0) r)"
    using r(1) by (simp add: f64_add_def Let_def j_def [symmetric])
  ultimately show ?thesis using r(2) by auto
qed

lemma sqrt_bound:
  assumes "n \<noteq> 0" "n \<le> 2 ^ 1383"
  shows "\<exists>r. f64_sqrt (FpFin False n) = FpFin False r \<and> 2 ^ 537 \<le> r \<and> r \<le> 2 ^ 1230"
proof -
  define w where "w = n * 2 ^ 1074"
  define r where "r = isqrt w"
  have low: "2 ^ 537 * 2 ^ 537 \<le> w" using assms(1) by (simp add: w_def flip: power_add)
  have "w \<le> 2 ^ 1383 * 2 ^ 1074" unfolding w_def using assms(2) by (rule mult_le_mono1)
  also have "\<dots> < (2::nat) ^ 1229 * 2 ^ 1229" by (simp flip: power_add)
  finally have up: "w < 2 ^ 1229 * 2 ^ 1229" .
  have "\<not> r < 2 ^ 537"
  proof
    assume "r < 2 ^ 537"
    then have "(r + 1) * (r + 1) \<le> 2 ^ 537 * 2 ^ 537" by (intro mult_le_mono) simp_all
    then show False using low isqrt_next [of w] unfolding r_def by linarith
  qed
  then have r1: "2 ^ 537 * 2 \<le> 2 * r + of_bool (r * r \<noteq> w)" by simp
  have "\<not> 2 ^ 1229 \<le> r"
  proof
    assume "2 ^ 1229 \<le> r"
    then have "2 ^ 1229 * 2 ^ 1229 \<le> r * r" by (intro mult_le_mono) simp_all
    then show False using up isqrt_square [of w] unfolding r_def by linarith
  qed
  then have "2 * r + of_bool (r * r \<noteq> w) \<le> 2 ^ 1229 * 2 * 2" by (cases "r * r = w") simp_all
  also have "\<dots> = 2 ^ 1230 * 2" by simp
  finally have r2: "2 * r + of_bool (r * r \<noteq> w) \<le> 2 ^ 1230 * 2" .
  have "(2::nat) ^ 1230 < 2 ^ 2098" by (rule power_strict_increasing) simp_all
  from fin_round_le [OF _ _ fits_power r2 this, of 53 False]
  obtain v where v: "round64 False (2 * r + of_bool (r * r \<noteq> w)) 2 = FpFin False v" "v \<le> 2 ^ 1230"
    by (auto simp: round64_def)
  have "v = round_to 53 (2 * r + of_bool (r * r \<noteq> w)) 2"
    using round64_value [OF v(1)] by simp
  then have "2 ^ 537 \<le> v" using round_to_ge [OF _ _ fits_power r1, of 53] by simp
  moreover have "f64_sqrt (FpFin False n) = round64 False (2 * r + of_bool (r * r \<noteq> w)) 2"
    using assms(1) by (simp only: f64_sqrt_def fp.case Let_def w_def r_def if_False)
  ultimately show ?thesis using v by metis
qed

lemma root_product:
  assumes "2 ^ 537 \<le> m" "m \<le> 2 ^ 1230" "2 ^ 537 \<le> n" "n \<le> 2 ^ 1230"
  shows "\<exists>r. f64_mul (FpFin False m) (FpFin False n) = FpFin False r \<and> r \<noteq> 0"
proof -
  have "m * n \<le> 2 ^ 1230 * 2 ^ 1230" using assms by (intro mult_le_mono)
  also have "\<dots> = 2 ^ 1386 * 2 ^ 1074" unfolding power_add [symmetric] by simp
  finally have up: "m * n \<le> 2 ^ 1386 * 2 ^ 1074" .
  have "(2::nat) ^ 0 * 2 ^ 1074 = 2 ^ 537 * 2 ^ 537" unfolding power_add [symmetric] by simp
  also have "\<dots> \<le> m * n" using assms by (intro mult_le_mono)
  finally have low: "2 ^ 0 * 2 ^ 1074 \<le> m * n" .
  have "(2::nat) ^ 1386 < 2 ^ 2098" by (rule power_strict_increasing) simp_all
  from fin_round_le [OF _ _ fits_power up this, of 53 False]
  obtain v where v: "round64 False (m * n) (2 ^ 1074) = FpFin False v" by (auto simp: round64_def)
  have "v = round_to 53 (m * n) (2 ^ 1074)"
    using round64_value [OF v] by simp
  then have "2 ^ 0 \<le> v" using round_to_ge [OF _ _ fits_power low, of 53] by simp
  with v show ?thesis by (auto simp: f64_mul_def)
qed

lemma narrow_bits:
  assumes "x \<noteq> FpNan"
  shows "f32_decode (f32_encode (narrow x)) \<noteq> FpNan" "f32_decode (f32_encode (narrow x)) = narrow x"
proof -
  have "narrow x \<noteq> FpNan" using assms by (cases x) (simp_all add: narrow_def)
  moreover have "fits 24 n \<and> n < 2 ^ 277" if "narrow x = FpFin s n" for s n
    using that round_to_fits by (cases x) (auto simp: narrow_def fin_round_def Let_def split: if_splits)
  ultimately show "f32_decode (f32_encode (narrow x)) = narrow x" by (rule f32_encode_not_nan)
  with \<open>narrow x \<noteq> FpNan\<close> show "f32_decode (f32_encode (narrow x)) \<noteq> FpNan" by simp
qed

definition sums_ok :: "nat \<Rightarrow> fp \<times> fp \<times> fp \<Rightarrow> bool" where
  "sums_ok i acc \<longleftrightarrow> (\<exists>s l m n. acc = (FpFin s l, FpFin False m, FpFin False n) \<and>
     l \<le> i * 2 ^ 1330 \<and> m \<le> i * 2 ^ 1330 \<and> n \<le> i * 2 ^ 1330)"

lemma cosine_step_ok:
  assumes "sums_ok i acc" "i < 2 ^ 53" "fp_finite (f32_decode x)" "fp_finite (f32_decode y)"
  shows "sums_ok (i + 1) (cosine_step (x, y) acc)"
proof -
  obtain s l m n where acc: "acc = (FpFin s l, FpFin False m, FpFin False n)"
    "l \<le> i * 2 ^ 1330" "m \<le> i * 2 ^ 1330" "n \<le> i * 2 ^ 1330" using assms(1) unfolding sums_ok_def by blast
  obtain sx a sy b where x: "f32_decode x = FpFin sx a" "a < 2 ^ 277" and y: "f32_decode y = FpFin sy b" "b < 2 ^ 277"
    using finite_decode assms(3,4) by meson
  obtain p1 p2 p3 where
    p: "f64_mul (widen (FpFin sx a)) (widen (FpFin sy b)) = FpFin (sx \<noteq> sy) p1" "p1 \<le> 2 ^ 1330"
      "f64_mul (widen (FpFin sx a)) (widen (FpFin sx a)) = FpFin False p2" "p2 \<le> 2 ^ 1330"
      "f64_mul (widen (FpFin sy b)) (widen (FpFin sy b)) = FpFin False p3" "p3 \<le> 2 ^ 1330"
    using product_bound [OF x(2) y(2), of sx sy] product_bound [OF x(2) x(2), of sx sx]
      product_bound [OF y(2) y(2), of sy sy] by auto
  obtain s' l' where l: "f64_add (FpFin s l) (FpFin (sx \<noteq> sy) p1) = FpFin s' l'" "l' \<le> (i + 1) * 2 ^ 1330"
    using sum_bound [OF acc(2) p(2) assms(2)] by blast
  obtain m' where m: "f64_add (FpFin False m) (FpFin False p2) = FpFin False m'" "m' \<le> (i + 1) * 2 ^ 1330"
    using sum_bound [OF acc(3) p(4) assms(2), of False False] by auto
  obtain n' where n: "f64_add (FpFin False n) (FpFin False p3) = FpFin False n'" "n' \<le> (i + 1) * 2 ^ 1330"
    using sum_bound [OF acc(4) p(6) assms(2), of False False] by auto
  have "cosine_step (x, y) acc = (FpFin s' l', FpFin False m', FpFin False n')"
    unfolding cosine_step_def acc(1) Let_def prod.case x(1) y(1) p l m n ..
  with l m n show ?thesis unfolding sums_ok_def by blast
qed

lemma cosine_sums_ok:
  assumes "finite_vec a" "finite_vec b" "sums_ok i acc" "i + length a \<le> 2 ^ 53"
  shows "\<exists>j \<le> 2 ^ 53. sums_ok j (fold cosine_step (zip a b) acc)"
  using assms
proof (induction a arbitrary: b i acc)
  case (Cons x a)
  show ?case
  proof (cases b)
    case Nil
    then show ?thesis using Cons.prems by (intro exI [of _ i]) simp
  next
    case (Cons y b')
    then have "sums_ok (i + 1) (cosine_step (x, y) acc)"
      using Cons.prems by (intro cosine_step_ok) (simp_all add: finite_vec_def)
    then show ?thesis using Cons.IH [of b' "i + 1"] Cons.prems Cons by (simp add: finite_vec_def)
  qed
qed auto

lemma cosine_not_nan:
  assumes "finite_vec a" "finite_vec b" "length a \<le> 2 ^ 53"
  shows "f32_decode (cosine_similarity a b) \<noteq> FpNan"
proof -
  have zero: "f32_decode f32_zero \<noteq> FpNan" by (simp add: f32_zero_def f32_decode_def)
  have start: "sums_ok 0 (FpFin False 0, FpFin False 0, FpFin False 0)" by (auto simp: sums_ok_def)
  obtain j where j: "j \<le> 2 ^ 53" "sums_ok j (fold cosine_step (zip a b) (FpFin False 0, FpFin False 0, FpFin False 0))"
    using cosine_sums_ok [OF assms(1,2) start] assms(3) by auto
  then obtain s l m n where f: "fold cosine_step (zip a b) (FpFin False 0, FpFin False 0, FpFin False 0) = (FpFin s l, FpFin False m, FpFin False n)"
    "m \<le> j * 2 ^ 1330" "n \<le> j * 2 ^ 1330" unfolding sums_ok_def by blast
  have "j * 2 ^ 1330 \<le> 2 ^ 53 * 2 ^ 1330" using j(1) by (rule mult_le_mono1)
  then have b: "m \<le> 2 ^ 1383" "n \<le> 2 ^ 1383" using f(2,3) unfolding power_add [symmetric] by simp_all
  show ?thesis
  proof (cases "length a = length b \<and> m \<noteq> 0 \<and> n \<noteq> 0")
    case True
    obtain u v where "f64_sqrt (FpFin False m) = FpFin False u" "2 ^ 537 \<le> u" "u \<le> 2 ^ 1230"
      "f64_sqrt (FpFin False n) = FpFin False v" "2 ^ 537 \<le> v" "v \<le> 2 ^ 1230"
      using sqrt_bound True b by meson
    then obtain r where "f64_mul (f64_sqrt (FpFin False m)) (f64_sqrt (FpFin False n)) = FpFin False r" "r \<noteq> 0"
      using root_product [of u v] by auto
    then show ?thesis using True f(1) by (auto simp: cosine_similarity_def fp_is_zero_def f64_div_def intro!: narrow_bits(1))
  qed (use zero f(1) in \<open>auto simp: cosine_similarity_def fp_is_zero_def\<close>)
qed

section \<open>Ranking\<close>

lemma sort_cmp_cong:
  assumes "\<And>a b. a \<in> set xs \<Longrightarrow> b \<in> set xs \<Longrightarrow> c a b = d a b"
  shows "sort_cmp c xs = sort_cmp d xs"
proof -
  have ins: "(\<And>y. y \<in> set ys \<Longrightarrow> c x y = d x y) \<Longrightarrow> insort_cmp c x ys = insort_cmp d x ys" for x ys
    by (induction ys) auto
  show ?thesis using assms
  proof (induction xs)
    case (Cons x xs)
    then have "foldr (insort_cmp c) xs [] = foldr (insort_cmp d) xs []" by (simp add: sort_cmp_def)
    moreover have "set (foldr (insort_cmp d) xs []) = set xs" using set_sort_cmp [of d xs] by (simp add: sort_cmp_def)
    ultimately show ?case using Cons.prems ins [of "foldr (insort_cmp d) xs []" x] by (simp add: sort_cmp_def)
  qed (simp add: sort_cmp_def)
qed

definition score_key :: "32 word \<Rightarrow> int" where
  [code_defs]: "score_key b = fp_key (f32_decode b)"

interpretation score_order: total_preorder_cmp "\<lambda>a b :: nat \<times> 32 word. cmp_of (score_key (snd b)) (score_key (snd a))"
  by unfold_locales (auto simp: cmp_of_def split: if_splits)

lemma score_cmp_key:
  assumes "f32_decode (snd a) \<noteq> FpNan" "f32_decode (snd b) \<noteq> FpNan"
  shows "score_cmp a b = cmp_of (score_key (snd b)) (score_key (snd a))"
  using assms by (simp add: score_cmp_def fp_partial_cmp_def score_key_def)

definition scored :: "32 word list \<Rightarrow> vector_index \<Rightarrow> (nat \<times> 32 word) list" where
  [code_defs]: "scored query ix = map (\<lambda>(i, r). (i, cosine_similarity query (vr_vector r))) (List.enumerate 0 (vi_records ix))"

lemma scored_records:
  "map (\<lambda>(i, s). (vi_records ix ! i, s)) (scored query ix) = map (\<lambda>r. (r, cosine_similarity query (vr_vector r))) (vi_records ix)"
  by (rule nth_equalityI) (auto simp: scored_def nth_enumerate_eq)

lemma length_scored [simp]: "length (scored query ix) = length (vi_records ix)"
  by (simp add: scored_def)

lemma scored_not_nan:
  assumes "finite_vec query" "length query \<le> 2 ^ 53" "\<forall>r \<in> set (vi_records ix). finite_vec (vr_vector r)" "h \<in> set (scored query ix)"
  shows "f32_decode (snd h) \<noteq> FpNan"
proof -
  obtain i r where "(i, r) \<in> set (List.enumerate 0 (vi_records ix))" and h: "snd h = cosine_similarity query (vr_vector r)"
    using assms(4) by (auto simp: scored_def)
  then have "r \<in> set (vi_records ix)" using in_set_enumerate_eq [of "(i, r)" 0 "vi_records ix"] by auto
  with assms(1-3) cosine_not_nan show ?thesis unfolding h by blast
qed

lemma vi_search_scored:
  assumes "vi_dim ix = Some (length query)"
  shows "vi_search query k ix = take k (map (\<lambda>(i, s). (vi_records ix ! i, s)) (sort_cmp score_cmp (scored query ix)))"
  using assms by (auto simp: vi_search_def scored_def take_map sort_cmp_def)

lemma search_sorted:
  assumes "vi_dim ix = Some (length query)" "finite_vec query" "length query \<le> 2 ^ 53"
    and "\<forall>r \<in> set (vi_records ix). finite_vec (vr_vector r)"
  shows "\<exists>ranked. vi_search query k ix = take k ranked \<and>
    mset ranked = mset (map (\<lambda>r. (r, cosine_similarity query (vr_vector r))) (vi_records ix)) \<and>
    sorted_wrt (\<lambda>a b. score_key (snd b) \<le> score_key (snd a)) ranked \<and>
    (\<forall>s. filter (\<lambda>h. score_key (snd h) = s) ranked =
         filter (\<lambda>h. score_key (snd h) = s) (map (\<lambda>r. (r, cosine_similarity query (vr_vector r))) (vi_records ix))) \<and>
    (\<forall>h \<in> set ranked. f32_decode (snd h) \<noteq> FpNan)"
proof -
  let ?c = "\<lambda>a b :: nat \<times> 32 word. cmp_of (score_key (snd b)) (score_key (snd a))"
  let ?rec = "\<lambda>(i, s :: 32 word). (vi_records ix ! i, s)"
  let ?sorted = "sort_cmp ?c (scored query ix)"
  note fin = scored_not_nan [OF assms(2-4)]
  have same: "sort_cmp score_cmp (scored query ix) = ?sorted"
    by (rule sort_cmp_cong) (simp add: score_cmp_key fin)
  have snd_rec [simp]: "snd (?rec h) = snd h" for h by (cases h) simp
  have "sorted_wrt (\<lambda>a b. score_key (snd b) \<le> score_key (snd a)) (map ?rec ?sorted)"
    unfolding sorted_wrt_map snd_rec
    by (rule sorted_wrt_mono_rel [OF _ score_order.sort_sorted]) (auto simp: cmp_of_def split: if_splits)
  moreover have "mset (map ?rec ?sorted) = mset (map ?rec (scored query ix))" by simp
  moreover have "filter (\<lambda>h. score_key (snd h) = s) (map ?rec ?sorted) = filter (\<lambda>h. score_key (snd h) = s) (map ?rec (scored query ix))" for s
  proof (cases "\<exists>h \<in> set (scored query ix). score_key (snd h) = s")
    case True
    then obtain h :: "nat \<times> 32 word" where h: "score_key (snd h) = s" by blast
    have eq: "(?c h x = CmpEqual) = (score_key (snd x) = s)" for x by (auto simp: cmp_of_def h)
    have "filter (\<lambda>x. ?c h x = CmpEqual) ?sorted = filter (\<lambda>x. ?c h x = CmpEqual) (scored query ix)"
      by (rule score_order.sort_stable)
    then show ?thesis unfolding eq filter_map comp_def snd_rec by simp
  next
    case False
    then show ?thesis unfolding filter_map comp_def snd_rec by (simp add: filter_empty_conv)
  qed
  moreover have "\<forall>h \<in> set (map ?rec ?sorted). f32_decode (snd h) \<noteq> FpNan" using fin by auto
  ultimately show ?thesis
    unfolding scored_records vi_search_scored [OF assms(1)] same by (intro exI [of _ "map ?rec ?sorted"] conjI refl) auto
qed

section \<open>Properties\<close>

text \<open>C23: A search over finite vectors returns the best \<open>top_k\<close> records: the results are a prefix of all
  records with their cosine scores, in descending order of score, records of equal score in insertion
  order; no score is a NaN.\<close>

theorem search_ranks:
  assumes "vi_dim ix = Some (length query)" "finite_vec query" "length query \<le> 2 ^ 53"
    and "\<forall>r \<in> set (vi_records ix). finite_vec (vr_vector r)"
  shows "\<exists>ranked. vi_search query k ix = take k ranked \<and>
    mset ranked = mset (map (\<lambda>r. (r, cosine_similarity query (vr_vector r))) (vi_records ix)) \<and>
    sorted_wrt (\<lambda>a b. score_key (snd b) \<le> score_key (snd a)) ranked \<and>
    (\<forall>s. filter (\<lambda>h. score_key (snd h) = s) ranked =
         filter (\<lambda>h. score_key (snd h) = s) (map (\<lambda>r. (r, cosine_similarity query (vr_vector r))) (vi_records ix))) \<and>
    (\<forall>h \<in> set ranked. f32_decode (snd h) \<noteq> FpNan)"
  using assms by (rule search_sorted)

definition unit_record :: vector_record where
  [code_defs]: "unit_record = vector_record_new ''a'' [0x3F800000, 0]"

lemma search_ranks_witness:
  "\<forall>k. \<exists>ranked. vi_search [0, 0x3F800000] k \<lparr>vi_records = [unit_record], vi_dim = Some 2\<rparr> = take k ranked \<and> length ranked = 1"
proof
  fix k
  have fin: "finite_vec [0, 0x3F800000]" "finite_vec (vr_vector unit_record)"
    by (simp_all add: unit_record_def vector_record_new_def finite_vec_def fp_finite_def f32_decode_def Let_def)
  obtain ranked where r: "vi_search [0, 0x3F800000] k \<lparr>vi_records = [unit_record], vi_dim = Some 2\<rparr> = take k ranked"
    "mset ranked = mset (map (\<lambda>r. (r, cosine_similarity [0, 0x3F800000] (vr_vector r))) [unit_record])"
    using search_ranks [of "\<lparr>vi_records = [unit_record], vi_dim = Some 2\<rparr>" "[0, 0x3F800000]" k] fin by auto
  from arg_cong [where f = size, OF r(2)] r(1)
  show "\<exists>ranked. vi_search [0, 0x3F800000] k \<lparr>vi_records = [unit_record], vi_dim = Some 2\<rparr> = take k ranked \<and> length ranked = 1"
    by (intro exI [of _ ranked]) (simp only: size_mset length_map list.size One_nat_def add_0)
qed

section \<open>Scores that are not numbers\<close>

lemma f64_add_nan [simp]: "f64_add FpNan x = FpNan" "f64_add x FpNan = FpNan"
  by (cases x; simp add: f64_add_def)+

lemma f64_mul_nan [simp]: "f64_mul FpNan x = FpNan" "f64_mul x FpNan = FpNan"
  by (cases x; simp add: f64_mul_def)+

lemma cosine_fold_nan:
  assumes "length a = length b" "dot = FpNan \<and> nb = FpNan \<or> list_ex (\<lambda>y. f32_decode y = FpNan) b"
  shows "\<exists>na'. fold cosine_step (zip a b) (dot, na, nb) = (FpNan, na', FpNan)"
  using assms
proof (induction a b arbitrary: dot na nb rule: list_induct2)
  case (Cons x a y b)
  obtain dot' na' nb' where st: "cosine_step (x, y) (dot, na, nb) = (dot', na', nb')" by (cases "cosine_step (x, y) (dot, na, nb)")
  have "dot' = FpNan \<and> nb' = FpNan" if "dot = FpNan \<and> nb = FpNan \<or> f32_decode y = FpNan"
    using that st by (auto simp: cosine_step_def Let_def widen_def)
  then show ?case using Cons.IH [of dot' nb' na'] Cons.prems st by auto
qed simp

lemma cosine_fold_norm:
  assumes "length a = length b" "finite_vec a" "m \<le> i * 2 ^ 1330" "i + length a \<le> 2 ^ 53"
    and "m \<noteq> 0 \<or> list_ex (\<lambda>x. \<not> fp_is_zero (f32_decode x)) a"
  shows "\<exists>dot' m' nb'. fold cosine_step (zip a b) (dot, FpFin False m, nb) = (dot', FpFin False m', nb') \<and> m' \<noteq> 0"
  using assms
proof (induction a b arbitrary: dot m nb i rule: list_induct2)
  case (Cons x a y b)
  obtain s n where x: "f32_decode x = FpFin s n" "n < 2 ^ 277" using finite_decode [of x] Cons.prems(1) by (auto simp: finite_vec_def)
  obtain p where p: "f64_mul (widen (FpFin s n)) (widen (FpFin s n)) = FpFin False p" "p \<le> 2 ^ 1330" "n \<noteq> 0 \<longrightarrow> p \<noteq> 0"
    using product_bound [OF x(2) x(2), of s s] by auto
  have i: "i < 2 ^ 53" using Cons.prems(3) by simp
  obtain m' where m: "f64_add (FpFin False m) (FpFin False p) = FpFin False m'" "m' \<le> (i + 1) * 2 ^ 1330" "m \<noteq> 0 \<or> p \<noteq> 0 \<longrightarrow> m' \<noteq> 0"
    using sum_bound [OF Cons.prems(2) p(2) i, of False False] by auto
  obtain d e where st: "cosine_step (x, y) (dot, FpFin False m, nb) = (d, FpFin False m', e)"
    using m(1) p(1) x(1) by (simp add: cosine_step_def Let_def)
  have "m' \<noteq> 0 \<or> list_ex (\<lambda>x. \<not> fp_is_zero (f32_decode x)) a"
    using Cons.prems(4) m(3) p(3) x(1) by (auto simp: fp_is_zero_def)
  then show ?case using Cons.IH [of m' "i + 1" d e] Cons.prems m(2) st by (simp add: finite_vec_def)
qed simp

lemma cosine_nan:
  assumes "length a = length b" "finite_vec a" "length a \<le> 2 ^ 53" "list_ex (\<lambda>x. \<not> fp_is_zero (f32_decode x)) a"
    and "list_ex (\<lambda>y. f32_decode y = FpNan) b"
  shows "f32_decode (cosine_similarity a b) = FpNan"
proof -
  obtain na where "fold cosine_step (zip a b) (FpFin False 0, FpFin False 0, FpFin False 0) = (FpNan, na, FpNan)"
    using cosine_fold_nan [OF assms(1) disjI2 [OF assms(5)]] by blast
  moreover obtain dot' m' nb' where "fold cosine_step (zip a b) (FpFin False 0, FpFin False 0, FpFin False 0) = (dot', FpFin False m', nb')" "m' \<noteq> 0"
    using cosine_fold_norm [OF assms(1,2), where m = 0 and i = 0 and dot = "FpFin False 0" and nb = "FpFin False 0"] assms(3,4) by auto
  ultimately have "cosine_similarity a b = f32_encode FpNan"
    using assms(1) by (auto simp: cosine_similarity_def fp_is_zero_def f64_div_def narrow_def)
  then show ?thesis by (simp add: f32_encode_def f32_decode_def)
qed

lemma nan_score_first:
  assumes "vi_dim ix = Some (length query)" "vi_records ix = r # rs"
    and "f32_decode (cosine_similarity query (vr_vector r)) = FpNan"
  shows "\<exists>hits. vi_search query (Suc k) ix = (r, cosine_similarity query (vr_vector r)) # hits"
proof -
  let ?h = "(0, cosine_similarity query (vr_vector r))"
  obtain hs where sc: "scored query ix = ?h # hs" using assms(2) by (simp add: scored_def)
  have "score_cmp ?h b = CmpEqual" for b using assms(3) by (simp add: score_cmp_def fp_partial_cmp_def)
  then have "insort_cmp score_cmp ?h ys = ?h # ys" for ys by (cases ys) simp_all
  then have "\<exists>ys. sort_cmp score_cmp (scored query ix) = ?h # ys" unfolding sc sort_cmp_def by simp
  with assms(1,2) show ?thesis by (auto simp: vi_search_scored)
qed

text \<open>A record whose vector holds a NaN outranks every other record when it was inserted first, whatever
  the query, as long as the query is finite and not zero: the comparison falls back to equality, so the
  NaN score stays in front of the numbers it is compared with.\<close>

theorem nan_ranks_first:
  assumes "vi_dim ix = Some (length query)" "length query = length (vr_vector r)" "vi_records ix = r # rs"
    and "finite_vec query" "length query \<le> 2 ^ 53" "list_ex (\<lambda>x. \<not> fp_is_zero (f32_decode x)) query"
    and "list_ex (\<lambda>y. f32_decode y = FpNan) (vr_vector r)"
  shows "\<exists>score. vi_search query 1 ix = [(r, score)] \<and> f32_decode score = FpNan"
proof -
  have nan: "f32_decode (cosine_similarity query (vr_vector r)) = FpNan" by (intro cosine_nan assms)
  obtain hits where h: "vi_search query (Suc 0) ix = (r, cosine_similarity query (vr_vector r)) # hits"
    using nan_score_first [OF assms(1,3) nan] by blast
  moreover have "length (vi_search query (Suc 0) ix) \<le> Suc 0" by (simp add: vi_search_def)
  ultimately show ?thesis using nan by auto
qed

definition nan_record :: vector_record where
  [code_defs]: "nan_record = vector_record_new ''broken'' [0x7FC00000]"

lemma nan_ranks_first_witness:
  "\<exists>score. vi_search [0x3F800000] 1 \<lparr>vi_records = [nan_record, vector_record_new ''same'' [0x3F800000]], vi_dim = Some 1\<rparr> = [(nan_record, score)] \<and>
     f32_decode score = FpNan"
  by (rule nan_ranks_first)
    (simp_all add: nan_record_def vector_record_new_def finite_vec_def fp_finite_def fp_is_zero_def f32_decode_def Let_def)

section \<open>Dimensions\<close>

definition vi_wf :: "vector_index \<Rightarrow> bool" where
  [code_defs]: "vi_wf ix \<longleftrightarrow> list_all (\<lambda>r. vi_dim ix = Some (length (vr_vector r))) (vi_records ix)"

lemma vi_wf_ops [simp]: "vi_wf vi_new" "vi_wf (vi_with_dimensions d)" "vi_wf (vi_clear ix)"
  by (simp_all add: vi_wf_def vi_new_def vi_with_dimensions_def vi_clear_def)

lemma vi_insert_wf: "vi_wf ix \<Longrightarrow> vi_insert r ix = Inr ix' \<Longrightarrow> vi_wf ix'"
  by (cases "vi_records ix") (auto simp: vi_wf_def vi_insert_def Let_def split: option.splits if_splits)

end
