(* ===== verification/Embed_Resolver.thy ===== *)
theory Embed_Resolver
  imports Embed_Index Rdf_Adapter
begin

text \<open>
  \<open>crates/atomr-ontology-embed/src/backend.rs\<close> and \<open>resolver.rs\<close>: embedding backends with the hash embedder,
  and the resolver that proposes the nodes nearest to a surface form. A backend answers in a world \<open>'w\<close>.
  Blake3's extendable output (a text and a number of bytes) is the parameter \<open>xof\<close>, the \<open>hex\<close> crate
  \<open>hexe\<close>. \<open>ingest_ontology\<close> awaits the backend before it takes the lock of the index, so its inserts are one
  step.
\<close>

section \<open>Backends\<close>

datatype embedding_error = EeTransport string | EeOther string

record 'w embedding_backend =
  eb_embed :: "string \<Rightarrow> 'w \<Rightarrow> (embedding_error + 32 word list) \<times> 'w"
  eb_embed_batch :: "string list \<Rightarrow> 'w \<Rightarrow> (embedding_error + 32 word list list) \<times> 'w"
  eb_dimensions :: nat
  eb_label :: string

text \<open>The trait's default: one call after another, the first error ends it.\<close>

fun default_embed_batch ::
    "(string \<Rightarrow> 'w \<Rightarrow> (embedding_error + 32 word list) \<times> 'w) \<Rightarrow> string list \<Rightarrow> 'w \<Rightarrow> (embedding_error + 32 word list list) \<times> 'w" where
  "default_embed_batch emb [] w = (Inr [], w)"
| "default_embed_batch emb (t # ts) w =
     (case emb t w of
        (Inl e, w) \<Rightarrow> (Inl e, w)
      | (Inr v, w) \<Rightarrow>
          (case default_embed_batch emb ts w of (Inl e, w) \<Rightarrow> (Inl e, w) | (Inr vs, w) \<Rightarrow> (Inr (v # vs), w)))"

fun chunks_exact_4 :: "'a list \<Rightarrow> 'a list list" where
  "chunks_exact_4 (a # b # c # d # rest) = [a, b, c, d] # chunks_exact_4 rest"
| "chunks_exact_4 _ = []"

fun u32_from_le :: "bytes \<Rightarrow> nat" where
  "u32_from_le [] = 0"
| "u32_from_le (b # bs) = unat b + 256 * u32_from_le bs"

definition hash_component :: "nat \<Rightarrow> 32 word" where
  [code_defs]: "hash_component raw =
     (let normalized = f64_div (f64_of_nat raw) (f64_of_nat (2 ^ 32 - 1));
          signed = f64_sub (f64_mul normalized (f64_of_nat 2)) (f64_of_nat 1)
      in f32_encode (narrow signed))"

definition hash_expand :: "(string \<Rightarrow> nat \<Rightarrow> bytes) \<Rightarrow> nat \<Rightarrow> string \<Rightarrow> 32 word list" where
  [code_defs]: "hash_expand xof d t =
     (let byte_len = min (d * 4) (2 ^ 64 - 1)
      in map (\<lambda>chunk. hash_component (u32_from_le chunk)) (chunks_exact_4 (xof t byte_len)))"

definition hash_embedder :: "(string \<Rightarrow> nat \<Rightarrow> bytes) \<Rightarrow> nat \<Rightarrow> 'w embedding_backend" where
  [code_defs]: "hash_embedder xof d =
     (let emb = (\<lambda>t w. (Inr (hash_expand xof d t), w))
      in \<lparr>eb_embed = emb, eb_embed_batch = default_embed_batch emb, eb_dimensions = d,
          eb_label = ''hash-embedder/'' @ show_nat d\<rparr>)"

section \<open>The resolver\<close>

definition node_debug :: "(bytes \<Rightarrow> string) \<Rightarrow> node_id \<Rightarrow> string" where
  [code_defs]: "node_debug hexe i = ''NodeId('' @ hexe (node_id_bytes i) @ '')''"

definition node_key :: "(bytes \<Rightarrow> string) \<Rightarrow> node \<Rightarrow> string" where
  [code_defs]: "node_key hexe n = (case n_iri n of Some i \<Rightarrow> as_str i | None \<Rightarrow> node_debug hexe (n_id n))"

definition node_text :: "(bytes \<Rightarrow> string) \<Rightarrow> node \<Rightarrow> string" where
  [code_defs]: "node_text hexe n =
     (case map_of (n_props n) ''name'' of
        Some (PString s) \<Rightarrow> s
      | _ \<Rightarrow>
          (case n_iri n of
             Some i \<Rightarrow> (let tail = local_name i in if tail \<noteq> [] then tail else as_str i)
           | None \<Rightarrow> node_debug hexe (n_id n)))"

definition resolver_new :: "'w embedding_backend \<Rightarrow> vector_index" where
  [code_defs]: "resolver_new be = vi_with_dimensions (eb_dimensions be)"

definition vi_error_display :: "vector_index_error \<Rightarrow> string" where
  [code_defs]: "vi_error_display e =
     (case e of DimensionMismatch expected actual \<Rightarrow>
        ''vector dimension mismatch: expected '' @ show_nat expected @ '', got '' @ show_nat actual)"

fun ingest_records ::
    "((string \<times> string) \<times> 32 word list) list \<Rightarrow> nat \<Rightarrow> vector_index \<Rightarrow> (embedding_error + nat) \<times> vector_index" where
  "ingest_records [] inserted ix = (Inr inserted, ix)"
| "ingest_records (((key, body), vector) # rest) inserted ix =
     (case vi_insert (vr_with_meta (JObject [(''text'', JString body)]) (vector_record_new key vector)) ix of
        Inl e \<Rightarrow> (Inl (EeOther (vi_error_display e)), ix)
      | Inr ix' \<Rightarrow> ingest_records rest (inserted + 1) ix')"

definition ingest_inputs :: "(bytes \<Rightarrow> string) \<Rightarrow> ontology \<Rightarrow> (string \<times> string) list" where
  [code_defs]: "ingest_inputs hexe o' = map (\<lambda>n. (node_key hexe n, node_text hexe n)) (bm_values (o_nodes o'))"

definition ingest_ontology ::
    "(bytes \<Rightarrow> string) \<Rightarrow> 'w embedding_backend \<Rightarrow> ontology \<Rightarrow> vector_index \<times> 'w \<Rightarrow> (embedding_error + nat) \<times> vector_index \<times> 'w" where
  [code_defs]: "ingest_ontology hexe be o' x =
     (case x of (ix, w) \<Rightarrow>
        (let inputs = ingest_inputs hexe o'
         in case eb_embed_batch be (map snd inputs) w of
              (Inl e, w) \<Rightarrow> (Inl e, ix, w)
            | (Inr vectors, w) \<Rightarrow>
                if length vectors \<noteq> length inputs then
                  (Inl (EeOther (''backend returned '' @ show_nat (length vectors) @ '' vectors for '' @ show_nat (length inputs) @ '' inputs'')), ix, w)
                else (case ingest_records (zip inputs vectors) 0 ix of (r, ix) \<Rightarrow> (r, ix, w))))"

definition resolver_propose ::
    "'w embedding_backend \<Rightarrow> string \<Rightarrow> nat \<Rightarrow> vector_index \<times> 'w \<Rightarrow> (embedding_error + (string \<times> 32 word) list) \<times> vector_index \<times> 'w" where
  [code_defs]: "resolver_propose be surface top_k x =
     (case x of (ix, w) \<Rightarrow>
        (case eb_embed be surface w of
           (Inl e, w) \<Rightarrow> (Inl e, ix, w)
         | (Inr query, w) \<Rightarrow> (Inr (map (\<lambda>(r, s). (vr_iri r, s)) (vi_search query top_k ix)), ix, w)))"

section \<open>The hash embedder\<close>

lemma length_chunks_exact_4: "length xs = 4 * n \<Longrightarrow> length (chunks_exact_4 xs) = n"
proof (induction n arbitrary: xs)
  case (Suc n)
  then obtain a b c d ys where "xs = a # b # c # d # ys" "length ys = 4 * n"
    by (auto simp: length_Suc_conv numeral_eq_Suc)
  with Suc.IH show ?case by simp
qed simp

lemma chunk_length: "c \<in> set (chunks_exact_4 xs) \<Longrightarrow> length c = 4"
  by (induction xs rule: chunks_exact_4.induct) auto

lemma u32_from_le_bound: "u32_from_le bs < 256 ^ length bs"
proof (induction bs)
  case (Cons b bs)
  have "unat b < 256" using unsigned_less [of b] by simp
  then show ?case using Cons unfolding u32_from_le.simps length_Cons power_Suc by linarith
qed simp

lemma hash_component_decode:
  assumes "raw < 2 ^ 32"
  shows "\<exists>s n. f32_decode (hash_component raw) = FpFin s n \<and> n \<le> 2 ^ 149"
proof -
  define M :: nat where "M = 2 ^ 32 - 1"
  have M: "M > 0" "raw \<le> M" using assms by (simp_all add: M_def)
  have top: "(2::nat) ^ 1075 < 2 ^ 2098" "(2::nat) ^ 1074 < 2 ^ 2098" "(2::nat) ^ 149 < 2 ^ 277"
    by (rule power_strict_increasing; simp)+
  have "raw * 2 ^ 1074 * 2 ^ 1074 \<le> 2 ^ 1074 * (M * 2 ^ 1074)"
    using mult_le_mono1 [OF M(2), of "2 ^ 1074 * 2 ^ 1074"] by (simp only: ac_simps)
  from fin_round_le [OF _ _ fits_power this top(2), of 53 False] M(1)
  obtain q where q: "round64 False (raw * 2 ^ 1074 * 2 ^ 1074) (M * 2 ^ 1074) = FpFin False q" "q \<le> 2 ^ 1074"
    by (auto simp: round64_def)
  have div: "f64_div (f64_of_nat raw) (f64_of_nat M) = FpFin False q"
    unfolding f64_div_def f64_of_nat_def fp.case prod.case q(1) [symmetric] using M(1) by (simp only: mult_eq_0_iff power_not_zero) simp
  have "q * (2 * 2 ^ 1074) \<le> 2 ^ 1074 * (2 * 2 ^ 1074)" using q(2) by (rule mult_le_mono1)
  also have "\<dots> = 2 ^ 1075 * 2 ^ 1074" by (simp only: ac_simps power_Suc [symmetric]) simp
  finally have "q * (2 * 2 ^ 1074) \<le> 2 ^ 1075 * 2 ^ 1074" .
  from fin_round_le [OF _ _ fits_power this top(1), of 53 False]
  obtain r where r: "round64 False (q * (2 * 2 ^ 1074)) (2 ^ 1074) = FpFin False r" "r \<le> 2 ^ 1075" by (auto simp: round64_def)
  have mul: "f64_mul (FpFin False q) (f64_of_nat 2) = FpFin False r"
    unfolding f64_mul_def f64_of_nat_def fp.case prod.case using r(1) by simp
  define j where "j = int r - 2 ^ 1074"
  have "nat \<bar>j\<bar> \<le> 2 ^ 1074 * 1" unfolding nat_le_iff using r(2) by (simp add: j_def abs_le_iff)
  from fin_round_le [OF _ _ fits_power this top(2), of 53 "j < 0"]
  obtain d where d: "round64 (j < 0) (nat \<bar>j\<bar>) 1 = FpFin (j < 0) d" "d \<le> 2 ^ 1074" by (auto simp: round64_def)
  have sub: "\<exists>s n. f64_sub (FpFin False r) (f64_of_nat 1) = FpFin s n \<and> n \<le> 2 ^ 1074"
    using d by (auto simp: f64_sub_def f64_neg_def f64_of_nat_def f64_add_def fp_int_def j_def Let_def)
  then obtain s n where sn: "f64_sub (FpFin False r) (f64_of_nat 1) = FpFin s n" "n \<le> 2 ^ 1074" by blast
  have "n \<le> 2 ^ 149 * 2 ^ 925" using sn(2) unfolding power_add [symmetric] by simp
  from fin_round_le [OF _ _ fits_power this top(3), of 24 s]
  obtain v where v: "narrow (FpFin s n) = FpFin s v" "v \<le> 2 ^ 149" by (auto simp: narrow_def)
  have "hash_component raw = f32_encode (narrow (FpFin s n))"
    unfolding hash_component_def Let_def M_def [symmetric] div mul sn(1) ..
  then show ?thesis using narrow_bits(2) [of "FpFin s n"] v by auto
qed

lemma hash_expand_bounds:
  assumes "\<And>t n. length (xof t n) = n" "d * 4 < 2 ^ 64"
  shows "length (hash_expand xof d t) = d"
    "c \<in> set (hash_expand xof d t) \<Longrightarrow> \<exists>s n. f32_decode c = FpFin s n \<and> n \<le> 2 ^ 149"
proof -
  have "min (d * 4) (2 ^ 64 - 1) = 4 * d" using assms(2) by simp
  then have ex: "hash_expand xof d t = map (\<lambda>c. hash_component (u32_from_le c)) (chunks_exact_4 (xof t (4 * d)))"
    by (simp add: hash_expand_def)
  show "length (hash_expand xof d t) = d" unfolding ex using assms(1) by (simp add: length_chunks_exact_4)
  have "\<exists>s n. f32_decode (hash_component (u32_from_le c)) = FpFin s n \<and> n \<le> 2 ^ 149" if "c \<in> set (chunks_exact_4 xs)" for c xs
    using u32_from_le_bound [of c] chunk_length [OF that] by (intro hash_component_decode) simp
  then show "c \<in> set (hash_expand xof d t) \<Longrightarrow> \<exists>s n. f32_decode c = FpFin s n \<and> n \<le> 2 ^ 149"
    unfolding ex by auto
qed

lemma hash_expand_finite:
  assumes "\<And>t n. length (xof t n) = n" "d * 4 < 2 ^ 64"
  shows "finite_vec (hash_expand xof d t)"
  unfolding finite_vec_def list_all_iff using hash_expand_bounds(2) [OF assms, where t = t] by (fastforce simp: fp_finite_def)

lemma hash_batch: "default_embed_batch (\<lambda>t w. (Inr (hash_expand xof d t), w)) ts w = (Inr (map (hash_expand xof d) ts), w)"
  by (induction ts) simp_all

lemma hash_embedder_proposes:
  "resolver_propose (hash_embedder xof d) surface k (ix, w) =
     (Inr (map (\<lambda>(r, s). (vr_iri r, s)) (vi_search (hash_expand xof d surface) k ix)), ix, w)"
proof -
  have "eb_embed (hash_embedder xof d) surface w = (Inr (hash_expand xof d surface), w)"
    by (simp add: hash_embedder_def Let_def)
  then show ?thesis unfolding resolver_propose_def prod.case by (simp only: prod.case sum.case)
qed

section \<open>Ingestion\<close>

definition ingest_record :: "(string \<times> string) \<times> 32 word list \<Rightarrow> vector_record" where
  "ingest_record e = vr_with_meta (JObject [(''text'', JString (snd (fst e)))]) (vector_record_new (fst (fst e)) (snd e))"

lemma ingest_record_fields [simp]: "vr_vector (ingest_record e) = snd e" "vr_iri (ingest_record e) = fst (fst e)"
  by (simp_all add: ingest_record_def vr_with_meta_def vector_record_new_def)

lemma ingest_records_append:
  assumes "vi_dim ix = Some d" "\<forall>e \<in> set xs. length (snd e) = d"
  shows "ingest_records (xs @ ys) n ix = ingest_records ys (n + length xs) (ix\<lparr>vi_records := vi_records ix @ map ingest_record xs\<rparr>)"
  using assms
proof (induction xs arbitrary: n ix)
  case (Cons e xs)
  have "vi_insert (ingest_record e) ix = Inr (ix\<lparr>vi_records := vi_records ix @ [ingest_record e]\<rparr>)"
    using Cons.prems by (simp add: vi_insert_def Let_def)
  then show ?case using Cons by (cases e; cases "fst e") (simp add: ingest_record_def)
qed simp

lemma ingest_records_stops:
  assumes "vi_dim ix = Some d" "length (snd e) \<noteq> d"
  shows "ingest_records (e # ys) n ix = (Inl (EeOther (vi_error_display (DimensionMismatch d (length (snd e))))), ix)"
  using assms by (cases e; cases "fst e") (simp add: vi_insert_def vr_with_meta_def vector_record_new_def Let_def)

section \<open>Properties\<close>

text \<open>Every component of a hash embedding is a number between -1 and 1 (\<open>2^149\<close> steps), whatever the text,
  and a text gets as many components as the embedder's dimension.\<close>

theorem hash_embedding_bounds:
  assumes "\<And>t n. length (xof t n) = n" "d * 4 < 2 ^ 64"
  shows "length (hash_expand xof d t) = d \<and>
    list_all (\<lambda>c. \<exists>s n. f32_decode c = FpFin s n \<and> n \<le> 2 ^ 149) (hash_expand xof d t)"
  using hash_expand_bounds [OF assms, where t = t] by (simp add: list_all_iff)

definition sample_xof :: "string \<Rightarrow> nat \<Rightarrow> bytes" where
  [code_defs]: "sample_xof t n = replicate n (of_nat (length t))"

lemma hash_embedding_bounds_witness: "length (hash_expand sample_xof 8 ''Acme'') = 8"
  using hash_embedding_bounds [of sample_xof 8 "''Acme''"] by (simp add: sample_xof_def)

text \<open>What a fresh resolver over the hash embedder holds after it has ingested an ontology.\<close>

lemma hash_ingest:
  assumes "\<And>t. length (hash_expand xof d t) = d"
  shows "ingest_ontology hexe (hash_embedder xof d) o' (resolver_new (hash_embedder xof d), w) =
    (Inr (node_count o'), \<lparr>vi_records = map ingest_record (zip (ingest_inputs hexe o') (map (hash_expand xof d \<circ> snd) (ingest_inputs hexe o'))),
       vi_dim = Some d\<rparr>, w)"
proof -
  define inputs where "inputs = ingest_inputs hexe o'"
  define vs where "vs = map (hash_expand xof d \<circ> snd) inputs"
  have n: "length inputs = node_count o'" "length vs = length inputs"
    by (simp_all add: inputs_def vs_def ingest_inputs_def node_count_def bm_values_def)
  have "ingest_records (zip inputs vs @ []) 0 (vi_with_dimensions d) =
      ingest_records [] (0 + length (zip inputs vs)) ((vi_with_dimensions d)\<lparr>vi_records := vi_records (vi_with_dimensions d) @ map ingest_record (zip inputs vs)\<rparr>)"
    by (rule ingest_records_append) (auto simp: vi_with_dimensions_def vs_def assms dest!: set_zip_rightD)
  then show ?thesis
    by (simp add: ingest_ontology_def resolver_new_def hash_embedder_def Let_def inputs_def [symmetric] hash_batch
        vs_def [symmetric] n vi_with_dimensions_def)
qed

text \<open>The nodes of an ontology under their keys, scored against a text, in the order of the ontology.\<close>

definition scored_nodes :: "(bytes \<Rightarrow> string) \<Rightarrow> (string \<Rightarrow> 32 word list) \<Rightarrow> string \<Rightarrow> ontology \<Rightarrow> (string \<times> 32 word) list" where
  "scored_nodes hexe embedding surface o' =
     map (\<lambda>n. (node_key hexe n, cosine_similarity (embedding surface) (embedding (node_text hexe n)))) (bm_values (o_nodes o'))"

text \<open>
  C22: A fresh resolver over the hash embedder ingests every node of an ontology, and a proposal then never fails: its
  hits are the first \<open>top_k\<close> of all the nodes, each once under its key with the cosine similarity of its text and the
  surface form, in descending order of this score, nodes of equal score in the order of the ontology.
\<close>

theorem ingest_then_propose:
  assumes "\<And>t n. length (xof t n) = n" "d * 4 < 2 ^ 55"
    and "be = hash_embedder xof d" "ingest_ontology hexe be o' (resolver_new be, w) = (r, ix, w')"
  shows "r = Inr (node_count o') \<and> vi_len ix = node_count o' \<and>
    (\<exists>ranked. resolver_propose be surface k (ix, w') = (Inr (take k ranked), ix, w') \<and>
       mset ranked = mset (scored_nodes hexe (hash_expand xof d) surface o') \<and>
       sorted_wrt (\<lambda>a b. score_key (snd b) \<le> score_key (snd a)) ranked \<and>
       (\<forall>s. filter (\<lambda>h. score_key (snd h) = s) ranked =
            filter (\<lambda>h. score_key (snd h) = s) (scored_nodes hexe (hash_expand xof d) surface o')))"
proof -
  have d: "d * 4 < 2 ^ 64" "d \<le> 2 ^ 53" using assms(2) by simp_all
  note len = hash_expand_bounds(1) [OF assms(1) d(1)] and fin = hash_expand_finite [OF assms(1) d(1)]
  define inputs where "inputs = ingest_inputs hexe o'"
  define vs where "vs = map (hash_expand xof d \<circ> snd) inputs"
  have n: "length inputs = node_count o'" "length vs = length inputs"
    by (simp_all add: inputs_def vs_def ingest_inputs_def node_count_def bm_values_def)
  have r: "r = Inr (node_count o')" "w' = w" and ix: "ix = \<lparr>vi_records = map ingest_record (zip inputs vs), vi_dim = Some d\<rparr>"
    using assms(4) unfolding assms(3) hash_ingest [OF len] by (auto simp: inputs_def vs_def)
  let ?q = "hash_expand xof d surface" and ?key = "\<lambda>(r, s). (vr_iri r, s)"
  let ?all = "map (\<lambda>r. (r, cosine_similarity ?q (vr_vector r))) (vi_records ix)"
  let ?nodes = "scored_nodes hexe (hash_expand xof d) surface o'"
  have "\<forall>r \<in> set (vi_records ix). finite_vec (vr_vector r)" using fin by (auto simp: ix vs_def dest!: set_zip_rightD)
  then obtain ranked where ranked: "vi_search ?q k ix = take k ranked" "mset ranked = mset ?all"
    "sorted_wrt (\<lambda>a b. score_key (snd b) \<le> score_key (snd a)) ranked"
    "\<And>s. filter (\<lambda>h. score_key (snd h) = s) ranked = filter (\<lambda>h. score_key (snd h) = s) ?all"
    using search_sorted [of ix ?q k] fin len d(2) by (auto simp: ix)
  have "zip inputs vs = map (\<lambda>i. (i, hash_expand xof d (snd i))) inputs"
    by (simp add: vs_def zip_map2 zip_same_conv_map)
  then have all: "map ?key ?all = ?nodes" by (simp add: ix scored_nodes_def inputs_def ingest_inputs_def)
  have sel: "filter (\<lambda>h. score_key (snd h) = s) (map ?key xs) = map ?key (filter (\<lambda>h. score_key (snd h) = s) xs)"
    for s and xs :: "(vector_record \<times> 32 word) list"
    by (simp add: filter_map comp_def case_prod_unfold)
  have count: "vi_len ix = node_count o'" by (simp add: vi_len_def ix n)
  have propose: "resolver_propose be surface k (ix, w') = (Inr (take k (map ?key ranked)), ix, w')"
    unfolding take_map ranked(1) [symmetric] assms(3) by (rule hash_embedder_proposes)
  have content: "mset (map ?key ranked) = mset ?nodes" unfolding all [symmetric] mset_map ranked(2) ..
  have order: "sorted_wrt (\<lambda>a b. score_key (snd b) \<le> score_key (snd a)) (map ?key ranked)"
    unfolding sorted_wrt_map using ranked(3) by (simp add: case_prod_unfold)
  have ties: "filter (\<lambda>h. score_key (snd h) = s) (map ?key ranked) = filter (\<lambda>h. score_key (snd h) = s) ?nodes" for s
    unfolding sel ranked(4) all [symmetric] ..
  show ?thesis
  proof (intro conjI exI [of _ "map ?key ranked"] allI)
    show "r = Inr (node_count o')" by (rule r(1))
    show "vi_len ix = node_count o'" by (rule count)
    show "resolver_propose be surface k (ix, w') = (Inr (take k (map ?key ranked)), ix, w')" by (rule propose)
    show "mset (map ?key ranked) = mset ?nodes" by (rule content)
    show "sorted_wrt (\<lambda>a b. score_key (snd b) \<le> score_key (snd a)) (map ?key ranked)" by (rule order)
    show "filter (\<lambda>h. score_key (snd h) = s) (map ?key ranked) = filter (\<lambda>h. score_key (snd h) = s) ?nodes" for s by (rule ties)
  qed
qed

definition sample_pair :: ontology where
  [code_defs]: "sample_pair =
     upsert_node \<lparr>n_id = NodeId [2], n_iri = None, n_types = [''Org''], n_props = [(''name'', PString ''Acme'')]\<rparr>
       (upsert_node \<lparr>n_id = NodeId [1], n_iri = None, n_types = [''Org''], n_props = [(''name'', PString ''Globex'')]\<rparr> ontology_new)"

definition sample_hexe :: "bytes \<Rightarrow> string" where
  [code_defs]: "sample_hexe b = (if b = [1] then ''1'' else ''2'')"

text \<open>Two nodes, of which a proposal returns both.\<close>

lemma ingest_then_propose_witness:
  "\<exists>ix hits. ingest_ontology sample_hexe (hash_embedder sample_xof 4) sample_pair (resolver_new (hash_embedder sample_xof 4 :: unit embedding_backend), ()) = (Inr 2, ix, ()) \<and>
     resolver_propose (hash_embedder sample_xof 4) ''Acme'' 5 (ix, ()) = (Inr hits, ix, ()) \<and>
     mset (map fst hits) = {#''NodeId('' @ ''1'' @ '')'', ''NodeId('' @ ''2'' @ '')''#}"
proof -
  let ?be = "hash_embedder sample_xof 4 :: unit embedding_backend"
  let ?nodes = "scored_nodes sample_hexe (hash_expand sample_xof 4) ''Acme'' sample_pair"
  obtain r ix w where i: "ingest_ontology sample_hexe ?be sample_pair (resolver_new ?be, ()) = (r, ix, w)" by (rule prod_cases3)
  have count: "node_count sample_pair = 2" by code_simp
  obtain ranked where *: "r = Inr 2" "resolver_propose ?be ''Acme'' 5 (ix, w) = (Inr (take 5 ranked), ix, w)" "mset ranked = mset ?nodes"
    using ingest_then_propose [OF _ _ refl i, of "''Acme''" 5] by (auto simp: sample_xof_def count)
  have "map fst ?nodes = map (node_key sample_hexe) (bm_values (o_nodes sample_pair))" by (simp add: scored_nodes_def)
  also have "\<dots> = [''NodeId('' @ ''1'' @ '')'', ''NodeId('' @ ''2'' @ '')'']" by code_simp
  finally have keys: "map fst ?nodes = [''NodeId('' @ ''1'' @ '')'', ''NodeId('' @ ''2'' @ '')'']" .
  have "length ranked = 2" using arg_cong [OF *(3), of size] arg_cong [OF keys, of length] by simp
  moreover have "mset (map fst ranked) = mset (map fst ?nodes)" unfolding mset_map *(3) ..
  ultimately show ?thesis using i * keys by (intro exI [of _ ix] exI [of _ ranked]) simp
qed

text \<open>When a backend returns a vector of the wrong dimension, ingestion fails at that node, and the nodes
  before it stay in the index.\<close>

theorem failed_ingest_keeps_prefix:
  assumes "eb_embed_batch be (map snd (ingest_inputs hexe o')) w = (Inr (good @ bad # rest), w')"
    and "length (good @ bad # rest) = length (ingest_inputs hexe o')"
    and "vi_dim ix = Some d" "\<forall>v \<in> set good. length v = d" "length bad \<noteq> d"
  shows "ingest_ontology hexe be o' (ix, w) =
    (Inl (EeOther (vi_error_display (DimensionMismatch d (length bad)))),
     ix\<lparr>vi_records := vi_records ix @ map ingest_record (zip (take (length good) (ingest_inputs hexe o')) good)\<rparr>, w')"
proof -
  let ?ins = "ingest_inputs hexe o'"
  let ?n = "length good"
  have n: "?n < length ?ins" using assms(2) by simp
  have dims: "\<forall>e \<in> set (zip (take ?n ?ins) good). length (snd e) = d" using assms(4) by (auto dest!: set_zip_rightD)
  have "zip ?ins (good @ bad # rest) = zip (take ?n ?ins) good @ (?ins ! ?n, bad) # zip (drop (Suc ?n) ?ins) rest"
    using n by (subst (1) id_take_nth_drop [OF n]) (simp add: min_def)
  then have "ingest_records (zip ?ins (good @ bad # rest)) 0 ix =
      ingest_records ((?ins ! ?n, bad) # zip (drop (Suc ?n) ?ins) rest) (length (zip (take ?n ?ins) good))
        (ix\<lparr>vi_records := vi_records ix @ map ingest_record (zip (take ?n ?ins) good)\<rparr>)"
    using ingest_records_append [OF assms(3) dims, of "(?ins ! ?n, bad) # zip (drop (Suc ?n) ?ins) rest" 0] by simp
  then show ?thesis
    using assms(1-3,5) by (simp add: ingest_ontology_def Let_def ingest_records_stops)
qed

definition lying_backend :: "unit embedding_backend" where
  [code_defs]: "lying_backend = \<lparr>eb_embed = (\<lambda>_ w. (Inr [0], w)), eb_embed_batch = (\<lambda>_ w. (Inr [[0]], w)), eb_dimensions = 2, eb_label = ''lying''\<rparr>"

lemma failed_ingest_keeps_prefix_witness:
  "\<exists>o'. fst (ingest_ontology (\<lambda>_. []) lying_backend o' (resolver_new lying_backend, ())) =
     Inl (EeOther (vi_error_display (DimensionMismatch 2 1)))"
proof
  let ?o = "upsert_node (node_new (\<lambda>_ x. x) [] ''Org'') ontology_new"
  have one: "length (ingest_inputs (\<lambda>_. []) ?o) = 1" by code_simp
  have "ingest_ontology (\<lambda>_. []) lying_backend ?o (resolver_new lying_backend, ()) =
      (Inl (EeOther (vi_error_display (DimensionMismatch 2 (length [0 :: 32 word])))),
       (resolver_new lying_backend)\<lparr>vi_records := vi_records (resolver_new lying_backend) @
         map ingest_record (zip (take (length ([] :: 32 word list list)) (ingest_inputs (\<lambda>_. []) ?o)) [])\<rparr>, ())"
    by (rule failed_ingest_keeps_prefix [where rest = "[]"]) (use one in \<open>simp_all add: lying_backend_def resolver_new_def vi_with_dimensions_def\<close>)
  then show "fst (ingest_ontology (\<lambda>_. []) lying_backend ?o (resolver_new lying_backend, ())) =
      Inl (EeOther (vi_error_display (DimensionMismatch 2 1)))" by simp
qed

end
