(* ===== verification/Org.thy ===== *)
theory Org
  imports Core_Ontology
begin

text \<open>
  \<open>crates/atomr-ontology-org/src/lib.rs\<close>: the reference vocabulary for organisations, merged into an
  ontology. The declarations and axioms are listed in the order of the code; the hash \<open>H\<close> gives the
  identifiers of the axioms.
\<close>

section \<open>The vocabulary\<close>

definition ORG_NS :: string where [code_defs]: "ORG_NS = ''http://www.w3.org/ns/org#''"
definition ORG_FOAF_NS :: string where [code_defs]: "ORG_FOAF_NS = ''http://xmlns.com/foaf/0.1/''"

definition org_iri :: "string \<Rightarrow> string \<Rightarrow> iri" where
  [code_defs]: "org_iri base name = Iri (base @ name)"

definition org_label_property :: property_type where
  [code_defs]: "org_label_property =
     \<lparr>pt_name = ''name'', pt_datatype = DString, pt_card = CARD_ONE,
      pt_iri = Some (Iri ''http://www.w3.org/2000/01/rdf-schema#label''), pt_desc = Some ''Display name''\<rparr>"

definition org_node_types :: "node_type list" where
  [code_defs]: "org_node_types =
     [nt_with_property org_label_property (nt_with_description ''A collection of people organized for some purpose (W3C Org).''
         (nt_with_iri (org_iri ORG_NS ''Organization'') (nt_new ''Organization''))),
      nt_with_description ''An organization recognized in the world at large, e.g., a corporation, government.'' (nt_with_supertype ''Organization''
         (nt_with_iri (org_iri ORG_NS ''FormalOrganization'') (nt_new ''FormalOrganization''))),
      nt_with_description ''A unit of an organization, e.g., a department or division.'' (nt_with_supertype ''Organization''
         (nt_with_iri (org_iri ORG_NS ''OrganizationalUnit'') (nt_new ''OrganizationalUnit''))),
      nt_with_property org_label_property (nt_with_description ''A natural person.''
         (nt_with_iri (org_iri ORG_FOAF_NS ''Person'') (nt_new ''Person''))),
      nt_with_description ''A role that an agent may play.'' (nt_with_iri (org_iri ORG_NS ''Role'') (nt_new ''Role'')),
      nt_with_description ''A position that may be held by a single agent.''
         (nt_with_iri (org_iri ORG_NS ''Post'') (nt_new ''Post'')),
      nt_with_description ''A site that an organization occupies.''
         (nt_with_iri (org_iri ORG_NS ''Site'') (nt_new ''Site'')),
      nt_with_description ''Indirect relation between an agent and an organization.''
         (nt_with_iri (org_iri ORG_NS ''Membership'') (nt_new ''Membership''))]"

definition org_edge_types :: "edge_type list" where
  [code_defs]: "org_edge_types =
     [et_with_description ''Indicates that the agent is a member of the organization.'' (et_with_inverse ''hasMember'' (et_with_range ''Organization'' (et_with_domain ''Organization'' (et_with_domain ''Person''
         (et_with_iri (org_iri ORG_NS ''memberOf'') (et_new ''memberOf'')))))),
      et_with_inverse ''memberOf'' (et_with_range ''Organization'' (et_with_range ''Person'' (et_with_domain ''Organization''
         (et_with_iri (org_iri ORG_NS ''hasMember'') (et_new ''hasMember''))))),
      et_with_inverse ''hasSubOrganization'' (et_with_range ''Organization'' (et_with_domain ''Organization''
         (et_with_iri (org_iri ORG_NS ''subOrganizationOf'') (et_new ''subOrganizationOf'')))),
      et_with_inverse ''subOrganizationOf'' (et_with_range ''Organization'' (et_with_domain ''Organization''
         (et_with_iri (org_iri ORG_NS ''hasSubOrganization'') (et_new ''hasSubOrganization'')))),
      et_with_range ''Membership'' (et_with_domain ''Person''
         (et_with_iri (org_iri ORG_NS ''hasMembership'') (et_new ''hasMembership''))),
      et_with_range ''Organization'' (et_with_domain ''Membership''
         (et_with_iri (org_iri ORG_NS ''organization'') (et_new ''organization''))),
      et_with_range ''Role'' (et_with_domain ''Membership'' (et_with_iri (org_iri ORG_NS ''role'') (et_new ''role''))),
      et_with_range ''Site'' (et_with_domain ''Organization''
         (et_with_iri (org_iri ORG_NS ''hasSite'') (et_new ''hasSite'')))]"

definition org_axioms :: "axiom_kind list" where
  [code_defs]: "org_axioms =
     [EquivalentClass ''Organization'' ''schema:Organization'',
      SubClassOf ''FormalOrganization'' ''Organization'',
      SubClassOf ''OrganizationalUnit'' ''Organization'',
      InverseOf ''memberOf'' ''hasMember'',
      InverseOf ''subOrganizationOf'' ''hasSubOrganization'',
      Transitive ''subOrganizationOf'']"

definition build_reference_vocabulary :: "hasher \<Rightarrow> ontology \<Rightarrow> ontology" where
  [code_defs]: "build_reference_vocabulary H out =
     (let out = out\<lparr>o_vocab := (if o_vocab out \<noteq> [] then o_vocab out else with_standard_bindings)\<rparr>;
          out = fold (\<lambda>t out. out\<lparr>o_schema := declare_node_type t (o_schema out)\<rparr>) org_node_types out;
          out = fold (\<lambda>t out. out\<lparr>o_schema := declare_edge_type t (o_schema out)\<rparr>) org_edge_types out
      in fold (\<lambda>k. upsert_axiom (axiom_new H k)) org_axioms out)"

text \<open>\<open>expect\<close> on a constant that is a valid IRI.\<close>

definition reference_ontology :: "hasher \<Rightarrow> ontology" where
  [code_defs]: "reference_ontology H =
     (case ontology_with_iri ''https://atomr.dev/ontology/org/v1'' of
        Inr o' \<Rightarrow> build_reference_vocabulary H o'
      | Inl _ \<Rightarrow> undefined)"

section \<open>Folding declarations\<close>

definition bm_insert_all :: "('k::linorder \<times> 'v) list \<Rightarrow> ('k, 'v) bmap \<Rightarrow> ('k, 'v) bmap" where
  "bm_insert_all es m = fold (\<lambda>(k, v). bm_insert k v) es m"

lemma bm_insert_all_wf [simp]: "bm_wf m \<Longrightarrow> bm_wf (bm_insert_all es m)"
  by (induction es arbitrary: m) (auto simp: bm_insert_all_def)

lemma bm_insert_all_get: "map_of (bm_insert_all es m) = map_of m ++ map_of (rev es)"
  by (induction es arbitrary: m) (auto simp: bm_insert_all_def)

lemma bm_insert_all_twice: "bm_wf m \<Longrightarrow> bm_insert_all es (bm_insert_all es m) = bm_insert_all es m"
  by (rule bm_ext) (auto simp: bm_insert_all_get map_add_def split: option.splits)

lemma fold_declare_node_types:
  "fold (\<lambda>t out. out\<lparr>o_schema := declare_node_type t (o_schema out)\<rparr>) ts o' =
     o'\<lparr>o_schema := (o_schema o')\<lparr>s_node_types := bm_insert_all (map (\<lambda>t. (nt_name t, t)) ts) (s_node_types (o_schema o'))\<rparr>\<rparr>"
  by (induction ts arbitrary: o') (simp_all add: bm_insert_all_def declare_node_type_def)

lemma fold_declare_edge_types:
  "fold (\<lambda>t out. out\<lparr>o_schema := declare_edge_type t (o_schema out)\<rparr>) ts o' =
     o'\<lparr>o_schema := (o_schema o')\<lparr>s_edge_types := bm_insert_all (map (\<lambda>t. (et_name t, t)) ts) (s_edge_types (o_schema o'))\<rparr>\<rparr>"
  by (induction ts arbitrary: o') (simp_all add: bm_insert_all_def declare_edge_type_def)

lemma fold_upsert_axioms:
  "fold (\<lambda>k. upsert_axiom (axiom_new H k)) ks o' =
     o'\<lparr>o_axioms := bm_insert_all (map (\<lambda>k. (ax_id (axiom_new H k), axiom_new H k)) ks) (o_axioms o')\<rparr>"
  by (induction ks arbitrary: o') (simp_all add: bm_insert_all_def upsert_axiom_def)

lemmas build_unfold = build_reference_vocabulary_def Let_def fold_declare_node_types fold_declare_edge_types fold_upsert_axioms

lemma ont_wf_build:
  assumes "ont_wf o'"
  shows "ont_wf (build_reference_vocabulary H o')"
proof -
  have start: "ont_wf (o'\<lparr>o_vocab := (if o_vocab o' \<noteq> [] then o_vocab o' else with_standard_bindings)\<rparr>)"
    using assms by (cases "o_vocab o' = []") (simp_all add: ont_wf_def with_standard_bindings_wf)
  have node: "ont_wf (q\<lparr>o_schema := declare_node_type t (o_schema q)\<rparr>)" if "ont_wf q" for t q
    using that by (simp add: ont_wf_def schema_wf_declare_node_type)
  have edge: "ont_wf (q\<lparr>o_schema := declare_edge_type t (o_schema q)\<rparr>)" if "ont_wf q" for t q
    using that by (simp add: ont_wf_def schema_wf_declare_edge_type)
  have nodes: "ont_wf (fold (\<lambda>t out. out\<lparr>o_schema := declare_node_type t (o_schema out)\<rparr>) ts q)" if "ont_wf q" for ts q
    using that by (induction ts arbitrary: q) (simp_all add: node)
  have edges: "ont_wf (fold (\<lambda>t out. out\<lparr>o_schema := declare_edge_type t (o_schema out)\<rparr>) ts q)" if "ont_wf q" for ts q
    using that by (induction ts arbitrary: q) (simp_all add: edge)
  have axs: "ont_wf (fold (\<lambda>k. upsert_axiom (axiom_new H k)) ks q)" if "ont_wf q" for ks q
    using that by (induction ks arbitrary: q) simp_all
  show ?thesis unfolding build_reference_vocabulary_def Let_def by (intro axs edges nodes start)
qed

section \<open>Properties\<close>

text \<open>Every name that a schema uses is declared in it, and inverses are declared mutually.\<close>

definition schema_closed :: "schema \<Rightarrow> bool" where
  [code_defs]: "schema_closed s \<longleftrightarrow>
     list_all (\<lambda>(_, t). list_all (bm_contains (s_node_types s)) (nt_supertypes t)) (s_node_types s) \<and>
     list_all (\<lambda>(n, t).
       list_all (bm_contains (s_node_types s)) (et_domain t) \<and> list_all (bm_contains (s_node_types s)) (et_range t) \<and>
       (case et_inverse_of t of
          None \<Rightarrow> True
        | Some i \<Rightarrow>
            (case edge_type s i of
               None \<Rightarrow> False
             | Some u \<Rightarrow> et_inverse_of u = Some n \<and> set (et_domain u) = set (et_range t) \<and> set (et_range u) = set (et_domain t))))
       (s_edge_types s)"

text \<open>Merging the reference vocabulary into any well-formed ontology keeps it well-formed, leaves its nodes,
  edges and the declarations under other names as they were, and merging it again changes nothing.\<close>

theorem build_idempotent:
  assumes "ont_wf o'"
  shows "ont_wf (build_reference_vocabulary H o') \<and>
    build_reference_vocabulary H (build_reference_vocabulary H o') = build_reference_vocabulary H o' \<and>
    o_nodes (build_reference_vocabulary H o') = o_nodes o' \<and> o_edges (build_reference_vocabulary H o') = o_edges o' \<and>
    (\<forall>n. n \<notin> nt_name ` set org_node_types \<longrightarrow> node_type (o_schema (build_reference_vocabulary H o')) n = node_type (o_schema o') n)"
proof (intro conjI allI impI)
  have wf: "bm_wf (s_node_types (o_schema o'))" "bm_wf (s_edge_types (o_schema o'))" "bm_wf (o_axioms o')"
    using assms by (simp_all add: ont_wf_def schema_wf_def)
  have "with_standard_bindings \<noteq> []" by code_simp
  then show "build_reference_vocabulary H (build_reference_vocabulary H o') = build_reference_vocabulary H o'"
    by (simp add: build_unfold bm_insert_all_twice wf)
  show "node_type (o_schema (build_reference_vocabulary H o')) n = node_type (o_schema o') n" if "n \<notin> nt_name ` set org_node_types" for n
  proof -
    have "map_of (rev (map (\<lambda>t. (nt_name t, t)) org_node_types)) n = None"
      using that by (force simp: map_of_eq_None_iff rev_map)
    then show ?thesis by (simp add: build_unfold node_type_def bm_insert_all_get map_add_def)
  qed
  show "ont_wf (build_reference_vocabulary H o')" by (rule ont_wf_build [OF assms])
qed (simp_all add: build_unfold)

lemma build_idempotent_witness:
  "build_reference_vocabulary (\<lambda>_ x. x) (build_reference_vocabulary (\<lambda>_ x. x) ontology_new) = build_reference_vocabulary (\<lambda>_ x. x) ontology_new"
  using build_idempotent [OF ont_wf_new] by blast

lemma map_of_listed: "distinct (map f ts) \<Longrightarrow> t \<in> set ts \<Longrightarrow> map_of (rev (map (\<lambda>t. (f t, g t)) ts)) (f t) = Some (g t)"
  by (rule map_of_is_SomeI) (auto simp: rev_map comp_def simp flip: rev_map)

lemma org_names_distinct: "distinct (map nt_name org_node_types)" "distinct (map et_name org_edge_types)" "distinct org_axioms"
  by code_simp+

lemma build_declares:
  "t \<in> set org_node_types \<Longrightarrow> node_type (o_schema (build_reference_vocabulary H o')) (nt_name t) = Some t"
  "u \<in> set org_edge_types \<Longrightarrow> edge_type (o_schema (build_reference_vocabulary H o')) (et_name u) = Some u"
  using map_of_listed [OF org_names_distinct(1), where g = "\<lambda>t. t"] map_of_listed [OF org_names_distinct(2), where g = "\<lambda>t. t"]
  by (simp_all add: build_unfold node_type_def edge_type_def bm_insert_all_get)

lemma build_axioms:
  assumes "inj_on (\<lambda>k. ax_id (axiom_new H k)) (set org_axioms)"
  shows "map_of (o_axioms (build_reference_vocabulary H o')) =
    map_of (o_axioms o') ++ map_of (map (\<lambda>k. (ax_id (axiom_new H k), axiom_new H k)) org_axioms)"
proof -
  have "distinct (map fst (map (\<lambda>k. (ax_id (axiom_new H k), axiom_new H k)) org_axioms))"
    using assms org_names_distinct(3) by (simp add: comp_def distinct_map del: axiom_new_sel)
  then have "map_of (rev (map (\<lambda>k. (ax_id (axiom_new H k), axiom_new H k)) org_axioms)) =
      map_of (map (\<lambda>k. (ax_id (axiom_new H k), axiom_new H k)) org_axioms)"
    by (subst map_of_inject_set) (simp_all add: rev_map del: axiom_new_sel flip: rev_map)
  then show ?thesis by (simp add: build_unfold bm_insert_all_get del: axiom_new_sel)
qed

text \<open>The ontology the code builds from nothing but the vocabulary: its schema and its axioms.\<close>

lemma reference_schema:
  "o_schema (reference_ontology H) =
     \<lparr>s_node_types = bm_insert_all (map (\<lambda>t. (nt_name t, t)) org_node_types) [],
      s_edge_types = bm_insert_all (map (\<lambda>t. (et_name t, t)) org_edge_types) []\<rparr>"
  and reference_build: "\<exists>o'. ont_wf o' \<and> o_axioms o' = [] \<and> reference_ontology H = build_reference_vocabulary H o'"
proof -
  have "ontology_with_iri ''https://atomr.dev/ontology/org/v1'' = Inr (ontology_new\<lparr>o_iri := Some (Iri ''https://atomr.dev/ontology/org/v1'')\<rparr>)"
    unfolding ontology_with_iri_def by code_simp
  then have r: "reference_ontology H = build_reference_vocabulary H (ontology_new\<lparr>o_iri := Some (Iri ''https://atomr.dev/ontology/org/v1'')\<rparr>)"
    by (simp add: reference_ontology_def)
  show "o_schema (reference_ontology H) =
     \<lparr>s_node_types = bm_insert_all (map (\<lambda>t. (nt_name t, t)) org_node_types) [],
      s_edge_types = bm_insert_all (map (\<lambda>t. (et_name t, t)) org_edge_types) []\<rparr>"
    unfolding r by (simp add: build_unfold ontology_new_def schema_new_def)
  have "ont_wf (ontology_new\<lparr>o_iri := Some (Iri ''https://atomr.dev/ontology/org/v1'')\<rparr>)"
    using ont_wf_new by (simp add: ont_wf_def)
  with r show "\<exists>o'. ont_wf o' \<and> o_axioms o' = [] \<and> reference_ontology H = build_reference_vocabulary H o'"
    by (intro exI [of _ "ontology_new\<lparr>o_iri := Some (Iri ''https://atomr.dev/ontology/org/v1'')\<rparr>"]) (simp add: ontology_new_def)
qed

lemma reference_kinds:
  assumes "inj_on (\<lambda>k. ax_id (axiom_new H k)) (set org_axioms)"
  shows "kinds (reference_ontology H) = set org_axioms"
proof -
  let ?es = "map (\<lambda>k. (ax_id (axiom_new H k), axiom_new H k)) org_axioms"
  obtain o' where o': "ont_wf o'" "o_axioms o' = []" "reference_ontology H = build_reference_vocabulary H o'"
    using reference_build by blast
  have wf: "bm_wf (o_axioms (reference_ontology H))" using ont_wf_build [OF o'(1)] by (simp add: o'(3) ont_wf_def)
  have d: "distinct (map fst ?es)"
    using assms org_names_distinct(3) by (simp add: comp_def distinct_map del: axiom_new_sel)
  have get: "map_of (o_axioms (reference_ontology H)) = map_of ?es"
    unfolding o'(3) build_axioms [OF assms] o'(2) by simp
  have "set (o_axioms (reference_ontology H)) = set ?es"
  proof (intro equalityI subrelI)
    fix i a assume "(i, a) \<in> set (o_axioms (reference_ontology H))"
    then have "map_of ?es i = Some a" unfolding get [symmetric] using wf by (simp add: bm_set_iff)
    then show "(i, a) \<in> set ?es" by (rule map_of_SomeD)
  next
    fix i a assume "(i, a) \<in> set ?es"
    with d have "map_of ?es i = Some a" by (rule map_of_is_SomeI)
    then show "(i, a) \<in> set (o_axioms (reference_ontology H))" unfolding get [symmetric] by (rule map_of_SomeD)
  qed
  then show ?thesis by (simp add: kinds_def bm_values_def image_image)
qed

lemma stored_axioms:
  assumes "inj_on (\<lambda>k. ax_id (axiom_new H k)) (set org_axioms)"
  shows "\<forall>k \<in> set org_axioms. (m ++ map_of (map (\<lambda>k. (ax_id (axiom_new H k), axiom_new H k)) org_axioms)) (ax_id (axiom_new H k)) =
    Some (axiom_new H k)"
proof
  fix k assume k: "k \<in> set org_axioms"
  have "distinct (map fst (map (\<lambda>k. (ax_id (axiom_new H k), axiom_new H k)) org_axioms))"
    using assms org_names_distinct(3) by (simp add: comp_def distinct_map del: axiom_new_sel)
  from map_of_is_SomeI [OF this, of "ax_id (axiom_new H k)" "axiom_new H k"] k
  show "(m ++ map_of (map (\<lambda>k. (ax_id (axiom_new H k), axiom_new H k)) org_axioms)) (ax_id (axiom_new H k)) = Some (axiom_new H k)"
    by (simp add: map_add_Some_iff del: axiom_new_sel)
qed

lemma build_keeps:
  "n \<notin> et_name ` set org_edge_types \<Longrightarrow> edge_type (o_schema (build_reference_vocabulary H o')) n = edge_type (o_schema o') n"
  "i \<notin> (\<lambda>k. ax_id (axiom_new H k)) ` set org_axioms \<Longrightarrow>
     map_of (o_axioms (build_reference_vocabulary H o')) i = map_of (o_axioms o') i"
proof -
  assume "n \<notin> et_name ` set org_edge_types"
  then have "map_of (rev (map (\<lambda>t. (et_name t, t)) org_edge_types)) n = None" by (force simp: map_of_eq_None_iff rev_map)
  then show "edge_type (o_schema (build_reference_vocabulary H o')) n = edge_type (o_schema o') n"
    by (simp add: build_unfold edge_type_def bm_insert_all_get map_add_def)
next
  assume "i \<notin> (\<lambda>k. ax_id (axiom_new H k)) ` set org_axioms"
  then have "map_of (rev (map (\<lambda>k. (ax_id (axiom_new H k), axiom_new H k)) org_axioms)) i = None"
    by (force simp: map_of_eq_None_iff rev_map simp del: axiom_new_sel)
  then show "map_of (o_axioms (build_reference_vocabulary H o')) i = map_of (o_axioms o') i"
    by (simp add: build_unfold bm_insert_all_get map_add_def del: axiom_new_sel)
qed

lemma subclasses_declared:
  "{(a, b). SubClassOf a b \<in> set org_axioms} =
     {(a, b). \<exists>t. node_type (o_schema (reference_ontology H)) a = Some t \<and> b \<in> set (nt_supertypes t)}"
proof -
  let ?m = "bm_insert_all (map (\<lambda>t. (nt_name t, t)) org_node_types) []"
  have "{(a, b). SubClassOf a b \<in> set org_axioms} =
      set (concat (map (\<lambda>k. case k of SubClassOf a b \<Rightarrow> [(a, b)] | _ \<Rightarrow> []) org_axioms))"
    by (force split: axiom_kind.splits)
  also have "\<dots> = set (concat (map (\<lambda>(n, t). map (Pair n) (nt_supertypes t)) ?m))" unfolding bm_insert_all_def by code_simp
  also have "\<dots> = {(a, b). \<exists>t. map_of ?m a = Some t \<and> b \<in> set (nt_supertypes t)}" by (force simp: bm_set_iff)
  finally show ?thesis by (simp add: node_type_def reference_schema)
qed

lemma inverses_declared:
  "{(p, q). InverseOf p q \<in> set org_axioms \<or> InverseOf q p \<in> set org_axioms} =
     {(p, q). \<exists>t. edge_type (o_schema (reference_ontology H)) p = Some t \<and> et_inverse_of t = Some q}"
proof -
  let ?m = "bm_insert_all (map (\<lambda>t. (et_name t, t)) org_edge_types) []"
  have "{(p, q). InverseOf p q \<in> set org_axioms \<or> InverseOf q p \<in> set org_axioms} =
      set (concat (map (\<lambda>k. case k of InverseOf p q \<Rightarrow> [(p, q), (q, p)] | _ \<Rightarrow> []) org_axioms))"
    by (force split: axiom_kind.splits)
  also have "\<dots> = set (concat (map (\<lambda>(n, t). case et_inverse_of t of Some q \<Rightarrow> [(n, q)] | None \<Rightarrow> []) ?m))" unfolding bm_insert_all_def by code_simp
  also have "\<dots> = {(p, q). \<exists>t. map_of ?m p = Some t \<and> et_inverse_of t = Some q}" by (force simp: bm_set_iff split: option.splits)
  finally show ?thesis by (simp add: edge_type_def reference_schema)
qed

text \<open>
  C32: Merging the reference vocabulary into any well-formed ontology declares every type and stores every axiom of the
  vocabulary as listed, leaves the other declarations and axioms, the nodes and the edges as they were, and merging it again
  changes nothing. The reference ontology, which holds nothing else, is complete: every supertype, domain, range
  and inverse it names is declared, inverses are mutual with domain and range exchanged, the subclass axioms it stores
  are exactly its declared supertypes and the inverse axioms, read both ways, its declared inverses. The hash must give the
  six axioms different identifiers.
\<close>

theorem reference_closed:
  assumes "inj_on (\<lambda>k. ax_id (axiom_new H k)) (set org_axioms)"
  shows "(\<forall>o'. ont_wf o' \<longrightarrow>
     (\<forall>t \<in> set org_node_types. node_type (o_schema (build_reference_vocabulary H o')) (nt_name t) = Some t) \<and>
     (\<forall>t \<in> set org_edge_types. edge_type (o_schema (build_reference_vocabulary H o')) (et_name t) = Some t) \<and>
     (\<forall>k \<in> set org_axioms. map_of (o_axioms (build_reference_vocabulary H o')) (ax_id (axiom_new H k)) = Some (axiom_new H k)) \<and>
     (\<forall>n. n \<notin> nt_name ` set org_node_types \<longrightarrow> node_type (o_schema (build_reference_vocabulary H o')) n = node_type (o_schema o') n) \<and>
     (\<forall>n. n \<notin> et_name ` set org_edge_types \<longrightarrow> edge_type (o_schema (build_reference_vocabulary H o')) n = edge_type (o_schema o') n) \<and>
     (\<forall>i. i \<notin> (\<lambda>k. ax_id (axiom_new H k)) ` set org_axioms \<longrightarrow>
        map_of (o_axioms (build_reference_vocabulary H o')) i = map_of (o_axioms o') i) \<and>
     o_nodes (build_reference_vocabulary H o') = o_nodes o' \<and> o_edges (build_reference_vocabulary H o') = o_edges o' \<and>
     build_reference_vocabulary H (build_reference_vocabulary H o') = build_reference_vocabulary H o') \<and>
   schema_closed (o_schema (reference_ontology H)) \<and>
   {(a, b). SubClassOf a b \<in> kinds (reference_ontology H)} =
     {(a, b). \<exists>t. node_type (o_schema (reference_ontology H)) a = Some t \<and> b \<in> set (nt_supertypes t)} \<and>
   {(p, q). InverseOf p q \<in> kinds (reference_ontology H) \<or> InverseOf q p \<in> kinds (reference_ontology H)} =
     {(p, q). \<exists>t. edge_type (o_schema (reference_ontology H)) p = Some t \<and> et_inverse_of t = Some q}"
proof (intro conjI allI impI)
  fix o' :: ontology
  assume wf: "ont_wf o'"
  note idem = build_idempotent [OF wf, of H]
  show "\<forall>t \<in> set org_node_types. node_type (o_schema (build_reference_vocabulary H o')) (nt_name t) = Some t"
    "\<forall>t \<in> set org_edge_types. edge_type (o_schema (build_reference_vocabulary H o')) (et_name t) = Some t"
    using build_declares by blast+
  show "\<forall>k \<in> set org_axioms. map_of (o_axioms (build_reference_vocabulary H o')) (ax_id (axiom_new H k)) = Some (axiom_new H k)"
    unfolding build_axioms [OF assms] by (rule stored_axioms [OF assms])
  show "edge_type (o_schema (build_reference_vocabulary H o')) n = edge_type (o_schema o') n" if "n \<notin> et_name ` set org_edge_types" for n
    by (rule build_keeps(1) [OF that])
  show "map_of (o_axioms (build_reference_vocabulary H o')) i = map_of (o_axioms o') i"
    if "i \<notin> (\<lambda>k. ax_id (axiom_new H k)) ` set org_axioms" for i
    by (rule build_keeps(2) [OF that])
  show "node_type (o_schema (build_reference_vocabulary H o')) n = node_type (o_schema o') n" if "n \<notin> nt_name ` set org_node_types" for n
    using idem that by blast
  show "o_nodes (build_reference_vocabulary H o') = o_nodes o'" "o_edges (build_reference_vocabulary H o') = o_edges o'"
    "build_reference_vocabulary H (build_reference_vocabulary H o') = build_reference_vocabulary H o'"
    using idem by blast+
next
  show "schema_closed (o_schema (reference_ontology H))"
    unfolding reference_schema bm_insert_all_def by code_simp
  show "{(a, b). SubClassOf a b \<in> kinds (reference_ontology H)} =
     {(a, b). \<exists>t. node_type (o_schema (reference_ontology H)) a = Some t \<and> b \<in> set (nt_supertypes t)}"
    unfolding reference_kinds [OF assms] by (rule subclasses_declared)
  show "{(p, q). InverseOf p q \<in> kinds (reference_ontology H) \<or> InverseOf q p \<in> kinds (reference_ontology H)} =
     {(p, q). \<exists>t. edge_type (o_schema (reference_ontology H)) p = Some t \<and> et_inverse_of t = Some q}"
    unfolding reference_kinds [OF assms] by (rule inverses_declared)
qed

text \<open>Any hash that keeps the canonical texts apart will do.\<close>

lemma reference_closed_witness:
  "kinds (reference_ontology (\<lambda>_ x. x)) = set org_axioms \<and>
   SubClassOf ''FormalOrganization'' ''Organization'' \<in> kinds (reference_ontology (\<lambda>_ x. x)) \<and>
   schema_closed (o_schema (reference_ontology (\<lambda>_ x. x)))"
proof -
  have "distinct (map (\<lambda>k. ax_id (axiom_new (\<lambda>_ x. x) k)) org_axioms)" by code_simp
  then have inj: "inj_on (\<lambda>k. ax_id (axiom_new (\<lambda>_ x. x) k)) (set org_axioms)" by (simp add: distinct_map)
  note closed = reference_closed [OF inj]
  then have "schema_closed (o_schema (reference_ontology (\<lambda>_ x. x)))" by (elim conjE)
  with reference_kinds [OF inj] show ?thesis by (simp add: org_axioms_def)
qed

end
