(* ===== verification/Testkit.thy ===== *)
theory Testkit
  imports Extract_Backend Validate
begin

text \<open>
  \<open>crates/atomr-ontology-testkit/src\<close>: the scripted backend (\<open>mock.rs\<close>), the fixtures (\<open>fixtures.rs\<close>) and
  the assertions (\<open>assertions.rs\<close>), where a panic is \<open>False\<close>. The
  state of the mock is behind one lock that each call holds from first to last access, so a call is one
  step. \<open>to_str\<close> is the writer of \<open>serde_json\<close>, whose failure is a panic.
\<close>

section \<open>The scripted backend\<close>

datatype mock_response = MockText string | MockError backend_error

record mock_state =
  mk_queue :: "mock_response list"
  mk_captured :: "prompt list"

definition mock_new :: mock_state where
  [code_defs]: "mock_new = \<lparr>mk_queue = [], mk_captured = []\<rparr>"

definition mock_enqueue :: "string \<Rightarrow> mock_state \<Rightarrow> mock_state" where
  [code_defs]: "mock_enqueue response s = s\<lparr>mk_queue := mk_queue s @ [MockText response]\<rparr>"

definition mock_enqueue_error :: "backend_error \<Rightarrow> mock_state \<Rightarrow> mock_state" where
  [code_defs]: "mock_enqueue_error e s = s\<lparr>mk_queue := mk_queue s @ [MockError e]\<rparr>"

definition mock_enqueue_json :: "('a \<Rightarrow> string + string) \<Rightarrow> 'a \<Rightarrow> mock_state \<Rightarrow> mock_state option" where
  [code_defs]: "mock_enqueue_json to_str value s = (case to_str value of Inr body \<Rightarrow> Some (mock_enqueue body s) | Inl _ \<Rightarrow> None)"

definition mock_complete :: "prompt \<Rightarrow> mock_state \<Rightarrow> (backend_error + string) \<times> mock_state" where
  [code_defs]: "mock_complete p s =
     (let s = s\<lparr>mk_captured := mk_captured s @ [p]\<rparr>
      in case mk_queue s of
           MockText t # q \<Rightarrow> (Inr t, s\<lparr>mk_queue := q\<rparr>)
         | MockError e # q \<Rightarrow> (Inl e, s\<lparr>mk_queue := q\<rparr>)
         | [] \<Rightarrow> (Inl (BeOther ''mock backend queue is empty''), s))"

definition mock_backend :: "string \<Rightarrow> mock_state backend" where
  [code_defs]: "mock_backend label = \<lparr>be_complete = mock_complete, be_label = label\<rparr>"

section \<open>Fixtures\<close>

definition toy_corpus :: "string list" where
  [code_defs]: "toy_corpus =
     [''Acme Inc. is a corporation founded in 1995. Globex is its subsidiary.'',
      ''Bob Smith works at Acme Inc.; he is a member of the Engineering department.'',
      ''Globex Inc. employs Carol Davis as Chief Technology Officer.'']"

definition toy_acme :: iri where [code_defs]: "toy_acme = Iri ''https://example.org/Acme''"
definition toy_globex :: iri where [code_defs]: "toy_globex = Iri ''https://example.org/Globex''"
definition toy_bob :: iri where [code_defs]: "toy_bob = Iri ''https://example.org/Bob''"

definition toy_name_prop :: property_type where
  [code_defs]: "toy_name_prop =
     \<lparr>pt_name = ''name'', pt_datatype = DString, pt_card = CARD_ONE,
      pt_iri = Some (Iri ''http://www.w3.org/2000/01/rdf-schema#label''), pt_desc = Some ''Display name''\<rparr>"

definition toy_schema :: "schema \<Rightarrow> schema" where
  [code_defs]: "toy_schema s =
     (let org_class = nt_with_description ''A collection of people organized for some purpose (W3C Org).''
            (nt_with_iri (Iri ''http://www.w3.org/ns/org#Organization'') (nt_new ''Organization''));
          formal_class = nt_with_supertype ''Organization''
            (nt_with_iri (Iri ''http://www.w3.org/ns/org#FormalOrganization'') (nt_new ''FormalOrganization''));
          person_class = nt_with_property toy_name_prop
            (nt_with_iri (Iri ''http://xmlns.com/foaf/0.1/Person'') (nt_new ''Person''));
          org_class = nt_with_property toy_name_prop org_class;
          s = declare_node_type org_class s;
          s = declare_node_type formal_class s;
          s = declare_node_type person_class s
      in declare_edge_type
           (et_with_description ''The agent is a member of the organization.''
             (et_with_range ''Organization'' (et_with_domain ''Person''
               (et_with_iri (Iri ''http://www.w3.org/ns/org#memberOf'') (et_new ''memberOf''))))) s)"

definition toy_company :: "hasher \<Rightarrow> iri \<Rightarrow> string \<Rightarrow> node" where
  [code_defs]: "toy_company H i name =
     node_with_property ''name'' (PString name) (node_with_label ''FormalOrganization'' (node_from_iri H i ''Organization''))"

text \<open>The IRIs are constants that are valid; \<open>expect\<close> and \<open>unwrap\<close> do not panic.\<close>

definition toy_org_ontology :: "hasher \<Rightarrow> ontology" where
  [code_defs]: "toy_org_ontology H =
     (let o' = ontology_new\<lparr>o_iri := Some (Iri ''https://example.org/ontology/toy-org/v1''),
            o_vocab := with_standard_bindings, o_schema := toy_schema (o_schema ontology_new)\<rparr>;
          o' = upsert_axiom (axiom_new H (SubClassOf ''FormalOrganization'' ''Organization'')) o';
          acme = toy_company H toy_acme ''Acme Inc.'';
          globex = toy_company H toy_globex ''Globex Inc.'';
          bob = node_with_property ''name'' (PString ''Bob Smith'') (node_from_iri H toy_bob ''Person'');
          o' = upsert_node bob (upsert_node globex (upsert_node acme o'));
          o' = upsert_edge (edge_between H (n_id bob) ''memberOf'' (n_id acme)) o'
      in upsert_edge (edge_between H (n_id globex) ''memberOf'' (n_id acme)) o')"

section \<open>Replay\<close>

lemma mock_complete_text:
  "mk_queue s = MockText t # q \<Longrightarrow> mock_complete p s = (Inr t, \<lparr>mk_queue = q, mk_captured = mk_captured s @ [p]\<rparr>)"
  by (cases s) (simp add: mock_complete_def)

definition mock_calls :: "prompt list \<Rightarrow> mock_state \<Rightarrow> (backend_error + string) list \<times> mock_state" where
  [code_defs]: "mock_calls ps s =
     fold (\<lambda>p (rs, s). case mock_complete p s of (r, s) \<Rightarrow> (rs @ [r], s)) ps ([], s)"

text \<open>The prompts in the order in which they first occur.\<close>

definition first_occurrences :: "'a list \<Rightarrow> 'a list \<Rightarrow> 'a list" where
  [code_defs]: "first_occurrences seen ps = fold (\<lambda>p acc. if p \<in> set acc then acc else acc @ [p]) ps seen"

lemma first_occurrences_set: "set (first_occurrences seen ps) = set seen \<union> set ps"
  by (induction ps arbitrary: seen) (auto simp: first_occurrences_def)

lemma first_occurrences_length: "length (first_occurrences seen ps) \<le> length seen + length ps"
proof (induction ps arbitrary: seen)
  case (Cons p ps)
  from Cons [of seen] Cons [of "seen @ [p]"] show ?case by (auto simp: first_occurrences_def)
qed (simp add: first_occurrences_def)

section \<open>Properties\<close>

text \<open>A cache over the mock: the state that a run of calls reaches.\<close>

lemma cached_calls_captured:
  assumes "inj_on key (set seen \<union> set ps)" "mk_captured m = seen" "bm_wf (bc_cache s)"
    and "fst ` set (bc_cache s) = key ` set seen" "length ps \<le> length ts" "mk_queue m = map MockText ts"
  shows "mk_captured (snd (cached_calls ContentAddressed key (mock_backend label) ps (s, m))) = first_occurrences seen ps"
  using assms
proof (induction ps arbitrary: seen s m ts)
  case Nil
  then show ?case by (simp add: cached_calls_def first_occurrences_def)
next
  case (Cons p ps)
  have step: "cached_calls ContentAddressed key (mock_backend label) (p # ps) (s, m) =
      cached_calls ContentAddressed key (mock_backend label) ps (snd (cached_complete ContentAddressed key (mock_backend label) p (s, m)))"
    by (simp add: cached_calls_def)
  show ?case
  proof (cases "p \<in> set seen")
    case True
    then obtain r where "cache_lookup key p s = Some r"
      using Cons.prems(4) by (metis cache_lookup_def image_eqI map_of_eq_None_iff not_None_eq)
    then have "snd (cached_complete ContentAddressed key (mock_backend label) p (s, m)) = (s, m)"
      by (simp add: cached_complete_def)
    then show ?thesis using Cons.IH [of seen m s ts] Cons.prems True
      unfolding step by (simp add: insert_absorb first_occurrences_def)
  next
    case False
    obtain t ts' where ts: "ts = t # ts'" using Cons.prems(5) by (cases ts) auto
    have "key p \<notin> key ` set seen" using False Cons.prems(1) by (auto simp: inj_on_def)
    then have "cache_lookup key p s = None" using Cons.prems(4) by (simp add: cache_lookup_def map_of_eq_None_iff)
    then have c: "snd (cached_complete ContentAddressed key (mock_backend label) p (s, m)) =
        (cache_store ContentAddressed (key p) t s, \<lparr>mk_queue = map MockText ts', mk_captured = seen @ [p]\<rparr>)"
      using Cons.prems(2,6) ts by (simp add: cached_complete_def mock_backend_def mock_complete_text)
    have "mk_captured (snd (cached_calls ContentAddressed key (mock_backend label) ps
        (cache_store ContentAddressed (key p) t s, \<lparr>mk_queue = map MockText ts', mk_captured = seen @ [p]\<rparr>))) =
        first_occurrences (seen @ [p]) ps"
      by (rule Cons.IH [of _ _ _ ts']) (use Cons.prems ts in \<open>auto simp: cache_store_fields inj_on_def\<close>)
    then show ?thesis unfolding step c using False by (simp add: first_occurrences_def)
  qed
qed

text \<open>A content-addressed cache asks the backend behind it exactly once for each distinct prompt of a run
  of calls, in the order of first occurrence, as long as the keys of the prompts differ and the backend
  answers.\<close>

theorem cache_asks_once:
  assumes "inj_on key (set ps)" "length ps \<le> length ts"
  shows "mk_captured (snd (cached_calls ContentAddressed key (mock_backend label) ps
      (cache_new, \<lparr>mk_queue = map MockText ts, mk_captured = []\<rparr>))) = first_occurrences [] ps"
  by (rule cached_calls_captured) (use assms in \<open>simp_all add: cache_new_def\<close>)

lemma cache_asks_once_witness:
  "mk_captured (snd (cached_calls ContentAddressed sample_key (mock_backend ''m'') [prompt_user ''a'', prompt_user ''b'', prompt_user ''a'']
      (cache_new, \<lparr>mk_queue = map MockText [''x'', ''y'', ''z''], mk_captured = []\<rparr>))) = [prompt_user ''a'', prompt_user ''b'']"
proof -
  have "inj_on sample_key (set [prompt_user ''a'', prompt_user ''b'', prompt_user ''a''])"
    by (auto simp: inj_on_def sample_key_def prompt_user_def)
  moreover have "first_occurrences [] [prompt_user ''a'', prompt_user ''b'', prompt_user ''a''] = [prompt_user ''a'', prompt_user ''b'']"
    by (simp add: first_occurrences_def prompt_user_def)
  ultimately show ?thesis
    using cache_asks_once [of sample_key "[prompt_user ''a'', prompt_user ''b'', prompt_user ''a'']" "[''x'', ''y'', ''z'']" "''m''"] by simp
qed

text \<open>
  The fixture that the tests use as a baseline breaks the schema it declares: Globex, an organisation, is
  made a member of Acme by an edge type whose domain is \<open>Person\<close>.
\<close>

theorem toy_org_violates_schema:
  assumes "node_id_content_address H (str_bytes (as_str toy_globex)) \<noteq> node_id_content_address H (str_bytes (as_str toy_bob))"
  shows "\<not> vr_is_clean (check_shapes hexe (toy_org_ontology H))"
proof -
  let ?o = "toy_org_ontology H"
  let ?g = "toy_company H toy_globex ''Globex Inc.''"
  let ?e = "edge_between H (n_id ?g) ''memberOf'' (n_id (toy_company H toy_acme ''Acme Inc.''))"
  have schema: "o_schema ?o = toy_schema schema_new"
    by (simp add: toy_org_ontology_def Let_def ontology_new_def upsert_node_def upsert_edge_def upsert_axiom_def)
  have "map_option et_domain (edge_type (toy_schema schema_new) ''memberOf'') = Some [''Person'']" by code_simp
  then obtain et where et: "edge_type (toy_schema schema_new) ''memberOf'' = Some et" "et_domain et = [''Person'']" by auto
  have chain: "supertypes_of (toy_schema schema_new) ''Organization'' = [''Organization'']"
    "supertypes_of (toy_schema schema_new) ''FormalOrganization'' = [''FormalOrganization'', ''Organization'']" by code_simp+
  have types: "n_types ?g = [''Organization'', ''FormalOrganization'']"
    by (simp add: toy_company_def node_with_property_def node_with_label_def node_from_iri_def)
  have node: "ont_node ?o (n_id ?g) = Some ?g"
    using assms by (simp add: toy_org_ontology_def Let_def toy_company_def node_with_property_def node_with_label_def node_from_iri_def)
  have "\<not> type_in_chain ?o ?g (et_domain et)" using types et(2) by (simp add: type_in_chain_def schema chain)
  then have bad: "\<not> end_ok ?o (n_id ?g) (et_domain et)" using node et(2) by (simp add: end_ok_def type_in_chain_iff)
  have "ont_edge ?o (e_id ?e) = Some ?e" by (simp add: toy_org_ontology_def Let_def)
  then have "?e \<in> set (bm_values (o_edges ?o))" by (force simp: ont_edge_def bm_values_def dest: map_of_SomeD)
  moreover have "e_source ?e = n_id ?g" "e_label ?e = ''memberOf''" by (simp_all add: edge_between_def)
  ultimately show ?thesis
    unfolding check_shapes_def clean_fold [OF check_edge_clean] using bad et(1) schema by metis
qed

section \<open>Assertions\<close>

definition assert_axiom_present :: "(axiom_kind \<Rightarrow> bool) \<Rightarrow> ontology \<Rightarrow> bool" where
  [code_defs]: "assert_axiom_present P o' \<longleftrightarrow> list_ex (\<lambda>a. P (ax_kind a)) (bm_values (o_axioms o'))"

definition edges_from :: "(string \<times> string) list \<Rightarrow> string \<Rightarrow> string list" where
  [code_defs]: "edges_from edges n = map snd (filter (\<lambda>e. fst e = n) edges)"

text \<open>The head of the list is the top of the stack; meeting the target returns before any further step.\<close>

function reach_loop :: "string \<Rightarrow> (string \<times> string) list \<Rightarrow> string list \<Rightarrow> string set \<Rightarrow> bool" where
  "reach_loop target edges [] seen = False"
| "reach_loop target edges (n # stack) seen =
     (if n \<in> seen then reach_loop target edges stack seen
      else if target \<in> set (edges_from edges n) then True
      else reach_loop target edges (rev (edges_from edges n) @ stack) (insert n seen))"
  by pat_completeness auto
termination
proof (relation "measures
    [\<lambda>(target, edges, stack, seen). card (fst ` set edges - seen), \<lambda>(target, edges, stack, seen). length stack]")
  fix target :: string and edges :: "(string \<times> string) list" and n :: string and stack seen
  assume new: "n \<notin> seen"
  show "((target, edges, rev (edges_from edges n) @ stack, insert n seen), target, edges, n # stack, seen) \<in> measures
    [\<lambda>(target, edges, stack, seen). card (fst ` set edges - seen), \<lambda>(target, edges, stack, seen). length stack]"
  proof (cases "n \<in> fst ` set edges")
    case True
    with new have "fst ` set edges - insert n seen \<subset> fst ` set edges - seen" by auto
    then show ?thesis by (simp add: psubset_card_mono)
  next
    case False
    then have "edges_from edges n = []" by (auto simp: edges_from_def filter_empty_conv)
    moreover from False have "fst ` set edges - insert n seen = fst ` set edges - seen" by auto
    ultimately show ?thesis by simp
  qed
qed auto

definition reachable :: "string \<Rightarrow> string \<Rightarrow> (string \<times> string) list \<Rightarrow> bool" where
  [code_defs]: "reachable start target edges = reach_loop target edges [start] {}"

definition axiom_chain :: "ontology \<Rightarrow> (string \<times> string) list" where
  [code_defs]: "axiom_chain o' =
     List.map_filter (\<lambda>a. case ax_kind a of SubClassOf sub super \<Rightarrow> Some (sub, super) | _ \<Rightarrow> None) (bm_values (o_axioms o'))"

definition assert_subclass_of :: "string \<Rightarrow> string \<Rightarrow> ontology \<Rightarrow> bool" where
  [code_defs]: "assert_subclass_of sub super o' \<longleftrightarrow>
     super \<in> set (supertypes_of (o_schema o') sub) \<or> reachable sub super (axiom_chain o')"

lemma edges_from_iff [simp]: "u \<in> set (edges_from edges n) \<longleftrightarrow> (n, u) \<in> set edges"
  by (force simp: edges_from_def)

text \<open>A walk out of the visited nodes passes the stack.\<close>

lemma walk_passes_stack:
  assumes "(m, t) \<in> E\<^sup>+" "m \<in> S" "\<forall>n \<in> S. \<forall>u. (n, u) \<in> E \<longrightarrow> u \<noteq> t \<and> (u \<in> S \<or> u \<in> T)"
  shows "\<exists>k \<in> T. (k, t) \<in> E\<^sup>+"
  using assms by (induction rule: converse_trancl_induct) blast+

lemma reach_loop_iff:
  "\<forall>n \<in> seen. \<forall>u. (n, u) \<in> set edges \<longrightarrow> u \<noteq> target \<and> (u \<in> seen \<or> u \<in> set stack) \<Longrightarrow>
     reach_loop target edges stack seen \<longleftrightarrow> (\<exists>n \<in> set stack. (n, target) \<in> (set edges)\<^sup>+)"
proof (induction target edges stack seen rule: reach_loop.induct)
  case (2 target edges n stack seen)
  show ?case
  proof (cases "n \<in> seen")
    case True
    with "2.prems" have inv: "\<forall>m \<in> seen. \<forall>u. (m, u) \<in> set edges \<longrightarrow> u \<noteq> target \<and> (u \<in> seen \<or> u \<in> set stack)" by auto
    with "2.IH"(1) [OF True this] True walk_passes_stack [OF _ True inv] show ?thesis by auto
  next
    case False
    show ?thesis
    proof (cases "(n, target) \<in> set edges")
      case True
      with False show ?thesis by auto
    next
      case no: False
      then have "target \<notin> set (edges_from edges n)" by simp
      note ih = "2.IH"(2) [OF False this]
      have "reach_loop target edges (n # stack) seen \<longleftrightarrow>
          (\<exists>m \<in> set (rev (edges_from edges n) @ stack). (m, target) \<in> (set edges)\<^sup>+)"
        using ih "2.prems" False no by auto
      also have "\<dots> \<longleftrightarrow> (\<exists>m. (n, m) \<in> set edges \<and> (m, target) \<in> (set edges)\<^sup>+) \<or> (\<exists>m \<in> set stack. (m, target) \<in> (set edges)\<^sup>+)"
        by auto
      also have "(\<exists>m. (n, m) \<in> set edges \<and> (m, target) \<in> (set edges)\<^sup>+) \<longleftrightarrow> (n, target) \<in> (set edges)\<^sup>+"
        using no by (meson converse_tranclE trancl_into_trancl2)
      finally show ?thesis by auto
    qed
  qed
qed simp

text \<open>
  C33: the subclass assertion ends on every ontology, cyclic or not, and passes exactly when the superclass is reached in
  the schema, in any number of steps, or in the subclass axioms, in at least one.
\<close>

theorem subclass_assertion_exact:
  "assert_subclass_of sub super o' \<longleftrightarrow>
     (sub, super) \<in> (supertype_rel (o_schema o'))\<^sup>* \<or>
     (sub, super) \<in> {(a, b). \<exists>x \<in> set (bm_values (o_axioms o')). ax_kind x = SubClassOf a b}\<^sup>+"
proof -
  have "set (axiom_chain o') = {(a, b). \<exists>x \<in> set (bm_values (o_axioms o')). ax_kind x = SubClassOf a b}"
    by (auto simp: axiom_chain_def map_filter_def image_iff split: axiom_kind.splits) force
  then show ?thesis
    by (simp add: assert_subclass_of_def supertypes_of_set reachable_def reach_loop_iff del: reach_loop.simps)
qed

text \<open>Steps of both kinds do not add up: a class under a class that an axiom puts under another fails.\<close>

theorem mixed_chain_fails:
  "\<not> assert_subclass_of ''A'' ''C'' (upsert_axiom (axiom_new H (SubClassOf ''B'' ''C''))
     (ontology_new\<lparr>o_schema := declare_node_type (nt_with_supertype ''B'' (nt_new ''A'')) schema_new\<rparr>))"
  (is "\<not> assert_subclass_of _ _ ?o")
proof -
  have "o_schema ?o = declare_node_type (nt_with_supertype ''B'' (nt_new ''A'')) schema_new"
    by (simp add: ontology_new_def upsert_axiom_def)
  moreover have "supertypes_of (declare_node_type (nt_with_supertype ''B'' (nt_new ''A'')) schema_new) ''A'' = [''A'', ''B'']" by code_simp
  moreover have "axiom_chain ?o = [(''B'', ''C'')]"
    by (simp add: axiom_chain_def upsert_axiom_def ontology_new_def axiom_new_def bm_values_def map_filter_def)
  moreover have "\<not> reachable ''A'' ''C'' [(''B'', ''C'')]" by code_simp
  ultimately show ?thesis by (simp add: assert_subclass_of_def)
qed

end
