(* ===== verification/Facade.thy ===== *)
theory Facade
  imports Extract_Backend
begin

text \<open>
  \<open>crates/atomr-ontology/src\<close>: the backends of the umbrella crate. \<open>http_driver.rs\<close> speaks the chat APIs of
  the model providers; \<open>agents_integration.rs\<close> and \<open>infer_integration.rs\<close> wrap a driver. The HTTP client is
  the parameter \<open>post\<close>: a request to a reply in a world \<open>'w\<close>. \<open>env\<close> reads the environment, \<open>client\<close> is the
  outcome of building the client, \<open>debug\<close> the \<open>Debug\<close> form of a string, \<open>shape_error\<close> the text of
  \<open>serde_json\<close> for a body of the wrong shape. A body is the JSON tree with the members in the order in which
  serde writes them.
\<close>

section \<open>Building a driver\<close>

datatype flavor = OpenAi | Anthropic | Compatible

record http_driver =
  hd_flavor :: flavor
  hd_base_url :: string
  hd_api_key :: string
  hd_model :: string
  hd_label :: string

definition or_env :: "(string \<Rightarrow> string option) \<Rightarrow> string \<Rightarrow> string option \<Rightarrow> string option" where
  [code_defs]: "or_env env name x = (case x of Some v \<Rightarrow> Some v | None \<Rightarrow> env name)"

definition or_text :: "string \<Rightarrow> string option \<Rightarrow> string" where
  [code_defs]: "or_text d x = (case x of Some v \<Rightarrow> v | None \<Rightarrow> d)"

definition provider_flavor :: "(string \<Rightarrow> string) \<Rightarrow> string \<Rightarrow> backend_error + flavor" where
  [code_defs]: "provider_flavor debug provider =
     (if provider = ''openai'' then Inr OpenAi
      else if provider = ''anthropic'' then Inr Anthropic
      else if provider = ''litellm'' \<or> provider = ''openai-compatible'' then Inr Compatible
      else Inl (BeOther (''http-driver: unknown provider '' @ debug provider @ '' (try openai/anthropic/litellm)'')))"

definition flavor_endpoint :: "(string \<Rightarrow> string option) \<Rightarrow> flavor \<Rightarrow> string \<times> string" where
  [code_defs]: "flavor_endpoint env f =
     (case f of
        OpenAi \<Rightarrow> (or_text ''https://api.openai.com/v1'' (env ''OPENAI_BASE_URL''), or_text [] (env ''OPENAI_API_KEY''))
      | Anthropic \<Rightarrow> (or_text ''https://api.anthropic.com/v1'' (env ''ANTHROPIC_BASE_URL''), or_text [] (env ''ANTHROPIC_API_KEY''))
      | Compatible \<Rightarrow>
          (or_text ''http://localhost:4000'' (or_env env ''OPENAI_BASE_URL'' (env ''LITELLM_BASE_URL'')),
           or_text [] (or_env env ''OPENAI_API_KEY'' (env ''LITELLM_API_KEY''))))"

definition from_provider ::
    "(string \<Rightarrow> string) \<Rightarrow> (string \<Rightarrow> string option) \<Rightarrow> string option \<Rightarrow> string \<Rightarrow> string \<Rightarrow> backend_error + http_driver" where
  [code_defs]: "from_provider debug env client provider model =
     (case provider_flavor debug provider of
        Inl e \<Rightarrow> Inl e
      | Inr f \<Rightarrow>
          (case flavor_endpoint env f of (base_url, api_key) \<Rightarrow>
             (case client of
                Some e \<Rightarrow> Inl (BeTransport (''build reqwest client: '' @ e))
              | None \<Rightarrow> Inr \<lparr>hd_flavor = f, hd_base_url = base_url, hd_api_key = api_key, hd_model = model,
                             hd_label = ''http:'' @ provider\<rparr>)))"

section \<open>Calls\<close>

record http_post =
  hp_url :: string
  hp_headers :: "(string \<times> string) list"
  hp_body :: json

datatype http_reply = HttpFailed string | HttpStatus string | HttpBody "string + json"

text \<open>\<open>send\<close>, \<open>error_for_status\<close> and \<open>json\<close> with their error mappings.\<close>

definition reply_json :: "http_reply \<Rightarrow> backend_error + json" where
  [code_defs]: "reply_json r =
     (case r of
        HttpFailed e \<Rightarrow> Inl (BeTransport e)
      | HttpStatus e \<Rightarrow> Inl (BeTransport e)
      | HttpBody (Inl e) \<Rightarrow> Inl (BeParse e)
      | HttpBody (Inr j) \<Rightarrow> Inr j)"

definition trim_slashes :: "string \<Rightarrow> string" where
  [code_defs]: "trim_slashes s = rev (dropWhile (\<lambda>c. c = CHR ''/'') (rev s))"

text \<open>A struct of one field is read from an object, or from an array of one element.\<close>

definition json_member :: "json \<Rightarrow> string \<Rightarrow> json option" where
  [code_defs]: "json_member j k = (case j of JObject m \<Rightarrow> map_of m k | JArray [x] \<Rightarrow> Some x | _ \<Rightarrow> None)"

definition chat_message :: "string \<Rightarrow> string \<Rightarrow> json" where
  [code_defs]: "chat_message role content = JObject [(''role'', JString role), (''content'', JString content)]"

definition chat_request :: "http_driver \<Rightarrow> prompt \<Rightarrow> http_post" where
  [code_defs]: "chat_request d p =
     (let messages = (case pr_system p of Some sys \<Rightarrow> [chat_message ''system'' sys] | None \<Rightarrow> []) @ [chat_message ''user'' (pr_user p)]
      in \<lparr>hp_url = trim_slashes (hd_base_url d) @ ''/chat/completions'',
          hp_headers = [(''authorization'', ''Bearer '' @ hd_api_key d)],
          hp_body = JObject
            ([(''model'', JString (hd_model d)), (''messages'', JArray messages)] @
             (case pr_max_tokens p of Some n \<Rightarrow> [(''max_tokens'', JInt (uint n))] | None \<Rightarrow> []) @
             [(''temperature'', JFloat 0)])\<rparr>)"

definition chat_choice :: "json \<Rightarrow> string option" where
  [code_defs]: "chat_choice j =
     (case json_member j ''message'' of
        Some m \<Rightarrow> (case json_member m ''content'' of Some (JString s) \<Rightarrow> Some s | _ \<Rightarrow> None)
      | None \<Rightarrow> None)"

fun all_of :: "('a \<Rightarrow> 'b option) \<Rightarrow> 'a list \<Rightarrow> 'b list option" where
  "all_of f [] = Some []"
| "all_of f (x # xs) = (case f x of None \<Rightarrow> None | Some y \<Rightarrow> (case all_of f xs of None \<Rightarrow> None | Some ys \<Rightarrow> Some (y # ys)))"

definition chat_response :: "json \<Rightarrow> string list option" where
  [code_defs]: "chat_response j = (case json_member j ''choices'' of Some (JArray cs) \<Rightarrow> all_of chat_choice cs | _ \<Rightarrow> None)"

definition call_openai_chat ::
    "(http_post \<Rightarrow> 'w \<Rightarrow> http_reply \<times> 'w) \<Rightarrow> (json \<Rightarrow> string) \<Rightarrow> http_driver \<Rightarrow> prompt \<Rightarrow> 'w \<Rightarrow> (backend_error + string) \<times> 'w" where
  [code_defs]: "call_openai_chat post shape_error d p w =
     (case post (chat_request d p) w of (reply, w) \<Rightarrow>
        (case reply_json reply of
           Inl e \<Rightarrow> (Inl e, w)
         | Inr j \<Rightarrow>
             (case chat_response j of
                None \<Rightarrow> (Inl (BeParse (shape_error j)), w)
              | Some [] \<Rightarrow> (Inr [], w)
              | Some (c # _) \<Rightarrow> (Inr c, w))))"

definition anthropic_request :: "http_driver \<Rightarrow> prompt \<Rightarrow> http_post" where
  [code_defs]: "anthropic_request d p =
     \<lparr>hp_url = trim_slashes (hd_base_url d) @ ''/messages'',
      hp_headers = [(''x-api-key'', hd_api_key d), (''anthropic-version'', ''2023-06-01'')],
      hp_body = JObject
        ([(''model'', JString (hd_model d)),
          (''max_tokens'', JInt (case pr_max_tokens p of Some n \<Rightarrow> uint n | None \<Rightarrow> 4096))] @
         (case pr_system p of Some sys \<Rightarrow> [(''system'', JString sys)] | None \<Rightarrow> []) @
         [(''messages'', JArray [chat_message ''user'' (pr_user p)])])\<rparr>"

text \<open>A content block: its \<open>text\<close> may be absent or null.\<close>

definition content_block :: "json \<Rightarrow> string option option" where
  [code_defs]: "content_block j =
     (case j of
        JObject m \<Rightarrow> (case map_of m ''text'' of None \<Rightarrow> Some None | Some JNull \<Rightarrow> Some None | Some (JString s) \<Rightarrow> Some (Some s) | _ \<Rightarrow> None)
      | JArray [] \<Rightarrow> Some None
      | JArray [JNull] \<Rightarrow> Some None
      | JArray [JString s] \<Rightarrow> Some (Some s)
      | _ \<Rightarrow> None)"

definition anthropic_response :: "json \<Rightarrow> string option list option" where
  [code_defs]: "anthropic_response j = (case json_member j ''content'' of Some (JArray cs) \<Rightarrow> all_of content_block cs | _ \<Rightarrow> None)"

definition call_anthropic_messages ::
    "(http_post \<Rightarrow> 'w \<Rightarrow> http_reply \<times> 'w) \<Rightarrow> (json \<Rightarrow> string) \<Rightarrow> http_driver \<Rightarrow> prompt \<Rightarrow> 'w \<Rightarrow> (backend_error + string) \<times> 'w" where
  [code_defs]: "call_anthropic_messages post shape_error d p w =
     (case post (anthropic_request d p) w of (reply, w) \<Rightarrow>
        (case reply_json reply of
           Inl e \<Rightarrow> (Inl e, w)
         | Inr j \<Rightarrow>
             (case anthropic_response j of
                None \<Rightarrow> (Inl (BeParse (shape_error j)), w)
              | Some blocks \<Rightarrow> (Inr (concat (List.map_filter id blocks)), w))))"

definition http_backend :: "(http_post \<Rightarrow> 'w \<Rightarrow> http_reply \<times> 'w) \<Rightarrow> (json \<Rightarrow> string) \<Rightarrow> http_driver \<Rightarrow> 'w backend" where
  [code_defs]: "http_backend post shape_error d =
     \<lparr>be_complete = (case hd_flavor d of
          OpenAi \<Rightarrow> call_openai_chat post shape_error d
        | Compatible \<Rightarrow> call_openai_chat post shape_error d
        | Anthropic \<Rightarrow> call_anthropic_messages post shape_error d),
      be_label = hd_label d\<rparr>"

section \<open>Wrapped drivers\<close>

record 'w agent_driver =
  ad_run :: "prompt \<Rightarrow> 'w \<Rightarrow> (backend_error + string) \<times> 'w"

definition agent_driver_backend :: "string \<Rightarrow> 'w agent_driver \<Rightarrow> 'w backend" where
  [code_defs]: "agent_driver_backend label inner = \<lparr>be_complete = ad_run inner, be_label = label\<rparr>"

record 'w infer_driver =
  id_complete :: "prompt \<Rightarrow> 'w \<Rightarrow> (backend_error + string) \<times> 'w"
  id_label :: string

definition INFER_LABEL :: string where [code_defs]: "INFER_LABEL = ''atomr-infer''"

definition infer_backend :: "'w infer_driver \<Rightarrow> 'w backend" where
  [code_defs]: "infer_backend inner = \<lparr>be_complete = id_complete inner, be_label = id_label inner\<rparr>"

section \<open>Properties\<close>

text \<open>What a server of either API reads in a request body: the system text, the user text and the bound.\<close>

definition read_message :: "json \<Rightarrow> (string \<times> string) option" where
  [code_defs]: "read_message j =
     (case (json_member j ''role'', json_member j ''content'') of (Some (JString r), Some (JString c)) \<Rightarrow> Some (r, c) | _ \<Rightarrow> None)"

definition read_messages :: "json \<Rightarrow> (string \<times> string) list option" where
  [code_defs]: "read_messages j = (case json_member j ''messages'' of Some (JArray ms) \<Rightarrow> all_of read_message ms | _ \<Rightarrow> None)"

definition read_bound :: "json \<Rightarrow> 32 word option" where
  [code_defs]: "read_bound j = (case json_member j ''max_tokens'' of Some (JInt n) \<Rightarrow> Some (word_of_int n) | _ \<Rightarrow> None)"

definition read_chat :: "json \<Rightarrow> prompt option" where
  [code_defs]: "read_chat j =
     (case read_messages j of
        Some [(_, u)] \<Rightarrow> Some \<lparr>pr_system = None, pr_user = u, pr_max_tokens = read_bound j\<rparr>
      | Some [(_, s), (_, u)] \<Rightarrow> Some \<lparr>pr_system = Some s, pr_user = u, pr_max_tokens = read_bound j\<rparr>
      | _ \<Rightarrow> None)"

definition read_anthropic :: "json \<Rightarrow> prompt option" where
  [code_defs]: "read_anthropic j =
     (case read_messages j of
        Some [(_, u)] \<Rightarrow>
          Some \<lparr>pr_system = (case json_member j ''system'' of Some (JString s) \<Rightarrow> Some s | _ \<Rightarrow> None), pr_user = u, pr_max_tokens = read_bound j\<rparr>
      | _ \<Rightarrow> None)"

text \<open>Nothing of a prompt is lost or mixed up on the wire: reading the body of a chat request, and of an
  Anthropic request, gives the prompt back, the latter with the bound that the driver fills in.\<close>

theorem http_prompt_round_trip:
  "read_chat (hp_body (chat_request d p)) = Some p \<and>
   read_anthropic (hp_body (anthropic_request d p)) = Some (prompt_with_max_tokens (case pr_max_tokens p of Some n \<Rightarrow> n | None \<Rightarrow> 4096) p)"
  by (cases p; cases "pr_system p"; cases "pr_max_tokens p")
    (simp_all add: read_chat_def read_anthropic_def chat_request_def anthropic_request_def read_messages_def read_message_def
      read_bound_def json_member_def chat_message_def prompt_with_max_tokens_def Let_def)

text \<open>The documentation reads \<open>OPENAI_BASE_URL\<close> and \<open>OPENAI_API_KEY\<close> for \<open>openai-compatible\<close>; the key sent to a proxy
  set up for LiteLLM is the LiteLLM one.\<close>

theorem compatible_prefers_litellm:
  assumes "env ''LITELLM_API_KEY'' = Some k" "env ''LITELLM_BASE_URL'' = Some u"
  shows "\<exists>d. from_provider debug env None ''openai-compatible'' m = Inr d \<and> hd_api_key d = k \<and> hd_base_url d = u"
  using assms by (simp add: from_provider_def provider_flavor_def flavor_endpoint_def or_env_def or_text_def)

end
