(* ===== verification/Viz.thy ===== *)
theory Viz
  imports Core_Ontology Provenance Std_Text
begin

text \<open>
  \<open>crates/atomr-ontology-viz/src\<close>: the GraphViz (\<open>dot.rs\<close>) and Mermaid (\<open>mermaid.rs\<close>) renderers. The \<open>hex\<close>
  crate is \<open>hexe\<close>; what it writes is ASCII, so that a character of an identifier is a byte. \<open>debug\<close> is the
  \<open>Debug\<close> form of a property value, which involves the date and JSON crates.
\<close>

section \<open>Text\<close>

definition replace_char :: "char \<Rightarrow> string \<Rightarrow> string \<Rightarrow> string" where
  [code_defs]: "replace_char c r s = concat (map (\<lambda>x. if x = c then r else [x]) s)"

definition ascii_alnum :: "char \<Rightarrow> bool" where
  [code_defs]: "ascii_alnum c \<longleftrightarrow>
     (let n = of_char c :: nat in (48 \<le> n \<and> n \<le> 57) \<or> (65 \<le> n \<and> n \<le> 90) \<or> (97 \<le> n \<and> n \<le> 122))"

definition id_char :: "char \<Rightarrow> char" where
  [code_defs]: "id_char c = (if ascii_alnum c then c else CHR ''_'')"

fun join_comma :: "string list \<Rightarrow> string" where
  "join_comma [] = []"
| "join_comma [x] = x"
| "join_comma (x # xs) = x @ '','' @ join_comma xs"

definition newline :: string where
  [code_defs]: "newline = [CHR 0x0A]"

section \<open>GraphViz\<close>

definition node_dot_id :: "string \<Rightarrow> string" where
  [code_defs]: "node_dot_id raw = take 60 (''n_'' @ map id_char raw)"

definition dot_escape :: "string \<Rightarrow> string" where
  [code_defs]: "dot_escape s =
     replace_char (CHR 0x0A) '' '' (replace_char (CHR 0x22) [CHR 0x5C, CHR 0x22] (replace_char (CHR 0x5C) [CHR 0x5C, CHR 0x5C] s))"

definition dot_quoted :: "string \<Rightarrow> string" where
  [code_defs]: "dot_quoted label = '' [label='' @ [CHR 0x22] @ label @ [CHR 0x22] @ ''];''"

definition dot_node_label :: "(property_value \<Rightarrow> string) \<Rightarrow> node \<Rightarrow> string" where
  [code_defs]: "dot_node_label debug n =
     (let types = join_comma (n_types n);
          name = (case map_of (n_props n) ''name'' of Some v \<Rightarrow> debug v | None \<Rightarrow> [])
      in if name = [] then dot_escape types else dot_escape name @ '' | '' @ dot_escape types)"

definition dot_node :: "(property_value \<Rightarrow> string) \<Rightarrow> (bytes \<Rightarrow> string) \<Rightarrow> node \<Rightarrow> string" where
  [code_defs]: "dot_node debug hexe n =
     ''  '' @ node_dot_id (hexe (node_id_bytes (n_id n))) @ dot_quoted (dot_node_label debug n) @ newline"

definition dot_edge :: "(bytes \<Rightarrow> string) \<Rightarrow> edge \<Rightarrow> string" where
  [code_defs]: "dot_edge hexe e =
     ''  '' @ node_dot_id (hexe (node_id_bytes (e_source e))) @ '' -> '' @ node_dot_id (hexe (node_id_bytes (e_target e))) @
       dot_quoted (dot_escape (e_label e)) @ newline"

definition render_ontology_dot :: "(property_value \<Rightarrow> string) \<Rightarrow> (bytes \<Rightarrow> string) \<Rightarrow> ontology \<Rightarrow> string" where
  [code_defs]: "render_ontology_dot debug hexe o' =
     ''digraph ontology {'' @ newline @ ''  rankdir=LR;'' @ newline @ ''  node [shape=box, style=rounded];'' @ newline @
     concat (map (dot_node debug hexe) (bm_values (o_nodes o'))) @
     concat (map (dot_edge hexe) (bm_values (o_edges o'))) @ ''}'' @ newline"

definition dot_activity :: "(bytes \<Rightarrow> string) \<Rightarrow> prov_id \<times> activity \<Rightarrow> string" where
  [code_defs]: "dot_activity hexe e =
     ''  '' @ node_dot_id (hexe (prov_id_bytes (fst e))) @ dot_quoted (dot_escape (act_label (snd e))) @ newline"

definition dot_derivation :: "(bytes \<Rightarrow> string) \<Rightarrow> was_derived_from \<Rightarrow> string" where
  [code_defs]: "dot_derivation hexe d =
     ''  '' @ node_dot_id (hexe (prov_id_bytes (der_derived d))) @ '' -> '' @ node_dot_id (hexe (prov_id_bytes (der_source d))) @
       dot_quoted ''wasDerivedFrom'' @ newline"

definition render_provenance_dot :: "(bytes \<Rightarrow> string) \<Rightarrow> prov_log \<Rightarrow> string" where
  [code_defs]: "render_provenance_dot hexe log =
     ''digraph provenance {'' @ newline @ ''  rankdir=TB;'' @ newline @
     ''  node [shape=ellipse, style=filled, fillcolor=lightgray];'' @ newline @
     concat (map (dot_activity hexe) (pl_activities log)) @
     concat (map (dot_derivation hexe) (pl_derivations log)) @ ''}'' @ newline"

section \<open>Mermaid\<close>

definition mermaid_id :: "string \<Rightarrow> string" where
  [code_defs]: "mermaid_id raw = CHR ''n'' # map id_char (take 20 raw)"

definition mermaid_escape :: "string \<Rightarrow> string" where
  [code_defs]: "mermaid_escape s = replace_char (CHR 0x22) ''&quot;'' s"

definition mermaid_node :: "(property_value \<Rightarrow> string) \<Rightarrow> (bytes \<Rightarrow> string) \<Rightarrow> node \<Rightarrow> string" where
  [code_defs]: "mermaid_node debug hexe n =
     (let name = (case map_of (n_props n) ''name'' of
                    Some v \<Rightarrow> debug v
                  | None \<Rightarrow> (case n_types n of t # _ \<Rightarrow> t | [] \<Rightarrow> []))
      in ''  '' @ mermaid_id (hexe (node_id_bytes (n_id n))) @ ''['' @ [CHR 0x22] @ mermaid_escape name @ [CHR 0x22] @ '']'' @ newline)"

definition mermaid_edge :: "(bytes \<Rightarrow> string) \<Rightarrow> edge \<Rightarrow> string" where
  [code_defs]: "mermaid_edge hexe e =
     ''  '' @ mermaid_id (hexe (node_id_bytes (e_source e))) @ '' -- '' @ [CHR 0x22] @ mermaid_escape (e_label e) @ [CHR 0x22] @
       '' --> '' @ mermaid_id (hexe (node_id_bytes (e_target e))) @ newline"

definition render_ontology_mermaid :: "(property_value \<Rightarrow> string) \<Rightarrow> (bytes \<Rightarrow> string) \<Rightarrow> ontology \<Rightarrow> string" where
  [code_defs]: "render_ontology_mermaid debug hexe o' =
     ''graph LR'' @ newline @ concat (map (mermaid_node debug hexe) (bm_values (o_nodes o'))) @
     concat (map (mermaid_edge hexe) (bm_values (o_edges o')))"

definition mermaid_activity :: "(bytes \<Rightarrow> string) \<Rightarrow> prov_id \<times> activity \<Rightarrow> string" where
  [code_defs]: "mermaid_activity hexe e =
     ''  '' @ mermaid_id (hexe (prov_id_bytes (fst e))) @ ''(['' @ [CHR 0x22] @ mermaid_escape (act_label (snd e)) @ [CHR 0x22] @ ''])'' @ newline"

definition mermaid_derivation :: "(bytes \<Rightarrow> string) \<Rightarrow> was_derived_from \<Rightarrow> string" where
  [code_defs]: "mermaid_derivation hexe d =
     ''  '' @ mermaid_id (hexe (prov_id_bytes (der_derived d))) @ '' -- wasDerivedFrom --> '' @
       mermaid_id (hexe (prov_id_bytes (der_source d))) @ newline"

definition render_provenance_mermaid :: "(bytes \<Rightarrow> string) \<Rightarrow> prov_log \<Rightarrow> string" where
  [code_defs]: "render_provenance_mermaid hexe log =
     ''graph TD'' @ newline @ concat (map (mermaid_activity hexe) (pl_activities log)) @
     concat (map (mermaid_derivation hexe) (pl_derivations log))"

section \<open>Reading a document\<close>

text \<open>How GraphViz reads a quoted string after its opening quote, and a document of one statement per line.\<close>

fun read_quoted :: "string \<Rightarrow> (string \<times> string) option" where
  "read_quoted [] = None"
| "read_quoted (c # cs) =
     (if c = CHR 0x22 then Some ([], cs)
      else if c = CHR 0x5C then
        (case cs of [] \<Rightarrow> None | d # ds \<Rightarrow> (case read_quoted ds of None \<Rightarrow> None | Some (s, rest) \<Rightarrow> Some (d # s, rest)))
      else (case read_quoted cs of None \<Rightarrow> None | Some (s, rest) \<Rightarrow> Some (c # s, rest)))"

datatype dot_stmt = DotNode string string | DotEdge string string string

definition read_label :: "string \<Rightarrow> string option" where
  [code_defs]: "read_label s =
     (if take 9 s = '' [label='' @ [CHR 0x22] then
        (case read_quoted (drop 9 s) of Some (l, rest) \<Rightarrow> if rest = ''];'' then Some l else None | None \<Rightarrow> None)
      else None)"

definition read_stmt :: "string \<Rightarrow> dot_stmt option" where
  [code_defs]: "read_stmt s =
     (if take 2 s \<noteq> ''  '' then None
      else (let a = takeWhile (\<lambda>c. c \<noteq> CHR '' '') (drop 2 s); rest = dropWhile (\<lambda>c. c \<noteq> CHR '' '') (drop 2 s)
            in if take 4 rest = '' -> '' then
                 map_option (DotEdge a (takeWhile (\<lambda>c. c \<noteq> CHR '' '') (drop 4 rest))) (read_label (dropWhile (\<lambda>c. c \<noteq> CHR '' '') (drop 4 rest)))
               else map_option (DotNode a) (read_label rest)))"

fun read_stmts :: "string list \<Rightarrow> dot_stmt list option" where
  "read_stmts (l # ls) =
     (if l = ''}'' then (if ls = [[]] then Some [] else None)
      else (case read_stmt l of None \<Rightarrow> None | Some s \<Rightarrow> map_option ((#) s) (read_stmts ls)))"
| "read_stmts [] = None"

definition read_dot :: "string \<Rightarrow> dot_stmt list option" where
  [code_defs]: "read_dot text_of_file = read_stmts (drop 3 (str_split (CHR 0x0A) text_of_file))"

text \<open>Newlines of a label become spaces.\<close>

definition one_line :: "string \<Rightarrow> string" where
  [code_defs]: "one_line s = map (\<lambda>c. if c = CHR 0x0A then CHR '' '' else c) s"

lemma replace_char_simps [simp]:
  "replace_char c r [] = []" "replace_char c r (x # xs) = (if x = c then r else [x]) @ replace_char c r xs"
  "replace_char c r (a @ b) = replace_char c r a @ replace_char c r b"
  by (simp_all add: replace_char_def)

lemma dot_escape_simps [simp]:
  "dot_escape [] = []"
  "dot_escape (x # xs) = (if x = CHR 0x5C then [CHR 0x5C, CHR 0x5C] else if x = CHR 0x22 then [CHR 0x5C, CHR 0x22]
     else if x = CHR 0x0A then '' '' else [x]) @ dot_escape xs"
  by (simp_all add: dot_escape_def)

lemma read_quoted_escape: "read_quoted (dot_escape s @ CHR 0x22 # rest) = Some (one_line s, rest)"
  by (induction s) (simp_all add: one_line_def)

lemma read_quoted_append:
  "read_quoted (dot_escape s @ t) = (case read_quoted t of None \<Rightarrow> None | Some (l, rest) \<Rightarrow> Some (one_line s @ l, rest))"
  by (induction s) (auto simp: one_line_def split: option.split)

lemma no_newline_escape: "CHR 0x0A \<notin> set (dot_escape s)"
  by (induction s) auto

lemma id_char_plain: "id_char c \<noteq> CHR '' ''" "id_char c \<noteq> CHR 0x0A"
  by (auto simp: id_char_def ascii_alnum_def)

lemma dot_id_plain: "c \<in> set (node_dot_id raw) \<Longrightarrow> c \<noteq> CHR '' '' \<and> c \<noteq> CHR 0x0A"
  using id_char_plain by (fastforce simp: node_dot_id_def dest!: in_set_takeD)

lemma dot_id_span:
  "takeWhile (\<lambda>c. c \<noteq> CHR '' '') (node_dot_id raw @ CHR '' '' # s) = node_dot_id raw"
  "dropWhile (\<lambda>c. c \<noteq> CHR '' '') (node_dot_id raw @ CHR '' '' # s) = CHR '' '' # s"
  using dot_id_plain by (auto simp: takeWhile_append2 dropWhile_append2)

text \<open>The label of a node as it reads: the name and the types, or the types alone.\<close>

definition label_text :: "(property_value \<Rightarrow> string) \<Rightarrow> node \<Rightarrow> string" where
  [code_defs]: "label_text debug n =
     (let name = (case map_of (n_props n) ''name'' of Some v \<Rightarrow> debug v | None \<Rightarrow> [])
      in if name = [] then join_comma (n_types n) else name @ '' | '' @ join_comma (n_types n))"

lemma dot_node_label_escape: "dot_node_label debug n = dot_escape (label_text debug n)"
proof -
  have "dot_escape (a @ b) = dot_escape a @ dot_escape b" for a b by (induction a) auto
  then show ?thesis by (simp add: dot_node_label_def label_text_def Let_def)
qed

lemma read_label_quoted: "read_label (dot_quoted (dot_escape s)) = Some (one_line s)"
  by (simp add: read_label_def dot_quoted_def read_quoted_escape)

lemma read_node_stmt:
  "read_stmt (''  '' @ node_dot_id raw @ dot_quoted (dot_escape s)) = Some (DotNode (node_dot_id raw) (one_line s))"
  using read_label_quoted [of s] by (simp add: read_stmt_def Let_def dot_quoted_def dot_id_span)

lemma read_edge_stmt:
  "read_stmt (''  '' @ node_dot_id a @ '' -> '' @ node_dot_id b @ dot_quoted (dot_escape s)) =
     Some (DotEdge (node_dot_id a) (node_dot_id b) (one_line s))"
  using read_label_quoted [of s] by (simp add: read_stmt_def Let_def dot_quoted_def dot_id_span)

lemma str_split_lines:
  "(\<And>l. l \<in> set ls \<Longrightarrow> CHR 0x0A \<notin> set l) \<Longrightarrow>
     str_split (CHR 0x0A) (concat (map (\<lambda>l. l @ newline) ls)) = ls @ [[]]"
  by (induction ls) (simp_all add: newline_def str_split_cons)

lemma read_stmts_lines:
  "(\<And>l. l \<in> set ls \<Longrightarrow> l \<noteq> ''}'' \<and> read_stmt l = Some (f l)) \<Longrightarrow> read_stmts (ls @ [''}'', []]) = Some (map f ls)"
  by (induction ls) simp_all

lemma dot_lines:
  "render_ontology_dot debug hexe o' = concat (map (\<lambda>l. l @ newline)
     ([''digraph ontology {'', ''  rankdir=LR;'', ''  node [shape=box, style=rounded];''] @
      map (\<lambda>n. ''  '' @ node_dot_id (hexe (node_id_bytes (n_id n))) @ dot_quoted (dot_escape (label_text debug n))) (bm_values (o_nodes o')) @
      map (\<lambda>e. ''  '' @ node_dot_id (hexe (node_id_bytes (e_source e))) @ '' -> '' @ node_dot_id (hexe (node_id_bytes (e_target e))) @
        dot_quoted (dot_escape (e_label e))) (bm_values (o_edges o')) @ [''}'']))"
  by (simp add: render_ontology_dot_def dot_node_def [abs_def] dot_edge_def [abs_def] dot_node_label_escape comp_def)

lemma stmt_lines_plain:
  "CHR 0x0A \<notin> set (''  '' @ node_dot_id raw @ dot_quoted (dot_escape s))"
  "CHR 0x0A \<notin> set (''  '' @ node_dot_id a @ '' -> '' @ node_dot_id b @ dot_quoted (dot_escape s))"
  using dot_id_plain no_newline_escape by (fastforce simp: dot_quoted_def)+

section \<open>Properties\<close>

text \<open>
  C29: the GraphViz document of an ontology reads back as its graph: one statement per node, with its identifier and
  label, then one per edge, with both ends and its label, in the order of the maps. The label of a node is the Debug
  form of its \<open>name\<close> property, which the code writes for a name (\<open>String("...")\<close>, the parameter \<open>debug\<close>), and its
  types; that of an edge is the label itself. Every quote and backslash of a label's text comes back as it was and a
  newline as a space, whatever the Debug form is, so no label can close its quoted string or start a statement of its own.
\<close>
theorem dot_round_trip:
  "read_dot (render_ontology_dot debug hexe o') =
     Some (map (\<lambda>n. DotNode (node_dot_id (hexe (node_id_bytes (n_id n)))) (one_line (label_text debug n))) (bm_values (o_nodes o')) @
           map (\<lambda>e. DotEdge (node_dot_id (hexe (node_id_bytes (e_source e)))) (node_dot_id (hexe (node_id_bytes (e_target e))))
             (one_line (e_label e))) (bm_values (o_edges o')))"
  (is "_ = Some (map ?gn ?ns @ map ?ge ?es)")
proof -
  let ?ln = "\<lambda>n. ''  '' @ node_dot_id (hexe (node_id_bytes (n_id n))) @ dot_quoted (dot_escape (label_text debug n))"
  let ?le = "\<lambda>e. ''  '' @ node_dot_id (hexe (node_id_bytes (e_source e))) @ '' -> '' @ node_dot_id (hexe (node_id_bytes (e_target e))) @
    dot_quoted (dot_escape (e_label e))"
  have "read_dot (render_ontology_dot debug hexe o') = read_stmts ((map ?ln ?ns @ map ?le ?es) @ [''}'', []])"
    unfolding read_dot_def dot_lines
    by (subst str_split_lines) (use stmt_lines_plain in auto)
  also have "\<dots> = Some (map (the \<circ> read_stmt) (map ?ln ?ns @ map ?le ?es))"
    by (rule read_stmts_lines) (use read_node_stmt read_edge_stmt in auto)
  also have "map (the \<circ> read_stmt) (map ?ln ?ns @ map ?le ?es) = map ?gn ?ns @ map ?ge ?es"
    using read_node_stmt read_edge_stmt by (auto simp: comp_def)
  finally show ?thesis .
qed

text \<open>Mermaid escapes quotes only: an edge whose label holds a newline is written over two lines.\<close>

lemma mermaid_newline_kept: "CHR 0x0A \<in> set s \<Longrightarrow> CHR 0x0A \<in> set (mermaid_escape s)"
  unfolding mermaid_escape_def by (induction s) auto

lemma mermaid_quotes_escaped: "CHR 0x22 \<notin> set (mermaid_escape s)"
  unfolding mermaid_escape_def by (induction s) auto

end
