(* ===== verification/Py_Values.thy ===== *)
theory Py_Values
  imports Std_Float Extract_Stages
begin

text \<open>
  \<open>crates/atomr-ontology-py/src/core.rs\<close> and \<open>errors.rs\<close>: Python values, the exceptions of the bindings and the
  conversion between Python values and property values. A \<open>VDateTime\<close> is a \<open>datetime\<close> in UTC; any other object is a
  \<open>VOther\<close> with the name of its type (one without \<open>__index__\<close> and \<open>__float__\<close>). Python's \<open>json\<close> module, \<open>serde_json\<close> and the conversion of timestamps are
  the fields of \<open>py_env\<close>.
\<close>

section \<open>Values and exceptions\<close>

datatype py_value =
    VNone
  | VBool bool
  | VInt int
  | VFloat "64 word"
  | VStr string
  | VBytes bytes
  | VDateTime int
  | VIri iri
  | VProp property_value
  | VList "py_value list"
  | VDict "(py_value \<times> py_value) list"
  | VOther string

text \<open>\<open>PyArgument\<close> is the \<open>TypeError\<close> that PyO3 raises when an argument is not of the declared type;
  \<open>PyPanic\<close> is a Rust panic, which PyO3 raises as a \<open>PanicException\<close>; \<open>PyRaised\<close> is an exception of Python code that
  the bindings call. \<open>pe_datetime\<close> is \<open>None\<close> for a timestamp outside Python's years.\<close>

datatype py_error =
    PyArgument
  | PyPanic
  | PyRaised string
  | PyTypeError string
  | PyValueError string
  | PyRuntimeError string
  | PyAssertionError string
  | PyIriError string
  | PyOntologyError string
  | PyStoreError string
  | PyBackendError string
  | PyAdapterError string

record py_env =
  pe_dumps :: "py_value \<Rightarrow> string + string"
  pe_loads :: "string \<Rightarrow> string + py_value"
  pe_to_string :: "json \<Rightarrow> string"
  pe_from_str :: "string \<Rightarrow> string + json"
  pe_datetime :: "int \<Rightarrow> int option"
  pe_debug :: "string \<Rightarrow> string"

fun type_name :: "py_value \<Rightarrow> string" where
  "type_name VNone = ''NoneType''"
| "type_name (VBool b) = ''bool''"
| "type_name (VInt i) = ''int''"
| "type_name (VFloat f) = ''float''"
| "type_name (VStr s) = ''str''"
| "type_name (VBytes b) = ''bytes''"
| "type_name (VDateTime t) = ''datetime''"
| "type_name (VIri i) = ''Iri''"
| "type_name (VProp v) = ''PropertyValue''"
| "type_name (VList vs) = ''list''"
| "type_name (VDict kvs) = ''dict''"
| "type_name (VOther n) = n"

section \<open>Numbers\<close>

text \<open>\<open>extract::<i64>\<close>.\<close>

definition extract_i64 :: "int \<Rightarrow> 64 word option" where
  [code_defs]: "extract_i64 i = (if - (2 ^ 63) \<le> i \<and> i < 2 ^ 63 then Some (word_of_int i) else None)"

definition f64_encode :: "fp \<Rightarrow> 64 word" where
  [code_defs]: "f64_encode x =
     (case x of
        FpNan \<Rightarrow> 0x7FF8000000000000
      | FpInf s \<Rightarrow> word_of_nat (of_bool s * 2 ^ 63 + 2047 * 2 ^ 52)
      | FpFin s n \<Rightarrow>
          if n < 2 ^ 52 then word_of_nat (of_bool s * 2 ^ 63 + n)
          else (let k = floorlog 2 n - 53
                in word_of_nat (of_bool s * 2 ^ 63 + (k + 1) * 2 ^ 52 + (n div 2 ^ k - 2 ^ 52))))"

text \<open>\<open>extract::<f64>\<close> of an \<open>int\<close>: rounded to nearest, ties to even; too large an integer raises.\<close>

definition int_as_double :: "int \<Rightarrow> fp" where
  [code_defs]: "int_as_double i =
     (let n = round_to 53 (nat \<bar>i\<bar>) 1 in if n \<ge> 2 ^ 1024 then FpInf (i < 0) else FpFin (i < 0) (n * 2 ^ 1074))"

definition extract_f64 :: "int \<Rightarrow> 64 word option" where
  [code_defs]: "extract_f64 i = (if fp_finite (int_as_double i) then Some (f64_encode (int_as_double i)) else None)"

section \<open>Property values\<close>

definition py_to_property_value :: "py_value \<Rightarrow> py_error + property_value" where
  [code_defs]: "py_to_property_value v =
     (case v of
        VNone \<Rightarrow> Inr PNull
      | VProp p \<Rightarrow> Inr p
      | VIri i \<Rightarrow> Inr (PIri i)
      | VBool b \<Rightarrow> Inr (PBool b)
      | VInt i \<Rightarrow>
          (case extract_i64 i of
             Some w \<Rightarrow> Inr (PInteger w)
           | None \<Rightarrow>
               (case extract_f64 i of
                  Some d \<Rightarrow> Inr (PFloat d)
                | None \<Rightarrow> Inl (PyTypeError (''cannot convert '' @ type_name v @ '' into PropertyValue''))))
      | VFloat d \<Rightarrow> Inr (PFloat d)
      | VStr s \<Rightarrow> Inr (PString s)
      | VBytes b \<Rightarrow> Inr (PBytes b)
      | VDateTime t \<Rightarrow> Inr (PDateTime t)
      | _ \<Rightarrow> Inl (PyTypeError (''cannot convert '' @ type_name v @ '' into PropertyValue'')))"

definition loads :: "py_env \<Rightarrow> json \<Rightarrow> py_error + py_value" where
  [code_defs]: "loads E j = (case pe_loads E (pe_to_string E j) of Inl e \<Rightarrow> Inl (PyRaised e) | Inr v \<Rightarrow> Inr v)"

definition dumps :: "py_env \<Rightarrow> py_value \<Rightarrow> py_error + json" where
  [code_defs]: "dumps E v =
     (case pe_dumps E v of
        Inl e \<Rightarrow> Inl (PyRaised e)
      | Inr s \<Rightarrow> (case pe_from_str E s of Inl e \<Rightarrow> Inl (PyValueError e) | Inr j \<Rightarrow> Inr j))"

definition property_value_to_py :: "py_env \<Rightarrow> property_value \<Rightarrow> py_error + py_value" where
  [code_defs]: "property_value_to_py E v =
     (case v of
        PString s \<Rightarrow> Inr (VStr s)
      | PInteger w \<Rightarrow> Inr (VInt (sint w))
      | PFloat d \<Rightarrow> Inr (VFloat d)
      | PBool b \<Rightarrow> Inr (VBool b)
      | PDateTime t \<Rightarrow> (case pe_datetime E t of None \<Rightarrow> Inl PyPanic | Some t' \<Rightarrow> Inr (VDateTime t'))
      | PIri i \<Rightarrow> Inr (VIri i)
      | PBytes b \<Rightarrow> Inr (VBytes b)
      | PJson j \<Rightarrow> loads E j
      | PNull \<Rightarrow> Inr VNone)"

text \<open>The variants made by name.\<close>

definition pv_kind :: "property_value \<Rightarrow> string" where
  [code_defs]: "pv_kind v =
     (case v of
        PString _ \<Rightarrow> ''string'' | PInteger _ \<Rightarrow> ''integer'' | PFloat _ \<Rightarrow> ''float'' | PBool _ \<Rightarrow> ''bool''
      | PDateTime _ \<Rightarrow> ''date_time'' | PIri _ \<Rightarrow> ''iri'' | PBytes _ \<Rightarrow> ''bytes'' | PJson _ \<Rightarrow> ''json'' | PNull \<Rightarrow> ''null'')"

definition pv_integer :: "int \<Rightarrow> py_error + property_value" where
  [code_defs]: "pv_integer i = (case extract_i64 i of Some w \<Rightarrow> Inr (PInteger w) | None \<Rightarrow> Inl PyArgument)"

definition pv_json :: "py_env \<Rightarrow> string \<Rightarrow> py_error + property_value" where
  [code_defs]: "pv_json E s = (case pe_from_str E s of Inl e \<Rightarrow> Inl (PyValueError e) | Inr j \<Rightarrow> Inr (PJson j))"

text \<open>Property maps from and to dictionaries; a later entry replaces an earlier one.\<close>

definition add_property_item :: "py_value \<times> py_value \<Rightarrow> props \<Rightarrow> py_error + props" where
  [code_defs]: "add_property_item kv m =
     (case fst kv of
        VStr k \<Rightarrow> (case py_to_property_value (snd kv) of Inl e \<Rightarrow> Inl e | Inr v \<Rightarrow> Inr (bm_insert k v m))
      | _ \<Rightarrow> Inl PyArgument)"

definition property_map_from_py :: "(py_value \<times> py_value) list option \<Rightarrow> py_error + props" where
  [code_defs]: "property_map_from_py d = (case d of None \<Rightarrow> Inr [] | Some kvs \<Rightarrow> try_fold add_property_item kvs [])"

fun items_to_py :: "('a \<Rightarrow> py_error + py_value) \<Rightarrow> (string \<times> 'a) list \<Rightarrow> py_error + (py_value \<times> py_value) list" where
  "items_to_py f [] = Inr []"
| "items_to_py f ((k, x) # rest) =
     (case f x of
        Inl e \<Rightarrow> Inl e
      | Inr v \<Rightarrow> (case items_to_py f rest of Inl e \<Rightarrow> Inl e | Inr kvs \<Rightarrow> Inr ((VStr k, v) # kvs)))"

definition property_map_to_py :: "py_env \<Rightarrow> props \<Rightarrow> py_error + (py_value \<times> py_value) list" where
  [code_defs]: "property_map_to_py E m = items_to_py (property_value_to_py E) m"

section \<open>Identifiers and IRIs\<close>

definition id_error_text :: "id_error \<Rightarrow> string" where
  [code_defs]: "id_error_text e = (case e of InvalidId s \<Rightarrow> ''invalid id: '' @ s)"

definition py_iri_new :: "py_env \<Rightarrow> string \<Rightarrow> py_error + iri" where
  [code_defs]: "py_iri_new E s = (case iri_new s of Inl e \<Rightarrow> Inl (PyIriError (iri_error_display (pe_debug E) e)) | Inr i \<Rightarrow> Inr i)"

definition py_id_from_hex :: "(string \<Rightarrow> string + bytes) \<Rightarrow> string \<Rightarrow> py_error + bytes" where
  [code_defs]: "py_id_from_hex hexd s = (case id_from_str hexd s of Inl e \<Rightarrow> Inl (PyValueError (id_error_text e)) | Inr b \<Rightarrow> Inr b)"

definition py_id_from_bytes :: "bytes \<Rightarrow> py_error + bytes" where
  [code_defs]: "py_id_from_bytes b =
     (if length b \<noteq> 32 then Inl (PyValueError (''expected 32 bytes, got '' @ show_nat (length b))) else Inr b)"

section \<open>Round trips\<close>

definition pv_plain :: "py_env \<Rightarrow> property_value \<Rightarrow> bool" where
  [code_defs]: "pv_plain E v \<longleftrightarrow> (case v of PJson _ \<Rightarrow> False | PDateTime t \<Rightarrow> pe_datetime E t = Some t | _ \<Rightarrow> True)"

lemma extract_i64_sint [simp]: "extract_i64 (sint (w :: 64 word)) = Some w"
  using sint_range_size [of w] by (simp add: extract_i64_def word_size)

lemma extract_i64_value: "extract_i64 i = Some w \<Longrightarrow> sint w = i"
  by (auto simp: extract_i64_def signed_of_int signed_take_bit_int_eq_self_iff split: if_splits)

lemma property_value_py:
  "pv_plain E v \<Longrightarrow> \<exists>x. property_value_to_py E v = Inr x \<and> py_to_property_value x = Inr v"
  by (cases v) (simp_all add: pv_plain_def property_value_to_py_def py_to_property_value_def)

lemma add_string_item: "py_to_property_value x = Inr v \<Longrightarrow> add_property_item (VStr k, x) m = Inr (bm_insert k v m)"
  by (simp add: add_property_item_def)

lemma property_items_py:
  assumes "\<forall>(k, v) \<in> set m. pv_plain E v"
  shows "\<exists>kvs. items_to_py (property_value_to_py E) m = Inr kvs \<and>
    (\<forall>acc. try_fold add_property_item kvs acc = Inr (fold (\<lambda>e acc. bm_insert (fst e) (snd e) acc) m acc))"
  using assms
proof (induction m)
  case (Cons e m)
  obtain k v where e: "e = (k, v)" by (cases e)
  obtain x where x: "property_value_to_py E v = Inr x" "py_to_property_value x = Inr v"
    using property_value_py [of E v] Cons.prems e by auto
  obtain kvs where "items_to_py (property_value_to_py E) m = Inr kvs"
    "\<forall>acc. try_fold add_property_item kvs acc = Inr (fold (\<lambda>e acc. bm_insert (fst e) (snd e) acc) m acc)"
    using Cons by auto
  with x e show ?case by (intro exI [of _ "(VStr k, x) # kvs"]) (simp add: add_string_item)
qed simp

text \<open>
  C31: the properties of a node or an edge survive the way to Python and back: the dictionary that a getter returns
  converts into the map it came from, booleans staying booleans and integers integers, for maps without JSON values and
  with timestamps that Python's \<open>datetime\<close> can hold.
\<close>
theorem python_properties_round_trip:
  assumes "bm_wf m" "\<forall>(k, v) \<in> set m. pv_plain E v"
  shows "\<exists>kvs. property_map_to_py E m = Inr kvs \<and> property_map_from_py (Some kvs) = Inr m"
  using property_items_py [OF assms(2)] bm_rebuild [OF assms(1)]
  by (auto simp: property_map_to_py_def property_map_from_py_def)

definition sample_env :: py_env where
  [code_defs]: "sample_env =
     \<lparr>pe_dumps = (\<lambda>_. Inl ''not serializable''), pe_loads = (\<lambda>s. Inr (VStr s)), pe_to_string = (\<lambda>_. ''null''),
      pe_from_str = (\<lambda>_. Inr JNull), pe_datetime = Some, pe_debug = id\<rparr>"

definition sample_props :: props where
  "sample_props = bm_insert ''ok'' (PBool True) (bm_insert ''age'' (PInteger 7) (bm_insert ''since'' (PDateTime 5) []))"

lemma python_properties_round_trip_witness:
  "\<exists>kvs. property_map_to_py sample_env sample_props = Inr kvs \<and> property_map_from_py (Some kvs) = Inr sample_props"
proof (rule python_properties_round_trip)
  show "bm_wf sample_props" unfolding sample_props_def by (intro bm_wf_insert bm_wf_Nil)
  have "set sample_props \<subseteq> {(''ok'', PBool True), (''age'', PInteger 7), (''since'', PDateTime 5)}"
    by (auto simp: sample_props_def dest!: subsetD [OF bm_set_insert_subset])
  then show "\<forall>(k, v) \<in> set sample_props. pv_plain sample_env v" by (auto simp: pv_plain_def sample_env_def)
qed

text \<open>An integer of more than 64 bits silently becomes a float: different integers become the same value.\<close>

lemma large_integers_collapse:
  "\<exists>d. py_to_property_value (VInt (2 ^ 63)) = Inr (PFloat d) \<and> py_to_property_value (VInt (2 ^ 63 + 1)) = Inr (PFloat d)"
proof -
  have "floorlog 2 (9223372036854775808 :: nat) = 64" "floorlog 2 (9223372036854775809 :: nat) = 64"
    by (simp_all add: compute_floorlog)
  then have r: "round_to 53 (2 ^ 63) 1 = 2 ^ 63" "round_to 53 (2 ^ 63 + 1) 1 = 2 ^ 63"
    by (simp_all add: round_to_def Let_def)
  have "int_as_double (2 ^ 63) = FpFin False (2 ^ 63 * 2 ^ 1074)" "int_as_double (2 ^ 63 + 1) = FpFin False (2 ^ 63 * 2 ^ 1074)"
    using r by (simp_all add: int_as_double_def Let_def)
  then show ?thesis
    by (simp add: py_to_property_value_def extract_i64_def extract_f64_def fp_finite_def)
qed

text \<open>A JSON array read back as a Python list is not a property value any more.\<close>

lemma json_list_rejected:
  assumes "loads E j = Inr (VList vs)"
  shows "property_value_to_py E (PJson j) = Inr (VList vs)"
    "py_to_property_value (VList vs) = Inl (PyTypeError ''cannot convert list into PropertyValue'')"
  using assms by (simp_all add: property_value_to_py_def py_to_property_value_def)

end
