(* ===== verification/Py_Heap.thy ===== *)
theory Py_Heap
  imports Py_Values Version_Store Validate Embed_Index
begin

text \<open>
  The objects of the Python bindings (\<open>crates/atomr-ontology-py/src\<close>). A \<open>#[pyclass]\<close> object lives in the heap under
  an address; PyO3 passes objects by address, and an argument declared as \<open>PyNode\<close> is a clone of the object at that
  address. A method with \<open>mut slf: PyRefMut\<close> that returns \<open>slf\<close> changes the object in place and returns its address.
  Frozen classes (identifiers, IRIs, axiom kinds, cardinalities, ..) are values. A \<open>MemStore\<close> object refers to a
  store that its clones share.
\<close>

section \<open>Objects and states\<close>

datatype py_obj =
    ObNamespace namespace
  | ObVocabulary vocabulary
  | ObProperty "string \<times> property_value"
  | ObNode node
  | ObEdge edge
  | ObPropertyType property_type
  | ObNodeType node_type
  | ObEdgeType edge_type
  | ObSchema schema
  | ObAxiom axiom_rec
  | ObRecord flat_record
  | ObOntology ontology
  | ObActivity activity
  | ObEntity prov_entity
  | ObLog prov_log
  | ObNodePattern node_pattern
  | ObEdgePattern edge_pattern
  | ObStep traversal_step
  | ObPlan traversal_plan
  | ObRow match_row
  | ObDelta delta
  | ObDiff store_diff
  | ObStore nat
  | ObReport report
  | ObFinding finding
  | ObVersions vstore
  | ObVectorRecord vector_record
  | ObVectorIndex vector_index
  | ObPrompt prompt

record py_state =
  hs_objs :: "py_obj list"
  hs_stores :: "mem_state list"

type_synonym 'a py = "py_state \<Rightarrow> (py_error + 'a) \<times> py_state"

fun as_namespace :: "py_obj \<Rightarrow> namespace option" where
  "as_namespace (ObNamespace x) = Some x"
| "as_namespace _ = None"

fun as_vocabulary :: "py_obj \<Rightarrow> vocabulary option" where
  "as_vocabulary (ObVocabulary x) = Some x"
| "as_vocabulary _ = None"

fun as_property :: "py_obj \<Rightarrow> (string \<times> property_value) option" where
  "as_property (ObProperty x) = Some x"
| "as_property _ = None"

fun as_node :: "py_obj \<Rightarrow> node option" where
  "as_node (ObNode x) = Some x"
| "as_node _ = None"

fun as_edge :: "py_obj \<Rightarrow> edge option" where
  "as_edge (ObEdge x) = Some x"
| "as_edge _ = None"

fun as_property_type :: "py_obj \<Rightarrow> property_type option" where
  "as_property_type (ObPropertyType x) = Some x"
| "as_property_type _ = None"

fun as_node_type :: "py_obj \<Rightarrow> node_type option" where
  "as_node_type (ObNodeType x) = Some x"
| "as_node_type _ = None"

fun as_edge_type :: "py_obj \<Rightarrow> edge_type option" where
  "as_edge_type (ObEdgeType x) = Some x"
| "as_edge_type _ = None"

fun as_schema :: "py_obj \<Rightarrow> schema option" where
  "as_schema (ObSchema x) = Some x"
| "as_schema _ = None"

fun as_axiom :: "py_obj \<Rightarrow> axiom_rec option" where
  "as_axiom (ObAxiom x) = Some x"
| "as_axiom _ = None"

fun as_record :: "py_obj \<Rightarrow> flat_record option" where
  "as_record (ObRecord x) = Some x"
| "as_record _ = None"

fun as_ontology :: "py_obj \<Rightarrow> ontology option" where
  "as_ontology (ObOntology x) = Some x"
| "as_ontology _ = None"

fun as_activity :: "py_obj \<Rightarrow> activity option" where
  "as_activity (ObActivity x) = Some x"
| "as_activity _ = None"

fun as_entity :: "py_obj \<Rightarrow> prov_entity option" where
  "as_entity (ObEntity x) = Some x"
| "as_entity _ = None"

fun as_log :: "py_obj \<Rightarrow> prov_log option" where
  "as_log (ObLog x) = Some x"
| "as_log _ = None"

fun as_node_pattern :: "py_obj \<Rightarrow> node_pattern option" where
  "as_node_pattern (ObNodePattern x) = Some x"
| "as_node_pattern _ = None"

fun as_edge_pattern :: "py_obj \<Rightarrow> edge_pattern option" where
  "as_edge_pattern (ObEdgePattern x) = Some x"
| "as_edge_pattern _ = None"

fun as_step :: "py_obj \<Rightarrow> traversal_step option" where
  "as_step (ObStep x) = Some x"
| "as_step _ = None"

fun as_plan :: "py_obj \<Rightarrow> traversal_plan option" where
  "as_plan (ObPlan x) = Some x"
| "as_plan _ = None"

fun as_row :: "py_obj \<Rightarrow> match_row option" where
  "as_row (ObRow x) = Some x"
| "as_row _ = None"

fun as_delta :: "py_obj \<Rightarrow> delta option" where
  "as_delta (ObDelta x) = Some x"
| "as_delta _ = None"

fun as_diff :: "py_obj \<Rightarrow> store_diff option" where
  "as_diff (ObDiff x) = Some x"
| "as_diff _ = None"

fun as_store :: "py_obj \<Rightarrow> nat option" where
  "as_store (ObStore x) = Some x"
| "as_store _ = None"

fun as_report :: "py_obj \<Rightarrow> report option" where
  "as_report (ObReport x) = Some x"
| "as_report _ = None"

fun as_finding :: "py_obj \<Rightarrow> finding option" where
  "as_finding (ObFinding x) = Some x"
| "as_finding _ = None"

fun as_versions :: "py_obj \<Rightarrow> vstore option" where
  "as_versions (ObVersions x) = Some x"
| "as_versions _ = None"

fun as_vector_record :: "py_obj \<Rightarrow> vector_record option" where
  "as_vector_record (ObVectorRecord x) = Some x"
| "as_vector_record _ = None"

fun as_vector_index :: "py_obj \<Rightarrow> vector_index option" where
  "as_vector_index (ObVectorIndex x) = Some x"
| "as_vector_index _ = None"

fun as_prompt :: "py_obj \<Rightarrow> prompt option" where
  "as_prompt (ObPrompt x) = Some x"
| "as_prompt _ = None"

section \<open>Steps\<close>

definition py_ret :: "'a \<Rightarrow> 'a py" where
  [code_defs]: "py_ret x s = (Inr x, s)"

definition py_lift :: "py_error + 'a \<Rightarrow> 'a py" where
  [code_defs]: "py_lift r s = (r, s)"

definition py_bind :: "'a py \<Rightarrow> ('a \<Rightarrow> 'b py) \<Rightarrow> 'b py" where
  [code_defs]: "py_bind m f s = (case m s of (Inl e, s') \<Rightarrow> (Inl e, s') | (Inr x, s') \<Rightarrow> f x s')"

text \<open>A new object.\<close>

definition py_new :: "py_obj \<Rightarrow> nat py" where
  [code_defs]: "py_new ob s = (Inr (length (hs_objs s)), s\<lparr>hs_objs := hs_objs s @ [ob]\<rparr>)"

fun py_news :: "py_obj list \<Rightarrow> nat list py" where
  "py_news [] s = (Inr [], s)"
| "py_news (ob # obs) s = py_bind (py_new ob) (\<lambda>a. py_bind (py_news obs) (\<lambda>as. py_ret (a # as))) s"

definition py_new_opt :: "py_obj option \<Rightarrow> nat option py" where
  [code_defs]: "py_new_opt x = (case x of None \<Rightarrow> py_ret None | Some ob \<Rightarrow> py_bind (py_new ob) (\<lambda>a. py_ret (Some a)))"

text \<open>The clone of an argument of a class.\<close>

definition py_read :: "(py_obj \<Rightarrow> 'a option) \<Rightarrow> nat \<Rightarrow> 'a py" where
  [code_defs]: "py_read sel a s =
     (if a < length (hs_objs s) then (case sel (hs_objs s ! a) of Some x \<Rightarrow> (Inr x, s) | None \<Rightarrow> (Inl PyArgument, s))
      else (Inl PyArgument, s))"

fun py_reads :: "(py_obj \<Rightarrow> 'a option) \<Rightarrow> nat list \<Rightarrow> 'a list py" where
  "py_reads sel [] s = (Inr [], s)"
| "py_reads sel (a # as) s = py_bind (py_read sel a) (\<lambda>x. py_bind (py_reads sel as) (\<lambda>xs. py_ret (x # xs))) s"

text \<open>A change of the receiver, which is returned.\<close>

definition py_write :: "nat \<Rightarrow> py_obj \<Rightarrow> nat py" where
  [code_defs]: "py_write a ob s = (Inr a, s\<lparr>hs_objs := (hs_objs s)[a := ob]\<rparr>)"

definition py_modify :: "(py_obj \<Rightarrow> 'a option) \<Rightarrow> ('a \<Rightarrow> py_obj) \<Rightarrow> ('a \<Rightarrow> 'a) \<Rightarrow> nat \<Rightarrow> nat py" where
  [code_defs]: "py_modify sel con f a = py_bind (py_read sel a) (\<lambda>x. py_write a (con (f x)))"

section \<open>The discipline of the heap\<close>

text \<open>The invariants of the core types, object by object, down to the property maps of nodes and edges.\<close>

definition deep_wf :: "ontology \<Rightarrow> bool" where
  "deep_wf q \<longleftrightarrow> ont_wf q \<and> (\<forall>n \<in> set (bm_values (o_nodes q)). bm_wf (n_props n)) \<and> (\<forall>e \<in> set (bm_values (o_edges q)). bm_wf (e_props e))"

fun obj_wf :: "py_obj \<Rightarrow> bool" where
  "obj_wf (ObVocabulary v) = bm_wf v"
| "obj_wf (ObNode n) = bm_wf (n_props n)"
| "obj_wf (ObEdge e) = bm_wf (e_props e)"
| "obj_wf (ObSchema s) = schema_wf s"
| "obj_wf (ObRecord r) = bm_wf (r_props r)"
| "obj_wf (ObOntology q) = deep_wf q"
| "obj_wf (ObLog l) = prov_log_wf l"
| "obj_wf (ObDelta d) = ((\<forall>n \<in> set (d_nodes d). bm_wf (n_props n)) \<and> (\<forall>e \<in> set (d_edges d). bm_wf (e_props e)))"
| "obj_wf (ObVersions v) = (\<forall>c \<in> set (bm_values (v_commits v)). deep_wf (c_snapshot c))"
| "obj_wf _ = True"

definition heap_wf :: "py_state \<Rightarrow> bool" where
  "heap_wf s \<longleftrightarrow> (\<forall>ob \<in> set (hs_objs s). obj_wf ob) \<and> (\<forall>m \<in> set (hs_stores s). mem_wf m \<and> deep_wf (ms_ont m))"

lemma values_insert: "x \<in> set (bm_values (bm_insert k v m)) \<Longrightarrow> x = v \<or> x \<in> set (bm_values m)"
  by (auto simp: bm_values_def dest!: subsetD [OF bm_set_insert_subset])

lemma deep_wf_ops [simp]:
  "deep_wf ontology_new"
  "deep_wf q \<Longrightarrow> deep_wf (ont_declare_node_type t q)"
  "deep_wf q \<Longrightarrow> deep_wf (ont_declare_edge_type t q)"
  "deep_wf q \<Longrightarrow> bm_wf (n_props n) \<Longrightarrow> deep_wf (upsert_node n q)"
  "deep_wf q \<Longrightarrow> bm_wf (e_props e) \<Longrightarrow> deep_wf (upsert_edge e q)"
  "deep_wf q \<Longrightarrow> deep_wf (upsert_axiom x q)"
  "deep_wf q \<Longrightarrow> bm_wf v \<Longrightarrow> deep_wf (q\<lparr>o_vocab := v\<rparr>)"
  "deep_wf q \<Longrightarrow> schema_wf sc \<Longrightarrow> deep_wf (q\<lparr>o_schema := sc\<rparr>)"
  "deep_wf q \<Longrightarrow> deep_wf (q\<lparr>o_iri := i\<rparr>)"
proof -
  show "deep_wf ontology_new" by (simp add: deep_wf_def) (simp add: ontology_new_def bm_values_def)
  show "deep_wf (ont_declare_node_type t q)" if "deep_wf q"
    using that by (simp add: deep_wf_def) (simp add: ont_declare_node_type_def)
  show "deep_wf (ont_declare_edge_type t q)" if "deep_wf q"
    using that by (simp add: deep_wf_def) (simp add: ont_declare_edge_type_def)
  show "deep_wf (q\<lparr>o_vocab := v\<rparr>)" if "deep_wf q" "bm_wf v" using that by (simp add: deep_wf_def ont_wf_def)
  show "deep_wf (q\<lparr>o_schema := sc\<rparr>)" if "deep_wf q" "schema_wf sc" using that by (simp add: deep_wf_def ont_wf_def)
  show "deep_wf (q\<lparr>o_iri := i\<rparr>)" if "deep_wf q" using that by (simp add: deep_wf_def ont_wf_def)
qed (auto simp: deep_wf_def dest!: values_insert)

lemma deep_wfD:
  "deep_wf q \<Longrightarrow> ont_wf q"
  "deep_wf q \<Longrightarrow> n \<in> set (bm_values (o_nodes q)) \<Longrightarrow> bm_wf (n_props n)"
  "deep_wf q \<Longrightarrow> e \<in> set (bm_values (o_edges q)) \<Longrightarrow> bm_wf (e_props e)"
  "deep_wf q \<Longrightarrow> ont_node q i = Some n \<Longrightarrow> bm_wf (n_props n)"
  "deep_wf q \<Longrightarrow> ont_edge q j = Some e \<Longrightarrow> bm_wf (e_props e)"
  "deep_wf q \<Longrightarrow> bm_wf (o_vocab q)" "deep_wf q \<Longrightarrow> schema_wf (o_schema q)"
  "deep_wf q \<Longrightarrow> e \<in> set (outbound q k) \<Longrightarrow> bm_wf (e_props e)" "deep_wf q \<Longrightarrow> e \<in> set (inbound q k) \<Longrightarrow> bm_wf (e_props e)"
  by (auto simp: deep_wf_def ont_node_def ont_edge_def bm_values_def outbound_def inbound_def ont_wf_def dest!: map_of_SomeD; force)+

text \<open>
  A disciplined operation keeps the invariants, changes no object outside \<open>R\<close> and no store, forgets no object, and
  changes nothing at all when it raises.
\<close>

definition disciplined :: "nat set \<Rightarrow> 'a py \<Rightarrow> bool" where
  "disciplined R m \<longleftrightarrow> (\<forall>s. heap_wf s \<longrightarrow>
     heap_wf (snd (m s)) \<and>
     hs_stores (snd (m s)) = hs_stores s \<and>
     length (hs_objs s) \<le> length (hs_objs (snd (m s))) \<and>
     (\<forall>a < length (hs_objs s). a \<notin> R \<longrightarrow> hs_objs (snd (m s)) ! a = hs_objs s ! a) \<and>
     (\<forall>e. fst (m s) = Inl e \<longrightarrow> snd (m s) = s))"

lemma disciplined_ret [simp, intro]: "disciplined R (py_ret x)"
  by (simp add: disciplined_def py_ret_def)

lemma disciplined_lift [simp, intro]: "disciplined R (py_lift r)"
  by (simp add: disciplined_def py_lift_def)

lemma disciplined_new [intro]: "obj_wf ob \<Longrightarrow> disciplined R (py_new ob)"
  by (auto simp: disciplined_def py_new_def heap_wf_def nth_append)

lemma disciplined_write:
  "obj_wf ob \<Longrightarrow> a \<in> R \<Longrightarrow> disciplined R (py_write a ob)"
  by (auto simp: disciplined_def py_write_def heap_wf_def dest!: subsetD [OF set_update_subset_insert] intro!: nth_list_update_neq)

text \<open>A step that only reads may be followed by any disciplined step, and a step that never raises may follow any.\<close>

lemma py_bind_pure: "snd (m s) = s \<Longrightarrow> py_bind m f s = (case fst (m s) of Inl e \<Rightarrow> (Inl e, s) | Inr x \<Rightarrow> f x s)"
  by (cases "m s"; cases "fst (m s)") (simp_all add: py_bind_def)

lemma disciplined_bind_pure:
  assumes "\<And>s. snd (m s) = s" "\<And>s x. heap_wf s \<Longrightarrow> fst (m s) = Inr x \<Longrightarrow> disciplined R (f x)"
  shows "disciplined R (py_bind m f)"
  unfolding disciplined_def
proof (intro allI impI)
  fix s assume wf: "heap_wf s"
  have b: "py_bind m f s = (case fst (m s) of Inl e \<Rightarrow> (Inl e, s) | Inr x \<Rightarrow> f x s)"
    using assms(1) by (rule py_bind_pure)
  show "heap_wf (snd (py_bind m f s)) \<and> hs_stores (snd (py_bind m f s)) = hs_stores s \<and>
      length (hs_objs s) \<le> length (hs_objs (snd (py_bind m f s))) \<and>
      (\<forall>a < length (hs_objs s). a \<notin> R \<longrightarrow> hs_objs (snd (py_bind m f s)) ! a = hs_objs s ! a) \<and>
      (\<forall>e. fst (py_bind m f s) = Inl e \<longrightarrow> snd (py_bind m f s) = s)"
  proof (cases "fst (m s)")
    case (Inl e)
    then show ?thesis using wf by (simp add: b)
  next
    case (Inr x)
    then show ?thesis using assms(2) [OF wf Inr] wf by (simp add: b disciplined_def)
  qed
qed

lemma disciplined_lift_bind: "(\<And>x. r = Inr x \<Longrightarrow> disciplined R (f x)) \<Longrightarrow> disciplined R (py_bind (py_lift r) f)"
  by (rule disciplined_bind_pure) (simp_all add: py_lift_def)

lemma disciplined_ret_bind: "disciplined R (f x) \<Longrightarrow> disciplined R (py_bind (py_ret x) f)"
  by (rule disciplined_bind_pure) (auto simp: py_ret_def)

lemma py_bind_ret:
  "snd (py_bind m (\<lambda>x. py_ret (g x)) s) = snd (m s)"
  "fst (py_bind m (\<lambda>x. py_ret (g x)) s) = (case fst (m s) of Inl e \<Rightarrow> Inl e | Inr x \<Rightarrow> Inr (g x))"
  by (cases "m s"; cases "fst (m s)"; simp add: py_bind_def py_ret_def)+

lemma disciplined_then_ret: "disciplined R m \<Longrightarrow> disciplined R (py_bind m (\<lambda>x. py_ret (g x)))"
  by (auto simp: disciplined_def py_bind_ret split: sum.splits)

lemma disciplined_news [intro]: "(\<And>ob. ob \<in> set obs \<Longrightarrow> obj_wf ob) \<Longrightarrow> disciplined R (py_news obs)"
proof -
  have step: "\<exists>as. py_news obs s = (Inr as, s\<lparr>hs_objs := hs_objs s @ obs\<rparr>)" for s
  proof (induction obs arbitrary: s)
    case (Cons ob obs)
    obtain as where "py_news obs (s\<lparr>hs_objs := hs_objs s @ [ob]\<rparr>) = (Inr as, s\<lparr>hs_objs := hs_objs s @ ob # obs\<rparr>)"
      using Cons [of "s\<lparr>hs_objs := hs_objs s @ [ob]\<rparr>"] by auto
    then show ?case by (simp add: py_bind_def py_new_def py_ret_def)
  qed simp
  have state: "snd (py_news obs s) = s\<lparr>hs_objs := hs_objs s @ obs\<rparr>" and ok: "fst (py_news obs s) \<noteq> Inl e" for s e
    using step [of s] by auto
  assume "\<And>ob. ob \<in> set obs \<Longrightarrow> obj_wf ob"
  then show ?thesis by (auto simp: disciplined_def state ok heap_wf_def nth_append)
qed

lemma disciplined_new_opt [intro]: "(\<And>ob. x = Some ob \<Longrightarrow> obj_wf ob) \<Longrightarrow> disciplined R (py_new_opt x)"
  by (cases x) (auto simp: py_new_opt_def intro: disciplined_then_ret disciplined_new)

section \<open>Classes\<close>

text \<open>What the operations rely on: a class recognises exactly the objects it makes.\<close>

locale py_class =
  fixes con :: "'a \<Rightarrow> py_obj" and sel :: "py_obj \<Rightarrow> 'a option"
  assumes sel_iff: "sel ob = Some x \<longleftrightarrow> ob = con x"
begin

lemma sel_con [simp]: "sel (con x) = Some x"
  by (simp add: sel_iff)

lemma con_inject: "con x = con y \<longleftrightarrow> x = y"
  using sel_con by (metis option.inject)

lemma read_same: "snd (py_read sel a s) = s"
  by (auto simp: py_read_def split: option.splits)

lemma read_object: "fst (py_read sel a s) = Inr x \<longleftrightarrow> a < length (hs_objs s) \<and> hs_objs s ! a = con x"
  by (auto simp: py_read_def split: option.splits) (simp_all add: sel_iff)

lemma read_wf: "heap_wf s \<Longrightarrow> fst (py_read sel a s) = Inr x \<Longrightarrow> obj_wf (con x)"
  by (metis heap_wf_def nth_mem read_object)

lemma disciplined_read_bind:
  "(\<And>x. obj_wf (con x) \<Longrightarrow> disciplined R (f x)) \<Longrightarrow> disciplined R (py_bind (py_read sel a) f)"
  by (rule disciplined_bind_pure [OF read_same]) (use read_wf in blast)

lemma disciplined_modify:
  assumes "a \<in> R" "\<And>x. obj_wf (con x) \<Longrightarrow> obj_wf (con (f x))"
  shows "disciplined R (py_modify sel con f a)"
  unfolding py_modify_def using assms by (intro disciplined_read_bind disciplined_write) auto

lemma reads_Cons:
  "py_reads sel (a # as) s =
     (case fst (py_read sel a s) of Inl e \<Rightarrow> (Inl e, s)
      | Inr x \<Rightarrow> py_bind (py_reads sel as) (\<lambda>xs. py_ret (x # xs)) s)"
  by (simp add: py_bind_pure [OF read_same])

lemma reads_same: "snd (py_reads sel as s) = s"
proof (induction as)
  case (Cons a as)
  then show ?case unfolding reads_Cons by (simp add: py_bind_ret split: sum.split)
qed simp

lemma reads_wf:
  assumes "heap_wf s"
  shows "fst (py_reads sel as s) = Inr xs \<Longrightarrow> \<forall>x \<in> set xs. obj_wf (con x)"
proof (induction as arbitrary: xs)
  case (Cons a as)
  from Cons.prems obtain y ys where "fst (py_read sel a s) = Inr y" "fst (py_reads sel as s) = Inr ys" "xs = y # ys"
    unfolding reads_Cons by (auto simp: py_bind_ret split: sum.splits)
  then show ?case using Cons.IH read_wf [OF assms] by auto
qed simp

lemma disciplined_reads_bind:
  "(\<And>xs. \<forall>x \<in> set xs. obj_wf (con x) \<Longrightarrow> disciplined R (f xs)) \<Longrightarrow> disciplined R (py_bind (py_reads sel as) f)"
  by (rule disciplined_bind_pure [OF reads_same]) (use reads_wf in blast)

end

lemma as_iff:
  "as_namespace ob = Some x0 \<longleftrightarrow> ob = ObNamespace x0"
  "as_vocabulary ob = Some x1 \<longleftrightarrow> ob = ObVocabulary x1"
  "as_property ob = Some x2 \<longleftrightarrow> ob = ObProperty x2"
  "as_node ob = Some x3 \<longleftrightarrow> ob = ObNode x3"
  "as_edge ob = Some x4 \<longleftrightarrow> ob = ObEdge x4"
  "as_property_type ob = Some x5 \<longleftrightarrow> ob = ObPropertyType x5"
  "as_node_type ob = Some x6 \<longleftrightarrow> ob = ObNodeType x6"
  "as_edge_type ob = Some x7 \<longleftrightarrow> ob = ObEdgeType x7"
  "as_schema ob = Some x8 \<longleftrightarrow> ob = ObSchema x8"
  "as_axiom ob = Some x9 \<longleftrightarrow> ob = ObAxiom x9"
  "as_record ob = Some x10 \<longleftrightarrow> ob = ObRecord x10"
  "as_ontology ob = Some x11 \<longleftrightarrow> ob = ObOntology x11"
  "as_activity ob = Some x12 \<longleftrightarrow> ob = ObActivity x12"
  "as_entity ob = Some x13 \<longleftrightarrow> ob = ObEntity x13"
  "as_log ob = Some x14 \<longleftrightarrow> ob = ObLog x14"
  "as_node_pattern ob = Some x15 \<longleftrightarrow> ob = ObNodePattern x15"
  "as_edge_pattern ob = Some x16 \<longleftrightarrow> ob = ObEdgePattern x16"
  "as_step ob = Some x17 \<longleftrightarrow> ob = ObStep x17"
  "as_plan ob = Some x18 \<longleftrightarrow> ob = ObPlan x18"
  "as_row ob = Some x19 \<longleftrightarrow> ob = ObRow x19"
  "as_delta ob = Some x20 \<longleftrightarrow> ob = ObDelta x20"
  "as_diff ob = Some x21 \<longleftrightarrow> ob = ObDiff x21"
  "as_store ob = Some x22 \<longleftrightarrow> ob = ObStore x22"
  "as_report ob = Some x23 \<longleftrightarrow> ob = ObReport x23"
  "as_finding ob = Some x24 \<longleftrightarrow> ob = ObFinding x24"
  "as_versions ob = Some x25 \<longleftrightarrow> ob = ObVersions x25"
  "as_vector_record ob = Some x26 \<longleftrightarrow> ob = ObVectorRecord x26"
  "as_vector_index ob = Some x27 \<longleftrightarrow> ob = ObVectorIndex x27"
  "as_prompt ob = Some x28 \<longleftrightarrow> ob = ObPrompt x28"
  by (cases ob; auto)+

interpretation namespace_class: py_class ObNamespace as_namespace
  by unfold_locales (rule as_iff)

interpretation vocabulary_class: py_class ObVocabulary as_vocabulary
  by unfold_locales (rule as_iff)

interpretation property_class: py_class ObProperty as_property
  by unfold_locales (rule as_iff)

interpretation node_class: py_class ObNode as_node
  by unfold_locales (rule as_iff)

interpretation edge_class: py_class ObEdge as_edge
  by unfold_locales (rule as_iff)

interpretation property_type_class: py_class ObPropertyType as_property_type
  by unfold_locales (rule as_iff)

interpretation node_type_class: py_class ObNodeType as_node_type
  by unfold_locales (rule as_iff)

interpretation edge_type_class: py_class ObEdgeType as_edge_type
  by unfold_locales (rule as_iff)

interpretation schema_class: py_class ObSchema as_schema
  by unfold_locales (rule as_iff)

interpretation axiom_class: py_class ObAxiom as_axiom
  by unfold_locales (rule as_iff)

interpretation record_class: py_class ObRecord as_record
  by unfold_locales (rule as_iff)

interpretation ontology_class: py_class ObOntology as_ontology
  by unfold_locales (rule as_iff)

interpretation activity_class: py_class ObActivity as_activity
  by unfold_locales (rule as_iff)

interpretation entity_class: py_class ObEntity as_entity
  by unfold_locales (rule as_iff)

interpretation log_class: py_class ObLog as_log
  by unfold_locales (rule as_iff)

interpretation node_pattern_class: py_class ObNodePattern as_node_pattern
  by unfold_locales (rule as_iff)

interpretation edge_pattern_class: py_class ObEdgePattern as_edge_pattern
  by unfold_locales (rule as_iff)

interpretation step_class: py_class ObStep as_step
  by unfold_locales (rule as_iff)

interpretation plan_class: py_class ObPlan as_plan
  by unfold_locales (rule as_iff)

interpretation row_class: py_class ObRow as_row
  by unfold_locales (rule as_iff)

interpretation delta_class: py_class ObDelta as_delta
  by unfold_locales (rule as_iff)

interpretation diff_class: py_class ObDiff as_diff
  by unfold_locales (rule as_iff)

interpretation store_class: py_class ObStore as_store
  by unfold_locales (rule as_iff)

interpretation report_class: py_class ObReport as_report
  by unfold_locales (rule as_iff)

interpretation finding_class: py_class ObFinding as_finding
  by unfold_locales (rule as_iff)

interpretation versions_class: py_class ObVersions as_versions
  by unfold_locales (rule as_iff)

interpretation vector_record_class: py_class ObVectorRecord as_vector_record
  by unfold_locales (rule as_iff)

interpretation vector_index_class: py_class ObVectorIndex as_vector_index
  by unfold_locales (rule as_iff)

interpretation prompt_class: py_class ObPrompt as_prompt
  by unfold_locales (rule as_iff)

lemmas disciplined_read = namespace_class.disciplined_read_bind
  vocabulary_class.disciplined_read_bind
  property_class.disciplined_read_bind
  node_class.disciplined_read_bind
  edge_class.disciplined_read_bind
  property_type_class.disciplined_read_bind
  node_type_class.disciplined_read_bind
  edge_type_class.disciplined_read_bind
  schema_class.disciplined_read_bind
  axiom_class.disciplined_read_bind
  record_class.disciplined_read_bind
  ontology_class.disciplined_read_bind
  activity_class.disciplined_read_bind
  entity_class.disciplined_read_bind
  log_class.disciplined_read_bind
  node_pattern_class.disciplined_read_bind
  edge_pattern_class.disciplined_read_bind
  step_class.disciplined_read_bind
  plan_class.disciplined_read_bind
  row_class.disciplined_read_bind
  delta_class.disciplined_read_bind
  diff_class.disciplined_read_bind
  store_class.disciplined_read_bind
  report_class.disciplined_read_bind
  finding_class.disciplined_read_bind
  versions_class.disciplined_read_bind
  vector_record_class.disciplined_read_bind
  vector_index_class.disciplined_read_bind
  prompt_class.disciplined_read_bind

lemmas disciplined_modify = namespace_class.disciplined_modify
  vocabulary_class.disciplined_modify
  property_class.disciplined_modify
  node_class.disciplined_modify
  edge_class.disciplined_modify
  property_type_class.disciplined_modify
  node_type_class.disciplined_modify
  edge_type_class.disciplined_modify
  schema_class.disciplined_modify
  axiom_class.disciplined_modify
  record_class.disciplined_modify
  ontology_class.disciplined_modify
  activity_class.disciplined_modify
  entity_class.disciplined_modify
  log_class.disciplined_modify
  node_pattern_class.disciplined_modify
  edge_pattern_class.disciplined_modify
  step_class.disciplined_modify
  plan_class.disciplined_modify
  row_class.disciplined_modify
  delta_class.disciplined_modify
  diff_class.disciplined_modify
  store_class.disciplined_modify
  report_class.disciplined_modify
  finding_class.disciplined_modify
  versions_class.disciplined_modify
  vector_record_class.disciplined_modify
  vector_index_class.disciplined_modify
  prompt_class.disciplined_modify

lemmas disciplined_reads = namespace_class.disciplined_reads_bind
  vocabulary_class.disciplined_reads_bind
  property_class.disciplined_reads_bind
  node_class.disciplined_reads_bind
  edge_class.disciplined_reads_bind
  property_type_class.disciplined_reads_bind
  node_type_class.disciplined_reads_bind
  edge_type_class.disciplined_reads_bind
  schema_class.disciplined_reads_bind
  axiom_class.disciplined_reads_bind
  record_class.disciplined_reads_bind
  ontology_class.disciplined_reads_bind
  activity_class.disciplined_reads_bind
  entity_class.disciplined_reads_bind
  log_class.disciplined_reads_bind
  node_pattern_class.disciplined_reads_bind
  edge_pattern_class.disciplined_reads_bind
  step_class.disciplined_reads_bind
  plan_class.disciplined_reads_bind
  row_class.disciplined_reads_bind
  delta_class.disciplined_reads_bind
  diff_class.disciplined_reads_bind
  store_class.disciplined_reads_bind
  report_class.disciplined_reads_bind
  finding_class.disciplined_reads_bind
  versions_class.disciplined_reads_bind
  vector_record_class.disciplined_reads_bind
  vector_index_class.disciplined_reads_bind
  prompt_class.disciplined_reads_bind

lemmas disciplined_intros = disciplined_read disciplined_modify disciplined_reads disciplined_lift_bind disciplined_ret_bind
  disciplined_then_ret disciplined_new disciplined_news disciplined_new_opt disciplined_write disciplined_ret disciplined_lift

end
