(* ===== verification/Py_Core.thy ===== *)
theory Py_Core
  imports Py_Heap
begin

text \<open>
  \<open>crates/atomr-ontology-py/src/core.rs\<close>: the methods of the Python classes over the core types, on the heap of
  \<open>Py_Heap\<close>. A method is named \<open>py_<class>_<method>\<close>; its receiver is the address that comes last. \<open>H\<close> is the hash,
  \<open>uuid\<close> a fresh UUID. The programs that these methods make up are in \<open>Py_Program\<close>.
\<close>

section \<open>Reading\<close>

definition py_get :: "(py_obj \<Rightarrow> 'a option) \<Rightarrow> ('a \<Rightarrow> 'b) \<Rightarrow> nat \<Rightarrow> 'b py" where
  [code_defs]: "py_get sel f a = py_bind (py_read sel a) (\<lambda>x. py_ret (f x))"

definition py_get_result :: "(py_obj \<Rightarrow> 'a option) \<Rightarrow> ('a \<Rightarrow> py_error + 'b) \<Rightarrow> nat \<Rightarrow> 'b py" where
  [code_defs]: "py_get_result sel f a = py_bind (py_read sel a) (\<lambda>x. py_lift (f x))"

text \<open>Getters that return objects return new ones.\<close>

definition py_get_new :: "(py_obj \<Rightarrow> 'a option) \<Rightarrow> ('a \<Rightarrow> py_obj) \<Rightarrow> nat \<Rightarrow> nat py" where
  [code_defs]: "py_get_new sel f a = py_bind (py_read sel a) (\<lambda>x. py_new (f x))"

definition py_get_opt :: "(py_obj \<Rightarrow> 'a option) \<Rightarrow> ('a \<Rightarrow> py_obj option) \<Rightarrow> nat \<Rightarrow> nat option py" where
  [code_defs]: "py_get_opt sel f a = py_bind (py_read sel a) (\<lambda>x. py_new_opt (f x))"

definition py_get_list :: "(py_obj \<Rightarrow> 'a option) \<Rightarrow> ('a \<Rightarrow> py_obj list) \<Rightarrow> nat \<Rightarrow> nat list py" where
  [code_defs]: "py_get_list sel f a = py_bind (py_read sel a) (\<lambda>x. py_news (f x))"

text \<open>A builder that takes a property value converts it before the receiver changes.\<close>

definition py_with_value ::
    "(py_obj \<Rightarrow> 'a option) \<Rightarrow> ('a \<Rightarrow> py_obj) \<Rightarrow> (string \<Rightarrow> property_value \<Rightarrow> 'a \<Rightarrow> 'a) \<Rightarrow> string \<Rightarrow> py_value \<Rightarrow> nat \<Rightarrow> nat py" where
  [code_defs]: "py_with_value sel con f name v a =
     py_bind (py_read sel a) (\<lambda>x. py_bind (py_lift (py_to_property_value v)) (\<lambda>pv. py_write a (con (f name pv x))))"

definition with_props :: "(string \<Rightarrow> property_value \<Rightarrow> 'a \<Rightarrow> 'a) \<Rightarrow> props \<Rightarrow> 'a \<Rightarrow> 'a" where
  [code_defs]: "with_props f m x = fold (\<lambda>e. f (fst e) (snd e)) m x"

section \<open>Namespaces and vocabularies\<close>

definition py_namespace_new :: "string \<Rightarrow> iri \<Rightarrow> nat py" where
  [code_defs]: "py_namespace_new prefix base = py_new (ObNamespace \<lparr>ns_prefix = prefix, ns_base = base\<rparr>)"

definition py_namespace_prefix :: "nat \<Rightarrow> string py" where
  [code_defs]: "py_namespace_prefix a = py_get as_namespace ns_prefix a"

definition py_namespace_base :: "nat \<Rightarrow> iri py" where
  [code_defs]: "py_namespace_base a = py_get as_namespace ns_base a"

definition py_namespace_expand :: "string \<Rightarrow> nat \<Rightarrow> iri py" where
  [code_defs]: "py_namespace_expand local_name a = py_get as_namespace (\<lambda>n. ns_expand n local_name) a"

definition py_vocabulary_new :: "nat py" where
  [code_defs]: "py_vocabulary_new = py_new (ObVocabulary [])"

definition py_vocabulary_standard :: "nat py" where
  [code_defs]: "py_vocabulary_standard = py_new (ObVocabulary with_standard_bindings)"

definition py_vocabulary_bind :: "string \<Rightarrow> iri \<Rightarrow> nat \<Rightarrow> nat py" where
  [code_defs]: "py_vocabulary_bind prefix base a = py_modify as_vocabulary ObVocabulary (vocab_bind prefix base) a"

definition py_vocabulary_base :: "string \<Rightarrow> nat \<Rightarrow> iri option py" where
  [code_defs]: "py_vocabulary_base prefix a = py_get as_vocabulary (\<lambda>v. vocab_base v prefix) a"

definition py_vocabulary_expand_curie :: "string \<Rightarrow> nat \<Rightarrow> iri option py" where
  [code_defs]: "py_vocabulary_expand_curie curie a = py_get as_vocabulary (\<lambda>v. expand_curie v curie) a"

definition py_vocabulary_items :: "nat \<Rightarrow> nat list py" where
  [code_defs]: "py_vocabulary_items a = py_get_list as_vocabulary (\<lambda>v. map ObNamespace (vocab_iter v)) a"

section \<open>Properties, nodes, edges\<close>

definition py_property_new :: "string \<Rightarrow> py_value \<Rightarrow> nat py" where
  [code_defs]: "py_property_new name v = py_bind (py_lift (py_to_property_value v)) (\<lambda>pv. py_new (ObProperty (name, pv)))"

definition py_property_name :: "nat \<Rightarrow> string py" where
  [code_defs]: "py_property_name a = py_get as_property fst a"

definition py_property_value :: "nat \<Rightarrow> property_value py" where
  [code_defs]: "py_property_value a = py_get as_property snd a"

definition py_node_new ::
    "hasher \<Rightarrow> bytes \<Rightarrow> string \<Rightarrow> iri option \<Rightarrow> (py_value \<times> py_value) list option \<Rightarrow> nat py" where
  [code_defs]: "py_node_new H uuid ty i d =
     (let n = (case i of Some j \<Rightarrow> node_from_iri H j ty | None \<Rightarrow> node_new H uuid ty)
      in py_bind (py_lift (property_map_from_py d)) (\<lambda>m. py_new (ObNode (with_props node_with_property m n))))"

definition py_node_from_iri :: "hasher \<Rightarrow> iri \<Rightarrow> string \<Rightarrow> nat py" where
  [code_defs]: "py_node_from_iri H i ty = py_new (ObNode (node_from_iri H i ty))"

definition py_node_with_label :: "string \<Rightarrow> nat \<Rightarrow> nat py" where
  [code_defs]: "py_node_with_label ty a = py_modify as_node ObNode (node_with_label ty) a"

definition py_node_with_iri :: "iri \<Rightarrow> nat \<Rightarrow> nat py" where
  [code_defs]: "py_node_with_iri i a = py_modify as_node ObNode (node_with_iri i) a"

definition py_node_with_property :: "string \<Rightarrow> py_value \<Rightarrow> nat \<Rightarrow> nat py" where
  [code_defs]: "py_node_with_property name v a = py_with_value as_node ObNode node_with_property name v a"

definition py_node_property :: "string \<Rightarrow> nat \<Rightarrow> property_value option py" where
  [code_defs]: "py_node_property name a = py_get as_node (\<lambda>n. node_property n name) a"

definition py_node_has_type :: "string \<Rightarrow> nat \<Rightarrow> bool py" where
  [code_defs]: "py_node_has_type ty a = py_get as_node (\<lambda>n. has_type n ty) a"

definition py_node_id :: "nat \<Rightarrow> node_id py" where
  [code_defs]: "py_node_id a = py_get as_node n_id a"

definition py_node_iri :: "nat \<Rightarrow> (iri option) py" where
  [code_defs]: "py_node_iri a = py_get as_node n_iri a"

definition py_node_types :: "nat \<Rightarrow> (string list) py" where
  [code_defs]: "py_node_types a = py_get as_node n_types a"

definition py_node_properties :: "py_env \<Rightarrow> nat \<Rightarrow> (py_value \<times> py_value) list py" where
  [code_defs]: "py_node_properties E a = py_get_result as_node (\<lambda>n. property_map_to_py E (n_props n)) a"

definition py_edge_new ::
    "hasher \<Rightarrow> node_id \<Rightarrow> string \<Rightarrow> node_id \<Rightarrow> (py_value \<times> py_value) list option \<Rightarrow> nat py" where
  [code_defs]: "py_edge_new H s l t d =
     py_bind (py_lift (property_map_from_py d)) (\<lambda>m. py_new (ObEdge (with_props edge_with_property m (edge_between H s l t))))"

definition py_edge_between :: "hasher \<Rightarrow> node_id \<Rightarrow> string \<Rightarrow> node_id \<Rightarrow> nat py" where
  [code_defs]: "py_edge_between H s l t = py_new (ObEdge (edge_between H s l t))"

definition py_edge_with_property :: "string \<Rightarrow> py_value \<Rightarrow> nat \<Rightarrow> nat py" where
  [code_defs]: "py_edge_with_property name v a = py_with_value as_edge ObEdge edge_with_property name v a"

definition py_edge_property :: "string \<Rightarrow> nat \<Rightarrow> property_value option py" where
  [code_defs]: "py_edge_property name a = py_get as_edge (\<lambda>e. edge_property e name) a"

definition py_edge_id :: "nat \<Rightarrow> edge_id py" where
  [code_defs]: "py_edge_id a = py_get as_edge e_id a"

definition py_edge_label :: "nat \<Rightarrow> string py" where
  [code_defs]: "py_edge_label a = py_get as_edge e_label a"

definition py_edge_source :: "nat \<Rightarrow> node_id py" where
  [code_defs]: "py_edge_source a = py_get as_edge e_source a"

definition py_edge_target :: "nat \<Rightarrow> node_id py" where
  [code_defs]: "py_edge_target a = py_get as_edge e_target a"

definition py_edge_properties :: "py_env \<Rightarrow> nat \<Rightarrow> (py_value \<times> py_value) list py" where
  [code_defs]: "py_edge_properties E a = py_get_result as_edge (\<lambda>e. property_map_to_py E (e_props e)) a"

section \<open>Types and schemas\<close>

definition py_property_type_new :: "string \<Rightarrow> datatype_tag \<Rightarrow> cardinality \<Rightarrow> iri option \<Rightarrow> string option \<Rightarrow> nat py" where
  [code_defs]: "py_property_type_new name d c i desc =
     py_new (ObPropertyType \<lparr>pt_name = name, pt_datatype = d, pt_card = c, pt_iri = i, pt_desc = desc\<rparr>)"

definition py_property_type_required_string :: "string \<Rightarrow> nat py" where
  [code_defs]: "py_property_type_required_string name = py_new (ObPropertyType (pt_required_string name))"

definition py_property_type_optional :: "string \<Rightarrow> datatype_tag \<Rightarrow> nat py" where
  [code_defs]: "py_property_type_optional name d = py_new (ObPropertyType (pt_optional name d))"

definition py_property_type_with_iri :: "iri \<Rightarrow> nat \<Rightarrow> nat py" where
  [code_defs]: "py_property_type_with_iri i a = py_modify as_property_type ObPropertyType (pt_with_iri i) a"

definition py_property_type_with_description :: "string \<Rightarrow> nat \<Rightarrow> nat py" where
  [code_defs]: "py_property_type_with_description desc a = py_modify as_property_type ObPropertyType (pt_with_description desc) a"

definition py_property_type_name :: "nat \<Rightarrow> string py" where
  [code_defs]: "py_property_type_name a = py_get as_property_type pt_name a"

definition py_property_type_datatype :: "nat \<Rightarrow> datatype_tag py" where
  [code_defs]: "py_property_type_datatype a = py_get as_property_type pt_datatype a"

definition py_property_type_cardinality :: "nat \<Rightarrow> cardinality py" where
  [code_defs]: "py_property_type_cardinality a = py_get as_property_type pt_card a"

definition py_property_type_iri :: "nat \<Rightarrow> (iri option) py" where
  [code_defs]: "py_property_type_iri a = py_get as_property_type pt_iri a"

definition py_property_type_description :: "nat \<Rightarrow> (string option) py" where
  [code_defs]: "py_property_type_description a = py_get as_property_type pt_desc a"

definition py_node_type_new :: "string \<Rightarrow> nat py" where
  [code_defs]: "py_node_type_new name = py_new (ObNodeType (nt_new name))"

definition py_node_type_with_supertype :: "string \<Rightarrow> nat \<Rightarrow> nat py" where
  [code_defs]: "py_node_type_with_supertype super a = py_modify as_node_type ObNodeType (nt_with_supertype super) a"

definition py_node_type_with_property :: "nat \<Rightarrow> nat \<Rightarrow> nat py" where
  [code_defs]: "py_node_type_with_property p a =
     py_bind (py_read as_property_type p) (\<lambda>pt. py_modify as_node_type ObNodeType (nt_with_property pt) a)"

definition py_node_type_with_iri :: "iri \<Rightarrow> nat \<Rightarrow> nat py" where
  [code_defs]: "py_node_type_with_iri i a = py_modify as_node_type ObNodeType (nt_with_iri i) a"

definition py_node_type_with_description :: "string \<Rightarrow> nat \<Rightarrow> nat py" where
  [code_defs]: "py_node_type_with_description desc a = py_modify as_node_type ObNodeType (nt_with_description desc) a"

definition py_node_type_name :: "nat \<Rightarrow> string py" where
  [code_defs]: "py_node_type_name a = py_get as_node_type nt_name a"

definition py_node_type_iri :: "nat \<Rightarrow> (iri option) py" where
  [code_defs]: "py_node_type_iri a = py_get as_node_type nt_iri a"

definition py_node_type_supertypes :: "nat \<Rightarrow> (string list) py" where
  [code_defs]: "py_node_type_supertypes a = py_get as_node_type nt_supertypes a"

definition py_node_type_description :: "nat \<Rightarrow> (string option) py" where
  [code_defs]: "py_node_type_description a = py_get as_node_type nt_desc a"

definition py_node_type_properties :: "nat \<Rightarrow> nat list py" where
  [code_defs]: "py_node_type_properties a = py_get_list as_node_type (\<lambda>t. map ObPropertyType (nt_props t)) a"

definition py_edge_type_new :: "string \<Rightarrow> nat py" where
  [code_defs]: "py_edge_type_new name = py_new (ObEdgeType (et_new name))"

definition py_edge_type_with_domain :: "string \<Rightarrow> nat \<Rightarrow> nat py" where
  [code_defs]: "py_edge_type_with_domain n a = py_modify as_edge_type ObEdgeType (et_with_domain n) a"

definition py_edge_type_with_range :: "string \<Rightarrow> nat \<Rightarrow> nat py" where
  [code_defs]: "py_edge_type_with_range n a = py_modify as_edge_type ObEdgeType (et_with_range n) a"

definition py_edge_type_with_iri :: "iri \<Rightarrow> nat \<Rightarrow> nat py" where
  [code_defs]: "py_edge_type_with_iri i a = py_modify as_edge_type ObEdgeType (et_with_iri i) a"

definition py_edge_type_with_inverse :: "string \<Rightarrow> nat \<Rightarrow> nat py" where
  [code_defs]: "py_edge_type_with_inverse l a = py_modify as_edge_type ObEdgeType (et_with_inverse l) a"

definition py_edge_type_with_description :: "string \<Rightarrow> nat \<Rightarrow> nat py" where
  [code_defs]: "py_edge_type_with_description desc a = py_modify as_edge_type ObEdgeType (et_with_description desc) a"

definition py_edge_type_functional :: "nat \<Rightarrow> nat py" where
  [code_defs]: "py_edge_type_functional a = py_modify as_edge_type ObEdgeType et_set_functional a"

definition py_edge_type_name :: "nat \<Rightarrow> string py" where
  [code_defs]: "py_edge_type_name a = py_get as_edge_type et_name a"

definition py_edge_type_iri :: "nat \<Rightarrow> (iri option) py" where
  [code_defs]: "py_edge_type_iri a = py_get as_edge_type et_iri a"

definition py_edge_type_domain :: "nat \<Rightarrow> (string list) py" where
  [code_defs]: "py_edge_type_domain a = py_get as_edge_type et_domain a"

definition py_edge_type_range :: "nat \<Rightarrow> (string list) py" where
  [code_defs]: "py_edge_type_range a = py_get as_edge_type et_range a"

definition py_edge_type_is_functional :: "nat \<Rightarrow> bool py" where
  [code_defs]: "py_edge_type_is_functional a = py_get as_edge_type et_functional a"

definition py_edge_type_inverse_of :: "nat \<Rightarrow> (string option) py" where
  [code_defs]: "py_edge_type_inverse_of a = py_get as_edge_type et_inverse_of a"

definition py_edge_type_description :: "nat \<Rightarrow> (string option) py" where
  [code_defs]: "py_edge_type_description a = py_get as_edge_type et_desc a"

definition py_edge_type_cardinality :: "nat \<Rightarrow> cardinality py" where
  [code_defs]: "py_edge_type_cardinality a = py_get as_edge_type et_card a"

definition py_edge_type_properties :: "nat \<Rightarrow> nat list py" where
  [code_defs]: "py_edge_type_properties a = py_get_list as_edge_type (\<lambda>t. map ObPropertyType (et_props t)) a"

definition py_schema_new :: "nat py" where
  [code_defs]: "py_schema_new = py_new (ObSchema schema_new)"

definition py_schema_declare_node_type :: "nat \<Rightarrow> nat \<Rightarrow> nat py" where
  [code_defs]: "py_schema_declare_node_type t a =
     py_bind (py_read as_node_type t) (\<lambda>ty. py_modify as_schema ObSchema (declare_node_type ty) a)"

definition py_schema_declare_edge_type :: "nat \<Rightarrow> nat \<Rightarrow> nat py" where
  [code_defs]: "py_schema_declare_edge_type t a =
     py_bind (py_read as_edge_type t) (\<lambda>ty. py_modify as_schema ObSchema (declare_edge_type ty) a)"

definition py_schema_node_type :: "string \<Rightarrow> nat \<Rightarrow> nat option py" where
  [code_defs]: "py_schema_node_type name a = py_get_opt as_schema (\<lambda>s. map_option ObNodeType (node_type s name)) a"

definition py_schema_edge_type :: "string \<Rightarrow> nat \<Rightarrow> nat option py" where
  [code_defs]: "py_schema_edge_type name a = py_get_opt as_schema (\<lambda>s. map_option ObEdgeType (edge_type s name)) a"

definition py_schema_supertypes_of :: "string \<Rightarrow> nat \<Rightarrow> string list py" where
  [code_defs]: "py_schema_supertypes_of name a = py_get as_schema (\<lambda>s. supertypes_of s name) a"

definition py_schema_node_types :: "nat \<Rightarrow> nat list py" where
  [code_defs]: "py_schema_node_types a = py_get_list as_schema (\<lambda>s. map ObNodeType (bm_values (s_node_types s))) a"

definition py_schema_edge_types :: "nat \<Rightarrow> nat list py" where
  [code_defs]: "py_schema_edge_types a = py_get_list as_schema (\<lambda>s. map ObEdgeType (bm_values (s_edge_types s))) a"

section \<open>Axioms and records\<close>

definition axiom_tag :: "axiom_kind \<Rightarrow> string" where
  [code_defs]: "axiom_tag k =
     (case k of
        SubClassOf _ _ \<Rightarrow> ''sub_class_of'' | EquivalentClass _ _ \<Rightarrow> ''equivalent_class'' | DisjointWith _ _ \<Rightarrow> ''disjoint_with''
      | Domain _ _ \<Rightarrow> ''domain'' | Range _ _ \<Rightarrow> ''range'' | Functional _ \<Rightarrow> ''functional''
      | InverseFunctional _ \<Rightarrow> ''inverse_functional'' | InverseOf _ _ \<Rightarrow> ''inverse_of'' | Symmetric _ \<Rightarrow> ''symmetric''
      | Transitive _ \<Rightarrow> ''transitive'')"

definition operand_dict :: "(string \<times> string) list \<Rightarrow> (py_value \<times> py_value) list" where
  [code_defs]: "operand_dict kvs = map (\<lambda>(k, v). (VStr k, VStr v)) kvs"

definition axiom_operands :: "axiom_kind \<Rightarrow> (py_value \<times> py_value) list" where
  [code_defs]: "axiom_operands k =
     operand_dict (case k of
        SubClassOf a b \<Rightarrow> [(''sub'', a), (''sup'', b)]
      | EquivalentClass a b \<Rightarrow> [(''left'', a), (''right'', b)]
      | DisjointWith a b \<Rightarrow> [(''left'', a), (''right'', b)]
      | InverseOf a b \<Rightarrow> [(''left'', a), (''right'', b)]
      | Domain p c \<Rightarrow> [(''property'', p), (''class'', c)]
      | Range p c \<Rightarrow> [(''property'', p), (''class'', c)]
      | Functional p \<Rightarrow> [(''property'', p)]
      | InverseFunctional p \<Rightarrow> [(''property'', p)]
      | Symmetric p \<Rightarrow> [(''property'', p)]
      | Transitive p \<Rightarrow> [(''property'', p)])"

definition py_axiom_new :: "hasher \<Rightarrow> axiom_kind \<Rightarrow> nat py" where
  [code_defs]: "py_axiom_new H k = py_new (ObAxiom (axiom_new H k))"

definition py_axiom_with_provenance :: "prov_id \<Rightarrow> nat \<Rightarrow> nat py" where
  [code_defs]: "py_axiom_with_provenance p a = py_modify as_axiom ObAxiom (axiom_with_provenance p) a"

definition py_axiom_id :: "nat \<Rightarrow> axiom_id py" where
  [code_defs]: "py_axiom_id a = py_get as_axiom ax_id a"

definition py_axiom_kind :: "nat \<Rightarrow> axiom_kind py" where
  [code_defs]: "py_axiom_kind a = py_get as_axiom ax_kind a"

definition py_axiom_provenance :: "nat \<Rightarrow> (prov_id option) py" where
  [code_defs]: "py_axiom_provenance a = py_get as_axiom ax_prov a"

definition py_record_new :: "hasher \<Rightarrow> bytes \<Rightarrow> string \<Rightarrow> nat py" where
  [code_defs]: "py_record_new H uuid ty = py_new (ObRecord (record_new H uuid ty))"

definition py_record_with_iri :: "hasher \<Rightarrow> iri \<Rightarrow> nat \<Rightarrow> nat py" where
  [code_defs]: "py_record_with_iri H i a = py_modify as_record ObRecord (record_with_iri H i) a"

definition py_record_with_property :: "string \<Rightarrow> py_value \<Rightarrow> nat \<Rightarrow> nat py" where
  [code_defs]: "py_record_with_property name v a = py_with_value as_record ObRecord record_with_property name v a"

definition py_record_with_outbound :: "string \<Rightarrow> iri \<Rightarrow> nat \<Rightarrow> nat py" where
  [code_defs]: "py_record_with_outbound l t a = py_modify as_record ObRecord (record_with_outbound l t) a"

definition py_record_with_source :: "string \<Rightarrow> nat \<Rightarrow> nat py" where
  [code_defs]: "py_record_with_source src a = py_modify as_record ObRecord (record_with_source src) a"

definition py_record_id :: "nat \<Rightarrow> record_id py" where
  [code_defs]: "py_record_id a = py_get as_record r_id a"

definition py_record_iri :: "nat \<Rightarrow> (iri option) py" where
  [code_defs]: "py_record_iri a = py_get as_record r_iri a"

definition py_record_subject :: "nat \<Rightarrow> (node_id option) py" where
  [code_defs]: "py_record_subject a = py_get as_record r_subject a"

definition py_record_type_name :: "nat \<Rightarrow> string py" where
  [code_defs]: "py_record_type_name a = py_get as_record r_type_name a"

definition py_record_outbound :: "nat \<Rightarrow> ((string \<times> iri) list) py" where
  [code_defs]: "py_record_outbound a = py_get as_record r_outbound a"

definition py_record_source :: "nat \<Rightarrow> (string option) py" where
  [code_defs]: "py_record_source a = py_get as_record r_source a"

definition py_record_properties :: "py_env \<Rightarrow> nat \<Rightarrow> (py_value \<times> py_value) list py" where
  [code_defs]: "py_record_properties E a = py_get_result as_record (\<lambda>r. property_map_to_py E (r_props r)) a"

section \<open>Ontologies\<close>

definition py_ontology_new :: "nat py" where
  [code_defs]: "py_ontology_new = py_new (ObOntology ontology_new)"

definition py_ontology_with_iri :: "py_env \<Rightarrow> string \<Rightarrow> nat py" where
  [code_defs]: "py_ontology_with_iri E i =
     (case ontology_with_iri i of
        Inl e \<Rightarrow> py_lift (Inl (PyOntologyError (iri_error_display (pe_debug E) e)))
      | Inr q \<Rightarrow> py_new (ObOntology q))"

definition py_ontology_declare_node_type :: "string \<Rightarrow> nat \<Rightarrow> string py" where
  [code_defs]: "py_ontology_declare_node_type name a =
     py_bind (py_modify as_ontology ObOntology (ont_declare_node_type name) a) (\<lambda>_. py_ret name)"

definition py_ontology_declare_edge_type :: "string \<Rightarrow> nat \<Rightarrow> string py" where
  [code_defs]: "py_ontology_declare_edge_type name a =
     py_bind (py_modify as_ontology ObOntology (ont_declare_edge_type name) a) (\<lambda>_. py_ret name)"

definition py_ontology_upsert_node :: "nat \<Rightarrow> nat \<Rightarrow> node_id py" where
  [code_defs]: "py_ontology_upsert_node n a =
     py_bind (py_read as_node n) (\<lambda>x. py_bind (py_modify as_ontology ObOntology (upsert_node x) a) (\<lambda>_. py_ret (n_id x)))"

definition py_ontology_upsert_edge :: "nat \<Rightarrow> nat \<Rightarrow> edge_id py" where
  [code_defs]: "py_ontology_upsert_edge e a =
     py_bind (py_read as_edge e) (\<lambda>x. py_bind (py_modify as_ontology ObOntology (upsert_edge x) a) (\<lambda>_. py_ret (e_id x)))"

definition py_ontology_upsert_axiom :: "nat \<Rightarrow> nat \<Rightarrow> axiom_id py" where
  [code_defs]: "py_ontology_upsert_axiom ax a =
     py_bind (py_read as_axiom ax) (\<lambda>x. py_bind (py_modify as_ontology ObOntology (upsert_axiom x) a) (\<lambda>_. py_ret (ax_id x)))"

definition py_ontology_node :: "node_id \<Rightarrow> nat \<Rightarrow> nat option py" where
  [code_defs]: "py_ontology_node i a = py_get_opt as_ontology (\<lambda>q. map_option ObNode (ont_node q i)) a"

definition py_ontology_edge :: "edge_id \<Rightarrow> nat \<Rightarrow> nat option py" where
  [code_defs]: "py_ontology_edge i a = py_get_opt as_ontology (\<lambda>q. map_option ObEdge (ont_edge q i)) a"

definition py_ontology_node_count :: "nat \<Rightarrow> nat py" where
  [code_defs]: "py_ontology_node_count a = py_get as_ontology node_count a"

definition py_ontology_edge_count :: "nat \<Rightarrow> nat py" where
  [code_defs]: "py_ontology_edge_count a = py_get as_ontology edge_count a"

definition py_ontology_outbound :: "node_id \<Rightarrow> nat \<Rightarrow> nat list py" where
  [code_defs]: "py_ontology_outbound i a = py_get_list as_ontology (\<lambda>q. map ObEdge (outbound q i)) a"

definition py_ontology_inbound :: "node_id \<Rightarrow> nat \<Rightarrow> nat list py" where
  [code_defs]: "py_ontology_inbound i a = py_get_list as_ontology (\<lambda>q. map ObEdge (inbound q i)) a"

definition py_ontology_nodes :: "nat \<Rightarrow> nat list py" where
  [code_defs]: "py_ontology_nodes a = py_get_list as_ontology (\<lambda>q. map ObNode (bm_values (o_nodes q))) a"

definition py_ontology_edges :: "nat \<Rightarrow> nat list py" where
  [code_defs]: "py_ontology_edges a = py_get_list as_ontology (\<lambda>q. map ObEdge (bm_values (o_edges q))) a"

definition py_ontology_axioms :: "nat \<Rightarrow> nat list py" where
  [code_defs]: "py_ontology_axioms a = py_get_list as_ontology (\<lambda>q. map ObAxiom (bm_values (o_axioms q))) a"

definition py_ontology_iri :: "nat \<Rightarrow> (iri option) py" where
  [code_defs]: "py_ontology_iri a = py_get as_ontology o_iri a"

definition py_ontology_schema :: "nat \<Rightarrow> nat py" where
  [code_defs]: "py_ontology_schema a = py_get_new as_ontology (\<lambda>q. ObSchema (o_schema q)) a"

definition py_ontology_vocabulary :: "nat \<Rightarrow> nat py" where
  [code_defs]: "py_ontology_vocabulary a = py_get_new as_ontology (\<lambda>q. ObVocabulary (o_vocab q)) a"

definition py_ontology_set_vocabulary :: "nat \<Rightarrow> nat \<Rightarrow> unit py" where
  [code_defs]: "py_ontology_set_vocabulary v a =
     py_bind (py_read as_vocabulary v) (\<lambda>x. py_bind (py_modify as_ontology ObOntology (\<lambda>q. q\<lparr>o_vocab := x\<rparr>) a) (\<lambda>_. py_ret ()))"

definition py_ontology_set_schema :: "nat \<Rightarrow> nat \<Rightarrow> unit py" where
  [code_defs]: "py_ontology_set_schema sc a =
     py_bind (py_read as_schema sc) (\<lambda>x. py_bind (py_modify as_ontology ObOntology (\<lambda>q. q\<lparr>o_schema := x\<rparr>) a) (\<lambda>_. py_ret ()))"

text \<open>\<open>to_string\<close> and \<open>from_str\<close> of \<open>serde_json\<close> on whole ontologies are parameters.\<close>

definition py_ontology_to_json :: "(ontology \<Rightarrow> string + string) \<Rightarrow> nat \<Rightarrow> string py" where
  [code_defs]: "py_ontology_to_json to_text a =
     py_get_result as_ontology (\<lambda>q. case to_text q of Inl e \<Rightarrow> Inl (PyValueError e) | Inr s \<Rightarrow> Inr s) a"

definition py_ontology_from_json :: "(string \<Rightarrow> string + ontology) \<Rightarrow> string \<Rightarrow> nat py" where
  [code_defs]: "py_ontology_from_json from_text s =
     (case from_text s of Inl e \<Rightarrow> py_lift (Inl (PyValueError e)) | Inr q \<Rightarrow> py_new (ObOntology q))"

end
