(* ===== verification/Py_Program.thy ===== *)
theory Py_Program
  imports Py_Core
begin

text \<open>
  The calls of \<open>Py_Core\<close> that make or change objects, with the object that each may change, and their discipline.
\<close>

section \<open>Calls\<close>

definition py_void :: "'a py \<Rightarrow> unit py" where
  [code_defs]: "py_void m = py_bind m (\<lambda>_. py_ret ())"

inductive py_call :: "hasher \<Rightarrow> py_env \<Rightarrow> nat set \<Rightarrow> unit py \<Rightarrow> bool" for H E where
  "py_call H E {} (py_void (py_namespace_new p b))"
| "py_call H E {} (py_void (py_vocabulary_new))"
| "py_call H E {} (py_void (py_vocabulary_standard))"
| "py_call H E {a} (py_void (py_vocabulary_bind p b a))"
| "py_call H E {} (py_void (py_vocabulary_items a))"
| "py_call H E {} (py_void (py_property_new n v))"
| "py_call H E {} (py_void (py_node_new H u ty i d))"
| "py_call H E {} (py_void (py_node_from_iri H i ty))"
| "py_call H E {a} (py_void (py_node_with_label ty a))"
| "py_call H E {a} (py_void (py_node_with_iri i a))"
| "py_call H E {a} (py_void (py_node_with_property n v a))"
| "py_call H E {} (py_void (py_edge_new H x l y d))"
| "py_call H E {} (py_void (py_edge_between H x l y))"
| "py_call H E {a} (py_void (py_edge_with_property n v a))"
| "py_call H E {} (py_void (py_property_type_new n d c i ds))"
| "py_call H E {} (py_void (py_property_type_required_string n))"
| "py_call H E {} (py_void (py_property_type_optional n d))"
| "py_call H E {a} (py_void (py_property_type_with_iri i a))"
| "py_call H E {a} (py_void (py_property_type_with_description ds a))"
| "py_call H E {} (py_void (py_node_type_new n))"
| "py_call H E {a} (py_void (py_node_type_with_supertype n a))"
| "py_call H E {a} (py_void (py_node_type_with_property p a))"
| "py_call H E {a} (py_void (py_node_type_with_iri i a))"
| "py_call H E {a} (py_void (py_node_type_with_description ds a))"
| "py_call H E {} (py_void (py_node_type_properties a))"
| "py_call H E {} (py_void (py_edge_type_new n))"
| "py_call H E {a} (py_void (py_edge_type_with_domain n a))"
| "py_call H E {a} (py_void (py_edge_type_with_range n a))"
| "py_call H E {a} (py_void (py_edge_type_with_iri i a))"
| "py_call H E {a} (py_void (py_edge_type_functional a))"
| "py_call H E {a} (py_void (py_edge_type_with_inverse l a))"
| "py_call H E {a} (py_void (py_edge_type_with_description ds a))"
| "py_call H E {} (py_void (py_edge_type_properties a))"
| "py_call H E {} (py_void (py_schema_new))"
| "py_call H E {a} (py_void (py_schema_declare_node_type t a))"
| "py_call H E {a} (py_void (py_schema_declare_edge_type t a))"
| "py_call H E {} (py_void (py_schema_node_type n a))"
| "py_call H E {} (py_void (py_schema_edge_type n a))"
| "py_call H E {} (py_void (py_schema_node_types a))"
| "py_call H E {} (py_void (py_schema_edge_types a))"
| "py_call H E {} (py_void (py_axiom_new H k))"
| "py_call H E {a} (py_void (py_axiom_with_provenance p a))"
| "py_call H E {} (py_void (py_record_new H u ty))"
| "py_call H E {a} (py_void (py_record_with_iri H i a))"
| "py_call H E {a} (py_void (py_record_with_property n v a))"
| "py_call H E {a} (py_void (py_record_with_outbound l i a))"
| "py_call H E {a} (py_void (py_record_with_source x a))"
| "py_call H E {} (py_void (py_ontology_new))"
| "py_call H E {} (py_void (py_ontology_with_iri E i))"
| "py_call H E {a} (py_void (py_ontology_declare_node_type n a))"
| "py_call H E {a} (py_void (py_ontology_declare_edge_type n a))"
| "py_call H E {a} (py_void (py_ontology_upsert_node x a))"
| "py_call H E {a} (py_void (py_ontology_upsert_edge x a))"
| "py_call H E {a} (py_void (py_ontology_upsert_axiom x a))"
| "py_call H E {} (py_void (py_ontology_node i a))"
| "py_call H E {} (py_void (py_ontology_edge i a))"
| "py_call H E {} (py_void (py_ontology_outbound i a))"
| "py_call H E {} (py_void (py_ontology_inbound i a))"
| "py_call H E {} (py_void (py_ontology_nodes a))"
| "py_call H E {} (py_void (py_ontology_edges a))"
| "py_call H E {} (py_void (py_ontology_axioms a))"
| "py_call H E {} (py_void (py_ontology_schema a))"
| "py_call H E {} (py_void (py_ontology_vocabulary a))"
| "py_call H E {a} (py_void (py_ontology_set_vocabulary x a))"
| "py_call H E {a} (py_void (py_ontology_set_schema x a))"

section \<open>Every call is disciplined\<close>

lemma obj_wf_builders [simp]:
  "bm_wf (n_props n) \<Longrightarrow> bm_wf (n_props (node_with_property k v n))"
  "bm_wf (e_props e) \<Longrightarrow> bm_wf (e_props (edge_with_property k v e))"
  "bm_wf (r_props r) \<Longrightarrow> bm_wf (r_props (record_with_property k v r))"
  "n_props (node_with_label ty n) = n_props n" "n_props (node_with_iri i n) = n_props n"
  "n_props (node_new H u ty) = []" "n_props (node_from_iri H i ty) = []"
  "r_props (record_new H u ty) = []" "r_props (record_with_iri H i r) = r_props r"
  "r_props (record_with_outbound l i r) = r_props r" "r_props (record_with_source x r) = r_props r"
  "bm_wf m \<Longrightarrow> bm_wf (vocab_bind p b m)"
  by (simp_all add: node_with_property_def edge_with_property_def record_with_property_def node_with_label_def node_with_iri_def
      node_new_def node_from_iri_def record_new_def record_with_iri_def record_with_outbound_def record_with_source_def vocab_bind_def)

lemma obj_wf_with_props [simp]:
  "bm_wf (n_props n) \<Longrightarrow> bm_wf (n_props (with_props node_with_property m n))"
  "bm_wf (e_props e) \<Longrightarrow> bm_wf (e_props (with_props edge_with_property m e))"
  by (induction m arbitrary: n e) (simp_all add: with_props_def)

lemmas py_methods =
  py_namespace_new_def py_vocabulary_new_def py_vocabulary_standard_def py_vocabulary_bind_def
  py_vocabulary_items_def py_property_new_def py_node_new_def py_node_from_iri_def py_node_with_label_def
  py_node_with_iri_def py_node_with_property_def py_edge_new_def py_edge_between_def py_edge_with_property_def
  py_property_type_new_def py_property_type_required_string_def py_property_type_optional_def
  py_property_type_with_iri_def py_property_type_with_description_def py_node_type_new_def
  py_node_type_with_supertype_def py_node_type_with_property_def py_node_type_with_iri_def
  py_node_type_with_description_def py_node_type_properties_def py_edge_type_new_def
  py_edge_type_with_domain_def py_edge_type_with_range_def py_edge_type_with_iri_def py_edge_type_functional_def
  py_edge_type_with_inverse_def py_edge_type_with_description_def py_edge_type_properties_def py_schema_new_def
  py_schema_declare_node_type_def py_schema_declare_edge_type_def py_schema_node_type_def
  py_schema_edge_type_def py_schema_node_types_def py_schema_edge_types_def py_axiom_new_def
  py_axiom_with_provenance_def py_record_new_def py_record_with_iri_def py_record_with_property_def
  py_record_with_outbound_def py_record_with_source_def py_ontology_new_def py_ontology_with_iri_def
  py_ontology_declare_node_type_def py_ontology_declare_edge_type_def py_ontology_upsert_node_def
  py_ontology_upsert_edge_def py_ontology_upsert_axiom_def py_ontology_node_def py_ontology_edge_def
  py_ontology_outbound_def py_ontology_inbound_def py_ontology_nodes_def py_ontology_edges_def
  py_ontology_axioms_def py_ontology_schema_def py_ontology_vocabulary_def py_ontology_set_vocabulary_def
  py_ontology_set_schema_def

lemma disciplined_void: "disciplined R m \<Longrightarrow> disciplined R (py_void m)"
  unfolding py_void_def by (rule disciplined_then_ret)

lemma ontology_with_iri_wf: "ontology_with_iri i = Inr q \<Longrightarrow> deep_wf q"
  by (auto simp: ontology_with_iri_def split: sum.splits)

lemma py_call_disciplined: "py_call H E R m \<Longrightarrow> disciplined R m"
  by (induction rule: py_call.induct; rule disciplined_void;
      unfold py_methods py_get_list_def py_get_opt_def py_get_new_def py_with_value_def Let_def;
      (intro disciplined_intros)?; auto simp: with_standard_bindings_wf intro!: disciplined_new intro: deep_wfD ontology_with_iri_wf
        schema_wf_new schema_wf_declare_node_type schema_wf_declare_edge_type split: sum.split option.split)

end
