(* ===== verification/Mem_Locks.thy ===== *)
theory Mem_Locks
  imports Store_Ops
begin

text \<open>
  The lock of \<open>MemStore\<close> (\<open>crates/atomr-ontology-store/src/mem.rs\<close>): every method of the trait as the statements it
  performs, with the acquisition and the release of its guard among them, and threads that interleave these
  statements. The \<open>parking_lot::RwLock\<close> is not part of the repository: when it lets a thread in is the parameter
  \<open>grants\<close>, whose documented behaviour is stated as hypotheses.
\<close>

section \<open>The calls of the trait\<close>

datatype store_call =
    CallUpsertNode node
  | CallUpsertEdge edge
  | CallUpsertAxiom axiom_rec
  | CallNode node_id
  | CallEdge edge_id
  | CallMatch node_pattern
  | CallTraverse traversal_plan
  | CallSnapshot
  | CallDiff ontology
  | CallCommit delta activity
  | CallProvenance

datatype mem_answer =
    MaNodeId node_id
  | MaEdgeId edge_id
  | MaUnit
  | MaNode "node option"
  | MaEdge "edge option"
  | MaRows "match_row list"
  | MaOntology ontology
  | MaDiff store_diff
  | MaProv prov_id
  | MaLog prov_log

text \<open>What a call answers and does when nothing else runs.\<close>

fun call_effect :: "store_call \<Rightarrow> mem_state \<Rightarrow> mem_answer \<times> mem_state" where
  "call_effect (CallUpsertNode n) m = map_prod MaNodeId id (mem_upsert_node n m)"
| "call_effect (CallUpsertEdge e) m = map_prod MaEdgeId id (mem_upsert_edge e m)"
| "call_effect (CallUpsertAxiom x) m = (MaUnit, mem_upsert_axiom x m)"
| "call_effect (CallNode i) m = (MaNode (mem_node m i), m)"
| "call_effect (CallEdge i) m = (MaEdge (mem_edge m i), m)"
| "call_effect (CallMatch p) m = (MaRows (match_pattern m p), m)"
| "call_effect (CallTraverse p) m = (MaRows (traverse m p), m)"
| "call_effect CallSnapshot m = (MaOntology (mem_snapshot m), m)"
| "call_effect (CallDiff q) m = (MaDiff (ont_diff (ms_ont m) q), m)"
| "call_effect (CallCommit d a) m = map_prod MaProv id (mem_commit d a m)"
| "call_effect CallProvenance m = (MaLog (mem_provenance m), m)"

section \<open>The statements of a call\<close>

datatype lock_guard = ReadGuard | WriteGuard

datatype mem_instr =
    AcquireLock lock_guard
  | ReleaseLock
  | ReturnAnswer
  | UpsertNode node
  | UpsertEdge edge
  | UpsertAxiom axiom_rec
  | RecordActivity activity
  | FetchNode node_id
  | FetchEdge edge_id
  | SeedRows node_pattern
  | SortRows
  | FollowStep traversal_step
  | OrderRows traversal_plan
  | CloneOntology
  | DiffNodes ontology
  | DiffEdges ontology
  | BuildDiff
  | CloneProvenance
  | Answer mem_answer

text \<open>The local variables of a call.\<close>

record op_local =
  lo_rows :: "(match_row \<times> node_id) list"
  lo_diff :: store_diff
  lo_answer :: mem_answer

definition local_new :: op_local where
  [code_defs]: "local_new =
     \<lparr>lo_rows = [], lo_diff = \<lparr>sd_added_nodes = [], sd_removed_nodes = [], sd_added_edges = [], sd_removed_edges = []\<rparr>,
      lo_answer = MaUnit\<rparr>"

fun exec_instr :: "mem_instr \<Rightarrow> mem_state \<times> op_local \<Rightarrow> mem_state \<times> op_local" where
  "exec_instr (UpsertNode n) (m, l) = (m\<lparr>ms_ont := upsert_node n (ms_ont m)\<rparr>, l)"
| "exec_instr (UpsertEdge e) (m, l) = (m\<lparr>ms_ont := upsert_edge e (ms_ont m)\<rparr>, l)"
| "exec_instr (UpsertAxiom x) (m, l) = (m\<lparr>ms_ont := upsert_axiom x (ms_ont m)\<rparr>, l)"
| "exec_instr (RecordActivity a) (m, l) = (m\<lparr>ms_prov := record_activity a (ms_prov m)\<rparr>, l)"
| "exec_instr (FetchNode i) (m, l) = (m, l\<lparr>lo_answer := MaNode (ont_node (ms_ont m) i)\<rparr>)"
| "exec_instr (FetchEdge i) (m, l) = (m, l\<lparr>lo_answer := MaEdge (ont_edge (ms_ont m) i)\<rparr>)"
| "exec_instr (SeedRows p) (m, l) = (m, l\<lparr>lo_rows := seed_rows (ms_ont m) p\<rparr>)"
| "exec_instr SortRows (m, l) =
     (m, l\<lparr>lo_answer := MaRows (sort_cmp (\<lambda>a b. cmp_of (first_bound a) (first_bound b)) (map fst (lo_rows l)))\<rparr>)"
| "exec_instr (FollowStep st) (m, l) = (m, l\<lparr>lo_rows := run_step (ms_ont m) st (lo_rows l)\<rparr>)"
| "exec_instr (OrderRows p) (m, l) = (m, l\<lparr>lo_answer := MaRows (apply_ordering_and_projection p (map fst (lo_rows l)))\<rparr>)"
| "exec_instr CloneOntology (m, l) = (m, l\<lparr>lo_answer := MaOntology (ms_ont m)\<rparr>)"
| "exec_instr (DiffNodes q) (m, l) =
     (m, l\<lparr>lo_diff := (lo_diff l)\<lparr>sd_added_nodes := key_difference (o_nodes (ms_ont m)) (o_nodes q),
         sd_removed_nodes := key_difference (o_nodes q) (o_nodes (ms_ont m))\<rparr>\<rparr>)"
| "exec_instr (DiffEdges q) (m, l) =
     (m, l\<lparr>lo_diff := (lo_diff l)\<lparr>sd_added_edges := key_difference (o_edges (ms_ont m)) (o_edges q),
         sd_removed_edges := key_difference (o_edges q) (o_edges (ms_ont m))\<rparr>\<rparr>)"
| "exec_instr BuildDiff (m, l) = (m, l\<lparr>lo_answer := MaDiff (lo_diff l)\<rparr>)"
| "exec_instr CloneProvenance (m, l) = (m, l\<lparr>lo_answer := MaLog (ms_prov m)\<rparr>)"
| "exec_instr (Answer a) (m, l) = (m, l\<lparr>lo_answer := a\<rparr>)"
| "exec_instr _ (m, l) = (m, l)"

text \<open>\<open>with_mut\<close> and \<open>commit_with_provenance\<close> hold the write guard, the other methods the read guard, up to the end
  of the method.\<close>

fun call_code :: "store_call \<Rightarrow> mem_instr list" where
  "call_code (CallUpsertNode n) =
     [AcquireLock WriteGuard, UpsertNode n, Answer (MaNodeId (n_id n)), ReleaseLock, ReturnAnswer]"
| "call_code (CallUpsertEdge e) =
     [AcquireLock WriteGuard, UpsertEdge e, Answer (MaEdgeId (e_id e)), ReleaseLock, ReturnAnswer]"
| "call_code (CallUpsertAxiom x) = [AcquireLock WriteGuard, UpsertAxiom x, Answer MaUnit, ReleaseLock, ReturnAnswer]"
| "call_code (CallNode i) = [AcquireLock ReadGuard, FetchNode i, ReleaseLock, ReturnAnswer]"
| "call_code (CallEdge i) = [AcquireLock ReadGuard, FetchEdge i, ReleaseLock, ReturnAnswer]"
| "call_code (CallMatch p) = [AcquireLock ReadGuard, SeedRows p, SortRows, ReleaseLock, ReturnAnswer]"
| "call_code (CallTraverse p) =
     [AcquireLock ReadGuard, SeedRows (tp_seed p)] @ map FollowStep (tp_steps p) @ [OrderRows p, ReleaseLock, ReturnAnswer]"
| "call_code CallSnapshot = [AcquireLock ReadGuard, CloneOntology, ReleaseLock, ReturnAnswer]"
| "call_code (CallDiff q) = [AcquireLock ReadGuard, DiffNodes q, DiffEdges q, BuildDiff, ReleaseLock, ReturnAnswer]"
| "call_code (CallCommit d a) =
     [AcquireLock WriteGuard] @ map UpsertNode (d_nodes d) @ map UpsertEdge (d_edges d) @
     map (\<lambda>x. UpsertAxiom (stamp_axiom (act_id a) x)) (d_axioms d) @
     [RecordActivity a, Answer (MaProv (act_id a)), ReleaseLock, ReturnAnswer]"
| "call_code CallProvenance = [AcquireLock ReadGuard, CloneProvenance, ReleaseLock, ReturnAnswer]"

section \<open>Threads\<close>

datatype mem_event = Invoked store_call | Effective store_call mem_answer | Returned mem_answer

text \<open>A thread works off a list of calls: the statements of the current one that are left, its local variables and
  the guard it holds.\<close>

record mem_thread =
  mt_todo :: "store_call list"
  mt_code :: "mem_instr list"
  mt_local :: op_local
  mt_guard :: "lock_guard option"

record mem_sys =
  my_state :: mem_state
  my_threads :: "mem_thread list"
  my_trace :: "(nat \<times> mem_event) list"

definition thread_new :: "store_call list \<Rightarrow> mem_thread" where
  [code_defs]: "thread_new calls = \<lparr>mt_todo = calls, mt_code = [], mt_local = local_new, mt_guard = None\<rparr>"

definition sys_new :: "mem_state \<Rightarrow> store_call list list \<Rightarrow> mem_sys" where
  [code_defs]: "sys_new m progs = \<lparr>my_state = m, my_threads = map thread_new progs, my_trace = []\<rparr>"

text \<open>Thread \<open>i\<close> performs its next statement, unless it is blocked or at its end. A guard is dropped on release;
  invocations and answers are recorded.\<close>

definition set_thread :: "nat \<Rightarrow> mem_thread \<Rightarrow> mem_sys \<Rightarrow> mem_sys" where
  [code_defs]: "set_thread i t s = s\<lparr>my_threads := (my_threads s)[i := t]\<rparr>"

type_synonym lock_policy = "mem_sys \<Rightarrow> nat \<Rightarrow> lock_guard \<Rightarrow> bool"

fun thread_instr :: "lock_policy \<Rightarrow> nat \<Rightarrow> mem_instr \<Rightarrow> mem_thread \<Rightarrow> mem_sys \<Rightarrow> mem_sys option" where
  "thread_instr grants i (AcquireLock g) t s =
     (if grants s i g then Some (set_thread i (t\<lparr>mt_guard := Some g\<rparr>) s) else None)"
| "thread_instr grants i ReleaseLock t s = Some (set_thread i (t\<lparr>mt_guard := None\<rparr>) s)"
| "thread_instr grants i ReturnAnswer t s =
     Some (set_thread i t (s\<lparr>my_trace := my_trace s @ [(i, Returned (lo_answer (mt_local t)))]\<rparr>))"
| "thread_instr grants i ins t s =
     Some (set_thread i (t\<lparr>mt_local := snd (exec_instr ins (my_state s, mt_local t))\<rparr>)
       (s\<lparr>my_state := fst (exec_instr ins (my_state s, mt_local t))\<rparr>))"

definition thread_step :: "lock_policy \<Rightarrow> nat \<Rightarrow> mem_sys \<Rightarrow> mem_sys option" where
  [code_defs]: "thread_step grants i s =
     (if \<not> i < length (my_threads s) then None
      else let t = my_threads s ! i
           in case mt_code t of
                ins # rest \<Rightarrow> thread_instr grants i ins (t\<lparr>mt_code := rest\<rparr>) s
              | [] \<Rightarrow>
                  (case mt_todo t of
                     [] \<Rightarrow> None
                   | c # cs \<Rightarrow>
                       Some (set_thread i (t\<lparr>mt_todo := cs, mt_code := call_code c, mt_local := local_new\<rparr>)
                         (s\<lparr>my_trace := my_trace s @ [(i, Invoked c)]\<rparr>))))"

text \<open>An execution: which thread moves next, again and again; a thread that cannot move stays.\<close>

fun mem_run :: "lock_policy \<Rightarrow> nat list \<Rightarrow> mem_sys \<Rightarrow> mem_sys" where
  "mem_run grants [] s = s"
| "mem_run grants (i # is) s = mem_run grants is (case thread_step grants i s of None \<Rightarrow> s | Some s' \<Rightarrow> s')"

text \<open>
  What the lock promises. Safety: it lets a writer in only when no guard is held, a reader only when no write guard is.
  Progress: when no guard is held and some thread waits, some waiting thread is let in.
\<close>

definition no_guard :: "mem_sys \<Rightarrow> bool" where
  [code_defs]: "no_guard s \<longleftrightarrow> list_all (\<lambda>t. mt_guard t = None) (my_threads s)"

definition no_writer :: "mem_sys \<Rightarrow> bool" where
  [code_defs]: "no_writer s \<longleftrightarrow> list_all (\<lambda>t. mt_guard t \<noteq> Some WriteGuard) (my_threads s)"

definition waits_for :: "mem_sys \<Rightarrow> nat \<Rightarrow> lock_guard \<Rightarrow> bool" where
  [code_defs]: "waits_for s i g \<longleftrightarrow>
     i < length (my_threads s) \<and> (case mt_code (my_threads s ! i) of AcquireLock g' # _ \<Rightarrow> g' = g | _ \<Rightarrow> False)"

definition lock_excludes :: "lock_policy \<Rightarrow> bool" where
  "lock_excludes grants \<longleftrightarrow>
     (\<forall>s i. (grants s i WriteGuard \<longrightarrow> no_guard s) \<and> (grants s i ReadGuard \<longrightarrow> no_writer s))"

definition lock_progresses :: "lock_policy \<Rightarrow> bool" where
  "lock_progresses grants \<longleftrightarrow>
     (\<forall>s. no_guard s \<longrightarrow> (\<exists>i g. waits_for s i g) \<longrightarrow> (\<exists>i g. waits_for s i g \<and> grants s i g))"

section \<open>The shape of a call\<close>

fun plain :: "mem_instr \<Rightarrow> bool" where
  "plain (AcquireLock g) \<longleftrightarrow> False"
| "plain ReleaseLock \<longleftrightarrow> False"
| "plain ReturnAnswer \<longleftrightarrow> False"
| "plain _ \<longleftrightarrow> True"

fun call_guard :: "store_call \<Rightarrow> lock_guard" where
  "call_guard (CallUpsertNode n) = WriteGuard"
| "call_guard (CallUpsertEdge e) = WriteGuard"
| "call_guard (CallUpsertAxiom x) = WriteGuard"
| "call_guard (CallCommit d a) = WriteGuard"
| "call_guard _ = ReadGuard"

definition call_body :: "store_call \<Rightarrow> mem_instr list" where
  "call_body c = take (length (call_code c) - 3) (tl (call_code c))"

lemma call_code_eq: "call_code c = AcquireLock (call_guard c) # call_body c @ [ReleaseLock, ReturnAnswer]"
  by (cases c) (simp_all add: call_body_def)

lemma call_body_plain: "ins \<in> set (call_body c) \<Longrightarrow> plain ins"
  by (cases c) (auto simp: call_body_def)

lemma call_body_reads: "call_guard c = ReadGuard \<Longrightarrow> ins \<in> set (call_body c) \<Longrightarrow> fst (exec_instr ins x) = fst x"
  by (cases x; cases c) (auto simp: call_body_def)

lemma fold_reads: "(\<And>ins x. ins \<in> set is \<Longrightarrow> fst (exec_instr ins x) = fst x) \<Longrightarrow> fst (fold exec_instr is x) = fst x"
  by (induction "is" arbitrary: x) auto

text \<open>The statements of a call between its lock and its release have the effect of the call.\<close>

lemma exec_upserts:
  "fold exec_instr (map UpsertNode ns) (m, l) = (m\<lparr>ms_ont := fold upsert_node ns (ms_ont m)\<rparr>, l)"
  "fold exec_instr (map UpsertEdge es) (m, l) = (m\<lparr>ms_ont := fold upsert_edge es (ms_ont m)\<rparr>, l)"
  "fold exec_instr (map (\<lambda>x. UpsertAxiom (f x)) xs) (m, l) = (m\<lparr>ms_ont := fold (\<lambda>x. upsert_axiom (f x)) xs (ms_ont m)\<rparr>, l)"
  "fold exec_instr (map FollowStep sts) (m, l) = (m, l\<lparr>lo_rows := fold (run_step (ms_ont m)) sts (lo_rows l)\<rparr>)"
proof -
  show "fold exec_instr (map UpsertNode ns) (m, l) = (m\<lparr>ms_ont := fold upsert_node ns (ms_ont m)\<rparr>, l)"
    by (induction ns arbitrary: m) simp_all
  show "fold exec_instr (map UpsertEdge es) (m, l) = (m\<lparr>ms_ont := fold upsert_edge es (ms_ont m)\<rparr>, l)"
    by (induction es arbitrary: m) simp_all
  show "fold exec_instr (map (\<lambda>x. UpsertAxiom (f x)) xs) (m, l) = (m\<lparr>ms_ont := fold (\<lambda>x. upsert_axiom (f x)) xs (ms_ont m)\<rparr>, l)"
    by (induction xs arbitrary: m) simp_all
  show "fold exec_instr (map FollowStep sts) (m, l) = (m, l\<lparr>lo_rows := fold (run_step (ms_ont m)) sts (lo_rows l)\<rparr>)"
    by (induction sts arbitrary: l) simp_all
qed

lemma call_body_effect:
  "fold exec_instr (call_body c) (m, local_new) = (m', l) \<Longrightarrow> call_effect c m = (lo_answer l, m')"
  by (cases c)
    (auto simp: call_body_def exec_upserts mem_upsert_node_def mem_upsert_edge_def mem_upsert_axiom_def mem_node_def mem_edge_def
      mem_snapshot_def mem_provenance_def mem_commit_def apply_delta_def match_pattern_def traverse_def ont_diff_def local_new_def)

section \<open>Histories\<close>

text \<open>
  A history is a trace with the moments at which the calls take effect: one event \<open>Effective\<close> per call. The events of a
  thread, the effects in their order, and the check that these are the answers of a sequential run from \<open>m\<close>.
\<close>

type_synonym mem_history = "(nat \<times> mem_event) list"

definition events_of :: "nat \<Rightarrow> mem_history \<Rightarrow> mem_event list" where
  [code_defs]: "events_of i T = map snd (filter (\<lambda>e. fst e = i) T)"

definition observable :: "mem_history \<Rightarrow> mem_history" where
  [code_defs]: "observable T = filter (\<lambda>e. case snd e of Effective c a \<Rightarrow> False | _ \<Rightarrow> True) T"

definition effects :: "mem_history \<Rightarrow> (store_call \<times> mem_answer) list" where
  [code_defs]: "effects T = concat (map (\<lambda>e. case snd e of Effective c a \<Rightarrow> [(c, a)] | _ \<Rightarrow> []) T)"

definition invocations :: "mem_event list \<Rightarrow> store_call list" where
  [code_defs]: "invocations es = concat (map (\<lambda>e. case e of Invoked c \<Rightarrow> [c] | _ \<Rightarrow> []) es)"

fun sequential :: "mem_state \<Rightarrow> (store_call \<times> mem_answer) list \<Rightarrow> mem_state option" where
  "sequential m [] = Some m"
| "sequential m ((c, a) # es) = (case call_effect c m of (b, m') \<Rightarrow> if a = b then sequential m' es else None)"

text \<open>The events of one thread: calls one after the other, each effective between its invocation and its answer,
  which is the answer it was effective with; the last one may be under way.\<close>

fun calls_in_order :: "mem_event list \<Rightarrow> bool" where
  "calls_in_order [] \<longleftrightarrow> True"
| "calls_in_order [Invoked c] \<longleftrightarrow> True"
| "calls_in_order [Invoked c, Effective d a] \<longleftrightarrow> c = d"
| "calls_in_order (Invoked c # Effective d a # Returned b # es) \<longleftrightarrow> c = d \<and> a = b \<and> calls_in_order es"
| "calls_in_order _ \<longleftrightarrow> False"

definition complete_calls :: "mem_event list \<Rightarrow> bool" where
  "complete_calls es \<longleftrightarrow> (\<exists>cas. es = concat (map (\<lambda>(c, a). [Invoked c, Effective c a, Returned a]) cas))"

lemma complete_Nil [simp]: "complete_calls []"
  unfolding complete_calls_def by (rule exI [of _ "[]"]) simp

lemma complete_snoc: "complete_calls es \<Longrightarrow> complete_calls (es @ [Invoked c, Effective c a, Returned a])"
proof -
  assume "complete_calls es"
  then obtain cas where "es = concat (map (\<lambda>(c, a). [Invoked c, Effective c a, Returned a]) cas)" by (auto simp: complete_calls_def)
  then show ?thesis unfolding complete_calls_def by (intro exI [of _ "cas @ [(c, a)]"]) simp
qed

lemma calls_in_order_complete: "complete_calls es \<Longrightarrow> calls_in_order (es @ fs) = calls_in_order fs"
proof -
  assume "complete_calls es"
  then obtain cas where "es = concat (map (\<lambda>(c, a). [Invoked c, Effective c a, Returned a]) cas)" by (auto simp: complete_calls_def)
  then show ?thesis by (induction cas arbitrary: es) auto
qed

lemma sequential_append:
  "sequential m es = Some q \<Longrightarrow> sequential m (es @ fs) = sequential q fs"
  by (induction es arbitrary: m) (auto split: prod.splits if_splits)

lemma history_append [simp]:
  "events_of i (T @ U) = events_of i T @ events_of i U" "observable (T @ U) = observable T @ observable U"
  "effects (T @ U) = effects T @ effects U" "invocations (es @ fs) = invocations es @ invocations fs"
  by (simp_all add: events_of_def observable_def effects_def invocations_def)

section \<open>The invariant\<close>

text \<open>
  Where a thread is: between calls, before its lock, among the statements under its lock, or after the release. \<open>m\<close>
  is the state of the store and \<open>q\<close> the one that the calls effective so far lead to.
\<close>

inductive phase :: "mem_state \<Rightarrow> mem_state \<Rightarrow> mem_thread \<Rightarrow> mem_event list \<Rightarrow> bool" for q m t where
  between: "complete_calls es \<Longrightarrow> mt_code t = [] \<Longrightarrow> mt_guard t = None \<Longrightarrow> phase q m t es"
| invoked: "complete_calls es \<Longrightarrow> mt_code t = call_code c \<Longrightarrow> mt_guard t = None \<Longrightarrow> mt_local t = local_new \<Longrightarrow>
    phase q m t (es @ [Invoked c])"
| inside: "complete_calls es \<Longrightarrow> call_body c = past @ rest \<Longrightarrow> mt_code t = rest @ [ReleaseLock, ReturnAnswer] \<Longrightarrow>
    mt_guard t = Some (call_guard c) \<Longrightarrow> fold exec_instr past (q, local_new) = (m, mt_local t) \<Longrightarrow>
    phase q m t (es @ [Invoked c])"
| released: "complete_calls es \<Longrightarrow> mt_code t = [ReturnAnswer] \<Longrightarrow> mt_guard t = None \<Longrightarrow>
    phase q m t (es @ [Invoked c, Effective c (lo_answer (mt_local t))])"

lemma phase_unguarded: "phase q m t es \<Longrightarrow> mt_guard t = None \<Longrightarrow> phase q' m' t es"
  by (erule phase.cases) (auto intro: phase.intros)

lemma phase_in_order: "phase q m t es \<Longrightarrow> calls_in_order es"
  by (erule phase.cases) (auto simp: calls_in_order_complete dest: calls_in_order_complete [where fs = "[]"])

definition exclusive :: "mem_thread list \<Rightarrow> bool" where
  "exclusive ts \<longleftrightarrow> (\<forall>i j. i < length ts \<longrightarrow> j < length ts \<longrightarrow> i \<noteq> j \<longrightarrow>
     mt_guard (ts ! i) = Some WriteGuard \<longrightarrow> mt_guard (ts ! j) = None)"

definition sys_inv :: "mem_state \<Rightarrow> store_call list list \<Rightarrow> mem_state \<Rightarrow> mem_history \<Rightarrow> mem_sys \<Rightarrow> bool" where
  "sys_inv m0 progs q T s \<longleftrightarrow>
     length (my_threads s) = length progs \<and> observable T = my_trace s \<and> sequential m0 (effects T) = Some q \<and>
     (no_writer s \<longrightarrow> my_state s = q) \<and> exclusive (my_threads s) \<and> (\<forall>e \<in> set T. fst e < length progs) \<and>
     (\<forall>i < length progs. phase q (my_state s) (my_threads s ! i) (events_of i T) \<and>
        invocations (events_of i T) @ mt_todo (my_threads s ! i) = progs ! i)"

text \<open>One thread moves from \<open>t\<close> to \<open>t'\<close>, adding the events \<open>es\<close>; the others hold no guard, or nothing they rely on
  changes.\<close>

lemma sys_inv_move:
  assumes inv: "sys_inv m0 progs q T s" and i: "i < length progs"
    and s': "my_threads s' = (my_threads s)[i := t']" "my_trace s' = my_trace s @ observable (map (Pair i) es)"
    and seq: "sequential m0 (effects (T @ map (Pair i) es)) = Some q'"
    and ph: "phase q' (my_state s') t' (events_of i T @ es)"
    and todo: "invocations es @ mt_todo t' = mt_todo (my_threads s ! i)"
    and others: "\<And>j. j < length progs \<Longrightarrow> j \<noteq> i \<Longrightarrow> mt_guard (my_threads s ! j) = None \<or> q' = q \<and> my_state s' = my_state s"
    and writer: "no_writer s' \<Longrightarrow> my_state s' = q'" and ex: "exclusive (my_threads s')"
  shows "sys_inv m0 progs q' (T @ map (Pair i) es) s'"
proof -
  have new: "events_of i (map (Pair i) es) = es" "j \<noteq> i \<Longrightarrow> events_of j (map (Pair i) es) = []" for j
    by (simp_all add: events_of_def filter_map comp_def)
  have len: "length (my_threads s) = length progs" using inv by (simp add: sys_inv_def)
  have "phase q' (my_state s') (my_threads s' ! j) (events_of j (T @ map (Pair i) es)) \<and>
      invocations (events_of j (T @ map (Pair i) es)) @ mt_todo (my_threads s' ! j) = progs ! j" if j: "j < length progs" for j
  proof (cases "j = i")
    case True
    then show ?thesis using inv i ph todo len by (simp add: s' new sys_inv_def)
  next
    case False
    then have "phase q (my_state s) (my_threads s ! j) (events_of j T)"
      "invocations (events_of j T) @ mt_todo (my_threads s ! j) = progs ! j" using inv j by (simp_all add: sys_inv_def)
    then show ?thesis using others [OF j False] False phase_unguarded by (auto simp: s' new)
  qed
  then show ?thesis using inv i seq writer ex by (auto simp: sys_inv_def s')
qed

lemma guard_update: "j < length ts \<Longrightarrow> mt_guard (ts[i := t'] ! j) = (if i = j then mt_guard t' else mt_guard (ts ! j))"
  by (cases "i = j") simp_all

lemma exclusive_moves:
  "exclusive ts \<Longrightarrow> mt_guard t' = None \<or> mt_guard t' = mt_guard (ts ! i) \<Longrightarrow> exclusive (ts[i := t'])"
  "list_all (\<lambda>t. mt_guard t = None) ts \<Longrightarrow> exclusive (ts[i := t'])"
  "list_all (\<lambda>t. mt_guard t \<noteq> Some WriteGuard) ts \<Longrightarrow> mt_guard t' = Some ReadGuard \<Longrightarrow> exclusive (ts[i := t'])"
proof -
  show "exclusive ts \<Longrightarrow> mt_guard t' = None \<or> mt_guard t' = mt_guard (ts ! i) \<Longrightarrow> exclusive (ts[i := t'])"
  proof -
    assume ex: "exclusive ts" and g: "mt_guard t' = None \<or> mt_guard t' = mt_guard (ts ! i)"
    have less: "mt_guard (ts[i := t'] ! j) = None \<or> mt_guard (ts[i := t'] ! j) = mt_guard (ts ! j)" if "j < length ts" for j
      using g that by (auto simp: guard_update)
    show ?thesis unfolding exclusive_def
    proof (intro allI impI)
      fix a b assume ab: "a < length (ts[i := t'])" "b < length (ts[i := t'])" "a \<noteq> b" "mt_guard (ts[i := t'] ! a) = Some WriteGuard"
      then have "mt_guard (ts ! a) = Some WriteGuard" using less [of a] by simp
      then have "mt_guard (ts ! b) = None" using ex ab unfolding exclusive_def by simp
      then show "mt_guard (ts[i := t'] ! b) = None" using less [of b] ab by simp
    qed
  qed
  show "list_all (\<lambda>t. mt_guard t = None) ts \<Longrightarrow> exclusive (ts[i := t'])"
    unfolding exclusive_def list_all_length by (simp add: guard_update)
  show "list_all (\<lambda>t. mt_guard t \<noteq> Some WriteGuard) ts \<Longrightarrow> mt_guard t' = Some ReadGuard \<Longrightarrow> exclusive (ts[i := t'])"
    unfolding exclusive_def list_all_length by (simp add: guard_update)
qed

lemma no_writer_before:
  "my_threads s' = (my_threads s)[i := t'] \<Longrightarrow> no_writer s' \<Longrightarrow> mt_guard (my_threads s ! i) \<noteq> Some WriteGuard \<Longrightarrow> no_writer s"
  unfolding no_writer_def list_all_length by (metis length_list_update nth_list_update_neq)

lemma no_writer_now:
  "my_threads s' = (my_threads s)[i := t'] \<Longrightarrow> i < length (my_threads s) \<Longrightarrow> no_writer s' \<Longrightarrow> mt_guard t' \<noteq> Some WriteGuard"
  unfolding no_writer_def list_all_length by (metis length_list_update nth_list_update_eq)

lemma plain_step:
  assumes "plain ins"
  shows "thread_instr grants i ins t s =
     Some (set_thread i (t\<lparr>mt_local := snd (exec_instr ins (my_state s, mt_local t))\<rparr>)
       (s\<lparr>my_state := fst (exec_instr ins (my_state s, mt_local t))\<rparr>))"
  using assms by (cases ins) simp_all

lemma step_threads: "my_threads (set_thread i t s) = (my_threads s)[i := t]" "my_trace (set_thread i t s) = my_trace s"
  "my_state (set_thread i t s) = my_state s"
  by (simp_all add: set_thread_def)

lemma event_kinds [simp]:
  "observable [(i, Invoked c)] = [(i, Invoked c)]" "observable [(i, Returned a)] = [(i, Returned a)]"
  "observable [(i, Effective c a)] = []" "observable [] = []"
  "effects [(i, Invoked c)] = []" "effects [(i, Returned a)] = []" "effects [] = []" "effects [(i, Effective c a)] = [(c, a)]"
  "invocations [Invoked c] = [c]" "invocations [Returned a] = []" "invocations [Effective c a] = []" "invocations [] = []"
  by (simp_all add: observable_def effects_def invocations_def)

text \<open>While a thread is inside, the others hold no guard if its own is the write guard, and else nothing has changed.\<close>

lemma inside_others:
  assumes "exclusive ts" "i < length ts" "mt_guard (ts ! i) = Some (call_guard c)" "call_body c = past @ rest"
    "fold exec_instr past (q, l) = (m, l')"
  shows "call_guard c = WriteGuard \<Longrightarrow> j < length ts \<Longrightarrow> j \<noteq> i \<Longrightarrow> mt_guard (ts ! j) = None"
    "call_guard c = ReadGuard \<Longrightarrow> m = q"
proof -
  show "call_guard c = WriteGuard \<Longrightarrow> j < length ts \<Longrightarrow> j \<noteq> i \<Longrightarrow> mt_guard (ts ! j) = None"
    using assms by (simp add: exclusive_def)
  assume "call_guard c = ReadGuard"
  then have "fst (exec_instr ins x) = fst x" if "ins \<in> set past" for ins x
    using call_body_reads that by (auto simp: assms(4))
  then have "fst (fold exec_instr past (q, l)) = q" using fold_reads [of past "(q, l)"] by simp
  then show "m = q" by (simp add: assms(5))
qed

lemma thread_step_inv:
  assumes locks: "lock_excludes grants" and inv: "sys_inv m0 progs q T s" and step: "thread_step grants i s = Some s'"
  shows "\<exists>q' T'. sys_inv m0 progs q' T' s'"
proof -
  define t where "t = my_threads s ! i"
  have len: "length (my_threads s) = length progs" and seq: "sequential m0 (effects T) = Some q"
    and nw: "no_writer s \<Longrightarrow> my_state s = q" and ex: "exclusive (my_threads s)"
    using inv by (simp_all add: sys_inv_def)
  have i: "i < length progs" using step len by (simp add: thread_step_def split: if_splits)
  have ph: "phase q (my_state s) t (events_of i T)" using inv i by (simp add: sys_inv_def t_def)
  note move = sys_inv_move [OF inv i]
  from ph show ?thesis
  proof cases
    case between
    then obtain c cs where c: "mt_todo t = c # cs" using step i len by (auto simp: thread_step_def t_def Let_def split: list.splits)
    let ?t = "t\<lparr>mt_todo := cs, mt_code := call_code c, mt_local := local_new\<rparr>"
    have s': "s' = set_thread i ?t (s\<lparr>my_trace := my_trace s @ [(i, Invoked c)]\<rparr>)"
      using step i len between c by (simp add: thread_step_def t_def [symmetric])
    have "sys_inv m0 progs q (T @ map (Pair i) [Invoked c]) s'"
    proof (rule move)
      show "phase q (my_state s') ?t (events_of i T @ [Invoked c])" using between by (intro phase.invoked) simp_all
      show "exclusive (my_threads s')" unfolding s' step_threads using exclusive_moves(1) [OF ex, of ?t i] between by simp
      show "my_state s' = q" if "no_writer s'" using nw no_writer_before [OF _ that, of s i ?t] between by (simp add: s' step_threads t_def)
    qed (use c seq in \<open>simp_all add: s' step_threads t_def\<close>)
    then show ?thesis by blast
  next
    case (invoked es c)
    let ?t = "t\<lparr>mt_code := call_body c @ [ReleaseLock, ReturnAnswer], mt_guard := Some (call_guard c)\<rparr>"
    have s': "s' = set_thread i ?t s" and g: "grants s i (call_guard c)"
      using step i len invoked by (simp_all add: thread_step_def t_def [symmetric] call_code_eq split: if_splits)
    have free: "call_guard c = WriteGuard \<Longrightarrow> no_guard s" "no_writer s"
      using locks g by (cases "call_guard c"; auto simp: lock_excludes_def no_guard_def no_writer_def list_all_iff)+
    have "sys_inv m0 progs q (T @ map (Pair i) []) s'"
    proof (rule move)
      have "phase q (my_state s') ?t (es @ [Invoked c])"
        by (rule phase.inside [where past = "[]"]) (use invoked nw [OF free(2)] in \<open>simp_all add: s' step_threads\<close>)
      then show "phase q (my_state s') ?t (events_of i T @ [])" using invoked by simp
      show "exclusive (my_threads s')" unfolding s' step_threads
        using free exclusive_moves(2,3) [of "my_threads s", where t' = ?t and i = i] by (cases "call_guard c") (simp_all add: no_guard_def no_writer_def)
      show "my_state s' = q" using nw [OF free(2)] by (simp add: s' step_threads)
    qed (use seq in \<open>simp_all add: s' step_threads t_def\<close>)
    then show ?thesis by blast
  next
    case (inside es c past rest)
    note alone = inside_others [OF ex _ _ inside(3,6), of i, folded t_def, OF _ inside(5), unfolded len, OF i]
    have others: "mt_guard (my_threads s ! j) = None \<or> call_guard c = ReadGuard" if "j < length progs" "j \<noteq> i" for j
      using alone(1) that by (cases "call_guard c") simp_all
    show ?thesis
    proof (cases rest)
      case Nil
      let ?t = "t\<lparr>mt_code := [ReturnAnswer], mt_guard := None\<rparr>" and ?a = "lo_answer (mt_local t)"
      have s': "s' = set_thread i ?t s" using step i len inside Nil by (simp add: thread_step_def t_def [symmetric])
      have eff: "call_effect c q = (?a, my_state s)" using call_body_effect inside Nil by simp
      have "sys_inv m0 progs (my_state s) (T @ map (Pair i) [Effective c ?a]) s'"
      proof (rule move)
        have "phase (my_state s) (my_state s') ?t (es @ [Invoked c, Effective c (lo_answer (mt_local ?t))])"
          by (rule phase.released) (use inside in simp_all)
        then show "phase (my_state s) (my_state s') ?t (events_of i T @ [Effective c ?a])" using inside by simp
        show "exclusive (my_threads s')" unfolding s' step_threads using exclusive_moves(1) [OF ex, of ?t i] by simp
        show "mt_guard (my_threads s ! j) = None \<or> my_state s = q \<and> my_state s' = my_state s" if "j < length progs" "j \<noteq> i" for j
          using others [OF that] alone(2) by (auto simp: s' step_threads)
        show "sequential m0 (effects (T @ map (Pair i) [Effective c ?a])) = Some (my_state s)"
          using eff by (simp add: sequential_append [OF seq])
      qed (simp_all add: s' step_threads t_def)
      then show ?thesis by blast
    next
      case (Cons ins rest')
      let ?x = "exec_instr ins (my_state s, mt_local t)"
      let ?t = "t\<lparr>mt_code := rest' @ [ReleaseLock, ReturnAnswer], mt_local := snd ?x\<rparr>"
      have ins: "ins \<in> set (call_body c)" using inside Cons by simp
      have s': "s' = set_thread i ?t (s\<lparr>my_state := fst ?x\<rparr>)"
        using step i len inside Cons by (simp add: thread_step_def t_def [symmetric] plain_step [OF call_body_plain [OF ins]])
      have same: "my_state s' = my_state s" if "call_guard c = ReadGuard"
        using call_body_reads [OF that ins, of "(my_state s, mt_local t)"] by (simp add: s' step_threads)
      have "sys_inv m0 progs q (T @ map (Pair i) []) s'"
      proof (rule move)
        have "phase q (my_state s') ?t (es @ [Invoked c])"
          by (rule phase.inside [where past = "past @ [ins]" and rest = rest']) (use inside Cons in \<open>simp_all add: s' step_threads\<close>)
        then show "phase q (my_state s') ?t (events_of i T @ [])" using inside by simp
        show "exclusive (my_threads s')" unfolding s' step_threads using exclusive_moves(1) [OF ex, of ?t i] by (simp add: t_def)
        show "mt_guard (my_threads s ! j) = None \<or> q = q \<and> my_state s' = my_state s" if "j < length progs" "j \<noteq> i" for j
          using others [OF that] same by auto
        show "my_state s' = q" if "no_writer s'"
        proof -
          have "call_guard c = ReadGuard"
            using no_writer_now [OF _ _ that, of s i ?t] i len inside by (cases "call_guard c") (simp_all add: s' step_threads)
          then show ?thesis using same alone(2) by simp
        qed
      qed (use seq in \<open>simp_all add: s' step_threads t_def\<close>)
      then show ?thesis by blast
    qed
  next
    case (released es c)
    let ?t = "t\<lparr>mt_code := []\<rparr>" and ?a = "lo_answer (mt_local t)"
    have s': "s' = set_thread i ?t (s\<lparr>my_trace := my_trace s @ [(i, Returned ?a)]\<rparr>)"
      using step i len released by (simp add: thread_step_def t_def [symmetric])
    have "sys_inv m0 progs q (T @ map (Pair i) [Returned ?a]) s'"
    proof (rule move)
      have "phase q (my_state s') ?t (es @ [Invoked c, Effective c ?a, Returned ?a])"
        by (rule phase.between) (use released complete_snoc in simp_all)
      then show "phase q (my_state s') ?t (events_of i T @ [Returned ?a])" using released by simp
      show "exclusive (my_threads s')" unfolding s' step_threads using exclusive_moves(1) [OF ex, of ?t i] by (simp add: t_def)
      show "my_state s' = q" if "no_writer s'" using nw no_writer_before [OF _ that, of s i ?t] released by (simp add: s' step_threads t_def)
    qed (use seq in \<open>simp_all add: s' step_threads t_def\<close>)
    then show ?thesis by blast
  qed
qed

lemma sys_inv_new: "sys_inv m progs m [] (sys_new m progs)"
  by (auto simp: sys_inv_def sys_new_def thread_new_def exclusive_def observable_def events_of_def no_writer_def
      intro!: phase.between)

lemma mem_run_inv:
  assumes "lock_excludes grants" "sys_inv m0 progs q T s"
  shows "\<exists>q' T'. sys_inv m0 progs q' T' (mem_run grants sched s)"
  using assms(2)
proof (induction sched arbitrary: q T s)
  case (Cons i sched)
  show ?case
  proof (cases "thread_step grants i s")
    case (Some s')
    then obtain q' T' where "sys_inv m0 progs q' T' s'" using thread_step_inv [OF assms(1) Cons.prems] by blast
    from Cons.IH [OF this] Some show ?thesis by simp
  qed (use Cons in simp)
qed auto

section \<open>Progress\<close>

text \<open>Every statement brings the calls nearer to their end, and unless all are done some thread can move.\<close>

definition all_done :: "mem_sys \<Rightarrow> bool" where
  [code_defs]: "all_done s \<longleftrightarrow> list_all (\<lambda>t. mt_todo t = [] \<and> mt_code t = []) (my_threads s)"

lemma waits_for_iff:
  "waits_for s i g \<longleftrightarrow> i < length (my_threads s) \<and> (\<exists>rest. mt_code (my_threads s ! i) = AcquireLock g # rest)"
  by (auto simp: waits_for_def split: list.splits mem_instr.splits)

lemma some_thread_moves:
  assumes "lock_progresses grants" "sys_inv m0 progs q T s" "\<not> all_done s"
  shows "\<exists>i. thread_step grants i s \<noteq> None"
proof -
  have len: "length (my_threads s) = length progs" using assms(2) by (simp add: sys_inv_def)
  have phases: "phase q (my_state s) (my_threads s ! i) (events_of i T)" if "i < length progs" for i
    using assms(2) that by (simp add: sys_inv_def)
  have moves: "thread_step grants i s \<noteq> None" if i: "i < length progs"
    and e: "mt_code (my_threads s ! i) \<noteq> [] \<or> mt_todo (my_threads s ! i) \<noteq> []"
    and free: "\<And>g. waits_for s i g \<Longrightarrow> grants s i g" for i
  proof (cases "mt_code (my_threads s ! i)")
    case Nil
    then show ?thesis using i e len by (auto simp: thread_step_def Let_def split: list.split)
  next
    case (Cons ins rest)
    then have "thread_step grants i s = thread_instr grants i ins ((my_threads s ! i)\<lparr>mt_code := rest\<rparr>) s"
      using i len by (simp add: thread_step_def)
    moreover have "thread_instr grants i ins t s \<noteq> None" for t
    proof (cases "\<exists>g. ins = AcquireLock g")
      case True
      then show ?thesis using free Cons i len by (auto simp: waits_for_iff)
    next
      case False
      then show ?thesis by (cases ins) auto
    qed
    ultimately show ?thesis by simp
  qed
  show ?thesis
  proof (cases "no_guard s")
    case True
    obtain i where i: "i < length progs" "mt_code (my_threads s ! i) \<noteq> [] \<or> mt_todo (my_threads s ! i) \<noteq> []"
      using assms(3) by (auto simp: all_done_def list_all_length len)
    show ?thesis
    proof (cases "\<exists>j g. waits_for s j g")
      case waiting: True
      then obtain j g where j: "waits_for s j g" "grants s j g"
        using assms(1) True unfolding lock_progresses_def by blast
      obtain rest where c: "j < length progs" "mt_code (my_threads s ! j) = AcquireLock g # rest"
        using j(1) len by (auto simp: waits_for_iff)
      have "grants s j g'" if "waits_for s j g'" for g' using that c(2) j(2) by (simp add: waits_for_iff)
      from moves [OF c(1) _ this] c(2) have "thread_step grants j s \<noteq> None" by simp
      then show ?thesis by blast
    next
      case False
      then have "thread_step grants i s \<noteq> None" using moves [OF i] by blast
      then show ?thesis by blast
    qed
  next
    case False
    then obtain i where i: "i < length progs" "mt_guard (my_threads s ! i) \<noteq> None"
      by (auto simp: no_guard_def list_all_length len)
    from phases [OF i(1)] have "\<exists>ins rest. mt_code (my_threads s ! i) = ins # rest \<and> (\<forall>g. ins \<noteq> AcquireLock g)"
    proof cases
      case (inside es c past rest)
      show ?thesis
      proof (cases rest)
        case (Cons ins rest')
        then have "plain ins" using call_body_plain [of ins c] inside by simp
        then show ?thesis using Cons inside by auto
      qed (use inside in simp)
    qed (use i(2) in auto)
    then have "thread_step grants i s \<noteq> None" by (intro moves [OF i(1)]) (auto simp: waits_for_iff)
    then show ?thesis by blast
  qed
qed

definition steps_left :: "mem_sys \<Rightarrow> nat" where
  "steps_left s = (\<Sum>t \<leftarrow> my_threads s. length (mt_code t) + (\<Sum>c \<leftarrow> mt_todo t. Suc (length (call_code c))))"

lemma sum_list_smaller: "i < length xs \<Longrightarrow> f y < (f (xs ! i) :: nat) \<Longrightarrow> (\<Sum>x \<leftarrow> xs[i := y]. f x) < (\<Sum>x \<leftarrow> xs. f x)"
  by (induction xs arbitrary: i) (auto simp: nth_Cons less_Suc_eq_0_disj split: nat.splits)

lemma thread_step_nearer:
  assumes "thread_step grants i s = Some s'"
  shows "steps_left s' < steps_left s"
proof -
  have i: "i < length (my_threads s)" using assms by (simp add: thread_step_def split: if_splits)
  have "\<exists>t'. my_threads s' = (my_threads s)[i := t'] \<and>
      length (mt_code t') + (\<Sum>c \<leftarrow> mt_todo t'. Suc (length (call_code c))) <
      length (mt_code (my_threads s ! i)) + (\<Sum>c \<leftarrow> mt_todo (my_threads s ! i). Suc (length (call_code c)))"
  proof (cases "mt_code (my_threads s ! i)")
    case Nil
    then show ?thesis using assms i by (auto simp: thread_step_def Let_def step_threads split: list.splits)
  next
    case (Cons ins rest)
    then have "thread_instr grants i ins ((my_threads s ! i)\<lparr>mt_code := rest\<rparr>) s = Some s'"
      using assms i by (simp add: thread_step_def)
    then show ?thesis using Cons by (cases ins) (auto simp: step_threads split: if_splits)
  qed
  then show ?thesis using sum_list_smaller [OF i] by (auto simp: steps_left_def)
qed

lemma runs_to_the_end:
  assumes "lock_excludes grants" "lock_progresses grants" "sys_inv m0 progs q T s"
  shows "\<exists>more. all_done (mem_run grants more s)"
  using assms(3)
proof (induction "steps_left s" arbitrary: s q T rule: less_induct)
  case less
  show ?case
  proof (cases "all_done s")
    case False
    then obtain i s' where step: "thread_step grants i s = Some s'" using some_thread_moves [OF assms(2) less.prems] by blast
    obtain q' T' where "sys_inv m0 progs q' T' s'" using thread_step_inv [OF assms(1) less.prems step] by blast
    from less.hyps [OF thread_step_nearer [OF step] this] obtain more where "all_done (mem_run grants more s')" by blast
    then show ?thesis using step by (intro exI [of _ "i # more"]) simp
  qed (auto intro: exI [of _ "[]"])
qed

section \<open>Properties\<close>

lemma phase_complete: "phase q m t es \<Longrightarrow> mt_code t = [] \<Longrightarrow> complete_calls es"
  by (erule phase.cases) (auto simp: call_code_eq)

text \<open>
  C14: concurrent calls on a \<open>MemStore\<close> are linearisable. However the statements of the threads interleave, each thread's calls
  take effect one after the other in the order of its program, each at one moment between its invocation and its
  answer, and answer what a sequential run of the calls in the order of these moments answers; whenever no writer is
  inside, the state of the store is the one this run leads to. No interleaving deadlocks and every one can be run to
  the end of all calls. The lock is assumed to keep a writer apart from every other guard, and to let some waiting thread
  in when it is free.
\<close>

theorem mem_calls_linearize:
  assumes "lock_excludes grants" "lock_progresses grants" "s = mem_run grants sched (sys_new m progs)"
  shows "(\<exists>T q. observable T = my_trace s \<and> (\<forall>e \<in> set T. fst e < length progs) \<and>
      sequential m (effects T) = Some q \<and> (no_writer s \<longrightarrow> my_state s = q) \<and>
      (\<forall>i < length progs. calls_in_order (events_of i T) \<and>
         invocations (events_of i T) @ mt_todo (my_threads s ! i) = progs ! i \<and>
         (mt_code (my_threads s ! i) = [] \<longrightarrow> complete_calls (events_of i T)))) \<and>
    (\<not> all_done s \<longrightarrow> (\<exists>i. thread_step grants i s \<noteq> None)) \<and> (\<exists>more. all_done (mem_run grants more s))"
proof -
  obtain q T where inv: "sys_inv m progs q T s"
    using mem_run_inv [OF assms(1) sys_inv_new] assms(3) by blast
  then have "\<forall>i < length progs. phase q (my_state s) (my_threads s ! i) (events_of i T)" by (simp add: sys_inv_def)
  then have "\<forall>i < length progs. calls_in_order (events_of i T) \<and> (mt_code (my_threads s ! i) = [] \<longrightarrow> complete_calls (events_of i T))"
    using phase_in_order phase_complete by blast
  with inv some_thread_moves [OF assms(2) inv] runs_to_the_end [OF assms(1,2) inv] show ?thesis
    unfolding sys_inv_def by blast
qed

text \<open>The plain policy: a writer enters when nobody is inside, a reader when no writer is.\<close>

definition plain_lock :: lock_policy where
  [code_defs]: "plain_lock s i g = (case g of WriteGuard \<Rightarrow> no_guard s | ReadGuard \<Rightarrow> no_writer s)"

lemma plain_lock_ok: "lock_excludes plain_lock" "lock_progresses plain_lock"
proof -
  show "lock_excludes plain_lock" by (simp add: lock_excludes_def plain_lock_def)
  have "no_guard s \<Longrightarrow> plain_lock s i g" for s i g
    by (cases g) (auto simp: plain_lock_def no_guard_def no_writer_def list_all_iff)
  then show "lock_progresses plain_lock" by (auto simp: lock_progresses_def)
qed

definition locks_node :: "8 word \<Rightarrow> node" where
  [code_defs]: "locks_node b = \<lparr>n_id = NodeId [b], n_iri = None, n_types = [''Person''], n_props = []\<rparr>"

definition locks_commit :: "store_call" where
  [code_defs]: "locks_commit =
     CallCommit \<lparr>d_nodes = [locks_node 1, locks_node 2], d_edges = [], d_axioms = []\<rparr> (activity_started (ProvenanceId [7]) 0 ''load'')"

text \<open>A reader that comes while a commit is under way waits for it and reads the whole commit.\<close>

lemma mem_calls_linearize_witness:
  "\<exists>T. observable T = [(0, Invoked locks_commit), (1, Invoked (CallNode (NodeId [2]))),
         (0, Returned (MaProv (ProvenanceId [7]))), (1, Returned (MaNode (Some (locks_node 2))))] \<and>
     sequential mem_new (effects T) = Some (snd (call_effect locks_commit mem_new))"
proof -
  let ?s = "mem_run plain_lock [0, 0, 0, 1, 1, 1, 0, 0, 0, 0, 0, 1, 1, 1, 1] (sys_new mem_new [[locks_commit], [CallNode (NodeId [2])]])"
  have trace: "my_trace ?s = [(0, Invoked locks_commit), (1, Invoked (CallNode (NodeId [2]))),
      (0, Returned (MaProv (ProvenanceId [7]))), (1, Returned (MaNode (Some (locks_node 2))))]"
    and state: "no_writer ?s" "my_state ?s = snd (call_effect locks_commit mem_new)"
    by code_simp+
  define s where "s = ?s"
  obtain T q where T: "observable T = my_trace s" "sequential mem_new (effects T) = Some q" "no_writer s \<longrightarrow> my_state s = q"
    using mem_calls_linearize [OF plain_lock_ok s_def] by blast
  have "q = snd (call_effect locks_commit mem_new)" using T(3) state unfolding s_def by (simp only: simp_thms)
  with T(1,2) trace show ?thesis unfolding s_def by (intro exI [of _ T]) (simp only: simp_thms)
qed

end
