(* ===== verification/Py_Store.thy ===== *)
theory Py_Store
  imports Py_Core Mem_Locks
begin

text \<open>
  \<open>crates/atomr-ontology-py/src/store.rs\<close> and \<open>provenance.rs\<close>: the Python classes over patterns, plans, rows,
  deltas, diffs, stores, activities, entities and provenance logs. An asynchronous method of \<open>MemStore\<close> clones its
  arguments when it is called and hands the work to the runtime: here it returns the store and the \<open>store_call\<close> that
  the runtime will perform, and \<open>py_complete\<close> performs it. Fresh identifiers and the time are arguments.
\<close>

section \<open>Provenance\<close>

text \<open>\<open>finish\<close> does not change its receiver: it returns a new object.\<close>

definition py_activity_started :: "prov_id \<Rightarrow> int \<Rightarrow> string \<Rightarrow> nat py" where
  [code_defs]: "py_activity_started fresh now l = py_new (ObActivity (activity_started fresh now l))"

definition py_activity_finish :: "int \<Rightarrow> nat \<Rightarrow> nat py" where
  [code_defs]: "py_activity_finish now a = py_get_new as_activity (\<lambda>x. ObActivity (activity_finish now x)) a"

definition py_activity_by :: "agent_ref \<Rightarrow> nat \<Rightarrow> nat py" where
  [code_defs]: "py_activity_by g a = py_modify as_activity ObActivity (activity_by g) a"

definition py_activity_with_attribute :: "py_env \<Rightarrow> string \<Rightarrow> py_value \<Rightarrow> nat \<Rightarrow> nat py" where
  [code_defs]: "py_activity_with_attribute E key v a = 
     py_bind (py_read as_activity a) (\<lambda>x. py_bind (py_lift (dumps E v)) (\<lambda>j. py_write a (ObActivity (activity_with_attribute key j x))))"

definition attributes_to_py :: "py_env \<Rightarrow> (string, json) bmap \<Rightarrow> py_error + (py_value \<times> py_value) list" where
  [code_defs]: "attributes_to_py E m = items_to_py (loads E) m"

definition py_activity_id :: "nat \<Rightarrow> prov_id py" where
  [code_defs]: "py_activity_id a = py_get as_activity act_id a"

definition py_activity_label :: "nat \<Rightarrow> string py" where
  [code_defs]: "py_activity_label a = py_get as_activity act_label a"

definition datetime_to_py :: "py_env \<Rightarrow> int \<Rightarrow> py_error + int" where
  [code_defs]: "datetime_to_py E t = (case pe_datetime E t of None \<Rightarrow> Inl PyPanic | Some t' \<Rightarrow> Inr t')"

definition py_activity_started_at :: "py_env \<Rightarrow> nat \<Rightarrow> int py" where
  [code_defs]: "py_activity_started_at E a = py_get_result as_activity (\<lambda>x. datetime_to_py E (act_started x)) a"

definition py_activity_ended_at :: "py_env \<Rightarrow> nat \<Rightarrow> int option py" where
  [code_defs]: "py_activity_ended_at E a = 
     py_get_result as_activity (\<lambda>x. case act_ended x of None \<Rightarrow> Inr None | Some t \<Rightarrow> map_sum id Some (datetime_to_py E t)) a"

definition py_activity_agent :: "nat \<Rightarrow> (agent_ref option) py" where
  [code_defs]: "py_activity_agent a = py_get as_activity act_agent a"

definition py_activity_attributes :: "py_env \<Rightarrow> nat \<Rightarrow> (py_value \<times> py_value) list py" where
  [code_defs]: "py_activity_attributes E a = py_get_result as_activity (\<lambda>x. attributes_to_py E (act_attrs x)) a"

definition py_entity_new :: "prov_id \<Rightarrow> string \<Rightarrow> string option \<Rightarrow> nat py" where
  [code_defs]: "py_entity_new fresh l dig = py_new (ObEntity (prov_entity_new fresh l dig))"

definition py_entity_id :: "nat \<Rightarrow> prov_id py" where
  [code_defs]: "py_entity_id a = py_get as_entity ent_id a"

definition py_entity_label :: "nat \<Rightarrow> string py" where
  [code_defs]: "py_entity_label a = py_get as_entity ent_label a"

definition py_entity_digest :: "nat \<Rightarrow> (string option) py" where
  [code_defs]: "py_entity_digest a = py_get as_entity ent_digest a"

definition py_entity_attributes :: "py_env \<Rightarrow> nat \<Rightarrow> (py_value \<times> py_value) list py" where
  [code_defs]: "py_entity_attributes E a = py_get_result as_entity (\<lambda>x. attributes_to_py E (ent_attrs x)) a"

definition py_log_new :: "nat py" where
  [code_defs]: "py_log_new = py_new (ObLog prov_log_new)"

definition py_log_record_activity :: "nat \<Rightarrow> nat \<Rightarrow> prov_id py" where
  [code_defs]: "py_log_record_activity b a = 
     py_bind (py_read as_activity b) (\<lambda>x. py_bind (py_modify as_log ObLog (record_activity x) a) (\<lambda>_. py_ret (act_id x)))"

definition py_log_record_entity :: "nat \<Rightarrow> nat \<Rightarrow> prov_id py" where
  [code_defs]: "py_log_record_entity b a = 
     py_bind (py_read as_entity b) (\<lambda>x. py_bind (py_modify as_log ObLog (record_entity x) a) (\<lambda>_. py_ret (ent_id x)))"

definition py_log_generated :: "prov_id \<Rightarrow> prov_id \<Rightarrow> nat \<Rightarrow> unit py" where
  [code_defs]: "py_log_generated e act a = py_bind (py_modify as_log ObLog (log_generated e act) a) (\<lambda>_. py_ret ())"

definition py_log_derived :: "prov_id \<Rightarrow> prov_id \<Rightarrow> nat \<Rightarrow> unit py" where
  [code_defs]: "py_log_derived x src a = py_bind (py_modify as_log ObLog (log_derived x src) a) (\<lambda>_. py_ret ())"

definition py_log_attributed :: "prov_id \<Rightarrow> agent_ref \<Rightarrow> nat \<Rightarrow> unit py" where
  [code_defs]: "py_log_attributed e g a = py_bind (py_modify as_log ObLog (log_attributed e g) a) (\<lambda>_. py_ret ())"

definition py_log_used :: "prov_id \<Rightarrow> prov_id \<Rightarrow> nat \<Rightarrow> unit py" where
  [code_defs]: "py_log_used act e a = py_bind (py_modify as_log ObLog (log_used act e) a) (\<lambda>_. py_ret ())"

definition py_log_activity :: "prov_id \<Rightarrow> nat \<Rightarrow> nat option py" where
  [code_defs]: "py_log_activity i a = py_get_opt as_log (\<lambda>l. map_option ObActivity (map_of (pl_activities l) i)) a"

definition py_log_entity :: "prov_id \<Rightarrow> nat \<Rightarrow> nat option py" where
  [code_defs]: "py_log_entity i a = py_get_opt as_log (\<lambda>l. map_option ObEntity (map_of (pl_entities l) i)) a"

definition py_log_activities :: "nat \<Rightarrow> nat list py" where
  [code_defs]: "py_log_activities a = py_get_list as_log (\<lambda>l. map ObActivity (bm_values (pl_activities l))) a"

definition py_log_entities :: "nat \<Rightarrow> nat list py" where
  [code_defs]: "py_log_entities a = py_get_list as_log (\<lambda>l. map ObEntity (bm_values (pl_entities l))) a"

definition py_log_generations :: "nat \<Rightarrow> was_generated_by list py" where
  [code_defs]: "py_log_generations a = py_get as_log pl_generations a"

definition py_log_derivations :: "nat \<Rightarrow> was_derived_from list py" where
  [code_defs]: "py_log_derivations a = py_get as_log pl_derivations a"

definition py_log_attributions :: "nat \<Rightarrow> was_attributed_to list py" where
  [code_defs]: "py_log_attributions a = py_get as_log pl_attributions a"

definition py_log_uses :: "nat \<Rightarrow> used_rec list py" where
  [code_defs]: "py_log_uses a = py_get as_log pl_uses a"

section \<open>Patterns and plans\<close>

text \<open>The receiver of a builder is borrowed mutably while the arguments are converted, so it cannot be its own argument.\<close>

definition py_modify_by ::
    "(py_obj \<Rightarrow> 'a option) \<Rightarrow> ('a \<Rightarrow> py_obj) \<Rightarrow> ('a \<Rightarrow> 'a \<Rightarrow> 'a) \<Rightarrow> nat \<Rightarrow> nat \<Rightarrow> nat py" where
  [code_defs]: "py_modify_by sel con f b a =
     py_bind (py_read sel a) (\<lambda>x.
       if b = a then py_lift (Inl (PyRuntimeError ''Already mutably borrowed''))
       else py_bind (py_read sel b) (\<lambda>y. py_write a (con (f y x))))"

definition py_node_pattern_any :: "nat py" where
  [code_defs]: "py_node_pattern_any = py_new (ObNodePattern np_any)"

definition py_node_pattern_bind :: "string \<Rightarrow> nat \<Rightarrow> nat py" where
  [code_defs]: "py_node_pattern_bind name a = py_modify as_node_pattern ObNodePattern (np_set_bind name) a"

definition py_node_pattern_typed :: "string \<Rightarrow> nat \<Rightarrow> nat py" where
  [code_defs]: "py_node_pattern_typed name a = py_modify as_node_pattern ObNodePattern (np_typed name) a"

definition py_node_pattern_with_property :: "string \<Rightarrow> py_value \<Rightarrow> nat \<Rightarrow> nat py" where
  [code_defs]: "py_node_pattern_with_property name v a = py_with_value as_node_pattern ObNodePattern np_with_property name v a"

definition py_node_pattern_with_id :: "node_id \<Rightarrow> nat \<Rightarrow> nat py" where
  [code_defs]: "py_node_pattern_with_id i a = py_modify as_node_pattern ObNodePattern (np_with_id i) a"

definition py_node_pattern_or :: "nat \<Rightarrow> nat \<Rightarrow> nat py" where
  [code_defs]: "py_node_pattern_or alt a = py_modify_by as_node_pattern ObNodePattern np_add_or alt a"

definition py_node_pattern_not :: "nat \<Rightarrow> nat \<Rightarrow> nat py" where
  [code_defs]: "py_node_pattern_not neg a = py_modify_by as_node_pattern ObNodePattern np_add_not neg a"

definition py_edge_pattern_any :: "nat py" where
  [code_defs]: "py_edge_pattern_any = py_new (ObEdgePattern ep_any)"

definition py_edge_pattern_bind :: "string \<Rightarrow> nat \<Rightarrow> nat py" where
  [code_defs]: "py_edge_pattern_bind name a = py_modify as_edge_pattern ObEdgePattern (ep_set_bind name) a"

definition py_edge_pattern_labeled :: "string \<Rightarrow> nat \<Rightarrow> nat py" where
  [code_defs]: "py_edge_pattern_labeled l a = py_modify as_edge_pattern ObEdgePattern (ep_labeled l) a"

definition py_edge_pattern_with_property :: "string \<Rightarrow> py_value \<Rightarrow> nat \<Rightarrow> nat py" where
  [code_defs]: "py_edge_pattern_with_property name v a = py_with_value as_edge_pattern ObEdgePattern ep_with_property name v a"

definition py_edge_pattern_repeat :: "nat \<Rightarrow> nat \<Rightarrow> nat \<Rightarrow> nat py" where
  [code_defs]: "py_edge_pattern_repeat lo hi a = py_modify as_edge_pattern ObEdgePattern (ep_set_repeat (lo, hi)) a"

definition py_step_outbound :: "nat \<Rightarrow> nat \<Rightarrow> nat py" where
  [code_defs]: "py_step_outbound e t = 
     py_bind (py_read as_edge_pattern e) (\<lambda>ep. py_bind (py_read as_node_pattern t) (\<lambda>np.
       py_new (ObStep \<lparr>ts_edge = ep, ts_target = np, ts_outbound = True\<rparr>)))"

definition py_step_inbound :: "nat \<Rightarrow> nat \<Rightarrow> nat py" where
  [code_defs]: "py_step_inbound e t = 
     py_bind (py_read as_edge_pattern e) (\<lambda>ep. py_bind (py_read as_node_pattern t) (\<lambda>np.
       py_new (ObStep \<lparr>ts_edge = ep, ts_target = np, ts_outbound = False\<rparr>)))"

definition py_plan_new :: "nat \<Rightarrow> nat py" where
  [code_defs]: "py_plan_new seed = py_get_new as_node_pattern (\<lambda>p. ObPlan (plan_from p)) seed"

definition py_plan_outbound :: "nat \<Rightarrow> nat \<Rightarrow> nat \<Rightarrow> nat py" where
  [code_defs]: "py_plan_outbound e t a = 
     py_bind (py_read as_edge_pattern e) (\<lambda>ep. py_bind (py_read as_node_pattern t) (\<lambda>np.
       py_modify as_plan ObPlan (plan_outbound ep np) a))"

definition py_plan_inbound :: "nat \<Rightarrow> nat \<Rightarrow> nat \<Rightarrow> nat py" where
  [code_defs]: "py_plan_inbound e t a = 
     py_bind (py_read as_edge_pattern e) (\<lambda>ep. py_bind (py_read as_node_pattern t) (\<lambda>np.
       py_modify as_plan ObPlan (plan_inbound ep np) a))"

definition py_plan_return :: "string list \<Rightarrow> nat \<Rightarrow> nat py" where
  [code_defs]: "py_plan_return cols a = py_modify as_plan ObPlan (plan_return cols) a"

definition py_plan_order_by :: "string \<Rightarrow> nat \<Rightarrow> nat py" where
  [code_defs]: "py_plan_order_by x a = py_modify as_plan ObPlan (plan_order_by x) a"

definition py_plan_order_by_desc :: "string \<Rightarrow> nat \<Rightarrow> nat py" where
  [code_defs]: "py_plan_order_by_desc x a = py_modify as_plan ObPlan (plan_order_by_desc x) a"

definition py_plan_skip :: "nat \<Rightarrow> nat \<Rightarrow> nat py" where
  [code_defs]: "py_plan_skip n a = py_modify as_plan ObPlan (plan_skip n) a"

definition py_plan_limit :: "nat \<Rightarrow> nat \<Rightarrow> nat py" where
  [code_defs]: "py_plan_limit n a = py_modify as_plan ObPlan (plan_limit n) a"

section \<open>Rows, deltas and diffs\<close>

definition py_row_new :: "nat py" where
  [code_defs]: "py_row_new = py_new (ObRow row_new)"

definition py_row_nodes :: "nat \<Rightarrow> (string \<times> node_id) list py" where
  [code_defs]: "py_row_nodes a = py_get as_row mr_nodes a"

definition py_row_edges :: "nat \<Rightarrow> (string \<times> edge_id) list py" where
  [code_defs]: "py_row_edges a = py_get as_row mr_edges a"

text \<open>An argument list that is not given is empty.\<close>

definition py_reads_opt :: "(py_obj \<Rightarrow> 'a option) \<Rightarrow> nat list option \<Rightarrow> 'a list py" where
  [code_defs]: "py_reads_opt sel as = py_reads sel (case as of None \<Rightarrow> [] | Some l \<Rightarrow> l)"

definition py_delta_new :: "nat list option \<Rightarrow> nat list option \<Rightarrow> nat list option \<Rightarrow> nat py" where
  [code_defs]: "py_delta_new ns es xs = 
     py_bind (py_reads_opt as_node ns) (\<lambda>nodes. py_bind (py_reads_opt as_edge es) (\<lambda>edges. py_bind (py_reads_opt as_axiom xs) (\<lambda>axioms.
       py_new (ObDelta \<lparr>d_nodes = nodes, d_edges = edges, d_axioms = axioms\<rparr>))))"

definition py_delta_with_node :: "nat \<Rightarrow> nat \<Rightarrow> nat py" where
  [code_defs]: "py_delta_with_node b a = py_bind (py_read as_node b) (\<lambda>x. py_modify as_delta ObDelta (delta_with_node x) a)"

definition py_delta_with_edge :: "nat \<Rightarrow> nat \<Rightarrow> nat py" where
  [code_defs]: "py_delta_with_edge b a = py_bind (py_read as_edge b) (\<lambda>x. py_modify as_delta ObDelta (delta_with_edge x) a)"

definition py_delta_with_axiom :: "nat \<Rightarrow> nat \<Rightarrow> nat py" where
  [code_defs]: "py_delta_with_axiom b a = py_bind (py_read as_axiom b) (\<lambda>x. py_modify as_delta ObDelta (delta_with_axiom x) a)"

definition py_delta_is_empty :: "nat \<Rightarrow> bool py" where
  [code_defs]: "py_delta_is_empty a = py_get as_delta delta_is_empty a"

definition py_delta_nodes :: "nat \<Rightarrow> nat list py" where
  [code_defs]: "py_delta_nodes a = py_get_list as_delta (\<lambda>x. map ObNode (d_nodes x)) a"

definition py_delta_edges :: "nat \<Rightarrow> nat list py" where
  [code_defs]: "py_delta_edges a = py_get_list as_delta (\<lambda>x. map ObEdge (d_edges x)) a"

definition py_delta_axioms :: "nat \<Rightarrow> nat list py" where
  [code_defs]: "py_delta_axioms a = py_get_list as_delta (\<lambda>x. map ObAxiom (d_axioms x)) a"

definition py_diff_added_nodes :: "nat \<Rightarrow> node_id list py" where
  [code_defs]: "py_diff_added_nodes a = py_get as_diff sd_added_nodes a"

definition py_diff_removed_nodes :: "nat \<Rightarrow> node_id list py" where
  [code_defs]: "py_diff_removed_nodes a = py_get as_diff sd_removed_nodes a"

definition py_diff_added_edges :: "nat \<Rightarrow> edge_id list py" where
  [code_defs]: "py_diff_added_edges a = py_get as_diff sd_added_edges a"

definition py_diff_removed_edges :: "nat \<Rightarrow> edge_id list py" where
  [code_defs]: "py_diff_removed_edges a = py_get as_diff sd_removed_edges a"

section \<open>Stores\<close>

definition py_new_store :: "mem_state \<Rightarrow> nat py" where
  [code_defs]: "py_new_store m s = py_new (ObStore (length (hs_stores s))) (s\<lparr>hs_stores := hs_stores s @ [m]\<rparr>)"

definition py_store_new :: "nat py" where
  [code_defs]: "py_store_new = py_new_store mem_new"

definition py_store_from_ontology :: "nat \<Rightarrow> nat py" where
  [code_defs]: "py_store_from_ontology q = py_bind (py_read as_ontology q) (\<lambda>x. py_new_store (mem_from_ontology x))"

text \<open>One operation of the trait on the store \<open>k\<close>; its error is a \<open>StoreError\<close>.\<close>

definition py_store_op :: "nat \<Rightarrow> (mem_state, 'a) st_op \<Rightarrow> 'a py" where
  [code_defs]: "py_store_op k f s =
     (if k < length (hs_stores s)
      then (case f (hs_stores s ! k) of
              (Inl e, m) \<Rightarrow> (Inl (PyStoreError (store_error_display e)), s\<lparr>hs_stores := (hs_stores s)[k := m]\<rparr>)
            | (Inr x, m) \<Rightarrow> (Inr x, s\<lparr>hs_stores := (hs_stores s)[k := m]\<rparr>))
      else (Inl PyArgument, s))"

definition py_store_snapshot_blocking :: "nat \<Rightarrow> nat py" where
  [code_defs]: "py_store_snapshot_blocking a =
     py_bind (py_read as_store a) (\<lambda>k. py_bind (py_store_op k (op_read mem_snapshot)) (\<lambda>q. py_new (ObOntology q)))"

text \<open>What an asynchronous method leaves to the runtime: a call on the store with the given number.\<close>

type_synonym submission = "nat \<times> store_call"

definition py_submit_with :: "(py_obj \<Rightarrow> 'a option) \<Rightarrow> ('a \<Rightarrow> store_call) \<Rightarrow> nat \<Rightarrow> nat \<Rightarrow> submission py" where
  [code_defs]: "py_submit_with sel c b a =
     py_bind (py_read as_store a) (\<lambda>k. py_bind (py_read sel b) (\<lambda>x. py_ret (k, c x)))"

definition py_store_upsert_node :: "nat \<Rightarrow> nat \<Rightarrow> submission py" where
  [code_defs]: "py_store_upsert_node b a = py_submit_with as_node CallUpsertNode b a"

definition py_store_upsert_edge :: "nat \<Rightarrow> nat \<Rightarrow> submission py" where
  [code_defs]: "py_store_upsert_edge b a = py_submit_with as_edge CallUpsertEdge b a"

definition py_store_upsert_axiom :: "nat \<Rightarrow> nat \<Rightarrow> submission py" where
  [code_defs]: "py_store_upsert_axiom b a = py_submit_with as_axiom CallUpsertAxiom b a"

definition py_store_match_pattern :: "nat \<Rightarrow> nat \<Rightarrow> submission py" where
  [code_defs]: "py_store_match_pattern b a = py_submit_with as_node_pattern CallMatch b a"

definition py_store_traverse :: "nat \<Rightarrow> nat \<Rightarrow> submission py" where
  [code_defs]: "py_store_traverse b a = py_submit_with as_plan CallTraverse b a"

definition py_store_diff :: "nat \<Rightarrow> nat \<Rightarrow> submission py" where
  [code_defs]: "py_store_diff b a = py_submit_with as_ontology CallDiff b a"

definition py_store_node :: "node_id \<Rightarrow> nat \<Rightarrow> submission py" where
  [code_defs]: "py_store_node i a = py_get as_store (\<lambda>k. (k, CallNode i)) a"

definition py_store_edge :: "edge_id \<Rightarrow> nat \<Rightarrow> submission py" where
  [code_defs]: "py_store_edge i a = py_get as_store (\<lambda>k. (k, CallEdge i)) a"

definition py_store_snapshot :: "nat \<Rightarrow> submission py" where
  [code_defs]: "py_store_snapshot a = py_get as_store (\<lambda>k. (k, CallSnapshot)) a"

definition py_store_provenance :: "nat \<Rightarrow> submission py" where
  [code_defs]: "py_store_provenance a = py_get as_store (\<lambda>k. (k, CallProvenance)) a"

definition py_store_commit_with_provenance :: "nat \<Rightarrow> nat \<Rightarrow> nat \<Rightarrow> submission py" where
  [code_defs]: "py_store_commit_with_provenance dl act a = 
     py_bind (py_read as_store a) (\<lambda>k. py_bind (py_read as_delta dl) (\<lambda>x. py_bind (py_read as_activity act) (\<lambda>y.
       py_ret (k, CallCommit x y))))"

text \<open>What awaiting the result gives.\<close>

datatype py_answer =
    AnsNone
  | AnsNode node_id
  | AnsEdge edge_id
  | AnsProv prov_id
  | AnsObject nat
  | AnsOption "nat option"
  | AnsObjects "nat list"

fun py_complete :: "nat \<Rightarrow> store_call \<Rightarrow> py_answer py" where
  "py_complete k (CallUpsertNode n) = py_bind (py_store_op k (op_upsert_node mem_ops n)) (\<lambda>i. py_ret (AnsNode i))"
| "py_complete k (CallUpsertEdge e) = py_bind (py_store_op k (op_upsert_edge mem_ops e)) (\<lambda>i. py_ret (AnsEdge i))"
| "py_complete k (CallUpsertAxiom x) = py_bind (py_store_op k (op_upsert_axiom mem_ops x)) (\<lambda>_. py_ret AnsNone)"
| "py_complete k (CallNode i) =
     py_bind (py_store_op k (op_node mem_ops i)) (\<lambda>n. py_bind (py_new_opt (map_option ObNode n)) (\<lambda>a. py_ret (AnsOption a)))"
| "py_complete k (CallEdge i) =
     py_bind (py_store_op k (op_edge mem_ops i)) (\<lambda>e. py_bind (py_new_opt (map_option ObEdge e)) (\<lambda>a. py_ret (AnsOption a)))"
| "py_complete k (CallMatch p) =
     py_bind (py_store_op k (op_match_pattern mem_ops p)) (\<lambda>rs. py_bind (py_news (map ObRow rs)) (\<lambda>as. py_ret (AnsObjects as)))"
| "py_complete k (CallTraverse p) =
     py_bind (py_store_op k (op_traverse mem_ops p)) (\<lambda>rs. py_bind (py_news (map ObRow rs)) (\<lambda>as. py_ret (AnsObjects as)))"
| "py_complete k CallSnapshot =
     py_bind (py_store_op k (op_snapshot mem_ops)) (\<lambda>q. py_bind (py_new (ObOntology q)) (\<lambda>a. py_ret (AnsObject a)))"
| "py_complete k (CallDiff q) =
     py_bind (py_store_op k (op_diff mem_ops q)) (\<lambda>x. py_bind (py_new (ObDiff x)) (\<lambda>a. py_ret (AnsObject a)))"
| "py_complete k (CallCommit x y) = py_bind (py_store_op k (op_commit mem_ops x y)) (\<lambda>i. py_ret (AnsProv i))"
| "py_complete k CallProvenance =
     py_bind (py_store_op k (op_provenance mem_ops)) (\<lambda>l. py_bind (py_new (ObLog l)) (\<lambda>a. py_ret (AnsObject a)))"

end
