(* ===== verification/Py_Tools.thy ===== *)
theory Py_Tools
  imports Py_Store Reason_Engine Org Testkit Viz Query_Sparql Shacl_Parse Import_Mapping Embed_Resolver
begin

text \<open>
  The synchronous parts of the other modules of \<open>crates/atomr-ontology-py/src\<close>: \<open>validate.rs\<close>, \<open>version.rs\<close>,
  \<open>reason.rs\<close>, \<open>org.rs\<close>, \<open>viz.rs\<close>, \<open>query.rs\<close>, \<open>shacl.rs\<close>, the functions of \<open>rdf.rs\<close>, \<open>import_.rs\<close>, the
  assertions and fixtures of \<open>testkit.rs\<close>, the index of \<open>embed.rs\<close> and the prompts of \<open>extract.rs\<close>. The text of an
  error of a parser is a parameter; a panic of one is a \<open>PyPanic\<close>.
\<close>

section \<open>Validation\<close>

text \<open>A finding made in Python carries the text it is given.\<close>

definition py_finding_error :: "string \<Rightarrow> string \<Rightarrow> nat py" where
  [code_defs]: "py_finding_error code msg = py_new (ObFinding (vf_error code (GivenText msg)))"

definition py_finding_warning :: "string \<Rightarrow> string \<Rightarrow> nat py" where
  [code_defs]: "py_finding_warning code msg = py_new (ObFinding (vf_warning code (GivenText msg)))"

definition py_finding_with_focus :: "string \<Rightarrow> nat \<Rightarrow> nat py" where
  [code_defs]: "py_finding_with_focus focus a = py_modify as_finding ObFinding (vf_at focus) a"

definition py_finding_severity :: "nat \<Rightarrow> severity py" where
  [code_defs]: "py_finding_severity a = py_get as_finding vf_severity a"

definition py_finding_code :: "nat \<Rightarrow> string py" where
  [code_defs]: "py_finding_code a = py_get as_finding vf_code a"

definition py_finding_message :: "nat \<Rightarrow> finding_text py" where
  [code_defs]: "py_finding_message a = py_get as_finding vf_message a"

definition py_finding_focus :: "nat \<Rightarrow> (string option) py" where
  [code_defs]: "py_finding_focus a = py_get as_finding vf_focus a"

definition py_report_new :: "nat py" where
  [code_defs]: "py_report_new = py_new (ObReport [])"

definition py_report_push :: "nat \<Rightarrow> nat \<Rightarrow> unit py" where
  [code_defs]: "py_report_push f a = 
     py_bind (py_read as_finding f) (\<lambda>x. py_bind (py_modify as_report ObReport (vr_push x) a) (\<lambda>_. py_ret ()))"

definition py_report_extend :: "nat \<Rightarrow> nat \<Rightarrow> unit py" where
  [code_defs]: "py_report_extend b a = py_bind (py_modify_by as_report ObReport vr_extend b a) (\<lambda>_. py_ret ())"

definition py_report_is_clean :: "nat \<Rightarrow> bool py" where
  [code_defs]: "py_report_is_clean a = py_get as_report vr_is_clean a"

definition py_report_findings :: "nat \<Rightarrow> nat list py" where
  [code_defs]: "py_report_findings a = py_get_list as_report (map ObFinding) a"

definition py_report_errors :: "nat \<Rightarrow> nat list py" where
  [code_defs]: "py_report_errors a = py_get_list as_report (\<lambda>r. map ObFinding (vr_errors r)) a"

definition py_validate :: "id_display \<Rightarrow> (string list \<Rightarrow> string list) \<Rightarrow> nat \<Rightarrow> nat py" where
  [code_defs]: "py_validate hexe order q = py_get_new as_ontology (\<lambda>x. ObReport (validate hexe order x)) q"

definition py_check_shapes :: "id_display \<Rightarrow> nat \<Rightarrow> nat py" where
  [code_defs]: "py_check_shapes hexe q = py_get_new as_ontology (\<lambda>x. ObReport (check_shapes hexe x)) q"

definition py_check_consistency :: "id_display \<Rightarrow> (string list \<Rightarrow> string list) \<Rightarrow> nat \<Rightarrow> nat py" where
  [code_defs]: "py_check_consistency hexe order q = py_get_new as_ontology (\<lambda>x. ObReport (check_consistency hexe order x)) q"

section \<open>Versions\<close>

fun version_error_display :: "hex_encoder \<Rightarrow> version_error \<Rightarrow> string" where
  "version_error_display hexe (UnknownBranch b) = ''unknown branch: '' @ b"
| "version_error_display hexe (UnknownCommit c) = ''unknown commit: '' @ hexe (commit_id_bytes c)"
| "version_error_display hexe (BranchExists b) = ''branch already exists: '' @ b"
| "version_error_display hexe (NothingToMerge b) = ''nothing to merge: branch '' @ b @ '' has no commits''"
| "version_error_display hexe (EmptyCurrentBranch b) = ''current branch '' @ b @ '' has no head; commit first''"
| "version_error_display hexe (SelfMerge b) = ''cannot merge branch '' @ b @ '' into itself''"

text \<open>An operation of the versioned store that may fail; its error is a \<open>RuntimeError\<close>.\<close>

definition py_versions_op :: "hex_encoder \<Rightarrow> (vstore \<Rightarrow> (version_error + 'a) \<times> vstore) \<Rightarrow> nat \<Rightarrow> 'a py" where
  [code_defs]: "py_versions_op hexe f a =
     py_bind (py_read as_versions a) (\<lambda>v.
       case f v of
         (Inl e, v') \<Rightarrow> py_lift (Inl (PyRuntimeError (version_error_display hexe e)))
       | (Inr x, v') \<Rightarrow> py_bind (py_write a (ObVersions v')) (\<lambda>_. py_ret x))"

definition py_versions_new :: "nat py" where
  [code_defs]: "py_versions_new = py_new (ObVersions v_init)"

definition py_versions_commit :: "hasher \<Rightarrow> json_to_vec \<Rightarrow> int \<Rightarrow> string \<Rightarrow> string \<Rightarrow> nat \<Rightarrow> nat \<Rightarrow> commit_id py" where
  [code_defs]: "py_versions_commit H to_vec now message author q a = 
     py_bind (py_read as_versions a) (\<lambda>v. py_bind (py_read as_ontology q) (\<lambda>x.
       case v_commit H to_vec now message author x v of (i, v') \<Rightarrow> py_bind (py_write a (ObVersions v')) (\<lambda>_. py_ret i)))"

definition py_versions_branch :: "hex_encoder \<Rightarrow> string \<Rightarrow> nat \<Rightarrow> unit py" where
  [code_defs]: "py_versions_branch hexe name a = py_versions_op hexe (v_branch name) a"

definition py_versions_checkout :: "hex_encoder \<Rightarrow> string \<Rightarrow> nat \<Rightarrow> unit py" where
  [code_defs]: "py_versions_checkout hexe name a = py_versions_op hexe (v_checkout name) a"

definition py_versions_merge :: "hasher \<Rightarrow> json_to_vec \<Rightarrow> hex_encoder \<Rightarrow> int \<Rightarrow> string \<Rightarrow> merge_strategy \<Rightarrow> nat \<Rightarrow> commit_id py" where
  [code_defs]: "py_versions_merge H to_vec hexe now other strategy a = 
     py_versions_op hexe (v_merge H to_vec hexe now other strategy) a"

definition py_versions_as_of :: "commit_id \<Rightarrow> nat \<Rightarrow> nat option py" where
  [code_defs]: "py_versions_as_of i a = py_get_opt as_versions (\<lambda>v. map_option ObOntology (as_of v i)) a"

definition py_versions_branches :: "nat \<Rightarrow> string list py" where
  [code_defs]: "py_versions_branches a = py_get as_versions branch_names a"

definition py_versions_current :: "nat \<Rightarrow> string py" where
  [code_defs]: "py_versions_current a = py_get as_versions v_current a"

section \<open>Reasoning\<close>

text \<open>A reasoner is a value; only its limit of iterations can be chosen from Python.\<close>

definition reasoner_error_display :: "reasoner_error \<Rightarrow> string" where
  [code_defs]: "reasoner_error_display e =
     (case e of Cycle limit \<Rightarrow> ''reasoning did not converge after '' @ show_nat limit @ '' iterations (cap reached)'')"

definition py_reasoner_new :: reasoner where
  [code_defs]: "py_reasoner_new = reasoner_new"

definition py_reasoner_with_max_iterations :: "nat \<Rightarrow> reasoner" where
  [code_defs]: "py_reasoner_with_max_iterations limit = reasoner_with_max_iterations limit reasoner_new"

definition py_reasoner_run :: "hasher \<Rightarrow> prov_id \<Rightarrow> int \<Rightarrow> int \<Rightarrow> reasoner \<Rightarrow> nat \<Rightarrow> (nat \<times> nat \<times> nat \<times> nat) py" where
  [code_defs]: "py_reasoner_run H fresh t0 t1 r q =
     py_bind (py_read as_ontology q) (\<lambda>x.
       case reason_run H fresh t0 t1 r x of
         Inl e \<Rightarrow> py_lift (Inl (PyRuntimeError (reasoner_error_display e)))
       | Inr rep \<Rightarrow> py_bind (py_new (ObActivity (rr_activity rep))) (\<lambda>a.
           py_ret (length (rr_axioms rep), length (rr_edges rep), rr_iterations rep, a)))"

definition py_reasoner_materialize :: "hasher \<Rightarrow> prov_id \<Rightarrow> int \<Rightarrow> int \<Rightarrow> reasoner \<Rightarrow> nat \<Rightarrow> nat py" where
  [code_defs]: "py_reasoner_materialize H fresh t0 t1 r q =
     py_bind (py_read as_ontology q) (\<lambda>x.
       case reason_materialize H fresh t0 t1 r x of
         (Inl e, x') \<Rightarrow> py_lift (Inl (PyRuntimeError (reasoner_error_display e)))
       | (Inr rep, x') \<Rightarrow> py_bind (py_write q (ObOntology x')) (\<lambda>_. py_new (ObActivity (rr_activity rep))))"

definition py_rule_set_len :: "rule list \<Rightarrow> nat" where
  [code_defs]: "py_rule_set_len rs = length rs"

section \<open>The organisation vocabulary and the fixtures\<close>

definition py_reference_ontology :: "hasher \<Rightarrow> nat py" where
  [code_defs]: "py_reference_ontology H = py_new (ObOntology (reference_ontology H))"

definition py_build_reference_vocabulary :: "hasher \<Rightarrow> nat \<Rightarrow> unit py" where
  [code_defs]: "py_build_reference_vocabulary H q = 
     py_bind (py_modify as_ontology ObOntology (build_reference_vocabulary H) q) (\<lambda>_. py_ret ())"

definition py_toy_org_ontology :: "hasher \<Rightarrow> nat py" where
  [code_defs]: "py_toy_org_ontology H = py_new (ObOntology (toy_org_ontology H))"

definition py_assert_axiom_present :: "string \<Rightarrow> string option \<Rightarrow> nat \<Rightarrow> unit py" where
  [code_defs]: "py_assert_axiom_present tag message q = 
     py_bind (py_read as_ontology q) (\<lambda>x.
       if assert_axiom_present (\<lambda>k. axiom_tag k = tag) x then py_ret ()
       else py_lift (Inl (PyAssertionError (case message of Some m \<Rightarrow> m | None \<Rightarrow> ''axiom not present''))))"

definition py_assert_subclass_of :: "string \<Rightarrow> string \<Rightarrow> nat \<Rightarrow> unit py" where
  [code_defs]: "py_assert_subclass_of sub super q = 
     py_bind (py_read as_ontology q) (\<lambda>x.
       if assert_subclass_of sub super x then py_ret ()
       else py_lift (Inl (PyAssertionError (''expected `'' @ sub @ ''` to be a subclass of `'' @ super @ ''`''))))"

section \<open>Rendering, queries, shapes\<close>

definition py_render_ontology_dot :: "(property_value \<Rightarrow> string) \<Rightarrow> (bytes \<Rightarrow> string) \<Rightarrow> nat \<Rightarrow> string py" where
  [code_defs]: "py_render_ontology_dot dbg hexe q = py_get as_ontology (render_ontology_dot dbg hexe) q"

definition py_render_ontology_mermaid :: "(property_value \<Rightarrow> string) \<Rightarrow> (bytes \<Rightarrow> string) \<Rightarrow> nat \<Rightarrow> string py" where
  [code_defs]: "py_render_ontology_mermaid dbg hexe q = py_get as_ontology (render_ontology_mermaid dbg hexe) q"

definition py_render_provenance_dot :: "(bytes \<Rightarrow> string) \<Rightarrow> nat \<Rightarrow> string py" where
  [code_defs]: "py_render_provenance_dot hexe l = py_get as_log (render_provenance_dot hexe) l"

definition py_render_provenance_mermaid :: "(bytes \<Rightarrow> string) \<Rightarrow> nat \<Rightarrow> string py" where
  [code_defs]: "py_render_provenance_mermaid hexe l = py_get as_log (render_provenance_mermaid hexe) l"

definition py_parse_cypher :: "(cy_failure \<Rightarrow> string) \<Rightarrow> string \<Rightarrow> nat py" where
  [code_defs]: "py_parse_cypher disp q =
     (case cy_parse q of
        Inr p \<Rightarrow> py_new (ObPlan p)
      | Inl CyPanic \<Rightarrow> py_lift (Inl PyPanic)
      | Inl e \<Rightarrow> py_lift (Inl (PyValueError (disp e))))"

definition py_parse_sparql :: "(sq_failure \<Rightarrow> string) \<Rightarrow> string \<Rightarrow> nat py" where
  [code_defs]: "py_parse_sparql disp q =
     (case sq_parse q of
        Inr p \<Rightarrow> py_new (ObPlan p)
      | Inl SqPanic \<Rightarrow> py_lift (Inl PyPanic)
      | Inl e \<Rightarrow> py_lift (Inl (PyValueError (disp e))))"

definition py_to_shacl_turtle :: "(shacl_compile_error \<Rightarrow> string) \<Rightarrow> nat \<Rightarrow> string py" where
  [code_defs]: "py_to_shacl_turtle disp a =
     py_get_result as_schema (\<lambda>s. case to_shacl_turtle s of Inl e \<Rightarrow> Inl (PyValueError (disp e)) | Inr t \<Rightarrow> Inr t) a"

definition py_from_shacl_turtle :: "(shacl_parse_error \<Rightarrow> string) \<Rightarrow> string \<Rightarrow> nat py" where
  [code_defs]: "py_from_shacl_turtle disp input =
     (case from_shacl_turtle input of
        Inl e \<Rightarrow> py_lift (Inl (PyValueError (disp e)))
      | Inr s \<Rightarrow> py_new (ObSchema s))"

section \<open>RDF\<close>

text \<open>Triples are values. Reading triples into an ontology cannot fail.\<close>

definition py_to_rdf :: "rdf_text \<Rightarrow> nat \<Rightarrow> rdf_triple list py" where
  [code_defs]: "py_to_rdf rt q = py_get as_ontology (to_rdf rt) q"

definition py_from_rdf :: "rdf_triple list \<Rightarrow> nat py" where
  [code_defs]: "py_from_rdf ts = py_new (ObOntology (from_rdf ts))"

definition py_turtle_write :: "rdf_text \<Rightarrow> nat \<Rightarrow> string py" where
  [code_defs]: "py_turtle_write rt q = py_get as_ontology (ttl_write rt) q"

definition py_ntriples_write :: "rdf_text \<Rightarrow> nat \<Rightarrow> string py" where
  [code_defs]: "py_ntriples_write rt q = py_get as_ontology (nt_write rt) q"

definition py_jsonld_write :: "(json \<Rightarrow> string option) \<Rightarrow> rdf_text \<Rightarrow> nat \<Rightarrow> string py" where
  [code_defs]: "py_jsonld_write pretty rt q =
     py_get_result as_ontology (\<lambda>x. case jl_write pretty rt x of None \<Rightarrow> Inl PyPanic | Some s \<Rightarrow> Inr s) q"

text \<open>\<open>adapter_err\<close>\<close>

definition ttl_py_error :: "(ttl_error \<Rightarrow> string) \<Rightarrow> ttl_error \<Rightarrow> py_error" where
  [code_defs]: "ttl_py_error disp e = PyAdapterError (disp e)"

definition nt_py_error :: "(nat \<times> nt_error \<Rightarrow> string) \<Rightarrow> nat \<times> nt_failure \<Rightarrow> py_error" where
  [code_defs]: "nt_py_error disp e = (case snd e of NtPanic \<Rightarrow> PyPanic | NtMalformed f \<Rightarrow> PyAdapterError (disp (fst e, f)))"

definition py_turtle_parse :: "(ttl_error \<Rightarrow> string) \<Rightarrow> string \<Rightarrow> rdf_triple list py" where
  [code_defs]: "py_turtle_parse disp input = py_lift (map_sum (ttl_py_error disp) id (ttl_parse input))"

definition py_turtle_read :: "(ttl_error \<Rightarrow> string) \<Rightarrow> string \<Rightarrow> nat py" where
  [code_defs]: "py_turtle_read disp input =
     (case ttl_read input of Inl e \<Rightarrow> py_lift (Inl (ttl_py_error disp e)) | Inr q \<Rightarrow> py_new (ObOntology q))"

definition py_ntriples_parse :: "(nat \<times> nt_error \<Rightarrow> string) \<Rightarrow> string \<Rightarrow> rdf_triple list py" where
  [code_defs]: "py_ntriples_parse disp input = py_lift (map_sum (nt_py_error disp) id (nt_parse input))"

definition py_ntriples_read :: "(nat \<times> nt_error \<Rightarrow> string) \<Rightarrow> string \<Rightarrow> nat py" where
  [code_defs]: "py_ntriples_read disp input =
     (case nt_read input of Inl e \<Rightarrow> py_lift (Inl (nt_py_error disp e)) | Inr q \<Rightarrow> py_new (ObOntology q))"

definition py_jsonld_parse :: "(json \<Rightarrow> string) \<Rightarrow> (string \<Rightarrow> string + json) \<Rightarrow> string \<Rightarrow> rdf_triple list py" where
  [code_defs]: "py_jsonld_parse to_s read_json input =
     py_lift (map_sum (\<lambda>e. PyAdapterError (''parse error: '' @ e)) id (jl_parse to_s read_json input))"

definition py_jsonld_read :: "(json \<Rightarrow> string) \<Rightarrow> (string \<Rightarrow> string + json) \<Rightarrow> string \<Rightarrow> nat py" where
  [code_defs]: "py_jsonld_read to_s read_json input =
     (case jl_read to_s read_json input of
        Inl e \<Rightarrow> py_lift (Inl (PyAdapterError (''parse error: '' @ e)))
      | Inr q \<Rightarrow> py_new (ObOntology q))"

section \<open>Imports\<close>

definition py_import :: "('e \<Rightarrow> string) \<Rightarrow> 'e + ontology \<times> activity \<Rightarrow> (nat \<times> nat) py" where
  [code_defs]: "py_import disp r =
     (case r of
        Inl e \<Rightarrow> py_lift (Inl (PyValueError (disp e)))
      | Inr (q, act) \<Rightarrow> py_bind (py_new (ObOntology q)) (\<lambda>a. py_bind (py_new (ObActivity act)) (\<lambda>b. py_ret (a, b))))"

definition py_import_skos ::
    "(ttl_error \<Rightarrow> string) \<Rightarrow> hasher \<Rightarrow> (string \<Rightarrow> 64 word option) \<Rightarrow> prov_id \<Rightarrow> int \<Rightarrow> int \<Rightarrow> string \<Rightarrow> (nat \<times> nat) py" where
  [code_defs]: "py_import_skos disp H parse_f64 fresh now later input = py_import disp (import_skos H parse_f64 fresh now later input)"

definition py_import_foaf ::
    "(ttl_error \<Rightarrow> string) \<Rightarrow> hasher \<Rightarrow> (string \<Rightarrow> 64 word option) \<Rightarrow> prov_id \<Rightarrow> int \<Rightarrow> int \<Rightarrow> string \<Rightarrow> (nat \<times> nat) py" where
  [code_defs]: "py_import_foaf disp H parse_f64 fresh now later input = py_import disp (import_foaf H parse_f64 fresh now later input)"

definition py_import_schema_org ::
    "(string \<Rightarrow> string) \<Rightarrow> hasher \<Rightarrow> (string \<Rightarrow> 64 word option) \<Rightarrow> (json \<Rightarrow> string) \<Rightarrow> (string \<Rightarrow> string + json) \<Rightarrow>
       prov_id \<Rightarrow> int \<Rightarrow> int \<Rightarrow> string \<Rightarrow> (nat \<times> nat) py" where
  [code_defs]: "py_import_schema_org disp H parse_f64 to_s read_json fresh now later input =
     py_import disp (import_schema_org H parse_f64 to_s read_json fresh now later input)"

section \<open>Vectors and prompts\<close>

definition py_vector_record_new :: "string \<Rightarrow> 32 word list \<Rightarrow> nat py" where
  [code_defs]: "py_vector_record_new i v = py_new (ObVectorRecord (vector_record_new i v))"

definition py_vector_record_iri :: "nat \<Rightarrow> string py" where
  [code_defs]: "py_vector_record_iri a = py_get as_vector_record vr_iri a"

definition py_vector_record_vector :: "nat \<Rightarrow> 32 word list py" where
  [code_defs]: "py_vector_record_vector a = py_get as_vector_record vr_vector a"

definition py_vector_index_new :: "nat py" where
  [code_defs]: "py_vector_index_new = py_new (ObVectorIndex vi_new)"

definition py_vector_index_with_dimensions :: "nat \<Rightarrow> nat py" where
  [code_defs]: "py_vector_index_with_dimensions dm = py_new (ObVectorIndex (vi_with_dimensions dm))"

definition py_vector_index_insert :: "nat \<Rightarrow> nat \<Rightarrow> unit py" where
  [code_defs]: "py_vector_index_insert r a = 
     py_bind (py_read as_vector_index a) (\<lambda>ix. py_bind (py_read as_vector_record r) (\<lambda>x.
       case vi_insert x ix of
         Inl e \<Rightarrow> py_lift (Inl (PyRuntimeError (vi_error_display e)))
       | Inr ix' \<Rightarrow> py_bind (py_write a (ObVectorIndex ix')) (\<lambda>_. py_ret ())))"

definition py_vector_index_search :: "32 word list \<Rightarrow> nat \<Rightarrow> nat \<Rightarrow> (string \<times> 32 word) list py" where
  [code_defs]: "py_vector_index_search query top_k a = 
     py_get as_vector_index (\<lambda>ix. map (\<lambda>(r, s). (vr_iri r, s)) (vi_search query top_k ix)) a"

definition py_vector_index_len :: "nat \<Rightarrow> nat py" where
  [code_defs]: "py_vector_index_len a = py_get as_vector_index vi_len a"

definition py_vector_index_clear :: "nat \<Rightarrow> unit py" where
  [code_defs]: "py_vector_index_clear a = py_bind (py_modify as_vector_index ObVectorIndex vi_clear a) (\<lambda>_. py_ret ())"

definition py_prompt_new :: "string \<Rightarrow> string option \<Rightarrow> 32 word option \<Rightarrow> nat py" where
  [code_defs]: "py_prompt_new user system max_tokens = 
     (let p = prompt_user user;
          p = (case system of Some s \<Rightarrow> prompt_with_system s p | None \<Rightarrow> p);
          p = (case max_tokens of Some n \<Rightarrow> prompt_with_max_tokens n p | None \<Rightarrow> p)
      in py_new (ObPrompt p))"

definition py_prompt_user :: "string \<Rightarrow> nat py" where
  [code_defs]: "py_prompt_user body = py_new (ObPrompt (prompt_user body))"

definition py_prompt_with_system :: "string \<Rightarrow> nat \<Rightarrow> nat py" where
  [code_defs]: "py_prompt_with_system body a = py_modify as_prompt ObPrompt (prompt_with_system body) a"

definition py_prompt_with_max_tokens :: "32 word \<Rightarrow> nat \<Rightarrow> nat py" where
  [code_defs]: "py_prompt_with_max_tokens n a = py_modify as_prompt ObPrompt (prompt_with_max_tokens n) a"

definition py_prompt_user_text :: "nat \<Rightarrow> string py" where
  [code_defs]: "py_prompt_user_text a = py_get as_prompt pr_user a"

definition py_prompt_system :: "nat \<Rightarrow> (string option) py" where
  [code_defs]: "py_prompt_system a = py_get as_prompt pr_system a"

definition py_prompt_max_tokens :: "nat \<Rightarrow> (32 word option) py" where
  [code_defs]: "py_prompt_max_tokens a = py_get as_prompt pr_max_tokens a"

end
