(* ===== verification/Py_Results.thy ===== *)
theory Py_Results
  imports Py_Tools
begin

text \<open>
  The ontologies, schemas and versions that the tools hand to Python are well-formed: what the vocabulary builder, the
  readers, the importers, the reasoner and the versioned store produce satisfies \<open>obj_wf\<close>.
\<close>

section \<open>Schemas and vocabularies\<close>

lemma deep_wf_schema:
  "deep_wf q \<Longrightarrow> deep_wf (q\<lparr>o_schema := declare_node_type t (o_schema q)\<rparr>)"
  "deep_wf q \<Longrightarrow> deep_wf (q\<lparr>o_schema := declare_edge_type u (o_schema q)\<rparr>)"
  by (simp_all add: deep_wfD(7) schema_wf_declare_node_type schema_wf_declare_edge_type)

lemma deep_wf_build_reference: "deep_wf q \<Longrightarrow> deep_wf (build_reference_vocabulary H q)"
  unfolding build_reference_vocabulary_def Let_def
  by (intro fold_invariant [where P = deep_wf] deep_wf_ops(6) deep_wf_schema deep_wf_ops(7))
    (simp_all add: deep_wfD(6) with_standard_bindings_wf)

lemma deep_wf_reference: "deep_wf (reference_ontology H)"
proof -
  have "ontology_with_iri ''https://atomr.dev/ontology/org/v1'' = Inr (ontology_new\<lparr>o_iri := Some (Iri ''https://atomr.dev/ontology/org/v1'')\<rparr>)"
    unfolding ontology_with_iri_def by code_simp
  then show ?thesis by (simp add: reference_ontology_def deep_wf_build_reference)
qed

lemma deep_wf_toy: "deep_wf (toy_org_ontology H)"
  by (simp add: toy_org_ontology_def toy_company_def toy_schema_def Let_def with_standard_bindings_wf deep_wfD(7)
      schema_wf_declare_node_type schema_wf_declare_edge_type
      node_with_property_def node_with_label_def node_from_iri_def edge_between_def)

section \<open>Reading\<close>

lemma deep_wf_from_rdf: "deep_wf (from_rdf ts)"
  unfolding from_rdf_def
proof (rule fold_invariant [where P = deep_wf])
  show "deep_wf (from_rdf_step t q)" if "deep_wf q" for t q
    using that by (auto simp: from_rdf_step_def Let_def intro!: deep_wf_schema split: subject.split object.split)
qed simp

lemma deep_wf_readers:
  "ttl_read input = Inr q \<Longrightarrow> deep_wf q" "nt_read input = Inr q \<Longrightarrow> deep_wf q" "jl_read to_s read_json input = Inr q \<Longrightarrow> deep_wf q"
  by (auto simp: ttl_read_def nt_read_def jl_read_def deep_wf_from_rdf split: sum.splits)

lemma schema_wf_shape_step: "shape_step by_subject k s = Inr s' \<Longrightarrow> schema_wf s \<Longrightarrow> schema_wf s'"
  by (auto simp: shape_step_def schema_wf_declare_node_type split: option.splits)

lemma schema_wf_from_shacl: "from_shacl_turtle input = Inr s \<Longrightarrow> schema_wf s"
proof -
  have "try_fold (shape_step m) ks s = Inr s' \<Longrightarrow> schema_wf s \<Longrightarrow> schema_wf s'" for m ks s s'
    by (induction ks arbitrary: s) (auto split: sum.splits dest: schema_wf_shape_step)
  then show "from_shacl_turtle input = Inr s \<Longrightarrow> schema_wf s"
    by (auto simp: from_shacl_turtle_def build_schema_def schema_wf_new split: sum.splits)
qed

section \<open>Imports\<close>

lemma deep_wf_declare_mapping: "deep_wf (declare_mapping m)"
proof (cases "fold declare_class (vm_classes m) (props_by_class m, schema_new)")
  case (Pair r s)
  then have "schema_wf s" using fold_declare_class_wf [of "(props_by_class m, schema_new)" "vm_classes m"]
    by (simp add: schema_new_def schema_wf_def)
  then show ?thesis
    by (simp add: declare_mapping_def Pair Let_def case_prod_unfold fold_declare_node_type_wf fold_declare_edge_type_wf)
qed

lemma fold_labels_props: "n_props (fold node_with_label ls n) = n_props n"
  by (induction ls arbitrary: n) (simp_all add: node_with_label_def)

lemma deep_wf_ensure_node: "deep_wf q \<Longrightarrow> deep_wf (snd (ensure_node H types i fallback q))"
  by (auto simp: ensure_node_def Let_def merge_types_def fold_labels_props node_from_iri_def deep_wfD(4) ont_node_def
      intro!: deep_wf_ops(4) split: option.split list.split)

lemma deep_wf_project_mapping: "deep_wf q \<Longrightarrow> deep_wf (project_mapping H parse_f64 m ts q)"
proof -
  have "deep_wf (project_triple H parse_f64 m types t q)" if "deep_wf q" for types t q
  proof -
    have data: "deep_wf (project_data H parse_f64 types subj spec ob q)" for subj spec ob
      using that deep_wf_ensure_node [OF that, of H types subj None] deep_wfD(4)
      by (auto simp: project_data_def ont_node_def node_with_property_def intro!: deep_wf_ops(4) split: option.split prod.split)
    have "deep_wf (project_object H types fb subj spec ob q)" for fb subj spec ob
      using that deep_wf_ensure_node [OF that, of H types subj None] deep_wf_ensure_node
      by (auto simp: project_object_def edge_between_def intro!: deep_wf_ops(5) split: object.split option.split prod.split)
        (metis snd_conv)+
    with data that show ?thesis by (auto simp: project_triple_def split: subject.split option.split)
  qed
  then show "deep_wf q \<Longrightarrow> deep_wf (project_mapping H parse_f64 m ts q)"
    unfolding project_mapping_def Let_def by (intro fold_invariant [where P = deep_wf] deep_wf_ensure_node) auto
qed

lemma deep_wf_mirror: "deep_wf q \<Longrightarrow> deep_wf (mirror_pref_label_as_name q)"
  unfolding mirror_pref_label_as_name_def
proof (rule fold_invariant [where P = deep_wf])
  show "deep_wf (mirror_node i q)" if "deep_wf q" for i q
    using that deep_wfD(4) [OF that]
    by (auto simp: mirror_node_def ont_node_def node_with_property_def intro!: deep_wf_ops(4) split: option.split property_value.split)
qed

lemma deep_wf_imports:
  "import_foaf H f fresh now later input = Inr (q, act) \<Longrightarrow> deep_wf q"
  "import_skos H f fresh now later input = Inr (q, act) \<Longrightarrow> deep_wf q"
  "import_schema_org H f to_s read_json fresh now later input = Inr (q, act) \<Longrightarrow> deep_wf q"
  by (auto simp: import_foaf_def import_skos_def import_schema_org_def Let_def deep_wf_project_mapping deep_wf_declare_mapping
      deep_wf_mirror split: sum.splits)

section \<open>Reasoning\<close>

lemma deep_wf_reason_loop: "deep_wf q \<Longrightarrow> reason_loop H p rules cap i q = Inr (n, w) \<Longrightarrow> deep_wf w"
proof (erule reason_loop_invariant [where P = deep_wf], assumption)
  show "deep_wf (fst (engine_pass H p rules v))" if "deep_wf v" for v
  proof (rule engine_pass_invariant [where P = deep_wf and Q = "\<lambda>_. True" and R = "\<lambda>_. True"])
    fix v and t :: "string \<times> node_id \<times> node_id" assume "deep_wf v"
    then show "deep_wf (upsert_edge (triple_edge H t) v)" by (cases t) (simp add: edge_between_def)
  qed (use that in auto)
qed

lemma deep_wf_materialize:
  assumes "deep_wf q" "reason_materialize H fresh t0 t1 r q = (Inr rep, q')"
  shows "deep_wf q'"
proof -
  obtain p n w where w: "reason_loop H p (re_rules r) (re_max r) 0 q = Inr (n, w)"
    "rr_edges rep = sort_key e_id (map snd (filter (\<lambda>(i, _). i \<notin> set (bm_keys (o_edges q))) (o_edges w)))"
    and q': "q' = fold upsert_edge (rr_edges rep) (fold upsert_axiom (rr_axioms rep) q)"
    using assms(2) by (auto simp: reason_materialize_def reason_run_def Let_def split: sum.splits)
  have "bm_wf (e_props e)" if "e \<in> set (rr_edges rep)" for e
    using deep_wfD(3) [OF deep_wf_reason_loop [OF assms(1) w(1)]] that by (auto simp: w(2) bm_values_def)
  then show ?thesis unfolding q' by (intro fold_invariant [where P = deep_wf] deep_wf_ops(5,6)) (use assms(1) in auto)
qed

section \<open>Versions\<close>

lemma deep_wf_merge: "deep_wf a \<Longrightarrow> deep_wf b \<Longrightarrow> deep_wf (merge_snapshots a b strategy)"
proof (cases strategy)
  case Union
  assume wf: "deep_wf a" "deep_wf b"
  have m: "bm_wf (o_nodes a)" "bm_wf (o_nodes b)" "bm_wf (o_edges a)" "bm_wf (o_edges b)"
    using wf by (auto simp: deep_wf_def ont_wf_def)
  have props: "\<forall>(k, n) \<in> set (o_nodes x). bm_wf (n_props n)" "\<forall>(k, e) \<in> set (o_edges x). bm_wf (e_props e)"
    if "deep_wf x" for x
    using that by (force simp: deep_wf_def bm_values_def)+
  note union_into_entries [OF m(1,2) props(1) [OF wf(1)] props(1) [OF wf(2)]]
    union_into_entries [OF m(3,4) props(2) [OF wf(1)] props(2) [OF wf(2)]]
  moreover have "ont_wf (merge_snapshots a b strategy)" using wf by (simp add: ont_wf_merge deep_wfD(1))
  ultimately show ?thesis by (auto simp: deep_wf_def merge_snapshots_def Union bm_values_def)
qed (simp_all add: merge_snapshots_def)

lemma obj_wf_append: "obj_wf (ObVersions v) \<Longrightarrow> deep_wf (c_snapshot c) \<Longrightarrow> obj_wf (ObVersions (v_append c v))"
  by (auto simp: v_append_def dest!: values_insert)

lemma obj_wf_versions:
  "obj_wf (ObVersions v_init)"
  "obj_wf (ObVersions v) \<Longrightarrow> deep_wf x \<Longrightarrow> obj_wf (ObVersions (snd (v_commit H to_vec now message author x v)))"
  "obj_wf (ObVersions v) \<Longrightarrow> obj_wf (ObVersions (snd (v_branch name v)))"
  "obj_wf (ObVersions v) \<Longrightarrow> obj_wf (ObVersions (snd (v_checkout name v)))"
  "obj_wf (ObVersions v) \<Longrightarrow> obj_wf (ObVersions (snd (v_merge H to_vec hexe now other strategy v)))"
proof -
  show "obj_wf (ObVersions v_init)" by (simp add: v_init_def bm_values_def)
  show "obj_wf (ObVersions (snd (v_commit H to_vec now message author x v)))" if "obj_wf (ObVersions v)" "deep_wf x"
    unfolding v_commit_def Let_def snd_conv by (rule obj_wf_append [OF that(1)]) (simp add: commit_new_def that(2))
  show "obj_wf (ObVersions (snd (v_branch name v)))" if "obj_wf (ObVersions v)"
    using that by (auto simp: v_branch_def split: option.split)
  show "obj_wf (ObVersions (snd (v_checkout name v)))" if "obj_wf (ObVersions v)"
    using that by (auto simp: v_checkout_def)
  show "obj_wf (ObVersions (snd (v_merge H to_vec hexe now other strategy v)))" if v: "obj_wf (ObVersions v)"
  proof -
    have snap: "deep_wf (c_snapshot c)" if "map_of (v_commits v) i = Some c" for i c
      using v that by (force simp: bm_values_def dest: map_of_SomeD)
    have "snd (v_merge H to_vec hexe now other strategy v) = v \<or>
        (\<exists>c i j a b. map_of (v_commits v) i = Some a \<and> map_of (v_commits v) j = Some b \<and>
           c_snapshot c = merge_snapshots (c_snapshot a) (c_snapshot b) strategy \<and>
           snd (v_merge H to_vec hexe now other strategy v) = v_append c v)"
      unfolding v_merge_def Let_def commit_new_def by (simp split: option.split) (force intro: exI)
    then show ?thesis using v snap deep_wf_merge obj_wf_append by metis
  qed
qed

lemma obj_wf_as_of: "obj_wf (ObVersions v) \<Longrightarrow> as_of v i = Some q \<Longrightarrow> deep_wf q"
  by (force simp: as_of_def bm_values_def dest: map_of_SomeD)

end
