(* ===== verification/Py_Session.thy ===== *)
theory Py_Session
  imports Py_Program Py_Results
begin

text \<open>
  Programs in Python: the calls of \<open>Py_Store\<close> and \<open>Py_Tools\<close> that make or change objects, with the object that each
  may change, sequences of calls, and what a program can and cannot change.
\<close>

section \<open>Stores, patterns, provenance\<close>

inductive py_store_method :: "py_env \<Rightarrow> nat set \<Rightarrow> unit py \<Rightarrow> bool" for E where

  "py_store_method E {} (py_void (py_activity_started fresh now l))"
| "py_store_method E {} (py_void (py_activity_finish now a))"
| "py_store_method E {a} (py_void (py_activity_by g a))"
| "py_store_method E {a} (py_void (py_activity_with_attribute E key v a))"
| "py_store_method E {} (py_void (py_entity_new fresh l dig))"
| "py_store_method E {} (py_void (py_log_new))"
| "py_store_method E {a} (py_void (py_log_record_activity b a))"
| "py_store_method E {a} (py_void (py_log_record_entity b a))"
| "py_store_method E {a} (py_void (py_log_generated p q a))"
| "py_store_method E {a} (py_void (py_log_derived p q a))"
| "py_store_method E {a} (py_void (py_log_attributed p g a))"
| "py_store_method E {a} (py_void (py_log_used p q a))"
| "py_store_method E {} (py_void (py_log_activity i a))"
| "py_store_method E {} (py_void (py_log_entity i a))"
| "py_store_method E {} (py_void (py_log_activities a))"
| "py_store_method E {} (py_void (py_log_entities a))"
| "py_store_method E {} (py_void (py_node_pattern_any))"
| "py_store_method E {a} (py_void (py_node_pattern_bind x a))"
| "py_store_method E {a} (py_void (py_node_pattern_typed x a))"
| "py_store_method E {a} (py_void (py_node_pattern_with_property x v a))"
| "py_store_method E {a} (py_void (py_node_pattern_with_id i a))"
| "py_store_method E {a} (py_void (py_node_pattern_or b a))"
| "py_store_method E {a} (py_void (py_node_pattern_not b a))"
| "py_store_method E {} (py_void (py_edge_pattern_any))"
| "py_store_method E {a} (py_void (py_edge_pattern_bind x a))"
| "py_store_method E {a} (py_void (py_edge_pattern_labeled x a))"
| "py_store_method E {a} (py_void (py_edge_pattern_with_property x v a))"
| "py_store_method E {a} (py_void (py_edge_pattern_repeat lo hi a))"
| "py_store_method E {} (py_void (py_step_outbound e t))"
| "py_store_method E {} (py_void (py_step_inbound e t))"
| "py_store_method E {} (py_void (py_plan_new b))"
| "py_store_method E {a} (py_void (py_plan_outbound e t a))"
| "py_store_method E {a} (py_void (py_plan_inbound e t a))"
| "py_store_method E {a} (py_void (py_plan_return cols a))"
| "py_store_method E {a} (py_void (py_plan_order_by x a))"
| "py_store_method E {a} (py_void (py_plan_order_by_desc x a))"
| "py_store_method E {a} (py_void (py_plan_skip n a))"
| "py_store_method E {a} (py_void (py_plan_limit n a))"
| "py_store_method E {} (py_void (py_row_new))"
| "py_store_method E {} (py_void (py_delta_new ns es xs))"
| "py_store_method E {a} (py_void (py_delta_with_node b a))"
| "py_store_method E {a} (py_void (py_delta_with_edge b a))"
| "py_store_method E {a} (py_void (py_delta_with_axiom b a))"
| "py_store_method E {} (py_void (py_delta_nodes a))"
| "py_store_method E {} (py_void (py_delta_edges a))"
| "py_store_method E {} (py_void (py_delta_axioms a))"
| "py_store_method E {} (py_void (py_store_snapshot_blocking a))"

lemmas py_store_methods =
  py_activity_started_def py_activity_finish_def py_activity_by_def py_activity_with_attribute_def
  py_entity_new_def py_log_new_def py_log_record_activity_def py_log_record_entity_def py_log_generated_def
  py_log_derived_def py_log_attributed_def py_log_used_def py_log_activity_def py_log_entity_def
  py_log_activities_def py_log_entities_def py_node_pattern_any_def py_node_pattern_bind_def
  py_node_pattern_typed_def py_node_pattern_with_property_def py_node_pattern_with_id_def
  py_node_pattern_or_def py_node_pattern_not_def py_edge_pattern_any_def py_edge_pattern_bind_def
  py_edge_pattern_labeled_def py_edge_pattern_with_property_def py_edge_pattern_repeat_def py_step_outbound_def
  py_step_inbound_def py_plan_new_def py_plan_outbound_def py_plan_inbound_def py_plan_return_def
  py_plan_order_by_def py_plan_order_by_desc_def py_plan_skip_def py_plan_limit_def py_row_new_def
  py_delta_new_def py_delta_with_node_def py_delta_with_edge_def py_delta_with_axiom_def py_delta_nodes_def
  py_delta_edges_def py_delta_axioms_def py_store_snapshot_blocking_def

lemma disciplined_snapshot:
  "disciplined R (py_bind (py_store_op k (op_read mem_snapshot)) (\<lambda>q. py_new (ObOntology q)))"
proof (rule disciplined_bind_pure)
  show "snd (py_store_op k (op_read mem_snapshot) s) = s" for s
    by (simp add: py_store_op_def op_read_def)
  fix s q assume "heap_wf s" "fst (py_store_op k (op_read mem_snapshot) s) = Inr q"
  then have "deep_wf q" by (auto simp: py_store_op_def op_read_def mem_snapshot_def heap_wf_def split: if_splits)
  then show "disciplined R (py_new (ObOntology q))" by (intro disciplined_new) simp
qed

lemma disciplined_modify_by:
  assumes "a \<in> R" "py_class con sel" "\<And>x y. obj_wf (con (f y x))"
  shows "disciplined R (py_modify_by sel con f b a)"
  unfolding py_modify_by_def
  by (intro py_class.disciplined_read_bind [OF assms(2)])
    (auto intro!: py_class.disciplined_read_bind [OF assms(2)] disciplined_write assms(1,3) split: if_split)

lemma py_store_method_disciplined: "py_store_method E R m \<Longrightarrow> disciplined R m"
  by (induction rule: py_store_method.induct; rule disciplined_void;
      unfold py_store_methods py_get_list_def py_get_opt_def py_get_new_def py_with_value_def py_reads_opt_def;
      (intro disciplined_intros disciplined_snapshot disciplined_modify_by node_pattern_class.py_class_axioms)?;
      auto simp: delta_with_node_def delta_with_edge_def delta_with_axiom_def intro!: disciplined_new)

section \<open>Tools\<close>

inductive py_tool_method :: "hasher \<Rightarrow> nat set \<Rightarrow> unit py \<Rightarrow> bool" for H where
  "py_tool_method H {} (py_void (py_finding_error code msg))"
| "py_tool_method H {} (py_void (py_finding_warning code msg))"
| "py_tool_method H {a} (py_void (py_finding_with_focus focus a))"
| "py_tool_method H {} (py_void (py_report_new))"
| "py_tool_method H {a} (py_void (py_report_push b a))"
| "py_tool_method H {a} (py_void (py_report_extend b a))"
| "py_tool_method H {} (py_void (py_report_findings a))"
| "py_tool_method H {} (py_void (py_report_errors a))"
| "py_tool_method H {} (py_void (py_validate hexe order q))"
| "py_tool_method H {} (py_void (py_check_shapes hexe q))"
| "py_tool_method H {} (py_void (py_check_consistency hexe order q))"
| "py_tool_method H {} (py_void (py_versions_new))"
| "py_tool_method H {a} (py_void (py_versions_commit H to_vec now message author q a))"
| "py_tool_method H {a} (py_void (py_versions_branch hexe name a))"
| "py_tool_method H {a} (py_void (py_versions_checkout hexe name a))"
| "py_tool_method H {a} (py_void (py_versions_merge H to_vec hexe now other strategy a))"
| "py_tool_method H {} (py_void (py_versions_as_of i a))"
| "py_tool_method H {} (py_void (py_reasoner_run H fresh t0 t1 r q))"
| "py_tool_method H {q} (py_void (py_reasoner_materialize H fresh t0 t1 r q))"
| "py_tool_method H {} (py_void (py_reference_ontology H))"
| "py_tool_method H {q} (py_void (py_build_reference_vocabulary H q))"
| "py_tool_method H {} (py_void (py_toy_org_ontology H))"
| "py_tool_method H {} (py_void (py_assert_axiom_present tag m q))"
| "py_tool_method H {} (py_void (py_assert_subclass_of sub super q))"
| "py_tool_method H {} (py_void (py_parse_cypher cdisp input))"
| "py_tool_method H {} (py_void (py_parse_sparql sdisp input))"
| "py_tool_method H {} (py_void (py_from_shacl_turtle pdisp input))"
| "py_tool_method H {} (py_void (py_from_rdf ts))"
| "py_tool_method H {} (py_void (py_turtle_read tdisp input))"
| "py_tool_method H {} (py_void (py_ntriples_read ndisp input))"
| "py_tool_method H {} (py_void (py_jsonld_read to_s read_json input))"
| "py_tool_method H {} (py_void (py_import_skos tdisp H f fresh now later input))"
| "py_tool_method H {} (py_void (py_import_foaf tdisp H f fresh now later input))"
| "py_tool_method H {} (py_void (py_import_schema_org jdisp H f to_s read_json fresh now later input))"
| "py_tool_method H {} (py_void (py_vector_record_new s v))"
| "py_tool_method H {} (py_void (py_vector_index_new))"
| "py_tool_method H {} (py_void (py_vector_index_with_dimensions n))"
| "py_tool_method H {a} (py_void (py_vector_index_insert b a))"
| "py_tool_method H {a} (py_void (py_vector_index_clear a))"
| "py_tool_method H {} (py_void (py_prompt_new user system limit))"
| "py_tool_method H {} (py_void (py_prompt_user user))"
| "py_tool_method H {a} (py_void (py_prompt_with_system user a))"
| "py_tool_method H {a} (py_void (py_prompt_with_max_tokens w a))"

lemmas py_tool_methods =
  py_finding_error_def py_finding_warning_def py_finding_with_focus_def py_report_new_def py_report_push_def
  py_report_extend_def py_report_findings_def py_report_errors_def py_validate_def py_check_shapes_def
  py_check_consistency_def py_versions_new_def py_versions_commit_def py_versions_branch_def
  py_versions_checkout_def py_versions_merge_def py_versions_as_of_def py_reasoner_run_def
  py_reasoner_materialize_def py_reference_ontology_def py_build_reference_vocabulary_def
  py_toy_org_ontology_def py_assert_axiom_present_def py_assert_subclass_of_def py_parse_cypher_def
  py_parse_sparql_def py_from_shacl_turtle_def py_from_rdf_def py_turtle_read_def py_ntriples_read_def
  py_jsonld_read_def py_import_skos_def py_import_foaf_def py_import_schema_org_def py_vector_record_new_def
  py_vector_index_new_def py_vector_index_with_dimensions_def py_vector_index_insert_def
  py_vector_index_clear_def py_prompt_new_def py_prompt_user_def py_prompt_with_system_def
  py_prompt_with_max_tokens_def

text \<open>A change that may fail, of a receiver that was read: the new object replaces it, or nothing changes.\<close>

lemma disciplined_write_ret: "obj_wf ob \<Longrightarrow> a \<in> R \<Longrightarrow> disciplined R (py_bind (py_write a ob) (\<lambda>_. py_ret x))"
  by (intro disciplined_then_ret disciplined_write)

lemma disciplined_versions_op:
  assumes "a \<in> R" "\<And>v. obj_wf (ObVersions v) \<Longrightarrow> obj_wf (ObVersions (snd (f v)))"
  shows "disciplined R (py_versions_op hexe f a)"
  unfolding py_versions_op_def
proof (rule versions_class.disciplined_read_bind)
  fix v assume v: "obj_wf (ObVersions v)"
  obtain r v' where f: "f v = (r, v')" by (cases "f v")
  then have "obj_wf (ObVersions v')" using assms(2) [OF v] by (simp del: obj_wf.simps)
  then show "disciplined R (case f v of (Inl e, v') \<Rightarrow> py_lift (Inl (PyRuntimeError (version_error_display hexe e)))
      | (Inr x, v') \<Rightarrow> py_bind (py_write a (ObVersions v')) (\<lambda>_. py_ret x))"
    using assms(1) f by (cases r) (simp_all add: disciplined_write_ret del: obj_wf.simps)
qed

text \<open>A step that cannot raise may follow any step.\<close>

lemma disciplined_then:
  assumes "disciplined R m" "\<And>x. disciplined R (f x)" "\<And>x s. \<exists>y. fst (f x s) = Inr y"
  shows "disciplined R (py_bind m f)"
  unfolding disciplined_def
proof (intro allI impI)
  fix s assume wf: "heap_wf s"
  obtain r s1 where m: "m s = (r, s1)" by (cases "m s")
  have d: "heap_wf s1" "hs_stores s1 = hs_stores s" "length (hs_objs s) \<le> length (hs_objs s1)"
    "a < length (hs_objs s) \<Longrightarrow> a \<notin> R \<Longrightarrow> hs_objs s1 ! a = hs_objs s ! a" "r = Inl e \<Longrightarrow> s1 = s" for a e
    using assms(1) wf m by (auto simp: disciplined_def)
  show "heap_wf (snd (py_bind m f s)) \<and> hs_stores (snd (py_bind m f s)) = hs_stores s \<and>
      length (hs_objs s) \<le> length (hs_objs (snd (py_bind m f s))) \<and>
      (\<forall>a < length (hs_objs s). a \<notin> R \<longrightarrow> hs_objs (snd (py_bind m f s)) ! a = hs_objs s ! a) \<and>
      (\<forall>e. fst (py_bind m f s) = Inl e \<longrightarrow> snd (py_bind m f s) = s)"
  proof (cases r)
    case (Inl e)
    then show ?thesis using d m by (auto simp: py_bind_def)
  next
    case (Inr x)
    have "py_bind m f s = f x s1" using m Inr by (simp add: py_bind_def)
    moreover obtain y where "fst (f x s1) = Inr y" using assms(3) by blast
    ultimately show ?thesis using assms(2) [of x] d by (auto simp: disciplined_def)
  qed
qed

lemma new_returns: "\<exists>y. fst (py_new ob s) = Inr y" "\<exists>y. fst (py_bind (py_new ob) (\<lambda>a. py_ret (g a)) s) = Inr y"
  by (simp_all add: py_new_def py_bind_def py_ret_def)

lemma disciplined_import: "(\<And>q act. r = Inr (q, act) \<Longrightarrow> deep_wf q) \<Longrightarrow> disciplined R (py_import disp r)"
  unfolding py_import_def
  by (auto intro!: disciplined_then disciplined_then_ret disciplined_new new_returns split: sum.split prod.split)

lemma disciplined_materialize: "q \<in> R \<Longrightarrow> disciplined R (py_reasoner_materialize H fresh t0 t1 r q)"
  unfolding py_reasoner_materialize_def
proof (rule ontology_class.disciplined_read_bind)
  fix x assume q: "q \<in> R" and x: "obj_wf (ObOntology x)"
  show "disciplined R (case reason_materialize H fresh t0 t1 r x of
      (Inl e, x') \<Rightarrow> py_lift (Inl (PyRuntimeError (reasoner_error_display e)))
    | (Inr rep, x') \<Rightarrow> py_bind (py_write q (ObOntology x')) (\<lambda>_. py_new (ObActivity (rr_activity rep))))"
  proof (cases "reason_materialize H fresh t0 t1 r x")
    case (Pair y x')
    then show ?thesis using q x deep_wf_materialize [of x H fresh t0 t1 r]
      by (cases y) (auto intro!: disciplined_then disciplined_write disciplined_new new_returns)
  qed
qed

lemma disciplined_commit: "a \<in> R \<Longrightarrow> disciplined R (py_versions_commit H to_vec now message author q a)"
  unfolding py_versions_commit_def
proof (intro versions_class.disciplined_read_bind ontology_class.disciplined_read_bind)
  fix v x assume "a \<in> R" "obj_wf (ObVersions v)" "obj_wf (ObOntology x)"
  then show "disciplined R (case v_commit H to_vec now message author x v of
      (i, v') \<Rightarrow> py_bind (py_write a (ObVersions v')) (\<lambda>_. py_ret i))"
    using obj_wf_versions(2) [of v x H to_vec now message author]
    by (cases "v_commit H to_vec now message author x v") (simp add: disciplined_write_ret del: obj_wf.simps(9))
qed

lemma disciplined_versions:
  "disciplined R py_versions_new" "disciplined R (py_versions_as_of i a)"
  "a \<in> R \<Longrightarrow> disciplined R (py_versions_branch hexe name a)" "a \<in> R \<Longrightarrow> disciplined R (py_versions_checkout hexe name a)"
  "a \<in> R \<Longrightarrow> disciplined R (py_versions_merge H to_vec hexe now other strategy a)"
  unfolding py_versions_new_def py_versions_as_of_def py_versions_branch_def py_versions_checkout_def py_versions_merge_def py_get_opt_def
  by (auto intro!: disciplined_new disciplined_versions_op obj_wf_versions versions_class.disciplined_read_bind disciplined_new_opt
      dest: obj_wf_as_of simp del: obj_wf.simps(9))

lemmas py_results_wf = deep_wf_reference deep_wf_toy deep_wf_from_rdf deep_wf_build_reference

lemma py_tool_method_disciplined: "py_tool_method H R m \<Longrightarrow> disciplined R m"
  by (induction rule: py_tool_method.induct; rule disciplined_void;
      (simp add: disciplined_materialize disciplined_commit disciplined_versions; fail)?;
      unfold py_tool_methods py_get_list_def py_get_opt_def py_get_new_def;
      (intro disciplined_intros disciplined_modify_by report_class.py_class_axioms disciplined_import)?;
      auto simp: Let_def py_results_wf intro!: disciplined_new disciplined_then_ret disciplined_write
        intro: deep_wf_readers deep_wf_imports schema_wf_from_shacl
        split: sum.split cy_failure.split sq_failure.split)

section \<open>Programs\<close>

text \<open>
  A call of a program, with the objects it may change: a constructor, a builder, a method or a function of the classes; a
  call that only reads, such as a getter, a writer of a format or the submission of an asynchronous call; the making of a
  store. \<open>from_json\<close> takes the ontology it reads as it is, so the text must hold a well-formed one.
\<close>

inductive py_method :: "hasher \<Rightarrow> py_env \<Rightarrow> nat set \<Rightarrow> unit py \<Rightarrow> bool" for H E where
  core: "py_call H E R m \<Longrightarrow> py_method H E R m"
| store: "py_store_method E R m \<Longrightarrow> py_method H E R m"
| tool: "py_tool_method H R m \<Longrightarrow> py_method H E R m"
| reads: "(\<And>s. snd (m s) = s) \<Longrightarrow> py_method H E {} m"
| from_json: "(\<And>q. from_text text = Inr q \<Longrightarrow> deep_wf q) \<Longrightarrow> py_method H E {} (py_void (py_ontology_from_json from_text text))"
| new_store: "py_method H E {} (py_void py_store_new)"
| new_store_from: "py_method H E {} (py_void (py_store_from_ontology q))"

lemma getter_reads: "snd (py_void (py_get sel f a) s) = s"
  by (simp add: py_void_def py_get_def py_bind_def py_read_def py_ret_def split: option.split)

text \<open>What every call keeps: \<open>disciplined\<close>, but for the stores it makes.\<close>

definition well_behaved :: "nat set \<Rightarrow> unit py \<Rightarrow> bool" where
  "well_behaved R m \<longleftrightarrow> (\<forall>s. heap_wf s \<longrightarrow>
     heap_wf (snd (m s)) \<and> (\<exists>new. hs_stores (snd (m s)) = hs_stores s @ new) \<and>
     length (hs_objs s) \<le> length (hs_objs (snd (m s))) \<and>
     (\<forall>a < length (hs_objs s). a \<notin> R \<longrightarrow> hs_objs (snd (m s)) ! a = hs_objs s ! a) \<and>
     (\<forall>e. fst (m s) = Inl e \<longrightarrow> snd (m s) = s))"

lemma disciplined_well_behaved: "disciplined R m \<Longrightarrow> well_behaved R m"
  by (auto simp: disciplined_def well_behaved_def)

lemma new_store_well_behaved:
  "well_behaved {} (py_void py_store_new)" "well_behaved {} (py_void (py_store_from_ontology q))"
proof -
  have new: "py_void (py_new_store m) s = (Inr (), s\<lparr>hs_objs := hs_objs s @ [ObStore (length (hs_stores s))], hs_stores := hs_stores s @ [m]\<rparr>)" for m s
    by (simp add: py_void_def py_bind_def py_new_store_def py_new_def py_ret_def)
  have wf: "heap_wf (s\<lparr>hs_objs := hs_objs s @ [ObStore (length (hs_stores s))], hs_stores := hs_stores s @ [m]\<rparr>)"
    if "heap_wf s" "mem_wf m" "deep_wf (ms_ont m)" for m s
    using that by (auto simp: heap_wf_def)
  have "mem_wf mem_new" "deep_wf (ms_ont mem_new)" by simp (simp add: mem_new_def)
  then show "well_behaved {} (py_void py_store_new)"
    unfolding well_behaved_def py_store_new_def new using wf by (auto simp: nth_append)
  show "well_behaved {} (py_void (py_store_from_ontology q))"
    unfolding well_behaved_def
  proof (intro allI impI)
    fix s assume s: "heap_wf s"
    let ?m = "py_void (py_store_from_ontology q)"
    show "heap_wf (snd (?m s)) \<and> (\<exists>new. hs_stores (snd (?m s)) = hs_stores s @ new) \<and> length (hs_objs s) \<le> length (hs_objs (snd (?m s))) \<and>
      (\<forall>a < length (hs_objs s). a \<notin> {} \<longrightarrow> hs_objs (snd (?m s)) ! a = hs_objs s ! a) \<and> (\<forall>e. fst (?m s) = Inl e \<longrightarrow> snd (?m s) = s)"
    proof (cases "fst (py_read as_ontology q s)")
      case (Inl e)
      then have "?m s = (Inl e, s)" by (auto simp: py_void_def py_store_from_ontology_def py_bind_def py_read_def split: option.splits if_splits)
      then show ?thesis using s by simp
    next
      case (Inr x)
      then have "?m s = py_void (py_new_store (mem_from_ontology x)) s"
        by (auto simp: py_void_def py_store_from_ontology_def py_bind_def py_read_def split: option.splits if_splits)
      moreover have "deep_wf x" using ontology_class.read_wf [OF s Inr] by simp
      then have "mem_wf (mem_from_ontology x)" "deep_wf (ms_ont (mem_from_ontology x))"
        by (simp_all add: deep_wfD(1) mem_from_ontology_def mem_wf_def)
      ultimately show ?thesis using wf [OF s] by (auto simp: new nth_append)
    qed
  qed
qed

lemma py_method_well_behaved: "py_method H E R m \<Longrightarrow> well_behaved R m"
proof (induction rule: py_method.induct)
  case (from_json from_text src)
  then have "disciplined {} (py_ontology_from_json from_text src)"
    by (cases "from_text src") (auto simp: py_ontology_from_json_def intro!: disciplined_new)
  then show ?case by (intro disciplined_well_behaved disciplined_void)
next
  case (reads m)
  then show ?case by (auto simp: well_behaved_def)
qed (use disciplined_well_behaved py_call_disciplined py_store_method_disciplined py_tool_method_disciplined
    new_store_well_behaved in blast)+

text \<open>A program stops at the first exception.\<close>

fun py_run :: "unit py list \<Rightarrow> unit py" where
  "py_run [] s = (Inr (), s)"
| "py_run (m # ms) s = py_bind m (\<lambda>_. py_run ms) s"

section \<open>Properties\<close>

text \<open>
  C15: whatever program runs over the classes, through aliases and exceptions, the invariants of every object and the
  stores hold afterwards, the stores there were are as they were, and so is every object that no call changes: a call
  changes its receiver, or the ontology given to \<open>materialize\<close> or \<open>build_reference_vocabulary\<close>, and nothing else, since
  other arguments and results are copies. A program that raises leaves exactly the state of the calls before the one that
  raised. Asynchronous calls are submitted here, not performed, and the texts given to \<open>from_json\<close>, which checks
  nothing, must hold well-formed ontologies.
\<close>
theorem programs_keep_others:
  assumes "list_all2 (py_method H E) Rs ms" "heap_wf s" "py_run ms s = (r, s')"
  shows "heap_wf s' \<and> take (length (hs_stores s)) (hs_stores s') = hs_stores s \<and>
    (\<forall>a < length (hs_objs s). a \<notin> \<Union> (set Rs) \<longrightarrow> hs_objs s' ! a = hs_objs s ! a) \<and>
    (\<forall>e. r = Inl e \<longrightarrow> (\<exists>k < length ms. py_run (take k ms) s = (Inr (), s') \<and> (ms ! k) s' = (Inl e, s')))"
proof -
  have "heap_wf s' \<and> (\<exists>new. hs_stores s' = hs_stores s @ new) \<and> length (hs_objs s) \<le> length (hs_objs s') \<and>
    (\<forall>a < length (hs_objs s). a \<notin> \<Union> (set Rs) \<longrightarrow> hs_objs s' ! a = hs_objs s ! a) \<and>
    (\<forall>e. r = Inl e \<longrightarrow> (\<exists>k < length ms. py_run (take k ms) s = (Inr (), s') \<and> (ms ! k) s' = (Inl e, s')))"
    using assms
  proof (induction Rs ms arbitrary: s rule: list_all2_induct)
    case (Cons R Rs m ms)
    note d = py_method_well_behaved [OF Cons.hyps(1), unfolded well_behaved_def, rule_format, OF Cons.prems(1)]
    obtain q s1 where m: "m s = (q, s1)" by (cases "m s")
    show ?case
    proof (cases q)
      case (Inl e)
      then have "s1 = s" "r = Inl e" "s' = s" using d m Cons.prems(2) by (auto simp: py_bind_def)
      then show ?thesis using m Inl Cons.prems(1) by (intro conjI) (auto intro!: exI [of _ 0])
    next
      case (Inr x)
      then have run: "py_run ms s1 = (r, s')" using m Cons.prems(2) by (simp add: py_bind_def)
      have s1: "heap_wf s1" "\<exists>new. hs_stores s1 = hs_stores s @ new" "length (hs_objs s) \<le> length (hs_objs s1)"
        "a < length (hs_objs s) \<Longrightarrow> a \<notin> R \<Longrightarrow> hs_objs s1 ! a = hs_objs s ! a" for a
        using d m by auto
      have ih: "heap_wf s'" "\<exists>new. hs_stores s' = hs_stores s1 @ new" "length (hs_objs s1) \<le> length (hs_objs s')"
        "a < length (hs_objs s1) \<Longrightarrow> a \<notin> \<Union> (set Rs) \<Longrightarrow> hs_objs s' ! a = hs_objs s1 ! a"
        "r = Inl e \<Longrightarrow> \<exists>k < length ms. py_run (take k ms) s1 = (Inr (), s') \<and> (ms ! k) s' = (Inl e, s')" for a e
        using Cons.IH [OF s1(1) run] by auto
      have "\<exists>k < length (m # ms). py_run (take k (m # ms)) s = (Inr (), s') \<and> ((m # ms) ! k) s' = (Inl e, s')" if err: "r = Inl e" for e
      proof -
        obtain k where "k < length ms" "py_run (take k ms) s1 = (Inr (), s')" "(ms ! k) s' = (Inl e, s')"
          using ih(5) [OF err] by auto
        then show ?thesis using m Inr by (intro exI [of _ "Suc k"]) (simp add: py_bind_def)
      qed
      moreover have "\<exists>new. hs_stores s' = hs_stores s @ new" using s1(2) ih(2) by auto
      ultimately show ?thesis using s1(1,3,4) ih(1,3,4) by auto
    qed
  qed auto
  then show ?thesis by auto
qed

definition sample_heap :: py_state where
  [code_defs]: "sample_heap = \<lparr>hs_objs = [ObOntology ontology_new, ObSchema schema_new], hs_stores = []\<rparr>"

lemma programs_keep_others_witness:
  "\<exists>r s'. py_run [py_void (py_ontology_declare_node_type ''Person'' 0), py_void (py_edge_with_property ''k'' VNone 0)] sample_heap = (r, s') \<and>
     heap_wf s' \<and> hs_objs s' ! 1 = ObSchema schema_new \<and> r = Inl PyArgument"
proof -
  let ?ms = "[py_void (py_ontology_declare_node_type ''Person'' 0), py_void (py_edge_with_property ''k'' VNone 0)]"
  obtain r s' where run: "py_run ?ms sample_heap = (r, s')" by (cases "py_run ?ms sample_heap")
  have calls: "list_all2 (py_method (\<lambda>_ b. b) sample_env) [{0}, {0}] ?ms" by (auto intro: py_method.core py_call.intros)
  have wf: "heap_wf sample_heap" by (simp add: heap_wf_def sample_heap_def schema_wf_new)
  have "r = Inl PyArgument" using run
    by (auto simp: py_bind_def py_void_def py_ontology_declare_node_type_def py_edge_with_property_def py_with_value_def py_modify_def
        py_read_def py_write_def py_ret_def sample_heap_def)
  then show ?thesis using programs_keep_others [OF calls wf run] run by (auto simp: sample_heap_def)
qed

text \<open>
  C30: the schema that an ontology hands out is a copy: declaring a type in it leaves the ontology as it was, and takes
  effect there once the schema is set again.
\<close>
theorem schema_edits_need_setting:
  assumes "a < length (hs_objs s)" "hs_objs s ! a = ObOntology q" "l = length (hs_objs s)"
    "edits = [py_void (py_ontology_schema a), py_void (py_node_type_new name), py_void (py_schema_declare_node_type (l + 1) l)]"
  shows "(\<exists>s'. py_run edits s = (Inr (), s') \<and> hs_objs s' ! a = ObOntology q \<and>
      hs_objs s' ! l = ObSchema (declare_node_type (nt_new name) (o_schema q))) \<and>
    (\<exists>s'. py_run (edits @ [py_void (py_ontology_set_schema l a)]) s = (Inr (), s') \<and>
      hs_objs s' ! a = ObOntology (q\<lparr>o_schema := declare_node_type (nt_new name) (o_schema q)\<rparr>))"
  using assms
  by (simp add: py_bind_def py_void_def py_ret_def py_new_def py_write_def py_modify_def py_read_def py_get_new_def
      py_ontology_schema_def py_node_type_new_def py_schema_declare_node_type_def py_ontology_set_schema_def nth_append list_update_append)

lemma schema_edits_need_setting_witness:
  "\<exists>s'. py_run ([py_void (py_ontology_schema 0), py_void (py_node_type_new ''Person''), py_void (py_schema_declare_node_type 3 2)] @
        [py_void (py_ontology_set_schema 2 0)]) sample_heap = (Inr (), s') \<and>
      hs_objs s' ! 0 = ObOntology (ontology_new\<lparr>o_schema := declare_node_type (nt_new ''Person'') (o_schema ontology_new)\<rparr>)"
  using schema_edits_need_setting [of 0 sample_heap ontology_new 2 _ "''Person''"] by (simp add: sample_heap_def)

end
