(* ===== verification/Py_Async.thy ===== *)
theory Py_Async
  imports Py_Session
begin

text \<open>
  The asynchronous calls of Python on a \<open>MemStore\<close>: submitting one changes nothing, and performing it has the effect on its
  store that \<open>Mem_Locks\<close> shows the concurrent calls to take in some order, hands out new objects and keeps the
  invariants.
\<close>

section \<open>Commits\<close>

lemma deep_wf_fold:
  "deep_wf q \<Longrightarrow> (\<And>x. x \<in> set xs \<Longrightarrow> bm_wf (n_props x)) \<Longrightarrow> deep_wf (fold upsert_node xs q)"
  "deep_wf q \<Longrightarrow> (\<And>x. x \<in> set ys \<Longrightarrow> bm_wf (e_props x)) \<Longrightarrow> deep_wf (fold upsert_edge ys q)"
  "deep_wf q \<Longrightarrow> deep_wf (fold (\<lambda>a. upsert_axiom (stamp_axiom p a)) zs q)"
proof -
  show "deep_wf q \<Longrightarrow> (\<And>x. x \<in> set xs \<Longrightarrow> bm_wf (n_props x)) \<Longrightarrow> deep_wf (fold upsert_node xs q)"
    by (induction xs arbitrary: q) auto
  show "deep_wf q \<Longrightarrow> (\<And>x. x \<in> set ys \<Longrightarrow> bm_wf (e_props x)) \<Longrightarrow> deep_wf (fold upsert_edge ys q)"
    by (induction ys arbitrary: q) auto
  show "deep_wf q \<Longrightarrow> deep_wf (fold (\<lambda>a. upsert_axiom (stamp_axiom p a)) zs q)"
    by (induction zs arbitrary: q) auto
qed

lemma deep_wf_apply_delta: "deep_wf q \<Longrightarrow> obj_wf (ObDelta d) \<Longrightarrow> deep_wf (apply_delta d p q)"
  by (simp add: apply_delta_def deep_wf_fold)

lemma obj_wf_logs [simp]: "prov_log_wf l \<Longrightarrow> obj_wf (ObLog (record_activity x l))"
  by simp

section \<open>Asynchronous calls\<close>

inductive py_store_async :: "submission py \<Rightarrow> bool" where
  "py_store_async (py_store_upsert_node b a)"
| "py_store_async (py_store_upsert_edge b a)"
| "py_store_async (py_store_upsert_axiom b a)"
| "py_store_async (py_store_match_pattern b a)"
| "py_store_async (py_store_traverse b a)"
| "py_store_async (py_store_diff b a)"
| "py_store_async (py_store_node i a)"
| "py_store_async (py_store_edge j a)"
| "py_store_async (py_store_snapshot a)"
| "py_store_async (py_store_provenance a)"
| "py_store_async (py_store_commit_with_provenance d act a)"

fun call_wf :: "store_call \<Rightarrow> bool" where
  "call_wf (CallUpsertNode n) = bm_wf (n_props n)"
| "call_wf (CallUpsertEdge e) = bm_wf (e_props e)"
| "call_wf (CallCommit d act) = obj_wf (ObDelta d)"
| "call_wf _ = True"

lemma submission_pure: "py_store_async m \<Longrightarrow> snd (m s) = s"
  by (induction rule: py_store_async.induct)
    (auto simp: py_store_upsert_node_def py_store_upsert_edge_def py_store_upsert_axiom_def py_store_match_pattern_def
      py_store_traverse_def py_store_diff_def py_store_node_def py_store_edge_def py_store_snapshot_def py_store_provenance_def
      py_store_commit_with_provenance_def py_submit_with_def py_get_def py_bind_def py_ret_def py_read_def
      split: option.splits)

lemma submission_wf: "py_store_async m \<Longrightarrow> heap_wf s \<Longrightarrow> fst (m s) = Inr (k, c) \<Longrightarrow> call_wf c"
  by (induction rule: py_store_async.induct)
    (auto simp: py_store_upsert_node_def py_store_upsert_edge_def py_store_upsert_axiom_def py_store_match_pattern_def
      py_store_traverse_def py_store_diff_def py_store_node_def py_store_edge_def py_store_snapshot_def py_store_provenance_def
      py_store_commit_with_provenance_def py_submit_with_def py_get_def py_bind_def py_ret_def py_read_def as_iff heap_wf_def
      split: option.splits if_splits dest!: nth_mem)

text \<open>Performing a call: the store changes as \<open>call_effect\<close> says, every object stays, and the results are new objects.\<close>

lemma store_op_in:
  assumes "k < length (hs_stores s)"
  shows "py_store_op k (op_read f) s = (Inr (f (hs_stores s ! k)), s)"
    "py_store_op k (\<lambda>m. op_ok (g m)) s = (Inr (fst (g (hs_stores s ! k))), s\<lparr>hs_stores := (hs_stores s)[k := snd (g (hs_stores s ! k))]\<rparr>)"
    "py_store_op k (\<lambda>m. (Inr u, h m)) s = (Inr u, s\<lparr>hs_stores := (hs_stores s)[k := h (hs_stores s ! k)]\<rparr>)"
  using assms by (simp_all add: py_store_op_def op_read_def op_ok_def)

lemma store_op_out: "\<not> k < length (hs_stores s) \<Longrightarrow> py_store_op k f s = (Inl PyArgument, s)"
  by (simp add: py_store_op_def)

lemma news_state: "\<exists>as. py_news obs s = (Inr as, s\<lparr>hs_objs := hs_objs s @ obs\<rparr>)"
proof (induction obs arbitrary: s)
  case (Cons ob obs)
  obtain as where "py_news obs (s\<lparr>hs_objs := hs_objs s @ [ob]\<rparr>) = (Inr as, s\<lparr>hs_objs := hs_objs s @ ob # obs\<rparr>)"
    using Cons [of "s\<lparr>hs_objs := hs_objs s @ [ob]\<rparr>"] by auto
  then show ?case by (simp add: py_bind_def py_new_def py_ret_def)
qed simp

text \<open>The objects that a call hands to Python.\<close>

fun call_objects :: "store_call \<Rightarrow> mem_state \<Rightarrow> py_obj list" where
  "call_objects (CallNode i) m = (case mem_node m i of None \<Rightarrow> [] | Some n \<Rightarrow> [ObNode n])"
| "call_objects (CallEdge i) m = (case mem_edge m i of None \<Rightarrow> [] | Some e \<Rightarrow> [ObEdge e])"
| "call_objects (CallMatch p) m = map ObRow (match_pattern m p)"
| "call_objects (CallTraverse p) m = map ObRow (traverse m p)"
| "call_objects CallSnapshot m = [ObOntology (mem_snapshot m)]"
| "call_objects (CallDiff q) m = [ObDiff (ont_diff (ms_ont m) q)]"
| "call_objects CallProvenance m = [ObLog (mem_provenance m)]"
| "call_objects _ m = []"

lemma complete_state:
  assumes "k < length (hs_stores s)"
  shows "snd (py_complete k c s) =
     s\<lparr>hs_objs := hs_objs s @ call_objects c (hs_stores s ! k),
       hs_stores := (hs_stores s)[k := snd (call_effect c (hs_stores s ! k))]\<rparr>"
proof (cases c)
  case (CallMatch p)
  obtain as where "py_news (map ObRow (match_pattern (hs_stores s ! k) p)) s =
      (Inr as, s\<lparr>hs_objs := hs_objs s @ map ObRow (match_pattern (hs_stores s ! k) p)\<rparr>)"
    using news_state by blast
  then show ?thesis using CallMatch assms by (simp add: mem_ops_def store_op_in py_bind_def py_ret_def)
next
  case (CallTraverse p)
  obtain as where "py_news (map ObRow (traverse (hs_stores s ! k) p)) s =
      (Inr as, s\<lparr>hs_objs := hs_objs s @ map ObRow (traverse (hs_stores s ! k) p)\<rparr>)"
    using news_state by blast
  then show ?thesis using CallTraverse assms by (simp add: mem_ops_def store_op_in py_bind_def py_ret_def)
qed (use assms in \<open>simp_all add: mem_ops_def store_op_in py_bind_def py_ret_def py_new_def py_new_opt_def split: option.split\<close>)

lemma complete_out: "\<not> k < length (hs_stores s) \<Longrightarrow> snd (py_complete k c s) = s"
  by (cases c) (simp_all add: store_op_out py_bind_def)

lemma apply_call_wf:
  assumes "mem_wf m" "deep_wf (ms_ont m)" "call_wf c"
  shows "mem_wf (snd (call_effect c m))" "deep_wf (ms_ont (snd (call_effect c m)))"
  using assms by (cases c; simp add: mem_upsert_node_def mem_upsert_edge_def mem_upsert_axiom_def mem_commit_def deep_wf_apply_delta mem_wf_def)+

lemma call_objects_wf:
  assumes "mem_wf m" "deep_wf (ms_ont m)"
  shows "ob \<in> set (call_objects c m) \<Longrightarrow> obj_wf ob"
  using assms by (cases c) (auto simp: mem_node_def mem_edge_def mem_snapshot_def mem_provenance_def mem_wf_def
      split: option.splits intro: deep_wfD deep_wfD(4,5) [OF _ sym])

lemma complete_wf:
  assumes "heap_wf s" "call_wf c"
  shows "heap_wf (snd (py_complete k c s))"
proof (cases "k < length (hs_stores s)")
  case True
  then have m: "mem_wf (hs_stores s ! k)" "deep_wf (ms_ont (hs_stores s ! k))" using assms(1) by (auto simp: heap_wf_def)
  show ?thesis
    using assms(1) apply_call_wf [OF m assms(2)] call_objects_wf [OF m]
    by (auto simp: complete_state [OF True] heap_wf_def dest!: subsetD [OF set_update_subset_insert])
qed (simp add: complete_out assms(1))

text \<open>
  Awaiting a submitted call, from the heap at the time of the call to the heap at the time the runtime performs it: the
  call keeps the arguments of its submission whatever has happened to the objects since.
\<close>

theorem awaited_call:
  assumes "py_store_async m" "heap_wf s" "m s = (Inr (k, c), s')" "heap_wf t" "k < length (hs_stores t)"
  shows "s' = s \<and> heap_wf (snd (py_complete k c t)) \<and>
    hs_stores (snd (py_complete k c t)) = (hs_stores t)[k := snd (call_effect c (hs_stores t ! k))] \<and>
    (\<forall>a < length (hs_objs t). hs_objs (snd (py_complete k c t)) ! a = hs_objs t ! a)"
proof -
  have "call_wf c" using submission_wf [OF assms(1,2)] assms(3) by simp
  then have "heap_wf (snd (py_complete k c t))" by (rule complete_wf [OF assms(4)])
  then show ?thesis using submission_pure [OF assms(1), of s] assms(3) by (simp add: complete_state [OF assms(5)] nth_append)
qed

lemma awaited_call_witness:
  "hs_stores (snd (py_complete 0 CallSnapshot \<lparr>hs_objs = [ObStore 0], hs_stores = [mem_new]\<rparr>)) = [mem_new]"
proof -
  let ?s = "\<lparr>hs_objs = [ObStore 0], hs_stores = [mem_new]\<rparr>"
  have wf: "heap_wf ?s" by (simp add: heap_wf_def) (simp add: mem_new_def)
  have "py_store_snapshot 0 ?s = (Inr (0, CallSnapshot), ?s)"
    by (simp add: py_store_snapshot_def py_get_def py_bind_def py_read_def py_ret_def)
  from awaited_call [OF py_store_async.intros(9) wf this wf] show ?thesis by simp
qed

end
