(* ===== verification/Spec2Isabelle.thy ===== *)
theory Spec2Isabelle
  imports Persist_Store Version_Store Reason_Engine Validate Rdf_NTriples Query_Answers Proj_Ingest Proj_Effect
    Remote_Client Import_Mapping Shacl_Parse Induce Embed_Resolver Org Testkit Facade Viz Py_Async
begin

text \<open>
  atomr-ontology is a Rust workspace around one data model: an ontology of typed nodes, labelled
  edges, axioms and a schema. This development models the crates that carry its logic. It says what
  each definition corresponds to by the path of the source file at the head of each theory; paths
  are relative to the repository.

  \<^bold>\<open>Parts and theories.\<close> (crate under \<open>crates/atomr-ontology-..\<close>, then the theory)

  \<^item> \<open>core\<close>: \<open>Core_Ids\<close> (identifiers, IRIs, vocabulary), \<open>Core_Data\<close> (values, nodes, edges, axioms),
    \<open>Core_Schema\<close> (types, cardinalities, supertypes), \<open>Core_Ontology\<close> (the aggregate root and its
    invariant \<open>ont_wf\<close>). \<open>Prelude\<close> holds the sorted association lists that stand for \<open>BTreeMap\<close>
    and \<open>BTreeSet\<close> with their interface \<open>keyed_map\<close>, and the byte strings.
  \<^item> \<open>provenance\<close>: \<open>Provenance\<close>, the ledger each commit appends to.
  \<^item> \<open>store\<close>: \<open>Store_Api\<close> (patterns, plans, deltas; the trait as locale \<open>ontology_store\<close>) and
    \<open>Mem_Store\<close> (the store in memory: commit, match, traverse, diff) and \<open>Mem_Locks\<close> (its methods as the statements
    they perform under the guard of their lock, with threads that interleave them).
  \<^item> \<open>persist\<close>: \<open>Persist_Wire\<close> (the wire form), \<open>Persist_Checkpoint\<close> (the trait as locale
    \<open>checkpointer\<close>, three providers), \<open>Persist_Store\<close> (the store that saves on each commit, and the
    interleaving of concurrent commits).
  \<^item> \<open>version\<close>: \<open>Version_Store\<close>, commits, branches, merge, log.
  \<^item> \<open>reason\<close>: \<open>Reason_Rules\<close> (the seven rules) and \<open>Reason_Engine\<close> (the fixed point).
  \<^item> \<open>validate\<close>: \<open>Validate\<close>, shape and consistency reports.
  \<^item> \<open>rdf\<close>: \<open>Rdf_Adapter\<close> (projection to triples and import), \<open>Rdf_NTriples\<close>, \<open>Rdf_Turtle\<close> and \<open>Rdf_JsonLd\<close>
    (writers and parsers).
  \<^item> \<open>import\<close>: \<open>Import_Mapping\<close> (the mapping engine and the FOAF, SKOS and schema.org importers).
  \<^item> \<open>shacl\<close>: \<open>Shacl_Compile\<close> (a schema to SHACL in Turtle), \<open>Shacl_Parse\<close> (back), \<open>Shacl_Read\<close> (how the
    Turtle parser reads what the compiler writes).
  \<^item> \<open>extract\<close>: \<open>Extract_Backend\<close> (language-model backends and the answer cache), \<open>Extract_Stages\<close> (terms,
    entities, relations, records, pipelines), \<open>Extract_Agent\<close> (agent sessions and the tools over a store).
  \<^item> \<open>induce\<close>: \<open>Induce\<close>, concepts, taxonomies and axioms proposed by a model or an agent.
  \<^item> \<open>query\<close>: \<open>Query_Lex\<close>, \<open>Query_Cypher\<close> and \<open>Query_Sparql\<close> (the two parsers to traversal plans);
    \<open>Query_Answers\<close> composes them with the store. \<open>Std_Text\<close> holds the standard library's string operations.
  \<^item> \<open>actor-projection\<close>: \<open>Proj_Data\<close> (actor paths, events, cursors), \<open>Proj_Strategy\<close> (IRI minting,
    reconciliation, attributes), \<open>Proj_Project\<close> (the five projections), \<open>Proj_Run\<close> (the projector's pipeline),
    \<open>Proj_Ingest\<close> (sources as locale \<open>actor_source\<close>, polling and push), \<open>Proj_Effect\<close> (what a batch does to a store).
  \<^item> \<open>remote\<close>: \<open>Remote_Wire\<close> (protocol messages), \<open>Remote_Http\<close> (request reading), \<open>Remote_Server\<close> (dispatch
    over the record \<open>store_ops\<close> of the trait's methods, which \<open>Store_Ops\<close> builds for both stores), \<open>Remote_Client\<close> (the store that forwards).
  \<^item> \<open>embed\<close>: \<open>Embed_Index\<close> (vectors ranked by cosine similarity), \<open>Embed_Resolver\<close> (embedding backends, ingestion
    and proposals) over \<open>Std_Float\<close>, the IEEE 754 values and roundings of \<open>f32\<close> and \<open>f64\<close> that they compute with.
  \<^item> \<open>org\<close>: \<open>Org\<close>, the reference vocabulary. \<open>viz\<close>: \<open>Viz\<close>, GraphViz and Mermaid documents. \<open>testkit\<close>: \<open>Testkit\<close>,
    the scripted backend, fixtures and assertions.
  \<^item> the umbrella crate \<open>crates/atomr-ontology\<close>: \<open>Facade\<close>, its backends over HTTP and over wrapped drivers.
  \<^item> \<open>py\<close>, the Python bindings: \<open>Py_Values\<close> (values, exceptions, conversions), \<open>Py_Heap\<close> (objects under addresses,
    with the locale \<open>py_class\<close> that each of the 29 classes interprets), \<open>Py_Core\<close>, \<open>Py_Store\<close> and \<open>Py_Tools\<close> (the
    methods and functions), \<open>Py_Program\<close>, \<open>Py_Results\<close> and \<open>Py_Session\<close> (programs of calls), \<open>Py_Async\<close>
    (what awaiting a call on a \<open>MemStore\<close> does to the objects and the store).

  \<^bold>\<open>How they interact.\<close> The stores apply deltas with the upserts of \<open>Core_Ontology\<close> and append an
  activity to the ledger. The persistent store is the memory store followed by a save through a
  checkpointer, which stores the wire form of its snapshot. The version store holds whole ontologies.
  The reasoner reads and extends one ontology; the validator reads one; the RDF crate converts one.
  A query text becomes a plan that \<open>traverse\<close> runs. The projector turns the events of an actor runtime
  into deltas that it commits to a store. The remote client is a store whose methods travel as RPC messages to
  the server, which dispatches them to the store it holds.

  \<^bold>\<open>What the lemmas show.\<close> Every operation that changes an ontology keeps \<open>ont_wf\<close>. The two stores
  agree (refinement), both satisfy the contract of the trait, and a traversal emits exactly the nodes
  at the shortest distances asked for. Snapshots survive encoding and decoding; a successful commit is
  recovered by a restart; the orders of concurrent saves that break this are exhibited. Merges, logs
  and reachable histories are characterised. Reasoning is sound for the models of the axioms, reaches
  a closed set under its rules, and does so within a bound computed from the ontology. Reports are
  clean exactly when the constraints hold. What the RDF writers print their parsers read back, within the bounds
  the statements name. An import builds exactly the graph its mapping selects. The query parsers read every
  plan of their subset from its text, agree on paths, and their plans find the nodes the path describes.
  The hierarchical projection of a set of paths is the tree of their prefixes, projecting again changes nothing, and a
  polling run delivers each event once (with the interleaving that loses one exhibited). A request is read the same
  whatever chunks it arrives in, within a bounded buffer, and a remote store answers as the store it serves.
  A schema compiled to SHACL parses back up to what SHACL cannot say. The answer cache returns what the model said to
  that very prompt and stays within its capacity when calls do not overlap (it does not otherwise), a fenced answer is
  read as its body, and the tools of an agent report the hierarchy exactly and change nothing. A search returns the
  records of highest similarity in order, an ingested ontology is proposed from by rank, and a component of the
  hash embedding lies in \<open>[-1, 1]\<close> after every rounding. The reference vocabulary merges into any ontology without touching the
  rest, refers to declared types only, and its axioms are those its declarations imply. A GraphViz document
  reads back as the graph it was written from. Concurrent calls on a memory store are linearisable and never deadlock, given a
  lock that keeps writers apart. Python programs change only the objects their calls are on and keep the
  invariants of every object, and a property map survives the way to Python and back.

  \<^bold>\<open>Parameters.\<close> Code outside the repository is an argument of the definitions that use it: the hash
  (Blake3), the \<open>hex\<close> crate, the policy of \<open>parking_lot\<close>'s read-write lock, \<open>serde_json\<close>, the text forms of floats and dates, clock readings and
  fresh UUIDs, the outcome of file and database calls, the language model and the agent driver, the HTTP client and the environment, the \<open>Debug\<close> forms of values, Python's \<open>json\<close> module and timestamps, and the iteration order of a \<open>HashMap\<close> where a
  result depends on it. What a theorem assumes of them is a hypothesis of that theorem.

  \<^bold>\<open>Bounds and fuel.\<close> Counters and byte arithmetic are words of their width. Loops are structural
  recursion, folds, or recursion with a measure; the worklist loops (supertypes, cycle search,
  ancestors) are measured by the unvisited keys, so no fuel is needed. The reasoner keeps the iteration
  cap of the code; \<open>reasoning_terminates\<close> gives a bound on the rounds it needs.

  \<^bold>\<open>Not modelled.\<close> Actor supervision and sockets (third-party runtimes), \<open>batch_complete\<close> of a backend, whose
  calls interleave in code outside the repository, examples and build tasks. Of the Python bindings: the registration
  of the module, \<open>__repr__\<close> and hashing, and the files that wrap the agents, extraction stages, inducers and the
  projector. The async methods of the memory store hold no await; the
  other async code is modelled by the critical sections its locks delimit.
\<close>

end
